(* ===== verification/Prelude.thy ===== *)
theory Prelude
  imports Main "HOL-Library.Word" "HOL-Library.Signed_Division"
begin

text \<open>
  Shared vocabulary of the development: the C integer types of the target of the code (OpenBSD
  on i386: \<open>int\<close>, \<open>long\<close> and \<open>time_t\<close> have 32 bits, \<open>long long\<close> has 64, little endian), the
  functions of the C library that the sources call on strings (\<open>strsep\<close>, \<open>strcasecmp\<close>,
  \<open>strchr\<close>, \<open>isspace\<close>, the \<open>strto*\<close> family), little-endian byte encodings, and generic
  lemmas on lists, maps and words.  Strings are \<open>char list\<close>s without their terminating zero; a
  pointer that may be \<open>NULL\<close> is an \<open>option\<close>.
\<close>

unbundle bit_operations_syntax

named_theorems enc_simps "byte encodings and their inverses"
named_theorems os_frame "what an operation leaves unchanged"

type_synonym byte = "8 word"
type_synonym u32 = "32 word"
type_synonym u64 = "64 word"

section \<open>Machine integers\<close>

text \<open>A value that C computes in a signed type of the given width, wrapped to that width.\<close>

definition i32 :: "int \<Rightarrow> int" where
  "i32 x = (x + 2 ^ 31) mod 2 ^ 32 - 2 ^ 31"

definition i64 :: "int \<Rightarrow> int" where
  "i64 x = (x + 2 ^ 63) mod 2 ^ 64 - 2 ^ 63"

definition in_i32 :: "int \<Rightarrow> bool" where
  "in_i32 x \<longleftrightarrow> - (2 ^ 31) \<le> x \<and> x < 2 ^ 31"

definition in_i64 :: "int \<Rightarrow> bool" where
  "in_i64 x \<longleftrightarrow> - (2 ^ 63) \<le> x \<and> x < 2 ^ 63"

lemma i32_id: "in_i32 x \<Longrightarrow> i32 x = x"
  by (simp add: i32_def in_i32_def)

lemma i64_id: "in_i64 x \<Longrightarrow> i64 x = x"
  by (simp add: i64_def in_i64_def)

lemma i32_range: "in_i32 (i32 x)"
  by (simp add: i32_def in_i32_def)

lemma i64_range: "in_i64 (i64 x)"
  by (simp add: i64_def in_i64_def)

lemma i32_idem [simp]: "i32 (i32 x) = i32 x"
  by (rule i32_id[OF i32_range])

lemma sint_in_i32 [simp]: "in_i32 (sint (w :: u32))"
  using sint_greater_eq[of w] sint_less[of w] by (simp add: in_i32_def)

lemma sint_in_i64 [simp]: "in_i64 (sint (w :: u64))"
  using sint_greater_eq[of w] sint_less[of w] by (simp add: in_i64_def)

lemma sint_word_of_int_32: "in_i32 x \<Longrightarrow> sint (word_of_int x :: u32) = x"
  by (simp add: in_i32_def sint_word_ariths signed_of_int signed_take_bit_int_eq_self)

lemma sint_word_of_int_64: "in_i64 x \<Longrightarrow> sint (word_of_int x :: u64) = x"
  by (simp add: in_i64_def sint_word_ariths signed_of_int signed_take_bit_int_eq_self)

lemma int_mult_not_neg [simp]: "\<not> int a * int b < 0"
  by (simp add: not_less)

section \<open>Little-endian bytes\<close>

lemma unat_lt2p8: "unat (b :: byte) < 256"
  using unsigned_less[of b, where 'a = nat] by simp

fun le_bytes :: "nat \<Rightarrow> nat \<Rightarrow> byte list" where
  "le_bytes 0 v = []"
| "le_bytes (Suc n) v = word_of_nat v # le_bytes n (v div 256)"

fun un_le :: "byte list \<Rightarrow> nat" where
  "un_le [] = 0"
| "un_le (b # bs) = unat b + 256 * un_le bs"

lemma length_le_bytes [simp]: "length (le_bytes n v) = n"
  by (induction n arbitrary: v) auto

lemma un_le_bytes [enc_simps]: "un_le (le_bytes n v) = v mod 256 ^ n"
proof (induction n arbitrary: v)
  case 0
  then show ?case by simp
next
  case (Suc n)
  have "un_le (le_bytes (Suc n) v) = v mod 256 + 256 * (v div 256 mod 256 ^ n)"
    by (simp add: Suc unat_of_nat)
  also have "\<dots> = v mod (256 * 256 ^ n)"
    by (simp add: mod_mult2_eq)
  finally show ?case by simp
qed

lemma le_bytes_un_le: "length bs = n \<Longrightarrow> le_bytes n (un_le bs) = bs"
proof (induction bs arbitrary: n)
  case Nil
  then show ?case by simp
next
  case (Cons b bs)
  then obtain m where m: "n = Suc m" "length bs = m" by (cases n) auto
  have "(unat b + 256 * un_le bs) div 256 = un_le bs"
    using unat_lt2p8[of b] by simp
  moreover have "word_of_nat (unat b + 256 * un_le bs) = b"
  proof -
    have "unat (word_of_nat (unat b + 256 * un_le bs) :: byte) = (unat b + 256 * un_le bs) mod 256"
      by (simp only: unat_of_nat) simp
    also have "\<dots> = unat b" using unat_lt2p8[of b] by simp
    finally show ?thesis by (simp only: word_unat_eq_iff)
  qed
  ultimately show ?case using Cons.IH[OF m(2)] m by simp
qed

lemma le_bytes_4:
  "le_bytes 4 v = [word_of_nat v, word_of_nat (v div 256), word_of_nat (v div 256 div 256),
     word_of_nat (v div 256 div 256 div 256)]"
  by (simp only: numeral_eq_Suc pred_numeral_simps le_bytes.simps BitM.simps numeral_One One_nat_def)

lemma un_le_bound: "un_le bs < 256 ^ length bs"
proof (induction bs)
  case (Cons b bs)
  have "unat b + 256 * un_le bs < 256 + 256 * un_le bs" using unat_lt2p8[of b] by simp
  also have "\<dots> = 256 * Suc (un_le bs)" by simp
  also have "\<dots> \<le> 256 * 256 ^ length bs" using Cons by (intro mult_le_mono2) simp
  finally show ?case by simp
qed simp

section \<open>Strings of the C library\<close>

definition isspace :: "char \<Rightarrow> bool" where
  "isspace c \<longleftrightarrow> of_char c \<in> {9, 10, 11, 12, 13, 32 :: nat}"

definition tolower :: "char \<Rightarrow> char" where
  "tolower c = (let n = of_char c :: nat in if 65 \<le> n \<and> n \<le> 90 then char_of (n + 32) else c)"

text \<open>\<open>strcasecmp(a, b) == 0\<close> in the C locale.\<close>

definition strcaseeq :: "string \<Rightarrow> string \<Rightarrow> bool" where
  "strcaseeq a b \<longleftrightarrow> map tolower a = map tolower b"

text \<open>
  \<open>strsep(&p, delim)\<close>: the token up to the first delimiter and what \<open>p\<close> points to after
  the call, \<open>None\<close> (a null pointer) when no delimiter was found.
\<close>

fun strsep :: "string \<Rightarrow> string \<Rightarrow> string \<times> string option" where
  "strsep [] d = ([], None)"
| "strsep (c # s) d =
     (if c \<in> set d then ([], Some s)
      else (case strsep s d of (t, r) \<Rightarrow> (c # t, r)))"

text \<open>\<open>strstr(a, b) != NULL\<close>.\<close>

fun strstr :: "string \<Rightarrow> string \<Rightarrow> bool" where
  "strstr [] b \<longleftrightarrow> b = []"
| "strstr (c # a) b \<longleftrightarrow> take (length b) (c # a) = b \<or> strstr a b"

text \<open>\<open>strlcpy(buf, s, n)\<close>: what the buffer holds afterwards.\<close>

definition strlcpy :: "string \<Rightarrow> nat \<Rightarrow> string" where
  "strlcpy s n = take (n - 1) s"

lemma strsep_None: "strsep s d = (t, None) \<Longrightarrow> t = s \<and> (\<forall>c \<in> set s. c \<notin> set d)"
  by (induction s arbitrary: t) (fastforce split: prod.splits if_splits)+

lemma strsep_no_delim: "\<forall>c \<in> set s. c \<notin> set d \<Longrightarrow> strsep s d = (s, None)"
  by (induction s) auto

lemma strsep_Some:
  "strsep s d = (t, Some r) \<Longrightarrow>
     \<exists>c. s = t @ c # r \<and> c \<in> set d \<and> (\<forall>x \<in> set t. x \<notin> set d)"
proof (induction s arbitrary: t)
  case Nil
  then show ?case by simp
next
  case (Cons a s)
  then show ?case by (cases "a \<in> set d") (auto split: prod.splits)
qed

lemma strsep_length: "strsep s d = (t, Some r) \<Longrightarrow> length r < length s"
  by (auto dest: strsep_Some)

subsection \<open>Numbers in strings\<close>

definition digit_val :: "char \<Rightarrow> nat option" where
  "digit_val c = (let n = of_char c :: nat in
     if 48 \<le> n \<and> n \<le> 57 then Some (n - 48)
     else if 97 \<le> n \<and> n \<le> 122 then Some (n - 87)
     else if 65 \<le> n \<and> n \<le> 90 then Some (n - 55)
     else None)"

definition is_digit :: "nat \<Rightarrow> char \<Rightarrow> bool" where
  "is_digit base c = (case digit_val c of None \<Rightarrow> False | Some v \<Rightarrow> v < base)"

text \<open>The digits at the head of a string: their value and the rest.\<close>

fun scan_digits :: "nat \<Rightarrow> string \<Rightarrow> nat \<Rightarrow> nat \<times> string" where
  "scan_digits base [] acc = (acc, [])"
| "scan_digits base (c # s) acc =
     (if is_digit base c then scan_digits base s (acc * base + the (digit_val c))
      else (acc, c # s))"

definition scan_sign :: "string \<Rightarrow> bool \<times> string" where
  "scan_sign s = (case s of
      [] \<Rightarrow> (False, s)
    | c # r \<Rightarrow> if c = CHR ''-'' then (True, r) else if c = CHR ''+'' then (False, r) else (False, s))"

text \<open>
  The common scanner of the \<open>strto*\<close> functions: blanks, a sign, the prefix of the base (\<open>0x\<close>
  in bases 0 and 16 when a hexadecimal digit follows, a leading zero meaning base 8 in base 0),
  then the digits.  \<open>None\<close>: no conversion, the end pointer is the start of the string.
\<close>

definition scan_int :: "nat \<Rightarrow> string \<Rightarrow> (bool \<times> nat \<times> string) option" where
  "scan_int base s =
     (case scan_sign (dropWhile isspace s) of (neg, r) \<Rightarrow>
      let hex = (base = 0 \<or> base = 16) \<and> length r \<ge> 3 \<and> r ! 0 = CHR ''0'' \<and>
                (r ! 1 = CHR ''x'' \<or> r ! 1 = CHR ''X'') \<and> is_digit 16 (r ! 2);
          b = (if base = 0 then (if hex then 16 else if r \<noteq> [] \<and> r ! 0 = CHR ''0'' then 8 else 10)
               else base);
          r = (if hex then drop 2 r else r)
      in if r \<noteq> [] \<and> is_digit b (hd r)
         then (case scan_digits b r 0 of (n, e) \<Rightarrow> Some (neg, n, e))
         else None)"

text \<open>\<open>strtol(s, &end, base)\<close> for a 32-bit \<open>long\<close>: the value, saturated, and the end.\<close>

definition strtol :: "string \<Rightarrow> nat \<Rightarrow> int \<times> string" where
  "strtol s base = (case scan_int base s of
      None \<Rightarrow> (0, s)
    | Some (neg, n, e) \<Rightarrow>
        (max (- (2 ^ 31)) (min (2 ^ 31 - 1) (if neg then - int n else int n)), e))"

definition strtoll :: "string \<Rightarrow> nat \<Rightarrow> int" where
  "strtoll s base = (case scan_int base s of
      None \<Rightarrow> 0
    | Some (neg, n, e) \<Rightarrow>
        max (- (2 ^ 63)) (min (2 ^ 63 - 1) (if neg then - int n else int n)))"

definition strtoul :: "string \<Rightarrow> nat \<Rightarrow> u32" where
  "strtoul s base = (case scan_int base s of
      None \<Rightarrow> 0
    | Some (neg, n, e) \<Rightarrow>
        if n > 2 ^ 32 - 1 then - 1
        else if neg then - word_of_nat n else word_of_nat n)"

abbreviation atol :: "string \<Rightarrow> int" where
  "atol s \<equiv> fst (strtol s 10)"

lemma strtol_range: "in_i32 (fst (strtol s base))"
  by (auto simp: strtol_def in_i32_def split: option.splits)

text \<open>The decimal notation of an integer, as \<open>printf("%d")\<close> writes it.\<close>

fun dec_nat :: "nat \<Rightarrow> string" where
  "dec_nat n = (if n < 10 then [char_of (48 + n)]
                else dec_nat (n div 10) @ [char_of (48 + n mod 10)])"

declare dec_nat.simps [simp del]

definition dec_int :: "int \<Rightarrow> string" where
  "dec_int x = (if x < 0 then CHR ''-'' # dec_nat (nat (- x)) else dec_nat (nat x))"

lemma digit_val_digit: "d < 10 \<Longrightarrow> digit_val (char_of (48 + d)) = Some d"
  by (simp add: digit_val_def)

lemma scan_digits_append:
  "\<forall>c \<in> set s. is_digit b c \<Longrightarrow>
     scan_digits b (s @ t) acc = scan_digits b t (fst (scan_digits b s acc))"
  by (induction s arbitrary: acc) auto

lemma dec_nat_digits: "\<forall>c \<in> set (dec_nat n). is_digit 10 c"
proof (induction n rule: dec_nat.induct)
  case (1 n)
  show ?case
    by (subst dec_nat.simps) (use 1 in \<open>auto simp: is_digit_def digit_val_digit\<close>)
qed

lemma scan_dec_nat: "fst (scan_digits 10 (dec_nat n) 0) = n"
proof (induction n rule: dec_nat.induct)
  case (1 n)
  show ?case
  proof (cases "n < 10")
    case True
    then show ?thesis
      by (simp add: dec_nat.simps[of n] is_digit_def digit_val_digit)
  next
    case False
    have "scan_digits 10 (dec_nat n) 0 =
        scan_digits 10 [char_of (48 + n mod 10)] (fst (scan_digits 10 (dec_nat (n div 10)) 0))"
      using False by (simp add: dec_nat.simps[of n] scan_digits_append dec_nat_digits)
    with 1[OF False] show ?thesis by (simp add: is_digit_def digit_val_digit)
  qed
qed

lemma length_dec_nat: "n < 10 ^ k \<Longrightarrow> 0 < k \<Longrightarrow> length (dec_nat n) \<le> k"
proof (induction k arbitrary: n)
  case (Suc k)
  show ?case
  proof (cases "n < 10")
    case True
    then show ?thesis by (simp add: dec_nat.simps[of n])
  next
    case False
    with Suc.prems(1) have k: "0 < k" by (cases k) auto
    moreover have "n div 10 < 10 ^ k" using Suc.prems(1) by auto
    ultimately have "length (dec_nat (n div 10)) \<le> k" using Suc.IH by blast
    with False show ?thesis by (simp add: dec_nat.simps[of n])
  qed
qed simp

end
