(* ===== verification/Unix.thy ===== *)
theory Unix
  imports Prelude
begin

text \<open>
  The operating system as the sources see it.  The state \<open>os\<close> holds the files by path, the
  open descriptors with their position and the \<open>flock\<close> mode this process holds on them, a
  clock, and the \<open>crc32\<close> function of zlib (a library that is not part of the sources, hence a
  parameter).  Every system call that may fail takes its fate from \<open>script\<close>, a list of
  outcomes consumed from the left: the theorems hold for every script, so for every
  combination of failing and partial calls; an empty script is a machine on which every call
  succeeds (\<open>no_faults\<close>).  Records of the components extend \<open>os\<close>, and the calls work on
  every such extension.
\<close>

record timeval =
  tv_sec :: int
  tv_usec :: int

datatype outcome = Done | Fail | Short nat

datatype lockmode = LOCK_UN | LOCK_SH | LOCK_EX

record fdent =
  fe_path :: string
  fe_pos :: int
  fe_lock :: lockmode
  fe_ro :: bool

record os =
  files :: "string \<Rightarrow> byte list option"
  fdt :: "int \<Rightarrow> fdent option"
  nextfd :: int
  script :: "outcome list"
  clock :: "nat \<Rightarrow> timeval option"
  ticks :: nat
  zcrc32 :: "byte list \<Rightarrow> u32"
  junk :: "nat \<Rightarrow> byte"

definition no_faults :: "'a os_scheme \<Rightarrow> bool" where
  "no_faults w \<longleftrightarrow> script w = []"

definition next_outcome :: "'a os_scheme \<Rightarrow> outcome \<times> 'a os_scheme" where
  "next_outcome w = (case script w of
      [] \<Rightarrow> (Done, w)
    | x # xs \<Rightarrow> (x, w\<lparr>script := xs\<rparr>))"

text \<open>The contents of the file a descriptor is open on.\<close>

definition fd_data :: "'a os_scheme \<Rightarrow> int \<Rightarrow> byte list option" where
  "fd_data w fd = (case fdt w fd of None \<Rightarrow> None | Some e \<Rightarrow> files w (fe_path e))"

definition fd_lock :: "'a os_scheme \<Rightarrow> int \<Rightarrow> lockmode" where
  "fd_lock w fd = (case fdt w fd of None \<Rightarrow> LOCK_UN | Some e \<Rightarrow> fe_lock e)"

definition set_pos :: "int \<Rightarrow> int \<Rightarrow> 'a os_scheme \<Rightarrow> 'a os_scheme" where
  "set_pos fd p w = w\<lparr>fdt := (fdt w)(fd := map_option (\<lambda>e. e\<lparr>fe_pos := p\<rparr>) (fdt w fd))\<rparr>"

definition set_lock :: "int \<Rightarrow> lockmode \<Rightarrow> 'a os_scheme \<Rightarrow> 'a os_scheme" where
  "set_lock fd m w = w\<lparr>fdt := (fdt w)(fd := map_option (\<lambda>e. e\<lparr>fe_lock := m\<rparr>) (fdt w fd))\<rparr>"

definition set_data :: "int \<Rightarrow> byte list \<Rightarrow> 'a os_scheme \<Rightarrow> 'a os_scheme" where
  "set_data fd bs w = (case fdt w fd of
      None \<Rightarrow> w
    | Some e \<Rightarrow> w\<lparr>files := (files w)(fe_path e := Some bs)\<rparr>)"

section \<open>System calls\<close>

definition sys_open :: "string \<Rightarrow> bool \<Rightarrow> 'a os_scheme \<Rightarrow> int \<times> 'a os_scheme" where
  "sys_open path ro w = (case next_outcome w of (x, w) \<Rightarrow>
     if x = Fail \<or> files w path = None then (- 1, w)
     else (nextfd w,
           w\<lparr>fdt := (fdt w)(nextfd w \<mapsto> \<lparr>fe_path = path, fe_pos = 0, fe_lock = LOCK_UN, fe_ro = ro\<rparr>),
             nextfd := nextfd w + 1\<rparr>))"

definition sys_close :: "int \<Rightarrow> 'a os_scheme \<Rightarrow> int \<times> 'a os_scheme" where
  "sys_close fd w = (case fdt w fd of
      None \<Rightarrow> (- 1, w)
    | Some e \<Rightarrow> (0, w\<lparr>fdt := (fdt w)(fd := None)\<rparr>))"

definition sys_fstat :: "int \<Rightarrow> 'a os_scheme \<Rightarrow> int option \<times> 'a os_scheme" where
  "sys_fstat fd w = (case next_outcome w of (x, w) \<Rightarrow>
     if x = Fail then (None, w) else (map_option (\<lambda>bs. int (length bs)) (fd_data w fd), w))"

definition sys_lseek :: "int \<Rightarrow> int \<Rightarrow> 'a os_scheme \<Rightarrow> int \<times> 'a os_scheme" where
  "sys_lseek fd off w = (case next_outcome w of (x, w) \<Rightarrow>
     if x = Fail \<or> fdt w fd = None \<or> off < 0 then (- 1, w) else (off, set_pos fd off w))"

definition sys_read :: "int \<Rightarrow> nat \<Rightarrow> 'a os_scheme \<Rightarrow> int \<times> byte list \<times> 'a os_scheme" where
  "sys_read fd n w = (case next_outcome w of (x, w) \<Rightarrow>
     (case (fdt w fd, fd_data w fd) of
        (Some e, Some bs) \<Rightarrow>
          if x = Fail then (- 1, [], w)
          else (let got = take n (drop (nat (fe_pos e)) bs);
                    got = (case x of Short k \<Rightarrow> take k got | _ \<Rightarrow> got)
                in (int (length got), got, set_pos fd (fe_pos e + int (length got)) w))
      | _ \<Rightarrow> (- 1, [], w)))"

text \<open>The bytes of a file after \<open>data\<close> was written at offset \<open>p\<close> (a hole is filled with zeros).\<close>

definition overwrite :: "byte list \<Rightarrow> nat \<Rightarrow> byte list \<Rightarrow> byte list" where
  "overwrite bs p data =
     take p bs @ replicate (p - length bs) 0 @ data @ drop (p + length data) bs"

definition sys_write :: "int \<Rightarrow> byte list \<Rightarrow> 'a os_scheme \<Rightarrow> int \<times> 'a os_scheme" where
  "sys_write fd data w = (case next_outcome w of (x, w) \<Rightarrow>
     (case (fdt w fd, fd_data w fd) of
        (Some e, Some bs) \<Rightarrow>
          if x = Fail \<or> fe_ro e then (- 1, w)
          else (let put = (case x of Short k \<Rightarrow> take k data | _ \<Rightarrow> data)
                in (int (length put),
                    set_pos fd (fe_pos e + int (length put))
                      (set_data fd (overwrite bs (nat (fe_pos e)) put) w)))
      | _ \<Rightarrow> (- 1, w)))"

text \<open>\<open>flock\<close>: releasing a lock held on an open descriptor cannot fail.\<close>

definition sys_flock :: "int \<Rightarrow> lockmode \<Rightarrow> 'a os_scheme \<Rightarrow> int \<times> 'a os_scheme" where
  "sys_flock fd m w =
     (if fdt w fd = None then (- 1, w)
      else if m = LOCK_UN then (0, set_lock fd LOCK_UN w)
      else (case next_outcome w of (x, w) \<Rightarrow>
        if x = Fail then (- 1, w) else (0, set_lock fd m w)))"

definition sys_fsync :: "int \<Rightarrow> 'a os_scheme \<Rightarrow> int \<times> 'a os_scheme" where
  "sys_fsync fd w = (case next_outcome w of (x, w) \<Rightarrow>
     if x = Fail \<or> fdt w fd = None then (- 1, w) else (0, w))"

text \<open>\<open>malloc\<close>, \<open>calloc\<close> and \<open>realloc\<close>: whether memory was there.\<close>

definition sys_alloc :: "'a os_scheme \<Rightarrow> bool \<times> 'a os_scheme" where
  "sys_alloc w = (case next_outcome w of (x, w) \<Rightarrow> (x \<noteq> Fail, w))"

text \<open>The clock: \<open>gettimeofday\<close> may fail, \<open>time(NULL)\<close> gives its seconds (-1 on failure).\<close>

definition sys_gettimeofday :: "'a os_scheme \<Rightarrow> timeval option \<times> 'a os_scheme" where
  "sys_gettimeofday w = (clock w (ticks w), w\<lparr>ticks := ticks w + 1\<rparr>)"

definition sys_time :: "'a os_scheme \<Rightarrow> int \<times> 'a os_scheme" where
  "sys_time w = (case sys_gettimeofday w of (t, w) \<Rightarrow>
     (case t of None \<Rightarrow> - 1 | Some tv \<Rightarrow> tv_sec tv, w))"

section \<open>Text files\<close>

definition text_of :: "byte list \<Rightarrow> string" where
  "text_of bs = map (\<lambda>b. char_of (unat b)) bs"

definition bytes_of :: "string \<Rightarrow> byte list" where
  "bytes_of s = map (\<lambda>c. word_of_nat (of_char c)) s"

text \<open>
  \<open>fopen(path, "r")\<close>: \<open>None\<close> when it fails, else what reading the stream will deliver; a read
  error looks like the end of the file to \<open>fgets\<close> (\<open>Short\<close>).
\<close>

definition sys_fopen_r :: "string \<Rightarrow> 'a os_scheme \<Rightarrow> string option \<times> 'a os_scheme" where
  "sys_fopen_r path w = (case next_outcome w of (x, w) \<Rightarrow>
     (case (x, files w path) of
        (Fail, _) \<Rightarrow> (None, w)
      | (_, None) \<Rightarrow> (None, w)
      | (Done, Some bs) \<Rightarrow> (Some (text_of bs), w)
      | (Short k, Some bs) \<Rightarrow> (Some (take k (text_of bs)), w)))"

text \<open>
  \<open>fopen(path, "w")\<close> truncates or creates the file; \<open>fprintf\<close> reports whether it failed;
  \<open>fclose\<close> flushes the text \<open>t\<close> printed so far, all of it or a part.
\<close>

definition sys_fopen_w :: "string \<Rightarrow> 'a os_scheme \<Rightarrow> bool \<times> 'a os_scheme" where
  "sys_fopen_w path w = (case next_outcome w of (x, w) \<Rightarrow>
     if x = Fail then (False, w) else (True, w\<lparr>files := (files w)(path \<mapsto> [])\<rparr>))"

definition sys_fprintf :: "string \<Rightarrow> string \<Rightarrow> 'a os_scheme \<Rightarrow> bool \<times> string \<times> 'a os_scheme" where
  "sys_fprintf t new w = (case next_outcome w of (x, w) \<Rightarrow>
     if x = Fail then (False, t, w) else (True, t @ new, w))"

definition sys_fclose_w :: "string \<Rightarrow> string \<Rightarrow> 'a os_scheme \<Rightarrow> 'a os_scheme" where
  "sys_fclose_w path t w = (case next_outcome w of (x, w) \<Rightarrow>
     w\<lparr>files := (files w)(path \<mapsto> bytes_of (case x of Done \<Rightarrow> t | Fail \<Rightarrow> [] | Short k \<Rightarrow> take k t))\<rparr>)"

definition sys_rename :: "string \<Rightarrow> string \<Rightarrow> 'a os_scheme \<Rightarrow> 'a os_scheme" where
  "sys_rename from to w = (case next_outcome w of (x, w) \<Rightarrow>
     if x = Fail \<or> files w from = None then w
     else w\<lparr>files := (files w)(from := None, to := files w from)\<rparr>)"

text \<open>\<open>open(path, O_CREAT)\<close>: for reading, created empty when it is not there.\<close>

definition sys_open_creat :: "string \<Rightarrow> 'a os_scheme \<Rightarrow> int \<times> 'a os_scheme" where
  "sys_open_creat path w = (case next_outcome w of (x, w) \<Rightarrow>
     if x = Fail then (- 1, w)
     else (nextfd w,
           w\<lparr>files := (if files w path = None then (files w)(path \<mapsto> []) else files w),
             fdt := (fdt w)(nextfd w \<mapsto> \<lparr>fe_path = path, fe_pos = 0, fe_lock = LOCK_UN, fe_ro = True\<rparr>),
             nextfd := nextfd w + 1\<rparr>))"

section \<open>What the calls leave unchanged\<close>

lemma next_outcome_simps [simp]:
  "files (snd (next_outcome w)) = files w" "fdt (snd (next_outcome w)) = fdt w"
  "nextfd (snd (next_outcome w)) = nextfd w" "clock (snd (next_outcome w)) = clock w"
  "ticks (snd (next_outcome w)) = ticks w" "zcrc32 (snd (next_outcome w)) = zcrc32 w"
  "os.more (snd (next_outcome w)) = os.more w"
  by (auto simp: next_outcome_def split: list.splits)

lemma next_outcome_no_faults: "no_faults w \<Longrightarrow> next_outcome w = (Done, w)"
  by (simp add: next_outcome_def no_faults_def)

lemma fd_data_cong: "fdt w' = fdt w \<Longrightarrow> files w' = files w \<Longrightarrow> fd_data w' fd = fd_data w fd"
  by (cases "fdt w fd") (simp_all add: fd_data_def)

lemma fd_lock_cong: "fdt w' = fdt w \<Longrightarrow> fd_lock w' fd = fd_lock w fd"
  by (simp add: fd_lock_def)

lemma set_simps [simp]:
  "files (set_pos fd p w) = files w" "files (set_lock fd m w) = files w"
  "fdt (set_data fd bs w) = fdt w"
  "script (set_pos fd p w) = script w" "script (set_lock fd m w) = script w"
  "script (set_data fd bs w) = script w"
  "zcrc32 (set_pos fd p w) = zcrc32 w" "zcrc32 (set_lock fd m w) = zcrc32 w"
  "zcrc32 (set_data fd bs w) = zcrc32 w"
  "clock (set_pos fd p w) = clock w" "clock (set_lock fd m w) = clock w"
  "clock (set_data fd bs w) = clock w"
  "ticks (set_pos fd p w) = ticks w" "ticks (set_lock fd m w) = ticks w"
  "ticks (set_data fd bs w) = ticks w"
  by (auto simp: set_pos_def set_lock_def set_data_def split: option.splits)

lemma fd_data_set [simp]:
  "fd_data (set_pos fd p w) fd' = fd_data w fd'"
  "fd_data (set_lock fd m w) fd' = fd_data w fd'"
  by (auto simp: fd_data_def set_pos_def set_lock_def split: option.splits)

lemma fd_lock_set [simp]:
  "fd_lock (set_pos fd p w) fd' = fd_lock w fd'"
  "fd_lock (set_data fd bs w) fd' = fd_lock w fd'"
  by (auto simp: fd_lock_def set_pos_def set_data_def split: option.splits)

lemma fd_lock_set_lock:
  "fdt w fd \<noteq> None \<Longrightarrow> fd_lock (set_lock fd m w) fd' = (if fd' = fd then m else fd_lock w fd')"
  by (auto simp: fd_lock_def set_lock_def split: option.splits)

end
