(* ===== verification/RecFile.thy ===== *)
theory RecFile
  imports Unix
begin

text \<open>
  The binary record files of the billing (\<open>src/src/bee/lib/db/db.c\<close>): fixed-size records read,
  overwritten and appended through descriptors, with one non-reentrant read cache for
  sequential reading (\<open>sqr\<close>).  A buffer argument of the C functions is passed in with its old
  contents and returned with the new ones, so that a partial read is visible.  The cache keeps
  the bytes read into it so far; the zeros \<open>calloc\<close> fills the rest with are never read.

  The abstraction \<open>records n\<close> cuts the bytes of a file into its complete records; the lemmas
  say what the operations do to it, without faults (the locale \<open>record_store\<close> and its
  interpretation) and under any sequence of failing and partial system calls.
\<close>

abbreviation (input) SUCCESS :: int where "SUCCESS \<equiv> 0"
abbreviation (input) NEGATIVE :: int where "NEGATIVE \<equiv> 1"
abbreviation (input) ACC_UNLIMIT :: int where "ACC_UNLIMIT \<equiv> 33"
abbreviation (input) NOT_FOUND :: int where "NOT_FOUND \<equiv> - 1"
abbreviation (input) ACC_DELETED :: int where "ACC_DELETED \<equiv> - 2"
abbreviation (input) IO_ERROR :: int where "IO_ERROR \<equiv> - 3"
abbreviation (input) ACC_BROKEN :: int where "ACC_BROKEN \<equiv> - 50"
abbreviation (input) ACC_FROZEN :: int where "ACC_FROZEN \<equiv> - 51"
abbreviation (input) ACC_OFF :: int where "ACC_OFF \<equiv> - 52"
abbreviation (input) ACC_NOCHARGE :: int where "ACC_NOCHARGE \<equiv> - 100"

record seqread =
  sq_fd :: int
  sq_first :: int
  sq_recs :: int
  sq_cache :: "byte list option"

record dbs = os +
  sqr :: seqread

definition sqr_none :: seqread where
  "sqr_none = \<lparr>sq_fd = - 1, sq_first = 0, sq_recs = 0, sq_cache = None\<rparr>"

section \<open>Operations\<close>

definition db_open :: "string \<Rightarrow> 'a dbs_scheme \<Rightarrow> int \<times> 'a dbs_scheme" where
  "db_open filespec w = sys_open filespec False w"

definition dbs_open :: "string \<Rightarrow> 'a dbs_scheme \<Rightarrow> int \<times> 'a dbs_scheme" where
  "dbs_open filespec w = (case sys_open filespec True w of (fd, w) \<Rightarrow>
     if fd < 0 then (fd, w)
     else if sq_fd (sqr w) < 0 then (fd, w\<lparr>sqr := sqr_none\<lparr>sq_fd := fd\<rparr>\<rparr>)
     else (fd, w))"

definition db_close :: "int \<Rightarrow> 'a dbs_scheme \<Rightarrow> int \<times> 'a dbs_scheme" where
  "db_close fd w = sys_close fd (if sq_fd (sqr w) = fd then w\<lparr>sqr := sqr_none\<rparr> else w)"

definition db_reccount :: "int \<Rightarrow> int \<Rightarrow> 'a dbs_scheme \<Rightarrow> int \<times> 'a dbs_scheme" where
  "db_reccount fd recsize w = (case sys_fstat fd w of
      (None, w) \<Rightarrow> (- 1, w)
    | (Some st_size, w) \<Rightarrow> (st_size div recsize, w))"

text \<open>\<open>buf\<close> after \<open>got\<close> was copied to its start.\<close>

definition fill :: "byte list \<Rightarrow> byte list \<Rightarrow> byte list" where
  "fill got buf = got @ drop (length got) buf"

definition db_get_random ::
    "int \<Rightarrow> int \<Rightarrow> byte list \<Rightarrow> int \<Rightarrow> 'a dbs_scheme \<Rightarrow> int \<times> byte list \<times> 'a dbs_scheme" where
  "db_get_random fd rec buf recsize w =
     (case sys_lseek fd (rec * recsize) w of (p, w) \<Rightarrow>
        if p < 0 then (IO_ERROR, buf, w)
        else (case sys_read fd (nat recsize) w of (bytes, got, w) \<Rightarrow>
          if bytes < 0 then (IO_ERROR, buf, w)
          else if bytes < recsize then (IO_ERROR, fill got buf, w)
          else (SUCCESS, fill got buf, w)))"

definition db_get_cached ::
    "int \<Rightarrow> int \<Rightarrow> byte list \<Rightarrow> int \<Rightarrow> byte list \<Rightarrow> 'a dbs_scheme \<Rightarrow> int \<times> byte list \<times> 'a dbs_scheme" where
  "db_get_cached fd rec buf recsize cache w =
     (case sys_flock fd LOCK_SH w of (_, w) \<Rightarrow>
      case sys_lseek fd (rec * recsize) w of (p, w) \<Rightarrow>
        if p < 0 then (IO_ERROR, buf, w\<lparr>sqr := (sqr w)\<lparr>sq_cache := Some cache\<rparr>\<rparr>)
        else (case sys_read fd (nat (recsize * 32768)) w of (bytes, got, w) \<Rightarrow>
          let w = w\<lparr>sqr := (sqr w)\<lparr>sq_cache := Some (fill got cache)\<rparr>\<rparr>
          in case sys_flock fd LOCK_UN w of (_, w) \<Rightarrow>
            if bytes < recsize then (IO_ERROR, buf, w)
            else (SUCCESS, take (nat recsize) (fill got cache),
                  w\<lparr>sqr := (sqr w)\<lparr>sq_first := rec, sq_recs := bytes div recsize\<rparr>\<rparr>)))"

definition db_get ::
    "int \<Rightarrow> int \<Rightarrow> byte list \<Rightarrow> int \<Rightarrow> 'a dbs_scheme \<Rightarrow> int \<times> byte list \<times> 'a dbs_scheme" where
  "db_get fd rec buf recsize w =
     (case db_reccount fd recsize w of (recs, w) \<Rightarrow>
        if recs < 0 then (IO_ERROR, buf, w)
        else if recs \<le> rec then (NOT_FOUND, buf, w)
        else if sq_fd (sqr w) \<noteq> fd then db_get_random fd rec buf recsize w
        else (case sq_cache (sqr w) of
          Some cache \<Rightarrow>
            if sq_recs (sqr w) \<noteq> 0 \<and> sq_first (sqr w) \<le> rec \<and>
               rec < sq_first (sqr w) + sq_recs (sqr w)
            then (SUCCESS, take (nat recsize) (drop (nat ((rec - sq_first (sqr w)) * recsize)) cache), w)
            else db_get_cached fd rec buf recsize cache w
        | None \<Rightarrow>
            (case sys_alloc w of (mem, w) \<Rightarrow>
              if mem then db_get_cached fd rec buf recsize [] w
              else (let w = w\<lparr>sqr := (sqr w)\<lparr>sq_fd := - 1\<rparr>\<rparr>
                    in case db_reccount fd recsize w of (recs, w) \<Rightarrow>
                      if recs < 0 then (IO_ERROR, buf, w)
                      else if recs \<le> rec then (NOT_FOUND, buf, w)
                      else db_get_random fd rec buf recsize w))))"

definition db_put ::
    "int \<Rightarrow> int \<Rightarrow> byte list \<Rightarrow> int \<Rightarrow> 'a dbs_scheme \<Rightarrow> int \<times> 'a dbs_scheme" where
  "db_put fd rec data recsize w =
     (case db_reccount fd recsize w of (recs, w) \<Rightarrow>
        if recs < 0 then (IO_ERROR, w)
        else if recs \<le> rec then (NOT_FOUND, w)
        else (case sys_lseek fd (rec * recsize) w of (p, w) \<Rightarrow>
          if p < 0 then (IO_ERROR, w)
          else (case sys_write fd (take (nat recsize) data) w of (bytes, w) \<Rightarrow>
            if bytes < 0 then (IO_ERROR, w)
            else if bytes < recsize then (IO_ERROR, w)
            else (SUCCESS, w))))"

definition db_add :: "int \<Rightarrow> byte list \<Rightarrow> int \<Rightarrow> 'a dbs_scheme \<Rightarrow> int \<times> 'a dbs_scheme" where
  "db_add fd data recsize w =
     (case db_reccount fd recsize w of (recs, w) \<Rightarrow>
        if recs < 0 then (IO_ERROR, w)
        else (case sys_lseek fd (recs * recsize) w of (p, w) \<Rightarrow>
          if p < 0 then (IO_ERROR, w)
          else (case sys_write fd (take (nat recsize) data) w of (bytes, w) \<Rightarrow>
            if bytes < 0 then (IO_ERROR, w)
            else if bytes < recsize then (IO_ERROR, w)
            else (recs, w))))"

definition db_shlock :: "int \<Rightarrow> 'a dbs_scheme \<Rightarrow> int \<times> 'a dbs_scheme" where
  "db_shlock fd w = sys_flock fd LOCK_SH w"

definition db_exlock :: "int \<Rightarrow> 'a dbs_scheme \<Rightarrow> int \<times> 'a dbs_scheme" where
  "db_exlock fd w = sys_flock fd LOCK_EX w"

definition db_unlock :: "int \<Rightarrow> 'a dbs_scheme \<Rightarrow> int \<times> 'a dbs_scheme" where
  "db_unlock fd w = sys_flock fd LOCK_UN w"

definition db_sync :: "int \<Rightarrow> 'a dbs_scheme \<Rightarrow> int \<times> 'a dbs_scheme" where
  "db_sync fd w = sys_fsync fd w"

definition count_crc :: "byte list \<Rightarrow> 'a dbs_scheme \<Rightarrow> u32" where
  "count_crc data w = zcrc32 w data"

section \<open>The abstraction: a file is a list of records\<close>

definition records :: "nat \<Rightarrow> byte list \<Rightarrow> byte list list" where
  "records n bs = map (\<lambda>i. take n (drop (i * n) bs)) [0..<length bs div n]"

lemma length_records [simp]: "length (records n bs) = length bs div n"
  by (simp add: records_def)

lemma nth_records: "i < length bs div n \<Longrightarrow> records n bs ! i = take n (drop (i * n) bs)"
  by (simp add: records_def)

lemma record_fits:
  assumes "(i::nat) < length bs div n"
  shows "i * n + n \<le> length bs"
proof -
  have "Suc i * n \<le> length bs div n * n" using assms by (intro mult_le_mono1) simp
  also have "\<dots> \<le> length bs" by (rule div_times_less_eq_dividend)
  finally show ?thesis by simp
qed

lemma length_nth_records: "i < length bs div n \<Longrightarrow> length (records n bs ! i) = n"
  using record_fits[of i bs n] by (simp add: nth_records)

lemma length_overwrite:
  "p \<le> length bs \<Longrightarrow> length (overwrite bs p d) = max (length bs) (p + length d)"
  by (simp add: overwrite_def max_def)

lemma nth_overwrite:
  "p \<le> length bs \<Longrightarrow> k < max (length bs) (p + length d) \<Longrightarrow>
     overwrite bs p d ! k = (if p \<le> k \<and> k < p + length d then d ! (k - p) else bs ! k)"
  by (auto simp: overwrite_def nth_append max_def split: if_splits)

lemma overwrite_Nil [simp]: "p \<le> length bs \<Longrightarrow> overwrite bs p [] = bs"
  by (simp add: overwrite_def)

lemma slots_disjoint:
  fixes i j n :: nat
  assumes "j \<noteq> i" "x < n" "k \<le> n"
  shows "\<not> (i * n \<le> j * n + x \<and> j * n + x < i * n + k)"
proof (cases "j < i")
  case True
  then have "Suc j * n \<le> i * n" by (intro mult_le_mono1) simp
  with assms show ?thesis by simp
next
  case False
  with assms have "Suc i * n \<le> j * n" by (intro mult_le_mono1) simp
  with assms show ?thesis by simp
qed

lemma take_drop_overwrite_other:
  assumes n: "0 < n" and i: "i * n \<le> length bs" and j: "j * n + n \<le> length bs"
    and ij: "j \<noteq> i" and d: "length d \<le> n"
  shows "take n (drop (j * n) (overwrite bs (i * n) d)) = take n (drop (j * n) bs)"
proof (rule nth_equalityI)
  show "length (take n (drop (j * n) (overwrite bs (i * n) d))) = length (take n (drop (j * n) bs))"
    using i j by (simp add: length_overwrite)
next
  fix x
  assume "x < length (take n (drop (j * n) (overwrite bs (i * n) d)))"
  then have x: "x < n" by simp
  have "overwrite bs (i * n) d ! (j * n + x) = bs ! (j * n + x)"
    using slots_disjoint[OF ij x d] i j x by (auto simp: nth_overwrite)
  then show "take n (drop (j * n) (overwrite bs (i * n) d)) ! x = take n (drop (j * n) bs) ! x"
    using x i j by (simp add: length_overwrite)
qed

lemma take_drop_overwrite_same:
  assumes "p \<le> length bs" "length d = n"
  shows "take n (drop p (overwrite bs p d)) = d"
  using assms by (simp add: overwrite_def)

text \<open>Overwriting record \<open>i\<close>, even with a shorter piece, changes no other record.\<close>

lemma records_overwrite_other:
  assumes "0 < n" "i < length bs div n" "length d \<le> n"
  shows "length (records n (overwrite bs (i * n) d)) = length (records n bs)"
    and "j \<noteq> i \<Longrightarrow> j < length bs div n \<Longrightarrow> records n (overwrite bs (i * n) d) ! j = records n bs ! j"
proof -
  have fit: "i * n + length d \<le> length bs" using record_fits[OF assms(2)] assms(3) by linarith
  then have len: "length (overwrite bs (i * n) d) = length bs" by (simp add: length_overwrite)
  then show "length (records n (overwrite bs (i * n) d)) = length (records n bs)" by simp
  assume "j \<noteq> i" "j < length bs div n"
  with len fit assms record_fits[of j bs n]
  show "records n (overwrite bs (i * n) d) ! j = records n bs ! j"
    by (simp add: nth_records take_drop_overwrite_other)
qed

lemma records_overwrite:
  assumes "0 < n" "i < length bs div n" "length d = n"
  shows "records n (overwrite bs (i * n) d) = (records n bs)[i := d]"
proof (rule nth_equalityI)
  show len: "length (records n (overwrite bs (i * n) d)) = length ((records n bs)[i := d])"
    using records_overwrite_other(1)[OF assms(1,2)] assms(3) by simp
  fix j
  assume "j < length (records n (overwrite bs (i * n) d))"
  with len have j: "j < length bs div n" by simp
  show "records n (overwrite bs (i * n) d) ! j = (records n bs)[i := d] ! j"
  proof (cases "j = i")
    case True
    with j assms record_fits[OF assms(2)] show ?thesis
      by (simp add: nth_records length_overwrite take_drop_overwrite_same)
  next
    case False
    with j assms show ?thesis by (simp add: records_overwrite_other(2))
  qed
qed

text \<open>Writing behind the last complete record keeps all of them, and appends one if it is complete.\<close>

lemma records_append:
  fixes bs d :: "byte list"
  assumes n: "0 < n" and d: "length d \<le> n"
  defines "c \<equiv> length bs div n"
  shows "j < c \<Longrightarrow> records n (overwrite bs (c * n) d) ! j = records n bs ! j"
    and "length (records n (overwrite bs (c * n) d)) = (if length d = n then Suc c else c)"
    and "length d = n \<Longrightarrow> records n (overwrite bs (c * n) d) = records n bs @ [d]"
proof -
  have c: "c * n \<le> length bs" unfolding c_def by (rule div_times_less_eq_dividend)
  have rem: "length bs < c * n + n"
    unfolding c_def using n by (metis div_mult_mod_eq mod_less_divisor nat_add_left_cancel_less)
  have len: "length (overwrite bs (c * n) d) = max (length bs) (c * n + length d)"
    using c by (simp add: length_overwrite)
  show cnt: "length (records n (overwrite bs (c * n) d)) = (if length d = n then Suc c else c)"
  proof (cases "length d = n")
    case True
    with rem len n show ?thesis by (simp add: max_def)
  next
    case False
    with d have "max (length bs) (c * n + length d) < c * n + n" using rem by simp
    moreover have "c * n \<le> max (length bs) (c * n + length d)" using c by simp
    ultimately have "max (length bs) (c * n + length d) div n = c"
      by (intro div_nat_eqI) (simp_all add: mult.commute)
    with False len show ?thesis by simp
  qed
  have old: "records n (overwrite bs (c * n) d) ! j = records n bs ! j" if "j < c" for j
  proof -
    have "j * n + n \<le> length bs" using record_fits that unfolding c_def by blast
    moreover have "j < length (overwrite bs (c * n) d) div n" using cnt that by (simp split: if_splits)
    ultimately show ?thesis
      using that c d n unfolding c_def by (simp add: nth_records take_drop_overwrite_other)
  qed
  then show "j < c \<Longrightarrow> records n (overwrite bs (c * n) d) ! j = records n bs ! j" .
  show "records n (overwrite bs (c * n) d) = records n bs @ [d]" if dn: "length d = n"
  proof (rule nth_equalityI)
    show "length (records n (overwrite bs (c * n) d)) = length (records n bs @ [d])"
      using cnt dn by (simp add: c_def)
    fix j
    assume j: "j < length (records n (overwrite bs (c * n) d))"
    show "records n (overwrite bs (c * n) d) ! j = (records n bs @ [d]) ! j"
    proof (cases "j < c")
      case True
      then show ?thesis using old by (simp add: nth_append c_def)
    next
      case False
      with j cnt dn have "j = c" by simp
      moreover have "c < length (overwrite bs (c * n) d) div n" using cnt dn by simp
      ultimately show ?thesis
        using dn c by (simp add: nth_append nth_records take_drop_overwrite_same c_def)
    qed
  qed
qed

section \<open>What the operations do to the records\<close>

text \<open>
  The descriptor \<open>fd\<close> is open for writing on a file holding \<open>bs\<close>.  Every operation keeps
  descriptors open on the same paths in the same mode, and touches no other file.
\<close>

definition open_on :: "int \<Rightarrow> bool \<Rightarrow> string \<Rightarrow> 'a dbs_scheme \<Rightarrow> bool" where
  "open_on fd ro path w \<longleftrightarrow>
     (\<exists>e. fdt w fd = Some e \<and> fe_path e = path \<and> fe_ro e = ro) \<and> files w path \<noteq> None"

lemma open_on_fd_data: "open_on fd ro path w \<Longrightarrow> fd_data w fd = files w path"
  by (auto simp: open_on_def fd_data_def)

lemma sys_lseek_effect:
  "sys_lseek fd off w = (p, w') \<Longrightarrow>
     files w' = files w \<and> open_on fd' ro path w' = open_on fd' ro path w \<and>
     fd_lock w' fd' = fd_lock w fd' \<and> (p = off \<and> 0 \<le> off \<or> p = - 1) \<and>
     (0 \<le> p \<longrightarrow> map_option fe_pos (fdt w' fd) = Some off)"
  using next_outcome_simps(1,2)[of w]
  by (cases "next_outcome w")
    (auto simp: sys_lseek_def open_on_def set_pos_def fd_lock_def split: if_splits)

lemma sys_fstat_effect:
  "sys_fstat fd w = (r, w') \<Longrightarrow>
     files w' = files w \<and> fdt w' = fdt w \<and> open_on fd' ro path w' = open_on fd' ro path w \<and>
     (r = None \<or> r = map_option (\<lambda>bs. int (length bs)) (fd_data w fd))"
  using next_outcome_simps(1,2)[of w] fd_data_cong[of w' w]
  by (cases "next_outcome w")
    (auto simp: sys_fstat_def open_on_def split: if_splits)

lemma db_reccount_effect:
  "db_reccount fd n w = (recs, w') \<Longrightarrow> open_on fd ro path w \<Longrightarrow> files w path = Some bs \<Longrightarrow>
     files w' = files w \<and> fdt w' = fdt w \<and> open_on fd ro path w' \<and>
     (recs = - 1 \<or> recs = int (length bs) div n)"
  by (auto simp: db_reccount_def open_on_fd_data
      dest!: sys_fstat_effect[where fd' = fd and ro = ro and path = path]
      split: prod.splits option.splits)

lemma sys_write_effect:
  assumes "sys_write fd data w = (b, w')" "open_on fd ro path w" "files w path = Some bs"
    "map_option fe_pos (fdt w fd) = Some (int p)"
  shows "open_on fd' ro' path' w' = open_on fd' ro' path' w \<and> fd_lock w' fd' = fd_lock w fd' \<and>
     (b = - 1 \<and> files w' = files w \<or>
      (\<exists>k. b = int (length (take k data)) \<and>
           files w' = (files w)(path \<mapsto> overwrite bs p (take k data))))"
proof (cases "next_outcome w")
  case (Pair x w1)
  then have w1: "files w1 = files w" "fdt w1 = fdt w"
    using next_outcome_simps(1,2)[of w] by simp_all
  obtain e where e: "fdt w fd = Some e" "fe_path e = path" "fe_ro e = ro" "fe_pos e = int p"
    using assms(2,4) by (auto simp: open_on_def)
  have fd: "fd_data w1 fd = Some bs" using e w1 assms(3) by (simp add: fd_data_def)
  define put where "put = (case x of Short k \<Rightarrow> take k data | _ \<Rightarrow> data)"
  have put: "\<exists>k. put = take k data"
    by (cases x) (auto simp: put_def intro: exI[of _ "length data"])
  show ?thesis
  proof (cases "x = Fail \<or> ro")
    case True
    with assms(1) Pair e w1 fd show ?thesis
      by (auto simp: sys_write_def open_on_def fd_lock_def)
  next
    case False
    with assms(1) Pair e w1 fd have b: "b = int (length put)"
      and w': "w' = set_pos fd (int p + int (length put)) (set_data fd (overwrite bs p put) w1)"
      by (auto simp: sys_write_def put_def Let_def)
    have "files w' = (files w)(path \<mapsto> overwrite bs p put)"
      using w' e w1 by (simp add: set_data_def)
    moreover have "open_on fd' ro' path' w' = open_on fd' ro' path' w"
      using w' e w1 assms(3) by (auto simp: open_on_def set_pos_def set_data_def)
    moreover have "fd_lock w' fd' = fd_lock w fd'"
      using w' e w1 by (auto simp: fd_lock_def set_pos_def set_data_def)
    ultimately show ?thesis using b put by metis
  qed
qed

text \<open>
  The effect of a record write under any outcomes: only this file changes, and it changes by
  overwriting a prefix of the record's slot, the whole slot when the call reports success.
\<close>

lemma db_put_effect:
  assumes "db_put fd rec data n w = (rc, w')" "open_on fd ro path w" "files w path = Some bs"
    and "0 < n" "length data = nat n"
  shows "open_on fd ro path w' \<and>
     (rc \<noteq> SUCCESS \<and> files w' = files w \<or>
      (\<exists>k. 0 \<le> rec \<and> nat rec < length bs div nat n \<and>
           files w' = (files w)(path \<mapsto> overwrite bs (nat rec * nat n) (take k data)) \<and>
           (rc = SUCCESS \<longrightarrow> take k data = data)))"
proof -
  obtain recs w1 where w1: "db_reccount fd n w = (recs, w1)" by fastforce
  note e1 = db_reccount_effect[OF w1 assms(2,3)]
  show ?thesis
  proof (cases "recs < 0 \<or> recs \<le> rec")
    case True
    then show ?thesis using assms(1) w1 e1 by (auto simp: db_put_def split: if_splits)
  next
    case False
    then have recs: "recs = int (length bs) div n" "rec < recs" using e1 by auto
    obtain p w2 where w2: "sys_lseek fd (rec * n) w1 = (p, w2)" by fastforce
    note e2 = sys_lseek_effect[OF w2, where fd' = fd and ro = ro and path = path]
    show ?thesis
    proof (cases "p < 0")
      case True
      then show ?thesis using assms(1) w1 w2 e1 e2 False by (auto simp: db_put_def)
    next
      case p: False
      then have "0 \<le> rec * n" and pos: "map_option fe_pos (fdt w2 fd) = Some (rec * n)"
        using e2 by auto
      then have rec: "0 \<le> rec" using \<open>0 < n\<close> by (simp add: zero_le_mult_iff)
      then have pn: "rec * n = int (nat rec * nat n)" using \<open>0 < n\<close> by simp
      have lt: "nat rec < length bs div nat n"
        using recs rec \<open>0 < n\<close> by (simp add: zless_nat_conj nat_less_iff zdiv_int)
      obtain b w3 where w3: "sys_write fd (take (nat n) data) w2 = (b, w3)" by fastforce
      have w2o: "open_on fd ro path w2" "files w2 path = Some bs" using e1 e2 assms(3) by auto
      have pos': "map_option fe_pos (fdt w2 fd) = Some (int (nat rec * nat n))"
        using pos pn by simp
      note e3 = sys_write_effect[OF w3 w2o pos', where fd' = fd and ro' = ro and path' = path]
      have res: "rc = (if b < n then IO_ERROR else SUCCESS)" "w' = w3"
        using assms(1,4) w1 w2 w3 False p by (auto simp: db_put_def split: if_splits)
      have dn: "take (nat n) data = data" using assms(5) by simp
      have o3: "open_on fd ro path w'" using e3 res w2o by simp
      have f2: "files w2 = files w" using e1 e2 by simp
      from e3 consider "b = - 1" "files w3 = files w2" |
        k where "b = int (length (take k data))"
          "files w3 = (files w2)(path \<mapsto> overwrite bs (nat rec * nat n) (take k data))"
        unfolding dn by blast
      then show ?thesis
      proof cases
        case 1
        with res o3 f2 \<open>0 < n\<close> show ?thesis by simp
      next
        case (2 k)
        have "rc = SUCCESS \<longrightarrow> take k data = data"
          using 2(1) res(1) assms(4,5) by (auto split: if_splits)
        with 2(2) res(2) o3 f2 rec lt show ?thesis by auto
      qed
    qed
  qed
qed

lemma db_add_effect:
  assumes "db_add fd data n w = (rc, w')" "open_on fd ro path w" "files w path = Some bs"
    and "0 < n" "length data = nat n"
  shows "open_on fd ro path w' \<and>
     (rc < 0 \<and> files w' = files w \<or>
      (\<exists>k. files w' = (files w)(path \<mapsto> overwrite bs (length bs div nat n * nat n) (take k data)) \<and>
           (0 \<le> rc \<longrightarrow> take k data = data \<and> rc = int (length bs div nat n))))"
proof -
  obtain recs w1 where w1: "db_reccount fd n w = (recs, w1)" by fastforce
  note e1 = db_reccount_effect[OF w1 assms(2,3)]
  show ?thesis
  proof (cases "recs < 0")
    case True
    then show ?thesis using assms(1) w1 e1 by (auto simp: db_add_def)
  next
    case False
    then have recs: "recs = int (length bs) div n" using e1 by auto
    then have recs': "recs = int (length bs div nat n)" using \<open>0 < n\<close> by (simp add: zdiv_int)
    then have pn: "recs * n = int (length bs div nat n * nat n)" using \<open>0 < n\<close> by simp
    obtain p w2 where w2: "sys_lseek fd (recs * n) w1 = (p, w2)" by fastforce
    note e2 = sys_lseek_effect[OF w2, where fd' = fd and ro = ro and path = path]
    show ?thesis
    proof (cases "p < 0")
      case True
      then show ?thesis using assms(1) w1 w2 e1 e2 False by (auto simp: db_add_def)
    next
      case p: False
      obtain b w3 where w3: "sys_write fd (take (nat n) data) w2 = (b, w3)" by fastforce
      have w2o: "open_on fd ro path w2" "files w2 path = Some bs" using e1 e2 assms(3) by auto
      have pos': "map_option fe_pos (fdt w2 fd) = Some (int (length bs div nat n * nat n))"
        using e2 p pn by auto
      note e3 = sys_write_effect[OF w3 w2o pos', where fd' = fd and ro' = ro and path' = path]
      have res: "rc = (if b < n then IO_ERROR else recs)" "w' = w3"
        using assms(1,4) w1 w2 w3 False p by (auto simp: db_add_def split: if_splits)
      have dn: "take (nat n) data = data" using assms(5) by simp
      have o3: "open_on fd ro path w'" using e3 res w2o by simp
      have f2: "files w2 = files w" using e1 e2 by simp
      from e3 consider "b = - 1" "files w3 = files w2" |
        k where "b = int (length (take k data))"
          "files w3 = (files w2)(path \<mapsto> overwrite bs (length bs div nat n * nat n) (take k data))"
        unfolding dn by blast
      then show ?thesis
      proof cases
        case 1
        with res o3 f2 \<open>0 < n\<close> show ?thesis by simp
      next
        case (2 k)
        have "0 \<le> rc \<longrightarrow> take k data = data \<and> rc = int (length bs div nat n)"
          using 2(1) res(1) assms(4,5) recs' by (auto split: if_splits)
        with 2(2) res(2) o3 f2 show ?thesis by auto
      qed
    qed
  qed
qed

section \<open>A machine on which every call succeeds\<close>

lemma no_faults_set [simp]:
  "no_faults (set_pos fd p w) = no_faults w" "no_faults (set_data fd bs w) = no_faults w"
  "no_faults (set_lock fd m w) = no_faults w"
  by (simp_all add: no_faults_def)

lemma open_on_set [simp]:
  "open_on fd' ro path (set_pos fd p w) = open_on fd' ro path w"
  "open_on fd' ro path (set_lock fd m w) = open_on fd' ro path w"
  by (auto simp: open_on_def set_pos_def set_lock_def split: if_splits)

lemma open_on_set_data [simp]:
  "open_on fd ro path w \<Longrightarrow> open_on fd ro path (set_data fd bs w)"
  by (auto simp: open_on_def set_data_def)

lemma sqr_set [simp]:
  "sqr (set_pos fd p w) = sqr w" "sqr (set_lock fd m w) = sqr w" "sqr (set_data fd bs w) = sqr w"
  by (simp_all add: set_pos_def set_lock_def set_data_def split: option.split)

lemma set_data_files: "open_on fd ro path w \<Longrightarrow> files (set_data fd bs w) = (files w)(path \<mapsto> bs)"
  by (auto simp: open_on_def set_data_def)

lemma db_reccount_nf:
  "no_faults w \<Longrightarrow> open_on fd ro path w \<Longrightarrow> files w path = Some bs \<Longrightarrow>
     db_reccount fd n w = (int (length bs) div n, w)"
  by (simp add: db_reccount_def sys_fstat_def next_outcome_no_faults open_on_fd_data)

lemma sys_lseek_nf:
  "no_faults w \<Longrightarrow> open_on fd ro path w \<Longrightarrow> 0 \<le> off \<Longrightarrow>
     sys_lseek fd off w = (off, set_pos fd off w)"
  by (auto simp: sys_lseek_def next_outcome_no_faults open_on_def)

lemma sys_read_nf:
  assumes "no_faults w" "open_on fd ro path w" "files w path = Some bs"
  shows "sys_read fd n (set_pos fd (int p) w) =
     (int (length (take n (drop p bs))), take n (drop p bs),
      set_pos fd (int p + int (length (take n (drop p bs)))) (set_pos fd (int p) w))"
proof -
  obtain e where e: "fdt w fd = Some e" using assms(2) by (auto simp: open_on_def)
  have "fdt (set_pos fd (int p) w) fd = Some (e\<lparr>fe_pos := int p\<rparr>)"
    using e by (simp add: set_pos_def)
  moreover have "fd_data (set_pos fd (int p) w) fd = Some bs"
    using open_on_fd_data[OF assms(2)] assms(3) by simp
  ultimately show ?thesis
    using assms(1) by (simp add: sys_read_def next_outcome_no_faults)
qed

lemma sys_write_nf:
  assumes "no_faults w" "open_on fd False path w" "files w path = Some bs"
  shows "sys_write fd data (set_pos fd (int p) w) =
     (int (length data),
      set_pos fd (int p + int (length data))
        (set_data fd (overwrite bs p data) (set_pos fd (int p) w)))"
proof -
  obtain e where e: "fdt w fd = Some e" "\<not> fe_ro e" using assms(2) by (auto simp: open_on_def)
  have "fdt (set_pos fd (int p) w) fd = Some (e\<lparr>fe_pos := int p\<rparr>)"
    using e by (simp add: set_pos_def)
  moreover have "fd_data (set_pos fd (int p) w) fd = Some bs"
    using open_on_fd_data[OF assms(2)] assms(3) by simp
  ultimately show ?thesis
    using assms(1) e by (simp add: sys_write_def next_outcome_no_faults)
qed

section \<open>The interface the record bases use\<close>

text \<open>
  What the clients (the account base, the log base) rely on: on a ready store, \<open>get\<close> returns the
  record, \<open>put\<close> replaces it, \<open>add\<close> appends one and returns its number, and an index past the
  end is reported as \<open>NOT_FOUND\<close> with nothing changed.
\<close>

locale record_store =
  fixes get :: "int \<Rightarrow> byte list \<Rightarrow> 's \<Rightarrow> int \<times> byte list \<times> 's"
    and put :: "int \<Rightarrow> byte list \<Rightarrow> 's \<Rightarrow> int \<times> 's"
    and add :: "byte list \<Rightarrow> 's \<Rightarrow> int \<times> 's"
    and recs :: "'s \<Rightarrow> byte list list"
    and ready :: "'s \<Rightarrow> bool"
    and rsize :: nat
  assumes get_law: "ready s \<Longrightarrow> i < length (recs s) \<Longrightarrow> length buf = rsize \<Longrightarrow>
      \<exists>s'. get (int i) buf s = (SUCCESS, recs s ! i, s') \<and> ready s' \<and> recs s' = recs s"
    and get_absent: "ready s \<Longrightarrow> int (length (recs s)) \<le> k \<Longrightarrow>
      \<exists>s'. get k buf s = (NOT_FOUND, buf, s') \<and> ready s' \<and> recs s' = recs s"
    and put_law: "ready s \<Longrightarrow> i < length (recs s) \<Longrightarrow> length d = rsize \<Longrightarrow>
      \<exists>s'. put (int i) d s = (SUCCESS, s') \<and> ready s' \<and> recs s' = (recs s)[i := d]"
    and put_absent: "ready s \<Longrightarrow> int (length (recs s)) \<le> k \<Longrightarrow>
      \<exists>s'. put k d s = (NOT_FOUND, s') \<and> ready s' \<and> recs s' = recs s"
    and add_law: "ready s \<Longrightarrow> length d = rsize \<Longrightarrow>
      \<exists>s'. add d s = (int (length (recs s)), s') \<and> ready s' \<and> recs s' = recs s @ [d]"
begin

text \<open>A record read after it was written is the one written, and its neighbours are untouched.\<close>

lemma get_after_put:
  assumes "ready s" "i < length (recs s)" "j < length (recs s)" "length d = rsize" "length buf = rsize"
  shows "fst (snd (get (int j) buf (snd (put (int i) d s)))) = (if j = i then d else recs s ! j)"
proof -
  obtain s' where s': "put (int i) d s = (SUCCESS, s')" "ready s'" "recs s' = (recs s)[i := d]"
    using put_law assms by blast
  then obtain s'' where "get (int j) buf s' = (SUCCESS, recs s' ! j, s'')"
    using get_law[of s' j buf] assms by auto
  with s' assms show ?thesis by (simp add: nth_list_update)
qed

text \<open>An appended record is found under the number \<open>add\<close> returned.\<close>

lemma get_after_add:
  assumes "ready s" "length d = rsize" "length buf = rsize"
  shows "fst (snd (get (fst (add d s)) buf (snd (add d s)))) = d"
proof -
  obtain s' where s': "add d s = (int (length (recs s)), s')" "ready s'" "recs s' = recs s @ [d]"
    using add_law assms by blast
  then obtain s'' where "get (int (length (recs s))) buf s' = (SUCCESS, recs s' ! length (recs s), s'')"
    using get_law[of s' "length (recs s)" buf] assms by auto
  with s' show ?thesis by simp
qed

end

section \<open>The record file provides the interface\<close>

definition file_recs :: "string \<Rightarrow> nat \<Rightarrow> 'a dbs_scheme \<Rightarrow> byte list list" where
  "file_recs path n w = (case files w path of None \<Rightarrow> [] | Some bs \<Rightarrow> records n bs)"

definition file_ready :: "int \<Rightarrow> string \<Rightarrow> nat \<Rightarrow> 'a dbs_scheme \<Rightarrow> bool" where
  "file_ready fd path n w \<longleftrightarrow> no_faults w \<and> open_on fd False path w \<and> sq_fd (sqr w) \<noteq> fd \<and> 0 < n"

lemma file_ready_data:
  assumes "file_ready fd path n w"
  obtains bs where "files w path = Some bs" "file_recs path n w = records n bs"
  using assms by (auto simp: file_ready_def open_on_def file_recs_def)

lemma file_ready_set [simp]:
  "file_ready fd' path n (set_pos fd p w) = file_ready fd' path n w"
  "file_recs path n (set_pos fd p w) = file_recs path n w"
  by (simp_all add: file_ready_def file_recs_def)

lemma db_get_random_nf:
  assumes r: "file_ready fd path n w" and i: "i < length (file_recs path n w)" and b: "length buf = n"
  shows "\<exists>w'. db_get_random fd (int i) buf (int n) w = (SUCCESS, file_recs path n w ! i, w') \<and>
    file_ready fd path n w' \<and> file_recs path n w' = file_recs path n w"
proof -
  obtain bs where bs: "files w path = Some bs" "file_recs path n w = records n bs"
    using r by (rule file_ready_data)
  have nf: "no_faults w" and op: "open_on fd False path w" using r by (auto simp: file_ready_def)
  have fit: "i * n + n \<le> length bs" using i bs by (simp add: record_fits)
  have nth: "records n bs ! i = take n (drop (i * n) bs)" using i bs by (simp add: nth_records)
  have sk: "sys_lseek fd (int i * int n) w = (int (i * n), set_pos fd (int (i * n)) w)"
    using sys_lseek_nf[OF nf op, of "int (i * n)"] by simp
  have len: "length (take n (drop (i * n) bs)) = n" using fit by simp
  show ?thesis
    using b fit sk nth len bs r sys_read_nf[OF nf op bs(1), of n "i * n"]
    by (simp add: db_get_random_def fill_def)
qed

lemma db_get_nf:
  assumes r: "file_ready fd path n w" and i: "i < length (file_recs path n w)" and b: "length buf = n"
  shows "\<exists>w'. db_get fd (int i) buf (int n) w = (SUCCESS, file_recs path n w ! i, w') \<and>
    file_ready fd path n w' \<and> file_recs path n w' = file_recs path n w"
proof -
  obtain bs where bs: "files w path = Some bs" "file_recs path n w = records n bs"
    using r by (rule file_ready_data)
  have "db_reccount fd (int n) w = (int (length bs div n), w)"
    using r bs db_reccount_nf[of w fd False path bs] by (simp add: file_ready_def zdiv_int)
  then have "db_get fd (int i) buf (int n) w = db_get_random fd (int i) buf (int n) w"
    using r i bs by (simp add: db_get_def file_ready_def)
  with db_get_random_nf[OF assms] show ?thesis by simp
qed

lemma db_get_absent_nf:
  assumes r: "file_ready fd path n w" and k: "int (length (file_recs path n w)) \<le> k"
  shows "db_get fd k buf (int n) w = (NOT_FOUND, buf, w)"
    and "db_put fd k data (int n) w = (NOT_FOUND, w)"
proof -
  obtain bs where bs: "files w path = Some bs" "file_recs path n w = records n bs"
    using r by (rule file_ready_data)
  have "db_reccount fd (int n) w = (int (length bs div n), w)"
    using r bs db_reccount_nf[of w fd False path bs] by (simp add: file_ready_def zdiv_int)
  then show "db_get fd k buf (int n) w = (NOT_FOUND, buf, w)"
    and "db_put fd k data (int n) w = (NOT_FOUND, w)"
    using k bs by (simp_all add: db_get_def db_put_def)
qed

lemma db_put_nf:
  assumes r: "file_ready fd path n w" and i: "i < length (file_recs path n w)" and d: "length d = n"
  shows "\<exists>w'. db_put fd (int i) d (int n) w = (SUCCESS, w') \<and>
    file_ready fd path n w' \<and> file_recs path n w' = (file_recs path n w)[i := d]"
proof -
  obtain bs where bs: "files w path = Some bs" "file_recs path n w = records n bs"
    using r by (rule file_ready_data)
  have nf: "no_faults w" and op: "open_on fd False path w" and n: "0 < n"
    using r by (auto simp: file_ready_def)
  have cnt: "db_reccount fd (int n) w = (int (length bs div n), w)"
    using bs db_reccount_nf[OF nf op] by (simp add: zdiv_int)
  have sk: "sys_lseek fd (int i * int n) w = (int (i * n), set_pos fd (int (i * n)) w)"
    using sys_lseek_nf[OF nf op, of "int (i * n)"] by simp
  show ?thesis
    using i bs d sk cnt n r op sys_write_nf[OF nf op bs(1), of d "i * n"]
    by (simp add: db_put_def file_recs_def set_data_files records_overwrite file_ready_def)
qed

lemma db_add_nf:
  assumes r: "file_ready fd path n w" and d: "length d = n"
  shows "\<exists>w'. db_add fd d (int n) w = (int (length (file_recs path n w)), w') \<and>
    file_ready fd path n w' \<and> file_recs path n w' = file_recs path n w @ [d]"
proof -
  obtain bs where bs: "files w path = Some bs" "file_recs path n w = records n bs"
    using r by (rule file_ready_data)
  have nf: "no_faults w" and op: "open_on fd False path w" and n: "0 < n"
    using r by (auto simp: file_ready_def)
  have cnt: "db_reccount fd (int n) w = (int (length bs div n), w)"
    using bs db_reccount_nf[OF nf op] by (simp add: zdiv_int)
  have sk: "sys_lseek fd (int (length bs div n) * int n) w =
      (int (length bs div n * n), set_pos fd (int (length bs div n * n)) w)"
    using sys_lseek_nf[OF nf op, of "int (length bs div n * n)"] by simp
  show ?thesis
    using bs d sk cnt n r op sys_write_nf[OF nf op bs(1), of d "length bs div n * n"]
      records_append(3)[OF n, of d bs]
    by (simp add: db_add_def file_recs_def set_data_files file_ready_def)
qed

interpretation rf: record_store
  "\<lambda>i buf w. db_get fd i buf (int n) w" "\<lambda>i d w. db_put fd i d (int n) w"
  "\<lambda>d w. db_add fd d (int n) w" "file_recs path n" "file_ready fd path n" n
  for fd :: int and path :: string and n :: nat
proof unfold_locales
  fix s :: "'a dbs_scheme" and i and buf :: "byte list"
  assume "file_ready fd path n s" "i < length (file_recs path n s)" "length buf = n"
  then show "\<exists>s'. db_get fd (int i) buf (int n) s = (SUCCESS, file_recs path n s ! i, s') \<and>
      file_ready fd path n s' \<and> file_recs path n s' = file_recs path n s"
    by (rule db_get_nf)
next
  fix s :: "'a dbs_scheme" and i and d :: "byte list"
  assume "file_ready fd path n s" "i < length (file_recs path n s)" "length d = n"
  then show "\<exists>s'. db_put fd (int i) d (int n) s = (SUCCESS, s') \<and>
      file_ready fd path n s' \<and> file_recs path n s' = (file_recs path n s)[i := d]"
    by (rule db_put_nf)
next
  fix s :: "'a dbs_scheme" and d :: "byte list"
  assume "file_ready fd path n s" "length d = n"
  then show "\<exists>s'. db_add fd d (int n) s = (int (length (file_recs path n s)), s') \<and>
      file_ready fd path n s' \<and> file_recs path n s' = file_recs path n s @ [d]"
    by (rule db_add_nf)
qed (auto simp: db_get_absent_nf)

lemmas file_get_after_put = rf.get_after_put
lemmas file_get_after_add = rf.get_after_add

section \<open>Cached reading\<close>

text \<open>
  The cache agrees with the file: its records are those of the file from \<open>sq_first\<close> on.
\<close>

definition cache_ok :: "nat \<Rightarrow> byte list \<Rightarrow> seqread \<Rightarrow> bool" where
  "cache_ok n bs q \<longleftrightarrow> (case sq_cache q of None \<Rightarrow> True | Some c \<Rightarrow>
     sq_recs q = 0 \<or>
     0 \<le> sq_first q \<and> 0 < sq_recs q \<and>
     (\<forall>j < nat (sq_recs q). nat (sq_first q) + j < length (records n bs) \<and>
        take n (drop (j * n) c) = records n bs ! (nat (sq_first q) + j)))"

definition seq_ready :: "int \<Rightarrow> string \<Rightarrow> nat \<Rightarrow> byte list \<Rightarrow> 'a dbs_scheme \<Rightarrow> bool" where
  "seq_ready fd path n bs w \<longleftrightarrow> no_faults w \<and> open_on fd True path w \<and> files w path = Some bs \<and>
     sq_fd (sqr w) = fd \<and> 0 < n \<and> cache_ok n bs (sqr w)"

lemma seq_ready_set [simp]:
  "seq_ready fd' path n bs (set_pos fd p w) = seq_ready fd' path n bs w"
  "seq_ready fd' path n bs (set_lock fd m w) = seq_ready fd' path n bs w"
  by (simp_all add: seq_ready_def)

lemma cache_hit:
  assumes ok: "cache_ok n bs q" "sq_cache q = Some c" and n: "sq_recs q \<noteq> 0"
    and i: "sq_first q \<le> int i" "int i < sq_first q + sq_recs q"
  shows "take n (drop (nat ((int i - sq_first q) * int n)) c) = records n bs ! i"
proof -
  let ?j = "nat (int i - sq_first q)"
  have "0 \<le> sq_first q" "?j < nat (sq_recs q)"
    using assms by (auto simp: cache_ok_def)
  moreover have "nat (sq_first q) + ?j = i" using \<open>0 \<le> sq_first q\<close> i by simp
  moreover have "nat ((int i - sq_first q) * int n) = ?j * n" using i by (simp add: nat_mult_distrib)
  ultimately show ?thesis using ok n by (auto simp: cache_ok_def)
qed

lemma cache_refill:
  assumes n: "0 < n" and i: "i < length bs div n"
  defines "got \<equiv> take (n * 32768) (drop (i * n) bs)"
  shows "n \<le> length got" and "take n (got @ rest) = records n bs ! i"
    and "cache_ok n bs \<lparr>sq_fd = fd, sq_first = int i, sq_recs = int (length got div n),
           sq_cache = Some (got @ rest)\<rparr>"
proof -
  have fit: "i * n + n \<le> length bs" using i by (rule record_fits)
  then show len: "n \<le> length got" using n by (simp add: got_def)
  have rec: "i + j < length bs div n \<and> take n (drop (j * n) (got @ rest)) = records n bs ! (i + j)"
    if j: "j < length got div n" for j
  proof -
    have jn: "j * n + n \<le> length got" using j by (rule record_fits)
    then have "j * n + n \<le> length bs - i * n" by (simp add: got_def)
    moreover have "(i + j + 1) * n = i * n + (j * n + n)" by (simp add: algebra_simps)
    ultimately have le: "(i + j + 1) * n \<le> length bs" using fit by linarith
    then have ij: "i + j < length bs div n" using n by (simp add: less_eq_div_iff_mult_less_eq Suc_le_eq[symmetric])
    have "take n (drop (j * n) (got @ rest)) = take n (drop (j * n) got)" using jn by simp
    also have "\<dots> = take n (drop ((i + j) * n) bs)"
    proof -
      have "length got \<le> n * 32768" by (simp add: got_def)
      then have "min n (n * 32768 - j * n) = n" using jn by linarith
      then show ?thesis by (simp add: got_def drop_take algebra_simps)
    qed
    finally show ?thesis using ij by (simp add: nth_records)
  qed
  have pos: "0 < length got div n" using len n by (simp add: div_greater_zero_iff)
  from rec[OF pos] show "take n (got @ rest) = records n bs ! i" by simp
  show "cache_ok n bs \<lparr>sq_fd = fd, sq_first = int i, sq_recs = int (length got div n),
           sq_cache = Some (got @ rest)\<rparr>"
    using pos rec by (simp add: cache_ok_def)
qed

lemma db_get_cached_nf:
  assumes r: "seq_ready fd path n bs w" and i: "i < length (records n bs)"
  shows "\<exists>w'. db_get_cached fd (int i) buf (int n) cache w = (SUCCESS, records n bs ! i, w') \<and>
    seq_ready fd path n bs w'"
proof -
  have nf: "no_faults w" and op: "open_on fd True path w" and bs: "files w path = Some bs"
    and q: "sq_fd (sqr w) = fd" and n: "0 < n"
    using r by (auto simp: seq_ready_def)
  let ?w = "set_lock fd LOCK_SH w"
  let ?got = "take (n * 32768) (drop (i * n) bs)"
  have lk: "sys_flock fd LOCK_SH w = (0, ?w)"
    using nf op by (auto simp: sys_flock_def next_outcome_no_faults open_on_def)
  have sk: "sys_lseek fd (int i * int n) ?w = (int (i * n), set_pos fd (int (i * n)) ?w)"
    using sys_lseek_nf[of ?w fd True path "int (i * n)"] nf op by simp
  have rd: "sys_read fd (n * 32768) (set_pos fd (int (i * n)) ?w) =
      (int (length ?got), ?got, set_pos fd (int (i * n) + int (length ?got)) (set_pos fd (int (i * n)) ?w))"
    using nf op bs by (intro sys_read_nf) simp_all
  define w2 where "w2 = set_pos fd (int (i * n) + int (length ?got)) (set_pos fd (int (i * n)) ?w)"
  define w3 where "w3 = w2\<lparr>sqr := (sqr w2)\<lparr>sq_cache := Some (fill ?got cache)\<rparr>\<rparr>"
  have un: "sys_flock fd LOCK_UN w3 = (0, set_lock fd LOCK_UN w3)"
    using op by (auto simp: sys_flock_def open_on_def w3_def w2_def set_pos_def set_lock_def)
  have i': "i < length bs div n" using i by simp
  note cr = cache_refill[OF n i']
  have ge: "\<not> int (length ?got) < int n" using cr(1) by linarith
  have dv: "int (length ?got) div int n = int (length ?got div n)" by (simp add: zdiv_int)
  have nn: "nat (int n * 32768) = n * 32768" by simp
  define w' where "w' = set_lock fd LOCK_UN w3
      \<lparr>sqr := (sqr (set_lock fd LOCK_UN w3))\<lparr>sq_first := int i, sq_recs := int (length ?got) div int n\<rparr>\<rparr>"
  have "db_get_cached fd (int i) buf (int n) cache w = (SUCCESS, take n (fill ?got cache), w')"
    unfolding db_get_cached_def lk sk prod.case rd[folded w2_def] nn
    using ge un by (simp add: Let_def w3_def[symmetric] w'_def del: length_take)
  moreover have "take n (fill ?got cache) = records n bs ! i"
    unfolding fill_def by (rule cr(2))
  moreover have "seq_ready fd path n bs w'"
  proof -
    have sq: "sqr w' = \<lparr>sq_fd = fd, sq_first = int i, sq_recs = int (length ?got div n),
        sq_cache = Some (fill ?got cache)\<rparr>"
      using q by (simp add: w'_def w3_def w2_def dv[symmetric] del: length_take)
    have "cache_ok n bs (sqr w')" unfolding sq fill_def by (rule cr(3))
    moreover have "no_faults w'" "open_on fd True path w'" "files w' path = Some bs"
      using nf op bs by (auto simp: w'_def w3_def w2_def no_faults_def open_on_def set_pos_def
          set_lock_def fun_upd_def split: if_splits)
    ultimately show ?thesis using sq n by (simp add: seq_ready_def)
  qed
  ultimately show ?thesis by simp
qed

lemma db_put_records:
  assumes "db_put fd rec data n w = (rc, w')" "open_on fd ro path w" "files w path = Some bs"
    and "0 < n" "length data = nat n"
  shows "\<exists>bs'. files w' = (files w)(path \<mapsto> bs') \<and>
     length (records (nat n) bs') = length (records (nat n) bs) \<and>
     (\<forall>j < length (records (nat n) bs). int j \<noteq> rec \<longrightarrow> records (nat n) bs' ! j = records (nat n) bs ! j) \<and>
     (rc = SUCCESS \<longrightarrow> records (nat n) bs' = (records (nat n) bs)[nat rec := data]) \<and>
     (int (length (records (nat n) bs)) \<le> rec \<longrightarrow> rc < 0 \<and> bs' = bs)"
proof -
  from db_put_effect[OF assms] consider
    (no) "rc \<noteq> SUCCESS" "files w' = files w"
  | (wr) k where "0 \<le> rec" "nat rec < length bs div nat n"
      "files w' = (files w)(path \<mapsto> overwrite bs (nat rec * nat n) (take k data))"
      "rc = SUCCESS \<longrightarrow> take k data = data"
    by blast
  then show ?thesis
  proof cases
    case no
    obtain recs w1 where w1: "db_reccount fd n w = (recs, w1)" by fastforce
    have "rc < 0 \<or> rc = SUCCESS"
      using assms(1) by (auto simp: db_put_def split: prod.splits if_splits)
    with no assms(3) show ?thesis
      by (intro exI[of _ bs]) (auto simp: fun_upd_idem)
  next
    case wr
    have n: "0 < nat n" using assms(4) by simp
    have len: "length (take k data) \<le> nat n" using assms(5) by simp
    note other = records_overwrite_other[OF n wr(2) len]
    have "j \<noteq> nat rec" if "int j \<noteq> rec" for j using that wr(1) by auto
    moreover have "records (nat n) (overwrite bs (nat rec * nat n) data) = (records (nat n) bs)[nat rec := data]"
      using records_overwrite[OF n wr(2) assms(5)] .
    moreover have "\<not> int (length (records (nat n) bs)) \<le> rec" using wr(1,2) by simp
    ultimately show ?thesis
      using wr(3,4) other by (intro exI[of _ "overwrite bs (nat rec * nat n) (take k data)"]) auto
  qed
qed

lemma db_add_records:
  assumes "db_add fd data n w = (rc, w')" "open_on fd ro path w" "files w path = Some bs"
    and "0 < n" "length data = nat n"
  shows "\<exists>bs'. files w' = (files w)(path \<mapsto> bs') \<and>
     take (length (records (nat n) bs)) (records (nat n) bs') = records (nat n) bs \<and>
     (0 \<le> rc \<longrightarrow> rc = int (length (records (nat n) bs)) \<and>
                 records (nat n) bs' = records (nat n) bs @ [data])"
proof -
  from db_add_effect[OF assms] consider
    (no) "rc < 0" "files w' = files w"
  | (wr) k where
      "files w' = (files w)(path \<mapsto> overwrite bs (length bs div nat n * nat n) (take k data))"
      "0 \<le> rc \<longrightarrow> take k data = data \<and> rc = int (length bs div nat n)"
    by blast
  then show ?thesis
  proof cases
    case no
    with assms(3) show ?thesis by (intro exI[of _ bs]) (auto simp: fun_upd_idem)
  next
    case wr
    have n: "0 < nat n" using assms(4) by simp
    have len: "length (take k data) \<le> nat n" using assms(5) by simp
    note ap = records_append[OF n len]
    have "take (length (records (nat n) bs)) (records (nat n)
        (overwrite bs (length bs div nat n * nat n) (take k data))) = records (nat n) bs"
    proof (rule nth_equalityI)
      show "length (take (length (records (nat n) bs)) (records (nat n)
          (overwrite bs (length bs div nat n * nat n) (take k data)))) = length (records (nat n) bs)"
        using ap(2)[of bs] by (auto split: if_splits)
    qed (use ap(1)[of _ bs] in auto)
    moreover have "records (nat n) (overwrite bs (length bs div nat n * nat n) data) = records (nat n) bs @ [data]"
      using records_append(3)[OF n _ assms(5), of bs] assms(5) by simp
    ultimately show ?thesis using wr
      by (intro exI[of _ "overwrite bs (length bs div nat n * nat n) (take k data)"]) auto
  qed
qed

section \<open>Properties\<close>

text \<open>A small machine for concrete runs: one file of three two-byte records, open on descriptor 3.\<close>

definition demo_dbs :: "bool \<Rightarrow> outcome list \<Rightarrow> dbs" where
  "demo_dbs ro scr = \<lparr>files = [''f'' \<mapsto> [1, 2, 3, 4, 5, 6]],
     fdt = [3 \<mapsto> \<lparr>fe_path = ''f'', fe_pos = 0, fe_lock = LOCK_UN, fe_ro = ro\<rparr>], nextfd = 4,
     script = scr, clock = (\<lambda>_. None), ticks = 0, zcrc32 = (\<lambda>bs. word_of_nat (un_le bs)),
     junk = (\<lambda>_. 0), sqr = sqr_none\<rparr>"

lemma demo_dbs_open: "open_on 3 ro ''f'' (demo_dbs ro scr)"
  by (simp add: open_on_def demo_dbs_def)

text \<open>
  C23: Whatever system calls fail or stop short, writing a record changes no other file, no
  other record of its file and not their number; when it reports success the record holds the
  data, and when the record does not exist nothing is written.
\<close>

theorem db_put_torn:
  assumes "db_put fd rec data n w = (rc, w')" "open_on fd ro path w" "files w path = Some bs"
    and "0 < n" "length data = nat n"
  shows "\<exists>bs'. files w' = (files w)(path \<mapsto> bs') \<and>
     length (records (nat n) bs') = length (records (nat n) bs) \<and>
     (\<forall>j < length (records (nat n) bs). int j \<noteq> rec \<longrightarrow> records (nat n) bs' ! j = records (nat n) bs ! j) \<and>
     (rc = SUCCESS \<longrightarrow> records (nat n) bs' = (records (nat n) bs)[nat rec := data]) \<and>
     (int (length (records (nat n) bs)) \<le> rec \<longrightarrow> rc < 0 \<and> bs' = bs)"
  by (rule db_put_records[OF assms])

theorem db_put_torn_witness:
  "\<exists>bs'. files (snd (db_put 3 1 [9, 9] 2 (demo_dbs False [Done, Done, Short 1]))) ''f'' = Some bs' \<and>
     records 2 bs' ! 0 = [1, 2]"
proof -
  obtain rc w' where e: "db_put 3 1 [9, 9] 2 (demo_dbs False [Done, Done, Short 1]) = (rc, w')" by fastforce
  from db_put_torn[OF e demo_dbs_open, of "[1, 2, 3, 4, 5, 6]"] obtain bs' where
    "files w' ''f'' = Some bs'" "records 2 bs' ! 0 = records 2 [1, 2, 3, 4, 5, 6] ! 0"
    by (auto simp: demo_dbs_def)
  with e show ?thesis by (simp add: nth_records)
qed

text \<open>
  C24: Whatever system calls fail or stop short, appending a record keeps every complete record
  of the file where it was; the call that reports a record number has appended exactly the
  data, under that number.
\<close>

theorem db_add_torn:
  assumes "db_add fd data n w = (rc, w')" "open_on fd ro path w" "files w path = Some bs"
    and "0 < n" "length data = nat n"
  shows "\<exists>bs'. files w' = (files w)(path \<mapsto> bs') \<and>
     take (length (records (nat n) bs)) (records (nat n) bs') = records (nat n) bs \<and>
     (0 \<le> rc \<longrightarrow> rc = int (length (records (nat n) bs)) \<and>
                 records (nat n) bs' = records (nat n) bs @ [data])"
  by (rule db_add_records[OF assms])

theorem db_add_torn_witness:
  "\<exists>bs'. files (snd (db_add 3 [9, 9] 2 (demo_dbs False [Done, Done, Short 1]))) ''f'' = Some bs' \<and>
     take 3 (records 2 bs') = [[1, 2], [3, 4], [5, 6]]"
proof -
  obtain rc w' where e: "db_add 3 [9, 9] 2 (demo_dbs False [Done, Done, Short 1]) = (rc, w')" by fastforce
  have "files (demo_dbs False [Done, Done, Short 1]) ''f'' = Some [1, 2, 3, 4, 5, 6]"
    by (simp add: demo_dbs_def)
  note t = db_add_torn[OF e demo_dbs_open this]
  obtain bs' where b: "files w' = (files (demo_dbs False [Done, Done, Short 1]))(''f'' \<mapsto> bs')"
    "take (length (records (nat 2) [1, 2, 3, 4, 5, 6])) (records (nat 2) bs') =
     records (nat 2) [1, 2, 3, 4, 5, 6]"
    using t by auto
  have "records (nat 2) [1, 2, 3, 4, 5, 6] = [[1, 2], [3, 4], [5, 6 :: byte]]"
    by (simp add: records_def upt_rec)
  with b have "files w' ''f'' = Some bs'" "take 3 (records 2 bs') = [[1, 2], [3, 4], [5, 6]]"
    by (simp_all add: numeral_3_eq_3)
  with e show ?thesis by simp
qed

text \<open>
  Reading a record through the sequential cache returns the record that is in the file, on
  a hit and on a refill, and keeps the cache in agreement with the file for the next read.
\<close>

lemma db_get_seq:
  assumes r: "seq_ready fd path n bs w" and i: "i < length (records n bs)"
  shows "\<exists>w'. db_get fd (int i) buf (int n) w = (SUCCESS, records n bs ! i, w') \<and>
    seq_ready fd path n bs w'"
proof -
  have nf: "no_faults w" and op: "open_on fd True path w" and bs: "files w path = Some bs"
    and q: "sq_fd (sqr w) = fd" and ok: "cache_ok n bs (sqr w)"
    using r by (auto simp: seq_ready_def)
  have cnt: "db_reccount fd (int n) w = (int (length bs div n), w)"
    using db_reccount_nf[OF nf op bs] by (simp add: zdiv_int)
  have al: "sys_alloc w = (True, w)" using nf by (simp add: sys_alloc_def next_outcome_no_faults)
  show ?thesis
  proof (cases "sq_cache (sqr w)")
    case None
    with cnt al i q db_get_cached_nf[OF r i] show ?thesis by (simp add: db_get_def)
  next
    case (Some c)
    show ?thesis
    proof (cases "sq_recs (sqr w) \<noteq> 0 \<and> sq_first (sqr w) \<le> int i \<and>
        int i < sq_first (sqr w) + sq_recs (sqr w)")
      case True
      then have "take n (drop (nat ((int i - sq_first (sqr w)) * int n)) c) = records n bs ! i"
        using cache_hit[OF ok Some] by blast
      with True Some cnt i q r show ?thesis by (simp add: db_get_def)
    next
      case False
      then have "db_get fd (int i) buf (int n) w = db_get_cached fd (int i) buf (int n) c w"
        using Some cnt i q by (auto simp: db_get_def)
      with db_get_cached_nf[OF r i] show ?thesis by simp
    qed
  qed
qed

lemma db_get_seq_witness:
  "let w = (demo_dbs True [])\<lparr>sqr := sqr_none\<lparr>sq_fd := 3\<rparr>\<rparr> in
   \<exists>w'. db_get 3 1 [] 2 w = (SUCCESS, [3, 4], w') \<and>
    seq_ready 3 ''f'' 2 [1, 2, 3, 4, 5, 6] w'"
proof -
  let ?w = "(demo_dbs True [])\<lparr>sqr := sqr_none\<lparr>sq_fd := 3\<rparr>\<rparr>"
  have "seq_ready 3 ''f'' 2 [1, 2, 3, 4, 5, 6] ?w"
    by (simp add: seq_ready_def demo_dbs_def no_faults_def open_on_def sqr_none_def cache_ok_def)
  from db_get_seq[OF this, of 1 "[]"] show ?thesis by (simp add: nth_records)
qed

text \<open>
  On a machine without faults, a record read back after another (or the same) record was
  written is the new data if it is the record written, and the old contents otherwise.
\<close>

lemma record_get_after_put:
  assumes "file_ready fd path n w" "i < length (file_recs path n w)" "j < length (file_recs path n w)"
    "length d = n" "length buf = n"
  shows "fst (snd (db_get fd (int j) buf (int n) (snd (db_put fd (int i) d (int n) w)))) =
    (if j = i then d else file_recs path n w ! j)"
  using assms by (rule file_get_after_put)

lemma record_get_after_put_witness:
  "fst (snd (db_get 3 2 [0, 0] 2 (snd (db_put 3 2 [7, 7] 2 (demo_dbs False []))))) = [7, 7]"
proof -
  have "file_ready 3 ''f'' 2 (demo_dbs False [])"
    by (simp add: file_ready_def demo_dbs_def no_faults_def open_on_def sqr_none_def)
  moreover have "length (file_recs ''f'' 2 (demo_dbs False [])) = 3"
    by (simp add: file_recs_def demo_dbs_def)
  ultimately show ?thesis
    using record_get_after_put[of 3 "''f''" 2 "demo_dbs False []" 2 2 "[7, 7]" "[0, 0]"] by simp
qed

end
