(* ===== verification/Frame.thy ===== *)
theory Frame
  imports RecFile
begin

text \<open>
  What the record file operations leave alone, whatever system calls fail: \<open>quiet P w w'\<close> says
  that only files in \<open>P\<close> may differ between the two states, that the same descriptors are open
  on the same files with the same locks, and that the read cache, the clock and the state of
  the caller are the same.  Only file positions, the fault script and the number of clock
  readings are not covered.  Locking calls get their own lemma.
\<close>

definition fd_view :: "fdent \<Rightarrow> string \<times> bool \<times> lockmode" where
  "fd_view e = (fe_path e, fe_ro e, fe_lock e)"

definition quiet :: "string set \<Rightarrow> 'a dbs_scheme \<Rightarrow> 'a dbs_scheme \<Rightarrow> bool" where
  "quiet P w w' \<longleftrightarrow>
     (\<forall>p. p \<notin> P \<longrightarrow> files w' p = files w p) \<and> (\<forall>p. (files w' p = None) = (files w p = None)) \<and>
     (\<forall>fd. map_option fd_view (fdt w' fd) = map_option fd_view (fdt w fd)) \<and>
     sqr w' = sqr w \<and> clock w' = clock w \<and> zcrc32 w' = zcrc32 w \<and> junk w' = junk w \<and>
     nextfd w' = nextfd w \<and> (no_faults w \<longrightarrow> no_faults w') \<and> dbs.more w' = dbs.more w"

lemma quiet_refl [simp, intro]: "quiet P w w"
  by (simp add: quiet_def)

lemma quiet_trans: "quiet P w w1 \<Longrightarrow> quiet P w1 w2 \<Longrightarrow> quiet P w w2"
  by (simp add: quiet_def)

lemma quiet_mono: "quiet P w w' \<Longrightarrow> P \<subseteq> Q \<Longrightarrow> quiet Q w w'"
  by (auto simp: quiet_def)

lemma quiet_lock: "quiet P w w' \<Longrightarrow> fd_lock w' fd = fd_lock w fd"
proof -
  assume "quiet P w w'"
  then have "map_option fd_view (fdt w' fd) = map_option fd_view (fdt w fd)" by (simp add: quiet_def)
  then show ?thesis
    by (cases "fdt w fd"; cases "fdt w' fd") (auto simp: fd_lock_def fd_view_def)
qed

lemma quiet_open: "quiet P w w' \<Longrightarrow> (fdt w' fd = None) = (fdt w fd = None)"
proof -
  assume "quiet P w w'"
  then have "map_option fd_view (fdt w' fd) = map_option fd_view (fdt w fd)" by (simp add: quiet_def)
  then show ?thesis by (cases "fdt w fd"; cases "fdt w' fd") auto
qed

lemma quiet_open_on: "quiet P w w' \<Longrightarrow> open_on fd ro p w' = open_on fd ro p w"
proof -
  assume q: "quiet P w w'"
  then have "map_option fd_view (fdt w' fd) = map_option fd_view (fdt w fd)"
    and "(files w' p = None) = (files w p = None)" by (simp_all add: quiet_def)
  then show ?thesis
    by (cases "fdt w fd"; cases "fdt w' fd") (auto simp: open_on_def fd_view_def)
qed

lemma quiet_simps:
  assumes "quiet P w w'"
  shows "sqr w' = sqr w" "clock w' = clock w" "zcrc32 w' = zcrc32 w" "junk w' = junk w"
    "dbs.more w' = dbs.more w" "no_faults w \<Longrightarrow> no_faults w'" "p \<notin> P \<Longrightarrow> files w' p = files w p"
  using assms by (simp_all add: quiet_def)

text \<open>The path of a descriptor, if it is open.\<close>

definition fd_paths :: "'a dbs_scheme \<Rightarrow> int \<Rightarrow> string set" where
  "fd_paths w fd = (case fdt w fd of None \<Rightarrow> {} | Some e \<Rightarrow> {fe_path e})"

lemma quiet_paths: "quiet P w w' \<Longrightarrow> fd_paths w' fd = fd_paths w fd"
proof -
  assume "quiet P w w'"
  then have "map_option fd_view (fdt w' fd) = map_option fd_view (fdt w fd)" by (simp add: quiet_def)
  then show ?thesis
    by (cases "fdt w fd"; cases "fdt w' fd") (auto simp: fd_paths_def fd_view_def)
qed

section \<open>System calls\<close>

lemma next_outcome_more [simp]:
  "sqr (snd (next_outcome w)) = sqr (w :: 'a dbs_scheme)" "junk (snd (next_outcome w)) = junk w"
  "dbs.more (snd (next_outcome w)) = dbs.more w"
  by (auto simp: next_outcome_def split: list.splits)

lemma quiet_next_outcome: "quiet P w (snd (next_outcome w))"
  by (auto simp: quiet_def no_faults_def next_outcome_def split: list.splits)

lemma quiet_set_pos: "quiet P w (set_pos fd p w)"
  by (auto simp: quiet_def no_faults_def set_pos_def fd_view_def option.map_comp comp_def
      intro!: option.map_cong split: option.splits)

lemma quiet_set_data:
  "fd_paths w fd \<subseteq> P \<Longrightarrow> fd_data w fd \<noteq> None \<Longrightarrow> quiet P w (set_data fd bs w)"
  by (auto simp: quiet_def no_faults_def set_data_def fd_paths_def fd_data_def split: option.splits)

lemma ticks_set [simp]: "ticks (snd (next_outcome w)) = ticks w"
  by (auto simp: next_outcome_def split: list.splits)

lemma quiet_lseek: "sys_lseek fd off w = (p, w') \<Longrightarrow> quiet P w w' \<and> ticks w' = ticks w"
  using quiet_next_outcome[of P w] ticks_set[of w]
  by (cases "next_outcome w") (auto simp: sys_lseek_def split: if_splits intro: quiet_trans quiet_set_pos)

lemma quiet_fstat: "sys_fstat fd w = (r, w') \<Longrightarrow> quiet P w w' \<and> ticks w' = ticks w"
  using quiet_next_outcome[of P w] ticks_set[of w]
  by (cases "next_outcome w") (auto simp: sys_fstat_def split: if_splits)

lemma quiet_read: "sys_read fd n w = (b, got, w') \<Longrightarrow> quiet P w w' \<and> ticks w' = ticks w"
  using quiet_next_outcome[of P w] ticks_set[of w]
  by (cases "next_outcome w")
    (auto simp: sys_read_def Let_def split: if_splits option.splits outcome.splits
      intro: quiet_trans quiet_set_pos)

lemma quiet_write:
  assumes "sys_write fd data w = (b, w')" "fd_paths w fd \<subseteq> P"
  shows "quiet P w w' \<and> ticks w' = ticks w"
proof -
  obtain x w1 where x: "next_outcome w = (x, w1)" by fastforce
  have q: "quiet P w w1" "ticks w1 = ticks w"
    using quiet_next_outcome[of P w] ticks_set[of w] x by simp_all
  have p: "fd_paths w1 fd \<subseteq> P" using q(1) assms(2) by (simp add: quiet_paths)
  show ?thesis
  proof (cases "b = - 1 \<and> w' = w1")
    case True
    with q show ?thesis by simp
  next
    case False
    then obtain pos put where "w' = set_pos fd pos (set_data fd put w1)" "fd_data w1 fd \<noteq> None"
      using assms(1) x by (auto simp: sys_write_def Let_def split: option.splits if_splits)
    with q p show ?thesis
      by (auto intro: quiet_trans[OF q(1)] quiet_trans[OF quiet_set_data quiet_set_pos])
  qed
qed

lemma quiet_fsync: "sys_fsync fd w = (rc, w') \<Longrightarrow> quiet P w w' \<and> ticks w' = ticks w"
  using quiet_next_outcome[of P w] ticks_set[of w]
  by (cases "next_outcome w") (auto simp: sys_fsync_def split: if_splits)

lemma quiet_time: "sys_time w = (t, w') \<Longrightarrow> quiet P w w'"
  by (auto simp: sys_time_def sys_gettimeofday_def quiet_def no_faults_def)

section \<open>Record operations\<close>

lemma quiet_reccount: "db_reccount fd n w = (recs, w') \<Longrightarrow> quiet P w w' \<and> ticks w' = ticks w"
  by (auto simp: db_reccount_def dest!: quiet_fstat[where P = P] split: prod.splits option.splits)

lemma quiet_get_random:
  "db_get_random fd rec buf n w = (rc, buf', w') \<Longrightarrow> quiet P w w' \<and> ticks w' = ticks w"
  by (auto simp: db_get_random_def split: prod.splits if_splits
      dest!: quiet_lseek[where P = P] quiet_read[where P = P] intro: quiet_trans)

lemma quiet_get:
  assumes "db_get fd rec buf n w = (rc, buf', w')" "sq_fd (sqr w) \<noteq> fd"
  shows "quiet P w w' \<and> ticks w' = ticks w"
proof -
  obtain recs w1 where w1: "db_reccount fd n w = (recs, w1)" by fastforce
  then have q: "quiet P w w1" "ticks w1 = ticks w" using quiet_reccount by blast+
  then have "sq_fd (sqr w1) \<noteq> fd" using assms(2) by (simp add: quiet_simps)
  with assms(1) w1 consider "w' = w1" | "db_get_random fd rec buf n w1 = (rc, buf', w')"
    by (auto simp: db_get_def split: if_splits)
  then show ?thesis
    by cases (use q in \<open>auto dest!: quiet_get_random[where P = P] intro: quiet_trans\<close>)
qed

lemma quiet_put:
  assumes "db_put fd rec data n w = (rc, w')" "fd_paths w fd \<subseteq> P"
  shows "quiet P w w' \<and> ticks w' = ticks w"
proof -
  obtain recs w1 where w1: "db_reccount fd n w = (recs, w1)" by fastforce
  then have q1: "quiet P w w1" "ticks w1 = ticks w" using quiet_reccount by blast+
  obtain p w2 where w2: "sys_lseek fd (rec * n) w1 = (p, w2)" by fastforce
  then have q2: "quiet P w w2" "ticks w2 = ticks w" using q1 quiet_lseek quiet_trans by metis+
  obtain b w3 where w3: "sys_write fd (take (nat n) data) w2 = (b, w3)" by fastforce
  then have q3: "quiet P w w3" "ticks w3 = ticks w"
    using q2 quiet_write[OF w3] quiet_paths[OF q2(1)] assms(2) by (auto intro: quiet_trans)
  show ?thesis
    using assms(1) w1 w2 w3 q1 q2 q3 by (auto simp: db_put_def split: if_splits)
qed

lemma quiet_add:
  assumes "db_add fd data n w = (rc, w')" "fd_paths w fd \<subseteq> P"
  shows "quiet P w w' \<and> ticks w' = ticks w"
proof -
  obtain recs w1 where w1: "db_reccount fd n w = (recs, w1)" by fastforce
  then have q1: "quiet P w w1" "ticks w1 = ticks w" using quiet_reccount by blast+
  obtain p w2 where w2: "sys_lseek fd (recs * n) w1 = (p, w2)" by fastforce
  then have q2: "quiet P w w2" "ticks w2 = ticks w" using q1 quiet_lseek quiet_trans by metis+
  obtain b w3 where w3: "sys_write fd (take (nat n) data) w2 = (b, w3)" by fastforce
  then have q3: "quiet P w w3" "ticks w3 = ticks w"
    using q2 quiet_write[OF w3] quiet_paths[OF q2(1)] assms(2) by (auto intro: quiet_trans)
  show ?thesis
    using assms(1) w1 w2 w3 q1 q2 q3 by (auto simp: db_add_def split: if_splits)
qed

lemma quiet_sync: "db_sync fd w = (rc, w') \<Longrightarrow> quiet P w w' \<and> ticks w' = ticks w"
  unfolding db_sync_def by (rule quiet_fsync)

section \<open>Locks\<close>

text \<open>The state with the lock on one descriptor set.\<close>

definition relock :: "int \<Rightarrow> lockmode \<Rightarrow> 'a dbs_scheme \<Rightarrow> 'a dbs_scheme" where
  "relock fd m w = w\<lparr>fdt := (fdt w)(fd := map_option (\<lambda>e. e\<lparr>fe_lock := m\<rparr>) (fdt w fd))\<rparr>"

lemma relock_set_lock: "set_lock fd m w = relock fd m w"
  by (simp add: set_lock_def relock_def)

lemma relock_relock [simp]: "relock fd m (relock fd m' w) = relock fd m w"
  by (auto simp: relock_def option.map_comp comp_def intro!: option.map_cong split: option.splits)

lemma relock_same: "fd_lock w fd = m \<Longrightarrow> relock fd m w = w"
proof -
  assume m: "fd_lock w fd = m"
  have "(fdt w)(fd := map_option (\<lambda>e. e\<lparr>fe_lock := m\<rparr>) (fdt w fd)) = fdt w"
    using m by (cases "fdt w fd") (auto simp: fd_lock_def)
  then show ?thesis by (simp add: relock_def)
qed

lemma quiet_relock: "quiet P w w' \<Longrightarrow> quiet P (relock fd m w) (relock fd m w')"
proof -
  assume q: "quiet P w w'"
  have "map_option fd_view (fdt (relock fd m w') x) = map_option fd_view (fdt (relock fd m w) x)" for x
  proof -
    have "map_option fd_view (fdt w' x) = map_option fd_view (fdt w x)" using q by (simp add: quiet_def)
    then show ?thesis
      by (cases "fdt w x"; cases "fdt w' x") (auto simp: relock_def fd_view_def)
  qed
  with q show ?thesis by (simp add: quiet_def relock_def no_faults_def)
qed

lemma quiet_flock:
  "sys_flock fd m w = (rc, w') \<Longrightarrow>
     (rc = 0 \<and> quiet P (relock fd m w) w' \<or> rc = - 1 \<and> quiet P w w') \<and> ticks w' = ticks w"
proof -
  assume a: "sys_flock fd m w = (rc, w')"
  obtain x w1 where x: "next_outcome w = (x, w1)" by fastforce
  have q: "quiet P w w1" "ticks w1 = ticks w"
    using quiet_next_outcome[of P w] ticks_set[of w] x by simp_all
  from a x consider "rc = - 1" "w' = w" | "rc = 0" "w' = relock fd m w"
    | "rc = - 1" "w' = w1" | "rc = 0" "w' = relock fd m w1"
    by (auto simp: sys_flock_def relock_set_lock split: if_splits)
  then show ?thesis
    using q quiet_relock[OF q(1)] by cases (auto simp: relock_def)
qed

lemma quiet_unlock:
  "sys_flock fd LOCK_UN w = (rc, w') \<Longrightarrow> w' = relock fd LOCK_UN w"
  by (auto simp: sys_flock_def relock_set_lock relock_def fun_upd_idem split: if_splits)

text \<open>A function that took the lock, worked and released it has kept the lock state.\<close>

lemma quiet_bracket:
  assumes "quiet P (relock fd m w) w1" "fd_lock w fd = LOCK_UN"
  shows "quiet P w (relock fd LOCK_UN w1)"
proof -
  have "quiet P (relock fd LOCK_UN (relock fd m w)) (relock fd LOCK_UN w1)"
    using assms(1) by (rule quiet_relock)
  then show ?thesis using assms(2) by (simp add: relock_same)
qed

lemma relock_simps [simp]:
  "sqr (relock fd m w) = sqr w" "ticks (relock fd m w) = ticks w" "files (relock fd m w) = files w"
  "clock (relock fd m w) = clock w" "zcrc32 (relock fd m w) = zcrc32 w" "junk (relock fd m w) = junk w"
  "fd_paths (relock fd m w) x = fd_paths w x"
  by (auto simp: relock_def fd_paths_def split: option.splits)

text \<open>
  The frame of a function that takes the lock unless the handle is in asynchronous mode, works,
  and releases it.
\<close>

lemma lock_step:
  assumes "(if as = (0 :: int) then sys_flock fd m w else (0, w)) = (lrc, w1)"
  shows "lrc = 0 \<or> lrc = - 1" "sqr w1 = sqr w" "fd_paths w1 x = fd_paths w x"
    "zcrc32 w1 = zcrc32 w" "ticks w1 = ticks w" "junk w1 = junk w" "lrc \<noteq> 0 \<Longrightarrow> quiet P w w1"
    "quiet P w1 w2 \<Longrightarrow> lrc = 0 \<Longrightarrow> (as = 0 \<Longrightarrow> fd_lock w fd = LOCK_UN) \<Longrightarrow>
       quiet P w (if as = 0 then snd (sys_flock fd LOCK_UN w2) else w2)"
proof -
  have c: "lrc = 0 \<and> (as = 0 \<and> quiet {} (relock fd m w) w1 \<or> as \<noteq> 0 \<and> w1 = w) \<or> lrc = - 1 \<and> quiet {} w w1"
    and t: "ticks w1 = ticks w"
    using assms quiet_flock[of fd m w lrc w1 "{}"] by (auto split: if_splits)
  then show "lrc = 0 \<or> lrc = - 1" "ticks w1 = ticks w" by auto
  have "quiet {} (relock fd m w) w1 \<or> quiet {} w w1" using c by auto
  then show "sqr w1 = sqr w" "fd_paths w1 x = fd_paths w x" "zcrc32 w1 = zcrc32 w" "junk w1 = junk w"
    by (auto simp: quiet_simps quiet_paths)
  show "lrc \<noteq> 0 \<Longrightarrow> quiet P w w1" using c quiet_mono by auto
  assume q: "quiet P w1 w2" and l: "lrc = 0" and u: "as = 0 \<Longrightarrow> fd_lock w fd = LOCK_UN"
  show "quiet P w (if as = 0 then snd (sys_flock fd LOCK_UN w2) else w2)"
  proof (cases "as = 0")
    case True
    obtain urc w3 where w3: "sys_flock fd LOCK_UN w2 = (urc, w3)" by fastforce
    have "quiet P (relock fd m w) w2"
      using c l True q quiet_mono[of "{}" "relock fd m w" w1 P] quiet_trans[of P "relock fd m w" w1 w2] by auto
    from quiet_bracket[OF this u[OF True]] quiet_unlock[OF w3] w3 True show ?thesis by simp
  next
    case False
    with c l q show ?thesis by auto
  qed
qed

section \<open>Record files in quiet steps\<close>

lemma file_ready_quiet:
  assumes "quiet P w w'" "path \<notin> P"
  shows "file_ready fd path n w \<Longrightarrow> file_ready fd path n w'" "file_recs path n w' = file_recs path n w"
  using assms quiet_open_on[OF assms(1)]
  by (auto simp: file_ready_def file_recs_def quiet_simps)

lemma file_ready_open: "file_ready fd path n w \<Longrightarrow> fd_paths w fd = {path} \<and> fdt w fd \<noteq> None"
  by (auto simp: file_ready_def open_on_def fd_paths_def)

lemma file_ready_nf: "file_ready fd path n w \<Longrightarrow> no_faults w \<and> fdt w fd \<noteq> None"
  by (auto simp: file_ready_def open_on_def)

lemma file_ready_relock:
  "file_ready fd path n (relock fd' m w) = file_ready fd path n w"
  "file_recs path n (relock fd' m w) = file_recs path n w"
  by (auto simp: file_ready_def file_recs_def no_faults_def open_on_def relock_def)

text \<open>What \<open>time(NULL)\<close> returns next.\<close>

definition now :: "'a dbs_scheme \<Rightarrow> int" where
  "now w = (case clock w (ticks w) of None \<Rightarrow> - 1 | Some tv \<Rightarrow> tv_sec tv)"

definition tick :: "'a dbs_scheme \<Rightarrow> 'a dbs_scheme" where
  "tick w = w\<lparr>ticks := ticks w + 1\<rparr>"

lemma sys_time_now: "sys_time w = (now w, tick w)"
  by (simp add: sys_time_def sys_gettimeofday_def now_def tick_def)

lemma tick_simps [simp]:
  "files (tick w) = files w" "fdt (tick w) = fdt w" "sqr (tick w) = sqr w" "zcrc32 (tick w) = zcrc32 w"
  "junk (tick w) = junk w" "clock (tick w) = clock w" "dbs.more (tick w) = dbs.more w"
  "ticks (tick w) = ticks w + 1" "fd_paths (tick w) fd = fd_paths w fd" "fd_lock (tick w) fd = fd_lock w fd"
  "no_faults (tick w) = no_faults w"
  by (simp_all add: tick_def fd_paths_def fd_lock_def no_faults_def)

lemma file_ready_tick [simp]:
  "file_ready fd path n (tick w) = file_ready fd path n w"
  "file_recs path n (tick w) = file_recs path n w"
  by (simp_all add: file_ready_def file_recs_def open_on_def)

lemma quiet_tick [simp, intro]: "quiet P w (tick w)"
  by (simp add: quiet_def tick_def no_faults_def)

lemma flock_nf:
  "no_faults w \<Longrightarrow> fdt w fd \<noteq> None \<Longrightarrow> sys_flock fd m w = (0, relock fd m w)"
  by (simp add: sys_flock_def relock_set_lock next_outcome_no_faults)

lemma unlock_nf: "fdt w fd \<noteq> None \<Longrightarrow> sys_flock fd LOCK_UN w = (0, relock fd LOCK_UN w)"
  by (simp add: sys_flock_def relock_set_lock)

lemma fsync_nf: "no_faults w \<Longrightarrow> fdt w fd \<noteq> None \<Longrightarrow> sys_fsync fd w = (0, w)"
  by (simp add: sys_fsync_def next_outcome_no_faults)

end
