(* ===== verification/Double.thy ===== *)
theory Double
  imports Complex_Main Prelude
begin

text \<open>
  The C type \<open>double\<close>: IEEE binary64 as its bit pattern, with the operations the sources use.
  The target (OpenBSD on i386) sets the floating point unit to 53-bit precision, so that every
  operation rounds its exact result once, to nearest, ties to even; the operations here do the
  same on exact integers.  A finite pattern decodes to a sign, a natural significand and an
  exponent of two.  Only which of the NaN patterns an operation returns is fixed arbitrarily.
\<close>

type_synonym double = u64

datatype fpval = FNaN | FInf bool | FFin bool nat int

definition fdecode :: "double \<Rightarrow> fpval" where
  "fdecode w = (let n = unat w; s = (n div 2 ^ 63 = 1); e = n div 2 ^ 52 mod 2048; f = n mod 2 ^ 52
     in if e = 2047 then (if f = 0 then FInf s else FNaN)
        else if e = 0 then FFin s f (- 1074)
        else FFin s (2 ^ 52 + f) (int e - 1075))"

section \<open>Rounding\<close>

fun bitlen :: "nat \<Rightarrow> nat" where
  "bitlen n = (if n = 0 then 0 else Suc (bitlen (n div 2)))"

declare bitlen.simps [simp del]

definition round_even :: "nat \<Rightarrow> nat \<Rightarrow> nat" where
  "round_even n d = (let q = n div d; r = n mod d
     in if 2 * r > d \<or> 2 * r = d \<and> odd q then q + 1 else q)"

text \<open>
  The pattern of sign \<open>s\<close> and magnitude \<open>mag\<close>: the exponent field and the fraction are adjacent,
  so a significand that rounds up to the next power of two carries into the exponent, and a
  magnitude beyond the largest finite one becomes the infinity.
\<close>

definition fpack :: "bool \<Rightarrow> nat \<Rightarrow> double" where
  "fpack s mag = word_of_nat ((if s then 2 ^ 63 else 0) + min mag (2047 * 2 ^ 52))"

text \<open>The double nearest to \<open>num / den * 2 ^ e\<close>.\<close>

definition round_frac :: "bool \<Rightarrow> nat \<Rightarrow> nat \<Rightarrow> int \<Rightarrow> double" where
  "round_frac s num den e =
     (let e' = max (e + int (bitlen (num div den)) - 53) (- 1074);
          m = (if e \<le> e' then round_even num (den * 2 ^ nat (e' - e))
               else round_even (num * 2 ^ nat (e - e')) den)
      in fpack s (nat (e' + 1074) * 2 ^ 52 + m))"

text \<open>The same for any ratio: the numerator is scaled until the quotient has enough digits.\<close>

definition round_ratio :: "bool \<Rightarrow> nat \<Rightarrow> nat \<Rightarrow> int \<Rightarrow> double" where
  "round_ratio s num den e =
     (let k = 54 + bitlen den in round_frac s (num * 2 ^ k) den (e - int k))"

section \<open>Operations\<close>

definition fnan :: double where "fnan = 0x7FF8000000000000"

definition finf :: "bool \<Rightarrow> double" where
  "finf s = fpack s (2047 * 2 ^ 52)"

text \<open>A significand with its sign, in units of \<open>2 ^ g\<close> for an exponent not below \<open>g\<close>.\<close>

definition fixpt :: "int \<Rightarrow> bool \<Rightarrow> nat \<Rightarrow> int \<Rightarrow> int" where
  "fixpt g s m e = (if s then - 1 else 1) * int m * 2 ^ nat (e - g)"

definition dneg :: "double \<Rightarrow> double" where
  "dneg a = a XOR 0x8000000000000000"

definition dadd :: "double \<Rightarrow> double \<Rightarrow> double" where
  "dadd a b = (case fdecode a of
      FNaN \<Rightarrow> fnan
    | FInf s \<Rightarrow> (case fdecode b of
          FNaN \<Rightarrow> fnan
        | FInf t \<Rightarrow> if s = t then finf s else fnan
        | FFin t n f \<Rightarrow> finf s)
    | FFin s m e \<Rightarrow> (case fdecode b of
          FNaN \<Rightarrow> fnan
        | FInf t \<Rightarrow> finf t
        | FFin t n f \<Rightarrow>
            (let g = min e f; x = fixpt g s m e + fixpt g t n f
             in if x = 0 then fpack (s \<and> t) 0 else round_frac (x < 0) (nat \<bar>x\<bar>) 1 g)))"

definition dsub :: "double \<Rightarrow> double \<Rightarrow> double" where
  "dsub a b = dadd a (dneg b)"

definition dmul :: "double \<Rightarrow> double \<Rightarrow> double" where
  "dmul a b = (case fdecode a of
      FNaN \<Rightarrow> fnan
    | FInf s \<Rightarrow> (case fdecode b of
          FNaN \<Rightarrow> fnan
        | FInf t \<Rightarrow> finf (s \<noteq> t)
        | FFin t n f \<Rightarrow> if n = 0 then fnan else finf (s \<noteq> t))
    | FFin s m e \<Rightarrow> (case fdecode b of
          FNaN \<Rightarrow> fnan
        | FInf t \<Rightarrow> if m = 0 then fnan else finf (s \<noteq> t)
        | FFin t n f \<Rightarrow>
            if m * n = 0 then fpack (s \<noteq> t) 0 else round_frac (s \<noteq> t) (m * n) 1 (e + f)))"

definition ddiv :: "double \<Rightarrow> double \<Rightarrow> double" where
  "ddiv a b = (case fdecode a of
      FNaN \<Rightarrow> fnan
    | FInf s \<Rightarrow> (case fdecode b of
          FNaN \<Rightarrow> fnan
        | FInf t \<Rightarrow> fnan
        | FFin t n f \<Rightarrow> finf (s \<noteq> t))
    | FFin s m e \<Rightarrow> (case fdecode b of
          FNaN \<Rightarrow> fnan
        | FInf t \<Rightarrow> fpack (s \<noteq> t) 0
        | FFin t n f \<Rightarrow>
            if n = 0 then (if m = 0 then fnan else finf (s \<noteq> t))
            else if m = 0 then fpack (s \<noteq> t) 0
            else round_ratio (s \<noteq> t) m n (e - f)))"

definition dlt :: "double \<Rightarrow> double \<Rightarrow> bool" where
  "dlt a b = (case fdecode a of
      FNaN \<Rightarrow> False
    | FInf s \<Rightarrow> (case fdecode b of FNaN \<Rightarrow> False | FInf t \<Rightarrow> s \<and> \<not> t | FFin t n f \<Rightarrow> s)
    | FFin s m e \<Rightarrow> (case fdecode b of
          FNaN \<Rightarrow> False
        | FInf t \<Rightarrow> \<not> t
        | FFin t n f \<Rightarrow> fixpt (min e f) s m e < fixpt (min e f) t n f))"

definition deq :: "double \<Rightarrow> double \<Rightarrow> bool" where
  "deq a b = (case fdecode a of
      FNaN \<Rightarrow> False
    | FInf s \<Rightarrow> (case fdecode b of FNaN \<Rightarrow> False | FInf t \<Rightarrow> s = t | FFin t n f \<Rightarrow> False)
    | FFin s m e \<Rightarrow> (case fdecode b of
          FNaN \<Rightarrow> False
        | FInf t \<Rightarrow> False
        | FFin t n f \<Rightarrow> fixpt (min e f) s m e = fixpt (min e f) t n f))"

definition dle :: "double \<Rightarrow> double \<Rightarrow> bool" where
  "dle a b \<longleftrightarrow> dlt a b \<or> deq a b"

text \<open>Conversions between integers and doubles; a truncation that does not fit is \<open>None\<close>.\<close>

definition d_of_int :: "int \<Rightarrow> double" where
  "d_of_int x = (if x = 0 then 0 else round_frac (x < 0) (nat \<bar>x\<bar>) 1 0)"

definition d_trunc :: "double \<Rightarrow> int option" where
  "d_trunc a = (case fdecode a of
      FFin s m e \<Rightarrow> Some ((if s then - 1 else 1) *
        (if 0 \<le> e then int m * 2 ^ nat e else int (m div 2 ^ nat (- e))))
    | _ \<Rightarrow> None)"

text \<open>\<open>strtod\<close>: blanks, a sign, decimal digits with an optional point, an optional exponent.\<close>

definition scan_frac :: "string \<Rightarrow> nat \<Rightarrow> nat \<times> nat \<times> string" where
  "scan_frac s n = (case s of
      [] \<Rightarrow> (n, 0, s)
    | c # r \<Rightarrow> if c = CHR ''.''
        then (case scan_digits 10 r n of (m, e) \<Rightarrow> (m, length r - length e, e))
        else (n, 0, s))"

definition scan_exp :: "string \<Rightarrow> int \<times> string" where
  "scan_exp s = (case s of
      [] \<Rightarrow> (0, s)
    | c # r \<Rightarrow> if c = CHR ''e'' \<or> c = CHR ''E'' then
          (case scan_sign r of (neg, r) \<Rightarrow>
            if r \<noteq> [] \<and> is_digit 10 (hd r)
            then (case scan_digits 10 r 0 of (n, e) \<Rightarrow> ((if neg then - int n else int n), e))
            else (0, s))
        else (0, s))"

definition strtod :: "string \<Rightarrow> double \<times> string" where
  "strtod s =
     (case scan_sign (dropWhile isspace s) of (neg, r) \<Rightarrow>
      case scan_digits 10 r 0 of (n, r1) \<Rightarrow>
      case scan_frac r1 n of (m, k, r2) \<Rightarrow>
      if length r - length r1 + k = 0 then (0, s)
      else (case scan_exp r2 of (x, r3) \<Rightarrow>
        let p = x - int k in
        ((if m = 0 then fpack neg 0
          else if 0 \<le> p then round_frac neg (m * 10 ^ nat p) 1 0
          else round_ratio neg m (10 ^ nat (- p)) 0), r3)))"

definition atof :: "string \<Rightarrow> double" where
  "atof s = fst (strtod s)"

text \<open>The constants of the sources.\<close>

definition d_cent :: double where "d_cent = 0x3F847AE147AE147B"
definition d_minus_one :: double where "d_minus_one = 0xBFF0000000000000"
definition d_mebi :: double where "d_mebi = 0x4130000000000000"
definition BALANCE_NA :: double where "BALANCE_NA = 0xFE37E43C8800759C"

lemma bitlen_numeral [simp]:
  "bitlen 0 = 0" "bitlen (Suc 0) = 1" "bitlen (numeral (num.Bit0 k)) = Suc (bitlen (numeral k))"
  "bitlen (numeral (num.Bit1 k)) = Suc (bitlen (numeral k))"
  by (subst bitlen.simps; simp)+

lemma round_fracI:
  assumes "bitlen (num div den) = L" "max (e + int L - 53) (- 1074) = e'"
    "(if e \<le> e' then round_even num (den * 2 ^ nat (e' - e))
               else round_even (num * 2 ^ nat (e - e')) den) = m"
  shows "round_frac s num den e = fpack s (nat (e' + 1074) * 2 ^ 52 + m)"
  using assms by (simp add: round_frac_def Let_def)

lemma d_literals:
  "d_cent = round_ratio False 1 100 0" "d_mebi = d_of_int 1048576" "d_minus_one = d_of_int (- 1)"
proof -
  have "round_frac False (2 ^ 61) 100 (- 61) = fpack False (nat (- 59 + 1074) * 2 ^ 52 + 5764607523034235)"
    by (rule round_fracI[where L = 55]) (simp_all add: round_even_def)
  then show "d_cent = round_ratio False 1 100 0"
    by (simp add: d_cent_def round_ratio_def fpack_def)
  show "d_mebi = d_of_int 1048576"
    by (simp add: d_mebi_def d_of_int_def round_frac_def round_even_def fpack_def)
  show "d_minus_one = d_of_int (- 1)"
    by (simp add: d_minus_one_def d_of_int_def round_frac_def round_even_def fpack_def)
qed

section \<open>The order\<close>

text \<open>
  Every double but a NaN has a place on the line: the infinities are told apart by the first
  component, the finite ones by their value.
\<close>

definition frat :: "bool \<Rightarrow> nat \<Rightarrow> int \<Rightarrow> rat" where
  "frat s m e = (if s then - 1 else 1) * of_nat m * 2 powi e"

definition dplace :: "double \<Rightarrow> (int \<times> rat) option" where
  "dplace a = (case fdecode a of
      FNaN \<Rightarrow> None
    | FInf s \<Rightarrow> Some (if s then - 1 else 1, 0)
    | FFin s m e \<Rightarrow> Some (0, frat s m e))"

lemma fixpt_frat: "g \<le> e \<Longrightarrow> of_int (fixpt g s m e) = frat s m e * 2 powi (- g)"
proof -
  assume "g \<le> e"
  have "(2 :: rat) powi e * 2 powi (- g) = 2 powi (e - g)"
    by (subst power_int_add[symmetric]) simp_all
  also have "\<dots> = 2 ^ nat (e - g)" using \<open>g \<le> e\<close> by (simp add: power_int_def)
  finally have "(2 :: rat) powi e * 2 powi (- g) = 2 ^ nat (e - g)" .
  then show ?thesis by (simp add: fixpt_def frat_def)
qed

lemma fixpt_less_iff:
  "fixpt (min e f) s m e < fixpt (min e f) t n f \<longleftrightarrow> frat s m e < frat t n f"
  "fixpt (min e f) s m e = fixpt (min e f) t n f \<longleftrightarrow> frat s m e = frat t n f"
proof -
  let ?c = "(2 :: rat) powi (- min e f)"
  have c: "0 < ?c" by simp
  have e: "of_int (fixpt (min e f) s m e) = frat s m e * ?c"
    "of_int (fixpt (min e f) t n f) = frat t n f * ?c"
    by (rule fixpt_frat, simp)+
  have "fixpt (min e f) s m e < fixpt (min e f) t n f \<longleftrightarrow> frat s m e * ?c < frat t n f * ?c"
    by (simp only: e[symmetric] of_int_less_iff)
  also have "\<dots> \<longleftrightarrow> frat s m e < frat t n f" by (rule mult_less_cancel_right_pos[OF c])
  finally show "fixpt (min e f) s m e < fixpt (min e f) t n f \<longleftrightarrow> frat s m e < frat t n f" .
  have "fixpt (min e f) s m e = fixpt (min e f) t n f \<longleftrightarrow> frat s m e * ?c = frat t n f * ?c"
    by (simp only: e[symmetric] of_int_eq_iff)
  then show "fixpt (min e f) s m e = fixpt (min e f) t n f \<longleftrightarrow> frat s m e = frat t n f"
    using c by simp
qed

lemma dlt_place:
  "dlt a b \<longleftrightarrow> (\<exists>i x j y. dplace a = Some (i, x) \<and> dplace b = Some (j, y) \<and> (i < j \<or> i = j \<and> x < y))"
  by (auto simp: dlt_def dplace_def fixpt_less_iff split: fpval.splits)

lemma deq_place: "deq a b \<longleftrightarrow> dplace a \<noteq> None \<and> dplace a = dplace b"
  by (auto simp: deq_def dplace_def fixpt_less_iff split: fpval.splits)

lemma dlt_irrefl [simp]: "\<not> dlt a a"
  by (auto simp: dlt_place)

lemma dlt_trans: "dlt a b \<Longrightarrow> dlt b c \<Longrightarrow> dlt a c"
  by (fastforce simp: dlt_place)

lemma dlt_total: "dplace a \<noteq> None \<Longrightarrow> dplace b \<noteq> None \<Longrightarrow> dlt a b \<or> deq a b \<or> dlt b a"
  by (force simp: dlt_place deq_place)

lemma dle_dlt_trans: "dle a b \<Longrightarrow> dlt b c \<Longrightarrow> dlt a c"
  by (auto simp: dle_def deq_place dlt_place dest: dlt_trans)

end
