(* ===== verification/TransLog.thy ===== *)
theory TransLog
  imports Frame Double
begin

text \<open>
  The transaction log (\<open>src/src/bee/lib/db/log.c\<close>, the structures of \<open>include/db.h\<close>): 64-byte
  records with a checksum over all bytes but its own, kept in a record file.  A structure is a
  \<open>record\<close> of words and doubles, and \<open>encode_\<close>/\<open>decode_\<close> are its layout in memory and on disk.
  A handle with \<open>fasync \<noteq> 0\<close> holds the exclusive lock for a whole session, and the operations
  then leave locking alone.
\<close>

section \<open>Words in memory\<close>

definition enc32 :: "u32 \<Rightarrow> byte list" where "enc32 v = le_bytes 4 (unat v)"
definition enc64 :: "u64 \<Rightarrow> byte list" where "enc64 v = le_bytes 8 (unat v)"

definition rd32 :: "nat \<Rightarrow> byte list \<Rightarrow> u32" where
  "rd32 off bs = word_of_nat (un_le (take 4 (drop off bs)))"

definition rd64 :: "nat \<Rightarrow> byte list \<Rightarrow> u64" where
  "rd64 off bs = word_of_nat (un_le (take 8 (drop off bs)))"

lemma length_enc [simp]: "length (enc32 v) = 4" "length (enc64 u) = 8"
  by (simp_all add: enc32_def enc64_def)

lemma word_of_un_le_bytes:
  fixes v :: "'a::len word"
  assumes "2 ^ LENGTH('a) = (256 :: nat) ^ n"
  shows "word_of_nat (un_le (le_bytes n (unat v))) = v"
proof -
  have "unat v mod 256 ^ n = unat v" using unsigned_less[of v, where 'a = nat] assms by simp
  then show ?thesis by (simp add: un_le_bytes)
qed

lemma un_le_word:
  assumes "(2 :: nat) ^ LENGTH('a) = 256 ^ n" "length bs = n"
  shows "le_bytes n (unat (word_of_nat (un_le bs) :: 'a::len word)) = bs"
proof -
  have "un_le bs < 2 ^ LENGTH('a)" using un_le_bound[of bs] assms by simp
  then have "unat (word_of_nat (un_le bs) :: 'a word) = un_le bs" by (simp add: unat_of_nat take_bit_nat_eq_self)
  with assms show ?thesis by (simp add: le_bytes_un_le)
qed

lemma rd_enc [enc_simps]:
  "take 4 (drop off bs) = enc32 v \<Longrightarrow> rd32 off bs = v"
  "take 8 (drop off bs) = enc64 u \<Longrightarrow> rd64 off bs = u"
  using word_of_un_le_bytes[where 'a = 32 and n = 4] word_of_un_le_bytes[where 'a = 64 and n = 8]
  by (simp_all add: rd32_def rd64_def enc32_def enc64_def)

lemma enc_rd [enc_simps]:
  "off + 4 \<le> length bs \<Longrightarrow> enc32 (rd32 off bs) = take 4 (drop off bs)"
  "off + 8 \<le> length bs \<Longrightarrow> enc64 (rd64 off bs) = take 8 (drop off bs)"
  using un_le_word[where 'a = 32 and n = 4 and bs = "take 4 (drop off bs)"]
    un_le_word[where 'a = 64 and n = 8 and bs = "take 8 (drop off bs)"]
  by (simp_all add: rd32_def rd64_def enc32_def enc64_def)

text \<open>Adjacent pieces of a list join.\<close>

lemma take_drop_join [enc_simps]:
  "off + m = off' \<Longrightarrow> take m (drop off bs) @ take n (drop off' bs) = take (m + n) (drop off bs)"
  "off + m = off' \<Longrightarrow> take m (drop off bs) @ take n (drop off' bs) @ r = take (m + n) (drop off bs) @ r"
  "take m bs @ take n (drop m bs) @ r = take (m + n) bs @ r"
  by (auto simp: take_add add.commute)

lemma rd_zeros [simp]: "rd32 off (replicate n 0) = 0" "rd64 off (replicate n 0) = 0"
proof -
  have "un_le (replicate k 0) = 0" for k by (induction k) auto
  then show "rd32 off (replicate n 0) = 0" "rd64 off (replicate n 0) = 0"
    by (simp_all add: rd32_def rd64_def)
qed

text \<open>Uninitialised memory: a structure on the stack before anything is stored in it.\<close>

definition stack_junk :: "nat \<Rightarrow> 'a os_scheme \<Rightarrow> byte list" where
  "stack_junk n w = map (junk w) [0..<n]"

section \<open>Structures\<close>

record isdata =
  is_res_id :: u32
  is_user_id :: u32
  is_value :: u32
  is_proto_id :: u32
  is_host :: u32
  is_proto2 :: u32
  is_reserv :: u64

record logrec =
  lr_time :: u32
  lr_accno :: u32
  lr_sum :: double
  lr_isdata :: isdata
  lr_balance :: double
  lr_serrno :: u32
  lr_crc :: u32

definition encode_isdata :: "isdata \<Rightarrow> byte list" where
  "encode_isdata d = enc32 (is_res_id d) @ enc32 (is_user_id d) @ enc32 (is_value d) @
     enc32 (is_proto_id d) @ enc32 (is_host d) @ enc32 (is_proto2 d) @ enc64 (is_reserv d)"

definition decode_isdata :: "byte list \<Rightarrow> isdata" where
  "decode_isdata bs = \<lparr>is_res_id = rd32 0 bs, is_user_id = rd32 4 bs, is_value = rd32 8 bs,
     is_proto_id = rd32 12 bs, is_host = rd32 16 bs, is_proto2 = rd32 20 bs, is_reserv = rd64 24 bs\<rparr>"

definition encode_logrec :: "logrec \<Rightarrow> byte list" where
  "encode_logrec r = enc32 (lr_time r) @ enc32 (lr_accno r) @ enc64 (lr_sum r) @
     encode_isdata (lr_isdata r) @ enc64 (lr_balance r) @ enc32 (lr_serrno r) @ enc32 (lr_crc r)"

definition decode_logrec :: "byte list \<Rightarrow> logrec" where
  "decode_logrec bs = \<lparr>lr_time = rd32 0 bs, lr_accno = rd32 4 bs, lr_sum = rd64 8 bs,
     lr_isdata = decode_isdata (take 32 (drop 16 bs)), lr_balance = rd64 48 bs,
     lr_serrno = rd32 56 bs, lr_crc = rd32 60 bs\<rparr>"

text \<open>\<open>memset(&logrec, 0, sizeof(logrec))\<close>.\<close>

definition logrec_zero :: logrec where
  "logrec_zero = decode_logrec (replicate 64 0)"

lemma length_encode_isdata [simp]: "length (encode_isdata d) = 32"
  by (simp add: encode_isdata_def)

lemma length_encode_logrec [simp]: "length (encode_logrec r) = 64"
  by (simp add: encode_logrec_def)

lemma decode_encode_isdata [simp]: "decode_isdata (encode_isdata d) = d"
  by (cases d) (simp add: decode_isdata_def encode_isdata_def rd_enc)

lemma encode_decode_isdata [simp]: "length bs = 32 \<Longrightarrow> encode_isdata (decode_isdata bs) = bs"
  by (simp add: decode_isdata_def encode_isdata_def enc_rd take_drop_join)

lemma decode_encode_logrec [simp]: "decode_logrec (encode_logrec r) = r"
  by (cases r) (simp add: decode_logrec_def encode_logrec_def rd_enc)

lemma encode_decode_logrec [simp]: "length bs = 64 \<Longrightarrow> encode_logrec (decode_logrec bs) = bs"
  by (simp add: decode_logrec_def encode_logrec_def enc_rd take_drop_join)

section \<open>Operations\<close>

record logbase =
  lb_fd :: int
  lb_fasync :: int

definition log_baseopen :: "logbase \<Rightarrow> string \<Rightarrow> 'a dbs_scheme \<Rightarrow> int \<times> logbase \<times> 'a dbs_scheme" where
  "log_baseopen base file w = (case db_open file w of (rc, w) \<Rightarrow>
     if rc < 0 then (rc, base, w) else (SUCCESS, base\<lparr>lb_fd := rc, lb_fasync := 0\<rparr>, w))"

definition log_baseopen_sr :: "logbase \<Rightarrow> string \<Rightarrow> 'a dbs_scheme \<Rightarrow> int \<times> logbase \<times> 'a dbs_scheme" where
  "log_baseopen_sr base file w = (case dbs_open file w of (rc, w) \<Rightarrow>
     if rc < 0 then (rc, base, w) else (SUCCESS, base\<lparr>lb_fd := rc, lb_fasync := 0\<rparr>, w))"

definition log_baseclose :: "logbase \<Rightarrow> 'a dbs_scheme \<Rightarrow> int \<times> 'a dbs_scheme" where
  "log_baseclose base w = db_close (lb_fd base) w"

definition log_baselock :: "logbase \<Rightarrow> 'a dbs_scheme \<Rightarrow> int \<times> 'a dbs_scheme" where
  "log_baselock base w = (if lb_fasync base = 0 then db_exlock (lb_fd base) w else (0, w))"

definition log_baseunlock :: "logbase \<Rightarrow> 'a dbs_scheme \<Rightarrow> int \<times> 'a dbs_scheme" where
  "log_baseunlock base w = (if lb_fasync base = 0 then db_unlock (lb_fd base) w else (0, w))"

definition log_reccount :: "logbase \<Rightarrow> 'a dbs_scheme \<Rightarrow> int \<times> 'a dbs_scheme" where
  "log_reccount base w = db_reccount (lb_fd base) 64 w"

text \<open>The checksum of a log record: over its first 60 bytes.\<close>

definition logrec_crc :: "logrec \<Rightarrow> 'a dbs_scheme \<Rightarrow> u32" where
  "logrec_crc r w = count_crc (take 60 (encode_logrec r)) w"

definition logi_get :: "logbase \<Rightarrow> int \<Rightarrow> logrec \<Rightarrow> 'a dbs_scheme \<Rightarrow> int \<times> logrec \<times> 'a dbs_scheme" where
  "logi_get base rec data w =
     (case db_get (lb_fd base) rec (encode_logrec data) 64 w of (rc, buf, w) \<Rightarrow>
        let data = decode_logrec buf
        in if rc < 0 then (rc, data, w)
           else if logrec_crc data w \<noteq> lr_crc data then (ACC_BROKEN, data, w)
           else (SUCCESS, data, w))"

definition logi_put :: "logbase \<Rightarrow> int \<Rightarrow> logrec \<Rightarrow> 'a dbs_scheme \<Rightarrow> int \<times> logrec \<times> 'a dbs_scheme" where
  "logi_put base rec data w =
     (let data = data\<lparr>lr_crc := logrec_crc data w\<rparr>
      in case db_put (lb_fd base) rec (encode_logrec data) 64 w of (rc, w) \<Rightarrow>
        if rc < 0 then (rc, data, w) else (SUCCESS, data, w))"

definition log_get :: "logbase \<Rightarrow> int \<Rightarrow> logrec \<Rightarrow> 'a dbs_scheme \<Rightarrow> int \<times> logrec \<times> 'a dbs_scheme" where
  "log_get base rec data w =
     (case (if lb_fasync base = 0 then db_shlock (lb_fd base) w else (0, w)) of (rc, w) \<Rightarrow>
        if rc \<ge> 0
        then (case logi_get base rec data w of (rc, data, w) \<Rightarrow>
          (rc, data, if lb_fasync base = 0 then snd (db_unlock (lb_fd base) w) else w))
        else (IO_ERROR, data, w))"

definition log_put :: "logbase \<Rightarrow> int \<Rightarrow> logrec \<Rightarrow> 'a dbs_scheme \<Rightarrow> int \<times> logrec \<times> 'a dbs_scheme" where
  "log_put base rec data w =
     (case (if lb_fasync base = 0 then db_exlock (lb_fd base) w else (0, w)) of (rc, w) \<Rightarrow>
        if rc \<ge> 0
        then (case logi_put base rec data w of (rc, data, w) \<Rightarrow>
          (rc, data, if lb_fasync base = 0 then snd (db_unlock (lb_fd base) w) else w))
        else (IO_ERROR, data, w))"

definition log_add :: "logbase \<Rightarrow> logrec \<Rightarrow> 'a dbs_scheme \<Rightarrow> int \<times> logrec \<times> 'a dbs_scheme" where
  "log_add base data w =
     (case (if lb_fasync base = 0 then db_exlock (lb_fd base) w else (0, w)) of (rc, w) \<Rightarrow>
        if rc \<ge> 0
        then (let data = data\<lparr>lr_crc := logrec_crc data w\<rparr>
              in case db_add (lb_fd base) (encode_logrec data) 64 w of (rc, w) \<Rightarrow>
                (rc, data, if lb_fasync base = 0 then snd (db_unlock (lb_fd base) w) else w))
        else (rc, data, w))"

definition log_async_on :: "logbase \<Rightarrow> 'a dbs_scheme \<Rightarrow> int \<times> logbase \<times> 'a dbs_scheme" where
  "log_async_on base w =
     (if lb_fasync base \<noteq> 0 then (IO_ERROR, base, w)
      else (case db_exlock (lb_fd base) w of (rc, w) \<Rightarrow>
        if rc < 0 then (rc, base, w) else (0, base\<lparr>lb_fasync := 1\<rparr>, w)))"

definition log_async_off :: "logbase \<Rightarrow> 'a dbs_scheme \<Rightarrow> int \<times> logbase \<times> 'a dbs_scheme" where
  "log_async_off base w =
     (if lb_fasync base = 0 then (IO_ERROR, base, w)
      else (case db_sync (lb_fd base) w of (_, w) \<Rightarrow>
            case db_unlock (lb_fd base) w of (rc, w) \<Rightarrow>
        if rc < 0 then (rc, base, w) else (0, base\<lparr>lb_fasync := 0\<rparr>, w)))"

section \<open>What the operations leave alone\<close>

lemma quiet_logi_get:
  "logi_get base rec d w = (rc, d', w') \<Longrightarrow> sq_fd (sqr w) \<noteq> lb_fd base \<Longrightarrow>
     quiet P w w' \<and> ticks w' = ticks w"
  by (auto simp: logi_get_def Let_def split: prod.splits if_splits dest: quiet_get[where P = P])

lemma quiet_logi_put:
  "logi_put base rec d w = (rc, d', w') \<Longrightarrow> fd_paths w (lb_fd base) \<subseteq> P \<Longrightarrow>
     quiet P w w' \<and> ticks w' = ticks w"
  by (auto simp: logi_put_def Let_def split: prod.splits if_splits dest: quiet_put[where P = P])

lemma quiet_log_add:
  assumes "log_add base d w = (rc, d', w')" "fd_paths w (lb_fd base) \<subseteq> P"
    "lb_fasync base = 0 \<Longrightarrow> fd_lock w (lb_fd base) = LOCK_UN"
  shows "quiet P w w' \<and> ticks w' = ticks w"
proof (cases "lb_fasync base = 0")
  case True
  obtain lrc w1 where w1: "sys_flock (lb_fd base) LOCK_EX w = (lrc, w1)" by fastforce
  note l = quiet_flock[OF w1, where P = P]
  show ?thesis
  proof (cases "lrc = 0")
    case False
    with l have "\<not> 0 \<le> lrc" by auto
    with assms(1) w1 l True show ?thesis by (auto simp: log_add_def db_exlock_def Let_def)
  next
    case lr: True
    obtain arc w2 where w2: "db_add (lb_fd base) (encode_logrec (d\<lparr>lr_crc := logrec_crc d w1\<rparr>)) 64 w1 = (arc, w2)"
      by fastforce
    have "quiet P (relock (lb_fd base) LOCK_EX w) w1" using l lr by simp
    then have "fd_paths w1 (lb_fd base) \<subseteq> P" using assms(2) quiet_paths by fastforce
    with w2 l lr have q: "quiet P (relock (lb_fd base) LOCK_EX w) w2" "ticks w2 = ticks w"
      using quiet_add[OF w2, of P] by (auto intro: quiet_trans)
    have "logrec_crc (d\<lparr>lr_crc := x\<rparr>) w1 = logrec_crc d w1" for x
      by (simp add: logrec_crc_def encode_logrec_def)
    with assms(1) w1 w2 True lr have "w' = snd (sys_flock (lb_fd base) LOCK_UN w2)"
      by (auto simp: log_add_def db_exlock_def db_unlock_def Let_def)
    then have "w' = relock (lb_fd base) LOCK_UN w2"
      using quiet_unlock[of "lb_fd base" w2] by (cases "sys_flock (lb_fd base) LOCK_UN w2") auto
    with quiet_bracket[OF q(1)] assms(3)[OF True] q(2) show ?thesis by simp
  qed
next
  case False
  with assms quiet_add[of "lb_fd base" _ 64 w _ w' P] show ?thesis
    by (auto simp: log_add_def Let_def split: prod.splits)
qed

section \<open>The log on a machine without faults\<close>

text \<open>The log as a list of records.\<close>

definition log_ready :: "logbase \<Rightarrow> string \<Rightarrow> 'a dbs_scheme \<Rightarrow> bool" where
  "log_ready base path w \<longleftrightarrow> file_ready (lb_fd base) path 64 w"

definition log_records :: "string \<Rightarrow> 'a dbs_scheme \<Rightarrow> logrec list" where
  "log_records path w = map decode_logrec (file_recs path 64 w)"

lemma logrec_crc_upd [simp]: "logrec_crc (d\<lparr>lr_crc := x\<rparr>) w = logrec_crc d w"
  by (simp add: logrec_crc_def encode_logrec_def)

lemma logrec_crc_quiet: "zcrc32 w' = zcrc32 w \<Longrightarrow> logrec_crc d w' = logrec_crc d w"
  by (simp add: logrec_crc_def count_crc_def)

lemma log_add_nf:
  fixes d :: logrec
  assumes r: "log_ready base path w" and l: "lb_fasync base = 0 \<longrightarrow> fd_lock w (lb_fd base) = LOCK_UN"
  defines "d' \<equiv> d\<lparr>lr_crc := logrec_crc d w\<rparr>"
  shows "\<exists>w'. log_add base d w = (int (length (log_records path w)), d', w') \<and>
     log_ready base path w' \<and> log_records path w' = log_records path w @ [d'] \<and>
     quiet {path} w w' \<and> ticks w' = ticks w"
proof -
  have fr: "file_ready (lb_fd base) path 64 w" using r by (simp add: log_ready_def)
  note op = file_ready_open[OF fr]
  obtain rc e w' where a: "log_add base d w = (rc, e, w')" by (cases "log_add base d w") auto
  have q: "quiet {path} w w' \<and> ticks w' = ticks w"
    by (rule quiet_log_add[OF a]) (use op l in auto)
  define w1 where "w1 = (if lb_fasync base = 0 then relock (lb_fd base) LOCK_EX w else w)"
  have w1: "file_ready (lb_fd base) path 64 w1" "file_recs path 64 w1 = file_recs path 64 w"
    using fr by (simp_all add: w1_def file_ready_relock)
  have crc: "logrec_crc d w1 = logrec_crc d w"
    by (rule logrec_crc_quiet) (simp add: w1_def)
  from db_add_nf[OF w1(1), of "encode_logrec d'"] obtain w2 where
    w2: "db_add (lb_fd base) (encode_logrec d') 64 w1 = (int (length (file_recs path 64 w)), w2)"
      "file_ready (lb_fd base) path 64 w2"
      "file_recs path 64 w2 = file_recs path 64 w @ [encode_logrec d']"
    using w1(2) by auto
  have nf: "no_faults w" using fr by (simp add: file_ready_def)
  have op2: "fdt w2 (lb_fd base) \<noteq> None" using file_ready_open[OF w2(2)] by simp
  have w': "w' = (if lb_fasync base = 0 then relock (lb_fd base) LOCK_UN w2 else w2) \<and>
      rc = int (length (file_recs path 64 w)) \<and> e = d'"
    using a w2(1) op op2 crc flock_nf[OF nf, of "lb_fd base" LOCK_EX] unlock_nf[OF op2]
    by (auto simp: log_add_def db_exlock_def db_unlock_def w1_def d'_def Let_def split: if_splits)
  then have "file_ready (lb_fd base) path 64 w'" "file_recs path 64 w' = file_recs path 64 w @ [encode_logrec d']"
    using w2 by (auto simp: file_ready_relock)
  with a w' q show ?thesis by (auto simp: log_ready_def log_records_def)
qed

end
