(* ===== verification/Accounts.thy ===== *)
theory Accounts
  imports TransLog
begin

text \<open>
  The account base (\<open>src/src/bee/lib/db/acc.c\<close>, the structures of \<open>include/db.h\<close>): 128-byte
  records numbered by their place in the file, each holding its own number, a set of tags and a
  checksum.  Reading a record yields its state as a result code; writing one stamps the time
  and recomputes the checksum unless the record is broken.  The functions that take the lock
  themselves (\<open>acc_get\<close>, \<open>acc_put\<close>, \<open>acc_add\<close>, \<open>acc_trans\<close>) wrap the internal ones (\<open>acci_\<close>).
  Messages to the system log are left out.
\<close>

abbreviation (input) ATAG_DELETED :: u32 where "ATAG_DELETED \<equiv> 1"
abbreviation (input) ATAG_BROKEN :: u32 where "ATAG_BROKEN \<equiv> 2"
abbreviation (input) ATAG_FROZEN :: u32 where "ATAG_FROZEN \<equiv> 4"
abbreviation (input) ATAG_OFF :: u32 where "ATAG_OFF \<equiv> 8"
abbreviation (input) ATAG_UNLIMIT :: u32 where "ATAG_UNLIMIT \<equiv> 16"
abbreviation (input) ATAG_PAYMAN :: u32 where "ATAG_PAYMAN \<equiv> 32"
abbreviation (input) ATAG_RES :: u32 where "ATAG_RES \<equiv> 64"
abbreviation (input) ATAG_LOG :: u32 where "ATAG_LOG \<equiv> 128"

section \<open>Structures\<close>

record acc =
  a_tag :: u32
  a_accno :: u32
  a_balance :: double
  a_start :: u32
  a_stop :: u32
  a_tariff :: u32
  a_summ_rsttime :: u32
  a_inet_summ_in :: u64
  a_money_summ :: double
  a_inet_summ_out :: u64
  a_res_balance :: u64
  a_tcredit :: double
  a_res_tcredit :: u64
  a_reserv2 :: "u64 \<times> u64"
  a_reserv3 :: "u64 \<times> u64 \<times> u64"
  a_upd_time :: u32
  a_crc :: u32

record acc_old =
  o_tag :: u32
  o_accno :: u32
  o_balance :: double
  o_start :: u32
  o_stop :: u32
  o_reserv :: u32
  o_crc :: u32

definition encode_acc :: "acc \<Rightarrow> byte list" where
  "encode_acc a = enc32 (a_tag a) @ enc32 (a_accno a) @ enc64 (a_balance a) @ enc32 (a_start a) @
     enc32 (a_stop a) @ enc32 (a_tariff a) @ enc32 (a_summ_rsttime a) @ enc64 (a_inet_summ_in a) @
     enc64 (a_money_summ a) @ enc64 (a_inet_summ_out a) @ enc64 (a_res_balance a) @
     enc64 (a_tcredit a) @ enc64 (a_res_tcredit a) @
     enc64 (fst (a_reserv2 a)) @ enc64 (snd (a_reserv2 a)) @
     enc64 (fst (a_reserv3 a)) @ enc64 (fst (snd (a_reserv3 a))) @ enc64 (snd (snd (a_reserv3 a))) @
     enc32 (a_upd_time a) @ enc32 (a_crc a)"

definition decode_acc :: "byte list \<Rightarrow> acc" where
  "decode_acc bs = \<lparr>a_tag = rd32 0 bs, a_accno = rd32 4 bs, a_balance = rd64 8 bs,
     a_start = rd32 16 bs, a_stop = rd32 20 bs, a_tariff = rd32 24 bs, a_summ_rsttime = rd32 28 bs,
     a_inet_summ_in = rd64 32 bs, a_money_summ = rd64 40 bs, a_inet_summ_out = rd64 48 bs,
     a_res_balance = rd64 56 bs, a_tcredit = rd64 64 bs, a_res_tcredit = rd64 72 bs,
     a_reserv2 = (rd64 80 bs, rd64 88 bs), a_reserv3 = (rd64 96 bs, rd64 104 bs, rd64 112 bs),
     a_upd_time = rd32 120 bs, a_crc = rd32 124 bs\<rparr>"

definition encode_acc_old :: "acc_old \<Rightarrow> byte list" where
  "encode_acc_old a = enc32 (o_tag a) @ enc32 (o_accno a) @ enc64 (o_balance a) @
     enc32 (o_start a) @ enc32 (o_stop a) @ enc32 (o_reserv a) @ enc32 (o_crc a)"

definition decode_acc_old :: "byte list \<Rightarrow> acc_old" where
  "decode_acc_old bs = \<lparr>o_tag = rd32 0 bs, o_accno = rd32 4 bs, o_balance = rd64 8 bs,
     o_start = rd32 16 bs, o_stop = rd32 20 bs, o_reserv = rd32 24 bs, o_crc = rd32 28 bs\<rparr>"

lemma length_encode_acc [simp]: "length (encode_acc a) = 128" "length (encode_acc_old b) = 32"
  by (simp_all add: encode_acc_def encode_acc_old_def)

lemma decode_encode_acc [simp]: "decode_acc (encode_acc a) = a"
  by (cases a) (simp add: decode_acc_def encode_acc_def rd_enc)

lemma encode_decode_acc [simp]: "length bs = 128 \<Longrightarrow> encode_acc (decode_acc bs) = bs"
  by (simp add: decode_acc_def encode_acc_def enc_rd take_drop_join)

lemma decode_encode_acc_old [simp]: "decode_acc_old (encode_acc_old a) = a"
  by (cases a) (simp add: decode_acc_old_def encode_acc_old_def rd_enc)

lemma encode_decode_acc_old [simp]: "length bs = 32 \<Longrightarrow> encode_acc_old (decode_acc_old bs) = bs"
  by (simp add: decode_acc_old_def encode_acc_old_def enc_rd take_drop_join)

section \<open>Opening and locking\<close>

record accbase =
  ab_fd :: int
  ab_fasync :: int

definition acc_baseopen :: "accbase \<Rightarrow> string \<Rightarrow> 'a dbs_scheme \<Rightarrow> int \<times> accbase \<times> 'a dbs_scheme" where
  "acc_baseopen base file w = (case db_open file w of (rc, w) \<Rightarrow>
     if rc < 0 then (rc, base, w) else (SUCCESS, base\<lparr>ab_fd := rc, ab_fasync := 0\<rparr>, w))"

definition acc_baseclose :: "accbase \<Rightarrow> 'a dbs_scheme \<Rightarrow> int \<times> 'a dbs_scheme" where
  "acc_baseclose base w = db_close (ab_fd base) w"

definition acc_reccount :: "accbase \<Rightarrow> 'a dbs_scheme \<Rightarrow> int \<times> 'a dbs_scheme" where
  "acc_reccount base w = (case db_reccount (ab_fd base) 128 w of (n, w) \<Rightarrow> (i32 n, w))"

definition acc_baselock :: "accbase \<Rightarrow> 'a dbs_scheme \<Rightarrow> int \<times> 'a dbs_scheme" where
  "acc_baselock base w = (if ab_fasync base = 0 then db_exlock (ab_fd base) w else (0, w))"

definition acc_baseunlock :: "accbase \<Rightarrow> 'a dbs_scheme \<Rightarrow> int \<times> 'a dbs_scheme" where
  "acc_baseunlock base w = (if ab_fasync base = 0 then db_unlock (ab_fd base) w else (0, w))"

definition acc_async_on :: "accbase \<Rightarrow> 'a dbs_scheme \<Rightarrow> int \<times> accbase \<times> 'a dbs_scheme" where
  "acc_async_on base w =
     (if ab_fasync base \<noteq> 0 then (IO_ERROR, base, w)
      else (case db_exlock (ab_fd base) w of (rc, w) \<Rightarrow>
        if rc < 0 then (rc, base, w) else (0, base\<lparr>ab_fasync := 1\<rparr>, w)))"

definition acc_async_off :: "accbase \<Rightarrow> 'a dbs_scheme \<Rightarrow> int \<times> accbase \<times> 'a dbs_scheme" where
  "acc_async_off base w =
     (if ab_fasync base = 0 then (IO_ERROR, base, w)
      else (case db_sync (ab_fd base) w of (_, w) \<Rightarrow>
            case db_unlock (ab_fd base) w of (rc, w) \<Rightarrow>
        if rc < 0 then (rc, base, w) else (0, base\<lparr>ab_fasync := 0\<rparr>, w)))"

section \<open>Records\<close>

definition acc_crc :: "acc \<Rightarrow> 'a dbs_scheme \<Rightarrow> u32" where
  "acc_crc a w = count_crc (take 124 (encode_acc a)) w"

text \<open>The state of a record that was read as number \<open>rec\<close> at time \<open>ctime\<close>, and what becomes of it.\<close>

definition acc_check :: "int \<Rightarrow> int \<Rightarrow> acc \<Rightarrow> 'a dbs_scheme \<Rightarrow> int \<times> acc" where
  "acc_check rec ctime a w =
     (if a_tag a AND ATAG_DELETED \<noteq> 0 then (ACC_DELETED, a)
      else if a_tag a AND ATAG_BROKEN \<noteq> 0 then (ACC_BROKEN, a)
      else if a_crc a \<noteq> acc_crc a w then (ACC_BROKEN, a\<lparr>a_tag := a_tag a OR ATAG_BROKEN\<rparr>)
      else if a_tag a AND ATAG_FROZEN \<noteq> 0 then (ACC_FROZEN, a)
      else if a_tag a AND ATAG_OFF \<noteq> 0 then (ACC_OFF, a)
      else if sint (a_accno a) \<noteq> rec then (ACC_BROKEN, a\<lparr>a_tag := a_tag a OR ATAG_BROKEN\<rparr>)
      else if a_tag a AND ATAG_UNLIMIT \<noteq> 0 then (ACC_UNLIMIT, a)
      else if a_start a \<noteq> 0 \<or> a_stop a \<noteq> 0
      then (if sint (a_start a) < ctime \<and> (sint (a_stop a) > ctime \<or> a_stop a = 0)
            then (SUCCESS, a) else (NEGATIVE, a))
      else (if dlt (a_balance a) d_cent then (NEGATIVE, a) else (SUCCESS, a)))"

definition acci_get :: "accbase \<Rightarrow> int \<Rightarrow> acc \<Rightarrow> 'a dbs_scheme \<Rightarrow> int \<times> acc \<times> 'a dbs_scheme" where
  "acci_get base rec acc w =
     (case sys_time w of (ctime, w) \<Rightarrow>
      case db_get (ab_fd base) rec (encode_acc acc) 128 w of (rc, buf, w) \<Rightarrow>
        let acc = decode_acc buf
        in if rc < 0 then (rc, acc, w)
           else (case acc_check rec ctime acc w of (rc, acc) \<Rightarrow> (rc, acc, w)))"

definition acci_get_old ::
    "accbase \<Rightarrow> int \<Rightarrow> acc_old \<Rightarrow> 'a dbs_scheme \<Rightarrow> int \<times> acc_old \<times> 'a dbs_scheme" where
  "acci_get_old base rec acc w =
     (case sys_time w of (ctime, w) \<Rightarrow>
      case db_get (ab_fd base) rec (encode_acc_old acc) 32 w of (rc, buf, w) \<Rightarrow>
        let a = decode_acc_old buf
        in if rc < 0 then (rc, a, w)
           else if o_tag a AND ATAG_DELETED \<noteq> 0 then (ACC_DELETED, a, w)
           else if o_tag a AND ATAG_BROKEN \<noteq> 0 then (ACC_BROKEN, a, w)
           else if o_crc a \<noteq> count_crc (take 28 (encode_acc_old a)) w
           then (ACC_BROKEN, a\<lparr>o_tag := o_tag a OR ATAG_BROKEN\<rparr>, w)
           else if o_tag a AND ATAG_FROZEN \<noteq> 0 then (ACC_FROZEN, a, w)
           else if o_tag a AND ATAG_OFF \<noteq> 0 then (ACC_OFF, a, w)
           else if sint (o_accno a) \<noteq> rec
           then (ACC_BROKEN, a\<lparr>o_tag := o_tag a OR ATAG_BROKEN\<rparr>, w)
           else if o_tag a AND ATAG_UNLIMIT \<noteq> 0 then (ACC_UNLIMIT, a, w)
           else if o_start a \<noteq> 0 \<or> o_stop a \<noteq> 0
           then (if sint (o_start a) < ctime \<and> (sint (o_stop a) > ctime \<or> o_stop a = 0)
                 then (SUCCESS, a, w) else (NEGATIVE, a, w))
           else (if dlt (o_balance a) d_cent then (NEGATIVE, a, w) else (SUCCESS, a, w)))"

text \<open>The control fields of a record that is about to be written.\<close>

definition acc_stamp :: "acc \<Rightarrow> int \<Rightarrow> 'a dbs_scheme \<Rightarrow> acc" where
  "acc_stamp acc tnow w =
     (let acc = acc\<lparr>a_upd_time := word_of_int tnow\<rparr>
      in if a_tag acc AND ATAG_BROKEN = 0 then acc\<lparr>a_crc := acc_crc acc w\<rparr> else acc)"

definition acci_put :: "accbase \<Rightarrow> int \<Rightarrow> acc \<Rightarrow> 'a dbs_scheme \<Rightarrow> int \<times> acc \<times> 'a dbs_scheme" where
  "acci_put base rec acc w =
     (if sint (a_accno acc) \<noteq> rec then (IO_ERROR, acc, w)
      else (case sys_time w of (tnow, w) \<Rightarrow>
        let acc = acc_stamp acc tnow w
        in case db_put (ab_fd base) rec (encode_acc acc) 128 w of (rc, w) \<Rightarrow>
          if rc < 0 then (rc, acc, w)
          else if ab_fasync base = 0
          then (case db_sync (ab_fd base) w of (rc, w) \<Rightarrow>
            if rc < 0 then (rc, acc, w) else (SUCCESS, acc, w))
          else (SUCCESS, acc, w)))"

definition acc_get :: "accbase \<Rightarrow> int \<Rightarrow> acc \<Rightarrow> 'a dbs_scheme \<Rightarrow> int \<times> acc \<times> 'a dbs_scheme" where
  "acc_get base rec acc w =
     (case (if ab_fasync base = 0 then db_shlock (ab_fd base) w else (0, w)) of (rc, w) \<Rightarrow>
        if rc \<ge> 0
        then (case acci_get base rec acc w of (rc, acc, w) \<Rightarrow>
          (rc, acc, if ab_fasync base = 0 then snd (db_unlock (ab_fd base) w) else w))
        else (IO_ERROR, acc, w))"

definition acc_put :: "accbase \<Rightarrow> int \<Rightarrow> acc \<Rightarrow> 'a dbs_scheme \<Rightarrow> int \<times> acc \<times> 'a dbs_scheme" where
  "acc_put base rec acc w =
     (case (if ab_fasync base = 0 then db_exlock (ab_fd base) w else (0, w)) of (rc, w) \<Rightarrow>
        if rc \<ge> 0
        then (case acci_put base rec acc w of (rc, acc, w) \<Rightarrow>
          (rc, acc, if ab_fasync base = 0 then snd (db_unlock (ab_fd base) w) else w))
        else (IO_ERROR, acc, w))"

text \<open>The body of \<open>acc_add\<close> between locking and unlocking: the result code and the number.\<close>

definition acc_add_locked :: "accbase \<Rightarrow> acc \<Rightarrow> 'a dbs_scheme \<Rightarrow> int \<times> int \<times> acc \<times> 'a dbs_scheme" where
  "acc_add_locked base acc w =
     (case acc_reccount base w of (rc, w) \<Rightarrow>
        if rc < 0 then (rc, - 1, acc, w)
        else (let no = rc in case sys_time w of (tnow, w) \<Rightarrow>
          let acc = acc\<lparr>a_accno := word_of_int no, a_upd_time := word_of_int tnow\<rparr>;
              acc = acc\<lparr>a_crc := acc_crc acc w\<rparr>
          in case db_add (ab_fd base) (encode_acc acc) 128 w of (rc, w) \<Rightarrow>
            let rc = i32 rc
            in if rc = IO_ERROR then (rc, no, acc, w)
               else if ab_fasync base = 0
               then (case db_sync (ab_fd base) w of (rc, w) \<Rightarrow> (rc, no, acc, w))
               else (rc, no, acc, w)))"

definition acc_add :: "accbase \<Rightarrow> acc \<Rightarrow> 'a dbs_scheme \<Rightarrow> int \<times> acc \<times> 'a dbs_scheme" where
  "acc_add base acc w =
     (case (if ab_fasync base = 0 then db_exlock (ab_fd base) w else (0, w)) of (rc, w) \<Rightarrow>
        if rc < 0 then (rc, acc, w)
        else (case acc_add_locked base acc w of (rc, no, acc, w) \<Rightarrow>
          let w = (if ab_fasync base = 0 then snd (db_unlock (ab_fd base) w) else w)
          in if rc < 0 then (rc, acc, w) else (no, acc, w)))"

section \<open>The transaction of the library\<close>

text \<open>Up to \<open>n + 1\<close> attempts at reading or writing an account, until one is not an I/O error.\<close>

fun acci_get_try ::
    "nat \<Rightarrow> accbase \<Rightarrow> int \<Rightarrow> acc \<Rightarrow> 'a dbs_scheme \<Rightarrow> int \<times> acc \<times> 'a dbs_scheme" where
  "acci_get_try 0 base rec acc w = acci_get base rec acc w"
| "acci_get_try (Suc n) base rec acc w = (case acci_get base rec acc w of (rc, acc, w) \<Rightarrow>
     if rc \<noteq> IO_ERROR then (rc, acc, w) else acci_get_try n base rec acc w)"

fun acci_put_try ::
    "nat \<Rightarrow> accbase \<Rightarrow> int \<Rightarrow> acc \<Rightarrow> 'a dbs_scheme \<Rightarrow> int \<times> acc \<times> 'a dbs_scheme" where
  "acci_put_try 0 base rec acc w = acci_put base rec acc w"
| "acci_put_try (Suc n) base rec acc w = (case acci_put base rec acc w of (rc, acc, w) \<Rightarrow>
     if rc \<noteq> IO_ERROR then (rc, acc, w) else acci_put_try n base rec acc w)"

definition LogStep :: int where "LogStep = 1800"

definition same_key :: "logrec \<Rightarrow> logrec \<Rightarrow> bool" where
  "same_key r q \<longleftrightarrow> lr_accno r = lr_accno q \<and> lr_serrno r = lr_serrno q \<and>
     is_res_id (lr_isdata r) = is_res_id (lr_isdata q) \<and>
     is_user_id (lr_isdata r) = is_user_id (lr_isdata q) \<and>
     is_proto_id (lr_isdata r) = is_proto_id (lr_isdata q) \<and>
     is_proto2 (lr_isdata r) = is_proto2 (lr_isdata q) \<and>
     is_host (lr_isdata r) = is_host (lr_isdata q) \<and>
     unat (is_value (lr_isdata r)) + unat (is_value (lr_isdata q)) < 2 ^ 32 - 1"

text \<open>
  The search back through the log for a record of the same half hour the new one can be
  added to: \<open>n\<close> records are left, \<open>rc\<close> and \<open>oldrec\<close> are the variables of the loop.
\<close>

fun acc_trans_group ::
    "nat \<Rightarrow> logbase \<Rightarrow> logrec \<Rightarrow> int \<Rightarrow> logrec \<Rightarrow> 'a dbs_scheme \<Rightarrow> int \<times> 'a dbs_scheme" where
  "acc_trans_group 0 logbase logrec rc oldrec w = (rc, w)"
| "acc_trans_group (Suc i) logbase logrec rc oldrec w =
     (case logi_get logbase (int i) oldrec w of (rc, oldrec, w) \<Rightarrow>
        if rc = SUCCESS
        then (if sint (lr_time logrec) sdiv LogStep = sint (lr_time oldrec) sdiv LogStep
              then (if same_key logrec oldrec
                    then (let d = lr_isdata oldrec;
                              oldrec = oldrec\<lparr>
                                lr_isdata := d\<lparr>is_value := is_value d + is_value (lr_isdata logrec)\<rparr>,
                                lr_sum := dadd (lr_sum oldrec) (lr_sum logrec),
                                lr_balance := BALANCE_NA\<rparr>
                          in case logi_put logbase (int i) oldrec w of (rc, oldrec, w) \<Rightarrow> (rc, w))
                    else acc_trans_group i logbase logrec (- 1) oldrec w)
              else (- 1, w))
        else acc_trans_group i logbase logrec rc oldrec w)"

definition acc_trans ::
    "accbase \<Rightarrow> int \<Rightarrow> double \<Rightarrow> isdata option \<Rightarrow> logbase \<Rightarrow> 'a dbs_scheme \<Rightarrow> int \<times> 'a dbs_scheme" where
  "acc_trans base rec amount isdata logbase w =
     (let acc = decode_acc (stack_junk 128 w); oldrec = decode_logrec (stack_junk 64 w)
      in case acc_baselock base w of (rc, w) \<Rightarrow>
        if rc < 0 then (IO_ERROR, w)
        else (case sys_time w of (tnow, w) \<Rightarrow>
          let logrec = logrec_zero\<lparr>lr_time := word_of_int tnow, lr_accno := word_of_int rec, lr_sum := amount\<rparr>;
              logrec = (case isdata of
                  Some d \<Rightarrow> logrec\<lparr>lr_isdata := d\<rparr>
                | None \<Rightarrow> logrec\<lparr>lr_isdata := (lr_isdata logrec)\<lparr>is_res_id := - 1\<rparr>\<rparr>)
          in case acci_get_try 2 base rec acc w of (rc, acc, w) \<Rightarrow>
          let logrec = logrec\<lparr>lr_serrno := word_of_int rc\<rparr>;
              logrec = (if rc \<ge> 0 \<or> rc \<le> ACC_FROZEN then logrec\<lparr>lr_balance := a_balance acc\<rparr> else logrec);
              acc = (if rc = SUCCESS \<or> rc = NEGATIVE \<or> rc = ACC_OFF
                     then acc\<lparr>a_balance := dadd (a_balance acc) amount\<rparr> else acc)
          in case (if rc \<ge> 0 \<or> rc = ACC_OFF
                   then (case acci_put_try 2 base rec acc w of (rc, acc, w) \<Rightarrow>
                     (if rc < 0 then logrec\<lparr>lr_serrno := word_of_int rc\<rparr> else logrec, acc, w))
                   else (logrec, acc, w)) of (logrec, acc, w) \<Rightarrow>
          case log_baselock logbase w of (rc, w) \<Rightarrow>
          case (if rc = SUCCESS
                then (case log_reccount logbase w of (recs, w) \<Rightarrow>
                      case acc_trans_group (nat (i32 recs)) logbase logrec (- 1) oldrec w of (rc, w) \<Rightarrow>
                        (rc, snd (log_baseunlock logbase w)))
                else (rc, w)) of (rc, w) \<Rightarrow>
          case (if rc < 0 then (case log_add logbase logrec w of (rc, logrec, w) \<Rightarrow> (i32 rc, w))
                else (rc, w)) of (rc, w) \<Rightarrow>
          case acc_baseunlock base w of (_, w) \<Rightarrow>
            if rc < 0 then (rc, w)
            else (if dlt (a_balance acc) d_cent then 1 else 0, w)))"

section \<open>What the operations leave alone\<close>

lemma acc_crc_quiet: "zcrc32 w' = zcrc32 w \<Longrightarrow> acc_crc a w' = acc_crc a w"
  by (simp add: acc_crc_def count_crc_def)

lemma acc_check_quiet: "zcrc32 w' = zcrc32 w \<Longrightarrow> acc_check i t a w' = acc_check i t a w"
  by (simp only: acc_check_def acc_crc_quiet[of w' w])

lemma quiet_acci_get:
  assumes "acci_get base rec a w = (rc, a', w')" "sq_fd (sqr w) \<noteq> ab_fd base"
  shows "quiet P w w' \<and> ticks w' = ticks w + 1"
proof -
  obtain grc buf w2 where w2: "db_get (ab_fd base) rec (encode_acc a) 128 (tick w) = (grc, buf, w2)"
    by (cases "db_get (ab_fd base) rec (encode_acc a) 128 (tick w)") auto
  then have "quiet P (tick w) w2 \<and> ticks w2 = ticks w + 1"
    using quiet_get[OF w2, of P] assms(2) by simp
  moreover have "w' = w2"
    using assms(1) w2
    by (cases "acc_check rec (now w) (decode_acc buf) w2")
      (simp add: acci_get_def sys_time_now Let_def split: if_splits)
  ultimately show ?thesis using quiet_trans[OF quiet_tick] by blast
qed

lemma quiet_acci_put:
  assumes "acci_put base rec a w = (rc, a', w')" "fd_paths w (ab_fd base) \<subseteq> P"
  shows "quiet P w w'"
proof (cases "sint (a_accno a) = rec")
  case True
  define b where "b = acc_stamp a (now w) (tick w)"
  obtain prc w2 where w2: "db_put (ab_fd base) rec (encode_acc b) 128 (tick w) = (prc, w2)" by fastforce
  with quiet_put[OF w2] assms(2) have q2: "quiet P w w2" by (auto intro: quiet_trans[OF quiet_tick])
  obtain src w3 where w3: "db_sync (ab_fd base) w2 = (src, w3)" by fastforce
  then have q3: "quiet P w w3" using quiet_sync[OF w3, of P] q2 by (blast intro: quiet_trans)
  have "w' = w2 \<or> w' = w3"
    using assms(1) True w2 w3
    by (simp add: acci_put_def sys_time_now b_def[symmetric] Let_def split: if_splits)
  with q2 q3 show ?thesis by blast
next
  case False
  with assms(1) show ?thesis by (auto simp: acci_put_def)
qed

lemma quiet_acci_get_try:
  "acci_get_try n base rec a w = (rc, a', w') \<Longrightarrow> sq_fd (sqr w) \<noteq> ab_fd base \<Longrightarrow> quiet P w w'"
proof (induction n arbitrary: a w)
  case 0
  then show ?case using quiet_acci_get by fastforce
next
  case (Suc n)
  obtain rc1 a1 w1 where w1: "acci_get base rec a w = (rc1, a1, w1)"
    by (cases "acci_get base rec a w") auto
  with quiet_acci_get[OF w1 Suc.prems(2)] have q: "quiet P w w1" by blast
  then have "sq_fd (sqr w1) \<noteq> ab_fd base" using Suc.prems(2) by (simp add: quiet_simps)
  with Suc.IH[of a1 w1] Suc.prems(1) w1 q show ?case
    by (auto split: if_splits intro: quiet_trans)
qed

lemma quiet_acci_put_try:
  "acci_put_try n base rec a w = (rc, a', w') \<Longrightarrow> fd_paths w (ab_fd base) \<subseteq> P \<Longrightarrow> quiet P w w'"
proof (induction n arbitrary: a w)
  case 0
  then show ?case using quiet_acci_put by fastforce
next
  case (Suc n)
  obtain rc1 a1 w1 where w1: "acci_put base rec a w = (rc1, a1, w1)"
    by (cases "acci_put base rec a w") auto
  with quiet_acci_put[OF w1 Suc.prems(2)] have q: "quiet P w w1" by blast
  then have "fd_paths w1 (ab_fd base) \<subseteq> P" using Suc.prems(2) by (simp add: quiet_paths)
  with Suc.IH[of a1 w1] Suc.prems(1) w1 q show ?case
    by (auto split: if_splits intro: quiet_trans)
qed

lemma quiet_acc_get:
  assumes "acc_get base rec a w = (rc, a', w')" "sq_fd (sqr w) \<noteq> ab_fd base"
    and u: "ab_fasync base = 0 \<Longrightarrow> fd_lock w (ab_fd base) = LOCK_UN"
  shows "quiet P w w'"
proof -
  obtain lrc w1 where w1: "(if ab_fasync base = 0 then sys_flock (ab_fd base) LOCK_SH w else (0, w)) = (lrc, w1)"
    by fastforce
  note st = lock_step[OF w1]
  obtain grc b w2 where w2: "acci_get base rec a w1 = (grc, b, w2)" by (cases "acci_get base rec a w1") auto
  have q: "quiet P w1 w2" using quiet_acci_get[OF w2] st(2) assms(2) by simp
  show ?thesis
  proof (cases "lrc = 0")
    case True
    then have "w' = (if ab_fasync base = 0 then snd (sys_flock (ab_fd base) LOCK_UN w2) else w2)"
      using assms(1) unfolding acc_get_def db_shlock_def db_unlock_def w1 by (simp add: w2)
    with st(8)[OF q True u] show ?thesis by simp
  next
    case False
    then have "w' = w1" using st(1) assms(1) unfolding acc_get_def db_shlock_def w1 by auto
    with st(7)[OF False] show ?thesis by simp
  qed
qed

lemma quiet_acc_put:
  assumes "acc_put base rec a w = (rc, a', w')" "fd_paths w (ab_fd base) \<subseteq> P"
    and u: "ab_fasync base = 0 \<Longrightarrow> fd_lock w (ab_fd base) = LOCK_UN"
  shows "quiet P w w'"
proof -
  obtain lrc w1 where w1: "(if ab_fasync base = 0 then sys_flock (ab_fd base) LOCK_EX w else (0, w)) = (lrc, w1)"
    by fastforce
  note st = lock_step[OF w1]
  obtain grc b w2 where w2: "acci_put base rec a w1 = (grc, b, w2)" by (cases "acci_put base rec a w1") auto
  have q: "quiet P w1 w2" using quiet_acci_put[OF w2] st(3) assms(2) by simp
  show ?thesis
  proof (cases "lrc = 0")
    case True
    then have "w' = (if ab_fasync base = 0 then snd (sys_flock (ab_fd base) LOCK_UN w2) else w2)"
      using assms(1) unfolding acc_put_def db_exlock_def db_unlock_def w1 by (simp add: w2)
    with st(8)[OF q True u] show ?thesis by simp
  next
    case False
    then have "w' = w1" using st(1) assms(1) unfolding acc_put_def db_exlock_def w1 by auto
    with st(7)[OF False] show ?thesis by simp
  qed
qed

lemma quiet_acc_add_locked:
  assumes "acc_add_locked base a w = (rc, no, a', w')" "fd_paths w (ab_fd base) \<subseteq> P"
  shows "quiet P w w'"
proof -
  obtain cnt w1 where w1: "db_reccount (ab_fd base) 128 w = (cnt, w1)" by fastforce
  then have q1: "quiet P w w1" using quiet_reccount by blast
  define b where "b = (let b = a\<lparr>a_accno := word_of_int (i32 cnt), a_upd_time := word_of_int (now w1)\<rparr>
      in b\<lparr>a_crc := acc_crc b (tick w1)\<rparr>)"
  obtain arc w2 where w2: "db_add (ab_fd base) (encode_acc b) 128 (tick w1) = (arc, w2)" by fastforce
  have "quiet P (tick w1) w2"
    using quiet_add[OF w2, of P] assms(2) quiet_paths[OF q1] by simp
  then have q2: "quiet P w w2" using q1 quiet_trans[OF quiet_tick] quiet_trans by blast
  obtain src w3 where w3: "db_sync (ab_fd base) w2 = (src, w3)" by fastforce
  then have q3: "quiet P w w3" using quiet_sync[OF w3, of P] q2 by (blast intro: quiet_trans)
  have "w' = w1 \<or> w' = w2 \<or> w' = w3"
    using assms(1) w2 w3
    by (simp add: acc_add_locked_def acc_reccount_def w1 sys_time_now b_def Let_def split: if_splits)
  with q1 q2 q3 show ?thesis by blast
qed

lemma quiet_acc_add:
  assumes "acc_add base a w = (rc, a', w')" "fd_paths w (ab_fd base) \<subseteq> P"
    and u: "ab_fasync base = 0 \<Longrightarrow> fd_lock w (ab_fd base) = LOCK_UN"
  shows "quiet P w w'"
proof -
  obtain lrc w1 where w1: "(if ab_fasync base = 0 then sys_flock (ab_fd base) LOCK_EX w else (0, w)) = (lrc, w1)"
    by fastforce
  note st = lock_step[OF w1]
  obtain grc no b w2 where w2: "acc_add_locked base a w1 = (grc, no, b, w2)"
    by (cases "acc_add_locked base a w1") auto
  have q: "quiet P w1 w2" using quiet_acc_add_locked[OF w2] st(3) assms(2) by simp
  show ?thesis
  proof (cases "lrc = 0")
    case True
    then have "w' = (if ab_fasync base = 0 then snd (sys_flock (ab_fd base) LOCK_UN w2) else w2)"
      using assms(1) unfolding acc_add_def db_exlock_def db_unlock_def w1
      by (simp add: w2 Let_def split: if_splits)
    with st(8)[OF q True u] show ?thesis by simp
  next
    case False
    then have "w' = w1" using st(1) assms(1) unfolding acc_add_def db_exlock_def w1 by auto
    with st(7)[OF False] show ?thesis by simp
  qed
qed

section \<open>The account base on a machine without faults\<close>

definition acc_ready :: "accbase \<Rightarrow> string \<Rightarrow> 'a dbs_scheme \<Rightarrow> bool" where
  "acc_ready base path w \<longleftrightarrow> file_ready (ab_fd base) path 128 w"

definition accounts :: "string \<Rightarrow> 'a dbs_scheme \<Rightarrow> acc list" where
  "accounts path w = map decode_acc (file_recs path 128 w)"

lemma length_accounts: "length (accounts path w) = length (file_recs path 128 w)"
  by (simp add: accounts_def)

lemma acc_ready_quiet:
  assumes "quiet P w w'" "path \<notin> P"
  shows "acc_ready base path w \<Longrightarrow> acc_ready base path w'" "accounts path w' = accounts path w"
  using file_ready_quiet[OF assms] by (auto simp: acc_ready_def accounts_def)

lemma acc_ready_simps [simp]:
  "acc_ready base path (tick w) = acc_ready base path w" "accounts path (tick w) = accounts path w"
  "acc_ready base path (relock fd m w) = acc_ready base path w"
  "accounts path (relock fd m w) = accounts path w"
  by (simp_all add: acc_ready_def accounts_def file_ready_relock)

lemma acc_ready_sqr: "acc_ready base path w \<Longrightarrow> sq_fd (sqr w) \<noteq> ab_fd base"
  by (simp add: acc_ready_def file_ready_def)

lemma acc_check_codes:
  "fst (acc_check i t a w) \<in> {SUCCESS, NEGATIVE, ACC_UNLIMIT, ACC_DELETED, ACC_BROKEN, ACC_FROZEN, ACC_OFF}"
  by (simp add: acc_check_def)

lemma acci_get_nf:
  assumes r: "acc_ready base path w" and i: "i < length (accounts path w)"
  defines "c \<equiv> acc_check (int i) (now w) (accounts path w ! i) w"
  shows "\<exists>w'. acci_get base (int i) a w = (fst c, snd c, w') \<and> quiet {} w w' \<and> ticks w' = ticks w + 1"
proof -
  have fr: "file_ready (ab_fd base) path 128 (tick w)" and ln: "i < length (file_recs path 128 (tick w))"
    using r i by (simp_all add: acc_ready_def length_accounts)
  from db_get_nf[OF fr ln, of "encode_acc a"] obtain w' where
    w': "db_get (ab_fd base) (int i) (encode_acc a) 128 (tick w) = (SUCCESS, file_recs path 128 w ! i, w')"
    by auto
  have q: "quiet {} (tick w) w' \<and> ticks w' = ticks (tick w)"
    by (rule quiet_get[OF w']) (use r in \<open>simp add: acc_ready_sqr\<close>)
  have "decode_acc (file_recs path 128 w ! i) = accounts path w ! i"
    using i by (simp add: accounts_def)
  moreover have "acc_check (int i) (now w) (accounts path w ! i) w' = c"
    unfolding c_def by (rule acc_check_quiet) (use quiet_simps(3)[of "{}" "tick w" w'] q in simp)
  ultimately have "acci_get base (int i) a w = (fst c, snd c, w')"
    by (simp add: acci_get_def sys_time_now w' split: prod.split)
  with q show ?thesis by (auto intro: quiet_trans[OF quiet_tick])
qed

lemma acci_get_absent_nf:
  assumes r: "acc_ready base path w" and k: "int (length (accounts path w)) \<le> k"
  shows "acci_get base k a w = (NOT_FOUND, a, tick w)"
proof -
  have fr: "file_ready (ab_fd base) path 128 (tick w)" "int (length (file_recs path 128 (tick w))) \<le> k"
    using r k by (simp_all add: acc_ready_def length_accounts)
  from db_get_absent_nf(1)[OF this, of "encode_acc a"] show ?thesis
    by (simp add: acci_get_def sys_time_now)
qed

lemma acci_put_nf:
  assumes r: "acc_ready base path w" and i: "i < length (accounts path w)"
    and no: "sint (a_accno a) = int i"
  defines "b \<equiv> acc_stamp a (now w) w"
  shows "\<exists>w'. acci_put base (int i) a w = (SUCCESS, b, w') \<and> acc_ready base path w' \<and>
     accounts path w' = (accounts path w)[i := b] \<and> quiet {path} w w' \<and> ticks w' = ticks w + 1"
proof -
  have fr: "file_ready (ab_fd base) path 128 (tick w)" and ln: "i < length (file_recs path 128 (tick w))"
    using r i by (simp_all add: acc_ready_def length_accounts)
  have b: "acc_stamp a (now w) (tick w) = b"
    by (simp add: b_def acc_stamp_def acc_crc_quiet[of "tick w" w] Let_def)
  from db_put_nf[OF fr ln, of "encode_acc b"] obtain w2 where
    w2: "db_put (ab_fd base) (int i) (encode_acc b) 128 (tick w) = (SUCCESS, w2)"
      "file_ready (ab_fd base) path 128 w2"
      "file_recs path 128 w2 = (file_recs path 128 w)[i := encode_acc b]"
    by auto
  have "fd_paths (tick w) (ab_fd base) = {path}" using file_ready_open[OF fr] by simp
  then have q: "quiet {path} (tick w) w2 \<and> ticks w2 = ticks (tick w)"
    by (intro quiet_put[OF w2(1)]) simp
  have sy: "db_sync (ab_fd base) w2 = (0, w2)"
    using w2(2) file_ready_open[OF w2(2)] by (auto simp: db_sync_def fsync_nf file_ready_def)
  have "acci_put base (int i) a w = (SUCCESS, b, w2)"
    using no by (simp add: acci_put_def sys_time_now b w2(1) sy)
  moreover have "accounts path w2 = (accounts path w)[i := b]"
    by (simp add: accounts_def w2(3) map_update)
  ultimately show ?thesis using q w2(2) by (auto simp: acc_ready_def intro: quiet_trans[OF quiet_tick])
qed

lemma acci_get_try_nf:
  assumes r: "acc_ready base path w" and i: "i < length (accounts path w)"
  shows "acci_get_try n base (int i) a w = acci_get base (int i) a w"
proof -
  obtain w' where "acci_get base (int i) a w =
      (fst (acc_check (int i) (now w) (accounts path w ! i) w),
       snd (acc_check (int i) (now w) (accounts path w ! i) w), w')"
    using acci_get_nf[OF assms, of a] by blast
  moreover have "fst (acc_check (int i) (now w) (accounts path w ! i) w) \<noteq> IO_ERROR"
    using acc_check_codes[of "int i" "now w" "accounts path w ! i" w] by auto
  ultimately show ?thesis by (cases n) simp_all
qed

lemma acci_put_try_nf:
  assumes "acc_ready base path w" "i < length (accounts path w)" "sint (a_accno a) = int i"
  shows "acci_put_try n base (int i) a w = acci_put base (int i) a w"
  using acci_put_nf[OF assms] by (cases n) auto

section \<open>The state of an account\<close>

text \<open>
  What the tags, the dates and the balance of a record say about the account: the meaning of
  the result code, apart from damage.
\<close>

definition acc_state :: "acc \<Rightarrow> int \<Rightarrow> int" where
  "acc_state a t =
     (if a_tag a AND ATAG_DELETED \<noteq> 0 then ACC_DELETED
      else if a_tag a AND ATAG_BROKEN \<noteq> 0 then ACC_BROKEN
      else if a_tag a AND ATAG_FROZEN \<noteq> 0 then ACC_FROZEN
      else if a_tag a AND ATAG_OFF \<noteq> 0 then ACC_OFF
      else if a_tag a AND ATAG_UNLIMIT \<noteq> 0 then ACC_UNLIMIT
      else if a_start a = 0 \<and> a_stop a = 0
      then (if dlt (a_balance a) d_cent then NEGATIVE else SUCCESS)
      else if sint (a_start a) < t \<and> (a_stop a = 0 \<or> t < sint (a_stop a)) then SUCCESS
      else NEGATIVE)"

definition acc_sound :: "int \<Rightarrow> acc \<Rightarrow> 'a dbs_scheme \<Rightarrow> bool" where
  "acc_sound i a w \<longleftrightarrow> a_crc a = acc_crc a w \<and> sint (a_accno a) = i"

lemma acc_check_sound: "acc_sound i a w \<Longrightarrow> acc_check i t a w = (acc_state a t, a)"
  by (auto simp: acc_check_def acc_state_def acc_sound_def)

lemma acc_crc_crc [simp]: "acc_crc (a\<lparr>a_crc := x\<rparr>) w = acc_crc a w"
  by (simp add: acc_crc_def encode_acc_def)

lemma acc_stamp_fields [simp]:
  "a_tag (acc_stamp a t w) = a_tag a" "a_accno (acc_stamp a t w) = a_accno a"
  "a_balance (acc_stamp a t w) = a_balance a" "a_start (acc_stamp a t w) = a_start a"
  "a_stop (acc_stamp a t w) = a_stop a" "a_tariff (acc_stamp a t w) = a_tariff a"
  "a_tcredit (acc_stamp a t w) = a_tcredit a" "a_upd_time (acc_stamp a t w) = word_of_int t"
  by (simp_all add: acc_stamp_def Let_def)

lemma acc_stamp_sound:
  "a_tag a AND ATAG_BROKEN = 0 \<Longrightarrow> sint (a_accno a) = i \<Longrightarrow> acc_sound i (acc_stamp a t w) w"
  by (simp add: acc_sound_def acc_stamp_def Let_def)

lemma acc_state_stamp [simp]: "acc_state (acc_stamp a t w) t' = acc_state a t'"
  by (simp only: acc_state_def acc_stamp_fields)

lemma acc_check_stamp:
  "sint (a_accno a) = i \<Longrightarrow> acc_check i t' (acc_stamp a t w) w = (acc_state a t', acc_stamp a t w)"
proof (cases "a_tag a AND ATAG_BROKEN = 0")
  case True
  assume "sint (a_accno a) = i"
  from acc_check_sound[OF acc_stamp_sound[OF True this]] show ?thesis by simp
next
  case False
  then show ?thesis by (simp add: acc_check_def acc_state_def)
qed

lemma acc_sound_quiet: "zcrc32 w' = zcrc32 w \<Longrightarrow> acc_sound i a w' = acc_sound i a w"
  by (simp add: acc_sound_def acc_crc_quiet[of w' w])

lemma now_quiet: "quiet P w w' \<Longrightarrow> ticks w' = ticks w \<Longrightarrow> now w' = now w"
  by (simp add: now_def quiet_simps)

section \<open>Properties\<close>

text \<open>
  The layout of an account record loses nothing: decoding the 128 bytes of a record gives the
  record back, and encoding what was decoded from 128 bytes gives the same bytes.
\<close>

lemma acc_codec:
  "length (encode_acc a) = 128 \<and> decode_acc (encode_acc a) = a \<and>
   (length bs = 128 \<longrightarrow> encode_acc (decode_acc bs) = bs)"
  by simp

lemma acc_codec_witness:
  "encode_acc (decode_acc (replicate 128 7)) = replicate 128 7"
  using acc_codec[of _ "replicate 128 7"] by (simp only: length_replicate)

text \<open>
  C25: Whatever system calls fail, a result code that lets the account be used (valid, unlimited,
  frozen or turned off) means that the record in the buffer carries the right checksum and
  neither the deleted nor the broken tag, and, unless it is frozen or off, the number asked for.
\<close>

theorem acci_get_verified:
  assumes "acci_get base rec a w = (rc, a', w')"
    and "rc \<ge> 0 \<or> rc = ACC_FROZEN \<or> rc = ACC_OFF"
  shows "a_crc a' = acc_crc a' w' \<and> a_tag a' AND ATAG_DELETED = 0 \<and> a_tag a' AND ATAG_BROKEN = 0 \<and>
    (rc \<ge> 0 \<longrightarrow> sint (a_accno a') = rec)"
proof -
  obtain grc buf w2 where w2: "db_get (ab_fd base) rec (encode_acc a) 128 (tick w) = (grc, buf, w2)"
    by (cases "db_get (ab_fd base) rec (encode_acc a) 128 (tick w)") auto
  have "grc \<in> {SUCCESS, NOT_FOUND, IO_ERROR}"
    using w2 by (auto simp: db_get_def db_get_random_def db_get_cached_def Let_def
        split: prod.splits if_splits option.splits)
  moreover obtain crc b where cb: "acc_check rec (now w) (decode_acc buf) w2 = (crc, b)" by fastforce
  ultimately have "rc = crc" "a' = b" "w' = w2"
    using assms w2 by (auto simp: acci_get_def sys_time_now Let_def split: if_splits)
  with cb assms(2) show ?thesis by (auto simp: acc_check_def split: if_splits)
qed

text \<open>A machine with three accounts in a file that is open for writing, and an empty log.\<close>

definition demo_acc :: "int \<Rightarrow> double \<Rightarrow> acc" where
  "demo_acc n bal = (decode_acc (replicate 128 0))\<lparr>a_accno := word_of_int n, a_balance := bal\<rparr>"

definition demo_bee :: dbs where
  "demo_bee = \<lparr>files = [''acc'' \<mapsto> encode_acc (demo_acc 0 d_mebi) @ encode_acc (demo_acc 1 0),
       ''log'' \<mapsto> []],
     fdt = [3 \<mapsto> \<lparr>fe_path = ''acc'', fe_pos = 0, fe_lock = LOCK_UN, fe_ro = False\<rparr>,
            4 \<mapsto> \<lparr>fe_path = ''log'', fe_pos = 0, fe_lock = LOCK_UN, fe_ro = False\<rparr>], nextfd = 5,
     script = [], clock = (\<lambda>n. Some \<lparr>tv_sec = 1000 + int n, tv_usec = 0\<rparr>), ticks = 0,
     zcrc32 = (\<lambda>bs. 0), junk = (\<lambda>_. 0), sqr = sqr_none\<rparr>"

lemma demo_bee_ready:
  "acc_ready \<lparr>ab_fd = 3, ab_fasync = 0\<rparr> ''acc'' demo_bee" "log_ready \<lparr>lb_fd = 4, lb_fasync = 0\<rparr> ''log'' demo_bee"
  by (simp_all add: acc_ready_def log_ready_def file_ready_def demo_bee_def no_faults_def open_on_def sqr_none_def)

lemma demo_bee_accounts: "accounts ''acc'' demo_bee = [demo_acc 0 d_mebi, demo_acc 1 0]"
  by (simp add: accounts_def file_recs_def demo_bee_def records_def upt_rec)

theorem acci_get_verified_witness:
  "\<exists>a' w'. acci_get \<lparr>ab_fd = 3, ab_fasync = 0\<rparr> 1 (demo_acc 0 0) demo_bee = (NEGATIVE, a', w') \<and>
     a_crc a' = acc_crc a' w' \<and> sint (a_accno a') = 1"
proof -
  have c: "acc_check 1 t (demo_acc 1 0) demo_bee = (NEGATIVE, demo_acc 1 0)" for t
  proof -
    have "dlt 0 d_cent" by (simp add: d_cent_def dlt_def fdecode_def fixpt_def Let_def)
    then show ?thesis
      by (simp add: acc_check_def demo_acc_def decode_acc_def acc_crc_def count_crc_def demo_bee_def)
  qed
  from acci_get_nf[OF demo_bee_ready(1), of 1 "demo_acc 0 0"] obtain w' where
    e: "acci_get \<lparr>ab_fd = 3, ab_fasync = 0\<rparr> 1 (demo_acc 0 0) demo_bee = (NEGATIVE, demo_acc 1 0, w')"
    by (auto simp: demo_bee_accounts c)
  from acci_get_verified[OF this] e show ?thesis by simp
qed

text \<open>
  On a machine without faults, writing an account and reading it back yields the fields that
  were written with the new time stamp, and the result code is the state those fields describe:
  the checksum and the number never make it broken.
\<close>

lemma acci_get_after_put:
  assumes "acc_ready base path w" "i < length (accounts path w)" "sint (a_accno a) = int i"
  shows "\<exists>w1 w2. acci_put base (int i) a w = (SUCCESS, acc_stamp a (now w) w, w1) \<and>
    acci_get base (int i) buf w1 = (acc_state a (now w1), acc_stamp a (now w) w, w2) \<and>
    accounts path w2 = (accounts path w)[i := acc_stamp a (now w) w]"
proof -
  from acci_put_nf[OF assms] obtain w1 where w1:
    "acci_put base (int i) a w = (SUCCESS, acc_stamp a (now w) w, w1)"
    "acc_ready base path w1" "accounts path w1 = (accounts path w)[i := acc_stamp a (now w) w]"
    "quiet {path} w w1" by blast
  have i1: "i < length (accounts path w1)" "accounts path w1 ! i = acc_stamp a (now w) w"
    using w1(3) assms(2) by simp_all
  from acci_get_nf[OF w1(2) i1(1), of buf] obtain w2 where w2:
    "acci_get base (int i) buf w1 = (fst (acc_check (int i) (now w1) (accounts path w1 ! i) w1),
       snd (acc_check (int i) (now w1) (accounts path w1 ! i) w1), w2)" "quiet {} w1 w2"
    by blast
  have "acc_check (int i) (now w1) (acc_stamp a (now w) w) w1 = (acc_state a (now w1), acc_stamp a (now w) w)"
    using acc_check_stamp[OF assms(3), of "now w1" "now w" w]
      acc_check_quiet[of w1 w "int i" "now w1"] quiet_simps(3)[OF w1(4)] by simp
  with w1 w2 i1 acc_ready_quiet(2)[OF w2(2), of path] show ?thesis by auto
qed

lemma acci_get_after_put_witness:
  "\<exists>w1 w2. acci_put \<lparr>ab_fd = 3, ab_fasync = 0\<rparr> 1 (demo_acc 1 d_mebi) demo_bee =
      (SUCCESS, acc_stamp (demo_acc 1 d_mebi) 1000 demo_bee, w1) \<and>
    acci_get \<lparr>ab_fd = 3, ab_fasync = 0\<rparr> 1 (demo_acc 0 0) w1 =
      (SUCCESS, acc_stamp (demo_acc 1 d_mebi) 1000 demo_bee, w2)"
proof -
  have "\<not> dlt d_mebi d_cent"
    by (simp add: d_mebi_def d_cent_def dlt_def fdecode_def fixpt_def Let_def)
  then have st: "acc_state (demo_acc 1 d_mebi) t = SUCCESS" for t
    by (simp add: acc_state_def demo_acc_def decode_acc_def)
  have "now demo_bee = 1000" by (simp add: now_def demo_bee_def)
  with acci_get_after_put[OF demo_bee_ready(1), of 1 "demo_acc 1 d_mebi" "demo_acc 0 0"] st
  show ?thesis by (auto simp: demo_bee_accounts demo_acc_def)
qed

lemma acc_add_nf:
  assumes r: "acc_ready base path w" and l: "fd_lock w (ab_fd base) = LOCK_UN"
    and n: "int (length (accounts path w)) < 2 ^ 31"
  defines "no \<equiv> length (accounts path w)"
  shows "\<exists>a' w'. acc_add base a w = (int no, a', w') \<and> acc_ready base path w' \<and>
     accounts path w' = accounts path w @ [a'] \<and> quiet {path} w w' \<and> ticks w' = ticks w + 1 \<and>
     acc_sound (int no) a' w \<and> a_upd_time a' = word_of_int (now w) \<and>
     (\<exists>c. a' = a\<lparr>a_accno := word_of_int (int no), a_upd_time := word_of_int (now w), a_crc := c\<rparr>)"
proof -
  define w1 where "w1 = (if ab_fasync base = 0 then relock (ab_fd base) LOCK_EX w else w)"
  have nf: "no_faults w" and op: "fdt w (ab_fd base) \<noteq> None"
    using file_ready_nf[OF r[unfolded acc_ready_def]] by blast+
  have r1: "acc_ready base path w1" "accounts path w1 = accounts path w" "now w1 = now w"
    "zcrc32 w1 = zcrc32 w" "ticks w1 = ticks w"
    using r by (simp_all add: w1_def now_def)
  have fr: "file_ready (ab_fd base) path 128 w1" using r1(1) by (simp add: acc_ready_def)
  obtain bs where bs: "files w1 path = Some bs" "file_recs path 128 w1 = records 128 bs"
    using fr by (rule file_ready_data)
  have "db_reccount (ab_fd base) 128 w1 = (int (length bs) div 128, w1)"
    using fr bs by (auto simp: file_ready_def intro: db_reccount_nf[where ro = False and path = path])
  moreover have "int (length bs) div 128 = int no"
    using bs r1(2) by (metis length_accounts length_records no_def of_nat_numeral zdiv_int)
  moreover have "in_i32 (int no)" using n by (simp add: in_i32_def no_def)
  ultimately have cnt: "acc_reccount base w1 = (int no, w1)"
    by (simp add: acc_reccount_def i32_id)
  define b where "b = a\<lparr>a_accno := word_of_int (int no), a_upd_time := word_of_int (now w)\<rparr>"
  define a' where "a' = b\<lparr>a_crc := acc_crc b w\<rparr>"
  have crc: "acc_crc b (tick w1) = acc_crc b w" by (rule acc_crc_quiet) (simp add: r1)
  from db_add_nf[of "ab_fd base" path 128 "tick w1" "encode_acc a'"] fr obtain w2 where w2:
    "db_add (ab_fd base) (encode_acc a') 128 (tick w1) = (int no, w2)"
    "file_ready (ab_fd base) path 128 w2" "file_recs path 128 w2 = file_recs path 128 w1 @ [encode_acc a']"
    using length_accounts[of path w1] r1(2) by (auto simp: no_def)
  have "fd_paths (tick w1) (ab_fd base) \<subseteq> {path}" using file_ready_open[OF fr] by simp
  from quiet_add[OF w2(1) this] have q2: "quiet {path} w1 w2" "ticks w2 = ticks w + 1"
    using r1 by (auto intro: quiet_trans[OF quiet_tick])
  have op2: "fdt w2 (ab_fd base) \<noteq> None" and nf2: "no_faults w2"
    using w2(2) file_ready_open[OF w2(2)] by (auto simp: file_ready_def)
  define w3 where "w3 = (if ab_fasync base = 0 then relock (ab_fd base) LOCK_UN w2 else w2)"
  have no: "\<not> int no < 0" "i32 (int no) = int no" "int no \<noteq> IO_ERROR"
    using \<open>in_i32 (int no)\<close> by (simp_all add: i32_id)
  have ex: "db_exlock (ab_fd base) w = (0, relock (ab_fd base) LOCK_EX w)"
    using flock_nf[OF nf op] by (simp add: db_exlock_def)
  have sy: "db_sync (ab_fd base) w2 = (0, w2)" using fsync_nf[OF nf2 op2] by (simp add: db_sync_def)
  have un: "db_unlock (ab_fd base) w2 = (0, relock (ab_fd base) LOCK_UN w2)"
    using unlock_nf[OF op2] by (simp add: db_unlock_def)
  have body: "acc_add_locked base a w1 = (if ab_fasync base = 0 then 0 else int no, int no, a', w2)"
    unfolding acc_add_locked_def cnt prod.case Let_def sys_time_now r1(3) b_def[symmetric] crc
      a'_def[symmetric] w2(1) sy
    using no by simp
  have "acc_add base a w = (int no, a', w3)"
    using no body ex un by (simp add: acc_add_def w1_def w3_def Let_def split: if_splits)
  moreover have "acc_ready base path w3" "accounts path w3 = accounts path w @ [a']"
    using w2 r1(2) by (simp_all add: w3_def acc_ready_def accounts_def file_ready_relock)
  moreover have "quiet {path} w w3"
  proof (cases "ab_fasync base = 0")
    case True
    with q2(1) l quiet_bracket[of "{path}" "ab_fd base" LOCK_EX w w2] show ?thesis
      by (simp add: w1_def w3_def)
  next
    case False
    with q2(1) show ?thesis by (simp add: w1_def w3_def)
  qed
  moreover have "acc_sound (int no) a' w"
    using \<open>in_i32 (int no)\<close> sint_word_of_int_32[of "int no"] by (simp add: acc_sound_def a'_def b_def)
  moreover have "\<exists>c. a' = a\<lparr>a_accno := word_of_int (int no), a_upd_time := word_of_int (now w), a_crc := c\<rparr>"
    by (auto simp: a'_def b_def)
  ultimately show ?thesis using q2(2) by (auto simp: w3_def a'_def b_def)
qed

text \<open>
  On a machine without faults, \<open>acc_add\<close> appends one record with the number of accounts so
  far as its own number and a right checksum, returns that number, keeps every other account
  and the locks, and \<open>acci_get\<close> then finds the new account in the state its fields describe.
\<close>

lemma acc_add_numbers:
  assumes r: "acc_ready base path w" and l: "fd_lock w (ab_fd base) = LOCK_UN"
    and n: "int (length (accounts path w)) < 2 ^ 31"
  shows "\<exists>a' w1 w2. acc_add base a w = (int (length (accounts path w)), a', w1) \<and>
     accounts path w1 = accounts path w @ [a'] \<and> quiet {path} w w1 \<and>
     sint (a_accno a') = int (length (accounts path w)) \<and>
     a_balance a' = a_balance a \<and> a_tag a' = a_tag a \<and>
     acci_get base (int (length (accounts path w))) buf w1 = (acc_state a' (now w1), a', w2)"
proof -
  let ?n = "length (accounts path w)"
  from acc_add_nf[OF assms, of a] obtain a' w1 c where w1: "acc_add base a w = (int ?n, a', w1)"
    "acc_ready base path w1" "accounts path w1 = accounts path w @ [a']" "quiet {path} w w1"
    "acc_sound (int ?n) a' w" "a' = a\<lparr>a_accno := word_of_int (int ?n), a_upd_time := word_of_int (now w), a_crc := c\<rparr>"
    by blast
  have i: "?n < length (accounts path w1)" "accounts path w1 ! ?n = a'" using w1(3) by simp_all
  have "acc_sound (int ?n) a' w1"
    using w1(5) acc_sound_quiet[OF quiet_simps(3)[OF w1(4)]] by simp
  then have "acc_check (int ?n) (now w1) a' w1 = (acc_state a' (now w1), a')" by (rule acc_check_sound)
  with acci_get_nf[OF w1(2) i(1), of buf] i(2) obtain w2 where
    "acci_get base (int ?n) buf w1 = (acc_state a' (now w1), a', w2)" by auto
  moreover have "sint (a_accno a') = int ?n" using w1(5) by (simp add: acc_sound_def)
  moreover have "a_balance a' = a_balance a" "a_tag a' = a_tag a" using w1(6) by simp_all
  ultimately show ?thesis using w1(1,3,4) by blast
qed

lemma acc_add_numbers_witness:
  "\<exists>a' w1. acc_add \<lparr>ab_fd = 3, ab_fasync = 0\<rparr> (demo_acc 77 d_mebi) demo_bee = (2, a', w1) \<and>
     accounts ''acc'' w1 = [demo_acc 0 d_mebi, demo_acc 1 0, a'] \<and> sint (a_accno a') = 2"
proof -
  have "fd_lock demo_bee 3 = LOCK_UN" by (simp add: fd_lock_def demo_bee_def)
  with acc_add_numbers[OF demo_bee_ready(1), of "demo_acc 77 d_mebi" "demo_acc 0 0"]
  show ?thesis by (auto simp: demo_bee_accounts)
qed

text \<open>
  Whatever system calls fail, the functions that take the lock themselves release it on every
  path and touch nothing but their own file: afterwards every descriptor is open on the same
  file with the same lock as before.
\<close>

lemma acc_locks_released:
  assumes "fd_lock w (ab_fd base) = LOCK_UN" "sq_fd (sqr w) \<noteq> ab_fd base"
  shows "quiet {} w (snd (snd (acc_get base rec a w))) \<and>
    quiet (fd_paths w (ab_fd base)) w (snd (snd (acc_put base rec a w))) \<and>
    quiet (fd_paths w (ab_fd base)) w (snd (snd (acc_add base a w)))"
  using quiet_acc_get[of base rec a w _ _ _ "{}"] quiet_acc_put[of base rec a w _ _ _ "fd_paths w (ab_fd base)"]
    quiet_acc_add[of base a w _ _ _ "fd_paths w (ab_fd base)"] assms
  by (metis order_refl prod.collapse)

lemma acc_locks_released_witness:
  "fd_lock (snd (snd (acc_put \<lparr>ab_fd = 3, ab_fasync = 0\<rparr> 1 (demo_acc 1 0)
     (demo_bee\<lparr>script := [Done, Done, Done, Fail]\<rparr>)))) 3 = LOCK_UN"
proof -
  let ?w = "demo_bee\<lparr>script := [Done, Done, Done, Fail]\<rparr>" and ?b = "\<lparr>ab_fd = 3, ab_fasync = 0\<rparr>"
  have u: "fd_lock ?w (ab_fd ?b) = LOCK_UN" "sq_fd (sqr ?w) \<noteq> ab_fd ?b"
    by (simp_all add: fd_lock_def demo_bee_def sqr_none_def)
  from acc_locks_released[OF this, of 1 "demo_acc 1 0"] have
    "quiet (fd_paths ?w 3) ?w (snd (snd (acc_put ?b 1 (demo_acc 1 0) ?w)))" by simp
  from quiet_lock[OF this, of 3] u(1) show ?thesis by simp
qed

end
