(* ===== verification/Strings.thy ===== *)
theory Strings
  imports Unix
begin

text \<open>
  Strings and numbers of the support library: \<open>beelib.c\<close> (tokens and trimming), \<open>misc.c\<close>
  (conversions with error codes, case folding in KOI8-R, calendar checks, fields of a
  configuration file, runs of symbols) and \<open>recode.c\<close> (the windows-1251 and KOI8-R tables) under
  \<open>src/src/bee/lib/bee\<close>.  A \<open>char *\<close> is a \<open>string\<close> without its terminating zero, \<open>None\<close> when it is
  \<open>NULL\<close>; a function that cuts a string in place returns what the pointer holds afterwards.
\<close>

section \<open>Tokens and trimming\<close>

text \<open>\<open>next_token(&ptr, delim)\<close>: the token and the new \<open>ptr\<close>.\<close>

function next_token :: "string option \<Rightarrow> string \<Rightarrow> string option \<times> string option" where
  "next_token None delim = (None, None)"
| "next_token (Some p) delim = (case strsep p delim of (str, p') \<Rightarrow>
     if str \<noteq> [] then (Some str, p') else next_token p' delim)"
  by pat_completeness auto
termination
  by (relation "measure (\<lambda>(p, _). case p of None \<Rightarrow> 0 | Some s \<Rightarrow> Suc (length s))")
     (auto split: option.splits dest!: strsep_length[OF sym])

text \<open>The two loops of \<open>strtrim\<close>: blanks in front are skipped, blanks at the end cut off.\<close>

fun strtrim_front :: "string \<Rightarrow> string \<Rightarrow> string" where
  "strtrim_front [] delim = []"
| "strtrim_front (c # str) delim = (if c \<in> set delim then strtrim_front str delim else c # str)"

fun strtrim_back :: "string \<Rightarrow> string \<Rightarrow> nat \<Rightarrow> string" where
  "strtrim_back str delim 0 = str"
| "strtrim_back str delim (Suc p) =
     (if str ! Suc p \<in> set delim then strtrim_back (take (Suc p) str) delim p else str)"

definition strtrim :: "string option \<Rightarrow> string \<Rightarrow> string option" where
  "strtrim ptr delim = (case ptr of
      None \<Rightarrow> None
    | Some s \<Rightarrow> (let str = strtrim_front s delim in Some (strtrim_back str delim (length str - 1))))"

section \<open>Copies and conversions\<close>

definition strnalloc :: "string option \<Rightarrow> nat \<Rightarrow> 'a os_scheme \<Rightarrow> string option \<times> 'a os_scheme" where
  "strnalloc str len w = (case str of
      None \<Rightarrow> (None, w)
    | Some s \<Rightarrow> (case sys_alloc w of (mem, w) \<Rightarrow>
        (if mem then Some (take (if len = 0 then length s else len) s) else None, w)))"

definition strrealloc ::
    "string option option \<Rightarrow> string \<Rightarrow> 'a os_scheme \<Rightarrow> int \<times> string option option \<times> 'a os_scheme" where
  "strrealloc dst src w = (case dst of
      None \<Rightarrow> (- 1, dst, w)
    | Some old \<Rightarrow> (case sys_alloc w of (mem, w) \<Rightarrow>
        if mem then (0, Some (Some src), w) else (- 1, dst, w)))"

text \<open>Whether a conversion set \<open>errno\<close> to \<open>ERANGE\<close>.\<close>

definition erange :: "int \<Rightarrow> int \<Rightarrow> string \<Rightarrow> nat \<Rightarrow> bool" where
  "erange lo hi s base = (case scan_int base s of
      None \<Rightarrow> False
    | Some (neg, n, e) \<Rightarrow> (if neg then - int n < lo else hi < int n))"

definition scan_end :: "string \<Rightarrow> nat \<Rightarrow> string" where
  "scan_end s base = (case scan_int base s of None \<Rightarrow> s | Some (neg, n, e) \<Rightarrow> e)"

definition str2long :: "string \<Rightarrow> nat \<Rightarrow> int \<times> int" where
  "str2long str base = (case strtol str base of (val, ep) \<Rightarrow>
     if str = [] \<or> ep \<noteq> [] then (- 1, val)
     else if erange (- (2 ^ 31)) (2 ^ 31 - 1) str base \<and> (val = 2 ^ 31 - 1 \<or> val = - (2 ^ 31))
     then (- 2, val)
     else (0, val))"

definition str2ulong :: "string \<Rightarrow> nat \<Rightarrow> int \<times> u32" where
  "str2ulong str base = (let val = strtoul str base in
     if str = [] \<or> scan_end str base \<noteq> [] then (- 1, val)
     else if erange (- (2 ^ 32 - 1)) (2 ^ 32 - 1) str base \<and> val = - 1 then (- 2, val)
     else (0, val))"

definition strtoull :: "string \<Rightarrow> nat \<Rightarrow> u64" where
  "strtoull s base = (case scan_int base s of
      None \<Rightarrow> 0
    | Some (neg, n, e) \<Rightarrow>
        if n > 2 ^ 64 - 1 then - 1
        else if neg then - word_of_nat n else word_of_nat n)"

text \<open>\<open>str264\<close> does not reset \<open>errno\<close>: what it was before the call is an argument.\<close>

definition str264 :: "bool \<Rightarrow> string \<Rightarrow> nat \<Rightarrow> int \<times> u64" where
  "str264 errno_range str base = (let val = strtoull str base in
     if str = [] \<or> scan_end str base \<noteq> [] then (- 1, val)
     else if (errno_range \<or> erange (- (2 ^ 64 - 1)) (2 ^ 64 - 1) str base) \<and> (val = - 1 \<or> val = 0)
     then (- 2, val)
     else (0, val))"

section \<open>Blanks and case\<close>

text \<open>The loop of \<open>rtrim\<close>, from index \<open>i\<close> down: the value of \<open>i\<close> after it.\<close>

fun rtrim_loop :: "string \<Rightarrow> nat \<Rightarrow> int" where
  "rtrim_loop str 0 = - 1"
| "rtrim_loop str (Suc i) = (if isspace (str ! i) then rtrim_loop str i else int i - 1)"

definition rtrim :: "string \<Rightarrow> string" where
  "rtrim str = (if 1 < length str then take (nat (rtrim_loop str (length str) + 2)) str else str)"

fun ltrim :: "string \<Rightarrow> string" where
  "ltrim [] = []"
| "ltrim (c # str) = (if isspace c then ltrim str else c # str)"

definition koi8_2low :: "nat list" where
  "koi8_2low = [0x00, 0x01, 0x02, 0x03, 0x04, 0x05, 0x06, 0x07, 0x08, 0x09, 0x0A, 0x0B, 0x0C, 0x0D, 0x0E, 0x0F,
    0x10, 0x11, 0x12, 0x13, 0x14, 0x15, 0x16, 0x17, 0x18, 0x19, 0x1A, 0x1B, 0x1C, 0x1D, 0x1E, 0x1F,
    0x20, 0x21, 0x22, 0x23, 0x24, 0x25, 0x26, 0x27, 0x28, 0x29, 0x2A, 0x2B, 0x2C, 0x2D, 0x2E, 0x2F,
    0x30, 0x31, 0x32, 0x33, 0x34, 0x35, 0x36, 0x37, 0x38, 0x39, 0x3A, 0x3B, 0x3C, 0x3D, 0x3E, 0x3F,
    0x40, 0x61, 0x62, 0x63, 0x64, 0x65, 0x66, 0x67, 0x68, 0x69, 0x6A, 0x6B, 0x6C, 0x6D, 0x6E, 0x6F,
    0x70, 0x71, 0x72, 0x73, 0x74, 0x75, 0x76, 0x77, 0x78, 0x79, 0x7A, 0x5B, 0x5C, 0x5D, 0x5E, 0x5F,
    0x60, 0x61, 0x62, 0x63, 0x64, 0x65, 0x66, 0x67, 0x68, 0x69, 0x6A, 0x6B, 0x6C, 0x6D, 0x6E, 0x6F,
    0x70, 0x71, 0x72, 0x73, 0x74, 0x75, 0x76, 0x77, 0x78, 0x79, 0x7A, 0x7B, 0x7C, 0x7D, 0x7E, 0x7F,
    0x80, 0x81, 0x82, 0x83, 0x84, 0x85, 0x86, 0x87, 0x88, 0x89, 0x8A, 0x8B, 0x8C, 0x8D, 0x8E, 0x8F,
    0x90, 0x91, 0x92, 0x93, 0x94, 0x95, 0x96, 0x97, 0x98, 0x99, 0x9A, 0x9B, 0x9C, 0x9D, 0x9E, 0x9F,
    0xA0, 0xA1, 0xA2, 0xA3, 0xA4, 0xA5, 0xA6, 0xA7, 0xA8, 0xA9, 0xAA, 0xAB, 0xAC, 0xAD, 0xAE, 0xAF,
    0xB0, 0xB1, 0xB2, 0xA3, 0xB4, 0xB5, 0xB6, 0xB7, 0xB8, 0xB9, 0xBA, 0xBB, 0xBC, 0xBD, 0xBE, 0xBF,
    0xC0, 0xC1, 0xC2, 0xC3, 0xC4, 0xC5, 0xC6, 0xC7, 0xC8, 0xC9, 0xCA, 0xCB, 0xCC, 0xCD, 0xCE, 0xCF,
    0xD0, 0xD1, 0xD2, 0xD3, 0xD4, 0xD5, 0xD6, 0xD7, 0xD8, 0xD9, 0xDA, 0xDB, 0xDC, 0xDD, 0xDE, 0xDF,
    0xC0, 0xC1, 0xC2, 0xC3, 0xC4, 0xC5, 0xC6, 0xC7, 0xC8, 0xC9, 0xCA, 0xCB, 0xCC, 0xCD, 0xCE, 0xCF,
    0xD0, 0xD1, 0xD2, 0xD3, 0xD4, 0xD5, 0xD6, 0xD7, 0xD8, 0xD9, 0xDA, 0xDB, 0xDC, 0xDD, 0xDE, 0xDF]"

definition koi8_2up :: "nat list" where
  "koi8_2up = [0x00, 0x01, 0x02, 0x03, 0x04, 0x05, 0x06, 0x07, 0x08, 0x09, 0x0A, 0x0B, 0x0C, 0x0D, 0x0E, 0x0F,
    0x10, 0x11, 0x12, 0x13, 0x14, 0x15, 0x16, 0x17, 0x18, 0x19, 0x1A, 0x1B, 0x1C, 0x1D, 0x1E, 0x1F,
    0x20, 0x21, 0x22, 0x23, 0x24, 0x25, 0x26, 0x27, 0x28, 0x29, 0x2A, 0x2B, 0x2C, 0x2D, 0x2E, 0x2F,
    0x30, 0x31, 0x32, 0x33, 0x34, 0x35, 0x36, 0x37, 0x38, 0x39, 0x3A, 0x3B, 0x3C, 0x3D, 0x3E, 0x3F,
    0x40, 0x41, 0x42, 0x43, 0x44, 0x45, 0x46, 0x47, 0x48, 0x49, 0x4A, 0x4B, 0x4C, 0x4D, 0x4E, 0x4F,
    0x50, 0x51, 0x52, 0x53, 0x54, 0x55, 0x56, 0x57, 0x58, 0x59, 0x5A, 0x5B, 0x5C, 0x5D, 0x5E, 0x5F,
    0x60, 0x41, 0x42, 0x43, 0x44, 0x45, 0x46, 0x47, 0x48, 0x49, 0x4A, 0x4B, 0x4C, 0x4D, 0x4E, 0x4F,
    0x50, 0x51, 0x52, 0x53, 0x54, 0x55, 0x56, 0x57, 0x58, 0x59, 0x5A, 0x7B, 0x7C, 0x7D, 0x7E, 0x7F,
    0x80, 0x81, 0x82, 0x83, 0x84, 0x85, 0x86, 0x87, 0x88, 0x89, 0x8A, 0x8B, 0x8C, 0x8D, 0x8E, 0x8F,
    0x90, 0x91, 0x92, 0x93, 0x94, 0x95, 0x96, 0x97, 0x98, 0x99, 0x9A, 0x9B, 0x9C, 0x9D, 0x9E, 0x9F,
    0xA0, 0xA1, 0xA2, 0xB3, 0xA4, 0xA5, 0xA6, 0xA7, 0xA8, 0xA9, 0xAA, 0xAB, 0xAC, 0xAD, 0xAE, 0xAF,
    0xB0, 0xB1, 0xB2, 0xB3, 0xB4, 0xB5, 0xB6, 0xB7, 0xB8, 0xB9, 0xBA, 0xBB, 0xBC, 0xBD, 0xBE, 0xBF,
    0xE0, 0xE1, 0xE2, 0xE3, 0xE4, 0xE5, 0xE6, 0xE7, 0xE8, 0xE9, 0xEA, 0xEB, 0xEC, 0xED, 0xEE, 0xEF,
    0xF0, 0xF1, 0xF2, 0xF3, 0xF4, 0xF5, 0xF6, 0xF7, 0xF8, 0xF9, 0xFA, 0xFB, 0xFC, 0xFD, 0xFE, 0xFF,
    0xE0, 0xE1, 0xE2, 0xE3, 0xE4, 0xE5, 0xE6, 0xE7, 0xE8, 0xE9, 0xEA, 0xEB, 0xEC, 0xED, 0xEE, 0xEF,
    0xF0, 0xF1, 0xF2, 0xF3, 0xF4, 0xF5, 0xF6, 0xF7, 0xF8, 0xF9, 0xFA, 0xFB, 0xFC, 0xFD, 0xFE, 0xFF]"

definition recode_char :: "nat list \<Rightarrow> char \<Rightarrow> char" where
  "recode_char table c = char_of (table ! of_char c)"

definition strupper :: "string option \<Rightarrow> string option" where
  "strupper str = map_option (map (recode_char koi8_2up)) str"

definition strlower :: "string option \<Rightarrow> string option" where
  "strlower str = map_option (map (recode_char koi8_2low)) str"

fun string_index :: "string list \<Rightarrow> string \<Rightarrow> int \<Rightarrow> int" where
  "string_index [] str i = - 1"
| "string_index (t # table) str i = (if t = str then i else string_index table str (i + 1))"

definition get_string_index :: "string list \<Rightarrow> string \<Rightarrow> int" where
  "get_string_index table str = string_index table str 0"

section \<open>Dates and times\<close>

definition ISLEAP :: "int \<Rightarrow> bool" where
  "ISLEAP y \<longleftrightarrow> y AND 3 = 0 \<and> (y smod 100 \<noteq> 0 \<or> y smod 400 = 0)"

definition check_ymd :: "int \<Rightarrow> int \<Rightarrow> int \<Rightarrow> bool" where
  "check_ymd y m d =
     (let dpm = [31, 28, 31, 30, 31, 30, 31, 31, 30, 31, 30, 31]
      in if y < 1583 \<or> m < 1 \<or> m > 12 \<or> d < 1 then False
         else (let dpm = (if ISLEAP y then dpm[1 := 29] else dpm)
               in \<not> d > dpm ! nat (m - 1)))"

definition check_hms :: "int \<Rightarrow> int \<Rightarrow> int \<Rightarrow> bool" where
  "check_hms h m s \<longleftrightarrow> h \<ge> 0 \<and> h < 23 \<and> m \<ge> 0 \<and> m < 60 \<and> s \<ge> 0 \<and> s < 60"

section \<open>Fields of a file, runs of symbols\<close>

text \<open>\<open>fgets(buf, n, fp)\<close>: up to \<open>n - 1\<close> characters, through the end of the line; the rest.\<close>

fun fgets :: "nat \<Rightarrow> string \<Rightarrow> string \<times> string" where
  "fgets 0 s = ([], s)"
| "fgets (Suc 0) s = ([], s)"
| "fgets n [] = ([], [])"
| "fgets (Suc n) (c # s) =
     (if c = CHR 0x0A then ([c], s) else (case fgets n s of (l, r) \<Rightarrow> (c # l, r)))"

lemma fgets_le: "length (snd (fgets n s)) \<le> length s"
  by (induction n s rule: fgets.induct) (auto split: prod.splits)

lemma fgets_length: "1 < n \<Longrightarrow> s \<noteq> [] \<Longrightarrow> length (snd (fgets n s)) < length s"
  using fgets_le by (cases "(n, s)" rule: fgets.cases) (auto split: prod.splits simp: less_Suc_eq_le, metis snd_conv)

text \<open>A C string ends at the first zero character.\<close>

definition c_str :: "string \<Rightarrow> string" where
  "c_str s = takeWhile (\<lambda>c. c \<noteq> CHR 0x00) s"

text \<open>The tokens after the first one up to field \<open>field_no\<close> (at least one is read).\<close>

fun field_loop :: "nat \<Rightarrow> string option \<Rightarrow> string option" where
  "field_loop 0 p = fst (next_token p [CHR 0x09, CHR '' ''])"
| "field_loop (Suc n) p = (case next_token p [CHR 0x09, CHR '' ''] of
      (None, p) \<Rightarrow> None
    | (Some t, p) \<Rightarrow> field_loop n p)"

definition line_field :: "string \<Rightarrow> string \<Rightarrow> int \<Rightarrow> string option" where
  "line_field match buf field_no =
     (let buf = c_str buf in
      if CHR 0x0A \<notin> set buf then None
      else (let line = takeWhile (\<lambda>c. c \<noteq> CHR 0x0A) buf;
                line = takeWhile (\<lambda>c. c \<noteq> CHR ''#'') line
            in (case next_token (Some line) [CHR 0x09, CHR '' ''] of
                  (None, p) \<Rightarrow> None
                | (Some fmatch, p) \<Rightarrow>
                    if match \<noteq> fmatch then None else field_loop (nat (field_no - 2)) p)))"

function field_lines :: "string \<Rightarrow> string \<Rightarrow> int \<Rightarrow> string option" where
  "field_lines match content field_no =
     (if content = [] then None
      else (case fgets 1024 content of (buf, rest) \<Rightarrow>
        (case line_field match buf field_no of
            Some f \<Rightarrow> Some f
          | None \<Rightarrow> field_lines match rest field_no)))"
  by pat_completeness auto
termination
  by (relation "measure (\<lambda>(_, c, _). length c)")
     (auto dest!: arg_cong[where f = snd], metis fgets_length one_less_numeral_iff semiring_norm(76) snd_conv)

declare field_lines.simps [simp del]

text \<open>\<open>find_field\<close>: the file opened (\<open>Inl\<close> the \<open>errno\<close> of \<open>fopen\<close>), the result code and the field.\<close>

definition find_field :: "string \<Rightarrow> int + string \<Rightarrow> int \<Rightarrow> int \<times> string option" where
  "find_field match file field_no = (case file of
      Inl errno \<Rightarrow> (errno, None)
    | Inr content \<Rightarrow> (case field_lines match content field_no of
        None \<Rightarrow> (- 1, None)
      | Some f \<Rightarrow> (0, Some f)))"

text \<open>The loop of \<open>find_chain\<close>: first and last index of the run found so far.\<close>

fun chain_loop :: "(char \<Rightarrow> bool) \<Rightarrow> char list \<Rightarrow> nat \<Rightarrow> (nat \<times> nat) option \<Rightarrow> (nat \<times> nat) option" where
  "chain_loop f [] i run = run"
| "chain_loop f (c # cs) i run =
     (if f c then chain_loop f cs (i + 1) (Some (case run of None \<Rightarrow> (i, i) | Some (s, e) \<Rightarrow> (s, i)))
      else if run \<noteq> None then run
      else chain_loop f cs (i + 1) None)"

definition find_chain :: "string option \<Rightarrow> int \<Rightarrow> (char \<Rightarrow> bool) \<Rightarrow> int \<times> (nat \<times> nat) option" where
  "find_chain start len f = (case start of
      None \<Rightarrow> (- 1, None)
    | Some str \<Rightarrow>
        (let n = (if len = - 1 then length str else nat len)
         in (case chain_loop f (take (n + 1) (str @ [CHR 0x00])) 0 None of
               None \<Rightarrow> (- 1, None)
             | Some (s, e) \<Rightarrow> (0, Some (s, e + 1)))))"

section \<open>Recoding\<close>

definition win2koi8 :: "nat list" where
  "win2koi8 = [0x00, 0x01, 0x02, 0x03, 0x04, 0x05, 0x06, 0x07, 0x08, 0x09, 0x0A, 0x0B, 0x0C, 0x0D, 0x0E, 0x0F,
    0x10, 0x11, 0x12, 0x13, 0x14, 0x15, 0x16, 0x17, 0x18, 0x19, 0x1A, 0x1B, 0x1C, 0x1D, 0x1E, 0x1F,
    0x20, 0x21, 0x22, 0x23, 0x24, 0x25, 0x26, 0x27, 0x28, 0x29, 0x2A, 0x2B, 0x2C, 0x2D, 0x2E, 0x2F,
    0x30, 0x31, 0x32, 0x33, 0x34, 0x35, 0x36, 0x37, 0x38, 0x39, 0x3A, 0x3B, 0x3C, 0x3D, 0x3E, 0x3F,
    0x40, 0x41, 0x42, 0x43, 0x44, 0x45, 0x46, 0x47, 0x48, 0x49, 0x4A, 0x4B, 0x4C, 0x4D, 0x4E, 0x4F,
    0x50, 0x51, 0x52, 0x53, 0x54, 0x55, 0x56, 0x57, 0x58, 0x59, 0x5A, 0x5B, 0x5C, 0x5D, 0x5E, 0x5F,
    0x60, 0x61, 0x62, 0x63, 0x64, 0x65, 0x66, 0x67, 0x68, 0x69, 0x6A, 0x6B, 0x6C, 0x6D, 0x6E, 0x6F,
    0x70, 0x71, 0x72, 0x73, 0x74, 0x75, 0x76, 0x77, 0x78, 0x79, 0x7A, 0x7B, 0x7C, 0x7D, 0x7E, 0x7F,
    0x80, 0x81, 0x82, 0x83, 0x84, 0x85, 0x86, 0x87, 0x88, 0x89, 0x8A, 0x8B, 0x8C, 0x8D, 0x8E, 0x8F,
    0x90, 0x91, 0x92, 0x93, 0x94, 0x95, 0x96, 0x97, 0x98, 0x99, 0x9A, 0x9B, 0x9C, 0x9D, 0x9E, 0x9F,
    0xA0, 0xA1, 0xA2, 0xA3, 0xA4, 0xA5, 0xA6, 0xA7, 0xB3, 0xA9, 0xAA, 0xAB, 0xAC, 0xAD, 0xAE, 0xAF,
    0xB0, 0xB1, 0xB2, 0xB3, 0xB4, 0xB5, 0xB6, 0xB7, 0xA3, 0xB9, 0xBA, 0xBB, 0xBC, 0xBD, 0xBE, 0xBF,
    0xE1, 0xE2, 0xF7, 0xE7, 0xE4, 0xE5, 0xF6, 0xFA, 0xE9, 0xEA, 0xEB, 0xEC, 0xED, 0xEE, 0xEF, 0xF0,
    0xF2, 0xF3, 0xF4, 0xF5, 0xE6, 0xE8, 0xE3, 0xFE, 0xFB, 0xFD, 0xFF, 0xF9, 0xF8, 0xFC, 0xE0, 0xF1,
    0xC1, 0xC2, 0xD7, 0xC7, 0xC4, 0xC5, 0xD6, 0xDA, 0xC9, 0xCA, 0xCB, 0xCC, 0xCD, 0xCE, 0xCF, 0xD0,
    0xD2, 0xD3, 0xD4, 0xD5, 0xC6, 0xC8, 0xC3, 0xDE, 0xDB, 0xDD, 0xDF, 0xD9, 0xD8, 0xDC, 0xC0, 0xD1]"

definition koi82win :: "nat list" where
  "koi82win = [0x00, 0x01, 0x02, 0x03, 0x04, 0x05, 0x06, 0x07, 0x08, 0x09, 0x0A, 0x0B, 0x0C, 0x0D, 0x0E, 0x0F,
    0x10, 0x11, 0x12, 0x13, 0x14, 0x15, 0x16, 0x17, 0x18, 0x19, 0x1A, 0x1B, 0x1C, 0x1D, 0x1E, 0x1F,
    0x20, 0x21, 0x22, 0x23, 0x24, 0x25, 0x26, 0x27, 0x28, 0x29, 0x2A, 0x2B, 0x2C, 0x2D, 0x2E, 0x2F,
    0x30, 0x31, 0x32, 0x33, 0x34, 0x35, 0x36, 0x37, 0x38, 0x39, 0x3A, 0x3B, 0x3C, 0x3D, 0x3E, 0x3F,
    0x40, 0x41, 0x42, 0x43, 0x44, 0x45, 0x46, 0x47, 0x48, 0x49, 0x4A, 0x4B, 0x4C, 0x4D, 0x4E, 0x4F,
    0x50, 0x51, 0x52, 0x53, 0x54, 0x55, 0x56, 0x57, 0x58, 0x59, 0x5A, 0x5B, 0x5C, 0x5D, 0x5E, 0x5F,
    0x60, 0x61, 0x62, 0x63, 0x64, 0x65, 0x66, 0x67, 0x68, 0x69, 0x6A, 0x6B, 0x6C, 0x6D, 0x6E, 0x6F,
    0x70, 0x71, 0x72, 0x73, 0x74, 0x75, 0x76, 0x77, 0x78, 0x79, 0x7A, 0x7B, 0x7C, 0x7D, 0x7E, 0x7F,
    0x80, 0x81, 0x82, 0x83, 0x84, 0x85, 0x86, 0x87, 0x88, 0x89, 0x8A, 0x8B, 0x8C, 0x8D, 0x8E, 0x8F,
    0x90, 0x91, 0x92, 0x93, 0x94, 0x95, 0x96, 0x97, 0x98, 0x99, 0x9A, 0x9B, 0x9C, 0x9D, 0x9E, 0x9F,
    0xA0, 0xA1, 0xA2, 0xB8, 0xA4, 0xA5, 0xA6, 0xA7, 0xA8, 0xA9, 0xAA, 0xAB, 0xAC, 0xAD, 0xAE, 0xAF,
    0xB0, 0xB1, 0xB2, 0xA8, 0xB4, 0xB5, 0xB6, 0xB7, 0xB8, 0xB9, 0xBA, 0xBB, 0xBC, 0xBD, 0xBE, 0xBF,
    0xFE, 0xE0, 0xE1, 0xF6, 0xE4, 0xE5, 0xF4, 0xE3, 0xF5, 0xE8, 0xE9, 0xEA, 0xEB, 0xEC, 0xED, 0xEE,
    0xEF, 0xFF, 0xF0, 0xF1, 0xF2, 0xF3, 0xE6, 0xE2, 0xFC, 0xFB, 0xE7, 0xF8, 0xFD, 0xF9, 0xF7, 0xFA,
    0xDE, 0xC0, 0xC1, 0xD6, 0xC4, 0xC5, 0xD4, 0xC3, 0xD5, 0xC8, 0xC9, 0xCA, 0xCB, 0xCC, 0xCD, 0xCE,
    0xCF, 0xDF, 0xD0, 0xD1, 0xD2, 0xD3, 0xC6, 0xC2, 0xDC, 0xDB, 0xC7, 0xD8, 0xDD, 0xD9, 0xD7, 0xDA]"

definition recode_tables :: "nat list list" where
  "recode_tables = [win2koi8, koi82win]"

definition recode :: "string \<Rightarrow> nat \<Rightarrow> string" where
  "recode src offs = map (recode_char (recode_tables ! offs)) src"

section \<open>Properties\<close>

lemma next_token_None:
  "next_token (Some s) d = (None, p') \<Longrightarrow> p' = None \<and> set s \<subseteq> set d"
proof (induction "Some s" d arbitrary: s rule: next_token.induct)
  case (2 p delim)
  obtain t q where st: "strsep p delim = (t, q)" by fastforce
  with 2(2) have t: "t = []" "next_token q delim = (None, p')" by (auto split: if_splits)
  show ?case
  proof (cases q)
    case None
    with st t strsep_None[of p delim t] show ?thesis by auto
  next
    case (Some r)
    with 2(1)[of t r] st t have "set r \<subseteq> set delim" "p' = None" by auto
    with Some st t strsep_Some[of p delim t r] show ?thesis by auto
  qed
qed

lemma next_token_Some:
  "next_token (Some s) d = (Some t, p') \<Longrightarrow>
     \<exists>pre. set pre \<subseteq> set d \<and> t \<noteq> [] \<and> set t \<inter> set d = {} \<and>
       (case p' of None \<Rightarrow> s = pre @ t | Some r \<Rightarrow> \<exists>c \<in> set d. s = pre @ t @ c # r)"
proof (induction "Some s" d arbitrary: s rule: next_token.induct)
  case (2 p delim)
  obtain u q where st: "strsep p delim = (u, q)" by fastforce
  show ?case
  proof (cases "u = []")
    case False
    with 2(2) st have u: "t = u" "p' = q" by auto
    show ?thesis
    proof (cases q)
      case None
      with st u False strsep_None[of p delim u] show ?thesis by (intro exI[of _ "[]"]) auto
    next
      case (Some r)
      with st u False strsep_Some[of p delim u r] show ?thesis by (intro exI[of _ "[]"]) auto
    qed
  next
    case True
    with 2(2) st have nx: "next_token q delim = (Some t, p')" by auto
    then obtain r where r: "q = Some r" by (cases q) auto
    from strsep_Some[of p delim u r] st r True obtain c where c: "p = c # r" "c \<in> set delim" by auto
    from 2(1)[of u r] st True nx r obtain pre where
      "set pre \<subseteq> set delim" "t \<noteq> []" "set t \<inter> set delim = {}"
      "case p' of None \<Rightarrow> r = pre @ t | Some r' \<Rightarrow> \<exists>c \<in> set delim. r = pre @ t @ c # r'"
      by auto
    with c show ?thesis by (intro exI[of _ "c # pre"]) (auto split: option.splits)
  qed
qed

text \<open>The length left in a pointer: a token uses some of it up.\<close>

definition ptr_length :: "string option \<Rightarrow> nat" where
  "ptr_length p = (case p of None \<Rightarrow> 0 | Some s \<Rightarrow> Suc (length s))"

lemma next_token_shorter: "next_token p d = (Some t, p') \<Longrightarrow> ptr_length p' < ptr_length p"
proof (cases p)
  case (Some s)
  assume "next_token p d = (Some t, p')"
  then obtain pre where "t \<noteq> []" "case p' of None \<Rightarrow> s = pre @ t | Some r \<Rightarrow> \<exists>c \<in> set d. s = pre @ t @ c # r"
    using next_token_Some[of s d t p'] Some by auto
  then show ?thesis using Some by (auto simp: ptr_length_def split: option.splits)
qed simp

lemma next_token_le: "next_token p d = (t, p') \<Longrightarrow> ptr_length p' \<le> ptr_length p"
proof (cases t)
  case None
  assume a: "next_token p d = (t, p')"
  then have "p' = None" using next_token_None[of "the p" d p'] None by (cases p) (auto simp del: next_token.simps(2))
  then show ?thesis by (simp add: ptr_length_def)
next
  case (Some s)
  assume "next_token p d = (t, p')"
  then show ?thesis using next_token_shorter[of p d s p'] Some by simp
qed

lemma token_shorter: "fst (next_token p d) = Some t \<Longrightarrow> ptr_length (snd (next_token p d)) < ptr_length p"
  by (rule next_token_shorter[of p d t]) (simp add: prod_eq_iff)

text \<open>
  \<open>next_token\<close> skips delimiters and returns the longest delimiter-free piece that follows,
  leaving the pointer behind the one delimiter that ended it (or \<open>NULL\<close> at the end of the
  string); it returns \<open>NULL\<close> exactly when only delimiters are left.
\<close>

lemma next_token_spec:
  "case next_token (Some s) d of
     (None, p') \<Rightarrow> p' = None \<and> set s \<subseteq> set d
   | (Some t, p') \<Rightarrow> \<exists>pre. set pre \<subseteq> set d \<and> t \<noteq> [] \<and> set t \<inter> set d = {} \<and>
       (case p' of None \<Rightarrow> s = pre @ t | Some r \<Rightarrow> \<exists>c \<in> set d. s = pre @ t @ c # r)"
  using next_token_None[of s d] next_token_Some[of s d]
  by (cases "next_token (Some s) d") (auto split: option.split)

lemma strtrim_front_dropWhile: "strtrim_front s d = dropWhile (\<lambda>c. c \<in> set d) s"
  by (induction s) auto

lemma strtrim_back_rev:
  "length s = Suc p \<Longrightarrow> hd s \<notin> set d \<Longrightarrow>
     strtrim_back s d p = rev (dropWhile (\<lambda>c. c \<in> set d) (rev s))"
proof (induction p arbitrary: s)
  case 0
  then obtain c where "s = [c]" by (cases s) auto
  with 0 show ?case by simp
next
  case (Suc p)
  then obtain u c where u: "s = u @ [c]" "length u = Suc p"
    by (cases s rule: rev_cases) auto
  then have "hd u = hd s" by (cases u) auto
  with Suc u show ?case by (simp add: nth_append)
qed

text \<open>
  \<open>strtrim\<close> removes all delimiters at both ends and nothing else: its two index loops
  compute the string without its leading and trailing delimiters.
\<close>

lemma strtrim_spec:
  "strtrim (Some s) d =
     Some (rev (dropWhile (\<lambda>c. c \<in> set d) (rev (dropWhile (\<lambda>c. c \<in> set d) s))))"
proof (cases "dropWhile (\<lambda>c. c \<in> set d) s")
  case Nil
  show ?thesis
    unfolding strtrim_def strtrim_front_dropWhile Let_def option.case Nil by simp
next
  case (Cons c u)
  then have "c \<notin> set d" by (metis hd_dropWhile list.distinct(1) list.sel(1))
  then have "strtrim_back (c # u) d (length u) = rev (dropWhile (\<lambda>c. c \<in> set d) (rev (c # u)))"
    by (intro strtrim_back_rev) simp_all
  with Cons show ?thesis by (simp add: strtrim_def strtrim_front_dropWhile Let_def)
qed

lemma scan_int_dec:
  assumes "scan_sign (dropWhile isspace s) = (neg, dec_nat n)" 
  shows "scan_int 10 s = Some (neg, n, [])"
proof -
  have ne: "dec_nat n \<noteq> []" by (subst dec_nat.simps) simp
  then have "is_digit 10 (hd (dec_nat n))" using dec_nat_digits[of n] by simp
  moreover have "scan_digits 10 (dec_nat n) 0 = (n, [])"
    using scan_digits_append[of "dec_nat n" 10 "[]" 0] dec_nat_digits[of n] scan_dec_nat[of n]
    by (metis append_Nil2 scan_digits.simps(1))
  ultimately show ?thesis
    using assms ne by (simp add: scan_int_def Let_def)
qed

lemma dec_nat_hd: "dec_nat n \<noteq> [] \<and> is_digit 10 (hd (dec_nat n))"
  using dec_nat_digits[of n] by (subst (asm) dec_nat.simps, subst (1 2) dec_nat.simps) 
    (auto simp: hd_append)

lemma digit_not_special:
  "is_digit 10 c \<Longrightarrow> \<not> isspace c \<and> c \<noteq> CHR ''-'' \<and> c \<noteq> CHR ''+''"
proof -
  assume "is_digit 10 c"
  then have "48 \<le> (of_char c :: nat)"
    by (auto simp: is_digit_def digit_val_def Let_def split: if_splits)
  moreover have "(of_char (CHR ''-'') :: nat) = 45" "(of_char (CHR ''+'') :: nat) = 43" by simp_all
  ultimately show ?thesis by (auto simp only: isspace_def)
qed

lemma scan_int_dec_int: "scan_int 10 (dec_int x) = Some (x < 0, nat \<bar>x\<bar>, [])"
proof (rule scan_int_dec)
  obtain c u where cu: "dec_nat (nat \<bar>x\<bar>) = c # u" "is_digit 10 c"
    using dec_nat_hd[of "nat \<bar>x\<bar>"] by (cases "dec_nat (nat \<bar>x\<bar>)") auto
  note sp = digit_not_special[OF cu(2)]
  have "\<not> isspace CHR ''-''" by (simp add: isspace_def)
  with sp cu show "scan_sign (dropWhile isspace (dec_int x)) = (x < 0, dec_nat (nat \<bar>x\<bar>))"
    by (auto simp: dec_int_def scan_sign_def)
qed

text \<open>
  Converting the decimal notation of a 32-bit integer with \<open>str2long\<close> gives the integer
  back, with the code of success; the notation of a larger one gives the range error and the
  saturated value.
\<close>

lemma str2long_dec_int:
  "str2long (dec_int x) 10 =
     (if x < - (2 ^ 31) then (- 2, - (2 ^ 31))
      else if 2 ^ 31 \<le> x then (- 2, 2 ^ 31 - 1)
      else (0, x))"
proof -
  have ne: "dec_int x \<noteq> []" using dec_nat_hd[of "nat x"] by (auto simp: dec_int_def)
  have st: "strtol (dec_int x) 10 = (max (- (2 ^ 31)) (min (2 ^ 31 - 1) x), [])"
    by (simp add: strtol_def scan_int_dec_int)
  have er: "erange (- (2 ^ 31)) (2 ^ 31 - 1) (dec_int x) 10 \<longleftrightarrow> x < - (2 ^ 31) \<or> 2 ^ 31 \<le> x"
    by (auto simp: erange_def scan_int_dec_int)
  show ?thesis using ne st er by (auto simp: str2long_def)
qed

lemma chain_loop_run:
  "chain_loop f cs i (Some (s, e)) = Some (s', e') \<Longrightarrow> e + 1 = i \<Longrightarrow>
     s' = s \<and> e \<le> e' \<and> e' < i + length cs \<and> (\<forall>k. i \<le> k \<and> k \<le> e' \<longrightarrow> f (cs ! (k - i))) \<and>
     (e' + 1 < i + length cs \<longrightarrow> \<not> f (cs ! (e' + 1 - i)))"
proof (induction cs arbitrary: i e)
  case Nil
  then show ?case by auto
next
  case (Cons c cs)
  show ?case
  proof (cases "f c")
    case True
    then have "chain_loop f cs (i + 1) (Some (s, i)) = Some (s', e')" using Cons.prems by simp
    from Cons.IH[OF this] have ih: "s' = s" "i \<le> e'" "e' < i + 1 + length cs"
      "\<And>k. i + 1 \<le> k \<Longrightarrow> k \<le> e' \<Longrightarrow> f (cs ! (k - (i + 1)))"
      "e' + 1 < i + 1 + length cs \<Longrightarrow> \<not> f (cs ! (e' + 1 - (i + 1)))" by auto
    have "f ((c # cs) ! (k - i))" if "i \<le> k" "k \<le> e'" for k
      using that ih(4)[of k] True by (cases "k = i") (auto simp: nth_Cons')
    moreover have "\<not> f ((c # cs) ! (e' + 1 - i))" if "e' + 1 < i + length (c # cs)"
      using that ih(2,5) by (simp add: nth_Cons')
    ultimately show ?thesis using ih Cons.prems by auto
  next
    case False
    with Cons.prems show ?thesis by auto
  qed
qed

lemma chain_loop_spec:
  "chain_loop f cs i None = Some (s, e) \<Longrightarrow>
     i \<le> s \<and> s \<le> e \<and> e < i + length cs \<and> (\<forall>k. i \<le> k \<and> k < s \<longrightarrow> \<not> f (cs ! (k - i))) \<and>
     (\<forall>k. s \<le> k \<and> k \<le> e \<longrightarrow> f (cs ! (k - i))) \<and>
     (e + 1 < i + length cs \<longrightarrow> \<not> f (cs ! (e + 1 - i)))"
proof (induction cs arbitrary: i)
  case Nil
  then show ?case by simp
next
  case (Cons c cs)
  show ?case
  proof (cases "f c")
    case True
    with Cons.prems have "chain_loop f cs (i + 1) (Some (i, i)) = Some (s, e)" by simp
    from chain_loop_run[OF this] True show ?thesis
      by (auto simp: nth_Cons' split: if_splits)
  next
    case False
    with Cons.prems have "chain_loop f cs (i + 1) None = Some (s, e)" by simp
    from Cons.IH[OF this] False show ?thesis
      by (auto simp: nth_Cons' split: if_splits)
  qed
qed

text \<open>
  When \<open>find_chain\<close> succeeds, the two pointers it sets delimit the first maximal run of
  symbols that satisfy the predicate, in the string with its terminating zero.
\<close>

lemma find_chain_first_run:
  assumes "find_chain (Some str) (- 1) f = (0, Some (s, e))"
  shows "s < e \<and> e \<le> length str + 1 \<and>
     (\<forall>k < s. \<not> f ((str @ [CHR 0x00]) ! k)) \<and>
     (\<forall>k. s \<le> k \<and> k < e \<longrightarrow> f ((str @ [CHR 0x00]) ! k)) \<and>
     (e \<le> length str \<longrightarrow> \<not> f ((str @ [CHR 0x00]) ! e))"
proof -
  from assms obtain e' where "chain_loop f (str @ [CHR 0x00]) 0 None = Some (s, e')" "e = e' + 1"
    by (auto simp: find_chain_def Let_def split: option.splits)
  from chain_loop_spec[OF this(1)] this(2) show ?thesis by (auto simp: less_Suc_eq_le)
qed

theorem find_chain_first_run_witness:
  "find_chain (Some ''ab12c3'') (- 1) (is_digit 10) = (0, Some (2, 4)) \<and>
   \<not> is_digit 10 ((''ab12c3'' @ [CHR 0x00]) ! 4)"
proof -
  have "find_chain (Some ''ab12c3'') (- 1) (is_digit 10) = (0, Some (2, 4))"
    by (simp add: find_chain_def is_digit_def digit_val_def)
  moreover from find_chain_first_run[OF this] have "\<not> is_digit 10 ((''ab12c3'' @ [CHR 0x00]) ! 4)"
    by simp
  ultimately show ?thesis ..
qed

lemma koi8_tables_length [simp]:
  "length koi8_2low = 256" "length koi8_2up = 256" "length win2koi8 = 256" "length koi82win = 256"
  by (simp_all add: koi8_2low_def koi8_2up_def win2koi8_def koi82win_def)

text \<open>The entries of a table of characters stay characters.\<close>

lemma koi8_tables_range:
  "list_all (\<lambda>x. x < 256) koi8_2low" "list_all (\<lambda>x. x < 256) koi8_2up"
  "list_all (\<lambda>x. x < 256) win2koi8" "list_all (\<lambda>x. x < 256) koi82win"
  by (simp_all add: koi8_2low_def koi8_2up_def win2koi8_def koi82win_def)

lemma koi8_low_idem: "map ((!) koi8_2low) koi8_2low = koi8_2low"
  by (simp add: koi8_2low_def)

lemma koi8_low_up: "map ((!) koi8_2low) koi8_2up = koi8_2low"
  by (simp add: koi8_2low_def koi8_2up_def)

lemma of_char_lt: "(of_char (c :: char) :: nat) < 256"
  by (simp add: of_char_def)

lemma koi8_up_low: "map ((!) koi8_2up) koi8_2low = koi8_2up"
  by (simp add: koi8_2low_def koi8_2up_def)

text \<open>Looking a character up twice is looking it up in the composed table.\<close>

lemma recode_char_twice:
  assumes "list_all (\<lambda>x. x < 256) t" "length t = 256"
  shows "recode_char u (recode_char t c) = char_of (map ((!) u) t ! of_char c)"
proof -
  have c: "(of_char c :: nat) < length t" using of_char_lt[of c] assms(2) by simp
  then have "t ! of_char c < 256" using assms(1) by (simp add: list_all_length)
  then have "(of_char (char_of (t ! of_char c) :: char) :: nat) = t ! of_char c" by simp
  with c show ?thesis by (simp add: recode_char_def)
qed

text \<open>
  Case folding in KOI8-R: folding to lower case twice is folding once, and folding after a
  change of case gives what folding alone gives, in both directions.
\<close>

lemma koi8_case_folding:
  "strlower (strlower s) = strlower s \<and> strlower (strupper s) = strlower s \<and>
   strupper (strlower s) = strupper s"
proof -
  have "recode_char koi8_2low (recode_char koi8_2low c) = recode_char koi8_2low c"
    "recode_char koi8_2low (recode_char koi8_2up c) = recode_char koi8_2low c"
    "recode_char koi8_2up (recode_char koi8_2low c) = recode_char koi8_2up c" for c
    by (simp_all only: recode_char_twice koi8_tables_range koi8_tables_length
        koi8_low_idem koi8_low_up koi8_up_low recode_char_def[symmetric])
  then show ?thesis by (cases s) (simp_all add: strlower_def strupper_def)
qed

lemma upt_0_256: "[0..<256] = 0 # Suc 0 # [2..<256]"
proof -
  have "[0..<256] = 0 # [Suc 0..<256]" by (rule upt_conv_Cons) simp
  also have "[Suc 0..<256] = Suc 0 # [Suc (Suc 0)..<256]" by (rule upt_conv_Cons) simp
  finally show ?thesis by (simp only: numeral_2_eq_2)
qed

lemma win_koi8_compose: "map ((!) win2koi8) koi82win = [0..<256][168 := 0xB3, 184 := 0xA3]"
  by (simp add: win2koi8_def koi82win_def upt_0_256)

text \<open>
  Recoding a KOI8-R text to windows-1251 and back is the identity, as long as it holds none
  of the two codes (0xA8 and 0xB8, box drawing in KOI8-R) that windows-1251 needs for its letter io.
\<close>

lemma recode_roundtrip:
  assumes "char_of (168 :: nat) \<notin> set s" "char_of (184 :: nat) \<notin> set s"
  shows "recode (recode s 1) 0 = s"
proof -
  have "recode_char win2koi8 (recode_char koi82win c) = c" if "c \<in> set s" for c
  proof -
    have "(of_char c :: nat) \<noteq> 168" "(of_char c :: nat) \<noteq> 184"
      using that assms by (metis char_of_char)+
    then have "[0..<256][168 := 0xB3, 184 := 0xA3] ! of_char c = (of_char c :: nat)"
      using of_char_lt[of c] by (simp del: upt_rec_numeral)
    then show ?thesis
      by (simp only: recode_char_twice koi8_tables_range koi8_tables_length win_koi8_compose char_of_char)
  qed
  then show ?thesis by (simp add: recode_def recode_tables_def map_idI)
qed

lemma recode_roundtrip_witness:
  "recode (recode [CHR 0xA3, CHR ''q'', CHR 0xC1] 1) 0 = [CHR 0xA3, CHR ''q'', CHR 0xC1]"
  by (rule recode_roundtrip) (simp_all add: char_of_def)

end
