(* ===== verification/Links.thy ===== *)
theory Links
  imports Frame Strings
begin

text \<open>
  The gates (\<open>src/src/bee/lib/db/links.c\<close>, \<open>lib/db/res.c\<close>): the table that binds an identifier of a
  resource (an address, a login, a card label) to an account, kept in a text file.  The table
  \<open>linktab\<close> is a list; \<open>linktabsz\<close> is its length.  The lookups take the index of the last hit and
  return the next one, both as the result and through the index, which is returned here as the
  second component.  IPv4 addresses and masks are words in network byte order on a
  little-endian machine, so the first octet is the lowest byte.
\<close>

section \<open>Resources\<close>

record resource =
  r_name :: string
  r_ruler_cmd :: "string option"
  r_fAddr :: bool

definition resource :: "resource list" where
  "resource =
     [\<lparr>r_name = ''inet'', r_ruler_cmd = Some ''/usr/local/bin/beepfrules.sh'', r_fAddr = True\<rparr>,
      \<lparr>r_name = ''mail'', r_ruler_cmd = None, r_fAddr = False\<rparr>,
      \<lparr>r_name = ''adder'', r_ruler_cmd = None, r_fAddr = False\<rparr>,
      \<lparr>r_name = ''intra'', r_ruler_cmd = None, r_fAddr = False\<rparr>,
      \<lparr>r_name = ''list'', r_ruler_cmd = None, r_fAddr = False\<rparr>,
      \<lparr>r_name = ''login'', r_ruler_cmd = None, r_fAddr = False\<rparr>,
      \<lparr>r_name = ''label'', r_ruler_cmd = None, r_fAddr = False\<rparr>,
      \<lparr>r_name = ''maxrate'', r_ruler_cmd = None, r_fAddr = False\<rparr>]"

abbreviation (input) RES_INET :: int where "RES_INET \<equiv> 0"
abbreviation (input) RES_MAIL :: int where "RES_MAIL \<equiv> 1"
abbreviation (input) RES_ADDER :: int where "RES_ADDER \<equiv> 2"
abbreviation (input) RES_INTRA :: int where "RES_INTRA \<equiv> 3"
abbreviation (input) RES_LIST :: int where "RES_LIST \<equiv> 4"
abbreviation (input) RES_LOGIN :: int where "RES_LOGIN \<equiv> 5"
abbreviation (input) RES_LABEL :: int where "RES_LABEL \<equiv> 6"
abbreviation (input) RES_MAXRATE :: int where "RES_MAXRATE \<equiv> 7"

definition resourcecnt :: int where "resourcecnt = 8"

definition res_faddr :: "int \<Rightarrow> bool" where
  "res_faddr rid = r_fAddr (resource ! nat rid)"

section \<open>Addresses\<close>

definition htonl :: "u32 \<Rightarrow> u32" where
  "htonl x = word_of_nat (un_le (rev (le_bytes 4 (unat x))))"

text \<open>\<open>inet_pton(AF_INET, ...)\<close>: four decimal octets; the octets read so far, whether one has begun.\<close>

fun inet_pton_loop :: "string \<Rightarrow> nat list \<Rightarrow> bool \<Rightarrow> nat list option" where
  "inet_pton_loop [] octs saw_digit = (if length octs < 4 then None else Some octs)"
| "inet_pton_loop (c # s) octs saw_digit =
     (if is_digit 10 c
      then (let d = the (digit_val c); new = (if saw_digit then last octs * 10 + d else d)
            in if new > 255 then None
               else if saw_digit then inet_pton_loop s (butlast octs @ [new]) True
               else if length octs = 4 then None
               else inet_pton_loop s (octs @ [new]) True)
      else if c = CHR ''.'' \<and> saw_digit
      then (if length octs = 4 then None else inet_pton_loop s octs False)
      else None)"

definition inet_pton :: "string \<Rightarrow> u32 option" where
  "inet_pton s = map_option (\<lambda>octs. word_of_nat (un_le (map word_of_nat octs))) (inet_pton_loop s [] False)"

definition inet_ntop :: "u32 \<Rightarrow> string" where
  "inet_ntop a = (case map unat (le_bytes 4 (unat a)) of
      [p, q, r, s] \<Rightarrow> dec_nat p @ ''.'' @ dec_nat q @ ''.'' @ dec_nat r @ ''.'' @ dec_nat s
    | _ \<Rightarrow> [])"

text \<open>
  \<open>inet_aton\<close>: one to four parts, decimal, octal or hexadecimal; the last part fills the
  remaining bytes.  The list holds the parts read, the last one first.
\<close>

fun aton_digits :: "nat \<Rightarrow> string \<Rightarrow> nat \<Rightarrow> nat \<times> string" where
  "aton_digits base [] val = (val, [])"
| "aton_digits base (c # s) val =
     (case digit_val c of
        Some d \<Rightarrow>
          if d < 10 \<or> base = 16 \<and> d < 16 then aton_digits base s ((val * base + d) mod 2 ^ 32)
          else (val, c # s)
      | None \<Rightarrow> (val, c # s))"

definition aton_part :: "string \<Rightarrow> (nat \<times> string) option" where
  "aton_part s = (case s of
      [] \<Rightarrow> None
    | c # r \<Rightarrow>
        if \<not> is_digit 10 c then None
        else if c = CHR ''0''
        then (if r \<noteq> [] \<and> (hd r = CHR ''x'' \<or> hd r = CHR ''X'') then Some (aton_digits 16 (tl r) 0)
              else Some (aton_digits 8 r 0))
        else Some (aton_digits 10 s 0))"

fun aton_parts :: "nat \<Rightarrow> string \<Rightarrow> nat list \<Rightarrow> (nat list \<times> string) option" where
  "aton_parts 0 s parts = None"
| "aton_parts (Suc n) s parts = (case aton_part s of
      None \<Rightarrow> None
    | Some (v, r) \<Rightarrow>
        if r \<noteq> [] \<and> hd r = CHR ''.'' then aton_parts n (tl r) (v # parts) else Some (v # parts, r))"

definition inet_aton :: "string \<Rightarrow> u32 option" where
  "inet_aton s = (case aton_parts 4 s [] of
      None \<Rightarrow> None
    | Some (parts, r) \<Rightarrow>
        if r \<noteq> [] \<and> \<not> isspace (hd r) then None
        else (case parts of
            [v] \<Rightarrow> Some (htonl (word_of_nat v))
          | [v, a] \<Rightarrow> if v > 0xffffff \<or> a > 0xff then None
              else Some (htonl (word_of_nat (a * 2 ^ 24 + v)))
          | [v, b, a] \<Rightarrow> if v > 0xffff \<or> a > 0xff \<or> b > 0xff then None
              else Some (htonl (word_of_nat (a * 2 ^ 24 + b * 2 ^ 16 + v)))
          | [v, c, b, a] \<Rightarrow> if v > 0xff \<or> a > 0xff \<or> b > 0xff \<or> c > 0xff then None
              else Some (htonl (word_of_nat (a * 2 ^ 24 + b * 2 ^ 16 + c * 2 ^ 8 + v)))
          | _ \<Rightarrow> None))"

definition make_addr_mask :: "int \<Rightarrow> u32" where
  "make_addr_mask bits =
     (if bits < 1 then 0
      else if bits \<ge> 32 then 0xffffffff
      else htonl (push_bit (nat (32 - bits)) 0xffffffff))"

definition mask2bits :: "u32 \<Rightarrow> int" where
  "mask2bits m = (let hmask = htonl m in
     (if hmask = 0x00000000 then 0
      else if hmask = 0x80000000 then 1
      else if hmask = 0xc0000000 then 2
      else if hmask = 0xe0000000 then 3
      else if hmask = 0xf0000000 then 4
      else if hmask = 0xf8000000 then 5
      else if hmask = 0xfc000000 then 6
      else if hmask = 0xfe000000 then 7
      else if hmask = 0xff000000 then 8
      else if hmask = 0xff800000 then 9
      else if hmask = 0xffc00000 then 10
      else if hmask = 0xffe00000 then 11
      else if hmask = 0xfff00000 then 12
      else if hmask = 0xfff80000 then 13
      else if hmask = 0xfffc0000 then 14
      else if hmask = 0xfffe0000 then 15
      else if hmask = 0xffff0000 then 16
      else if hmask = 0xffff8000 then 17
      else if hmask = 0xffffc000 then 18
      else if hmask = 0xffffe000 then 19
      else if hmask = 0xfffff000 then 20
      else if hmask = 0xfffff800 then 21
      else if hmask = 0xfffffc00 then 22
      else if hmask = 0xfffffe00 then 23
      else if hmask = 0xffffff00 then 24
      else if hmask = 0xffffff80 then 25
      else if hmask = 0xffffffc0 then 26
      else if hmask = 0xffffffe0 then 27
      else if hmask = 0xfffffff0 then 28
      else if hmask = 0xfffffff8 then 29
      else if hmask = 0xfffffffc then 30
      else if hmask = 0xfffffffe then 31
      else if hmask = 0xffffffff then 32
      else - 1))"

definition i8 :: "int \<Rightarrow> int" where
  "i8 x = (x + 128) mod 256 - 128"

text \<open>
  \<open>make_addrandmask(straddr, &addr, &nmask)\<close>: the result code with the address and mask; on a
  failure they are not used by the callers and not returned.  The number of bits goes through a
  \<open>char\<close>, which is signed and has 8 bits.
\<close>

definition make_addrandmask :: "string \<Rightarrow> (u32 \<times> u32) option" where
  "make_addrandmask straddr =
     (case next_token (Some (strlcpy straddr 32)) ''/'' of
        (None, ptr) \<Rightarrow> None
      | (Some str, ptr) \<Rightarrow> (case inet_pton str of
            None \<Rightarrow> None
          | Some addr \<Rightarrow> (case fst (next_token ptr ''/'') of
                Some str \<Rightarrow>
                  (let bits = i8 (atol str) in
                   if bits < 0 \<or> bits > 32 then None
                   else (let nmask = make_addr_mask bits
                         in if addr AND nmask \<noteq> addr then None else Some (addr, nmask)))
              | None \<Rightarrow> Some (addr, 0xffffffff))))"

definition make_addr :: "string \<Rightarrow> (u32 \<times> int) option" where
  "make_addr straddr =
     (case next_token (Some (strlcpy straddr 32)) ''/'' of
        (None, ptr) \<Rightarrow> None
      | (Some str, ptr) \<Rightarrow> (case inet_aton str of
            None \<Rightarrow> None
          | Some addr \<Rightarrow>
              (let bits = (case fst (next_token ptr ''/'') of Some str \<Rightarrow> atol str | None \<Rightarrow> 32)
               in Some (addr AND make_addr_mask bits, bits))))"

definition inaddr_cmp :: "string \<Rightarrow> string \<Rightarrow> int" where
  "inaddr_cmp user link = (case make_addr link of
      None \<Rightarrow> - 1
    | Some (laddr, lbits) \<Rightarrow> (case make_addr user of
          None \<Rightarrow> - 1
        | Some (uaddr, ubits) \<Rightarrow>
            if ubits < lbits then 1
            else (let uaddr = (if ubits > lbits then uaddr AND make_addr_mask lbits else uaddr)
                  in if uaddr \<noteq> laddr then 1 else 0)))"

section \<open>The table\<close>

record reslink =
  rl_res_id :: int
  rl_user_id :: int
  rl_accno :: int
  rl_username :: string
  rl_allow :: bool
  rl_addr :: u32
  rl_mask :: u32

record gates = dbs +
  linktab :: "reslink list"
  conf_gatefile :: string
  conf_gatetemp :: string
  conf_gatelock :: string

text \<open>
  The loop all lookups share, entered with the incremented index: the first entry from there on
  that satisfies the condition, and the final value of the index.
\<close>

function link_scan :: "(reslink \<Rightarrow> bool) \<Rightarrow> reslink list \<Rightarrow> int \<Rightarrow> int \<times> int" where
  "link_scan hit tab i =
     (if i < int (length tab)
      then (if hit (tab ! nat i) then (i, i) else link_scan hit tab (i + 1))
      else (- 1, i))"
  by pat_completeness auto
termination by (relation "measure (\<lambda>(_, tab, i). nat (int (length tab) - i))") auto

declare link_scan.simps [simp del]

definition lookup_res :: "int \<Rightarrow> int \<Rightarrow> int \<Rightarrow> 'a gates_scheme \<Rightarrow> int \<times> int" where
  "lookup_res rid uid index w =
     link_scan (\<lambda>l. rl_res_id l = rid \<and> rl_user_id l = uid) (linktab w) (index + 1)"

definition lookup_resname :: "int \<Rightarrow> string \<Rightarrow> int \<Rightarrow> 'a gates_scheme \<Rightarrow> int \<times> int" where
  "lookup_resname rid name index w =
     (if res_faddr rid
      then (case make_addrandmask name of
          None \<Rightarrow> (- 1, index)
        | Some (addr, nmask) \<Rightarrow>
            link_scan (\<lambda>l. rl_res_id l = rid \<and> rl_mask l \<noteq> 0 \<and> rl_addr l = addr AND rl_mask l)
              (linktab w) (index + 1))
      else link_scan (\<lambda>l. rl_res_id l = rid \<and> name = rl_username l) (linktab w) (index + 1))"

definition lookup_accno :: "int \<Rightarrow> int \<Rightarrow> 'a gates_scheme \<Rightarrow> int \<times> int" where
  "lookup_accno accno index w = link_scan (\<lambda>l. rl_accno l = accno) (linktab w) (index + 1)"

definition lookup_accres :: "int \<Rightarrow> int \<Rightarrow> int \<Rightarrow> 'a gates_scheme \<Rightarrow> int \<times> int" where
  "lookup_accres accno rid index w =
     link_scan (\<lambda>l. rl_accno l = accno \<and> rl_res_id l = rid) (linktab w) (index + 1)"

definition lookup_name :: "string \<Rightarrow> int \<Rightarrow> 'a gates_scheme \<Rightarrow> int \<times> int" where
  "lookup_name name index w =
     link_scan (\<lambda>l. strcaseeq (rl_username l) name) (linktab w) (index + 1)"

definition lookup_pname :: "string \<Rightarrow> int \<Rightarrow> 'a gates_scheme \<Rightarrow> int \<times> int" where
  "lookup_pname name index w =
     link_scan (\<lambda>l. strstr (rl_username l) name) (linktab w) (index + 1)"

definition lookup_baddr :: "u32 \<Rightarrow> int \<Rightarrow> 'a gates_scheme \<Rightarrow> int \<times> int" where
  "lookup_baddr addr index w =
     link_scan (\<lambda>l. rl_mask l \<noteq> 0 \<and> rl_addr l = addr AND rl_mask l) (linktab w) (index + 1)"

definition lookup_addr :: "string \<Rightarrow> int \<Rightarrow> 'a gates_scheme \<Rightarrow> int \<times> int" where
  "lookup_addr addr index w = (case make_addrandmask addr of
      None \<Rightarrow> (- 1, index)
    | Some (naddr, nmask) \<Rightarrow> lookup_baddr naddr index w)"

definition link_intersects :: "u32 \<Rightarrow> u32 \<Rightarrow> reslink \<Rightarrow> bool" where
  "link_intersects addr m l \<longleftrightarrow> rl_mask l \<noteq> 0 \<and>
     (let minmask = m AND rl_mask l in rl_addr l AND minmask = addr AND minmask)"

text \<open>A null index pointer is \<open>None\<close>: the search starts at the beginning.\<close>

definition lookup_intersect :: "u32 \<Rightarrow> u32 \<Rightarrow> int option \<Rightarrow> 'a gates_scheme \<Rightarrow> int \<times> int option" where
  "lookup_intersect addr m index w =
     (case link_scan (link_intersects addr m) (linktab w)
         (case index of None \<Rightarrow> 0 | Some i \<Rightarrow> i + 1) of (r, i) \<Rightarrow>
        (r, map_option (\<lambda>_. i) index))"

section \<open>Locking, loading and saving\<close>

definition reslinks_lock :: "lockmode \<Rightarrow> 'a gates_scheme \<Rightarrow> int \<times> 'a gates_scheme" where
  "reslinks_lock locktag w = (case sys_open_creat (conf_gatelock w) w of (lockfd, w) \<Rightarrow>
     if lockfd = - 1 then (- 1, w)
     else (case sys_flock lockfd locktag w of (rc, w) \<Rightarrow>
       if rc = - 1 then (- 1, w) else (lockfd, w)))"

definition reslinks_unlock :: "int \<Rightarrow> 'a gates_scheme \<Rightarrow> int \<times> 'a gates_scheme" where
  "reslinks_unlock lockfd w = (case sys_flock lockfd LOCK_UN w of (rc, w) \<Rightarrow>
     if rc = - 1 then (- 1, w) else (0, snd (sys_close lockfd w)))"

text \<open>The separators of the gate file.\<close>

definition DELIM :: string where
  "DELIM = [CHR '' '', CHR '','', CHR 0x09, CHR 0x0A, CHR 0x0D]"

text \<open>The index of a resource name, the number of resources when there is none.\<close>

definition res_index :: "string \<Rightarrow> int" where
  "res_index str = int (length (takeWhile (\<lambda>r. r_name r \<noteq> str) resource))"

text \<open>The text of an address gate: the address, a slash, the number of mask bits.\<close>

definition inet_ident :: "u32 \<Rightarrow> u32 \<Rightarrow> string" where
  "inet_ident addr nmask = inet_ntop addr @ ''/'' @ dec_int (mask2bits nmask)"

definition reslink_zero :: reslink where
  "reslink_zero = \<lparr>rl_res_id = 0, rl_user_id = 0, rl_accno = 0, rl_username = [], rl_allow = False,
     rl_addr = 0, rl_mask = 0\<rparr>"

text \<open>
  One line of the gate file: \<open>None\<close> when it is skipped, else the entry without its checks.
\<close>

definition parse_link :: "string \<Rightarrow> reslink option" where
  "parse_link buf =
     (if buf \<noteq> [] \<and> hd buf = CHR ''#'' then None
      else (case next_token (Some buf) DELIM of
          (None, ptr) \<Rightarrow> None
        | (Some str, ptr) \<Rightarrow>
            if res_index str = resourcecnt then None
            else (let worksp = reslink_zero\<lparr>rl_allow := True, rl_res_id := res_index str\<rparr>
                  in case next_token ptr DELIM of
                    (None, ptr) \<Rightarrow> None
                  | (Some str, ptr) \<Rightarrow>
                      (let worksp = worksp\<lparr>rl_user_id := atol str\<rparr>
                       in case next_token ptr DELIM of
                         (None, ptr) \<Rightarrow> None
                       | (Some str, ptr) \<Rightarrow>
                           (let worksp = worksp\<lparr>rl_accno := atol str\<rparr>
                            in case strtrim ptr DELIM of
                              None \<Rightarrow> None
                            | Some str \<Rightarrow> if str = [] then None
                                else Some (worksp\<lparr>rl_username := str\<rparr>))))))"

text \<open>
  The body of the reading loop: the new state, and whether the loop goes on (it is left when
  memory is short).
\<close>

definition load_line :: "string \<Rightarrow> 'a gates_scheme \<Rightarrow> bool \<times> 'a gates_scheme" where
  "load_line buf w = (case parse_link (c_str buf) of
      None \<Rightarrow> (True, w)
    | Some worksp \<Rightarrow>
        (case sys_alloc w of (mem, w) \<Rightarrow>
         if \<not> mem then (False, w)
         else (let add = (\<lambda>worksp w. case sys_alloc w of (mem, w) \<Rightarrow>
                   if \<not> mem then (False, w)
                   else (True, w\<lparr>linktab := linktab w @ [worksp]\<rparr>))
               in if rl_res_id worksp = RES_INET
                  then (case make_addrandmask (rl_username worksp) of
                      None \<Rightarrow> (True, w)
                    | Some (addr, nmask) \<Rightarrow>
                        (case sys_alloc w of (mem, w) \<Rightarrow>
                         if \<not> mem then (False, w)
                         else (let worksp = worksp\<lparr>rl_addr := addr, rl_mask := nmask,
                                              rl_username := inet_ident addr nmask\<rparr>;
                                   worksp = (if fst (lookup_intersect addr nmask None w) \<ge> 0
                                             then worksp\<lparr>rl_allow := False\<rparr> else worksp)
                               in add worksp w)))
                  else add worksp w)))"

function load_lines :: "string \<Rightarrow> 'a gates_scheme \<Rightarrow> bool \<times> 'a gates_scheme" where
  "load_lines content w =
     (if content = [] then (True, w)
      else (case fgets 128 content of (buf, rest) \<Rightarrow>
        (case load_line buf w of (cont, w) \<Rightarrow>
           if cont then load_lines rest w else (False, w))))"
  by pat_completeness auto
termination
  by (relation "measure (\<lambda>(c, _). length c)")
     (auto dest!: arg_cong[where f = snd], metis fgets_length one_less_numeral_iff semiring_norm(76) snd_conv)

declare load_lines.simps [simp del]

definition reslinks_load :: "lockmode \<Rightarrow> 'a gates_scheme \<Rightarrow> int \<times> 'a gates_scheme" where
  "reslinks_load locktag w =
     (case (if locktag \<noteq> LOCK_UN then reslinks_lock locktag w else (- 2, w)) of (fdlock, w) \<Rightarrow>
      if locktag \<noteq> LOCK_UN \<and> fdlock = - 1 then (- 1, w)
      else (let w = w\<lparr>linktab := []\<rparr>
            in case sys_fopen_r (conf_gatefile w) w of (content, w) \<Rightarrow>
               case (case content of
                      None \<Rightarrow> (- 1, w)
                    | Some c \<Rightarrow> (case load_lines c w of (ok, w) \<Rightarrow> (if ok then 0 else - 1, w)))
               of (rc, w) \<Rightarrow>
                 (rc, if locktag \<noteq> LOCK_UN then snd (reslinks_unlock fdlock w) else w)))"

definition save_line :: "reslink \<Rightarrow> string" where
  "save_line l = [CHR 0x09] @ r_name (resource ! nat (rl_res_id l)) @ [CHR 0x09] @
     dec_int (rl_user_id l) @ [CHR 0x09] @ dec_int (rl_accno l) @ [CHR 0x09] @ rl_username l @ [CHR 0x0A]"

definition save_head :: string where
  "save_head = ''# Created by bee'' @ [CHR 0x0A] @ ''#'' @ [CHR 0x09] @ ''res'' @ [CHR 0x09] @
     ''uid'' @ [CHR 0x09] @ ''acc'' @ [CHR 0x09] @ ''name'' @ [CHR 0x0A]"

fun save_lines :: "reslink list \<Rightarrow> string \<Rightarrow> 'a gates_scheme \<Rightarrow> bool \<times> string \<times> 'a gates_scheme" where
  "save_lines [] t w = (True, t, w)"
| "save_lines (l # ls) t w = (case sys_fprintf t (save_line l) w of (ok, t, w) \<Rightarrow>
     if ok then save_lines ls t w else (False, t, w))"

definition reslinks_save :: "lockmode \<Rightarrow> 'a gates_scheme \<Rightarrow> int \<times> 'a gates_scheme" where
  "reslinks_save locktag w =
     (case (if locktag \<noteq> LOCK_UN then reslinks_lock locktag w else (- 2, w)) of (lockfd, w) \<Rightarrow>
      if locktag \<noteq> LOCK_UN \<and> lockfd = - 1 then (- 1, w)
      else (let unlock = (\<lambda>w. if locktag \<noteq> LOCK_UN then snd (reslinks_unlock lockfd w) else w)
            in case sys_fopen_w (conf_gatetemp w) w of (ok, w) \<Rightarrow>
            if \<not> ok then (- 1, unlock w)
            else (case sys_fprintf [] save_head w of (ok, t, w) \<Rightarrow>
                  case (if ok then save_lines (linktab w) t w else (False, t, w)) of (ok, t, w) \<Rightarrow>
                  let w = sys_fclose_w (conf_gatetemp w) t w
                  in if \<not> ok then (- 1, unlock w)
                     else (0, unlock (sys_rename (conf_gatetemp w) (conf_gatefile w) w)))))"

section \<open>Adding and removing\<close>

text \<open>The loop over the table for the highest user number of a resource.\<close>

fun max_uid :: "int \<Rightarrow> reslink list \<Rightarrow> int \<Rightarrow> int" where
  "max_uid rid [] uid = uid"
| "max_uid rid (l # ls) uid =
     max_uid rid ls (if rl_res_id l = rid \<and> rl_user_id l > uid then rl_user_id l else uid)"

definition reslink_new :: "int \<Rightarrow> int \<Rightarrow> string \<Rightarrow> 'a gates_scheme \<Rightarrow> int \<times> 'a gates_scheme" where
  "reslink_new rid accno name w =
     (let newlink = reslink_zero\<lparr>rl_res_id := rid, rl_accno := accno, rl_allow := True, rl_username := name\<rparr>
      in case sys_alloc w of (mem, w) \<Rightarrow>
        if \<not> mem then (- 1, w)
        else (let add = (\<lambda>newlink w.
                let newlink = newlink\<lparr>rl_user_id := i32 (max_uid rid (linktab w) (- 1) + 1)\<rparr>
                in case sys_alloc w of (mem, w) \<Rightarrow>
                  if \<not> mem then (- 1, w) else (0, w\<lparr>linktab := linktab w @ [newlink]\<rparr>))
              in if res_faddr rid
                 then (case make_addrandmask name of
                     None \<Rightarrow> (- 1, w)
                   | Some (addr, nmask) \<Rightarrow>
                       (case sys_alloc w of (mem, w) \<Rightarrow>
                        if \<not> mem then (- 1, w)
                        else if fst (lookup_intersect addr nmask None w) \<ge> 0 then (- 1, w)
                        else add (newlink\<lparr>rl_addr := addr, rl_mask := nmask,
                                    rl_username := inet_ident addr nmask\<rparr>) w))
                 else add newlink w))"

text \<open>A failing \<open>realloc\<close> of the shortened table is reported to the system log only.\<close>

definition reslink_del :: "int \<Rightarrow> 'a gates_scheme \<Rightarrow> int \<times> 'a gates_scheme" where
  "reslink_del index w =
     (if index < 0 \<or> index \<ge> int (length (linktab w)) then (- 1, w)
      else (let tab = take (nat index) (linktab w) @ drop (nat index + 1) (linktab w);
                w = w\<lparr>linktab := tab\<rparr>
            in if tab = [] then (0, w) else (case sys_alloc w of (mem, w) \<Rightarrow> (0, w))))"

section \<open>Lookups\<close>

lemma link_scan_spec:
  assumes "0 \<le> i"
  shows "case link_scan hit tab i of (r, j) \<Rightarrow>
    i \<le> j \<and> (\<forall>k. nat i \<le> k \<and> k < nat j \<and> k < length tab \<longrightarrow> \<not> hit (tab ! k)) \<and>
    (if j < int (length tab) then r = j \<and> hit (tab ! nat j) else r = - 1)"
  using assms
proof (induction hit tab i rule: link_scan.induct)
  case (1 hit tab i)
  show ?case
  proof (cases "i < int (length tab) \<and> \<not> hit (tab ! nat i)")
    case True
    then have st: "link_scan hit tab i = link_scan hit tab (i + 1)"
      by (subst link_scan.simps) simp
    obtain r j where rj: "link_scan hit tab (i + 1) = (r, j)" by fastforce
    have ih: "i + 1 \<le> j" "\<And>k. nat (i + 1) \<le> k \<Longrightarrow> k < nat j \<Longrightarrow> k < length tab \<Longrightarrow> \<not> hit (tab ! k)"
      "if j < int (length tab) then r = j \<and> hit (tab ! nat j) else r = - 1"
      using "1.IH" True "1.prems" rj by auto
    have "\<not> hit (tab ! k)" if "nat i \<le> k" "k < nat j" "k < length tab" for k
      using that ih(2)[of k] True "1.prems" by (cases "k = nat i") auto
    with ih(1,3) st rj show ?thesis by auto
  next
    case False
    then show ?thesis by (subst link_scan.simps) auto
  qed
qed

text \<open>The indices a lookup finds when it is called again and again from the index it left.\<close>

function link_walk :: "(reslink \<Rightarrow> bool) \<Rightarrow> reslink list \<Rightarrow> int \<Rightarrow> int list" where
  "link_walk hit tab ind = (if ind < - 1 then [] else (case link_scan hit tab (ind + 1) of (r, j) \<Rightarrow>
     if r < 0 then [] else r # link_walk hit tab j))"
  by pat_completeness auto
termination
proof (relation "measure (\<lambda>(_, tab, i). nat (int (length tab) - i))")
  fix hit tab ind r j
  assume "\<not> ind < - 1" "(r, j) = link_scan hit tab (ind + 1)" "\<not> r < 0"
  with link_scan_spec[where i = "ind + 1" and hit = hit and tab = tab] have "ind + 1 \<le> j" "j < int (length tab)"
    by (auto split: if_splits prod.splits)
  then show "((hit, tab, j), hit, tab, ind) \<in> measure (\<lambda>(_, tab, i). nat (int (length tab) - i))"
    by simp
qed simp

declare link_walk.simps [simp del]

lemma link_walk_eq:
  "- 1 \<le> ind \<Longrightarrow> link_walk hit tab ind =
     map int (filter (\<lambda>k. ind < int k \<and> hit (tab ! k)) [0..<length tab])"
proof (induction hit tab ind rule: link_walk.induct)
  case (1 hit tab ind)
  obtain r j where rj: "link_scan hit tab (ind + 1) = (r, j)" by fastforce
  have sp: "ind + 1 \<le> j" "\<And>k. nat (ind + 1) \<le> k \<Longrightarrow> k < nat j \<Longrightarrow> k < length tab \<Longrightarrow> \<not> hit (tab ! k)"
    "if j < int (length tab) then r = j \<and> hit (tab ! nat j) else r = - 1"
    using link_scan_spec[where i = "ind + 1" and hit = hit and tab = tab] rj "1.prems" by auto
  show ?case
  proof (cases "j < int (length tab)")
    case True
    then have r: "r = j" "hit (tab ! nat j)" "0 \<le> j" using sp(1,3) "1.prems" by auto
    have ih: "link_walk hit tab j = map int (filter (\<lambda>k. j < int k \<and> hit (tab ! k)) [0..<length tab])"
      using "1.IH"[OF _ rj[symmetric]] r "1.prems" by simp
    have split: "[0..<length tab] = [0..<nat j] @ nat j # [Suc (nat j)..<length tab]"
      using True r(3) by (metis Suc_leI le_add1 nat_less_iff upt_conv_Cons upt_add_eq_append zero_le
          add_0 le_add_diff_inverse less_imp_le_nat)
    have lo: "filter (\<lambda>k. ind < int k \<and> hit (tab ! k)) [0..<nat j] = []"
      using sp(2) True "1.prems" by (auto simp: filter_empty_conv)
    have lo': "filter (\<lambda>k. j < int k \<and> hit (tab ! k)) [0..<nat j] = []"
      by (auto simp: filter_empty_conv)
    have hi: "filter (\<lambda>k. ind < int k \<and> hit (tab ! k)) [Suc (nat j)..<length tab] =
        filter (\<lambda>k. j < int k \<and> hit (tab ! k)) [Suc (nat j)..<length tab]"
      using sp(1) r(3) by (intro filter_cong) auto
    show ?thesis
      using r rj "1.prems" sp(1) lo lo' hi by (subst link_walk.simps) (simp add: ih split)
  next
    case False
    have "filter (\<lambda>k. ind < int k \<and> hit (tab ! k)) [0..<length tab] = []"
      using sp(2) False "1.prems" by (auto simp: filter_empty_conv)
    then show ?thesis using False sp(3) rj "1.prems" by (subst link_walk.simps) simp
  qed
qed

text \<open>
  The loop \<open>ind = -1; while (lookup_accno(accno, &ind) >= 0)\<close> of the callers: the gates it visits.
\<close>

definition gates_of_acc :: "int \<Rightarrow> 'a gates_scheme \<Rightarrow> int list" where
  "gates_of_acc accno w = link_walk (\<lambda>l. rl_accno l = accno) (linktab w) (- 1)"

section \<open>Masks and intersections\<close>

text \<open>Two networks share an address exactly when they agree on the bits both masks cover.\<close>

lemma nets_meet_iff:
  fixes a1 a2 m1 m2 :: u32
  assumes "a1 AND m1 = a1" "a2 AND m2 = a2"
  shows "(\<exists>h. h AND m1 = a1 \<and> h AND m2 = a2) \<longleftrightarrow> a1 AND (m1 AND m2) = a2 AND (m1 AND m2)"
proof
  assume "\<exists>h. h AND m1 = a1 \<and> h AND m2 = a2"
  then obtain h where h: "a1 = h AND m1" "a2 = h AND m2" by blast
  show "a1 AND (m1 AND m2) = a2 AND (m1 AND m2)"
    by (rule bit_eqI) (auto simp: h bit_simps)
next
  assume eq: "a1 AND (m1 AND m2) = a2 AND (m1 AND m2)"
  have b: "bit a1 n \<Longrightarrow> bit m1 n" "bit a2 n \<Longrightarrow> bit m2 n" for n
    using assms by (metis bit_and_iff)+
  have e: "bit m1 n \<Longrightarrow> bit m2 n \<Longrightarrow> bit a1 n = bit a2 n" for n
    using arg_cong[OF eq, of "\<lambda>x. bit x n"] by (simp add: bit_simps)
  have "(a1 OR a2) AND m1 = a1" "(a1 OR a2) AND m2 = a2"
    by (rule bit_eqI; use b e in \<open>auto simp: bit_simps\<close>)+
  then show "\<exists>h. h AND m1 = a1 \<and> h AND m2 = a2" by blast
qed

text \<open>
  Every entry of the table that has a mask is a network in normal form, every two entries that
  are in force name disjoint networks, and no two entries share resource and user number.
\<close>

definition net_ok :: "reslink \<Rightarrow> bool" where
  "net_ok l \<longleftrightarrow> rl_addr l AND rl_mask l = rl_addr l"

definition disjoint_nets :: "reslink \<Rightarrow> reslink \<Rightarrow> bool" where
  "disjoint_nets l k \<longleftrightarrow> \<not> (rl_mask l \<noteq> 0 \<and> rl_mask k \<noteq> 0 \<and> rl_allow l \<and> rl_allow k \<and>
     (\<exists>h. h AND rl_mask l = rl_addr l \<and> h AND rl_mask k = rl_addr k))"

fun nets_disjoint :: "reslink list \<Rightarrow> bool" where
  "nets_disjoint [] = True"
| "nets_disjoint (l # ls) = (net_ok l \<and> (\<forall>k \<in> set ls. disjoint_nets l k) \<and> nets_disjoint ls)"

lemma nets_disjoint_snoc:
  "nets_disjoint (ls @ [k]) \<longleftrightarrow> nets_disjoint ls \<and> net_ok k \<and> (\<forall>l \<in> set ls. disjoint_nets l k)"
  by (induction ls) auto

lemma nets_disjoint_remove: "nets_disjoint (xs @ ys @ zs) \<Longrightarrow> nets_disjoint (xs @ zs)"
proof (induction xs)
  case Nil
  then show ?case by (induction ys) auto
qed auto

lemma nets_disjoint_ok: "nets_disjoint ls \<Longrightarrow> l \<in> set ls \<Longrightarrow> net_ok l"
  by (induction ls) auto

lemma intersect_none:
  assumes "fst (lookup_intersect addr m None w) < 0" "l \<in> set (linktab w)"
  shows "\<not> link_intersects addr m l"
proof -
  obtain r j where rj: "link_scan (link_intersects addr m) (linktab w) 0 = (r, j)" by fastforce
  then have "r < 0" using assms(1) by (simp add: lookup_intersect_def)
  with link_scan_spec[where i = 0 and hit = "link_intersects addr m" and tab = "linktab w"] rj
  have "int (length (linktab w)) \<le> j" "\<And>k. k < nat j \<Longrightarrow> k < length (linktab w) \<Longrightarrow> \<not> link_intersects addr m (linktab w ! k)"
    by (auto split: if_splits)
  moreover obtain k where "k < length (linktab w)" "linktab w ! k = l"
    using assms(2) by (auto simp: in_set_conv_nth)
  ultimately show ?thesis by force
qed

lemma not_intersects_disjoint:
  assumes "\<not> link_intersects (rl_addr k) (rl_mask k) l" "net_ok l" "net_ok k"
  shows "disjoint_nets l k"
proof (cases "rl_mask l = 0")
  case False
  with assms(1) have "rl_addr l AND (rl_mask l AND rl_mask k) \<noteq> rl_addr k AND (rl_mask l AND rl_mask k)"
    by (simp add: link_intersects_def Let_def and.commute)
  with nets_meet_iff[of "rl_addr l" "rl_mask l" "rl_addr k" "rl_mask k"] assms(2,3)
  show ?thesis by (auto simp: disjoint_nets_def net_ok_def)
qed (simp add: disjoint_nets_def)

lemma and_full_mask [simp]: "(addr :: u32) AND 0xffffffff = addr"
proof -
  have "(0xffffffff :: u32) = - 1" by simp
  then show ?thesis by (simp only: word_and_max)
qed

lemma make_addrandmask_net:
  "make_addrandmask s = Some (addr, m) \<Longrightarrow> addr AND m = addr"
  by (auto simp: make_addrandmask_def Let_def split: prod.splits option.splits if_splits)

lemma max_uid_ge: "uid \<le> max_uid rid ls uid" "l \<in> set ls \<Longrightarrow> rl_res_id l = rid \<Longrightarrow> rl_user_id l \<le> max_uid rid ls uid"
proof (induction ls arbitrary: uid)
  case (Cons k ls)
  { case 1 show ?case using Cons.IH(1)[of "if rl_res_id k = rid \<and> rl_user_id k > uid then rl_user_id k else uid"] by auto }
  { case 2 then show ?case
      using Cons.IH(1)[of "if rl_res_id k = rid \<and> rl_user_id k > uid then rl_user_id k else uid"] Cons.IH(2)
      by (auto split: if_splits) }
qed auto

section \<open>Properties\<close>

text \<open>The first index above \<open>ind\<close> whose entry satisfies a condition, as the lookups report it.\<close>

definition next_hit :: "(reslink \<Rightarrow> bool) \<Rightarrow> reslink list \<Rightarrow> int \<Rightarrow> int \<times> int" where
  "next_hit hit tab ind =
     (case filter (\<lambda>k. ind < int k \<and> hit (tab ! k)) [0..<length tab] of
        [] \<Rightarrow> (- 1, max (ind + 1) (int (length tab)))
      | k # ks \<Rightarrow> (int k, int k))"

lemma link_scan_next_hit:
  assumes "- 1 \<le> ind"
  shows "link_scan hit tab (ind + 1) = next_hit hit tab ind"
proof -
  obtain r j where rj: "link_scan hit tab (ind + 1) = (r, j)" by fastforce
  have sp: "ind + 1 \<le> j" "\<And>k. nat (ind + 1) \<le> k \<Longrightarrow> k < nat j \<Longrightarrow> k < length tab \<Longrightarrow> \<not> hit (tab ! k)"
    "if j < int (length tab) then r = j \<and> hit (tab ! nat j) else r = - 1"
    using link_scan_spec[where i = "ind + 1" and hit = hit and tab = tab] rj assms by auto
  show ?thesis
  proof (cases "j < int (length tab)")
    case True
    then have r: "r = j" "hit (tab ! nat j)" "0 \<le> j" using sp(1,3) assms by auto
    have "[0..<length tab] = [0..<nat j] @ nat j # [Suc (nat j)..<length tab]"
      using True r(3) by (metis Suc_leI le_add1 nat_less_iff upt_conv_Cons upt_add_eq_append zero_le
          add_0 le_add_diff_inverse less_imp_le_nat)
    moreover have "filter (\<lambda>k. ind < int k \<and> hit (tab ! k)) [0..<nat j] = []"
      using sp(2) True assms by (auto simp: filter_empty_conv)
    ultimately show ?thesis using r rj sp(1) by (simp add: next_hit_def)
  next
    case False
    have "filter (\<lambda>k. ind < int k \<and> hit (tab ! k)) [0..<length tab] = []"
      using sp(2) False assms by (auto simp: filter_empty_conv)
    moreover have "j = max (ind + 1) (int (length tab))"
    proof -
      have "link_scan h t i = (x, y) \<Longrightarrow> int (length t) \<le> y \<Longrightarrow> y = max i (int (length t))" for h t i x y
        by (induction h t i rule: link_scan.induct) (subst (asm) (2) link_scan.simps, auto split: if_splits)
      from this[OF rj] False show ?thesis by simp
    qed
    ultimately show ?thesis using rj sp(3) False by (simp add: next_hit_def)
  qed
qed

text \<open>
  Every lookup in the gate table, called with the index of the previous hit (-1 at first),
  returns the first later gate that satisfies its condition, and -1 when there is none; so the
  callers' loops visit exactly the matching gates, in order.
\<close>

lemma lookups_next_hit:
  assumes "- 1 \<le> ind"
  shows "lookup_res rid uid ind w = next_hit (\<lambda>l. rl_res_id l = rid \<and> rl_user_id l = uid) (linktab w) ind \<and>
    lookup_accno accno ind w = next_hit (\<lambda>l. rl_accno l = accno) (linktab w) ind \<and>
    lookup_accres accno rid ind w = next_hit (\<lambda>l. rl_accno l = accno \<and> rl_res_id l = rid) (linktab w) ind \<and>
    lookup_name name ind w = next_hit (\<lambda>l. strcaseeq (rl_username l) name) (linktab w) ind \<and>
    lookup_pname name ind w = next_hit (\<lambda>l. strstr (rl_username l) name) (linktab w) ind \<and>
    lookup_baddr addr ind w = next_hit (\<lambda>l. rl_mask l \<noteq> 0 \<and> rl_addr l = addr AND rl_mask l) (linktab w) ind"
  using assms
  by (simp add: lookup_res_def lookup_accno_def lookup_accres_def lookup_name_def lookup_pname_def
      lookup_baddr_def link_scan_next_hit)

text \<open>A table of two address gates and a login.\<close>

definition demo_gates :: gates where
  "demo_gates = dbs.extend
     \<lparr>files = Map.empty, fdt = Map.empty, nextfd = 3, script = [], clock = (\<lambda>_. None), ticks = 0,
      zcrc32 = (\<lambda>_. 0), junk = (\<lambda>_. 0), sqr = sqr_none\<rparr>
     (gates.fields
       [\<lparr>rl_res_id = 0, rl_user_id = 0, rl_accno = 7, rl_username = ''10.0.0.0/8'', rl_allow = True,
         rl_addr = 0x0000000A, rl_mask = 0x000000FF\<rparr>,
        \<lparr>rl_res_id = 5, rl_user_id = 0, rl_accno = 8, rl_username = ''joe'', rl_allow = True,
         rl_addr = 0, rl_mask = 0\<rparr>,
        \<lparr>rl_res_id = 0, rl_user_id = 1, rl_accno = 7, rl_username = ''11.0.0.1/32'', rl_allow = True,
         rl_addr = 0x0100000B, rl_mask = 0xFFFFFFFF\<rparr>]
       ''gates'' ''gates.tmp'' ''gates.lock'')"

lemma lookups_next_hit_witness:
  "lookup_accno 7 0 demo_gates = (2, 2) \<and> lookup_res 5 0 (- 1) demo_gates = (1, 1)"
proof -
  have "lookup_accno 7 0 demo_gates = next_hit (\<lambda>l. rl_accno l = 7) (linktab demo_gates) 0"
    "lookup_res 5 0 (- 1) demo_gates =
       next_hit (\<lambda>l. rl_res_id l = 5 \<and> rl_user_id l = 0) (linktab demo_gates) (- 1)"
    using lookups_next_hit[of 0 0 0 demo_gates 7 "[]" 0]
      lookups_next_hit[of "- 1" 5 0 demo_gates 0 "[]" 0] by simp_all
  moreover have "next_hit (\<lambda>l. rl_accno l = 7) (linktab demo_gates) 0 = (2, 2)"
    "next_hit (\<lambda>l. rl_res_id l = 5 \<and> rl_user_id l = 0) (linktab demo_gates) (- 1) = (1, 1)"
    by (simp_all add: next_hit_def demo_gates_def dbs.defs gates.defs upt_rec)
  ultimately show ?thesis by simp
qed

lemma htonl_htonl: "htonl (htonl x) = x"
proof -
  have u: "le_bytes 4 (unat (htonl x)) = rev (le_bytes 4 (unat x))"
    unfolding htonl_def using un_le_bound[of "rev (le_bytes 4 (unat x))"]
    by (simp add: unat_of_nat take_bit_nat_eq_self le_bytes_un_le)
  have "un_le (le_bytes 4 (unat x)) = unat x"
    using unsigned_less[of x, where 'a = nat] by (simp add: un_le_bytes)
  with u show ?thesis unfolding htonl_def[of "htonl x"] by simp
qed

definition host_mask :: "int \<Rightarrow> u32" where
  "host_mask b = (if b < 1 then 0 else if b \<ge> 32 then 0xffffffff else push_bit (nat (32 - b)) 0xffffffff)"

lemma make_addr_mask_host: "make_addr_mask b = htonl (host_mask b)"
proof -
  have "htonl 0 = 0" "htonl 0xffffffff = 0xffffffff"
    by (simp_all add: htonl_def le_bytes_4)
  then show ?thesis by (simp add: make_addr_mask_def host_mask_def)
qed

lemma bits_cases:
  fixes b :: int
  assumes "0 \<le> b" "b \<le> 32" "\<And>n. n < 33 \<Longrightarrow> b = int n \<Longrightarrow> P"
  shows P
  using assms(3)[of "nat b"] assms(1,2) by simp

lemma mask2bits_all: "list_all (\<lambda>n. mask2bits (htonl (host_mask (int n))) = int n) [0..<33]"
  by (simp add: mask2bits_def Let_def htonl_htonl host_mask_def upt_rec)

lemma mask2bits_cases:
  "mask2bits m = - 1 \<or> 0 \<le> mask2bits m \<and> mask2bits m \<le> 32 \<and> htonl m = host_mask (mask2bits m)"
  by (simp add: mask2bits_def Let_def host_mask_def)

text \<open>
  The number of bits and the mask in network byte order determine each other: for every
  length from 0 to 32 \<open>mask2bits\<close> undoes \<open>make_addr_mask\<close>, and \<open>mask2bits\<close> reports a length only
  for the masks that \<open>make_addr_mask\<close> makes.
\<close>

lemma mask_bits_roundtrip:
  "(0 \<le> b \<and> b \<le> 32 \<longrightarrow> mask2bits (make_addr_mask b) = b) \<and>
   (mask2bits m \<noteq> - 1 \<longrightarrow> make_addr_mask (mask2bits m) = m)"
proof (intro conjI impI)
  assume "0 \<le> b \<and> b \<le> 32"
  then have "0 \<le> b" "b \<le> 32" by auto
  then show "mask2bits (make_addr_mask b) = b"
    by (rule bits_cases) (use mask2bits_all in \<open>auto simp: list_all_iff make_addr_mask_host simp del: upt_rec_numeral\<close>)
next
  assume "mask2bits m \<noteq> - 1"
  then have "htonl (htonl m) = htonl (host_mask (mask2bits m))"
    using mask2bits_cases[of m] by simp
  then show "make_addr_mask (mask2bits m) = m" by (simp add: htonl_htonl make_addr_mask_host)
qed

lemma mask_bits_roundtrip_witness:
  "mask2bits (make_addr_mask 20) = 20"
  using mask_bits_roundtrip[of 20 0] by simp

lemma linktab_next_outcome [simp]: "linktab (snd (next_outcome w)) = linktab w"
  by (auto simp: next_outcome_def split: list.splits)

lemma alloc_linktab: "sys_alloc w = (mem, w') \<Longrightarrow> linktab w' = linktab w"
  by (cases "next_outcome w") (use linktab_next_outcome[of w] in \<open>auto simp: sys_alloc_def\<close>)

lemma max_uid_less: "uid < B \<Longrightarrow> \<forall>l \<in> set ls. rl_user_id l < B \<Longrightarrow> max_uid rid ls uid < B"
  by (induction ls arbitrary: uid) auto

definition fresh_uid :: "int \<Rightarrow> reslink list \<Rightarrow> int" where
  "fresh_uid rid tab = i32 (max_uid rid tab (- 1) + 1)"

lemma fresh_uid_new:
  assumes "\<forall>l \<in> set tab. rl_user_id l < 2 ^ 31 - 1" "l \<in> set tab" "rl_res_id l = rid"
  shows "rl_user_id l < fresh_uid rid tab"
proof -
  have "max_uid rid tab (- 1) < 2 ^ 31 - 1" using assms(1) by (intro max_uid_less) auto
  moreover have "- 1 \<le> max_uid rid tab (- 1)" by (rule max_uid_ge(1))
  ultimately have "in_i32 (max_uid rid tab (- 1) + 1)" by (simp add: in_i32_def)
  with max_uid_ge(2)[OF assms(2,3), of "- 1"] show ?thesis by (simp add: fresh_uid_def i32_id)
qed

text \<open>The outcomes of \<open>reslink_new\<close>: nothing, or one more gate, checked when it has an address.\<close>

lemma reslink_new_cases:
  assumes "reslink_new rid accno name w = (rc, w')"
  shows "rc = - 1 \<and> linktab w' = linktab w \<or>
    rc = 0 \<and> (\<exists>k. linktab w' = linktab w @ [k] \<and> rl_res_id k = rid \<and> rl_accno k = accno \<and> rl_allow k \<and>
      rl_user_id k = fresh_uid rid (linktab w) \<and>
      (if res_faddr rid
       then make_addrandmask name = Some (rl_addr k, rl_mask k) \<and>
            (\<forall>l \<in> set (linktab w). \<not> link_intersects (rl_addr k) (rl_mask k) l) \<and>
            rl_username k = inet_ident (rl_addr k) (rl_mask k)
       else rl_addr k = 0 \<and> rl_mask k = 0 \<and> rl_username k = name))"
proof -
  obtain m1 w1 where w1: "sys_alloc w = (m1, w1)" by fastforce
  obtain m2 w2 where w2: "sys_alloc w1 = (m2, w2)" by fastforce
  obtain m3 w3 where w3: "sys_alloc w2 = (m3, w3)" by fastforce
  note tab = alloc_linktab[OF w1] alloc_linktab[OF w2] alloc_linktab[OF w3]
  show ?thesis
  proof (cases "m1 \<and> res_faddr rid")
    case False
    with assms tab w1 w2 show ?thesis
      by (auto simp: reslink_new_def Let_def reslink_zero_def fresh_uid_def split: if_splits)
  next
    case True
    show ?thesis
    proof (cases "make_addrandmask name")
      case None
      with True assms tab w1 show ?thesis by (auto simp: reslink_new_def Let_def)
    next
      case (Some am)
      then obtain addr m where am: "make_addrandmask name = Some (addr, m)" by (cases am) auto
      show ?thesis
      proof (cases "m2 \<and> fst (lookup_intersect addr m None w2) < 0")
        case False
        with True am assms tab w1 w2 show ?thesis
          by (auto simp: reslink_new_def Let_def split: if_splits)
      next
        case m2: True
        then have "\<forall>l \<in> set (linktab w). \<not> link_intersects addr m l"
          using intersect_none[of addr m w2] tab by auto
        with True am assms tab w1 w2 w3 m2 show ?thesis
          by (auto simp: reslink_new_def Let_def reslink_zero_def fresh_uid_def split: if_splits)
      qed
    qed
  qed
qed

text \<open>
  C26: Adding a gate with \<open>reslink_new\<close> keeps the networks of the table in normal form and
  pairwise disjoint; it changes nothing when it fails, and when it succeeds it appends one gate
  of the account, in force, whose user number is new for the resource.
\<close>

theorem reslink_new_keeps_disjoint:
  assumes "reslink_new rid accno name w = (rc, w')" "nets_disjoint (linktab w)"
    and "\<forall>l \<in> set (linktab w). rl_user_id l < 2 ^ 31 - 1"
  shows "nets_disjoint (linktab w') \<and>
    (rc = 0 \<and> (\<exists>k. linktab w' = linktab w @ [k] \<and> rl_res_id k = rid \<and> rl_accno k = accno \<and> rl_allow k \<and>
       (\<forall>l \<in> set (linktab w). rl_res_id l = rid \<longrightarrow> rl_user_id l \<noteq> rl_user_id k))
     \<or> rc = - 1 \<and> linktab w' = linktab w)"
proof -
  consider "rc = - 1" "linktab w' = linktab w"
    | k where "rc = 0" "linktab w' = linktab w @ [k]" "rl_res_id k = rid" "rl_accno k = accno" "rl_allow k"
        "rl_user_id k = fresh_uid rid (linktab w)" "net_ok k" "\<forall>l \<in> set (linktab w). disjoint_nets l k"
  proof (cases "rc = - 1 \<and> linktab w' = linktab w")
    case False
    with reslink_new_cases[OF assms(1)] obtain k where
      k: "rc = 0" "linktab w' = linktab w @ [k]" "rl_res_id k = rid" "rl_accno k = accno" "rl_allow k"
        "rl_user_id k = fresh_uid rid (linktab w)"
      and a: "if res_faddr rid
       then make_addrandmask name = Some (rl_addr k, rl_mask k) \<and>
            (\<forall>l \<in> set (linktab w). \<not> link_intersects (rl_addr k) (rl_mask k) l)
       else rl_addr k = 0 \<and> rl_mask k = 0"
      by (auto split: if_splits)
    have ok: "net_ok k" using a make_addrandmask_net by (auto simp: net_ok_def split: if_splits)
    have "net_ok l" if "l \<in> set (linktab w)" for l
      using nets_disjoint_ok[OF assms(2) that] .
    then have "\<forall>l \<in> set (linktab w). disjoint_nets l k"
      using a ok not_intersects_disjoint[of k] by (auto simp: disjoint_nets_def split: if_splits)
    with k ok show ?thesis using that(2) by blast
  qed (use that(1) in blast)
  then show ?thesis
  proof cases
    case 1
    with assms(2) show ?thesis by simp
  next
    case 2
    then have "nets_disjoint (linktab w')" using assms(2) by (simp add: nets_disjoint_snoc)
    moreover have "rl_user_id l \<noteq> rl_user_id k" if "l \<in> set (linktab w)" "rl_res_id l = rid" for l
      using fresh_uid_new[OF assms(3) that] 2(6) by simp
    ultimately show ?thesis using 2 by blast
  qed
qed

lemma demo_gates_disjoint: "nets_disjoint (linktab demo_gates)"
proof -
  have "h AND 0xFF = 0x0000000A \<Longrightarrow> h \<noteq> 0x0100000B" for h :: u32 by auto
  then show ?thesis
    by (auto simp: demo_gates_def dbs.defs gates.defs net_ok_def disjoint_nets_def)
qed

theorem reslink_new_keeps_disjoint_witness:
  "nets_disjoint (linktab (snd (reslink_new 5 9 ''jim'' demo_gates)))"
proof -
  have u: "\<forall>l \<in> set (linktab demo_gates). rl_user_id l < 2 ^ 31 - 1"
    by (simp add: demo_gates_def dbs.defs gates.defs)
  obtain rc w' where e: "reslink_new 5 9 ''jim'' demo_gates = (rc, w')" by fastforce
  from reslink_new_keeps_disjoint[OF e demo_gates_disjoint u] e show ?thesis by simp
qed

text \<open>
  \<open>reslink_del\<close> removes exactly the gate with the given index, whatever happens to memory,
  refuses an index outside the table, and so keeps the networks disjoint.
\<close>

lemma reslink_del_removes:
  "case reslink_del index w of (rc, w') \<Rightarrow>
     (if 0 \<le> index \<and> index < int (length (linktab w))
      then rc = 0 \<and> linktab w' = take (nat index) (linktab w) @ drop (nat index + 1) (linktab w)
      else rc = - 1 \<and> w' = w) \<and>
     (nets_disjoint (linktab w) \<longrightarrow> nets_disjoint (linktab w'))"
proof -
  have rem: "nets_disjoint (linktab w) \<Longrightarrow>
      nets_disjoint (take (nat index) (linktab w) @ drop (nat index + 1) (linktab w))"
    using nets_disjoint_remove[of "take (nat index) (linktab w)" "take 1 (drop (nat index) (linktab w))"
        "drop (nat index + 1) (linktab w)"]
    by (metis append_take_drop_id drop_drop add.commute)
  obtain m w1 where w1: "sys_alloc (w\<lparr>linktab := take (nat index) (linktab w) @ drop (nat index + 1) (linktab w)\<rparr>)
      = (m, w1)" by fastforce
  from alloc_linktab[OF w1] rem w1 show ?thesis
    by (auto simp: reslink_del_def Let_def split: prod.splits)
qed

lemma reslink_del_removes_witness:
  "nets_disjoint (linktab (snd (reslink_del 1 demo_gates)))"
  using reslink_del_removes[of 1 demo_gates] demo_gates_disjoint by (auto split: prod.splits)

end
