(* ===== verification/G3c.thy ===== *)
theory G3c
  imports Strings
begin

text \<open>
  Configuration files (\<open>src/src/bee/lib/bee/g3c.c\<close>, \<open>include/g3c.h\<close>): sections of named
  parameters and subsections, written as \<open>name = value\<close> lines inside braces.  Here are the
  parser, the check of a section against the rules of the program, and the functions that walk
  and read the parsed tree.  Pointers into the tree are replaced by the parts themselves: a
  position holds the section it is in and the stack of the sections above it, and the parser
  the section it is filling and the open ones around it.  Messages to the system log are left
  out, and so is the tree a failed parse leaves behind (its users free it unread).
\<close>

abbreviation (input) EX_OSERR :: int where "EX_OSERR \<equiv> 71"
abbreviation (input) EX_CONFIG :: int where "EX_CONFIG \<equiv> 78"
abbreviation (input) G3C_DEPTH :: nat where "G3C_DEPTH \<equiv> 8"
abbreviation (input) NAME_LEN :: nat where "NAME_LEN \<equiv> 40"
abbreviation (input) VALUE_LEN :: nat where "VALUE_LEN \<equiv> 128"

section \<open>The tree\<close>

datatype g3c_type = PT_STRING | PT_INTEGER | PT_LONGLONG

datatype g3c_value = VStr string | VInt int | VLong int

record g3c_param =
  p_name :: string
  p_value :: g3c_value
  p_fdef :: bool
  p_line :: int

datatype g3c_section =
  Section (s_params: "g3c_param list") (s_sections: "g3c_section list") (s_fdef: bool) (s_line: int)

definition value_type :: "g3c_value \<Rightarrow> g3c_type" where
  "value_type v = (case v of VStr _ \<Rightarrow> PT_STRING | VInt _ \<Rightarrow> PT_INTEGER | VLong _ \<Rightarrow> PT_LONGLONG)"

text \<open>
  \<open>g3c_castvalue\<close> looks at the wanted type only: whatever the value is, a string is made from
  the \<open>int\<close> at its address and a number from the C string there.
\<close>

definition value_int :: "g3c_value \<Rightarrow> int" where
  "value_int v = (case v of
      VStr s \<Rightarrow> i32 (int (un_le (take 4 (map (\<lambda>c. word_of_nat (of_char c)) s @ [0, 0, 0, 0]))))
    | VInt i \<Rightarrow> i
    | VLong l \<Rightarrow> i32 l)"

definition value_text :: "g3c_value \<Rightarrow> string" where
  "value_text v = (case v of
      VStr s \<Rightarrow> s
    | VInt i \<Rightarrow> c_str (map (\<lambda>b. char_of (unat b)) (le_bytes 4 (nat (i mod 2 ^ 32))))
    | VLong l \<Rightarrow> c_str (map (\<lambda>b. char_of (unat b)) (le_bytes 8 (nat (l mod 2 ^ 64)))))"

definition g3c_castvalue :: "g3c_value \<Rightarrow> g3c_type \<Rightarrow> g3c_value" where
  "g3c_castvalue v t = (case t of
      PT_STRING \<Rightarrow> VStr (dec_int (value_int v))
    | PT_INTEGER \<Rightarrow> VInt (fst (strtol (value_text v) 0))
    | PT_LONGLONG \<Rightarrow> VLong (strtoll (value_text v) 0))"

definition section_param :: "g3c_section \<Rightarrow> string \<Rightarrow> g3c_param option" where
  "section_param s name = find (\<lambda>p. strcaseeq (p_name p) name) (s_params s)"

text \<open>\<open>line = -1\<close> marks what the rules added by default.\<close>

definition g3c_newsect :: "g3c_section \<Rightarrow> int \<Rightarrow> 'a os_scheme \<Rightarrow> g3c_section option \<times> 'a os_scheme" where
  "g3c_newsect parent line w = (case sys_alloc w of (mem, w) \<Rightarrow>
     (if mem then Some (Section [] [] (line = - 1) line) else None, w))"

text \<open>\<open>g3c_newparam\<close> with non-null arguments: the array, the name and the value are allocated.\<close>

definition g3c_newparam ::
  "g3c_section \<Rightarrow> string \<Rightarrow> g3c_value \<Rightarrow> int \<Rightarrow> 'a os_scheme \<Rightarrow> int \<times> g3c_section \<times> 'a os_scheme" where
  "g3c_newparam parent name val line w =
     (case sys_alloc w of (mem, w) \<Rightarrow>
      if \<not> mem then (EX_OSERR, parent, w)
      else (case sys_alloc w of (mem, w) \<Rightarrow>
       if \<not> mem then (EX_OSERR, parent, w)
       else (case sys_alloc w of (mem, w) \<Rightarrow>
        if \<not> mem then (EX_OSERR, parent, w)
        else (0, Section (s_params parent @
                   [\<lparr>p_name = name, p_value = val, p_fdef = (line = - 1), p_line = line\<rparr>])
                 (s_sections parent) (s_fdef parent) (s_line parent), w))))"

section \<open>Positions\<close>

record g3c_pos =
  gp_config :: "g3c_section option"
  gp_section :: g3c_section
  gp_index :: int
  gp_pindex :: int
  gp_up :: "(g3c_section \<times> int) list"

definition g3c_reset :: "g3c_pos \<Rightarrow> g3c_section option \<Rightarrow> int \<times> g3c_pos" where
  "g3c_reset pos config =
     (let cfg = (case config of None \<Rightarrow> gp_config pos | Some c \<Rightarrow> Some c)
      in case cfg of
           None \<Rightarrow> (- 1, pos)
         | Some c \<Rightarrow> (0, \<lparr>gp_config = cfg, gp_section = c, gp_index = 0, gp_pindex = 0, gp_up = []\<rparr>))"

definition g3c_first :: "g3c_pos \<Rightarrow> g3c_pos" where
  "g3c_first pos = pos\<lparr>gp_index := 0\<rparr>"

definition g3c_firstparam :: "g3c_pos \<Rightarrow> g3c_pos" where
  "g3c_firstparam pos = pos\<lparr>gp_pindex := 0\<rparr>"

text \<open>
  The stacks of a position have room for eight entries, the test admits a ninth: the write of its index lands on the
  first stacked section, the write of its section behind the position.  That is undefined, \<open>None\<close>.\<close>

definition g3c_next :: "g3c_pos \<Rightarrow> (int \<times> g3c_pos) option" where
  "g3c_next pos =
     (if gp_index pos \<ge> int (length (s_sections (gp_section pos))) then Some (- 1, pos)
      else if length (gp_up pos) > G3C_DEPTH then Some (- 1, pos)
      else if length (gp_up pos) = G3C_DEPTH then None
      else Some (0, pos\<lparr>gp_up := (gp_section pos, gp_index pos + 1) # gp_up pos,
                   gp_section := s_sections (gp_section pos) ! nat (gp_index pos),
                   gp_index := 0, gp_pindex := 0\<rparr>))"

definition g3c_uplevel :: "g3c_pos \<Rightarrow> int \<times> g3c_pos" where
  "g3c_uplevel pos = (case gp_up pos of
      [] \<Rightarrow> (- 1, pos)
    | (s, i) # up \<Rightarrow> (0, pos\<lparr>gp_up := up, gp_section := s, gp_index := i, gp_pindex := 0\<rparr>))"

definition g3c_getvalue :: "g3c_pos \<Rightarrow> string \<Rightarrow> g3c_type \<Rightarrow> g3c_value option" where
  "g3c_getvalue pos name t = (case section_param (gp_section pos) name of
      None \<Rightarrow> None
    | Some p \<Rightarrow> Some (if value_type (p_value p) = t then p_value p else g3c_castvalue (p_value p) t))"

definition g3c_getparam :: "g3c_pos \<Rightarrow> string \<Rightarrow> g3c_param option" where
  "g3c_getparam pos name = section_param (gp_section pos) name"

definition g3c_allocvalue ::
  "g3c_pos \<Rightarrow> string \<Rightarrow> g3c_type \<Rightarrow> 'a os_scheme \<Rightarrow> g3c_value option \<times> 'a os_scheme" where
  "g3c_allocvalue pos name t w = (case g3c_getvalue pos name t of
      None \<Rightarrow> (None, w)
    | Some v \<Rightarrow> (case sys_alloc w of (mem, w) \<Rightarrow> (if mem then Some v else None, w)))"

definition g3c_string :: "g3c_pos \<Rightarrow> string \<Rightarrow> 'a os_scheme \<Rightarrow> string option \<times> 'a os_scheme" where
  "g3c_string pos name w = (case g3c_allocvalue pos name PT_STRING w of (v, w) \<Rightarrow>
     (map_option value_text v, w))"

definition g3c_integer :: "g3c_pos \<Rightarrow> string \<Rightarrow> int option" where
  "g3c_integer pos name = map_option value_int (g3c_getvalue pos name PT_INTEGER)"

definition g3c_longlong :: "g3c_pos \<Rightarrow> string \<Rightarrow> int option" where
  "g3c_longlong pos name = (case g3c_getvalue pos name PT_LONGLONG of
     Some (VLong l) \<Rightarrow> Some l | _ \<Rightarrow> None)"

text \<open>
  The next subsection of a type.  The parser gives every section a type; comparing with the
  null pointer of a section without one is undefined, and such a section is passed over here.
\<close>

definition has_type :: "string \<Rightarrow> g3c_pos \<Rightarrow> bool" where
  "has_type name pos = (case g3c_getvalue pos ''type'' PT_STRING of
      Some (VStr s) \<Rightarrow> strcaseeq s name | _ \<Rightarrow> False)"

function g3c_nextn :: "string \<Rightarrow> g3c_pos \<Rightarrow> (int \<times> g3c_pos) option" where
  "g3c_nextn name pos = (case g3c_next pos of
       None \<Rightarrow> None
     | Some r \<Rightarrow> (if fst r < 0 then Some r
         else if has_type name (snd r) then Some (0, snd r)
         else g3c_nextn name (snd (g3c_uplevel (snd r)))))"
  by pat_completeness auto
termination
  by (relation "measure (\<lambda>(_, pos). nat (int (length (s_sections (gp_section pos))) - gp_index pos))")
     (auto simp: g3c_next_def g3c_uplevel_def split: if_splits)

declare g3c_nextn.simps [simp del]

section \<open>Rules\<close>

record ruleparam =
  rp_name :: string
  rp_type :: g3c_type
  rp_required :: bool
  rp_defvalue :: "g3c_value option"
  rp_vmin :: int
  rp_vmax :: int
  rp_pvl :: "string list option"
  rp_check :: "(g3c_value \<Rightarrow> int) option"

text \<open>A rule without a type ends a list of rules.\<close>

datatype rulesec =
  RuleSec (r_type: "string option") (r_params: "ruleparam list") (r_sections: "rulesec list")
    (r_def: bool) (r_required: bool)

fun find_rule :: "string \<Rightarrow> rulesec list \<Rightarrow> rulesec option" where
  "find_rule t [] = None"
| "find_rule t (r # rs) = (case r_type r of
      None \<Rightarrow> None
    | Some rt \<Rightarrow> if strcaseeq t rt then Some r else find_rule t rs)"

text \<open>The value of a parameter after the type cast: its range, length, list and check function.\<close>

definition check_fails :: "ruleparam \<Rightarrow> g3c_value \<Rightarrow> bool" where
  "check_fails r v = (case rp_check r of None \<Rightarrow> False | Some f \<Rightarrow> f v \<noteq> 0)"

definition check_value :: "ruleparam \<Rightarrow> g3c_value \<Rightarrow> int \<times> g3c_value" where
  "check_value r v = (case v of
      VStr s \<Rightarrow>
        (let s = (if int (length s) > rp_vmax r then take (nat (rp_vmax r)) s else s)
         in if (case rp_pvl r of None \<Rightarrow> False | Some vs \<Rightarrow> vs \<noteq> [] \<and> s \<notin> set vs) then (EX_CONFIG, VStr s)
            else if check_fails r (VStr s) then (EX_CONFIG, VStr s)
            else (0, VStr s))
    | VInt i \<Rightarrow>
        (if i > rp_vmax r \<or> i < rp_vmin r \<or> check_fails r v then (EX_CONFIG, v) else (0, v))
    | VLong l \<Rightarrow>
        (if l > rp_vmax r \<or> l < rp_vmin r \<or> check_fails r v then (EX_CONFIG, v) else (0, v)))"

text \<open>Replacing the value of the first parameter of a name.\<close>

fun put_value :: "string \<Rightarrow> g3c_value \<Rightarrow> g3c_param list \<Rightarrow> g3c_param list" where
  "put_value name v [] = []"
| "put_value name v (p # ps) =
     (if strcaseeq (p_name p) name then p\<lparr>p_value := v\<rparr> # ps else p # put_value name v ps)"

definition set_value :: "string \<Rightarrow> g3c_value \<Rightarrow> g3c_section \<Rightarrow> g3c_section" where
  "set_value name v s = Section (put_value name v (s_params s)) (s_sections s) (s_fdef s) (s_line s)"

definition check_param :: "ruleparam \<Rightarrow> g3c_section \<Rightarrow> 'a os_scheme \<Rightarrow> int \<times> g3c_section \<times> 'a os_scheme" where
  "check_param r sec w = (case section_param sec (rp_name r) of
      None \<Rightarrow>
        if rp_required r then (EX_CONFIG, sec, w)
        else (case rp_defvalue r of
            None \<Rightarrow> (0, sec, w)
          | Some v \<Rightarrow> g3c_newparam sec (rp_name r) v (- 1) w)
    | Some p \<Rightarrow>
        (case (if rp_type r \<noteq> value_type (p_value p)
               then (case sys_alloc w of (mem, w) \<Rightarrow>
                 (if mem then Some (g3c_castvalue (p_value p) (rp_type r)) else None, w))
               else (Some (p_value p), w)) of
            (None, w) \<Rightarrow> (EX_OSERR, sec, w)
          | (Some v, w) \<Rightarrow> (case check_value r v of (rc, v) \<Rightarrow> (rc, set_value (rp_name r) v sec, w))))"

fun check_params :: "ruleparam list \<Rightarrow> g3c_section \<Rightarrow> 'a os_scheme \<Rightarrow> int \<times> g3c_section \<times> 'a os_scheme" where
  "check_params [] sec w = (0, sec, w)"
| "check_params (r # rs) sec w = (case check_param r sec w of (rc, sec, w) \<Rightarrow>
     if rc \<noteq> 0 then (rc, sec, w) else check_params rs sec w)"

definition add_section :: "g3c_section \<Rightarrow> g3c_section \<Rightarrow> g3c_section" where
  "add_section s sub = Section (s_params s) (s_sections s @ [sub]) (s_fdef s) (s_line s)"

definition at_section :: "g3c_section \<Rightarrow> g3c_pos" where
  "at_section s = \<lparr>gp_config = Some s, gp_section = s, gp_index = 0, gp_pindex = 0, gp_up = []\<rparr>"

lemma find_rule_size: "find_rule t rs = Some r \<Longrightarrow> size r \<le> size_list size rs"
  by (induction rs) (auto split: option.splits if_splits)

lemma r_sections_size: "size_list size (r_sections r) < size r"
  by (cases r) simp

text \<open>
  \<open>g3c_rulecheck\<close> and its loop over the rules of the subsections.  A subsection that is added
  by default is checked against the rules from its own on.
\<close>

function g3c_rulecheck :: "g3c_section \<Rightarrow> rulesec list \<Rightarrow> 'a os_scheme \<Rightarrow> int \<times> g3c_section \<times> 'a os_scheme"
  and check_sections :: "rulesec list \<Rightarrow> g3c_section \<Rightarrow> 'a os_scheme \<Rightarrow> int \<times> g3c_section \<times> 'a os_scheme" where
  "g3c_rulecheck sec rules w = (case g3c_getvalue (at_section sec) ''type'' PT_STRING of
      None \<Rightarrow> (EX_CONFIG, sec, w)
    | Some t \<Rightarrow> (case find_rule (value_text t) rules of
          None \<Rightarrow> (0, sec, w)
        | Some r \<Rightarrow> (case check_params (r_params r) sec w of (rc, sec, w) \<Rightarrow>
            if rc \<noteq> 0 then (rc, sec, w) else check_sections (r_sections r) sec w)))"
| "check_sections [] sec w = (0, sec, w)"
| "check_sections (r # rs) sec w = (case r_type r of
      None \<Rightarrow> check_sections rs sec w
    | Some t \<Rightarrow>
        if map_option fst (g3c_nextn t (at_section sec)) = Some 0 then check_sections rs sec w
        else if r_required r then (EX_CONFIG, sec, w)
        else if \<not> r_def r then check_sections rs sec w
        else (case g3c_newsect sec (- 1) w of
            (None, w) \<Rightarrow> (EX_OSERR, sec, w)
          | (Some sub, w) \<Rightarrow> (case g3c_newparam sub ''type'' (VStr t) (- 1) w of (rc, sub, w) \<Rightarrow>
              if rc \<noteq> 0 then (EX_OSERR, add_section sec sub, w)
              else (case g3c_rulecheck sub (r # rs) w of (_, sub, w) \<Rightarrow>
                check_sections rs (add_section sec sub) w))))"
  by pat_completeness auto
termination
proof (relation "measure (\<lambda>x. case x of
    Inl (_, rules, _) \<Rightarrow> 2 * size_list size rules + 1 | Inr (rules, _, _) \<Rightarrow> 2 * size_list size rules + 2)")
  fix sec :: g3c_section and rules :: "rulesec list" and w w' :: "'a os_scheme" and t r p rc q sec'
  assume "find_rule (value_text t) rules = Some r"
  then show "(Inr (r_sections r, sec', w'), Inl (sec, rules, w)) \<in> measure (\<lambda>x. case x of
    Inl (_, rules, _) \<Rightarrow> 2 * size_list size rules + 1 | Inr (rules, _, _) \<Rightarrow> 2 * size_list size rules + 2)"
    using find_rule_size[of _ rules r] r_sections_size[of r] by fastforce
qed auto

declare g3c_rulecheck.simps [simp del] check_sections.simps [simp del]

section \<open>The parser\<close>

record g3c_scan =
  q_line :: int
  q_comment :: bool
  q_mlcomment :: bool
  q_mlbreak :: int
  q_escape :: bool
  q_quotes :: bool
  q_pname :: string
  q_ptok :: string
  q_tlim :: nat
  q_splen :: nat
  q_sec :: g3c_section
  q_up :: "g3c_section list"

definition pname_set :: "g3c_scan \<Rightarrow> bool" where
  "pname_set q \<longleftrightarrow> c_str (q_pname q) \<noteq> []"

text \<open>A character of a token, after the blanks before it: dropped when the token is full.\<close>

definition add_char :: "char \<Rightarrow> g3c_scan \<Rightarrow> g3c_scan" where
  "add_char c q =
     (if length (q_ptok q) + q_splen q < q_tlim q
      then q\<lparr>q_ptok := q_ptok q @ replicate (q_splen q) (CHR '' '') @ [c], q_splen := 0\<rparr>
      else q)"

text \<open>The end of a parameter: its name and value go to the section.\<close>

definition end_param :: "g3c_scan \<Rightarrow> 'a os_scheme \<Rightarrow> g3c_scan \<times> 'a os_scheme" where
  "end_param q w =
     (case g3c_newparam (q_sec q) (c_str (q_pname q)) (VStr (c_str (q_ptok q))) (q_line q) w of (_, sec, w) \<Rightarrow>
       (q\<lparr>q_sec := sec, q_pname := [], q_ptok := [], q_splen := 0, q_tlim := NAME_LEN\<rparr>, w))"

definition end_param_if :: "g3c_scan \<Rightarrow> 'a os_scheme \<Rightarrow> g3c_scan \<times> 'a os_scheme" where
  "end_param_if q w = (if q_ptok q \<noteq> [] then end_param q w else (q, w))"

definition open_section :: "g3c_scan \<Rightarrow> 'a os_scheme \<Rightarrow> int \<times> g3c_scan \<times> 'a os_scheme" where
  "open_section q w = (case g3c_newsect (q_sec q) (q_line q) w of
      (None, w) \<Rightarrow> (0, q, w)
    | (Some sub, w) \<Rightarrow>
        if length (q_up q) < G3C_DEPTH
        then (0, q\<lparr>q_up := q_sec q # q_up q, q_sec := sub, q_pname := ''type'', q_tlim := VALUE_LEN\<rparr>, w)
        else (EX_CONFIG, q, w))"

definition close_section :: "rulesec list \<Rightarrow> g3c_scan \<Rightarrow> 'a os_scheme \<Rightarrow> int \<times> g3c_scan \<times> 'a os_scheme" where
  "close_section rul q w = (case q_up q of
      [] \<Rightarrow> (EX_CONFIG, q, w)
    | parent # up \<Rightarrow> (case g3c_rulecheck (q_sec q) rul w of (rc, sec, w) \<Rightarrow>
        if rc \<noteq> 0 then (EX_CONFIG, q, w)
        else (0, q\<lparr>q_up := up, q_sec := add_section parent sec\<rparr>, w)))"

text \<open>A character outside comments, escapes and quotes; \<open>next\<close> is the one after it.\<close>

definition g3c_plain :: "rulesec list \<Rightarrow> char \<Rightarrow> char option \<Rightarrow> g3c_scan \<Rightarrow> 'a os_scheme \<Rightarrow>
    int \<times> g3c_scan \<times> 'a os_scheme" where
  "g3c_plain rul c nxt q w =
     (if c = CHR '' '' \<or> c = CHR 0x09 then
        (0, if q_ptok q \<noteq> [] \<and> length (q_ptok q) + q_splen q < q_tlim q
            then q\<lparr>q_splen := q_splen q + 1\<rparr> else q, w)
      else if c = CHR 0x22 then (0, q\<lparr>q_quotes := True\<rparr>, w)
      else if c = CHR ''='' then
        (if pname_set q \<or> q_ptok q = [] then (EX_CONFIG, q, w)
         else (0, q\<lparr>q_pname := q_ptok q, q_ptok := [], q_splen := 0, q_tlim := VALUE_LEN\<rparr>, w))
      else if c = CHR 0x0A \<or> c = CHR 0x0D then
        (if q_ptok q = [] \<and> \<not> pname_set q then (0, q, w)
         else if q_ptok q \<noteq> [] \<and> pname_set q then (case end_param q w of (q, w) \<Rightarrow> (0, q, w))
         else (EX_CONFIG, q, w))
      else if c = CHR ''{'' then
        (if (q_ptok q = []) \<noteq> (\<not> pname_set q) then (EX_CONFIG, q, w)
         else (case end_param_if q w of (q, w) \<Rightarrow> open_section q w))
      else if c = CHR ''}'' then
        (if (q_ptok q = []) \<noteq> (\<not> pname_set q) then (EX_CONFIG, q, w)
         else (case end_param_if q w of (q, w) \<Rightarrow> close_section rul q w))
      else if c = CHR ''#'' then
        (if (q_ptok q = []) \<noteq> (\<not> pname_set q) then (EX_CONFIG, q, w)
         else (case end_param_if q w of (q, w) \<Rightarrow>
           (0, if nxt = Some (CHR ''#'') then q\<lparr>q_mlcomment := True, q_mlbreak := 0\<rparr>
               else q\<lparr>q_comment := True\<rparr>, w)))
      else if c = CHR 0x5C then (0, q\<lparr>q_escape := True\<rparr>, w)
      else (0, add_char c q, w))"

definition g3c_char :: "rulesec list \<Rightarrow> char \<Rightarrow> char option \<Rightarrow> g3c_scan \<Rightarrow> 'a os_scheme \<Rightarrow>
    int \<times> g3c_scan \<times> 'a os_scheme" where
  "g3c_char rul c nxt q w =
     (let q = (if c = CHR 0x0A then q\<lparr>q_line := q_line q + 1\<rparr> else q);
          eol = (c = CHR 0x0A \<or> c = CHR 0x0D)
      in if q_comment q then (0, if eol then q\<lparr>q_comment := False\<rparr> else q, w)
         else if q_mlcomment q then
           (0, if eol then q\<lparr>q_mlbreak := 1\<rparr>
               else if c = CHR ''#'' \<and> q_mlbreak q \<noteq> 0 then
                 (if q_mlbreak q + 1 > 2
                  then q\<lparr>q_mlcomment := False, q_comment := True, q_mlbreak := 0\<rparr>
                  else q\<lparr>q_mlbreak := q_mlbreak q + 1\<rparr>)
               else q\<lparr>q_mlbreak := 0\<rparr>, w)
         else if q_escape q then (0, add_char c (q\<lparr>q_escape := False\<rparr>), w)
         else if q_quotes q then
           (0, if c = CHR 0x22 then q\<lparr>q_quotes := False\<rparr> else add_char c q, w)
         else g3c_plain rul c nxt q w)"

fun g3c_loop :: "rulesec list \<Rightarrow> string \<Rightarrow> g3c_scan \<Rightarrow> 'a os_scheme \<Rightarrow> int \<times> g3c_scan \<times> 'a os_scheme" where
  "g3c_loop rul [] q w = (0, q, w)"
| "g3c_loop rul (c # text) q w =
     (case g3c_char rul c (case text of [] \<Rightarrow> None | n # _ \<Rightarrow> Some n) q w of (rc, q, w) \<Rightarrow>
       if rc \<noteq> 0 then (rc, q, w) else g3c_loop rul text q w)"

definition g3c_start :: "g3c_section \<Rightarrow> g3c_scan" where
  "g3c_start sec = \<lparr>q_line = 1, q_comment = False, q_mlcomment = False, q_mlbreak = 0,
     q_escape = False, q_quotes = False, q_pname = [], q_ptok = [], q_tlim = NAME_LEN,
     q_splen = 0, q_sec = sec, q_up = []\<rparr>"

text \<open>The rules are not applied to the main section: the code that would do it is never reached.\<close>

definition g3c_parse :: "string \<Rightarrow> rulesec list \<Rightarrow> 'a os_scheme \<Rightarrow> int \<times> g3c_section option \<times> 'a os_scheme" where
  "g3c_parse text rul w = (case sys_alloc w of (mem, w) \<Rightarrow>
     if \<not> mem then (EX_OSERR, None, w)
     else (case g3c_newparam (Section [] [] False 0) ''type'' (VStr ''main'') (- 1) w of (rc, sec, w) \<Rightarrow>
       if rc \<noteq> 0 then (EX_OSERR, None, w)
       else (case g3c_loop rul text (g3c_start sec) w of (rc, q, w) \<Rightarrow>
         if rc \<noteq> 0 then (rc, None, w)
         else if q_up q \<noteq> [] \<or> q_ptok q \<noteq> [] then (EX_CONFIG, None, w)
         else (0, Some (q_sec q), w))))"

section \<open>Loading a file\<close>

text \<open>
  The file is opened with an exclusive lock and read to the size it had; every \<open>read\<close> may
  return less.  A call interrupted by a signal is simply repeated, so an outcome here is that
  of the last attempt.  \<open>ln\<close> bytes have been read.
\<close>

lemma sys_read_count: "sys_read fd n w = (rc, bs, w') \<Longrightarrow> \<not> rc < 1 \<Longrightarrow> bs \<noteq> []"
  by (auto simp: sys_read_def Let_def split: prod.splits option.splits if_splits outcome.splits)

function load_loop :: "int \<Rightarrow> nat \<Rightarrow> byte list \<Rightarrow> 'a os_scheme \<Rightarrow> byte list option \<times> 'a os_scheme" where
  "load_loop fd len got w =
     (let r = sys_read fd (len - length got) w; got' = got @ fst (snd r)
      in if fst r < 1 then (None, snd (snd r))
         else if length got' < len then load_loop fd len got' (snd (snd r))
         else (Some got', snd (snd r)))"
  by pat_completeness auto
termination
proof (relation "measure (\<lambda>(_, len, got, _). len - length got)", simp)
  fix fd len got and w :: "'a os_scheme" and r and got' :: "byte list"
  assume "r = sys_read fd (len - length got) w" "got' = got @ fst (snd r)" "\<not> fst r < 1" "length got' < len"
  then show "((fd, len, got', snd (snd r)), fd, len, got, w) \<in> measure (\<lambda>(_, len, got, _). len - length got)"
    using sys_read_count[of fd "len - length got" w "fst r" "fst (snd r)" "snd (snd r)"]
    by (cases "fst (snd r)") auto
qed

declare load_loop.simps [simp del]

definition g3c_file_load :: "string \<Rightarrow> 'a os_scheme \<Rightarrow> int \<times> string \<times> 'a os_scheme" where
  "g3c_file_load filespec w = (case sys_open filespec True w of (fd, w) \<Rightarrow>
     if fd = - 1 then (EX_OSERR, [], w)
     else (case sys_fstat fd (set_lock fd LOCK_EX w) of
        (None, w) \<Rightarrow> (EX_OSERR, [], w)
      | (Some ln, w) \<Rightarrow> (case sys_alloc w of (mem, w) \<Rightarrow>
          if \<not> mem then (EX_OSERR, [], snd (sys_close fd w))
          else (case load_loop fd (nat ln) [] w of
              (None, w) \<Rightarrow> (EX_OSERR, [], snd (sys_close fd w))
            | (Some bs, w) \<Rightarrow> (0, text_of bs, snd (sys_close fd w))))))"

section \<open>Facts about positions\<close>

lemma uplevel_next:
  assumes "g3c_next pos = Some (rc, pos')" "\<not> rc < 0"
  shows "rc = 0" "gp_index pos < int (length (s_sections (gp_section pos)))"
    "gp_section pos' = s_sections (gp_section pos) ! nat (gp_index pos)"
    "g3c_uplevel pos' = (0, pos\<lparr>gp_index := gp_index pos + 1, gp_pindex := 0\<rparr>)"
  using assms by (auto simp: g3c_next_def g3c_uplevel_def split: if_splits)

text \<open>
  \<open>g3c_nextn\<close> leaves a stack from which one step up leads back to the section it was called in,
  to an index behind the one it started from; that is what makes the loops over sections end.
\<close>

lemma nextn_uplevel:
  assumes "g3c_nextn name pos = Some (rc, pos')"
  shows "rc = 0 \<and> (\<exists>i. gp_index pos < i \<and> i \<le> int (length (s_sections (gp_section pos))) \<and>
      gp_section pos' = s_sections (gp_section pos) ! nat (i - 1) \<and> has_type name pos' \<and>
      g3c_uplevel pos' = (0, pos\<lparr>gp_index := i, gp_pindex := 0\<rparr>)) \<or>
    rc = - 1 \<and> gp_section pos' = gp_section pos \<and> gp_up pos' = gp_up pos"
  using assms
proof (induction name pos rule: g3c_nextn.induct)
  case (1 name pos)
  obtain c p where r: "g3c_next pos = Some (c, p)"
    using 1(2) by (cases "g3c_next pos") (auto simp: g3c_nextn.simps[of name pos])
  show ?case
  proof (cases "c < 0")
    case True
    with 1(2) r show ?thesis by (subst (asm) g3c_nextn.simps) (auto simp: g3c_next_def split: if_splits)
  next
    case False
    note up = uplevel_next[OF r False]
    show ?thesis
    proof (cases "has_type name p")
      case True
      with 1(2) r False have "rc = 0" "pos' = p" by (auto simp: g3c_nextn.simps[of name pos])
      with up True show ?thesis by (intro disjI1 conjI exI[of _ "gp_index pos + 1"]) simp_all
    next
      case no: False
      let ?q = "pos\<lparr>gp_index := gp_index pos + 1, gp_pindex := 0\<rparr>"
      have "g3c_nextn name ?q = Some (rc, pos')"
        using 1(2) r False no up(4) by (simp add: g3c_nextn.simps[of name pos])
      with 1(1)[of "(c, p)"] r False no up(4)
      have ih: "rc = 0 \<and> (\<exists>i. gp_index ?q < i \<and> i \<le> int (length (s_sections (gp_section ?q))) \<and>
          gp_section pos' = s_sections (gp_section ?q) ! nat (i - 1) \<and> has_type name pos' \<and>
          g3c_uplevel pos' = (0, ?q\<lparr>gp_index := i, gp_pindex := 0\<rparr>)) \<or>
        rc = - 1 \<and> gp_section pos' = gp_section ?q \<and> gp_up pos' = gp_up ?q" by simp
      then show ?thesis by (elim disjE conjE exE) (auto intro: order.strict_trans[OF zless_add1_eq[THEN iffD2]])
    qed
  qed
qed

text \<open>On a stack with room every step is defined, and so is the search.\<close>

lemma next_room: "length (gp_up pos) < G3C_DEPTH \<Longrightarrow> g3c_next pos \<noteq> None"
  by (simp add: g3c_next_def)

lemma nextn_room: "length (gp_up pos) < G3C_DEPTH \<Longrightarrow> \<exists>rc pos'. g3c_nextn name pos = Some (rc, pos')"
proof (induction name pos rule: g3c_nextn.induct)
  case (1 name pos)
  obtain r where r: "g3c_next pos = Some r" using next_room[OF 1(2)] by auto
  show ?case
  proof (cases "fst r < 0 \<or> has_type name (snd r)")
    case True
    with r show ?thesis by (cases r) (auto simp: g3c_nextn.simps[of name pos])
  next
    case False
    with r uplevel_next(4)[of pos "fst r" "snd r"] 1(1)[OF r] 1(2)
    have "\<exists>rc pos'. g3c_nextn name (snd (g3c_uplevel (snd r))) = Some (rc, pos')" by simp
    with r False show ?thesis by (simp add: g3c_nextn.simps[of name pos])
  qed
qed

end
