(* ===== verification/Tariffs.thy ===== *)
theory Tariffs
  imports Accounts Links G3c
begin

text \<open>
  Tariff plans (\<open>src/src/bee/lib/db/tariffs.c\<close>) and the prices made from them
  (\<open>src/src/bee/core/res.c\<close>): loading the tariff file into three tables, each closed by a
  terminator with negative numbers, and the functions that turn counted traffic and monthly
  charges into sums.  The calendar of the C library depends on the time zone of the machine:
  \<open>c_localtime\<close> and \<open>c_timelocal\<close> are fields of the state (\<open>timelocal\<close> also normalises the
  structure it is given).  \<open>c_localtime\<close> is total: \<open>localtime_r\<close> gives the null pointer only when the year
  does not fit an \<open>int\<close>, and all times of the programs are 32-bit numbers, so that the branches for it
  (\<open>(invalid)\<close> in \<open>cmd_pdate\<close>, the end of \<open>logidx\<close>) are never taken.  A function that would
  follow a null pointer yields \<open>None\<close>.
\<close>

section \<open>Tables\<close>

record tm =
  tm_sec :: int
  tm_min :: int
  tm_hour :: int
  tm_mday :: int
  tm_mon :: int
  tm_year :: int
  tm_wday :: int
  tm_yday :: int
  tm_isdst :: int

record tariff_info =
  ti_tariff :: int
  ti_name :: "string option"

record tariff_limit =
  tl_tariff :: int
  tl_min :: double
  tl_res_min :: int

record tariff_inet =
  tn_tariff :: int
  tn_weekday :: int
  tn_hour_from :: int
  tn_hour_to :: int
  tn_price_in :: double
  tn_price_out :: double
  tn_month_charge :: double
  tn_sw_tariff :: int
  tn_sw_summ :: double
  tn_sw_inetsumm :: int
  tn_flags :: u32

abbreviation (input) INET_TFLAG_SIN :: u32 where "INET_TFLAG_SIN \<equiv> 1"
abbreviation (input) INET_TFLAG_SOUT :: u32 where "INET_TFLAG_SOUT \<equiv> 2"

text \<open>
  A table is the memory behind its pointer (none for the null pointer) and its count; the two
  differ for the prices after \<open>tariffs_free\<close>, which frees the wrong pointer.
\<close>

record tariffs = gates +
  tariffs_info :: "tariff_info list"
  tariffs_limit :: "tariff_limit list"
  tariffs_inet :: "tariff_inet list"
  tariffs_info_cnt :: nat
  tariffs_limit_cnt :: nat
  tariffs_inet_cnt :: nat
  c_localtime :: "int \<Rightarrow> tm"
  c_timelocal :: "tm \<Rightarrow> int \<times> tm"
  HackTime :: int

text \<open>\<open>da_ins\<close> at the end of a table: \<open>realloc\<close> to one more item than counted, then the item.\<close>

definition da_ins_end :: "'b list \<Rightarrow> nat \<Rightarrow> 'b \<Rightarrow> 'a os_scheme \<Rightarrow> 'b list \<times> nat \<times> 'a os_scheme" where
  "da_ins_end items cnt x w = (case sys_alloc w of (mem, w) \<Rightarrow>
     if mem then (take cnt items @ [x], cnt + 1, w) else (items, cnt, w))"

definition ins_info :: "tariff_info \<Rightarrow> 'a tariffs_scheme \<Rightarrow> 'a tariffs_scheme" where
  "ins_info x w = (case da_ins_end (tariffs_info w) (tariffs_info_cnt w) x w of (t, c, w) \<Rightarrow>
     w\<lparr>tariffs_info := t, tariffs_info_cnt := c\<rparr>)"

definition ins_limit :: "tariff_limit \<Rightarrow> 'a tariffs_scheme \<Rightarrow> 'a tariffs_scheme" where
  "ins_limit x w = (case da_ins_end (tariffs_limit w) (tariffs_limit_cnt w) x w of (t, c, w) \<Rightarrow>
     w\<lparr>tariffs_limit := t, tariffs_limit_cnt := c\<rparr>)"

definition ins_inet :: "tariff_inet \<Rightarrow> 'a tariffs_scheme \<Rightarrow> 'a tariffs_scheme" where
  "ins_inet x w = (case da_ins_end (tariffs_inet w) (tariffs_inet_cnt w) x w of (t, c, w) \<Rightarrow>
     w\<lparr>tariffs_inet := t, tariffs_inet_cnt := c\<rparr>)"

section \<open>Loading\<close>

definition rule_int :: "string \<Rightarrow> int \<Rightarrow> ruleparam" where
  "rule_int name hi = \<lparr>rp_name = name, rp_type = PT_INTEGER, rp_required = False, rp_defvalue = None,
     rp_vmin = 0, rp_vmax = hi, rp_pvl = None, rp_check = None\<rparr>"

definition rule_str :: "string \<Rightarrow> int \<Rightarrow> ruleparam" where
  "rule_str name hi = \<lparr>rp_name = name, rp_type = PT_STRING, rp_required = False, rp_defvalue = None,
     rp_vmin = 0, rp_vmax = hi, rp_pvl = None, rp_check = None\<rparr>"

definition inet_params :: "ruleparam list" where
  "inet_params = [rule_int ''weekday'' 6, rule_int ''hour_from'' 23, rule_int ''hour_to'' 23,
     rule_str ''price'' 10, rule_str ''inbound'' 10, rule_str ''outbound'' 10, rule_str ''charge'' 10,
     rule_int ''alias'' (2 ^ 31 - 1), rule_int ''switch'' (2 ^ 31 - 1),
     (rule_int ''sw_bytes'' (2 ^ 63 - 1))\<lparr>rp_type := PT_LONGLONG\<rparr>,
     rule_str ''sw_money'' 40, rule_str ''sw_dir'' 4]"

definition plan_params :: "ruleparam list" where
  "plan_params = [(rule_int ''number'' (2 ^ 31 - 1))\<lparr>rp_required := True\<rparr>,
     (rule_str ''name'' 40)\<lparr>rp_required := True\<rparr>, rule_str ''credit'' 10]"

definition g3c_rules :: "rulesec list" where
  "g3c_rules =
     [RuleSec (Some ''main'') [] [RuleSec (Some ''plan'') plan_params [] False True, RuleSec None [] [] False False]
        False False,
      RuleSec (Some ''plan'') plan_params [] False False,
      RuleSec (Some ''inet'') inet_params [] False False,
      RuleSec None [] [] False False]"

text \<open>The value of a parameter, when it is there.\<close>

definition set_int :: "g3c_pos \<Rightarrow> string \<Rightarrow> (int \<Rightarrow> 'b \<Rightarrow> 'b) \<Rightarrow> 'b \<Rightarrow> 'b" where
  "set_int pos name f x = (case g3c_integer pos name of None \<Rightarrow> x | Some v \<Rightarrow> f v x)"

definition set_str :: "g3c_pos \<Rightarrow> string \<Rightarrow> (string \<Rightarrow> 'b \<Rightarrow> 'b) \<Rightarrow> 'b \<Rightarrow> 'b" where
  "set_str pos name f x = (case g3c_getvalue pos name PT_STRING of None \<Rightarrow> x | Some v \<Rightarrow> f (value_text v) x)"

definition inet_entry :: "int \<Rightarrow> bool \<Rightarrow> g3c_pos \<Rightarrow> tariff_inet" where
  "inet_entry plan first pos =
     (let price = (if first then 0 else d_minus_one);
          tn = \<lparr>tn_tariff = plan, tn_weekday = - 1, tn_hour_from = 0, tn_hour_to = 0,
                tn_price_in = price, tn_price_out = price, tn_month_charge = 0, tn_sw_tariff = - 1,
                tn_sw_summ = 0, tn_sw_inetsumm = 0, tn_flags = 0\<rparr>;
          tn = set_int pos ''weekday'' (\<lambda>v tn. tn\<lparr>tn_weekday := v\<rparr>) tn;
          tn = set_int pos ''hour_from'' (\<lambda>v tn. tn\<lparr>tn_hour_from := v\<rparr>) tn;
          tn = set_int pos ''hour_to'' (\<lambda>v tn. tn\<lparr>tn_hour_to := v\<rparr>) tn;
          tn = set_str pos ''price'' (\<lambda>s tn. tn\<lparr>tn_price_in := atof s, tn_price_out := atof s\<rparr>) tn;
          tn = set_str pos ''inbound'' (\<lambda>s tn. tn\<lparr>tn_price_in := atof s\<rparr>) tn;
          tn = set_str pos ''outbound'' (\<lambda>s tn. tn\<lparr>tn_price_out := atof s\<rparr>) tn;
          tn = set_str pos ''charge'' (\<lambda>s tn. tn\<lparr>tn_month_charge := atof s\<rparr>) tn;
          tn = set_int pos ''switch'' (\<lambda>v tn. tn\<lparr>tn_sw_tariff := v\<rparr>) tn;
          tn = set_int pos ''alias'' (\<lambda>v tn. tn\<lparr>tn_sw_tariff := v\<rparr>) tn;
          tn = set_str pos ''sw_money'' (\<lambda>s tn. tn\<lparr>tn_sw_summ := atof s\<rparr>) tn;
          tn = (case g3c_longlong pos ''sw_bytes'' of None \<Rightarrow> tn | Some v \<Rightarrow> tn\<lparr>tn_sw_inetsumm := v\<rparr>);
          tn = set_str pos ''sw_dir'' (\<lambda>s tn. if strcaseeq s ''in'' then tn\<lparr>tn_flags := INET_TFLAG_SOUT\<rparr> else tn) tn;
          tn = set_str pos ''sw_dir'' (\<lambda>s tn. if strcaseeq s ''out'' then tn\<lparr>tn_flags := INET_TFLAG_SIN\<rparr> else tn) tn
      in tn)"

text \<open>The loop over the \<open>inet\<close> sections of a plan: the position after it, still inside the plan.\<close>

function inet_sections :: "int \<Rightarrow> bool \<Rightarrow> g3c_pos \<Rightarrow> 'a tariffs_scheme \<Rightarrow> (g3c_pos \<times> 'a tariffs_scheme) option" where
  "inet_sections plan first pos w = (case g3c_nextn ''inet'' pos of
       None \<Rightarrow> None
     | Some r \<Rightarrow> (if fst r < 0 then Some (snd r, w)
         else inet_sections plan False (snd (g3c_uplevel (snd r))) (ins_inet (inet_entry plan first (snd r)) w)))"
  by pat_completeness auto
termination
proof (relation "measure (\<lambda>(_, _, pos, _). nat (int (length (s_sections (gp_section pos))) - gp_index pos))", simp)
  fix plan first pos and w :: "'a tariffs_scheme" and r
  assume "g3c_nextn ''inet'' pos = Some r" "\<not> fst r < 0"
  with nextn_uplevel[of "''inet''" pos "fst r" "snd r"]
  show "((plan, False, snd (g3c_uplevel (snd r)), ins_inet (inet_entry plan first (snd r)) w), plan, first, pos, w)
      \<in> measure (\<lambda>(_, _, pos, _). nat (int (length (s_sections (gp_section pos))) - gp_index pos))"
    by auto
qed

declare inet_sections.simps [simp del]

lemma inet_sections_stack: "inet_sections plan first pos w = Some (p, v) \<Longrightarrow> gp_up p = gp_up pos"
proof (induction plan first pos w rule: inet_sections.induct)
  case (1 plan first pos w)
  obtain rc q where r: "g3c_nextn ''inet'' pos = Some (rc, q)"
    using 1(2) by (cases "g3c_nextn ''inet'' pos") (auto simp: inet_sections.simps[of plan first pos])
  from nextn_uplevel[OF r] 1(1)[OF r] 1(2) r show ?case
    by (auto simp: inet_sections.simps[of plan first pos])
qed

lemma inet_sections_room: "length (gp_up pos) < G3C_DEPTH \<Longrightarrow> inet_sections plan first pos w \<noteq> None"
proof (induction plan first pos w rule: inet_sections.induct)
  case (1 plan first pos w)
  obtain rc q where r: "g3c_nextn ''inet'' pos = Some (rc, q)" using nextn_room[OF 1(2)] by blast
  from nextn_uplevel[OF r] 1(1)[OF r] 1(2) r show ?case
    by (auto simp: inet_sections.simps[of plan first pos])
qed

text \<open>
  A plan: its name, its limit and its prices.  \<open>lmt\<close> is the limit last filled in; a plan without
  a number is refused by the rules, so that the dereferenced pointer is never null.
\<close>

definition load_plan :: "g3c_pos \<Rightarrow> tariff_limit \<Rightarrow> 'a tariffs_scheme \<Rightarrow>
    (g3c_pos \<times> tariff_limit \<times> 'a tariffs_scheme) option" where
  "load_plan pos lmt w =
     (let plan = (case g3c_integer pos ''number'' of None \<Rightarrow> 0 | Some n \<Rightarrow> n)
      in case g3c_string pos ''name'' w of (name, w) \<Rightarrow>
         case g3c_string pos ''credit'' (ins_info \<lparr>ti_tariff = plan, ti_name = name\<rparr> w) of (credit, w) \<Rightarrow>
         case (if credit \<noteq> None \<or> plan = 0
               then (let lmt = \<lparr>tl_tariff = plan,
                               tl_min = (case credit of None \<Rightarrow> 0 | Some s \<Rightarrow> dneg (atof s)),
                               tl_res_min = 0\<rparr>
                     in (lmt, ins_limit lmt w))
               else (lmt, w)) of (lmt, w) \<Rightarrow>
         case inet_sections plan True pos w of
           None \<Rightarrow> None
         | Some (pos, w) \<Rightarrow> Some (pos, lmt, w))"

lemma load_plan_stack: "load_plan pos lmt w = Some p \<Longrightarrow> gp_up (fst p) = gp_up pos"
  by (auto simp: load_plan_def Let_def split: prod.splits option.splits dest: inet_sections_stack)

lemma load_plan_room: "length (gp_up pos) < G3C_DEPTH \<Longrightarrow> load_plan pos lmt w \<noteq> None"
  by (auto simp: load_plan_def Let_def inet_sections_room split: prod.splits option.splits)

lemma uplevel_cong:
  assumes "gp_up p = gp_up q" "g3c_uplevel q = (0, q')"
  shows "gp_section (snd (g3c_uplevel p)) = gp_section q'" "gp_index (snd (g3c_uplevel p)) = gp_index q'"
    "gp_up (snd (g3c_uplevel p)) = gp_up q'"
  using assms by (auto simp: g3c_uplevel_def split: list.splits)

function plan_sections :: "g3c_pos \<Rightarrow> tariff_limit \<Rightarrow> 'a tariffs_scheme \<Rightarrow> (tariff_limit \<times> 'a tariffs_scheme) option" where
  "plan_sections pos lmt w = (case g3c_nextn ''plan'' pos of
       None \<Rightarrow> None
     | Some r \<Rightarrow> (if fst r < 0 then Some (lmt, w)
         else (case load_plan (snd r) lmt w of
             None \<Rightarrow> None
           | Some p \<Rightarrow> plan_sections (snd (g3c_uplevel (fst p))) (fst (snd p)) (snd (snd p)))))"
  by pat_completeness auto
termination
proof (relation "measure (\<lambda>(pos, _, _). nat (int (length (s_sections (gp_section pos))) - gp_index pos))", simp)
  fix pos lmt and w :: "'a tariffs_scheme" and r p
  assume r: "g3c_nextn ''plan'' pos = Some r" "\<not> fst r < 0" "load_plan (snd r) lmt w = Some p"
  have up: "gp_up (fst p) = gp_up (snd r)" by (rule load_plan_stack[OF r(3)])
  with nextn_uplevel[of "''plan''" pos "fst r" "snd r"] r(1,2)
  show "((snd (g3c_uplevel (fst p)), fst (snd p), snd (snd p)), pos, lmt, w)
      \<in> measure (\<lambda>(pos, _, _). nat (int (length (s_sections (gp_section pos))) - gp_index pos))"
    by (auto simp: uplevel_cong[OF up])
qed

declare plan_sections.simps [simp del]

text \<open>The stack has room for a plan and a price in it, whatever the file holds.\<close>

lemma nextn_one_up:
  assumes "g3c_nextn name pos = Some (0, p)"
  shows "length (gp_up p) = Suc (length (gp_up pos))"
  using nextn_uplevel[OF assms] by (auto simp: g3c_uplevel_def split: list.splits dest: arg_cong[of _ _ gp_up])

lemma plan_sections_room: "Suc (length (gp_up pos)) < G3C_DEPTH \<Longrightarrow> plan_sections pos lmt w \<noteq> None"
proof (induction pos lmt w rule: plan_sections.induct)
  case (1 pos lmt w)
  obtain rc q where r: "g3c_nextn ''plan'' pos = Some (rc, q)" using nextn_room[of pos] 1(2) by force
  show ?case
  proof (cases "rc < 0")
    case True
    with r show ?thesis by (simp add: plan_sections.simps[of pos])
  next
    case False
    then have rc: "rc = 0" using nextn_uplevel[OF r] by auto
    have "length (gp_up q) < G3C_DEPTH" using nextn_one_up[OF r[unfolded rc]] 1(2) by simp
    then obtain p where p: "load_plan q lmt w = Some p" using load_plan_room by blast
    have up: "gp_up (fst p) = gp_up q" by (rule load_plan_stack[OF p])
    obtain q' where q: "g3c_uplevel q = (0, q')" "gp_up q' = gp_up pos" using nextn_uplevel[OF r] rc by auto
    from 1(1)[OF r] 1(2) p False uplevel_cong(3)[OF up q(1)] q(2) show ?thesis
      by (simp add: plan_sections.simps[of pos] r)
  qed
qed

definition info_end :: tariff_info where
  "info_end = \<lparr>ti_tariff = - 1, ti_name = None\<rparr>"

definition limit_end :: "tariff_limit \<Rightarrow> tariff_limit" where
  "limit_end lmt = lmt\<lparr>tl_tariff := - 1, tl_min := d_minus_one\<rparr>"

definition inet_end :: tariff_inet where
  "inet_end = \<lparr>tn_tariff = - 1, tn_weekday = - 1, tn_hour_from = - 1, tn_hour_to = - 1,
     tn_price_in = d_minus_one, tn_price_out = d_minus_one, tn_month_charge = d_minus_one,
     tn_sw_tariff = - 1, tn_sw_summ = d_minus_one, tn_sw_inetsumm = - 1, tn_flags = 0\<rparr>"

text \<open>The limit on the stack before the first plan, whatever is there.\<close>

definition stack_limit :: "'a os_scheme \<Rightarrow> tariff_limit" where
  "stack_limit w = (let bs = stack_junk 20 w in
     \<lparr>tl_tariff = sint (rd32 0 bs), tl_min = rd64 4 bs, tl_res_min = sint (rd64 12 bs)\<rparr>)"

definition tariffs_load :: "string option \<Rightarrow> 'a tariffs_scheme \<Rightarrow> (int \<times> 'a tariffs_scheme) option" where
  "tariffs_load file w = (case file of
      None \<Rightarrow> Some (- 1, w)
    | Some file \<Rightarrow> (case strnalloc (Some file) 0 w of
        (None, w) \<Rightarrow> Some (- 1, w)
      | (Some spec, w) \<Rightarrow> (case g3c_file_load spec w of (rc, text, w) \<Rightarrow>
          if rc \<noteq> 0 then Some (- 1, w)
          else (case g3c_parse text g3c_rules w of
              (rc, None, w) \<Rightarrow> Some (- 1, w)
            | (rc, Some pss, w) \<Rightarrow>
                (case plan_sections (at_section pss) (stack_limit w) w of
                   None \<Rightarrow> None
                 | Some (lmt, w) \<Rightarrow>
                   Some (if tariffs_info w = [] \<or> tariffs_limit w = [] \<or> tariffs_inet w = [] then (- 1, w)
                     else (0, ins_inet inet_end (ins_limit (limit_end lmt) (ins_info info_end w)))))))))"

lemma plan_sections_top: "(plan_sections (at_section s) lmt w = None) = False"
  using plan_sections_room[of "at_section s" lmt w] by (simp add: at_section_def)

lemma tariffs_load_returns: "tariffs_load file w \<noteq> None"
  by (simp add: tariffs_load_def plan_sections_top split: option.splits prod.splits)

definition tariffs_free :: "'a tariffs_scheme \<Rightarrow> 'a tariffs_scheme" where
  "tariffs_free w = w\<lparr>tariffs_info := [], tariffs_info_cnt := 0, tariffs_limit := [],
     tariffs_limit_cnt := 0, tariffs_inet_cnt := 0\<rparr>"

section \<open>The price of traffic\<close>

definition CORR_VALUE :: int where "CORR_VALUE = 300"

text \<open>\<open>HackTime\<close> overrides the clock.\<close>

definition count_time :: "'a tariffs_scheme \<Rightarrow> int \<times> 'a tariffs_scheme" where
  "count_time w = (if HackTime w = 0 then sys_time w else (HackTime w, w))"

text \<open>The first day of the next month, 0:00, and the reset of the monthly counters.\<close>

definition next_month :: "tm \<Rightarrow> tm" where
  "next_month stm =
     (let stm = stm\<lparr>tm_mday := 1, tm_mon := tm_mon stm + 1\<rparr>;
          stm = (if tm_mon stm > 11 then stm\<lparr>tm_mon := 0, tm_year := tm_year stm + 1\<rparr> else stm)
      in stm\<lparr>tm_hour := 0, tm_min := 0, tm_sec := 0\<rparr>)"

definition month_reset :: "int \<Rightarrow> acc \<Rightarrow> 'a tariffs_scheme \<Rightarrow> acc" where
  "month_reset curtime acc w =
     (if curtime \<ge> sint (a_summ_rsttime acc)
      then (let acc = acc\<lparr>a_inet_summ_in := 0, a_inet_summ_out := 0, a_money_summ := 0\<rparr>;
                stime = fst (c_timelocal w (next_month (c_localtime w curtime)))
            in if stime < 0 then acc else acc\<lparr>a_summ_rsttime := word_of_int stime\<rparr>)
      else acc)"

text \<open>The index of the default entry of a plan: the last one that fits wins, else \<open>d\<close> stays.\<close>

definition is_default :: "int \<Rightarrow> int \<Rightarrow> tariff_inet \<Rightarrow> bool" where
  "is_default plan wday t \<longleftrightarrow> plan = tn_tariff t \<and> (tn_weekday t < 0 \<or> tn_weekday t = wday) \<and>
     tn_hour_from t = 0 \<and> tn_hour_to t = 0"

fun default_entry :: "int \<Rightarrow> int \<Rightarrow> tariff_inet list \<Rightarrow> nat \<Rightarrow> nat \<Rightarrow> nat" where
  "default_entry plan wday [] i d = d"
| "default_entry plan wday (t # ts) i d =
     (if tn_hour_from t < 0 then d
      else default_entry plan wday ts (i + 1) (if is_default plan wday t then i else d))"

text \<open>Whether the default entry switches to another plan, and with which starting sums.\<close>

type_synonym switch_state = "int \<times> int \<times> double"

definition inet_switch :: "tariff_inet \<Rightarrow> acc \<Rightarrow> switch_state \<Rightarrow> switch_state option" where
  "inet_switch t acc st = (case st of (plan, inet_start, money_start) \<Rightarrow>
     if tn_sw_tariff t < 0 then None
     else (let summ = 0;
               summ = (if tn_flags t AND INET_TFLAG_SIN = 0 then i64 (summ + sint (a_inet_summ_in acc)) else summ);
               summ = (if tn_flags t AND INET_TFLAG_SOUT = 0 then i64 (summ + sint (a_inet_summ_out acc)) else summ)
           in if tn_sw_inetsumm t \<noteq> 0 \<and> tn_sw_inetsumm t \<le> i64 (summ - inet_start)
              then Some (tn_sw_tariff t, i64 (inet_start + tn_sw_inetsumm t), money_start)
              else if \<not> deq (tn_sw_summ t) 0 \<and> dle (tn_sw_summ t) (dsub (a_money_summ acc) money_start)
              then Some (tn_sw_tariff t, inet_start, dadd money_start (tn_sw_summ t))
              else if deq (tn_sw_summ t) 0 \<and> tn_sw_inetsumm t = 0
              then Some (tn_sw_tariff t, inet_start, money_start)
              else None))"

text \<open>\<open>n\<close> passes are left before a loop of plans is reported.\<close>

fun tariff_loop :: "nat \<Rightarrow> tariff_inet list \<Rightarrow> int \<Rightarrow> acc \<Rightarrow> switch_state \<Rightarrow> nat \<Rightarrow> (switch_state \<times> nat) option" where
  "tariff_loop 0 tab wday acc st d = None"
| "tariff_loop (Suc n) tab wday acc st d =
     (let d = default_entry (fst st) wday tab 0 d
      in case inet_switch (tab ! d) acc st of
           Some st \<Rightarrow> tariff_loop n tab wday acc st d
         | None \<Rightarrow> Some (st, d))"

text \<open>
  The entry of the plan for the hour: every boundary is \<open>CORR_VALUE\<close> seconds late, the last
  entry that fits wins.  \<open>stm\<close> is shared by all calls of \<open>timelocal\<close>.
\<close>

fun hour_entry :: "(tm \<Rightarrow> int \<times> tm) \<Rightarrow> int \<Rightarrow> int \<Rightarrow> int \<Rightarrow> tariff_inet list \<Rightarrow> nat \<Rightarrow> tm \<Rightarrow> nat \<Rightarrow> nat" where
  "hour_entry tml plan curtime ndtime [] i stm tariff = tariff"
| "hour_entry tml plan curtime ndtime (t # ts) i stm tariff =
     (if tn_hour_from t < 0 then tariff
      else (case tml (stm\<lparr>tm_hour := tn_hour_from t\<rparr>) of (s, stm) \<Rightarrow>
            let stime = i32 (s + CORR_VALUE)
            in case (if tn_hour_to t \<noteq> 0
                     then (case tml (stm\<lparr>tm_hour := tn_hour_to t\<rparr>) of (e, stm) \<Rightarrow> (i32 (e + CORR_VALUE), stm))
                     else (ndtime, stm)) of (etime, stm) \<Rightarrow>
               hour_entry tml plan curtime ndtime ts (i + 1) stm
                 (if plan = tn_tariff t \<and> (tn_weekday t < 0 \<or> tn_weekday t = tm_wday stm) \<and>
                     tn_hour_from t \<noteq> tn_hour_to t \<and> stime \<le> curtime \<and> curtime < etime
                  then i else tariff)))"

definition tariff_entry :: "'a tariffs_scheme \<Rightarrow> int \<Rightarrow> int \<Rightarrow> tm \<Rightarrow> nat \<Rightarrow> nat" where
  "tariff_entry w plan curtime stm def_tariff =
     (let stm = stm\<lparr>tm_hour := 23, tm_min := 0, tm_sec := 0\<rparr>
      in case c_timelocal w stm of (t, stm) \<Rightarrow>
         let ndtime = i32 (i32 (t + CORR_VALUE) + 3600);
             tariff = hour_entry (c_timelocal w) plan curtime ndtime (drop 1 (tariffs_inet w)) 1 stm def_tariff
         in if dlt (tn_price_in (tariffs_inet w ! tariff)) 0 then def_tariff else tariff)"

abbreviation outbound :: "isdata \<Rightarrow> bool" where
  "outbound data \<equiv> is_proto_id data AND 0x80000000 \<noteq> 0"

definition tariff_price :: "tariff_inet \<Rightarrow> isdata \<Rightarrow> double" where
  "tariff_price t data = (if outbound data then tn_price_out t else tn_price_in t)"

definition traffic_sum :: "isdata \<Rightarrow> double \<Rightarrow> double" where
  "traffic_sum data price = ddiv (dmul (d_of_int (uint (is_value data))) price) d_mebi"

text \<open>The traffic is added to the counters of the month, and the plan is noted in the data.\<close>

definition add_traffic :: "isdata \<Rightarrow> double \<Rightarrow> acc \<Rightarrow> acc" where
  "add_traffic data val acc =
     (let acc = acc\<lparr>a_money_summ := dadd (a_money_summ acc) val\<rparr>
      in if outbound data
         then acc\<lparr>a_inet_summ_out := a_inet_summ_out acc + ucast (is_value data)\<rparr>
         else acc\<lparr>a_inet_summ_in := a_inet_summ_in acc + ucast (is_value data)\<rparr>)"

definition note_plan :: "int \<Rightarrow> nat \<Rightarrow> nat \<Rightarrow> isdata \<Rightarrow> isdata" where
  "note_plan plan tariff def_tariff data =
     data\<lparr>is_proto2 := is_proto2 data OR
       (push_bit 16 (word_of_int plan) OR push_bit 24 (word_of_int (int tariff - int def_tariff)))\<rparr>"

definition inet_count_proc ::
  "isdata \<Rightarrow> acc \<Rightarrow> 'a tariffs_scheme \<Rightarrow> (double \<times> isdata \<times> acc \<times> 'a tariffs_scheme) option" where
  "inet_count_proc data acc w = (case count_time w of (curtime, w) \<Rightarrow>
     let acc = month_reset curtime acc w; stm = c_localtime w curtime; tab = tariffs_inet w
     in if tab = [] then None
        else (case tariff_loop 257 tab (tm_wday stm) acc (sint (a_tariff acc), 0, 0) 0 of
            None \<Rightarrow> Some (0, data, acc, w)
          | Some ((plan, _, _), def_tariff) \<Rightarrow>
              (let tariff = tariff_entry w plan curtime stm def_tariff;
                   val = traffic_sum data (tariff_price (tab ! tariff) data)
               in Some (dneg val, note_plan plan tariff def_tariff data, add_traffic data val acc, w))))"

definition mail_count_proc :: "isdata \<Rightarrow> acc \<Rightarrow> double" where
  "mail_count_proc data acc = 0"

definition intra_count_stub :: "isdata \<Rightarrow> acc \<Rightarrow> double" where
  "intra_count_stub data acc = 0"

definition adder_count_proc :: "isdata \<Rightarrow> acc \<Rightarrow> double" where
  "adder_count_proc data acc = ddiv (d_of_int (uint (is_value data))) (d_of_int 100)"

definition no_of_days :: "int list" where
  "no_of_days = [31, 28, 31, 30, 31, 30, 31, 31, 30, 31, 30, 31]"

text \<open>The month's days: the test for a leap day asks \<open>timelocal\<close>, which accepts any day.\<close>

definition days_of_month :: "int \<Rightarrow> 'a tariffs_scheme \<Rightarrow> int" where
  "days_of_month curtime w =
     (let stm = c_localtime w curtime; days = no_of_days ! nat (tm_mon stm)
      in if tm_mon stm = 1 \<and> fst (c_timelocal w (stm\<lparr>tm_mday := 29\<rparr>)) > 0 then days + 1 else days)"

fun charge_entry :: "int \<Rightarrow> tariff_inet list \<Rightarrow> nat \<Rightarrow> nat \<Rightarrow> nat" where
  "charge_entry plan [] i tariff = tariff"
| "charge_entry plan (t # ts) i tariff =
     (if tn_tariff t < 0 then tariff
      else charge_entry plan ts (i + 1) (if plan = tn_tariff t then i else tariff))"

definition inet_charge_proc :: "acc \<Rightarrow> 'a tariffs_scheme \<Rightarrow> (double \<times> acc \<times> 'a tariffs_scheme) option" where
  "inet_charge_proc acc w = (case sys_time w of (curtime, w) \<Rightarrow>
     let days = days_of_month curtime w; tab = tariffs_inet w
     in if tab = [] then None
        else (let tariff = charge_entry (sint (a_tariff acc)) (drop 1 tab) 1 0;
                  val = ddiv (tn_month_charge (tab ! tariff)) (d_of_int days)
              in Some (dneg val, acc\<lparr>a_money_summ := dadd (a_money_summ acc) val\<rparr>, w)))"

text \<open>
  \<open>res_coreinit\<close> sets the counting and charging functions of the resource table; the others are
  null pointers.
\<close>

definition has_count :: "int \<Rightarrow> bool" where
  "has_count rid \<longleftrightarrow> rid = RES_INET \<or> rid = RES_MAIL \<or> rid = RES_ADDER \<or> rid = RES_INTRA"

definition res_count ::
  "int \<Rightarrow> isdata \<Rightarrow> acc \<Rightarrow> 'a tariffs_scheme \<Rightarrow> (double \<times> isdata \<times> acc \<times> 'a tariffs_scheme) option" where
  "res_count rid data acc w =
     (if rid = RES_INET then inet_count_proc data acc w
      else if rid = RES_MAIL then Some (mail_count_proc data acc, data, acc, w)
      else if rid = RES_ADDER then Some (adder_count_proc data acc, data, acc, w)
      else if rid = RES_INTRA then Some (intra_count_stub data acc, data, acc, w)
      else None)"

definition res_charge :: "int \<Rightarrow> acc \<Rightarrow> 'a tariffs_scheme \<Rightarrow> (double \<times> acc \<times> 'a tariffs_scheme) option" where
  "res_charge rid acc w = (if rid = RES_INET then inet_charge_proc acc w else None)"

section \<open>Switching between plans\<close>

text \<open>
  One switch: from a plan and its default entry to the next plan.  The loop of
  \<open>inet_count_proc\<close> makes these steps until none is left, or gives up after 257 of them.
\<close>

definition switch_step :: "tariff_inet list \<Rightarrow> int \<Rightarrow> acc \<Rightarrow> (switch_state \<times> nat) \<Rightarrow> (switch_state \<times> nat) \<Rightarrow> bool" where
  "switch_step tab wday acc s s' \<longleftrightarrow> snd s' = default_entry (fst (fst s)) wday tab 0 (snd s) \<and>
     inet_switch (tab ! snd s') acc (fst s) = Some (fst s')"

lemma switch_step_det: "switch_step tab wday acc s s1 \<Longrightarrow> switch_step tab wday acc s s2 \<Longrightarrow> s1 = s2"
  by (cases s1; cases s2) (auto simp: switch_step_def)

lemma tariff_loop_step:
  "switch_step tab wday acc s u \<Longrightarrow>
     tariff_loop (Suc n) tab wday acc (fst s) (snd s) = tariff_loop n tab wday acc (fst u) (snd u)"
  by (cases u) (auto simp: switch_step_def Let_def)

lemma tariff_loop_stop:
  assumes "\<nexists>u. switch_step tab wday acc s u"
  shows "tariff_loop (Suc n) tab wday acc (fst s) (snd s) =
     Some (fst s, default_entry (fst (fst s)) wday tab 0 (snd s))"
proof (cases "inet_switch (tab ! default_entry (fst (fst s)) wday tab 0 (snd s)) acc (fst s)")
  case (Some st)
  then have "switch_step tab wday acc s (st, default_entry (fst (fst s)) wday tab 0 (snd s))"
    by (simp add: switch_step_def)
  with assms show ?thesis by blast
qed (simp add: Let_def)

lemma tariff_loop_steps:
  "(\<forall>s' d. tariff_loop n tab wday acc (fst s) (snd s) = Some (s', d) \<longleftrightarrow>
      (\<exists>k t. k < n \<and> (switch_step tab wday acc ^^ k) s t \<and> (\<nexists>u. switch_step tab wday acc t u) \<and>
         s' = fst t \<and> d = default_entry (fst (fst t)) wday tab 0 (snd t))) \<and>
   (tariff_loop n tab wday acc (fst s) (snd s) = None \<longleftrightarrow> (\<exists>t. (switch_step tab wday acc ^^ n) s t))"
  (is "?some n s \<and> ?none n s")
proof (induction n arbitrary: s)
  case 0
  show ?case by auto
next
  case (Suc n)
  let ?R = "switch_step tab wday acc"
  have first: "(?R ^^ Suc k) s t \<longleftrightarrow> (\<exists>u. ?R s u \<and> (?R ^^ k) u t)" for k t
    by (metis relpowp_Suc_D2 relpowp_Suc_I2)
  show ?case
  proof (cases "\<exists>s'. ?R s s'")
    case True
    then obtain u where u: "?R s u" by blast
    note eq = tariff_loop_step[OF u, of n]
    have only: "?R s v \<longleftrightarrow> v = u" for v using u switch_step_det by blast
    have steps: "(?R ^^ Suc k) s t \<longleftrightarrow> (?R ^^ k) u t" for k t
      unfolding first by (simp only: only) blast
    have "?some (Suc n) s"
    proof (intro allI)
      fix s' d
      have "tariff_loop (Suc n) tab wday acc (fst s) (snd s) = Some (s', d) \<longleftrightarrow>
          (\<exists>k t. k < n \<and> (?R ^^ k) u t \<and> (\<nexists>v. ?R t v) \<and> s' = fst t \<and>
            d = default_entry (fst (fst t)) wday tab 0 (snd t))"
        unfolding eq using Suc[of u] by blast
      also have "\<dots> \<longleftrightarrow> (\<exists>k t. k < Suc n \<and> (?R ^^ k) s t \<and> (\<nexists>v. ?R t v) \<and> s' = fst t \<and>
            d = default_entry (fst (fst t)) wday tab 0 (snd t))" (is "?l \<longleftrightarrow> ?r")
      proof
        assume ?l
        then obtain k t where "k < n" "(?R ^^ k) u t" "\<nexists>v. ?R t v" "s' = fst t"
          "d = default_entry (fst (fst t)) wday tab 0 (snd t)" by blast
        then show ?r using steps[of k t] by (intro exI[of _ "Suc k"] exI[of _ t]) (simp del: relpowp.simps)
      next
        assume ?r
        then obtain k t where kt: "k < Suc n" "(?R ^^ k) s t" "\<nexists>v. ?R t v" "s' = fst t"
          "d = default_entry (fst (fst t)) wday tab 0 (snd t)" by blast
        then obtain j where "k = Suc j" using u by (metis not0_implies_Suc relpowp_0_E)
        with kt steps[of j t] show ?l by (intro exI[of _ j] exI[of _ t]) (simp del: relpowp.simps)
      qed
      finally show "tariff_loop (Suc n) tab wday acc (fst s) (snd s) = Some (s', d) \<longleftrightarrow>
          (\<exists>k t. k < Suc n \<and> (?R ^^ k) s t \<and> (\<nexists>v. ?R t v) \<and> s' = fst t \<and>
            d = default_entry (fst (fst t)) wday tab 0 (snd t))" .
    qed
    moreover have "?none (Suc n) s" unfolding eq using Suc[of u] steps[of n] by blast
    ultimately show ?thesis by blast
  next
    case False
    note eq = tariff_loop_stop[OF False, of n]
    have stop: "(?R ^^ k) s t \<longleftrightarrow> k = 0 \<and> t = s" for k t
      using False by (cases k) (auto simp: first simp del: relpowp.simps(2))
    show ?thesis unfolding eq stop using False by (auto simp del: split_paired_Ex split_paired_All)
  qed
qed

section \<open>Which entry is taken\<close>

text \<open>The entries before the terminator, and the numbers of those that satisfy a condition.\<close>

definition live :: "tariff_inet list \<Rightarrow> nat" where
  "live tab = length (takeWhile (\<lambda>t. \<not> tn_hour_from t < 0) tab)"

definition hits :: "(tariff_inet \<Rightarrow> bool) \<Rightarrow> tariff_inet list \<Rightarrow> nat list" where
  "hits P tab = filter (\<lambda>i. P (tab ! i)) [0..<live tab]"

lemma default_entry_from:
  "default_entry plan wday ts i d =
     (case filter (\<lambda>j. is_default plan wday (ts ! j)) [0..<live ts] of
        [] \<Rightarrow> d | js \<Rightarrow> i + last js)"
proof (induction ts arbitrary: i d)
  case Nil
  then show ?case by (simp add: live_def)
next
  case (Cons t ts)
  show ?case
  proof (cases "tn_hour_from t < 0")
    case True
    then show ?thesis by (simp add: live_def)
  next
    case False
    then have n: "live (t # ts) = Suc (live ts)" by (simp add: live_def)
    have f: "filter (\<lambda>j. is_default plan wday ((t # ts) ! j)) [0..<Suc (live ts)] =
        (if is_default plan wday t then [0] else []) @
        map Suc (filter (\<lambda>j. is_default plan wday (ts ! j)) [0..<live ts])"
      by (simp add: upt_conv_Cons map_Suc_upt[symmetric] filter_map o_def del: upt_Suc)
    show ?thesis
      using False unfolding n f
      by (auto simp: Cons last_map split: list.splits)
  qed
qed

lemma default_entry_last:
  "default_entry plan wday tab 0 d =
     (if hits (is_default plan wday) tab = [] then d else last (hits (is_default plan wday) tab))"
  by (simp add: default_entry_from hits_def split: list.splits)

lemma live_le: "live tab \<le> length tab"
  by (simp add: live_def length_takeWhile_le)

lemma default_entry_bound: "d < length tab \<Longrightarrow> default_entry plan wday tab 0 d < length tab"
proof -
  have "last (hits (is_default plan wday) tab) < length tab" if "hits (is_default plan wday) tab \<noteq> []"
    using last_in_set[OF that] live_le[of tab] by (auto simp: hits_def)
  then show "d < length tab \<Longrightarrow> ?thesis" by (simp add: default_entry_last)
qed

lemma tariff_loop_bound:
  "tariff_loop n tab wday acc st d = Some (st', d') \<Longrightarrow> d < length tab \<Longrightarrow> d' < length tab"
  by (induction n tab wday acc st d rule: tariff_loop.induct)
     (auto simp: Let_def default_entry_bound split: option.splits)

text \<open>
  The windows of the entries behind the first: from and until (both \<open>CORR_VALUE\<close> late) and the day of the
  week.  The structure of \<open>timelocal\<close> goes from one entry to the next.
\<close>

fun hour_windows :: "(tm \<Rightarrow> int \<times> tm) \<Rightarrow> int \<Rightarrow> tariff_inet list \<Rightarrow> tm \<Rightarrow> (int \<times> int \<times> int) list" where
  "hour_windows tml ndtime [] stm = []"
| "hour_windows tml ndtime (t # ts) stm =
     (if tn_hour_from t < 0 then []
      else (let a = tml (stm\<lparr>tm_hour := tn_hour_from t\<rparr>);
                b = tml ((snd a)\<lparr>tm_hour := tn_hour_to t\<rparr>);
                stm = (if tn_hour_to t \<noteq> 0 then snd b else snd a);
                etime = (if tn_hour_to t \<noteq> 0 then i32 (fst b + CORR_VALUE) else ndtime)
            in (i32 (fst a + CORR_VALUE), etime, tm_wday stm) # hour_windows tml ndtime ts stm))"

definition in_window :: "int \<Rightarrow> int \<Rightarrow> tariff_inet \<Rightarrow> int \<times> int \<times> int \<Rightarrow> bool" where
  "in_window plan curtime t win \<longleftrightarrow> plan = tn_tariff t \<and> (tn_weekday t < 0 \<or> tn_weekday t = snd (snd win)) \<and>
     tn_hour_from t \<noteq> tn_hour_to t \<and> fst win \<le> curtime \<and> curtime < fst (snd win)"

lemma hour_windows_live: "length (hour_windows tml nd ts stm) = live ts"
  by (induction tml nd ts stm rule: hour_windows.induct) (auto simp: live_def Let_def)

lemma filter_upt_Cons:
  "filter (\<lambda>j. P ((t # ts) ! j) ((x # xs) ! j)) [0..<Suc n] =
    (if P t x then [0] else []) @ map Suc (filter (\<lambda>j. P (ts ! j) (xs ! j)) [0..<n])"
  by (simp add: upt_conv_Cons map_Suc_upt[symmetric] filter_map o_def del: upt_Suc)

lemma hour_entry_last:
  "hour_entry tml plan c nd ts i stm e =
     (case filter (\<lambda>j. in_window plan c (ts ! j) (hour_windows tml nd ts stm ! j)) [0..<live ts] of
        [] \<Rightarrow> e | js \<Rightarrow> i + last js)"
proof (induction tml nd ts stm arbitrary: i e rule: hour_windows.induct)
  case (1 tml nd stm)
  then show ?case by (simp add: live_def)
next
  case (2 tml nd t ts stm)
  show ?case
  proof (cases "tn_hour_from t < 0")
    case True
    then show ?thesis by (simp add: live_def)
  next
    case False
    then have n: "live (t # ts) = Suc (live ts)" by (simp add: live_def)
    obtain s1 stm1 where a: "tml (stm\<lparr>tm_hour := tn_hour_from t\<rparr>) = (s1, stm1)" by fastforce
    obtain s2 stm2 where b: "tml (stm1\<lparr>tm_hour := tn_hour_to t\<rparr>) = (s2, stm2)" by fastforce
    let ?stm = "if tn_hour_to t \<noteq> 0 then stm2 else stm1"
    let ?win = "(i32 (s1 + CORR_VALUE), if tn_hour_to t \<noteq> 0 then i32 (s2 + CORR_VALUE) else nd, tm_wday ?stm)"
    have w: "hour_windows tml nd (t # ts) stm = ?win # hour_windows tml nd ts ?stm"
      using False a b by (simp add: Let_def)
    have e: "hour_entry tml plan c nd (t # ts) i stm e =
        hour_entry tml plan c nd ts (i + 1) ?stm (if in_window plan c t ?win then i else e)"
      using False a b by (cases "tn_hour_to t = 0") (auto simp: in_window_def Let_def)
    have ih: "hour_entry tml plan c nd ts j ?stm d =
        (case filter (\<lambda>j. in_window plan c (ts ! j) (hour_windows tml nd ts ?stm ! j)) [0..<live ts] of
          [] \<Rightarrow> d | js \<Rightarrow> j + last js)" for j d
      using 2[OF False refl refl refl refl] a b by (simp cong: if_cong)
    show ?thesis
      unfolding n w filter_upt_Cons e ih
      by (cases "tn_hour_to t = 0"; cases "in_window plan c t ?win") (auto simp: last_map split: list.splits)
  qed
qed

lemma hour_entry_range:
  "hour_entry tml plan c nd ts i stm tariff = tariff \<or>
    (i \<le> hour_entry tml plan c nd ts i stm tariff \<and> hour_entry tml plan c nd ts i stm tariff < i + length ts)"
proof (induction ts arbitrary: i stm tariff)
  case (Cons t ts)
  note ih = Cons[of "i + 1"]
  show ?case
  proof (cases "tn_hour_from t < 0")
    case False
    obtain s1 stm1 where 1: "tml (stm\<lparr>tm_hour := tn_hour_from t\<rparr>) = (s1, stm1)" by fastforce
    obtain e stm2 where 2: "(if tn_hour_to t \<noteq> 0
        then (case tml (stm1\<lparr>tm_hour := tn_hour_to t\<rparr>) of (e, stm) \<Rightarrow> (i32 (e + CORR_VALUE), stm))
        else (nd, stm1)) = (e, stm2)" by fastforce
    show ?thesis using False ih[of stm2 tariff] ih[of stm2 i]
      by (auto simp: 1 2 Let_def)
  qed simp
qed simp

lemma tariff_entry_bound:
  assumes "d < length (tariffs_inet w)"
  shows "tariff_entry w plan c stm d < length (tariffs_inet w)"
proof -
  have "hour_entry tml plan c nd (drop 1 (tariffs_inet w)) 1 stm' d < length (tariffs_inet w)" for tml nd stm'
    using hour_entry_range[of tml plan c nd "drop 1 (tariffs_inet w)" 1 stm' d] assms by auto
  with assms show ?thesis by (simp add: tariff_entry_def Let_def split: prod.splits)
qed

text \<open>
  The reference for the entry of the hour: the last one of the plan whose window has the time, unless there is
  none or it has no price, then the default entry of the plan.
\<close>

definition billed_entry :: "'a tariffs_scheme \<Rightarrow> int \<Rightarrow> int \<Rightarrow> tm \<Rightarrow> nat \<Rightarrow> nat" where
  "billed_entry w plan curtime stm d =
     (let tab = tariffs_inet w; rest = drop 1 tab;
          evening = c_timelocal w (stm\<lparr>tm_hour := 23, tm_min := 0, tm_sec := 0\<rparr>);
          wins = hour_windows (c_timelocal w) (i32 (i32 (fst evening + CORR_VALUE) + 3600)) rest (snd evening);
          hs = filter (\<lambda>j. in_window plan curtime (rest ! j) (wins ! j)) [0..<live rest]
      in if hs = [] \<or> dlt (tn_price_in (tab ! (1 + last hs))) 0 then d else 1 + last hs)"

lemma tariff_entry_billed: "tariff_entry w plan curtime stm d = billed_entry w plan curtime stm d"
  by (auto simp: tariff_entry_def billed_entry_def hour_entry_last Let_def split: prod.splits list.splits)

lemma charge_entry_range:
  "charge_entry plan ts i tariff = tariff \<or>
     (i \<le> charge_entry plan ts i tariff \<and> charge_entry plan ts i tariff < i + length ts \<and>
      tn_tariff (ts ! (charge_entry plan ts i tariff - i)) = plan)"
proof (induction ts arbitrary: i tariff)
  case (Cons t ts)
  show ?case
  proof (cases "tn_tariff t < 0")
    case False
    show ?thesis using False Cons[of "i + 1" tariff] Cons[of "i + 1" i]
      by (auto simp: nth_Cons' Suc_diff_le)
  qed simp
qed simp

lemma charge_entry_last:
  "tab ! charge_entry plan (drop i tab) i e =
    (let mine = filter (\<lambda>t. tn_tariff t = plan) (takeWhile (\<lambda>t. \<not> tn_tariff t < 0) (drop i tab))
     in if mine = [] then tab ! e else last mine)"
proof (induction "drop i tab" arbitrary: i e)
  case Nil
  then show ?case by (metis charge_entry.simps(1) filter.simps(1) takeWhile.simps(1))
next
  case (Cons t ts)
  have ts: "drop (i + 1) tab = ts" using Cons(2) by (metis Suc_eq_plus1 drop_Suc list.sel(3) tl_drop)
  have t: "tab ! i = t" using Cons(2) by (metis drop_eq_Nil2 hd_drop_conv_nth leI list.discI list.sel(1))
  show ?case
    using Cons(1)[of "i + 1", unfolded ts, OF refl] by (auto simp: Cons(2)[symmetric] t Let_def)
qed

section \<open>Properties\<close>

text \<open>
  C4: The search for the effective plan of an account ends.  It returns a plan exactly when fewer than
  257 switches (volume reached, money reached, or alias) lead from the account's plan to one
  whose default entry switches no further, and then it returns that plan and that entry; it
  reports a loop exactly when 257 switches can be made in a row.\<close>

theorem tariff_switching:
  "(tariff_loop 257 tab wday acc st d = Some (st', d') \<longleftrightarrow>
      (\<exists>k s. k < 257 \<and> (switch_step tab wday acc ^^ k) (st, d) s \<and> (\<nexists>u. switch_step tab wday acc s u) \<and>
         st' = fst s \<and> d' = default_entry (fst (fst s)) wday tab 0 (snd s))) \<and>
   (tariff_loop 257 tab wday acc st d = None \<longleftrightarrow> (\<exists>s. (switch_step tab wday acc ^^ 257) (st, d) s))"
  using tariff_loop_steps[of 257 tab wday acc "(st, d)"] unfolding fst_conv snd_conv by blast

text \<open>What a count leaves of an account: all but the counters of the month.\<close>

definition same_account :: "acc \<Rightarrow> acc \<Rightarrow> bool" where
  "same_account a b \<longleftrightarrow>
     a\<lparr>a_summ_rsttime := 0, a_inet_summ_in := 0, a_inet_summ_out := 0, a_money_summ := 0\<rparr> =
     b\<lparr>a_summ_rsttime := 0, a_inet_summ_in := 0, a_inet_summ_out := 0, a_money_summ := 0\<rparr>"

lemma same_account_simps:
  "same_account (month_reset t acc w) acc" "same_account (add_traffic data val acc) acc"
  "same_account a b \<Longrightarrow> same_account b c \<Longrightarrow> same_account a c"
  "same_account (acc\<lparr>a_money_summ := m\<rparr>) acc" "same_account a a"
  by (auto simp: same_account_def month_reset_def add_traffic_def Let_def)

lemma same_account_balance: "same_account a b \<Longrightarrow> a_balance a = a_balance b \<and> a_tag a = a_tag b \<and>
    a_accno a = a_accno b \<and> a_tariff a = a_tariff b \<and> a_tcredit a = a_tcredit b \<and>
    a_start a = a_start b \<and> a_stop a = a_stop b \<and> a_crc a = a_crc b"
  by (cases a; cases b) (simp add: same_account_def)

lemma count_time_inet: "tariffs_inet (snd (count_time w)) = tariffs_inet w"
  by (simp add: count_time_def sys_time_def sys_gettimeofday_def split: prod.splits)

lemma count_time_cal: "c_localtime (snd (count_time w)) = c_localtime w" "c_timelocal (snd (count_time w)) = c_timelocal w"
  by (simp_all add: count_time_def sys_time_def sys_gettimeofday_def)

lemma inet_count_keeps: "inet_count_proc data acc w = Some (amount, data', acc', w') \<Longrightarrow> same_account acc' acc"
  by (auto simp: inet_count_proc_def same_account_simps(1) Let_def split: prod.splits if_splits option.splits
      intro!: same_account_simps(3)[OF same_account_simps(2) same_account_simps(1)])

text \<open>
  C5: Counting traffic keeps the books of the month.  The counters of the month start from zero when the
  reset time has come.  When 257 switches between plans can be made in a row the traffic is free and not
  counted.  Otherwise the switches lead from the plan of the account to one that switches no further, and
  of that plan the last entry whose hours have the time decides (its default entry, the last without hours,
  when there is none or it has no price): the sum is minus the volume in bytes times the price of that entry
  for the direction per megabyte, the same amount is added to the money of the month and the volume to the
  counter of that direction only; plan and entry are noted in the data.  Nothing else of the account changes.\<close>

theorem inet_count_books:
  assumes "inet_count_proc data acc w = Some (amount, data', acc', w')"
  shows "same_account acc' acc \<and>
    (let curtime = fst (count_time w); due = sint (a_summ_rsttime acc) \<le> curtime; acc0 = month_reset curtime acc w;
         tab = tariffs_inet w; stm = c_localtime w curtime; R = switch_step tab (tm_wday stm) acc0;
         s0 = ((sint (a_tariff acc), 0, 0), 0)
     in a_money_summ acc0 = (if due then 0 else a_money_summ acc) \<and>
        a_inet_summ_in acc0 = (if due then 0 else a_inet_summ_in acc) \<and>
        a_inet_summ_out acc0 = (if due then 0 else a_inet_summ_out acc) \<and>
        ((\<exists>s. (R ^^ 257) s0 s) \<and> amount = 0 \<and> data' = data \<and> acc' = acc0 \<or>
         (\<exists>k s plan d e val. k < 257 \<and> (R ^^ k) s0 s \<and> (\<nexists>u. R s u) \<and> plan = fst (fst s) \<and>
            d = (let hs = hits (is_default plan (tm_wday stm)) tab in if hs = [] then snd s else last hs) \<and>
            e = billed_entry w plan curtime stm d \<and> e < length tab \<and>
            val = ddiv (dmul (d_of_int (uint (is_value data)))
                          (if outbound data then tn_price_out (tab ! e) else tn_price_in (tab ! e))) d_mebi \<and>
            amount = dneg val \<and> a_money_summ acc' = dadd (a_money_summ acc0) val \<and>
            a_inet_summ_in acc' = a_inet_summ_in acc0 + (if outbound data then 0 else ucast (is_value data)) \<and>
            a_inet_summ_out acc' = a_inet_summ_out acc0 + (if outbound data then ucast (is_value data) else 0) \<and>
            data' = data\<lparr>is_proto2 := is_proto2 data OR
              (push_bit 16 (word_of_int plan) OR push_bit 24 (word_of_int (int e - int d)))\<rparr>)))"
proof -
  obtain t w1 where ct: "count_time w = (t, w1)" by fastforce
  define acc0 where "acc0 = month_reset t acc w"
  define stm where "stm = c_localtime w t"
  have tab: "tariffs_inet w1 = tariffs_inet w" using count_time_inet[of w] ct by simp
  have cal: "c_localtime w1 = c_localtime w" "c_timelocal w1 = c_timelocal w" using count_time_cal[of w] ct by simp_all
  have a0: "month_reset t acc w1 = acc0" by (simp add: acc0_def month_reset_def cal)
  have ne: "tariffs_inet w \<noteq> []" using assms by (auto simp: inet_count_proc_def ct tab Let_def)
  have plan: "a_tariff acc0 = a_tariff acc"
    using same_account_balance[OF same_account_simps(1)[of t acc w]] by (simp add: acc0_def)
  have zero: "a_money_summ acc0 = (if sint (a_summ_rsttime acc) \<le> t then 0 else a_money_summ acc)"
    "a_inet_summ_in acc0 = (if sint (a_summ_rsttime acc) \<le> t then 0 else a_inet_summ_in acc)"
    "a_inet_summ_out acc0 = (if sint (a_summ_rsttime acc) \<le> t then 0 else a_inet_summ_out acc)"
    by (simp_all add: acc0_def month_reset_def Let_def)
  have billed: "tariff_entry w1 p t stm d = billed_entry w p t stm d" for p d
    unfolding tariff_entry_billed by (simp add: billed_entry_def tab cal)
  let ?R = "switch_step (tariffs_inet w) (tm_wday stm) acc0" and ?s0 = "((sint (a_tariff acc), 0, 0), 0)"
  let ?loop = "tariff_loop 257 (tariffs_inet w) (tm_wday stm) acc0 (sint (a_tariff acc), 0, 0) 0"
  note steps = tariff_loop_steps[of 257 "tariffs_inet w" "tm_wday stm" acc0 ?s0, unfolded fst_conv snd_conv]
  have run: "case ?loop of None \<Rightarrow> amount = 0 \<and> data' = data \<and> acc' = acc0
    | Some ((p, _, _), d) \<Rightarrow> (let e = billed_entry w p t stm d; val = traffic_sum data (tariff_price (tariffs_inet w ! e) data)
        in amount = dneg val \<and> data' = note_plan p e d data \<and> acc' = add_traffic data val acc0)"
    using assms ne by (auto simp: inet_count_proc_def ct tab cal a0 plan billed stm_def[symmetric] Let_def split: option.splits)
  show ?thesis
  proof (cases ?loop)
    case None
    with steps run inet_count_keeps[OF assms] zero show ?thesis
      by (simp add: ct acc0_def[symmetric] stm_def[symmetric] Let_def)
  next
    case (Some r)
    obtain p i m d where r: "r = ((p, i, m), d)" by (cases r) auto
    from conjunct1[OF steps, rule_format, of "(p, i, m)" d] Some r obtain k s where k: "k < 257" "(?R ^^ k) ?s0 s"
      "\<nexists>u. ?R s u" "fst s = (p, i, m)" "d = default_entry p (tm_wday stm) (tariffs_inet w) 0 (snd s)"
      by (metis fst_conv)
    let ?e = "billed_entry w p t stm d"
    have "d < length (tariffs_inet w)" using tariff_loop_bound[OF Some[unfolded r]] ne by simp
    then have e: "?e < length (tariffs_inet w)" using tariff_entry_bound[of d w] tariff_entry_billed by metis
    have d: "d = (let hs = hits (is_default p (tm_wday stm)) (tariffs_inet w) in if hs = [] then snd s else last hs)"
      using k(5) by (simp add: default_entry_last Let_def)
    have res: "let val = traffic_sum data (tariff_price (tariffs_inet w ! ?e) data)
        in amount = dneg val \<and> data' = note_plan p ?e d data \<and> acc' = add_traffic data val acc0"
      using run Some r by (simp add: Let_def)
    show ?thesis
      using inet_count_keeps[OF assms] zero
      unfolding ct fst_conv Let_def acc0_def[symmetric] stm_def[symmetric]
      by (intro conjI disjI2 exI[of _ k] exI[of _ s] exI[of _ p] exI[of _ d] exI[of _ ?e] exI[of _ "traffic_sum data (tariff_price (tariffs_inet w ! ?e) data)"])
        (use k(1,2,3,4) e d res in \<open>auto simp: note_plan_def add_traffic_def traffic_sum_def tariff_price_def Let_def\<close>)
  qed
qed

text \<open>
  C6: The monthly charge is the month's fee of the last entry with the account's plan behind the
  first entry of the table (of the first entry when there is none), divided by the days of the month: 28 to 31 by
  the calendar, with 29 for February whenever \<open>timelocal\<close> accepts its 29th day; it is booked as money of the month and
  nothing else of the account changes.\<close>

theorem inet_charge_share:
  assumes "inet_charge_proc acc w = Some (amount, acc', w')"
    "0 \<le> tm_mon (c_localtime w (fst (sys_time w)))" "tm_mon (c_localtime w (fst (sys_time w))) \<le> 11"
  shows "let stm = c_localtime w (fst (sys_time w));
      mine = filter (\<lambda>t. tn_tariff t = sint (a_tariff acc)) (takeWhile (\<lambda>t. \<not> tn_tariff t < 0) (drop 1 (tariffs_inet w)));
      t = (if mine = [] then hd (tariffs_inet w) else last mine);
      days = [31, 28, 31, 30, 31, 30, 31, 31, 30, 31, 30, 31] ! nat (tm_mon stm) +
        (if tm_mon stm = 1 \<and> 0 < fst (c_timelocal w (stm\<lparr>tm_mday := 29\<rparr>)) then 1 else 0);
      val = ddiv (tn_month_charge t) (d_of_int days)
    in 28 \<le> days \<and> days \<le> 31 \<and> amount = dneg val \<and> acc' = acc\<lparr>a_money_summ := dadd (a_money_summ acc) val\<rparr>"
proof -
  obtain t w1 where ct: "sys_time w = (t, w1)" by fastforce
  have w1: "tariffs_inet w1 = tariffs_inet w" "c_localtime w1 = c_localtime w" "c_timelocal w1 = c_timelocal w"
    using ct by (auto simp: sys_time_def sys_gettimeofday_def)
  have ne: "tariffs_inet w \<noteq> []"
    using assms by (auto simp: inet_charge_proc_def ct w1 Let_def)
  let ?m = "nat (tm_mon (c_localtime w t))"
  have "?m < length no_of_days" using assms(2,3) ct by (simp add: no_of_days_def)
  from nth_mem[OF this] have r: "no_of_days ! ?m \<in> {28, 30, 31}" by (auto simp: no_of_days_def)
  have feb: "tm_mon (c_localtime w t) = 1 \<longrightarrow> no_of_days ! ?m = 28" by (simp add: no_of_days_def)
  show ?thesis
    using assms(1) ne r feb charge_entry_last[of "tariffs_inet w" "sint (a_tariff acc)" 1 0]
    by (auto simp: inet_charge_proc_def days_of_month_def no_of_days_def[symmetric] ct w1 Let_def hd_conv_nth split: if_splits)
qed

text \<open>
  The leap day test accepts every February: as long as \<open>timelocal\<close> can assemble the time
  (it normalises 29 February to 1 March), the charge divides February's fee by 29.\<close>

lemma february_has_29_days:
  assumes "tm_mon (c_localtime w curtime) = 1"
    "\<And>stm. 0 < fst (c_timelocal w stm)"
  shows "days_of_month curtime w = 29"
  using assms by (simp add: days_of_month_def no_of_days_def Let_def)

section \<open>An example\<close>

text \<open>
  Two plans: plan 1 is an alias of plan 0, which costs one unit per megabyte inbound and nothing
  outbound.  The calendar knows the first of January 1970 in Greenwich.
\<close>

definition demo_entry :: "int \<Rightarrow> double \<Rightarrow> int \<Rightarrow> tariff_inet" where
  "demo_entry plan price sw = inet_end\<lparr>tn_tariff := plan, tn_hour_from := 0, tn_hour_to := 0,
     tn_price_in := price, tn_price_out := 0, tn_month_charge := 0x403E000000000000, tn_sw_tariff := sw,
     tn_sw_summ := 0, tn_sw_inetsumm := 0\<rparr>"

definition demo_localtime :: "int \<Rightarrow> tm" where
  "demo_localtime t = \<lparr>tm_sec = t mod 60, tm_min = t div 60 mod 60, tm_hour = t div 3600, tm_mday = 1,
     tm_mon = 0, tm_year = 70, tm_wday = 4, tm_yday = 0, tm_isdst = 0\<rparr>"

definition demo_timelocal :: "tm \<Rightarrow> int \<times> tm" where
  "demo_timelocal stm = (tm_sec stm + 60 * tm_min stm + 3600 * tm_hour stm +
     86400 * (tm_mday stm - 1) + 2678400 * tm_mon stm, stm)"

definition demo_tab :: "tariff_inet list" where
  "demo_tab = [demo_entry 0 0x3FF0000000000000 (- 1), demo_entry 1 0 0, inet_end]"

definition demo_tariffs :: tariffs where
  "demo_tariffs = gates.extend
     (dbs.extend demo_bee (gates.fields (linktab demo_gates) ''gates'' ''gates.tmp'' ''gates.lock''))
     (tariffs.fields [] [\<lparr>tl_tariff = 0, tl_min = d_mebi, tl_res_min = 0\<rparr>] demo_tab 0 1 3
       demo_localtime demo_timelocal 0)"

definition demo_data :: isdata where
  "demo_data = \<lparr>is_res_id = 0, is_user_id = 0, is_value = 0x100000, is_proto_id = 0, is_host = 0,
     is_proto2 = 0, is_reserv = 0\<rparr>"

lemma demo_tariffs_sel [simp]:
  "tariffs_inet demo_tariffs = demo_tab"
  "tariffs_limit demo_tariffs = [\<lparr>tl_tariff = 0, tl_min = d_mebi, tl_res_min = 0\<rparr>]"
  "HackTime demo_tariffs = 0" "c_localtime demo_tariffs = demo_localtime"
  "c_timelocal demo_tariffs = demo_timelocal" "ticks demo_tariffs = 0"
  "clock demo_tariffs = (\<lambda>n. Some \<lparr>tv_sec = 1000 + int n, tv_usec = 0\<rparr>)"
  by (simp_all add: demo_tariffs_def dbs.defs gates.defs tariffs.defs demo_bee_def)

lemma demo_time:
  "count_time demo_tariffs = (1000, demo_tariffs\<lparr>ticks := 1\<rparr>)" "sys_time demo_tariffs = (1000, demo_tariffs\<lparr>ticks := 1\<rparr>)"
  by (simp_all add: count_time_def sys_time_def sys_gettimeofday_def)

lemma demo_count:
  "\<exists>data' acc' w'. inet_count_proc demo_data (demo_acc 0 0) demo_tariffs = Some (d_minus_one, data', acc', w')"
proof -
  have reset: "sint (a_summ_rsttime (demo_acc 0 0)) = 0" "a_tariff (month_reset 1000 (demo_acc 0 0) w) = 0" for w :: tariffs
    by (simp_all add: demo_acc_def month_reset_def decode_acc_def Let_def)
  have n: "(257 :: nat) = Suc 256" by simp
  have loop: "tariff_loop 257 demo_tab 4 a (0, 0, 0) 0 = Some ((0, 0, 0), 0)" for a
    by (subst n, subst tariff_loop.simps(2))
       (simp add: demo_tab_def is_default_def demo_entry_def inet_end_def inet_switch_def)
  have entry: "tariff_entry (demo_tariffs\<lparr>ticks := 1\<rparr>) 0 1000 (demo_localtime 1000) 0 = 0"
    by (simp add: tariff_entry_def demo_timelocal_def demo_tab_def demo_entry_def inet_end_def Let_def)
  have mul: "dmul d_mebi 0x3FF0000000000000 = d_mebi"
    by (simp add: dmul_def d_mebi_def fdecode_def Let_def round_frac_def round_even_def fpack_def)
  have div: "ddiv d_mebi d_mebi = 0x3FF0000000000000"
    by (simp add: ddiv_def d_mebi_def fdecode_def Let_def round_ratio_def round_frac_def round_even_def fpack_def)
  have price: "traffic_sum demo_data 0x3FF0000000000000 = 0x3FF0000000000000"
    using d_literals(2) mul div by (simp add: traffic_sum_def demo_data_def)
  have "dneg 0x3FF0000000000000 = d_minus_one" by (simp add: dneg_def d_minus_one_def)
  moreover have "demo_tab \<noteq> []" "tm_wday (demo_localtime 1000) = 4"
    "tariff_price (demo_tab ! 0) demo_data = 0x3FF0000000000000"
    by (simp_all add: demo_tab_def demo_localtime_def tariff_price_def demo_data_def demo_entry_def)
  ultimately show ?thesis
    using entry by (simp add: inet_count_proc_def demo_time reset loop price Let_def)
qed

lemma inet_count_books_witness:
  "\<exists>data' acc' w'. inet_count_proc demo_data (demo_acc 0 0) demo_tariffs = Some (d_minus_one, data', acc', w') \<and>
     same_account acc' (demo_acc 0 0)"
  using demo_count inet_count_books[of demo_data "demo_acc 0 0" demo_tariffs d_minus_one] by blast

lemma inet_charge_share_witness:
  "\<exists>acc' w'. inet_charge_proc (demo_acc 0 0) demo_tariffs =
     Some (dneg (ddiv 0x403E000000000000 (d_of_int 31)), acc', w')"
proof -
  obtain r where r: "inet_charge_proc (demo_acc 0 0) demo_tariffs = Some r"
    by (auto simp: inet_charge_proc_def demo_time demo_tab_def Let_def)
  obtain amount acc' w' where r': "r = (amount, acc', w')" by (cases r) auto
  have plan: "a_tariff (demo_acc 0 0) = 0" by (simp add: demo_acc_def decode_acc_def)
  from inet_charge_share[OF r[unfolded r']] have "amount = dneg (ddiv 0x403E000000000000 (d_of_int 31))"
    by (simp add: demo_time demo_localtime_def demo_tab_def demo_entry_def inet_end_def plan Let_def)
  with r r' show ?thesis by simp
qed

lemma february_has_29_days_witness:
  "days_of_month 0 (demo_tariffs\<lparr>c_localtime := \<lambda>t. (demo_localtime t)\<lparr>tm_mon := 1\<rparr>,
     c_timelocal := \<lambda>stm. (max 1 (fst (demo_timelocal stm)), stm)\<rparr>) = 29"
  by (rule february_has_29_days) simp_all

end
