(* ===== verification/Timer.thy ===== *)
theory Timer
  imports Unix
begin

text \<open>
  Timers (\<open>src/src/bee/lib/bee/timer.c\<close>).  A pointer argument is \<open>None\<close> when it is \<open>NULL\<close>; an
  operation that writes through a pointer returns the new contents.  The fields of a
  \<open>timeval\<close> are 32-bit, so every assignment to one wraps (\<open>i32\<close>), and \<open>/\<close> and \<open>%\<close> truncate
  towards zero.  The lemmas read a timer as one number of microseconds, \<open>usecs\<close>.
\<close>

abbreviation (input) TIMER_OK :: int where "TIMER_OK \<equiv> 0"
abbreviation (input) TIMER_ERROR :: int where "TIMER_ERROR \<equiv> - 1"
abbreviation (input) TIMER_SECONDS :: int where "TIMER_SECONDS \<equiv> - 2"
abbreviation (input) TIMER_OVERFLOW :: int where "TIMER_OVERFLOW \<equiv> - 3"

definition tm_zero :: "timeval option \<Rightarrow> 'a os_scheme \<Rightarrow> int \<times> timeval option \<times> 'a os_scheme" where
  "tm_zero tm w = (case tm of
      None \<Rightarrow> (TIMER_ERROR, None, w)
    | Some t \<Rightarrow> (case sys_gettimeofday w of
          (None, w) \<Rightarrow> (TIMER_ERROR, Some t, w)
        | (Some now, w) \<Rightarrow> (0, Some now, w)))"

definition tm_setsu ::
    "timeval option \<Rightarrow> int \<Rightarrow> int \<Rightarrow> 'a os_scheme \<Rightarrow> int \<times> timeval option \<times> 'a os_scheme" where
  "tm_setsu tm sec usec w = (case tm of
      None \<Rightarrow> (TIMER_ERROR, None, w)
    | Some t \<Rightarrow> (case sys_gettimeofday w of
          (None, w) \<Rightarrow> (TIMER_ERROR, Some t, w)
        | (Some now, w) \<Rightarrow>
            (let u = i32 (tv_usec now + usec smod 1000000);
                 s = i32 (tv_sec now + (sec + u sdiv 1000000 + usec sdiv 1000000))
             in (0, Some \<lparr>tv_sec = s, tv_usec = u smod 1000000\<rparr>, w))))"

definition tm_sets :: "timeval option \<Rightarrow> int \<Rightarrow> 'a os_scheme \<Rightarrow> int \<times> timeval option \<times> 'a os_scheme" where
  "tm_sets tm sec w = (if tm = None then (TIMER_ERROR, tm, w) else tm_setsu tm sec 0 w)"

definition tm_setu :: "timeval option \<Rightarrow> int \<Rightarrow> 'a os_scheme \<Rightarrow> int \<times> timeval option \<times> 'a os_scheme" where
  "tm_setu tm usec w = (if tm = None then (TIMER_ERROR, tm, w) else tm_setsu tm 0 usec w)"

definition tm_set ::
    "timeval option \<Rightarrow> timeval option \<Rightarrow> 'a os_scheme \<Rightarrow> int \<times> timeval option \<times> 'a os_scheme" where
  "tm_set tm per w = (case (tm, per) of
      (Some t, Some p) \<Rightarrow> tm_setsu tm (tv_sec p) (tv_usec p) w
    | _ \<Rightarrow> (TIMER_ERROR, tm, w))"

definition tm_state :: "timeval option \<Rightarrow> 'a os_scheme \<Rightarrow> int \<times> 'a os_scheme" where
  "tm_state tm w = (case tm of
      None \<Rightarrow> (TIMER_ERROR, w)
    | Some t \<Rightarrow> (case sys_gettimeofday w of
          (None, w) \<Rightarrow> (TIMER_ERROR, w)
        | (Some tv, w) \<Rightarrow>
            if tv_sec t > tv_sec tv then (1, w)
            else if tv_sec t < tv_sec tv then (0, w)
            else if tv_usec t > tv_usec tv then (1, w)
            else (0, w)))"

text \<open>\<open>to - from\<close>, borrowing a second when the microseconds do not suffice.\<close>

definition tm_diff :: "timeval \<Rightarrow> timeval \<Rightarrow> timeval" where
  "tm_diff to from =
     (let d = (if tv_usec to < tv_usec from
               then \<lparr>tv_sec = i32 (tv_sec to - 1), tv_usec = i32 (tv_usec to + 1000000)\<rparr> else to)
      in \<lparr>tv_sec = i32 (tv_sec d - tv_sec from), tv_usec = i32 (tv_usec d - tv_usec from)\<rparr>)"

definition tm_rem ::
    "timeval option \<Rightarrow> timeval option \<Rightarrow> 'a os_scheme \<Rightarrow> int \<times> timeval option \<times> 'a os_scheme" where
  "tm_rem tm dest w = (case (tm, dest) of
      (Some t, Some d) \<Rightarrow> (case sys_gettimeofday w of
          (None, w) \<Rightarrow> (TIMER_ERROR, dest, w)
        | (Some now, w) \<Rightarrow>
            if tv_sec t < tv_sec now \<or> tv_sec t = tv_sec now \<and> tv_usec t < tv_usec now
            then (TIMER_OVERFLOW, dest, w)
            else (0, Some (tm_diff t now), w))
    | _ \<Rightarrow> (TIMER_ERROR, dest, w))"

definition tm_left ::
    "timeval option \<Rightarrow> timeval option \<Rightarrow> 'a os_scheme \<Rightarrow> int \<times> timeval option \<times> 'a os_scheme" where
  "tm_left tm dest w = (case (tm, dest) of
      (Some t, Some d) \<Rightarrow> (case sys_gettimeofday w of
          (None, w) \<Rightarrow> (TIMER_ERROR, dest, w)
        | (Some now, w) \<Rightarrow>
            if tv_sec t > tv_sec now \<or> tv_sec t = tv_sec now \<and> tv_usec t > tv_usec now
            then (TIMER_OVERFLOW, dest, w)
            else (0, Some (tm_diff now t), w))
    | _ \<Rightarrow> (TIMER_ERROR, dest, w))"

text \<open>The local \<open>timeval\<close> the short forms pass; it is read only after the call filled it.\<close>

definition tm_local :: timeval where "tm_local = \<lparr>tv_sec = 0, tv_usec = 0\<rparr>"

definition tm_remu :: "timeval option \<Rightarrow> 'a os_scheme \<Rightarrow> int \<times> 'a os_scheme" where
  "tm_remu tm w = (if tm = None then (TIMER_ERROR, w)
     else (case tm_rem tm (Some tm_local) w of (rc, rem, w) \<Rightarrow>
       if rc \<noteq> 0 then (rc, w)
       else if tv_sec (the rem) > 0 then (TIMER_SECONDS, w) else (tv_usec (the rem), w)))"

definition tm_rems :: "timeval option \<Rightarrow> 'a os_scheme \<Rightarrow> int \<times> 'a os_scheme" where
  "tm_rems tm w = (if tm = None then (TIMER_ERROR, w)
     else (case tm_rem tm (Some tm_local) w of (rc, rem, w) \<Rightarrow>
       if rc \<noteq> 0 then (rc, w) else (tv_sec (the rem), w)))"

definition tm_leftu :: "timeval option \<Rightarrow> 'a os_scheme \<Rightarrow> int \<times> 'a os_scheme" where
  "tm_leftu tm w = (if tm = None then (TIMER_ERROR, w)
     else (case tm_left tm (Some tm_local) w of (rc, left, w) \<Rightarrow>
       if rc \<noteq> 0 then (rc, w)
       else if tv_sec (the left) > 0 then (TIMER_SECONDS, w) else (tv_usec (the left), w)))"

definition tm_lefts :: "timeval option \<Rightarrow> 'a os_scheme \<Rightarrow> int \<times> 'a os_scheme" where
  "tm_lefts tm w = (if tm = None then (TIMER_ERROR, w)
     else (case tm_left tm (Some tm_local) w of (rc, left, w) \<Rightarrow>
       if rc \<noteq> 0 then (rc, w) else (tv_sec (the left), w)))"

section \<open>Timers as microseconds\<close>

definition usecs :: "timeval \<Rightarrow> int" where
  "usecs t = tv_sec t * 1000000 + tv_usec t"

text \<open>What the system call delivers: microseconds below a second, seconds of a signed word.\<close>

definition tv_ok :: "timeval \<Rightarrow> bool" where
  "tv_ok t \<longleftrightarrow> 0 \<le> tv_usec t \<and> tv_usec t < 1000000 \<and> 0 \<le> tv_sec t \<and> tv_sec t < 2 ^ 31"

lemma usecs_less_iff:
  "tv_ok t \<Longrightarrow> tv_ok u \<Longrightarrow>
     usecs t < usecs u \<longleftrightarrow> tv_sec t < tv_sec u \<or> tv_sec t = tv_sec u \<and> tv_usec t < tv_usec u"
  by (auto simp: usecs_def tv_ok_def)

lemma usecs_inj: "tv_ok t \<Longrightarrow> tv_ok u \<Longrightarrow> usecs t = usecs u \<Longrightarrow> t = u"
  using usecs_less_iff[of t u] usecs_less_iff[of u t]
  by (cases t; cases u) (auto simp: usecs_def tv_ok_def)

lemma tm_diff_usecs:
  assumes "tv_ok t" "tv_ok u" "usecs u \<le> usecs t"
  shows "tv_ok (tm_diff t u) \<and> usecs (tm_diff t u) = usecs t - usecs u"
proof (cases "tv_usec t < tv_usec u")
  case True
  have "in_i32 (tv_sec t - 1)" "in_i32 (tv_usec t + 1000000)" "in_i32 (tv_sec t - 1 - tv_sec u)"
    "in_i32 (tv_usec t + 1000000 - tv_usec u)"
    using assms by (auto simp: in_i32_def tv_ok_def)
  with True have "tm_diff t u =
      \<lparr>tv_sec = tv_sec t - 1 - tv_sec u, tv_usec = tv_usec t + 1000000 - tv_usec u\<rparr>"
    by (simp add: tm_diff_def i32_id)
  with True assms show ?thesis by (simp add: tv_ok_def usecs_def)
next
  case False
  have "in_i32 (tv_sec t - tv_sec u)" "in_i32 (tv_usec t - tv_usec u)"
    using assms by (auto simp: in_i32_def tv_ok_def)
  with False have "tm_diff t u = \<lparr>tv_sec = tv_sec t - tv_sec u, tv_usec = tv_usec t - tv_usec u\<rparr>"
    by (simp add: tm_diff_def i32_id)
  with False assms show ?thesis by (simp add: tv_ok_def usecs_def)
qed

lemma tm_setsu_usecs:
  assumes now: "clock w (ticks w) = Some now" "tv_ok now"
    and u: "0 \<le> usec" "usec < 2 ^ 31" and s: "0 \<le> sec" "tv_sec now + sec + 2149 < 2 ^ 31"
  obtains t' where "tm_setsu (Some t) sec usec w = (0, Some t', w\<lparr>ticks := ticks w + 1\<rparr>)"
    "tv_ok t'" "usecs t' = usecs now + sec * 1000000 + usec"
proof -
  let ?q = "usec div 1000000" and ?r = "usec mod 1000000"
  have sd: "usec smod 1000000 = ?r" "usec sdiv 1000000 = ?q"
    using u by (simp_all add: signed_divide_int_def signed_modulo_int_def sgn_if)
  have r: "0 \<le> ?r" "?r < 1000000" "0 \<le> ?q" "?q \<le> 2147" "usec = ?q * 1000000 + ?r" using u by auto
  define x where "x = tv_usec now + ?r"
  have x: "0 \<le> x" "x < 2000000" using r(1,2) now(2) unfolding x_def tv_ok_def by linarith+
  then have xi: "i32 x = x" by (intro i32_id) (simp add: in_i32_def)
  have xs: "x smod 1000000 = x mod 1000000" "x sdiv 1000000 = x div 1000000"
    using x by (simp_all add: signed_divide_int_def signed_modulo_int_def sgn_if)
  have xd: "0 \<le> x div 1000000" "x div 1000000 \<le> 1" "x = x div 1000000 * 1000000 + x mod 1000000"
    using x by auto
  define y where "y = tv_sec now + (sec + x div 1000000 + ?q)"
  have "0 \<le> y" "y < 2 ^ 31" using s r xd now by (simp_all add: y_def tv_ok_def)
  then have yi: "i32 y = y" by (intro i32_id) (simp add: in_i32_def)
  define t' where "t' = \<lparr>tv_sec = y, tv_usec = x mod 1000000\<rparr>"
  have "tm_setsu (Some t) sec usec w = (0, Some t', w\<lparr>ticks := ticks w + 1\<rparr>)"
    using now(1) by (simp add: tm_setsu_def sys_gettimeofday_def sd x_def[symmetric] xi xs
        y_def[symmetric] yi t'_def Let_def)
  moreover have "tv_ok t'" using \<open>0 \<le> y\<close> \<open>y < 2 ^ 31\<close> by (simp add: t'_def tv_ok_def)
  moreover have "usecs t' = usecs now + sec * 1000000 + usec"
  proof -
    have "usecs t' = (tv_sec now + sec + ?q) * 1000000 + (x div 1000000 * 1000000 + x mod 1000000)"
      by (simp add: t'_def usecs_def y_def algebra_simps)
    also have "\<dots> = (tv_sec now + sec + ?q) * 1000000 + x" using xd by simp
    also have "\<dots> = usecs now + sec * 1000000 + usec" using r by (simp add: x_def usecs_def)
    finally show ?thesis .
  qed
  ultimately show ?thesis by (rule that)
qed

section \<open>Properties\<close>

text \<open>
  A timer set for a period reports, at any later reading of the clock, exactly the rest of
  the period as the remaining time, or \<open>TIMER_OVERFLOW\<close> once the period is over, and
  \<open>tm_state\<close> says so consistently (seconds and microseconds normalised, the limits of 32-bit
  arithmetic stated as the bounds on the arguments).
\<close>

lemma timer_rem_after_set:
  assumes now: "clock w (ticks w) = Some now" "tv_ok now"
    and later: "clock w (ticks w + 1) = Some cur" "tv_ok cur"
    and u: "0 \<le> usec" "usec < 2 ^ 31" and s: "0 \<le> sec" "tv_sec now + sec + 2149 < 2 ^ 31"
    and set: "tm_setsu (Some t) sec usec w = (rc, t', w1)"
  shows "rc = TIMER_OK \<and> w1 = w\<lparr>ticks := ticks w + 1\<rparr> \<and>
    (let rest = usecs now + sec * 1000000 + usec - usecs cur
     in fst (tm_state t' w1) = (if 0 < rest then 1 else 0) \<and>
        (if rest < 0 then fst (tm_rem t' (Some d) w1) = TIMER_OVERFLOW
         else fst (tm_rem t' (Some d) w1) = 0 \<and>
              (\<exists>r. fst (snd (tm_rem t' (Some d) w1)) = Some r \<and> tv_ok r \<and> usecs r = rest)))"
proof -
  from tm_setsu_usecs[OF now u s, of t] obtain s' where
    s': "tm_setsu (Some t) sec usec w = (0, Some s', w\<lparr>ticks := ticks w + 1\<rparr>)"
      "tv_ok s'" "usecs s' = usecs now + sec * 1000000 + usec" by blast
  with set have eq: "rc = 0" "t' = Some s'" "w1 = w\<lparr>ticks := ticks w + 1\<rparr>" by auto
  note lt = usecs_less_iff[OF s'(2) later(2)] usecs_less_iff[OF later(2) s'(2)]
  have st: "fst (tm_state t' w1) = (if usecs cur < usecs s' then 1 else 0)"
    using later eq lt by (auto simp: tm_state_def sys_gettimeofday_def)
  show ?thesis
  proof (cases "usecs s' < usecs cur")
    case True
    then show ?thesis
      using later eq lt st s'(3) by (auto simp: tm_rem_def sys_gettimeofday_def)
  next
    case False
    then have "tm_rem t' (Some d) w1 = (0, Some (tm_diff s' cur), w1\<lparr>ticks := ticks w1 + 1\<rparr>)"
      using later eq lt by (simp add: tm_rem_def sys_gettimeofday_def)
    moreover note tm_diff_usecs[OF s'(2) later(2)]
    ultimately show ?thesis using False eq st s'(3) by simp
  qed
qed

text \<open>A clock that advances by 1.5 seconds per reading.\<close>

definition demo_clock :: "nat \<Rightarrow> timeval option" where
  "demo_clock n = Some \<lparr>tv_sec = 1000 + (int n * 1500000 + 700000) div 1000000,
     tv_usec = (int n * 1500000 + 700000) mod 1000000\<rparr>"

definition demo_os :: os where
  "demo_os = \<lparr>files = Map.empty, fdt = Map.empty, nextfd = 3, script = [], clock = demo_clock,
     ticks = 0, zcrc32 = (\<lambda>_. 0), junk = (\<lambda>_. 0)\<rparr>"

lemma timer_rem_after_set_witness:
  "\<exists>r. fst (snd (tm_rem (Some \<lparr>tv_sec = 1003, tv_usec = 200000\<rparr>) (Some tm_local)
      (demo_os\<lparr>ticks := 1\<rparr>))) = Some r \<and> usecs r = 1000000"
proof -
  have set: "tm_setsu (Some tm_local) 2 500000 demo_os =
      (0, Some \<lparr>tv_sec = 1003, tv_usec = 200000\<rparr>, demo_os\<lparr>ticks := 1\<rparr>)"
    by (simp add: tm_setsu_def sys_gettimeofday_def demo_os_def demo_clock_def Let_def
        signed_divide_int_def signed_modulo_int_def sgn_if i32_def)
  have "usecs \<lparr>tv_sec = 1000, tv_usec = 700000\<rparr> + 2 * 1000000 + 500000 -
      usecs \<lparr>tv_sec = 1002, tv_usec = 200000\<rparr> = 1000000"
    by (simp add: usecs_def)
  with timer_rem_after_set[OF _ _ _ _ _ _ _ _ set,
      of "\<lparr>tv_sec = 1000, tv_usec = 700000\<rparr>" "\<lparr>tv_sec = 1002, tv_usec = 200000\<rparr>" tm_local]
  show ?thesis by (auto simp: demo_os_def demo_clock_def tv_ok_def)
qed

end
