(* ===== verification/Core.thy ===== *)
theory Core
  imports Tariffs Timer
begin

text \<open>
  The transactions of the billing core (\<open>src/src/bee/core/core.c\<close>): a count of traffic, a
  payment, a monthly charge, or a pair of counts for the two directions changes one account and
  is noted in the log.  A result \<open>None\<close> means that the code would follow a null pointer: a
  resource without a counting function, or tables of tariffs that were never loaded.
\<close>

section \<open>The limit of an account\<close>

text \<open>The first entry for the plan before the terminator; the first of the table without one.\<close>

fun limit_entry :: "int \<Rightarrow> tariff_limit list \<Rightarrow> nat \<Rightarrow> nat" where
  "limit_entry plan [] i = 0"
| "limit_entry plan (t # ts) i =
     (if tl_tariff t < 0 then 0 else if plan = tl_tariff t then i else limit_entry plan ts (i + 1))"

definition acc_limit :: "acc \<Rightarrow> 'a tariffs_scheme \<Rightarrow> double option" where
  "acc_limit acc w =
     (if \<not> deq (a_tcredit acc) 0 then Some (a_tcredit acc)
      else if tariffs_limit w = [] then None
      else Some (tl_min (tariffs_limit w ! limit_entry (sint (a_tariff acc)) (tariffs_limit w) 0)))"

definition accs_state :: "acc \<Rightarrow> 'a tariffs_scheme \<Rightarrow> int option" where
  "accs_state acc w = map_option (\<lambda>limit. if dlt (a_balance acc) (dadd limit d_cent) then 1 else 0) (acc_limit acc w)"

section \<open>Transactions\<close>

text \<open>The sum of a transaction, with the data and the account as the counting function leaves them.\<close>

definition transaction_sum :: "isdata \<Rightarrow> double \<Rightarrow> double \<Rightarrow> acc \<Rightarrow> 'a tariffs_scheme \<Rightarrow>
    (double \<times> isdata \<times> acc \<times> 'a tariffs_scheme) option" where
  "transaction_sum isdata realarg limit acc w =
     (if sint (is_res_id isdata) = RES_ADDER then
        (let excess = (if \<not> deq limit 0 \<and> dlt limit (dadd (a_balance acc) realarg)
                       then dsub (dadd (a_balance acc) realarg) limit else 0)
         in Some (dsub realarg excess, isdata, acc, w))
      else if deq realarg d_minus_one then res_count (sint (is_res_id isdata)) isdata acc w
      else Some (dneg (ddiv (dmul (d_of_int (uint (is_value isdata))) realarg) d_mebi), isdata, acc, w))"

text \<open>Whether the balance is changed, for the result code of reading the account.\<close>

definition tx_posts :: "int \<Rightarrow> isdata \<Rightarrow> bool" where
  "tx_posts rc isdata \<longleftrightarrow> rc = SUCCESS \<or> rc = NEGATIVE \<or> rc = ACC_OFF \<or>
     rc = ACC_UNLIMIT \<and> sint (is_res_id isdata) = RES_ADDER"

definition tx_account :: "int \<Rightarrow> isdata \<Rightarrow> double \<Rightarrow> acc \<Rightarrow> acc" where
  "tx_account rc isdata amount acc =
     (if tx_posts rc isdata
      then (let acc = acc\<lparr>a_balance := dadd (a_balance acc) amount\<rparr>
            in if sint (is_res_id isdata) = RES_ADDER then acc\<lparr>a_tcredit := 0, a_res_tcredit := 0\<rparr> else acc)
      else acc)"

text \<open>Unlimited accounts are logged with a zero sum, unless they are tagged for the log.\<close>

definition tx_unlogged :: "isdata \<Rightarrow> acc \<Rightarrow> bool" where
  "tx_unlogged isdata acc \<longleftrightarrow>
     a_tag acc AND (ATAG_UNLIMIT OR ATAG_LOG) = ATAG_UNLIMIT \<and> sint (is_res_id isdata) \<noteq> RES_ADDER"

text \<open>
  The head of a log record: time, account, result code of reading it and, unless the account is
  broken, deleted or could not be read, its balance.
\<close>

definition log_head :: "int \<Rightarrow> int \<Rightarrow> int \<Rightarrow> acc \<Rightarrow> logrec" where
  "log_head tnow accno rc acc =
     (let logrec = logrec_zero\<lparr>lr_time := word_of_int tnow, lr_accno := word_of_int accno, lr_serrno := word_of_int rc\<rparr>
      in if rc \<ge> 0 \<or> rc \<le> ACC_FROZEN then logrec\<lparr>lr_balance := a_balance acc\<rparr> else logrec)"

text \<open>The account is written back when it may be used; a failure goes to the log record.\<close>

definition write_back :: "accbase \<Rightarrow> int \<Rightarrow> int \<Rightarrow> acc \<Rightarrow> logrec \<Rightarrow> 'a dbs_scheme \<Rightarrow> acc \<times> logrec \<times> 'a dbs_scheme" where
  "write_back base accno rc acc logrec w =
     (if rc \<ge> 0 \<or> rc = ACC_OFF
      then (case acci_put_try 2 base accno acc w of (rc, acc, w) \<Rightarrow>
        (acc, if rc < 0 then logrec\<lparr>lr_serrno := word_of_int rc\<rparr> else logrec, w))
      else (acc, logrec, w))"

definition acc_transaction :: "accbase \<Rightarrow> logbase \<Rightarrow> int \<Rightarrow> isdata option \<Rightarrow> double \<Rightarrow> double \<Rightarrow>
    'a tariffs_scheme \<Rightarrow> (int \<times> isdata option \<times> 'a tariffs_scheme) option" where
  "acc_transaction base logbase accno isdata realarg limit w = (case isdata of
      None \<Rightarrow> Some (IO_ERROR, isdata, w)
    | Some isdata \<Rightarrow>
       (case acc_baselock base w of (rc, w) \<Rightarrow>
          if rc < 0 then Some (IO_ERROR, Some isdata, w)
          else (case sys_time w of (tnow, w) \<Rightarrow>
            case acci_get_try 2 base accno (decode_acc (stack_junk 128 w)) w of (rc, acc, w) \<Rightarrow>
            let logrec = log_head tnow accno rc acc
            in case transaction_sum isdata realarg limit acc w of
                 None \<Rightarrow> None
               | Some (amount, isdata, acc, w) \<Rightarrow>
                  (let logrec = logrec\<lparr>lr_sum := amount, lr_isdata := isdata\<rparr>;
                       acc = tx_account rc isdata amount acc;
                       logrec = (if tx_unlogged isdata acc then logrec\<lparr>lr_sum := 0\<rparr> else logrec)
                   in case write_back base accno rc acc logrec w of (acc, logrec, w) \<Rightarrow>
                      case log_add logbase logrec w of (rc, logrec, w) \<Rightarrow>
                      case acc_baseunlock base w of (_, w) \<Rightarrow>
                        if rc < 0 then Some (i32 rc, Some isdata, w)
                        else map_option (\<lambda>st. (st, Some isdata, w)) (accs_state acc w)))))"

text \<open>The early returns for accounts that are not charged leave the base locked.\<close>

definition acc_charge_trans :: "accbase \<Rightarrow> logbase \<Rightarrow> int \<Rightarrow> isdata option \<Rightarrow>
    'a tariffs_scheme \<Rightarrow> (int \<times> 'a tariffs_scheme) option" where
  "acc_charge_trans base logbase accno isdata w =
     (case acc_baselock base w of (rc, w) \<Rightarrow>
        if rc < 0 then Some (IO_ERROR, w)
        else (case sys_time w of (tnow, w) \<Rightarrow>
          case acci_get_try 2 base accno (decode_acc (stack_junk 128 w)) w of (rc, acc, w) \<Rightarrow>
          let logrec = log_head tnow accno rc acc;
              logrec = (case isdata of
                  Some d \<Rightarrow> logrec\<lparr>lr_isdata := d\<rparr>
                | None \<Rightarrow> logrec\<lparr>lr_isdata := (lr_isdata logrec)\<lparr>is_res_id := - 1\<rparr>\<rparr>)
          in if a_tag acc AND (ATAG_DELETED OR ATAG_BROKEN OR ATAG_FROZEN) \<noteq> 0 then Some (ACC_NOCHARGE, w)
             else (case acc_limit acc w of
                 None \<Rightarrow> None
               | Some limit \<Rightarrow>
                   if dlt (a_balance acc) (dadd limit d_cent) then Some (ACC_NOCHARGE, w)
                   else (case isdata of
                       None \<Rightarrow> None
                     | Some d \<Rightarrow>
                        (case res_charge (sint (is_res_id d)) acc w of
                            None \<Rightarrow> None
                          | Some (amount, acc, w) \<Rightarrow>
                             (let logrec = logrec\<lparr>lr_sum := amount\<rparr>
                              in case (if \<not> deq amount 0
                                       then (let acc = (if rc = SUCCESS \<or> rc = NEGATIVE \<or> rc = ACC_OFF
                                                        then acc\<lparr>a_balance := dadd (a_balance acc) amount\<rparr> else acc)
                                             in case write_back base accno rc acc logrec w of (acc, logrec, w) \<Rightarrow>
                                                case log_add logbase logrec w of (rc, logrec, w) \<Rightarrow> (rc, acc, w))
                                       else (ACC_NOCHARGE, acc, w)) of (rc, acc, w) \<Rightarrow>
                                 case acc_baseunlock base w of (_, w) \<Rightarrow>
                                   if rc < 0 then Some (i32 rc, w)
                                   else map_option (\<lambda>st. (st, w)) (accs_state acc w)))))))"

text \<open>
  Both directions at once.  A direction without traffic is not counted; its log record is not
  written.  The notes of the first count stay in the data of the second one.
\<close>

definition bitrans_count :: "u32 \<Rightarrow> u32 \<Rightarrow> int \<Rightarrow> isdata \<Rightarrow> acc \<Rightarrow> logrec \<Rightarrow> 'a tariffs_scheme \<Rightarrow>
    (isdata \<times> acc \<times> logrec \<times> 'a tariffs_scheme) option" where
  "bitrans_count val proto rc isdata acc logrec w =
     (if val = 0 then Some (isdata, acc, logrec, w)
      else (let isdata = isdata\<lparr>is_value := val, is_proto_id := proto\<rparr>
            in case res_count (sint (is_res_id isdata)) isdata acc w of
                 None \<Rightarrow> None
               | Some (amount, isdata, acc, w) \<Rightarrow>
                   (let logrec = logrec\<lparr>lr_sum := amount, lr_isdata := isdata\<rparr>;
                        acc = (if tx_posts rc isdata then acc\<lparr>a_balance := dadd (a_balance acc) amount\<rparr> else acc)
                    in Some (isdata, acc, logrec, w))))"

definition acc_bitrans :: "accbase \<Rightarrow> logbase \<Rightarrow> int \<Rightarrow> isdata option \<Rightarrow> u32 \<Rightarrow> u32 \<Rightarrow>
    'a tariffs_scheme \<Rightarrow> (int \<times> isdata option \<times> 'a tariffs_scheme) option" where
  "acc_bitrans base logbase accno isdata val_in val_out w = (case isdata of
      None \<Rightarrow> Some (IO_ERROR, isdata, w)
    | Some isdata \<Rightarrow>
       (case acc_baselock base w of (rc, w) \<Rightarrow>
          if rc < 0 then Some (IO_ERROR, Some isdata, w)
          else (case sys_time w of (tnow, w) \<Rightarrow>
            case acci_get_try 2 base accno (decode_acc (stack_junk 128 w)) w of (rc, acc, w) \<Rightarrow>
            let logrec_in = log_head tnow accno rc acc;
                logrec_out = (if val_in \<noteq> 0 then logrec_in\<lparr>lr_balance := BALANCE_NA\<rparr> else logrec_in)
            in case bitrans_count val_in 0 rc isdata acc logrec_in w of
                 None \<Rightarrow> None
               | Some (isdata, acc, logrec_in, w) \<Rightarrow>
              (case bitrans_count val_out 0x80000000 rc isdata acc logrec_out w of
                 None \<Rightarrow> None
               | Some (isdata, acc, logrec_out, w) \<Rightarrow>
                  (let unlogged = tx_unlogged isdata acc;
                       logrec_in = (if unlogged then logrec_in\<lparr>lr_sum := 0\<rparr> else logrec_in);
                       logrec_out = (if unlogged then logrec_out\<lparr>lr_sum := 0\<rparr> else logrec_out)
                   in case (if rc \<ge> 0 \<or> rc = ACC_OFF
                            then (case acci_put_try 2 base accno acc w of (rc, acc, w) \<Rightarrow>
                              (acc, if rc < 0 then logrec_in\<lparr>lr_serrno := word_of_int rc\<rparr> else logrec_in,
                               if rc < 0 then logrec_out\<lparr>lr_serrno := word_of_int rc\<rparr> else logrec_out, w))
                            else (acc, logrec_in, logrec_out, w)) of (acc, logrec_in, logrec_out, w) \<Rightarrow>
                      case acc_baseunlock base w of (_, w) \<Rightarrow>
                      case log_baselock logbase w of (rc, w) \<Rightarrow>
                      case (if rc = SUCCESS
                            then (case (if val_in \<noteq> 0 then (case log_add logbase logrec_in w of (rc, _, w) \<Rightarrow> (rc, w))
                                        else (rc, w)) of (rc, w) \<Rightarrow>
                                  case (if val_out \<noteq> 0 then (case log_add logbase logrec_out w of (rc, _, w) \<Rightarrow> (rc, w))
                                        else (rc, w)) of (rc, w) \<Rightarrow>
                                  (rc, snd (log_baseunlock logbase w)))
                            else (rc, w)) of (rc, w) \<Rightarrow>
                        if rc < 0 then Some (i32 rc, Some isdata, w)
                        else map_option (\<lambda>st. (st, Some isdata, w)) (accs_state acc w))))))"

section \<open>What counting depends on and leaves alone\<close>

lemma tariffs_more:
  fixes w w' :: "'a tariffs_scheme"
  assumes "dbs.more w' = dbs.more w"
  shows "tariffs_inet w' = tariffs_inet w" "tariffs_limit w' = tariffs_limit w"
    "c_localtime w' = c_localtime w" "c_timelocal w' = c_timelocal w" "HackTime w' = HackTime w"
    "linktab w' = linktab w"
  using assms by (cases w; cases w'; simp)+

lemma count_time_now:
  "count_time w = (if HackTime w = 0 then (now w, tick w) else (HackTime w, w))"
  by (simp add: count_time_def sys_time_now)

lemma now_cong: "clock w' = clock w \<Longrightarrow> ticks w' = ticks w \<Longrightarrow> now w' = now w"
  by (simp add: now_def)

lemma month_reset_cong:
  "c_localtime w' = c_localtime w \<Longrightarrow> c_timelocal w' = c_timelocal w \<Longrightarrow> month_reset t a w' = month_reset t a w"
  by (simp add: month_reset_def)

lemma tariff_entry_cong:
  "c_timelocal w' = c_timelocal w \<Longrightarrow> tariffs_inet w' = tariffs_inet w \<Longrightarrow>
     tariff_entry w' plan t stm d = tariff_entry w plan t stm d"
  by (simp add: tariff_entry_def)

lemma tick_tariffs [simp]:
  "tariffs_inet (tick w) = tariffs_inet w" "tariffs_limit (tick w) = tariffs_limit w"
  "c_localtime (tick w) = c_localtime w" "c_timelocal (tick w) = c_timelocal w" "HackTime (tick w) = HackTime w"
  by (simp_all add: tick_def)

text \<open>The world after a count: the clock may have been read once more.\<close>

definition counted :: "'a tariffs_scheme \<Rightarrow> 'a tariffs_scheme \<Rightarrow> bool" where
  "counted w w' \<longleftrightarrow> w' = (if HackTime w = 0 then tick w else w) \<or> w' = w"

lemma inet_count_world:
  assumes "inet_count_proc d a w = Some (s, d', a', w')"
  shows "w' = (if HackTime w = 0 then tick w else w)"
proof -
  obtain t w1 where ct: "count_time w = (t, w1)" by fastforce
  then have "w1 = (if HackTime w = 0 then tick w else w)" by (auto simp: count_time_now split: if_splits)
  with assms show ?thesis by (auto simp: inet_count_proc_def ct Let_def split: if_splits option.splits)
qed

lemma inet_count_data:
  assumes "inet_count_proc d a w = Some (s, d', a', w')"
  shows "d'\<lparr>is_proto2 := 0\<rparr> = d\<lparr>is_proto2 := 0\<rparr>"
  using assms by (auto simp: inet_count_proc_def note_plan_def Let_def split: if_splits option.splits prod.splits)

lemma inet_count_cong:
  fixes w v :: "'a tariffs_scheme"
  assumes "inet_count_proc d a w = Some (s, d', a', w')" "dbs.more v = dbs.more w" "clock v = clock w" "ticks v = ticks w"
  shows "inet_count_proc d a v = Some (s, d', a', if HackTime w = 0 then tick v else v)"
proof -
  note m = tariffs_more[OF assms(2)] and n = now_cong[OF assms(3,4)]
  obtain t w1 where ct: "count_time w = (t, w1)" by fastforce
  define v1 where "v1 = (if HackTime w = 0 then tick v else v)"
  have cv: "count_time v = (t, v1)" using ct m(5) n by (auto simp: count_time_now v1_def split: if_splits)
  have "w1 = (if HackTime w = 0 then tick w else w)" using ct by (auto simp: count_time_now split: if_splits)
  then have f: "tariffs_inet v1 = tariffs_inet w1" "c_localtime v1 = c_localtime w1" "c_timelocal v1 = c_timelocal w1"
    using m by (simp_all add: v1_def)
  note mr = month_reset_cong[OF f(2,3)] and te = tariff_entry_cong[OF f(3,1)]
  show ?thesis
    using assms(1) by (auto simp: inet_count_proc_def ct cv f mr te v1_def[symmetric] Let_def split: if_splits option.splits)
qed

lemma res_count_world:
  assumes "res_count rid d a w = Some (s, d', a', w')"
  shows "counted w w'" "same_account a' a" "d'\<lparr>is_proto2 := 0\<rparr> = d\<lparr>is_proto2 := 0\<rparr>"
  using assms inet_count_world[of d a w s d' a' w'] inet_count_keeps[of d a w s d' a' w']
    inet_count_data[of d a w s d' a' w']
  by (auto simp: res_count_def counted_def same_account_simps split: if_splits)

lemma counted_quiet: "counted w w' \<Longrightarrow> quiet P w w'"
  by (auto simp: counted_def)

lemma transaction_sum_world:
  assumes "transaction_sum d realarg limit a w = Some (s, d', a', w')"
  shows "counted w w'" "same_account a' a" "is_res_id d' = is_res_id d" "is_value d' = is_value d"
    "is_user_id d' = is_user_id d" "is_proto_id d' = is_proto_id d" "is_host d' = is_host d"
proof -
  have "counted w w' \<and> same_account a' a \<and> d'\<lparr>is_proto2 := 0\<rparr> = d\<lparr>is_proto2 := 0\<rparr>"
    using assms res_count_world[of "sint (is_res_id d)" d a w s d' a' w']
    by (auto simp: transaction_sum_def counted_def same_account_simps Let_def split: if_splits)
  then show "counted w w'" "same_account a' a" "is_res_id d' = is_res_id d" "is_value d' = is_value d"
    "is_user_id d' = is_user_id d" "is_proto_id d' = is_proto_id d" "is_host d' = is_host d"
    by (cases d; cases d'; simp)+
qed

lemma res_count_cong:
  fixes w v :: "'a tariffs_scheme"
  assumes "res_count rid d a w = Some (s, d', a', w')" "dbs.more v = dbs.more w" "clock v = clock w" "ticks v = ticks w"
  shows "\<exists>v'. res_count rid d a v = Some (s, d', a', v') \<and> ticks v' = ticks w' \<and> counted v v'"
proof (cases "rid = RES_INET")
  case True
  with assms(1) have "inet_count_proc d a w = Some (s, d', a', w')" by (simp add: res_count_def)
  with inet_count_cong[OF this assms(2-4)] inet_count_world[OF this] True assms(4) tariffs_more(5)[OF assms(2)]
  show ?thesis by (auto simp: res_count_def counted_def)
next
  case False
  with assms show ?thesis by (auto simp: res_count_def counted_def split: if_splits)
qed

lemma transaction_sum_cong:
  fixes w v :: "'a tariffs_scheme"
  assumes "transaction_sum d realarg limit a w = Some (s, d', a', w')"
    "dbs.more v = dbs.more w" "clock v = clock w" "ticks v = ticks w"
  shows "\<exists>v'. transaction_sum d realarg limit a v = Some (s, d', a', v') \<and> ticks v' = ticks w' \<and> counted v v'"
  using assms(1,4) res_count_cong[OF _ assms(2-4), of "sint (is_res_id d)" d a s d' a' w']
  by (auto simp: transaction_sum_def Let_def counted_def split: if_splits)

text \<open>Which transactions never meet a null pointer.\<close>

definition countable :: "isdata \<Rightarrow> double \<Rightarrow> 'a tariffs_scheme \<Rightarrow> bool" where
  "countable d realarg w \<longleftrightarrow> sint (is_res_id d) = RES_ADDER \<or> \<not> deq realarg d_minus_one \<or>
     has_count (sint (is_res_id d)) \<and> tariffs_inet w \<noteq> []"

lemma inet_count_Some: "tariffs_inet w \<noteq> [] \<Longrightarrow> \<exists>s d' a' w'. inet_count_proc d a w = Some (s, d', a', w')"
proof -
  assume ne: "tariffs_inet w \<noteq> []"
  obtain t w1 where ct: "count_time w = (t, w1)" by fastforce
  have "tariffs_inet w1 \<noteq> []" using ne count_time_inet[of w] ct by simp
  then have "inet_count_proc d a w \<noteq> None"
    by (auto simp: inet_count_proc_def ct Let_def simp del: tariff_loop.simps split: option.splits)
  then show ?thesis by auto
qed

lemma transaction_sum_Some:
  assumes "countable d realarg w"
  shows "\<exists>s d' a' w'. transaction_sum d realarg limit a w = Some (s, d', a', w')"
proof -
  have "transaction_sum d realarg limit a w \<noteq> None"
    using assms inet_count_Some[of w d a]
    by (auto simp: countable_def transaction_sum_def res_count_def has_count_def Let_def split: if_splits)
  then show ?thesis by (metis not_None_eq prod_cases4)
qed

lemma accs_state_cong:
  fixes v w :: "'a tariffs_scheme"
  assumes "dbs.more v = dbs.more w"
  shows "acc_limit a v = acc_limit a w" "accs_state a v = accs_state a w"
  by (simp_all only: accs_state_def acc_limit_def tariffs_more(2)[OF assms])

section \<open>Locks and files under failing calls\<close>

lemma relock_other [simp]: "x \<noteq> fd \<Longrightarrow> fd_lock (relock fd m w) x = fd_lock w x"
  by (simp add: fd_lock_def relock_def)

lemma baselock_step:
  assumes "acc_baselock base w = (rc, w1)"
  shows "rc = 0 \<or> rc = - 1" "sqr w1 = sqr w" "fd_paths w1 x = fd_paths w x" "zcrc32 w1 = zcrc32 w"
    "ticks w1 = ticks w" "junk w1 = junk w" "dbs.more w1 = dbs.more w" "clock w1 = clock w"
    "x \<noteq> ab_fd base \<Longrightarrow> fd_lock w1 x = fd_lock w x" "rc \<noteq> 0 \<Longrightarrow> quiet P w w1"
    "quiet P w1 w2 \<Longrightarrow> rc = 0 \<Longrightarrow> (ab_fasync base = 0 \<Longrightarrow> fd_lock w (ab_fd base) = LOCK_UN) \<Longrightarrow>
       quiet P w (snd (acc_baseunlock base w2))"
proof -
  have e: "(if ab_fasync base = 0 then sys_flock (ab_fd base) LOCK_EX w else (0, w)) = (rc, w1)"
    using assms unfolding acc_baselock_def db_exlock_def .
  have q: "quiet {} (relock (ab_fd base) LOCK_EX w) w1 \<or> quiet {} w w1"
    using e quiet_flock[of "ab_fd base" LOCK_EX w rc w1 "{}"] by (auto split: if_splits)
  note st = lock_step[OF e]
  show "rc = 0 \<or> rc = - 1" "sqr w1 = sqr w" "fd_paths w1 x = fd_paths w x" "zcrc32 w1 = zcrc32 w"
    "ticks w1 = ticks w" "junk w1 = junk w" using st(1-6) by auto
  have "dbs.more (relock fd m w) = dbs.more w" "clock (relock fd m w) = clock w" for fd m
    by (simp_all add: relock_def)
  then show "dbs.more w1 = dbs.more w" "clock w1 = clock w" using q by (auto simp: quiet_simps)
  show "x \<noteq> ab_fd base \<Longrightarrow> fd_lock w1 x = fd_lock w x" using q by (auto dest!: quiet_lock[of _ _ _ x])
  show "rc \<noteq> 0 \<Longrightarrow> quiet P w w1" using st(7) by blast
  show "quiet P w1 w2 \<Longrightarrow> rc = 0 \<Longrightarrow> (ab_fasync base = 0 \<Longrightarrow> fd_lock w (ab_fd base) = LOCK_UN) \<Longrightarrow>
       quiet P w (snd (acc_baseunlock base w2))"
    using st(8)[of P w2] unfolding acc_baseunlock_def db_unlock_def by (auto split: if_splits)
qed

lemma quiet_write_back:
  assumes "write_back base accno rc acc r w = (acc', r', w')" "fd_paths w (ab_fd base) \<subseteq> P"
  shows "quiet P w w'"
  using assms by (auto simp: write_back_def split: if_splits prod.splits dest: quiet_acci_put_try)

text \<open>The files an operation on both bases may change.\<close>

definition base_paths :: "accbase \<Rightarrow> logbase \<Rightarrow> 'a dbs_scheme \<Rightarrow> string set" where
  "base_paths base logbase w = fd_paths w (ab_fd base) \<union> fd_paths w (lb_fd logbase)"

definition bases_free :: "accbase \<Rightarrow> logbase \<Rightarrow> 'a dbs_scheme \<Rightarrow> bool" where
  "bases_free base logbase w \<longleftrightarrow> ab_fd base \<noteq> lb_fd logbase \<and> sq_fd (sqr w) \<noteq> ab_fd base \<and>
     (ab_fasync base = 0 \<longrightarrow> fd_lock w (ab_fd base) = LOCK_UN) \<and>
     (lb_fasync logbase = 0 \<longrightarrow> fd_lock w (lb_fd logbase) = LOCK_UN)"

lemma bases_free_quiet:
  "quiet P w w' \<Longrightarrow> bases_free base logbase w' = bases_free base logbase w \<and>
     base_paths base logbase w' = base_paths base logbase w"
  by (simp add: bases_free_def base_paths_def quiet_lock quiet_paths quiet_simps)

lemma transaction_outcome:
  fixes w :: "'a tariffs_scheme"
  assumes f: "bases_free base logbase w"
  shows "case acc_transaction base logbase accno (Some d) realarg limit w of
      None \<Rightarrow> \<not> countable d realarg w \<or> tariffs_limit w = []
    | Some (rc, d', w') \<Rightarrow> quiet (base_paths base logbase w) w w'"
proof -
  let ?P = "base_paths base logbase w"
  obtain lrc w1 where w1: "acc_baselock base w = (lrc, w1)" by fastforce
  note lk = baselock_step[OF w1]
  show ?thesis
  proof (cases "lrc = 0")
    case False
    with lk(1) have "lrc < 0" by auto
    with w1 lk(10)[OF False] show ?thesis by (simp add: acc_transaction_def)
  next
    case True
    obtain grc acc w2 where w2: "acci_get_try 2 base accno (decode_acc (stack_junk 128 (tick w1))) (tick w1) = (grc, acc, w2)"
      by (metis prod_cases3)
    have "sq_fd (sqr (tick w1)) \<noteq> ab_fd base" using f lk(2) by (simp add: bases_free_def)
    from quiet_acci_get_try[OF w2 this] have q2: "quiet ?P w1 w2" by (rule quiet_trans[OF quiet_tick])
    then have m2: "dbs.more w2 = dbs.more w" using lk(7) by (simp add: quiet_simps)
    show ?thesis
    proof (cases "transaction_sum d realarg limit acc w2")
      case None
      then have "\<not> countable d realarg w2" using transaction_sum_Some[of d realarg w2 limit acc] by auto
      then have "\<not> countable d realarg w" using tariffs_more(1)[OF m2] by (simp add: countable_def)
      with None w1 True w2 show ?thesis by (simp add: acc_transaction_def sys_time_now Let_def)
    next
      case (Some x)
      obtain s e a w3 where "x = (s, e, a, w3)" by (cases x) auto
      with Some have w3: "transaction_sum d realarg limit acc w2 = Some (s, e, a, w3)" by simp
      have q3: "quiet ?P w1 w3" using q2 counted_quiet[OF transaction_sum_world(1)[OF w3]] quiet_trans by blast
      define a2 where "a2 = tx_account grc e s a"
      define r2 where "r2 = (let r = (log_head (now w1) accno grc acc)\<lparr>lr_sum := s, lr_isdata := e\<rparr>
          in if tx_unlogged e a2 then r\<lparr>lr_sum := 0\<rparr> else r)"
      obtain a3 r3 w4 where w4: "write_back base accno grc a2 r2 w3 = (a3, r3, w4)" by (metis prod_cases3)
      have "fd_paths w3 (ab_fd base) \<subseteq> ?P" using lk(3) quiet_paths[OF q3] by (simp add: base_paths_def)
      from quiet_write_back[OF w4 this] have q4: "quiet ?P w1 w4" using q3 quiet_trans by blast
      obtain lrc2 r4 w5 where w5: "log_add logbase r3 w4 = (lrc2, r4, w5)" by (metis prod_cases3)
      have p5: "fd_paths w4 (lb_fd logbase) \<subseteq> ?P" using lk(3) quiet_paths[OF q4] by (simp add: base_paths_def)
      have "lb_fasync logbase = 0 \<Longrightarrow> fd_lock w4 (lb_fd logbase) = LOCK_UN"
        using f lk(9)[of "lb_fd logbase"] quiet_lock[OF q4] by (auto simp: bases_free_def)
      from quiet_log_add[OF w5 p5 this] have q5: "quiet ?P w1 w5" using q4 quiet_trans by blast
      define w6 where "w6 = snd (acc_baseunlock base w5)"
      obtain urc where un: "acc_baseunlock base w5 = (urc, w6)" by (metis w6_def prod.collapse)
      have q6: "quiet ?P w w6" unfolding w6_def using lk(11)[OF q5 True] f by (simp add: bases_free_def)
      then have "dbs.more w6 = dbs.more w" by (simp add: quiet_simps)
      from accs_state_cong(2)[OF this, of a3] have st: "accs_state a3 w6 = None \<Longrightarrow> tariffs_limit w = []"
        by (auto simp: accs_state_def acc_limit_def split: if_splits)
      have "acc_transaction base logbase accno (Some d) realarg limit w =
          (if lrc2 < 0 then Some (i32 lrc2, Some e, w6) else map_option (\<lambda>st. (st, Some e, w6)) (accs_state a3 w6))"
        unfolding acc_transaction_def option.case w1 prod.case sys_time_now w2 Let_def w3 a2_def[symmetric]
          r2_def[symmetric, unfolded Let_def] w4 w5 un using True by simp
      with q6 st show ?thesis by (auto split: option.splits)
    qed
  qed
qed

lemma quiet_transaction:
  assumes "acc_transaction base logbase accno isdata realarg limit w = Some (rc, d', w')" "bases_free base logbase w"
  shows "quiet (base_paths base logbase w) w w'"
proof (cases isdata)
  case None
  with assms(1) show ?thesis by (simp add: acc_transaction_def)
next
  case (Some d)
  with assms transaction_outcome[of base logbase w d realarg accno limit] show ?thesis by simp
qed

section \<open>Transactions on a machine without faults\<close>

text \<open>Both bases are open for writing, on different files, unlocked, and the tables are loaded.\<close>

definition bee_ready :: "accbase \<Rightarrow> string \<Rightarrow> logbase \<Rightarrow> string \<Rightarrow> 'a tariffs_scheme \<Rightarrow> bool" where
  "bee_ready base apath logbase lpath w \<longleftrightarrow> acc_ready base apath w \<and> log_ready logbase lpath w \<and>
     apath \<noteq> lpath \<and> bases_free base logbase w \<and> tariffs_limit w \<noteq> []"

lemma baselock_nf:
  assumes "acc_ready base path w"
  obtains w1 where "acc_baselock base w = (0, w1)" "acc_ready base path w1" "accounts path w1 = accounts path w"
    "\<And>b p. log_ready b p w1 = log_ready b p w" "\<And>p. log_records p w1 = log_records p w"
proof -
  define w1 where "w1 = (if ab_fasync base = 0 then relock (ab_fd base) LOCK_EX w else w)"
  have "no_faults w" "fdt w (ab_fd base) \<noteq> None"
    using file_ready_nf[OF assms[unfolded acc_ready_def]] by blast+
  then have "acc_baselock base w = (0, w1)"
    unfolding acc_baselock_def db_exlock_def w1_def by (simp add: flock_nf)
  moreover have "acc_ready base path w1" "accounts path w1 = accounts path w"
    "\<And>b p. log_ready b p w1 = log_ready b p w" "\<And>p. log_records p w1 = log_records p w"
    using assms by (simp_all add: w1_def log_ready_def log_records_def file_ready_relock)
  ultimately show ?thesis by (rule that)
qed

lemma baseunlock_nf [simp]:
  "acc_ready base path (snd (acc_baseunlock b w)) = acc_ready base path w"
  "accounts path (snd (acc_baseunlock b w)) = accounts path w"
  "log_ready lb path (snd (acc_baseunlock b w)) = log_ready lb path w"
  "log_records path (snd (acc_baseunlock b w)) = log_records path w"
proof -
  obtain rc w2 where u: "sys_flock (ab_fd b) LOCK_UN w = (rc, w2)" by fastforce
  from quiet_unlock[OF u] have "snd (acc_baseunlock b w) = relock (ab_fd b) LOCK_UN w \<or> snd (acc_baseunlock b w) = w"
    using u unfolding acc_baseunlock_def db_unlock_def by simp
  then show "acc_ready base path (snd (acc_baseunlock b w)) = acc_ready base path w"
    "accounts path (snd (acc_baseunlock b w)) = accounts path w"
    "log_ready lb path (snd (acc_baseunlock b w)) = log_ready lb path w"
    "log_records path (snd (acc_baseunlock b w)) = log_records path w"
    by (auto simp: log_ready_def log_records_def file_ready_relock)
qed

lemma log_ready_quiet:
  assumes "quiet P w w'" "path \<notin> P"
  shows "log_ready lb path w \<Longrightarrow> log_ready lb path w'" "log_records path w' = log_records path w"
  using file_ready_quiet[OF assms] by (auto simp: log_ready_def log_records_def)

lemma log_tick [simp]: "log_ready lb path (tick w) = log_ready lb path w" "log_records path (tick w) = log_records path w"
  by (simp_all add: log_ready_def log_records_def)

lemma write_back_nf:
  assumes "acc_ready base path w" "i < length (accounts path w)" "sint (a_accno a) = int i"
  shows "\<exists>w'. write_back base (int i) rc a r w =
      (if rc \<ge> 0 \<or> rc = ACC_OFF then acc_stamp a (now w) w else a, r, w') \<and>
    acc_ready base path w' \<and>
    accounts path w' = (if rc \<ge> 0 \<or> rc = ACC_OFF then (accounts path w)[i := acc_stamp a (now w) w] else accounts path w) \<and>
    quiet {path} w w'"
  using acci_put_nf[OF assms] acci_put_try_nf[OF assms, of 2] assms(1)
  by (cases "rc \<ge> 0 \<or> rc = ACC_OFF") (auto simp: write_back_def)

lemma same_account_accno: "same_account a b \<Longrightarrow> a_accno a = a_accno b"
  using same_account_balance by blast

lemma tx_account_simps [simp]:
  "a_accno (tx_account rc d s a) = a_accno a" "a_tag (tx_account rc d s a) = a_tag a"
  "a_balance (tx_account rc d s a) = (if tx_posts rc d then dadd (a_balance a) s else a_balance a)"
  by (simp_all add: tx_account_def Let_def)

lemma acc_stamp_quiet: "zcrc32 w' = zcrc32 w \<Longrightarrow> acc_stamp a t w' = acc_stamp a t w"
  by (simp add: acc_stamp_def acc_crc_quiet[of w' w] Let_def)

lemma accs_state_Some: "tariffs_limit w \<noteq> [] \<Longrightarrow> \<exists>st. accs_state a w = Some st"
  by (simp add: accs_state_def acc_limit_def)

lemma transaction_nf:
  fixes w :: "'a tariffs_scheme"
  assumes ready: "bee_ready base apath logbase lpath w"
    and i: "i < length (accounts apath w)" and sound: "acc_sound (int i) (accounts apath w ! i) w"
    and amt: "transaction_sum d realarg limit (accounts apath w ! i) (tick (tick w)) = Some (amount, e, a, v)"
  defines "rc \<equiv> acc_state (accounts apath w ! i) (now (tick w))"
  defines "a2 \<equiv> tx_account rc e amount a"
  defines "a3 \<equiv> (if rc \<ge> 0 \<or> rc = ACC_OFF then acc_stamp a2 (now v) w else a2)"
  defines "r \<equiv> (log_head (now w) (int i) rc (accounts apath w ! i))
      \<lparr>lr_sum := (if tx_unlogged e a2 then 0 else amount), lr_isdata := e\<rparr>"
  shows "\<exists>w' st. acc_transaction base logbase (int i) (Some d) realarg limit w = Some (st, Some e, w') \<and>
     accs_state a3 w = Some st \<and>
     accounts apath w' = (if rc \<ge> 0 \<or> rc = ACC_OFF then (accounts apath w)[i := a3] else accounts apath w) \<and>
     log_records lpath w' = log_records lpath w @ [r\<lparr>lr_crc := logrec_crc r w\<rparr>] \<and>
     quiet {apath, lpath} w w' \<and> acc_ready base apath w' \<and> log_ready logbase lpath w'"
proof -
  have rd: "acc_ready base apath w" "log_ready logbase lpath w" "apath \<noteq> lpath" "tariffs_limit w \<noteq> []"
    and free: "bases_free base logbase w" using ready by (simp_all add: bee_ready_def)
  obtain w1 where w1: "acc_baselock base w = (0, w1)" "acc_ready base apath w1" "accounts apath w1 = accounts apath w"
    "\<And>b p. log_ready b p w1 = log_ready b p w" "\<And>p. log_records p w1 = log_records p w"
    using baselock_nf[OF rd(1)] by metis
  note lk = baselock_step[OF w1(1)]
  have now: "now w1 = now w" "now (tick w1) = now (tick w)" using lk(5,8) by (simp_all add: now_def)
  let ?A = "accounts apath w" and ?junk = "decode_acc (stack_junk 128 (tick w1))"
  have chk: "acc_check (int i) (now (tick w1)) (accounts apath (tick w1) ! i) (tick w1) = (rc, ?A ! i)"
    using acc_check_sound[OF sound, of "now (tick w)"] acc_check_quiet[of "tick w1" w] lk(4) w1(3) now
    by (simp add: rc_def)
  have "acci_get_try 2 base (int i) ?junk (tick w1) = acci_get base (int i) ?junk (tick w1)"
    by (rule acci_get_try_nf[of base apath]) (use w1 i in simp_all)
  with acci_get_nf[of base apath "tick w1" i ?junk] w1 i chk obtain w2 where
    w2: "acci_get_try 2 base (int i) ?junk (tick w1) = (rc, ?A ! i, w2)" "quiet {} (tick w1) w2" "ticks w2 = ticks w1 + 2"
    by auto
  have q2: "quiet {} w1 w2" using w2(2) by (rule quiet_trans[OF quiet_tick])
  have "dbs.more w2 = dbs.more (tick (tick w))" "clock w2 = clock (tick (tick w))" "ticks w2 = ticks (tick (tick w))"
    using q2 lk(5,7,8) w2(3) by (simp_all add: quiet_simps)
  from transaction_sum_cong[OF amt this] obtain w3 where
    w3: "transaction_sum d realarg limit (?A ! i) w2 = Some (amount, e, a, w3)" "ticks w3 = ticks v" "counted w2 w3"
    by blast
  have q3: "quiet {} w1 w3" using q2 counted_quiet[OF w3(3)] by (rule quiet_trans)
  have r3: "acc_ready base apath w3" "accounts apath w3 = ?A"
    using acc_ready_quiet[OF q3, of apath] w1 by simp_all
  have "counted (tick (tick w)) v" by (rule transaction_sum_world(1)[OF amt])
  then have "clock v = clock w" by (auto simp: counted_def)
  then have now3: "now w3 = now v" using w3(2) q3 lk(8) by (simp add: now_def quiet_simps)
  have st3: "acc_stamp a2 t w3 = acc_stamp a2 t w" for t
    by (rule acc_stamp_quiet) (use q3 lk(4) in \<open>simp add: quiet_simps\<close>)
  have "sint (a_accno a2) = int i"
    using sound same_account_accno[OF transaction_sum_world(2)[OF amt]] by (simp add: a2_def acc_sound_def)
  from write_back_nf[OF r3(1) _ this, of rc r] i r3 obtain w4 where
    w4: "write_back base (int i) rc a2 r w3 = (a3, r, w4)" "acc_ready base apath w4"
      "accounts apath w4 = (if rc \<ge> 0 \<or> rc = ACC_OFF then ?A[i := a3] else ?A)" "quiet {apath} w3 w4"
    by (auto simp: a3_def now3 st3)
  have q4: "quiet {apath} w1 w4" using q3 w4(4) quiet_mono[of "{}" w1 w3 "{apath}"] quiet_trans by blast
  have lr4: "log_ready logbase lpath w4" "log_records lpath w4 = log_records lpath w"
    using log_ready_quiet[OF q4] rd w1 by simp_all
  have lun: "lb_fasync logbase = 0 \<longrightarrow> fd_lock w4 (lb_fd logbase) = LOCK_UN"
    using free lk(9)[of "lb_fd logbase"] quiet_lock[OF q4] by (auto simp: bases_free_def)
  have crc: "logrec_crc r w4 = logrec_crc r w"
    by (rule logrec_crc_quiet) (use q4 lk(4) in \<open>simp add: quiet_simps\<close>)
  obtain w5 where w5: "log_add logbase r w4 = (int (length (log_records lpath w)), r\<lparr>lr_crc := logrec_crc r w\<rparr>, w5)"
      "log_ready logbase lpath w5" "log_records lpath w5 = log_records lpath w @ [r\<lparr>lr_crc := logrec_crc r w\<rparr>]"
      "quiet {lpath} w4 w5"
    using log_add_nf[OF lr4(1), of r] lun unfolding lr4(2) crc by blast
  define w' where "w' = snd (acc_baseunlock base w5)"
  have "quiet {apath, lpath} w1 w5"
    using quiet_mono[OF q4, of "{apath, lpath}"] quiet_mono[OF w5(4), of "{apath, lpath}"] quiet_trans by blast
  then have q: "quiet {apath, lpath} w w'"
    unfolding w'_def using lk(11) free by (auto simp: bases_free_def)
  have a5: "acc_ready base apath w5" "accounts apath w5 = accounts apath w4"
    using acc_ready_quiet[OF w5(4), of apath] rd(3) w4(2) by simp_all
  obtain st where st: "accs_state a3 w = Some st" using accs_state_Some[OF rd(4)] by blast
  have "dbs.more w' = dbs.more w" using q by (simp add: quiet_simps)
  note st' = accs_state_cong(2)[OF this, of a3]
  obtain urc where un: "acc_baseunlock base w5 = (urc, w')" by (metis w'_def prod.collapse)
  have rr: "(let r = (log_head (now w) (int i) rc (?A ! i))\<lparr>lr_sum := amount, lr_isdata := e\<rparr>
      in if tx_unlogged e a2 then r\<lparr>lr_sum := 0\<rparr> else r) = r"
    by (simp add: r_def Let_def)
  have "acc_transaction base logbase (int i) (Some d) realarg limit w = Some (st, Some e, w')"
    unfolding acc_transaction_def option.case w1(1) prod.case sys_time_now w2(1) Let_def w3(1) a2_def[symmetric] now(1)
      rr[unfolded Let_def] w4(1) w5(1) un st' st by simp
  then show ?thesis using st q w4(3) w5(2,3) a5 by (auto simp: w'_def)
qed

section \<open>The log as a ledger\<close>

text \<open>
  The log says which records changed a balance: replaying it over the balances is the abstract
  view of the billing.  \<open>ledger_chain\<close> says that every such record also shows the balance it
  found.
\<close>

definition posted :: "logrec \<Rightarrow> bool" where
  "posted r \<longleftrightarrow> tx_posts (sint (lr_serrno r)) (lr_isdata r)"

definition ledger_step :: "double list \<Rightarrow> logrec \<Rightarrow> double list" where
  "ledger_step bals r =
     (if posted r
      then bals[nat (sint (lr_accno r)) := dadd (bals ! nat (sint (lr_accno r))) (lr_sum r)] else bals)"

fun ledger_chain :: "double list \<Rightarrow> logrec list \<Rightarrow> bool" where
  "ledger_chain bals [] \<longleftrightarrow> True"
| "ledger_chain bals (r # rs) \<longleftrightarrow>
     (posted r \<longrightarrow> lr_balance r = bals ! nat (sint (lr_accno r))) \<and> ledger_chain (ledger_step bals r) rs"

text \<open>A session: transactions one after the other, each with its account, data, argument and limit.\<close>

type_synonym tx = "nat \<times> isdata \<times> double \<times> double"

fun run_txs :: "accbase \<Rightarrow> logbase \<Rightarrow> tx list \<Rightarrow> 'a tariffs_scheme \<Rightarrow> 'a tariffs_scheme option" where
  "run_txs base logbase [] w = Some w"
| "run_txs base logbase ((i, d, realarg, limit) # txs) w =
     (case acc_transaction base logbase (int i) (Some d) realarg limit w of
        None \<Rightarrow> None
      | Some (rc, d', w) \<Rightarrow> run_txs base logbase txs w)"

text \<open>
  The account exists and its record is sound, it is not both turned off and unlimited (such an
  account is charged, but logged with a zero sum), and the data can be counted.
\<close>

definition tx_ok :: "string \<Rightarrow> 'a tariffs_scheme \<Rightarrow> tx \<Rightarrow> bool" where
  "tx_ok apath w tx \<longleftrightarrow> (case tx of (i, d, realarg, limit) \<Rightarrow>
     i < length (accounts apath w) \<and> acc_sound (int i) (accounts apath w ! i) w \<and>
     \<not> (a_tag (accounts apath w ! i) AND ATAG_OFF \<noteq> 0 \<and> a_tag (accounts apath w ! i) AND ATAG_UNLIMIT \<noteq> 0) \<and>
     countable d realarg w)"

lemma unlogged_unlimited: "tx_unlogged d a \<Longrightarrow> a_tag a AND ATAG_UNLIMIT \<noteq> 0"
proof
  assume u: "tx_unlogged d a" and z: "a_tag a AND ATAG_UNLIMIT = 0"
  have "(a_tag a AND (ATAG_UNLIMIT OR ATAG_LOG)) AND ATAG_UNLIMIT = a_tag a AND ATAG_UNLIMIT"
    by (simp add: word_bw_assocs)
  with u z show False by (simp add: tx_unlogged_def)
qed

lemma posts_logged:
  assumes "tx_posts (acc_state b t) d" "a_tag a = a_tag b"
    "\<not> (a_tag b AND ATAG_OFF \<noteq> 0 \<and> a_tag b AND ATAG_UNLIMIT \<noteq> 0)"
  shows "\<not> tx_unlogged d a"
proof
  assume u: "tx_unlogged d a"
  then have "a_tag b AND ATAG_UNLIMIT \<noteq> 0" "sint (is_res_id d) \<noteq> RES_ADDER"
    using unlogged_unlimited[OF u] assms(2) by (simp_all add: tx_unlogged_def)
  with assms(1,3) show False by (auto simp: tx_posts_def acc_state_def split: if_splits)
qed

lemma acc_state_codes: "acc_state a t \<in> {SUCCESS, NEGATIVE, ACC_UNLIMIT, ACC_DELETED, ACC_BROKEN, ACC_FROZEN, ACC_OFF}"
  by (simp add: acc_state_def)

lemma acc_state_usable: "acc_state a t \<ge> 0 \<or> acc_state a t = ACC_OFF \<Longrightarrow> a_tag a AND ATAG_BROKEN = 0"
  by (auto simp: acc_state_def split: if_splits)

lemma transaction_ledger:
  fixes w :: "'a tariffs_scheme"
  assumes ready: "bee_ready base apath logbase lpath w" and ok: "tx_ok apath w (i, d, realarg, limit)"
  shows "\<exists>st e w' r. acc_transaction base logbase (int i) (Some d) realarg limit w = Some (st, Some e, w') \<and>
     bee_ready base apath logbase lpath w' \<and> quiet {apath, lpath} w w' \<and>
     log_records lpath w' = log_records lpath w @ [r] \<and>
     map a_balance (accounts apath w') = ledger_step (map a_balance (accounts apath w)) r \<and>
     (posted r \<longrightarrow> lr_balance r = map a_balance (accounts apath w) ! nat (sint (lr_accno r))) \<and>
     (\<forall>tx. tx_ok apath w tx \<longrightarrow> tx_ok apath w' tx)"
proof -
  let ?A = "accounts apath w"
  have i: "i < length ?A" and sound: "acc_sound (int i) (?A ! i) w" and c: "countable d realarg w"
    and tags: "\<not> (a_tag (?A ! i) AND ATAG_OFF \<noteq> 0 \<and> a_tag (?A ! i) AND ATAG_UNLIMIT \<noteq> 0)"
    using ok by (simp_all add: tx_ok_def)
  have "countable d realarg (tick (tick w))" using c by (simp add: countable_def)
  from transaction_sum_Some[OF this, of limit "?A ! i"] obtain amount e a v where
    amt: "transaction_sum d realarg limit (?A ! i) (tick (tick w)) = Some (amount, e, a, v)" by blast
  define rc where "rc = acc_state (?A ! i) (now (tick w))"
  define a2 where "a2 = tx_account rc e amount a"
  define a3 where "a3 = (if rc \<ge> 0 \<or> rc = ACC_OFF then acc_stamp a2 (now v) w else a2)"
  define r where "r = (log_head (now w) (int i) rc (?A ! i))
      \<lparr>lr_sum := (if tx_unlogged e a2 then 0 else amount), lr_isdata := e\<rparr>"
  from transaction_nf[OF ready i sound amt, folded rc_def, folded a2_def, folded a3_def r_def]
  obtain w' st where t: "acc_transaction base logbase (int i) (Some d) realarg limit w = Some (st, Some e, w')"
    and A': "accounts apath w' = (if rc \<ge> 0 \<or> rc = ACC_OFF then ?A[i := a3] else ?A)"
    and L': "log_records lpath w' = log_records lpath w @ [r\<lparr>lr_crc := logrec_crc r w\<rparr>]"
    and q: "quiet {apath, lpath} w w'" and r': "acc_ready base apath w'" "log_ready logbase lpath w'"
    by blast
  have same: "a_tag a = a_tag (?A ! i)" "a_accno a = a_accno (?A ! i)" "a_balance a = a_balance (?A ! i)"
    using same_account_balance[OF transaction_sum_world(2)[OF amt]] by simp_all
  have more: "dbs.more w' = dbs.more w" and crc: "zcrc32 w' = zcrc32 w" using q by (simp_all add: quiet_simps)
  note tm = tariffs_more[OF more]
  have ready': "bee_ready base apath logbase lpath w'"
    using ready r' tm(2) bases_free_quiet[OF q] by (simp add: bee_ready_def)
  have no: "sint (word_of_int (int i) :: u32) = int i"
  proof -
    have "in_i32 (int i)" using sound sint_in_i32[of "a_accno (?A ! i)"] by (simp add: acc_sound_def)
    then show ?thesis by (rule sint_word_of_int_32)
  qed
  have src: "sint (word_of_int rc :: u32) = rc"
    using acc_state_codes[of "?A ! i" "now (tick w)"] by (intro sint_word_of_int_32) (auto simp: rc_def in_i32_def)
  let ?r = "r\<lparr>lr_crc := logrec_crc r w\<rparr>"
  have fields: "sint (lr_accno ?r) = int i" "sint (lr_serrno ?r) = rc" "lr_isdata ?r = e"
    "lr_sum ?r = (if tx_unlogged e a2 then 0 else amount)"
    "rc \<ge> 0 \<or> rc \<le> ACC_FROZEN \<Longrightarrow> lr_balance ?r = a_balance (?A ! i)"
    using no src by (auto simp: r_def log_head_def Let_def)
  have po: "posted ?r \<longleftrightarrow> tx_posts rc e" by (simp only: posted_def fields)
  have wr: "tx_posts rc e \<Longrightarrow> rc \<ge> 0 \<or> rc = ACC_OFF" by (auto simp: tx_posts_def)
  have tag2: "a_tag a2 = a_tag (?A ! i)" using same by (simp add: a2_def)
  have logged: "tx_posts rc e \<Longrightarrow> lr_sum ?r = amount"
    using posts_logged[of "?A ! i" "now (tick w)" e a2] tags tag2 unfolding rc_def[symmetric] fields by auto
  have bal3: "a_balance a3 = (if tx_posts rc e then dadd (a_balance (?A ! i)) amount else a_balance (?A ! i))"
    using same by (simp add: a3_def a2_def)
  have upd: "(map a_balance ?A)[i := a_balance (?A ! i)] = map a_balance ?A"
    using i by (metis list_update_id nth_map)
  have step: "map a_balance (accounts apath w') = ledger_step (map a_balance ?A) ?r"
    using i wr logged upd unfolding A' ledger_step_def po fields(1) nat_int
    by (auto simp: map_update bal3)
  have chain: "posted ?r \<longrightarrow> lr_balance ?r = map a_balance ?A ! nat (sint (lr_accno ?r))"
    using i wr fields(5) unfolding po fields(1) nat_int by (auto simp: tx_posts_def)
  have "acc_sound (int i) a3 w" if "rc \<ge> 0 \<or> rc = ACC_OFF"
  proof -
    have "a_tag a2 AND ATAG_BROKEN = 0" using acc_state_usable that tag2 by (simp add: rc_def)
    moreover have "sint (a_accno a2) = int i" using sound same by (simp add: a2_def acc_sound_def)
    ultimately show ?thesis using that by (simp add: a3_def acc_stamp_sound)
  qed
  moreover have "a_tag a3 = a_tag (?A ! i)" using tag2 by (simp add: a3_def)
  ultimately have keep: "tx_ok apath w' tx" if "tx_ok apath w tx" for tx
  proof -
    have 1: "acc_sound k b w' = acc_sound k b w" for k b by (rule acc_sound_quiet) (rule crc)
    obtain j d2 ra2 lm2 where tx: "tx = (j, d2, ra2, lm2)" by (cases tx) auto
    show ?thesis
      using that \<open>rc \<ge> 0 \<or> rc = ACC_OFF \<Longrightarrow> acc_sound (int i) a3 w\<close> \<open>a_tag a3 = a_tag (?A ! i)\<close> i
      unfolding tx tx_ok_def prod.case 1 A' countable_def tm(1)
      by (cases "j = i") auto
  qed
  show ?thesis using t ready' q L' step chain keep by blast
qed

section \<open>Properties\<close>

text \<open>
  C1: The log is the ledger of the billing: on a machine without faults, any sequence of transactions
  on sound accounts returns without meeting a null pointer, writes one log record for each, and
  leaves every account with the balance that replaying the new log records over the old balances
  gives; each record that moved a balance shows the balance it found.\<close>

theorem ledger_replay:
  assumes "bee_ready base apath logbase lpath w" "\<And>tx. tx \<in> set txs \<Longrightarrow> tx_ok apath w tx"
  shows "\<exists>w' rs. run_txs base logbase txs w = Some w' \<and> length rs = length txs \<and>
     log_records lpath w' = log_records lpath w @ rs \<and>
     map a_balance (accounts apath w') = foldl ledger_step (map a_balance (accounts apath w)) rs \<and>
     ledger_chain (map a_balance (accounts apath w)) rs"
  using assms
proof (induction txs arbitrary: w)
  case Nil
  then show ?case by auto
next
  case (Cons tx txs)
  obtain i d realarg limit where tx: "tx = (i, d, realarg, limit)" by (cases tx) auto
  have ok: "tx_ok apath w (i, d, realarg, limit)" using Cons.prems(2)[of tx] tx by simp
  from transaction_ledger[OF Cons.prems(1) ok] obtain st e w1 r where
    t: "acc_transaction base logbase (int i) (Some d) realarg limit w = Some (st, Some e, w1)"
      "bee_ready base apath logbase lpath w1" "log_records lpath w1 = log_records lpath w @ [r]"
      "map a_balance (accounts apath w1) = ledger_step (map a_balance (accounts apath w)) r"
      "posted r \<longrightarrow> lr_balance r = map a_balance (accounts apath w) ! nat (sint (lr_accno r))"
      "\<forall>tx. tx_ok apath w tx \<longrightarrow> tx_ok apath w1 tx" by blast
  from Cons.IH[OF t(2)] Cons.prems(2) t(6) obtain w' rs where
    "run_txs base logbase txs w1 = Some w'" "length rs = length txs"
    "log_records lpath w' = log_records lpath w1 @ rs"
    "map a_balance (accounts apath w') = foldl ledger_step (map a_balance (accounts apath w1)) rs"
    "ledger_chain (map a_balance (accounts apath w1)) rs" by auto
  with t tx show ?case by (intro exI[of _ w'] exI[of _ "r # rs"]) auto
qed

definition demo_payment :: isdata where
  "demo_payment = demo_data\<lparr>is_res_id := 2\<rparr>"

lemma demo_ready: "bee_ready \<lparr>ab_fd = 3, ab_fasync = 0\<rparr> ''acc'' \<lparr>lb_fd = 4, lb_fasync = 0\<rparr> ''log'' demo_tariffs"
  by (simp add: bee_ready_def acc_ready_def log_ready_def file_ready_def demo_tariffs_def demo_bee_def no_faults_def
      open_on_def sqr_none_def bases_free_def fd_lock_def dbs.defs gates.defs tariffs.defs)

lemma demo_accounts: "accounts ''acc'' demo_tariffs = [demo_acc 0 d_mebi, demo_acc 1 0]"
  by (simp add: accounts_def file_recs_def demo_tariffs_def demo_bee_def records_def upt_rec dbs.defs gates.defs tariffs.defs)

lemma demo_sound: "acc_sound 0 (demo_acc 0 d_mebi) demo_tariffs" "acc_sound 1 (demo_acc 1 0) demo_tariffs"
  by (simp_all add: acc_sound_def demo_acc_def decode_acc_def acc_crc_def count_crc_def demo_tariffs_def demo_bee_def
      dbs.defs gates.defs tariffs.defs)

lemma demo_tx: "tx_ok ''acc'' demo_tariffs (0, demo_payment, r, l)" "tx_ok ''acc'' demo_tariffs (1, demo_data, r, l)"
  using demo_sound
  by (simp_all add: tx_ok_def demo_accounts countable_def demo_payment_def demo_data_def has_count_def demo_tab_def,
      simp_all add: demo_acc_def decode_acc_def)

theorem ledger_replay_witness:
  "\<exists>w' rs. run_txs \<lparr>ab_fd = 3, ab_fasync = 0\<rparr> \<lparr>lb_fd = 4, lb_fasync = 0\<rparr>
      [(0, demo_payment, d_mebi, 0), (1, demo_data, d_minus_one, 0)] demo_tariffs = Some w' \<and> length rs = 2 \<and>
     map a_balance (accounts ''acc'' w') = foldl ledger_step [d_mebi, 0] rs \<and> ledger_chain [d_mebi, 0] rs"
proof -
  let ?txs = "[(0, demo_payment, d_mebi, 0), (1, demo_data, d_minus_one, 0)] :: tx list"
  have ok: "tx_ok ''acc'' demo_tariffs tx" if "tx \<in> set ?txs" for tx using that demo_tx by auto
  have "map a_balance (accounts ''acc'' demo_tariffs) = [d_mebi, 0]" by (simp add: demo_accounts) (simp add: demo_acc_def)
  with ledger_replay[OF demo_ready, of ?txs] ok show ?thesis
    by (auto simp del: run_txs.simps ledger_chain.simps simp: numeral_2_eq_2)
qed

text \<open>
  C2: Whatever system calls fail, a transaction that can be counted returns, leaves both bases unlocked
  and every descriptor locked as it was, and touches no file but those of the two bases.\<close>

theorem transaction_releases_locks:
  fixes w :: "'a tariffs_scheme"
  assumes "bases_free base logbase w" "countable d realarg w" "tariffs_limit w \<noteq> []"
  shows "\<exists>rc d' w'. acc_transaction base logbase accno (Some d) realarg limit w = Some (rc, d', w') \<and>
    bases_free base logbase w' \<and> (\<forall>fd. fd_lock w' fd = fd_lock w fd) \<and>
    (\<forall>p. p \<notin> base_paths base logbase w \<longrightarrow> files w' p = files w p) \<and> linktab w' = linktab w"
proof -
  obtain rc d' w' where t: "acc_transaction base logbase accno (Some d) realarg limit w = Some (rc, d', w')"
    and q: "quiet (base_paths base logbase w) w w'"
    using transaction_outcome[of base logbase w d realarg accno limit] assms by (auto split: option.splits)
  from bases_free_quiet[OF q] quiet_lock[OF q] quiet_simps(5,7)[OF q] tariffs_more(6)[of w' w] assms(1) t
  show ?thesis by blast
qed

theorem transaction_releases_locks_witness:
  "\<exists>rc d' w'. acc_transaction \<lparr>ab_fd = 3, ab_fasync = 0\<rparr> \<lparr>lb_fd = 4, lb_fasync = 0\<rparr> 0 (Some demo_payment) d_mebi 0
       (demo_tariffs\<lparr>script := [Done, Fail, Done, Short 3, Fail]\<rparr>) = Some (rc, d', w') \<and>
     fd_lock w' 3 = LOCK_UN \<and> fd_lock w' 4 = LOCK_UN"
proof -
  let ?w = "demo_tariffs\<lparr>script := [Done, Fail, Done, Short 3, Fail]\<rparr>"
  let ?b = "\<lparr>ab_fd = 3, ab_fasync = 0\<rparr>" and ?l = "\<lparr>lb_fd = 4, lb_fasync = 0\<rparr>"
  have "bases_free ?b ?l ?w" "countable demo_payment d_mebi ?w" "tariffs_limit ?w \<noteq> []"
    using demo_ready by (simp_all add: bee_ready_def bases_free_def fd_lock_def countable_def demo_payment_def)
  from transaction_releases_locks[OF this, of 0 0] show ?thesis by (auto simp: bases_free_def)
qed

text \<open>
  C3: A payment into an account that may be charged (valid, negative, unlimited or turned off) adds the
  amount to the balance, cut down so that the balance does not pass a limit that is given, and
  ends a temporary credit; the number, the tags and the plan stay.\<close>

theorem payment_books:
  assumes ready: "bee_ready base apath logbase lpath w"
    and i: "i < length (accounts apath w)" "acc_sound (int i) (accounts apath w ! i) w"
    and pay: "sint (is_res_id d) = RES_ADDER"
    and st: "acc_state (accounts apath w ! i) (now (tick w)) \<in> {SUCCESS, NEGATIVE, ACC_OFF, ACC_UNLIMIT}"
  shows "\<exists>rc w'. acc_transaction base logbase (int i) (Some d) pay limit w = Some (rc, Some d, w') \<and>
    (let a = accounts apath w ! i; b = accounts apath w' ! i; total = dadd (a_balance a) pay
     in a_balance b = dadd (a_balance a)
          (dsub pay (if \<not> deq limit 0 \<and> dlt limit total then dsub total limit else 0)) \<and>
        a_tcredit b = 0 \<and> a_accno b = a_accno a \<and> a_tag b = a_tag a \<and> a_tariff b = a_tariff a \<and>
        acc_sound (int i) b w')"
proof -
  let ?a = "accounts apath w ! i"
  define s where "s = dsub pay (if \<not> deq limit 0 \<and> dlt limit (dadd (a_balance ?a) pay)
      then dsub (dadd (a_balance ?a) pay) limit else 0)"
  have amt: "transaction_sum d pay limit ?a (tick (tick w)) = Some (s, d, ?a, tick (tick w))"
    by (simp add: transaction_sum_def assms(4) s_def Let_def)
  define rc where "rc = acc_state ?a (now (tick w))"
  have wr: "rc \<ge> 0 \<or> rc = ACC_OFF" "tx_posts rc d" using st by (auto simp: tx_posts_def assms(4) rc_def)
  from transaction_nf[OF ready i amt] wr(1)[unfolded rc_def] obtain w' code where
    t: "acc_transaction base logbase (int i) (Some d) pay limit w = Some (code, Some d, w')"
      "accounts apath w' = (accounts apath w)[i := acc_stamp (tx_account rc d s ?a) (now (tick (tick w))) w]"
      "quiet {apath, lpath} w w'"
    unfolding rc_def by auto
  have b: "accounts apath w' ! i = acc_stamp (tx_account rc d s ?a) (now (tick (tick w))) w" using t(2) i(1) by simp
  have "acc_sound (int i) (acc_stamp (tx_account rc d s ?a) (now (tick (tick w))) w) w"
    using acc_state_usable[of ?a "now (tick w)"] wr(1) i(2)
    by (intro acc_stamp_sound) (simp_all add: rc_def acc_sound_def)
  then have "acc_sound (int i) (accounts apath w' ! i) w'"
    using acc_sound_quiet[OF quiet_simps(3)[OF t(3)]] b by simp
  moreover have "a_tcredit (tx_account rc d s ?a) = 0" "a_tariff (tx_account rc d s ?a) = a_tariff ?a"
    using wr(2) by (simp_all add: tx_account_def assms(4) Let_def)
  ultimately show ?thesis using t(1) wr(2) by (auto simp: b Let_def s_def)
qed

theorem payment_books_witness:
  "\<exists>rc w'. acc_transaction \<lparr>ab_fd = 3, ab_fasync = 0\<rparr> \<lparr>lb_fd = 4, lb_fasync = 0\<rparr> 0 (Some demo_payment) d_mebi 0 demo_tariffs =
     Some (rc, Some demo_payment, w') \<and> a_tcredit (accounts ''acc'' w' ! 0) = 0"
proof -
  have "\<not> dlt d_mebi d_cent"
    by (simp add: d_mebi_def d_cent_def dlt_def fdecode_def fixpt_def Let_def)
  then have "acc_state (demo_acc 0 d_mebi) t = SUCCESS" for t
    by (simp add: acc_state_def demo_acc_def decode_acc_def)
  moreover have "sint (is_res_id demo_payment) = RES_ADDER" by (simp add: demo_payment_def)
  ultimately show ?thesis
    using payment_books[OF demo_ready, of 0 demo_payment d_mebi 0] demo_sound by (auto simp: demo_accounts Let_def)
qed

lemma limit_exists:
  "tariffs_limit w \<noteq> [] \<Longrightarrow>
    \<exists>limit. acc_limit a w = Some limit \<and> accs_state a w = Some (if dlt (a_balance a) (dadd limit d_cent) then 1 else 0)"
  by (simp add: acc_limit_def accs_state_def)

text \<open>
  C7: The limit an account is judged by is its temporary credit if it has one, else the limit of its
  plan (the first in the table wins), else that of the first plan; the account is reported
  negative exactly when its balance is below the limit plus a hundredth.\<close>

theorem limit_of_account:
  assumes "tariffs_limit w \<noteq> []"
  shows "\<exists>limit. limit = (if \<not> deq (a_tcredit a) 0 then a_tcredit a
      else tl_min (case find (\<lambda>t. tl_tariff t = sint (a_tariff a)) (takeWhile (\<lambda>t. 0 \<le> tl_tariff t) (tariffs_limit w)) of
          None \<Rightarrow> hd (tariffs_limit w) | Some t \<Rightarrow> t)) \<and>
    acc_limit a w = Some limit \<and> accs_state a w = Some (if dlt (a_balance a) (dadd limit d_cent) then 1 else 0)"
proof -
  let ?live = "\<lambda>ts. takeWhile (\<lambda>t. 0 \<le> tl_tariff t) ts" and ?plan = "sint (a_tariff a)"
  have e: "(case find (\<lambda>t. tl_tariff t = ?plan) (?live ts) of
      None \<Rightarrow> limit_entry ?plan ts i = 0 | Some t \<Rightarrow> i \<le> limit_entry ?plan ts i \<and>
        limit_entry ?plan ts i < i + length ts \<and> ts ! (limit_entry ?plan ts i - i) = t)" for ts i
    by (induction ts arbitrary: i) (fastforce split: option.splits simp: Suc_diff_le)+
  from e[of "tariffs_limit w" 0] have "tariffs_limit w ! limit_entry ?plan (tariffs_limit w) 0 =
      (case find (\<lambda>t. tl_tariff t = ?plan) (?live (tariffs_limit w)) of None \<Rightarrow> hd (tariffs_limit w) | Some t \<Rightarrow> t)"
    using assms by (auto simp: hd_conv_nth split: option.splits)
  then show ?thesis using assms by (simp add: acc_limit_def accs_state_def)
qed

theorem limit_of_account_witness:
  "acc_limit (demo_acc 1 0) demo_tariffs = Some d_mebi"
  using limit_of_account[of demo_tariffs "demo_acc 1 0"]
  by (simp add: demo_acc_def decode_acc_def deq_def fdecode_def fixpt_def)

text \<open>
  C9: An account that is frozen, deleted or broken, or at its limit, is not charged; but on a machine
  without faults the call that says so leaves the account base locked for writing (unless it is
  in asynchronous mode), with both files unchanged.\<close>

theorem charge_skip_keeps_lock:
  fixes w :: "'a tariffs_scheme"
  assumes ready: "bee_ready base apath logbase lpath w"
    and i: "i < length (accounts apath w)" and sound: "acc_sound (int i) (accounts apath w ! i) w"
    and skip: "a_tag (accounts apath w ! i) AND (ATAG_DELETED OR ATAG_BROKEN OR ATAG_FROZEN) \<noteq> 0 \<or>
      accs_state (accounts apath w ! i) w = Some 1"
  shows "\<exists>w'. acc_charge_trans base logbase (int i) isdata w = Some (ACC_NOCHARGE, w') \<and>
    accounts apath w' = accounts apath w \<and> log_records lpath w' = log_records lpath w \<and>
    (ab_fasync base = 0 \<longrightarrow> fd_lock w' (ab_fd base) = LOCK_EX)"
proof -
  let ?a = "accounts apath w ! i"
  have rd: "acc_ready base apath w" "log_ready logbase lpath w" "tariffs_limit w \<noteq> []"
    using ready by (simp_all add: bee_ready_def)
  obtain w1 where w1: "acc_baselock base w = (0, w1)" "acc_ready base apath w1" "accounts apath w1 = accounts apath w"
    "\<And>p. log_records p w1 = log_records p w"
    using baselock_nf[OF rd(1)] by metis
  note lk = baselock_step[OF w1(1)]
  let ?junk = "decode_acc (stack_junk 128 (tick w1))"
  define rc where "rc = acc_state ?a (now (tick w1))"
  have chk: "acc_check (int i) (now (tick w1)) (accounts apath (tick w1) ! i) (tick w1) = (rc, ?a)"
    using acc_check_sound[OF sound, of "now (tick w1)"] acc_check_quiet[of "tick w1" w] lk(4) w1(3)
    by (simp add: rc_def)
  have "acci_get_try 2 base (int i) ?junk (tick w1) = acci_get base (int i) ?junk (tick w1)"
    by (rule acci_get_try_nf[of base apath]) (use w1 i in simp_all)
  with acci_get_nf[of base apath "tick w1" i ?junk] w1 i chk obtain w2 where
    w2: "acci_get_try 2 base (int i) ?junk (tick w1) = (rc, ?a, w2)" "quiet {} (tick w1) w2"
    by auto
  have q2: "quiet {} w1 w2" using w2(2) by (rule quiet_trans[OF quiet_tick])
  then have "dbs.more w2 = dbs.more w" using lk(7) by (simp add: quiet_simps)
  note lim = accs_state_cong[OF this, of ?a]
  obtain limit where l: "acc_limit ?a w = Some limit"
    "accs_state ?a w = Some (if dlt (a_balance ?a) (dadd limit d_cent) then 1 else 0)"
    using limit_exists[OF rd(3), of ?a] by blast
  have "acc_charge_trans base logbase (int i) isdata w = Some (ACC_NOCHARGE, w2)"
    using skip l unfolding acc_charge_trans_def w1(1) prod.case sys_time_now w2(1) Let_def lim
    by (cases isdata) (auto split: if_splits)
  moreover have "accounts apath w2 = accounts apath w" "log_records lpath w2 = log_records lpath w"
    using acc_ready_quiet(2)[OF q2] log_ready_quiet(2)[OF q2] w1 by simp_all
  moreover have "fd_lock w2 (ab_fd base) = LOCK_EX" if "ab_fasync base = 0"
  proof -
    have op: "fdt w (ab_fd base) \<noteq> None" "no_faults w"
      using file_ready_nf[OF rd(1)[unfolded acc_ready_def]] by blast+
    then have "w1 = relock (ab_fd base) LOCK_EX w"
      using w1(1) that unfolding acc_baselock_def db_exlock_def by (simp add: flock_nf)
    then have "fd_lock w1 (ab_fd base) = LOCK_EX"
      using op fd_lock_set_lock[of w "ab_fd base" LOCK_EX "ab_fd base"] by (simp add: relock_set_lock)
    then show ?thesis using quiet_lock[OF q2] by simp
  qed
  ultimately show ?thesis by blast
qed

theorem charge_skip_keeps_lock_witness:
  "\<exists>w'. acc_charge_trans \<lparr>ab_fd = 3, ab_fasync = 0\<rparr> \<lparr>lb_fd = 4, lb_fasync = 0\<rparr> 1 (Some demo_data) demo_tariffs =
     Some (ACC_NOCHARGE, w') \<and> fd_lock w' 3 = LOCK_EX"
proof -
  have "dlt 0 (dadd d_mebi d_cent)"
    by (simp add: dlt_def dadd_def d_mebi_def d_cent_def fdecode_def fixpt_def Let_def round_frac_def round_even_def fpack_def)
  then have "accs_state (demo_acc 1 0) demo_tariffs = Some 1"
    by (simp add: accs_state_def acc_limit_def demo_acc_def decode_acc_def deq_def fdecode_def fixpt_def)
  with charge_skip_keeps_lock[OF demo_ready, of 1 "Some demo_data"] demo_sound show ?thesis
    by (auto simp: demo_accounts)
qed

end
