(* ===== verification/Access.thy ===== *)
theory Access
  imports Core "HOL-Library.Multiset"
begin

text \<open>
  The access lists (\<open>access_update\<close> in \<open>src/src/bee/core/core.c\<close>): for every resource that is
  counted, the names of the gates that may be used now are written to one file and the names of
  the others to a second one, under a lock file, and then the ruler commands and the apply
  script are run.  What these commands do is outside the program: the state only records that
  they were started.  Two lists are taken to be different files.
\<close>

record access = tariffs +
  conf_updlock :: string
  conf_grantmask :: string
  conf_denymask :: string
  conf_applyscript :: string
  system_calls :: "string list"

section \<open>The lock\<close>

text \<open>
  \<open>flock(fd, LOCK_EX | LOCK_NB)\<close>: the result and whether \<open>errno\<close> is \<open>EWOULDBLOCK\<close>, which a partial
  outcome stands for.
\<close>

definition sys_flock_nb :: "int \<Rightarrow> 'a os_scheme \<Rightarrow> int \<times> bool \<times> 'a os_scheme" where
  "sys_flock_nb fd w = (if fdt w fd = None then (- 1, False, w)
     else (case next_outcome w of (x, w) \<Rightarrow>
       (case x of Fail \<Rightarrow> (- 1, False, w) | Short _ \<Rightarrow> (- 1, True, w) | Done \<Rightarrow> (0, False, set_lock fd LOCK_EX w))))"

lemma flock_nb_script:
  "fst (snd (sys_flock_nb fd w)) \<Longrightarrow> length (script (snd (snd (sys_flock_nb fd w)))) < length (script w)"
  by (auto simp: sys_flock_nb_def next_outcome_def split: if_splits prod.splits list.splits outcome.splits)

text \<open>A timer on the stack before it is set.\<close>

definition stack_timer :: "'a os_scheme \<Rightarrow> timeval" where
  "stack_timer w = (let bs = stack_junk 8 w in \<lparr>tv_sec = sint (rd32 0 bs), tv_usec = sint (rd32 4 bs)\<rparr>)"

text \<open>The loop until the timer runs out: the last result.\<close>

function lock_wait :: "int \<Rightarrow> timeval option \<Rightarrow> int \<Rightarrow> 'a os_scheme \<Rightarrow> int \<times> 'a os_scheme" where
  "lock_wait fd timer rc w =
     (let s = tm_state timer w
      in if fst s = 0 then (rc, snd s)
         else (let r = sys_flock_nb fd (snd s)
               in if fst r \<ge> 0 \<or> \<not> fst (snd r) then (fst r, snd (snd r))
                  else lock_wait fd timer (fst r) (snd (snd r))))"
  by pat_completeness auto
termination
proof (relation "measure (\<lambda>(_, _, _, w). length (script w))", simp)
  fix fd timer rc and w :: "'a os_scheme" and s r
  assume "s = tm_state timer w" "r = sys_flock_nb fd (snd s)" "\<not> (fst r \<ge> 0 \<or> \<not> fst (snd r))"
  moreover have "script (snd (tm_state timer w)) = script w"
    by (auto simp: tm_state_def sys_gettimeofday_def split: option.splits)
  ultimately show "((fd, timer, fst r, snd (snd r)), fd, timer, rc, w) \<in> measure (\<lambda>(_, _, _, w). length (script w))"
    using flock_nb_script[of fd "snd s"] by auto
qed

declare lock_wait.simps [simp del]

section \<open>The lists\<close>

text \<open>\<open>snprintf\<close> of a mask with one \<open>%s\<close> into a buffer of 64 characters.\<close>

fun fmt_str :: "string \<Rightarrow> string \<Rightarrow> string" where
  "fmt_str [] s = []"
| "fmt_str [c] s = [c]"
| "fmt_str (c # d # f) s = (if c = CHR 0x25 \<and> d = CHR ''s'' then s @ f else c # fmt_str (d # f) s)"

definition list_name :: "string \<Rightarrow> string \<Rightarrow> string" where
  "list_name fmt name = take 63 (fmt_str fmt name)"

text \<open>A list that is open for writing: its path and the text printed so far.\<close>

type_synonym out_file = "(string \<times> string) option"

definition open_list :: "string \<Rightarrow> int \<Rightarrow> 'a os_scheme \<Rightarrow> out_file \<times> 'a os_scheme" where
  "open_list path rid w =
     (if has_count rid then (case sys_fopen_w path w of (ok, w) \<Rightarrow> (if ok then Some (path, []) else None, w))
      else (None, w))"

fun open_lists :: "int list \<Rightarrow> 'a access_scheme \<Rightarrow> out_file list \<times> out_file list \<times> 'a access_scheme" where
  "open_lists [] w = ([], [], w)"
| "open_lists (r # rs) w =
     (case open_list (list_name (conf_grantmask w) (r_name (resource ! nat r))) r w of (f, w) \<Rightarrow>
      case open_list (list_name (conf_denymask w) (r_name (resource ! nat r))) r w of (f2, w) \<Rightarrow>
      case open_lists rs w of (fs, f2s, w) \<Rightarrow> (f # fs, f2 # f2s, w))"

definition print_name :: "string \<Rightarrow> out_file \<Rightarrow> 'a os_scheme \<Rightarrow> out_file \<times> 'a os_scheme" where
  "print_name name f w = (case f of
      None \<Rightarrow> (None, w)
    | Some (path, t) \<Rightarrow> (case sys_fprintf t (name @ [CHR 0x0A]) w of (ok, t, w) \<Rightarrow> (Some (path, t), w)))"

text \<open>A gate of an account whose state is \<open>rc\<close>.\<close>

definition list_gate :: "int \<Rightarrow> reslink \<Rightarrow> out_file list \<times> out_file list \<times> 'a access_scheme \<Rightarrow>
    out_file list \<times> out_file list \<times> 'a access_scheme" where
  "list_gate rc l st = (case st of (f, f2, w) \<Rightarrow>
     let r = nat (rl_res_id l)
     in if f ! r = None then (f, f2, w)
        else if rc = SUCCESS \<and> rl_allow l
        then (case print_name (rl_username l) (f ! r) w of (x, w) \<Rightarrow> (f[r := x], f2, w))
        else (case print_name (rl_username l) (f2 ! r) w of (x, w) \<Rightarrow> (f, f2[r := x], w)))"

text \<open>The accounts from number \<open>i\<close> on, \<open>n\<close> of them; \<open>acc\<close> is the buffer all of them are read into.\<close>

definition access_state :: "int \<Rightarrow> acc \<Rightarrow> 'a access_scheme \<Rightarrow> int option" where
  "access_state rc acc w =
     (if rc = ACC_UNLIMIT then Some SUCCESS
      else if rc = SUCCESS \<or> rc = NEGATIVE then accs_state acc w
      else Some rc)"

fun list_accounts :: "nat \<Rightarrow> accbase \<Rightarrow> int \<Rightarrow> acc \<Rightarrow> out_file list \<times> out_file list \<times> 'a access_scheme \<Rightarrow>
    (out_file list \<times> out_file list \<times> 'a access_scheme) option" where
  "list_accounts 0 base i acc st = Some st"
| "list_accounts (Suc n) base i acc st = (case st of (f, f2, w) \<Rightarrow>
     case acc_get base i acc w of (rc, acc, w) \<Rightarrow>
     (case access_state rc acc w of
        None \<Rightarrow> None
      | Some rc \<Rightarrow>
          list_accounts n base (i + 1) acc
            (fold (\<lambda>ind. list_gate rc (linktab w ! nat ind)) (gates_of_acc i w) (f, f2, w))))"

definition close_list :: "out_file \<Rightarrow> 'a os_scheme \<Rightarrow> 'a os_scheme" where
  "close_list f w = (case f of None \<Rightarrow> w | Some (path, t) \<Rightarrow> sys_fclose_w path t w)"

definition close_lists :: "(out_file \<times> out_file) list \<Rightarrow> 'a os_scheme \<Rightarrow> 'a os_scheme" where
  "close_lists fs w = fold (\<lambda>(f, f2) w. close_list f2 (close_list f w)) fs w"

definition run_system :: "string \<Rightarrow> 'a access_scheme \<Rightarrow> 'a access_scheme" where
  "run_system cmd w = w\<lparr>system_calls := system_calls w @ [cmd]\<rparr>"

definition run_rulers :: "'a access_scheme \<Rightarrow> 'a access_scheme" where
  "run_rulers w = fold (\<lambda>r w. case r_ruler_cmd r of None \<Rightarrow> w | Some cmd \<Rightarrow> run_system cmd w) resource w"

text \<open>The body of \<open>access_update\<close> under the lock, up to the ruler commands.\<close>

definition update_lists :: "accbase \<Rightarrow> 'a access_scheme \<Rightarrow> 'a access_scheme option" where
  "update_lists base w =
     (case open_lists [0, 1, 2, 3, 4, 5, 6, 7] w of (f, f2, w) \<Rightarrow>
      case acc_reccount base w of (accs, w) \<Rightarrow>
      map_option (\<lambda>(f, f2, w). close_lists (zip f f2) w)
        (list_accounts (nat accs) base 0 (decode_acc (stack_junk 128 w)) (f, f2, w)))"

definition access_update :: "accbase \<Rightarrow> 'a access_scheme \<Rightarrow> (int \<times> 'a access_scheme) option" where
  "access_update base w =
     (case sys_open_creat (conf_updlock w) w of (lockfd, w) \<Rightarrow>
      if lockfd = 0 then Some (- 1, w)
      else (case tm_sets (Some (stack_timer w)) 3 w of (_, timer, w) \<Rightarrow>
       case lock_wait lockfd timer (- 1) w of (rc, w) \<Rightarrow>
       if rc < 0 then Some (- 1, snd (sys_close lockfd w))
       else (case update_lists base w of
           None \<Rightarrow> None
         | Some w \<Rightarrow>
            (let w = run_rulers w;
                 w = snd (sys_flock lockfd LOCK_UN w);
                 w = snd (sys_close lockfd w)
             in Some (0, run_system (conf_applyscript w) w)))))"

section \<open>The lists on a machine without faults\<close>

lemma acc_get_nf:
  assumes r: "acc_ready base path w" and i: "i < length (accounts path w)"
    and sound: "acc_sound (int i) (accounts path w ! i) w"
    and u: "ab_fasync base = 0 \<longrightarrow> fd_lock w (ab_fd base) = LOCK_UN"
  shows "\<exists>w'. acc_get base (int i) a w = (acc_state (accounts path w ! i) (now w), accounts path w ! i, w') \<and>
     quiet {} w w' \<and> ticks w' = ticks w + 1"
proof -
  define w1 where "w1 = (if ab_fasync base = 0 then relock (ab_fd base) LOCK_SH w else w)"
  have op: "no_faults w" "fdt w (ab_fd base) \<noteq> None" using file_ready_nf[OF r[unfolded acc_ready_def]] by blast+
  have r1: "acc_ready base path w1" "accounts path w1 = accounts path w" "now w1 = now w" "ticks w1 = ticks w" "zcrc32 w1 = zcrc32 w"
    using r by (simp_all add: w1_def now_def)
  have chk: "acc_check (int i) (now w1) (accounts path w1 ! i) w1 = (acc_state (accounts path w ! i) (now w), accounts path w ! i)"
    using acc_check_sound[OF sound, of "now w"] acc_check_quiet[of w1 w] r1 by simp
  from acci_get_nf[OF r1(1), of i a] i chk r1(2) obtain w2 where w2:
    "acci_get base (int i) a w1 = (acc_state (accounts path w ! i) (now w), accounts path w ! i, w2)"
    "quiet {} w1 w2" "ticks w2 = ticks w + 1" by (auto simp: r1(4))
  have op2: "fdt w2 (ab_fd base) \<noteq> None"
    using quiet_open[OF w2(2), of "ab_fd base"] file_ready_nf[OF r1(1)[unfolded acc_ready_def]] by simp
  define w3 where "w3 = (if ab_fasync base = 0 then relock (ab_fd base) LOCK_UN w2 else w2)"
  have g: "acc_get base (int i) a w = (acc_state (accounts path w ! i) (now w), accounts path w ! i, w3)"
  proof (cases "ab_fasync base = 0")
    case True
    then have "acci_get base (int i) a (relock (ab_fd base) LOCK_SH w) =
        (acc_state (accounts path w ! i) (now w), accounts path w ! i, w2)" using w2(1) by (simp add: w1_def)
    then show ?thesis using True op flock_nf[OF op, of LOCK_SH] unlock_nf[OF op2]
      by (simp add: acc_get_def db_shlock_def db_unlock_def w3_def)
  next
    case False
    then show ?thesis using w2(1) by (simp add: acc_get_def w1_def w3_def)
  qed
  have "quiet {} w w3" by (rule quiet_acc_get[OF g]) (use u acc_ready_sqr[OF r] in auto)
  with g w2(3) show ?thesis by (auto simp: w3_def)
qed

text \<open>The lists as texts, by resource.\<close>

definition lists_of :: "(int \<Rightarrow> string) \<Rightarrow> (int \<Rightarrow> string) \<Rightarrow> out_file list" where
  "lists_of nm T = map (\<lambda>r. if has_count r then Some (nm r, T r) else None) [0, 1, 2, 3, 4, 5, 6, 7]"

definition line_of :: "reslink \<Rightarrow> string" where
  "line_of l = rl_username l @ [CHR 0x0A]"

text \<open>What a gate adds to the list of a resource, for the list of allowed or denied gates.\<close>

definition add_line :: "bool \<Rightarrow> reslink \<Rightarrow> (int \<Rightarrow> string) \<Rightarrow> int \<Rightarrow> string" where
  "add_line put l T r = (if put \<and> rl_res_id l = r then T r @ line_of l else T r)"

lemma lists_of_nth: "0 \<le> r \<Longrightarrow> r < 8 \<Longrightarrow> lists_of nm T ! nat r = (if has_count r then Some (nm r, T r) else None)"
proof -
  assume r: "0 \<le> r" "r < 8"
  have "k < 8 \<Longrightarrow> [0, 1, 2, 3, 4, 5, 6, 7 :: int] ! k = int k" for k
    by (auto simp: less_Suc_eq numeral_eq_Suc)
  then have "[0, 1, 2, 3, 4, 5, 6, 7 :: int] ! nat r = r" using r by simp
  moreover have "nat r < length [0, 1, 2, 3, 4, 5, 6, 7 :: int]" using r by simp
  ultimately show ?thesis by (simp only: lists_of_def nth_map)
qed

lemma lists_of_update:
  assumes "0 \<le> r" "r < 8" "has_count r"
  shows "(lists_of nm T)[nat r := Some (nm r, t)] = lists_of nm (T(r := t))"
proof -
  have "r \<in> {0, 1, 2, 3}" using assms(3) by (auto simp: has_count_def)
  then show ?thesis by (auto simp: lists_of_def has_count_def numeral_nat)
qed

lemma lists_of_cong: "(\<And>r. has_count r \<Longrightarrow> T r = T' r) \<Longrightarrow> lists_of nm T = lists_of nm T'"
  by (auto simp: lists_of_def)

lemma print_name_nf: "no_faults w \<Longrightarrow> print_name s (Some (p, t)) w = (Some (p, t @ s @ [CHR 0x0A]), w)"
  by (simp add: print_name_def sys_fprintf_def next_outcome_no_faults)

lemma list_gate_nf:
  assumes "no_faults w" "0 \<le> rl_res_id l" "rl_res_id l < 8"
  shows "list_gate rc l (lists_of n1 T1, lists_of n2 T2, w) =
     (lists_of n1 (add_line (rc = 0 \<and> rl_allow l) l T1), lists_of n2 (add_line (\<not> (rc = 0 \<and> rl_allow l)) l T2), w)"
proof (cases "has_count (rl_res_id l)")
  case True
  have e: "add_line True l T = T(rl_res_id l := T (rl_res_id l) @ line_of l)" "add_line False l T = T" for T
    by (auto simp: add_line_def)
  show ?thesis
    using True lists_of_nth[OF assms(2,3)] lists_of_update[OF assms(2,3) True]
    by (cases "rc = 0 \<and> rl_allow l")
       (auto simp: list_gate_def print_name_nf[OF assms(1)] e line_of_def Let_def)
next
  case False
  then have "lists_of nm (add_line b l T) = lists_of nm T" for nm b T
    by (intro lists_of_cong) (auto simp: add_line_def)
  with False lists_of_nth[OF assms(2,3), of n1 T1] show ?thesis by (simp add: list_gate_def Let_def)
qed

definition lines_of :: "bool \<Rightarrow> bool \<Rightarrow> int \<Rightarrow> reslink list \<Rightarrow> string" where
  "lines_of put open_acc r ls =
     concat (map line_of (filter (\<lambda>l. rl_res_id l = r \<and> (open_acc \<and> rl_allow l) = put) ls))"

lemma fold_list_gate_nf:
  assumes "no_faults w" "\<forall>l \<in> set ls. 0 \<le> rl_res_id l \<and> rl_res_id l < 8"
  shows "fold (list_gate rc) ls (lists_of n1 T1, lists_of n2 T2, w) =
     (lists_of n1 (\<lambda>r. T1 r @ lines_of True (rc = 0) r ls), lists_of n2 (\<lambda>r. T2 r @ lines_of False (rc = 0) r ls), w)"
  using assms(2)
proof (induction ls arbitrary: T1 T2)
  case Nil
  then show ?case by (simp add: lines_of_def)
next
  case (Cons l ls)
  have "0 \<le> rl_res_id l" "rl_res_id l < 8" using Cons.prems by auto
  note one = list_gate_nf[OF assms(1) this]
  have "add_line (rc = 0 \<and> rl_allow l) l T r @ lines_of True (rc = 0) r ls = T r @ lines_of True (rc = 0) r (l # ls)"
    "add_line (\<not> (rc = 0 \<and> rl_allow l)) l T r @ lines_of False (rc = 0) r ls = T r @ lines_of False (rc = 0) r (l # ls)"
    for T r by (auto simp: add_line_def lines_of_def)
  then show ?case using Cons by (simp only: fold.simps comp_apply one) simp
qed

lemma gates_of_acc_filter: "map (\<lambda>k. linktab w ! nat k) (gates_of_acc i w) = filter (\<lambda>l. rl_accno l = i) (linktab w)"
proof -
  have "gates_of_acc i w = map int (filter (\<lambda>k. rl_accno (linktab w ! k) = i) [0..<length (linktab w)])"
    by (simp add: gates_of_acc_def link_walk_eq)
  then have "map (\<lambda>k. linktab w ! nat k) (gates_of_acc i w) =
      map (\<lambda>k. linktab w ! k) (filter (\<lambda>k. rl_accno (linktab w ! k) = i) [0..<length (linktab w)])"
    by (simp add: o_def)
  also have "\<dots> = filter (\<lambda>l. rl_accno l = i) (map (\<lambda>k. linktab w ! k) [0..<length (linktab w)])"
    by (simp add: filter_map o_def)
  finally show ?thesis by (simp add: map_nth)
qed

text \<open>Whether an account may be used at the time it is read, and the text of a list.\<close>

definition account_open :: "acc \<Rightarrow> int \<Rightarrow> 'a access_scheme \<Rightarrow> bool" where
  "account_open a t w \<longleftrightarrow> acc_state a t = ACC_UNLIMIT \<or>
     (acc_state a t = SUCCESS \<or> acc_state a t = NEGATIVE) \<and> accs_state a w = Some 0"

definition reading_time :: "nat \<Rightarrow> 'a access_scheme \<Rightarrow> int" where
  "reading_time i w = (case clock w (ticks w + i) of None \<Rightarrow> - 1 | Some tv \<Rightarrow> tv_sec tv)"

definition list_text :: "bool \<Rightarrow> acc list \<Rightarrow> int \<Rightarrow> 'a access_scheme \<Rightarrow> string" where
  "list_text put accs r w = concat (map (\<lambda>i. concat (map line_of (filter (\<lambda>l. rl_accno l = int i \<and>
     rl_res_id l = r \<and> (account_open (accs ! i) (reading_time i w) w \<and> rl_allow l) = put) (linktab w))))
     [0..<length accs])"

definition account_lines :: "bool \<Rightarrow> acc list \<Rightarrow> 'a access_scheme \<Rightarrow> nat \<Rightarrow> int \<Rightarrow> string" where
  "account_lines put accs w i r = concat (map line_of (filter (\<lambda>l. rl_accno l = int i \<and>
     rl_res_id l = r \<and> (account_open (accs ! i) (reading_time i w) w \<and> rl_allow l) = put) (linktab w)))"

lemma list_text_lines: "list_text put accs r w = concat (map (\<lambda>i. account_lines put accs w i r) [0..<length accs])"
  by (simp add: list_text_def account_lines_def)

text \<open>The bases and the gates as \<open>access_update\<close> needs them.\<close>

definition access_ready :: "accbase \<Rightarrow> string \<Rightarrow> 'a access_scheme \<Rightarrow> bool" where
  "access_ready base apath w \<longleftrightarrow> acc_ready base apath w \<and>
     (ab_fasync base = 0 \<longrightarrow> fd_lock w (ab_fd base) = LOCK_UN) \<and> tariffs_limit w \<noteq> [] \<and>
     (\<forall>i < length (accounts apath w). acc_sound (int i) (accounts apath w ! i) w) \<and>
     (\<forall>l \<in> set (linktab w). 0 \<le> rl_res_id l \<and> rl_res_id l < 8)"

lemma acc_state_refused:
  "acc_state a t = ACC_DELETED \<or> acc_state a t = ACC_BROKEN \<or> acc_state a t = ACC_FROZEN \<or> acc_state a t = ACC_OFF \<or>
     acc_state a t = SUCCESS \<or> acc_state a t = NEGATIVE \<or> acc_state a t = ACC_UNLIMIT"
  using acc_state_codes[of a t] by auto

lemma access_state_open:
  fixes w w' :: "'a access_scheme"
  assumes "tariffs_limit w \<noteq> []" "dbs.more w' = dbs.more w"
  shows "\<exists>c. access_state (acc_state a t) a w' = Some c \<and> (c = 0) = account_open a t w"
proof -
  obtain st where st: "accs_state a w = Some st" using accs_state_Some[OF assms(1)] by blast
  have st': "accs_state a w' = Some st" using accs_state_cong(2)[OF assms(2), of a] st by simp
  from acc_state_refused[of a t] st st' show ?thesis
    unfolding access_state_def account_open_def by (elim disjE) simp_all
qed

lemma reading_time_now: "clock w' = clock w \<Longrightarrow> ticks w' = ticks w + i \<Longrightarrow> now w' = reading_time i w"
  by (simp add: now_def reading_time_def)

lemma list_accounts_nf:
  assumes rd: "access_ready base apath w0" and q: "quiet {} w0 w" "ticks w = ticks w0 + i"
    and n: "i + n = length (accounts apath w0)"
  shows "\<exists>w'. list_accounts n base (int i) a (lists_of n1 T1, lists_of n2 T2, w) =
      Some (lists_of n1 (\<lambda>r. T1 r @ concat (map (\<lambda>k. account_lines True (accounts apath w0) w0 k r) [i..<i + n])),
            lists_of n2 (\<lambda>r. T2 r @ concat (map (\<lambda>k. account_lines False (accounts apath w0) w0 k r) [i..<i + n])), w') \<and>
    quiet {} w0 w'"
  using q n
proof (induction n arbitrary: i a T1 T2 w)
  case 0
  then show ?case by auto
next
  case (Suc n)
  let ?A = "accounts apath w0"
  have rd0: "acc_ready base apath w0" "tariffs_limit w0 \<noteq> []"
    "acc_sound (int i) (?A ! i) w0" "ab_fasync base = 0 \<longrightarrow> fd_lock w0 (ab_fd base) = LOCK_UN"
    "\<forall>l \<in> set (linktab w0). 0 \<le> rl_res_id l \<and> rl_res_id l < 8"
    using rd Suc.prems(3) by (simp_all add: access_ready_def)
  have r: "acc_ready base apath w" "accounts apath w = ?A"
    using acc_ready_quiet[OF Suc.prems(1), of apath] rd0(1) by simp_all
  have sound: "acc_sound (int i) (accounts apath w ! i) w"
    using rd0(3) acc_sound_quiet[OF quiet_simps(3)[OF Suc.prems(1)]] r(2) by simp
  have un: "ab_fasync base = 0 \<longrightarrow> fd_lock w (ab_fd base) = LOCK_UN"
    using rd0(4) quiet_lock[OF Suc.prems(1)] by simp
  have "i < length (accounts apath w)" using Suc.prems(3) r(2) by simp
  from acc_get_nf[OF r(1) this sound un, of a] obtain w1 where
    g: "acc_get base (int i) a w = (acc_state (?A ! i) (now w), ?A ! i, w1)"
    and q1: "quiet {} w w1" and t1: "ticks w1 = ticks w + 1" by (auto simp: r(2))
  have now: "now w = reading_time i w0"
    using reading_time_now[OF quiet_simps(2)[OF Suc.prems(1)] Suc.prems(2)] .
  have q01: "quiet {} w0 w1" using Suc.prems(1) q1 by (rule quiet_trans)
  then have more: "dbs.more w1 = dbs.more w0" by (simp add: quiet_simps)
  from access_state_open[OF rd0(2) more, of "?A ! i" "now w"] obtain c where
    c: "access_state (acc_state (?A ! i) (now w)) (?A ! i) w1 = Some c"
      "(c = 0) = account_open (?A ! i) (reading_time i w0) w0" by (auto simp: now)
  have lt: "linktab w1 = linktab w0" by (rule tariffs_more(6)[OF more])
  have nf: "no_faults w1"
    using quiet_simps(6)[OF q01] file_ready_nf[OF rd0(1)[unfolded acc_ready_def]] by blast
  let ?ls = "filter (\<lambda>l. rl_accno l = int i) (linktab w0)"
  have ls: "map (\<lambda>k. linktab w1 ! nat k) (gates_of_acc (int i) w1) = ?ls"
    using gates_of_acc_filter[of w1 "int i"] lt by simp
  have res: "\<forall>l \<in> set ?ls. 0 \<le> rl_res_id l \<and> rl_res_id l < 8" using rd0(5) by auto
  have lines: "lines_of put (c = 0) r ?ls = account_lines put ?A w0 i r" for put r
    by (simp add: lines_of_def account_lines_def c(2) conj_assoc conj_left_commute)
  have "fold (\<lambda>ind. list_gate c (linktab w1 ! nat ind)) (gates_of_acc (int i) w1) (lists_of n1 T1, lists_of n2 T2, w1) =
      fold (list_gate c) ?ls (lists_of n1 T1, lists_of n2 T2, w1)"
    by (simp only: ls[symmetric] fold_map comp_def)
  also have "\<dots> = (lists_of n1 (\<lambda>r. T1 r @ account_lines True ?A w0 i r),
      lists_of n2 (\<lambda>r. T2 r @ account_lines False ?A w0 i r), w1)"
    by (simp only: fold_list_gate_nf[OF nf res] lines)
  finally have gates: "fold (\<lambda>ind. list_gate c (linktab w1 ! nat ind)) (gates_of_acc (int i) w1)
      (lists_of n1 T1, lists_of n2 T2, w1) = (lists_of n1 (\<lambda>r. T1 r @ account_lines True ?A w0 i r),
      lists_of n2 (\<lambda>r. T2 r @ account_lines False ?A w0 i r), w1)" .
  have t: "ticks w1 = ticks w0 + Suc i" using t1 Suc.prems(2) by simp
  have "Suc i + n = length ?A" using Suc.prems(3) by simp
  from Suc.IH[OF q01 t this, of "?A ! i" "\<lambda>r. T1 r @ account_lines True ?A w0 i r" "\<lambda>r. T2 r @ account_lines False ?A w0 i r"]
  have ih: "\<exists>w'. list_accounts n base (int i + 1) (?A ! i) (lists_of n1 (\<lambda>r. T1 r @ account_lines True ?A w0 i r),
       lists_of n2 (\<lambda>r. T2 r @ account_lines False ?A w0 i r), w1) =
      Some (lists_of n1 (\<lambda>r. T1 r @ concat (map (\<lambda>k. account_lines True ?A w0 k r) [i..<i + Suc n])),
            lists_of n2 (\<lambda>r. T2 r @ concat (map (\<lambda>k. account_lines False ?A w0 k r) [i..<i + Suc n])), w') \<and>
      quiet {} w0 w'"
    by (simp add: upt_conv_Cons add.commute del: upt_Suc)
  show ?case unfolding list_accounts.simps prod.case g c(1) option.case gates by (rule ih)
qed

section \<open>Opening and closing\<close>

lemma open_list_nf:
  "no_faults w \<Longrightarrow> open_list p r w = (if has_count r then (Some (p, []), w\<lparr>files := (files w)(p \<mapsto> [])\<rparr>) else (None, w))"
  by (simp add: open_list_def sys_fopen_w_def next_outcome_no_faults)

definition grant_name :: "'a access_scheme \<Rightarrow> int \<Rightarrow> string" where
  "grant_name w r = list_name (conf_grantmask w) (r_name (resource ! nat r))"

definition deny_name :: "'a access_scheme \<Rightarrow> int \<Rightarrow> string" where
  "deny_name w r = list_name (conf_denymask w) (r_name (resource ! nat r))"

definition list_paths :: "'a access_scheme \<Rightarrow> string list" where
  "list_paths w = [grant_name w 0, deny_name w 0, grant_name w 1, deny_name w 1,
     grant_name w 2, deny_name w 2, grant_name w 3, deny_name w 3]"

definition clear_files :: "string list \<Rightarrow> 'a os_scheme \<Rightarrow> 'a os_scheme" where
  "clear_files ps w = fold (\<lambda>p w. w\<lparr>files := (files w)(p \<mapsto> [])\<rparr>) ps w"

lemma clear_files_simps [simp]:
  "fdt (clear_files ps w) = fdt w" "clock (clear_files ps w) = clock w" "ticks (clear_files ps w) = ticks w"
  "zcrc32 (clear_files ps w) = zcrc32 w" "script (clear_files ps w) = script w" "junk (clear_files ps w) = junk w"
  "os.more (clear_files ps w) = os.more w" "p \<notin> set ps \<Longrightarrow> files (clear_files ps w) p = files w p"
  by (induction ps arbitrary: w) (auto simp: clear_files_def)

lemma open_lists_nf:
  assumes "no_faults w"
  shows "open_lists [0, 1, 2, 3, 4, 5, 6, 7] w =
     (lists_of (grant_name w) (\<lambda>_. []), lists_of (deny_name w) (\<lambda>_. []), clear_files (list_paths w) w)"
  using assms
  by (simp add: open_list_nf has_count_def lists_of_def grant_name_def deny_name_def list_paths_def clear_files_def
      no_faults_def)

definition put_files :: "(string \<times> string) list \<Rightarrow> 'a os_scheme \<Rightarrow> 'a os_scheme" where
  "put_files ps w = fold (\<lambda>(p, t) w. w\<lparr>files := (files w)(p \<mapsto> bytes_of t)\<rparr>) ps w"

lemma put_files_simps [simp]:
  "script (put_files ps w) = script w"
  by (induction ps arbitrary: w) (auto simp: put_files_def)

lemma put_files_other: "p \<notin> fst ` set ps \<Longrightarrow> files (put_files ps w) p = files w p"
  by (induction ps arbitrary: w) (auto simp: put_files_def)

lemma put_files_at: "distinct (map fst ps) \<Longrightarrow> (p, t) \<in> set ps \<Longrightarrow> files (put_files ps w) p = Some (bytes_of t)"
proof (induction ps arbitrary: w)
  case (Cons q ps)
  obtain p' t' where q: "q = (p', t')" by (cases q)
  have e: "put_files (q # ps) w = put_files ps (w\<lparr>files := (files w)(p' \<mapsto> bytes_of t')\<rparr>)"
    by (simp add: put_files_def q)
  show ?case
  proof (cases "(p, t) \<in> set ps")
    case True
    with Cons show ?thesis by (simp add: e)
  next
    case False
    with Cons.prems q have "p = p'" "t = t'" "p \<notin> fst ` set ps" by auto
    then show ?thesis by (simp add: e put_files_other)
  qed
qed simp

lemma close_lists_nf:
  assumes "no_faults w"
  shows "close_lists (zip (lists_of g T1) (lists_of d T2)) w =
     put_files [(g 0, T1 0), (d 0, T2 0), (g 1, T1 1), (d 1, T2 1), (g 2, T1 2), (d 2, T2 2), (g 3, T1 3), (d 3, T2 3)] w"
  using assms
  by (simp add: close_lists_def close_list_def sys_fclose_w_def lists_of_def has_count_def put_files_def
      next_outcome_no_faults no_faults_def)

text \<open>The gates of a list, account by account, and that the two lists split the gates of the accounts there are.\<close>

definition listed_gates :: "bool \<Rightarrow> acc list \<Rightarrow> int \<Rightarrow> 'a access_scheme \<Rightarrow> reslink list" where
  "listed_gates put accs r w = concat (map (\<lambda>i. filter (\<lambda>l. rl_accno l = int i \<and>
     rl_res_id l = r \<and> (account_open (accs ! i) (reading_time i w) w \<and> rl_allow l) = put) (linktab w)) [0..<length accs])"

lemma list_text_gates: "list_text put accs r w = concat (map line_of (listed_gates put accs r w))"
proof -
  have "concat (map line_of (concat (map f xs))) = concat (map (\<lambda>i. concat (map line_of (f i))) xs)" for f and xs :: "nat list"
    by (induction xs) simp_all
  then show ?thesis by (simp add: list_text_def listed_gates_def)
qed

lemma split_by_account:
  "mset (concat (map (\<lambda>i. filter (\<lambda>l. rl_accno l = int i \<and> rl_res_id l = r \<and> P i l = True) gs) [0..<n])) +
   mset (concat (map (\<lambda>i. filter (\<lambda>l. rl_accno l = int i \<and> rl_res_id l = r \<and> P i l = False) gs) [0..<n])) =
   mset (filter (\<lambda>l. rl_res_id l = r \<and> 0 \<le> rl_accno l \<and> rl_accno l < int n) gs)"
proof (induction n)
  case (Suc n)
  have one: "mset (filter (\<lambda>l. rl_accno l = int n \<and> rl_res_id l = r \<and> P n l = True) gs) +
      mset (filter (\<lambda>l. rl_accno l = int n \<and> rl_res_id l = r \<and> P n l = False) gs) +
      mset (filter (\<lambda>l. rl_res_id l = r \<and> 0 \<le> rl_accno l \<and> rl_accno l < int n) gs) =
      mset (filter (\<lambda>l. rl_res_id l = r \<and> 0 \<le> rl_accno l \<and> rl_accno l < int (Suc n)) gs)"
    by (induction gs) auto
  show ?case unfolding one[symmetric] Suc[symmetric] by (simp add: ac_simps del: mset_filter)
qed (simp add: filter_False)

lemma listed_split:
  "mset (listed_gates True accs r w) + mset (listed_gates False accs r w) =
   mset (filter (\<lambda>l. rl_res_id l = r \<and> 0 \<le> rl_accno l \<and> rl_accno l < int (length accs)) (linktab w))"
  unfolding listed_gates_def by (rule split_by_account)

section \<open>Properties\<close>

text \<open>
  C8: On a machine without faults, with sound accounts and eight different list files, the update
  splits the gates of every counted resource that belong to an account of the base: one list names, account by
  account, the gates that are allowed and whose account is unlimited or not at its limit when it is read, the other
  list all the others; together they have each of these gates once.  A gate whose account is not in the base
  is in neither list.\<close>

theorem access_lists_split:
  fixes w :: "'a access_scheme"
  assumes rd: "access_ready base apath w" and d: "distinct (list_paths w)" "apath \<notin> set (list_paths w)"
    and n: "int (length (accounts apath w)) < 2 ^ 31"
    and r: "has_count r"
  shows "\<exists>w'. update_lists base w = Some w' \<and>
    (let granted = listed_gates True (accounts apath w) r w; denied = listed_gates False (accounts apath w) r w
     in files w' (grant_name w r) = Some (bytes_of (concat (map line_of granted))) \<and>
        files w' (deny_name w r) = Some (bytes_of (concat (map line_of denied))) \<and>
        mset granted + mset denied =
          mset (filter (\<lambda>l. rl_res_id l = r \<and> 0 \<le> rl_accno l \<and> rl_accno l < int (length (accounts apath w))) (linktab w)) \<and>
        (\<forall>l \<in> set granted. rl_allow l \<and> account_open (accounts apath w ! nat (rl_accno l)) (reading_time (nat (rl_accno l)) w) w) \<and>
        (\<forall>l \<in> set denied. \<not> (rl_allow l \<and>
           account_open (accounts apath w ! nat (rl_accno l)) (reading_time (nat (rl_accno l)) w) w)))"
proof -
  let ?A = "accounts apath w"
  define w1 where "w1 = clear_files (list_paths w) w"
  have ar: "acc_ready base apath w" using rd by (simp add: access_ready_def)
  have nf: "no_faults w" using file_ready_nf[OF ar[unfolded acc_ready_def]] by blast
  have f1: "files w1 apath = files w apath" using d(2) by (simp add: w1_def)
  have m1: "os.more w1 = os.more w" by (simp add: w1_def)
  then have more1: "dbs.more w1 = dbs.more w" "sqr w1 = sqr w" by (cases w1; cases w; simp)+
  have a1: "accounts apath w1 = ?A" "acc_ready base apath w1"
    using ar f1 more1 by (simp_all add: accounts_def file_recs_def acc_ready_def file_ready_def open_on_def no_faults_def w1_def)
  have sound1: "acc_sound k a w1 = acc_sound k a w" for k a by (rule acc_sound_quiet) (simp add: w1_def)
  have rd1: "access_ready base apath w1"
    using rd a1 sound1 tariffs_more(2,6)[OF more1(1)] by (simp add: access_ready_def fd_lock_def w1_def)
  have time1: "reading_time i w1 = reading_time i w" for i by (simp add: reading_time_def w1_def)
  have open1: "account_open a t w1 = account_open a t w" for a t
    using accs_state_cong(2)[OF more1(1), of a] by (simp add: account_open_def)
  have lines1: "account_lines put ?A w1 i q = account_lines put ?A w i q" for put i q
    using tariffs_more(6)[OF more1(1)] by (simp add: account_lines_def time1 open1)
  have cnt: "acc_reccount base w1 = (int (length ?A), w1)"
  proof -
    have fr: "file_ready (ab_fd base) apath 128 w1" using a1(2) by (simp add: acc_ready_def)
    obtain bs where bs: "files w1 apath = Some bs" "file_recs apath 128 w1 = records 128 bs"
      using fr by (rule file_ready_data)
    have "db_reccount (ab_fd base) 128 w1 = (int (length bs) div 128, w1)"
      using fr bs by (auto simp: file_ready_def intro: db_reccount_nf[where ro = False and path = apath])
    moreover have "int (length bs) div 128 = int (length ?A)"
      using bs a1(1) by (metis length_accounts length_records of_nat_numeral zdiv_int)
    moreover have "in_i32 (int (length ?A))" using n by (simp add: in_i32_def)
    ultimately show ?thesis by (simp add: acc_reccount_def i32_id)
  qed
  have opn: "open_lists [0, 1, 2, 3, 4, 5, 6, 7] w = (lists_of (grant_name w) (\<lambda>_. []), lists_of (deny_name w) (\<lambda>_. []), w1)"
    using open_lists_nf[OF nf] by (simp add: w1_def)
  obtain w2 where w2: "list_accounts (length ?A) base 0 (decode_acc (stack_junk 128 w1))
        (lists_of (grant_name w) (\<lambda>_. []), lists_of (deny_name w) (\<lambda>_. []), w1) =
      Some (lists_of (grant_name w) (\<lambda>q. list_text True ?A q w), lists_of (deny_name w) (\<lambda>q. list_text False ?A q w), w2)"
    and q2: "quiet {} w1 w2"
    using list_accounts_nf[OF rd1 quiet_refl, of 0 "length ?A" "decode_acc (stack_junk 128 w1)" "grant_name w" "\<lambda>_. []" "deny_name w" "\<lambda>_. []"]
    by (auto simp: a1(1) lines1 list_text_lines)
  have nf2: "no_faults w2" using quiet_simps(6)[OF q2] nf by (simp add: no_faults_def w1_def)
  let ?g = "grant_name w" and ?d = "deny_name w"
  let ?T = "\<lambda>q. list_text True ?A q w" and ?F = "\<lambda>q. list_text False ?A q w"
  let ?ps = "[(?g 0, ?T 0), (?d 0, ?F 0), (?g 1, ?T 1), (?d 1, ?F 1), (?g 2, ?T 2), (?d 2, ?F 2), (?g 3, ?T 3), (?d 3, ?F 3)]"
  have upd: "update_lists base w = Some (put_files ?ps w2)"
    unfolding update_lists_def opn prod.case cnt using w2 by (simp add: close_lists_nf[OF nf2])
  have dist: "distinct (map fst ?ps)" using d(1) by (simp add: list_paths_def)
  have "(?g r, ?T r) \<in> set ?ps" "(?d r, ?F r) \<in> set ?ps" using r by (auto simp: has_count_def)
  with upd put_files_at[OF dist, where w = w2] show ?thesis
    unfolding list_text_gates Let_def listed_split
    by (intro exI[of _ "put_files ?ps w2"]) (auto simp: list_text_gates listed_gates_def)
qed


text \<open>Two gates of the counted network: one of the account with money, one of the empty account.\<close>

definition demo_link :: "int \<Rightarrow> string \<Rightarrow> reslink" where
  "demo_link acc name = \<lparr>rl_res_id = 0, rl_user_id = 0, rl_accno = acc, rl_username = name, rl_allow = True,
     rl_addr = 0, rl_mask = 0\<rparr>"

definition demo_access :: access where
  "demo_access = tariffs.extend (demo_tariffs\<lparr>linktab := [demo_link 1 ''bob'', demo_link 0 ''ann''],
       tariffs_limit := [\<lparr>tl_tariff = 0, tl_min = 0x3FF0000000000000, tl_res_min = 0\<rparr>]\<rparr>)
     (access.fields ''upd.lock'' ''allow.%s'' ''deny.%s'' ''apply'' [])"

lemma demo_access_sel:
  "conf_grantmask demo_access = ''allow.%s''" "conf_denymask demo_access = ''deny.%s''"
  "linktab demo_access = [demo_link 1 ''bob'', demo_link 0 ''ann'']"
  "tariffs_limit demo_access = [\<lparr>tl_tariff = 0, tl_min = 0x3FF0000000000000, tl_res_min = 0\<rparr>]"
  "files demo_access = files demo_tariffs" "zcrc32 demo_access = zcrc32 demo_tariffs"
  "fdt demo_access = fdt demo_tariffs" "script demo_access = script demo_tariffs" "sqr demo_access = sqr demo_tariffs"
  by (simp_all add: demo_access_def tariffs.defs access.defs)

lemma demo_access_ready: "access_ready \<lparr>ab_fd = 3, ab_fasync = 0\<rparr> ''acc'' demo_access"
  "accounts ''acc'' demo_access = [demo_acc 0 d_mebi, demo_acc 1 0]"
proof -
  show a: "accounts ''acc'' demo_access = [demo_acc 0 d_mebi, demo_acc 1 0]"
    using demo_accounts by (simp add: accounts_def file_recs_def demo_access_sel)
  have crc: "acc_crc x demo_access = acc_crc x demo_tariffs" for x
    by (simp add: acc_crc_def count_crc_def demo_access_sel)
  have s: "acc_sound 0 (demo_acc 0 d_mebi) demo_access" "acc_sound 1 (demo_acc 1 0) demo_access"
    using demo_sound by (simp_all add: acc_sound_def crc)
  have "acc_ready \<lparr>ab_fd = 3, ab_fasync = 0\<rparr> ''acc'' demo_access"
    using demo_ready by (simp add: bee_ready_def acc_ready_def file_ready_def open_on_def no_faults_def demo_access_sel)
  moreover have "fd_lock demo_access 3 = LOCK_UN"
    using demo_ready by (simp add: bee_ready_def bases_free_def fd_lock_def demo_access_sel)
  moreover have "\<forall>i < 2. acc_sound (int i) ([demo_acc 0 d_mebi, demo_acc 1 0] ! i) demo_access"
    using s by (simp add: less_2_cases_iff)
  ultimately show "access_ready \<lparr>ab_fd = 3, ab_fasync = 0\<rparr> ''acc'' demo_access"
    by (simp add: access_ready_def a demo_access_sel) (simp add: demo_link_def)
qed

lemma demo_open: "account_open (demo_acc 0 d_mebi) t demo_access" "\<not> account_open (demo_acc 1 0) t demo_access"
proof -
  have d: "\<not> dlt d_mebi (dadd 0x3FF0000000000000 d_cent)" "dlt 0 (dadd 0x3FF0000000000000 d_cent)"
    by (simp_all add: dlt_def dadd_def d_mebi_def d_cent_def fdecode_def fixpt_def Let_def round_frac_def round_even_def fpack_def)
  have "\<not> dlt d_mebi d_cent" "dlt 0 d_cent"
    by (simp_all add: dlt_def d_mebi_def d_cent_def fdecode_def fixpt_def Let_def)
  then have "acc_state (demo_acc 0 d_mebi) t = SUCCESS" "acc_state (demo_acc 1 0) t = NEGATIVE"
    by (simp_all add: acc_state_def demo_acc_def decode_acc_def)
  moreover have "accs_state (demo_acc 0 d_mebi) demo_access = Some 0" "accs_state (demo_acc 1 0) demo_access = Some 1"
    using d by (simp_all add: accs_state_def acc_limit_def demo_access_sel demo_acc_def decode_acc_def deq_def fdecode_def fixpt_def)
  ultimately show "account_open (demo_acc 0 d_mebi) t demo_access" "\<not> account_open (demo_acc 1 0) t demo_access"
    by (simp_all add: account_open_def)
qed

theorem access_lists_split_witness:
  "\<exists>w'. update_lists \<lparr>ab_fd = 3, ab_fasync = 0\<rparr> demo_access = Some w' \<and>
     files w' ''allow.inet'' = Some (bytes_of (''ann'' @ [CHR 0x0A])) \<and>
     files w' ''deny.inet'' = Some (bytes_of (''bob'' @ [CHR 0x0A]))"
proof -
  have names: "grant_name demo_access 0 = ''allow.inet''" "deny_name demo_access 0 = ''deny.inet''"
    by (simp_all add: grant_name_def deny_name_def list_name_def demo_access_sel resource_def)
  have paths: "distinct (list_paths demo_access)" "''acc'' \<notin> set (list_paths demo_access)"
    by (simp_all add: list_paths_def grant_name_def deny_name_def list_name_def demo_access_sel resource_def)
  have t: "list_text True (accounts ''acc'' demo_access) 0 demo_access = ''ann'' @ [CHR 0x0A]"
    "list_text False (accounts ''acc'' demo_access) 0 demo_access = ''bob'' @ [CHR 0x0A]"
    using demo_open
    by (simp_all add: list_text_def demo_access_ready(2) demo_access_sel upt_rec) (simp_all add: demo_link_def line_of_def)
  have n: "int (length (accounts ''acc'' demo_access)) < 2 ^ 31" by (simp add: demo_access_ready(2))
  show ?thesis
    using access_lists_split[OF demo_access_ready(1) paths n, of 0]
    by (fastforce simp: names t[unfolded list_text_gates] has_count_def Let_def)
qed

end
