(* ===== verification/Ipc.thy ===== *)
theory Ipc
  imports Access
begin

text \<open>
  The line protocol between the billing and its clients (\<open>src/src/bee/lib/ipc/ipc.c\<close>): sending and
  receiving lines over a socket or the terminal, and waiting for a decisive answer.  The
  connection is part of the state: the bytes that will still arrive, and the bytes sent.  What
  sets a connection up (sockets and processes) is outside the model.
\<close>

record ipc = access +
  ld_fStdio :: bool
  inbox :: string
  outbox :: string
  c_stray :: "string \<Rightarrow> string"

abbreviation (input) LINK_DOWN :: int where "LINK_DOWN \<equiv> - 1"
abbreviation (input) LINK_ERROR :: int where "LINK_ERROR \<equiv> - 2"

definition CRLF :: string where "CRLF = [CHR 0x0D, CHR 0x0A]"

section \<open>Sending\<close>

definition sys_send :: "string \<Rightarrow> 'a ipc_scheme \<Rightarrow> int \<times> 'a ipc_scheme" where
  "sys_send s w = (case next_outcome w of (x, w) \<Rightarrow>
     if x = Fail then (- 1, w)
     else (let put = (case x of Short k \<Rightarrow> take k s | _ \<Rightarrow> s)
           in (int (length put), w\<lparr>outbox := outbox w @ put\<rparr>)))"

text \<open>
  The text is itself the format of \<open>vsnprintf\<close>: \<open>c_stray\<close> is what the C library makes of a text with
  a directive, for which no argument is passed (this is undefined; the model takes it to yield
  some text).  A result of \<open>send\<close> is compared with an unsigned length, so that -1 counts as sent.
\<close>

definition stray_text :: "string \<Rightarrow> 'a ipc_scheme \<Rightarrow> string" where
  "stray_text s w = (if CHR ''%'' \<in> set s then c_stray w s else s)"

definition send_line :: "string \<Rightarrow> 'a ipc_scheme \<Rightarrow> int \<times> 'a ipc_scheme" where
  "send_line s w =
     (if ld_fStdio w then (0, w\<lparr>outbox := outbox w @ s @ CRLF\<rparr>)
      else (let buf = strlcpy s 128
            in case sys_send buf w of (rc, w) \<Rightarrow>
               if rc < 0 \<or> rc \<ge> int (length buf)
               then (case sys_send CRLF w of (rc, w) \<Rightarrow>
                 if rc = - 1 then (LINK_ERROR, w) else if rc < 2 then (LINK_DOWN, w) else (SUCCESS, w))
               else (LINK_DOWN, w)))"

definition link_puts :: "string \<Rightarrow> 'a ipc_scheme \<Rightarrow> int \<times> 'a ipc_scheme" where
  "link_puts s w = send_line (stray_text s w) w"

section \<open>Receiving\<close>

text \<open>One character: -1 an error, 0 the end of the connection.\<close>

definition sys_recv1 :: "'a ipc_scheme \<Rightarrow> int \<times> char option \<times> 'a ipc_scheme" where
  "sys_recv1 w =
     (if ld_fStdio w
      then (case inbox w of [] \<Rightarrow> (0, None, w) | c # r \<Rightarrow> (1, Some c, w\<lparr>inbox := r\<rparr>))
      else (case next_outcome w of (x, w) \<Rightarrow>
        if x = Fail then (- 1, None, w)
        else (case inbox w of [] \<Rightarrow> (0, None, w) | c # r \<Rightarrow> (1, Some c, w\<lparr>inbox := r\<rparr>))))"

lemma recv1_inbox: "sys_recv1 w = (n, Some c, w') \<Longrightarrow> inbox w = c # inbox w'"
proof -
  assume a: "sys_recv1 w = (n, Some c, w')"
  have "inbox (snd (next_outcome w)) = inbox w"
    by (auto simp: next_outcome_def split: list.splits)
  then show ?thesis using a
    by (auto simp: sys_recv1_def split: if_splits list.splits prod.splits)
qed

text \<open>The loop of \<open>link_gets\<close>; the characters stored so far.\<close>

function link_gets_loop :: "int \<Rightarrow> string \<Rightarrow> 'a ipc_scheme \<Rightarrow> int \<times> string \<times> 'a ipc_scheme" where
  "link_gets_loop len buf w = (let r = sys_recv1 w
     in case fst (snd r) of
          None \<Rightarrow> (if fst r = - 1 then LINK_ERROR else LINK_DOWN, buf, snd (snd r))
        | Some c \<Rightarrow>
            (let buf = (if c = CHR 0x0D \<or> c = CHR 0x0A \<or> int (length buf) \<ge> len - 1 then buf else buf @ [c])
             in if c = CHR 0x0A then (0, buf, snd (snd r)) else link_gets_loop len buf (snd (snd r))))"
  by pat_completeness auto

termination
proof (relation "measure (\<lambda>(_, _, w). length (inbox w))", simp)
  fix len :: int and buf :: string and w :: "'a ipc_scheme" and r c buf2
  assume "r = sys_recv1 w" "fst (snd r) = Some c"
  then show "((len, buf2, snd (snd r)), len, buf, w) \<in> measure (\<lambda>(_, _, w). length (inbox w))"
    using recv1_inbox[of w "fst r" c "snd (snd r)"] by (cases "sys_recv1 w") auto
qed

declare link_gets_loop.simps [simp del]

definition link_gets :: "int \<Rightarrow> 'a ipc_scheme \<Rightarrow> int \<times> string \<times> 'a ipc_scheme" where
  "link_gets len w = link_gets_loop len [] w"

lemma link_gets_loop_inbox:
  "link_gets_loop len buf w = (rc, s, w') \<Longrightarrow> rc = 0 \<Longrightarrow> length (inbox w') < length (inbox w)"
proof (induction len buf w rule: link_gets_loop.induct)
  case (1 len buf w)
  obtain n x v where r: "sys_recv1 w = (n, x, v)" by (metis prod_cases3)
  show ?case
  proof (cases x)
    case None
    then show ?thesis using "1.prems" r by (subst (asm) link_gets_loop.simps) (auto simp: Let_def split: if_splits)
  next
    case (Some c)
    then have i: "inbox w = c # inbox v" using recv1_inbox r by blast
    show ?thesis
    proof (cases "c = CHR 0x0A")
      case True
      then show ?thesis using "1.prems" r Some i by (subst (asm) link_gets_loop.simps) (auto simp: Let_def)
    next
      case False
      let ?b = "if c = CHR 0x0D \<or> c = CHR 0x0A \<or> int (length buf) \<ge> len - 1 then buf else buf @ [c]"
      have "link_gets_loop len ?b v = (rc, s, w')"
        using "1.prems" r Some False by (subst (asm) link_gets_loop.simps) (simp add: Let_def)
      from "1.IH"[of "(n, x, v)" c ?b] this r Some False "1.prems"(2) i show ?thesis by auto
    qed
  qed
qed

lemma link_gets_loop_rc: "fst (link_gets_loop len buf w) \<in> {0, LINK_DOWN, LINK_ERROR}"
  by (induction len buf w rule: link_gets_loop.induct)
     (subst link_gets_loop.simps, auto simp: Let_def split: option.splits)

lemma link_gets_rc: "fst (link_gets len w) \<in> {0, LINK_DOWN, LINK_ERROR}"
  unfolding link_gets_def by (rule link_gets_loop_rc)

text \<open>
  \<open>answait\<close>: lines are read until one begins with 0, an error code or the number awaited; the
  code and the rest of the line.
\<close>

function answait_loop :: "int \<Rightarrow> int \<Rightarrow> int \<Rightarrow> 'a ipc_scheme \<Rightarrow> int \<times> string option \<times> 'a ipc_scheme" where
  "answait_loop event sz xerrno w = (let r = link_gets sz w
     in if fst r < 0 then (fst r, None, snd (snd r))
        else (let t = next_token (Some (fst (snd r))) [CHR '' '', CHR 0x0A, CHR 0x09];
                  xerrno = (case fst t of None \<Rightarrow> xerrno | Some str \<Rightarrow> atol str)
              in if xerrno \<noteq> 0 \<and> xerrno < 400 \<and> xerrno \<noteq> event
                 then answait_loop event sz xerrno (snd (snd r))
                 else (xerrno, snd t, snd (snd r))))"
  by pat_completeness auto

termination
proof (relation "measure (\<lambda>(_, _, _, w). length (inbox w))", simp)
  fix event sz xerrno x2 :: int and w :: "'a ipc_scheme" and r t
  assume a: "r = link_gets sz w" "\<not> fst r < 0"
  obtain rc s w' where r: "link_gets sz w = (rc, s, w')" by (metis prod_cases3)
  have "rc = 0" using r a link_gets_rc[of sz w] by auto
  then show "((event, sz, x2, snd (snd r)), event, sz, xerrno, w) \<in> measure (\<lambda>(_, _, _, w). length (inbox w))"
    using link_gets_loop_inbox[of sz "[]" w rc s w'] r a by (simp add: link_gets_def)
qed

declare answait_loop.simps [simp del]

definition answait :: "int \<Rightarrow> int \<Rightarrow> 'a ipc_scheme \<Rightarrow> int \<times> string option \<times> 'a ipc_scheme" where
  "answait event sz w = answait_loop event sz (- 1) w"

section \<open>Lines that arrive\<close>

lemma recv1_nf: "no_faults w \<Longrightarrow> inbox w = c # r \<Longrightarrow> sys_recv1 w = (1, Some c, w\<lparr>inbox := r\<rparr>)"
  by (simp add: sys_recv1_def next_outcome_no_faults)

lemma no_faults_inbox [simp]: "no_faults (w\<lparr>inbox := x\<rparr>) = no_faults w"
  by (simp add: no_faults_def)

lemma gets_loop_line:
  assumes "no_faults w" "inbox w = s @ CRLF @ rest" "CHR 0x0D \<notin> set s" "CHR 0x0A \<notin> set s"
  shows "link_gets_loop len buf w = (0, buf @ take (nat (len - 1) - length buf) s, w\<lparr>inbox := rest\<rparr>)"
  using assms
proof (induction s arbitrary: buf w)
  case Nil
  then have r: "sys_recv1 w = (1, Some (CHR 0x0D), w\<lparr>inbox := CHR 0x0A # rest\<rparr>)"
    by (intro recv1_nf) (simp_all add: CRLF_def)
  have r2: "sys_recv1 (w\<lparr>inbox := CHR 0x0A # rest\<rparr>) = (1, Some (CHR 0x0A), w\<lparr>inbox := rest\<rparr>)"
    using Nil by (subst recv1_nf) simp_all
  show ?case
    by (subst link_gets_loop.simps, subst link_gets_loop.simps) (simp add: r r2)
next
  case (Cons c s)
  have r: "sys_recv1 w = (1, Some c, w\<lparr>inbox := s @ CRLF @ rest\<rparr>)"
    using Cons.prems by (intro recv1_nf) simp_all
  have c: "c \<noteq> CHR 0x0D" "c \<noteq> CHR 0x0A" using Cons.prems by auto
  let ?v = "w\<lparr>inbox := s @ CRLF @ rest\<rparr>"
  have ih: "link_gets_loop len b ?v = (0, b @ take (nat (len - 1) - length b) s, w\<lparr>inbox := rest\<rparr>)" for b
    using Cons.IH[of ?v b] Cons.prems by simp
  show ?case
  proof (cases "int (length buf) \<ge> len - 1")
    case True
    then show ?thesis by (subst link_gets_loop.simps) (simp add: r c ih)
  next
    case False
    then have "nat (len - 1) - length buf = Suc (nat (len - 1) - Suc (length buf))" by simp
    with False show ?thesis by (subst link_gets_loop.simps) (simp add: r c ih)
  qed
qed

text \<open>A line: no carriage return, no newline.\<close>

definition is_line :: "string \<Rightarrow> bool" where
  "is_line s \<longleftrightarrow> CHR 0x0D \<notin> set s \<and> CHR 0x0A \<notin> set s"

lemma gets_line:
  "no_faults w \<Longrightarrow> inbox w = s @ CRLF @ rest \<Longrightarrow> is_line s \<Longrightarrow> int (length s) < len \<Longrightarrow>
     link_gets len w = (0, s, w\<lparr>inbox := rest\<rparr>)"
  by (simp add: link_gets_def is_line_def gets_loop_line)

lemma puts_line:
  assumes "no_faults w" "CHR ''%'' \<notin> set s" "ld_fStdio w \<or> length s < 128"
  shows "link_puts s w = (0, w\<lparr>outbox := outbox w @ s @ CRLF\<rparr>)"
proof (cases "ld_fStdio w")
  case True
  then show ?thesis using assms by (simp add: link_puts_def send_line_def stray_text_def)
next
  case False
  then have "strlcpy s 128 = s" using assms(3) by (simp add: strlcpy_def)
  moreover have "next_outcome (w\<lparr>outbox := x\<rparr>) = (Done, w\<lparr>outbox := x\<rparr>)" for x
    using assms(1) by (simp add: next_outcome_no_faults no_faults_def)
  ultimately show ?thesis using assms False
    by (simp add: link_puts_def send_line_def stray_text_def sys_send_def next_outcome_no_faults CRLF_def)
qed

text \<open>
  A line without a percent sign that fits the buffers arrives as it was sent: \<open>link_puts\<close>
  succeeds and sends the text and an end of line, of which \<open>link_gets\<close> makes the text again.\<close>

lemma line_roundtrip:
  assumes "no_faults w" "no_faults v" "is_line s" "CHR ''%'' \<notin> set s"
    and "length s < 128" "int (length s) < len"
  shows "link_puts s w = (0, w\<lparr>outbox := outbox w @ s @ CRLF\<rparr>) \<and>
    link_gets len (v\<lparr>inbox := s @ CRLF @ rest\<rparr>) = (0, s, v\<lparr>inbox := rest\<rparr>)"
  using puts_line[of w s] gets_line[of "v\<lparr>inbox := s @ CRLF @ rest\<rparr>" s rest len] assms by simp

text \<open>The number a line begins with, and what follows it.\<close>

definition answer_code :: "string \<Rightarrow> int option" where
  "answer_code l = map_option atol (fst (next_token (Some l) [CHR '' '', CHR 0x0A, CHR 0x09]))"

definition answer_text :: "string \<Rightarrow> string option" where
  "answer_text l = snd (next_token (Some l) [CHR '' '', CHR 0x0A, CHR 0x09])"

definition undecided :: "int \<Rightarrow> int \<Rightarrow> bool" where
  "undecided event c \<longleftrightarrow> c \<noteq> 0 \<and> c < 400 \<and> c \<noteq> event"

lemma answait_step:
  assumes "no_faults v" "inbox v = l @ CRLF @ rest" "is_line l" "int (length l) < sz"
  shows "answait_loop event sz x v =
     (let x = (case answer_code l of None \<Rightarrow> x | Some c \<Rightarrow> c)
      in if undecided event x then answait_loop event sz x (v\<lparr>inbox := rest\<rparr>)
         else (x, answer_text l, v\<lparr>inbox := rest\<rparr>))"
  by (subst answait_loop.simps)
     (simp add: gets_line[OF assms] answer_code_def answer_text_def undecided_def Let_def
       del: next_token.simps split: option.split, auto simp del: next_token.simps)

lemma answait_skips:
  assumes "no_faults v" "inbox v = concat (map (\<lambda>l. l @ CRLF) ls) @ l @ CRLF @ rest"
    and "\<forall>l \<in> set (ls @ [l]). is_line l \<and> int (length l) < sz"
    and "\<forall>l \<in> set ls. \<forall>c. answer_code l = Some c \<longrightarrow> undecided event c"
    and "answer_code l = Some c" "\<not> undecided event c" "undecided event x"
  shows "answait_loop event sz x v = (c, answer_text l, v\<lparr>inbox := rest\<rparr>)"
  using assms
proof (induction ls arbitrary: x v)
  case Nil
  then show ?case by (simp add: answait_step[where l = l and rest = rest] Let_def)
next
  case (Cons k ls)
  let ?x = "case answer_code k of None \<Rightarrow> x | Some c \<Rightarrow> c"
  let ?rest = "concat (map (\<lambda>l. l @ CRLF) ls) @ l @ CRLF @ rest"
  have u: "undecided event ?x" using Cons.prems(4,7) by (auto split: option.split)
  have "answait_loop event sz x v = answait_loop event sz ?x (v\<lparr>inbox := ?rest\<rparr>)"
    using Cons.prems(1-3) u by (subst answait_step[where l = k and rest = ?rest]) (auto simp: Let_def)
  also have "\<dots> = (c, answer_text l, v\<lparr>inbox := ?rest, inbox := rest\<rparr>)"
    by (rule Cons.IH) (use Cons.prems u in auto)
  finally show ?case by simp
qed

text \<open>
  A client that waits for an answer gets the first decisive one: lines without a number or with
  a code that is neither 0 nor an error nor the one awaited are skipped, however many there are.\<close>

lemma answait_decides:
  assumes "no_faults v" "inbox v = concat (map (\<lambda>l. l @ CRLF) ls) @ l @ CRLF @ rest"
    and "\<forall>l \<in> set (ls @ [l]). is_line l \<and> int (length l) < sz"
    and "\<forall>l \<in> set ls. \<forall>c. answer_code l = Some c \<longrightarrow> undecided event c"
    and "answer_code l = Some c" "\<not> undecided event c" "0 \<le> event"
  shows "answait event sz v = (c, answer_text l, v\<lparr>inbox := rest\<rparr>)"
  unfolding answait_def using assms(7)
  by (intro answait_skips[OF assms(1-6)]) (simp add: undecided_def)

definition demo_ipc :: ipc where
  "demo_ipc = access.extend demo_access (ipc.fields False [] [] (\<lambda>s. s))"

lemma demo_ipc_nf: "no_faults demo_ipc" "ld_fStdio demo_ipc = False" "outbox demo_ipc = []"
  by (simp_all add: demo_ipc_def access.defs ipc.defs no_faults_def demo_access_sel) (use demo_ready in \<open>simp_all add: bee_ready_def acc_ready_def file_ready_def no_faults_def\<close>)

lemma line_roundtrip_witness:
  "outbox (snd (link_puts ''000 Ready'' demo_ipc)) = ''000 Ready'' @ CRLF \<and>
     fst (snd (link_gets 128 (demo_ipc\<lparr>inbox := ''000 Ready'' @ CRLF\<rparr>))) = ''000 Ready''"
  using line_roundtrip[of demo_ipc demo_ipc "''000 Ready''" 128 "[]"]
  by (simp add: demo_ipc_nf is_line_def)

lemma answait_decides_witness:
  "\<exists>v'. answait 1 128 (demo_ipc\<lparr>inbox := ''100 ok'' @ CRLF @ ''403 No'' @ CRLF\<rparr>) = (403, Some ''No'', v')"
proof -
  have "answer_code ''100 ok'' = Some 100" "answer_code ''403 No'' = Some 403" "answer_text ''403 No'' = Some ''No''"
    by (simp_all add: answer_code_def answer_text_def strtol_def scan_int_def scan_sign_def is_digit_def digit_val_def isspace_def)
  then show ?thesis
    using answait_decides[of "demo_ipc\<lparr>inbox := ''100 ok'' @ CRLF @ ''403 No'' @ CRLF\<rparr>" "[''100 ok'']" "''403 No''" "[]" 128 1 403]
    by (simp add: demo_ipc_nf is_line_def undecided_def)
qed

end
