(* ===== verification/Printf.thy ===== *)
theory Printf
  imports Double Strings
begin

text \<open>
  The texts of numbers that the commands print: \<open>printf\<close> with the directives of the sources (\<open>%d %u %x %X %s %f %e %g\<close> with flags, width, precision and \<open>ll\<close>).  It rounds exactly, as the C library of the target does.  A text longer than a buffer is cut
  by the callers, which know the size.
\<close>

datatype arg = AI int | AS string | AD double

section \<open>Fields\<close>

text \<open>A converted text with its sign, padded to the width.\<close>

definition pad_field :: "string \<Rightarrow> nat \<Rightarrow> string \<Rightarrow> string \<Rightarrow> string" where
  "pad_field flags width sg body =
     (let n = width - length (sg @ body)
      in if CHR ''-'' \<in> set flags then sg @ body @ replicate n (CHR '' '')
         else if CHR ''0'' \<in> set flags then sg @ replicate n (CHR ''0'') @ body
         else replicate n (CHR '' '') @ sg @ body)"

definition sign_text :: "string \<Rightarrow> bool \<Rightarrow> string" where
  "sign_text flags neg =
     (if neg then ''-'' else if CHR ''+'' \<in> set flags then ''+'' else if CHR '' '' \<in> set flags then '' '' else [])"

fun hex_nat :: "nat \<Rightarrow> string" where
  "hex_nat n = (if n < 16 then [''0123456789ABCDEF'' ! n] else hex_nat (n div 16) @ [''0123456789ABCDEF'' ! (n mod 16)])"

declare hex_nat.simps [simp del]

section \<open>Doubles\<close>

text \<open>A finite double as a fraction.\<close>

definition frac_of :: "nat \<Rightarrow> int \<Rightarrow> nat \<times> nat" where
  "frac_of m e = (if 0 \<le> e then (m * 2 ^ nat e, 1) else (m, 2 ^ nat (- e)))"

text \<open>\<open>q / 10 ^ p\<close> with \<open>p\<close> digits after the point.\<close>

definition point_text :: "nat \<Rightarrow> nat \<Rightarrow> string" where
  "point_text p q = dec_nat (q div 10 ^ p) @
     (if p = 0 then [] else (let f = dec_nat (q mod 10 ^ p) in CHR ''.'' # replicate (p - length f) (CHR ''0'') @ f))"

definition fixed_text :: "nat \<Rightarrow> nat \<Rightarrow> int \<Rightarrow> string" where
  "fixed_text p m e = (case frac_of m e of (n, d) \<Rightarrow> point_text p (round_even (n * 10 ^ p) d))"

text \<open>The exponent \<open>k\<close> with \<open>10 ^ k \<le> n / d < 10 ^ (k + 1)\<close>.\<close>

definition exp10 :: "nat \<Rightarrow> nat \<Rightarrow> int" where
  "exp10 n d = (if d \<le> n then int (length (dec_nat (n div d))) - 1
                else - int (length (dec_nat ((d + n - 1) div n - 1))))"

text \<open>The \<open>p + 1\<close> leading digits, rounded, and the exponent.\<close>

definition leading :: "nat \<Rightarrow> nat \<Rightarrow> int \<Rightarrow> nat \<times> int" where
  "leading p m e =
     (if m = 0 then (0, 0)
      else (case frac_of m e of (n, d) \<Rightarrow>
        let k = exp10 n d;
            q = (if k \<le> int p then round_even (n * 10 ^ nat (int p - k)) d else round_even n (d * 10 ^ nat (k - int p)))
        in if q = 10 ^ (p + 1) then (10 ^ p, k + 1) else (q, k)))"

definition exp_text :: "nat \<Rightarrow> nat \<Rightarrow> int \<Rightarrow> string" where
  "exp_text p m e = (case leading p m e of (q, k) \<Rightarrow>
     point_text p q @ ''e'' @ (if k < 0 then ''-'' else ''+'') @
       (let x = dec_nat (nat \<bar>k\<bar>) in replicate (2 - length x) (CHR ''0'') @ x))"

definition strip_zeros :: "string \<Rightarrow> string" where
  "strip_zeros s =
     (if CHR ''.'' \<in> set s
      then (let t = rev (dropWhile (\<lambda>c. c = CHR ''0'') (rev s))
            in if t \<noteq> [] \<and> last t = CHR ''.'' then butlast t else t)
      else s)"

definition general_text :: "nat \<Rightarrow> nat \<Rightarrow> int \<Rightarrow> string" where
  "general_text p m e = (case leading (p - 1) m e of (q, k) \<Rightarrow>
     if - 4 \<le> k \<and> k < int p then strip_zeros (fixed_text (nat (int p - 1 - k)) m e)
     else (let s = exp_text (p - 1) m e; n = length (takeWhile (\<lambda>c. c \<noteq> CHR ''e'') s)
           in strip_zeros (take n s) @ drop n s))"

definition conv_double :: "string \<Rightarrow> nat \<Rightarrow> nat option \<Rightarrow> char \<Rightarrow> double \<Rightarrow> string" where
  "conv_double flags width prec k a = (case fdecode a of
      FNaN \<Rightarrow> pad_field (removeAll (CHR ''0'') flags) width [] ''nan''
    | FInf s \<Rightarrow> pad_field (removeAll (CHR ''0'') flags) width (sign_text flags s) ''inf''
    | FFin s m e \<Rightarrow> (let p = (case prec of None \<Rightarrow> 6 | Some p \<Rightarrow> p)
        in pad_field flags width (sign_text flags s)
             (if k = CHR ''f'' then fixed_text p m e
              else if k = CHR ''e'' then exp_text p m e
              else general_text (max p 1) m e)))"

section \<open>The interpreter of formats\<close>

text \<open>Flags, width, precision and the number of \<open>l\<close> modifiers of a directive, and what follows.\<close>

definition directive :: "string \<Rightarrow> string \<times> nat \<times> nat option \<times> nat \<times> string" where
  "directive s =
     (let fl = takeWhile (\<lambda>c. c \<in> set ''-+ 0'') s;
          s1 = drop (length fl) s;
          w = takeWhile (is_digit 10) s1;
          s2 = drop (length w) s1;
          dot = (s2 \<noteq> [] \<and> hd s2 = CHR ''.'');
          p = (if dot then takeWhile (is_digit 10) (drop 1 s2) else []);
          s3 = (if dot then drop (1 + length p) s2 else s2);
          l = takeWhile (\<lambda>c. c = CHR ''l'') s3
      in (fl, fst (scan_digits 10 w 0), if dot then Some (fst (scan_digits 10 p 0)) else None, length l, drop (length l) s3))"

definition convert :: "string \<Rightarrow> nat \<Rightarrow> nat option \<Rightarrow> nat \<Rightarrow> char \<Rightarrow> arg \<Rightarrow> string" where
  "convert flags width prec l k a = (case a of
      AI i \<Rightarrow>
        (if k = CHR ''d''
         then (let v = (if 2 \<le> l then i64 i else i32 i)
               in pad_field flags width (sign_text flags (v < 0)) (dec_nat (nat \<bar>v\<bar>)))
         else (let v = nat (if 2 \<le> l then i mod 2 ^ 64 else i mod 2 ^ 32)
               in pad_field flags width [] (if k = CHR ''X'' then hex_nat v else if k = CHR ''x'' then map tolower (hex_nat v) else dec_nat v)))
    | AS s \<Rightarrow> pad_field flags width [] (case prec of None \<Rightarrow> s | Some p \<Rightarrow> take p s)
    | AD d \<Rightarrow> conv_double flags width prec k d)"

lemma directive_length: "length (snd (snd (snd (snd (directive s))))) \<le> length s"
  unfolding directive_def Let_def snd_conv by (simp split: if_split)

function printf :: "string \<Rightarrow> arg list \<Rightarrow> string" where
  "printf [] args = []"
| "printf (c # s) args =
     (if c \<noteq> CHR ''%'' then c # printf s args
      else (let d = directive s; r = snd (snd (snd (snd d)))
            in if r = [] then []
               else if hd r = CHR ''%'' then CHR ''%'' # printf (tl r) args
               else if args = [] then []
               else convert (fst d) (fst (snd d)) (fst (snd (snd d))) (fst (snd (snd (snd d)))) (hd r) (hd args) @
                    printf (tl r) (tl args)))"
  by pat_completeness auto
termination
  by (relation "measure (\<lambda>(s, _). length s)")
     (auto simp: less_Suc_eq_le intro!: le_trans[OF diff_le_self directive_length])

declare printf.simps [simp del]

text \<open>\<open>snprintf(buf, size, fmt, ...)\<close>: what the buffer holds afterwards.\<close>

definition snprintf :: "nat \<Rightarrow> string \<Rightarrow> arg list \<Rightarrow> string" where
  "snprintf n fmt args = strlcpy (printf fmt args) n"

end
