(* ===== verification/Output.thy ===== *)
theory Output
  imports Ipc Printf
begin

text \<open>
  A session of the billing (\<open>src/src/bee/core/core.c\<close>, \<open>core.h\<close>) and how its commands answer
  (\<open>command.c\<close>: \<open>cmd_out\<close>, \<open>cmd_out_begin\<close> to \<open>cmd_out_abort\<close>, \<open>acc_state_out\<close>, \<open>cmd_preprocess\<close>
  and the printing of times).  The handlers of the commands share the vocabulary of this theory.
\<close>

record session = ipc +
  Accbase :: accbase
  Logbase :: logbase
  NeedUpdate :: int
  HumanRead :: int
  MachineRead :: int
  QuietMode :: int
  ResOn :: int
  DumpQuery :: int
  SessionPerm :: int
  SessionLastAcc :: int
  out_buf :: string
  out_ind :: int
  out_err :: int
  peer_addr :: "u32 option"
  c_ctime :: "int \<Rightarrow> string"
  conf_intrascript :: string
  c_popen :: "string \<Rightarrow> string option"
  db_up :: bool
  sql_answers :: "string list list option list"
  sql_log :: "string list"
  qlist :: "(string \<times> string) list"
  c_strescape :: "string \<Rightarrow> nat \<Rightarrow> string option"
  c_random :: "nat \<Rightarrow> u32"
  rnd :: nat
  outtab_rows :: "string option list list"
  outtab_widths :: "int list"

abbreviation (input) CMD_EXIT :: int where "CMD_EXIT \<equiv> - 101"
abbreviation (input) RET_SUCCESS :: int where "RET_SUCCESS \<equiv> 0"
abbreviation (input) RET_STR :: int where "RET_STR \<equiv> 1"
abbreviation (input) RET_INT :: int where "RET_INT \<equiv> 2"
abbreviation (input) RET_BIN :: int where "RET_BIN \<equiv> 3"
abbreviation (input) RET_TEXT :: int where "RET_TEXT \<equiv> 99"
abbreviation (input) RET_COMMENT :: int where "RET_COMMENT \<equiv> 100"
abbreviation (input) ERR_ACCESS :: int where "ERR_ACCESS \<equiv> 400"
abbreviation (input) ERR_INVCMD :: int where "ERR_INVCMD \<equiv> 401"
abbreviation (input) ERR_NOTIMPL :: int where "ERR_NOTIMPL \<equiv> 402"
abbreviation (input) ERR_ARGCOUNT :: int where "ERR_ARGCOUNT \<equiv> 403"
abbreviation (input) ERR_INVARG :: int where "ERR_INVARG \<equiv> 404"
abbreviation (input) ERR_IOERROR :: int where "ERR_IOERROR \<equiv> 405"
abbreviation (input) ERR_NOACC :: int where "ERR_NOACC \<equiv> 406"
abbreviation (input) ERR_SYSTEM :: int where "ERR_SYSTEM \<equiv> 407"

definition CMD_DELIM :: string where
  "CMD_DELIM = [CHR '' '', CHR 0x09, CHR 0x0A, CHR 0x0D]"

text \<open>A position of the buffers the commands are parsed in, and the result of a handler: \<open>None\<close> is a
  run-time error of the program (a null pointer, a write behind a buffer).\<close>

type_synonym ptr = "string option"
type_synonym 'a reply = "(int \<times> 'a session_scheme) option"

section \<open>Single lines\<close>

definition errmsg :: "string list" where
  "errmsg = [''Access Denied'', ''Unknown command'', ''Command not implemented'', ''Incorrect argument count'',
     ''Invalid argument'', ''I/O Error'', ''Account not found'', ''System error'']"

definition errmsgcnt :: int where "errmsgcnt = 8"

text \<open>The text of an answer: the code and the formatted text, or the message of the code.\<close>

definition default_text :: "int \<Rightarrow> string" where
  "default_text err =
     (if 399 < err \<and> err < 400 + errmsgcnt then errmsg ! nat (err - 400)
      else if err = 0 then ''Success'' else [])"

definition answer_line :: "int \<Rightarrow> string option \<Rightarrow> arg list \<Rightarrow> string" where
  "answer_line err format args =
     (let head = snprintf 256 ''%03d '' [AI err]
      in head @ (case format of
           Some f \<Rightarrow> snprintf (256 - length head) f args
         | None \<Rightarrow> snprintf (256 - length head) ''%s'' [AS (default_text err)]))"

definition suppressed :: "int \<Rightarrow> 'a session_scheme \<Rightarrow> bool" where
  "suppressed err w \<longleftrightarrow> err = RET_COMMENT \<and> HumanRead w = 0 \<or>
     (err = RET_STR \<or> err = RET_INT \<or> err = RET_BIN) \<and> MachineRead w = 0"

definition cmd_out :: "int \<Rightarrow> string option \<Rightarrow> arg list \<Rightarrow> 'a session_scheme \<Rightarrow> int \<times> 'a session_scheme" where
  "cmd_out err format args w =
     (if suppressed err w then (0, w)
      else if QuietMode w \<noteq> 0 \<and> err < 400 then (0, w)
      else link_puts (answer_line err format args) w)"

text \<open>An answer whose result is not looked at, and one that is the result of the handler.\<close>

definition say :: "int \<Rightarrow> string \<Rightarrow> arg list \<Rightarrow> 'a session_scheme \<Rightarrow> 'a session_scheme" where
  "say err format args w = snd (cmd_out err (Some format) args w)"

definition ret :: "int \<Rightarrow> string option \<Rightarrow> arg list \<Rightarrow> 'a session_scheme \<Rightarrow> 'a reply" where
  "ret err format args w = Some (cmd_out err format args w)"

section \<open>Lines in parts\<close>

definition cmd_out_begin :: "int \<Rightarrow> 'a session_scheme \<Rightarrow> int \<times> 'a session_scheme" where
  "cmd_out_begin err w =
     (let s = printf ''%03d '' [AI err]
      in (0, w\<lparr>out_buf := strlcpy s 512, out_ind := int (length s), out_err := err\<rparr>))"

text \<open>
  The index advances by the length the text would have; behind the end of the buffer the size
  passed to \<open>vsnprintf\<close> becomes a huge unsigned number.
\<close>

definition cmd_out_add :: "string \<Rightarrow> arg list \<Rightarrow> 'a session_scheme \<Rightarrow> 'a session_scheme option" where
  "cmd_out_add format args w =
     (if out_ind w > 512 then None
      else (let s = printf format args
            in Some (w\<lparr>out_buf := take 511 (take (nat (out_ind w)) (out_buf w) @ s),
                       out_ind := out_ind w + int (length s)\<rparr>)))"

definition cmd_out_end :: "'a session_scheme \<Rightarrow> int \<times> 'a session_scheme" where
  "cmd_out_end w =
     (if out_ind w < 1 then (- 1, w\<lparr>out_ind := 0\<rparr>)
      else (let w = w\<lparr>out_ind := 0\<rparr>
            in if suppressed (out_err w) w then (0, w) else link_puts (out_buf w) w))"

definition cmd_out_abort :: "'a session_scheme \<Rightarrow> int \<times> 'a session_scheme" where
  "cmd_out_abort w = (0, w\<lparr>out_ind := 0\<rparr>)"

section \<open>Times\<close>

definition cmd_ptime :: "int \<Rightarrow> 'a session_scheme \<Rightarrow> string" where
  "cmd_ptime utc w = (let stm = c_localtime w utc
     in snprintf 12 ''%02d-%02d %02d:%02d'' [AI (tm_mday stm), AI (tm_mon stm + 1), AI (tm_hour stm), AI (tm_min stm)])"

definition cmd_pdate :: "int \<Rightarrow> 'a session_scheme \<Rightarrow> string" where
  "cmd_pdate tim w = (let stm = c_localtime w tim
     in snprintf 11 ''%02d:%02d:%04d'' [AI (tm_mday stm), AI (tm_mon stm + 1), AI (tm_year stm + 1900)])"

section \<open>The state of an account\<close>

definition acc_stat :: "string list" where
  "acc_stat = [''(EMPTY) '', ''(BROKEN)'', ''(FROZEN)'', ''(OFF)   '', ''(UNLIM) '', ''(VALID) '']"

text \<open>The loop over the tags: the mask, and the index of the lowest of the first five tags set.\<close>

fun tag_loop :: "u32 \<Rightarrow> nat list \<Rightarrow> string \<Rightarrow> nat \<Rightarrow> string \<times> nat" where
  "tag_loop tag [] m i = (m, i)"
| "tag_loop tag (b # bs) m i =
     (if tag AND push_bit b 1 \<noteq> 0 then tag_loop tag bs m (if i = 5 \<and> b < 5 then b else i)
      else tag_loop tag bs (m[7 - b := CHR ''-'']) i)"

definition acc_state_out :: "acc \<Rightarrow> 'a session_scheme \<Rightarrow> (int \<times> 'a session_scheme) option" where
  "acc_state_out acc w =
     (case tag_loop (a_tag acc) [0, 1, 2, 3, 4, 5, 6, 7] ''LRPUOFBD'' 5 of (m, i) \<Rightarrow>
      let w = snd (cmd_out_begin RET_COMMENT w);
          res = sint (a_res_balance acc);
          resmode = (a_tag acc AND ATAG_RES \<noteq> 0 \<and> res \<noteq> 0)
      in Option.bind (cmd_out_add ''#%04d  %s %s '' [AI (sint (a_accno acc)), AS m, AS (acc_stat ! i)] w) (\<lambda>w.
         Option.bind (if \<not> (resmode \<and> deq (a_balance acc) 0) then cmd_out_add ''%+10.2f '' [AD (a_balance acc)] w else Some w) (\<lambda>w.
         Option.bind (if resmode then cmd_out_add ''%+7lld Kb '' [AI (i64 (res + 512) sdiv 1024)] w else Some w) (\<lambda>w.
         Option.bind (if a_start acc \<noteq> 0 then cmd_out_add ''start %-10s '' [AS (cmd_pdate (sint (a_start acc)) w)] w else Some w) (\<lambda>w.
         Option.bind (if a_stop acc \<noteq> 0 then cmd_out_add ''stop %-10s '' [AS (cmd_pdate (sint (a_stop acc)) w)] w else Some w) (\<lambda>w.
         Option.bind (if a_tariff acc \<noteq> 0 then cmd_out_add ''tariff %d'' [AI (sint (a_tariff acc))] w else Some w) (\<lambda>w.
         Some (0, snd (cmd_out_end w)))))))))"

section \<open>The preprocessor of commands\<close>

text \<open>The part of a command before the next dollar sign and what follows it.\<close>

fun dollar :: "string \<Rightarrow> string \<times> string option" where
  "dollar [] = ([], None)"
| "dollar (c # s) = (if c = CHR ''$'' then ([], Some s) else (case dollar s of (a, r) \<Rightarrow> (c # a, r)))"

lemma dollar_length: "dollar s = (a, Some r) \<Longrightarrow> length r < length s"
  by (induction s arbitrary: a) (auto split: if_splits prod.splits)

definition LASTACC :: string where "LASTACC = ''LASTACC''"

function preprocess_loop :: "nat \<Rightarrow> int \<Rightarrow> string \<Rightarrow> string \<Rightarrow> string" where
  "preprocess_loop n lastacc p buf =
     (case dollar p of
        (a, None) \<Rightarrow> buf @ take (n - 1 - length buf) a
      | (a, Some str) \<Rightarrow>
         (let buf = buf @ take (n - length buf - 1) a
          in if take 7 str = LASTACC
             then preprocess_loop n lastacc (drop 7 str) (buf @ snprintf (n - length buf) ''%llu'' [AI lastacc])
             else preprocess_loop n lastacc str (buf @ snprintf (n - length buf) ''$'' [])))"
  by pat_completeness auto
termination
  by (relation "measure (\<lambda>(_, _, p, _). length p)")
     (auto dest!: dollar_length[OF sym] intro: le_less_trans[OF diff_le_self])

declare preprocess_loop.simps [simp del]

definition cmd_preprocess :: "ptr \<Rightarrow> int \<Rightarrow> 'a session_scheme \<Rightarrow> int \<times> string \<times> 'a session_scheme" where
  "cmd_preprocess cmd bufsize w = (case cmd of
      None \<Rightarrow> (- 1, [], w)
    | Some cmd \<Rightarrow>
        if bufsize < 1 then (- 1, [], w)
        else (let buf = preprocess_loop (nat bufsize) (SessionLastAcc w) cmd []
              in (0, buf, say RET_COMMENT ''command: \"%s\"'' [AS buf] w)))"

section \<open>What talking leaves alone\<close>

text \<open>
  \<open>calm P w w'\<close>: apart from what was said, the parameters of talking and the wish for an
  update, only files in \<open>P\<close> may differ.
\<close>

definition hush :: "'a session_scheme \<Rightarrow> 'a session_scheme" where
  "hush w = w\<lparr>outbox := [], out_buf := [], out_ind := 0, out_err := 0, NeedUpdate := 0,
     HumanRead := 0, MachineRead := 0, sql_answers := [], sql_log := [], rnd := 0, outtab_rows := [], outtab_widths := []\<rparr>"

definition calm :: "string set \<Rightarrow> 'a session_scheme \<Rightarrow> 'a session_scheme \<Rightarrow> bool" where
  "calm P w w' \<longleftrightarrow> quiet P (hush w) (hush w')"

lemma hush_simps [simp]:
  "files (hush w) = files w" "fdt (hush w) = fdt w" "script (hush w) = script w" "sqr (hush w) = sqr w"
  "clock (hush w) = clock w" "ticks (hush w) = ticks w" "zcrc32 (hush w) = zcrc32 w" "junk (hush w) = junk w"
  "nextfd (hush w) = nextfd w" "linktab (hush w) = linktab w" "Accbase (hush w) = Accbase w"
  "Logbase (hush w) = Logbase w" "tariffs_limit (hush w) = tariffs_limit w" "tariffs_inet (hush w) = tariffs_inet w"
  "c_localtime (hush w) = c_localtime w" "SessionPerm (hush w) = SessionPerm w" "db_up (hush w) = db_up w"
  "inbox (hush w) = inbox w" "SessionLastAcc (hush w) = SessionLastAcc w"
  "fd_lock (hush w) = fd_lock w" "fd_paths (hush w) = fd_paths w" "no_faults (hush w) = no_faults w"
  by (simp_all add: hush_def fd_lock_def fd_paths_def no_faults_def fun_eq_iff)

lemma hush_talk [simp]:
  "hush (w\<lparr>outbox := a\<rparr>) = hush w" "hush (w\<lparr>out_buf := b\<rparr>) = hush w" "hush (w\<lparr>out_ind := i\<rparr>) = hush w"
  "hush (w\<lparr>out_err := i\<rparr>) = hush w" "hush (w\<lparr>NeedUpdate := i\<rparr>) = hush w"
  "hush (w\<lparr>HumanRead := i\<rparr>) = hush w" "hush (w\<lparr>MachineRead := i\<rparr>) = hush w"
  "hush (w\<lparr>sql_answers := xs\<rparr>) = hush w" "hush (w\<lparr>sql_log := ys\<rparr>) = hush w" "hush (w\<lparr>rnd := n\<rparr>) = hush w"
  "hush (w\<lparr>outtab_rows := rs\<rparr>) = hush w" "hush (w\<lparr>outtab_widths := ws\<rparr>) = hush w"
  by (simp_all add: hush_def)

lemma quiet_calm: "quiet P w w' \<Longrightarrow> calm P w w'"
proof -
  assume q: "quiet P w w'"
  then have "dbs.more (hush w') = dbs.more (hush w)" by (cases w; cases w') (simp add: hush_def quiet_def)
  with q show ?thesis by (simp add: calm_def quiet_def)
qed

lemma calm_refl [simp, intro]: "calm P w w"
  by (simp add: calm_def)

lemma calm_hush: "hush w' = hush w \<Longrightarrow> calm P w w'"
  by (simp add: calm_def)

lemma calm_talk [simp]:
  "calm P w (v\<lparr>outbox := a\<rparr>) = calm P w v" "calm P w (v\<lparr>out_buf := b\<rparr>) = calm P w v"
  "calm P w (v\<lparr>out_ind := i\<rparr>) = calm P w v" "calm P w (v\<lparr>out_err := i\<rparr>) = calm P w v"
  "calm P w (v\<lparr>NeedUpdate := i\<rparr>) = calm P w v" "calm P w (v\<lparr>HumanRead := i\<rparr>) = calm P w v"
  "calm P w (v\<lparr>MachineRead := i\<rparr>) = calm P w v" "calm P w (v\<lparr>sql_answers := xs\<rparr>) = calm P w v"
  "calm P w (v\<lparr>sql_log := ys\<rparr>) = calm P w v" "calm P w (v\<lparr>rnd := n\<rparr>) = calm P w v"
  "calm P w (v\<lparr>outtab_rows := rs\<rparr>) = calm P w v" "calm P w (v\<lparr>outtab_widths := ws\<rparr>) = calm P w v"
  by (simp_all add: calm_def)

lemma calm_trans [trans]: "calm P w w1 \<Longrightarrow> calm P w1 w2 \<Longrightarrow> calm P w w2"
  unfolding calm_def by (rule quiet_trans)

lemma calm_mono: "calm P w w' \<Longrightarrow> P \<subseteq> Q \<Longrightarrow> calm Q w w'"
  unfolding calm_def by (rule quiet_mono)

lemma calm_simps:
  assumes "calm P w w'"
  shows "fd_lock w' fd = fd_lock w fd" "fd_paths w' fd = fd_paths w fd" "sqr w' = sqr w" "linktab w' = linktab w"
    "Accbase w' = Accbase w" "Logbase w' = Logbase w" "tariffs_limit w' = tariffs_limit w"
    "tariffs_inet w' = tariffs_inet w" "SessionPerm w' = SessionPerm w" "p \<notin> P \<Longrightarrow> files w' p = files w p"
    "db_up w' = db_up w" "inbox w' = inbox w"
proof -
  have q: "quiet P (hush w) (hush w')" using assms by (simp add: calm_def)
  show "fd_lock w' fd = fd_lock w fd" using quiet_lock[OF q, of fd] by simp
  show "fd_paths w' fd = fd_paths w fd" using quiet_paths[OF q, of fd] by simp
  have m: "dbs.more (hush w') = dbs.more (hush w)" using quiet_simps(5)[OF q] .
  then have "linktab (hush w') = linktab (hush w)" "Accbase (hush w') = Accbase (hush w)"
    "Logbase (hush w') = Logbase (hush w)" "tariffs_limit (hush w') = tariffs_limit (hush w)"
    "tariffs_inet (hush w') = tariffs_inet (hush w)" "SessionPerm (hush w') = SessionPerm (hush w)"
    "db_up (hush w') = db_up (hush w)" "inbox (hush w') = inbox (hush w)"
    by (cases "hush w"; cases "hush w'"; simp)+
  then show "linktab w' = linktab w" "Accbase w' = Accbase w" "Logbase w' = Logbase w"
    "tariffs_limit w' = tariffs_limit w" "tariffs_inet w' = tariffs_inet w" "SessionPerm w' = SessionPerm w"
    "db_up w' = db_up w" "inbox w' = inbox w" by simp_all
  show "sqr w' = sqr w" "p \<notin> P \<Longrightarrow> files w' p = files w p" using quiet_simps(1,7)[OF q] by simp_all
qed

lemma calm_outcome: "calm P w (snd (next_outcome w))"
  by (rule quiet_calm) (rule quiet_next_outcome)

lemma calm_send: "sys_send s w = (rc, w') \<Longrightarrow> calm P w w'"
  using calm_outcome[of P w]
  by (cases "next_outcome w") (auto simp: sys_send_def Let_def split: if_splits)

lemma calm_puts: "link_puts s w = (rc, w') \<Longrightarrow> calm P w w'"
  by (auto simp: link_puts_def send_line_def Let_def split: if_splits prod.splits
      dest!: calm_send[where P = P] intro: calm_trans calm_hush)

lemma calm_out: "cmd_out err f args w = (rc, w') \<Longrightarrow> calm P w w'"
  by (auto simp: cmd_out_def split: if_splits dest: calm_puts)

lemma calm_say [simp, intro]: "calm P w (say err f args w)"
  unfolding say_def using calm_out[of err "Some f" args w "fst (cmd_out err (Some f) args w)"] by simp

lemma calm_ret: "ret err f args w = Some (rc, w') \<Longrightarrow> calm P w w'"
  by (auto simp: ret_def dest: calm_out)

section \<open>Properties\<close>

text \<open>What the preprocessor is for: every \<open>$LASTACC\<close> stands for a number.\<close>

function expand :: "string \<Rightarrow> string \<Rightarrow> string" where
  "expand num [] = []"
| "expand num (c # s) =
     (if c = CHR ''$''
      then (if take 7 s = LASTACC then num @ expand num (drop 7 s) else c # expand num s)
      else c # expand num s)"
  by pat_completeness auto
termination by (relation "measure (\<lambda>(_, s). length s)") auto

lemma dollar_expand:
  "dollar p = (a, None) \<Longrightarrow> expand num p = a"
  "dollar p = (a, Some str) \<Longrightarrow> expand num p = a @ expand num (CHR ''$'' # str)"
  by (induction p arbitrary: a) (auto split: if_splits prod.splits)

lemma printf_llu: "printf ''%llu'' [AI x] = dec_nat (nat (x mod 2 ^ 64))"
  by (simp add: printf.simps directive_def convert_def pad_field_def is_digit_def digit_val_def)

lemma printf_dollar: "printf ''$'' [] = ''$''"
  by (simp add: printf.simps)

lemma preprocess_expand:
  assumes "length buf \<le> n - 1"
  shows "preprocess_loop n x p buf = buf @ take (n - 1 - length buf) (expand (dec_nat (nat (x mod 2 ^ 64))) p)"
  using assms
proof (induction n x p buf rule: preprocess_loop.induct)
  case (1 n x p buf)
  let ?num = "dec_nat (nat (x mod 2 ^ 64))"
  obtain a r where d: "dollar p = (a, r)" by fastforce
  show ?case
  proof (cases r)
    case None
    with d show ?thesis by (subst preprocess_loop.simps) (simp add: dollar_expand(1))
  next
    case (Some str)
    define b where "b = buf @ take (n - length buf - 1) a"
    have b: "length b \<le> n - 1" using "1.prems" by (simp add: b_def)
    have p: "expand ?num p = a @ expand ?num (CHR ''$'' # str)" using d Some by (simp add: dollar_expand(2))
    have join: "b @ take (n - 1 - length b) y = buf @ take (n - 1 - length buf) (a @ y)" for y
      using "1.prems" by (auto simp: b_def min_def)
    define e where "e = (if take 7 str = LASTACC then ?num else ''$'')"
    define rest where "rest = (if take 7 str = LASTACC then drop 7 str else str)"
    define b2 where "b2 = b @ take (n - length b - 1) e"
    have "preprocess_loop n x p buf =
        (if take 7 str = LASTACC then preprocess_loop n x (drop 7 str) (b @ snprintf (n - length b) ''%llu'' [AI x])
         else preprocess_loop n x str (b @ snprintf (n - length b) ''$'' []))"
      using d Some by (subst preprocess_loop.simps) (simp add: Let_def b_def)
    also have "\<dots> = preprocess_loop n x rest b2"
      by (simp add: snprintf_def strlcpy_def printf_llu printf_dollar b2_def e_def rest_def)
    also have "\<dots> = b2 @ take (n - 1 - length b2) (expand ?num rest)"
    proof -
      have l: "length b2 \<le> n - 1" using b by (simp add: b2_def)
      show ?thesis
      proof (cases "take 7 str = LASTACC")
        case True
        then have "rest = drop 7 str" "b2 = b @ snprintf (n - length b) ''%llu'' [AI x]"
          by (simp_all add: rest_def b2_def e_def snprintf_def strlcpy_def printf_llu)
        with "1.IH"(1)[OF d[symmetric] Some b_def True] l show ?thesis by simp
      next
        case False
        then have "rest = str" "b2 = b @ snprintf (n - length b) ''$'' []"
          by (simp_all add: rest_def b2_def e_def snprintf_def strlcpy_def printf_dollar)
        with "1.IH"(2)[OF d[symmetric] Some b_def False] l show ?thesis by simp
      qed
    qed
    also have "\<dots> = b @ take (n - 1 - length b) (e @ expand ?num rest)"
      using b by (auto simp: b2_def min_def)
    also have "e @ expand ?num rest = expand ?num (CHR ''$'' # str)" by (simp add: e_def rest_def)
    finally show ?thesis by (simp only: join p)
  qed
qed

text \<open>
  C20: The command preprocessor computes the command with every \<open>$LASTACC\<close> replaced by the
  number of the session, cut to the size of the buffer, and reports failure only without a command or a buffer.\<close>

theorem preprocess_substitutes:
  "case cmd_preprocess cmd bufsize w of (rc, buf, w') \<Rightarrow>
     if cmd = None \<or> bufsize < 1 then rc = - 1 \<and> w' = w
     else rc = 0 \<and> buf = strlcpy (expand (dec_nat (nat (SessionLastAcc w mod 2 ^ 64))) (the cmd)) (nat bufsize) \<and>
       int (length buf) < bufsize"
  using preprocess_expand[of "[]" "nat bufsize" "SessionLastAcc w" "the cmd"]
  by (auto simp: cmd_preprocess_def strlcpy_def Let_def split: option.splits)

section \<open>The buffer of an account line\<close>

lemma length_pad_field [simp]: "length (pad_field fl n sg b) = max n (length sg + length b)"
  by (auto simp: pad_field_def Let_def)

lemma length_sign_text: "length (sign_text fl neg) \<le> 1"
  by (simp add: sign_text_def)

lemma length_point_text:
  assumes "q < 10 ^ k * 10 ^ p" "0 < k"
  shows "length (point_text p q) \<le> k + 1 + p"
proof -
  have "q div 10 ^ p < 10 ^ k" using assms(1) by (simp add: less_mult_imp_div_less)
  then have "length (dec_nat (q div 10 ^ p)) \<le> k" using length_dec_nat assms(2) by blast
  moreover have "0 < p \<Longrightarrow> length (dec_nat (q mod 10 ^ p)) \<le> p" by (rule length_dec_nat) simp_all
  ultimately show ?thesis by (cases "p = 0") (simp_all add: point_text_def Let_def)
qed

lemma round_even_le: "0 < d \<Longrightarrow> n \<le> d * k \<Longrightarrow> round_even n d \<le> k"
proof -
  assume d: "0 < d" and n: "n \<le> d * k"
  then have q: "n div d \<le> k" by (metis div_le_mono nonzero_mult_div_cancel_left not_gr_zero)
  have "n div d = k \<Longrightarrow> n mod d = 0"
    using n d mult_div_mod_eq[of d n] by auto
  with q d show ?thesis by (cases "n div d = k") (auto simp: round_even_def Let_def)
qed

lemma fdecode_bounds:
  assumes "fdecode a = FFin s m e"
  shows "m < 2 ^ 53" "e \<le> 971"
proof -
  have "(unat a div 2 ^ 52) mod 2048 < 2048" by simp
  then have "(unat a div 2 ^ 52) mod 2048 \<noteq> 2047 \<Longrightarrow> (unat a div 2 ^ 52) mod 2048 \<le> 2046" by linarith
  moreover have "unat a mod 2 ^ 52 < 2 ^ 52" by simp
  ultimately show "m < 2 ^ 53" "e \<le> 971"
    using assms by (auto simp: fdecode_def Let_def split: if_splits)
qed

lemma fixed_bound:
  assumes "m < 2 ^ 53" "e \<le> 971"
  shows "fst (frac_of m e) * 10 ^ 2 \<le> snd (frac_of m e) * (2 ^ 1024 * 10 ^ 2)" "0 < snd (frac_of m e)"
proof -
  show "0 < snd (frac_of m e)" by (simp add: frac_of_def)
  have "fst (frac_of m e) \<le> snd (frac_of m e) * 2 ^ 1024"
  proof (cases "0 \<le> e")
    case True
    have "m * 2 ^ nat e \<le> 2 ^ 53 * 2 ^ 971"
      using assms True by (intro mult_mono power_increasing) auto
    also have "\<dots> = (2 :: nat) ^ 1024" by (simp flip: power_add)
    finally show ?thesis using True by (simp add: frac_of_def)
  next
    case False
    have "m \<le> 2 ^ 53" using assms(1) by simp
    also have "\<dots> \<le> (2 :: nat) ^ 1024" by (rule power_increasing) auto
    also have "\<dots> \<le> 2 ^ nat (- e) * 2 ^ 1024" by simp
    finally show ?thesis using False by (simp add: frac_of_def)
  qed
  then show "fst (frac_of m e) * 10 ^ 2 \<le> snd (frac_of m e) * (2 ^ 1024 * 10 ^ 2)"
    by (simp add: mult.assoc[symmetric])
qed

lemma length_fixed_text:
  assumes "m < 2 ^ 53" "e \<le> 971"
  shows "length (fixed_text 2 m e) \<le> 312"
proof -
  have "round_even (fst (frac_of m e) * 10 ^ 2) (snd (frac_of m e)) \<le> 2 ^ 1024 * 10 ^ 2"
    by (rule round_even_le[OF fixed_bound(2)[OF assms] fixed_bound(1)[OF assms]])
  also have "\<dots> < (10 :: nat) ^ 309 * 10 ^ 2" by simp
  finally show ?thesis
    using length_point_text[of _ 309 2] by (auto simp: fixed_text_def split: prod.split)
qed

lemma length_money: "length (conv_double ''+'' 10 (Some 2) (CHR ''f'') a) \<le> 313"
proof (cases "fdecode a")
  case (FFin s m e)
  from length_fixed_text[OF fdecode_bounds[OF this]] length_sign_text[of "''+''" s] FFin
  show ?thesis by (simp add: conv_double_def)
qed (use length_sign_text in \<open>auto simp: conv_double_def sign_text_def\<close>)

lemma length_i32: "length (dec_nat (nat \<bar>i32 x\<bar>)) \<le> 10"
  by (rule length_dec_nat) (use i32_range[of x] in \<open>auto simp: in_i32_def\<close>)

lemma length_i64: "length (dec_nat (nat \<bar>i64 x\<bar>)) \<le> 19"
  by (rule length_dec_nat) (use i64_range[of x] in \<open>auto simp: in_i64_def\<close>)

lemma length_tag_loop: "tag_loop tag bs m i = (m', i') \<Longrightarrow> i \<le> 5 \<Longrightarrow> length m' = length m \<and> i' \<le> 5"
  by (induction tag bs m i rule: tag_loop.induct) (auto split: if_splits)

lemma length_acc_stat: "i \<le> 5 \<Longrightarrow> length (acc_stat ! i) = 8"
  by (auto simp: acc_stat_def le_Suc_eq numeral_eq_Suc)

lemmas printf_eval = printf.simps directive_def convert_def is_digit_def digit_val_def Let_def

lemma account_line_parts:
  "length (printf ''#%04d  %s %s '' [AI i, AS m, AS s]) \<le> 16 + length m + length s"
  "length (printf ''%+10.2f '' [AD a]) \<le> 314"
  "length (printf ''%+7lld Kb '' [AI j]) \<le> 24"
  "length d \<le> 10 \<Longrightarrow> length (printf ''start %-10s '' [AS d]) \<le> 17"
  "length d \<le> 10 \<Longrightarrow> length (printf ''stop %-10s '' [AS d]) \<le> 17"
  using length_i32[of i] length_i64[of j] length_money[of a, unfolded numeral_2_eq_2] length_sign_text[of "''+''" "i64 j < 0"]
    length_sign_text[of "''0''" "i32 i < 0"]
  by (simp_all add: printf_eval)

lemma add_fits:
  assumes "out_ind w \<le> n" "n \<le> 512" "int (length (printf f args)) \<le> k"
  shows "\<exists>w'. cmd_out_add f args w = Some w' \<and> out_ind w' \<le> n + k \<and> calm P w w'"
  using assms by (simp add: cmd_out_add_def Let_def)

lemma add_fits_if:
  assumes "out_ind w \<le> n" "n \<le> 512" "0 \<le> k" "int (length (printf f args)) \<le> k"
  shows "\<exists>w'. (if b then cmd_out_add f args w else Some w) = Some w' \<and> out_ind w' \<le> n + k \<and> calm P w w'"
  using add_fits[OF assms(1,2,4)] assms(1,3) by auto

lemma length_pdate: "length (cmd_pdate t w) \<le> 10"
  by (simp add: cmd_pdate_def snprintf_def strlcpy_def Let_def)

text \<open>
  C19: The line that describes an account never overruns its buffer, whatever the account holds:
  \<open>acc_state_out\<close> returns, and it only talks.\<close>

theorem account_line_fits: "\<exists>w'. acc_state_out acc w = Some (0, w') \<and> calm {} w w'"
proof -
  obtain m i where t: "tag_loop (a_tag acc) [0, 1, 2, 3, 4, 5, 6, 7] ''LRPUOFBD'' 5 = (m, i)" by fastforce
  have mi: "length m = 8" "length (acc_stat ! i) = 8" using length_tag_loop[OF t] length_acc_stat by auto
  define w0 where "w0 = snd (cmd_out_begin RET_COMMENT w)"
  have "printf ''%03d '' [AI RET_COMMENT] = ''100 ''"
    by code_simp
  then have w0: "out_ind w0 \<le> 4" "calm {} w w0" by (simp_all add: w0_def cmd_out_begin_def Let_def)
  let ?res = "sint (a_res_balance acc)"
  define resmode where "resmode \<longleftrightarrow> a_tag acc AND ATAG_RES \<noteq> 0 \<and> ?res \<noteq> 0"
  have "int (length (printf ''#%04d  %s %s '' [AI (sint (a_accno acc)), AS m, AS (acc_stat ! i)])) \<le> 32"
    using account_line_parts(1)[of "sint (a_accno acc)" m "acc_stat ! i"] mi by simp
  from add_fits[OF w0(1) _ this, of "{}"] obtain w1 where
    w1: "cmd_out_add ''#%04d  %s %s '' [AI (sint (a_accno acc)), AS m, AS (acc_stat ! i)] w0 = Some w1"
      "out_ind w1 \<le> 36" "calm {} w0 w1" by auto
  from add_fits_if[OF w1(2), of 314 "''%+10.2f ''" "[AD (a_balance acc)]" "\<not> (resmode \<and> deq (a_balance acc) 0)" "{}"]
    account_line_parts(2)[of "a_balance acc"] obtain w2 where
    w2: "(if \<not> (resmode \<and> deq (a_balance acc) 0) then cmd_out_add ''%+10.2f '' [AD (a_balance acc)] w1 else Some w1) = Some w2"
      "out_ind w2 \<le> 350" "calm {} w1 w2" by auto
  from add_fits_if[OF w2(2), of 24 "''%+7lld Kb ''" "[AI (i64 (?res + 512) sdiv 1024)]" resmode "{}"]
    account_line_parts(3)[of "i64 (?res + 512) sdiv 1024"] obtain w3 where
    w3: "(if resmode then cmd_out_add ''%+7lld Kb '' [AI (i64 (?res + 512) sdiv 1024)] w2 else Some w2) = Some w3"
      "out_ind w3 \<le> 374" "calm {} w2 w3" by auto
  from add_fits_if[OF w3(2), of 17 "''start %-10s ''" "[AS (cmd_pdate (sint (a_start acc)) w3)]" "a_start acc \<noteq> 0" "{}"]
    account_line_parts(4)[OF length_pdate, of "sint (a_start acc)" w3] obtain w4 where
    w4: "(if a_start acc \<noteq> 0 then cmd_out_add ''start %-10s '' [AS (cmd_pdate (sint (a_start acc)) w3)] w3 else Some w3) = Some w4"
      "out_ind w4 \<le> 391" "calm {} w3 w4" by auto
  from add_fits_if[OF w4(2), of 17 "''stop %-10s ''" "[AS (cmd_pdate (sint (a_stop acc)) w4)]" "a_stop acc \<noteq> 0" "{}"]
    account_line_parts(5)[OF length_pdate, of "sint (a_stop acc)" w4] obtain w5 where
    w5: "(if a_stop acc \<noteq> 0 then cmd_out_add ''stop %-10s '' [AS (cmd_pdate (sint (a_stop acc)) w4)] w4 else Some w4) = Some w5"
      "out_ind w5 \<le> 408" "calm {} w4 w5" by auto
  have "\<exists>w6. (if a_tariff acc \<noteq> 0 then cmd_out_add ''tariff %d'' [AI (sint (a_tariff acc))] w5 else Some w5) = Some w6 \<and> calm {} w5 w6"
    using w5(2) by (simp add: cmd_out_add_def Let_def)
  then obtain w6 where
    w6: "(if a_tariff acc \<noteq> 0 then cmd_out_add ''tariff %d'' [AI (sint (a_tariff acc))] w5 else Some w5) = Some w6" "calm {} w5 w6"
    by blast
  have c7: "calm {} w6 (snd (cmd_out_end w6))"
    using calm_puts[where P = "{}"] by (cases "link_puts (out_buf w6) (w6\<lparr>out_ind := 0\<rparr>)")
      (auto simp: cmd_out_end_def Let_def calm_def dest: calm_puts[where P = "{}"])
  have "acc_state_out acc w = Some (0, snd (cmd_out_end w6))"
    unfolding acc_state_out_def t prod.case Let_def
    unfolding w0_def[symmetric] resmode_def[symmetric] w1(1) Option.bind.simps w2(1) w3(1) w4(1) w5(1) w6(1) ..
  with w0(2) w1(3) w2(3) w3(3) w4(3) w5(3) w6(2) c7 show ?thesis by (blast intro: calm_trans)
qed

end
