(* ===== verification/Args.thy ===== *)
theory Args
  imports Output
begin

text \<open>
  The arguments of the commands (\<open>src/src/bee/core/command.c\<close>): accounts given by number, by the
  name or address of a gate, by a resource or as \<open>*\<close> (\<open>cmd_getaccno\<close>), times and dates
  (\<open>cmd_gettime\<close>, \<open>cmd_getdate\<close>).  The functions cut the text they parse in place.
\<close>

abbreviation (input) LF_NONE :: int where "LF_NONE \<equiv> 0"
abbreviation (input) LF_NAME :: int where "LF_NAME \<equiv> 1"
abbreviation (input) LF_ADDR :: int where "LF_ADDR \<equiv> 2"
abbreviation (input) LF_ALL :: int where "LF_ALL \<equiv> 3"
abbreviation (input) LF_PNAME :: int where "LF_PNAME \<equiv> 4"

record lookup_t =
  lk_what :: int
  lk_str :: string
  lk_ind :: int
  lk_no :: int

definition lookup_init :: lookup_t where
  "lookup_init = \<lparr>lk_what = LF_NONE, lk_str = [], lk_ind = 0, lk_no = 0\<rparr>"

section \<open>Accounts\<close>

text \<open>What a pointer holds after a token behind it was cut off: \<open>strsep\<close> ended the text there.\<close>

definition cut_ptr :: "string \<Rightarrow> ptr \<Rightarrow> ptr" where
  "cut_ptr delim p = map_option (\<lambda>s. fst (strsep s delim)) p"

definition TAB :: string where "TAB = [CHR 0x09]"

text \<open>The comment that names a gate found.\<close>

definition say_gate :: "reslink \<Rightarrow> 'a session_scheme \<Rightarrow> 'a session_scheme" where
  "say_gate l w = say RET_COMMENT (''%s-%d'' @ TAB @ ''#%04d'' @ TAB @ ''%s'')
     [AS (r_name (resource ! nat (rl_res_id l))), AI (rl_user_id l), AI (rl_accno l), AS (rl_username l)] w"

text \<open>The next account of a search that was begun before.\<close>

definition cmd_nextaccno :: "lookup_t \<Rightarrow> 'a session_scheme \<Rightarrow> int \<times> lookup_t \<times> 'a session_scheme" where
  "cmd_nextaccno prev w =
     (if lk_what prev = LF_ALL
      then (let prev = prev\<lparr>lk_ind := lk_ind prev + 1\<rparr>
            in if lk_ind prev \<ge> lk_no prev then (- 1, prev, w) else (lk_ind prev, prev, w))
      else if lk_what prev = LF_NAME \<or> lk_what prev = LF_PNAME \<or> lk_what prev = LF_ADDR
      then (case (if lk_what prev = LF_NAME then lookup_name (lk_str prev) (lk_ind prev) w
                  else if lk_what prev = LF_PNAME then lookup_pname (lk_str prev) (lk_ind prev) w
                  else lookup_addr (lk_str prev) (lk_ind prev) w) of (rc, ind) \<Rightarrow>
            let prev = prev\<lparr>lk_ind := ind\<rparr>
            in if rc < 0 then (- 1, prev, w)
               else (let l = linktab w ! nat rc in (rl_accno l, prev, say_gate l w)))
      else (- 1, prev, w))"

text \<open>The index of a resource name, letters of either case.\<close>

definition res_caseindex :: "string \<Rightarrow> int" where
  "res_caseindex str = int (length (takeWhile (\<lambda>r. \<not> strcaseeq str (r_name r)) resource))"

text \<open>\<open>cmd_getaccno(&args, prev)\<close>: the account, the new pointer and the search.\<close>

definition getacc_name :: "string \<Rightarrow> ptr \<Rightarrow> ptr \<Rightarrow> lookup_t option \<Rightarrow> 'a session_scheme \<Rightarrow>
    int \<times> ptr \<times> lookup_t option \<times> 'a session_scheme" where
  "getacc_name kind p args prev w =
     (case next_token p CMD_DELIM of
        (None, _) \<Rightarrow> (- 1, cut_ptr CMD_DELIM args, prev, w)
      | (Some str, p) \<Rightarrow>
         (case (if strcaseeq kind ''name'' then lookup_name str (- 1) w
                else if strcaseeq kind ''pname'' then lookup_pname str (- 1) w
                else lookup_addr str (- 1) w) of (rc, ind) \<Rightarrow>
            if rc = - 1
            then (- 1, cut_ptr CMD_DELIM args, prev, say RET_COMMENT (''Can'' @ [CHR 0x27] @ ''t lookup name'') [] w)
            else (let prev = map_option (\<lambda>p. p\<lparr>lk_what := (if strcaseeq kind ''name'' then LF_NAME
                                                     else if strcaseeq kind ''pname'' then LF_PNAME else LF_ADDR),
                                              lk_ind := ind, lk_str := str\<rparr>) prev;
                      l = linktab w ! nat ind
                  in (rl_accno l, p, prev, say_gate l w))))"

definition getacc_res :: "int \<Rightarrow> ptr \<Rightarrow> ptr \<Rightarrow> lookup_t option \<Rightarrow> 'a session_scheme \<Rightarrow>
    int \<times> ptr \<times> lookup_t option \<times> 'a session_scheme" where
  "getacc_res rid p args prev w =
     (let found = (\<lambda>(rc, ind) p. if rc = - 1
            then (- 1, cut_ptr CMD_DELIM args, prev, say RET_COMMENT (''Can'' @ [CHR 0x27] @ ''t lookup resource'') [] w)
            else (let l = linktab w ! nat ind in (rl_accno l, p, prev, say_gate l w)))
      in case next_token p CMD_DELIM of
           (None, _) \<Rightarrow> (- 1, cut_ptr CMD_DELIM args, prev, w)
         | (Some str, p) \<Rightarrow>
             if \<not> strcaseeq str ''name'' then found (lookup_res rid (atol str) (- 1) w) p
             else (case next_token p CMD_DELIM of
                 (None, _) \<Rightarrow> (- 1, cut_ptr CMD_DELIM args, prev, w)
               | (Some str, p) \<Rightarrow> found (lookup_resname rid str (- 1) w) p))"

definition cmd_getaccno :: "ptr \<Rightarrow> lookup_t option \<Rightarrow> 'a session_scheme \<Rightarrow>
    int \<times> ptr \<times> lookup_t option \<times> 'a session_scheme" where
  "cmd_getaccno args prev w =
     (let prev = map_option (\<lambda>p. p\<lparr>lk_what := LF_NONE\<rparr>) prev
      in case next_token args CMD_DELIM of
           (None, _) \<Rightarrow> (- 1, cut_ptr CMD_DELIM args, prev, w)
         | (Some str, p) \<Rightarrow>
             if strcaseeq str ''name'' \<or> strcaseeq str ''pname'' \<or> strcaseeq str ''addr''
             then getacc_name str p args prev w
             else if res_caseindex str < resourcecnt then getacc_res (res_caseindex str) p args prev w
             else if str = ''*''
             then (case prev of
                 None \<Rightarrow> (0, p, None, w)
               | Some l \<Rightarrow> (case acc_reccount (Accbase w) w of (n, w) \<Rightarrow>
                   (0, p, Some (l\<lparr>lk_what := LF_ALL, lk_ind := 0, lk_no := n\<rparr>), w)))
             else (case strtol str 10 of (rc, e) \<Rightarrow>
               if e \<noteq> str then (rc, p, prev, w)
               else (- 1, p, prev, say RET_COMMENT ''Invalid account'' [] w)))"

section \<open>Times and dates\<close>

definition mktime :: "tm \<Rightarrow> 'a tariffs_scheme \<Rightarrow> int" where
  "mktime stm w = fst (c_timelocal w stm)"

definition BLANKS :: string where "BLANKS = [CHR '' '', CHR 0x09]"

text \<open>The text one character behind \<open>p\<close>; behind the end of a token lies what was not parsed yet.\<close>

definition behind :: "string \<Rightarrow> ptr \<Rightarrow> ptr" where
  "behind p rest = (case p of [] \<Rightarrow> rest | _ # r \<Rightarrow> Some r)"

text \<open>\<open>cmd_gettime(&arg, def)\<close>: \<open>None\<close> when it would read behind the end of the text.\<close>

definition cmd_gettime :: "ptr \<Rightarrow> int \<Rightarrow> 'a session_scheme \<Rightarrow> (int \<times> ptr \<times> 'a session_scheme) option" where
  "cmd_gettime arg def w =
     (case (if def \<noteq> 0 then (def, w) else sys_time w) of (ctimet, w) \<Rightarrow>
      let fail = Some (- 1, cut_ptr BLANKS arg, w)
      in case next_token arg BLANKS of
        (None, _) \<Rightarrow> fail
      | (Some str, p) \<Rightarrow>
          if str = ''+'' \<or> str = ''-''
          then (case next_token p BLANKS of
              (None, _) \<Rightarrow> fail
            | (Some hm, p) \<Rightarrow> (case next_token (Some hm) '':'' of
                (None, _) \<Rightarrow> fail
              | (Some h, p2) \<Rightarrow> (case next_token p2 '':'' of
                  (None, _) \<Rightarrow> fail
                | (Some m, _) \<Rightarrow>
                    (let disp = i32 (i32 (atol h * 3600) + i32 (atol m * 60));
                         disp = i32 (disp * (if str = ''+'' then 1 else - 1))
                     in Some (i32 (ctimet + disp), p, w)))))
          else (let stm = c_localtime w ctimet in case strtol str 10 of (val1, p2) \<Rightarrow>
            case behind p2 p of
              None \<Rightarrow> None
            | Some str \<Rightarrow>
                if p2 \<noteq> [] \<and> hd p2 = CHR '':''
                then Some (mktime (stm\<lparr>tm_min := atol str, tm_sec := 0, tm_hour := val1\<rparr>) w, p, w)
                else (case strtol str 10 of (mon, p2) \<Rightarrow>
                  let stm = stm\<lparr>tm_mon := i32 (mon - 1), tm_mday := val1\<rparr>;
                      stm = (if p2 \<noteq> []
                             then (let y = atol (tl p2) in stm\<lparr>tm_year := (if y > 1900 then y - 1900 else y)\<rparr>)
                             else stm)
                  in case next_token p BLANKS of
                       (None, _) \<Rightarrow> fail
                     | (Some str, p) \<Rightarrow> (case strtol str 10 of (hour, p2) \<Rightarrow>
                         (case behind p2 p of
                            None \<Rightarrow> None
                          | Some str \<Rightarrow>
                              Some (mktime (stm\<lparr>tm_hour := hour, tm_min := atol str, tm_sec := 0\<rparr>) w, p, w))))))"

definition datedelim :: string where
  "datedelim = '':/'' @ [CHR 0x5C] @ ''.,'' @ [CHR 0x27, CHR 0x60] @ ''-=''"

definition tm_null :: tm where
  "tm_null = \<lparr>tm_sec = 0, tm_min = 0, tm_hour = 0, tm_mday = 0, tm_mon = 0, tm_year = 0, tm_wday = 0, tm_yday = 0, tm_isdst = 0\<rparr>"

text \<open>\<open>cmd_getdate(&ptr)\<close>: the time of the date, -1 for none; the year has two or four digits.\<close>

definition date_year :: "int \<Rightarrow> int option" where
  "date_year y = (if y < 0 then None else if y < 100 then Some (y + 100)
     else if y > 1900 then Some (y - 1900) else None)"

definition cmd_getdate :: "ptr \<Rightarrow> 'a session_scheme \<Rightarrow> int \<times> ptr" where
  "cmd_getdate p w =
     (case next_token p [CHR '' '', CHR 0x09, CHR 0x0A, CHR 0x0D] of
        (None, p) \<Rightarrow> (- 1, p)
      | (Some str, p) \<Rightarrow>
          if strcaseeq str ''null'' then (0, p)
          else (case next_token (Some str) datedelim of
              (None, _) \<Rightarrow> (- 1, p)
            | (Some d, q) \<Rightarrow>
                if atol d < 1 then (- 1, p)
                else (case next_token q datedelim of
                    (None, _) \<Rightarrow> (- 1, p)
                  | (Some m, q) \<Rightarrow>
                      if i32 (atol m - 1) < 0 then (- 1, p)
                      else (case next_token q datedelim of
                          (None, _) \<Rightarrow> (- 1, p)
                        | (Some y, q) \<Rightarrow> (case date_year (atol y) of
                              None \<Rightarrow> (- 1, p)
                            | Some year \<Rightarrow>
                                (mktime (tm_null\<lparr>tm_mday := atol d, tm_mon := i32 (atol m - 1), tm_year := year, tm_isdst := - 1\<rparr>) w, p))))))"

section \<open>What parsing leaves alone\<close>

lemma calm_say_gate [simp, intro]: "calm P w (say_gate l w)"
  by (simp add: say_gate_def)

lemma calm_nextaccno: "cmd_nextaccno prev w = (a, prev', w') \<Longrightarrow> calm P w w'"
  by (auto simp: cmd_nextaccno_def Let_def split: if_splits prod.splits)

lemma calm_reccount: "acc_reccount base w = (n, w') \<Longrightarrow> calm P w w'"
  by (auto simp: acc_reccount_def split: prod.splits dest: quiet_reccount[where P = P] intro: quiet_calm)

lemma calm_getaccno: "cmd_getaccno args prev w = (a, p, prev', w') \<Longrightarrow> calm P w w'"
  by (auto simp: cmd_getaccno_def getacc_name_def getacc_res_def Let_def simp del: next_token.simps
      split: if_splits prod.splits option.splits dest: calm_reccount)

end
