(* ===== verification/AccCommands.thy ===== *)
theory AccCommands
  imports Args
begin

text \<open>
  The commands that edit one account (\<open>src/src/bee/core/command.c\<close>: \<open>cmdh_freeze\<close> and its many
  names, \<open>cmdh_fix\<close>, \<open>cmdh_delete\<close>, \<open>cmdh_setstart\<close>, \<open>cmdh_accres\<close>, \<open>cmdh_resadd\<close>,
  \<open>cmdh_setcredit\<close>, \<open>cmdh_new\<close>, \<open>cmdh_lock\<close>): read the record under the exclusive lock, change
  it, write it back, release the lock.  What they do to the locks and files whatever system
  calls fail, what they do to the records when none fails, and what they answer when the write fails.
\<close>

definition io_error :: "'a session_scheme \<Rightarrow> 'a reply" where
  "io_error w = ret ERR_IOERROR None [] w"

text \<open>The account record on the stack of a handler before it is read.\<close>

definition stack_acc :: "'a session_scheme \<Rightarrow> acc" where
  "stack_acc w = decode_acc (stack_junk 128 w)"

definition unlock_acc :: "'a session_scheme \<Rightarrow> 'a session_scheme" where
  "unlock_acc w = snd (acc_baseunlock (Accbase w) w)"

text \<open>
  Lock and read: the reply of a failure, or the result code, the record and the state.  The lock
  is released again for the codes in \<open>bad\<close>.
\<close>

definition get_locked :: "int list \<Rightarrow> int \<Rightarrow> 'a session_scheme \<Rightarrow> 'a reply + int \<times> acc \<times> 'a session_scheme" where
  "get_locked bad accno w =
     (case acc_baselock (Accbase w) w of (rc, w) \<Rightarrow>
        if rc \<noteq> SUCCESS then Inl (io_error w)
        else (case acci_get (Accbase w) accno (stack_acc w) w of (rc, acc, w) \<Rightarrow>
          let w = (if rc \<in> set bad then unlock_acc w else w)
          in if rc = IO_ERROR then Inl (io_error w)
             else if rc = NOT_FOUND then Inl (ret ERR_NOACC None [] w)
             else Inr (rc, acc, w)))"

text \<open>Write, unlock and answer; the writing functions return 0 or a negative code.\<close>

definition put_reply :: "int \<Rightarrow> string option \<Rightarrow> acc \<Rightarrow> 'a session_scheme \<Rightarrow> 'a reply" where
  "put_reply accno msg acc w =
     (case acci_put (Accbase w) accno acc w of (rc, acc, w) \<Rightarrow>
        let w = unlock_acc w
        in if rc \<le> 0 then ret RET_SUCCESS msg [] w else io_error w)"

section \<open>The handlers\<close>

abbreviation (input) broken_codes :: "int list" where
  "broken_codes \<equiv> [IO_ERROR, NOT_FOUND, ACC_BROKEN, ACC_DELETED]"

text \<open>The commands of \<open>cmdh_freeze\<close> on an account that was read.\<close>

definition freeze_branch :: "string \<Rightarrow> int \<Rightarrow> acc \<Rightarrow> 'a session_scheme \<Rightarrow> 'a reply" where
  "freeze_branch cmd accno acc w =
     (if strcaseeq cmd ''freeze'' then put_reply accno None (acc\<lparr>a_tag := a_tag acc OR ATAG_FROZEN\<rparr>) w
      else if strcaseeq cmd ''unfreeze''
      then (if a_tag acc AND ATAG_FROZEN = 0 then ret ERR_ACCESS (Some ''Not frozen'') [] (unlock_acc w)
            else put_reply accno None (acc\<lparr>a_tag := a_tag acc AND NOT ATAG_FROZEN\<rparr>) w)
      else if strcaseeq cmd ''on''
      then (if a_tag acc AND ATAG_OFF = 0 then ret ERR_ACCESS (Some ''Not OFF'') [] (unlock_acc w)
            else put_reply accno None (acc\<lparr>a_tag := a_tag acc AND NOT ATAG_OFF\<rparr>) w)
      else if strcaseeq cmd ''off'' then put_reply accno None (acc\<lparr>a_tag := a_tag acc OR ATAG_OFF\<rparr>) w
      else if strcaseeq cmd ''_break''
      then put_reply accno (Some ''Account got broken'') (acc\<lparr>a_tag := a_tag acc OR ATAG_BROKEN\<rparr>) w
      else if strcaseeq cmd ''unlimit''
      then put_reply accno (Some ''Account set unlimit'') (acc\<lparr>a_tag := a_tag acc OR ATAG_UNLIMIT\<rparr>) w
      else if strcaseeq cmd ''limit''
      then put_reply accno (Some ''Account limited'') (acc\<lparr>a_tag := a_tag acc AND NOT ATAG_UNLIMIT\<rparr>) w
      else if strcaseeq cmd ''payman''
      then put_reply accno (Some ''Account allowed from manager'') (acc\<lparr>a_tag := a_tag acc OR ATAG_PAYMAN\<rparr>) w
      else if strcaseeq cmd ''nopayman''
      then put_reply accno (Some ''Account denied from manager'') (acc\<lparr>a_tag := a_tag acc AND NOT ATAG_PAYMAN\<rparr>) w
      else if strcaseeq cmd ''_rstsumm''
      then put_reply accno (Some ''Summary info flushed'')
             (acc\<lparr>a_inet_summ_in := 0, a_inet_summ_out := 0, a_money_summ := 0, a_summ_rsttime := 0\<rparr>) w
      else if strcaseeq cmd ''resmode''
      then put_reply accno (Some ''Resource mode on'') (acc\<lparr>a_tag := a_tag acc OR ATAG_RES\<rparr>) w
      else if strcaseeq cmd ''noresmode''
      then put_reply accno (Some ''Resource mode off'') (acc\<lparr>a_tag := a_tag acc AND NOT ATAG_RES\<rparr>) w
      else if strcaseeq cmd ''forcelog''
      then put_reply accno (Some ''Force logging on'') (acc\<lparr>a_tag := a_tag acc OR ATAG_LOG\<rparr>) w
      else if strcaseeq cmd ''noforcelog''
      then put_reply accno (Some ''Force logging off'') (acc\<lparr>a_tag := a_tag acc AND NOT ATAG_LOG\<rparr>) w
      else ret ERR_INVCMD None [] w)"

definition cmdh_freeze :: "string \<Rightarrow> ptr \<Rightarrow> 'a session_scheme \<Rightarrow> 'a reply" where
  "cmdh_freeze cmd args w =
     (case cmd_getaccno args None (w\<lparr>NeedUpdate := 1\<rparr>) of (accno, p, _, w) \<Rightarrow>
        if accno \<noteq> - 1
        then (case get_locked broken_codes accno w of
            Inl r \<Rightarrow> r
          | Inr (rc, acc, w) \<Rightarrow>
              if a_tag acc = ATAG_BROKEN then ret ERR_ACCESS (Some ''Account is broken'') [] w
              else if a_tag acc = ATAG_DELETED then ret ERR_ACCESS (Some ''Account is empty'') [] w
              else freeze_branch cmd accno acc w)
        else ret ERR_INVARG None [] w)"

definition cmdh_fix :: "string \<Rightarrow> ptr \<Rightarrow> 'a session_scheme \<Rightarrow> 'a reply" where
  "cmdh_fix cmd args w =
     (case cmd_getaccno args None (w\<lparr>NeedUpdate := 1\<rparr>) of (accno, p, _, w) \<Rightarrow>
        if accno \<noteq> - 1
        then (case get_locked [IO_ERROR, NOT_FOUND] accno w of
            Inl r \<Rightarrow> r
          | Inr (rc, acc, w) \<Rightarrow>
              (let acc = acc\<lparr>a_accno := word_of_int accno, a_tag := a_tag acc AND NOT (ATAG_BROKEN OR ATAG_DELETED)\<rparr>;
                   acc = (case fst (next_token p CMD_DELIM) of
                       Some str \<Rightarrow> acc\<lparr>a_balance := atof str\<rparr>
                     | None \<Rightarrow> acc)
               in put_reply accno None acc w))
        else ret ERR_INVARG None [] w)"

definition cmdh_delete :: "string \<Rightarrow> ptr \<Rightarrow> 'a session_scheme \<Rightarrow> 'a reply" where
  "cmdh_delete cmd args w =
     (case cmd_getaccno args None w of (accno, p, _, w) \<Rightarrow>
        if accno \<noteq> - 1
        then (case get_locked [IO_ERROR, NOT_FOUND] accno w of
            Inl r \<Rightarrow> r
          | Inr (rc, acc, w) \<Rightarrow> put_reply accno None (acc\<lparr>a_tag := a_tag acc OR ATAG_DELETED\<rparr>) w)
        else ret ERR_INVARG None [] w)"

definition cmdh_setstart :: "string \<Rightarrow> ptr \<Rightarrow> 'a session_scheme \<Rightarrow> 'a reply" where
  "cmdh_setstart cmd args w =
     (case cmd_getaccno args None w of (accno, p, _, w) \<Rightarrow>
        if accno < 0 then ret ERR_INVARG (Some ''Invalid account id'') [] w
        else (let tim = fst (cmd_getdate p w)
              in if tim < 0 then ret ERR_INVARG (Some ''Invalid date'') [] w
                 else (case get_locked broken_codes accno w of
                     Inl r \<Rightarrow> r
                   | Inr (rc, acc, w) \<Rightarrow>
                       if rc = ACC_BROKEN then ret ERR_NOACC (Some ''Account is broken'') [] w
                       else if rc = ACC_DELETED then ret ERR_NOACC (Some ''Account is deleted'') [] w
                       else put_reply accno None
                              (if strcaseeq cmd ''setstart'' then acc\<lparr>a_start := word_of_int tim\<rparr>
                               else acc\<lparr>a_stop := word_of_int tim\<rparr>) w)))"

definition cmdh_accres :: "string \<Rightarrow> ptr \<Rightarrow> 'a session_scheme \<Rightarrow> 'a reply" where
  "cmdh_accres cmd args w =
     (case cmd_getaccno args None (w\<lparr>NeedUpdate := 1\<rparr>) of (accno, p, _, w) \<Rightarrow>
        if accno < 0 then ret ERR_INVARG None [] w
        else (case fst (next_token p CMD_DELIM) of
            None \<Rightarrow> ret ERR_ARGCOUNT (Some ''Argument expected'') [] w
          | Some str \<Rightarrow> (case get_locked broken_codes accno w of
                Inl r \<Rightarrow> r
              | Inr (rc, acc, w) \<Rightarrow>
                  if a_tag acc = ATAG_BROKEN then ret ERR_ACCESS (Some ''Account is broken'') [] w
                  else if a_tag acc = ATAG_DELETED then ret ERR_ACCESS (Some ''Account is empty'') [] w
                  else put_reply accno None (acc\<lparr>a_tariff := word_of_int (atol str)\<rparr>) w)))"

text \<open>An account that is not in resource mode is answered with an error and edited all the same.\<close>

definition cmdh_resadd :: "string \<Rightarrow> ptr \<Rightarrow> 'a session_scheme \<Rightarrow> 'a reply" where
  "cmdh_resadd cmd args w =
     (case cmd_getaccno args None w of (accno, p, _, w) \<Rightarrow>
        if accno < 0 then ret ERR_INVARG (Some ''Invalid account id'') [] w
        else (case fst (next_token p CMD_DELIM) of
            None \<Rightarrow> ret ERR_ARGCOUNT (Some ''Resource count expected'') [] w
          | Some str \<Rightarrow> (let val = word_of_int (strtoll str 10) in case get_locked broken_codes accno w of
                Inl r \<Rightarrow> r
              | Inr (rc, acc, w) \<Rightarrow>
                  if rc = ACC_BROKEN then ret ERR_NOACC (Some ''Account is broken'') [] w
                  else if rc = ACC_DELETED then ret ERR_NOACC (Some ''Account is deleted'') [] w
                  else (let w = (if a_tag acc AND ATAG_RES = 0
                                 then say ERR_ACCESS ''Error - resource mode is disabled'' [] (unlock_acc w) else w)
                        in put_reply accno None
                             (if strcaseeq cmd ''_resadd'' then acc\<lparr>a_res_balance := a_res_balance acc + val\<rparr>
                              else acc\<lparr>a_res_balance := val\<rparr>) w))))"

definition cmdh_setcredit :: "string \<Rightarrow> ptr \<Rightarrow> 'a session_scheme \<Rightarrow> 'a reply" where
  "cmdh_setcredit cmd args w =
     (case cmd_getaccno args None w of (accno, p, _, w) \<Rightarrow>
        if accno < 0 then ret ERR_INVARG (Some ''Invalid account id'') [] w
        else (case fst (next_token p CMD_DELIM) of
            None \<Rightarrow> ret ERR_ARGCOUNT (Some ''Resource count expected'') [] w
          | Some str \<Rightarrow> (case get_locked broken_codes accno w of
                Inl r \<Rightarrow> r
              | Inr (rc, acc, w) \<Rightarrow>
                  if rc = ACC_BROKEN then ret ERR_NOACC (Some ''Account is broken'') [] w
                  else if rc = ACC_DELETED then ret ERR_NOACC (Some ''Account is deleted'') [] w
                  else put_reply accno None (acc\<lparr>a_tcredit := atof str\<rparr>) w)))"

definition acc_zero :: acc where
  "acc_zero = decode_acc (replicate 128 0)"

definition cmdh_new :: "string \<Rightarrow> ptr \<Rightarrow> 'a session_scheme \<Rightarrow> 'a reply" where
  "cmdh_new cmd args w =
     (case acc_add (Accbase w) (acc_zero\<lparr>a_balance := 0\<rparr>) w of (rc, acc, w) \<Rightarrow>
        if rc < 0 then io_error w
        else (let w = say RET_COMMENT ''Account %d created'' [AI rc] w
              in ret RET_SUCCESS (Some []) [] (w\<lparr>NeedUpdate := 1\<rparr>)))"

definition cmdh_lock :: "string \<Rightarrow> ptr \<Rightarrow> 'a session_scheme \<Rightarrow> 'a reply" where
  "cmdh_lock cmd args w =
     (if strcaseeq cmd ''lock''
      then (case acc_async_on (Accbase w) w of (_, base, w) \<Rightarrow>
            let w = w\<lparr>Accbase := base\<rparr>
            in case log_async_on (Logbase w) w of (_, lbase, w) \<Rightarrow> ret RET_SUCCESS None [] (w\<lparr>Logbase := lbase\<rparr>))
      else (case acc_async_off (Accbase w) w of (_, base, w) \<Rightarrow>
            let w = w\<lparr>Accbase := base\<rparr>
            in case log_async_off (Logbase w) w of (_, lbase, w) \<Rightarrow> ret RET_SUCCESS None [] (w\<lparr>Logbase := lbase\<rparr>)))"

section \<open>Locks and files under failing calls\<close>

lemma hush_relock [simp]: "hush (relock fd m w) = relock fd m (hush w)"
  by (simp add: hush_def relock_def)

lemma Accbase_relock [simp]: "Accbase (relock fd m w) = Accbase w"
  by (simp add: relock_def)

lemma calm_relock: "calm P w w' \<Longrightarrow> calm P (relock fd m w) (relock fd m w')"
  by (simp add: calm_def quiet_relock)

lemma unlock_acc_relock:
  "unlock_acc w = (if ab_fasync (Accbase w) = 0 then relock (ab_fd (Accbase w)) LOCK_UN w else w)"
  using quiet_unlock[of "ab_fd (Accbase w)" w "fst (sys_flock (ab_fd (Accbase w)) LOCK_UN w)"]
  by (simp add: unlock_acc_def acc_baseunlock_def db_unlock_def)

text \<open>No lock is held on the account base (or the lock is held for good, in the asynchronous mode).\<close>

definition acc_free :: "'a session_scheme \<Rightarrow> bool" where
  "acc_free w \<longleftrightarrow> sq_fd (sqr w) \<noteq> ab_fd (Accbase w) \<and>
     (ab_fasync (Accbase w) = 0 \<longrightarrow> fd_lock w (ab_fd (Accbase w)) = LOCK_UN)"

definition acc_path :: "'a session_scheme \<Rightarrow> string set" where
  "acc_path w = fd_paths w (ab_fd (Accbase w))"

lemma acc_free_calm: "calm P w v \<Longrightarrow> acc_free v = acc_free w \<and> acc_path v = acc_path w"
  by (simp add: acc_free_def acc_path_def calm_simps)

text \<open>A state between locking and unlocking.\<close>

definition held :: "string set \<Rightarrow> 'a session_scheme \<Rightarrow> 'a session_scheme \<Rightarrow> bool" where
  "held P w v \<longleftrightarrow> calm P w v \<or> ab_fasync (Accbase w) = 0 \<and> calm P (relock (ab_fd (Accbase w)) LOCK_EX w) v"

lemma held_calm: "held P w v \<Longrightarrow> calm P v v' \<Longrightarrow> held P w v'"
  by (auto simp: held_def intro: calm_trans)

lemma held_simps:
  assumes "held P w v"
  shows "Accbase v = Accbase w" "fd_paths v x = fd_paths w x" "sqr v = sqr w"
  using assms by (auto simp: held_def calm_simps)

lemma held_unlock: "acc_free w \<Longrightarrow> held P w v \<Longrightarrow> calm P w (unlock_acc v)"
proof -
  assume f: "acc_free w" and h: "held P w v"
  let ?fd = "ab_fd (Accbase w)"
  have u: "unlock_acc v = (if ab_fasync (Accbase w) = 0 then relock ?fd LOCK_UN v else v)"
    using held_simps(1)[OF h] by (simp add: unlock_acc_relock)
  show ?thesis
  proof (cases "ab_fasync (Accbase w) = 0")
    case True
    then have w: "relock ?fd LOCK_UN w = w" using f by (simp add: acc_free_def relock_same)
    from h True have "calm P (relock ?fd LOCK_UN w) (relock ?fd LOCK_UN v) \<or>
        calm P (relock ?fd LOCK_UN (relock ?fd LOCK_EX w)) (relock ?fd LOCK_UN v)"
      unfolding held_def by (blast intro: calm_relock)
    with u True w show ?thesis by simp
  next
    case False
    with h u show ?thesis by (simp add: held_def)
  qed
qed

lemma held_lock:
  assumes "acc_baselock (Accbase w) w = (rc, w1)"
  shows "rc = SUCCESS \<Longrightarrow> held P w w1" "rc \<noteq> SUCCESS \<Longrightarrow> calm P w w1"
  using assms quiet_flock[of "ab_fd (Accbase w)" LOCK_EX w rc w1 P]
  by (auto simp: acc_baselock_def db_exlock_def held_def split: if_splits intro: quiet_calm)

text \<open>A handler that returns and leaves a calm state behind.\<close>

definition returns :: "string set \<Rightarrow> 'a session_scheme \<Rightarrow> 'a reply \<Rightarrow> bool" where
  "returns P w r \<longleftrightarrow> (\<exists>rc w'. r = Some (rc, w') \<and> calm P w w')"

lemma returns_if: "returns P w (if b then x else y) = (if b then returns P w x else returns P w y)"
  by simp

lemma returns_ret: "calm P w v \<Longrightarrow> returns P w (ret err f args v)"
  by (cases "cmd_out err f args v") (auto simp: returns_def ret_def dest: calm_out[where P = P] intro: calm_trans)

lemma returns_io_error: "calm P w v \<Longrightarrow> returns P w (io_error v)"
  by (simp add: io_error_def returns_ret)

lemma returns_calm: "calm P w v \<Longrightarrow> returns P v r \<Longrightarrow> returns P w r"
  by (auto simp: returns_def intro: calm_trans)

lemma put_reply_held:
  assumes f: "acc_free w" and h: "held P w v" and p: "acc_path w \<subseteq> P"
  shows "returns P w (put_reply accno msg acc v)"
proof -
  obtain rc a v1 where v1: "acci_put (Accbase v) accno acc v = (rc, a, v1)" by (metis prod_cases3)
  have "fd_paths v (ab_fd (Accbase v)) \<subseteq> P" using held_simps[OF h] p by (simp add: acc_path_def)
  then have "calm P v v1" using quiet_acci_put[OF v1] by (intro quiet_calm)
  then have "calm P w (unlock_acc v1)" using held_unlock[OF f] held_calm[OF h] by blast
  then show ?thesis unfolding put_reply_def v1 Let_def by (auto intro: returns_ret returns_io_error)
qed

lemma acci_get_codes:
  assumes "acci_get base rec a w = (rc, a', w')" "rc \<noteq> IO_ERROR" "rc \<noteq> NOT_FOUND"
  shows "a_tag a' = ATAG_BROKEN \<Longrightarrow> rc = ACC_BROKEN" "a_tag a' = ATAG_DELETED \<Longrightarrow> rc = ACC_DELETED"
proof -
  obtain grc buf w2 where w2: "db_get (ab_fd base) rec (encode_acc a) 128 (tick w) = (grc, buf, w2)"
    by (cases "db_get (ab_fd base) rec (encode_acc a) 128 (tick w)") auto
  have "grc \<in> {SUCCESS, NOT_FOUND, IO_ERROR}"
    using w2 by (auto simp: db_get_def db_get_random_def db_get_cached_def Let_def
        split: prod.splits if_splits option.splits)
  moreover obtain crc b where cb: "acc_check rec (now w) (decode_acc buf) w2 = (crc, b)" by fastforce
  ultimately have "rc = crc" "a' = b"
    using assms w2 by (auto simp: acci_get_def sys_time_now Let_def split: if_splits)
  moreover have "a_tag (decode_acc buf) OR 2 = 1 \<Longrightarrow> False"
  proof -
    assume "a_tag (decode_acc buf) OR 2 = 1"
    then have "bit (a_tag (decode_acc buf) OR 2) 1 = bit (1 :: u32) 1" by simp
    then show False by (simp add: bit_or_iff)
  qed
  ultimately show "a_tag a' = ATAG_BROKEN \<Longrightarrow> rc = ACC_BROKEN" "a_tag a' = ATAG_DELETED \<Longrightarrow> rc = ACC_DELETED"
    using cb by (auto simp: acc_check_def split: if_splits)
qed

lemma get_locked_held:
  assumes f: "acc_free w" and bad: "IO_ERROR \<in> set bad" "NOT_FOUND \<in> set bad"
  shows "case get_locked bad accno w of
      Inl r \<Rightarrow> returns P w r
    | Inr (rc, acc, v) \<Rightarrow> held P w v \<and> (rc \<in> set bad \<longrightarrow> calm P w v) \<and>
        (a_tag acc = ATAG_BROKEN \<longrightarrow> rc = ACC_BROKEN) \<and> (a_tag acc = ATAG_DELETED \<longrightarrow> rc = ACC_DELETED)"
proof -
  obtain lrc w1 where w1: "acc_baselock (Accbase w) w = (lrc, w1)" by fastforce
  show ?thesis
  proof (cases "lrc = SUCCESS")
    case False
    with w1 show ?thesis using returns_io_error[OF held_lock(2)[OF w1 False]] by (simp add: get_locked_def)
  next
    case True
    have h1: "held P w w1" using held_lock(1)[OF w1 True] .
    obtain rc acc w2 where w2: "acci_get (Accbase w1) accno (stack_acc w1) w1 = (rc, acc, w2)" by (metis prod_cases3)
    have "sq_fd (sqr w1) \<noteq> ab_fd (Accbase w1)" using held_simps[OF h1] f by (simp add: acc_free_def)
    then have "calm P w1 w2" using quiet_acci_get[OF w2] by (blast intro: quiet_calm)
    then have h2: "held P w w2" by (rule held_calm[OF h1])
    have u: "calm P w (unlock_acc w2)" by (rule held_unlock[OF f h2])
    then have hu: "held P w (unlock_acc w2)" by (simp add: held_def)
    have e: "get_locked bad accno w = (let w = (if rc \<in> set bad then unlock_acc w2 else w2)
          in if rc = IO_ERROR then Inl (io_error w) else if rc = NOT_FOUND then Inl (ret ERR_NOACC None [] w)
             else Inr (rc, acc, w))"
      by (simp add: get_locked_def w1 True w2)
    show ?thesis
    proof (cases "rc = IO_ERROR \<or> rc = NOT_FOUND")
      case True
      with bad u show ?thesis by (auto simp: e Let_def intro: returns_ret returns_io_error)
    next
      case False
      with acci_get_codes[OF w2] h2 hu u show ?thesis by (auto simp: e Let_def)
    qed
  qed
qed

text \<open>The words \<open>cmdh_freeze\<close> is called for.\<close>

definition freeze_words :: "string list" where
  "freeze_words = [''freeze'', ''unfreeze'', ''on'', ''off'', ''_break'', ''unlimit'', ''limit'', ''payman'', ''nopayman'',
     ''_rstsumm'', ''resmode'', ''noresmode'', ''forcelog'', ''noforcelog'']"

lemma freeze_branch_held:
  assumes "acc_free w" "held P w v" "acc_path w \<subseteq> P" "\<exists>k \<in> set freeze_words. strcaseeq cmd k"
  shows "returns P w (freeze_branch cmd accno acc v)"
proof -
  note put = put_reply_held[OF assms(1-3)]
  have err: "returns P w (ret e f args (unlock_acc v))" for e f args
    by (rule returns_ret) (rule held_unlock[OF assms(1,2)])
  show ?thesis using assms(4)
    unfolding freeze_branch_def freeze_words_def by (auto simp: returns_if put err)
qed

definition edit_handlers :: "(string \<Rightarrow> ptr \<Rightarrow> 'a session_scheme \<Rightarrow> 'a reply) set" where
  "edit_handlers = {cmdh_freeze, cmdh_fix, cmdh_delete, cmdh_setstart, cmdh_accres, cmdh_resadd, cmdh_setcredit, cmdh_new}"

lemma locked_edit:
  assumes "acc_free w" "IO_ERROR \<in> set bad" "NOT_FOUND \<in> set bad"
    and "\<And>rc acc v. held P w v \<Longrightarrow> (rc \<in> set bad \<Longrightarrow> calm P w v) \<Longrightarrow>
      (a_tag acc = ATAG_BROKEN \<Longrightarrow> rc = ACC_BROKEN) \<Longrightarrow> (a_tag acc = ATAG_DELETED \<Longrightarrow> rc = ACC_DELETED) \<Longrightarrow>
      returns P w (k rc acc v)"
  shows "returns P w (case get_locked bad accno w of Inl r \<Rightarrow> r | Inr (rc, acc, v) \<Rightarrow> k rc acc v)"
  using get_locked_held[OF assms(1-3), where accno = accno and P = P] assms(4) by (auto split: sum.splits prod.splits)

text \<open>The account is parsed first; talking about it is calm.\<close>

lemma after_getaccno:
  assumes "acc_free w" "acc_path w \<subseteq> P"
    and "\<And>accno p prev v. calm P w v \<Longrightarrow> acc_free v \<Longrightarrow> acc_path v \<subseteq> P \<Longrightarrow> returns P v (k accno p prev v)"
  shows "returns P w (case cmd_getaccno args prev w of (accno, p, prev, v) \<Rightarrow> k accno p prev v)"
proof -
  obtain a p q v where g: "cmd_getaccno args prev w = (a, p, q, v)" by (metis prod_cases4)
  have c: "calm P w v" by (rule calm_getaccno[OF g])
  show ?thesis using returns_calm[OF c assms(3)[OF c]] acc_free_calm[OF c] assms(1,2) by (simp add: g)
qed

lemma after_note:
  assumes "acc_free w" "acc_path w \<subseteq> P"
    and "\<And>accno p prev v. calm P w v \<Longrightarrow> acc_free v \<Longrightarrow> acc_path v \<subseteq> P \<Longrightarrow> returns P v (k accno p prev v)"
  shows "returns P w (case cmd_getaccno args prev (w\<lparr>NeedUpdate := 1\<rparr>) of (accno, p, prev, v) \<Rightarrow> k accno p prev v)"
proof -
  have c: "calm P w (w\<lparr>NeedUpdate := 1\<rparr>)" by simp
  have "returns P (w\<lparr>NeedUpdate := 1\<rparr>) (case cmd_getaccno args prev (w\<lparr>NeedUpdate := 1\<rparr>) of (accno, p, prev, v) \<Rightarrow> k accno p prev v)"
  proof (rule after_getaccno)
    show "acc_free (w\<lparr>NeedUpdate := 1\<rparr>)" "acc_path (w\<lparr>NeedUpdate := 1\<rparr>) \<subseteq> P"
      using acc_free_calm[OF c] assms(1,2) by simp_all
    show "returns P v (k accno p prev v)" if "calm P (w\<lparr>NeedUpdate := 1\<rparr>) v" "acc_free v" "acc_path v \<subseteq> P" for accno p prev v
      using assms(3)[OF calm_trans[OF c that(1)] that(2,3)] .
  qed
  with c show ?thesis by (rule returns_calm)
qed

lemma held_say: "held P w v \<Longrightarrow> held P w (say err f args v)"
  by (rule held_calm) auto

lemma held_free: "calm P w v \<Longrightarrow> held P w v"
  by (simp add: held_def)

lemma held_unlocked: "acc_free w \<Longrightarrow> held P w v \<Longrightarrow> held P w (unlock_acc v)"
  by (rule held_free) (rule held_unlock)

lemma freeze_returns:
  "acc_free w \<Longrightarrow> acc_path w \<subseteq> P \<Longrightarrow> \<exists>k \<in> set freeze_words. strcaseeq cmd k \<Longrightarrow> returns P w (cmdh_freeze cmd args w)"
  unfolding cmdh_freeze_def
  by (rule after_note) (auto simp: returns_if intro!: locked_edit freeze_branch_held intro: returns_ret)

lemma fix_returns: "acc_free w \<Longrightarrow> acc_path w \<subseteq> P \<Longrightarrow> returns P w (cmdh_fix cmd args w)"
  unfolding cmdh_fix_def Let_def
  by (rule after_note) (auto simp: returns_if intro!: locked_edit put_reply_held intro: returns_ret)

lemma delete_returns: "acc_free w \<Longrightarrow> acc_path w \<subseteq> P \<Longrightarrow> returns P w (cmdh_delete cmd args w)"
  unfolding cmdh_delete_def
  by (rule after_getaccno) (auto simp: returns_if intro!: locked_edit put_reply_held intro: returns_ret)

lemma setstart_returns: "acc_free w \<Longrightarrow> acc_path w \<subseteq> P \<Longrightarrow> returns P w (cmdh_setstart cmd args w)"
  unfolding cmdh_setstart_def Let_def
  by (rule after_getaccno) (auto simp: returns_if intro!: locked_edit intro: returns_ret put_reply_held)

lemma accres_returns: "acc_free w \<Longrightarrow> acc_path w \<subseteq> P \<Longrightarrow> returns P w (cmdh_accres cmd args w)"
  unfolding cmdh_accres_def
  by (rule after_note) (auto simp: returns_if intro!: locked_edit intro: returns_ret put_reply_held split: option.split)

lemma setcredit_returns: "acc_free w \<Longrightarrow> acc_path w \<subseteq> P \<Longrightarrow> returns P w (cmdh_setcredit cmd args w)"
  unfolding cmdh_setcredit_def
  by (rule after_getaccno) (auto simp: returns_if intro!: locked_edit intro: returns_ret put_reply_held split: option.split)

lemma resadd_returns: "acc_free w \<Longrightarrow> acc_path w \<subseteq> P \<Longrightarrow> returns P w (cmdh_resadd cmd args w)"
  unfolding cmdh_resadd_def Let_def
  by (rule after_getaccno)
     (auto simp: returns_if intro!: locked_edit put_reply_held held_say held_unlocked intro: returns_ret split: option.split)

lemma new_returns: "acc_free w \<Longrightarrow> acc_path w \<subseteq> P \<Longrightarrow> returns P w (cmdh_new cmd args w)"
proof -
  assume f: "acc_free w" "acc_path w \<subseteq> P"
  obtain rc a v where a: "acc_add (Accbase w) (acc_zero\<lparr>a_balance := 0\<rparr>) w = (rc, a, v)" by (metis prod_cases3)
  have "calm P w v" using quiet_acc_add[OF a] f by (auto simp: acc_free_def acc_path_def intro: quiet_calm)
  then show ?thesis by (auto simp: cmdh_new_def a Let_def intro!: returns_io_error returns_ret intro: calm_trans)
qed

section \<open>Properties\<close>

text \<open>
  C18: Whatever system calls fail, a command that edits an account returns, leaves no lock behind
  and changes no file but the account base (nor the gates, the prices or the rights of the session).\<close>

theorem account_commands_unlock:
  assumes "h \<in> edit_handlers" "h = cmdh_freeze \<longrightarrow> (\<exists>k \<in> set freeze_words. strcaseeq cmd k)" "acc_free w"
  shows "\<exists>rc w'. h cmd args w = Some (rc, w') \<and> calm (acc_path w) w w'"
proof -
  have "returns (acc_path w) w (h cmd args w)"
    using assms unfolding edit_handlers_def
    by (auto intro: freeze_returns fix_returns delete_returns setstart_returns accres_returns setcredit_returns
        resadd_returns new_returns)
  then show ?thesis by (simp add: returns_def)
qed

text \<open>
  A failing write goes unnoticed: an edit command answers success whatever \<open>acci_put\<close>
  reported, because every code that reports a failure is negative.\<close>

lemma write_failure_unnoticed:
  "put_reply accno msg acc w =
     (case acci_put (Accbase w) accno acc w of (rc, acc', w') \<Rightarrow> ret RET_SUCCESS msg [] (unlock_acc w')) \<and>
   fst (acci_put (Accbase w) accno acc w) \<in> {SUCCESS, NOT_FOUND, IO_ERROR, - 1}"
proof -
  have sync: "fst (db_sync fd v) \<in> {0, IO_ERROR, - 1}" for fd and v :: "'a session_scheme"
    by (auto simp: db_sync_def sys_fsync_def split: prod.splits if_splits)
  have put: "fst (db_put fd r b n v) \<in> {SUCCESS, NOT_FOUND, IO_ERROR}" for fd r b n and v :: "'a session_scheme"
    by (auto simp: db_put_def Let_def split: prod.splits if_splits)
  have "fst (acci_put (Accbase w) accno acc w) \<in> {SUCCESS, NOT_FOUND, IO_ERROR, - 1}"
  proof -
    obtain prc v where p: "db_put (ab_fd (Accbase w)) accno (encode_acc (acc_stamp acc (now w) (tick w))) 128 (tick w) = (prc, v)"
      by fastforce
    obtain src u where y: "db_sync (ab_fd (Accbase w)) v = (src, u)" by fastforce
    have "prc \<in> {SUCCESS, NOT_FOUND, IO_ERROR}" "src \<in> {0, IO_ERROR, - 1}"
      using put[of "ab_fd (Accbase w)" accno "encode_acc (acc_stamp acc (now w) (tick w))" 128 "tick w"]
        sync[of "ab_fd (Accbase w)" v] p y by simp_all
    then show ?thesis by (auto simp: acci_put_def sys_time_now p y Let_def)
  qed
  then show ?thesis by (auto simp: put_reply_def Let_def split: prod.split)
qed

section \<open>Edits on a machine without faults\<close>

lemma acc_ready_hush [simp]:
  "acc_ready b path (hush w) = acc_ready b path w" "accounts path (hush w) = accounts path w"
  by (simp_all add: acc_ready_def accounts_def file_ready_def file_recs_def open_on_def)

lemma acc_ready_calm:
  assumes "calm P w v" "path \<notin> P"
  shows "acc_ready b path w \<Longrightarrow> acc_ready b path v" "accounts path v = accounts path w"
  using acc_ready_quiet(1)[OF assms(1)[unfolded calm_def] assms(2), of b]
    acc_ready_quiet(2)[OF assms(1)[unfolded calm_def] assms(2)] by simp_all

text \<open>A number with only digits is none of the other ways to name an account.\<close>

lemma digits_no_word:
  assumes "c \<in> {CHR ''n'', CHR ''p'', CHR ''a'', CHR ''i'', CHR ''m'', CHR ''l''}"
  shows "\<not> strcaseeq (dec_nat i) (c # t)"
proof -
  obtain d ds where d: "dec_nat i = d # ds" "is_digit 10 d"
    using dec_nat_hd[of i] by (cases "dec_nat i") auto
  have "tolower d = d" "d \<noteq> c"
    using d(2) assms by (auto simp: tolower_def is_digit_def digit_val_def Let_def split: if_splits)
  moreover have "tolower c = c" using assms by (auto simp: tolower_def)
  ultimately show ?thesis by (simp add: strcaseeq_def d(1))
qed

lemma getaccno_number:
  assumes "next_token args CMD_DELIM = (Some (dec_nat i), p)" "i < 2 ^ 31"
  shows "cmd_getaccno args None w = (int i, p, None, w)"
proof -
  have r: "res_caseindex (dec_nat i) = resourcecnt"
    by (simp add: res_caseindex_def resource_def resourcecnt_def digits_no_word)
  have ne: "dec_nat i \<noteq> []" using dec_nat_hd by blast
  have st: "dec_nat i \<noteq> ''*''"
    using dec_nat_hd[of i] by (auto simp: is_digit_def digit_val_def)
  have "strtol (dec_nat i) 10 = (int i, [])"
    using scan_int_dec_int[of "int i"] assms(2) by (simp add: strtol_def dec_int_def)
  with ne st r show ?thesis
    by (simp add: cmd_getaccno_def assms(1) digits_no_word)
qed

lemma relock_frame: "clock (relock fd m w) = clock w" "zcrc32 (relock fd m w) = zcrc32 w"
  by (simp_all add: relock_def)

lemma get_locked_nf:
  assumes r: "acc_ready (Accbase w) path w" and i: "i < length (accounts path w)"
    and s: "acc_sound (int i) (accounts path w ! i) w"
    and ok: "a_tag (accounts path w ! i) AND ATAG_DELETED = 0" "a_tag (accounts path w ! i) AND ATAG_BROKEN = 0"
    and bad: "set bad \<subseteq> {IO_ERROR, NOT_FOUND, ACC_BROKEN, ACC_DELETED}"
  shows "\<exists>rc v. get_locked bad (int i) w = Inr (rc, accounts path w ! i, v) \<and> acc_ready (Accbase v) path v \<and>
    accounts path v = accounts path w \<and> Accbase v = Accbase w \<and> zcrc32 v = zcrc32 w \<and>
    rc \<noteq> ACC_BROKEN \<and> rc \<noteq> ACC_DELETED"
proof -
  let ?a = "accounts path w ! i"
  define w1 where "w1 = (if ab_fasync (Accbase w) = 0 then relock (ab_fd (Accbase w)) LOCK_EX w else w)"
  have "no_faults w" "fdt w (ab_fd (Accbase w)) \<noteq> None"
    using file_ready_nf[OF r[unfolded acc_ready_def]] by blast+
  then have l: "acc_baselock (Accbase w) w = (SUCCESS, w1)"
    unfolding acc_baselock_def db_exlock_def w1_def by (simp add: flock_nf)
  have w1: "acc_ready (Accbase w) path w1" "accounts path w1 = accounts path w" "zcrc32 w1 = zcrc32 w" "Accbase w1 = Accbase w"
    using r by (simp_all add: w1_def relock_frame)
  have chk: "acc_check (int i) (now w1) ?a w1 = (acc_state ?a (now w1), ?a)"
    using acc_check_sound[OF s] acc_check_quiet[OF w1(3)] by metis
  from acci_get_nf[OF w1(1), of i "stack_acc w1"] i chk w1(2) obtain v where
    g: "acci_get (Accbase w) (int i) (stack_acc w1) w1 = (acc_state ?a (now w1), ?a, v)" and q: "quiet {} w1 v"
    by auto
  have c: "acc_state ?a (now w1) \<notin> {IO_ERROR, NOT_FOUND, ACC_BROKEN, ACC_DELETED}"
    using ok by (simp add: acc_state_def)
  have b: "Accbase v = Accbase w" using calm_simps(5)[OF quiet_calm[OF q]] w1(4) by simp
  have "get_locked bad (int i) w = Inr (acc_state ?a (now w1), ?a, v)"
    using c bad by (auto simp: get_locked_def l w1(4) g Let_def)
  moreover have "acc_ready (Accbase v) path v" "accounts path v = accounts path w" "zcrc32 v = zcrc32 w"
    using acc_ready_quiet[OF q, of path] w1 b quiet_simps(3)[OF q] by simp_all
  ultimately show ?thesis using b c by auto
qed

lemma put_reply_nf:
  assumes r: "acc_ready (Accbase v) path v" and i: "i < length (accounts path v)" and no: "sint (a_accno a) = int i"
  shows "\<exists>rc t w'. put_reply (int i) msg a v = Some (rc, w') \<and> acc_ready (Accbase w') path w' \<and>
    accounts path w' = (accounts path v)[i := acc_stamp a t v] \<and> Accbase w' = Accbase v \<and> calm {path} (unlock_acc v) w'"
proof -
  from acci_put_nf[OF r i no] obtain v1 where
    v1: "acci_put (Accbase v) (int i) a v = (SUCCESS, acc_stamp a (now v) v, v1)" "acc_ready (Accbase v) path v1"
      "accounts path v1 = (accounts path v)[i := acc_stamp a (now v) v]" "quiet {path} v v1"
    by blast
  have b1: "Accbase v1 = Accbase v" using calm_simps(5)[OF quiet_calm[OF v1(4)]] .
  have c: "calm {path} (unlock_acc v) (unlock_acc v1)"
    using quiet_calm[OF v1(4)] by (simp add: unlock_acc_relock b1 calm_relock)
  have u: "acc_ready (Accbase v) path (unlock_acc v1)" "accounts path (unlock_acc v1) = accounts path v1"
    "Accbase (unlock_acc v1) = Accbase v"
    using v1(2) b1 by (simp_all add: unlock_acc_relock)
  obtain rc w' where o: "cmd_out RET_SUCCESS msg [] (unlock_acc v1) = (rc, w')" by fastforce
  have co: "calm {} (unlock_acc v1) w'" by (rule calm_out[OF o])
  have "put_reply (int i) msg a v = Some (rc, w')"
    by (simp add: put_reply_def v1(1) ret_def o)
  moreover have "acc_ready (Accbase w') path w'" "accounts path w' = accounts path v1" "Accbase w' = Accbase v"
    using acc_ready_calm[OF co, of path] u calm_simps(5)[OF co] by simp_all
  moreover have "calm {path} (unlock_acc v) w'" using c calm_mono[OF co] by (blast intro: calm_trans)
  ultimately show ?thesis using v1(3) by auto
qed

text \<open>What the words of \<open>cmdh_freeze\<close> mean: a tag is set or cleared, or the sums of the month reset.\<close>

definition tag_words :: "(string \<times> bool \<times> u32) list" where
  "tag_words = [(''freeze'', True, ATAG_FROZEN), (''unfreeze'', False, ATAG_FROZEN), (''on'', False, ATAG_OFF),
     (''off'', True, ATAG_OFF), (''_break'', True, ATAG_BROKEN), (''unlimit'', True, ATAG_UNLIMIT),
     (''limit'', False, ATAG_UNLIMIT), (''payman'', True, ATAG_PAYMAN), (''nopayman'', False, ATAG_PAYMAN),
     (''resmode'', True, ATAG_RES), (''noresmode'', False, ATAG_RES), (''forcelog'', True, ATAG_LOG),
     (''noforcelog'', False, ATAG_LOG)]"

definition account_edit :: "string \<Rightarrow> acc \<Rightarrow> acc option" where
  "account_edit word a = (case map_of tag_words word of
      Some (True, m) \<Rightarrow> Some (a\<lparr>a_tag := a_tag a OR m\<rparr>)
    | Some (False, m) \<Rightarrow>
        if (word = ''unfreeze'' \<or> word = ''on'') \<and> a_tag a AND m = 0 then None
        else Some (a\<lparr>a_tag := a_tag a AND NOT m\<rparr>)
    | None \<Rightarrow> Some (a\<lparr>a_inet_summ_in := 0, a_inet_summ_out := 0, a_money_summ := 0, a_summ_rsttime := 0\<rparr>))"

lemma words_lower: "map (map tolower) freeze_words = freeze_words"
  by code_simp

lemma lower_words [simp]:
  "map tolower ''freeze'' = ''freeze''"
  "map tolower ''unfreeze'' = ''unfreeze''"
  "map tolower ''on'' = ''on''"
  "map tolower ''off'' = ''off''"
  "map tolower ''_break'' = ''_break''"
  "map tolower ''unlimit'' = ''unlimit''"
  "map tolower ''limit'' = ''limit''"
  "map tolower ''payman'' = ''payman''"
  "map tolower ''nopayman'' = ''nopayman''"
  "map tolower ''_rstsumm'' = ''_rstsumm''"
  "map tolower ''resmode'' = ''resmode''"
  "map tolower ''noresmode'' = ''noresmode''"
  "map tolower ''forcelog'' = ''forcelog''"
  "map tolower ''noforcelog'' = ''noforcelog''"
  by code_simp+

lemma freeze_eval:
  "freeze_branch ''freeze'' accno acc w = put_reply accno None (acc\<lparr>a_tag := a_tag acc OR ATAG_FROZEN\<rparr>) w"
  "freeze_branch ''unfreeze'' accno acc w = (if a_tag acc AND ATAG_FROZEN = 0 then ret ERR_ACCESS (Some ''Not frozen'') [] (unlock_acc w) else put_reply accno None (acc\<lparr>a_tag := a_tag acc AND NOT ATAG_FROZEN\<rparr>) w)"
  "freeze_branch ''on'' accno acc w = (if a_tag acc AND ATAG_OFF = 0 then ret ERR_ACCESS (Some ''Not OFF'') [] (unlock_acc w) else put_reply accno None (acc\<lparr>a_tag := a_tag acc AND NOT ATAG_OFF\<rparr>) w)"
  "freeze_branch ''off'' accno acc w = put_reply accno None (acc\<lparr>a_tag := a_tag acc OR ATAG_OFF\<rparr>) w"
  "freeze_branch ''_break'' accno acc w = put_reply accno (Some ''Account got broken'') (acc\<lparr>a_tag := a_tag acc OR ATAG_BROKEN\<rparr>) w"
  "freeze_branch ''unlimit'' accno acc w = put_reply accno (Some ''Account set unlimit'') (acc\<lparr>a_tag := a_tag acc OR ATAG_UNLIMIT\<rparr>) w"
  "freeze_branch ''limit'' accno acc w = put_reply accno (Some ''Account limited'') (acc\<lparr>a_tag := a_tag acc AND NOT ATAG_UNLIMIT\<rparr>) w"
  "freeze_branch ''payman'' accno acc w = put_reply accno (Some ''Account allowed from manager'') (acc\<lparr>a_tag := a_tag acc OR ATAG_PAYMAN\<rparr>) w"
  "freeze_branch ''nopayman'' accno acc w = put_reply accno (Some ''Account denied from manager'') (acc\<lparr>a_tag := a_tag acc AND NOT ATAG_PAYMAN\<rparr>) w"
  "freeze_branch ''_rstsumm'' accno acc w = put_reply accno (Some ''Summary info flushed'') (acc\<lparr>a_inet_summ_in := 0, a_inet_summ_out := 0, a_money_summ := 0, a_summ_rsttime := 0\<rparr>) w"
  "freeze_branch ''resmode'' accno acc w = put_reply accno (Some ''Resource mode on'') (acc\<lparr>a_tag := a_tag acc OR ATAG_RES\<rparr>) w"
  "freeze_branch ''noresmode'' accno acc w = put_reply accno (Some ''Resource mode off'') (acc\<lparr>a_tag := a_tag acc AND NOT ATAG_RES\<rparr>) w"
  "freeze_branch ''forcelog'' accno acc w = put_reply accno (Some ''Force logging on'') (acc\<lparr>a_tag := a_tag acc OR ATAG_LOG\<rparr>) w"
  "freeze_branch ''noforcelog'' accno acc w = put_reply accno (Some ''Force logging off'') (acc\<lparr>a_tag := a_tag acc AND NOT ATAG_LOG\<rparr>) w"
  by (simp_all only: freeze_branch_def strcaseeq_def lower_words list.inject char.inject if_False if_True list.distinct simp_thms)

lemma freeze_branch_edit:
  assumes "map tolower cmd = k" "k \<in> set freeze_words"
  shows "\<exists>msg. freeze_branch cmd n a v =
    (case account_edit k a of None \<Rightarrow> ret ERR_ACCESS msg [] (unlock_acc v) | Some b \<Rightarrow> put_reply n msg b v)"
proof -
  have "map tolower k = k" using words_lower assms(2) by (metis in_set_conv_nth length_map nth_map)
  with assms(1) have "strcaseeq cmd = strcaseeq k" by (simp add: strcaseeq_def fun_eq_iff)
  then have b: "freeze_branch cmd n a v = freeze_branch k n a v" by (simp only: freeze_branch_def)
  show ?thesis
    using assms(2) unfolding freeze_words_def b
    by (simp only: list.set insert_iff empty_iff simp_thms, elim disjE)
       (simp add: freeze_eval account_edit_def tag_words_def, blast?)+
qed

lemma account_edit_accno: "account_edit k a = Some b \<Longrightarrow> a_accno b = a_accno a"
  by (auto simp: account_edit_def split: option.splits bool.splits if_splits)

text \<open>
  C10: On a machine without faults the tag commands implement the edits they are named for: the
  record of a sound account that is neither deleted nor broken is replaced by the edited one with
  a new stamp, all other records stay, and a command that does not apply changes nothing.\<close>

theorem tag_commands_refine:
  assumes r: "acc_ready (Accbase w) path w" and i: "i < length (accounts path w)" "i < 2 ^ 31"
    and s: "acc_sound (int i) (accounts path w ! i) w"
    and ok: "a_tag (accounts path w ! i) AND ATAG_DELETED = 0" "a_tag (accounts path w ! i) AND ATAG_BROKEN = 0"
    and args: "next_token args CMD_DELIM = (Some (dec_nat i), p)"
    and k: "map tolower cmd = k" "k \<in> set freeze_words"
  shows "\<exists>rc t w'. cmdh_freeze cmd args w = Some (rc, w') \<and> acc_ready (Accbase w') path w' \<and>
    accounts path w' = (case account_edit k (accounts path w ! i) of
        None \<Rightarrow> accounts path w
      | Some a \<Rightarrow> (accounts path w)[i := acc_stamp a t w])"
proof -
  let ?w = "w\<lparr>NeedUpdate := 1\<rparr>" and ?a = "accounts path w ! i"
  have c: "calm {} w ?w" by simp
  have w: "acc_ready (Accbase ?w) path ?w" "accounts path ?w = accounts path w" "acc_sound (int i) ?a ?w"
    using acc_ready_calm[OF c, of path] r acc_sound_quiet[of ?w w] s by simp_all
  from get_locked_nf[OF w(1), of i broken_codes] w i(1) ok obtain rc v where
    g: "get_locked broken_codes (int i) ?w = Inr (rc, ?a, v)" and v: "acc_ready (Accbase v) path v"
      "accounts path v = accounts path w" "zcrc32 v = zcrc32 w" by auto
  have tags: "a_tag ?a \<noteq> ATAG_BROKEN" "a_tag ?a \<noteq> ATAG_DELETED" using ok by auto
  obtain msg where e: "freeze_branch cmd (int i) ?a v =
      (case account_edit k ?a of None \<Rightarrow> ret ERR_ACCESS msg [] (unlock_acc v) | Some b \<Rightarrow> put_reply (int i) msg b v)"
    using freeze_branch_edit[OF k] by blast
  have h: "cmdh_freeze cmd args w = freeze_branch cmd (int i) ?a v"
    using getaccno_number[OF args i(2), of ?w] tags by (simp add: cmdh_freeze_def g)
  show ?thesis
  proof (cases "account_edit k ?a")
    case None
    obtain rc w' where o: "cmd_out ERR_ACCESS msg [] (unlock_acc v) = (rc, w')" by fastforce
    have co: "calm {} (unlock_acc v) w'" by (rule calm_out[OF o])
    have "acc_ready (Accbase w') path w'" "accounts path w' = accounts path w"
      using acc_ready_calm[OF co, of path] v calm_simps(5)[OF co] by (simp_all add: unlock_acc_relock split: if_splits)
    then show ?thesis by (auto simp: h e None ret_def o)
  next
    case (Some b)
    have "sint (a_accno b) = int i" using account_edit_accno[OF Some] s by (simp add: acc_sound_def)
    from put_reply_nf[OF v(1) _ this, of msg] i(1) v(2) obtain rc t w' where
      "put_reply (int i) msg b v = Some (rc, w')" "acc_ready (Accbase w') path w'"
      "accounts path w' = (accounts path w)[i := acc_stamp b t v]" by auto
    moreover have "acc_stamp b t v = acc_stamp b t w" by (rule acc_stamp_quiet[OF v(3)])
    ultimately show ?thesis by (auto simp: h e Some)
  qed
qed

section \<open>An example\<close>

definition demo_session :: session where
  "demo_session = ipc.extend demo_ipc (session.fields \<lparr>ab_fd = 3, ab_fasync = 0\<rparr> \<lparr>lb_fd = 4, lb_fasync = 0\<rparr>
     0 1 1 0 0 0 2147483648 0 [] 0 100 None (\<lambda>_. []) ''/bin/intra'' (\<lambda>_. Some ''000 secret'')
     False [] [] [] (\<lambda>s n. Some (take (n - 1) s)) (\<lambda>_. 0) 0 [] [])"

lemma demo_session_sel:
  "Accbase demo_session = \<lparr>ab_fd = 3, ab_fasync = 0\<rparr>" "Logbase demo_session = \<lparr>lb_fd = 4, lb_fasync = 0\<rparr>"
  "files demo_session = files demo_access" "fdt demo_session = fdt demo_access" "script demo_session = script demo_access"
  "sqr demo_session = sqr demo_access" "zcrc32 demo_session = zcrc32 demo_access"
  "linktab demo_session = linktab demo_access" "tariffs_limit demo_session = tariffs_limit demo_access"
  "SessionPerm demo_session = 2147483648" "ld_fStdio demo_session = False" "outbox demo_session = []"
  "HumanRead demo_session = 1" "MachineRead demo_session = 1" "QuietMode demo_session = 0"
  by (simp_all add: demo_session_def demo_ipc_def access.defs ipc.defs session.defs)

lemma demo_session_ready:
  "acc_ready (Accbase demo_session) ''acc'' demo_session" "accounts ''acc'' demo_session = [demo_acc 0 d_mebi, demo_acc 1 0]"
  "acc_sound 0 (demo_acc 0 d_mebi) demo_session" "acc_free demo_session"
proof -
  show "acc_ready (Accbase demo_session) ''acc'' demo_session"
    using demo_access_ready(1)
    by (simp add: access_ready_def acc_ready_def file_ready_def open_on_def no_faults_def demo_session_sel)
  show "accounts ''acc'' demo_session = [demo_acc 0 d_mebi, demo_acc 1 0]"
    using demo_access_ready(2) by (simp add: accounts_def file_recs_def demo_session_sel)
  have "acc_crc x demo_session = acc_crc x demo_tariffs" for x
    by (simp add: acc_crc_def count_crc_def demo_session_sel demo_access_sel)
  then show "acc_sound 0 (demo_acc 0 d_mebi) demo_session" using demo_sound by (simp add: acc_sound_def)
  show "acc_free demo_session"
    using demo_ready by (simp add: acc_free_def bee_ready_def bases_free_def fd_lock_def demo_session_sel demo_access_sel)
qed

theorem account_commands_unlock_witness:
  "\<exists>rc w'. cmdh_freeze ''off'' (Some ''0'') (demo_session\<lparr>script := [Done, Fail, Short 3]\<rparr>) = Some (rc, w') \<and>
     fd_lock w' 3 = LOCK_UN"
proof -
  let ?w = "demo_session\<lparr>script := [Done, Fail, Short 3]\<rparr>"
  have f: "acc_free ?w" "fd_lock ?w 3 = LOCK_UN"
    using demo_session_ready(4) by (simp_all add: acc_free_def fd_lock_def demo_session_sel)
  have "cmdh_freeze \<in> edit_handlers" "\<exists>k \<in> set freeze_words. strcaseeq ''off'' k"
    by (simp_all add: edit_handlers_def freeze_words_def strcaseeq_def)
  then obtain rc w' where w': "cmdh_freeze ''off'' (Some ''0'') ?w = Some (rc, w')" "calm (acc_path ?w) ?w w'"
    using account_commands_unlock[of cmdh_freeze "''off''" ?w "Some ''0''"] f(1) by blast
  with calm_simps(1)[OF w'(2), of 3] f(2) show ?thesis by auto
qed

theorem tag_commands_refine_witness:
  "\<exists>rc w'. cmdh_freeze ''FREEZE'' (Some ''0'') demo_session = Some (rc, w') \<and> a_tag (accounts ''acc'' w' ! 0) = ATAG_FROZEN"
proof -
  have k: "map tolower ''FREEZE'' = ''freeze''" "''freeze'' \<in> set freeze_words" by code_simp+
  have a: "next_token (Some ''0'') CMD_DELIM = (Some (dec_nat 0), None)" by code_simp
  have t: "a_tag (demo_acc 0 d_mebi) = 0" by (simp add: demo_acc_def decode_acc_def)
  have e: "account_edit ''freeze'' a = Some (a\<lparr>a_tag := a_tag a OR ATAG_FROZEN\<rparr>)" for a
    by (simp add: account_edit_def tag_words_def)
  show ?thesis
    using tag_commands_refine[OF demo_session_ready(1), of 0 "Some ''0''" None "''FREEZE''" "''freeze''"] demo_session_ready(3) a k
    by (auto simp: demo_session_ready(2) t e)
qed

end
