(* ===== verification/Traffic.thy ===== *)
theory Traffic
  imports AccCommands
begin

text \<open>
  The commands that move money (\<open>src/src/bee/core/command.c\<close>): traffic reported by the collectors
  (\<open>cmdh_res\<close>, \<open>cmdh_hres\<close>, \<open>cmdh_bires\<close>), payments (\<open>cmdh_add\<close>, \<open>cmd_add\<close>), the daily charge
  (\<open>cmdh_docharge\<close>), and the display of accounts (\<open>cmdh_acc\<close>).  They parse their arguments, call
  the transactions of the core and answer with the state of the account.
\<close>

section \<open>Traffic\<close>

text \<open>What a result code says about the account.\<close>

definition rc_text :: "int \<Rightarrow> string" where
  "rc_text rc =
     (if rc = NEGATIVE then ''Account is negative''
      else if rc = SUCCESS then ''Account is valid''
      else if rc = NOT_FOUND then ''Account not found''
      else if rc = ACC_DELETED then ''Account is deleted''
      else if rc = ACC_BROKEN then ''Account is broken''
      else if rc = ACC_FROZEN then ''Account is frozen''
      else if rc = ACC_OFF then ''Account is turned off''
      else ''Unknown error'')"

definition isdata_zero :: isdata where
  "isdata_zero = \<lparr>is_res_id = 0, is_user_id = 0, is_value = 0, is_proto_id = 0, is_host = 0, is_proto2 = 0, is_reserv = 0\<rparr>"

definition inet_addr :: "string \<Rightarrow> u32" where
  "inet_addr s = (case inet_aton s of None \<Rightarrow> - 1 | Some a \<Rightarrow> a)"

definition arg_count :: "'a session_scheme \<Rightarrow> 'a reply" where
  "arg_count w = ret ERR_ARGCOUNT None [] w"

text \<open>Resource, gate, volume, protocol and host of a traffic report: a reply, or the data, the account and the rest.\<close>

definition parse_traffic :: "ptr \<Rightarrow> 'a session_scheme \<Rightarrow> 'a reply + isdata \<times> int \<times> ptr" where
  "parse_traffic args w = (case next_token args CMD_DELIM of
      (None, _) \<Rightarrow> Inl (arg_count w)
    | (Some str, p) \<Rightarrow>
        (let rid = res_caseindex str
         in if rid = resourcecnt then Inl (ret ERR_INVARG (Some ''Invalid resource name'') [] w)
            else (case next_token p CMD_DELIM of
                (None, _) \<Rightarrow> Inl (arg_count w)
              | (Some str, p) \<Rightarrow> (case lookup_resname rid str (- 1) w of (rc, ind) \<Rightarrow>
                  if rc < 0 then Inl (ret ERR_INVARG (Some ''Invalid gate ident'') [] w)
                  else (let l = linktab w ! nat ind
                        in case next_token p CMD_DELIM of
                          (None, _) \<Rightarrow> Inl (arg_count w)
                        | (Some val, p) \<Rightarrow> (case next_token p CMD_DELIM of
                            (None, _) \<Rightarrow> Inl (arg_count w)
                          | (Some proto, p) \<Rightarrow> (case next_token p CMD_DELIM of
                              (None, _) \<Rightarrow> Inl (arg_count w)
                            | (Some host, p) \<Rightarrow>
                                Inr (isdata_zero\<lparr>is_res_id := word_of_int rid, is_user_id := word_of_int (rl_user_id l),
                                       is_value := strtoul val 0, is_proto_id := strtoul proto 0, is_host := inet_addr host\<rparr>,
                                     rl_accno l, p))))))))"

definition say_data :: "isdata \<Rightarrow> 'a session_scheme \<Rightarrow> 'a session_scheme" where
  "say_data d w = say RET_COMMENT (''DATA: rid:%d, uid:%d, val:%d, proto:%d, host:%X'' @ [CHR 0x0A])
     [AI (sint (is_res_id d)), AI (sint (is_user_id d)), AI (uint (is_value d)), AI (uint (is_proto_id d)), AI (uint (is_host d))] w"

text \<open>The answer to the collector: the state of the account, and the wish to update the access lists.\<close>

definition traffic_reply :: "int \<Rightarrow> 'a session_scheme \<Rightarrow> 'a reply" where
  "traffic_reply rc w =
     (if rc = IO_ERROR then io_error w
      else (let w = say RET_INT ''%d'' [AI rc] (say RET_COMMENT (rc_text rc) [] w)
            in ret RET_SUCCESS (Some ''(success for module)'') [] (w\<lparr>NeedUpdate := 1\<rparr>)))"

definition book_traffic :: "int \<Rightarrow> isdata \<Rightarrow> double \<Rightarrow> 'a session_scheme \<Rightarrow> 'a reply" where
  "book_traffic accno d price w =
     Option.bind (acc_transaction (Accbase w) (Logbase w) accno (Some d) price 0 w) (\<lambda>(rc, _, w). traffic_reply rc w)"

definition cmdh_res :: "string \<Rightarrow> ptr \<Rightarrow> 'a session_scheme \<Rightarrow> 'a reply" where
  "cmdh_res cmd args w = (case parse_traffic args w of
      Inl r \<Rightarrow> r
    | Inr (d, accno, p) \<Rightarrow>
        (let d = (case fst (next_token p CMD_DELIM) of
              None \<Rightarrow> d
            | Some str \<Rightarrow> d\<lparr>is_proto2 := word_of_int (atol str)\<rparr>)
         in book_traffic accno d d_minus_one (say_data d w)))"

text \<open>The same with a price of its own.\<close>

definition cmdh_hres :: "string \<Rightarrow> ptr \<Rightarrow> 'a session_scheme \<Rightarrow> 'a reply" where
  "cmdh_hres cmd args w = (case parse_traffic args w of
      Inl r \<Rightarrow> r
    | Inr (d, accno, p) \<Rightarrow>
        (let price = (case fst (next_token p CMD_DELIM) of None \<Rightarrow> d_minus_one | Some str \<Rightarrow> atof str)
         in book_traffic accno d price (say_data d w)))"

definition cmdh_bires :: "string \<Rightarrow> ptr \<Rightarrow> 'a session_scheme \<Rightarrow> 'a reply" where
  "cmdh_bires cmd args w = (case next_token args CMD_DELIM of
      (None, _) \<Rightarrow> arg_count w
    | (Some str, p) \<Rightarrow> (case lookup_baddr (strtoul str 16) (- 1) w of (rc, ind) \<Rightarrow>
        if rc < 0 then ret ERR_INVARG (Some ''Invalid gate ident'') [] w
        else (let l = linktab w ! nat ind
              in case next_token p CMD_DELIM of
                (None, _) \<Rightarrow> arg_count w
              | (Some vin, p) \<Rightarrow> (case next_token p CMD_DELIM of
                  (None, _) \<Rightarrow> arg_count w
                | (Some vout, p) \<Rightarrow>
                    (let d = isdata_zero\<lparr>is_res_id := 0, is_user_id := word_of_int (rl_user_id l)\<rparr>;
                         d = (case fst (next_token p CMD_DELIM) of
                             None \<Rightarrow> d
                           | Some str \<Rightarrow> d\<lparr>is_host := strtoul str 16\<rparr>)
                     in Option.bind (acc_bitrans (Accbase w) (Logbase w) (rl_accno l) (Some d) (strtoul vin 0) (strtoul vout 0) w)
                          (\<lambda>(rc, _, w). traffic_reply rc w))))))"

section \<open>Payments\<close>

definition cmd_accerr :: "int \<Rightarrow> 'a session_scheme \<Rightarrow> int \<times> 'a session_scheme" where
  "cmd_accerr rc w = (if rc = IO_ERROR then cmd_out ERR_IOERROR None [] w
     else cmd_out RET_COMMENT (Some ''%s'') [AS (rc_text rc)] w)"

definition cmd_add :: "int \<Rightarrow> double \<Rightarrow> double \<Rightarrow> 'a session_scheme \<Rightarrow> (int \<times> 'a session_scheme) option" where
  "cmd_add accno amount limit w =
     (let d = isdata_zero\<lparr>is_res_id := 2, is_user_id := word_of_int accno\<rparr>;
          d = (case peer_addr w of None \<Rightarrow> d | Some a \<Rightarrow> d\<lparr>is_host := a\<rparr>)
      in map_option (\<lambda>(rc, _, w). (rc, w)) (acc_transaction (Accbase w) (Logbase w) accno (Some d) amount limit w))"

text \<open>The amount, a number or, after a star, a share of the balance: a reply or the amount.\<close>

definition add_amount :: "int \<Rightarrow> string \<Rightarrow> 'a session_scheme \<Rightarrow> 'a reply + double \<times> 'a session_scheme" where
  "add_amount accno str w =
     (if str \<noteq> [] \<and> hd str = CHR ''*''
      then (case acc_get (Accbase w) accno acc_zero w of (rc, test, w) \<Rightarrow>
        if rc = IO_ERROR \<or> rc = ACC_DELETED \<or> rc = NOT_FOUND \<or> rc = ACC_BROKEN
        then Inl (ret ERR_ACCESS (Some ''Unable to access account'') [] (snd (cmd_accerr rc w)))
        else if dlt (a_balance test) 0 then Inl (ret RET_SUCCESS (Some ''Aborted on negative balance'') [] w)
        else (let amount = dmul (atof (tl str)) (a_balance test)
              in Inr (amount, say RET_COMMENT ''sum = %g'' [AD amount] w)))
      else Inr (atof str, w))"

definition cmdh_add :: "string \<Rightarrow> ptr \<Rightarrow> 'a session_scheme \<Rightarrow> 'a reply" where
  "cmdh_add cmd args w =
     (case cmd_getaccno args None w of (accno, p, _, w) \<Rightarrow>
        if accno < 0 then arg_count w
        else (case next_token p CMD_DELIM of
            (None, _) \<Rightarrow> arg_count w
          | (Some str, p) \<Rightarrow> (case add_amount accno str w of
                Inl r \<Rightarrow> r
              | Inr (amount, w) \<Rightarrow>
                  (let limit = (case fst (next_token p CMD_DELIM) of None \<Rightarrow> 0 | Some s \<Rightarrow> atof s)
                   in Option.bind (cmd_add accno amount limit w) (\<lambda>(rc, w).
                        if rc \<ge> 0
                        then ret RET_SUCCESS None [] ((say RET_COMMENT ''Transaction successful'' [] w)\<lparr>NeedUpdate := 1\<rparr>)
                        else ret ERR_ACCESS (Some ''Unable to access account'') [] (snd (cmd_accerr rc w)))))))"

section \<open>The daily charge\<close>

text \<open>The accounts from \<open>i\<close> on, \<open>n\<close> of them: a reply when one cannot be read.\<close>

fun charge_loop :: "nat \<Rightarrow> int \<Rightarrow> isdata \<Rightarrow> 'a session_scheme \<Rightarrow> ('a reply + 'a session_scheme) option" where
  "charge_loop 0 i d w = Some (Inr w)"
| "charge_loop (Suc n) i d w =
     Option.bind (acc_charge_trans (Accbase w) (Logbase w) i (Some d) w) (\<lambda>(rc, w).
       if rc \<noteq> ACC_NOCHARGE
       then (if rc = IO_ERROR then Some (Inl (io_error w))
             else charge_loop n (i + 1) d (say RET_COMMENT ''#%d - %s'' [AI i, AS (rc_text rc)] w))
       else charge_loop n (i + 1) d w)"

definition cmdh_docharge :: "string \<Rightarrow> ptr \<Rightarrow> 'a session_scheme \<Rightarrow> 'a reply" where
  "cmdh_docharge cmd args w =
     (let d = isdata_zero\<lparr>is_res_id := 0, is_user_id := 0, is_proto_id := 0x40000000\<rparr>
      in case acc_reccount (Accbase w) w of (recs, w) \<Rightarrow>
         if recs < 0 then io_error w
         else Option.bind (charge_loop (nat recs) 0 d w) (\<lambda>r. case r of
             Inl r \<Rightarrow> r
           | Inr w \<Rightarrow> ret RET_SUCCESS (Some ''(success for module)'') [] (w\<lparr>NeedUpdate := 1\<rparr>)))"

section \<open>Showing accounts\<close>

text \<open>All accounts from \<open>i\<close> on, \<open>n\<close> of them, except the deleted ones; \<open>acc\<close> is the buffer they are read into.\<close>

fun show_loop :: "nat \<Rightarrow> int \<Rightarrow> acc \<Rightarrow> 'a session_scheme \<Rightarrow> 'a reply" where
  "show_loop 0 i acc w = ret RET_SUCCESS None [] w"
| "show_loop (Suc n) i acc w = (case acc_get (Accbase w) i acc w of (rc, acc, w) \<Rightarrow>
     if rc = IO_ERROR then io_error w
     else if a_tag acc AND ATAG_DELETED \<noteq> 0 then show_loop n (i + 1) acc w
     else Option.bind (acc_state_out acc w) (\<lambda>(_, w). show_loop n (i + 1) acc w))"

definition account_args :: "int \<Rightarrow> acc \<Rightarrow> double \<Rightarrow> arg list" where
  "account_args accno acc limit =
     [AI accno, AI (uint (a_tag acc)), AD (a_balance acc), AI (sint (a_start acc)), AI (sint (a_stop acc)),
      AI (sint (a_tariff acc)), AD limit, AI (sint (a_inet_summ_in acc)), AI (sint (a_inet_summ_out acc)),
      AD (a_money_summ acc), AI (sint (a_summ_rsttime acc)), AI (sint (a_res_balance acc)),
      AD (a_tcredit acc), AI (sint (a_res_tcredit acc))]"

definition cmdh_acc :: "string \<Rightarrow> ptr \<Rightarrow> 'a session_scheme \<Rightarrow> 'a reply" where
  "cmdh_acc cmd args w =
     (case cmd_getaccno args None w of (accno, p, _, w) \<Rightarrow>
        if accno \<noteq> - 1
        then (case acc_get (Accbase w) accno (stack_acc w) w of (rc, acc, w) \<Rightarrow>
          if rc = IO_ERROR then io_error w
          else if rc = NOT_FOUND then ret ERR_NOACC None [] w
          else Option.bind (acc_state_out acc w) (\<lambda>(_, w).
               Option.bind (acc_limit acc w) (\<lambda>limit.
                 ret RET_SUCCESS (Some []) []
                   (say RET_STR ''%d %d %e %d %d %d %g %lld %lld %g %d %lld %e %lld'' (account_args accno acc limit) w))))
        else if fst (next_token p CMD_DELIM) \<noteq> None then ret ERR_NOACC None [] w
        else (case acc_reccount (Accbase w) w of (recs, w) \<Rightarrow>
          if recs < 0 then io_error w
          else show_loop (nat recs) 0 (stack_acc w) w))"

section \<open>Payments on a machine without faults\<close>

lemma log_ready_calm: "calm P w v \<Longrightarrow> path \<notin> P \<Longrightarrow> log_records path v = log_records path w"
  using log_ready_quiet(2)[of P "hush w" "hush v" path]
  by (simp add: calm_def log_records_def file_recs_def)

lemma accounts_calm: "calm P w v \<Longrightarrow> path \<notin> P \<Longrightarrow> accounts path v = accounts path w"
  by (rule acc_ready_calm(2))

text \<open>The reply of a successful payment only talks.\<close>

lemma success_reply:
  "\<exists>rc w'. ret RET_SUCCESS None [] ((say RET_COMMENT f args v)\<lparr>NeedUpdate := 1\<rparr>) = Some (rc, w') \<and>
     calm {} v w' \<and> NeedUpdate w' = 1"
proof -
  obtain rc w' where o: "cmd_out RET_SUCCESS None [] ((say RET_COMMENT f args v)\<lparr>NeedUpdate := 1\<rparr>) = (rc, w')" by fastforce
  have nu: "NeedUpdate (snd (cmd_out e g as u)) = NeedUpdate u" for e g as and u :: "'a session_scheme"
    by (auto simp: cmd_out_def link_puts_def send_line_def sys_send_def next_outcome_def Let_def split: prod.splits list.splits)
  have "calm {} ((say RET_COMMENT f args v)\<lparr>NeedUpdate := 1\<rparr>) w'" by (rule calm_out[OF o])
  moreover have "calm {} v ((say RET_COMMENT f args v)\<lparr>NeedUpdate := 1\<rparr>)" by simp
  ultimately have "calm {} v w'" by (blast intro: calm_trans)
  with o nu[of RET_SUCCESS None "[]" "(say RET_COMMENT f args v)\<lparr>NeedUpdate := 1\<rparr>"] show ?thesis by (simp add: ret_def)
qed

text \<open>
  C11: The payment command does what the operator means: on a machine without faults \<open>add N X\<close>
  adds \<open>X\<close> to the balance of account \<open>N\<close> alone, ends its temporary credit, appends one log
  record with that account, the amount and the balance found, and asks for an update of the access lists.\<close>

theorem payment_command:
  assumes ready: "bee_ready (Accbase w) apath (Logbase w) lpath w"
    and i: "i < length (accounts apath w)" "i < 2 ^ 31" and sound: "acc_sound (int i) (accounts apath w ! i) w"
    and st: "acc_state (accounts apath w ! i) (now (tick w)) \<in> {SUCCESS, NEGATIVE, ACC_OFF, ACC_UNLIMIT}"
    and args: "next_token args CMD_DELIM = (Some (dec_nat i), p)" "next_token p CMD_DELIM = (Some x, q)"
      "hd x \<noteq> CHR ''*''" "fst (next_token q CMD_DELIM) = None"
  shows "\<exists>rc w' r. cmdh_add cmd args w = Some (rc, w') \<and> NeedUpdate w' = 1 \<and>
    log_records lpath w' = log_records lpath w @ [r] \<and> sint (lr_accno r) = int i \<and>
    lr_sum r = dsub (atof x) 0 \<and> lr_balance r = a_balance (accounts apath w ! i) \<and>
    a_balance (accounts apath w' ! i) = dadd (a_balance (accounts apath w ! i)) (dsub (atof x) 0) \<and>
    a_tcredit (accounts apath w' ! i) = 0 \<and> length (accounts apath w') = length (accounts apath w) \<and>
    (\<forall>j. j \<noteq> i \<longrightarrow> accounts apath w' ! j = accounts apath w ! j)"
proof -
  let ?a = "accounts apath w ! i"
  define d where "d = (let d = isdata_zero\<lparr>is_res_id := 2, is_user_id := word_of_int (int i)\<rparr>
      in case peer_addr w of None \<Rightarrow> d | Some a \<Rightarrow> d\<lparr>is_host := a\<rparr>)"
  have dr: "sint (is_res_id d) = RES_ADDER" by (simp add: d_def Let_def split: option.split)
  define s where "s = dsub (atof x) 0"
  have z: "deq 0 0" by (simp add: deq_def fdecode_def)
  have amt: "transaction_sum d (atof x) 0 ?a (tick (tick w)) = Some (s, d, ?a, tick (tick w))"
    by (simp add: transaction_sum_def dr s_def z)
  define rc where "rc = acc_state ?a (now (tick w))"
  have wr: "rc \<ge> 0 \<or> rc = ACC_OFF" and po: "tx_posts rc d" using st by (auto simp: tx_posts_def dr rc_def)
  define b where "b = acc_stamp (tx_account rc d s ?a) (now (tick (tick w))) w"
  define r where "r = (log_head (now w) (int i) rc ?a)
      \<lparr>lr_sum := (if tx_unlogged d (tx_account rc d s ?a) then 0 else s), lr_isdata := d\<rparr>"
  from transaction_nf[OF ready i(1) sound amt] wr obtain v code where
    t: "acc_transaction (Accbase w) (Logbase w) (int i) (Some d) (atof x) 0 w = Some (code, Some d, v)"
      "accs_state b w = Some code" "accounts apath v = (accounts apath w)[i := b]"
      "log_records lpath v = log_records lpath w @ [r\<lparr>lr_crc := logrec_crc r w\<rparr>]"
    unfolding rc_def[symmetric] b_def r_def by auto
  have code: "code \<ge> 0" using t(2) by (auto simp: accs_state_def split: if_splits)
  have add: "cmd_add (int i) (atof x) 0 w = Some (code, v)"
    using t(1) unfolding cmd_add_def d_def Let_def by simp
  have "next_token args CMD_DELIM = (Some (dec_nat i), p)" by (rule args(1))
  note g = getaccno_number[OF this i(2), of w]
  have x: "x \<noteq> []" using args(2) next_token_Some[of _ CMD_DELIM x q] by (cases p) auto
  have h: "cmdh_add cmd args w = ret RET_SUCCESS None [] ((say RET_COMMENT ''Transaction successful'' [] v)\<lparr>NeedUpdate := 1\<rparr>)"
    using args(2-4) x code by (simp add: cmdh_add_def g add_amount_def add)
  obtain c w' where w': "cmdh_add cmd args w = Some (c, w')" "calm {} v w'" "NeedUpdate w' = 1"
    using success_reply[of "''Transaction successful''" "[]" v] h by auto
  have A: "accounts apath w' = (accounts apath w)[i := b]" using accounts_calm[OF w'(2)] t(3) by simp
  have L: "log_records lpath w' = log_records lpath w @ [r\<lparr>lr_crc := logrec_crc r w\<rparr>]" using log_ready_calm[OF w'(2)] t(4) by simp
  have "\<not> tx_unlogged d (tx_account rc d s ?a)" by (simp add: tx_unlogged_def dr)
  moreover have "lr_balance (log_head (now w) (int i) rc ?a) = a_balance ?a" using wr by (auto simp: log_head_def Let_def)
  moreover have "lr_accno (log_head (now w) (int i) rc ?a) = word_of_int (int i)" by (simp add: log_head_def Let_def)
  moreover have "sint (word_of_int (int i) :: u32) = int i" by (rule sint_word_of_int_32) (use i(2) in \<open>simp add: in_i32_def\<close>)
  ultimately have "lr_sum r = s" "lr_balance r = a_balance ?a" "sint (lr_accno r) = int i" by (simp_all add: r_def)
  moreover have "a_balance b = dadd (a_balance ?a) s" "a_tcredit b = 0"
    using po by (simp_all add: b_def tx_account_def dr Let_def)
  ultimately show ?thesis
    using w'(1,3) A L i(1) unfolding s_def by (intro exI[of _ c] exI[of _ w'] exI[of _ "r\<lparr>lr_crc := logrec_crc r w\<rparr>"]) simp
qed

lemma demo_session_bee: "bee_ready (Accbase demo_session) ''acc'' (Logbase demo_session) ''log'' demo_session"
  using demo_ready
  by (simp add: bee_ready_def acc_ready_def log_ready_def file_ready_def open_on_def no_faults_def bases_free_def fd_lock_def
      demo_session_sel demo_access_sel)

theorem payment_command_witness:
  "\<exists>rc w'. cmdh_add ''add'' (Some ''0 2.5'') demo_session = Some (rc, w') \<and> NeedUpdate w' = 1 \<and>
     a_balance (accounts ''acc'' w' ! 0) = dadd d_mebi (dsub (atof ''2.5'') 0)"
proof -
  have a: "next_token (Some ''0 2.5'') CMD_DELIM = (Some (dec_nat 0), Some ''2.5'')"
    "next_token (Some ''2.5'') CMD_DELIM = (Some ''2.5'', None)" by code_simp+
  have "\<not> dlt d_mebi d_cent" by (simp add: dlt_def d_mebi_def d_cent_def fdecode_def fixpt_def Let_def)
  then have st: "acc_state (demo_acc 0 d_mebi) t = SUCCESS" for t by (simp add: acc_state_def demo_acc_def decode_acc_def)
  have bal: "a_balance (demo_acc 0 d_mebi) = d_mebi" by (simp add: demo_acc_def)
  show ?thesis
    using payment_command[OF demo_session_bee, of 0 "Some ''0 2.5''" "Some ''2.5''" "''2.5''" None "''add''"] demo_session_ready(3) a
    by (simp add: demo_session_ready(2) st bal del: next_token.simps(2)) blast
qed

end
