(* ===== verification/GateFile.thy ===== *)
theory GateFile
  imports Links
begin

text \<open>
  The gate file (\<open>src/src/bee/lib/db/links.c\<close>): what \<open>reslinks_save\<close> writes is what
  \<open>reslinks_load\<close> reads.  Tables that survive the round trip (\<open>table_ok\<close>), the text of their
  file, and the two functions on a machine without faults; \<open>reslink_new\<close> and \<open>reslink_del\<close>
  keep a table in that form.
\<close>

section \<open>Lines and tokens\<close>

lemma fgets_line:
  "CHR 0x0A \<notin> set l \<Longrightarrow> length l + 1 < n \<Longrightarrow> fgets n (l @ CHR 0x0A # s) = (l @ [CHR 0x0A], s)"
proof (induction l arbitrary: n)
  case Nil
  then obtain m where "n = Suc (Suc m)" by (metis Suc_eq_plus1 add_0 less_iff_Suc_add list.size(3) add_Suc)
  then show ?case by simp
next
  case (Cons c l)
  then obtain m where "n = Suc (Suc m)" by (metis Suc_eq_plus1 less_iff_Suc_add list.size(4) add_Suc)
  moreover have "c \<noteq> CHR 0x0A" using Cons.prems by auto
  ultimately show ?case using Cons by simp
qed

lemma strsep_token: "set t \<inter> set d = {} \<Longrightarrow> c \<in> set d \<Longrightarrow> strsep (t @ c # r) d = (t, Some r)"
  by (induction t) auto

lemma next_token_word:
  "t \<noteq> [] \<Longrightarrow> set t \<inter> set d = {} \<Longrightarrow> c \<in> set d \<Longrightarrow> next_token (Some (t @ c # r)) d = (Some t, Some r)"
  by (simp add: strsep_token)

lemma next_token_last: "t \<noteq> [] \<Longrightarrow> set t \<inter> set d = {} \<Longrightarrow> next_token (Some t) d = (Some t, None)"
  using strsep_no_delim[of t d] by (simp add: disjoint_iff)

lemma next_token_skip: "c \<in> set d \<Longrightarrow> next_token (Some (c # s)) d = next_token (Some s) d"
  by simp

lemma strtrim_line:
  assumes "u \<noteq> []" "hd u \<notin> set d" "last u \<notin> set d" "c \<in> set d"
  shows "strtrim (Some (u @ [c])) d = Some u"
proof -
  obtain x v where u: "u = x # v" "x \<notin> set d" using assms(1,2) by (cases u) auto
  obtain y t where t: "rev u = y # t" "y \<notin> set d" using assms(1,3) by (metis hd_rev list.collapse rev_is_Nil_conv)
  have f: "strtrim_front (u @ [c]) d = u @ [c]" using u by simp
  have "strtrim_back (u @ [c]) d (length u) = rev (dropWhile (\<lambda>c. c \<in> set d) (rev (u @ [c])))"
    using u by (intro strtrim_back_rev) simp_all
  also have "\<dots> = u" using assms(4) t rev_swap[of u "y # t"] by simp
  finally show ?thesis by (simp add: strtrim_def f Let_def)
qed

lemma digit_plain: "is_digit 10 c \<Longrightarrow> c \<notin> {CHR '' '', CHR '','', CHR 0x09, CHR 0x0A, CHR 0x0D, CHR ''/'', CHR ''.'', CHR 0x00}"
  by (auto simp: is_digit_def digit_val_def Let_def)

lemma dec_int_plain:
  "dec_int x \<noteq> []" "set (dec_int x) \<inter> {CHR '' '', CHR '','', CHR 0x09, CHR 0x0A, CHR 0x0D, CHR ''/'', CHR 0x00} = {}"
proof -
  have d: "set (dec_nat n) \<inter> {CHR '' '', CHR '','', CHR 0x09, CHR 0x0A, CHR 0x0D, CHR ''/'', CHR 0x00} = {}" for n
    using dec_nat_digits[of n] digit_plain by blast
  show "dec_int x \<noteq> []" using dec_nat_hd[of "nat x"] by (auto simp: dec_int_def)
  show "set (dec_int x) \<inter> {CHR '' '', CHR '','', CHR 0x09, CHR 0x0A, CHR 0x0D, CHR ''/'', CHR 0x00} = {}"
    using d[of "nat (- x)"] d[of "nat x"] by (auto simp: dec_int_def)
qed

lemma atol_dec_int: "in_i32 x \<Longrightarrow> atol (dec_int x) = x"
  by (simp add: strtol_def scan_int_dec_int in_i32_def)

section \<open>The text of an address\<close>

lemma dec_nat_byte:
  "n < 10 \<Longrightarrow> dec_nat n = [char_of (48 + n)]"
  "10 \<le> n \<Longrightarrow> n < 100 \<Longrightarrow> dec_nat n = [char_of (48 + n div 10), char_of (48 + n mod 10)]"
  "100 \<le> n \<Longrightarrow> n < 1000 \<Longrightarrow> dec_nat n = [char_of (48 + n div 100), char_of (48 + n div 10 mod 10), char_of (48 + n mod 10)]"
proof -
  show "n < 10 \<Longrightarrow> dec_nat n = [char_of (48 + n)]" by (simp add: dec_nat.simps[of n])
  show two: "10 \<le> n \<Longrightarrow> n < 100 \<Longrightarrow> dec_nat n = [char_of (48 + n div 10), char_of (48 + n mod 10)]" for n
    by (simp add: dec_nat.simps[of n] dec_nat.simps[of "n div 10"] div_less_iff_less_mult)
  show "dec_nat n = [char_of (48 + n div 100), char_of (48 + n div 10 mod 10), char_of (48 + n mod 10)]"
    if "100 \<le> n" "n < 1000"
  proof -
    have "10 \<le> n div 10" "n div 10 < 100" using that by (simp_all add: div_less_iff_less_mult less_eq_div_iff_mult_less_eq)
    from two[OF this] that show ?thesis by (simp add: dec_nat.simps[of n] div_mult2_eq[of n 10 10, simplified])
  qed
qed

lemma pton_digit:
  "d < 10 \<Longrightarrow> length octs < 4 \<Longrightarrow> inet_pton_loop (char_of (48 + d) # s) octs False = inet_pton_loop s (octs @ [d]) True"
  "d < 10 \<Longrightarrow> v * 10 + d < 256 \<Longrightarrow>
     inet_pton_loop (char_of (48 + d) # s) (octs @ [v]) True = inet_pton_loop s (octs @ [v * 10 + d]) True"
  by (simp_all add: is_digit_def digit_val_digit Let_def del: of_char_of char_of_mod_256)

lemma pton_octet:
  assumes "n < 256" "length octs < 4"
  shows "inet_pton_loop (dec_nat n @ s) octs False = inet_pton_loop s (octs @ [n]) True"
proof -
  have m: "n mod 10 < 10" "n div 10 mod 10 < 10" by simp_all
  consider "n < 10" | "10 \<le> n" "n < 100" | "100 \<le> n" "n < 1000" using assms by linarith
  then show ?thesis
  proof cases
    case 1
    with assms show ?thesis by (simp only: dec_nat_byte(1) append.simps pton_digit(1))
  next
    case 2
    then have "n div 10 < 10" by (simp add: div_less_iff_less_mult)
    from pton_digit(1)[OF this assms(2)] pton_digit(2)[OF m(1), of "n div 10"] assms(1) 2 show ?thesis
      by (simp only: dec_nat_byte(2) append.simps div_mult_mod_eq)
  next
    case 3
    then have "n div 100 < 10" by (simp add: div_less_iff_less_mult)
    moreover have "n div 100 = n div 10 div 10" by (simp add: div_mult2_eq[of n 10 10, simplified])
    moreover have "n div 10 < 256" using assms(1) by (simp add: div_less_iff_less_mult)
    ultimately show ?thesis
      using pton_digit(1)[of "n div 10 div 10" octs] pton_digit(2)[OF m(1), of "n div 10"]
        pton_digit(2)[OF m(2), of "n div 10 div 10"] assms 3
      by (simp only: dec_nat_byte(3) append.simps div_mult_mod_eq)
  qed
qed

lemma pton_dot: "octs \<noteq> [] \<Longrightarrow> length octs < 4 \<Longrightarrow> inet_pton_loop (CHR ''.'' # s) octs True = inet_pton_loop s octs False"
  by (simp add: is_digit_def digit_val_def)

lemma inet_pton_ntop: "inet_pton (inet_ntop a) = Some a"
proof -
  obtain p q r s where b: "le_bytes 4 (unat a) = [p, q, r, s]"
    using le_bytes_4 by blast
  have t: "unat x < 256" for x :: byte by (rule unat_lt2p8)
  have e: "inet_ntop a = dec_nat (unat p) @ CHR ''.'' # dec_nat (unat q) @ CHR ''.'' # dec_nat (unat r) @ CHR ''.'' # (dec_nat (unat s) @ [])"
    by (simp add: inet_ntop_def b)
  have "inet_pton_loop (inet_ntop a) [] False = Some [unat p, unat q, unat r, unat s]"
    unfolding e by (simp add: pton_octet[OF t] pton_dot del: append_Nil2 inet_pton_loop.simps(2))
  then have "inet_pton (inet_ntop a) = Some (word_of_nat (un_le (le_bytes 4 (unat a))))"
    by (simp add: inet_pton_def b)
  moreover have "un_le (le_bytes 4 (unat a)) = unat a"
    using unsigned_less[of a, where 'a = nat] by (simp add: un_le_bytes)
  ultimately show ?thesis by simp
qed

lemma length_inet_ntop: "length (inet_ntop a) \<le> 15" "inet_ntop a \<noteq> []" "set (inet_ntop a) \<inter> {CHR ''/'', CHR '' '', CHR '','', CHR 0x09, CHR 0x0A, CHR 0x0D, CHR 0x00} = {}"
proof -
  obtain p q r s where b: "le_bytes 4 (unat a) = [p, q, r, s]"
    using le_bytes_4 by blast
  have e: "inet_ntop a = dec_nat (unat p) @ CHR ''.'' # dec_nat (unat q) @ CHR ''.'' # dec_nat (unat r) @ CHR ''.'' # dec_nat (unat s)"
    by (simp add: inet_ntop_def b)
  have l: "length (dec_nat (unat x)) \<le> 3" for x :: byte
    using unat_lt2p8[of x] dec_nat_byte[of "unat x"] by (cases "unat x < 10"; cases "unat x < 100") simp_all
  show "length (inet_ntop a) \<le> 15" using l[of p] l[of q] l[of r] l[of s] by (simp add: e)
  show "inet_ntop a \<noteq> []" by (simp add: e)
  show "set (inet_ntop a) \<inter> {CHR ''/'', CHR '' '', CHR '','', CHR 0x09, CHR 0x0A, CHR 0x0D, CHR 0x00} = {}"
    using dec_nat_digits digit_plain unfolding e by fastforce
qed

text \<open>The identifier made of an address and a mask names them.\<close>

lemma mask_of_bits: "make_addr_mask b = make_addr_mask (min 32 (max 0 b))"
  by (auto simp: make_addr_mask_def min_def max_def)

lemma mask2bits_make: "0 \<le> b \<Longrightarrow> b \<le> 32 \<Longrightarrow> mask2bits (make_addr_mask b) = b"
  by (rule bits_cases[of b]) (use mask2bits_all in \<open>auto simp: list_all_iff make_addr_mask_host simp del: upt_rec_numeral\<close>)

lemma addrandmask_bits:
  assumes "make_addrandmask s = Some (addr, m)"
  shows "\<exists>b. 0 \<le> b \<and> b \<le> 32 \<and> m = make_addr_mask b"
proof -
  have "make_addr_mask 32 = 0xffffffff" by (simp add: make_addr_mask_def)
  then show ?thesis using assms
    by (auto simp: make_addrandmask_def Let_def simp del: next_token.simps split: prod.splits option.splits if_splits)
       (metis order.refl zero_le_numeral, metis linorder_not_le)
qed

lemma ident_names:
  assumes "make_addrandmask s = Some (addr, m)"
  shows "make_addrandmask (inet_ident addr m) = Some (addr, m)" "length (inet_ident addr m) \<le> 18"
    "inet_ident addr m \<noteq> []" "set (inet_ident addr m) \<inter> {CHR '' '', CHR '','', CHR 0x09, CHR 0x0A, CHR 0x0D, CHR 0x00} = {}"
proof -
  obtain b where b: "0 \<le> b" "b \<le> 32" "m = make_addr_mask b" using addrandmask_bits[OF assms] by blast
  then have mb: "mask2bits m = b" by (simp add: mask2bits_make)
  have lb: "length (dec_int b) \<le> 2" using b dec_nat_byte[of "nat b"] by (cases "nat b < 10") (simp_all add: dec_int_def)
  show l: "length (inet_ident addr m) \<le> 18"
    using length_inet_ntop(1)[of addr] lb by (simp add: inet_ident_def mb)
  show "inet_ident addr m \<noteq> []" by (simp add: inet_ident_def)
  show "set (inet_ident addr m) \<inter> {CHR '' '', CHR '','', CHR 0x09, CHR 0x0A, CHR 0x0D, CHR 0x00} = {}"
    using length_inet_ntop(3)[of addr] dec_int_plain(2)[of b] by (auto simp: inet_ident_def mb)
  have cut: "strlcpy (inet_ident addr m) 32 = inet_ntop addr @ CHR ''/'' # dec_int b"
    using l by (simp add: strlcpy_def inet_ident_def mb)
  have t: "next_token (Some (inet_ntop addr @ CHR ''/'' # dec_int b)) ''/'' = (Some (inet_ntop addr), Some (dec_int b))"
    using length_inet_ntop(2,3)[of addr] by (intro next_token_word) auto
  have u: "next_token (Some (dec_int b)) ''/'' = (Some (dec_int b), None)"
    using dec_int_plain[of b] by (intro next_token_last) auto
  have "in_i32 b" "i8 b = b" using b by (simp_all add: in_i32_def i8_def)
  then have "i8 (atol (dec_int b)) = b" by (simp add: atol_dec_int)
  with b(1,2) make_addrandmask_net[OF assms] show "make_addrandmask (inet_ident addr m) = Some (addr, m)"
    by (simp add: make_addrandmask_def cut t u inet_pton_ntop Let_def b(3)[symmetric] del: next_token.simps)
qed

section \<open>Tables that survive the file\<close>

text \<open>
  An entry that its line can carry: numbers of a C \<open>int\<close>, an identifier without blanks at its
  ends that leaves the line within the 128 bytes \<open>reslinks_load\<close> reads at a time, and for the
  address gates the identifier made of address and mask.
\<close>

definition gate_ok :: "reslink \<Rightarrow> bool" where
  "gate_ok l \<longleftrightarrow> 0 \<le> rl_res_id l \<and> rl_res_id l < resourcecnt \<and> in_i32 (rl_user_id l) \<and> in_i32 (rl_accno l) \<and>
     rl_username l \<noteq> [] \<and> hd (rl_username l) \<notin> set DELIM \<and> last (rl_username l) \<notin> set DELIM \<and>
     CHR 0x0A \<notin> set (rl_username l) \<and> CHR 0x00 \<notin> set (rl_username l) \<and> length (save_line l) < 128 \<and> rl_allow l \<and>
     (if rl_res_id l = RES_INET
      then make_addrandmask (rl_username l) = Some (rl_addr l, rl_mask l) \<and> rl_username l = inet_ident (rl_addr l) (rl_mask l)
      else rl_addr l = 0 \<and> rl_mask l = 0)"

text \<open>No address gate meets an earlier one.\<close>

definition clear_of :: "reslink \<Rightarrow> reslink \<Rightarrow> bool" where
  "clear_of l k \<longleftrightarrow> (rl_res_id k = RES_INET \<longrightarrow> \<not> link_intersects (rl_addr k) (rl_mask k) l)"

definition table_ok :: "reslink list \<Rightarrow> bool" where
  "table_ok tab \<longleftrightarrow> (\<forall>l \<in> set tab. gate_ok l) \<and> sorted_wrt clear_of tab"

definition gate_text :: "reslink list \<Rightarrow> string" where
  "gate_text tab = save_head @ concat (map save_line tab)"

lemma resource_names:
  "list_all (\<lambda>n. res_index (r_name (resource ! n)) = int n \<and> r_name (resource ! n) \<noteq> [] \<and>
     list_all (\<lambda>c. c \<notin> set DELIM \<and> c \<noteq> CHR 0x00) (r_name (resource ! n))) [0..<8]"
  by code_simp

lemma resource_name:
  assumes "0 \<le> rid" "rid < resourcecnt"
  shows "res_index (r_name (resource ! nat rid)) = rid" "r_name (resource ! nat rid) \<noteq> []"
    "set (r_name (resource ! nat rid)) \<inter> set DELIM = {}" "CHR 0x00 \<notin> set (r_name (resource ! nat rid))"
proof -
  have "nat rid \<in> set [0..<8]" using assms by (simp add: resourcecnt_def nat_less_iff del: upt_rec_numeral)
  with resource_names have r: "res_index (r_name (resource ! nat rid)) = int (nat rid)" "r_name (resource ! nat rid) \<noteq> []"
    "list_all (\<lambda>c. c \<notin> set DELIM \<and> c \<noteq> CHR 0x00) (r_name (resource ! nat rid))"
    unfolding list_all_iff[of _ "[0..<8]"] by blast+
  then show "res_index (r_name (resource ! nat rid)) = rid" "r_name (resource ! nat rid) \<noteq> []"
    "set (r_name (resource ! nat rid)) \<inter> set DELIM = {}" "CHR 0x00 \<notin> set (r_name (resource ! nat rid))"
    using assms(1) unfolding list_all_iff by auto
qed

lemma DELIM_set: "set DELIM = {CHR '' '', CHR '','', CHR 0x09, CHR 0x0A, CHR 0x0D}"
  by (simp add: DELIM_def)

text \<open>The entry a line describes, before its address is looked at.\<close>

definition bare :: "reslink \<Rightarrow> reslink" where
  "bare l = reslink_zero\<lparr>rl_allow := True, rl_res_id := rl_res_id l, rl_user_id := rl_user_id l,
     rl_accno := rl_accno l, rl_username := rl_username l\<rparr>"

lemma parse_save_line:
  assumes "gate_ok l"
  shows "parse_link (c_str (save_line l)) = Some (bare l)"
proof -
  let ?n = "r_name (resource ! nat (rl_res_id l))"
  note n = resource_name[of "rl_res_id l"]
  have r: "0 \<le> rl_res_id l" "rl_res_id l < resourcecnt" and u: "rl_username l \<noteq> []" "hd (rl_username l) \<notin> set DELIM"
      "last (rl_username l) \<notin> set DELIM" "CHR 0x00 \<notin> set (rl_username l)"
    and i: "in_i32 (rl_user_id l)" "in_i32 (rl_accno l)"
    using assms by (simp_all add: gate_ok_def)
  have T: "CHR 0x09 \<in> set DELIM" "CHR 0x0A \<in> set DELIM" by (simp_all add: DELIM_def)
  have di: "dec_int x \<noteq> []" "set (dec_int x) \<inter> set DELIM = {}" "CHR 0x00 \<notin> set (dec_int x)" for x
    using dec_int_plain[of x] unfolding DELIM_set by auto
  have "CHR 0x00 \<notin> set (save_line l)" using n(4)[OF r] di(3) u(4) by (simp add: save_line_def)
  then have c: "c_str (save_line l) = save_line l" by (auto simp: c_str_def takeWhile_eq_all_conv)
  have t1: "next_token (Some (save_line l)) DELIM = (Some ?n, Some (dec_int (rl_user_id l) @ CHR 0x09 #
      (dec_int (rl_accno l) @ CHR 0x09 # (rl_username l @ [CHR 0x0A]))))"
    using next_token_skip[OF T(1)] next_token_word[OF n(2)[OF r] n(3)[OF r] T(1)] by (simp add: save_line_def del: next_token.simps)
  show ?thesis
    using n(1)[OF r] r(2) next_token_word[OF di(1,2) T(1)] strtrim_line[OF u(1-3) T(2)] u(1) atol_dec_int i
    by (simp add: parse_link_def c t1 bare_def reslink_zero_def Let_def del: next_token.simps) (simp add: save_line_def)
qed

lemma load_gate:
  assumes "no_faults w" "gate_ok l" "\<forall>k \<in> set (linktab w). clear_of k l"
  shows "load_line (save_line l) w = (True, w\<lparr>linktab := linktab w @ [l]\<rparr>)"
proof -
  have mem: "sys_alloc w = (True, w)" using assms(1) by (simp add: sys_alloc_def next_outcome_no_faults)
  show ?thesis
  proof (cases "rl_res_id l = RES_INET")
    case True
    then have m: "make_addrandmask (rl_username l) = Some (rl_addr l, rl_mask l)" "rl_username l = inet_ident (rl_addr l) (rl_mask l)"
      using assms(2) unfolding gate_ok_def by metis+
    have "\<not> 0 \<le> fst (lookup_intersect (rl_addr l) (rl_mask l) None w)"
    proof
      obtain r j where rj: "link_scan (link_intersects (rl_addr l) (rl_mask l)) (linktab w) 0 = (r, j)" by fastforce
      assume "0 \<le> fst (lookup_intersect (rl_addr l) (rl_mask l) None w)"
      then have "0 \<le> r" using rj by (simp add: lookup_intersect_def)
      with link_scan_spec[where i = 0 and hit = "link_intersects (rl_addr l) (rl_mask l)" and tab = "linktab w"] rj
      have "j < int (length (linktab w))" "0 \<le> j" "link_intersects (rl_addr l) (rl_mask l) (linktab w ! nat j)"
        by (auto split: if_splits)
      then show False using assms(3) True by (auto simp: clear_of_def)
    qed
    moreover have "(bare l)\<lparr>rl_addr := rl_addr l, rl_mask := rl_mask l, rl_username := rl_username l\<rparr> = l"
      using assms(2) by (simp add: bare_def gate_ok_def reslink_zero_def)
    ultimately show ?thesis
      using True mem m by (simp add: load_line_def parse_save_line[OF assms(2)] Let_def) (simp add: bare_def)
  next
    case False
    then have "bare l = l" using assms(2) by (simp add: bare_def gate_ok_def reslink_zero_def)
    with False mem show ?thesis by (simp add: load_line_def parse_save_line[OF assms(2)] Let_def)
  qed
qed

section \<open>The whole file\<close>

lemma load_lines_line:
  "CHR 0x0A \<notin> set l \<Longrightarrow> length l < 127 \<Longrightarrow> load_lines (l @ CHR 0x0A # s) w =
     (case load_line (l @ [CHR 0x0A]) w of (cont, w) \<Rightarrow> if cont then load_lines s w else (False, w))"
  by (subst load_lines.simps) (simp add: fgets_line)

lemma save_line_body:
  assumes "gate_ok l"
  obtains b where "save_line l = b @ [CHR 0x0A]" "CHR 0x0A \<notin> set b" "length b < 127"
proof -
  define b where "b = [CHR 0x09] @ r_name (resource ! nat (rl_res_id l)) @ [CHR 0x09] @ dec_int (rl_user_id l) @
      [CHR 0x09] @ dec_int (rl_accno l) @ [CHR 0x09] @ rl_username l"
  have e: "save_line l = b @ [CHR 0x0A]" by (simp add: b_def save_line_def)
  have "CHR 0x0A \<notin> set (r_name (resource ! nat (rl_res_id l)))" "CHR 0x0A \<notin> set (dec_int x)" for x
    using resource_name(3)[of "rl_res_id l"] assms dec_int_plain(2)[of x] unfolding DELIM_set by (auto simp: gate_ok_def)
  then have "CHR 0x0A \<notin> set b" using assms unfolding b_def by (simp add: gate_ok_def)
  moreover have "length b < 127" using assms e by (simp add: gate_ok_def)
  ultimately show thesis using that e by blast
qed

lemma load_table:
  "no_faults w \<Longrightarrow> table_ok (linktab w @ tab) \<Longrightarrow>
     load_lines (concat (map save_line tab)) w = (True, w\<lparr>linktab := linktab w @ tab\<rparr>)"
proof (induction tab arbitrary: w)
  case Nil
  then show ?case by (simp add: load_lines.simps)
next
  case (Cons l tab)
  have ok: "gate_ok l" "\<forall>k \<in> set (linktab w). clear_of k l"
    using Cons.prems(2) by (auto simp: table_ok_def sorted_wrt_append)
  obtain b where b: "save_line l = b @ [CHR 0x0A]" "CHR 0x0A \<notin> set b" "length b < 127" using save_line_body[OF ok(1)] .
  let ?w = "w\<lparr>linktab := linktab w @ [l]\<rparr>"
  have "no_faults ?w" "table_ok (linktab ?w @ tab)" using Cons.prems by (simp_all add: no_faults_def)
  from Cons.IH[OF this] show ?case
    using load_gate[OF Cons.prems(1) ok] by (simp add: b(1) load_lines_line[OF b(2,3)])
qed

lemma load_text:
  assumes "no_faults w" "linktab w = []" "table_ok tab"
  shows "load_lines (gate_text tab) w = (True, w\<lparr>linktab := tab\<rparr>)"
proof -
  define h1 where "h1 = ''# Created by bee''"
  define h2 where "h2 = ''#'' @ [CHR 0x09] @ ''res'' @ [CHR 0x09] @ ''uid'' @ [CHR 0x09] @ ''acc'' @ [CHR 0x09] @ ''name''"
  have h: "gate_text tab = h1 @ CHR 0x0A # (h2 @ CHR 0x0A # concat (map save_line tab))"
    by (simp add: gate_text_def save_head_def h1_def h2_def)
  have "load_line (h1 @ [CHR 0x0A]) w = (True, w)" "load_line (h2 @ [CHR 0x0A]) w = (True, w)"
    by (simp_all add: load_line_def parse_link_def c_str_def h1_def h2_def)
  moreover have "CHR 0x0A \<notin> set h1" "length h1 < 127" "CHR 0x0A \<notin> set h2" "length h2 < 127"
    by (simp_all add: h1_def h2_def)
  ultimately show ?thesis using load_table[of w tab] assms by (simp add: h load_lines_line)
qed

lemma text_of_bytes: "text_of (bytes_of s) = s"
proof -
  have "unat (word_of_nat (of_char c) :: byte) = of_char c" for c
    using of_char_lt[of c] by (simp add: unat_of_nat)
  then show ?thesis by (simp add: text_of_def bytes_of_def comp_def)
qed

text \<open>Reading and writing the gate file on a machine without faults.\<close>

lemma reslinks_load_nf:
  assumes "no_faults w" "files w (conf_gatefile w) = Some (bytes_of (gate_text tab))" "table_ok tab"
  shows "reslinks_load LOCK_UN w = (0, w\<lparr>linktab := tab\<rparr>)"
proof -
  let ?w = "w\<lparr>linktab := []\<rparr>"
  have n: "no_faults ?w" using assms(1) by (simp add: no_faults_def)
  have "sys_fopen_r (conf_gatefile ?w) ?w = (Some (gate_text tab), ?w)"
    using assms(2) n by (simp add: sys_fopen_r_def next_outcome_no_faults text_of_bytes)
  with load_text[OF n _ assms(3)] show ?thesis by (simp add: reslinks_load_def Let_def)
qed

lemma fprintf_nf: "no_faults w \<Longrightarrow> sys_fprintf t s w = (True, t @ s, w)"
  by (simp add: sys_fprintf_def next_outcome_no_faults)

lemma save_lines_nf: "no_faults w \<Longrightarrow> save_lines ls t w = (True, t @ concat (map save_line ls), w)"
  by (induction ls arbitrary: t) (simp_all add: fprintf_nf)

lemma reslinks_save_nf:
  assumes "no_faults w" "conf_gatetemp w \<noteq> conf_gatefile w"
  shows "reslinks_save LOCK_UN w =
    (0, w\<lparr>files := (files w)(conf_gatetemp w := None, conf_gatefile w \<mapsto> bytes_of (gate_text (linktab w)))\<rparr>)"
proof -
  let ?v = "\<lambda>x. w\<lparr>files := (files w)(conf_gatetemp w \<mapsto> x)\<rparr>"
  have n: "no_faults (?v x)" for x using assms(1) by (simp add: no_faults_def)
  have o: "next_outcome (?v x) = (Done, ?v x)" for x by (rule next_outcome_no_faults[OF n])
  have "sys_fopen_w (conf_gatetemp w) w = (True, ?v [])"
    using assms(1) by (simp add: sys_fopen_w_def next_outcome_no_faults)
  moreover have "sys_fclose_w (conf_gatetemp w) t (?v x) = ?v (bytes_of t)" for t x
    by (simp add: sys_fclose_w_def o)
  moreover have "sys_rename (conf_gatetemp w) (conf_gatefile w) (?v x) =
      w\<lparr>files := (files w)(conf_gatetemp w := None, conf_gatefile w \<mapsto> x)\<rparr>" for x
    using assms(2) by (simp add: sys_rename_def o)
  ultimately show ?thesis
    by (simp add: reslinks_save_def Let_def fprintf_nf[OF n] save_lines_nf[OF n] gate_text_def)
qed

section \<open>Adding and removing gates\<close>

text \<open>An identifier that fits a line of the file.\<close>

definition name_ok :: "string \<Rightarrow> bool" where
  "name_ok s \<longleftrightarrow> s \<noteq> [] \<and> hd s \<notin> set DELIM \<and> last s \<notin> set DELIM \<and> CHR 0x0A \<notin> set s \<and> CHR 0x00 \<notin> set s \<and> length s < 94"

lemma length_dec_int32:
  assumes "in_i32 x"
  shows "length (dec_int x) \<le> 11"
proof -
  have "length (dec_nat (nat x)) \<le> 10" "length (dec_nat (nat (- x))) \<le> 10"
    using assms by (auto simp: in_i32_def intro!: length_dec_nat)
  then show ?thesis by (simp add: dec_int_def)
qed

lemma length_save_line:
  assumes "0 \<le> rl_res_id l" "rl_res_id l < resourcecnt" "in_i32 (rl_user_id l)" "in_i32 (rl_accno l)" "length (rl_username l) < 94"
  shows "length (save_line l) < 128"
proof -
  have "list_all (\<lambda>n. length (r_name (resource ! n)) \<le> 7) [0..<8]" by code_simp
  moreover have "nat (rl_res_id l) \<in> set [0..<8]" using assms by (simp add: resourcecnt_def nat_less_iff del: upt_rec_numeral)
  ultimately have "length (r_name (resource ! nat (rl_res_id l))) \<le> 7" unfolding list_all_iff by blast
  with length_dec_int32[OF assms(3)] length_dec_int32[OF assms(4)] assms(5) show ?thesis by (simp add: save_line_def)
qed

lemma res_faddr_inet: "0 \<le> rid \<Longrightarrow> rid < resourcecnt \<Longrightarrow> res_faddr rid \<longleftrightarrow> rid = RES_INET"
proof -
  have "list_all (\<lambda>n. r_fAddr (resource ! n) \<longleftrightarrow> n = 0) [0..<8]" by code_simp
  moreover assume "0 \<le> rid" "rid < resourcecnt"
  then have "nat rid \<in> set [0..<8]" by (simp add: resourcecnt_def nat_less_iff del: upt_rec_numeral)
  ultimately have "r_fAddr (resource ! nat rid) \<longleftrightarrow> nat rid = 0" unfolding list_all_iff by blast
  with \<open>0 \<le> rid\<close> show ?thesis by (simp add: res_faddr_def)
qed

lemma ident_ok: "make_addrandmask s = Some (addr, m) \<Longrightarrow> name_ok (inet_ident addr m)"
  using ident_names(2-4)[of s addr m] hd_in_set[of "inet_ident addr m"] last_in_set[of "inet_ident addr m"]
  unfolding name_ok_def DELIM_set by fastforce

lemma reslink_new_ok:
  assumes "reslink_new rid accno name w = (rc, w')" "table_ok (linktab w)"
    and "0 \<le> rid" "rid < resourcecnt" "in_i32 accno" "name_ok name"
  shows "table_ok (linktab w')"
proof (cases "rc = - 1 \<and> linktab w' = linktab w")
  case False
  from reslink_new_cases[OF assms(1)] False obtain k where
    k: "linktab w' = linktab w @ [k]" "rl_res_id k = rid" "rl_accno k = accno" "rl_allow k" "rl_user_id k = fresh_uid rid (linktab w)"
      "if res_faddr rid
       then make_addrandmask name = Some (rl_addr k, rl_mask k) \<and>
            (\<forall>l \<in> set (linktab w). \<not> link_intersects (rl_addr k) (rl_mask k) l) \<and>
            rl_username k = inet_ident (rl_addr k) (rl_mask k)
       else rl_addr k = 0 \<and> rl_mask k = 0 \<and> rl_username k = name"
    by auto
  have n: "name_ok (rl_username k)" using k(6) assms(6) ident_ok by (auto split: if_splits)
  have u: "in_i32 (rl_user_id k)" using k(5) i32_range by (simp add: fresh_uid_def)
  have "length (save_line k) < 128" using length_save_line[of k] k(2,3) u n assms(3-5) by (simp add: name_ok_def)
  moreover have "rid = RES_INET \<Longrightarrow> make_addrandmask (rl_username k) = Some (rl_addr k, rl_mask k)"
    using k(6) ident_names(1)[of name "rl_addr k" "rl_mask k"] res_faddr_inet[OF assms(3,4)] by auto
  ultimately have "gate_ok k"
    using k n u assms(3-5) res_faddr_inet[OF assms(3,4)] by (auto simp: gate_ok_def name_ok_def)
  moreover have "\<forall>l \<in> set (linktab w). clear_of l k"
    using k(2,6) res_faddr_inet[OF assms(3,4)] by (simp add: clear_of_def)
  ultimately show ?thesis using assms(2) k(1) by (auto simp: table_ok_def sorted_wrt_append)
qed (use assms(2) in simp)

lemma table_ok_remove: "table_ok (xs @ ys @ zs) \<Longrightarrow> table_ok (xs @ zs)"
  by (auto simp: table_ok_def sorted_wrt_append)

lemma reslink_del_ok:
  assumes "reslink_del i w = (rc, w')" "table_ok (linktab w)"
  shows "table_ok (linktab w')"
proof -
  let ?t = "take (nat i) (linktab w) @ drop (nat i + 1) (linktab w)"
  have "table_ok ?t"
    using table_ok_remove[of "take (nat i) (linktab w)" "take 1 (drop (nat i) (linktab w))" "drop (nat i + 1) (linktab w)"] assms(2)
    by (metis append_take_drop_id drop_drop add.commute)
  moreover obtain m v where v: "sys_alloc (w\<lparr>linktab := ?t\<rparr>) = (m, v)" by fastforce
  ultimately show ?thesis using assms alloc_linktab[OF v] v by (auto simp: reslink_del_def Let_def split: if_splits)
qed

lemma table_ok_disjoint: "table_ok tab \<Longrightarrow> nets_disjoint tab"
proof (induction tab rule: rev_induct)
  case (snoc k tab)
  have n: "net_ok l" if "l \<in> set (tab @ [k])" for l
    using snoc.prems that make_addrandmask_net
    by (auto simp: table_ok_def gate_ok_def net_ok_def split: if_splits)
  have c: "\<forall>l \<in> set tab. clear_of l k" "gate_ok k" using snoc.prems by (auto simp: table_ok_def sorted_wrt_append)
  have "disjoint_nets l k" if "l \<in> set tab" for l
  proof (cases "rl_res_id k = RES_INET")
    case True
    with c that n not_intersects_disjoint show ?thesis by (simp add: clear_of_def)
  next
    case False
    with c(2) show ?thesis by (simp add: gate_ok_def disjoint_nets_def)
  qed
  with snoc n show ?case by (simp add: nets_disjoint_snoc table_ok_def sorted_wrt_append)
qed simp

lemma alloc_nf: "no_faults w \<Longrightarrow> sys_alloc w = (True, w)"
  by (simp add: sys_alloc_def next_outcome_no_faults)

lemma reslink_new_nf: "no_faults w \<Longrightarrow> reslink_new rid accno name w = (rc, w') \<Longrightarrow> w' = w\<lparr>linktab := linktab w'\<rparr>"
  by (auto simp: reslink_new_def alloc_nf Let_def split: if_splits option.splits)

lemma reslink_del_nf: "no_faults w \<Longrightarrow> reslink_del i w = (rc, w') \<Longrightarrow> w' = w\<lparr>linktab := linktab w'\<rparr>"
  using alloc_nf[of "w\<lparr>linktab := x\<rparr>" for x]
  by (auto simp: reslink_del_def no_faults_def Let_def split: if_splits prod.splits)

section \<open>Property\<close>

text \<open>
  C15: What is saved is loaded: on a machine without faults \<open>reslinks_save\<close> writes a file from which
  \<open>reslinks_load\<close> restores exactly the table in memory, whatever was in memory before, provided
  each gate fits a line and the networks are clear of each other.\<close>

theorem gate_file_roundtrip:
  assumes "no_faults w" "conf_gatetemp w \<noteq> conf_gatefile w" "table_ok (linktab w)"
  shows "\<exists>v. reslinks_save LOCK_UN w = (0, v) \<and>
    files v (conf_gatefile w) = Some (bytes_of (gate_text (linktab w))) \<and>
    reslinks_load LOCK_UN (v\<lparr>linktab := tab\<rparr>) = (0, v)"
proof -
  let ?v = "w\<lparr>files := (files w)(conf_gatetemp w := None, conf_gatefile w \<mapsto> bytes_of (gate_text (linktab w)))\<rparr>"
  have "reslinks_load LOCK_UN (?v\<lparr>linktab := tab\<rparr>) = (0, (?v\<lparr>linktab := tab\<rparr>)\<lparr>linktab := linktab w\<rparr>)"
    by (rule reslinks_load_nf) (use assms in \<open>simp_all add: no_faults_def\<close>)
  with reslinks_save_nf[OF assms(1,2)] show ?thesis by simp
qed

lemma demo_addresses:
  "make_addrandmask ''10.0.0.0/8'' = Some (0x0000000A, 0x000000FF)" "inet_ident 0x0000000A 0x000000FF = ''10.0.0.0/8''"
  "make_addrandmask ''11.0.0.1/32'' = Some (0x0100000B, 0xFFFFFFFF)" "inet_ident 0x0100000B 0xFFFFFFFF = ''11.0.0.1/32''"
proof -
  have p: "inet_pton ''10.0.0.0'' = Some 0x0000000A" "inet_pton ''11.0.0.1'' = Some 0x0100000B"
    by (simp_all add: inet_pton_def is_digit_def digit_val_def Let_def)
  have m: "make_addr_mask 8 = 0xFF" "make_addr_mask 32 = 0xFFFFFFFF"
    by (simp_all add: make_addr_mask_def htonl_def le_bytes_4)
  have b: "mask2bits 0xFF = 8" "mask2bits 0xFFFFFFFF = 32"
    by (simp_all add: mask2bits_def htonl_def le_bytes_4 Let_def)
  have c: "char_of (48 :: nat) = CHR ''0''" "char_of (49 :: nat) = CHR ''1''" "char_of (50 :: nat) = CHR ''2''"
    "char_of (51 :: nat) = CHR ''3''" "char_of (56 :: nat) = CHR ''8''" by code_simp+
  have n: "inet_ntop 0x0000000A = ''10.0.0.0''" "inet_ntop 0x0100000B = ''11.0.0.1''"
    by (simp_all add: inet_ntop_def le_bytes_4 dec_nat.simps c)
  show "inet_ident 0x0000000A 0x000000FF = ''10.0.0.0/8''" "inet_ident 0x0100000B 0xFFFFFFFF = ''11.0.0.1/32''"
    by (simp_all add: inet_ident_def n b dec_int_def dec_nat.simps c)
  show "make_addrandmask ''10.0.0.0/8'' = Some (0x0000000A, 0x000000FF)" "make_addrandmask ''11.0.0.1/32'' = Some (0x0100000B, 0xFFFFFFFF)"
    by (simp_all add: make_addrandmask_def strlcpy_def p m i8_def strtol_def scan_int_def scan_sign_def is_digit_def digit_val_def isspace_def Let_def)
qed

lemma demo_gates_ok: "table_ok (linktab demo_gates)"
proof -
  define g1 where "g1 = \<lparr>rl_res_id = 0, rl_user_id = 0, rl_accno = 7, rl_username = ''10.0.0.0/8'', rl_allow = True, rl_addr = 0x0000000A, rl_mask = 0x000000FF\<rparr>"
  define g2 where "g2 = \<lparr>rl_res_id = 5, rl_user_id = 0, rl_accno = 8, rl_username = ''joe'', rl_allow = True, rl_addr = 0, rl_mask = 0\<rparr>"
  define g3 where "g3 = \<lparr>rl_res_id = 0, rl_user_id = 1, rl_accno = 7, rl_username = ''11.0.0.1/32'', rl_allow = True, rl_addr = 0x0100000B, rl_mask = 0xFFFFFFFF\<rparr>"
  have t: "linktab demo_gates = [g1, g2, g3]"
    by (simp add: demo_gates_def dbs.defs gates.defs g1_def g2_def g3_def)
  note demo_addresses
  moreover have "length (save_line g1) < 128" "length (save_line g2) < 128" "length (save_line g3) < 128"
    unfolding g1_def g2_def g3_def by (rule length_save_line; simp add: resourcecnt_def in_i32_def)+
  ultimately have "gate_ok g1" "gate_ok g2" "gate_ok g3"
    unfolding gate_ok_def by (simp_all add: g1_def g2_def g3_def resourcecnt_def in_i32_def DELIM_set)
  moreover have "clear_of g1 g2" "clear_of g1 g3" "clear_of g2 g3"
    by (simp_all add: clear_of_def g1_def g2_def g3_def link_intersects_def Let_def)
  ultimately show ?thesis by (simp add: t table_ok_def)
qed

theorem gate_file_roundtrip_witness:
  "\<exists>v. reslinks_save LOCK_UN demo_gates = (0, v) \<and> reslinks_load LOCK_UN (v\<lparr>linktab := []\<rparr>) = (0, v)"
  using gate_file_roundtrip[of demo_gates "[]"] demo_gates_ok
  by (auto simp: demo_gates_def dbs.defs gates.defs no_faults_def)

end
