(* ===== verification/GateCommands.thy ===== *)
theory GateCommands
  imports Traffic GateFile
begin

text \<open>
  The commands on gates (\<open>src/src/bee/core/command.c\<close>): adding and deleting a gate (\<open>cmdh_gate\<close>,
  \<open>cmdh_delgate\<close>), the macros that open accounts and gates together (\<open>cmdh_new_contract\<close>,
  \<open>cmdh_new_name\<close>, \<open>cmdh_new_vpn\<close>), searching (\<open>cmdh_lookup\<close>, \<open>cmdh_lookopt\<close>) and the update of
  the access lists on demand (\<open>cmdh_update\<close>, \<open>cmdh_intraupdate\<close>).  Each change of the table is
  made between locking the gate file, loading it, saving it and unlocking it.
\<close>

section \<open>Changing the table\<close>

text \<open>
  The critical section of the gate file: \<open>None\<close> when it cannot be locked.  The result of
  loading the file is not looked at.
\<close>

definition gate_section ::
  "('a session_scheme \<Rightarrow> 'b \<times> 'a session_scheme) \<Rightarrow> 'a session_scheme \<Rightarrow> 'b option \<times> 'a session_scheme" where
  "gate_section body w = (case reslinks_lock LOCK_EX w of (lockfd, w) \<Rightarrow>
     if lockfd = - 1 then (None, w)
     else (case reslinks_load LOCK_UN w of (_, w) \<Rightarrow>
       case body w of (r, w) \<Rightarrow> (Some r, snd (reslinks_unlock lockfd w))))"

definition cant_lock :: "'a session_scheme \<Rightarrow> 'a reply" where
  "cant_lock w = ret ERR_IOERROR (Some (''Can'' @ [CHR 0x27] @ ''t lock gate file'')) [] w"

definition cmdh_gate :: "string \<Rightarrow> ptr \<Rightarrow> 'a session_scheme \<Rightarrow> 'a reply" where
  "cmdh_gate cmd args w = (case next_token args CMD_DELIM of
      (None, _) \<Rightarrow> ret ERR_ARGCOUNT (Some ''Arguments expected'') [] w
    | (Some str, p) \<Rightarrow>
        (let rid = res_caseindex str
         in if rid \<ge> resourcecnt then ret ERR_INVARG (Some ''Invalid resource name'') [] w
            else (case cmd_getaccno p None w of (accno, p, _, w) \<Rightarrow>
              if accno = - 1 then ret ERR_INVARG (Some ''Invalid account id'') [] w
              else (case strtrim p CMD_DELIM of
                  None \<Rightarrow> ret ERR_ARGCOUNT (Some ''Gate name expected'') [] w
                | Some str \<Rightarrow>
                    if str = [] then ret ERR_ARGCOUNT (Some ''Gate name expected'') [] w
                    else (case gate_section (\<lambda>w. case reslink_new rid accno str w of (rc, w) \<Rightarrow>
                            (rc, if rc \<ge> 0 then snd (reslinks_save LOCK_UN w) else w)) w of
                        (None, w) \<Rightarrow> cant_lock w
                      | (Some rc, w) \<Rightarrow>
                          if rc < 0 then ret ERR_INVARG (Some ''Invalid gate, ABORT'') [] w
                          else ret RET_SUCCESS None [] w)))))"

lemma link_scan_forward: "link_scan hit tab i = (r, j) \<Longrightarrow> i \<le> j \<and> (r \<noteq> - 1 \<longrightarrow> j < int (length tab))"
  by (induction hit tab i rule: link_scan.induct) (subst (asm) (2) link_scan.simps, auto split: if_splits)

text \<open>The loop of \<open>cmdh_delgate\<close>: the index of the gate, behind the table when there is none.\<close>

function del_index :: "int \<Rightarrow> int \<Rightarrow> ptr \<Rightarrow> int \<Rightarrow> 'a session_scheme \<Rightarrow> int" where
  "del_index accno rid str i w = (case lookup_accno accno i w of (rc, i) \<Rightarrow>
     if rc = - 1 then i
     else (let l = linktab w ! nat i
           in if rl_res_id l = rid \<and> (str = None \<or> strcaseeq (the str) (rl_username l)) then i
              else del_index accno rid str i w))"
  by pat_completeness auto
termination
  by (relation "measure (\<lambda>(_, _, _, i, w). nat (int (length (linktab w)) - i))")
     (auto simp: lookup_accno_def dest!: link_scan_forward[OF sym])

declare del_index.simps [simp del]

definition cmdh_delgate :: "string \<Rightarrow> ptr \<Rightarrow> 'a session_scheme \<Rightarrow> 'a reply" where
  "cmdh_delgate cmd args w = (case next_token args CMD_DELIM of
      (None, _) \<Rightarrow> ret ERR_ARGCOUNT (Some ''Arguments expected'') [] w
    | (Some str, p) \<Rightarrow>
        (let rid = res_caseindex str
         in if rid \<ge> resourcecnt then ret ERR_INVARG (Some ''Invalid resource name'') [] w
            else (case cmd_getaccno p None w of (accno, p, _, w) \<Rightarrow>
              if accno = - 1 then ret ERR_INVARG (Some ''Invalid account id'') [] w
              else (case gate_section (\<lambda>w. let i = del_index accno rid (strtrim p CMD_DELIM) (- 1) w
                      in if i \<ge> int (length (linktab w)) then (False, w)
                         else (True, snd (reslinks_save LOCK_UN (snd (reslink_del i w))))) w of
                  (None, w) \<Rightarrow> cant_lock w
                | (Some found, w) \<Rightarrow>
                    if \<not> found then ret ERR_INVARG (Some ''No matching gate found'') [] w
                    else ret RET_SUCCESS None [] w))))"

section \<open>Macros\<close>

text \<open>The part of a macro that adds gates; a lock that fails is reported to the system log only.\<close>

definition add_gates :: "('a session_scheme \<Rightarrow> int \<times> 'a session_scheme) \<Rightarrow> int \<Rightarrow> 'a session_scheme \<Rightarrow> int \<times> 'a session_scheme" where
  "add_gates body rc w = (case gate_section (\<lambda>w. case body w of (rc, w) \<Rightarrow> (rc, snd (reslinks_save LOCK_UN w))) w of
      (None, w) \<Rightarrow> (rc, w)
    | (Some rc, w) \<Rightarrow> (rc, w))"

definition cmdh_new_contract :: "string \<Rightarrow> ptr \<Rightarrow> 'a session_scheme \<Rightarrow> 'a reply" where
  "cmdh_new_contract cmd args w = (case next_token args CMD_DELIM of
      (None, _) \<Rightarrow> ret ERR_ARGCOUNT (Some ''Initial username expected'') [] w
    | (Some name, p) \<Rightarrow>
        if length name < 2 \<or> length name > 8 then ret ERR_INVARG (Some ''Invalid name lenght'') [] w
        else (case acc_add (Accbase w) (acc_zero\<lparr>a_balance := 0\<rparr>) w of (rc, acc, w) \<Rightarrow>
          if rc < 0 then io_error w
          else (let acc_inet = rc in case acc_add (Accbase w) acc w of (rc, acc, w) \<Rightarrow>
            if rc < 0 then io_error w
            else (let acc_intra = rc;
                      w = say RET_COMMENT ''Inet account: %d'' [AI acc_inet] w;
                      w = say RET_INT ''%d'' [AI acc_inet] w;
                      w = say RET_COMMENT ''Intranet account: %d'' [AI acc_intra] w;
                      w = say RET_INT ''%d'' [AI acc_intra] w
                  in case add_gates (\<lambda>w. case reslink_new RES_ADDER acc_inet name w of (_, w) \<Rightarrow>
                         reslink_new RES_ADDER acc_intra name w) 0 w of (_, w) \<Rightarrow>
                     ret RET_SUCCESS None [] w))))"

definition cmdh_new_vpn :: "string \<Rightarrow> ptr \<Rightarrow> 'a session_scheme \<Rightarrow> 'a reply" where
  "cmdh_new_vpn cmd args w = (case next_token args CMD_DELIM of
      (None, _) \<Rightarrow> ret ERR_ARGCOUNT (Some '' Username expected'') [] w
    | (Some name, p) \<Rightarrow> (case next_token p CMD_DELIM of
          (None, _) \<Rightarrow> ret ERR_ARGCOUNT (Some ''Address expected'') [] w
        | (Some addr, p) \<Rightarrow>
            (let sum = (case fst (next_token p CMD_DELIM) of None \<Rightarrow> 0 | Some str \<Rightarrow> atol str)
             in if length name < 2 \<or> length name > 16 then ret ERR_INVARG (Some ''Invalid name lenght'') [] w
                else (case acc_add (Accbase w) (acc_zero\<lparr>a_balance := d_of_int sum, a_tag := ATAG_PAYMAN\<rparr>) w of (rc, acc, w) \<Rightarrow>
                  if rc < 0 then io_error w
                  else (let acc_inet = rc;
                            w = say RET_COMMENT ''account: %d'' [AI acc_inet] w;
                            w = say RET_INT ''%d'' [AI acc_inet] w
                        in case add_gates (\<lambda>w. case reslink_new RES_ADDER acc_inet name w of (rc, w) \<Rightarrow>
                               if rc \<ge> 0 then reslink_new RES_INET acc_inet addr w else (rc, w)) rc w of (rc, w) \<Rightarrow>
                           ret RET_SUCCESS (if rc < 0 then Some ''Partial success, there are errors !'' else None) [] w)))))"

text \<open>The characters of a login: small letters and digits.\<close>

definition login_char :: "char \<Rightarrow> bool" where
  "login_char c = (let n = of_char c :: nat in \<not> (n < 48 \<or> n > 122 \<or> n > 57 \<and> n < 97))"

text \<open>The two accounts of \<open>new_name\<close>: a reply, or the state.\<close>

definition check_accs :: "int \<Rightarrow> int \<Rightarrow> 'a session_scheme \<Rightarrow> 'a reply + 'a session_scheme" where
  "check_accs acc_inet acc_intra w = (case acc_reccount (Accbase w) w of (accs, w) \<Rightarrow>
     if accs < 0 then Inl (io_error w)
     else if acc_inet < 0 \<or> acc_intra < 0 \<or> acc_inet \<ge> accs \<or> acc_intra \<ge> accs
     then Inl (ret ERR_INVARG (Some ''Invalid account given'') [] w)
     else (case acc_get (Accbase w) acc_inet (stack_acc w) w of (rc, test, w) \<Rightarrow>
       if rc = IO_ERROR then Inl (io_error w)
       else if rc = ACC_DELETED \<or> rc = NOT_FOUND then Inl (ret ERR_INVARG (Some ''Given account (inet) is deleted'') [] w)
       else (case acc_get (Accbase w) acc_intra test w of (rc, test, w) \<Rightarrow>
         if rc = IO_ERROR then Inl (io_error w)
         else if rc = ACC_DELETED \<or> rc = NOT_FOUND then Inl (ret ERR_INVARG (Some ''Given account (intra) is deleted'') [] w)
         else Inr w)))"

text \<open>The answer of the script that makes the login: a reply, or its password.\<close>

definition script_answer :: "string option \<Rightarrow> 'a session_scheme \<Rightarrow> 'a reply + string" where
  "script_answer line w = (case line of
      None \<Rightarrow> Inl (io_error w)
    | Some buf \<Rightarrow> (case next_token (Some (fst (fgets 128 buf))) [CHR '' '', CHR 0x09] of
          (None, _) \<Rightarrow> Inl (io_error w)
        | (Some str, p) \<Rightarrow>
            if str \<noteq> ''000'' then Inl (ret ERR_IOERROR (Some ''%s'') [AS (case p of None \<Rightarrow> ''(null)'' | Some s \<Rightarrow> s)] w)
            else (case fst (next_token p [CHR '' '', CHR 0x09, CHR 0x0A]) of
                None \<Rightarrow> Inl (ret ERR_IOERROR (Some ''Unexpected script error'') [] w)
              | Some str \<Rightarrow> Inr str)))"

definition cmdh_new_name :: "string \<Rightarrow> ptr \<Rightarrow> 'a session_scheme \<Rightarrow> 'a reply" where
  "cmdh_new_name cmd args w = (case next_token args CMD_DELIM of
      (None, _) \<Rightarrow> ret ERR_ARGCOUNT (Some ''Arguments needed'') [] w
    | (Some name, p) \<Rightarrow> (case next_token p CMD_DELIM of
          (None, _) \<Rightarrow> ret ERR_ARGCOUNT (Some ''Account number needed'') [] w
        | (Some str1, p) \<Rightarrow> (case next_token p CMD_DELIM of
              (None, _) \<Rightarrow> ret ERR_ARGCOUNT (Some ''Intranet account needed'') [] w
            | (Some str2, p) \<Rightarrow> (case check_accs (atol str1) (atol str2) w of
                  Inl r \<Rightarrow> r
                | Inr w \<Rightarrow> (case next_token (Some name) ''@'' of
                      (None, _) \<Rightarrow> ret ERR_INVARG (Some ''No username given'') [] w
                    | (Some name, host) \<Rightarrow>
                        if length name < 2 \<or> length name > 8 then ret ERR_INVARG (Some ''Invalid name lenght'') [] w
                        else if \<not> list_all login_char name then ret ERR_INVARG (Some ''Invalid chars in name'') [] w
                        else (case host of
                            None \<Rightarrow> ret ERR_INVARG (Some ''No hostname given'') [] w
                          | Some host \<Rightarrow>
                              if \<not> strcaseeq host ''home.oganer.net'' then ret ERR_INVARG (Some ''Inallowed hostname'') [] w
                              else (case script_answer (c_popen w (snprintf 128 ''%s %s %s'' [AS (conf_intrascript w), AS name, AS host])) w of
                                  Inl r \<Rightarrow> r
                                | Inr pass \<Rightarrow>
                                    (let w = say RET_STR ''%s'' [AS pass] (say RET_COMMENT ''User password: %s'' [AS pass] w)
                                     in case add_gates (\<lambda>w. reslink_new RES_MAIL (atol str1) (snprintf 128 ''%s@%s'' [AS name, AS host]) w) 0 w of (_, w) \<Rightarrow>
                                        ret RET_SUCCESS None [] w))))))))"

text \<open>The script is started (and recorded, see \<open>Access\<close>); its result is not looked at.\<close>

definition cmdh_intraupdate :: "string \<Rightarrow> ptr \<Rightarrow> 'a session_scheme \<Rightarrow> 'a reply" where
  "cmdh_intraupdate cmd args w = ret RET_SUCCESS None [] (run_system (conf_intrascript w) w)"

definition cmdh_update :: "string \<Rightarrow> ptr \<Rightarrow> 'a session_scheme \<Rightarrow> 'a reply" where
  "cmdh_update cmd args w =
     Option.bind (access_update (Accbase w) (say RET_COMMENT ''Updating access restrictions ...'' [] w)) (\<lambda>(_, w).
       case cmd_out RET_SUCCESS (Some ''Done.'') [] w of (rc, w) \<Rightarrow> Some (if rc < 0 then rc else 0, w))"

section \<open>Searching\<close>

definition gate_line :: "int \<Rightarrow> reslink \<Rightarrow> 'a session_scheme \<Rightarrow> 'a session_scheme" where
  "gate_line accno l w = say RET_TEXT (''%s'' @ TAB @ ''%d'' @ TAB @ ''%s%s'')
     [AS (r_name (resource ! nat (rl_res_id l))), AI accno, AS (rl_username l),
      AS (if rl_allow l then [] else TAB @ ''(disabled)'')] w"

text \<open>The inner loop: the gates of one account, those of one resource only when it is given.\<close>

definition account_gates :: "int option \<Rightarrow> int \<Rightarrow> 'a session_scheme \<Rightarrow> 'a session_scheme" where
  "account_gates rid accno w =
     fold (\<lambda>ind w. let l = linktab w ! nat ind
                   in if rid = None \<or> rid = Some (rl_res_id l) then gate_line accno l w else w)
       (link_walk (\<lambda>l. rl_accno l = accno) (linktab w) (- 1)) w"

lemma calm_account_gates [simp, intro]: "calm P w (account_gates rid accno w)"
proof -
  have "calm P w (fold (\<lambda>ind w. let l = linktab w ! nat ind
      in if rid = None \<or> rid = Some (rl_res_id l) then gate_line accno l w else w) is w)" for "is"
  proof (induction "is" arbitrary: w)
    case (Cons i js)
    let ?f = "\<lambda>ind w. let l = linktab w ! nat ind
      in if rid = None \<or> rid = Some (rl_res_id l) then gate_line accno l w else w"
    have "calm P w (?f i w)" by (simp add: gate_line_def Let_def)
    with Cons[of "?f i w"] show ?case by (simp only: fold_simps) (blast intro: calm_trans)
  qed simp
  then show ?thesis by (simp only: account_gates_def)
qed

text \<open>The accounts of a search, the first one given; a bound on their number ends the recursion.\<close>

definition search_left :: "lookup_t \<Rightarrow> 'a session_scheme \<Rightarrow> nat" where
  "search_left prev w = nat ((if lk_what prev = LF_ALL then lk_no prev else int (length (linktab w))) - lk_ind prev)"

lemma search_left_next:
  "cmd_nextaccno prev w = (accno, prev', w') \<Longrightarrow> 0 \<le> accno \<Longrightarrow> search_left prev' w' < search_left prev w"
proof -
  assume a: "cmd_nextaccno prev w = (accno, prev', w')" "0 \<le> accno"
  have l: "linktab w' = linktab w" by (rule calm_simps(4)[OF calm_nextaccno[OF a(1), of "{}"]])
  have d: "lookup_addr s i v = (r, j) \<Longrightarrow> 0 \<le> r \<Longrightarrow> i < j \<and> j < int (length (linktab v))" for s i r j and v :: "'a session_scheme"
    by (auto simp: lookup_addr_def lookup_baddr_def split: option.splits dest!: link_scan_forward)
  have n: "lookup_name s i v = (r, j) \<Longrightarrow> 0 \<le> r \<Longrightarrow> i < j \<and> j < int (length (linktab v))"
    "lookup_pname s i v = (r, j) \<Longrightarrow> 0 \<le> r \<Longrightarrow> i < j \<and> j < int (length (linktab v))" for s i r j and v :: "'a session_scheme"
    by (auto simp: lookup_name_def lookup_pname_def dest!: link_scan_forward)
  show ?thesis
    using a l by (auto simp: cmd_nextaccno_def search_left_def Let_def split: if_splits prod.splits dest!: n d)
qed

function lookup_loop :: "int option \<Rightarrow> int \<Rightarrow> lookup_t \<Rightarrow> 'a session_scheme \<Rightarrow> 'a session_scheme" where
  "lookup_loop rid accno prev w =
     (let r = cmd_nextaccno prev (account_gates rid accno w)
      in if fst r \<ge> 0 then lookup_loop rid (fst r) (fst (snd r)) (snd (snd r)) else snd (snd r))"
  by pat_completeness auto
termination
proof (relation "measure (\<lambda>(_, _, prev, w). search_left prev w)", simp)
  fix rid accno prev and w :: "'a session_scheme" and r
  assume r: "r = cmd_nextaccno prev (account_gates rid accno w)" "0 \<le> fst r"
  have "search_left prev (account_gates rid accno w) = search_left prev w"
    using calm_simps(4)[OF calm_account_gates[of "{}" w rid accno]] by (simp add: search_left_def)
  with search_left_next[of prev "account_gates rid accno w" "fst r" "fst (snd r)" "snd (snd r)"] r
  show "((rid, fst r, fst (snd r), snd (snd r)), rid, accno, prev, w) \<in> measure (\<lambda>(_, _, prev, w). search_left prev w)"
    by (simp add: case_prod_unfold)
qed

declare lookup_loop.simps [simp del]

definition cmdh_lookup :: "string \<Rightarrow> ptr \<Rightarrow> 'a session_scheme \<Rightarrow> 'a reply" where
  "cmdh_lookup cmd args w = (case cmd_getaccno args (Some lookup_init) w of (accno, p, prev, w) \<Rightarrow>
     if accno = - 1 then arg_count w
     else ret RET_SUCCESS (Some []) [] (lookup_loop None accno (the prev) w))"

definition cmdh_lookopt :: "string \<Rightarrow> ptr \<Rightarrow> 'a session_scheme \<Rightarrow> 'a reply" where
  "cmdh_lookopt cmd args w = (case next_token args CMD_DELIM of
      (None, _) \<Rightarrow> ret ERR_ARGCOUNT (Some ''Arguments expected'') [] w
    | (Some str, p) \<Rightarrow>
        (let rid = res_caseindex str
         in if rid \<ge> resourcecnt then ret ERR_INVARG (Some ''Invalid resource name'') [] w
            else (case cmd_getaccno p (Some lookup_init) w of (accno, p, prev, w) \<Rightarrow>
              if accno = - 1 then arg_count w
              else ret RET_SUCCESS (Some []) [] (lookup_loop (Some rid) accno (the prev) w))))"

section \<open>What adding a gate means\<close>

text \<open>A gate is refused when it names no network, or one that meets another.\<close>

definition gate_refused :: "int \<Rightarrow> string \<Rightarrow> reslink list \<Rightarrow> bool" where
  "gate_refused rid name tab \<longleftrightarrow> rid = RES_INET \<and>
     (case make_addrandmask name of None \<Rightarrow> True | Some (addr, m) \<Rightarrow> list_ex (link_intersects addr m) tab)"

definition new_gate :: "int \<Rightarrow> int \<Rightarrow> string \<Rightarrow> reslink list \<Rightarrow> reslink" where
  "new_gate rid accno name tab =
     (let l = reslink_zero\<lparr>rl_res_id := rid, rl_accno := accno, rl_allow := True, rl_user_id := fresh_uid rid tab\<rparr>
      in if rid = RES_INET
         then (case make_addrandmask name of
             None \<Rightarrow> l
           | Some (addr, m) \<Rightarrow> l\<lparr>rl_addr := addr, rl_mask := m, rl_username := inet_ident addr m\<rparr>)
         else l\<lparr>rl_username := name\<rparr>)"

lemma intersect_iff: "0 \<le> fst (lookup_intersect addr m None w) \<longleftrightarrow> list_ex (link_intersects addr m) (linktab w)"
proof
  assume "list_ex (link_intersects addr m) (linktab w)"
  then show "0 \<le> fst (lookup_intersect addr m None w)"
    using intersect_none[of addr m w] by (auto simp: list_ex_iff linorder_not_less[symmetric])
next
  obtain r j where rj: "link_scan (link_intersects addr m) (linktab w) 0 = (r, j)" by fastforce
  assume "0 \<le> fst (lookup_intersect addr m None w)"
  then have "0 \<le> r" using rj by (simp add: lookup_intersect_def)
  with link_scan_spec[where i = 0 and hit = "link_intersects addr m" and tab = "linktab w"] rj
  have "nat j < length (linktab w)" "link_intersects addr m (linktab w ! nat j)"
    by (auto split: if_splits)
  then show "list_ex (link_intersects addr m) (linktab w)" by (auto simp: list_ex_iff)
qed

lemma reslink_new_exact:
  assumes "no_faults w" "0 \<le> rid" "rid < resourcecnt"
  shows "reslink_new rid accno name w =
    (if gate_refused rid name (linktab w) then (- 1, w)
     else (0, w\<lparr>linktab := linktab w @ [new_gate rid accno name (linktab w)]\<rparr>))"
proof (cases "rid = RES_INET")
  case True
  show ?thesis
  proof (cases "make_addrandmask name")
    case None
    with True assms show ?thesis by (simp add: reslink_new_def alloc_nf res_faddr_inet gate_refused_def Let_def)
  next
    case (Some am)
    obtain addr m where am: "am = (addr, m)" by (cases am)
    have n: "gate_refused rid name (linktab w) \<longleftrightarrow> 0 \<le> fst (lookup_intersect addr m None w)"
      using True Some am by (simp add: gate_refused_def intersect_iff)
    have "new_gate rid accno name (linktab w) = reslink_zero\<lparr>rl_res_id := rid, rl_accno := accno, rl_allow := True,
        rl_user_id := fresh_uid rid (linktab w), rl_addr := addr, rl_mask := m, rl_username := inet_ident addr m\<rparr>"
      using True Some am by (simp add: new_gate_def)
    with True Some am assms show ?thesis unfolding n
      by (simp add: reslink_new_def alloc_nf res_faddr_inet fresh_uid_def reslink_zero_def Let_def)
  qed
next
  case False
  with assms show ?thesis
    by (simp add: reslink_new_def alloc_nf res_faddr_inet fresh_uid_def reslink_zero_def gate_refused_def new_gate_def Let_def)
qed

section \<open>The critical section without faults\<close>

definition gate_locked :: "'a session_scheme \<Rightarrow> 'a session_scheme" where
  "gate_locked w = w\<lparr>files := (if files w (conf_gatelock w) = None then (files w)(conf_gatelock w \<mapsto> []) else files w),
     fdt := (fdt w)(nextfd w \<mapsto> \<lparr>fe_path = conf_gatelock w, fe_pos = 0, fe_lock = LOCK_EX, fe_ro = True\<rparr>),
     nextfd := nextfd w + 1\<rparr>"

lemma lock_script:
  assumes "script w = Done # Done # r" "0 \<le> nextfd w"
  shows "reslinks_lock LOCK_EX w = (nextfd w, (gate_locked w)\<lparr>script := r\<rparr>)"
  using assms by (simp add: reslinks_lock_def sys_open_creat_def sys_flock_def next_outcome_def set_lock_def gate_locked_def)

lemma lock_nf:
  assumes "no_faults w" "0 \<le> nextfd w"
  shows "reslinks_lock LOCK_EX w = (nextfd w, gate_locked w)"
  using assms by (simp add: reslinks_lock_def sys_open_creat_def sys_flock_def next_outcome_def no_faults_def set_lock_def gate_locked_def)

lemma unlock_open: "fdt v fd = Some e \<Longrightarrow> snd (reslinks_unlock fd v) = v\<lparr>fdt := (fdt v)(fd := None)\<rparr>"
  by (simp add: reslinks_unlock_def sys_flock_def sys_close_def set_lock_def)

text \<open>The state after the critical section: the lock file is there and closed again.\<close>

definition gate_done :: "reslink list \<Rightarrow> (string \<Rightarrow> byte list option) \<Rightarrow> 'a session_scheme \<Rightarrow> 'a session_scheme" where
  "gate_done tab fs w = w\<lparr>files := fs, fdt := (fdt w)(nextfd w := None), nextfd := nextfd w + 1, linktab := tab\<rparr>"

definition saved :: "reslink list \<Rightarrow> 'a session_scheme \<Rightarrow> string \<Rightarrow> byte list option" where
  "saved tab w = (files (gate_locked w))(conf_gatetemp w := None, conf_gatefile w \<mapsto> bytes_of (gate_text tab))"

lemma gate_locked_simps [simp]:
  "no_faults (gate_locked w) = no_faults w" "conf_gatefile (gate_locked w) = conf_gatefile w"
  "conf_gatetemp (gate_locked w) = conf_gatetemp w" "script (gate_locked w) = script w"
  "linktab (gate_locked w) = linktab w"
  by (simp_all add: gate_locked_def no_faults_def)

lemma gate_section_nf:
  assumes n: "no_faults w" "0 \<le> nextfd w" and d: "conf_gatelock w \<noteq> conf_gatefile w"
    and f: "files w (conf_gatefile w) = Some (bytes_of (gate_text tab))" and t: "table_ok tab"
  shows "gate_section body w = (case body ((gate_locked w)\<lparr>linktab := tab\<rparr>) of (r, v) \<Rightarrow> (Some r, snd (reslinks_unlock (nextfd w) v)))"
proof -
  have "reslinks_load LOCK_UN (gate_locked w) = (0, (gate_locked w)\<lparr>linktab := tab\<rparr>)"
    by (rule reslinks_load_nf[OF _ _ t]) (use n f d in \<open>simp_all add: gate_locked_def no_faults_def\<close>)
  then show ?thesis using lock_nf[OF n] n(2) by (simp add: gate_section_def)
qed

lemma unlock_saved:
  "snd (reslinks_unlock (nextfd w) ((gate_locked w)\<lparr>linktab := tab, files := fs\<rparr>)) = gate_done tab fs w"
  by (subst unlock_open) (simp_all add: gate_locked_def gate_done_def)

lemma unlock_loaded:
  "snd (reslinks_unlock (nextfd w) ((gate_locked w)\<lparr>linktab := tab\<rparr>)) = gate_done tab (files (gate_locked w)) w"
  by (subst unlock_open) (simp_all add: gate_locked_def gate_done_def)

lemma save_locked:
  assumes "no_faults w" "conf_gatetemp w \<noteq> conf_gatefile w"
  shows "snd (reslinks_save LOCK_UN ((gate_locked w)\<lparr>linktab := tab\<rparr>)) = (gate_locked w)\<lparr>linktab := tab, files := saved tab w\<rparr>"
  using assms reslinks_save_nf[of "(gate_locked w)\<lparr>linktab := tab\<rparr>"] by (simp add: saved_def no_faults_def)

lemma gate_done_frame: "fdt w (nextfd w) = None \<Longrightarrow> fdt (gate_done tab fs w) = fdt w"
  by (auto simp: gate_done_def)

section \<open>Properties\<close>

text \<open>
  C12: The command \<open>addgate\<close> implements the insertion into a table of gates: on a machine without faults
  it is refused exactly for an address that is none or meets another network, and then changes neither table
  nor file; otherwise the new gate is appended, with a fresh user number, to the table and to the
  file, which a later load reads back.  No descriptor stays open.\<close>

theorem gate_command_refines:
  assumes n: "no_faults w" "0 \<le> nextfd w" "fdt w (nextfd w) = None"
    and d: "distinct [conf_gatefile w, conf_gatetemp w, conf_gatelock w]"
    and f: "files w (conf_gatefile w) = Some (bytes_of (gate_text tab))" and t: "table_ok tab"
    and a: "next_token args CMD_DELIM = (Some res, p)" "next_token p CMD_DELIM = (Some (dec_nat i), q)" "i < 2 ^ 31"
      "res_caseindex res = rid" "rid < resourcecnt" "strtrim q CMD_DELIM = Some name" "name_ok name"
  shows "\<exists>u. fdt u = fdt w \<and> table_ok (linktab u) \<and>
    files u (conf_gatefile w) = Some (bytes_of (gate_text (linktab u))) \<and>
    (if gate_refused rid name tab
     then linktab u = tab \<and> cmdh_gate cmd args w = ret ERR_INVARG (Some ''Invalid gate, ABORT'') [] u
     else linktab u = tab @ [new_gate rid (int i) name tab] \<and> cmdh_gate cmd args w = ret RET_SUCCESS None [] u)"
proof -
  have rid: "0 \<le> rid" using a(4) by (auto simp: res_caseindex_def)
  have tf: "conf_gatetemp w \<noteq> conf_gatefile w" using d by auto
  have ne: "name \<noteq> []" using a(7) by (simp add: name_ok_def)
  have i32: "in_i32 (int i)" using a(3) by (simp add: in_i32_def)
  let ?v = "(gate_locked w)\<lparr>linktab := tab\<rparr>" and ?body = "\<lambda>w. case reslink_new rid (int i) name w of (rc, w) \<Rightarrow>
      (rc, if rc \<ge> 0 then snd (reslinks_save LOCK_UN w) else w)"
  have nv: "no_faults ?v" using n(1) by (simp add: gate_locked_def no_faults_def)
  note new = reslink_new_exact[OF nv rid a(5), of "int i" name]
  have ok: "table_ok (tab @ [new_gate rid (int i) name tab])" if "\<not> gate_refused rid name tab"
    using reslink_new_ok[of rid "int i" name ?v 0 "?v\<lparr>linktab := tab @ [new_gate rid (int i) name tab]\<rparr>"] new that t rid a(5,7) i32
    by simp
  have sec: "gate_section ?body w = (case ?body ?v of (r, v) \<Rightarrow> (Some r, snd (reslinks_unlock (nextfd w) v)))"
    by (rule gate_section_nf[OF n(1,2) _ f t]) (use d in auto)
  have cmd: "cmdh_gate cmd args w = (case gate_section ?body w of
      (None, w) \<Rightarrow> cant_lock w
    | (Some rc, w) \<Rightarrow> if rc < 0 then ret ERR_INVARG (Some ''Invalid gate, ABORT'') [] w else ret RET_SUCCESS None [] w)"
    using a(1,4-6) ne by (simp add: cmdh_gate_def getaccno_number[OF a(2,3)] del: next_token.simps)
  show ?thesis
  proof (cases "gate_refused rid name tab")
    case True
    have fl: "files (gate_locked w) (conf_gatefile w) = files w (conf_gatefile w)" using d by (simp add: gate_locked_def)
    have "gate_section ?body w = (Some (- 1), gate_done tab (files (gate_locked w)) w)"
      unfolding sec new using True by (simp add: unlock_loaded)
    then have "cmdh_gate cmd args w = ret ERR_INVARG (Some ''Invalid gate, ABORT'') [] (gate_done tab (files (gate_locked w)) w)"
      unfolding cmd by simp
    with True t f fl gate_done_frame[OF n(3)] show ?thesis
      by (intro exI[of _ "gate_done tab (files (gate_locked w)) w"]) (simp add: gate_done_def)
  next
    case False
    let ?t = "tab @ [new_gate rid (int i) name tab]"
    have "gate_section ?body w = (Some 0, gate_done ?t (saved ?t w) w)"
      unfolding sec new using False save_locked[OF n(1) tf, of ?t] unlock_saved[of w "saved ?t w" ?t] by simp
    then have "cmdh_gate cmd args w = ret RET_SUCCESS None [] (gate_done ?t (saved ?t w) w)" unfolding cmd by simp
    moreover have "table_ok ?t" by (rule ok[OF False])
    ultimately show ?thesis using False gate_done_frame[OF n(3)]
      by (intro exI[of _ "gate_done ?t (saved ?t w) w"]) (simp add: gate_done_def saved_def)
  qed
qed

text \<open>
  C16: A gate file that cannot be read is replaced by one that holds the new gate alone: when the lock
  is taken, opening the file for reading fails and everything after that works, \<open>addgate\<close>
  answers success and all other gates are gone from the file.\<close>

theorem gates_lost_on_failed_load:
  assumes n: "script w = [Done, Done, Fail]" "0 \<le> nextfd w" and d: "distinct [conf_gatefile w, conf_gatetemp w, conf_gatelock w]"
    and a: "next_token args CMD_DELIM = (Some res, p)" "next_token p CMD_DELIM = (Some (dec_nat i), q)" "i < 2 ^ 31"
      "res_caseindex res = rid" "rid < resourcecnt" "strtrim q CMD_DELIM = Some name" "name \<noteq> []"
    and r: "\<not> gate_refused rid name []"
  shows "\<exists>u. cmdh_gate cmd args w = ret RET_SUCCESS None [] u \<and>
    files u (conf_gatefile w) = Some (bytes_of (gate_text [new_gate rid (int i) name []]))"
proof -
  have rid: "0 \<le> rid" using a(4) by (auto simp: res_caseindex_def)
  have tf: "conf_gatetemp w \<noteq> conf_gatefile w" using d by auto
  let ?t = "[new_gate rid (int i) name []]"
  let ?v = "(gate_locked w)\<lparr>script := [], linktab := []\<rparr>" and ?body = "\<lambda>w. case reslink_new rid (int i) name w of (rc, w) \<Rightarrow>
      (rc, if rc \<ge> 0 then snd (reslinks_save LOCK_UN w) else w)"
  have nv: "no_faults ?v" "no_faults (?v\<lparr>linktab := ?t\<rparr>)" by (simp_all add: no_faults_def)
  have "reslinks_load LOCK_UN ((gate_locked w)\<lparr>script := [Fail]\<rparr>) = (- 1, ?v)"
    by (simp add: reslinks_load_def sys_fopen_r_def next_outcome_def gate_locked_def Let_def)
  then have sec: "gate_section ?body w = (case ?body ?v of (r, v) \<Rightarrow> (Some r, snd (reslinks_unlock (nextfd w) v)))"
    using lock_script[of w "[Fail]"] n by (simp add: gate_section_def)
  have "reslink_new rid (int i) name ?v = (0, ?v\<lparr>linktab := ?t\<rparr>)"
    using reslink_new_exact[OF nv(1) rid a(5), of "int i" name] r by simp
  then have body: "?body ?v = (0, snd (reslinks_save LOCK_UN (?v\<lparr>linktab := ?t\<rparr>)))" by simp
  have save: "snd (reslinks_save LOCK_UN (?v\<lparr>linktab := ?t\<rparr>)) = ?v\<lparr>linktab := ?t, files := saved ?t w\<rparr>"
    using reslinks_save_nf[OF nv(2)] tf by (simp add: saved_def)
  obtain u where u: "snd (reslinks_unlock (nextfd w) (?v\<lparr>linktab := ?t, files := saved ?t w\<rparr>)) = u" by blast
  have "gate_section ?body w = (Some 0, u)" unfolding sec body save by (simp add: u[symmetric])
  then have "cmdh_gate cmd args w = ret RET_SUCCESS None [] u"
    using a(1,4-7) by (simp add: cmdh_gate_def getaccno_number[OF a(2,3)] del: next_token.simps)
  moreover have "files u (conf_gatefile w) = Some (bytes_of (gate_text ?t))"
    using u[symmetric] by (subst (asm) unlock_open) (simp_all add: gate_locked_def saved_def)
  ultimately show ?thesis by blast
qed

text \<open>A session whose gate file holds one login.\<close>

definition demo_gate :: reslink where
  "demo_gate = \<lparr>rl_res_id = 5, rl_user_id = 0, rl_accno = 1, rl_username = ''joe'', rl_allow = True, rl_addr = 0, rl_mask = 0\<rparr>"

definition demo_gate_session :: session where
  "demo_gate_session = demo_session\<lparr>files := [''gates'' \<mapsto> bytes_of (gate_text [demo_gate])], fdt := Map.empty, nextfd := 3,
     conf_gatefile := ''gates'', conf_gatetemp := ''gates.tmp'', conf_gatelock := ''gates.lock''\<rparr>"

lemma demo_gate_ok: "table_ok [demo_gate]"
proof -
  have "length (save_line demo_gate) < 128"
    by (rule length_save_line) (simp_all add: demo_gate_def resourcecnt_def in_i32_def)
  then show ?thesis by (simp add: table_ok_def gate_ok_def, simp add: demo_gate_def resourcecnt_def in_i32_def DELIM_set)
qed

lemma demo_gate_args:
  "next_token (Some ''login 0 ann'') CMD_DELIM = (Some ''login'', Some ''0 ann'')"
  "next_token (Some ''0 ann'') CMD_DELIM = (Some (dec_nat 0), Some ''ann'')"
  "res_caseindex ''login'' = 5" "strtrim (Some ''ann'') CMD_DELIM = Some ''ann''"
  by code_simp+

theorem gate_command_refines_witness:
  "\<exists>u. linktab u = [demo_gate, new_gate 5 0 ''ann'' [demo_gate]] \<and>
     cmdh_gate ''addgate'' (Some ''login 0 ann'') demo_gate_session = ret RET_SUCCESS None [] u \<and>
     files u ''gates'' = Some (bytes_of (gate_text (linktab u)))"
proof -
  have nf: "no_faults demo_gate_session"
    using demo_session_ready(1) by (simp add: demo_gate_session_def no_faults_def acc_ready_def file_ready_def)
  have r: "\<not> gate_refused 5 ''ann'' [demo_gate]" by (simp add: gate_refused_def)
  show ?thesis
    using gate_command_refines[OF nf _ _ _ _ demo_gate_ok demo_gate_args(1,2) _ demo_gate_args(3) _ demo_gate_args(4), of "''addgate''"] r
    by (auto simp: demo_gate_session_def resourcecnt_def name_ok_def DELIM_set)
qed

theorem gates_lost_on_failed_load_witness:
  "\<exists>u. cmdh_gate ''addgate'' (Some ''login 0 ann'') (demo_gate_session\<lparr>script := [Done, Done, Fail]\<rparr>) = ret RET_SUCCESS None [] u \<and>
     files u ''gates'' = Some (bytes_of (gate_text [new_gate 5 0 ''ann'' []]))"
proof -
  have r: "\<not> gate_refused 5 ''ann'' []" by (simp add: gate_refused_def)
  show ?thesis
    using gates_lost_on_failed_load[of "demo_gate_session\<lparr>script := [Done, Done, Fail]\<rparr>", OF _ _ _ demo_gate_args(1,2) _ demo_gate_args(3) _ demo_gate_args(4) _ r, of "''addgate''"]
    by (simp add: demo_gate_session_def resourcecnt_def)
qed

end
