(* ===== verification/Sums.thy ===== *)
theory Sums
  imports Main
begin

text \<open>
  Lists of sums: a program that adds up items by a key keeps a list with one line for each key and adds
  an item to its line or, when there is none, as a new line.  The collector does so with addresses, the
  reports do so with kinds of log records.  What such a list promises is proved here once.
\<close>

section \<open>Lines by key\<close>

locale keyed_lines =
  fixes key :: "'a \<Rightarrow> 'k"
    and join :: "'a \<Rightarrow> 'a \<Rightarrow> 'a"
  assumes key_join: "key y = key x \<Longrightarrow> key (join y x) = key y"
begin

text \<open>\<open>ys\<close> is \<open>xs\<close> with \<open>x\<close> added to a line of its key, or as a new line.\<close>

definition absorbs :: "'a \<Rightarrow> 'a list \<Rightarrow> 'a list \<Rightarrow> bool" where
  "absorbs x xs ys \<longleftrightarrow> (\<exists>j < length xs. key (xs ! j) = key x \<and> ys = xs[j := join (xs ! j) x]) \<or> ys = xs @ [x]"

text \<open>The same, where a new line is only made for a new key.\<close>

definition absorbs_fresh :: "'a \<Rightarrow> 'a list \<Rightarrow> 'a list \<Rightarrow> bool" where
  "absorbs_fresh x xs ys \<longleftrightarrow> absorbs x xs ys \<and> (length xs < length ys \<longrightarrow> key x \<notin> key ` set xs)"

lemma absorbs_update: "j < length xs \<Longrightarrow> key (xs ! j) = key x \<Longrightarrow> absorbs x xs (xs[j := join (xs ! j) x])"
  by (auto simp: absorbs_def)

lemma absorbs_new: "absorbs x xs (xs @ [x])"
  by (simp add: absorbs_def)

lemma keys_update: "j < length xs \<Longrightarrow> key (xs ! j) = key x \<Longrightarrow> map key (xs[j := join (xs ! j) x]) = map key xs"
  by (simp add: map_update key_join list_update_same_conv)

lemma absorbs_distinct: "absorbs_fresh x xs ys \<Longrightarrow> distinct (map key xs) \<Longrightarrow> distinct (map key ys)"
  by (auto simp: absorbs_fresh_def absorbs_def keys_update simp del: map_update)

lemma fold_distinct:
  assumes "\<And>x xs. absorbs_fresh x xs (add x xs)"
  shows "distinct (map key xs) \<Longrightarrow> distinct (map key (fold add zs xs))"
  by (induction zs arbitrary: xs) (auto intro: absorbs_distinct[OF assms])

end

section \<open>Sums by key\<close>

locale keyed_sums = keyed_lines key join
  for key :: "'a \<Rightarrow> 'k" and join :: "'a \<Rightarrow> 'a \<Rightarrow> 'a" +
  fixes amount :: "'a \<Rightarrow> 'n :: comm_monoid_add"
  assumes amount_join: "key y = key x \<Longrightarrow> amount (join y x) = amount y + amount x"
begin

definition total :: "'k \<Rightarrow> 'a list \<Rightarrow> 'n" where
  "total k xs = sum_list (map amount (filter (\<lambda>x. key x = k) xs))"

lemma total_simps [simp]:
  "total k [] = 0" "total k (x # xs) = (if key x = k then amount x else 0) + total k xs"
  "total k (xs @ ys) = total k xs + total k ys"
  by (simp_all add: total_def)

lemma total_update:
  assumes "j < length xs" "key (xs ! j) = key x"
  shows "total k (xs[j := join (xs ! j) x]) = total k xs + (if key x = k then amount x else 0)"
proof -
  have "xs = take j xs @ xs ! j # drop (Suc j) xs" using assms(1) by (simp add: id_take_nth_drop[symmetric])
  then have "total k xs = total k (take j xs @ xs ! j # drop (Suc j) xs)" by simp
  moreover have "total k (xs[j := y]) = total k (take j xs @ y # drop (Suc j) xs)" for y
    using assms(1) by (simp add: upd_conv_take_nth_drop)
  ultimately show ?thesis using assms(2) by (simp add: key_join amount_join ac_simps)
qed

lemma absorbs_total: "absorbs x xs ys \<Longrightarrow> total k ys = total k xs + (if key x = k then amount x else 0)"
  by (auto simp: absorbs_def total_update)

text \<open>Whatever the order in which lines are chosen, nothing is lost and nothing is invented.\<close>

lemma fold_total:
  assumes "\<And>x xs. absorbs x xs (add x xs)"
  shows "total k (fold add zs xs) = total k xs + total k zs"
proof (induction zs arbitrary: xs)
  case (Cons z zs)
  with absorbs_total[OF assms, of k z xs] show ?case by (simp add: ac_simps)
qed simp

end

end
