(* ===== verification/Reports.thy ===== *)
theory Reports
  imports Traffic Sums
begin

text \<open>
  The commands that show the transaction log and the tariffs (\<open>src/src/bee/core/command.c\<close>:
  \<open>cmdh_log\<close>, \<open>cmdh_report\<close> with \<open>cmd_plogrec\<close>, \<open>cmdh_tdump\<close>) and those that only set or show a mode of
  the session.  The report sums up records of one kind; what it adds up is what the log holds.
\<close>

section \<open>A log record in print\<close>

definition serrno_text :: "int \<Rightarrow> string" where
  "serrno_text e =
     (if e = NEGATIVE then ''S-''
      else if e = SUCCESS then ''S+''
      else if e = NOT_FOUND then ''NF''
      else if e = ACC_DELETED then ''EM''
      else if e = IO_ERROR then ''IO''
      else if e = ACC_BROKEN then ''BR''
      else if e = ACC_FROZEN then ''FR''
      else if e = ACC_OFF then ''OF''
      else if e = ACC_UNLIMIT then ''UN''
      else ''??'')"

text \<open>Protocol and ports; a protocol number of 0 stands for any, or TCP or UDP when a port is given.\<close>

definition port_text :: "u32 \<Rightarrow> u32 \<Rightarrow> string" where
  "port_text proto_id proto2 =
     (let rport = proto_id AND 0xffff; lport = proto2 AND 0xffff
      in if rport = 0 \<and> lport = 0 then ''any             ''
         else ''t/u '' @ (if rport \<noteq> 0 then snprintf 60 ''%5d '' [AI (uint rport)] else ''any   '') @
              (if lport \<noteq> 0 then snprintf 54 ''%5d '' [AI (uint lport)] else ''      ''))"

definition proto_text :: "bool \<Rightarrow> u32 \<Rightarrow> u32 \<Rightarrow> string" where
  "proto_text charge proto_id proto2 =
     (let proto = drop_bit 16 (proto_id AND 0x00ff0000)
      in if proto = 1 then ''icmp            ''
         else if proto = 6 then ''tcp ''
         else if proto = 17 then ''udp ''
         else if proto = 0
         then (if charge \<and> proto_id AND 0x40000000 \<noteq> 0 then ''charge          '' else port_text proto_id proto2)
         else snprintf 64 ''ip %3d          '' [AI (uint proto)])"

definition balance_text :: "double \<Rightarrow> string" where
  "balance_text b = (if deq b BALANCE_NA then ''    N/A   '' else snprintf 16 ''%+10.2f'' [AD b])"

text \<open>The name of a resource; \<open>None\<close> outside the table.\<close>

definition res_name :: "u32 \<Rightarrow> string option" where
  "res_name rid = (if 0 \<le> sint rid \<and> sint rid < resourcecnt then Some (r_name (resource ! nat (sint rid))) else None)"

definition direction :: "u32 \<Rightarrow> string" where
  "direction proto_id = (if proto_id AND 0x80000000 = 0 then '' in'' else ''out'')"

definition log_line :: "logrec \<Rightarrow> 'a session_scheme \<Rightarrow> 'a session_scheme option" where
  "log_line r w = map_option (\<lambda>name.
     say RET_COMMENT ''%s %s #%-4d %+8.2f (was %s) %6s %s %10u %s''
       [AS (serrno_text (sint (lr_serrno r))), AS (cmd_ptime (sint (lr_time r)) w), AI (sint (lr_accno r)), AD (lr_sum r),
        AS (balance_text (lr_balance r)), AS name,
        AS (if is_proto_id (lr_isdata r) AND 0x40000000 = 0 then direction (is_proto_id (lr_isdata r)) else ''   ''),
        AI (uint (is_value (lr_isdata r))), AS (proto_text True (is_proto_id (lr_isdata r)) (is_proto2 (lr_isdata r)))] w)
     (res_name (is_res_id (lr_isdata r)))"

definition cmd_plogrec :: "logrec \<Rightarrow> 'a session_scheme \<Rightarrow> 'a reply" where
  "cmd_plogrec r w = (case res_name (is_res_id (lr_isdata r)) of
      None \<Rightarrow> None
    | Some name \<Rightarrow>
        ret RET_COMMENT (Some ''%s %s #%-4d %+8.2f %6s %s %10d %s'')
          [AS (serrno_text (sint (lr_serrno r))), AS (cmd_ptime (sint (lr_time r)) w), AI (sint (lr_accno r)), AD (lr_sum r),
           AS name, AS (direction (is_proto_id (lr_isdata r))), AI (uint (is_value (lr_isdata r))),
           AS (proto_text False (is_proto_id (lr_isdata r)) (is_proto2 (lr_isdata r)))] w)"

section \<open>The log, page by page\<close>

definition stack_logrec :: "'a session_scheme \<Rightarrow> logrec" where
  "stack_logrec w = decode_logrec (stack_junk 64 w)"

text \<open>
  The loop of \<open>cmdh_log\<close> over the records below \<open>n\<close>, the last one first: those of the account (all when
  it is negative), the page of twenty lines asked for, or all.
\<close>

fun log_loop :: "nat \<Rightarrow> int \<Rightarrow> int \<Rightarrow> bool \<Rightarrow> int \<Rightarrow> logrec \<Rightarrow> 'a session_scheme \<Rightarrow> 'a reply" where
  "log_loop 0 accno part all line r w = ret RET_SUCCESS None [] w"
| "log_loop (Suc i) accno part all line r w = (case log_get (Logbase w) (int i) r w of (rc, r, w) \<Rightarrow>
     if rc = IO_ERROR then io_error w
     else if accno \<ge> 0 \<and> accno \<noteq> sint (lr_accno r) then log_loop i accno part all line r w
     else (let line = (if all then line else line + 1)
           in if \<not> all \<and> line div 20 > part then ret RET_SUCCESS None [] w
              else if \<not> all \<and> line div 20 \<noteq> part then log_loop i accno part all line r w
              else Option.bind (log_line r w) (\<lambda>w.
                if rc < 0 then ret RET_SUCCESS None [] w else log_loop i accno part all line r w)))"

definition cmdh_log :: "string \<Rightarrow> ptr \<Rightarrow> 'a session_scheme \<Rightarrow> 'a reply" where
  "cmdh_log cmd args w = (case cmd_getaccno args None w of (accno, p, _, w) \<Rightarrow>
     let str = fst (next_token p CMD_DELIM);
         all = (case str of None \<Rightarrow> False | Some s \<Rightarrow> strcaseeq s ''all'');
         part = (case str of None \<Rightarrow> 0 | Some s \<Rightarrow> if all then 0 else atol s)
     in case log_reccount (Logbase w) w of (recs, w) \<Rightarrow>
          if recs < 0 then io_error w
          else log_loop (nat recs) accno part all (- 1) (stack_logrec w) w)"

section \<open>The report\<close>

lemma gettime_le: "cmd_gettime arg def w = Some (t, p, w') \<Longrightarrow> t \<noteq> - 1 \<Longrightarrow> ptr_length p \<le> ptr_length arg"
  by (auto simp: cmd_gettime_def Let_def simp del: next_token.simps split: prod.splits option.splits if_splits
      dest!: next_token_le intro: le_trans)

lemma gettime_shorter: "cmd_gettime arg def w = Some g \<Longrightarrow> fst g \<noteq> - 1 \<Longrightarrow> ptr_length (fst (snd g)) \<le> ptr_length arg"
  by (rule gettime_le[of arg def w "fst g" _ "snd (snd g)"]) simp_all

text \<open>
  The words after the account: the first and last time and the width of a step in seconds, or a
  reply; \<open>step\<close> says that the width is expected.
\<close>

function report_args :: "int \<Rightarrow> int \<Rightarrow> int \<Rightarrow> bool \<Rightarrow> ptr \<Rightarrow> 'a session_scheme \<Rightarrow>
    'a reply + int \<times> int \<times> int \<times> 'a session_scheme" where
  "report_args tfrom tto tstep step p w =
     (let t = next_token p CMD_DELIM
      in case fst t of
           None \<Rightarrow> Inr (tfrom, tto, tstep, w)
         | Some str \<Rightarrow>
             if step then report_args tfrom tto (i32 (atol str * 3600)) False (snd t) w
             else if strcaseeq str ''from'' \<or> strcaseeq str ''to''
             then (case cmd_gettime (snd t) 0 w of
                 None \<Rightarrow> Inl None
               | Some g \<Rightarrow>
                   if fst g = - 1 then Inl (ret ERR_INVARG None [] (snd (snd g)))
                   else if strcaseeq str ''from'' then report_args (fst g) tto tstep False (fst (snd g)) (snd (snd g))
                   else report_args tfrom (fst g) tstep False (fst (snd g)) (snd (snd g)))
             else report_args tfrom tto tstep (strcaseeq str ''step'') (snd t) w)"
  by pat_completeness auto
termination
  by (relation "measure (\<lambda>(_, _, _, _, p, _). ptr_length p)")
     (auto simp: case_prod_unfold dest: token_shorter intro: le_less_trans[OF gettime_shorter])

declare report_args.simps [simp del]

text \<open>Two records of one kind.\<close>

definition same_kind :: "logrec \<Rightarrow> logrec \<Rightarrow> bool" where
  "same_kind a b \<longleftrightarrow> lr_accno a = lr_accno b \<and> lr_serrno a = lr_serrno b \<and>
     is_res_id (lr_isdata a) = is_res_id (lr_isdata b) \<and> is_user_id (lr_isdata a) = is_user_id (lr_isdata b) \<and>
     is_proto_id (lr_isdata a) = is_proto_id (lr_isdata b) \<and> is_proto2 (lr_isdata a) = is_proto2 (lr_isdata b) \<and>
     is_host (lr_isdata a) = is_host (lr_isdata b)"

text \<open>The line a record is added to, looked for from the last of \<open>n\<close> lines back to one that is too old.\<close>

fun merge_line :: "int \<Rightarrow> logrec \<Rightarrow> logrec list \<Rightarrow> nat \<Rightarrow> nat option" where
  "merge_line tstep r rep 0 = None"
| "merge_line tstep r rep (Suc j) =
     (if i32 (sint (lr_time r) - sint (lr_time (rep ! j))) > tstep then None
      else if same_kind (rep ! j) r then Some j
      else merge_line tstep r rep j)"

definition add_line :: "logrec \<Rightarrow> logrec \<Rightarrow> logrec" where
  "add_line l r = l\<lparr>lr_isdata := (lr_isdata l)\<lparr>is_value := is_value (lr_isdata l) + is_value (lr_isdata r)\<rparr>,
     lr_sum := dadd (lr_sum l) (lr_sum r), lr_balance := BALANCE_NA\<rparr>"

text \<open>The loop over the log from record \<open>i\<close> on: a reply, or the lines of the report.\<close>

fun report_loop :: "nat \<Rightarrow> int \<Rightarrow> int \<Rightarrow> int \<Rightarrow> int \<Rightarrow> int \<Rightarrow> logrec list \<Rightarrow> logrec \<Rightarrow> 'a session_scheme \<Rightarrow>
    'a reply + logrec list \<times> 'a session_scheme" where
  "report_loop 0 i accno tfrom tto tstep rep r w = Inr (rep, w)"
| "report_loop (Suc n) i accno tfrom tto tstep rep r w = (case log_get (Logbase w) i r w of (rc, r, w) \<Rightarrow>
     if rc < 0 then Inl (io_error w)
     else if sint (lr_accno r) \<noteq> accno \<or> sint (lr_time r) < tfrom \<or> sint (lr_time r) > tto
     then report_loop n (i + 1) accno tfrom tto tstep rep r w
     else (case merge_line tstep r rep (length rep) of
         Some j \<Rightarrow> report_loop n (i + 1) accno tfrom tto tstep (rep[j := add_line (rep ! j) r]) r w
       | None \<Rightarrow> (case sys_alloc w of (mem, w) \<Rightarrow>
           if \<not> mem then Inl (ret ERR_SYSTEM None [] w)
           else report_loop n (i + 1) accno tfrom tto tstep (rep @ [r]) r w)))"

fun print_loop :: "logrec list \<Rightarrow> 'a session_scheme \<Rightarrow> 'a reply" where
  "print_loop [] w = ret RET_SUCCESS None [] w"
| "print_loop (r # rep) w = Option.bind (cmd_plogrec r w) (\<lambda>(rc, w). if rc < 0 then Some (rc, w) else print_loop rep w)"

definition cmdh_report :: "string \<Rightarrow> ptr \<Rightarrow> 'a session_scheme \<Rightarrow> 'a reply" where
  "cmdh_report cmd args w = (case sys_time w of (tto, w) \<Rightarrow>
     case cmd_getaccno args None w of (accno, p, _, w) \<Rightarrow>
     if accno = - 1 then arg_count w
     else (case report_args 0 tto 0x7fffffff False p w of
         Inl r \<Rightarrow> r
       | Inr (tfrom, tto, tstep, w) \<Rightarrow>
           (case log_reccount (Logbase w) w of (logrecs, w) \<Rightarrow>
            case report_loop (nat logrecs) 0 accno tfrom tto tstep [] (stack_logrec w) w of
              Inl r \<Rightarrow> r
            | Inr (rep, w) \<Rightarrow> print_loop rep w)))"

section \<open>Tariffs and modes\<close>

text \<open>The entries of a table in front of the one that ends it; \<open>None\<close> without such an entry.\<close>

definition ended :: "('b \<Rightarrow> int) \<Rightarrow> 'b list \<Rightarrow> 'b list option" where
  "ended tariff xs = (if list_ex (\<lambda>x. tariff x < 0) xs then Some (takeWhile (\<lambda>x. tariff x \<ge> 0) xs) else None)"

definition cmdh_tdump :: "string \<Rightarrow> ptr \<Rightarrow> 'a session_scheme \<Rightarrow> 'a reply" where
  "cmdh_tdump cmd args w =
     Option.bind (ended ti_tariff (tariffs_info w)) (\<lambda>infos.
     Option.bind (ended tl_tariff (tariffs_limit w)) (\<lambda>limits.
     Option.bind (ended tn_tariff (tariffs_inet w)) (\<lambda>inets.
       let w = fold (\<lambda>t. say RET_COMMENT (''%d'' @ TAB @ ''%s'')
                 [AI (ti_tariff t), AS (case ti_name t of None \<Rightarrow> ''(null)'' | Some s \<Rightarrow> s)]) infos w;
           w = fold (\<lambda>t. say RET_COMMENT (''%d'' @ TAB @ ''%g'') [AI (tl_tariff t), AD (tl_min t)]) limits w;
           w = fold (\<lambda>t. say RET_COMMENT ''%5d %5d %5d %5d %5g %5g %5g %5d %5g %10lld %5u''
                 [AI (tn_tariff t), AI (tn_weekday t), AI (tn_hour_from t), AI (tn_hour_to t), AD (tn_price_in t),
                  AD (tn_price_out t), AD (tn_month_charge t), AI (tn_sw_tariff t), AD (tn_sw_summ t),
                  AI (tn_sw_inetsumm t), AI (uint (tn_flags t))]) inets w
       in ret RET_SUCCESS None [] w)))"

definition cmdh_exit :: "string \<Rightarrow> ptr \<Rightarrow> 'a session_scheme \<Rightarrow> 'a reply" where
  "cmdh_exit cmd args w = Some (CMD_EXIT, say RET_COMMENT ''Have a nice day'' [] w)"

definition cmdh_notimpl :: "string \<Rightarrow> ptr \<Rightarrow> 'a session_scheme \<Rightarrow> 'a reply" where
  "cmdh_notimpl cmd args w = ret ERR_NOTIMPL None [] w"

definition VERSION :: "arg list" where "VERSION = [AI 0, AI 9, AI 14, AI 0]"

definition cmdh_ver :: "string \<Rightarrow> ptr \<Rightarrow> 'a session_scheme \<Rightarrow> 'a reply" where
  "cmdh_ver cmd args w =
     ret RET_SUCCESS None [] (say RET_INT ''%02d%02d%02d%02d'' VERSION (say RET_COMMENT ''version %d.%d.%d.%d'' VERSION w))"

definition cmdh_human :: "string \<Rightarrow> ptr \<Rightarrow> 'a session_scheme \<Rightarrow> 'a reply" where
  "cmdh_human cmd args w =
     (let w = (if strcaseeq cmd ''human'' then w\<lparr>HumanRead := 1, MachineRead := 0\<rparr> else w\<lparr>MachineRead := 1, HumanRead := 0\<rparr>)
      in case cmd_out RET_SUCCESS (Some ''Mode set'') [] w of (rc, w) \<Rightarrow> Some (if rc < 0 then rc else 0, w))"

definition cmdh_date :: "string \<Rightarrow> ptr \<Rightarrow> 'a session_scheme \<Rightarrow> 'a reply" where
  "cmdh_date cmd args w = (case sys_time w of (tim, w) \<Rightarrow>
     let w = say RET_INT ''%d'' [AI tim] w
     in ret RET_SUCCESS (Some ''%s'') [AS (cmd_ptime tim w)] w)"

definition cmdh_debug :: "string \<Rightarrow> ptr \<Rightarrow> 'a session_scheme \<Rightarrow> 'a reply" where
  "cmdh_debug cmd args w =
     (let onoff = (\<lambda>w. [AS (if DumpQuery w \<noteq> 0 then ''on'' else ''off'')]);
          turned = (\<lambda>w. ret RET_SUCCESS (Some ''Debug is turned %s'') (onoff w) w)
      in case fst (next_token args CMD_DELIM) of
           None \<Rightarrow> ret RET_SUCCESS (Some ''Debug is %s'') (onoff w) w
         | Some str \<Rightarrow>
             if strcaseeq str ''on'' then turned (w\<lparr>DumpQuery := 1\<rparr>)
             else if strcaseeq str ''off'' then turned (w\<lparr>DumpQuery := 0\<rparr>)
             else ret ERR_INVARG (Some ''[ {on | off} ]'') [] w)"

definition cmdh_resin :: "string \<Rightarrow> ptr \<Rightarrow> 'a session_scheme \<Rightarrow> 'a reply" where
  "cmdh_resin cmd args w =
     (let w = w\<lparr>ResOn := (if strcaseeq cmd ''_res_in'' then 1 else 0)\<rparr>
      in ret RET_SUCCESS (Some ''Optimization %s'') [AS (if ResOn w \<noteq> 0 then ''on'' else ''off'')] w)"

definition cmdh_hacktime :: "string \<Rightarrow> ptr \<Rightarrow> 'a session_scheme \<Rightarrow> 'a reply" where
  "cmdh_hacktime cmd args w =
     (let w = (case fst (next_token args CMD_DELIM) of
                None \<Rightarrow> w
              | Some str \<Rightarrow> w\<lparr>HackTime := fst (strtol str 0)\<rparr>)
      in ret RET_SUCCESS (Some ''Hack time is %d (%s)'') [AI (HackTime w), AS (take 24 (c_ctime w (HackTime w)))] w)"

section \<open>Reading the log\<close>

lemma quiet_log_get:
  assumes "log_get base rec d w = (rc, d', w')" "sq_fd (sqr w) \<noteq> lb_fd base"
    "lb_fasync base = 0 \<Longrightarrow> fd_lock w (lb_fd base) = LOCK_UN"
  shows "quiet P w w'"
proof -
  obtain lrc w1 where w1: "(if lb_fasync base = 0 then sys_flock (lb_fd base) LOCK_SH w else (0, w)) = (lrc, w1)" by fastforce
  note st = lock_step[OF w1]
  show ?thesis
  proof (cases "lrc = 0")
    case False
    with assms(1) w1 st(1) st(7)[of P] show ?thesis by (auto simp: log_get_def db_shlock_def split: if_splits)
  next
    case True
    obtain grc g w2 where w2: "logi_get base rec d w1 = (grc, g, w2)" by (metis prod_cases3)
    have "quiet P w1 w2" using quiet_logi_get[OF w2] assms(2) st(2) by simp
    from st(8)[OF this True assms(3)] assms(1) w1 w2 True show ?thesis
      by (auto simp: log_get_def db_shlock_def db_unlock_def split: if_splits)
  qed
qed

text \<open>The log may be read: its file is open, and locked only for good.\<close>

definition log_idle :: "logbase \<Rightarrow> string \<Rightarrow> 'a dbs_scheme \<Rightarrow> bool" where
  "log_idle base path w \<longleftrightarrow> log_ready base path w \<and> (lb_fasync base = 0 \<longrightarrow> fd_lock w (lb_fd base) = LOCK_UN)"

lemma log_idle_quiet: "quiet {} w w' \<Longrightarrow> log_idle base path w \<Longrightarrow> log_idle base path w'"
  using log_ready_quiet[of "{}" w w' path] quiet_lock[of "{}" w w'] by (simp add: log_idle_def)

lemma log_get_nf:
  assumes r: "log_idle base path w" and i: "i < length (log_records path w)"
    and c: "logrec_crc (log_records path w ! i) w = lr_crc (log_records path w ! i)"
  shows "\<exists>v. log_get base (int i) d w = (SUCCESS, log_records path w ! i, v) \<and> quiet {} w v"
proof -
  define w1 where "w1 = (if lb_fasync base = 0 then relock (lb_fd base) LOCK_SH w else w)"
  have fr: "file_ready (lb_fd base) path 64 w" using r by (simp add: log_idle_def log_ready_def)
  have w1: "file_ready (lb_fd base) path 64 w1" "file_recs path 64 w1 = file_recs path 64 w"
    using fr by (simp_all add: w1_def file_ready_relock)
  have ln: "i < length (file_recs path 64 w)" using i by (simp add: log_records_def)
  from db_get_nf[OF w1(1), of i "encode_logrec d"] ln w1(2) obtain w2 where
    w2: "db_get (lb_fd base) (int i) (encode_logrec d) 64 w1 = (SUCCESS, file_recs path 64 w ! i, w2)" "file_ready (lb_fd base) path 64 w2"
    by auto
  have z: "zcrc32 w2 = zcrc32 w"
  proof -
    have "quiet {} w1 w2" using quiet_get[OF w2(1), of "{}"] w1(1) by (simp add: file_ready_def)
    then show ?thesis using quiet_simps(3)[of "{}" w1 w2] by (simp add: w1_def)
  qed
  have "decode_logrec (file_recs path 64 w ! i) = log_records path w ! i" using ln by (simp add: log_records_def)
  then have g: "logi_get base (int i) d w1 = (SUCCESS, log_records path w ! i, w2)"
    using w2(1) c logrec_crc_quiet[OF z] by (simp add: logi_get_def Let_def)
  define v where "v = (if lb_fasync base = 0 then relock (lb_fd base) LOCK_UN w2 else w2)"
  have nf: "no_faults w" "fdt w (lb_fd base) \<noteq> None" using file_ready_nf[OF fr] by simp_all
  have op: "fdt w2 (lb_fd base) \<noteq> None" using file_ready_nf[OF w2(2)] by simp
  have l: "log_get base (int i) d w = (SUCCESS, log_records path w ! i, v)"
    using flock_nf[OF nf, of LOCK_SH] unlock_nf[OF op] g
    by (cases "lb_fasync base = 0") (simp_all add: log_get_def db_shlock_def db_unlock_def v_def w1_def)
  have "quiet {} w v"
    by (rule quiet_log_get[OF l]) (use fr r in \<open>auto simp: file_ready_def log_idle_def\<close>)
  with l show ?thesis by blast
qed

section \<open>What the report adds up\<close>

text \<open>The fields in which records of one kind agree; the lines of a report are sums by kind.\<close>

definition rec_kind :: "logrec \<Rightarrow> u32 list" where
  "rec_kind r = [lr_accno r, lr_serrno r, is_res_id (lr_isdata r), is_user_id (lr_isdata r),
     is_proto_id (lr_isdata r), is_proto2 (lr_isdata r), is_host (lr_isdata r)]"

text \<open>The traffic of one kind in a list of records, modulo the width of the counter.\<close>

definition kind_total :: "logrec \<Rightarrow> logrec list \<Rightarrow> u32" where
  "kind_total k rs = sum_list (map (\<lambda>r. if same_kind r k then is_value (lr_isdata r) else 0) rs)"

definition chosen :: "int \<Rightarrow> int \<Rightarrow> int \<Rightarrow> logrec \<Rightarrow> bool" where
  "chosen accno tfrom tto r \<longleftrightarrow> sint (lr_accno r) = accno \<and> tfrom \<le> sint (lr_time r) \<and> sint (lr_time r) \<le> tto"

lemma merge_line_Some: "merge_line t r rep n = Some j \<Longrightarrow> j < n \<and> same_kind (rep ! j) r"
  by (induction n) (auto split: if_splits)

lemma merge_line_None:
  "merge_line 0x7fffffff r rep n = None \<Longrightarrow> j < n \<Longrightarrow> \<not> same_kind (rep ! j) r"
proof (induction n)
  case (Suc n)
  have "i32 x \<le> 0x7fffffff" for x using i32_range[of x] by (simp add: in_i32_def)
  then show ?case using Suc by (auto simp: not_less[symmetric] less_Suc_eq split: if_splits)
qed simp

definition kinds_apart :: "logrec list \<Rightarrow> bool" where
  "kinds_apart rep \<longleftrightarrow> (\<forall>i < length rep. \<forall>j < length rep. same_kind (rep ! i) (rep ! j) \<longrightarrow> i = j)"

lemma same_kind_key: "same_kind a b \<longleftrightarrow> rec_kind a = rec_kind b"
  by (simp add: same_kind_def rec_kind_def)

interpretation kinds: keyed_sums rec_kind add_line "\<lambda>r. is_value (lr_isdata r)"
  by unfold_locales (auto simp: rec_kind_def add_line_def)

lemma kind_total_eq: "kind_total k rs = kinds.total (rec_kind k) rs"
  by (induction rs) (simp_all add: kind_total_def same_kind_key)

lemma kinds_apart_eq: "kinds_apart rep \<longleftrightarrow> distinct (map rec_kind rep)"
  by (auto simp: kinds_apart_def same_kind_key distinct_conv_nth)

text \<open>What the report does with a chosen record.\<close>

definition report_line :: "int \<Rightarrow> logrec \<Rightarrow> logrec list \<Rightarrow> logrec list" where
  "report_line tstep r rep = (case merge_line tstep r rep (length rep) of Some j \<Rightarrow> rep[j := add_line (rep ! j) r] | None \<Rightarrow> rep @ [r])"

lemma report_line_absorbs: "kinds.absorbs r rep (report_line tstep r rep)"
  using merge_line_Some[of tstep r rep "length rep"]
  by (auto simp: report_line_def same_kind_key kinds.absorbs_update kinds.absorbs_new split: option.split)

lemma report_line_fresh: "kinds.absorbs_fresh r rep (report_line 0x7fffffff r rep)"
proof -
  have "rec_kind r \<notin> rec_kind ` set rep" if "merge_line 0x7fffffff r rep (length rep) = None"
    using merge_line_None[OF that] by (force simp: same_kind_key in_set_conv_nth)
  moreover have "length rep < length (report_line 0x7fffffff r rep) \<Longrightarrow> merge_line 0x7fffffff r rep (length rep) = None"
    by (simp add: report_line_def split: option.splits)
  ultimately show ?thesis by (simp add: kinds.absorbs_fresh_def report_line_absorbs)
qed

lemma report_loop_nf:
  assumes "log_idle (Logbase w) path w" "i + n = length (log_records path w)"
    and "\<forall>r \<in> set (log_records path w). logrec_crc r w = lr_crc r"
  shows "\<exists>out v. report_loop n (int i) accno tfrom tto tstep rep d w = Inr (out, v) \<and> calm {} w v \<and>
    (\<forall>k. kind_total k out = kind_total k rep + kind_total k (filter (chosen accno tfrom tto) (drop i (log_records path w)))) \<and>
    (tstep = 0x7fffffff \<longrightarrow> kinds_apart rep \<longrightarrow> kinds_apart out)"
  using assms
proof (induction n arbitrary: i rep d w)
  case 0
  then show ?case by (simp add: kind_total_def)
next
  case (Suc n)
  let ?L = "log_records path w"
  let ?r = "?L ! i"
  have i: "i < length ?L" using Suc.prems(2) by simp
  from log_get_nf[OF Suc.prems(1) i, of d] Suc.prems(3) i obtain v where
    g: "log_get (Logbase w) (int i) d w = (SUCCESS, ?r, v)" and q: "quiet {} w v" by auto
  have L: "log_records path v = ?L" using log_ready_quiet(2)[OF q, of path] by simp
  have C: "logrec_crc x v = logrec_crc x w" for x by (rule logrec_crc_quiet) (rule quiet_simps(3)[OF q])
  have B: "Logbase v = Logbase w" using calm_simps(6)[OF quiet_calm[OF q]] .
  have idle: "log_idle (Logbase v) path v" using log_idle_quiet[OF q Suc.prems(1)] B by simp
  have mem: "sys_alloc v = (True, v)"
    using idle by (simp add: log_idle_def log_ready_def file_ready_def sys_alloc_def next_outcome_no_faults)
  have dr: "drop i ?L = ?r # drop (Suc i) ?L" using i by (rule Cons_nth_drop_Suc[symmetric])
  have n: "Suc i + n = length (log_records path v)" using Suc.prems(2) L by simp
  note ih = Suc.IH[OF idle n, unfolded L C, OF Suc.prems(3)]
  have next_i: "int i + 1 = int (Suc i)" by simp
  define out where "out = (if chosen accno tfrom tto ?r then report_line tstep ?r rep else rep)"
  have st: "report_loop (Suc n) (int i) accno tfrom tto tstep rep d w = report_loop n (int (Suc i)) accno tfrom tto tstep out ?r v"
    unfolding next_i[symmetric] by (auto simp: g mem out_def chosen_def report_line_def split: option.split)
  have tot: "kind_total k out = kind_total k rep + (if chosen accno tfrom tto ?r \<and> same_kind ?r k then is_value (lr_isdata ?r) else 0)" for k
    by (simp add: out_def kind_total_eq same_kind_key kinds.absorbs_total[OF report_line_absorbs])
  have ap: "tstep = 0x7fffffff \<Longrightarrow> kinds_apart rep \<Longrightarrow> kinds_apart out"
    using kinds.absorbs_distinct[OF report_line_fresh] by (simp add: out_def kinds_apart_eq)
  from ih[of out ?r] obtain res v' where
    v': "report_loop n (int (Suc i)) accno tfrom tto tstep out ?r v = Inr (res, v')" "calm {} v v'"
      "\<forall>k. kind_total k res = kind_total k out + kind_total k (filter (chosen accno tfrom tto) (drop (Suc i) ?L))"
      "tstep = 0x7fffffff \<longrightarrow> kinds_apart out \<longrightarrow> kinds_apart res" by blast
  moreover have "calm {} w v'" using quiet_calm[OF q] v'(2) by (rule calm_trans)
  moreover have "\<forall>k. kind_total k res = kind_total k rep + kind_total k (filter (chosen accno tfrom tto) (drop i ?L))"
    using v'(3) tot by (simp add: dr kind_total_def)
  ultimately show ?case using st ap by auto
qed

text \<open>
  C17: A report accounts for the log: on a machine without faults and with sound records it is made, touches
  nothing, and for every kind of record its lines together hold the traffic that the chosen records of
  the log hold; without a step every kind has one line.\<close>

theorem report_accounts_for_log:
  assumes "log_idle (Logbase w) path w" "\<forall>r \<in> set (log_records path w). logrec_crc r w = lr_crc r"
  shows "\<exists>out v. report_loop (length (log_records path w)) 0 accno tfrom tto tstep [] d w = Inr (out, v) \<and> calm {} w v \<and>
    (\<forall>k. kind_total k out = kind_total k (filter (chosen accno tfrom tto) (log_records path w))) \<and>
    (tstep = 0x7fffffff \<longrightarrow> kinds_apart out)"
  using report_loop_nf[OF assms(1) _ assms(2), of 0 "length (log_records path w)" accno tfrom tto tstep "[]" d]
  by (auto simp: kind_total_def kinds_apart_def)

text \<open>A log of two records of one kind.\<close>

definition demo_logrec :: "u32 \<Rightarrow> u32 \<Rightarrow> logrec" where
  "demo_logrec t val = \<lparr>lr_time = t, lr_accno = 0, lr_sum = 0, lr_isdata = isdata_zero\<lparr>is_value := val\<rparr>,
     lr_balance = 0, lr_serrno = 0, lr_crc = 0\<rparr>"

definition demo_log_session :: session where
  "demo_log_session = demo_session\<lparr>files := (files demo_session)
     (''log'' \<mapsto> encode_logrec (demo_logrec 100 7) @ encode_logrec (demo_logrec 200 5))\<rparr>"

lemma demo_log_session_ready:
  "log_idle (Logbase demo_log_session) ''log'' demo_log_session"
  "log_records ''log'' demo_log_session = [demo_logrec 100 7, demo_logrec 200 5]"
  "logrec_crc r demo_log_session = 0"
proof -
  have "file_ready 4 ''log'' 64 demo_session" "fd_lock demo_session 4 = LOCK_UN"
    using demo_session_bee by (simp_all add: bee_ready_def log_ready_def bases_free_def demo_session_sel)
  then show "log_idle (Logbase demo_log_session) ''log'' demo_log_session"
    by (auto simp: log_idle_def log_ready_def file_ready_def demo_log_session_def no_faults_def open_on_def fd_lock_def demo_session_sel)
  show "log_records ''log'' demo_log_session = [demo_logrec 100 7, demo_logrec 200 5]"
    by (simp add: log_records_def file_recs_def demo_log_session_def records_def upt_rec)
  show "logrec_crc r demo_log_session = 0"
    by (simp add: logrec_crc_def count_crc_def demo_log_session_def demo_session_sel demo_access_sel demo_bee_def
        demo_tariffs_def dbs.defs gates.defs tariffs.defs)
qed

theorem report_accounts_for_log_witness:
  "\<exists>out v. report_loop 2 0 0 0 1000 0x7fffffff [] (demo_logrec 0 0) demo_log_session = Inr (out, v) \<and>
     kind_total (demo_logrec 0 0) out = 12 \<and> kinds_apart out"
proof -
  have "kind_total (demo_logrec 0 0) (filter (chosen 0 0 1000) [demo_logrec 100 7, demo_logrec 200 5]) = 12"
    by (simp add: kind_total_def chosen_def demo_logrec_def same_kind_def isdata_zero_def)
  then show ?thesis
    using report_accounts_for_log[where w = demo_log_session and path = "''log''" and accno = 0 and tfrom = 0 and tto = 1000 and tstep = "0x7fffffff" and d = "demo_logrec 0 0"] demo_log_session_ready
    by (auto simp: demo_logrec_def numeral_2_eq_2)
qed

end
