(* ===== verification/Cards.thy ===== *)
theory Cards
  imports Traffic
begin

text \<open>
  The pay cards (\<open>src/src/bee/core/command.c\<close>: the subcommands of \<open>card\<close> and the tables of
  \<open>cmd_tab_begin\<close> to \<open>cmd_tab_abort\<close>) and the named queries (\<open>src/src/bee/core/queries.c\<close>).  The SQL
  server is not part of the sources: what it answers is a parameter, a list of results consumed from the
  left (\<open>sql_answers\<close>; \<open>None\<close> is a failure, and so is every answer behind the end), and every query it
  is sent is kept in \<open>sql_log\<close>.  A row is the list of its columns up to the null pointer that ends it.
\<close>

abbreviation (input) RET_ROW :: int where "RET_ROW \<equiv> 5"

section \<open>Queries\<close>

definition db2_search :: "string \<Rightarrow> 'a session_scheme \<Rightarrow> string list list option \<times> 'a session_scheme" where
  "db2_search query w =
     (if \<not> db_up w then (None, w)
      else (let w = w\<lparr>sql_log := sql_log w @ [strlcpy query 65536]\<rparr>
            in case sql_answers w of
                 [] \<Rightarrow> (None, w)
               | a # as \<Rightarrow> (a, w\<lparr>sql_answers := as\<rparr>)))"

text \<open>\<open>ESCARG1\<close> and its like: the escaped text, a null pointer without a database.\<close>

definition escarg :: "string \<Rightarrow> 'a session_scheme \<Rightarrow> ptr" where
  "escarg s w = (if db_up w then c_strescape w s 128 else None)"

text \<open>A null pointer in print.\<close>

definition null_text :: "ptr \<Rightarrow> string" where
  "null_text p = (case p of None \<Rightarrow> ''(null)'' | Some s \<Rightarrow> s)"

definition cell :: "string list \<Rightarrow> nat \<Rightarrow> ptr" where
  "cell row c = (if c < length row then Some (row ! c) else None)"

definition first_row :: "string list list \<Rightarrow> string list" where
  "first_row rows = (case rows of [] \<Rightarrow> [] | r # _ \<Rightarrow> r)"

fun query_ptr :: "(string \<times> string) list \<Rightarrow> string \<Rightarrow> ptr" where
  "query_ptr [] name = None"
| "query_ptr ((n, q) # qs) name = (if strcaseeq n name then Some q else query_ptr qs name)"

text \<open>\<open>snprintf(buf + len, size - len, "%s", s)\<close>: a negative room becomes a huge unsigned number.\<close>

definition cat_put :: "int \<Rightarrow> string \<Rightarrow> string \<Rightarrow> int \<Rightarrow> (string \<times> int) option" where
  "cat_put sz s buf len =
     (if len > sz then None else Some (take (nat len) buf @ take (nat (sz - len - 1)) s, len + int (length s)))"

text \<open>The parameter number behind a dollar sign, 0 for none.\<close>

definition param_no :: "string \<Rightarrow> nat" where
  "param_no str = (case str of [] \<Rightarrow> 0 | c # _ \<Rightarrow> (let n = of_char c :: nat in if 49 \<le> n \<and> n \<le> 57 then n - 48 else 0))"

lemma dollar_rest: "snd (dollar p) = Some r \<Longrightarrow> length r < length p"
  using dollar_length[of p "fst (dollar p)" r] by (simp add: prod_eq_iff)

text \<open>\<open>None\<close> is an access behind the buffer or behind the arguments.\<close>

function query_vcatstr :: "int \<Rightarrow> string \<Rightarrow> string list \<Rightarrow> string \<Rightarrow> int \<Rightarrow> (string \<times> int) option" where
  "query_vcatstr sz p args buf len = (let d = dollar p
     in case snd d of
          None \<Rightarrow> cat_put sz (fst d) buf len
        | Some str \<Rightarrow>
            (let n = param_no str;
                 part = (if n > 0 then fst d else fst d @ ''$'');
                 m = min (int (length part)) (sz - len)
             in if m > 0 \<and> len + m + 1 \<ge> sz then None
                else (let buf = (if m > 0 then take (nat len) buf @ take (nat m) part else buf);
                          len = (if m > 0 then len + m else len)
                      in if n = 0 then query_vcatstr sz str args buf len
                         else if n > length args then None
                         else (case cat_put sz (args ! (n - 1)) buf len of
                             None \<Rightarrow> None
                           | Some bl \<Rightarrow> query_vcatstr sz (drop 1 str) args (fst bl) (snd bl)))))"
  by pat_completeness auto
termination
  by (relation "measure (\<lambda>(_, p, _). length p)") (auto dest!: dollar_rest)

declare query_vcatstr.simps [simp del]

definition dbex_search :: "string \<Rightarrow> string list \<Rightarrow> 'a session_scheme \<Rightarrow> (string list list option \<times> 'a session_scheme) option" where
  "dbex_search name args w = (case query_ptr (qlist w) name of
      None \<Rightarrow> Some (None, w)
    | Some str \<Rightarrow> map_option (\<lambda>(buf, len). db2_search buf w) (query_vcatstr 65536 str args [] 0))"

section \<open>Tables\<close>

definition cmd_tab_abort :: "'a session_scheme \<Rightarrow> 'a session_scheme" where
  "cmd_tab_abort w = w\<lparr>outtab_rows := [], outtab_widths := []\<rparr>"

definition cmd_tab_begin :: "'a session_scheme \<Rightarrow> 'a session_scheme" where
  "cmd_tab_begin w = cmd_tab_abort w"

definition cmd_tab_newrow :: "'a session_scheme \<Rightarrow> 'a session_scheme" where
  "cmd_tab_newrow w = (case sys_alloc w of (mem, w) \<Rightarrow>
     if mem then w\<lparr>outtab_rows := outtab_rows w @ [[]]\<rparr> else w)"

lemma sys_alloc_more: "sys_alloc w = (m, w') \<Longrightarrow> outtab_widths w' = outtab_widths w \<and> length (script w') \<le> length (script w)"
  by (auto simp: sys_alloc_def next_outcome_def split: list.splits)

lemma sys_alloc_script: "sys_alloc w = (False, w') \<Longrightarrow> length (script w') < length (script w)"
  by (auto simp: sys_alloc_def next_outcome_def split: list.splits)

text \<open>
  The loop that makes room for the width of the new column: a failing \<open>da_new\<close> is not noticed (the
  pointer it returns is never negative), so it is called again.
\<close>

function tab_widen :: "nat \<Rightarrow> 'a session_scheme \<Rightarrow> 'a session_scheme" where
  "tab_widen n w = (let r = sys_alloc w
     in if length (outtab_widths w) < n
        then (if fst r then tab_widen n ((snd r)\<lparr>outtab_widths := outtab_widths w @ [0]\<rparr>) else tab_widen n (snd r))
        else w)"
  by pat_completeness auto

termination
proof (relation "measures [\<lambda>(n, w). n - length (outtab_widths w), \<lambda>(n, w). length (script w)]", simp_all)
  fix n and w :: "'a session_scheme"
  assume "length (outtab_widths w) < n"
  then show "n - Suc (length (outtab_widths w)) < n - length (outtab_widths w) \<or>
      n - Suc (length (outtab_widths w)) = n - length (outtab_widths w) \<and> length (script (snd (sys_alloc w))) < length (script w)"
    by (intro disjI1 diff_less_mono2) simp_all
next
  fix n and w :: "'a session_scheme"
  assume "\<not> fst (sys_alloc w)"
  then have "sys_alloc w = (False, snd (sys_alloc w))" by (simp add: prod_eq_iff)
  with sys_alloc_script sys_alloc_more
  show "n - length (outtab_widths (snd (sys_alloc w))) < n - length (outtab_widths w) \<or>
      n - length (outtab_widths (snd (sys_alloc w))) = n - length (outtab_widths w) \<and>
      length (script (snd (sys_alloc w))) < length (script w)" by metis
qed

declare tab_widen.simps [simp del]

text \<open>A value in the last row; \<open>None\<close> when there is no row for want of memory.\<close>

definition cmd_tab_value :: "string \<Rightarrow> arg list \<Rightarrow> 'a session_scheme \<Rightarrow> 'a session_scheme option" where
  "cmd_tab_value format args w =
     (let w = (if outtab_rows w = [] then cmd_tab_newrow w else w)
      in case sys_alloc w of (mem, w) \<Rightarrow>
         let val = printf format args;
             n = (if mem then int (length val) else - 1)
         in if outtab_rows w = [] then None
            else (case sys_alloc w of (mem2, w) \<Rightarrow>
              if \<not> mem2 then Some w
              else (let row = last (outtab_rows w) @ [if mem then Some val else None];
                        w = w\<lparr>outtab_rows := butlast (outtab_rows w) @ [row]\<rparr>;
                        w = tab_widen (length row) w;
                        c = length row - 1
                    in Some (if outtab_widths w ! c < n then w\<lparr>outtab_widths := (outtab_widths w)[c := n]\<rparr> else w))))"

text \<open>The cells of one row, from column \<open>n\<close> on.\<close>

fun tab_cells :: "string option list \<Rightarrow> nat \<Rightarrow> 'a session_scheme \<Rightarrow> 'a session_scheme option" where
  "tab_cells [] n w = Some w"
| "tab_cells (v # vs) n w =
     Option.bind (cmd_out_add (if HumanRead w = 0 then ''%s;''
                               else snprintf 16 ''%%%ds  '' [AI (outtab_widths w ! n)]) [AS (null_text v)] w)
       (tab_cells vs (n + 1))"

fun tab_rows :: "string option list list \<Rightarrow> 'a session_scheme \<Rightarrow> 'a session_scheme option" where
  "tab_rows [] w = Some w"
| "tab_rows (r # rs) w =
     Option.bind (tab_cells r 0 (snd (cmd_out_begin RET_ROW w))) (\<lambda>w. tab_rows rs (snd (cmd_out_end w)))"

definition cmd_tab_end :: "'a session_scheme \<Rightarrow> 'a session_scheme option" where
  "cmd_tab_end w = map_option cmd_tab_abort (tab_rows (outtab_rows w) w)"

text \<open>The loops that put the rows of an answer into the table, \<open>fmt c\<close> the format of column \<open>c\<close>.\<close>

fun put_cells :: "(nat \<Rightarrow> string) \<Rightarrow> string list \<Rightarrow> nat \<Rightarrow> 'a session_scheme \<Rightarrow> 'a session_scheme option" where
  "put_cells fmt [] c w = Some w"
| "put_cells fmt (x # xs) c w = Option.bind (cmd_tab_value (fmt c) [AS x] w) (put_cells fmt xs (c + 1))"

fun put_rows :: "(nat \<Rightarrow> string) \<Rightarrow> string list list \<Rightarrow> 'a session_scheme \<Rightarrow> 'a session_scheme option" where
  "put_rows fmt [] w = Some w"
| "put_rows fmt (r # rs) w = Option.bind (put_cells fmt r 0 (cmd_tab_newrow w)) (put_rows fmt rs)"

section \<open>Card commands\<close>

definition db_error :: "'a session_scheme \<Rightarrow> 'a reply" where
  "db_error w = ret ERR_SYSTEM (Some ''Database error'') [] w"

text \<open>The column formats of the two card lists.\<close>

definition plain_cell :: "nat \<Rightarrow> string" where "plain_cell c = ''%s''"

definition pin_cell :: "nat \<Rightarrow> string" where "pin_cell c = (if c \<noteq> 1 then ''%s'' else ''%016s'')"

definition show_rows :: "(nat \<Rightarrow> string) \<Rightarrow> string list list \<Rightarrow> 'a session_scheme \<Rightarrow> 'a session_scheme option" where
  "show_rows fmt rows w = Option.bind (put_rows fmt rows (cmd_tab_begin w)) cmd_tab_end"

definition cmdh_card :: "string \<Rightarrow> ptr \<Rightarrow> 'a session_scheme \<Rightarrow> 'a reply" where
  "cmdh_card cmd args w =
     (case db2_search (''SELECT id, val, (SELECT name FROM resources WHERE id = res_id), '' @
          ''to_char(gen_time,'' @ [CHR 0x27] @ ''DD.MM.YYYY'' @ [CHR 0x27] @ ''), to_char(expr_time,'' @ [CHR 0x27] @
          ''DD.MM.YYYY'' @ [CHR 0x27] @ ''), batchno FROM paycards WHERE printed ORDER BY id;'') w of
        (None, w) \<Rightarrow> db_error w
      | (Some rows, w) \<Rightarrow>
          if rows \<noteq> []
          then Option.bind (show_rows plain_cell rows w)
                 (ret RET_SUCCESS (Some ''%d active cards'') [AI (int (length rows))])
          else ret RET_SUCCESS (Some ''no rows'') [] w)"

text \<open>\<open>n\<close> cards are left to make; \<open>e\<close> attempts in a row have failed.\<close>

definition next_random :: "'a session_scheme \<Rightarrow> nat \<times> 'a session_scheme" where
  "next_random w = (unat (c_random w (rnd w)), w\<lparr>rnd := rnd w + 1\<rparr>)"

definition card_query :: "int \<Rightarrow> nat \<Rightarrow> nat \<Rightarrow> int \<Rightarrow> string \<Rightarrow> string \<Rightarrow> string" where
  "card_query val pin code days batch res =
     printf ''SELECT pcard_new(%d, %lld, %lld, %d, %s, %s)'' [AI val, AI (int pin), AI (int code), AI days, AS batch, AS res]"

definition says_true :: "string list list option \<Rightarrow> bool" where
  "says_true a = (case a of None \<Rightarrow> False | Some rows \<Rightarrow> (case first_row rows of [] \<Rightarrow> False | x # _ \<Rightarrow> strcaseeq x ''t''))"

function gen_loop :: "int \<Rightarrow> int \<Rightarrow> nat \<Rightarrow> int \<Rightarrow> int \<Rightarrow> string \<Rightarrow> string \<Rightarrow> 'a session_scheme \<Rightarrow> 'a reply" where
  "gen_loop i no e val days batch res w =
     (if i < no
      then (let r1 = next_random w; r2 = next_random (snd r1); r3 = next_random (snd r2);
                pin = (fst r1 + 2 ^ 32 * fst r2) mod 10000000000000000;
                code = (2 ^ 32 * fst r3) mod 100000000;
                a = db2_search (card_query val pin code days batch res) (snd r3)
            in if \<not> says_true (fst a)
               then (if e > 2 then ret ERR_SYSTEM (Some ''SQL error on cards generation'') [] (snd a)
                     else gen_loop i no (e + 1) val days batch res (snd a))
               else gen_loop (i + 1) no 0 val days batch res (say RET_COMMENT ''Card %d done'' [AI i] (snd a)))
      else ret RET_SUCCESS None [] w)"
  by pat_completeness auto
termination
  by (relation "measures [\<lambda>(i, no, _). nat (no - i), \<lambda>(_, _, e, _). 3 - e]") auto

declare gen_loop.simps [simp del]

text \<open>A number at least 1, or the reply to a missing or smaller one.\<close>

definition number_arg :: "ptr \<Rightarrow> string \<Rightarrow> string \<Rightarrow> 'a session_scheme \<Rightarrow> 'a reply + int \<times> ptr" where
  "number_arg p missing bad w = (case next_token p CMD_DELIM of
      (None, _) \<Rightarrow> Inl (ret ERR_ARGCOUNT (Some missing) [] w)
    | (Some str, p) \<Rightarrow> if atol str < 1 then Inl (ret ERR_INVARG (Some bad) [] w) else Inr (atol str, p))"

text \<open>The resource of the cards: a reply, or its number (-1 for money).\<close>

definition card_resource :: "ptr \<Rightarrow> 'a session_scheme \<Rightarrow> 'a reply + int \<times> 'a session_scheme" where
  "card_resource str w = (case str of
      None \<Rightarrow> Inr (- 1, w)
    | Some s \<Rightarrow> (case db2_search (printf (''SELECT id FROM resources WHERE name = '' @ [CHR 0x27] @ ''%s'' @ [CHR 0x27] @ '' AND NOT deleted;'')
          [AS (null_text (escarg s w))]) w of
          (None, w) \<Rightarrow> Inl (db_error w)
        | (Some rows, w) \<Rightarrow> (case first_row rows of
              [] \<Rightarrow> Inl (ret ERR_INVARG (Some ''Invalid resource name'') [] w)
            | x # _ \<Rightarrow> Inr (strtoll x 10, w))))"

definition cmdh_card_gen :: "string \<Rightarrow> ptr \<Rightarrow> 'a session_scheme \<Rightarrow> 'a reply" where
  "cmdh_card_gen cmd args w =
     (case number_arg args ''Arguments expected: <no> <days> <value> [<res>]'' ''Invalid number of cards'' w of
        Inl r \<Rightarrow> r
      | Inr (no, p) \<Rightarrow> (case number_arg p ''Card lifetime (days) expected'' ''Invalid card lifetime'' w of
          Inl r \<Rightarrow> r
        | Inr (days, p) \<Rightarrow> (case number_arg p ''Card value expected'' ''Invalid card value'' w of
            Inl r \<Rightarrow> r
          | Inr (val, p) \<Rightarrow> (case card_resource (fst (next_token p CMD_DELIM)) w of
              Inl r \<Rightarrow> r
            | Inr (res, w) \<Rightarrow> (case db2_search (''SELECT batch_new('' @ [CHR 0x27] @ ''comment stub'' @ [CHR 0x27] @ '');'') w of
                (None, w) \<Rightarrow> db_error w
              | (Some rows, w) \<Rightarrow>
                  (let batch = null_text (cell (first_row rows) 0);
                       w = say RET_COMMENT ''Generating batch #%s (%d cards %d, %d days)'' [AS batch, AI no, AI val, AI days] w;
                       w = say RET_INT ''%s'' [AS batch] w
                   in gen_loop 0 no 0 val days (strlcpy batch 128) (if res < 0 then ''NULL'' else snprintf 128 ''%lld'' [AI res]) w))))))"

text \<open>The line of batch numbers.\<close>

fun batch_cells :: "string list list \<Rightarrow> 'a session_scheme \<Rightarrow> 'a session_scheme option" where
  "batch_cells [] w = Some w"
| "batch_cells (r # rs) w =
     Option.bind (cmd_out_add ''%s%s'' [AS (null_text (cell r 0)), AS (if rs \<noteq> [] then '' '' else [])] w) (batch_cells rs)"

text \<open>A batch number below 1 is answered with an error, and the list is asked for all the same.\<close>

definition cmdh_card_list :: "string \<Rightarrow> ptr \<Rightarrow> 'a session_scheme \<Rightarrow> 'a reply" where
  "cmdh_card_list cmd args w = (case fst (next_token args CMD_DELIM) of
      None \<Rightarrow> (case db2_search ''SELECT DISTINCT batchno FROM paycards WHERE NOT printed;'' w of
          (None, w) \<Rightarrow> db_error w
        | (Some rows, w) \<Rightarrow>
            Option.bind (if rows \<noteq> []
                         then map_option (\<lambda>w. snd (cmd_out_end w))
                                (Option.bind (cmd_out_add ''Available batch numers: '' [] (snd (cmd_out_begin RET_COMMENT w))) (batch_cells rows))
                         else Some (say RET_COMMENT ''No available batches'' [] w))
              (ret RET_SUCCESS None []))
    | Some str \<Rightarrow>
        (let no = atol str;
             w = (if no < 1 then say ERR_INVARG ''Invalid batch number'' [] w else w)
         in case db2_search (printf (''SELECT id, pin, val, to_char(gen_time,'' @ [CHR 0x27] @ ''DD.MM.YYYY'' @ [CHR 0x27] @
              ''), to_char(expr_time,'' @ [CHR 0x27] @ ''DD.MM.YYYY'' @ [CHR 0x27] @
              '') FROM paycards WHERE NOT printed AND batchno = %d;'') [AI no]) w of
             (None, w) \<Rightarrow> db_error w
           | (Some rows, w) \<Rightarrow>
               if rows \<noteq> [] then Option.bind (show_rows pin_cell rows w) (ret RET_SUCCESS None [])
               else ret RET_SUCCESS (Some ''No rows'') [] w))"

text \<open>A query that answers with a truth value.\<close>

definition card_action :: "string \<Rightarrow> 'a session_scheme \<Rightarrow> 'a reply" where
  "card_action query w = (case db2_search query w of (a, w) \<Rightarrow>
     if \<not> says_true a then db_error w else ret RET_SUCCESS None [] w)"

definition cmdh_card_emit :: "string \<Rightarrow> ptr \<Rightarrow> 'a session_scheme \<Rightarrow> 'a reply" where
  "cmdh_card_emit cmd args w = (case fst (next_token args CMD_DELIM) of
      None \<Rightarrow> ret ERR_ARGCOUNT (Some ''Batch number expected'') [] w
    | Some str \<Rightarrow>
        (let no = atol str;
             w = (if no < 1 then say ERR_INVARG ''Invalid batch number'' [] w else w)
         in card_action (printf ''SELECT batch_emit(%d)'' [AI no]) w))"

definition card_no_action :: "string \<Rightarrow> ptr \<Rightarrow> 'a session_scheme \<Rightarrow> 'a reply" where
  "card_no_action function args w = (case fst (next_token args CMD_DELIM) of
      None \<Rightarrow> ret ERR_ARGCOUNT (Some ''Card number expected'') [] w
    | Some sno \<Rightarrow> card_action (printf (''SELECT '' @ function @ ''('' @ [CHR 0x27] @ ''%s'' @ [CHR 0x27] @ '')'') [AS (null_text (escarg sno w))]) w)"

definition cmdh_card_null :: "string \<Rightarrow> ptr \<Rightarrow> 'a session_scheme \<Rightarrow> 'a reply" where
  "cmdh_card_null cmd args w = card_no_action ''pcard_null'' args w"

definition cmdh_card_nullbatch :: "string \<Rightarrow> ptr \<Rightarrow> 'a session_scheme \<Rightarrow> 'a reply" where
  "cmdh_card_nullbatch cmd args w = card_no_action ''batch_null'' args w"

definition cmdh_card_expire :: "string \<Rightarrow> ptr \<Rightarrow> 'a session_scheme \<Rightarrow> 'a reply" where
  "cmdh_card_expire cmd args w = card_action ''SELECT pcards_expire()'' w"

text \<open>The rows of a search for a card: a line per row, with the given cells.\<close>

fun tab_line :: "string list \<Rightarrow> 'a session_scheme \<Rightarrow> 'a session_scheme option" where
  "tab_line [] w = Some w"
| "tab_line (x # xs) w = Option.bind (cmd_out_add (''%s'' @ TAB) [AS x] w) (tab_line xs)"

fun card_lines :: "(string list \<Rightarrow> string list) \<Rightarrow> string list list \<Rightarrow> 'a session_scheme \<Rightarrow> 'a session_scheme option" where
  "card_lines cells [] w = Some w"
| "card_lines cells (r # rs) w =
     Option.bind (tab_line (cells r) (snd (cmd_out_begin RET_ROW w))) (\<lambda>w. card_lines cells rs (snd (cmd_out_end w)))"

definition eight_cells :: "string list \<Rightarrow> string list" where
  "eight_cells r = map (\<lambda>c. null_text (cell r c)) [0, 1, 2, 3, 4, 5, 6, 7]"

definition card_found :: "string \<Rightarrow> string \<Rightarrow> ptr \<Rightarrow> string \<Rightarrow> 'a session_scheme \<Rightarrow> (string list list option \<times> 'a session_scheme) option" where
  "card_found name sno spin no w = (case spin of
      None \<Rightarrow> dbex_search (name @ no) [null_text (escarg sno w)] w
    | Some pin \<Rightarrow> dbex_search (name @ ''pin'' @ no) [null_text (escarg sno w), null_text (escarg pin w)] w)"

definition cmdh_card_check :: "string \<Rightarrow> ptr \<Rightarrow> 'a session_scheme \<Rightarrow> 'a reply" where
  "cmdh_card_check cmd args w = (case next_token args CMD_DELIM of
      (None, _) \<Rightarrow> ret ERR_ARGCOUNT (Some ''Card number expected'') [] w
    | (Some sno, p) \<Rightarrow>
        (let spin = fst (next_token p CMD_DELIM)
         in Option.bind (card_found ''chkcard'' sno spin ''1'' w) (\<lambda>(a, w). case a of
              None \<Rightarrow> db_error w
            | Some rows \<Rightarrow>
                if rows \<noteq> [] then Option.bind (card_lines (\<lambda>r. r) rows w) (ret RET_SUCCESS None [])
                else Option.bind (card_found ''chkcard'' sno spin ''2'' w) (\<lambda>(a, w). case a of
                    None \<Rightarrow> db_error w
                  | Some rows \<Rightarrow>
                      if rows \<noteq> [] then Option.bind (card_lines eight_cells rows w) (ret RET_SUCCESS None [])
                      else ret ERR_NOACC (Some ''Card not found'') [] w))))"

text \<open>
  A card is used up by its owner: the account must be one that can be paid for, the database must
  accept the card, and only then is the value of the card added.  \<open>utl_fail\<close> is an answer with a number.
\<close>

definition utl_fail :: "int \<Rightarrow> int \<Rightarrow> string option \<Rightarrow> arg list \<Rightarrow> 'a session_scheme \<Rightarrow> 'a reply" where
  "utl_fail n err msg args w = ret err msg args (say RET_INT ''%d'' [AI n] w)"

text \<open>The account of the host: a reply, or its number.\<close>

definition utl_account :: "string \<Rightarrow> 'a session_scheme \<Rightarrow> 'a reply + int \<times> 'a session_scheme" where
  "utl_account shost w = (case lookup_addr shost (- 1) w of (rc, ind) \<Rightarrow>
     if rc = - 1 then Inl (utl_fail (- 3) ERR_INVARG None [] w)
     else (let accno = rl_accno (linktab w ! nat ind)
           in case acc_baselock (Accbase w) w of (rc, w) \<Rightarrow>
             if rc \<noteq> SUCCESS then Inl (utl_fail (- 3) ERR_IOERROR None [] w)
             else (case acci_get (Accbase w) accno (stack_acc w) w of (rc, acc, w) \<Rightarrow>
               let w = unlock_acc w
               in if rc = IO_ERROR then Inl (utl_fail (- 3) ERR_IOERROR None [] w)
                  else if rc = NOT_FOUND then Inl (utl_fail (- 3) ERR_NOACC None [] w)
                  else if a_tag acc AND ATAG_BROKEN \<noteq> 0 then Inl (utl_fail (- 6) ERR_ACCESS (Some ''Account is broken'') [] w)
                  else if a_tag acc AND ATAG_DELETED \<noteq> 0 then Inl (utl_fail (- 3) ERR_ACCESS (Some ''Account is deleted'') [] w)
                  else if a_tag acc AND ATAG_FROZEN \<noteq> 0 then Inl (utl_fail (- 7) ERR_ACCESS (Some ''Account is frozen'') [] w)
                  else if a_tag acc AND ATAG_UNLIMIT \<noteq> 0 then Inl (utl_fail (- 8) ERR_ACCESS (Some ''Account is unlimited'') [] w)
                  else Inr (accno, w))))"

definition utl_query :: "string \<Rightarrow> string \<Rightarrow> string \<Rightarrow> 'a session_scheme \<Rightarrow> string" where
  "utl_query sno spin shost w =
     (let q = [CHR 0x27]
      in printf (''SELECT pcard_utluser_v0('' @ q @ ''%s'' @ q @ '', '' @ q @ ''%s'' @ q @ '', '' @ q @ ''%s'' @ q @ '');'')
           [AS (null_text (escarg sno w)), AS (null_text (escarg spin w)), AS (null_text (escarg shost w))])"

definition cmdh_card_utluser :: "string \<Rightarrow> ptr \<Rightarrow> 'a session_scheme \<Rightarrow> 'a reply" where
  "cmdh_card_utluser cmd args w = (case next_token args CMD_DELIM of
      (None, _) \<Rightarrow> utl_fail (- 1) ERR_ARGCOUNT (Some ''<card_number> <pin_code> <client_host>'') [] w
    | (Some sno, p) \<Rightarrow> (case next_token p CMD_DELIM of
          (None, _) \<Rightarrow> utl_fail (- 1) ERR_ARGCOUNT (Some ''Card PIN expected'') [] w
        | (Some spin, p) \<Rightarrow> (case next_token p CMD_DELIM of
              (None, _) \<Rightarrow> utl_fail (- 1) ERR_ARGCOUNT (Some ''Client host expected'') [] w
            | (Some shost, p) \<Rightarrow> (case utl_account shost w of
                  Inl r \<Rightarrow> r
                | Inr (accno, w) \<Rightarrow> (case db2_search (utl_query sno spin shost w) w of
                      (None, w) \<Rightarrow> utl_fail (- 4) ERR_SYSTEM (Some ''SQL error'') [] w
                    | (Some rows, w) \<Rightarrow> (case first_row rows of
                          [] \<Rightarrow> None
                        | x # _ \<Rightarrow>
                            (let val = atol x
                             in if val < 0 then utl_fail val ERR_SYSTEM (Some ''Utilize error %d'') [AI val] w
                                else Option.bind (cmd_add accno (d_of_int val) 0 w) (\<lambda>(rc, w).
                                  if rc < 0
                                  then ret ERR_ACCESS (Some ''Unable to access account'') []
                                         (snd (cmd_accerr rc (say RET_INT ''%d'' [AI (- 9)] w)))
                                  else ret RET_SUCCESS (Some ''Card activated (%+d)'') [AI val]
                                         (say RET_INT ''%d'' [AI val] (w\<lparr>NeedUpdate := 1\<rparr>))))))))))"

end
