(* ===== verification/Shell.thy ===== *)
theory Shell
  imports GateCommands Reports Cards
begin

text \<open>
  The command interpreter (\<open>src/src/bee/core/command.c\<close>: the tables \<open>cmds\<close> and \<open>cardcmds\<close>,
  \<open>cmd_exec\<close>) and the loop of a session (\<open>core.c\<close>, the end of \<open>main\<close>): lines are read, dispatched by
  name and rights to the handlers of the other theories, and answered.  What a session without rights
  can do, and that it ends.
\<close>

section \<open>The command tables\<close>

abbreviation (input) PERM_SUPERUSER :: int where "PERM_SUPERUSER \<equiv> 2147483648"

text \<open>Name, handler, rights, table of subcommands.\<close>

datatype 'a command =
  Command string "(string \<Rightarrow> ptr \<Rightarrow> 'a session_scheme \<Rightarrow> 'a reply) option" int "'a command list option"

definition cardcmds :: "'a command list" where
  "cardcmds = [
     Command '''' (Some cmdh_card) 0 None,
     Command ''gen'' (Some cmdh_card_gen) 0 None,
     Command ''list'' (Some cmdh_card_list) 0 None,
     Command ''emit'' (Some cmdh_card_emit) 0 None,
     Command ''check'' (Some cmdh_card_check) 0 None,
     Command ''null'' (Some cmdh_card_null) 0 None,
     Command ''nullbatch'' (Some cmdh_card_nullbatch) 0 None,
     Command ''expire'' (Some cmdh_card_expire) 0 None,
     Command ''utluser'' (Some cmdh_card_utluser) 0 None,
     Command ''useractivate'' (Some cmdh_card_utluser) 0 None]"

definition cmds :: "'a command list" where
  "cmds = [
     Command ''exit'' (Some cmdh_exit) 0 None,
     Command ''ver'' (Some cmdh_ver) 0 None,
     Command ''user'' (Some cmdh_notimpl) 0 None,
     Command ''pass'' (Some cmdh_notimpl) 1 None,
     Command ''authkey'' (Some cmdh_notimpl) 0 None,
     Command ''authsign'' (Some cmdh_notimpl) 1 None,
     Command ''acc'' (Some cmdh_acc) 4 None,
     Command ''look'' (Some cmdh_lookup) 4 None,
     Command ''log'' (Some cmdh_log) 4 None,
     Command ''freeze'' (Some cmdh_freeze) 4 None,
     Command ''unfreeze'' (Some cmdh_freeze) 4 None,
     Command ''on'' (Some cmdh_freeze) 4 None,
     Command ''off'' (Some cmdh_freeze) 4 None,
     Command ''unlimit'' (Some cmdh_freeze) 4 None,
     Command ''limit'' (Some cmdh_freeze) 4 None,
     Command ''_break'' (Some cmdh_freeze) 4 None,
     Command ''payman'' (Some cmdh_freeze) 4 None,
     Command ''nopayman'' (Some cmdh_freeze) 4 None,
     Command ''_rstsumm'' (Some cmdh_freeze) 4 None,
     Command ''resmode'' (Some cmdh_freeze) 4 None,
     Command ''noresmode'' (Some cmdh_freeze) 4 None,
     Command ''forcelog'' (Some cmdh_freeze) 4 None,
     Command ''noforcelog'' (Some cmdh_freeze) 4 None,
     Command ''_fix'' (Some cmdh_fix) 4 None,
     Command ''_dump'' (Some cmdh_notimpl) 4 None,
     Command ''_save'' (Some cmdh_notimpl) 4 None,
     Command ''new'' (Some cmdh_new) 4 None,
     Command ''add'' (Some cmdh_add) 4 None,
     Command ''_resadd'' (Some cmdh_resadd) 4 None,
     Command ''_resfix'' (Some cmdh_resadd) 4 None,
     Command ''res'' (Some cmdh_res) 4 None,
     Command ''bires'' (Some cmdh_bires) 4 None,
     Command ''_hres'' (Some cmdh_hres) 4 None,
     Command ''update'' (Some cmdh_update) 4 None,
     Command ''human'' (Some cmdh_human) 0 None,
     Command ''machine'' (Some cmdh_human) 0 None,
     Command ''date'' (Some cmdh_date) 0 None,
     Command ''report'' (Some cmdh_report) 4 None,
     Command ''del'' (Some cmdh_delete) 4 None,
     Command ''delete'' (Some cmdh_delete) 4 None,
     Command ''gate'' (Some cmdh_gate) 4 None,
     Command ''addgate'' (Some cmdh_gate) 4 None,
     Command ''delgate'' (Some cmdh_delgate) 4 None,
     Command ''allow'' (Some cmdh_notimpl) 4 None,
     Command ''disallow'' (Some cmdh_notimpl) 4 None,
     Command ''new_contract'' (Some cmdh_new_contract) 4 None,
     Command ''new_name'' (Some cmdh_new_name) 4 None,
     Command ''new_host'' (Some cmdh_notimpl) 4 None,
     Command ''new_vpn'' (Some cmdh_new_vpn) 4 None,
     Command ''intraupdate'' (Some cmdh_intraupdate) 4 None,
     Command ''setstart'' (Some cmdh_setstart) 4 None,
     Command ''setstop'' (Some cmdh_setstart) 4 None,
     Command ''lock'' (Some cmdh_lock) 4 None,
     Command ''unlock'' (Some cmdh_lock) 4 None,
     Command ''_tariff'' (Some cmdh_accres) 4 None,
     Command ''tariff'' (Some cmdh_accres) 4 None,
     Command ''docharge'' (Some cmdh_docharge) 4 None,
     Command ''setcredit'' (Some cmdh_setcredit) 4 None,
     Command ''lookopt'' (Some cmdh_lookopt) 4 None,
     Command ''_res_in'' (Some cmdh_resin) 4 None,
     Command ''_res_out'' (Some cmdh_resin) 4 None,
     Command ''card'' None 0 (Some cardcmds),
     Command ''cards'' None 0 (Some cardcmds),
     Command ''_tdump'' (Some cmdh_tdump) 4 None,
     Command ''debug'' (Some cmdh_debug) PERM_SUPERUSER None,
     Command ''_hacktime'' (Some cmdh_hacktime) 4 None]"

section \<open>Dispatch\<close>

fun command_ident :: "'a command \<Rightarrow> string" where
  "command_ident (Command ident proc pl subtab) = ident"

definition permitted :: "int \<Rightarrow> 'a session_scheme \<Rightarrow> bool" where
  "permitted pl w \<longleftrightarrow> SessionPerm w AND PERM_SUPERUSER \<noteq> 0 \<or> SessionPerm w AND pl = pl"

text \<open>
  The search for a (sub)command and its call; \<open>mainp\<close> marks the main table.  The direct recursion goes into
  the table of an entry.
\<close>

lemma find_smaller: "List.find P tab = Some (Command i f pl (Some sub)) \<Longrightarrow> size_list size sub < size_list size tab"
  by (induction tab) (auto split: if_splits)

function exec_table :: "bool \<Rightarrow> 'a command list \<Rightarrow> ptr \<Rightarrow> 'a session_scheme \<Rightarrow> 'a reply" where
  "exec_table mainp tab p w = (let t = next_token p CMD_DELIM;
       str = (case fst t of None \<Rightarrow> [] | Some s \<Rightarrow> s)
     in case List.find (\<lambda>c. strcaseeq str (command_ident c)) tab of
          Some (Command ident proc pl subtab) \<Rightarrow>
            if permitted pl w
            then (case proc of
                Some f \<Rightarrow> f str (snd t) w
              | None \<Rightarrow> (case subtab of
                    Some sub \<Rightarrow> exec_table False sub (snd t) w
                  | None \<Rightarrow> ret ERR_SYSTEM (Some ''Invalid table entry for %s'') [AS str] w))
            else ret ERR_ACCESS (Some ''No permissions for %s'') [AS str] w
        | None \<Rightarrow>
            if fst t = None
            then ret ERR_INVCMD (Some (if mainp then ''Command expected ('' @ [CHR 0x27] @ ''exit'' @ [CHR 0x27] @ '' to close session)''
                                       else ''Sub-command expected'')) [] w
            else ret ERR_INVCMD None [] w)"
  by pat_completeness auto
termination
  by (relation "measure (\<lambda>(_, tab, _, _). size_list size tab)") (auto dest: find_smaller)

declare exec_table.simps [simp del]

definition cmd_exec :: "string \<Rightarrow> 'a session_scheme \<Rightarrow> 'a reply" where
  "cmd_exec cmd w = (case cmd_preprocess (Some cmd) 1024 w of (rc, buf, w) \<Rightarrow>
     if rc < 0 then ret ERR_SYSTEM (Some ''Preprocessor error'') [] w else exec_table True cmds (Some buf) w)"

text \<open>The loop of the session; \<open>None\<close> also when it never ends.\<close>

partial_function (option) session_loop :: "'a session_scheme \<Rightarrow> 'a session_scheme option" where
  "session_loop w = (case link_gets 128 w of (rc, line, w) \<Rightarrow>
     if rc = LINK_DOWN then Some w
     else if rc = SUCCESS
     then Option.bind (cmd_exec (c_str line) w) (\<lambda>r.
            if fst r = LINK_DOWN \<or> fst r = CMD_EXIT then Some (snd r) else session_loop (snd r))
     else session_loop w)"

section \<open>Commands that need no rights\<close>

lemma calm_qlist: "calm P w w' \<Longrightarrow> qlist w' = qlist w"
proof -
  assume "calm P w w'"
  then have "dbs.more (hush w') = dbs.more (hush w)" using quiet_simps(5) unfolding calm_def by blast
  then have "qlist (hush w') = qlist (hush w)" by (cases "hush w"; cases "hush w'"; simp)
  then show ?thesis by (simp add: hush_def)
qed

text \<open>No database, no named queries, no lock on the account base.\<close>

definition plain_session :: "'a session_scheme \<Rightarrow> bool" where
  "plain_session w \<longleftrightarrow> \<not> db_up w \<and> qlist w = [] \<and> acc_free w"

lemma plain_calm: "calm P w v \<Longrightarrow> plain_session v = plain_session w"
  using calm_simps(11)[of P w v] calm_qlist[of P w v] acc_free_calm[of P w v] by (simp add: plain_session_def)

definition harmless :: "(string \<Rightarrow> ptr \<Rightarrow> 'a session_scheme \<Rightarrow> 'a reply) \<Rightarrow> bool" where
  "harmless f \<longleftrightarrow> (\<forall>str p w. plain_session w \<longrightarrow> returns {} w (f str p w))"

lemma no_search: "plain_session w \<Longrightarrow> db2_search q w = (None, w)"
  by (simp add: plain_session_def db2_search_def)

lemma returns_db_error: "calm P w v \<Longrightarrow> returns P w (db_error v)"
  by (simp add: db_error_def returns_ret)

lemma returns_utl_fail: "calm P w v \<Longrightarrow> returns P w (utl_fail n e m a v)"
  unfolding utl_fail_def by (rule returns_ret) (blast intro: calm_trans)

lemma plain_say: "plain_session (say e f a w) = plain_session w"
  by (rule plain_calm[of "{}"]) auto

lemma calm_say2: "calm P w (say e f a (say e' f' a' w))"
  by (rule calm_trans[of _ _ "say e' f' a' w"]) auto

lemma calm_say_tick: "calm P w (say e f a (tick w))"
  by (rule calm_trans[of _ _ "tick w"]) (auto intro: quiet_calm)

lemma calm_modes: "calm P w (w\<lparr>HumanRead := a, MachineRead := b\<rparr>)" "calm P w (w\<lparr>MachineRead := b, HumanRead := a\<rparr>)"
  by simp_all

lemma returns_out:
  assumes "calm P w v"
  shows "returns P w (case cmd_out e f a v of (rc, w) \<Rightarrow> Some (if rc < 0 then rc else 0, w))"
  using calm_trans[OF assms calm_out[of e f a v]] by (auto simp: returns_def split: prod.splits)

lemma harmless_plain:
  "harmless cmdh_exit" "harmless cmdh_notimpl" "harmless cmdh_ver" "harmless cmdh_human" "harmless cmdh_date"
proof -
  show "harmless cmdh_exit" by (auto simp: harmless_def cmdh_exit_def returns_def)
  show "harmless cmdh_notimpl" by (simp add: harmless_def cmdh_notimpl_def returns_ret)
  show "harmless cmdh_ver" unfolding harmless_def cmdh_ver_def by (intro allI impI returns_ret calm_say2)
  show "harmless cmdh_human" unfolding harmless_def cmdh_human_def Let_def by (auto intro: returns_out calm_modes)
  show "harmless cmdh_date" by (simp add: harmless_def cmdh_date_def sys_time_now Let_def returns_ret calm_say_tick)
qed

lemma returns_number:
  "(\<And>n q. returns {} w (f n q)) \<Longrightarrow> returns {} w (case number_arg p m b w of Inl r \<Rightarrow> r | Inr (n, q) \<Rightarrow> f n q)"
  by (auto simp: number_arg_def returns_ret simp del: next_token.simps split: prod.splits option.splits)

lemma returns_resource:
  "plain_session w \<Longrightarrow> (\<And>n. returns {} w (f n w))
     \<Longrightarrow> returns {} w (case card_resource str w of Inl r \<Rightarrow> r | Inr (n, w) \<Rightarrow> f n w)"
  by (auto simp: card_resource_def no_search returns_db_error split: option.split)

lemma harmless_card_action: "plain_session v \<Longrightarrow> calm {} w v \<Longrightarrow> returns {} w (card_action q v)"
  by (simp add: card_action_def no_search says_true_def returns_db_error)

lemma no_card_found: "plain_session w \<Longrightarrow> card_found n s p k w = Some (None, w)"
  by (auto simp: card_found_def dbex_search_def plain_session_def split: option.split)

lemma harmless_cards:
  "harmless cmdh_card" "harmless cmdh_card_gen" "harmless cmdh_card_list" "harmless cmdh_card_emit"
  "harmless cmdh_card_check" "harmless cmdh_card_null" "harmless cmdh_card_nullbatch" "harmless cmdh_card_expire"
proof -
  show "harmless cmdh_card" by (simp add: harmless_def cmdh_card_def no_search returns_db_error)
  show "harmless cmdh_card_gen"
    unfolding harmless_def cmdh_card_gen_def
    by (intro allI impI returns_number returns_resource) (simp_all add: no_search returns_db_error)
  show "harmless cmdh_card_list"
    by (auto simp: harmless_def cmdh_card_list_def no_search plain_say returns_db_error Let_def simp del: next_token.simps split: option.splits)
  show "harmless cmdh_card_emit"
    by (auto simp: harmless_def cmdh_card_emit_def returns_ret plain_say Let_def simp del: next_token.simps split: option.splits intro!: harmless_card_action)
  show "harmless cmdh_card_null" "harmless cmdh_card_nullbatch"
    by (auto simp: harmless_def cmdh_card_null_def cmdh_card_nullbatch_def card_no_action_def returns_ret simp del: next_token.simps
        split: option.splits intro!: harmless_card_action)
  show "harmless cmdh_card_expire" by (simp add: harmless_def cmdh_card_expire_def harmless_card_action)
  show "harmless cmdh_card_check"
    by (auto simp: harmless_def cmdh_card_check_def no_card_found returns_ret returns_db_error Let_def simp del: next_token.simps split: option.splits prod.splits)
qed

lemma utl_account_calm:
  assumes "acc_free w"
  shows "case utl_account h w of Inl r \<Rightarrow> returns {} w r | Inr (accno, v) \<Rightarrow> calm {} w v"
proof -
  obtain rc ind where lk: "lookup_addr h (- 1) w = (rc, ind)" by fastforce
  obtain lrc w1 where w1: "acc_baselock (Accbase w) w = (lrc, w1)" by fastforce
  show ?thesis
  proof (cases "rc = - 1 \<or> lrc \<noteq> SUCCESS")
    case True
    with lk w1 held_lock(2)[OF w1, of "{}"] show ?thesis by (auto simp: utl_account_def returns_utl_fail)
  next
    case False
    have h1: "held {} w w1" using held_lock(1)[OF w1] False by simp
    obtain grc acc w2 where w2: "acci_get (Accbase w1) (rl_accno (linktab w ! nat ind)) (stack_acc w1) w1 = (grc, acc, w2)"
      by (metis prod_cases3)
    have "sq_fd (sqr w1) \<noteq> ab_fd (Accbase w1)" using held_simps[OF h1] assms by (simp add: acc_free_def)
    then have "calm {} w1 w2" using quiet_acci_get[OF w2] by (blast intro: quiet_calm)
    then have u: "calm {} w (unlock_acc w2)" using held_unlock[OF assms] held_calm[OF h1] by blast
    show ?thesis using False by (simp add: utl_account_def lk w1 w2 Let_def returns_utl_fail u)
  qed
qed

lemma harmless_utluser: "harmless cmdh_card_utluser"
proof -
  have "returns {} w (cmdh_card_utluser str p w)" if "plain_session w" for str p and w :: "'a session_scheme"
  proof -
    have a: "acc_free w" using that by (simp add: plain_session_def)
    have k: "returns {} w (case utl_account h w of Inl r \<Rightarrow> r | Inr (accno, w) \<Rightarrow> f accno w)"
      if "\<And>accno v. plain_session v \<Longrightarrow> calm {} w v \<Longrightarrow> returns {} w (f accno v)" for h f
      using utl_account_calm[OF a, of h] that \<open>plain_session w\<close> by (auto split: sum.splits simp: plain_calm[of "{}"])
    show ?thesis
      unfolding cmdh_card_utluser_def
      by (auto simp del: next_token.simps split: prod.split option.split simp: returns_utl_fail intro!: k) (auto simp: no_search returns_utl_fail)
  qed
  then show ?thesis by (simp add: harmless_def)
qed

section \<open>A session without rights\<close>

text \<open>Neither the superuser nor the one right the tables ask for.\<close>

definition unprivileged :: "'a session_scheme \<Rightarrow> bool" where
  "unprivileged w \<longleftrightarrow> SessionPerm w AND PERM_SUPERUSER = 0 \<and> SessionPerm w AND 4 = 0"

lemma unprivileged_calm: "calm P w v \<Longrightarrow> unprivileged v = unprivileged w"
  by (simp add: unprivileged_def calm_simps(9)[of P w v])

lemmas harmless_all = harmless_plain harmless_cards harmless_utluser

text \<open>An entry that asks for rights, or whose handler changes nothing.\<close>

fun guarded :: "'a command \<Rightarrow> bool" where
  "guarded (Command ident proc pl subtab) \<longleftrightarrow>
     pl = 4 \<or> pl = PERM_SUPERUSER \<or> (case proc of Some f \<Rightarrow> harmless f | None \<Rightarrow> subtab = Some cardcmds)"

lemma guarded_cmds: "list_all guarded cmds"
  by (simp add: cmds_def harmless_all)

lemmas guarded_cmd = guarded_cmds[unfolded list_all_iff, rule_format]

lemma guarded_cards: "list_all (\<lambda>c. case c of Command ident proc pl subtab \<Rightarrow> (\<exists>f. proc = Some f \<and> harmless f)) cardcmds"
  by (simp add: cardcmds_def harmless_all)

lemma find_member: "List.find P tab = Some c \<Longrightarrow> c \<in> set tab"
  by (induction tab) (auto split: if_splits)

lemma returns_exec_table:
  assumes f: "\<And>i f pl sub str q. Command i (Some f) pl sub \<in> set tab \<Longrightarrow> permitted pl w \<Longrightarrow> returns P w (f str q w)"
    and s: "\<And>i pl sub q. Command i None pl (Some sub) \<in> set tab \<Longrightarrow> permitted pl w \<Longrightarrow> returns P w (exec_table False sub q w)"
  shows "returns P w (exec_table m tab p w)"
proof -
  define str where "str = (case fst (next_token p CMD_DELIM) of None \<Rightarrow> [] | Some s \<Rightarrow> s)"
  have e: "exec_table m tab p w = (case List.find (\<lambda>c. strcaseeq str (command_ident c)) tab of
      Some (Command ident proc pl subtab) \<Rightarrow>
        if permitted pl w
        then (case proc of Some f \<Rightarrow> f str (snd (next_token p CMD_DELIM)) w
          | None \<Rightarrow> (case subtab of Some sub \<Rightarrow> exec_table False sub (snd (next_token p CMD_DELIM)) w
              | None \<Rightarrow> ret ERR_SYSTEM (Some ''Invalid table entry for %s'') [AS str] w))
        else ret ERR_ACCESS (Some ''No permissions for %s'') [AS str] w
    | None \<Rightarrow> if fst (next_token p CMD_DELIM) = None
        then ret ERR_INVCMD (Some (if m then ''Command expected ('' @ [CHR 0x27] @ ''exit'' @ [CHR 0x27] @ '' to close session)''
                                   else ''Sub-command expected'')) [] w
        else ret ERR_INVCMD None [] w)"
    unfolding str_def by (subst exec_table.simps) (simp only: Let_def)
  show ?thesis
  proof (cases "List.find (\<lambda>c. strcaseeq str (command_ident c)) tab")
    case None
    then show ?thesis unfolding e by (simp add: returns_ret)
  next
    case (Some c)
    obtain i pr pl sub where c: "c = Command i pr pl sub" by (cases c)
    with find_member[OF Some] have "Command i pr pl sub \<in> set tab" by simp
    with f s Some c show ?thesis unfolding e
      by (cases pr; cases sub) (simp_all add: returns_ret)
  qed
qed

lemma exec_table_cards:
  fixes w :: "'a session_scheme"
  assumes "plain_session w"
  shows "returns {} w (exec_table m cardcmds p w)"
proof (rule returns_exec_table)
  fix i f pl sub str q
  assume "Command i (Some f) pl sub \<in> set (cardcmds :: 'a command list)"
  with assms show "returns {} w (f str q w)" using guarded_cards by (auto simp: list_all_iff harmless_def)
next
  fix i pl sub q
  assume "Command i None pl (Some sub) \<in> set (cardcmds :: 'a command list)"
  then show "returns {} w (exec_table False sub q w)" using guarded_cards by (auto simp: list_all_iff)
qed

lemma exec_table_guarded:
  fixes w :: "'a session_scheme"
  assumes s: "plain_session w" and u: "unprivileged w"
  shows "returns {} w (exec_table m cmds p w)"
proof (rule returns_exec_table)
  have np: "permitted pl w \<Longrightarrow> pl \<noteq> 4 \<and> pl \<noteq> PERM_SUPERUSER" for pl
    using u by (auto simp: permitted_def unprivileged_def)
  fix i f pl sub str q
  assume "Command i (Some f) pl sub \<in> set (cmds :: 'a command list)" "permitted pl w"
  with np[of pl] guarded_cmd s show "returns {} w (f str q w)" by (force simp: harmless_def)
next
  have np: "permitted pl w \<Longrightarrow> pl \<noteq> 4 \<and> pl \<noteq> PERM_SUPERUSER" for pl
    using u by (auto simp: permitted_def unprivileged_def)
  fix i pl sub q
  assume "Command i None pl (Some sub) \<in> set (cmds :: 'a command list)" "permitted pl w"
  with np[of pl] guarded_cmd have "sub = cardcmds" by fastforce
  with exec_table_cards[OF s] show "returns {} w (exec_table False sub q w)" by simp
qed

lemma unprivileged_returns:
  assumes "plain_session w" "unprivileged w"
  shows "returns {} w (cmd_exec line w)"
proof -
  have c: "calm {} w (say e f a w)" for e f a by auto
  have "returns {} w (exec_table True cmds p (say e f a w))" for e f a p
    using returns_calm[OF c exec_table_guarded] assms plain_calm[OF c] unprivileged_calm[OF c] by blast
  then show ?thesis
    by (auto simp: cmd_exec_def cmd_preprocess_def returns_ret Let_def split: prod.split)
qed

text \<open>Receiving changes nothing but the text that is still to arrive.\<close>

lemma recv1_frame: "sys_recv1 w = (n, c, v) \<Longrightarrow> calm {} (w\<lparr>inbox := []\<rparr>) (v\<lparr>inbox := []\<rparr>)"
proof -
  assume r: "sys_recv1 w = (n, c, v)"
  have "next_outcome (w\<lparr>inbox := []\<rparr>) = (x, u\<lparr>inbox := []\<rparr>)" if "next_outcome w = (x, u)" for x u
    using that by (auto simp: next_outcome_def split: list.splits)
  with calm_outcome[of "{}" "w\<lparr>inbox := []\<rparr>"]
  have "calm {} (w\<lparr>inbox := []\<rparr>) (u\<lparr>inbox := []\<rparr>)" if "next_outcome w = (x, u)" for x u using that by fastforce
  then show ?thesis using r
    by (auto simp: sys_recv1_def split: if_splits prod.splits list.splits)
qed

lemma gets_loop_frame: "link_gets_loop len buf w = (rc, s, v) \<Longrightarrow> calm {} (w\<lparr>inbox := []\<rparr>) (v\<lparr>inbox := []\<rparr>)"
proof (induction len buf w rule: link_gets_loop.induct)
  case (1 len buf w)
  obtain n x u where r: "sys_recv1 w = (n, x, u)" by (metis prod_cases3)
  note step = recv1_frame[OF r]
  show ?case
  proof (cases x)
    case None
    then show ?thesis using "1.prems" r step by (subst (asm) link_gets_loop.simps) (auto simp: Let_def)
  next
    case (Some c)
    let ?b = "if c = CHR 0x0D \<or> c = CHR 0x0A \<or> int (length buf) \<ge> len - 1 then buf else buf @ [c]"
    show ?thesis
    proof (cases "c = CHR 0x0A")
      case True
      then show ?thesis using "1.prems" r Some step by (subst (asm) link_gets_loop.simps) (auto simp: Let_def)
    next
      case False
      then have "link_gets_loop len ?b u = (rc, s, v)"
        using "1.prems" r Some by (subst (asm) link_gets_loop.simps) (simp add: Let_def)
      from "1.IH"[of "(n, x, u)" c ?b] this r Some False
      have "calm {} (u\<lparr>inbox := []\<rparr>) (v\<lparr>inbox := []\<rparr>)" by auto
      then show ?thesis using step by (rule calm_trans[rotated])
    qed
  qed
qed

definition deaf :: "'a session_scheme \<Rightarrow> 'a session_scheme" where
  "deaf w = w\<lparr>inbox := []\<rparr>"

lemma deaf_simps [simp]:
  "plain_session (deaf w) = plain_session w" "unprivileged (deaf w) = unprivileged w"
  "no_faults (deaf w) = no_faults w" "ld_fStdio (deaf w) = ld_fStdio w" "deaf (deaf w) = deaf w"
  "files (deaf w) = files w" "linktab (deaf w) = linktab w" "fd_lock (deaf w) = fd_lock w"
  by (simp_all add: deaf_def plain_session_def unprivileged_def acc_free_def fd_lock_def no_faults_def fun_eq_iff)

text \<open>A connection that does not fail: the terminal, or a socket without faults.\<close>

definition reliable :: "'a session_scheme \<Rightarrow> bool" where
  "reliable w \<longleftrightarrow> ld_fStdio w \<or> no_faults w"

lemma calm_stdio: "calm P w w' \<Longrightarrow> ld_fStdio w' = ld_fStdio w"
proof -
  assume "calm P w w'"
  then have "dbs.more (hush w') = dbs.more (hush w)" using quiet_simps(5) unfolding calm_def by blast
  then have "ld_fStdio (hush w') = ld_fStdio (hush w)" by (cases "hush w"; cases "hush w'"; simp)
  then show ?thesis by (simp add: hush_def)
qed

lemma calm_reliable: "calm P w v \<Longrightarrow> reliable w \<Longrightarrow> reliable v"
  using calm_stdio[of P w v] by (auto simp: reliable_def calm_def quiet_def)

lemma calm_deaf: "calm P w v \<Longrightarrow> calm P (deaf w) (deaf v)"
proof -
  assume c: "calm P w v"
  have d: "hush (deaf u) = hush u\<lparr>inbox := []\<rparr>" for u :: "'a session_scheme" by (simp add: hush_def deaf_def)
  have m: "dbs.more (hush v) = dbs.more (hush w)" using c quiet_simps(5) unfolding calm_def by blast
  then have "dbs.more (hush v\<lparr>inbox := []\<rparr>) = dbs.more (hush w\<lparr>inbox := []\<rparr>)"
    by (cases "hush w"; cases "hush v"; simp)
  then show ?thesis using c by (simp add: calm_def quiet_def d no_faults_def)
qed

lemma gets_reliable: "reliable w \<Longrightarrow> link_gets_loop len buf w = (rc, s, v) \<Longrightarrow> rc \<noteq> LINK_ERROR"
proof (induction len buf w rule: link_gets_loop.induct)
  case (1 len buf w)
  obtain n x u where r: "sys_recv1 w = (n, x, u)" by (metis prod_cases3)
  have n: "n \<noteq> - 1" "reliable u"
    using r "1.prems"(1) by (auto simp: sys_recv1_def reliable_def next_outcome_no_faults split: if_splits list.splits)
  show ?case
  proof (cases x)
    case None
    then show ?thesis using "1.prems"(2) r n by (subst (asm) link_gets_loop.simps) (auto simp: Let_def)
  next
    case (Some c)
    let ?b = "if c = CHR 0x0D \<or> c = CHR 0x0A \<or> int (length buf) \<ge> len - 1 then buf else buf @ [c]"
    show ?thesis
    proof (cases "c = CHR 0x0A")
      case True
      then show ?thesis using "1.prems"(2) r Some by (subst (asm) link_gets_loop.simps) (auto simp: Let_def)
    next
      case False
      then have "link_gets_loop len ?b u = (rc, s, v)"
        using "1.prems"(2) r Some by (subst (asm) link_gets_loop.simps) (simp add: Let_def)
      from "1.IH"[of "(n, x, u)" c ?b] this r Some False n show ?thesis by auto
    qed
  qed
qed

lemma session_calm:
  assumes "plain_session w" "unprivileged w" "reliable w"
  shows "\<exists>v. session_loop w = Some v \<and> calm {} (deaf w) (deaf v)"
  using assms
proof (induction "length (inbox w)" arbitrary: w rule: less_induct)
  case less
  obtain rc line u where g: "link_gets 128 w = (rc, line, u)" by (metis prod_cases3)
  have c: "calm {} (deaf w) (deaf u)" using gets_loop_frame g by (auto simp: link_gets_def deaf_def)
  have inv: "plain_session u" "unprivileged u" "reliable u"
    using plain_calm[OF c] unprivileged_calm[OF c] calm_reliable[OF c] less.prems by (simp_all add: reliable_def)
  consider "rc = LINK_DOWN" | "rc = 0"
    using link_gets_rc[of 128 w] gets_reliable[OF less.prems(3)] g by (auto simp: link_gets_def)
  then show ?case
  proof cases
    case 1
    then show ?thesis using g c by (subst session_loop.simps) simp
  next
    case 2
    have sh: "length (inbox u) < length (inbox w)" using link_gets_loop_inbox g 2 by (auto simp: link_gets_def)
    obtain rc2 x where x: "cmd_exec (c_str line) u = Some (rc2, x)" and cx: "calm {} u x"
      using unprivileged_returns[OF inv(1,2)] unfolding returns_def by blast
    have cwx: "calm {} (deaf w) (deaf x)" using calm_trans[OF c calm_deaf[OF cx]] .
    show ?thesis
    proof (cases "rc2 = LINK_DOWN \<or> rc2 = CMD_EXIT")
      case True
      then show ?thesis using g 2 x cwx by (subst session_loop.simps) simp
    next
      case False
      have "length (inbox x) < length (inbox w)" using sh calm_simps(12)[OF cx] by simp
      from less.hyps[OF this] inv plain_calm[OF cx] unprivileged_calm[OF cx] calm_reliable[OF cx]
      obtain v where v: "session_loop x = Some v" "calm {} (deaf x) (deaf v)" by blast
      have "session_loop w = Some v" using g 2 x v(1) False by (subst session_loop.simps) simp
      with calm_trans[OF cwx v(2)] show ?thesis by blast
    qed
  qed
qed

section \<open>Properties\<close>

text \<open>
  C13: Without the right to do so no line changes the accounts: a session that has neither superuser
  rights nor the right the command tables ask for, and no database for cards, gets an answer to whatever it
  sends, and the files, the gate table and the locks are afterwards what they were.\<close>

theorem unprivileged_commands:
  assumes "SessionPerm w AND PERM_SUPERUSER = 0" "SessionPerm w AND 4 = 0" "plain_session w"
  shows "\<exists>rc w'. cmd_exec line w = Some (rc, w') \<and> files w' = files w \<and> linktab w' = linktab w \<and>
    fd_lock w' = fd_lock w \<and> SessionPerm w' = SessionPerm w"
proof -
  have "unprivileged w" using assms by (simp add: unprivileged_def)
  from unprivileged_returns[OF assms(3) this, of line] obtain rc w' where
    "cmd_exec line w = Some (rc, w')" "calm {} w w'" unfolding returns_def by blast
  with calm_simps(1,4,9,10)[of "{}" w w'] show ?thesis by (auto simp: fun_eq_iff)
qed

text \<open>
  C14: A session without rights ends: over a connection that does not fail, the loop of the session
  returns whatever text arrives, with the files, the gate table and the locks as they were.\<close>

theorem unprivileged_session_ends:
  assumes "SessionPerm w AND PERM_SUPERUSER = 0" "SessionPerm w AND 4 = 0" "plain_session w" "ld_fStdio w \<or> no_faults w"
  shows "\<exists>w'. session_loop w = Some w' \<and> files w' = files w \<and> linktab w' = linktab w \<and> fd_lock w' = fd_lock w"
proof -
  have "unprivileged w" "reliable w" using assms by (simp_all add: unprivileged_def reliable_def)
  from session_calm[OF assms(3) this] obtain v where
    "session_loop w = Some v" and c: "calm {} (deaf w) (deaf v)" by blast
  with calm_simps(1,4)[OF c] calm_simps(10)[OF c] show ?thesis by (auto simp: fun_eq_iff)
qed

lemma demo_plain: "plain_session (demo_session\<lparr>SessionPerm := 0, inbox := x\<rparr>)"
  using demo_session_ready(4)
  by (simp add: plain_session_def acc_free_def fd_lock_def) (simp add: demo_session_def session.defs ipc.defs)

theorem unprivileged_commands_witness:
  "\<exists>rc w'. cmd_exec ''freeze 0'' (demo_session\<lparr>SessionPerm := 0, inbox := []\<rparr>) = Some (rc, w') \<and> files w' = files demo_session"
  using unprivileged_commands[of "demo_session\<lparr>SessionPerm := 0, inbox := []\<rparr>" "''freeze 0''", OF _ _ demo_plain] by auto

theorem unprivileged_session_ends_witness:
  "\<exists>w'. session_loop (demo_session\<lparr>SessionPerm := 0, inbox := ''add 0 5'' @ CRLF @ ''card expire'' @ CRLF\<rparr>) = Some w' \<and>
     files w' = files demo_session"
  using unprivileged_session_ends[of "demo_session\<lparr>SessionPerm := 0, inbox := ''add 0 5'' @ CRLF @ ''card expire'' @ CRLF\<rparr>", OF _ _ demo_plain]
    demo_session_bee by (auto simp: bee_ready_def acc_ready_def file_ready_def no_faults_def)

end
