(* ===== verification/PtrLists.thy ===== *)
theory PtrLists
  imports Strings "HOL-Library.Multiset"
begin

text \<open>
  The pointer lists of the support library (\<open>src/src/bee/lib/bee/lists.c\<close>).  The items are the pointers
  themselves, of any type; \<open>pl_items\<close> holds the cells in use, so that the count is its length (the
  cells of the block behind them are never read).  A deallocation is noted in a list of freed items.  An
  access outside the block is a run-time error, \<open>None\<close>.  Proved: what the operations do to the
  list, that the heap sort sorts and that the binary search finds.
\<close>

record 'b pl =
  pl_items :: "'b list"
  pl_size :: int
  pl_delta :: int
  pl_rc :: int
  pl_dealloc :: bool

abbreviation (input) LST_ESUCCESS :: int where "LST_ESUCCESS \<equiv> 0"
abbreviation (input) LST_EMEMORY :: int where "LST_EMEMORY \<equiv> 1"
abbreviation (input) LST_EINVARG :: int where "LST_EINVARG \<equiv> 2"
abbreviation (input) LST_ENOTFOUND :: int where "LST_ENOTFOUND \<equiv> 3"

definition LST_MAX_DELTA :: int where "LST_MAX_DELTA = 2 * 2 ^ 17"

definition pl_count :: "'b pl \<Rightarrow> int" where "pl_count lst = int (length (pl_items lst))"

section \<open>Making and filling a list\<close>

text \<open>\<open>given\<close>: the caller passes the memory; \<open>None\<close> is the null pointer.\<close>

definition pl_init :: "bool \<Rightarrow> int \<Rightarrow> bool \<Rightarrow> 'a os_scheme \<Rightarrow> 'b pl option \<times> 'a os_scheme" where
  "pl_init given delta dealloc w =
     (let lst = \<lparr>pl_items = [], pl_size = 0, pl_delta = (if delta \<le> 0 \<or> delta > LST_MAX_DELTA then 1 else delta),
                 pl_rc = 0, pl_dealloc = dealloc\<rparr>
      in if given then (Some lst, w)
         else (case sys_alloc w of (mem, w) \<Rightarrow> (if mem then Some lst else None, w)))"

text \<open>Room for one more item.\<close>

definition pl_grow :: "'b pl \<Rightarrow> 'a os_scheme \<Rightarrow> bool \<times> 'b pl \<times> 'a os_scheme" where
  "pl_grow lst w =
     (if pl_count lst = pl_size lst
      then (case sys_alloc w of (mem, w) \<Rightarrow>
        if mem then (True, lst\<lparr>pl_size := pl_size lst + pl_delta lst\<rparr>, w) else (False, lst\<lparr>pl_rc := LST_EMEMORY\<rparr>, w))
      else (True, lst, w))"

definition pl_add :: "'b \<Rightarrow> 'b pl \<Rightarrow> 'a os_scheme \<Rightarrow> int \<times> 'b pl \<times> 'a os_scheme" where
  "pl_add item lst w = (case pl_grow lst w of (room, lst, w) \<Rightarrow>
     if \<not> room then (- 1, lst, w)
     else (let lst = lst\<lparr>pl_items := pl_items lst @ [item], pl_rc := LST_ESUCCESS\<rparr> in (pl_count lst - 1, lst, w)))"

text \<open>For index 0 the loop that makes room also reads the cell before the first.\<close>

definition pl_insert :: "'b \<Rightarrow> int \<Rightarrow> 'b pl \<Rightarrow> 'a os_scheme \<Rightarrow> (int \<times> 'b pl \<times> 'a os_scheme) option" where
  "pl_insert item index lst w =
     (if index < 0 \<or> index > pl_count lst then Some (- 1, lst\<lparr>pl_rc := LST_EINVARG\<rparr>, w)
      else (case pl_grow lst w of (room, lst, w) \<Rightarrow>
        if \<not> room then Some (- 1, lst, w)
        else if index = 0 then None
        else Some (index, lst\<lparr>pl_items := take (nat index) (pl_items lst) @ [item] @ drop (nat index) (pl_items lst),
                              pl_rc := LST_ESUCCESS\<rparr>, w)))"

text \<open>The search of \<open>pl_sinsert\<close>: the index to insert at, or \<open>None\<close> to append.\<close>

function sinsert_place :: "(int \<Rightarrow> int) \<Rightarrow> int \<Rightarrow> int \<Rightarrow> int option" where
  "sinsert_place cmp l u = (let m = (l + u) div 2; rc = cmp m
     in if rc \<noteq> - 1 \<and> rc \<noteq> 1 then Some m
        else (let l' = (if rc = 1 then m + 1 else l); u' = (if rc = - 1 then m - 1 else u)
              in if l' > u' then None else sinsert_place cmp l' u'))"
  by pat_completeness auto
termination by (relation "measure (\<lambda>(_, l, u). nat (u - l + 1))") (auto split: if_splits)

declare sinsert_place.simps [simp del]

definition pl_sinsert :: "'b \<Rightarrow> ('b pl \<Rightarrow> 'b \<Rightarrow> int \<Rightarrow> int) \<Rightarrow> 'b pl \<Rightarrow> 'a os_scheme \<Rightarrow> (int \<times> 'b pl \<times> 'a os_scheme) option" where
  "pl_sinsert item cmp lst w =
     (if pl_count lst = 0 then Some (pl_add item lst w)
      else (case sinsert_place (cmp lst item) 0 (pl_count lst - 1) of
          Some m \<Rightarrow> pl_insert item m (lst\<lparr>pl_rc := LST_ESUCCESS\<rparr>) w
        | None \<Rightarrow> Some (pl_add item (lst\<lparr>pl_rc := LST_ESUCCESS\<rparr>) w)))"

section \<open>Removing and replacing\<close>

text \<open>The items freed come with the result; a null pointer would not be freed.\<close>

definition pl_delete :: "int \<Rightarrow> ('b \<Rightarrow> bool) \<Rightarrow> 'b pl \<Rightarrow> int \<times> 'b list \<times> 'b pl" where
  "pl_delete index null lst =
     (if index \<ge> 0 \<and> index < pl_count lst
      then (let ptr = pl_items lst ! nat index;
                lst = lst\<lparr>pl_items := take (nat index) (pl_items lst) @ drop (nat index + 1) (pl_items lst), pl_rc := LST_ESUCCESS\<rparr>
            in (LST_ESUCCESS, if \<not> null ptr \<and> pl_dealloc lst then [ptr] else [], lst))
      else (LST_EINVARG, [], lst\<lparr>pl_rc := LST_EINVARG\<rparr>))"

definition pl_exchange :: "int \<Rightarrow> int \<Rightarrow> 'b pl \<Rightarrow> int \<times> 'b pl" where
  "pl_exchange i0 i1 lst =
     (if i0 \<ge> 0 \<and> i1 \<ge> 0 \<and> i0 < pl_count lst \<and> i1 < pl_count lst
      then (LST_ESUCCESS,
            (if i0 \<noteq> i1 then lst\<lparr>pl_items := (pl_items lst)[0 := pl_items lst ! 1, 1 := pl_items lst ! 0]\<rparr> else lst)
              \<lparr>pl_rc := LST_ESUCCESS\<rparr>)
      else (LST_EINVARG, lst\<lparr>pl_rc := LST_EINVARG\<rparr>))"

definition pl_replace :: "'b \<Rightarrow> int \<Rightarrow> 'b pl \<Rightarrow> 'b option \<times> 'b pl" where
  "pl_replace ptr index lst =
     (if index \<ge> 0 \<and> index < pl_count lst
      then (Some (pl_items lst ! nat index), lst\<lparr>pl_items := (pl_items lst)[nat index := ptr], pl_rc := LST_ESUCCESS\<rparr>)
      else (None, lst\<lparr>pl_rc := LST_EINVARG\<rparr>))"

definition pl_clear :: "'b pl \<Rightarrow> 'b list \<times> 'b pl" where
  "pl_clear lst = (if pl_dealloc lst then pl_items lst else [], lst\<lparr>pl_items := [], pl_rc := LST_ESUCCESS\<rparr>)"

definition pl_pack :: "'b pl \<Rightarrow> 'a os_scheme \<Rightarrow> 'b pl \<times> 'a os_scheme" where
  "pl_pack lst w =
     (if pl_count lst > 0 \<and> pl_count lst < pl_size lst
      then (case sys_alloc w of (mem, w) \<Rightarrow>
        ((if mem then lst\<lparr>pl_size := pl_count lst\<rparr> else lst)\<lparr>pl_rc := LST_ESUCCESS\<rparr>, w))
      else (lst\<lparr>pl_rc := LST_ESUCCESS\<rparr>, w))"

section \<open>Heap sort\<close>

text \<open>\<open>tmp\<close> sinks from place \<open>j\<close> in a heap of \<open>n\<close> items; \<open>less\<close> is the comparison.\<close>

definition largest_child :: "('b \<Rightarrow> 'b \<Rightarrow> int) \<Rightarrow> nat \<Rightarrow> nat \<Rightarrow> 'b list \<Rightarrow> nat" where
  "largest_child cmp n j xs =
     (if 2 * j + 2 > n - 1 then 2 * j + 1
      else if cmp (xs ! (2 * j + 1)) (xs ! (2 * j + 2)) \<noteq> 0 then 2 * j + 2 else 2 * j + 1)"

function sift :: "('b \<Rightarrow> 'b \<Rightarrow> int) \<Rightarrow> nat \<Rightarrow> 'b \<Rightarrow> nat \<Rightarrow> 'b list \<Rightarrow> 'b list" where
  "sift cmp n tmp j xs =
     (if 2 * j + 2 \<le> n
      then (let i = largest_child cmp n j xs
            in if cmp tmp (xs ! i) \<noteq> 0 then sift cmp n tmp i (xs[j := xs ! i]) else xs[j := tmp])
      else xs[j := tmp])"
  by pat_completeness auto
termination
  by (relation "measure (\<lambda>(_, n, _, j, _). n - j)") (auto simp: largest_child_def)

declare sift.simps [simp del]

text \<open>The first loop, over the nodes from \<open>k - 1\<close> down, and the second, over the end of the heap.\<close>

fun hsort_build :: "('b \<Rightarrow> 'b \<Rightarrow> int) \<Rightarrow> nat \<Rightarrow> 'b list \<Rightarrow> 'b list" where
  "hsort_build cmp 0 xs = xs"
| "hsort_build cmp (Suc k) xs = hsort_build cmp k (sift cmp (length xs) (xs ! k) k xs)"

fun hsort_drain :: "('b \<Rightarrow> 'b \<Rightarrow> int) \<Rightarrow> nat \<Rightarrow> 'b list \<Rightarrow> 'b list" where
  "hsort_drain cmp 0 xs = xs"
| "hsort_drain cmp (Suc k) xs = hsort_drain cmp k (sift cmp (Suc k) (xs ! Suc k) 0 (xs[Suc k := xs ! 0]))"

definition pl_hsort :: "('b \<Rightarrow> 'b \<Rightarrow> int) \<Rightarrow> 'b pl \<Rightarrow> 'b pl" where
  "pl_hsort cmp lst = (let xs = pl_items lst
     in lst\<lparr>pl_items := hsort_drain cmp (length xs - 1) (hsort_build cmp (length xs div 2) xs), pl_rc := LST_ESUCCESS\<rparr>)"

section \<open>Searching\<close>

fun lsearch_loop :: "('b \<Rightarrow> int) \<Rightarrow> 'b list \<Rightarrow> nat \<Rightarrow> nat option" where
  "lsearch_loop cmp [] i = None"
| "lsearch_loop cmp (x # xs) i = (if cmp x \<noteq> 0 then Some i else lsearch_loop cmp xs (i + 1))"

text \<open>The item and the index found, -1 for none.\<close>

definition found_at :: "nat option \<Rightarrow> 'b pl \<Rightarrow> 'b option \<times> int \<times> 'b pl" where
  "found_at i lst = (case i of
      None \<Rightarrow> (None, - 1, lst\<lparr>pl_rc := LST_ENOTFOUND\<rparr>)
    | Some i \<Rightarrow> (Some (pl_items lst ! i), int i, lst\<lparr>pl_rc := LST_ESUCCESS\<rparr>))"

definition pl_lsearch :: "('b \<Rightarrow> int) \<Rightarrow> 'b pl \<Rightarrow> 'b option \<times> int \<times> 'b pl" where
  "pl_lsearch cmp lst = found_at (lsearch_loop cmp (pl_items lst) 0) lst"

text \<open>The loop of the binary search; the comparison is that of the item with the key.\<close>

function bsearch_loop :: "(nat \<Rightarrow> int) \<Rightarrow> int \<Rightarrow> int \<Rightarrow> nat option" where
  "bsearch_loop cmp l u = (let m = (l + u) div 2; rc = cmp (nat m)
     in if rc = 0 then Some (nat m)
        else (let l' = (if rc > 0 then m + 1 else l); u' = (if rc < 0 then m - 1 else u)
              in if l' > u' then None else bsearch_loop cmp l' u'))"
  by pat_completeness auto
termination by (relation "measure (\<lambda>(_, l, u). nat (u - l + 1))") (auto split: if_splits)

declare bsearch_loop.simps [simp del]

definition pl_bsearch :: "('b \<Rightarrow> int) \<Rightarrow> 'b pl \<Rightarrow> 'b option \<times> int \<times> 'b pl" where
  "pl_bsearch cmp lst =
     found_at (if pl_count lst < 1 then None else bsearch_loop (\<lambda>i. cmp (pl_items lst ! i)) 0 (pl_count lst - 1)) lst"

text \<open>The interpolation search asks \<open>calc\<close> for the place: \<open>None\<close> when that is outside the list, or no end is reached.\<close>

partial_function (option) isearch_loop ::
  "(int \<Rightarrow> int \<Rightarrow> int) \<Rightarrow> ('b \<Rightarrow> int) \<Rightarrow> 'b list \<Rightarrow> int \<Rightarrow> int \<Rightarrow> nat option option" where
  "isearch_loop calc cmp xs l u = (let m = calc l u
     in if m < 0 \<or> m \<ge> int (length xs) then None
        else (let rc = cmp (xs ! nat m)
              in if rc \<noteq> - 1 \<and> rc \<noteq> 1 then Some (Some (nat m))
                 else if (if rc = 1 then m + 1 else l) > (if rc = - 1 then m - 1 else u) then Some None
                 else isearch_loop calc cmp xs (if rc = 1 then m + 1 else l) (if rc = - 1 then m - 1 else u)))"

definition pl_isearch :: "(int \<Rightarrow> int \<Rightarrow> int) \<Rightarrow> ('b \<Rightarrow> int) \<Rightarrow> 'b pl \<Rightarrow> ('b option \<times> int \<times> 'b pl) option" where
  "pl_isearch calc cmp lst =
     (if pl_count lst < 1 then Some (found_at None lst)
      else map_option (\<lambda>i. found_at i lst) (isearch_loop calc cmp (pl_items lst) 0 (pl_count lst - 1)))"

text \<open>The first and the last entry of a key: from the place found as far as \<open>same\<close> holds.\<close>

fun back_while :: "('b \<Rightarrow> int) \<Rightarrow> 'b list \<Rightarrow> nat \<Rightarrow> nat" where
  "back_while same xs i =
     (if same (xs ! i) = 0 then i + 1 else case i of 0 \<Rightarrow> 0 | Suc k \<Rightarrow> back_while same xs k)"

fun forth_while :: "('b \<Rightarrow> int) \<Rightarrow> 'b list \<Rightarrow> nat \<Rightarrow> int" where
  "forth_while same [] i = int i - 1"
| "forth_while same (x # xs) i = (if same x = 0 then int i - 1 else forth_while same xs (i + 1))"

definition entry_at :: "int \<Rightarrow> 'b pl \<Rightarrow> ('b option \<times> int \<times> 'b pl) option" where
  "entry_at i lst = (if i < 0 \<or> i \<ge> pl_count lst then None else Some (Some (pl_items lst ! nat i), i, lst\<lparr>pl_rc := LST_ESUCCESS\<rparr>))"

definition pl_fentry :: "('b \<Rightarrow> int) \<Rightarrow> ('b \<Rightarrow> int) \<Rightarrow> 'b pl \<Rightarrow> ('b option \<times> int \<times> 'b pl) option" where
  "pl_fentry bcomp lcomp lst = (case pl_bsearch bcomp lst of (_, idx, lst) \<Rightarrow>
     if idx < 0 then Some (None, idx, lst\<lparr>pl_rc := LST_ENOTFOUND\<rparr>)
     else entry_at (int (back_while lcomp (pl_items lst) (nat idx))) lst)"

definition pl_lentry :: "('b \<Rightarrow> int) \<Rightarrow> ('b \<Rightarrow> int) \<Rightarrow> 'b pl \<Rightarrow> ('b option \<times> int \<times> 'b pl) option" where
  "pl_lentry bcomp lcomp lst = (case pl_bsearch bcomp lst of (_, idx, lst) \<Rightarrow>
     if idx < 0 then Some (None, idx, lst\<lparr>pl_rc := LST_ENOTFOUND\<rparr>)
     else entry_at (forth_while lcomp (drop (nat idx) (pl_items lst)) (nat idx)) lst)"

section \<open>Splitting a string\<close>

text \<open>
  The tokens are added one by one.  After a failure the remaining pointer, moved on by \<open>strsep\<close>, is
  passed to \<open>free\<close>: a run-time error (\<open>None\<close>), except when the last token has been taken (a null pointer).
\<close>

function explode_loop :: "string option \<Rightarrow> string \<Rightarrow> string pl \<Rightarrow> 'a os_scheme \<Rightarrow> (int \<times> string pl \<times> 'a os_scheme) option" where
  "explode_loop p delim args w = (case next_token p delim of
      (None, _) \<Rightarrow> Some (pl_count args, args, w)
    | (Some tok, p) \<Rightarrow> (case sys_alloc w of (mem, w) \<Rightarrow>
        if \<not> mem then (if p = None then Some (- 1, args, w) else None)
        else (case pl_add tok args w of (rc, args, w) \<Rightarrow>
          if rc = - 1 then (if p = None then Some (- 1, args, w) else None)
          else explode_loop p delim args w)))"
  by pat_completeness auto
termination
  by (relation "measure (\<lambda>(p, _). ptr_length p)") (auto dest!: next_token_shorter[OF sym])

declare explode_loop.simps [simp del]

definition pl_str_explode :: "string \<Rightarrow> string \<Rightarrow> string pl \<Rightarrow> 'a os_scheme \<Rightarrow> (int \<times> string pl \<times> 'a os_scheme) option" where
  "pl_str_explode str delim args w = (case sys_alloc w of (mem, w) \<Rightarrow>
     if \<not> mem then Some (- 1, args, w) else explode_loop (Some str) delim args w)"

section \<open>The heap\<close>

text \<open>Every item from node \<open>lo\<close> on is at least its children, among the first \<open>n\<close> items.\<close>

definition heap_from :: "('b \<Rightarrow> 'k::linorder) \<Rightarrow> nat \<Rightarrow> nat \<Rightarrow> 'b list \<Rightarrow> bool" where
  "heap_from key lo n xs \<longleftrightarrow> (\<forall>c. 0 < c \<longrightarrow> c < n \<longrightarrow> lo \<le> (c - 1) div 2 \<longrightarrow> key (xs ! c) \<le> key (xs ! ((c - 1) div 2)))"

text \<open>The same but for the children of \<open>j\<close>, which are no more than the parent of \<open>j\<close>.\<close>

definition heap_but :: "('b \<Rightarrow> 'k::linorder) \<Rightarrow> nat \<Rightarrow> nat \<Rightarrow> nat \<Rightarrow> 'b list \<Rightarrow> bool" where
  "heap_but key lo n j xs \<longleftrightarrow>
     (\<forall>c. 0 < c \<longrightarrow> c < n \<longrightarrow> lo \<le> (c - 1) div 2 \<longrightarrow> (c - 1) div 2 \<noteq> j \<longrightarrow> key (xs ! c) \<le> key (xs ! ((c - 1) div 2))) \<and>
     (\<forall>c. 0 < c \<longrightarrow> c < n \<longrightarrow> (c - 1) div 2 = j \<longrightarrow> 0 < j \<longrightarrow> lo \<le> (j - 1) div 2 \<longrightarrow> key (xs ! c) \<le> key (xs ! ((j - 1) div 2)))"

lemma child_parent: "0 < c \<Longrightarrow> (c - 1) div 2 = j \<longleftrightarrow> c = 2 * j + 1 \<or> c = 2 * j + (2 :: nat)"
  by (cases c) auto

lemma largest_child:
  fixes xs :: "'b list" and key :: "'b \<Rightarrow> 'k::linorder"
  assumes cmp: "\<And>x y. (cmp x y \<noteq> 0) = (key x < key y)" and j: "2 * j + 2 \<le> n"
  defines "i \<equiv> largest_child cmp n j xs"
  shows "i < n" "0 < i" "(i - 1) div 2 = j" "i = 2 * j + 1 \<or> i = 2 * j + 2"
    "0 < c \<Longrightarrow> c < n \<Longrightarrow> (c - 1) div 2 = j \<Longrightarrow> key (xs ! c) \<le> key (xs ! i)"
proof -
  show "i < n" "0 < i" "i = 2 * j + 1 \<or> i = 2 * j + 2" using j by (auto simp: i_def largest_child_def)
  then show "(i - 1) div 2 = j" by auto
  assume "0 < c" "c < n" "(c - 1) div 2 = j"
  then have "c = 2 * j + 1 \<or> c = 2 * j + 2" using child_parent by blast
  then show "key (xs ! c) \<le> key (xs ! i)"
    using \<open>c < n\<close> by (auto simp: i_def largest_child_def cmp not_less intro: less_imp_le)
qed

lemma sift_heap:
  fixes key :: "'b \<Rightarrow> 'k::linorder"
  assumes cmp: "\<And>x y. (cmp x y \<noteq> 0) = (key x < key y)" and n: "n \<le> length xs0"
  shows "length xs = length xs0 \<Longrightarrow> j < n \<Longrightarrow> lo \<le> j \<Longrightarrow> heap_but key lo n j (xs[j := tmp]) \<Longrightarrow>
    heap_from key lo n (sift cmp n tmp j xs) \<and> mset (sift cmp n tmp j xs) = mset (xs[j := tmp]) \<and>
    length (sift cmp n tmp j xs) = length xs \<and> (\<forall>c. n \<le> c \<longrightarrow> c < length xs \<longrightarrow> sift cmp n tmp j xs ! c = xs ! c)"
proof (induction "n - j" arbitrary: j xs rule: less_induct)
  case less
  let ?ys = "xs[j := tmp]" and ?i = "largest_child cmp n j xs"
  have jl: "j < length xs" using less.prems(1,2) n by simp
  show ?case
  proof (cases "2 * j + 2 \<le> n")
    case False
    then have "heap_from key lo n ?ys"
      using less.prems(4) by (auto simp: heap_but_def heap_from_def child_parent)
    with False less.prems(2) show ?thesis by (subst (1 2 3 4) sift.simps) auto
  next
    case True
    note i = largest_child[where cmp = cmp and key = key and xs = xs, OF cmp True]
    have ij: "?i \<noteq> j" "?i < length xs" using i(1,4) less.prems(1) n by auto
    show ?thesis
    proof (cases "cmp tmp (xs ! ?i) \<noteq> 0")
      case False
      have "key (xs ! c) \<le> key tmp" if "0 < c" "c < n" "(c - 1) div 2 = j" for c
        using i(5)[OF that] False cmp[of tmp "xs ! ?i"] by simp
      then have "heap_from key lo n ?ys"
        using less.prems(4) jl by (auto simp: heap_but_def heap_from_def child_parent nth_list_update)
      with False True less.prems(2) show ?thesis by (subst (1 2 3 4) sift.simps) (auto simp: Let_def)
    next
      case p: True
      let ?x = "xs[j := xs ! ?i]" and ?z = "xs[j := xs ! ?i, ?i := tmp]"
      have swap: "?z = ?ys[j := ?ys ! ?i, ?i := ?ys ! j]" using ij jl by (simp add: list_update_swap)
      have ms: "mset ?z = mset ?ys" by (subst swap, rule mset_swap) (use ij jl in simp_all)
      have kt: "key tmp < key (xs ! ?i)" using p cmp by simp
      have "heap_but key lo n ?i ?z"
        unfolding heap_but_def
      proof (intro conjI allI impI)
        fix c assume c: "0 < c" "c < n" "lo \<le> (c - 1) div 2" "(c - 1) div 2 \<noteq> ?i"
        show "key (?z ! c) \<le> key (?z ! ((c - 1) div 2))"
        proof (cases "(c - 1) div 2 = j")
          case True
          then show ?thesis using i(5)[OF c(1,2) True] kt ij jl c
            by (auto simp: nth_list_update child_parent intro: less_imp_le)
        next
          case False
          have ci: "c \<noteq> ?i" using False i(3) by auto
          have old: "key (?ys ! c) \<le> key (?ys ! ((c - 1) div 2))" using less.prems(4) c(1-3) False by (simp add: heap_but_def)
          show ?thesis
          proof (cases "c = j")
            case True
            have "0 < d \<Longrightarrow> d < n \<Longrightarrow> (d - 1) div 2 = j \<Longrightarrow> 0 < j \<Longrightarrow> lo \<le> (j - 1) div 2 \<Longrightarrow>
                key (?ys ! d) \<le> key (?ys ! ((j - 1) div 2))" for d
              using less.prems(4) unfolding heap_but_def by blast
            from this[OF i(2,1,3)] c True have "key (?ys ! ?i) \<le> key (?ys ! ((j - 1) div 2))" by simp
            moreover have "(j - 1) div 2 \<noteq> j" "(j - 1) div 2 \<noteq> ?i" using c(1,4) True by auto
            ultimately show ?thesis using True ij jl by (simp add: nth_list_update)
          next
            case cj: False
            then show ?thesis using old False ci c(4) ij jl by (simp add: nth_list_update)
          qed
        qed
      next
        fix c assume c: "0 < c" "c < n" "(c - 1) div 2 = ?i" "0 < ?i" "lo \<le> (?i - 1) div 2"
        have cne: "c \<noteq> ?i" "c \<noteq> j" using c i(4) by (auto simp: child_parent)
        have "0 < d \<Longrightarrow> d < n \<Longrightarrow> lo \<le> (d - 1) div 2 \<Longrightarrow> (d - 1) div 2 \<noteq> j \<Longrightarrow>
            key (?ys ! d) \<le> key (?ys ! ((d - 1) div 2))" for d
          using less.prems(4) unfolding heap_but_def by blast
        from this[OF c(1,2)] have "key (?ys ! c) \<le> key (?ys ! ?i)"
          using c(3) i(4) ij(1) less.prems(3) by auto
        then show "key (?z ! c) \<le> key (?z ! ((?i - 1) div 2))"
          using cne ij jl i(3) by (simp add: nth_list_update)
      qed
      moreover have "n - ?i < n - j" "length ?x = length xs0" "lo \<le> ?i" using i(1,4) less.prems by auto
      ultimately have "heap_from key lo n (sift cmp n tmp ?i ?x) \<and> mset (sift cmp n tmp ?i ?x) = mset ?z \<and>
          length (sift cmp n tmp ?i ?x) = length ?x \<and> (\<forall>c. n \<le> c \<longrightarrow> c < length ?x \<longrightarrow> sift cmp n tmp ?i ?x ! c = ?x ! c)"
        using less.hyps[of ?i ?x] i(1) by blast
      moreover have "sift cmp n tmp j xs = sift cmp n tmp ?i ?x"
        using True p by (subst sift.simps) (simp add: Let_def)
      ultimately show ?thesis using ms less.prems(2) by auto
    qed
  qed
qed

lemma sift_build:
  fixes key :: "'b \<Rightarrow> 'k::linorder"
  assumes cmp: "\<And>x y. (cmp x y \<noteq> 0) = (key x < key y)" and h: "heap_from key (Suc k) (length xs) xs" and k: "k < length xs"
  shows "heap_from key k (length xs) (sift cmp (length xs) (xs ! k) k xs) \<and>
    mset (sift cmp (length xs) (xs ! k) k xs) = mset xs \<and> length (sift cmp (length xs) (xs ! k) k xs) = length xs"
proof -
  have "heap_but key k (length xs) k xs"
    using h by (auto simp: heap_but_def heap_from_def)
  then show ?thesis using sift_heap[where cmp = cmp and key = key and n = "length xs" and ?xs0.0 = xs and xs = xs and j = k and lo = k and tmp = "xs ! k", OF cmp] k by simp
qed

lemma hsort_build_heap:
  fixes key :: "'b \<Rightarrow> 'k::linorder"
  assumes cmp: "\<And>x y. (cmp x y \<noteq> 0) = (key x < key y)"
  shows "heap_from key k (length xs) xs \<Longrightarrow> k \<le> length xs \<Longrightarrow>
    heap_from key 0 (length xs) (hsort_build cmp k xs) \<and> mset (hsort_build cmp k xs) = mset xs \<and>
    length (hsort_build cmp k xs) = length xs"
proof (induction k arbitrary: xs)
  case (Suc k)
  let ?ys = "sift cmp (length xs) (xs ! k) k xs"
  have "heap_from key k (length xs) ?ys \<and> mset ?ys = mset xs \<and> length ?ys = length xs"
    using sift_build[where cmp = cmp and key = key, OF cmp Suc.prems(1)] Suc.prems(2) by simp
  with Suc.IH[of ?ys] Suc.prems show ?case by simp
qed simp

lemma heap_root: "heap_from key 0 n xs \<Longrightarrow> c < n \<Longrightarrow> key (xs ! c) \<le> key (xs ! 0)"
proof (induction c rule: less_induct)
  case (less c)
  show ?case
  proof (cases c)
    case (Suc d)
    have "key (xs ! c) \<le> key (xs ! ((c - 1) div 2))"
      using less.prems(1)[unfolded heap_from_def, rule_format, of c] less.prems(2) Suc by blast
    also have "\<dots> \<le> key (xs ! 0)" using less.IH[of "(c - 1) div 2"] less.prems Suc by simp
    finally show ?thesis .
  qed simp
qed

text \<open>The items behind the heap are in order and none of them is below an item of the heap.\<close>

definition drained :: "('b \<Rightarrow> 'k::linorder) \<Rightarrow> nat \<Rightarrow> 'b list \<Rightarrow> bool" where
  "drained key n xs \<longleftrightarrow> heap_from key 0 n xs \<and> sorted (map key (drop n xs)) \<and>
     (\<forall>a < n. \<forall>b. n \<le> b \<longrightarrow> b < length xs \<longrightarrow> key (xs ! a) \<le> key (xs ! b))"

lemma drain_step:
  fixes key :: "'b \<Rightarrow> 'k::linorder"
  assumes cmp: "\<And>x y. (cmp x y \<noteq> 0) = (key x < key y)" and d: "drained key (Suc (Suc k)) xs" and k: "Suc k < length xs"
  defines "ys \<equiv> sift cmp (Suc k) (xs ! Suc k) 0 (xs[Suc k := xs ! 0])"
  shows "drained key (Suc k) ys \<and> mset ys = mset xs \<and> length ys = length xs"
proof -
  let ?x = "xs[Suc k := xs ! 0]" and ?z = "xs[Suc k := xs ! 0, 0 := xs ! Suc k]"
  have ms: "mset ?z = mset xs"
    by (rule mset_swap) (use k in auto)
  have h: "heap_from key 0 (Suc (Suc k)) xs" using d by (simp add: drained_def)
  have "heap_but key 0 (Suc k) 0 (?x[0 := xs ! Suc k])"
    using h k by (auto simp: heap_but_def heap_from_def nth_list_update)
  from sift_heap[where cmp = cmp and key = key and n = "Suc k" and ?xs0.0 = xs and xs = ?x and j = 0 and lo = 0 and tmp = "xs ! Suc k", OF cmp] this k
  have s: "heap_from key 0 (Suc k) ys" "mset ys = mset ?z" "length ys = length xs"
    "\<And>c. Suc k \<le> c \<Longrightarrow> c < length xs \<Longrightarrow> ys ! c = ?x ! c" by (simp_all add: ys_def)
  have tail: "drop (Suc k) ys = xs ! 0 # drop (Suc (Suc k)) xs"
  proof (rule nth_equalityI)
    show "length (drop (Suc k) ys) = length (xs ! 0 # drop (Suc (Suc k)) xs)" using s(3) k by simp
    fix i assume "i < length (drop (Suc k) ys)"
    then show "drop (Suc k) ys ! i = (xs ! 0 # drop (Suc (Suc k)) xs) ! i"
      using s(3,4) k by (cases i) simp_all
  qed
  have root: "key (xs ! c) \<le> key (xs ! 0)" if "c < Suc (Suc k)" for c using heap_root[OF h that] .
  have low: "key x \<le> key (xs ! 0) \<and> (\<forall>b. Suc (Suc k) \<le> b \<longrightarrow> b < length xs \<longrightarrow> key x \<le> key (xs ! b))"
    if "x \<in> set (take (Suc k) ys)" for x
  proof -
    have "mset (take (Suc k) ys) + mset (drop (Suc k) ys) = mset (take (Suc (Suc k)) xs) + mset (drop (Suc (Suc k)) xs)"
      using s(2) ms by (metis append_take_drop_id mset_append)
    then have "mset (take (Suc k) ys) + {#xs ! 0#} = mset (take (Suc (Suc k)) xs)" unfolding tail by simp
    then have "set (take (Suc k) ys) \<subseteq> set (take (Suc (Suc k)) xs)"
      by (metis mset_subset_eq_add_left set_mset_mono set_mset_mset)
    with that have "x \<in> set (take (Suc (Suc k)) xs)" by blast
    then obtain a where "a < Suc (Suc k)" "xs ! a = x" by (auto simp: in_set_conv_nth)
    with root[of a] d show ?thesis by (auto simp: drained_def)
  qed
  have "sorted (map key (drop (Suc k) ys))"
    unfolding tail using d by (auto simp: drained_def in_set_conv_nth)
  moreover have "key (ys ! a) \<le> key (ys ! b)" if a: "a < Suc k" and b: "Suc k \<le> b" "b < length ys" for a b
  proof -
    have "ys ! a \<in> set (take (Suc k) ys)" using a k s(3) by (auto simp: in_set_conv_nth)
    note l = low[OF this]
    show ?thesis using l s(3) s(4)[of b] b k by (cases "b = Suc k") auto
  qed
  ultimately show ?thesis using s ms by (simp add: drained_def)
qed

lemma hsort_drain_sorted:
  fixes key :: "'b \<Rightarrow> 'k::linorder"
  assumes cmp: "\<And>x y. (cmp x y \<noteq> 0) = (key x < key y)"
  shows "drained key (Suc k) xs \<Longrightarrow> k < length xs \<Longrightarrow>
    sorted (map key (hsort_drain cmp k xs)) \<and> mset (hsort_drain cmp k xs) = mset xs"
proof (induction k arbitrary: xs)
  case 0
  then obtain y ys where xs: "xs = y # ys" by (cases xs) auto
  have "key y \<le> key z" if "z \<in> set ys" for z
    using 0 that unfolding xs drained_def by (auto simp: in_set_conv_nth)
  with 0 show ?case by (simp add: xs drained_def)
next
  case (Suc k)
  from drain_step[where cmp = cmp and key = key, OF cmp Suc.prems] Suc.IH Suc.prems(2) show ?case by simp
qed

section \<open>The binary search\<close>

text \<open>
  The items in the order the search takes them to be in: those with a positive comparison, those with
  the key, those with a negative one.
\<close>

definition in_search_order :: "('b \<Rightarrow> int) \<Rightarrow> 'b list \<Rightarrow> bool" where
  "in_search_order cmp xs \<longleftrightarrow>
     (\<forall>i j. i \<le> j \<longrightarrow> j < length xs \<longrightarrow> (cmp (xs ! i) < 0 \<longrightarrow> cmp (xs ! j) < 0) \<and> (0 < cmp (xs ! j) \<longrightarrow> 0 < cmp (xs ! i)))"

lemma bsearch_loop_finds:
  assumes o: "in_search_order cmp xs"
  shows "0 \<le> l \<Longrightarrow> l \<le> u \<Longrightarrow> u < int (length xs) \<Longrightarrow>
    (\<forall>i < length xs. cmp (xs ! i) = 0 \<longrightarrow> l \<le> int i \<and> int i \<le> u) \<Longrightarrow>
    (case bsearch_loop (\<lambda>i. cmp (xs ! i)) l u of
       Some i \<Rightarrow> i < length xs \<and> cmp (xs ! i) = 0
     | None \<Rightarrow> \<forall>x \<in> set xs. cmp x \<noteq> 0)"
proof (induction "nat (u - l + 1)" arbitrary: l u rule: less_induct)
  case less
  let ?m = "(l + u) div 2" and ?k = "nat ((l + u) div 2)"
  let ?l = "if 0 < cmp (xs ! ?k) then ?m + 1 else l" and ?u = "if cmp (xs ! ?k) < 0 then ?m - 1 else u"
  have m: "l \<le> ?m" "?m \<le> u" "?k < length xs" "int ?k = ?m" using less.prems by auto
  show ?case
  proof (cases "cmp (xs ! ?k) = 0")
    case True
    with m show ?thesis by (subst bsearch_loop.simps) simp
  next
    case False
    have key: "?l \<le> int i \<and> int i \<le> ?u" if i: "i < length xs" "cmp (xs ! i) = 0" for i
    proof -
      have "l \<le> int i" "int i \<le> u" using less.prems(4) i by auto
      moreover have "?k < i" if "0 < cmp (xs ! ?k)"
        using o[unfolded in_search_order_def, rule_format, of i ?k] that i m(3) by (metis less_irrefl not_less)
      moreover have "i < ?k" if "cmp (xs ! ?k) < 0"
        using o[unfolded in_search_order_def, rule_format, of ?k i] that i(1,2) by (metis less_irrefl not_less)
      ultimately show ?thesis using m(4) by auto
    qed
    have step: "bsearch_loop (\<lambda>i. cmp (xs ! i)) l u = (if ?l > ?u then None else bsearch_loop (\<lambda>i. cmp (xs ! i)) ?l ?u)"
      using False by (subst bsearch_loop.simps) (simp add: Let_def)
    show ?thesis
    proof (cases "?l > ?u")
      case True
      have "cmp x \<noteq> 0" if "x \<in> set xs" for x
      proof
        assume "cmp x = 0"
        with that obtain i where "i < length xs" "cmp (xs ! i) = 0" by (auto simp: in_set_conv_nth)
        with key[of i] True show False by linarith
      qed
      then show ?thesis unfolding step using True by simp
    next
      case lu: False
      have "nat (?u - ?l + 1) < nat (u - l + 1)" using False m by auto
      moreover have "0 \<le> ?l" "?u < int (length xs)" using less.prems m by auto
      ultimately have "case bsearch_loop (\<lambda>i. cmp (xs ! i)) ?l ?u of
          Some i \<Rightarrow> i < length xs \<and> cmp (xs ! i) = 0 | None \<Rightarrow> \<forall>x \<in> set xs. cmp x \<noteq> 0"
        using less.hyps[of ?u ?l] key lu by simp
      then show ?thesis unfolding step using lu by simp
    qed
  qed
qed

section \<open>Properties\<close>

text \<open>
  Heap sort sorts: with a comparison that says whether one key is below another, \<open>pl_hsort\<close>
  puts the same items in the order of their keys.\<close>

lemma hsort_sorts:
  fixes key :: "'b \<Rightarrow> 'k::linorder"
  assumes cmp: "\<And>x y. (cmp x y \<noteq> 0) = (key x < key y)"
  shows "sorted (map key (pl_items (pl_hsort cmp lst))) \<and> mset (pl_items (pl_hsort cmp lst)) = mset (pl_items lst) \<and>
    pl_rc (pl_hsort cmp lst) = LST_ESUCCESS"
proof (cases "pl_items lst")
  case (Cons x xs)
  let ?xs = "pl_items lst"
  let ?h = "hsort_build cmp (length ?xs div 2) ?xs"
  have "heap_from key (length ?xs div 2) (length ?xs) ?xs" by (auto simp: heap_from_def)
  from hsort_build_heap[where cmp = cmp and key = key, OF cmp this] have h: "heap_from key 0 (length ?xs) ?h" "mset ?h = mset ?xs" "length ?h = length ?xs" by auto
  then have "drained key (Suc (length ?xs - 1)) ?h" using Cons by (simp add: drained_def)
  from hsort_drain_sorted[where cmp = cmp and key = key, OF cmp this] h Cons show ?thesis by (simp add: pl_hsort_def Let_def)
qed (simp add: pl_hsort_def)

text \<open>
  Binary search is right: on a list in its order \<open>pl_bsearch\<close> returns an item with the key and its
  index when there is one, and otherwise no item, the index -1 and the code \<open>LST_ENOTFOUND\<close>.\<close>

lemma bsearch_finds:
  assumes "in_search_order cmp (pl_items lst)"
  shows "case pl_bsearch cmp lst of
      (Some x, i, lst') \<Rightarrow> 0 \<le> i \<and> i < pl_count lst \<and> x = pl_items lst ! nat i \<and> cmp x = 0 \<and> lst' = lst\<lparr>pl_rc := LST_ESUCCESS\<rparr>
    | (None, i, lst') \<Rightarrow> i = - 1 \<and> (\<forall>x \<in> set (pl_items lst). cmp x \<noteq> 0) \<and> lst' = lst\<lparr>pl_rc := LST_ENOTFOUND\<rparr>"
proof (cases "pl_items lst = []")
  case False
  then have "0 \<le> int (length (pl_items lst)) - 1" by (cases "pl_items lst") auto
  with bsearch_loop_finds[OF assms, of 0 "int (length (pl_items lst)) - 1"] False
  show ?thesis by (auto simp: pl_bsearch_def found_at_def pl_count_def split: option.splits)
qed (simp add: pl_bsearch_def found_at_def pl_count_def)

definition demo_list :: "int list \<Rightarrow> int pl" where
  "demo_list xs = \<lparr>pl_items = xs, pl_size = 8, pl_delta = 1, pl_rc = 0, pl_dealloc = False\<rparr>"

lemma hsort_sorts_witness:
  "sorted (pl_items (pl_hsort (\<lambda>x y. if x < y then 1 else 0) (demo_list [3, 1, 2])))"
  using hsort_sorts[of "\<lambda>x y. if x < y then 1 else 0" "\<lambda>x. x" "demo_list [3, 1, 2]"] by simp

lemma bsearch_finds_witness:
  "fst (snd (pl_bsearch (\<lambda>x. sgn (5 - x)) (demo_list [1, 5, 7]))) = 1"
proof -
  have "in_search_order (\<lambda>x. sgn (5 - x)) (pl_items (demo_list [1, 5, 7]))"
    by (auto simp: in_search_order_def demo_list_def less_Suc_eq le_Suc_eq)
  moreover have "i = 0 \<or> i = 1 \<or> i = 2" if "0 \<le> i" "i < 3" for i :: int using that by auto
  ultimately show ?thesis using bsearch_finds[of "\<lambda>x. sgn (5 - x)" "demo_list [1, 5, 7]"]
    by (fastforce simp: demo_list_def pl_count_def split: option.splits prod.splits)
qed

text \<open>A sorted insertion that is not: 2 goes behind 3.\<close>

lemma sinsert_not_sorted:
  "pl_sinsert 2 (\<lambda>lst x m. if x < pl_items lst ! nat m then - 1 else if x > pl_items lst ! nat m then 1 else 0)
     (demo_list [1, 3]) w = Some (2, (demo_list [1, 3, 2]), w)"
  by (simp add: pl_sinsert_def pl_count_def demo_list_def sinsert_place.simps pl_add_def pl_grow_def Let_def)

end
