(* ===== verification/Conf.thy ===== *)
theory Conf
  imports Output
begin

text \<open>
  The configuration of the programs (\<open>src/src/bee/lib/db/conf.c\<close>, \<open>core/sqlcfg.c\<close>): the rules of the
  sections, and loading them into the global variables \<open>conf_...\<close>.  A value that could not be
  copied is \<open>None\<close>.  The lemmas follow the rules from the parser (\<open>G3c\<close>) to what is loaded.
\<close>

record conf =
  cf_coreaddr :: "string option"
  cf_coreport :: int
  cf_workdir :: "string option"
  cf_dbdir :: "string option"
  cf_accfile :: "string option"
  cf_logfile :: "string option"
  cf_gatefile :: "string option"
  cf_tariffile :: "string option"
  cf_resfile :: "string option"
  cf_logindex :: "string option"
  cf_gatetemp :: "string option"
  cf_gatelock :: "string option"
  cf_updlock :: "string option"
  cf_grantmask :: "string option"
  cf_denymask :: "string option"
  cf_applyscript :: "string option"
  cf_intrascript :: "string option"
  cf_newloginscript :: "string option"
  cf_paymanframes :: "string option"
  cf_paymanusers :: "string option"
  cf_paymanlog :: "string option"

text \<open>The variables at the start of a program.\<close>

definition conf_zero :: conf where
  "conf_zero = \<lparr>cf_coreaddr = None, cf_coreport = 0, cf_workdir = None, cf_dbdir = None, cf_accfile = None,
     cf_logfile = None, cf_gatefile = None, cf_tariffile = None, cf_resfile = None, cf_logindex = None,
     cf_gatetemp = None, cf_gatelock = None, cf_updlock = None, cf_grantmask = None, cf_denymask = None,
     cf_applyscript = None, cf_intrascript = None, cf_newloginscript = None, cf_paymanframes = None,
     cf_paymanusers = None, cf_paymanlog = None\<rparr>"

section \<open>The rules\<close>

definition need_str :: "string \<Rightarrow> int \<Rightarrow> ruleparam" where
  "need_str name hi = (rule_str name hi)\<lparr>rp_required := True\<rparr>"

definition ipc_params :: "ruleparam list" where
  "ipc_params = [need_str ''core_addr'' 20,
     (rule_int ''core_port'' 65535)\<lparr>rp_required := True, rp_vmin := 1\<rparr>]"

definition dirs_params :: "ruleparam list" where
  "dirs_params = [need_str ''workdir'' 1024, need_str ''dbdir'' 1024]"

definition files_params :: "ruleparam list" where
  "files_params = [need_str ''accfile'' 1024, need_str ''logfile'' 1024, need_str ''gatefile'' 1024,
     need_str ''tariffile'' 1024, need_str ''resfile'' 1024, need_str ''logindex'' 1024,
     need_str ''gatetemp'' 1024, need_str ''gatelock'' 1024, need_str ''updlock'' 1024,
     need_str ''grantfile_mask'' 1024, need_str ''denyfile_mask'' 1024]"

definition core_params :: "ruleparam list" where
  "core_params = [need_str ''apply_script'' 1024, need_str ''intra_script'' 1024, need_str ''newlogin_script'' 1024]"

definition payman_params :: "ruleparam list" where
  "payman_params = [need_str ''framefile'' 1024, need_str ''usersfile'' 1024, need_str ''logfile'' 1024]"

text \<open>The count of the main section says two subsections, though five are listed.\<close>

definition main_defs :: "rulesec list" where
  "main_defs = [RuleSec (Some ''ipc'') ipc_params [] False True, RuleSec (Some ''dirs'') dirs_params [] False True]"

definition conf_rules :: "rulesec list" where
  "conf_rules = [RuleSec (Some ''main'') [] main_defs False False,
     RuleSec (Some ''ipc'') ipc_params [] False False,
     RuleSec (Some ''dirs'') dirs_params [] False False,
     RuleSec (Some ''files'') files_params [] False False,
     RuleSec (Some ''core'') core_params [] False False,
     RuleSec (Some ''payman'') payman_params [] False False,
     RuleSec None [] [] False False]"

section \<open>Loading\<close>

text \<open>
  The sections are looked for in the order ipc, dirs, files, core, payman, each behind the one
  before.  \<open>None\<close> is the null pointer \<open>conf_load\<close> would read when a port were missing.
\<close>

definition load_ipc :: "g3c_pos \<Rightarrow> conf \<Rightarrow> 'a os_scheme \<Rightarrow> (conf \<times> 'a os_scheme) option" where
  "load_ipc pos c w = (case g3c_string pos ''core_addr'' w of (addr, w) \<Rightarrow>
     map_option (\<lambda>port. (c\<lparr>cf_coreaddr := addr, cf_coreport := port\<rparr>, w)) (g3c_integer pos ''core_port''))"

definition load_dirs :: "g3c_pos \<Rightarrow> conf \<Rightarrow> 'a os_scheme \<Rightarrow> (conf \<times> 'a os_scheme) option" where
  "load_dirs pos c w =
     (case g3c_string pos ''workdir'' w of (a, w) \<Rightarrow>
      case g3c_string pos ''dbdir'' w of (b, w) \<Rightarrow> Some (c\<lparr>cf_workdir := a, cf_dbdir := b\<rparr>, w))"

definition load_files :: "g3c_pos \<Rightarrow> conf \<Rightarrow> 'a os_scheme \<Rightarrow> (conf \<times> 'a os_scheme) option" where
  "load_files pos c w =
     (case g3c_string pos ''accfile'' w of (v1, w) \<Rightarrow>
      case g3c_string pos ''logfile'' w of (v2, w) \<Rightarrow>
      case g3c_string pos ''gatefile'' w of (v3, w) \<Rightarrow>
      case g3c_string pos ''tariffile'' w of (v4, w) \<Rightarrow>
      case g3c_string pos ''resfile'' w of (v5, w) \<Rightarrow>
      case g3c_string pos ''logindex'' w of (v6, w) \<Rightarrow>
      case g3c_string pos ''gatetemp'' w of (v7, w) \<Rightarrow>
      case g3c_string pos ''gatelock'' w of (v8, w) \<Rightarrow>
      case g3c_string pos ''updlock'' w of (v9, w) \<Rightarrow>
      case g3c_string pos ''grantfile_mask'' w of (v10, w) \<Rightarrow>
      case g3c_string pos ''denyfile_mask'' w of (v11, w) \<Rightarrow>
        Some (c\<lparr>cf_accfile := v1, cf_logfile := v2, cf_gatefile := v3, cf_tariffile := v4, cf_resfile := v5,
                cf_logindex := v6, cf_gatetemp := v7, cf_gatelock := v8, cf_updlock := v9,
                cf_grantmask := v10, cf_denymask := v11\<rparr>, w))"

definition load_core :: "g3c_pos \<Rightarrow> conf \<Rightarrow> 'a os_scheme \<Rightarrow> (conf \<times> 'a os_scheme) option" where
  "load_core pos c w =
     (case g3c_string pos ''apply_script'' w of (v1, w) \<Rightarrow>
      case g3c_string pos ''intra_script'' w of (v2, w) \<Rightarrow>
      case g3c_string pos ''newlogin_script'' w of (v3, w) \<Rightarrow>
        Some (c\<lparr>cf_applyscript := v1, cf_intrascript := v2, cf_newloginscript := v3\<rparr>, w))"

definition load_payman :: "g3c_pos \<Rightarrow> conf \<Rightarrow> 'a os_scheme \<Rightarrow> (conf \<times> 'a os_scheme) option" where
  "load_payman pos c w =
     (case g3c_string pos ''framefile'' w of (v1, w) \<Rightarrow>
      case g3c_string pos ''usersfile'' w of (v2, w) \<Rightarrow>
      case g3c_string pos ''logfile'' w of (v3, w) \<Rightarrow>
        Some (c\<lparr>cf_paymanframes := v1, cf_paymanusers := v2, cf_paymanlog := v3\<rparr>, w))"

type_synonym 'a conf_loader = "g3c_pos \<Rightarrow> conf \<Rightarrow> 'a os_scheme \<Rightarrow> (conf \<times> 'a os_scheme) option"

fun load_sections :: "(string \<times> 'a conf_loader) list \<Rightarrow> g3c_pos \<Rightarrow> conf \<Rightarrow> 'a os_scheme \<Rightarrow>
    (int \<times> conf \<times> 'a os_scheme) option" where
  "load_sections [] pos c w = Some (0, c, w)"
| "load_sections ((name, load) # ls) pos c w = (case g3c_nextn name pos of None \<Rightarrow> None | Some (rc, pos) \<Rightarrow>
     if rc < 0 then Some (- 1, c, w)
     else (case load pos c w of
         None \<Rightarrow> None
       | Some (c, w) \<Rightarrow> load_sections ls (snd (g3c_uplevel pos)) c w))"

definition conf_sections :: "(string \<times> 'a conf_loader) list" where
  "conf_sections = [(''ipc'', load_ipc), (''dirs'', load_dirs), (''files'', load_files), (''core'', load_core),
     (''payman'', load_payman)]"

definition default_conf :: string where
  "default_conf = ''/etc/bee/bee.conf''"

definition conf_load :: "string option \<Rightarrow> conf \<Rightarrow> 'a os_scheme \<Rightarrow> (int \<times> conf \<times> 'a os_scheme) option" where
  "conf_load file c w =
     (case strnalloc (Some (case file of None \<Rightarrow> default_conf | Some f \<Rightarrow> f)) 0 w of
        (None, w) \<Rightarrow> Some (- 1, c, w)
      | (Some spec, w) \<Rightarrow> (case g3c_file_load spec w of (rc, text, w) \<Rightarrow>
          if rc \<noteq> 0 then Some (- 1, c, w)
          else (case g3c_parse text conf_rules w of
              (rc, None, w) \<Rightarrow> Some (- 1, c, w)
            | (rc, Some pss, w) \<Rightarrow> load_sections conf_sections (at_section pss) c w)))"

definition conf_free :: "conf \<Rightarrow> conf" where
  "conf_free c = c\<lparr>cf_coreaddr := None, cf_workdir := None, cf_dbdir := None, cf_accfile := None,
     cf_logfile := None, cf_gatefile := None, cf_tariffile := None, cf_resfile := None, cf_logindex := None,
     cf_gatetemp := None, cf_gatelock := None, cf_grantmask := None, cf_denymask := None,
     cf_applyscript := None, cf_intrascript := None, cf_newloginscript := None, cf_paymanframes := None,
     cf_paymanusers := None, cf_paymanlog := None\<rparr>"

section \<open>The SQL settings\<close>

record config_t =
  DBtype :: "string option"
  DBhost :: "string option"
  DBlogin :: "string option"
  DBpass :: "string option"
  DBname :: "string option"
  DBscripts :: "string option"

definition opt_str :: "string \<Rightarrow> string \<Rightarrow> int \<Rightarrow> ruleparam" where
  "opt_str name val hi = (rule_str name hi)\<lparr>rp_defvalue := Some (VStr val)\<rparr>"

definition sql_rules :: "ruleparam list" where
  "sql_rules = [opt_str ''sqltype'' ''PGSQL'' 8, opt_str ''hostname'' ''127.0.0.1'' 64, opt_str ''login'' ''bee'' 16,
     need_str ''password'' 32, opt_str ''dbname'' ''beedb'' 16,
     opt_str ''scripts'' ''/usr/local/libdata/bee/scripts.dat'' 256]"

text \<open>The count of the section in \<open>main_defs\<close> says one parameter.\<close>

definition cfg_rules :: "rulesec list" where
  "cfg_rules = [RuleSec (Some ''main'') [] [RuleSec (Some ''sql'') (take 1 sql_rules) [] False True] False False,
     RuleSec (Some ''sql'') sql_rules [] False False, RuleSec None [] [] False False]"

definition load_sql :: "g3c_pos \<Rightarrow> 'a os_scheme \<Rightarrow> config_t \<times> 'a os_scheme" where
  "load_sql pos w =
     (case g3c_string pos ''sqltype'' w of (v1, w) \<Rightarrow>
      case g3c_string pos ''hostname'' w of (v2, w) \<Rightarrow>
      case g3c_string pos ''login'' w of (v3, w) \<Rightarrow>
      case g3c_string pos ''password'' w of (v4, w) \<Rightarrow>
      case g3c_string pos ''dbname'' w of (v5, w) \<Rightarrow>
      case g3c_string pos ''scripts'' w of (v6, w) \<Rightarrow>
        (\<lparr>DBtype = v1, DBhost = v2, DBlogin = v3, DBpass = v4, DBname = v5, DBscripts = v6\<rparr>, w))"

definition cfg_load :: "string option \<Rightarrow> config_t \<Rightarrow> 'a os_scheme \<Rightarrow> (int \<times> config_t \<times> 'a os_scheme) option" where
  "cfg_load file c w =
     (case strnalloc (Some (case file of None \<Rightarrow> default_conf | Some f \<Rightarrow> f)) 0 w of
        (None, w) \<Rightarrow> Some (- 1, c, w)
      | (Some spec, w) \<Rightarrow> (case g3c_file_load spec w of (rc, text, w) \<Rightarrow>
          if rc \<noteq> 0 then Some (- 1, c, w)
          else (case g3c_parse text cfg_rules w of
              (rc, None, w) \<Rightarrow> Some (- 1, c, w)
            | (rc, Some pss, w) \<Rightarrow> (case g3c_nextn ''sql'' (at_section pss) of
                None \<Rightarrow> None
              | Some (rc, pos) \<Rightarrow>
                if rc < 0 then Some (- 1, c, w) else (case load_sql pos w of (c, w) \<Rightarrow> Some (0, c, w))))))"

section \<open>What the rules promise\<close>

definition in_rule :: "ruleparam \<Rightarrow> g3c_value \<Rightarrow> bool" where
  "in_rule r v = (case v of
      VStr s \<Rightarrow> rp_vmax r < 0 \<or> int (length s) \<le> rp_vmax r
    | VInt i \<Rightarrow> rp_vmin r \<le> i \<and> i \<le> rp_vmax r
    | VLong l \<Rightarrow> rp_vmin r \<le> l \<and> l \<le> rp_vmax r)"

definition fits :: "ruleparam \<Rightarrow> g3c_value \<Rightarrow> bool" where
  "fits r v \<longleftrightarrow> value_type v = rp_type r \<and> in_rule r v"

definition param_ok :: "ruleparam \<Rightarrow> g3c_section \<Rightarrow> bool" where
  "param_ok r s = (case section_param s (rp_name r) of
      None \<Rightarrow> \<not> rp_required r \<and> rp_defvalue r = None
    | Some p \<Rightarrow> fits r (p_value p))"

definition default_ok :: "ruleparam \<Rightarrow> bool" where
  "default_ok r \<longleftrightarrow> (case rp_defvalue r of None \<Rightarrow> True | Some v \<Rightarrow> fits r v)"

lemma check_value_fits: "check_value r v = (0, v') \<Longrightarrow> value_type v = rp_type r \<Longrightarrow> fits r v'"
  by (auto simp: check_value_def fits_def in_rule_def value_type_def Let_def not_less split: g3c_value.splits if_splits)

lemma cast_type [simp]: "value_type (g3c_castvalue v t) = t"
  by (simp add: g3c_castvalue_def value_type_def split: g3c_type.split)

lemma find_put_value:
  "find (\<lambda>p. strcaseeq (p_name p) a) (put_value b v ps) =
     map_option (\<lambda>p. if strcaseeq a b then p\<lparr>p_value := v\<rparr> else p) (find (\<lambda>p. strcaseeq (p_name p) a) ps)"
  by (induction ps) (auto simp: strcaseeq_def option.map_ident)

lemma section_param_set:
  "section_param (set_value b v s) a =
     map_option (\<lambda>p. if strcaseeq a b then p\<lparr>p_value := v\<rparr> else p) (section_param s a)"
  by (simp add: section_param_def set_value_def find_put_value)

lemma find_append: "find P (xs @ ys) = (case find P xs of None \<Rightarrow> find P ys | Some x \<Rightarrow> Some x)"
  by (induction xs) auto

lemma newparam_param:
  "g3c_newparam s b v l w = (0, s', w') \<Longrightarrow>
     section_param s' a = (case section_param s a of
         None \<Rightarrow> if strcaseeq b a then Some \<lparr>p_name = b, p_value = v, p_fdef = (l = - 1), p_line = l\<rparr> else None
       | Some p \<Rightarrow> Some p)"
  by (auto simp: g3c_newparam_def section_param_def find_append split: prod.splits if_splits option.splits)

lemma newparam_sections: "g3c_newparam s b v l w = (rc, s', w') \<Longrightarrow> s_sections s' = s_sections s"
  by (auto simp: g3c_newparam_def split: prod.splits if_splits)

lemma check_param_sections: "check_param r s w = (rc, s', w') \<Longrightarrow> s_sections s' = s_sections s"
  by (auto simp: check_param_def set_value_def split: option.splits prod.splits if_splits dest: newparam_sections)

lemma check_params_sections: "check_params rs s w = (rc, s', w') \<Longrightarrow> s_sections s' = s_sections s"
  by (induction rs arbitrary: s w) (auto split: prod.splits if_splits dest: check_param_sections)

lemma strcaseeq_refl [simp]: "strcaseeq a a"
  by (simp add: strcaseeq_def)

text \<open>A checked parameter fits its rule, and nothing changes under any other name.\<close>

lemma check_param_other:
  "check_param r s w = (0, s', w') \<Longrightarrow> \<not> strcaseeq a (rp_name r) \<Longrightarrow> section_param s' a = section_param s a"
  by (auto simp: check_param_def section_param_set newparam_param strcaseeq_def option.map_ident
      split: option.splits prod.splits if_splits)

lemma check_param_ok:
  assumes "check_param r s w = (0, s', w')" "default_ok r"
  shows "param_ok r s'"
proof (cases "section_param s (rp_name r)")
  case None
  then show ?thesis using assms
    by (auto simp: check_param_def param_ok_def default_ok_def newparam_param split: if_splits option.splits)
next
  case (Some p)
  then show ?thesis using assms(1)
    by (auto simp: check_param_def param_ok_def section_param_set check_value_fits split: if_splits prod.splits)
qed

lemma check_params_ok:
  assumes "check_params rs s w = (0, s', w')" "\<forall>r \<in> set rs. default_ok r"
    and "distinct (map (\<lambda>r. map tolower (rp_name r)) rs)"
  shows "(\<forall>r \<in> set rs. param_ok r s') \<and>
    (\<forall>a. map tolower a \<notin> set (map (\<lambda>r. map tolower (rp_name r)) rs) \<longrightarrow> section_param s' a = section_param s a)"
  using assms
proof (induction rs arbitrary: s w)
  case Nil
  then show ?case by simp
next
  case (Cons r rs)
  obtain rc s1 w1 where c: "check_param r s w = (rc, s1, w1)" by (metis prod_cases3)
  with Cons.prems(1) have rc: "rc = 0" "check_params rs s1 w1 = (0, s', w')" by (auto split: if_splits)
  have ih: "\<forall>r \<in> set rs. param_ok r s'"
      "\<forall>a. map tolower a \<notin> set (map (\<lambda>r. map tolower (rp_name r)) rs) \<longrightarrow> section_param s' a = section_param s1 a"
    using Cons.IH[OF rc(2)] Cons.prems(2,3) by simp_all
  have "param_ok r s1" using check_param_ok c rc(1) Cons.prems(2) by auto
  moreover have "section_param s' (rp_name r) = section_param s1 (rp_name r)"
    using ih(2) Cons.prems(3) by simp
  ultimately have "param_ok r s'" by (simp add: param_ok_def)
  moreover have "section_param s1 a = section_param s a" if "map tolower a \<noteq> map tolower (rp_name r)" for a
    using check_param_other c rc(1) that by (simp add: strcaseeq_def)
  ultimately show ?case using ih by auto
qed

text \<open>A list of rules as the programs write them.\<close>

definition rules_ok :: "rulesec list \<Rightarrow> bool" where
  "rules_ok rul \<longleftrightarrow> (\<forall>r \<in> set rul. (\<forall>p \<in> set (r_params r). default_ok p) \<and>
     distinct (map (\<lambda>p. map tolower (rp_name p)) (r_params r)) \<and>
     ''type'' \<notin> set (map (\<lambda>p. map tolower (rp_name p)) (r_params r)) \<and>
     (\<forall>q \<in> set (r_sections r). \<not> r_def q))"

definition sec_ok :: "rulesec list \<Rightarrow> g3c_section \<Rightarrow> bool" where
  "sec_ok rul s \<longleftrightarrow> (\<forall>t r p. g3c_getvalue (at_section s) ''type'' PT_STRING = Some t \<longrightarrow>
     find_rule (value_text t) rul = Some r \<longrightarrow> p \<in> set (r_params r) \<longrightarrow> param_ok p s)"

lemma check_sections_same:
  "\<forall>r \<in> set rs. \<not> r_def r \<Longrightarrow> check_sections rs s w = (rc, s', w') \<Longrightarrow> s' = s"
proof (induction rs arbitrary: s w)
  case (Cons r rs)
  from Cons.prems show ?case
    by (subst (asm) check_sections.simps) (auto split: option.splits if_splits prod.splits dest: Cons.IH)
qed (simp add: check_sections.simps)

lemma find_rule_in: "find_rule t rs = Some r \<Longrightarrow> r \<in> set rs"
  by (induction rs) (auto split: option.splits if_splits)

lemma rulecheck_ok:
  assumes "g3c_rulecheck s rul w = (0, s', w')" "rules_ok rul"
  shows "sec_ok rul s' \<and> s_sections s' = s_sections s"
proof -
  let ?t = "\<lambda>s. g3c_getvalue (at_section s) ''type'' PT_STRING"
  obtain t where t: "?t s = Some t"
    using assms(1) by (cases "?t s") (auto simp: g3c_rulecheck.simps)
  show ?thesis
  proof (cases "find_rule (value_text t) rul")
    case None
    then have "s' = s" using assms(1) t by (auto simp: g3c_rulecheck.simps)
    with None t show ?thesis by (simp add: sec_ok_def)
  next
    case (Some r)
    obtain rc s1 w1 where c: "check_params (r_params r) s w = (rc, s1, w1)" by (metis prod_cases3)
    have r: "r \<in> set rul" using Some by (rule find_rule_in)
    have rc: "rc = 0" "check_sections (r_sections r) s1 w1 = (0, s', w')"
      using assms(1) t Some c by (auto simp: g3c_rulecheck.simps split: if_splits)
    have s': "s' = s1" using check_sections_same[OF _ rc(2)] r assms(2) by (auto simp: rules_ok_def)
    have ok: "\<forall>p \<in> set (r_params r). param_ok p s1"
        "\<forall>a. map tolower a \<notin> set (map (\<lambda>r. map tolower (rp_name r)) (r_params r)) \<longrightarrow> section_param s1 a = section_param s a"
      using check_params_ok[of "r_params r" s w s1 w1] c rc(1) r assms(2) by (auto simp: rules_ok_def)
    have "map tolower ''type'' = ''type''" by (simp add: tolower_def)
    with ok(2) r assms(2) have "section_param s1 ''type'' = section_param s ''type''"
      by (simp add: rules_ok_def)
    then have "?t s1 = ?t s" by (simp add: g3c_getvalue_def at_section_def)
    with t Some ok(1) s' check_params_sections[OF c] show ?thesis by (simp add: sec_ok_def)
  qed
qed

section \<open>The parsed tree\<close>

lemma alloc_no_fault: "no_faults w \<Longrightarrow> sys_alloc w = (m, w') \<Longrightarrow> m \<and> no_faults w'"
  by (auto simp: sys_alloc_def next_outcome_no_faults)

lemma newparam_nf: "no_faults w \<Longrightarrow> g3c_newparam s b v l w = (rc, s', w') \<Longrightarrow> no_faults w'"
  by (auto simp: g3c_newparam_def split: prod.splits if_splits dest: alloc_no_fault)

lemma check_param_nf: "no_faults w \<Longrightarrow> check_param r s w = (rc, s', w') \<Longrightarrow> no_faults w'"
  by (auto simp: check_param_def split: option.splits prod.splits if_splits dest: alloc_no_fault newparam_nf)

lemma check_params_nf: "no_faults w \<Longrightarrow> check_params rs s w = (rc, s', w') \<Longrightarrow> no_faults w'"
  by (induction rs arbitrary: s w) (auto split: prod.splits if_splits dest: check_param_nf)

lemma check_sections_nf:
  "\<forall>r \<in> set rs. \<not> r_def r \<Longrightarrow> no_faults w \<Longrightarrow> check_sections rs s w = (rc, s', w') \<Longrightarrow> no_faults w'"
proof (induction rs arbitrary: s w)
  case (Cons r rs)
  from Cons.prems show ?case
    by (subst (asm) check_sections.simps) (auto split: option.splits if_splits prod.splits dest: Cons.IH)
qed (simp add: check_sections.simps)

lemma rulecheck_nf:
  assumes "g3c_rulecheck s rul w = (rc, s', w')" "rules_ok rul" "no_faults w"
  shows "no_faults w'"
proof -
  have "\<forall>q \<in> set (r_sections r). \<not> r_def q" if "find_rule t rul = Some r" for t r
    using find_rule_in[OF that] assms(2) by (auto simp: rules_ok_def)
  with assms show ?thesis
    by (auto simp: g3c_rulecheck.simps split: option.splits prod.splits if_splits
        dest: check_params_nf check_sections_nf)
qed

text \<open>Every section that is closed has passed the check; the faults seen so far are the script's.\<close>

definition scan_ok :: "rulesec list \<Rightarrow> g3c_scan \<Rightarrow> bool" where
  "scan_ok rul q \<longleftrightarrow> (\<forall>s \<in> set (q_sec q # q_up q). \<forall>sub \<in> set (s_sections s). sec_ok rul sub)"

definition kept :: "rulesec list \<Rightarrow> 'a os_scheme \<Rightarrow> g3c_scan \<Rightarrow> 'a os_scheme \<Rightarrow> bool" where
  "kept rul w q' w' \<longleftrightarrow> scan_ok rul q' \<and> (no_faults w \<longrightarrow> no_faults w')"

lemma end_param_kept: "scan_ok rul q \<Longrightarrow> end_param q w = (q', w') \<Longrightarrow> kept rul w q' w'"
  by (auto simp: end_param_def kept_def scan_ok_def split: prod.splits dest: newparam_sections newparam_nf)

lemma end_param_if_kept: "scan_ok rul q \<Longrightarrow> end_param_if q w = (q', w') \<Longrightarrow> kept rul w q' w'"
  by (auto simp: end_param_if_def kept_def split: if_splits dest: end_param_kept[unfolded kept_def])

lemma open_section_kept: "scan_ok rul q \<Longrightarrow> open_section q w = (rc, q', w') \<Longrightarrow> kept rul w q' w'"
  by (auto simp: open_section_def kept_def scan_ok_def g3c_newsect_def split: prod.splits option.splits if_splits
      dest: alloc_no_fault)

lemma close_section_kept:
  assumes "scan_ok rul q" "rules_ok rul" "close_section rul q w = (rc, q', w')"
  shows "kept rul w q' w'"
proof (cases "q_up q")
  case Nil
  with assms show ?thesis by (simp add: close_section_def kept_def)
next
  case (Cons parent up)
  obtain c sec v where r: "g3c_rulecheck (q_sec q) rul w = (c, sec, v)" by (metis prod_cases3)
  with rulecheck_ok[of "q_sec q" rul w sec v] rulecheck_nf[OF r assms(2)] Cons assms show ?thesis
    by (auto simp: close_section_def kept_def scan_ok_def add_section_def split: if_splits)
qed

lemma scan_ok_fields:
  "q_sec q' = q_sec q \<Longrightarrow> q_up q' = q_up q \<Longrightarrow> scan_ok rul q \<Longrightarrow> scan_ok rul q'"
  by (simp add: scan_ok_def)

lemma add_char_ok: "scan_ok rul q \<Longrightarrow> scan_ok rul (add_char c q)"
  by (auto simp: add_char_def scan_ok_def)

lemma kept_trans: "kept rul w q1 w1 \<Longrightarrow> (scan_ok rul q1 \<Longrightarrow> kept rul w1 q2 w2) \<Longrightarrow> kept rul w q2 w2"
  by (auto simp: kept_def)

lemma kept_same: "scan_ok rul q' \<Longrightarrow> kept rul w q' w"
  by (simp add: kept_def)

text \<open>The same for a step with its result code, so that the branches of a step can be taken apart.\<close>

definition kept3 :: "rulesec list \<Rightarrow> 'a os_scheme \<Rightarrow> int \<times> g3c_scan \<times> 'a os_scheme \<Rightarrow> bool" where
  "kept3 rul w r = kept rul w (fst (snd r)) (snd (snd r))"

lemma kept3_if: "(b \<Longrightarrow> kept3 rul w x) \<Longrightarrow> (\<not> b \<Longrightarrow> kept3 rul w y) \<Longrightarrow> kept3 rul w (if b then x else y)"
  by simp

lemma kept3_triple: "kept rul w q v \<Longrightarrow> kept3 rul w (rc, q, v)"
  by (simp add: kept3_def)

lemma kept_if: "kept rul w x v \<Longrightarrow> kept rul w y v \<Longrightarrow> kept rul w (if b then x else y) v"
  by simp

lemma g3c_plain_kept:
  assumes "scan_ok rul q" "rules_ok rul"
  shows "kept3 rul w (g3c_plain rul c nxt q w)"
proof -
  obtain q1 w1 where e: "end_param_if q w = (q1, w1)" by fastforce
  obtain q2 w2 where p: "end_param q w = (q2, w2)" by fastforce
  obtain r3 q3 w3 where o: "open_section q1 w1 = (r3, q3, w3)" by (metis prod_cases3)
  obtain r4 q4 w4 where cl: "close_section rul q1 w1 = (r4, q4, w4)" by (metis prod_cases3)
  note e1 = end_param_if_kept[OF assms(1) e] and p1 = end_param_kept[OF assms(1) p]
  have s: "kept rul w (q\<lparr>q_splen := x\<rparr>) w" "kept rul w (q\<lparr>q_quotes := True\<rparr>) w" "kept rul w (q\<lparr>q_escape := True\<rparr>) w"
    "kept rul w (q\<lparr>q_pname := y, q_ptok := z, q_splen := x, q_tlim := x'\<rparr>) w" "kept rul w q w"
    "kept rul w (add_char c q) w" for x x' y z
    using assms(1) add_char_ok[OF assms(1)] by (simp_all add: scan_ok_def kept_def)
  have comment: "kept rul w (q1\<lparr>q_comment := True\<rparr>) w1" "kept rul w (q1\<lparr>q_mlcomment := True, q_mlbreak := 0\<rparr>) w1"
    using e1 by (auto simp: kept_def scan_ok_def)
  have oc: "kept3 rul w (open_section q1 w1)" "kept3 rul w (close_section rul q1 w1)"
    using kept_trans[OF e1 open_section_kept[OF _ o]] kept_trans[OF e1 close_section_kept[OF _ assms(2) cl]] o cl
    by (simp_all add: kept3_def)
  show ?thesis unfolding g3c_plain_def e p prod.case
    by (intro kept3_if kept3_triple kept_if s e1 p1 comment oc)
qed

lemma g3c_char_kept:
  assumes "scan_ok rul q" "rules_ok rul"
  shows "kept3 rul w (g3c_char rul c nxt q w)"
proof -
  have k: "kept3 rul w (if q_comment q then (0, if eol then q\<lparr>q_comment := False\<rparr> else q, w)
         else if q_mlcomment q then
           (0, if eol then q\<lparr>q_mlbreak := 1\<rparr>
               else if c = CHR ''#'' \<and> q_mlbreak q \<noteq> 0 then
                 (if q_mlbreak q + 1 > 2
                  then q\<lparr>q_mlcomment := False, q_comment := True, q_mlbreak := 0\<rparr>
                  else q\<lparr>q_mlbreak := q_mlbreak q + 1\<rparr>)
               else q\<lparr>q_mlbreak := 0\<rparr>, w)
         else if q_escape q then (0, add_char c (q\<lparr>q_escape := False\<rparr>), w)
         else if q_quotes q then
           (0, if c = CHR 0x22 then q\<lparr>q_quotes := False\<rparr> else add_char c q, w)
         else g3c_plain rul c nxt q w)"
    if ok: "scan_ok rul q" for q eol
  proof -
    have s: "kept rul w (q\<lparr>q_comment := False\<rparr>) w" "kept rul w (q\<lparr>q_mlbreak := x\<rparr>) w" "kept rul w q w"
      "kept rul w (q\<lparr>q_mlcomment := False, q_comment := True, q_mlbreak := 0\<rparr>) w"
      "kept rul w (q\<lparr>q_quotes := False\<rparr>) w" "kept rul w (add_char c q) w"
      "kept rul w (add_char c (q\<lparr>q_escape := False\<rparr>)) w" for x
      using ok add_char_ok[OF ok] add_char_ok[of rul "q\<lparr>q_escape := False\<rparr>"] by (simp_all add: scan_ok_def kept_def)
    show ?thesis by (intro kept3_if kept3_triple kept_if s g3c_plain_kept ok assms(2))
  qed
  have "scan_ok rul (if c = CHR 0x0A then q\<lparr>q_line := q_line q + 1\<rparr> else q)"
    using assms(1) by (simp add: scan_ok_def)
  from k[OF this] show ?thesis by (simp only: g3c_char_def Let_def)
qed

lemma g3c_loop_kept:
  "scan_ok rul q \<Longrightarrow> rules_ok rul \<Longrightarrow> g3c_loop rul cs q w = (rc, q', w') \<Longrightarrow> kept rul w q' w'"
proof (induction cs arbitrary: q w)
  case Nil
  then show ?case by (simp add: kept_same)
next
  case (Cons c cs)
  obtain r q1 w1 where c: "g3c_char rul c (case cs of [] \<Rightarrow> None | n # _ \<Rightarrow> Some n) q w = (r, q1, w1)"
    by (metis prod_cases3)
  have k: "kept rul w q1 w1" using g3c_char_kept[OF Cons.prems(1,2)] c by (metis kept3_def fst_conv snd_conv)
  show ?case
  proof (cases "r = 0")
    case True
    with Cons.prems(3) c have "g3c_loop rul cs q1 w1 = (rc, q', w')" by simp
    with Cons.IH Cons.prems(2) kept_trans[OF k] show ?thesis by blast
  next
    case False
    with Cons.prems(3) c k show ?thesis by simp
  qed
qed

text \<open>All subsections of a tree that was parsed have passed the check.\<close>

lemma parse_checked:
  assumes "g3c_parse text rul w = (rc, Some s, w')" "rules_ok rul"
  shows "(\<forall>sub \<in> set (s_sections s). sec_ok rul sub) \<and> (no_faults w \<longrightarrow> no_faults w')"
proof -
  obtain m w1 where a: "sys_alloc w = (m, w1)" by fastforce
  obtain c sec w2 where n: "g3c_newparam (Section [] [] False 0) ''type'' (VStr ''main'') (- 1) w1 = (c, sec, w2)"
    by (metis prod_cases3)
  obtain d q w3 where l: "g3c_loop rul text (g3c_start sec) w2 = (d, q, w3)" by (metis prod_cases3)
  have s: "s = q_sec q" "w' = w3" using assms(1) a n l by (auto simp: g3c_parse_def split: if_splits)
  have "scan_ok rul (g3c_start sec)"
    using newparam_sections[OF n] by (simp add: scan_ok_def g3c_start_def)
  from g3c_loop_kept[OF this assms(2) l] s a n show ?thesis
    by (auto simp: kept_def scan_ok_def dest: alloc_no_fault newparam_nf)
qed

section \<open>What is loaded\<close>

lemma find_rule_cong: "strcaseeq t u \<Longrightarrow> find_rule t rs = find_rule u rs"
  by (induction rs) (auto simp: strcaseeq_def split: option.splits)

text \<open>A section that was found by its type satisfies the rules of that type.\<close>

lemma found_section:
  assumes "g3c_nextn name pos = Some (rc, pos')" "\<not> rc < 0" "0 \<le> gp_index pos"
    and "\<forall>sub \<in> set (s_sections (gp_section pos)). sec_ok rul sub"
    and "find_rule name rul = Some r"
  shows "(\<forall>p \<in> set (r_params r). param_ok p (gp_section pos')) \<and>
    gp_section (snd (g3c_uplevel pos')) = gp_section pos \<and> 0 \<le> gp_index (snd (g3c_uplevel pos')) \<and>
    gp_up (snd (g3c_uplevel pos')) = gp_up pos"
proof -
  obtain i where i: "gp_index pos < i" "i \<le> int (length (s_sections (gp_section pos)))"
      "gp_section pos' = s_sections (gp_section pos) ! nat (i - 1)" "has_type name pos'"
      "g3c_uplevel pos' = (0, pos\<lparr>gp_index := i, gp_pindex := 0\<rparr>)"
    using nextn_uplevel[OF assms(1)] assms(2) by auto
  have "gp_section pos' \<in> set (s_sections (gp_section pos))"
    using i(1-3) assms(3) by simp
  then have ok: "sec_ok rul (gp_section pos')" using assms(4) by blast
  obtain t where t: "g3c_getvalue pos' ''type'' PT_STRING = Some (VStr t)" "strcaseeq t name"
    using i(4) by (auto simp: has_type_def split: option.splits g3c_value.splits)
  have "g3c_getvalue (at_section (gp_section pos')) ''type'' PT_STRING = Some (VStr t)"
    using t(1) by (simp add: g3c_getvalue_def at_section_def)
  moreover have "find_rule (value_text (VStr t)) rul = Some r"
    using find_rule_cong[OF t(2)] assms(5) by (simp add: value_text_def)
  ultimately have "\<forall>p \<in> set (r_params r). param_ok p (gp_section pos')" using ok by (auto simp: sec_ok_def)
  with i(1,5) assms(3) show ?thesis by simp
qed

text \<open>A string of at most \<open>hi\<close> characters; it is missing only when a call may fail.\<close>

definition fit :: "bool \<Rightarrow> int \<Rightarrow> string option \<Rightarrow> bool" where
  "fit nf hi v \<longleftrightarrow> (case v of None \<Rightarrow> \<not> nf | Some s \<Rightarrow> int (length s) \<le> hi)"

definition str_rule :: "ruleparam \<Rightarrow> bool" where
  "str_rule r \<longleftrightarrow> rp_type r = PT_STRING \<and> 0 \<le> rp_vmax r \<and> (rp_required r \<or> rp_defvalue r \<noteq> None)"

lemma string_fit:
  assumes "param_ok r (gp_section pos)" "str_rule r" "nf \<longrightarrow> no_faults w"
    and "g3c_string pos (rp_name r) w = (v, w')"
  shows "fit nf (rp_vmax r) v \<and> (nf \<longrightarrow> no_faults w')"
proof -
  obtain p where p: "section_param (gp_section pos) (rp_name r) = Some p" "fits r (p_value p)"
    using assms(1,2) by (auto simp: param_ok_def str_rule_def split: option.splits)
  obtain s where s: "p_value p = VStr s" "int (length s) \<le> rp_vmax r"
    using p(2) assms(2) by (cases "p_value p") (auto simp: fits_def in_rule_def str_rule_def value_type_def)
  obtain m u where m: "sys_alloc w = (m, u)" by fastforce
  have "g3c_getvalue pos (rp_name r) PT_STRING = Some (VStr s)"
    using p(1) s(1) by (simp add: g3c_getvalue_def value_type_def)
  with assms(4) m have v: "v = (if m then Some s else None)" "w' = u"
    by (auto simp: g3c_string_def g3c_allocvalue_def value_text_def)
  from m assms(3) have "nf \<longrightarrow> m \<and> no_faults u" by (auto dest: alloc_no_fault)
  with v s(2) show ?thesis by (auto simp: fit_def)
qed

lemma need_string:
  assumes "param_ok (need_str name hi) (gp_section pos)" "0 \<le> hi" "nf \<longrightarrow> no_faults w"
  obtains v w' where "g3c_string pos name w = (v, w')" "fit nf hi v" "nf \<longrightarrow> no_faults w'"
  using string_fit[of "need_str name hi" pos nf w] assms
  by (cases "g3c_string pos name w") (simp add: need_str_def rule_str_def str_rule_def)

definition conf_values :: "conf \<Rightarrow> (string option \<times> int) list" where
  "conf_values c = (cf_coreaddr c, 20) # map (\<lambda>f. (f c, 1024))
     [cf_workdir, cf_dbdir, cf_accfile, cf_logfile, cf_gatefile, cf_tariffile, cf_resfile, cf_logindex,
      cf_gatetemp, cf_gatelock, cf_updlock, cf_grantmask, cf_denymask, cf_applyscript, cf_intrascript,
      cf_newloginscript, cf_paymanframes, cf_paymanusers, cf_paymanlog]"

lemma load_ipc_ok:
  assumes ok: "\<forall>p \<in> set ipc_params. param_ok p (gp_section pos)" and nf: "nf \<longrightarrow> no_faults w"
  shows "\<exists>a i w'. load_ipc pos c w = Some (c\<lparr>cf_coreaddr := a, cf_coreport := i\<rparr>, w') \<and> fit nf 20 a \<and>
    1 \<le> i \<and> i \<le> 65535 \<and> (nf \<longrightarrow> no_faults w')"
proof -
  let ?r = "(rule_int ''core_port'' 65535)\<lparr>rp_required := True, rp_vmin := 1\<rparr>"
  have p: "param_ok (need_str ''core_addr'' 20) (gp_section pos)" "param_ok ?r (gp_section pos)"
    using ok by (simp_all add: ipc_params_def)
  obtain a v where s: "g3c_string pos ''core_addr'' w = (a, v)" "fit nf 20 a" "nf \<longrightarrow> no_faults v"
    using need_string[OF p(1) _ nf] by auto
  obtain q where q: "section_param (gp_section pos) ''core_port'' = Some q" "fits ?r (p_value q)"
    using p(2) by (auto simp: param_ok_def rule_int_def split: option.splits)
  then obtain i where i: "p_value q = VInt i" "1 \<le> i" "i \<le> 65535"
    by (cases "p_value q") (auto simp: fits_def in_rule_def value_type_def rule_int_def)
  have "g3c_integer pos ''core_port'' = Some i"
    using q(1) i(1) by (simp add: g3c_integer_def g3c_getvalue_def value_type_def value_int_def)
  with s i show ?thesis by (auto simp: load_ipc_def)
qed

lemma load_dirs_ok:
  assumes ok: "\<forall>p \<in> set dirs_params. param_ok p (gp_section pos)" and nf: "nf \<longrightarrow> no_faults w"
  shows "\<exists>a b w'. load_dirs pos c w = Some (c\<lparr>cf_workdir := a, cf_dbdir := b\<rparr>, w') \<and>
    (\<forall>x \<in> {a, b}. fit nf 1024 x) \<and> (nf \<longrightarrow> no_faults w')"
proof -
  have p: "param_ok (need_str ''workdir'' 1024) (gp_section pos)" "param_ok (need_str ''dbdir'' 1024) (gp_section pos)"
    using ok by (simp_all add: dirs_params_def)
  obtain a v where s: "g3c_string pos ''workdir'' w = (a, v)" "fit nf 1024 a" "nf \<longrightarrow> no_faults v"
    using need_string[OF p(1) _ nf] by auto
  obtain b u where t: "g3c_string pos ''dbdir'' v = (b, u)" "fit nf 1024 b" "nf \<longrightarrow> no_faults u"
    using need_string[OF p(2) _ s(3)] by auto
  show ?thesis by (intro exI[of _ a] exI[of _ b] exI[of _ u]) (use s t in \<open>simp add: load_dirs_def\<close>)
qed

text \<open>The loaders of three values.\<close>

lemma three_strings:
  assumes "\<forall>p \<in> set [need_str n1 1024, need_str n2 1024, need_str n3 1024]. param_ok p (gp_section pos)"
    and nf: "nf \<longrightarrow> no_faults w"
  shows "\<exists>a b d w'. (case g3c_string pos n1 w of (v1, w) \<Rightarrow> case g3c_string pos n2 w of (v2, w) \<Rightarrow>
      case g3c_string pos n3 w of (v3, w) \<Rightarrow> f v1 v2 v3 w) = f a b d w' \<and>
    (\<forall>x \<in> {a, b, d}. fit nf 1024 x) \<and> (nf \<longrightarrow> no_faults w')"
proof -
  have p: "param_ok (need_str n1 1024) (gp_section pos)" "param_ok (need_str n2 1024) (gp_section pos)"
      "param_ok (need_str n3 1024) (gp_section pos)"
    using assms(1) by simp_all
  obtain a v where s: "g3c_string pos n1 w = (a, v)" "fit nf 1024 a" "nf \<longrightarrow> no_faults v"
    using need_string[OF p(1) _ nf] by auto
  obtain b u where t: "g3c_string pos n2 v = (b, u)" "fit nf 1024 b" "nf \<longrightarrow> no_faults u"
    using need_string[OF p(2) _ s(3)] by auto
  obtain d z where r: "g3c_string pos n3 u = (d, z)" "fit nf 1024 d" "nf \<longrightarrow> no_faults z"
    using need_string[OF p(3) _ t(3)] by auto
  show ?thesis by (intro exI[of _ a] exI[of _ b] exI[of _ d] exI[of _ z]) (use s t r in simp)
qed

lemma load_core_ok:
  "\<forall>p \<in> set core_params. param_ok p (gp_section pos) \<Longrightarrow> nf \<longrightarrow> no_faults w \<Longrightarrow>
     \<exists>a b d w'. load_core pos c w = Some (c\<lparr>cf_applyscript := a, cf_intrascript := b, cf_newloginscript := d\<rparr>, w') \<and>
       (\<forall>x \<in> {a, b, d}. fit nf 1024 x) \<and> (nf \<longrightarrow> no_faults w')"
  unfolding load_core_def core_params_def by (rule three_strings)

lemma load_payman_ok:
  "\<forall>p \<in> set payman_params. param_ok p (gp_section pos) \<Longrightarrow> nf \<longrightarrow> no_faults w \<Longrightarrow>
     \<exists>a b d w'. load_payman pos c w = Some (c\<lparr>cf_paymanframes := a, cf_paymanusers := b, cf_paymanlog := d\<rparr>, w') \<and>
       (\<forall>x \<in> {a, b, d}. fit nf 1024 x) \<and> (nf \<longrightarrow> no_faults w')"
  unfolding load_payman_def payman_params_def by (rule three_strings)

lemma load_files_ok:
  assumes ok: "\<forall>p \<in> set files_params. param_ok p (gp_section pos)" and nf: "nf \<longrightarrow> no_faults w"
  shows "\<exists>v1 v2 v3 v4 v5 v6 v7 v8 v9 v10 v11 w'. load_files pos c w =
      Some (c\<lparr>cf_accfile := v1, cf_logfile := v2, cf_gatefile := v3, cf_tariffile := v4, cf_resfile := v5,
        cf_logindex := v6, cf_gatetemp := v7, cf_gatelock := v8, cf_updlock := v9, cf_grantmask := v10,
        cf_denymask := v11\<rparr>, w') \<and>
    (\<forall>x \<in> {v1, v2, v3, v4, v5, v6, v7, v8, v9, v10, v11}. fit nf 1024 x) \<and> (nf \<longrightarrow> no_faults w')"
proof -
  let ?g = "g3c_string pos"
  have str: "\<exists>v w'. ?g n w = (v, w') \<and> fit nf 1024 v \<and> (nf \<longrightarrow> no_faults w')"
    if "need_str n 1024 \<in> set files_params" "nf \<longrightarrow> no_faults w" for n and w :: "'a os_scheme"
    using need_string[of n 1024 pos nf w] ok that by (metis zero_le_numeral)
  obtain v1 w1 where 1: "?g ''accfile'' w = (v1, w1)" "fit nf 1024 v1" "nf \<longrightarrow> no_faults w1"
    using str[OF _ nf, of "''accfile''"] by (auto simp: files_params_def)
  obtain v2 w2 where 2: "?g ''logfile'' w1 = (v2, w2)" "fit nf 1024 v2" "nf \<longrightarrow> no_faults w2"
    using str[OF _ 1(3), of "''logfile''"] by (auto simp: files_params_def)
  obtain v3 w3 where 3: "?g ''gatefile'' w2 = (v3, w3)" "fit nf 1024 v3" "nf \<longrightarrow> no_faults w3"
    using str[OF _ 2(3), of "''gatefile''"] by (auto simp: files_params_def)
  obtain v4 w4 where 4: "?g ''tariffile'' w3 = (v4, w4)" "fit nf 1024 v4" "nf \<longrightarrow> no_faults w4"
    using str[OF _ 3(3), of "''tariffile''"] by (auto simp: files_params_def)
  obtain v5 w5 where 5: "?g ''resfile'' w4 = (v5, w5)" "fit nf 1024 v5" "nf \<longrightarrow> no_faults w5"
    using str[OF _ 4(3), of "''resfile''"] by (auto simp: files_params_def)
  obtain v6 w6 where 6: "?g ''logindex'' w5 = (v6, w6)" "fit nf 1024 v6" "nf \<longrightarrow> no_faults w6"
    using str[OF _ 5(3), of "''logindex''"] by (auto simp: files_params_def)
  obtain v7 w7 where 7: "?g ''gatetemp'' w6 = (v7, w7)" "fit nf 1024 v7" "nf \<longrightarrow> no_faults w7"
    using str[OF _ 6(3), of "''gatetemp''"] by (auto simp: files_params_def)
  obtain v8 w8 where 8: "?g ''gatelock'' w7 = (v8, w8)" "fit nf 1024 v8" "nf \<longrightarrow> no_faults w8"
    using str[OF _ 7(3), of "''gatelock''"] by (auto simp: files_params_def)
  obtain v9 w9 where 9: "?g ''updlock'' w8 = (v9, w9)" "fit nf 1024 v9" "nf \<longrightarrow> no_faults w9"
    using str[OF _ 8(3), of "''updlock''"] by (auto simp: files_params_def)
  obtain v10 w10 where 10: "?g ''grantfile_mask'' w9 = (v10, w10)" "fit nf 1024 v10" "nf \<longrightarrow> no_faults w10"
    using str[OF _ 9(3), of "''grantfile_mask''"] by (auto simp: files_params_def)
  obtain v11 w11 where 11: "?g ''denyfile_mask'' w10 = (v11, w11)" "fit nf 1024 v11" "nf \<longrightarrow> no_faults w11"
    using str[OF _ 10(3), of "''denyfile_mask''"] by (auto simp: files_params_def)
  have "load_files pos c w = Some (c\<lparr>cf_accfile := v1, cf_logfile := v2, cf_gatefile := v3, cf_tariffile := v4,
      cf_resfile := v5, cf_logindex := v6, cf_gatetemp := v7, cf_gatelock := v8, cf_updlock := v9,
      cf_grantmask := v10, cf_denymask := v11\<rparr>, w11)"
    unfolding load_files_def 1(1) prod.case 2(1) 3(1) 4(1) 5(1) 6(1) 7(1) 8(1) 9(1) 10(1) 11(1) by (rule refl)
  moreover have "\<forall>x \<in> {v1, v2, v3, v4, v5, v6, v7, v8, v9, v10, v11}. fit nf 1024 x"
    using 1(2) 2(2) 3(2) 4(2) 5(2) 6(2) 7(2) 8(2) 9(2) 10(2) 11(2) by simp
  ultimately show ?thesis using 11(3) by (intro exI conjI)
qed

section \<open>A loaded configuration is valid\<close>

fun chain :: "('b \<Rightarrow> 'b \<Rightarrow> bool) list \<Rightarrow> 'b \<Rightarrow> 'b \<Rightarrow> bool" where
  "chain [] c d \<longleftrightarrow> c = d"
| "chain (R # Rs) c d \<longleftrightarrow> (\<exists>e. R c e \<and> chain Rs e d)"

text \<open>A loader that does what \<open>R\<close> says on every section that satisfies its rules.\<close>

definition loads :: "bool \<Rightarrow> string \<times> 'a conf_loader \<Rightarrow> (conf \<Rightarrow> conf \<Rightarrow> bool) \<Rightarrow> bool" where
  "loads nf nl R \<longleftrightarrow> (\<exists>r. find_rule (fst nl) conf_rules = Some r \<and>
     (\<forall>pos c w. (\<forall>p \<in> set (r_params r). param_ok p (gp_section pos)) \<longrightarrow> (nf \<longrightarrow> no_faults w) \<longrightarrow>
       (\<exists>d w'. snd nl pos c w = Some (d, w') \<and> R c d \<and> (nf \<longrightarrow> no_faults w'))))"

lemma load_sections_chain:
  assumes "list_all2 (loads nf) ls Rs" "\<forall>sub \<in> set (s_sections (gp_section pos)). sec_ok conf_rules sub"
    and "0 \<le> gp_index pos" "nf \<longrightarrow> no_faults w" "length (gp_up pos) < G3C_DEPTH"
  shows "\<exists>rc d w'. load_sections ls pos c w = Some (rc, d, w') \<and> (rc = 0 \<and> chain Rs c d \<or> rc = - 1)"
  using assms
proof (induction ls Rs arbitrary: pos c w rule: list_all2_induct)
  case Nil
  then show ?case by simp
next
  case (Cons nl ls R Rs)
  obtain name load where nl: "nl = (name, load)" by fastforce
  obtain rc p where n: "g3c_nextn name pos = Some (rc, p)" using nextn_room[OF Cons.prems(4)] by blast
  from Cons.hyps(1) obtain r where r: "find_rule name conf_rules = Some r"
      "\<forall>pos c w. (\<forall>p \<in> set (r_params r). param_ok p (gp_section pos)) \<longrightarrow> (nf \<longrightarrow> no_faults w) \<longrightarrow>
        (\<exists>d w'. load pos c w = Some (d, w') \<and> R c d \<and> (nf \<longrightarrow> no_faults w'))"
    by (auto simp: loads_def nl)
  show ?case
  proof (cases "rc < 0")
    case True
    with n nl show ?thesis by simp
  next
    case False
    note f = found_section[OF n False Cons.prems(2,1) r(1)]
    obtain d v where l: "load p c w = Some (d, v)" "R c d" "nf \<longrightarrow> no_faults v"
      using r(2) f Cons.prems(3) by blast
    from f Cons.prems(1) have "\<forall>sub \<in> set (s_sections (gp_section (snd (g3c_uplevel p)))). sec_ok conf_rules sub"
      by simp
    from Cons.IH[OF this _ l(3), of d] f Cons.prems(4)
    obtain rc' e u where "load_sections ls (snd (g3c_uplevel p)) d v = Some (rc', e, u)"
        "rc' = 0 \<and> chain Rs d e \<or> rc' = - 1" by auto
    with n nl False l show ?thesis by auto
  qed
qed

lemma conf_rules_ok: "rules_ok conf_rules"
  by (simp add: rules_ok_def conf_rules_def main_defs_def ipc_params_def dirs_params_def files_params_def
      core_params_def payman_params_def need_str_def rule_str_def rule_int_def default_ok_def tolower_def)

lemma conf_find_rule:
  "find_rule ''ipc'' conf_rules = Some (RuleSec (Some ''ipc'') ipc_params [] False False)"
  "find_rule ''dirs'' conf_rules = Some (RuleSec (Some ''dirs'') dirs_params [] False False)"
  "find_rule ''files'' conf_rules = Some (RuleSec (Some ''files'') files_params [] False False)"
  "find_rule ''core'' conf_rules = Some (RuleSec (Some ''core'') core_params [] False False)"
  "find_rule ''payman'' conf_rules = Some (RuleSec (Some ''payman'') payman_params [] False False)"
  by (simp_all add: conf_rules_def strcaseeq_def tolower_def)

text \<open>What each section leaves in the configuration.\<close>

definition ipc_loaded :: "bool \<Rightarrow> conf \<Rightarrow> conf \<Rightarrow> bool" where
  "ipc_loaded nf c d \<longleftrightarrow> (\<exists>a i. d = c\<lparr>cf_coreaddr := a, cf_coreport := i\<rparr> \<and> fit nf 20 a \<and> 1 \<le> i \<and> i \<le> 65535)"

definition dirs_loaded :: "bool \<Rightarrow> conf \<Rightarrow> conf \<Rightarrow> bool" where
  "dirs_loaded nf c d \<longleftrightarrow> (\<exists>a b. d = c\<lparr>cf_workdir := a, cf_dbdir := b\<rparr> \<and> (\<forall>x \<in> {a, b}. fit nf 1024 x))"

definition files_loaded :: "bool \<Rightarrow> conf \<Rightarrow> conf \<Rightarrow> bool" where
  "files_loaded nf c d \<longleftrightarrow> (\<exists>v1 v2 v3 v4 v5 v6 v7 v8 v9 v10 v11. d = c\<lparr>cf_accfile := v1, cf_logfile := v2,
     cf_gatefile := v3, cf_tariffile := v4, cf_resfile := v5, cf_logindex := v6, cf_gatetemp := v7,
     cf_gatelock := v8, cf_updlock := v9, cf_grantmask := v10, cf_denymask := v11\<rparr> \<and>
     (\<forall>x \<in> {v1, v2, v3, v4, v5, v6, v7, v8, v9, v10, v11}. fit nf 1024 x))"

definition core_loaded :: "bool \<Rightarrow> conf \<Rightarrow> conf \<Rightarrow> bool" where
  "core_loaded nf c d \<longleftrightarrow> (\<exists>a b e. d = c\<lparr>cf_applyscript := a, cf_intrascript := b, cf_newloginscript := e\<rparr> \<and>
     (\<forall>x \<in> {a, b, e}. fit nf 1024 x))"

definition payman_loaded :: "bool \<Rightarrow> conf \<Rightarrow> conf \<Rightarrow> bool" where
  "payman_loaded nf c d \<longleftrightarrow> (\<exists>a b e. d = c\<lparr>cf_paymanframes := a, cf_paymanusers := b, cf_paymanlog := e\<rparr> \<and>
     (\<forall>x \<in> {a, b, e}. fit nf 1024 x))"

lemma load_ipc_loads:
  assumes "\<forall>p \<in> set ipc_params. param_ok p (gp_section pos)" "nf \<longrightarrow> no_faults w"
  shows "\<exists>d w'. load_ipc pos c w = Some (d, w') \<and> ipc_loaded nf c d \<and> (nf \<longrightarrow> no_faults w')"
  using load_ipc_ok[OF assms, of c] unfolding ipc_loaded_def
  by (elim exE conjE) (intro exI conjI, assumption, rule refl, assumption+)

lemma load_dirs_loads:
  assumes "\<forall>p \<in> set dirs_params. param_ok p (gp_section pos)" "nf \<longrightarrow> no_faults w"
  shows "\<exists>d w'. load_dirs pos c w = Some (d, w') \<and> dirs_loaded nf c d \<and> (nf \<longrightarrow> no_faults w')"
  using load_dirs_ok[OF assms, of c] unfolding dirs_loaded_def
  by (elim exE conjE) (intro exI conjI, assumption, rule refl, assumption+)

lemma load_files_loads:
  assumes "\<forall>p \<in> set files_params. param_ok p (gp_section pos)" "nf \<longrightarrow> no_faults w"
  shows "\<exists>d w'. load_files pos c w = Some (d, w') \<and> files_loaded nf c d \<and> (nf \<longrightarrow> no_faults w')"
  using load_files_ok[OF assms, of c] unfolding files_loaded_def
  by (elim exE conjE) (intro exI conjI, assumption, rule refl, assumption+)

lemma load_core_loads:
  assumes "\<forall>p \<in> set core_params. param_ok p (gp_section pos)" "nf \<longrightarrow> no_faults w"
  shows "\<exists>d w'. load_core pos c w = Some (d, w') \<and> core_loaded nf c d \<and> (nf \<longrightarrow> no_faults w')"
  using load_core_ok[OF assms, of c] unfolding core_loaded_def
  by (elim exE conjE) (intro exI conjI, assumption, rule refl, assumption+)

lemma load_payman_loads:
  assumes "\<forall>p \<in> set payman_params. param_ok p (gp_section pos)" "nf \<longrightarrow> no_faults w"
  shows "\<exists>d w'. load_payman pos c w = Some (d, w') \<and> payman_loaded nf c d \<and> (nf \<longrightarrow> no_faults w')"
  using load_payman_ok[OF assms, of c] unfolding payman_loaded_def
  by (elim exE conjE) (intro exI conjI, assumption, rule refl, assumption+)

lemma loadsI:
  "find_rule name conf_rules = Some r \<Longrightarrow>
     (\<And>pos c w. \<forall>p \<in> set (r_params r). param_ok p (gp_section pos) \<Longrightarrow> nf \<longrightarrow> no_faults w \<Longrightarrow>
       \<exists>d w'. load pos c w = Some (d, w') \<and> R c d \<and> (nf \<longrightarrow> no_faults w')) \<Longrightarrow>
     loads nf (name, load) R"
  by (simp add: loads_def)

lemma conf_loaders:
  "loads nf (''ipc'', load_ipc) (ipc_loaded nf)"
  "loads nf (''dirs'', load_dirs) (dirs_loaded nf)"
  "loads nf (''files'', load_files) (files_loaded nf)"
  "loads nf (''core'', load_core) (core_loaded nf)"
  "loads nf (''payman'', load_payman) (payman_loaded nf)"
  by (rule loadsI[OF conf_find_rule(1)], unfold rulesec.sel, erule (1) load_ipc_loads)
     (rule loadsI[OF conf_find_rule(2)], unfold rulesec.sel, erule (1) load_dirs_loads,
      rule loadsI[OF conf_find_rule(3)], unfold rulesec.sel, erule (1) load_files_loads,
      rule loadsI[OF conf_find_rule(4)], unfold rulesec.sel, erule (1) load_core_loads,
      rule loadsI[OF conf_find_rule(5)], unfold rulesec.sel, erule (1) load_payman_loads)

definition conf_ok :: "bool \<Rightarrow> conf \<Rightarrow> bool" where
  "conf_ok nf c \<longleftrightarrow> 1 \<le> cf_coreport c \<and> cf_coreport c \<le> 65535 \<and> (\<forall>(v, hi) \<in> set (conf_values c). fit nf hi v)"

lemma conf_chain_ok:
  "chain [ipc_loaded nf, dirs_loaded nf, files_loaded nf, core_loaded nf, payman_loaded nf] c d \<Longrightarrow> conf_ok nf d"
  unfolding chain.simps ipc_loaded_def dirs_loaded_def files_loaded_def core_loaded_def payman_loaded_def
  by (elim exE conjE, hypsubst_thin) (simp add: conf_ok_def conf_values_def)

section \<open>Reading a file without faults\<close>

lemma read_nf: "no_faults w \<Longrightarrow> sys_read fd n w = (rc, bs, w') \<Longrightarrow> no_faults w'"
  by (auto simp: sys_read_def next_outcome_no_faults no_faults_def set_pos_def split: option.splits)

lemma load_loop_nf: "no_faults w \<Longrightarrow> no_faults (snd (load_loop fd n got w))"
proof (induction fd n got w rule: load_loop.induct)
  case (1 fd n got w)
  obtain rc bs v where r: "sys_read fd (n - length got) w = (rc, bs, v)" by (metis prod_cases3)
  with read_nf[OF 1(2) r] 1(1)[of "(rc, bs, v)" "got @ bs"] show ?case
    by (simp add: load_loop.simps[of fd n got w] Let_def)
qed

lemma file_load_nf: "no_faults w \<Longrightarrow> g3c_file_load spec w = (rc, s, w') \<Longrightarrow> no_faults w'"
proof -
  assume nf: "no_faults w" and l: "g3c_file_load spec w = (rc, s, w')"
  obtain fd w1 where o: "sys_open spec True w = (fd, w1)" by fastforce
  have n1: "no_faults w1" using o nf
    by (auto simp: sys_open_def next_outcome_no_faults no_faults_def split: if_splits)
  have cl: "no_faults v \<Longrightarrow> no_faults (snd (sys_close fd v))" for v :: "'a os_scheme"
    by (auto simp: sys_close_def no_faults_def split: option.splits)
  obtain n w2 where st: "sys_fstat fd (set_lock fd LOCK_EX w1) = (n, w2)" by fastforce
  have n2: "no_faults w2" using st n1 by (auto simp: sys_fstat_def no_faults_def next_outcome_def)
  obtain m w3 where al: "sys_alloc w2 = (m, w3)" by fastforce
  then have n3: "no_faults w3" using alloc_no_fault[OF n2] by blast
  have n4: "load_loop fd k [] w3 = (b, w4) \<Longrightarrow> no_faults w4" for k b w4
    using load_loop_nf[OF n3, of fd k "[]"] by simp
  show ?thesis using l o st al n1 n2 n3 by (auto simp: g3c_file_load_def split: if_splits option.splits prod.splits dest: n4 intro: cl)
qed

lemma conf_load_ok:
  "\<exists>rc d w'. conf_load file c w = Some (rc, d, w') \<and> (rc = - 1 \<or> rc = 0 \<and> conf_ok (no_faults w) d)"
proof -
  let ?f = "case file of None \<Rightarrow> default_conf | Some f \<Rightarrow> f"
  obtain spec w1 where a: "strnalloc (Some ?f) 0 w = (spec, w1)" by fastforce
  then have n1: "no_faults w \<longrightarrow> no_faults w1"
    by (auto simp: strnalloc_def split: prod.splits dest: alloc_no_fault)
  show ?thesis
  proof (cases spec)
    case None
    with a show ?thesis by (simp add: conf_load_def)
  next
    case (Some f)
    obtain rc cs w2 where l: "g3c_file_load f w1 = (rc, cs, w2)" by (metis prod_cases3)
    obtain rp s w3 where p: "g3c_parse cs conf_rules w2 = (rp, s, w3)" by (metis prod_cases3)
    show ?thesis
    proof (cases "rc \<noteq> 0 \<or> s = None")
      case True
      with a Some l p show ?thesis by (auto simp: conf_load_def)
    next
      case False
      then obtain pss where s: "s = Some pss" by auto
      from parse_checked[OF p[unfolded s] conf_rules_ok] file_load_nf[OF _ l] n1
      have ok: "\<forall>sub \<in> set (s_sections (gp_section (at_section pss))). sec_ok conf_rules sub"
          "no_faults w \<longrightarrow> no_faults w3"
        by (auto simp: at_section_def)
      have "list_all2 (loads (no_faults w)) conf_sections
          [ipc_loaded (no_faults w), dirs_loaded (no_faults w), files_loaded (no_faults w),
           core_loaded (no_faults w), payman_loaded (no_faults w)]"
        by (simp add: conf_sections_def conf_loaders)
      from load_sections_chain[OF this ok(1) _ ok(2), of c, simplified at_section_def] conf_chain_ok a Some l p s False
      show ?thesis by (fastforce simp: conf_load_def at_section_def)
    qed
  qed
qed

definition cfg_values :: "config_t \<Rightarrow> (string option \<times> int) list" where
  "cfg_values c = [(DBtype c, 8), (DBhost c, 64), (DBlogin c, 16), (DBpass c, 32), (DBname c, 16), (DBscripts c, 256)]"

lemma cfg_rules_ok: "rules_ok cfg_rules"
  by (simp add: rules_ok_def cfg_rules_def sql_rules_def opt_str_def need_str_def rule_str_def default_ok_def
      fits_def in_rule_def value_type_def tolower_def)

lemma sql_str_rules: "\<forall>r \<in> set sql_rules. str_rule r"
  by (simp add: sql_rules_def opt_str_def need_str_def rule_str_def str_rule_def)

lemma load_sql_ok:
  assumes ok: "\<forall>r \<in> set sql_rules. param_ok r (gp_section pos)" and nf: "nf \<longrightarrow> no_faults w"
  shows "\<forall>(v, hi) \<in> set (cfg_values (fst (load_sql pos w))). fit nf hi v"
proof -
  have r: "\<exists>v w'. g3c_string pos n w = (v, w') \<and> fit nf hi v \<and> (nf \<longrightarrow> no_faults w')"
    if mem: "(n, hi) \<in> set (map (\<lambda>r. (rp_name r, rp_vmax r)) sql_rules)" and wnf: "nf \<longrightarrow> no_faults w"
    for n hi and w :: "'a os_scheme"
  proof -
    obtain r where r: "r \<in> set sql_rules" "n = rp_name r" "hi = rp_vmax r" using mem by auto
    obtain v w' where s: "g3c_string pos n w = (v, w')" by fastforce
    with string_fit[of r pos nf w v w'] r ok sql_str_rules wnf show ?thesis by auto
  qed
  have m: "map (\<lambda>r. (rp_name r, rp_vmax r)) sql_rules = [(''sqltype'', 8), (''hostname'', 64), (''login'', 16),
      (''password'', 32), (''dbname'', 16), (''scripts'', 256)]"
    by (simp add: sql_rules_def opt_str_def need_str_def rule_str_def)
  obtain v1 w1 where 1: "g3c_string pos ''sqltype'' w = (v1, w1)" "fit nf 8 v1" "nf \<longrightarrow> no_faults w1"
    using r[OF _ nf, of "''sqltype''" 8] by (auto simp: m)
  obtain v2 w2 where 2: "g3c_string pos ''hostname'' w1 = (v2, w2)" "fit nf 64 v2" "nf \<longrightarrow> no_faults w2"
    using r[OF _ 1(3), of "''hostname''" 64] by (auto simp: m)
  obtain v3 w3 where 3: "g3c_string pos ''login'' w2 = (v3, w3)" "fit nf 16 v3" "nf \<longrightarrow> no_faults w3"
    using r[OF _ 2(3), of "''login''" 16] by (auto simp: m)
  obtain v4 w4 where 4: "g3c_string pos ''password'' w3 = (v4, w4)" "fit nf 32 v4" "nf \<longrightarrow> no_faults w4"
    using r[OF _ 3(3), of "''password''" 32] by (auto simp: m)
  obtain v5 w5 where 5: "g3c_string pos ''dbname'' w4 = (v5, w5)" "fit nf 16 v5" "nf \<longrightarrow> no_faults w5"
    using r[OF _ 4(3), of "''dbname''" 16] by (auto simp: m)
  obtain v6 w6 where 6: "g3c_string pos ''scripts'' w5 = (v6, w6)" "fit nf 256 v6" "nf \<longrightarrow> no_faults w6"
    using r[OF _ 5(3), of "''scripts''" 256] by (auto simp: m)
  show ?thesis using 1 2 3 4 5 6 by (simp add: load_sql_def cfg_values_def)
qed

text \<open>A file that was loaded, parsed and whose tree begins the search for sections.\<close>

lemma spec_nf: "strnalloc (Some f) 0 w = (spec, w') \<Longrightarrow> no_faults w \<longrightarrow> no_faults w'"
  by (auto simp: strnalloc_def split: prod.splits dest: alloc_no_fault)

lemma cfg_load_ok:
  "\<exists>rc d w'. cfg_load file c w = Some (rc, d, w') \<and>
     (rc = - 1 \<or> rc = 0 \<and> (\<forall>(v, hi) \<in> set (cfg_values d). fit (no_faults w) hi v))"
proof -
  let ?f = "case file of None \<Rightarrow> default_conf | Some f \<Rightarrow> f"
  obtain spec w1 where a: "strnalloc (Some ?f) 0 w = (spec, w1)" by fastforce
  show ?thesis
  proof (cases spec)
    case None
    with a show ?thesis by (simp add: cfg_load_def)
  next
    case (Some f)
    obtain rc cs w2 where l: "g3c_file_load f w1 = (rc, cs, w2)" by (metis prod_cases3)
    obtain rp s w3 where p: "g3c_parse cs cfg_rules w2 = (rp, s, w3)" by (metis prod_cases3)
    show ?thesis
    proof (cases "rc \<noteq> 0 \<or> s = None")
      case True
      with a Some l p show ?thesis by (auto simp: cfg_load_def)
    next
      case False
      then obtain pss where s: "s = Some pss" by auto
      from parse_checked[OF p[unfolded s] cfg_rules_ok] file_load_nf[OF _ l] spec_nf[OF a]
      have ok: "\<forall>sub \<in> set (s_sections (gp_section (at_section pss))). sec_ok cfg_rules sub" "no_faults w \<longrightarrow> no_faults w3"
        by (auto simp: at_section_def)
      obtain rn pos where n: "g3c_nextn ''sql'' (at_section pss) = Some (rn, pos)"
        using nextn_room[of "at_section pss" "''sql''"] by (auto simp: at_section_def)
      have r: "find_rule ''sql'' cfg_rules = Some (RuleSec (Some ''sql'') sql_rules [] False False)"
        by (simp add: cfg_rules_def strcaseeq_def tolower_def)
      show ?thesis
      proof (cases "rn < 0")
        case True
        with a Some l p s n False show ?thesis by (simp add: cfg_load_def)
      next
        case no: False
        from found_section[OF n no _ ok(1) r] load_sql_ok[OF _ ok(2), of pos]
        have "\<forall>(v, hi) \<in> set (cfg_values (fst (load_sql pos w3))). fit (no_faults w) hi v"
          by (simp add: at_section_def)
        with a Some l p s n no False show ?thesis
          by (cases "load_sql pos w3") (simp add: cfg_load_def)
      qed
    qed
  qed
qed

text \<open>
  C40: Loading the configuration never reads through a null pointer, whatever the file contains and
  whatever calls fail: it fails, or the port is one, every string has at most the size its rule gives, and on a
  machine without faults none is missing.  The same holds of the SQL settings.\<close>

theorem conf_load_valid:
  "(\<exists>rc d w'. conf_load file c w = Some (rc, d, w') \<and> (rc = - 1 \<or> rc = 0 \<and> conf_ok (no_faults w) d)) \<and>
   (\<exists>rc d w'. cfg_load file s w = Some (rc, d, w') \<and>
     (rc = - 1 \<or> rc = 0 \<and> list_all (\<lambda>(v, hi). fit (no_faults w) hi v) (cfg_values d)))"
  using conf_load_ok[of "file" c w] cfg_load_ok[of "file" s w] by (simp add: list_all_iff)

end
