(* ===== verification/Getopt.thy ===== *)
theory Getopt
  imports Conf
begin

text \<open>
  The command line of the programs: \<open>getopt\<close> of the C library as the sources use it (all options of the
  command line in a row), the options of a program as a step over its settings, and the configuration
  as the programs see it after \<open>conf_load\<close>.
\<close>

lemma sum_list_tl: "xs \<noteq> [] \<Longrightarrow> sum_list (map f xs) = (f (hd xs) :: nat) + sum_list (map f (tl xs))"
  by (cases xs) auto

text \<open>Whether an option of the list takes an argument; \<open>None\<close> when it is unknown.\<close>

fun option_arg :: "string \<Rightarrow> char \<Rightarrow> bool option" where
  "option_arg [] c = None"
| "option_arg (a # s) c =
     (if a = c \<and> c \<noteq> CHR '':'' then Some (s \<noteq> [] \<and> hd s = CHR '':'') else option_arg s c)"

text \<open>
  The options with their arguments (\<open>optarg\<close>), from what is left of the current cluster and the
  arguments behind it; an unknown option or a missing argument is a question mark.
\<close>

function getopt :: "string \<Rightarrow> string \<Rightarrow> string list \<Rightarrow> (char \<times> string) list" where
  "getopt opts [] [] = []"
| "getopt opts [] (a # args) =
     (if a \<noteq> [] \<and> hd a = CHR ''-'' \<and> tl a \<noteq> [] \<and> hd (tl a) \<noteq> CHR ''-'' then getopt opts (tl a) args else [])"
| "getopt opts (c # p) args = (case option_arg opts c of
      None \<Rightarrow> if c = CHR ''-'' then [] else (CHR ''?'', []) # getopt opts p args
    | Some False \<Rightarrow> (c, []) # getopt opts p args
    | Some True \<Rightarrow>
        if p \<noteq> [] then (c, p) # getopt opts [] args
        else if args = [] then [(CHR ''?'', [])]
        else (c, hd args) # getopt opts [] (tl args))"
  by pat_completeness auto
termination
  by (relation "measure (\<lambda>(_, p, args). length p + sum_list (map (\<lambda>a. length a + 1) args))")
     (auto simp: sum_list_tl)

text \<open>
  The loop over the options: \<open>step\<close> is the switch of the program, whose default case is \<open>usage\<close>, which
  ends the program (\<open>None\<close>).
\<close>

fun option_loop :: "(char \<times> string \<Rightarrow> 's \<Rightarrow> 's option) \<Rightarrow> (char \<times> string) list \<Rightarrow> 's \<Rightarrow> 's option" where
  "option_loop step [] s = Some s"
| "option_loop step (x # xs) s = Option.bind (step x s) (option_loop step xs)"

text \<open>The global variables of the libraries after a configuration was loaded; an unset name is empty.\<close>

definition c_name :: "string option \<Rightarrow> string" where
  "c_name s = (case s of None \<Rightarrow> [] | Some n \<Rightarrow> n)"

definition use_gate_conf :: "conf \<Rightarrow> 'a gates_scheme \<Rightarrow> 'a gates_scheme" where
  "use_gate_conf c w = w\<lparr>conf_gatefile := c_name (cf_gatefile c), conf_gatetemp := c_name (cf_gatetemp c),
     conf_gatelock := c_name (cf_gatelock c)\<rparr>"

definition use_access_conf :: "conf \<Rightarrow> 'a access_scheme \<Rightarrow> 'a access_scheme" where
  "use_access_conf c w = (use_gate_conf c w)\<lparr>conf_updlock := c_name (cf_updlock c),
     conf_grantmask := c_name (cf_grantmask c), conf_denymask := c_name (cf_denymask c),
     conf_applyscript := c_name (cf_applyscript c)\<rparr>"

end
