(* ===== verification/Clients.thy ===== *)
theory Clients
  imports Getopt Traffic
begin

text \<open>
  The clients of the billing that hold one conversation with it: connecting, the commands that
  follow, and the small utilities \<open>acc_on\<close>, \<open>acc_off\<close>, \<open>ip2acc\<close> and \<open>getacc2\<close> (\<open>src/src/bee/utils\<close>).
  The state is that of the client's end of the connection (\<open>Ipc\<close>): \<open>inbox\<close> holds what the billing will
  answer.  A program yields its exit status and what it prints; messages to the system log and to
  the standard error output are left out.
\<close>

section \<open>Conversations\<close>

text \<open>\<open>link_request\<close>: the connection itself is part of the state, only its failure is an outcome.\<close>

definition link_request :: "'a ipc_scheme \<Rightarrow> int \<times> 'a ipc_scheme" where
  "link_request w = (case next_outcome w of (x, w) \<Rightarrow>
     if x = Fail then (- 1, w) else (0, w\<lparr>ld_fStdio := False\<rparr>))"

text \<open>\<open>link_puts(&lnk, fmt, ...)\<close> with arguments, whose result the clients ignore.\<close>

definition link_printf :: "string \<Rightarrow> arg list \<Rightarrow> 'a ipc_scheme \<Rightarrow> 'a ipc_scheme" where
  "link_printf fmt args w = snd (send_line (printf fmt args) w)"

definition bee_request :: "string \<Rightarrow> arg list \<Rightarrow> int \<Rightarrow> 'a ipc_scheme \<Rightarrow> int \<times> string option \<times> 'a ipc_scheme" where
  "bee_request fmt args event w = answait event 128 (link_printf fmt args w)"

text \<open>Connecting: the greeting, then the command \<open>machine\<close>; whether both succeeded.\<close>

definition bee_connect :: "'a ipc_scheme \<Rightarrow> bool \<times> 'a ipc_scheme" where
  "bee_connect w = (case link_request w of (rc, w) \<Rightarrow>
     if rc = - 1 then (False, w)
     else (case answait RET_SUCCESS 128 w of (rc, _, w) \<Rightarrow>
       if rc \<noteq> RET_SUCCESS then (False, w)
       else (case bee_request ''machine'' [] RET_SUCCESS w of (rc, _, w) \<Rightarrow> (rc = RET_SUCCESS, w))))"

section \<open>The small utilities\<close>

text \<open>\<open>acc_on\<close> and \<open>acc_off\<close>, which differ in the command only.  \<open>args\<close> are the arguments behind the program name.\<close>

definition acc_switch :: "string \<Rightarrow> string list \<Rightarrow> 'a ipc_scheme \<Rightarrow> int \<times> 'a ipc_scheme" where
  "acc_switch fmt args w =
     (if args = [] then (- 1, w)
      else (case bee_connect w of (ok, w) \<Rightarrow>
        if \<not> ok then (- 1, w)
        else (case bee_request fmt [AS (hd args)] RET_STR w of (rc, _, w) \<Rightarrow>
          if rc \<noteq> RET_SUCCESS then (- 1, w)
          else (case bee_request ''update'' [] RET_SUCCESS w of (rc, _, w) \<Rightarrow>
            if rc \<noteq> RET_SUCCESS then (- 1, w) else (0, link_printf ''exit'' [] w)))))"

definition acc_on :: "string list \<Rightarrow> 'a ipc_scheme \<Rightarrow> int \<times> 'a ipc_scheme" where
  "acc_on args w = acc_switch ''on inet name %s'' args w"

definition acc_off :: "string list \<Rightarrow> 'a ipc_scheme \<Rightarrow> int \<times> 'a ipc_scheme" where
  "acc_off args w = acc_switch ''off inet name %s'' args w"

definition BLANKS :: string where
  "BLANKS = [CHR '' '', CHR 0x09]"

definition ip2acc :: "string list \<Rightarrow> 'a ipc_scheme \<Rightarrow> int \<times> string \<times> 'a ipc_scheme" where
  "ip2acc args w =
     (if args = [] then (- 1, ''-1'', w)
      else (case bee_connect w of (ok, w) \<Rightarrow>
        if \<not> ok then (- 1, ''-1'', w)
        else (case bee_request ''acc inet name %s'' [AS (hd args)] RET_STR w of (rc, msg, w) \<Rightarrow>
          if rc \<noteq> RET_STR \<and> rc < 400 then (- 1, ''-1'', w)
          else (let out = (if rc = RET_STR
                           then (case fst (next_token msg BLANKS) of
                               None \<Rightarrow> ''-1''
                             | Some str \<Rightarrow> printf ''%ld'' [AI (fst (strtol str 10))])
                           else ''-1'')
                in (0, out, link_printf ''exit'' [] w)))))"

text \<open>
  \<open>getacc2\<close>: the seven fields of an account in machine format; the balance in hundredths and the limit
  as integers.  A conversion that does not fit an \<open>int\<close> is undefined in C; the target stores \<open>-2^31\<close>.
\<close>

definition BEE_ERROR :: string where
  "BEE_ERROR = ''-54 Bee error'' @ [CHR 0x0A]"

fun fields :: "nat \<Rightarrow> ptr \<Rightarrow> string list option" where
  "fields 0 p = Some []"
| "fields (Suc n) p = (case next_token p BLANKS of
      (None, _) \<Rightarrow> None
    | (Some str, p) \<Rightarrow> map_option (\<lambda>r. str # r) (fields n p))"

definition to_c_int :: "double \<Rightarrow> int" where
  "to_c_int d = (case d_trunc d of None \<Rightarrow> - (2 ^ 31) | Some i \<Rightarrow> if in_i32 i then i else - (2 ^ 31))"

definition getacc2_line :: "ptr \<Rightarrow> string" where
  "getacc2_line msg = (case fields 7 msg of
      Some [acc, tag, balance, start, stop, tariff, limit] \<Rightarrow>
        printf ''%d %d %d %d %d %d %d'' [AI (fst (strtol acc 10)), AI (fst (strtol tag 10)),
            AI (to_c_int (dmul (atof balance) (d_of_int 100))), AI (fst (strtol start 10)), AI (fst (strtol stop 10)),
            AI (fst (strtol tariff 10)), AI (to_c_int (atof limit))] @ [CHR 0x0A]
    | _ \<Rightarrow> BEE_ERROR)"

definition getacc2 :: "string list \<Rightarrow> 'a ipc_scheme \<Rightarrow> int \<times> string \<times> 'a ipc_scheme" where
  "getacc2 args w =
     (if args = [] then (- 1, ''-51 Not enough argumets'' @ [CHR 0x0A], w)
      else (case link_request w of (rc, w) \<Rightarrow>
        if rc = - 1 then (- 1, ''-52 Can't connect to bee'' @ [CHR 0x0A], w)
        else (case answait RET_SUCCESS 128 w of (rc, _, w) \<Rightarrow>
          if rc \<noteq> RET_SUCCESS then (- 1, ''-53 No bee HELLO'' @ [CHR 0x0A], w)
          else (case bee_request ''machine'' [] RET_SUCCESS w of (rc, _, w) \<Rightarrow>
            if rc \<noteq> RET_SUCCESS then (- 1, BEE_ERROR, w)
            else (case bee_request ''acc inet name %s'' [AS (hd args)] RET_STR w of (rc, msg, w) \<Rightarrow>
              if rc \<noteq> RET_STR \<and> rc < 400 then (- 1, BEE_ERROR, w)
              else if rc = RET_STR then (0, getacc2_line msg, link_printf ''exit'' [] w)
              else if rc = ERR_NOACC then (- 1, ''-1 Account not exist'' @ [CHR 0x0A], w)
              else (- 1, BEE_ERROR, w))))))"

end
