(* ===== verification/Beetraff.thy ===== *)
theory Beetraff
  imports Clients Shell Sums
begin

text \<open>
  The collector module (\<open>src/src/bee/modules/traff/beetraff.c\<close>, \<open>beetraff.h\<close>): it reads the statistics of
  a traffic collector (cnupm or ipstatd), sums up the bytes per address, or per account, of the gates
  and reports the sums to the billing with \<open>bires\<close> commands.  The macros \<open>SQLSTAT_HACK\<close> and
  \<open>DUMP_JOB\<close> are off, as in the sources; the ports and the protocol of a line are read but never used.
\<close>

record accsum =
  as_addr :: u32
  as_in :: u32
  as_out :: u32
  as_accno :: u32

record exclitem =
  ex_addr :: u32
  ex_mask :: u32
  ex_flag :: bool

record traff_opts =
  to_host :: "string option"
  to_port :: int
  to_lock :: bool
  to_update :: bool
  to_cnupm :: bool
  to_nodetail :: bool
  to_accbased :: bool
  to_local :: bool
  to_filename :: "string option"
  to_hack :: int
  to_excl :: "exclitem list"

section \<open>Options\<close>

definition TRAFF_OPTS :: string where
  "TRAFF_OPTS = ''r:a:A:un:N:lf:o:ch:dDL''"

abbreviation (input) EXCLUSIONS :: nat where "EXCLUSIONS \<equiv> 1024"

text \<open>\<open>-n\<close> and \<open>-N\<close>: a network that is not counted, or counted after all.\<close>

definition add_exclusion :: "bool \<Rightarrow> string \<Rightarrow> traff_opts \<times> 'a os_scheme \<Rightarrow> traff_opts \<times> 'a os_scheme" where
  "add_exclusion cnt arg s = (case s of (opt, w) \<Rightarrow>
     if length (to_excl opt) < EXCLUSIONS
     then (case make_addrandmask arg of
         None \<Rightarrow> (opt, w)
       | Some (addr, nmask) \<Rightarrow> (case sys_alloc w of (mem, w) \<Rightarrow>
           (if mem then opt\<lparr>to_excl := to_excl opt @ [\<lparr>ex_addr = addr, ex_mask = nmask, ex_flag = cnt\<rparr>]\<rparr> else opt, w)))
     else (opt, w))"

definition traff_option :: "char \<times> string \<Rightarrow> traff_opts \<times> 'a os_scheme \<Rightarrow> (traff_opts \<times> 'a os_scheme) option" where
  "traff_option x s = (case x of (c, arg) \<Rightarrow> case s of (opt, w) \<Rightarrow>
     if c = CHR ''r'' then Some s
     else if c = CHR ''a'' then Some (opt\<lparr>to_host := Some arg\<rparr>, w)
     else if c = CHR ''A'' then Some (opt\<lparr>to_port := fst (strtol arg 10)\<rparr>, w)
     else if c = CHR ''u'' then Some (opt\<lparr>to_update := True\<rparr>, w)
     else if c = CHR ''n'' \<or> c = CHR ''N'' then Some (add_exclusion (c = CHR ''N'') arg s)
     else if c = CHR ''l'' then Some (opt\<lparr>to_lock := True\<rparr>, w)
     else if c = CHR ''f'' then Some (opt\<lparr>to_filename := Some arg\<rparr>, w)
     else if c = CHR ''o'' then Some s
     else if c = CHR ''c'' then Some (opt\<lparr>to_cnupm := \<not> to_cnupm opt\<rparr>, w)
     else if c = CHR ''h'' then Some (opt\<lparr>to_hack := fst (strtol arg 10)\<rparr>, w)
     else if c = CHR ''d'' then Some (opt\<lparr>to_nodetail := \<not> to_nodetail opt\<rparr>, w)
     else if c = CHR ''D'' then Some (opt\<lparr>to_accbased := \<not> to_accbased opt, to_nodetail := \<not> to_accbased opt\<rparr>, w)
     else if c = CHR ''L'' then Some (opt\<lparr>to_local := \<not> to_local opt\<rparr>, w)
     else None)"

section \<open>A line of the statistics\<close>

definition IPFSTAT_DELIM :: string where
  "IPFSTAT_DELIM = [CHR '' '', CHR 0x09, CHR 0x0A]"

text \<open>
  An address, up to the colon before its port.  The result of \<open>inet_pton\<close> is 0 for a text that is not an
  address, which the code does not take for a failure: the variable keeps the address of an earlier line.
\<close>

definition stat_addr :: "u32 \<Rightarrow> ptr \<Rightarrow> (u32 \<times> ptr) option" where
  "stat_addr old str = (case next_token str IPFSTAT_DELIM of
      (None, _) \<Rightarrow> None
    | (Some p, str) \<Rightarrow> (case fst (next_token (Some p) '':'') of
          None \<Rightarrow> None
        | Some p2 \<Rightarrow> Some (case inet_pton p2 of None \<Rightarrow> old | Some a \<Rightarrow> a, str)))"

text \<open>Date and time in front of the addresses, which only cnupm writes.\<close>

definition skip_date :: "bool \<Rightarrow> ptr \<Rightarrow> ptr option" where
  "skip_date cnupm str =
     (if cnupm
      then (case next_token str IPFSTAT_DELIM of
          (None, _) \<Rightarrow> None
        | (Some _, str) \<Rightarrow> (case next_token str IPFSTAT_DELIM of (None, _) \<Rightarrow> None | (Some _, str) \<Rightarrow> Some str))
      else Some str)"

text \<open>The number of bytes, behind the packets or the protocol.\<close>

definition stat_count :: "ptr \<Rightarrow> u32 option" where
  "stat_count str = (case next_token str IPFSTAT_DELIM of
      (None, _) \<Rightarrow> None
    | (Some _, str) \<Rightarrow> (case fst (next_token str IPFSTAT_DELIM) of
          None \<Rightarrow> None
        | Some p \<Rightarrow> if strtoul p 10 = 0 then None else Some (strtoul p 10)))"

text \<open>A line: the addresses as they are afterwards and the count, if the line is not skipped.\<close>

definition stat_line :: "bool \<Rightarrow> string \<Rightarrow> u32 \<times> u32 \<Rightarrow> (u32 \<times> u32) \<times> u32 option" where
  "stat_line cnupm line fromto = (case fromto of (from, to) \<Rightarrow>
     let buf = c_str line
     in if CHR 0x0A \<notin> set buf \<or> \<not> is_digit 10 (hd buf) then (fromto, None)
        else (case skip_date cnupm (Some buf) of
            None \<Rightarrow> (fromto, None)
          | Some str \<Rightarrow> (case stat_addr from str of
              None \<Rightarrow> (fromto, None)
            | Some (from, str) \<Rightarrow> (case stat_addr to str of
                None \<Rightarrow> ((from, to), None)
              | Some (to, str) \<Rightarrow> ((from, to), stat_count str)))))"

section \<open>Whose traffic it is\<close>

text \<open>Whether an address is counted: the last exclusion that covers it decides.\<close>

fun counted :: "exclitem list \<Rightarrow> u32 \<Rightarrow> bool \<Rightarrow> bool" where
  "counted [] addr flag = flag"
| "counted (e # es) addr flag = counted es addr (if addr AND ex_mask e = ex_addr e then ex_flag e else flag)"

text \<open>The gate of an address.\<close>

definition gate_of :: "u32 \<Rightarrow> 'a gates_scheme \<Rightarrow> reslink option" where
  "gate_of addr w = (case lookup_baddr addr (- 1) w of (rc, n) \<Rightarrow>
     if rc \<ge> 0 then Some (linktab w ! nat n) else None)"

text \<open>
  The item a count makes, if the traffic is not local to the networks excluded and exactly one end of
  it is a client's.
\<close>

definition stat_item :: "traff_opts \<Rightarrow> u32 \<Rightarrow> u32 \<Rightarrow> u32 \<Rightarrow> 'a gates_scheme \<Rightarrow> accsum option" where
  "stat_item opt from to cnt w =
     (if \<not> counted (to_excl opt) to True \<and> \<not> counted (to_excl opt) from True then None
      else (case (gate_of from w, gate_of to w) of
          (Some l, None) \<Rightarrow> Some \<lparr>as_addr = (if to_nodetail opt then rl_addr l else from), as_in = 0,
              as_out = cnt, as_accno = word_of_int (rl_accno l)\<rparr>
        | (None, Some l) \<Rightarrow> Some \<lparr>as_addr = (if to_nodetail opt then rl_addr l else to), as_in = cnt,
              as_out = 0, as_accno = word_of_int (rl_accno l)\<rparr>
        | _ \<Rightarrow> None))"

section \<open>The sums\<close>

definition same_item :: "bool \<Rightarrow> accsum \<Rightarrow> accsum \<Rightarrow> bool" where
  "same_item accbased x y = (if accbased then as_accno x = as_accno y else as_addr x = as_addr y)"

text \<open>Adding to the first item that matches; \<open>None\<close> when there is none.\<close>

fun bump_item :: "bool \<Rightarrow> accsum \<Rightarrow> accsum list \<Rightarrow> accsum list option" where
  "bump_item accbased x [] = None"
| "bump_item accbased x (y # ys) =
     (if same_item accbased x y then Some (y\<lparr>as_in := as_in y + as_in x, as_out := as_out y + as_out x\<rparr> # ys)
      else map_option (\<lambda>ys. y # ys) (bump_item accbased x ys))"

definition add_item :: "bool \<Rightarrow> accsum \<Rightarrow> accsum list \<times> 'a os_scheme \<Rightarrow> accsum list \<times> 'a os_scheme" where
  "add_item accbased x s = (case s of (items, w) \<Rightarrow> (case bump_item accbased x items of
      Some items \<Rightarrow> (items, w)
    | None \<Rightarrow> (case sys_alloc w of (mem, w) \<Rightarrow> (if mem then items @ [x] else items, w))))"

text \<open>The loop over the lines of the input, read into a buffer of 1024 bytes.\<close>

function read_stat :: "traff_opts \<Rightarrow> string \<Rightarrow> u32 \<times> u32 \<Rightarrow> accsum list \<times> 'a gates_scheme \<Rightarrow>
    accsum list \<times> 'a gates_scheme" where
  "read_stat opt inp fromto s =
     (if inp = [] then s
      else (let l = fgets 1024 inp;
                r = stat_line (to_cnupm opt) (fst l) fromto;
                x = Option.bind (snd r) (\<lambda>cnt. stat_item opt (fst (fst r)) (snd (fst r)) cnt (snd s))
            in read_stat opt (snd l) (fst r) (case x of None \<Rightarrow> s | Some x \<Rightarrow> add_item (to_accbased opt) x s)))"
  by pat_completeness auto
termination
  by (relation "measure (\<lambda>(_, inp, _, _). length inp)") (simp_all add: fgets_length)

declare read_stat.simps [simp del]

section \<open>The report\<close>

definition bires_text :: "bool \<Rightarrow> accsum \<Rightarrow> string" where
  "bires_text accbased x = printf ''bires %x %u %u %x''
     [AI (uint (as_addr x)), AI (uint (as_in x)), AI (uint (as_out x)),
      AI (if accbased then 0 else uint (as_addr x))]"

text \<open>With \<open>-L\<close> the commands are printed only.\<close>

definition local_text :: "traff_opts \<Rightarrow> accsum list \<Rightarrow> string" where
  "local_text opt items = ''machine'' @ [CHR 0x0A] @
     concat (map (\<lambda>x. bires_text (to_accbased opt) x @ [CHR 0x0A]) items) @
     (if to_update opt then ''update'' @ [CHR 0x0A] else [])"

definition request_ok :: "string \<Rightarrow> arg list \<Rightarrow> 'a ipc_scheme \<Rightarrow> bool \<times> 'a ipc_scheme" where
  "request_ok fmt args w = (case bee_request fmt args RET_SUCCESS w of (rc, _, w) \<Rightarrow> (rc = RET_SUCCESS, w))"

text \<open>An error of the billing skips the item, a lost connection ends the program.\<close>

fun send_items :: "bool \<Rightarrow> accsum list \<Rightarrow> 'a ipc_scheme \<Rightarrow> bool \<times> 'a ipc_scheme" where
  "send_items accbased [] w = (True, w)"
| "send_items accbased (x # xs) w =
     (case bee_request ''%s'' [AS (snprintf 1024 ''bires %x %u %u %x''
             [AI (uint (as_addr x)), AI (uint (as_in x)), AI (uint (as_out x)),
              AI (if accbased then 0 else uint (as_addr x))])] RET_SUCCESS w of (rc, _, w) \<Rightarrow>
       if rc = LINK_DOWN then (False, w) else send_items accbased xs w)"

definition report_items :: "traff_opts \<Rightarrow> accsum list \<Rightarrow> 'a ipc_scheme \<Rightarrow> int \<times> 'a ipc_scheme" where
  "report_items opt items w = (case bee_connect w of (ok, w) \<Rightarrow>
     if \<not> ok then (- 1, w)
     else (case (if to_lock opt then request_ok ''lock'' [] w else (True, w)) of (ok, w) \<Rightarrow>
       if \<not> ok then (- 1, w)
       else (case (if to_hack opt \<noteq> 0 then request_ok ''_hacktime %d'' [AI (to_hack opt)] w else (True, w)) of (ok, w) \<Rightarrow>
         if \<not> ok then (- 1, w)
         else (case send_items (to_accbased opt) items w of (ok, w) \<Rightarrow>
           if \<not> ok then (- 1, w)
           else (case (if to_update opt then request_ok ''update'' [] w else (True, w)) of (ok, w) \<Rightarrow>
             if \<not> ok then (- 1, w) else (0, link_printf ''exit'' [] w))))))"

section \<open>The program\<close>

definition traff_defaults :: "conf \<Rightarrow> traff_opts" where
  "traff_defaults c = \<lparr>to_host = cf_coreaddr c, to_port = cf_coreport c, to_lock = False, to_update = False,
     to_cnupm = True, to_nodetail = False, to_accbased = False, to_local = False, to_filename = None,
     to_hack = 0, to_excl = []\<rparr>"

text \<open>
  Exit status and output.  \<open>stdin\<close> is the standard input; \<open>fromto\<close> is what the addresses hold before the
  first line.
\<close>

definition traff_main :: "string list \<Rightarrow> string \<Rightarrow> u32 \<times> u32 \<Rightarrow> 'a ipc_scheme \<Rightarrow> (int \<times> string \<times> 'a ipc_scheme) option" where
  "traff_main args stdin fromto w = (case conf_load None conf_zero w of
      None \<Rightarrow> None
    | Some (rc, c, w) \<Rightarrow>
        if rc < 0 then Some (- 1, [], w)
        else Some (case option_loop traff_option (getopt TRAFF_OPTS [] args) (traff_defaults c, use_gate_conf c w) of
            None \<Rightarrow> (- 1, [], w)
          | Some (opt, w) \<Rightarrow> (case reslinks_load LOCK_SH w of (rc, w) \<Rightarrow>
              if rc < 0 then (- 1, [], w)
              else (case (case to_filename opt of None \<Rightarrow> (Some stdin, w) | Some f \<Rightarrow> sys_fopen_r f w) of
                  (None, w) \<Rightarrow> (- 1, [], w)
                | (Some inp, w) \<Rightarrow> (case read_stat opt inp fromto ([], w) of (items, w) \<Rightarrow>
                    if to_local opt then (0, local_text opt items, w)
                    else (case report_items opt items w of (rc, w) \<Rightarrow> (rc, [], w)))))))"

section \<open>Numbers in a command\<close>

lemma hex_digit: "d < 16 \<Longrightarrow> digit_val (tolower (''0123456789ABCDEF'' ! d)) = Some d"
proof -
  assume "d < 16"
  then consider "d = 0" | "d = 1" | "d = 2" | "d = 3" | "d = 4" | "d = 5" | "d = 6" | "d = 7" | 
    "d = 8" | "d = 9" | "d = 10" | "d = 11" | "d = 12" | "d = 13" | "d = 14" | "d = 15" by (auto simp: less_Suc_eq numeral_eq_Suc)
  then show ?thesis by cases (simp_all add: tolower_def digit_val_def)
qed

lemma hex_nat_digits: "\<forall>c \<in> set (map tolower (hex_nat n)). is_digit 16 c"
proof (induction n rule: hex_nat.induct)
  case (1 n)
  have d: "is_digit 16 (tolower (''0123456789ABCDEF'' ! d))" if "d < 16" for d
    using hex_digit[OF that] that by (simp add: is_digit_def)
  show ?case
  proof (cases "n < 16")
    case True
    then have "map tolower (hex_nat n) = [tolower (''0123456789ABCDEF'' ! n)]" by (simp only: hex_nat.simps[of n] if_True list.map)
    with d[OF True] show ?thesis by simp
  next
    case False
    then have "map tolower (hex_nat n) = map tolower (hex_nat (n div 16)) @ [tolower (''0123456789ABCDEF'' ! (n mod 16))]"
      by (simp only: hex_nat.simps[of n] if_False map_append list.map)
    with 1[OF False] d[of "n mod 16"] show ?thesis by (simp add: ball_Un)
  qed
qed

lemma char_zero: "char_of (48 :: nat) = CHR ''0''"
  by code_simp

lemma scan_hex: "scan_digits 16 (map tolower (hex_nat n)) 0 = (n, [])"
proof (induction n rule: hex_nat.induct)
  case (1 n)
  show ?case
  proof (cases "n < 16")
    case True
    then show ?thesis by (simp add: hex_nat.simps[of n] is_digit_def hex_digit)
  next
    case False
    have "scan_digits 16 (map tolower (hex_nat n)) 0 =
        scan_digits 16 [tolower (''0123456789ABCDEF'' ! (n mod 16))]
          (fst (scan_digits 16 (map tolower (hex_nat (n div 16))) 0))"
      unfolding hex_nat.simps[of n] using False scan_digits_append[OF hex_nat_digits[of "n div 16"]] by simp
    with 1[OF False] show ?thesis by (simp add: is_digit_def hex_digit)
  qed
qed

lemma hex_digit_range: "is_digit 16 c \<Longrightarrow> (of_char c :: nat) \<in> {48..57} \<union> {97..102} \<union> {65..70}"
  by (auto simp: is_digit_def digit_val_def Let_def split: if_splits)

lemma hex_digit_plain:
  assumes "is_digit 16 c"
  shows "\<not> isspace c" "c \<noteq> CHR ''-''" "c \<noteq> CHR ''+''" "c \<noteq> CHR ''x''" "c \<noteq> CHR ''X''" "c \<notin> set CMD_DELIM"
    "c \<noteq> CHR ''$''" "c \<noteq> CHR ''%''"
proof -
  have r: "(of_char c :: nat) \<in> {48..57} \<union> {97..102} \<union> {65..70}" using assms by (rule hex_digit_range)
  then show "\<not> isspace c" by (auto simp: isspace_def)
  have "(of_char (CHR ''-'') :: nat) = 45" "(of_char (CHR ''+'') :: nat) = 43" "(of_char (CHR ''x'') :: nat) = 120"
    "(of_char (CHR ''X'') :: nat) = 88" "(of_char (CHR '' '') :: nat) = 32" "(of_char (CHR 0x09) :: nat) = 9"
    "(of_char (CHR 0x0A) :: nat) = 10" "(of_char (CHR 0x0D) :: nat) = 13" "(of_char (CHR ''$'') :: nat) = 36"
    "(of_char (CHR ''%'') :: nat) = 37" by simp_all
  then show "c \<noteq> CHR ''-''" "c \<noteq> CHR ''+''" "c \<noteq> CHR ''x''" "c \<noteq> CHR ''X''" "c \<notin> set CMD_DELIM"
      "c \<noteq> CHR ''$''" "c \<noteq> CHR ''%''"
    using r by (auto simp: CMD_DELIM_def)
qed

lemma dec_digit_hex: "is_digit 10 c \<Longrightarrow> is_digit 16 c"
  by (auto simp: is_digit_def split: option.splits)

text \<open>A number of digits of a base has no sign and no prefix.\<close>

lemma scan_int_digits:
  assumes "s \<noteq> []" "\<forall>c \<in> set s. is_digit 16 c" "is_digit b (hd s)" "b = 10 \<or> b = 16"
    and "base = b \<or> base = 0 \<and> b = 10 \<and> hd s \<noteq> CHR ''0''"
    and "scan_digits b s 0 = (n, [])"
  shows "scan_int base s = Some (False, n, [])"
proof -
  obtain c u where s: "s = c # u" using assms(1) by (cases s) auto
  have c: "\<not> isspace c" "c \<noteq> CHR ''-''" "c \<noteq> CHR ''+''" using hex_digit_plain[of c] assms(2) s by auto
  have x: "length s \<ge> 3 \<Longrightarrow> s ! 1 \<noteq> CHR ''x'' \<and> s ! 1 \<noteq> CHR ''X''"
  proof -
    assume "length s \<ge> 3"
    then have "s ! 1 \<in> set s" by simp
    with assms(2) show ?thesis using hex_digit_plain(4,5) by blast
  qed
  have "scan_sign (dropWhile isspace s) = (False, s)" using c by (simp add: s scan_sign_def)
  with assms(3-6) x show ?thesis by (auto simp: scan_int_def Let_def s)
qed

lemma hex_nat_ne: "hex_nat n \<noteq> []"
  by (subst hex_nat.simps) simp

lemma strtoul_hex: "strtoul (map tolower (hex_nat (unat x))) 16 = x"
proof -
  let ?s = "map tolower (hex_nat (unat x))"
  have "is_digit 16 (hd ?s)" "?s \<noteq> []" using hex_nat_digits[of "unat x"] hex_nat_ne[of "unat x"] by (cases "hex_nat (unat x)"; simp)+
  then have "scan_int 16 ?s = Some (False, unat x, [])"
    by (intro scan_int_digits[where b = 16]) (use hex_nat_digits scan_hex in auto)
  moreover have "unat x \<le> 2 ^ 32 - 1" using unsigned_less[of x, where 'a = nat] by simp
  ultimately show ?thesis by (simp add: strtoul_def)
qed

lemma dec_nat_hd_zero: "0 < n \<Longrightarrow> hd (dec_nat n) \<noteq> CHR ''0''"
proof (induction n rule: dec_nat.induct)
  case (1 n)
  show ?case
  proof (cases "n < 10")
    case True
    have "(of_char (char_of (48 + n) :: char) :: nat) \<noteq> of_char (CHR ''0'')" using True 1(2) by simp
    then have "char_of (48 + n) \<noteq> CHR ''0''" by metis
    with True show ?thesis by (simp add: dec_nat.simps[of n])
  next
    case False
    then have "hd (dec_nat (n div 10)) \<noteq> CHR ''0''" using 1(1) by simp
    with False dec_nat_hd[of "n div 10"] show ?thesis by (simp add: dec_nat.simps[of n])
  qed
qed

lemma scan_int_0_dec: "scan_int 0 (dec_nat n) = Some (False, n, [])"
proof (cases "n = 0")
  case True
  then show ?thesis by (simp add: dec_nat.simps scan_int_def scan_sign_def isspace_def is_digit_def digit_val_def Let_def char_zero)
next
  case False
  have d: "scan_digits 10 (dec_nat n) 0 = (n, [])"
    using scan_digits_append[of "dec_nat n" 10 "[]" 0] dec_nat_digits[of n] scan_dec_nat[of n]
    by (metis append_Nil2 scan_digits.simps(1))
  show ?thesis
    by (rule scan_int_digits[OF _ _ _ _ _ d])
      (use dec_nat_hd[of n] dec_nat_hd_zero[of n] dec_nat_digits[of n] dec_digit_hex False in auto)
qed

lemma strtoul_dec: "strtoul (dec_nat (unat x)) 0 = x"
  using unsigned_less[of x, where 'a = nat] by (simp add: strtoul_def scan_int_0_dec)

section \<open>The command as the billing reads it\<close>

definition hex_text :: "u32 \<Rightarrow> string" where
  "hex_text x = map tolower (hex_nat (unat x))"

lemma bires_text_eq:
  "bires_text accbased x = ''bires '' @ hex_text (as_addr x) @ '' '' @ dec_nat (unat (as_in x)) @ '' '' @
     dec_nat (unat (as_out x)) @ '' '' @ hex_text (if accbased then 0 else as_addr x)"
proof -
  have m: "nat (uint v mod 4294967296) = unat v" for v :: u32
  proof -
    have "uint v < 2 ^ 32" using unsigned_less[of v, where 'a = int] by simp
    then show ?thesis by (simp add: nat_uint_eq)
  qed
  have z: "nat (0 mod 4294967296) = unat (0 :: u32)" by simp
  show ?thesis
    by (simp add: bires_text_def printf_eval pad_field_def hex_text_def m z)
qed

definition word_text :: "string \<Rightarrow> bool" where
  "word_text s \<longleftrightarrow> s \<noteq> [] \<and> (\<forall>c \<in> set s. is_digit 16 c)"

lemma word_texts: "word_text (hex_text x)" "word_text (dec_nat n)"
proof -
  show "word_text (hex_text x)" unfolding word_text_def hex_text_def
    using hex_nat_digits[of "unat x"] hex_nat_ne[of "unat x"] by blast
  show "word_text (dec_nat n)" unfolding word_text_def
    using dec_nat_digits[of n] dec_nat_hd[of n] dec_digit_hex by blast
qed

text \<open>Words of digits between blanks are the tokens.\<close>

lemma strsep_word: "\<forall>c \<in> set s. c \<notin> set d \<Longrightarrow> b \<in> set d \<Longrightarrow> strsep (s @ b # r) d = (s, Some r)"
  by (induction s) auto

lemma token_word: "word_text s \<Longrightarrow> next_token (Some (s @ '' '' @ r)) CMD_DELIM = (Some s, Some r)"
  using strsep_word[of s CMD_DELIM "CHR '' ''" r] hex_digit_plain(6)
  by (auto simp: word_text_def CMD_DELIM_def)

lemma token_last: "word_text s \<Longrightarrow> next_token (Some s) CMD_DELIM = (Some s, None)"
  using strsep_no_delim[of s CMD_DELIM] hex_digit_plain(6) by (auto simp: word_text_def)

lemma bires_tokens:
  "next_token (Some (bires_text a x)) CMD_DELIM = (Some ''bires'', Some (hex_text (as_addr x) @ '' '' @
     dec_nat (unat (as_in x)) @ '' '' @ dec_nat (unat (as_out x)) @ '' '' @ hex_text (if a then 0 else as_addr x)))"
  using strsep_word[of "''bires''" CMD_DELIM "CHR '' ''"] by (simp add: bires_text_eq CMD_DELIM_def)

lemma strtoul_hex_text: "strtoul (hex_text x) 16 = x"
  by (simp add: hex_text_def strtoul_hex)

definition bires_data :: "bool \<Rightarrow> accsum \<Rightarrow> reslink \<Rightarrow> isdata" where
  "bires_data accbased x l = isdata_zero\<lparr>is_res_id := 0, is_user_id := word_of_int (rl_user_id l),
     is_host := (if accbased then 0 else as_addr x)\<rparr>"

lemma cmdh_bires_item:
  assumes "gate_of (as_addr x) w = Some l"
    and "p = Some (hex_text (as_addr x) @ '' '' @ dec_nat (unat (as_in x)) @ '' '' @ dec_nat (unat (as_out x)) @
      '' '' @ hex_text (if a then 0 else as_addr x))"
  shows "cmdh_bires c p w = Option.bind (acc_bitrans (Accbase w) (Logbase w) (rl_accno l) (Some (bires_data a x l))
      (as_in x) (as_out x) w) (\<lambda>(rc, _, w). traffic_reply rc w)"
proof -
  obtain rc n where n: "lookup_baddr (as_addr x) (- 1) w = (rc, n)" by fastforce
  with assms(1) have r: "\<not> rc < 0" "l = linktab w ! nat n" by (auto simp: gate_of_def split: if_splits)
  show ?thesis unfolding cmdh_bires_def assms(2)
    by (simp only: token_word[OF word_texts(1)] token_word[OF word_texts(2)] token_last[OF word_texts(1)] prod.case
        option.case strtoul_hex_text strtoul_dec n r(1) if_False Let_def fst_conv bires_data_def r(2))
qed

lemma gate_of_cong: "linktab w = linktab v \<Longrightarrow> gate_of a w = gate_of a v"
  by (simp add: gate_of_def lookup_baddr_def split: prod.split)

lemma exec_bires:
  fixes w :: "'a session_scheme"
  assumes "permitted 4 w"
  shows "exec_table True cmds (Some (bires_text a x)) w = cmdh_bires ''bires'' (Some (hex_text (as_addr x) @ '' '' @
     dec_nat (unat (as_in x)) @ '' '' @ dec_nat (unat (as_out x)) @ '' '' @ hex_text (if a then 0 else as_addr x))) w"
proof -
  have "List.find (\<lambda>c. strcaseeq ''bires'' (command_ident c)) (cmds :: 'a command list) =
      Some (Command ''bires'' (Some cmdh_bires) 4 None)"
    by (simp add: cmds_def strcaseeq_def tolower_def)
  then show ?thesis using assms
    by (subst exec_table.simps) (simp only: bires_tokens fst_conv snd_conv option.case Let_def command.case if_True)
qed

section \<open>What is collected\<close>

text \<open>The items that the lines of a text make, one for each count that is not skipped.\<close>

function stat_items :: "traff_opts \<Rightarrow> string \<Rightarrow> u32 \<times> u32 \<Rightarrow> 'a gates_scheme \<Rightarrow> accsum list" where
  "stat_items opt inp fromto w =
     (if inp = [] then []
      else (let l = fgets 1024 inp; r = stat_line (to_cnupm opt) (fst l) fromto
            in (case Option.bind (snd r) (\<lambda>cnt. stat_item opt (fst (fst r)) (snd (fst r)) cnt w) of
                  None \<Rightarrow> [] | Some x \<Rightarrow> [x]) @ stat_items opt (snd l) (fst r) w))"
  by pat_completeness auto
termination
  by (relation "measure (\<lambda>(_, inp, _, _). length inp)") (simp_all add: fgets_length)

declare stat_items.simps [simp del]

definition put_item :: "bool \<Rightarrow> accsum \<Rightarrow> accsum list \<Rightarrow> accsum list" where
  "put_item a x items = (case bump_item a x items of None \<Rightarrow> items @ [x] | Some ys \<Rightarrow> ys)"

lemma add_item_nf: "no_faults w \<Longrightarrow> add_item a x (items, w) = (put_item a x items, w)"
  by (auto simp: add_item_def put_item_def sys_alloc_def next_outcome_no_faults split: option.split)

lemma read_stat_nf:
  "no_faults w \<Longrightarrow> read_stat opt inp ft (items, w) = (fold (put_item (to_accbased opt)) (stat_items opt inp ft w) items, w)"
proof (induction opt inp ft w arbitrary: items rule: stat_items.induct)
  case (1 opt inp ft w)
  show ?case
  proof (cases "inp = []")
    case True
    then show ?thesis by (simp add: read_stat.simps[of opt "[]"] stat_items.simps[of opt "[]"])
  next
    case False
    from 1(1)[OF False refl refl 1(2)] False 1(2) show ?thesis
      by (simp add: read_stat.simps[of opt inp] stat_items.simps[of opt inp] Let_def add_item_nf split: option.split)
  qed
qed

definition item_key :: "bool \<Rightarrow> accsum \<Rightarrow> u32" where
  "item_key a x = (if a then as_accno x else as_addr x)"

lemma bump_item_None: "bump_item a x ys = None \<longleftrightarrow> item_key a x \<notin> item_key a ` set ys"
  by (induction ys) (auto simp: same_item_def item_key_def)

definition key_sum :: "(accsum \<Rightarrow> u32) \<Rightarrow> bool \<Rightarrow> u32 \<Rightarrow> accsum list \<Rightarrow> u32" where
  "key_sum f a k xs = sum_list (map f (filter (\<lambda>x. item_key a x = k) xs))"

definition join_item :: "accsum \<Rightarrow> accsum \<Rightarrow> accsum" where
  "join_item y x = y\<lparr>as_in := as_in y + as_in x, as_out := as_out y + as_out x\<rparr>"

lemma key_join_item [simp]: "item_key a (join_item y x) = item_key a y"
  by (simp add: item_key_def join_item_def)

text \<open>The list of items is a list of sums by address or account, once for each direction.\<close>

interpretation inbound: keyed_sums "item_key a" join_item as_in for a
  by unfold_locales (auto simp: item_key_def join_item_def)

interpretation outbound: keyed_sums "item_key a" join_item as_out for a
  by unfold_locales (auto simp: item_key_def join_item_def)

lemma key_sum_totals: "key_sum as_in a k = inbound.total a k" "key_sum as_out a k = outbound.total a k"
  by (simp_all add: key_sum_def inbound.total_def outbound.total_def fun_eq_iff)

lemma bump_item_Some:
  "bump_item a x ys = Some zs \<Longrightarrow> \<exists>j < length ys. item_key a (ys ! j) = item_key a x \<and> zs = ys[j := join_item (ys ! j) x]"
proof (induction ys arbitrary: zs)
  case (Cons y ys)
  show ?case
  proof (cases "same_item a x y")
    case True
    with Cons.prems have "zs = join_item y x # ys" by (simp add: join_item_def)
    with True show ?thesis by (intro exI[of _ 0]) (auto simp: item_key_def same_item_def)
  next
    case False
    with Cons.prems obtain us where "bump_item a x ys = Some us" "zs = y # us" by auto
    with Cons.IH[of us] obtain j where "j < length ys" "item_key a (ys ! j) = item_key a x" "zs = y # ys[j := join_item (ys ! j) x]"
      by auto
    then show ?thesis by (intro exI[of _ "Suc j"]) simp
  qed
qed simp

lemma put_item_absorbs: "inbound.absorbs_fresh a x ys (put_item a x ys)"
  using bump_item_Some[of a x ys] bump_item_None[of a x ys]
  by (auto simp: put_item_def inbound.absorbs_fresh_def inbound.absorbs_def split: option.split)

lemmas put_item_line = put_item_absorbs[unfolded inbound.absorbs_fresh_def, THEN conjunct1]

lemma put_items_sums:
  "key_sum as_in a k (fold (put_item a) xs ys) = key_sum as_in a k ys + key_sum as_in a k xs \<and>
   key_sum as_out a k (fold (put_item a) xs ys) = key_sum as_out a k ys + key_sum as_out a k xs \<and>
   (distinct (map (item_key a) ys) \<longrightarrow> distinct (map (item_key a) (fold (put_item a) xs ys)))"
  by (simp add: key_sum_totals inbound.fold_total[OF put_item_line] outbound.fold_total[OF put_item_line]
      inbound.fold_distinct[OF put_item_absorbs])

text \<open>
  C28: On a machine without faults the collector loses and invents no byte: it reports each address (with \<open>-D\<close>
  each account) once, and inbound and outbound its sums are those of all counts of the input that
  are not skipped (as 32-bit numbers).\<close>

theorem traffic_totals:
  assumes "no_faults w"
  shows "case read_stat opt inp ft ([], w) of (items, w') \<Rightarrow> w' = w \<and>
    distinct (map (item_key (to_accbased opt)) items) \<and>
    (\<forall>k. key_sum as_in (to_accbased opt) k items = key_sum as_in (to_accbased opt) k (stat_items opt inp ft w) \<and>
         key_sum as_out (to_accbased opt) k items = key_sum as_out (to_accbased opt) k (stat_items opt inp ft w))"
  using assms put_items_sums[of "to_accbased opt" _ "stat_items opt inp ft w" "[]"]
  by (simp add: read_stat_nf key_sum_def)

section \<open>What is collected is booked\<close>

definition item_ok :: "'a gates_scheme \<Rightarrow> accsum \<Rightarrow> bool" where
  "item_ok w x \<longleftrightarrow> (\<exists>l. gate_of (as_addr x) w = Some l \<and> as_accno x = word_of_int (rl_accno l))"

lemma stat_item_ok: "stat_item opt from to cnt w = Some x \<Longrightarrow> \<not> to_nodetail opt \<Longrightarrow> item_ok w x"
  by (auto simp: stat_item_def item_ok_def split: if_splits option.splits)

lemma stat_items_ok: "\<not> to_nodetail opt \<Longrightarrow> \<forall>x \<in> set (stat_items opt inp ft w). item_ok w x"
proof (induction opt inp ft w rule: stat_items.induct)
  case (1 opt inp ft w)
  show ?case
  proof (cases "inp = []")
    case False
    from 1(1)[OF False refl refl 1(2)] False show ?thesis
      by (auto intro: stat_item_ok[OF sym 1(2)] simp: stat_items.simps[of opt inp] Let_def split: option.splits Option.bind_splits)
  qed (simp add: stat_items.simps)
qed

lemma bump_item_ok:
  "bump_item False x ys = Some zs \<Longrightarrow> \<forall>y \<in> set ys. item_ok w y \<Longrightarrow> \<forall>y \<in> set zs. item_ok w y"
  by (induction ys arbitrary: zs) (auto simp: item_ok_def split: if_splits)

lemma put_items_ok:
  "\<forall>x \<in> set xs. item_ok w x \<Longrightarrow> \<forall>y \<in> set ys. item_ok w y \<Longrightarrow> \<forall>y \<in> set (fold (put_item False) xs ys). item_ok w y"
proof (induction xs arbitrary: ys)
  case (Cons x xs)
  have "\<forall>y \<in> set (put_item False x ys). item_ok w y"
    using Cons.prems bump_item_ok[of x ys] by (auto simp: put_item_def split: option.split)
  with Cons show ?case by simp
qed simp

lemma word_no_dollar: "word_text s \<Longrightarrow> CHR ''$'' \<notin> set s"
  using hex_digit_plain(7) by (auto simp: word_text_def)

lemma length_hex_nat: "n < 16 ^ k \<Longrightarrow> 0 < k \<Longrightarrow> length (hex_nat n) \<le> k"
proof (induction k arbitrary: n)
  case (Suc k)
  show ?case
  proof (cases "n < 16")
    case True
    then show ?thesis by (simp add: hex_nat.simps[of n])
  next
    case False
    with Suc.prems(1) have k: "0 < k" by (cases k) auto
    moreover have "n div 16 < 16 ^ k" using Suc.prems(1) by auto
    ultimately have "length (hex_nat (n div 16)) \<le> k" using Suc.IH by blast
    with False show ?thesis by (simp add: hex_nat.simps[of n])
  qed
qed simp

lemma exec_item:
  fixes w :: "'a session_scheme"
  assumes "gate_of (as_addr x) w = Some l" "permitted 4 w"
  shows "cmd_exec (bires_text a x) w = (let w = say RET_COMMENT ''command: \"%s\"'' [AS (bires_text a x)] w
     in Option.bind (acc_bitrans (Accbase w) (Logbase w) (rl_accno l) (Some (bires_data a x l)) (as_in x) (as_out x) w)
          (\<lambda>(rc, _, w). traffic_reply rc w))"
proof -
  let ?t = "bires_text a x"
  let ?v = "say RET_COMMENT ''command: \"%s\"'' [AS ?t] w"
  have "expand n s = s" if "CHR ''$'' \<notin> set s" for n s using that by (induction s) auto
  moreover have "CHR ''$'' \<notin> set ?t" by (simp add: bires_text_eq word_no_dollar word_texts)
  ultimately have e: "expand n ?t = ?t" for n by blast
  have l8: "length (hex_text y) \<le> 8" for y
    using length_hex_nat[of "unat y" 8] unsigned_less[of y, where 'a = nat] by (simp add: hex_text_def)
  have l10: "length (dec_nat (unat y)) \<le> 10" for y :: u32
    using length_dec_nat[of "unat y" 10] unsigned_less[of y, where 'a = nat] by simp
  have "length ?t \<le> 45"
    using l8[of "as_addr x"] l8[of "if a then 0 else as_addr x"] l10[of "as_in x"] l10[of "as_out x"]
    by (simp add: bires_text_eq)
  then have p: "cmd_preprocess (Some ?t) 1024 w = (0, ?t, ?v)"
    using preprocess_expand[of "[]" "nat 1024" "SessionLastAcc w" ?t] e by (simp add: cmd_preprocess_def Let_def)
  have s: "calm {} w ?v" by simp
  have "permitted 4 ?v" using assms(2) calm_simps(9)[OF s] by (simp add: permitted_def)
  moreover have "gate_of (as_addr x) ?v = Some l"
    using assms(1) gate_of_cong[of ?v w] calm_simps(4)[OF s] by simp
  ultimately show ?thesis by (simp add: cmd_exec_def p exec_bires cmdh_bires_item Let_def)
qed

text \<open>
  C27: What the collector reports is booked: in the default mode (sums per address), on a machine
  without faults, the core executes the command for a collected item in a session over the same gates by
  counting exactly the item's sums, inbound and outbound, on the account of the first gate that covers the address.\<close>

theorem collected_traffic_books:
  fixes w :: "'a session_scheme"
  assumes "no_faults g" "\<not> to_nodetail opt" "\<not> to_accbased opt"
    and "x \<in> set (fst (read_stat opt inp ft ([], g)))"
    and "linktab w = linktab g" "permitted 4 w"
  shows "\<exists>l. gate_of (as_addr x) g = Some l \<and> as_accno x = word_of_int (rl_accno l) \<and>
    cmd_exec (bires_text False x) w = (let w = say RET_COMMENT ''command: \"%s\"'' [AS (bires_text False x)] w
      in Option.bind (acc_bitrans (Accbase w) (Logbase w) (rl_accno l) (Some (bires_data False x l)) (as_in x) (as_out x) w)
           (\<lambda>(rc, _, w). traffic_reply rc w))"
proof -
  have "\<forall>y \<in> set (fst (read_stat opt inp ft ([], g))). item_ok g y"
    using put_items_ok[OF stat_items_ok[OF assms(2), of inp ft g], of "[]"] assms(3) by (simp add: read_stat_nf[OF assms(1)])
  then obtain l where l: "gate_of (as_addr x) g = Some l" "as_accno x = word_of_int (rl_accno l)"
    using assms(4) by (auto simp: item_ok_def)
  then have "gate_of (as_addr x) w = Some l" using gate_of_cong[of w g] assms(5) by simp
  from exec_item[OF this assms(6), of False] l show ?thesis by blast
qed

text \<open>A line of cnupm over the demonstration gates.\<close>

definition demo_opts :: traff_opts where
  "demo_opts = traff_defaults conf_zero"

lemma demo_opts_sel: "to_accbased demo_opts = False" "to_nodetail demo_opts = False" "to_cnupm demo_opts = True" "to_excl demo_opts = []"
  by (simp_all add: demo_opts_def traff_defaults_def)

definition demo_stat :: string where
  "demo_stat = ''1 t 10.0.0.5:80 1.2.3.4:25 6 100'' @ [CHR 0x0A]"

definition demo_item :: accsum where
  "demo_item = \<lparr>as_addr = 0x0500000A, as_in = 0, as_out = 100, as_accno = 7\<rparr>"

lemma demo_stat_line: "stat_line True demo_stat (0, 0) = ((0x0500000A, 0x04030201), Some 100)"
proof -
  have "inet_pton ''10.0.0.5'' = Some 0x0500000A" "inet_pton ''1.2.3.4'' = Some 0x04030201"
    by (simp_all add: inet_pton_def is_digit_def digit_val_def Let_def)
  then show ?thesis
    by (simp add: stat_line_def demo_stat_def c_str_def skip_date_def IPFSTAT_DELIM_def stat_addr_def stat_count_def
        Let_def is_digit_def digit_val_def strtoul_def scan_int_def scan_sign_def isspace_def)
qed

lemma demo_stat_items: "stat_items demo_opts demo_stat (0, 0) demo_gates = [demo_item]"
proof -
  have g: "fgets 1024 demo_stat = (demo_stat, [])"
    using fgets_line[of "butlast demo_stat" 1024 "[]"] by (simp add: demo_stat_def)
  have l: "gate_of 0x0500000A demo_gates = Some (linktab demo_gates ! 0)" "gate_of 0x04030201 demo_gates = None"
    by (simp_all add: gate_of_def lookup_baddr_def demo_gates_def dbs.defs gates.defs link_scan.simps)
  have "rl_accno (linktab demo_gates ! 0) = 7" by (simp add: demo_gates_def dbs.defs gates.defs)
  then have i: "stat_item demo_opts 0x0500000A 0x04030201 100 demo_gates = Some demo_item"
    by (simp add: stat_item_def l demo_opts_sel demo_item_def)
  have e: "stat_items demo_opts [] ft demo_gates = []" for ft by (simp add: stat_items.simps)
  have ne: "demo_stat \<noteq> []" by (simp add: demo_stat_def)
  show ?thesis by (subst stat_items.simps) (simp add: ne demo_opts_sel g demo_stat_line i e Let_def)
qed

lemma demo_gates_nf: "no_faults demo_gates"
  by (simp add: demo_gates_def dbs.defs gates.defs no_faults_def)

theorem traffic_totals_witness:
  "key_sum as_out False 0x0500000A (fst (read_stat demo_opts demo_stat (0, 0) ([], demo_gates))) = 100"
  using traffic_totals[OF demo_gates_nf, of demo_opts demo_stat "(0, 0)"]
  by (auto simp: demo_stat_items demo_opts_sel key_sum_def item_key_def demo_item_def split: prod.splits)

theorem collected_traffic_books_witness:
  "\<exists>l. gate_of (as_addr demo_item) demo_gates = Some l \<and> as_accno demo_item = word_of_int (rl_accno l) \<and>
    cmd_exec (bires_text False demo_item) (demo_session\<lparr>linktab := linktab demo_gates\<rparr>) =
      (let w = say RET_COMMENT ''command: \"%s\"'' [AS (bires_text False demo_item)] (demo_session\<lparr>linktab := linktab demo_gates\<rparr>)
       in Option.bind (acc_bitrans (Accbase w) (Logbase w) (rl_accno l) (Some (bires_data False demo_item l))
              (as_in demo_item) (as_out demo_item) w)
            (\<lambda>(rc, _, w). traffic_reply rc w))"
proof (rule collected_traffic_books[OF demo_gates_nf])
  show "demo_item \<in> set (fst (read_stat demo_opts demo_stat (0, 0) ([], demo_gates)))"
    by (simp add: read_stat_nf[OF demo_gates_nf] demo_stat_items put_item_def)
qed (simp_all add: demo_opts_sel permitted_def demo_session_sel)

end
