(* ===== verification/TraffTotal.thy ===== *)
theory TraffTotal
  imports Beetraff
begin

text \<open>
  The older collector module (\<open>src/src/bee/modules/traff-total/beetraff.c\<close>): it reads the same
  statistics but sums all traffic between the local networks (those excluded with \<open>-n\<close>) and the
  others into one item, which it reports with \<open>res\<close> commands for the address 0.0.0.0.  A line is parsed and
  an address is looked up in the exclusions as in \<open>Beetraff\<close>, whose code is the same.
\<close>

record total_opts =
  tt_resname :: string
  tt_host :: "string option"
  tt_port :: int
  tt_lock :: bool
  tt_update :: bool
  tt_cnupm :: bool
  tt_filename :: "string option"
  tt_excl :: "exclitem list"

definition TOTAL_OPTS :: string where
  "TOTAL_OPTS = ''r:a:A:un:N:lf:o:c''"

definition total_exclusion :: "bool \<Rightarrow> string \<Rightarrow> total_opts \<times> 'a os_scheme \<Rightarrow> total_opts \<times> 'a os_scheme" where
  "total_exclusion cnt arg s = (case s of (opt, w) \<Rightarrow>
     if length (tt_excl opt) < 16
     then (case make_addrandmask arg of
         None \<Rightarrow> (opt, w)
       | Some (addr, nmask) \<Rightarrow> (case sys_alloc w of (mem, w) \<Rightarrow>
           (if mem then opt\<lparr>tt_excl := tt_excl opt @ [\<lparr>ex_addr = addr, ex_mask = nmask, ex_flag = cnt\<rparr>]\<rparr> else opt, w)))
     else (opt, w))"

definition total_option :: "char \<times> string \<Rightarrow> total_opts \<times> 'a os_scheme \<Rightarrow> (total_opts \<times> 'a os_scheme) option" where
  "total_option x s = (case x of (c, arg) \<Rightarrow> case s of (opt, w) \<Rightarrow>
     if c = CHR ''r'' then Some (opt\<lparr>tt_resname := arg\<rparr>, w)
     else if c = CHR ''a'' then Some (opt\<lparr>tt_host := Some arg\<rparr>, w)
     else if c = CHR ''A'' then Some (opt\<lparr>tt_port := fst (strtol arg 10)\<rparr>, w)
     else if c = CHR ''u'' then Some (opt\<lparr>tt_update := True\<rparr>, w)
     else if c = CHR ''n'' \<or> c = CHR ''N'' then Some (total_exclusion (c = CHR ''N'') arg s)
     else if c = CHR ''l'' then Some (opt\<lparr>tt_lock := True\<rparr>, w)
     else if c = CHR ''f'' then Some (opt\<lparr>tt_filename := Some arg\<rparr>, w)
     else if c = CHR ''o'' then Some s
     else if c = CHR ''c'' then Some (opt\<lparr>tt_cnupm := \<not> tt_cnupm opt\<rparr>, w)
     else None)"

text \<open>What a count adds to the sums: nothing when both ends are local or neither is.\<close>

definition total_count :: "exclitem list \<Rightarrow> u32 \<Rightarrow> u32 \<Rightarrow> u32 \<Rightarrow> (u32 \<times> u32) option" where
  "total_count excl from to cnt =
     (if counted excl to True = counted excl from True then None
      else Some (if \<not> counted excl from True then (0, cnt) else (cnt, 0)))"

text \<open>
  The list of sums has one item, or none when there was no memory for it; then the first count writes
  through a null pointer (\<open>None\<close>).
\<close>

function read_total :: "total_opts \<Rightarrow> string \<Rightarrow> u32 \<times> u32 \<Rightarrow> (u32 \<times> u32) list \<Rightarrow> (u32 \<times> u32) list option" where
  "read_total opt inp fromto items =
     (if inp = [] then Some items
      else (let l = fgets 1024 inp; r = stat_line (tt_cnupm opt) (fst l) fromto
            in case Option.bind (snd r) (\<lambda>cnt. total_count (tt_excl opt) (fst (fst r)) (snd (fst r)) cnt) of
                 None \<Rightarrow> read_total opt (snd l) (fst r) items
               | Some x \<Rightarrow>
                   if items = [] then None
                   else read_total opt (snd l) (fst r) ((fst (hd items) + fst x, snd (hd items) + snd x) # tl items)))"
  by pat_completeness auto
termination
  by (relation "measure (\<lambda>(_, inp, _, _). length inp)") (simp_all add: fgets_length)

declare read_total.simps [simp del]

text \<open>One direction of the sum; whether the connection still stands.\<close>

definition send_total :: "string \<Rightarrow> u32 \<Rightarrow> u32 \<Rightarrow> 'a ipc_scheme \<Rightarrow> bool \<times> 'a ipc_scheme" where
  "send_total resname v dir w =
     (if v = 0 then (True, w)
      else (case bee_request ''%s'' [AS (snprintf 1024 ''res %s %s %u %u %s''
              [AS resname, AS (inet_ntop 0), AI (uint v), AI (uint dir), AS (inet_ntop 0)])] RET_SUCCESS w of
          (rc, _, w) \<Rightarrow> (rc \<noteq> LINK_DOWN, w)))"

fun send_totals :: "string \<Rightarrow> (u32 \<times> u32) list \<Rightarrow> 'a ipc_scheme \<Rightarrow> bool \<times> 'a ipc_scheme" where
  "send_totals resname [] w = (True, w)"
| "send_totals resname (x # xs) w = (case send_total resname (fst x) 0 w of (ok, w) \<Rightarrow>
     if \<not> ok then (False, w)
     else (case send_total resname (snd x) 0x80000000 w of (ok, w) \<Rightarrow>
       if \<not> ok then (False, w) else send_totals resname xs w))"

definition report_total :: "total_opts \<Rightarrow> (u32 \<times> u32) list \<Rightarrow> 'a ipc_scheme \<Rightarrow> int \<times> 'a ipc_scheme" where
  "report_total opt items w = (case bee_connect w of (ok, w) \<Rightarrow>
     if \<not> ok then (- 1, w)
     else (case (if tt_lock opt then request_ok ''lock'' [] w else (True, w)) of (ok, w) \<Rightarrow>
       if \<not> ok then (- 1, w)
       else (case send_totals (tt_resname opt) items w of (ok, w) \<Rightarrow>
         if \<not> ok then (- 1, w)
         else (case (if tt_update opt then request_ok ''update'' [] w else (True, w)) of (ok, w) \<Rightarrow>
           if \<not> ok then (- 1, w) else (0, link_printf ''exit'' [] w)))))"

definition total_defaults :: "conf \<Rightarrow> total_opts" where
  "total_defaults c = \<lparr>tt_resname = ''inet'', tt_host = cf_coreaddr c, tt_port = cf_coreport c, tt_lock = False,
     tt_update = False, tt_cnupm = True, tt_filename = None, tt_excl = []\<rparr>"

text \<open>The exit status; \<open>None\<close> when the program writes through a null pointer.\<close>

definition total_main :: "string list \<Rightarrow> string \<Rightarrow> u32 \<times> u32 \<Rightarrow> 'a ipc_scheme \<Rightarrow> (int \<times> 'a ipc_scheme) option" where
  "total_main args stdin fromto w = (case conf_load None conf_zero w of
      None \<Rightarrow> None
    | Some (rc, c, w) \<Rightarrow>
        if rc < 0 then Some (- 1, w)
        else (case option_loop total_option (getopt TOTAL_OPTS [] args) (total_defaults c, w) of
            None \<Rightarrow> Some (- 1, w)
          | Some (opt, w) \<Rightarrow> (case (case tt_filename opt of None \<Rightarrow> (Some stdin, w) | Some f \<Rightarrow> sys_fopen_r f w) of
                (None, w) \<Rightarrow> Some (- 1, w)
              | (Some inp, w) \<Rightarrow> (case sys_alloc w of (mem, w) \<Rightarrow>
                  map_option (\<lambda>items. report_total opt items w)
                    (read_total opt inp fromto (if mem then [(0, 0)] else []))))))"

section \<open>The sum\<close>

text \<open>The counts that a text makes, one for each line that is not skipped.\<close>

function total_counts :: "total_opts \<Rightarrow> string \<Rightarrow> u32 \<times> u32 \<Rightarrow> (u32 \<times> u32) list" where
  "total_counts opt inp fromto =
     (if inp = [] then []
      else (let l = fgets 1024 inp; r = stat_line (tt_cnupm opt) (fst l) fromto
            in (case Option.bind (snd r) (\<lambda>cnt. total_count (tt_excl opt) (fst (fst r)) (snd (fst r)) cnt) of
                  None \<Rightarrow> [] | Some x \<Rightarrow> [x]) @ total_counts opt (snd l) (fst r)))"
  by pat_completeness auto
termination
  by (relation "measure (\<lambda>(_, inp, _). length inp)") (simp_all add: fgets_length)

declare total_counts.simps [simp del]

lemma read_total_sum:
  "read_total opt inp ft [s] = Some [(fst s + sum_list (map fst (total_counts opt inp ft)), snd s + sum_list (map snd (total_counts opt inp ft)))]"
proof (induction opt inp ft arbitrary: s rule: total_counts.induct)
  case (1 opt inp ft)
  show ?case
  proof (cases "inp = []")
    case True
    then show ?thesis by (simp add: read_total.simps[of opt "[]"] total_counts.simps[of opt "[]"])
  next
    case False
    from 1[OF False refl refl] False show ?thesis
      by (simp add: read_total.simps[of opt inp] total_counts.simps[of opt inp] Let_def add.assoc split: option.split)
  qed
qed

end
