(* ===== verification/Arrays.thy ===== *)
theory Arrays
  imports RecFile "HOL-Library.Multiset"
begin

text \<open>
  The dynamic arrays of the support library (\<open>src/src/bee/lib/bee/da.c\<close>): a count and a block of
  memory with that many items of a fixed size.  The model keeps the bytes of the block, an empty list
  for the null pointer; the checks for null pointers to the count and to the array itself have no
  counterpart.  The lemmas show that the block always is a list of items (\<open>records\<close> of \<open>RecFile\<close>)
  and what the operations do to that list, and that the sort sorts.
\<close>

record darr =
  da_cnt :: int
  da_mem :: "byte list"

section \<open>Memory\<close>

text \<open>\<open>memmove\<close> of \<open>n\<close> bytes from \<open>src\<close> to \<open>dst\<close> within one block.\<close>

definition mem_move :: "nat \<Rightarrow> nat \<Rightarrow> nat \<Rightarrow> byte list \<Rightarrow> byte list" where
  "mem_move dst src n m = overwrite m dst (take n (drop src m))"

text \<open>\<open>realloc\<close>: the bytes of a larger block behind the old contents are arbitrary.\<close>

definition mem_resize :: "nat \<Rightarrow> byte list \<Rightarrow> 'a os_scheme \<Rightarrow> byte list" where
  "mem_resize n m w = take n m @ map (junk w) [length m..<n]"

text \<open>One step of the macro \<open>SWAP\<close>, \<open>a ^= b\<close>, on \<open>k\<close> bytes at \<open>p\<close> and \<open>q\<close>; the right operand is evaluated first.\<close>

definition xor_at :: "nat \<Rightarrow> nat \<Rightarrow> nat \<Rightarrow> byte list \<Rightarrow> byte list" where
  "xor_at k p q m = overwrite m p (map2 (\<lambda>x y. xor x y) (take k (drop p m)) (take k (drop q m)))"

definition SWAP :: "nat \<Rightarrow> nat \<Rightarrow> nat \<Rightarrow> byte list \<Rightarrow> byte list" where
  "SWAP k p q m = xor_at k p q (xor_at k q p (xor_at k p q m))"

definition memswap :: "nat \<Rightarrow> nat \<Rightarrow> nat \<Rightarrow> byte list \<Rightarrow> int \<times> byte list" where
  "memswap p q sz m =
     (if sz = 0 then (- 1, m)
      else (let dwords = sz div 4;
                m = fold (\<lambda>i. SWAP 4 (p + 4 * i) (q + 4 * i)) [0..<dwords] m
            in (0, fold (\<lambda>i. SWAP 1 (p + i) (q + i)) [4 * dwords..<sz] m)))"

section \<open>The operations\<close>

definition da_empty :: "darr" where
  "da_empty = \<lparr>da_cnt = 0, da_mem = []\<rparr>"

text \<open>A new item, filled with zeros; the result is its offset.\<close>

definition da_new :: "nat \<Rightarrow> int \<Rightarrow> darr \<Rightarrow> 'a os_scheme \<Rightarrow> nat option \<times> darr \<times> 'a os_scheme" where
  "da_new sz ind a w =
     (let ind = (if ind = - 1 then da_cnt a else ind)
      in if sz = 0 \<or> ind > da_cnt a \<or> ind < 0 then (None, a, w)
         else (case sys_alloc w of (mem, w) \<Rightarrow>
           if \<not> mem then (None, a, w)
           else (let m = mem_resize (nat (da_cnt a + 1) * sz) (da_mem a) w;
                     cnt = da_cnt a + 1;
                     tmp = nat ind * sz;
                     m = (if ind \<noteq> cnt - 1 then mem_move (tmp + sz) tmp (nat (cnt - ind - 1) * sz) m else m);
                     m = overwrite m tmp (replicate sz 0)
                 in (Some tmp, \<lparr>da_cnt = cnt, da_mem = m\<rparr>, w))))"

definition da_ins :: "nat \<Rightarrow> int \<Rightarrow> byte list option \<Rightarrow> darr \<Rightarrow> 'a os_scheme \<Rightarrow> int \<times> darr \<times> 'a os_scheme" where
  "da_ins sz ind src a w = (case src of
      None \<Rightarrow> (- 1, a, w)
    | Some s \<Rightarrow> (case da_new sz ind a w of
          (None, a, w) \<Rightarrow> (- 1, a, w)
        | (Some tmp, a, w) \<Rightarrow>
            (if ind = - 1 then da_cnt a - 1 else ind, a\<lparr>da_mem := overwrite (da_mem a) tmp (take sz s)\<rparr>, w)))"

text \<open>The item removed is returned as well.\<close>

definition da_rm :: "nat \<Rightarrow> int \<Rightarrow> darr \<Rightarrow> 'a os_scheme \<Rightarrow> int \<times> byte list \<times> darr \<times> 'a os_scheme" where
  "da_rm sz ind a w =
     (if sz = 0 \<or> ind \<ge> da_cnt a \<or> ind < 0 then (- 1, [], a, w)
      else (let tmp = nat ind * sz;
                dst = take sz (drop tmp (da_mem a));
                a = (if ind \<noteq> da_cnt a - 1
                     then a\<lparr>da_mem := mem_move tmp (tmp + sz) (nat (da_cnt a - ind - 1) * sz) (da_mem a)\<rparr> else a)
            in if da_cnt a > 1
               then (case sys_alloc w of (mem, w) \<Rightarrow>
                 if \<not> mem then (- 1, dst, a, w)
                 else (0, dst, \<lparr>da_cnt = da_cnt a - 1, da_mem = mem_resize (nat (da_cnt a - 1) * sz) (da_mem a) w\<rparr>, w))
               else (0, dst, \<lparr>da_cnt = da_cnt a - 1, da_mem = []\<rparr>, w)))"

definition da_ptr :: "nat \<Rightarrow> int \<Rightarrow> darr \<Rightarrow> nat option" where
  "da_ptr sz ind a = (if sz = 0 \<or> ind \<ge> da_cnt a \<or> ind < 0 then None else Some (nat ind * sz))"

definition da_put :: "nat \<Rightarrow> int \<Rightarrow> byte list option \<Rightarrow> darr \<Rightarrow> int \<times> darr" where
  "da_put sz ind src a = (case src of
      None \<Rightarrow> (- 1, a)
    | Some s \<Rightarrow> (case da_ptr sz ind a of
          None \<Rightarrow> (- 1, a)
        | Some tmp \<Rightarrow> (0, a\<lparr>da_mem := overwrite (da_mem a) tmp (take sz s)\<rparr>)))"

text \<open>\<open>None\<close> is the result -1.\<close>

definition da_get :: "nat \<Rightarrow> int \<Rightarrow> darr \<Rightarrow> byte list option" where
  "da_get sz ind a = map_option (\<lambda>tmp. take sz (drop tmp (da_mem a))) (da_ptr sz ind a)"

definition da_swap :: "nat \<Rightarrow> int \<Rightarrow> int \<Rightarrow> darr \<Rightarrow> int \<times> darr" where
  "da_swap sz ind1 ind2 a = (case (da_ptr sz ind1 a, da_ptr sz ind2 a) of
      (Some p, Some q) \<Rightarrow> (case memswap p q sz (da_mem a) of (rc, m) \<Rightarrow> (rc, a\<lparr>da_mem := m\<rparr>))
    | _ \<Rightarrow> (- 1, a))"

text \<open>The loop of \<open>da_reverse\<close>, over the swap it uses.\<close>

function reverse_loop :: "(int \<Rightarrow> int \<Rightarrow> 's \<Rightarrow> int \<times> 's) \<Rightarrow> int \<Rightarrow> int \<Rightarrow> 's \<Rightarrow> int \<times> 's" where
  "reverse_loop swap b e s =
     (if b < e
      then (let r = swap b e s in if fst r < 0 then (- 1, snd r) else reverse_loop swap (b + 1) (e - 1) (snd r))
      else (0, s))"
  by pat_completeness auto
termination by (relation "measure (\<lambda>(_, b, e, _). nat (e - b))") auto

declare reverse_loop.simps [simp del]

definition da_reverse :: "nat \<Rightarrow> darr \<Rightarrow> int \<times> darr" where
  "da_reverse sz a = reverse_loop (da_swap sz) 0 (da_cnt a - 1) a"

section \<open>The sort\<close>

text \<open>
  One pass of \<open>da_bsort\<close> from index \<open>i\<close> in direction \<open>up\<close>, over the comparison of two neighbours (a negative
  result is an error) and the exchange of two neighbours; \<open>n\<close> counts the exchanges.  An error
  leaves the state as it is.
\<close>

function sort_pass :: "(int \<Rightarrow> 's \<Rightarrow> int) \<Rightarrow> (int \<Rightarrow> 's \<Rightarrow> 's) \<Rightarrow> int \<Rightarrow> bool \<Rightarrow> int \<Rightarrow> nat \<Rightarrow> 's \<Rightarrow> 's + int \<times> nat \<times> 's" where
  "sort_pass cmp exch w_cnt up i n s =
     (if 0 \<le> i \<and> i < w_cnt
      then (let rc = cmp i s
            in if rc < 0 then Inl s
               else sort_pass cmp exch w_cnt up (if up then i + 1 else i - 1)
                      (if rc \<noteq> 0 then n + 1 else n) (if rc \<noteq> 0 then exch i s else s))
      else Inr (i, n, s))"
  by pat_completeness auto
termination
  by (relation "measure (\<lambda>(_, _, w_cnt, up, i, _, _). nat (if up then w_cnt - i else i + 1))") auto

declare sort_pass.simps [simp del]

text \<open>The outer loop; \<open>None\<close> when it does not end.\<close>

partial_function (option) sort_loop ::
  "(int \<Rightarrow> 's \<Rightarrow> int) \<Rightarrow> (int \<Rightarrow> 's \<Rightarrow> 's) \<Rightarrow> int \<Rightarrow> bool \<Rightarrow> int \<Rightarrow> 's \<Rightarrow> (int \<times> 's) option" where
  "sort_loop cmp exch w_cnt up i s = (case sort_pass cmp exch w_cnt up i 0 s of
      Inl s \<Rightarrow> Some (- 1, s)
    | Inr (i, n, s) \<Rightarrow>
        if n > 0 then sort_loop cmp exch w_cnt (\<not> up) (if up then i - 1 else i + 1) s else Some (0, s))"

definition da_bsort :: "nat \<Rightarrow> (byte list \<Rightarrow> byte list \<Rightarrow> int) \<Rightarrow> darr \<Rightarrow> (int \<times> darr) option" where
  "da_bsort sz func a =
     (if sz = 0 then Some (- 1, a)
      else if da_cnt a - 1 < 1 \<or> da_mem a = [] then Some (0, a)
      else sort_loop
             (\<lambda>i a. func (take sz (drop (nat i * sz) (da_mem a))) (take sz (drop (nat (i + 1) * sz) (da_mem a))))
             (\<lambda>i a. a\<lparr>da_mem := snd (memswap (nat i * sz) (nat (i + 1) * sz) sz (da_mem a))\<rparr>)
             (da_cnt a - 1) True 0 a)"

section \<open>Blocks of items\<close>

lemma take_concat_items:
  "\<forall>x \<in> set xs. length x = n \<Longrightarrow> take (i * n) (concat xs) = concat (take i xs)"
proof (induction xs arbitrary: i)
  case (Cons x xs)
  then show ?case by (cases i) auto
qed simp

lemma drop_concat_items:
  "\<forall>x \<in> set xs. length x = n \<Longrightarrow> drop (i * n) (concat xs) = concat (drop i xs)"
proof (induction xs arbitrary: i)
  case (Cons x xs)
  then show ?case by (cases i) auto
qed simp

lemma length_concat_items: "\<forall>x \<in> set xs. length x = n \<Longrightarrow> length (concat xs) = length xs * n"
  by (induction xs) auto

lemma nth_concat_items:
  "\<forall>x \<in> set xs. length x = n \<Longrightarrow> i < length xs \<Longrightarrow> take n (drop (i * n) (concat xs)) = xs ! i"
  by (simp add: drop_concat_items Cons_nth_drop_Suc [symmetric])

lemma records_concat: "0 < n \<Longrightarrow> \<forall>x \<in> set xs. length x = n \<Longrightarrow> records n (concat xs) = xs"
  using length_concat_items[of xs n] by (intro nth_equalityI) (simp_all add: nth_records nth_concat_items)

lemma concat_records: "0 < n \<Longrightarrow> length m = k * n \<Longrightarrow> concat (records n m) = m"
proof (induction k arbitrary: m)
  case (Suc k)
  have d: "length m div n = Suc k" "(length m - n) div n = k" using Suc.prems by simp_all
  have "records n m = take n m # records n (drop n m)"
    by (simp add: records_def d upt_rec[of 0 "Suc k"] map_Suc_upt [symmetric] add.commute comp_def del: upt_Suc)
  with Suc show ?case by simp
qed (simp add: records_def)

lemma overwrite_inside: "p + length d \<le> length m \<Longrightarrow> overwrite m p d = take p m @ d @ drop (p + length d) m"
  by (simp add: overwrite_def)

text \<open>A block that holds the items \<open>xs\<close>.\<close>

definition block :: "nat \<Rightarrow> byte list list \<Rightarrow> darr" where
  "block n xs = \<lparr>da_cnt = int (length xs), da_mem = concat xs\<rparr>"

definition da_ok :: "nat \<Rightarrow> darr \<Rightarrow> bool" where
  "da_ok n a \<longleftrightarrow> 0 < n \<and> 0 \<le> da_cnt a \<and> length (da_mem a) = nat (da_cnt a) * n"

definition da_items :: "nat \<Rightarrow> darr \<Rightarrow> byte list list" where
  "da_items n a = records n (da_mem a)"

lemma da_items_length [simp]: "da_ok n a \<Longrightarrow> int (length (da_items n a)) = da_cnt a"
  by (simp add: da_ok_def da_items_def)

lemma da_items_item: "da_ok n a \<Longrightarrow> \<forall>x \<in> set (da_items n a). length x = n"
  by (auto simp: da_items_def in_set_conv_nth length_nth_records)

lemma da_block: "da_ok n a \<Longrightarrow> a = block n (da_items n a)"
  by (cases a) (simp add: block_def da_ok_def da_items_def concat_records)

lemma block_ok: "0 < n \<Longrightarrow> \<forall>x \<in> set xs. length x = n \<Longrightarrow> da_ok n (block n xs) \<and> da_items n (block n xs) = xs"
  by (simp add: da_ok_def block_def da_items_def records_concat length_concat_items[of xs n])

section \<open>Adding and removing items\<close>

lemma mem_resize_grow:
  "\<exists>j. mem_resize (k + n) m w = m @ j \<and> length j = n" if "length m = k"
  using that by (intro exI[of _ "map (junk w) [length m..<k + n]"]) (simp add: mem_resize_def)

lemma new_block:
  assumes n: "0 < n" and xs: "\<forall>x \<in> set xs. length x = n" and i: "i \<le> length xs"
    and ind: "ind = int i \<or> ind = - 1 \<and> i = length xs" and mem: "sys_alloc w = (True, w')"
  shows "da_new n ind (block n xs) w = (Some (i * n), block n (take i xs @ [replicate n 0] @ drop i xs), w')"
proof -
  let ?X = "concat (take i xs)" and ?Y = "concat (drop i xs)"
  have l: "length ?X = i * n" "length ?Y = (length xs - i) * n" "length (concat xs) = length xs * n"
    using xs length_concat_items[of "take i xs" n] length_concat_items[of "drop i xs" n] length_concat_items[of xs n] i
    by (auto dest: in_set_takeD in_set_dropD)
  have c: "concat xs = ?X @ ?Y" by (metis append_take_drop_id concat_append)
  obtain j where j: "mem_resize (length xs * n + n) (concat xs) w' = ?X @ ?Y @ j" "length j = n"
    using mem_resize_grow[OF l(3), of n w'] by (auto simp: c)
  define m where "m = (if i \<noteq> length xs then mem_move (i * n + n) (i * n) ((length xs - i) * n) (?X @ ?Y @ j) else ?X @ ?Y @ j)"
  have "\<exists>t. m = ?X @ t @ ?Y \<and> length t = n"
  proof (cases "i = length xs")
    case True
    with j show ?thesis by (simp add: m_def)
  next
    case False
    have "m = take (i * n + n) (?X @ ?Y @ j) @ ?Y"
      using False l j(2) by (simp add: m_def mem_move_def overwrite_def)
    moreover have "take (i * n + n) (?X @ ?Y @ j) = ?X @ take n (?Y @ j)" using l by simp
    ultimately show ?thesis using j(2) by (intro exI[of _ "take n (?Y @ j)"]) simp
  qed
  then obtain t where t: "m = ?X @ t @ ?Y" "length t = n" by blast
  then have "overwrite m (i * n) (replicate n 0) = ?X @ replicate n 0 @ ?Y"
    using l by (simp add: overwrite_def)
  moreover have "nat (int (length xs) + 1) * n = length xs * n + n" by (simp add: nat_add_distrib)
  moreover have "nat (int (length xs) - int i) = length xs - i" by simp
  ultimately show ?thesis
    using n i ind mem j(1) unfolding m_def by (auto simp: da_new_def block_def Let_def)
qed

lemma ins_block:
  assumes n: "0 < n" and xs: "\<forall>x \<in> set xs. length x = n" and i: "i \<le> length xs"
    and ind: "ind = int i \<or> ind = - 1 \<and> i = length xs" and mem: "sys_alloc w = (True, w')" and s: "n \<le> length s"
  shows "da_ins n ind (Some s) (block n xs) w = (int i, block n (take i xs @ [take n s] @ drop i xs), w')"
proof -
  have "length (concat (take i xs)) = i * n"
    using xs length_concat_items[of "take i xs" n] i by (auto dest: in_set_takeD)
  then show ?thesis
    using new_block[OF assms(1-5)] i ind s by (auto simp: da_ins_def block_def overwrite_def)
qed

lemma rm_block:
  assumes n: "0 < n" and xs: "\<forall>x \<in> set xs. length x = n" and i: "i < length xs" and mem: "sys_alloc w = (True, w')"
  shows "da_rm n (int i) (block n xs) w =
    (0, xs ! i, block n (take i xs @ drop (Suc i) xs), if 1 < length xs then w' else w)"
proof -
  let ?X = "concat (take i xs)" and ?Y = "concat (drop (Suc i) xs)"
  have l: "length ?X = i * n" "length ?Y = (length xs - Suc i) * n"
    using xs length_concat_items[of "take i xs" n] length_concat_items[of "drop (Suc i) xs" n] i
    by (auto dest: in_set_takeD in_set_dropD)
  have x: "length (xs ! i) = n" using xs i by simp
  have c: "concat xs = ?X @ xs ! i @ ?Y"
    using i by (metis append.assoc concat.simps(2) concat_append id_take_nth_drop)
  have out: "take n (drop (i * n) (concat xs)) = xs ! i" using nth_concat_items[OF xs i] .
  have ln: "nat (int (length xs) - int i - 1) = length xs - Suc i" "nat (int (length xs) - 1) = length xs - 1" using i by simp_all
  define m where "m = (if int i \<noteq> int (length xs) - 1
    then mem_move (i * n) (i * n + n) ((length xs - Suc i) * n) (concat xs) else concat xs)"
  have len: "(length xs - 1) * n = i * n + (length xs - Suc i) * n"
    using i by (simp add: add_mult_distrib [symmetric])
  have mv: "take ((length xs - 1) * n) m = ?X @ ?Y" "(length xs - 1) * n \<le> length m"
  proof -
    have "m = ?X @ ?Y @ drop ((length xs - Suc i) * n) (xs ! i @ ?Y)" if "int i \<noteq> int (length xs) - 1"
      using that l x by (simp add: m_def c mem_move_def overwrite_def)
    moreover have "m = ?X @ xs ! i" "?Y = []" if "int i = int (length xs) - 1"
      using that i by (simp_all add: m_def c)
    ultimately show "take ((length xs - 1) * n) m = ?X @ ?Y" "(length xs - 1) * n \<le> length m"
      unfolding len using l by (cases "int i = int (length xs) - 1"; simp)+
  qed
  have rm: "da_rm n (int i) (block n xs) w =
      (if 1 < length xs
       then (0, xs ! i, \<lparr>da_cnt = int (length xs) - 1, da_mem = mem_resize ((length xs - 1) * n) m w'\<rparr>, w')
       else (0, xs ! i, \<lparr>da_cnt = int (length xs) - 1, da_mem = []\<rparr>, w))"
    using i n mem unfolding m_def by (simp add: da_rm_def block_def Let_def ln out)
  show ?thesis
  proof (cases "1 < length xs")
    case True
    moreover have "mem_resize ((length xs - 1) * n) m w' = ?X @ ?Y" using mv by (simp add: mem_resize_def)
    ultimately show ?thesis using i unfolding rm by (simp add: block_def of_nat_diff)
  next
    case False
    then have "length xs = 1" "i = 0" using i by simp_all
    then show ?thesis unfolding rm by (simp add: block_def)
  qed
qed

section \<open>Exchanging items\<close>

lemma xor_at_nth:
  assumes "p + k \<le> length m" "q + k \<le> length m" "x < length m"
  shows "xor_at k p q m ! x = (if p \<le> x \<and> x < p + k then xor (m ! x) (m ! (q + (x - p))) else m ! x)"
  using assms by (auto simp: xor_at_def nth_overwrite)

lemma length_xor_at: "p + k \<le> length m \<Longrightarrow> q + k \<le> length m \<Longrightarrow> length (xor_at k p q m) = length m"
  by (simp add: xor_at_def length_overwrite)

lemma length_SWAP: "p + k \<le> length m \<Longrightarrow> q + k \<le> length m \<Longrightarrow> length (SWAP k p q m) = length m"
  by (simp add: SWAP_def length_xor_at)

text \<open>On separate places the macro exchanges, on one and the same it clears.\<close>

lemma SWAP_nth:
  assumes "p + k \<le> length m" "q + k \<le> length m" "p + k \<le> q \<or> q + k \<le> p" "x < length m"
  shows "SWAP k p q m ! x = (if p \<le> x \<and> x < p + k then m ! (q + (x - p))
    else if q \<le> x \<and> x < q + k then m ! (p + (x - q)) else m ! x)"
  using assms by (auto simp: SWAP_def xor_at_nth length_xor_at xor.assoc xor.commute xor.left_commute)

lemma SWAP_same_nth:
  assumes "p + k \<le> length m" "x < length m"
  shows "SWAP k p p m ! x = (if p \<le> x \<and> x < p + k then 0 else m ! x)"
  using assms by (auto simp: SWAP_def xor_at_nth length_xor_at)

definition exchanged :: "nat \<Rightarrow> nat \<Rightarrow> nat \<Rightarrow> byte list \<Rightarrow> byte list \<Rightarrow> bool" where
  "exchanged p q c m m' \<longleftrightarrow> length m' = length m \<and> (\<forall>x < length m. m' ! x =
     (if p \<le> x \<and> x < p + c then m ! (q + (x - p)) else if q \<le> x \<and> x < q + c then m ! (p + (x - q)) else m ! x))"

definition cleared :: "nat \<Rightarrow> nat \<Rightarrow> byte list \<Rightarrow> byte list \<Rightarrow> bool" where
  "cleared p c m m' \<longleftrightarrow> length m' = length m \<and> (\<forall>x < length m. m' ! x = (if p \<le> x \<and> x < p + c then 0 else m ! x))"

lemma exchanged_step:
  assumes "exchanged p q c m m'" "p + c + k \<le> length m" "q + c + k \<le> length m" "p + c + k \<le> q \<or> q + c + k \<le> p"
  shows "exchanged p q (c + k) m (SWAP k (p + c) (q + c) m')"
  using assms by (auto simp: exchanged_def SWAP_nth length_SWAP)

lemma cleared_step:
  assumes "cleared p c m m'" "p + c + k \<le> length m"
  shows "cleared p (c + k) m (SWAP k (p + c) (p + c) m')"
  using assms by (auto simp: cleared_def SWAP_same_nth length_SWAP)

lemma exchanged_fold:
  assumes "exchanged p q (k * a) m m'" "a \<le> b" "p + k * b \<le> length m" "q + k * b \<le> length m" "p + k * b \<le> q \<or> q + k * b \<le> p"
  shows "exchanged p q (k * b) m (fold (\<lambda>i. SWAP k (p + k * i) (q + k * i)) [a..<b] m')"
  using assms(2-)
proof (induction b rule: dec_induct)
  case base
  then show ?case using assms(1) by simp
next
  case (step b)
  then have "exchanged p q (k * b) m (fold (\<lambda>i. SWAP k (p + k * i) (q + k * i)) [a..<b] m')" by fastforce
  from exchanged_step[OF this, of k] step show ?case by (simp add: add.assoc add.commute[of k])
qed

lemma cleared_fold:
  assumes "cleared p (k * a) m m'" "a \<le> b" "p + k * b \<le> length m"
  shows "cleared p (k * b) m (fold (\<lambda>i. SWAP k (p + k * i) (p + k * i)) [a..<b] m')"
  using assms(2-)
proof (induction b rule: dec_induct)
  case base
  then show ?case using assms(1) by simp
next
  case (step b)
  then have "cleared p (k * b) m (fold (\<lambda>i. SWAP k (p + k * i) (p + k * i)) [a..<b] m')" by fastforce
  from cleared_step[OF this, of k] step show ?case by (simp add: add.assoc add.commute[of k])
qed

lemma memswap_exchanges:
  assumes "0 < n" "p + n \<le> length m" "q + n \<le> length m" "p + n \<le> q \<or> q + n \<le> p"
  shows "\<exists>m'. memswap p q n m = (0, m') \<and> exchanged p q n m m'"
proof -
  let ?d = "n div 4" and ?m = "fold (\<lambda>i. SWAP 4 (p + 4 * i) (q + 4 * i)) [0..<n div 4] m"
  have "4 * ?d \<le> n" by simp
  then have "exchanged p q (4 * ?d) m ?m"
    by (intro exchanged_fold) (use assms in \<open>auto simp: exchanged_def\<close>)
  from exchanged_fold[of p q 1 "4 * ?d" m ?m n] this assms
  show ?thesis by (simp add: memswap_def Let_def)
qed

lemma memswap_clears:
  assumes "0 < n" "p + n \<le> length m"
  shows "\<exists>m'. memswap p p n m = (0, m') \<and> cleared p n m m'"
proof -
  let ?d = "n div 4" and ?m = "fold (\<lambda>i. SWAP 4 (p + 4 * i) (p + 4 * i)) [0..<n div 4] m"
  have "4 * ?d \<le> n" by simp
  then have "cleared p (4 * ?d) m ?m"
    by (intro cleared_fold) (use assms in \<open>auto simp: cleared_def\<close>)
  from cleared_fold[of p 1 "4 * ?d" m ?m n] this assms
  show ?thesis by (simp add: memswap_def Let_def)
qed

lemma nth_concat_bytes:
  assumes "0 < n" "\<forall>x \<in> set xs. length x = n" "k < length xs * n"
  shows "concat xs ! k = xs ! (k div n) ! (k mod n)"
proof -
  have d: "k div n < length xs" using assms by (simp add: less_mult_imp_div_less)
  have "xs ! (k div n) = take n (drop (k div n * n) (concat xs))" using nth_concat_items[OF assms(2) d] by simp
  then have "xs ! (k div n) ! (k mod n) = drop (k div n * n) (concat xs) ! (k mod n)" using assms(1) by simp
  also have "\<dots> = concat xs ! (k div n * n + k mod n)"
    by (rule nth_drop) (use assms(1-3) length_concat_items[of xs n] d in \<open>simp add: less_imp_le\<close>)
  finally show ?thesis by simp
qed

lemma in_slot:
  assumes "0 < (n :: nat)"
  shows "i * n \<le> x \<and> x < i * n + n \<longleftrightarrow> x div n = i"
proof
  assume "i * n \<le> x \<and> x < i * n + n"
  then show "x div n = i" by (intro div_nat_eqI) (simp_all add: mult.commute)
next
  assume "x div n = i"
  then have "i * n + x mod n = x" by auto
  moreover have "x mod n < n" using assms by simp
  ultimately show "i * n \<le> x \<and> x < i * n + n" by linarith
qed

lemma slot_fits: "i < k \<Longrightarrow> i * n + n \<le> k * (n :: nat)"
  using mult_le_mono1[of "Suc i" k n] by simp

lemma slots_apart: "i \<noteq> j \<Longrightarrow> i * n + n \<le> j * n \<or> j * n + n \<le> i * (n :: nat)"
  using slot_fits[of i j n] slot_fits[of j i n] by linarith

lemma slot_offset:
  assumes "0 < (n :: nat)" "x div n = i"
  shows "j * n + (x - i * n) = j * n + x mod n"
  using assms by (simp add: minus_div_mult_eq_mod [symmetric])

lemma memswap_items:
  assumes n: "0 < n" and xs: "\<forall>x \<in> set xs. length x = n" and ij: "i < length xs" "j < length xs" "i \<noteq> j"
  shows "memswap (i * n) (j * n) n (concat xs) = (0, concat (xs[i := xs ! j, j := xs ! i]))"
proof -
  let ?ys = "xs[i := xs ! j, j := xs ! i]"
  have l: "length (concat xs) = length xs * n" by (rule length_concat_items[OF xs])
  have ys: "\<forall>x \<in> set ?ys. length x = n" using xs ij by (auto simp: in_set_conv_nth nth_list_update)
  have ly: "length (concat ?ys) = length xs * n" using length_concat_items[OF ys] by simp
  obtain m where m: "memswap (i * n) (j * n) n (concat xs) = (0, m)" "exchanged (i * n) (j * n) n (concat xs) m"
    using memswap_exchanges[OF n, of "i * n" "concat xs" "j * n"] slot_fits[of i "length xs" n] slot_fits[of j "length xs" n]
      slots_apart[OF ij(3), of n] ij l by auto
  have "m = concat ?ys"
  proof (rule nth_equalityI)
    show "length m = length (concat ?ys)" using m(2) l ly by (simp add: exchanged_def)
    fix x assume "x < length m"
    then have x: "x < length xs * n" using m(2) l by (simp add: exchanged_def)
    have off: "concat xs ! (k * n + (x - k' * n)) = xs ! k ! (x mod n)" if "x div n = k'" "k < length xs" for k k'
    proof -
      have "k * n + x mod n < length xs * n" using slot_fits[OF that(2), of n] mod_less_divisor[OF n, of x] by linarith
      then show ?thesis using n slot_offset[OF n that(1)] by (simp add: nth_concat_bytes[OF n xs])
    qed
    have "m ! x = (if x div n = i then concat xs ! (j * n + (x - i * n))
        else if x div n = j then concat xs ! (i * n + (x - j * n)) else concat xs ! x)"
      using m(2) x l in_slot[OF n] by (simp add: exchanged_def)
    also have "\<dots> = ?ys ! (x div n) ! (x mod n)"
      using off ij x n nth_concat_bytes[OF n xs x] by (simp add: nth_list_update less_mult_imp_div_less)
    also have "\<dots> = concat ?ys ! x" using nth_concat_bytes[OF n ys, of x] x by simp
    finally show "m ! x = concat ?ys ! x" .
  qed
  with m(1) show ?thesis by simp
qed

lemma memswap_same:
  assumes n: "0 < n" and xs: "\<forall>x \<in> set xs. length x = n" and i: "i < length xs"
  shows "memswap (i * n) (i * n) n (concat xs) = (0, concat (xs[i := replicate n 0]))"
proof -
  let ?ys = "xs[i := replicate n 0]"
  have l: "length (concat xs) = length xs * n" by (rule length_concat_items[OF xs])
  have ys: "\<forall>x \<in> set ?ys. length x = n" using xs set_update_subset_insert[of xs i "replicate n 0"] by auto
  have ly: "length (concat ?ys) = length xs * n" using length_concat_items[OF ys] by simp
  obtain m where m: "memswap (i * n) (i * n) n (concat xs) = (0, m)" "cleared (i * n) n (concat xs) m"
    using memswap_clears[OF n, of "i * n" "concat xs"] slot_fits[of i "length xs" n] i l by auto
  have "m = concat ?ys"
  proof (rule nth_equalityI)
    show "length m = length (concat ?ys)" using m(2) l ly by (simp add: cleared_def)
    fix x assume "x < length m"
    then have x: "x < length xs * n" using m(2) l by (simp add: cleared_def)
    have "m ! x = (if x div n = i then 0 else concat xs ! x)" using m(2) x l in_slot[OF n] by (simp add: cleared_def)
    also have "\<dots> = ?ys ! (x div n) ! (x mod n)"
      using i x n nth_concat_bytes[OF n xs x] by (simp add: nth_list_update less_mult_imp_div_less)
    also have "\<dots> = concat ?ys ! x" using nth_concat_bytes[OF n ys, of x] x by simp
    finally show "m ! x = concat ?ys ! x" .
  qed
  with m(1) show ?thesis by simp
qed

section \<open>Reversing and sorting through exchanges\<close>

text \<open>The pairs in the wrong order.\<close>

fun inversions :: "('b \<Rightarrow> 'k::linorder) \<Rightarrow> 'b list \<Rightarrow> nat" where
  "inversions key [] = 0"
| "inversions key (x # xs) = length (filter (\<lambda>y. key y < key x) xs) + inversions key xs"

lemma filter_swap: "length (filter P (ys @ b # a # zs)) = length (filter P (ys @ a # b # zs))"
  by simp

lemma inversions_swap: "key b < key a \<Longrightarrow> inversions key (ys @ b # a # zs) < inversions key (ys @ a # b # zs)"
  by (induction ys) (simp_all del: filter_append add: filter_swap[of _ _ b a])

lemma list_at_pair: "Suc i < length xs \<Longrightarrow> xs = take i xs @ xs ! i # xs ! Suc i # drop (i + 2) xs"
  by (simp add: Cons_nth_drop_Suc)

lemma swap_pair:
  "Suc i < length xs \<Longrightarrow> xs[i := xs ! Suc i, Suc i := xs ! i] = take i xs @ xs ! Suc i # xs ! i # drop (i + 2) xs"
  by (subst (1 3 5) list_at_pair[of i xs]) (simp_all add: list_update_append nth_append)

text \<open>
  What the loops rely on: a state that holds a list of items of which two can be exchanged.
\<close>

locale exchange_store =
  fixes items :: "'s \<Rightarrow> 'b list"
    and ok :: "'s \<Rightarrow> bool"
    and exch :: "nat \<Rightarrow> nat \<Rightarrow> 's \<Rightarrow> 's"
  assumes ok_exch: "ok s \<Longrightarrow> i < length (items s) \<Longrightarrow> j < length (items s) \<Longrightarrow> i \<noteq> j \<Longrightarrow> ok (exch i j s)"
    and items_exch: "ok s \<Longrightarrow> i < length (items s) \<Longrightarrow> j < length (items s) \<Longrightarrow> i \<noteq> j \<Longrightarrow>
      items (exch i j s) = (items s)[i := items s ! j, j := items s ! i]"
begin

text \<open>The items outside \<open>b\<close> to \<open>e\<close> are already where the reverse has them.\<close>

definition half_reversed :: "'b list \<Rightarrow> int \<Rightarrow> int \<Rightarrow> 's \<Rightarrow> bool" where
  "half_reversed ys b e s \<longleftrightarrow> ok s \<and> length (items s) = length ys \<and> 0 \<le> b \<and> b + e = int (length ys) - 1 \<and>
     (\<forall>k < length ys. items s ! k = (if int k < b \<or> e < int k then ys ! (length ys - 1 - k) else ys ! k))"

lemma reverse_loop_items:
  assumes swap: "\<And>b e s. ok s \<Longrightarrow> 0 \<le> b \<Longrightarrow> b < e \<Longrightarrow> e < int (length (items s)) \<Longrightarrow> swap b e s = (0, exch (nat b) (nat e) s)"
  shows "half_reversed ys b e s \<Longrightarrow> \<exists>s'. reverse_loop swap b e s = (0, s') \<and> ok s' \<and> items s' = rev ys"
proof (induction "nat (e - b)" arbitrary: b e s rule: less_induct)
  case less
  have h: "ok s" "length (items s) = length ys" "0 \<le> b" "b + e = int (length ys) - 1"
    and k: "\<And>k. k < length ys \<Longrightarrow> items s ! k = (if int k < b \<or> e < int k then ys ! (length ys - 1 - k) else ys ! k)"
    using less.prems by (auto simp: half_reversed_def)
  show ?case
  proof (cases "b < e")
    case True
    let ?i = "nat b" and ?j = "nat e"
    have ij: "?i < length (items s)" "?j < length (items s)" "?i \<noteq> ?j" "e < int (length (items s))"
      using True h by auto
    note x = items_exch[OF h(1) ij(1-3)]
    have "half_reversed ys (b + 1) (e - 1) (exch ?i ?j s)"
      unfolding half_reversed_def
    proof (intro conjI allI impI)
      show "ok (exch ?i ?j s)" using ok_exch h(1) ij by blast
      show "length (items (exch ?i ?j s)) = length ys" using x h(2) by simp
      show "0 \<le> b + 1" "b + 1 + (e - 1) = int (length ys) - 1" using h by auto
      fix m assume m: "m < length ys"
      have "length ys - 1 - ?i = ?j" "length ys - 1 - ?j = ?i" using h True by auto
      then show "items (exch ?i ?j s) ! m =
          (if int m < b + 1 \<or> e - 1 < int m then ys ! (length ys - 1 - m) else ys ! m)"
        using k[OF m] k[of ?i] k[of ?j] m ij h True unfolding x by (auto simp: nth_list_update)
    qed
    moreover have "nat (e - 1 - (b + 1)) < nat (e - b)" using True by simp
    ultimately have "\<exists>s'. reverse_loop swap (b + 1) (e - 1) (exch ?i ?j s) = (0, s') \<and> ok s' \<and> items s' = rev ys"
      using less.hyps by blast
    then show ?thesis
      using swap[OF h(1,3) True ij(4)] True by (subst reverse_loop.simps) simp
  next
    case False
    have "items s = rev ys"
    proof (rule nth_equalityI)
      fix m assume "m < length (items s)"
      then have m: "m < length ys" using h(2) by simp
      have "\<not> (int m < b \<or> e < int m) \<Longrightarrow> length ys - 1 - m = m" using False h(4) by auto
      with k[OF m] m show "items s ! m = rev ys ! m" by (auto simp: rev_nth Suc_diff_Suc)
    qed (use h(2) in simp)
    with h(1) False show ?thesis by (subst reverse_loop.simps) simp
  qed
qed

text \<open>One pass of the sort: what it exchanges, it puts right.\<close>

lemma sort_pass_items:
  fixes key :: "'b \<Rightarrow> 'k::linorder"
  assumes cmp: "\<And>i s. ok s \<Longrightarrow> 0 \<le> i \<Longrightarrow> i + 1 < int (length (items s)) \<Longrightarrow>
      cmp i s = (if key (items s ! nat (i + 1)) < key (items s ! nat i) then 1 else 0)"
    and ex: "\<And>i s. ok s \<Longrightarrow> 0 \<le> i \<Longrightarrow> i + 1 < int (length (items s)) \<Longrightarrow> ex i s = exch (nat i) (nat (i + 1)) s"
  shows "ok s \<Longrightarrow> w_cnt = int (length (items s)) - 1 \<Longrightarrow> - 1 \<le> i \<Longrightarrow> i \<le> w_cnt \<Longrightarrow>
    \<exists>n' s'. sort_pass cmp ex w_cnt up i n s = Inr (if up \<and> 0 \<le> i then w_cnt else if \<not> up \<and> i < w_cnt then - 1 else i, n', s') \<and>
      ok s' \<and> length (items s') = length (items s) \<and> mset (items s') = mset (items s) \<and> n \<le> n' \<and>
      inversions key (items s') + (n' - n) \<le> inversions key (items s) \<and>
      (n' = n \<longrightarrow> s' = s \<and> (\<forall>k. Suc k < length (items s) \<longrightarrow> 0 \<le> i \<longrightarrow> (if up then i \<le> int k else int k \<le> i \<and> i < w_cnt) \<longrightarrow>
         \<not> key (items s ! Suc k) < key (items s ! k)))"
proof (induction "nat (if up then w_cnt - i else i + 1)" arbitrary: i n s rule: less_induct)
  case less
  show ?case
  proof (cases "0 \<le> i \<and> i < w_cnt")
    case False
    then show ?thesis using less.prems by (subst sort_pass.simps) auto
  next
    case True
    let ?k = "nat i" and ?i = "if up then i + 1 else i - 1"
    have k: "Suc ?k < length (items s)" "nat (i + 1) = Suc ?k" "i + 1 < int (length (items s))" "int ?k = i"
      using True less.prems(2) by auto
    define wrong where "wrong \<longleftrightarrow> key (items s ! Suc ?k) < key (items s ! ?k)"
    define t where "t = (if wrong then exch ?k (Suc ?k) s else s)"
    have c: "cmp i s = (if wrong then 1 else 0)" "ex i s = exch ?k (Suc ?k) s"
      using cmp[OF less.prems(1) _ k(3)] ex[OF less.prems(1) _ k(3)] True k by (simp_all add: wrong_def)
    have step: "sort_pass cmp ex w_cnt up i n s = sort_pass cmp ex w_cnt up ?i (if wrong then n + 1 else n) t"
      using True by (subst sort_pass.simps) (simp add: c t_def Let_def)
    have t: "ok t \<and> length (items t) = length (items s) \<and> mset (items t) = mset (items s) \<and>
        inversions key (items t) + (if wrong then 1 else 0) \<le> inversions key (items s)"
    proof (cases wrong)
      case True
      have it: "items t = take ?k (items s) @ items s ! Suc ?k # items s ! ?k # drop (?k + 2) (items s)"
        using items_exch[OF less.prems(1), of ?k "Suc ?k"] swap_pair[OF k(1)] k True by (simp add: t_def)
      have "inversions key (items t) < inversions key (items s)"
        unfolding it by (subst (2) list_at_pair[OF k(1)]) (rule inversions_swap, use True wrong_def in simp)
      moreover have "mset (items t) = mset (items s)"
        unfolding it by (subst (2) list_at_pair[OF k(1)]) simp
      moreover have "ok t" using True ok_exch[OF less.prems(1), of ?k "Suc ?k"] k by (simp add: t_def)
      ultimately show ?thesis using True by (metis Suc_leI add.commute plus_1_eq_Suc size_mset)
    qed (use less.prems in \<open>simp add: t_def\<close>)
    have m: "nat (if up then w_cnt - ?i else ?i + 1) < nat (if up then w_cnt - i else i + 1)" using True by auto
    have pr: "ok t" "w_cnt = int (length (items t)) - 1" "- 1 \<le> ?i" "?i \<le> w_cnt" using t less.prems True by auto
    from less.hyps[OF m pr, of "if wrong then n + 1 else n"] obtain n' s' where
      s': "sort_pass cmp ex w_cnt up ?i (if wrong then n + 1 else n) t =
          Inr (if up \<and> 0 \<le> ?i then w_cnt else if \<not> up \<and> ?i < w_cnt then - 1 else ?i, n', s')"
        "ok s'" "length (items s') = length (items t)" "mset (items s') = mset (items t)" "(if wrong then n + 1 else n) \<le> n'"
        "inversions key (items s') + (n' - (if wrong then n + 1 else n)) \<le> inversions key (items t)"
      and quiet: "n' = (if wrong then n + 1 else n) \<Longrightarrow> s' = t \<and> (\<forall>k. Suc k < length (items t) \<longrightarrow> 0 \<le> ?i \<longrightarrow>
          (if up then ?i \<le> int k else int k \<le> ?i \<and> ?i < w_cnt) \<longrightarrow> \<not> key (items t ! Suc k) < key (items t ! k))"
      by blast
    have "s' = s \<and> (\<forall>j. Suc j < length (items s) \<longrightarrow> 0 \<le> i \<longrightarrow> (if up then i \<le> int j else int j \<le> i \<and> i < w_cnt) \<longrightarrow>
         \<not> key (items s ! Suc j) < key (items s ! j))" if "n' = n"
    proof -
      have w: "\<not> wrong" using that s'(5) by (auto split: if_splits)
      then have "s' = s" and q: "\<forall>j. Suc j < length (items s) \<longrightarrow> 0 \<le> ?i \<longrightarrow>
          (if up then ?i \<le> int j else int j \<le> ?i \<and> ?i < w_cnt) \<longrightarrow> \<not> key (items s ! Suc j) < key (items s ! j)"
        using quiet that by (simp_all add: t_def)
      have "\<not> key (items s ! Suc j) < key (items s ! j)"
        if j: "Suc j < length (items s)" "if up then i \<le> int j else int j \<le> i" for j
      proof (cases "int j = i")
        case True
        then show ?thesis using w k(4) by (simp add: wrong_def) (metis nat_int)
      next
        case False
        with q[rule_format, OF j(1)] j(2) True show ?thesis by (cases up) auto
      qed
      then show ?thesis using \<open>s' = s\<close> by auto
    qed
    with s' t step True show ?thesis
      by (intro exI[of _ n'] exI[of _ s']) (auto split: if_splits)
  qed
qed

lemma sort_loop_items:
  fixes key :: "'b \<Rightarrow> 'k::linorder"
  assumes cmp: "\<And>i s. ok s \<Longrightarrow> 0 \<le> i \<Longrightarrow> i + 1 < int (length (items s)) \<Longrightarrow>
      cmp i s = (if key (items s ! nat (i + 1)) < key (items s ! nat i) then 1 else 0)"
    and ex: "\<And>i s. ok s \<Longrightarrow> 0 \<le> i \<Longrightarrow> i + 1 < int (length (items s)) \<Longrightarrow> ex i s = exch (nat i) (nat (i + 1)) s"
  shows "ok s \<Longrightarrow> w_cnt = int (length (items s)) - 1 \<Longrightarrow> 1 \<le> w_cnt \<Longrightarrow> i = (if up then 0 else w_cnt - 1) \<Longrightarrow>
    \<exists>s'. sort_loop cmp ex w_cnt up i s = Some (0, s') \<and> ok s' \<and>
      mset (items s') = mset (items s) \<and> sorted (map key (items s'))"
proof (induction "inversions key (items s)" arbitrary: i up s rule: less_induct)
  case less
  have i: "- 1 \<le> i" "i \<le> w_cnt" using less.prems by auto
  from sort_pass_items[OF cmp ex less.prems(1,2) i, of up 0] less.prems(3,4) obtain n' s' where
    p: "sort_pass cmp ex w_cnt up i 0 s = Inr (if up then w_cnt else - 1, n', s')"
      "ok s'" "length (items s') = length (items s)" "mset (items s') = mset (items s)"
      "inversions key (items s') + n' \<le> inversions key (items s)"
    and q: "n' = 0 \<longrightarrow> s' = s \<and> (\<forall>k. Suc k < length (items s) \<longrightarrow> 0 \<le> i \<longrightarrow>
        (if up then i \<le> int k else int k \<le> i \<and> i < w_cnt) \<longrightarrow> \<not> key (items s ! Suc k) < key (items s ! k))"
    by (auto split: if_splits)
  show ?case
  proof (cases "n' > 0")
    case True
    then have "inversions key (items s') < inversions key (items s)" using p(5) by simp
    from less.hyps[OF this p(2), of "if \<not> up then 0 else w_cnt - 1" "\<not> up"] less.prems p(3)
    obtain s'' where "sort_loop cmp ex w_cnt (\<not> up) (if \<not> up then 0 else w_cnt - 1) s' = Some (0, s'')" "ok s''"
      "mset (items s'') = mset (items s')" "sorted (map key (items s''))" by auto
    with p True show ?thesis by (subst sort_loop.simps) auto
  next
    case False
    have "\<not> key (items s ! Suc k) < key (items s ! k)" if "Suc k < length (items s)" for k
      using q False less.prems that by auto
    then have "sorted (map key (items s))" by (auto simp: sorted_iff_nth_Suc not_less)
    with p q False less.prems(1) show ?thesis by (subst sort_loop.simps) auto
  qed
qed

end

section \<open>The arrays provide the interface\<close>

definition da_exch :: "nat \<Rightarrow> nat \<Rightarrow> nat \<Rightarrow> darr \<Rightarrow> darr" where
  "da_exch n i j a = a\<lparr>da_mem := snd (memswap (i * n) (j * n) n (da_mem a))\<rparr>"

lemma da_exch_block:
  assumes "0 < n" "\<forall>x \<in> set xs. length x = n" "i < length xs" "j < length xs" "i \<noteq> j"
  shows "da_exch n i j (block n xs) = block n (xs[i := xs ! j, j := xs ! i])"
  using memswap_items[OF assms] by (simp add: da_exch_def block_def)

lemma update_items: "\<forall>x \<in> set xs. length x = n \<Longrightarrow> i < length xs \<Longrightarrow> j < length xs \<Longrightarrow>
    \<forall>x \<in> set (xs[i := xs ! j, j := xs ! i]). length x = n"
  using set_swap[of i xs j] by simp

interpretation da: exchange_store "da_items n" "da_ok n" "da_exch n" for n :: nat
proof
  fix s i j
  assume a: "da_ok n s" "i < length (da_items n s)" "j < length (da_items n s)" "i \<noteq> j"
  let ?xs = "da_items n s"
  have n: "0 < n" using a(1) by (simp add: da_ok_def)
  have "da_exch n i j s = block n (?xs[i := ?xs ! j, j := ?xs ! i])"
    using da_exch_block[OF n da_items_item[OF a(1)] a(2-4)] da_block[OF a(1)] by simp
  then show "da_ok n (da_exch n i j s)" "da_items n (da_exch n i j s) = ?xs[i := ?xs ! j, j := ?xs ! i]"
    using block_ok[OF n update_items[OF da_items_item[OF a(1)] a(2,3)]] by simp_all
qed

lemma da_swap_exch:
  assumes "da_ok n a" "0 \<le> i" "i < da_cnt a" "0 \<le> j" "j < da_cnt a" "i \<noteq> j"
  shows "da_swap n i j a = (0, da_exch n (nat i) (nat j) a)"
proof -
  have n: "0 < n" using assms(1) by (simp add: da_ok_def)
  have l: "int (length (da_items n a)) = da_cnt a" using da_items_length[OF assms(1)] .
  have "fst (memswap (nat i * n) (nat j * n) n (da_mem a)) = 0" using n by (simp add: memswap_def Let_def)
  then show ?thesis
    using assms n by (auto simp: da_swap_def da_ptr_def da_exch_def split: prod.splits)
qed

lemma block_items:
  assumes "da_ok n a"
  obtains xs where "0 < n" "\<forall>x \<in> set xs. length x = n" "a = block n xs" "da_items n a = xs"
  using da_items_item[OF assms] da_block[OF assms] assms by (auto simp: da_ok_def)

lemma da_ins_items:
  assumes "da_ok n a" "sys_alloc w = (True, w')" "length s = n" "i \<le> length (da_items n a)"
    and "ind = int i \<or> ind = - 1 \<and> i = length (da_items n a)"
  shows "\<exists>a'. da_ins n ind (Some s) a w = (int i, a', w') \<and> da_ok n a' \<and>
    da_items n a' = take i (da_items n a) @ [s] @ drop i (da_items n a)"
proof -
  obtain xs where xs: "0 < n" "\<forall>x \<in> set xs. length x = n" "a = block n xs" "da_items n a = xs"
    by (rule block_items[OF assms(1)])
  let ?ys = "take i xs @ [s] @ drop i xs"
  have "\<forall>x \<in> set ?ys. length x = n" using xs(2) assms(3) by (auto dest: in_set_takeD in_set_dropD)
  from block_ok[OF xs(1) this] ins_block[OF xs(1,2) _ _ assms(2), of i ind s] assms(3-5) xs(3,4)
  show ?thesis by (intro exI[of _ "block n ?ys"]) simp
qed

lemma da_rm_items:
  assumes "da_ok n a" "sys_alloc w = (True, w')" "i < length (da_items n a)"
  shows "\<exists>a'. da_rm n (int i) a w = (0, da_items n a ! i, a', if 1 < da_cnt a then w' else w) \<and> da_ok n a' \<and>
    da_items n a' = take i (da_items n a) @ drop (Suc i) (da_items n a)"
proof -
  obtain xs where xs: "0 < n" "\<forall>x \<in> set xs. length x = n" "a = block n xs" "da_items n a = xs"
    by (rule block_items[OF assms(1)])
  let ?ys = "take i xs @ drop (Suc i) xs"
  have "\<forall>x \<in> set ?ys. length x = n" using xs(2) by (auto dest: in_set_takeD in_set_dropD)
  from block_ok[OF xs(1) this] rm_block[OF xs(1,2) _ assms(2), of i] assms(3) xs(3,4)
  show ?thesis by (intro exI[of _ "block n ?ys"]) (auto simp: block_def)
qed

lemma da_put_items:
  assumes "da_ok n a" "length s = n" "i < length (da_items n a)"
  shows "\<exists>a'. da_put n (int i) (Some s) a = (0, a') \<and> da_ok n a' \<and> da_items n a' = (da_items n a)[i := s]"
proof -
  have n: "0 < n" and i: "int i < da_cnt a" using assms by (auto simp: da_ok_def da_items_def)
  have c: "i < length (da_mem a) div n" using assms(3) by (simp add: da_items_def)
  have "length (overwrite (da_mem a) (i * n) s) = length (da_mem a)"
    using record_fits[OF c] assms(2) by (simp add: length_overwrite)
  with assms n i records_overwrite[OF n c assms(2)] show ?thesis
    by (intro exI[of _ "a\<lparr>da_mem := overwrite (da_mem a) (i * n) s\<rparr>"])
       (simp add: da_put_def da_ptr_def da_ok_def da_items_def)
qed

lemma da_get_items: "da_ok n a \<Longrightarrow> i < length (da_items n a) \<Longrightarrow> da_get n (int i) a = Some (da_items n a ! i)"
  using da_items_length[of n a] by (simp add: da_get_def da_ptr_def da_items_def nth_records) (simp add: da_ok_def)

lemma da_swap_items:
  assumes "da_ok n a" "i < length (da_items n a)" "j < length (da_items n a)" "i \<noteq> j"
  shows "\<exists>a'. da_swap n (int i) (int j) a = (0, a') \<and> da_ok n a' \<and>
    da_items n a' = (da_items n a)[i := da_items n a ! j, j := da_items n a ! i]"
  using da_swap_exch[OF assms(1), of "int i" "int j"] da_items_length[OF assms(1)] assms(2-)
    da.ok_exch[OF assms] da.items_exch[OF assms] by simp

lemma da_reverse_items:
  assumes "da_ok n a"
  shows "\<exists>a'. da_reverse n a = (0, a') \<and> da_ok n a' \<and> da_items n a' = rev (da_items n a)"
proof -
  have "da.half_reversed n (da_items n a) 0 (da_cnt a - 1) a"
    using da_items_length[OF assms] assms by (auto simp: da.half_reversed_def simp del: da_items_length)
  from da.reverse_loop_items[OF _ this, of "da_swap n"] show ?thesis
    using da_swap_exch da_items_length by (auto simp: da_reverse_def)
qed

lemma da_bsort_items:
  fixes key :: "byte list \<Rightarrow> 'k::linorder"
  assumes a: "da_ok n a" and func: "\<And>x y. func x y = (if key y < key x then 1 else 0)"
  shows "\<exists>a'. da_bsort n func a = Some (0, a') \<and> da_ok n a' \<and>
    mset (da_items n a') = mset (da_items n a) \<and> sorted (map key (da_items n a'))"
proof (cases "da_cnt a - 1 < 1")
  case True
  then have "length (da_items n a) \<le> 1" using da_items_length[OF a] by linarith
  then have "sorted (map key (da_items n a))" by (intro sorted01) simp
  with True a show ?thesis by (simp add: da_bsort_def da_ok_def)
next
  case False
  let ?cmp = "\<lambda>i a. func (take n (drop (nat i * n) (da_mem a))) (take n (drop (nat (i + 1) * n) (da_mem a)))"
  let ?ex = "\<lambda>i a. a\<lparr>da_mem := snd (memswap (nat i * n) (nat (i + 1) * n) n (da_mem a))\<rparr>"
  have "?cmp i s = (if key (da_items n s ! nat (i + 1)) < key (da_items n s ! nat i) then 1 else 0)"
    if "da_ok n s" "0 \<le> i" "i + 1 < int (length (da_items n s))" for i s
  proof -
    have "nat i < length (da_items n s)" "nat (i + 1) < length (da_items n s)"
      using that by (auto simp del: da_items_length)
    then show ?thesis by (simp add: func da_items_def nth_records)
  qed
  moreover have "?ex i s = da_exch n (nat i) (nat (i + 1)) s" for i s by (simp add: da_exch_def)
  ultimately have "\<exists>a'. sort_loop ?cmp ?ex (da_cnt a - 1) True 0 a = Some (0, a') \<and> da_ok n a' \<and>
      mset (da_items n a') = mset (da_items n a) \<and> sorted (map key (da_items n a'))"
    using False da_items_length[OF a] by (intro da.sort_loop_items[OF _ _ a]) auto
  moreover have "da_bsort n func a = sort_loop ?cmp ?ex (da_cnt a - 1) True 0 a"
    using False a by (auto simp: da_bsort_def da_ok_def)
  ultimately show ?thesis by simp
qed

section \<open>Properties\<close>

text \<open>Exchanging an item with itself clears it.\<close>

lemma da_swap_same:
  assumes "da_ok n a" "i < length (da_items n a)"
  shows "\<exists>a'. da_swap n (int i) (int i) a = (0, a') \<and> da_ok n a' \<and> da_items n a' = (da_items n a)[i := replicate n 0]"
proof -
  obtain xs where xs: "0 < n" "\<forall>x \<in> set xs. length x = n" "a = block n xs" "da_items n a = xs"
    by (rule block_items[OF assms(1)])
  have i: "i < length xs" using assms(2) xs(4) by simp
  have s: "da_swap n (int i) (int i) a = (0, block n (xs[i := replicate n 0]))"
    using memswap_same[OF xs(1,2) i] xs i by (simp add: da_swap_def da_ptr_def block_def)
  have "\<forall>x \<in> set (xs[i := replicate n 0]). length x = n" using xs(2) set_update_subset_insert[of xs i] by fastforce
  from block_ok[OF xs(1) this] s show ?thesis by (intro exI[of _ "block n (xs[i := replicate n 0])"]) (simp add: xs(4))
qed

lemma da_out_of_range:
  assumes "da_ok n a" "k < 0 \<or> int (length (da_items n a)) \<le> k"
  shows "da_rm n k a w = (- 1, [], a, w)" "da_put n k (Some s) a = (- 1, a)" "da_get n k a = None"
    "da_swap n k l a = (- 1, a)" "da_swap n l k a = (- 1, a)"
  using assms da_items_length[OF assms(1)]
  by (auto simp: da_rm_def da_put_def da_get_def da_ptr_def da_swap_def split: option.splits)

text \<open>
  C21: A dynamic array implements a list: on every sound array, empty ones included, and with memory, \<open>da_ins\<close>
  inserts at an index up to the length (or at the end for -1), \<open>da_rm\<close> removes and hands out the item at an index, \<open>da_put\<close>
  and \<open>da_get\<close> write and read one item, \<open>da_swap\<close> exchanges two items (and clears an item that is exchanged
  with itself), \<open>da_reverse\<close> reverses all of them; with any other index they return -1 and change nothing,
  and the array stays sound.\<close>

theorem array_refines_list:
  assumes "da_ok n a" "sys_alloc w = (True, w')" "length s = n"
  shows "let xs = da_items n a; len = length xs in
    (\<forall>i\<le>len. \<exists>a'. da_ins n (int i) (Some s) a w = (int i, a', w') \<and> da_ok n a' \<and> da_items n a' = take i xs @ [s] @ drop i xs) \<and>
    (\<exists>a'. da_ins n (- 1) (Some s) a w = (int len, a', w') \<and> da_ok n a' \<and> da_items n a' = xs @ [s]) \<and>
    (\<forall>i<len.
      (\<exists>a'. da_rm n (int i) a w = (0, xs ! i, a', if 1 < len then w' else w) \<and> da_ok n a' \<and>
        da_items n a' = take i xs @ drop (Suc i) xs) \<and>
      (\<exists>a'. da_put n (int i) (Some s) a = (0, a') \<and> da_ok n a' \<and> da_items n a' = xs[i := s]) \<and>
      da_get n (int i) a = Some (xs ! i) \<and>
      (\<forall>j<len. \<exists>a'. da_swap n (int i) (int j) a = (0, a') \<and> da_ok n a' \<and>
        da_items n a' = (if i = j then xs[i := replicate n 0] else xs[i := xs ! j, j := xs ! i]))) \<and>
    (\<exists>a'. da_reverse n a = (0, a') \<and> da_ok n a' \<and> da_items n a' = rev xs) \<and>
    (\<forall>k. k < 0 \<or> int len \<le> k \<longrightarrow> da_rm n k a w = (- 1, [], a, w) \<and> da_put n k (Some s) a = (- 1, a) \<and>
      da_get n k a = None \<and> (\<forall>l. da_swap n k l a = (- 1, a) \<and> da_swap n l k a = (- 1, a))) \<and>
    (\<forall>k. k < - 1 \<or> int len < k \<longrightarrow> da_ins n k (Some s) a w = (- 1, a, w))"
proof -
  have len: "da_cnt a = int (length (da_items n a))" using da_items_length[OF assms(1)] assms(1) by (simp add: da_ok_def)
  have ins: "da_ins n k (Some s) a w = (- 1, a, w)" if "k < - 1 \<or> int (length (da_items n a)) < k" for k
    using that len by (auto simp: da_ins_def da_new_def)
  have swap: "\<exists>a'. da_swap n (int i) (int j) a = (0, a') \<and> da_ok n a' \<and> da_items n a' =
      (if i = j then (da_items n a)[i := replicate n 0] else (da_items n a)[i := da_items n a ! j, j := da_items n a ! i])"
    if "i < length (da_items n a)" "j < length (da_items n a)" for i j
    using da_swap_same[OF assms(1) that(1)] da_swap_items[OF assms(1) that] by (cases "i = j") auto
  show ?thesis
    unfolding Let_def
    using da_ins_items[OF assms] da_ins_items[OF assms, of "length (da_items n a)" "- 1"] da_rm_items[OF assms(1,2)]
      da_put_items[OF assms(1,3)] da_get_items[OF assms(1)] swap da_reverse_items[OF assms(1)] da_out_of_range[OF assms(1)] ins
    by (intro conjI allI impI) (simp_all add: len)
qed

text \<open>
  C22: The bidirectional bubble sort ends and sorts: on every sound array, with a comparison that says
  whether one key is above another, \<open>da_bsort\<close> returns 0 and leaves the same items in the order of their keys.\<close>

theorem bsort_sorts:
  fixes key :: "byte list \<Rightarrow> 'k::linorder"
  assumes a: "da_ok n a" and func: "\<And>x y. func x y = (if key y < key x then 1 else 0)"
  shows "\<exists>a'. da_bsort n func a = Some (0, a') \<and> da_ok n a' \<and>
    mset (da_items n a') = mset (da_items n a) \<and> sorted (map key (da_items n a'))"
  by (rule da_bsort_items[OF assms])

definition demo_array :: darr where
  "demo_array = \<lparr>da_cnt = 3, da_mem = [7, 0, 5, 0, 6, 0]\<rparr>"

lemma demo_array_ok: "da_ok 2 demo_array" "da_items 2 demo_array = [[7, 0], [5, 0], [6, 0]]"
  by (simp_all add: da_ok_def demo_array_def da_items_def records_def upt_rec)

theorem array_refines_list_witness:
  "\<exists>a'. da_ins 2 1 (Some [9, 9]) demo_array (demo_dbs True []) = (1, a', demo_dbs True []) \<and>
     da_items 2 a' = [[7, 0], [9, 9], [5, 0], [6, 0]]"
proof -
  have "sys_alloc (demo_dbs True []) = (True, demo_dbs True [])" by (simp add: sys_alloc_def next_outcome_def demo_dbs_def)
  then show ?thesis
    using array_refines_list[OF demo_array_ok(1), of "demo_dbs True []" "demo_dbs True []" "[9, 9]"]
    by (auto simp: demo_array_ok(2) Let_def dest!: spec[of "\<lambda>i. i \<le> 3 \<longrightarrow> _ i" 1])
qed

theorem bsort_sorts_witness:
  "\<exists>a'. da_bsort 2 (\<lambda>x y. if unat (hd y) < unat (hd x) then 1 else 0) demo_array = Some (0, a') \<and>
     sorted (map (unat \<circ> hd) (da_items 2 a'))"
  using bsort_sorts[OF demo_array_ok(1), of "\<lambda>x y. if unat (hd y) < unat (hd x) then 1 else 0" "unat \<circ> hd"] by auto

end
