(* ===== verification/Rulers.thy ===== *)
theory Rulers
  imports Getopt Arrays
begin

text \<open>
  The rulers, which the core starts after it has written the lists of addresses that may pass:
  \<open>mkacl\<close> (\<open>src/src/bee/rulers/mkacl/mkacl.c\<close>) compares the access list of a router with the list of the
  billing and prints the commands that make up the difference; \<open>beeipf\<close> (\<open>rulers/traff/beeipf.c\<close>) writes
  packet filter rules into a copy of the filter file.  A standard stream is its text.
\<close>

section \<open>Host specifications\<close>

text \<open>\<open>hostspec_t\<close>: an address and a mask, eight bytes.\<close>

record hostspec =
  bhost :: u32
  bmask :: u32

definition spec_bytes :: "hostspec \<Rightarrow> byte list" where
  "spec_bytes h = le_bytes 4 (unat (bhost h)) @ le_bytes 4 (unat (bmask h))"

definition spec_of :: "byte list \<Rightarrow> hostspec" where
  "spec_of bs = \<lparr>bhost = word_of_nat (un_le (take 4 bs)), bmask = word_of_nat (un_le (take 4 (drop 4 bs)))\<rparr>"

abbreviation (input) SPEC_SIZE :: nat where "SPEC_SIZE \<equiv> 8"

definition ip_compare :: "byte list \<Rightarrow> byte list \<Rightarrow> int" where
  "ip_compare one two =
     (if bmask (spec_of one) = bmask (spec_of two)
      then (if htonl (bhost (spec_of two)) < htonl (bhost (spec_of one)) then 1 else 0)
      else (if bmask (spec_of two) < bmask (spec_of one) then 1 else 0))"

section \<open>The access list of the router\<close>

definition SPACES :: string where
  "SPACES = [CHR '' '', CHR 0x09, CHR 0x0A]"

text \<open>A line \<open>permit ip host A\<close> or \<open>permit ip A W\<close> with the wildcard \<open>W\<close>, the complement of the mask.\<close>

definition acl_host :: "ptr \<Rightarrow> hostspec option" where
  "acl_host ptr = (case next_token ptr SPACES of
      (None, _) \<Rightarrow> None
    | (Some str, ptr) \<Rightarrow>
        (let single = (str = ''host'')
         in case (if single then next_token ptr SPACES else (Some str, ptr)) of
              (None, _) \<Rightarrow> None
            | (Some str, ptr) \<Rightarrow> (case inet_pton str of
                  None \<Rightarrow> None
                | Some addr \<Rightarrow>
                    if single then Some \<lparr>bhost = addr, bmask = 0xffffffff\<rparr>
                    else (case fst (next_token ptr SPACES) of
                        None \<Rightarrow> None
                      | Some str \<Rightarrow> map_option (\<lambda>m. \<lparr>bhost = addr, bmask = NOT m\<rparr>) (inet_pton str)))))"

definition acl_line :: "string \<Rightarrow> hostspec option" where
  "acl_line buf = (case next_token (Some buf) SPACES of
      (None, _) \<Rightarrow> None
    | (Some str, ptr) \<Rightarrow>
        if str \<noteq> ''permit'' then None
        else (case next_token ptr SPACES of
            (None, _) \<Rightarrow> None
          | (Some str, ptr) \<Rightarrow> if str \<noteq> ''ip'' then None else acl_host ptr))"

text \<open>A line of the list of the billing.\<close>

definition allowed_line :: "string \<Rightarrow> hostspec option" where
  "allowed_line buf = (case fst (next_token (Some buf) SPACES) of
      None \<Rightarrow> None
    | Some str \<Rightarrow> map_option (\<lambda>(a, m). \<lparr>bhost = a, bmask = m\<rparr>) (make_addrandmask str))"

text \<open>The loop over the lines of a list, read into a buffer of 256 bytes.\<close>

function load_list :: "(string \<Rightarrow> hostspec option) \<Rightarrow> string \<Rightarrow> darr \<times> 'a os_scheme \<Rightarrow> darr \<times> 'a os_scheme" where
  "load_list parse inp s =
     (if inp = [] then s
      else (let l = fgets 256 inp
            in load_list parse (snd l) (case parse (c_str (fst l)) of
                 None \<Rightarrow> s
               | Some h \<Rightarrow> (let r = da_ins SPEC_SIZE (- 1) (Some (spec_bytes h)) (fst s) (snd s) in (fst (snd r), snd (snd r))))))"
  by pat_completeness auto
termination
  by (relation "measure (\<lambda>(_, inp, _). length inp)") (simp_all add: fgets_length)

declare load_list.simps [simp del]

section \<open>The difference\<close>

definition item_at :: "int \<Rightarrow> darr \<Rightarrow> byte list" where
  "item_at i a = take SPEC_SIZE (drop (nat i * SPEC_SIZE) (da_mem a))"

text \<open>Removing an item makes the array shorter, or consumes a failing outcome.\<close>

lemma da_rm_progress:
  "0 < n \<Longrightarrow> 0 \<le> i \<Longrightarrow> i < da_cnt a \<Longrightarrow>
     da_cnt (fst (snd (snd (da_rm n i a w)))) \<le> da_cnt a \<and>
     length (script (snd (snd (snd (da_rm n i a w))))) \<le> length (script w) \<and>
     (da_cnt (fst (snd (snd (da_rm n i a w)))) < da_cnt a \<or>
      length (script (snd (snd (snd (da_rm n i a w))))) < length (script w))"
  by (auto simp: da_rm_def sys_alloc_def next_outcome_def Let_def split: list.splits)

text \<open>The loop that removes what both sorted lists hold.\<close>

function merge_loop :: "int \<Rightarrow> int \<Rightarrow> darr \<Rightarrow> darr \<Rightarrow> 'a os_scheme \<Rightarrow> darr \<times> darr \<times> 'a os_scheme" where
  "merge_loop i i2 cur alw w =
     (if 0 \<le> i \<and> 0 \<le> i2 \<and> i < da_cnt cur \<and> i2 < da_cnt alw
      then (if spec_of (item_at i cur) = spec_of (item_at i2 alw)
            then (let r = da_rm SPEC_SIZE i cur w; q = da_rm SPEC_SIZE i2 alw (snd (snd (snd r)))
                  in merge_loop i i2 (fst (snd (snd r))) (fst (snd (snd q))) (snd (snd (snd q))))
            else if ip_compare (item_at i cur) (item_at i2 alw) \<noteq> 0 then merge_loop i (i2 + 1) cur alw w
            else merge_loop (i + 1) i2 cur alw w)
      else (cur, alw, w))"
  by pat_completeness auto
termination
proof (relation "measure (\<lambda>(i, i2, cur, alw, w). nat (da_cnt cur - i) + nat (da_cnt alw - i2) + length (script w))", simp)
  fix i i2 :: int and cur alw :: darr and w :: "'a os_scheme" and r q
  assume c: "0 \<le> i \<and> 0 \<le> i2 \<and> i < da_cnt cur \<and> i2 < da_cnt alw"
    and r: "r = da_rm SPEC_SIZE i cur w" and q: "q = da_rm SPEC_SIZE i2 alw (snd (snd (snd r)))"
  from c da_rm_progress[of SPEC_SIZE i cur w] da_rm_progress[of SPEC_SIZE i2 alw "snd (snd (snd r))"]
  show "((i, i2, fst (snd (snd r)), fst (snd (snd q)), snd (snd (snd q))), i, i2, cur, alw, w)
      \<in> measure (\<lambda>(i, i2, cur, alw, w). nat (da_cnt cur - i) + nat (da_cnt alw - i2) + length (script w))"
    unfolding r q by (auto simp: split_beta)
qed auto

declare merge_loop.simps [simp del]

section \<open>The commands\<close>

definition head_add :: string where
  "head_add = ''/usr/bin/rsh -l bee 192.168.213.201 '' @ [CHR 0x22] @ ''access-template 100 BEE ''"

definition head_rm :: string where
  "head_rm = ''/usr/bin/rsh -l bee 192.168.213.201 '' @ [CHR 0x22] @ ''clear access-template 100 BEE ''"

definition tail_any :: string where
  "tail_any = '' any'' @ [CHR 0x22]"

definition acl_command :: "string \<Rightarrow> hostspec \<Rightarrow> string" where
  "acl_command head h = '' '' @ head @ '' '' @ inet_ntop (bhost h) @ '' '' @ inet_ntop (NOT (bmask h)) @ tail_any @ [CHR 0x0A]"

text \<open>Printing; the result of \<open>fprintf\<close> is ignored.\<close>

fun print_all :: "string list \<Rightarrow> string \<times> 'a os_scheme \<Rightarrow> string \<times> 'a os_scheme" where
  "print_all [] s = s"
| "print_all (x # xs) s = (case sys_fprintf (fst s) x (snd s) of (_, t, w) \<Rightarrow> print_all xs (t, w))"

definition acl_commands :: "darr \<Rightarrow> darr \<Rightarrow> string list" where
  "acl_commands cur alw =
     map (\<lambda>i. acl_command head_add (spec_of (item_at (int i) alw))) [0..<nat (da_cnt alw)] @
     map (\<lambda>i. acl_command head_rm (spec_of (item_at (int i) cur))) [0..<nat (da_cnt cur)]"

text \<open>The files a program reads and writes; a minus sign is the standard stream.\<close>

definition open_in :: "string \<Rightarrow> string \<Rightarrow> 'a os_scheme \<Rightarrow> string option \<times> string \<times> 'a os_scheme" where
  "open_in path stdin w =
     (if path = ''-'' then (Some stdin, [], w)
      else (case sys_fopen_r path w of (t, w) \<Rightarrow> (t, stdin, w)))"

definition open_out :: "string \<Rightarrow> 'a os_scheme \<Rightarrow> bool \<times> 'a os_scheme" where
  "open_out path w = (if path = ''-'' then (True, w) else sys_fopen_w path w)"

text \<open>What was printed: to the standard output, or into the file when it is closed.\<close>

definition close_out :: "string \<Rightarrow> string \<times> 'a os_scheme \<Rightarrow> string \<times> 'a os_scheme" where
  "close_out path s = (if path = ''-'' then s else ([], sys_fclose_w path (fst s) (snd s)))"

record mkacl_opts =
  mo_srcrules :: string
  mo_dstrules :: string
  mo_srchosts :: string

definition RULER_OPTS :: string where
  "RULER_OPTS = ''s:t:d:i:r:f:P:p:m:S:Rl:oT:''"

definition mkacl_option :: "char \<times> string \<Rightarrow> mkacl_opts \<Rightarrow> mkacl_opts option" where
  "mkacl_option x opt = (case x of (c, arg) \<Rightarrow>
     if c = CHR ''s'' then Some (opt\<lparr>mo_srcrules := arg\<rparr>)
     else if c = CHR ''t'' then Some (opt\<lparr>mo_dstrules := arg\<rparr>)
     else if c = CHR ''r'' then Some (opt\<lparr>mo_srchosts := snprintf 32 ''/var/bee/allowed.%s'' [AS arg]\<rparr>)
     else if c = CHR ''f'' then Some (opt\<lparr>mo_srchosts := arg\<rparr>)
     else None)"

definition mkacl_defaults :: mkacl_opts where
  "mkacl_defaults = \<lparr>mo_srcrules = ''-'', mo_dstrules = ''-'', mo_srchosts = ''/var/bee/allowed.inet''\<rparr>"

text \<open>Both lists sorted, without what they have in common; \<open>None\<close> when a sort does not end.\<close>

definition acl_diff :: "darr \<Rightarrow> darr \<Rightarrow> 'a os_scheme \<Rightarrow> (darr \<times> darr \<times> 'a os_scheme) option" where
  "acl_diff cur alw w =
     Option.bind (da_bsort SPEC_SIZE ip_compare cur) (\<lambda>(_, cur).
       Option.bind (da_bsort SPEC_SIZE ip_compare alw) (\<lambda>(_, alw). Some (merge_loop 0 0 cur alw w)))"

text \<open>The exit status and the standard output.\<close>

definition mkacl_main :: "string list \<Rightarrow> string \<Rightarrow> 'a os_scheme \<Rightarrow> (int \<times> string \<times> 'a os_scheme) option" where
  "mkacl_main args stdin w = (case option_loop mkacl_option (getopt RULER_OPTS [] args) mkacl_defaults of
      None \<Rightarrow> Some (- 1, [], w)
    | Some opt \<Rightarrow> (case open_in (mo_srcrules opt) stdin w of (inp, stdin, w) \<Rightarrow> (case inp of
          None \<Rightarrow> Some (- 1, [], w)
        | Some inp \<Rightarrow> (case load_list acl_line inp (da_empty, w) of (cur, w) \<Rightarrow>
            case open_in (mo_srchosts opt) stdin w of (inp, stdin, w) \<Rightarrow> (case inp of
              None \<Rightarrow> Some (- 1, [], w)
            | Some inp \<Rightarrow> (case load_list allowed_line inp (da_empty, w) of (alw, w) \<Rightarrow>
                Option.bind (acl_diff cur alw w) (\<lambda>(cur, alw, w).
                  (case open_out (mo_dstrules opt) w of (ok, w) \<Rightarrow>
                     if \<not> ok then Some (- 1, [], w)
                     else (case close_out (mo_dstrules opt) (print_all (acl_commands cur alw) ([], w)) of (t, w) \<Rightarrow>
                       Some (0, t, w))))))))))"

section \<open>Specifications as bytes\<close>

lemma un_le_4: "un_le (le_bytes 4 (unat (x :: u32))) = unat x"
  using unsigned_less[of x, where 'a = nat] by (simp add: un_le_bytes)

lemma spec_of_bytes [simp]: "spec_of (spec_bytes h) = h"
  by (simp add: spec_of_def spec_bytes_def un_le_4)

lemma length_spec_bytes [simp]: "length (spec_bytes h) = SPEC_SIZE"
  by (simp add: spec_bytes_def)

lemma le_bytes_word:
  assumes "length (bs :: byte list) = 4"
  shows "le_bytes 4 (unat (word_of_nat (un_le bs) :: u32)) = bs"
proof -
  have "un_le bs < 2 ^ 32" using un_le_bound[of bs] assms by simp
  then have "unat (word_of_nat (un_le bs) :: u32) = un_le bs" by (simp add: unat_of_nat take_bit_nat_eq_self)
  with assms show ?thesis by (simp add: le_bytes_un_le)
qed

lemma spec_bytes_of: "length b = SPEC_SIZE \<Longrightarrow> spec_bytes (spec_of b) = b"
  using le_bytes_word[of "take 4 b"] le_bytes_word[of "take 4 (drop 4 b)"]
    append_take_drop_id[of 4 b] by (simp add: spec_of_def spec_bytes_def)

lemma spec_bytes_inj: "inj spec_bytes"
  by (rule injI) (metis spec_of_bytes)

text \<open>The specifications an array holds.\<close>

definition specs :: "darr \<Rightarrow> hostspec list" where
  "specs a = map spec_of (da_items SPEC_SIZE a)"

lemma items_specs: "da_ok SPEC_SIZE a \<Longrightarrow> da_items SPEC_SIZE a = map spec_bytes (specs a)"
  using da_items_item[of SPEC_SIZE a] by (simp add: specs_def map_idI spec_bytes_of)

lemma item_at_specs: "da_ok SPEC_SIZE a \<Longrightarrow> i < length (specs a) \<Longrightarrow> spec_of (item_at (int i) a) = specs a ! i"
  using da_items_length[of SPEC_SIZE a] by (simp add: item_at_def specs_def da_items_def nth_records)

lemma cnt_specs: "da_ok SPEC_SIZE a \<Longrightarrow> da_cnt a = int (length (specs a))"
  using da_items_length[of SPEC_SIZE a] by (simp add: specs_def)

text \<open>The order of the lists: masks first, then addresses.\<close>

definition spec_key :: "hostspec \<Rightarrow> nat" where
  "spec_key h = unat (bmask h) * 2 ^ 32 + unat (htonl (bhost h))"

lemma spec_key_less:
  "spec_key y < spec_key x \<longleftrightarrow> (if bmask x = bmask y then htonl (bhost y) < htonl (bhost x) else bmask y < bmask x)"
proof -
  have b: "unat (htonl (bhost h)) < 2 ^ 32" for h using unsigned_less[of "htonl (bhost h)", where 'a = nat] by simp
  have m: "unat (bmask y) * 2 ^ 32 + 2 ^ 32 \<le> unat (bmask x) * 2 ^ 32" if "bmask y < bmask x" for x y
  proof -
    have "unat (bmask y) + 1 \<le> unat (bmask x)" using that by (simp add: word_less_nat_alt)
    then have "(unat (bmask y) + 1) * 2 ^ 32 \<le> unat (bmask x) * 2 ^ 32" by (rule mult_le_mono1)
    then show ?thesis by simp
  qed
  show ?thesis
  proof (cases "bmask x = bmask y")
    case True
    then show ?thesis by (simp add: spec_key_def word_less_nat_alt)
  next
    case False
    then consider "bmask y < bmask x" | "bmask x < bmask y" by fastforce
    then show ?thesis
    proof cases
      case 1
      with m[OF 1] b[of y] False show ?thesis by (simp add: spec_key_def)
    next
      case 2
      with m[OF 2] b[of x] False show ?thesis by (simp add: spec_key_def)
    qed
  qed
qed

lemma spec_key_inj: "spec_key x = spec_key y \<Longrightarrow> x = y"
proof -
  assume k: "spec_key x = spec_key y"
  then have "\<not> spec_key x < spec_key y" "\<not> spec_key y < spec_key x" by simp_all
  then have "bmask x = bmask y \<and> htonl (bhost x) = htonl (bhost y)"
    by (auto simp: spec_key_less split: if_splits)
  then have "bmask x = bmask y" "htonl (htonl (bhost x)) = htonl (htonl (bhost y))" by simp_all
  then show ?thesis by (simp add: htonl_htonl)
qed

lemma ip_compare_key: "ip_compare x y = (if spec_key (spec_of y) < spec_key (spec_of x) then 1 else 0)"
  by (simp add: ip_compare_def spec_key_less)

section \<open>The difference of sorted lists\<close>

lemma alloc_nf_same: "no_faults w \<Longrightarrow> sys_alloc w = (True, w)"
  by (simp add: sys_alloc_def next_outcome_no_faults)

lemma rm_specs:
  assumes "da_ok SPEC_SIZE a" "no_faults w" "i < length (specs a)"
  shows "\<exists>b. da_rm SPEC_SIZE (int i) a w = (0, b, fst (snd (snd (da_rm SPEC_SIZE (int i) a w))), w) \<and>
    da_ok SPEC_SIZE (fst (snd (snd (da_rm SPEC_SIZE (int i) a w)))) \<and>
    specs (fst (snd (snd (da_rm SPEC_SIZE (int i) a w)))) = take i (specs a) @ drop (Suc i) (specs a)"
  using da_rm_items[OF assms(1) alloc_nf_same[OF assms(2)], of i] assms(3)
  by (auto simp: specs_def take_map drop_map)

definition apart :: "hostspec list \<Rightarrow> hostspec list \<Rightarrow> bool" where
  "apart xs ys \<longleftrightarrow> set xs \<inter> set ys = {}"

lemma apart_diff: "set xs \<inter> set ys = {} \<Longrightarrow> mset xs - mset ys = mset xs"
proof (rule multiset_eqI)
  fix x
  assume "set xs \<inter> set ys = {}"
  then have "x \<notin># mset xs \<or> x \<notin># mset ys" by auto
  then have "count (mset xs) x = 0 \<or> count (mset ys) x = 0" by (simp only: not_in_iff)
  then show "count (mset xs - mset ys) x = count (mset xs) x"
    by (elim disjE) (simp_all only: count_diff diff_0_eq_0 minus_nat.diff_0)
qed

lemma merge_loop_specs:
  assumes "no_faults w" "da_ok SPEC_SIZE cur" "da_ok SPEC_SIZE alw"
    and "specs cur = P @ X" "specs alw = Q @ Y" "i = int (length P)" "i2 = int (length Q)"
    and "sorted (map spec_key X)" "sorted (map spec_key Y)" "apart P (Q @ Y)" "apart Q (P @ X)"
  shows "\<exists>cur' alw'. merge_loop i i2 cur alw w = (cur', alw', w) \<and> da_ok SPEC_SIZE cur' \<and> da_ok SPEC_SIZE alw' \<and>
    mset (specs cur') = mset (P @ X) - mset (Q @ Y) \<and> mset (specs alw') = mset (Q @ Y) - mset (P @ X)"
  using assms
proof (induction i i2 cur alw w arbitrary: P X Q Y rule: merge_loop.induct)
  case (1 i i2 cur alw w)
  have c: "da_cnt cur = int (length P + length X)" "da_cnt alw = int (length Q + length Y)"
    using cnt_specs[OF 1(5)] cnt_specs[OF 1(6)] 1(7,8) by simp_all
  show ?case
  proof (cases "X = [] \<or> Y = []")
    case True
    then have "merge_loop i i2 cur alw w = (cur, alw, w)"
      using c 1(9,10) by (subst merge_loop.simps) auto
    moreover have "set (P @ X) \<inter> set (Q @ Y) = {}" using True 1(13,14) by (auto simp: apart_def)
    then have "mset (P @ X) - mset (Q @ Y) = mset (P @ X)" "mset (Q @ Y) - mset (P @ X) = mset (Q @ Y)"
      by (intro apart_diff; blast)+
    ultimately show ?thesis using 1(5-8) by simp
  next
    case False
    then obtain x X' y Y' where xy: "X = x # X'" "Y = y # Y'" by (meson neq_Nil_conv)
    have bound: "0 \<le> i \<and> 0 \<le> i2 \<and> i < da_cnt cur \<and> i2 < da_cnt alw" using c xy 1(9,10) by simp
    have at: "spec_of (item_at i cur) = x" "spec_of (item_at i2 alw) = y"
      using item_at_specs[OF 1(5), of "length P"] item_at_specs[OF 1(6), of "length Q"] 1(7-10) xy
      by (simp_all add: nth_append)
    show ?thesis
    proof (cases "x = y")
      case True
      let ?r = "da_rm SPEC_SIZE i cur w"
      obtain b where r: "?r = (0, b, fst (snd (snd ?r)), w)" "da_ok SPEC_SIZE (fst (snd (snd ?r)))"
          "specs (fst (snd (snd ?r))) = P @ X'"
        using rm_specs[OF 1(5,4), of "length P"] 1(7,9) xy by auto
      let ?q = "da_rm SPEC_SIZE i2 alw w"
      obtain d where q: "?q = (0, d, fst (snd (snd ?q)), w)" "da_ok SPEC_SIZE (fst (snd (snd ?q)))"
          "specs (fst (snd (snd ?q))) = Q @ Y'"
        using rm_specs[OF 1(6,4), of "length Q"] 1(8,10) xy by auto
      have w: "snd (snd (snd ?r)) = w" "snd (snd (snd ?q)) = w" using r(1) q(1) by (metis snd_conv)+
      have step: "merge_loop i i2 cur alw w = merge_loop i i2 (fst (snd (snd ?r))) (fst (snd (snd ?q))) w"
        using bound at True by (subst merge_loop.simps) (simp add: w Let_def)
      have ap: "apart P (Q @ Y')" "apart Q (P @ X')" using 1(13,14) xy by (auto simp: apart_def)
      have so: "sorted (map spec_key X')" "sorted (map spec_key Y')" using 1(11,12) xy by simp_all
      have at2: "spec_of (item_at i cur) = spec_of (item_at i2 alw)" using at True by simp
      from 1(1)[OF bound at2 refl refl, unfolded w, OF 1(4) r(2) q(2) r(3) q(3) 1(9,10) so ap] step True xy
      show ?thesis by simp
    next
      case neq: False
      then have ne: "spec_of (item_at i cur) \<noteq> spec_of (item_at i2 alw)" using at by simp
      show ?thesis
      proof (cases "spec_key y < spec_key x")
        case True
        then have ip: "ip_compare (item_at i cur) (item_at i2 alw) \<noteq> 0" by (simp add: ip_compare_key at)
        have step: "merge_loop i i2 cur alw w = merge_loop i (i2 + 1) cur alw w"
          using bound ne ip by (subst merge_loop.simps) simp
        have "y \<notin> set X" using 1(11) xy True by fastforce
        then have ap: "apart P ((Q @ [y]) @ Y')" "apart (Q @ [y]) (P @ X)"
          using 1(13,14) xy by (auto simp: apart_def)
        have e: "specs alw = (Q @ [y]) @ Y'" "i2 + 1 = int (length (Q @ [y]))" using 1(8,10) xy by simp_all
        have so: "sorted (map spec_key Y')" using 1(12) xy by simp
        from 1(2)[OF bound ne ip 1(4-7) e(1) 1(9) e(2) 1(11) so ap] step xy show ?thesis by simp
      next
        case ge: False
        then have ip: "\<not> ip_compare (item_at i cur) (item_at i2 alw) \<noteq> 0" by (simp add: ip_compare_key at)
        have lt: "spec_key x < spec_key y" using ge neq spec_key_inj[of x y] by fastforce
        have step: "merge_loop i i2 cur alw w = merge_loop (i + 1) i2 cur alw w"
          using bound ne ip by (subst merge_loop.simps) simp
        have "x \<notin> set Y" using 1(12) xy lt by fastforce
        then have ap: "apart (P @ [x]) (Q @ Y)" "apart Q ((P @ [x]) @ X')"
          using 1(13,14) xy by (auto simp: apart_def)
        have e: "specs cur = (P @ [x]) @ X'" "i + 1 = int (length (P @ [x]))" using 1(7,9) xy by simp_all
        have so: "sorted (map spec_key X')" using 1(11) xy by simp
        from 1(3)[OF bound ne ip 1(4-6) e(1) 1(8) e(2) 1(10) so 1(12) ap] step xy show ?thesis by simp
      qed
    qed
  qed
qed

lemma sorted_specs:
  assumes "da_ok SPEC_SIZE a"
  shows "\<exists>a'. da_bsort SPEC_SIZE ip_compare a = Some (0, a') \<and> da_ok SPEC_SIZE a' \<and>
    mset (specs a') = mset (specs a) \<and> sorted (map spec_key (specs a'))"
proof -
  from da_bsort_items[OF assms, of ip_compare "spec_key \<circ> spec_of"] obtain a' where
    a': "da_bsort SPEC_SIZE ip_compare a = Some (0, a')" "da_ok SPEC_SIZE a'"
      "mset (da_items SPEC_SIZE a') = mset (da_items SPEC_SIZE a)" "sorted (map (spec_key \<circ> spec_of) (da_items SPEC_SIZE a'))"
    by (auto simp: ip_compare_key)
  have "mset (specs a') = mset (specs a)"
    unfolding specs_def mset_map a'(3) ..
  with a' show ?thesis by (simp add: specs_def)
qed

lemma acl_diff_specs:
  assumes "no_faults w" "da_ok SPEC_SIZE cur" "da_ok SPEC_SIZE alw"
  shows "\<exists>cur' alw'. acl_diff cur alw w = Some (cur', alw', w) \<and> da_ok SPEC_SIZE cur' \<and> da_ok SPEC_SIZE alw' \<and>
    mset (specs cur') = mset (specs cur) - mset (specs alw) \<and> mset (specs alw') = mset (specs alw) - mset (specs cur)"
proof -
  obtain c where c: "da_bsort SPEC_SIZE ip_compare cur = Some (0, c)" "da_ok SPEC_SIZE c"
      "mset (specs c) = mset (specs cur)" "sorted (map spec_key (specs c))"
    using sorted_specs[OF assms(2)] by auto
  obtain a where a: "da_bsort SPEC_SIZE ip_compare alw = Some (0, a)" "da_ok SPEC_SIZE a"
      "mset (specs a) = mset (specs alw)" "sorted (map spec_key (specs a))"
    using sorted_specs[OF assms(3)] by auto
  from merge_loop_specs[OF assms(1) c(2) a(2), of "[]" "specs c" "[]" "specs a" 0 0] c a show ?thesis
    by (simp add: acl_diff_def apart_def)
qed

section \<open>From the texts to the commands\<close>

text \<open>The specifications in a text, in the order of its lines.\<close>

function parsed :: "(string \<Rightarrow> hostspec option) \<Rightarrow> string \<Rightarrow> hostspec list" where
  "parsed parse inp =
     (if inp = [] then []
      else (case parse (c_str (fst (fgets 256 inp))) of None \<Rightarrow> [] | Some h \<Rightarrow> [h]) @ parsed parse (snd (fgets 256 inp)))"
  by pat_completeness auto
termination
  by (relation "measure (\<lambda>(_, inp). length inp)") (simp_all add: fgets_length)

declare parsed.simps [simp del]

lemma ins_specs:
  assumes "da_ok SPEC_SIZE a" "no_faults w"
  shows "\<exists>n. da_ins SPEC_SIZE (- 1) (Some (spec_bytes h)) a w =
      (n, fst (snd (da_ins SPEC_SIZE (- 1) (Some (spec_bytes h)) a w)), w) \<and>
    da_ok SPEC_SIZE (fst (snd (da_ins SPEC_SIZE (- 1) (Some (spec_bytes h)) a w))) \<and>
    specs (fst (snd (da_ins SPEC_SIZE (- 1) (Some (spec_bytes h)) a w))) = specs a @ [h]"
  using da_ins_items[OF assms(1) alloc_nf_same[OF assms(2)] length_spec_bytes, of "length (da_items SPEC_SIZE a)" "- 1" h]
  by (auto simp: specs_def)

lemma load_list_specs:
  assumes "da_ok SPEC_SIZE a" "no_faults w"
  shows "\<exists>b. load_list parse inp (a, w) = (b, w) \<and> da_ok SPEC_SIZE b \<and> specs b = specs a @ parsed parse inp"
  using assms
proof (induction parse inp arbitrary: a rule: parsed.induct)
  case (1 parse inp)
  show ?case
  proof (cases "inp = []")
    case True
    with 1(2) show ?thesis by (simp add: load_list.simps[of parse "[]"] parsed.simps[of parse "[]"])
  next
    case False
    show ?thesis
    proof (cases "parse (c_str (fst (fgets 256 inp)))")
      case None
      with 1(1)[OF False 1(2,3)] False show ?thesis
        by (simp add: load_list.simps[of parse inp] parsed.simps[of parse inp])
    next
      case (Some h)
      let ?i = "da_ins SPEC_SIZE (- 1) (Some (spec_bytes h)) a w"
      obtain n where i: "?i = (n, fst (snd ?i), w)" "da_ok SPEC_SIZE (fst (snd ?i))" "specs (fst (snd ?i)) = specs a @ [h]"
        using ins_specs[OF 1(2,3), of h] by blast
      have "snd ?i = (fst (snd ?i), w)" using i(1) by (metis snd_conv)
      then have "(fst (snd ?i), snd (snd ?i)) = (fst (snd ?i), w)" by simp
      with 1(1)[OF False i(2) 1(3)] i(3) False Some show ?thesis
        by (simp add: load_list.simps[of parse inp] parsed.simps[of parse inp] Let_def del: prod.collapse)
    qed
  qed
qed

lemma empty_specs: "da_ok SPEC_SIZE da_empty" "specs da_empty = []"
  by (simp_all add: da_ok_def da_empty_def specs_def da_items_def records_def)

lemma acl_commands_specs:
  assumes "da_ok SPEC_SIZE cur" "da_ok SPEC_SIZE alw"
  shows "acl_commands cur alw = map (acl_command head_add) (specs alw) @ map (acl_command head_rm) (specs cur)"
proof -
  have "map (\<lambda>i. acl_command h (spec_of (item_at (int i) a))) [0..<nat (da_cnt a)] = map (acl_command h) (specs a)"
    if "da_ok SPEC_SIZE a" for h a
    by (rule nth_equalityI) (simp_all add: cnt_specs[OF that] item_at_specs[OF that])
  with assms show ?thesis by (simp add: acl_commands_def)
qed

text \<open>
  C29: The commands that \<open>mkacl\<close> prints turn the access list of the router into the list of the billing: on a
  machine without faults both sorts end, and the commands are an addition for each allowed entry that the
  router lacks and a removal for each entry of the router that is not allowed, with multiplicities.\<close>

theorem mkacl_difference:
  assumes "no_faults w"
  shows "case load_list acl_line inp (da_empty, w) of (cur, w1) \<Rightarrow>
    case load_list allowed_line inp2 (da_empty, w1) of (alw, w2) \<Rightarrow>
    \<exists>cur' alw'. acl_diff cur alw w2 = Some (cur', alw', w) \<and>
      mset (acl_commands cur' alw') =
        image_mset (acl_command head_add) (mset (parsed allowed_line inp2) - mset (parsed acl_line inp)) +
        image_mset (acl_command head_rm) (mset (parsed acl_line inp) - mset (parsed allowed_line inp2))"
proof -
  obtain cur where c: "load_list acl_line inp (da_empty, w) = (cur, w)" "da_ok SPEC_SIZE cur"
      "specs cur = parsed acl_line inp"
    using load_list_specs[OF empty_specs(1) assms, of acl_line inp] empty_specs(2) by auto
  obtain alw where a: "load_list allowed_line inp2 (da_empty, w) = (alw, w)" "da_ok SPEC_SIZE alw"
      "specs alw = parsed allowed_line inp2"
    using load_list_specs[OF empty_specs(1) assms, of allowed_line inp2] empty_specs(2) by auto
  obtain cur' alw' where d: "acl_diff cur alw w = Some (cur', alw', w)" "da_ok SPEC_SIZE cur'" "da_ok SPEC_SIZE alw'"
      "mset (specs cur') = mset (specs cur) - mset (specs alw)" "mset (specs alw') = mset (specs alw) - mset (specs cur)"
    using acl_diff_specs[OF assms c(2) a(2)] by auto
  have "mset (acl_commands cur' alw') = image_mset (acl_command head_add) (mset (specs alw')) +
      image_mset (acl_command head_rm) (mset (specs cur'))"
    by (simp add: acl_commands_specs[OF d(2,3)])
  with d(1,4,5) c a show ?thesis by simp
qed

theorem mkacl_difference_witness:
  "case load_list acl_line ''permit ip host 10.0.0.1 any'' (da_empty, demo_dbs False []) of (cur, w1) \<Rightarrow>
    case load_list allowed_line [] (da_empty, w1) of (alw, w2) \<Rightarrow>
    \<exists>cur' alw'. acl_diff cur alw w2 = Some (cur', alw', demo_dbs False []) \<and>
      acl_commands cur' alw' = [acl_command head_rm \<lparr>bhost = 0x0100000A, bmask = 0xffffffff\<rparr>]"
proof -
  have n: "no_faults (demo_dbs False [])" by (simp add: no_faults_def demo_dbs_def)
  have "inet_pton ''10.0.0.1'' = Some 0x0100000A" by (simp add: inet_pton_def is_digit_def digit_val_def Let_def)
  then have l: "acl_line ''permit ip host 10.0.0.1 any'' = Some \<lparr>bhost = 0x0100000A, bmask = 0xffffffff\<rparr>"
    by (simp add: acl_line_def acl_host_def SPACES_def Let_def)
  have g: "fgets n s = (s, [])" if "length s < n" "CHR 0x0A \<notin> set s" for n s
    using that by (induction n s rule: fgets.induct) auto
  have "fgets 256 ''permit ip host 10.0.0.1 any'' = (''permit ip host 10.0.0.1 any'', [])" by (rule g) simp_all
  then have "parsed acl_line ''permit ip host 10.0.0.1 any'' = [\<lparr>bhost = 0x0100000A, bmask = 0xffffffff\<rparr>]"
    by (subst parsed.simps) (simp add: l parsed.simps[of acl_line "[]"] c_str_def)
  moreover have "parsed allowed_line [] = []" by (simp add: parsed.simps)
  ultimately show ?thesis
    using mkacl_difference[OF n, where inp = "''permit ip host 10.0.0.1 any''" and ?inp2.0 = "[]"] by simp
qed

end
