(* ===== verification/Beeipf.thy ===== *)
theory Beeipf
  imports Rulers GateFile
begin

text \<open>
  The ruler \<open>beeipf\<close> (\<open>src/src/bee/rulers/traff/beeipf.c\<close>): it turns the list of addresses that may pass
  into packet filter rules and copies the filter file with these rules inserted behind the first line
  that starts with a mark.  The rules of an address are printed into a buffer of 256 bytes without a
  bound, so options that are too long overrun it (\<open>None\<close>).
\<close>

section \<open>Options\<close>

record ipf_opts =
  io_srcrules :: string
  io_dstrules :: string
  io_srchosts :: string
  io_rsmark :: string
  io_dest :: string
  io_in :: string
  io_out :: string
  io_logit :: "string option"
  io_iface :: "string option"
  io_rule_s :: "string option"
  io_host_s :: "string option"
  io_dest_s :: "string option"
  io_tail :: "string option"
  io_onerule :: bool

definition ipf_defaults :: ipf_opts where
  "ipf_defaults = \<lparr>io_srcrules = ''/etc/ipf.rules'', io_dstrules = ''/var/bee/ipf.rules.effective'',
     io_srchosts = ''/var/bee/allowed.inet'', io_rsmark = ''#<beerules>'', io_dest = ''any'', io_in = ''in'', io_out = ''out'',
     io_logit = None, io_iface = None, io_rule_s = None, io_host_s = None, io_dest_s = None, io_tail = None,
     io_onerule = False\<rparr>"

definition ipf_option :: "char \<times> string \<Rightarrow> ipf_opts \<Rightarrow> ipf_opts option" where
  "ipf_option x opt = (case x of (c, arg) \<Rightarrow>
     if c = CHR ''s'' then Some (opt\<lparr>io_srcrules := arg\<rparr>)
     else if c = CHR ''t'' then Some (opt\<lparr>io_dstrules := arg\<rparr>)
     else if c = CHR ''d'' then Some (opt\<lparr>io_dest := arg\<rparr>)
     else if c = CHR ''i'' then Some (opt\<lparr>io_iface := Some arg\<rparr>)
     else if c = CHR ''r'' then Some (opt\<lparr>io_srchosts := snprintf 32 ''/var/bee/allowed.%s'' [AS arg]\<rparr>)
     else if c = CHR ''f'' then Some (opt\<lparr>io_srchosts := arg\<rparr>)
     else if c = CHR ''P'' then Some (opt\<lparr>io_dest_s := Some arg\<rparr>)
     else if c = CHR ''p'' then Some (opt\<lparr>io_host_s := Some arg\<rparr>)
     else if c = CHR ''S'' then Some (opt\<lparr>io_rule_s := Some arg\<rparr>)
     else if c = CHR ''m'' then Some (opt\<lparr>io_rsmark := arg\<rparr>)
     else if c = CHR ''R'' then Some (opt\<lparr>io_out := io_in opt, io_in := io_out opt\<rparr>)
     else if c = CHR ''l'' then Some (opt\<lparr>io_logit := Some arg\<rparr>)
     else if c = CHR ''o'' then Some (opt\<lparr>io_onerule := True\<rparr>)
     else if c = CHR ''T'' then Some (opt\<lparr>io_tail := Some arg\<rparr>)
     else None)"

section \<open>The rules\<close>

definition rshead :: string where
  "rshead = ''# /////////////////////////////////////////////////'' @ [CHR 0x0A] @
     ''# // Billing rules (generated by billing daemon) //'' @ [CHR 0x0A] @
     ''# //   (all manual changes will be discarded)    //'' @ [CHR 0x0A] @
     ''# /////////////////////////////////////////////////'' @ [CHR 0x0A, CHR 0x0A]"

definition rsepilog :: string where
  "rsepilog = [CHR 0x0A] @ ''# /////////////////////////////////////////////////'' @ [CHR 0x0A]"

text \<open>An optional word with a blank behind it or in front of it.\<close>

definition word_sp :: "string option \<Rightarrow> string" where
  "word_sp s = (case s of None \<Rightarrow> [] | Some x \<Rightarrow> x @ '' '')"

definition sp_word :: "string option \<Rightarrow> string" where
  "sp_word s = (case s of None \<Rightarrow> [] | Some x \<Rightarrow> '' '' @ x)"

definition ipf_rule :: "ipf_opts \<Rightarrow> string \<Rightarrow> string \<Rightarrow> string option \<Rightarrow> string \<Rightarrow> string option \<Rightarrow> string" where
  "ipf_rule opt dir src src_s dst dst_s =
     ''pass '' @ dir @ '' '' @ word_sp (io_logit opt) @ (if io_iface opt = None then [] else ''on '') @ word_sp (io_iface opt) @
     word_sp (io_rule_s opt) @ ''from '' @ src @ '' '' @ word_sp src_s @ ''to '' @ dst @ sp_word dst_s @
     sp_word (io_tail opt) @ [CHR 0x0A]"

definition ipf_rules :: "ipf_opts \<Rightarrow> string \<Rightarrow> string" where
  "ipf_rules opt host = ipf_rule opt (io_out opt) host (io_host_s opt) (io_dest opt) (io_dest_s opt) @
     (if io_onerule opt then [] else ipf_rule opt (io_in opt) (io_dest opt) (io_dest_s opt) host (io_host_s opt))"

text \<open>The buffer after both calls of \<open>sprintf\<close>; \<open>None\<close> when they wrote behind its end.\<close>

definition ipf_buf :: "ipf_opts \<Rightarrow> string \<Rightarrow> string option" where
  "ipf_buf opt host = (if length (ipf_rules opt host) < 256 then Some (ipf_rules opt host) else None)"

text \<open>The loop over the list of hosts: the text of the rules, or nothing when the memory is used up.\<close>

function ipf_ruleset :: "ipf_opts \<Rightarrow> string \<Rightarrow> string \<Rightarrow> 'a os_scheme \<Rightarrow> (string option \<times> 'a os_scheme) option" where
  "ipf_ruleset opt inp ruleset w =
     (if inp = [] then Some (Some ruleset, w)
      else (let l = fgets 80 inp
            in case fst (next_token (Some (c_str (fst l))) SPACES) of
                 None \<Rightarrow> ipf_ruleset opt (snd l) ruleset w
               | Some host \<Rightarrow> (case ipf_buf opt host of
                     None \<Rightarrow> None
                   | Some buf \<Rightarrow>
                       if fst (sys_alloc w) then ipf_ruleset opt (snd l) (ruleset @ buf) (snd (sys_alloc w))
                       else Some (None, snd (sys_alloc w)))))"
  by pat_completeness auto
termination
  by (relation "measure (\<lambda>(_, inp, _). length inp)") (simp_all add: fgets_length)

declare ipf_ruleset.simps [simp del]

section \<open>The copy of the filter file\<close>

function ipf_copy :: "string \<Rightarrow> string \<Rightarrow> string option \<Rightarrow> string \<times> 'a os_scheme \<Rightarrow>
    string option \<times> string \<times> 'a os_scheme" where
  "ipf_copy rsmark inp ruleset s =
     (if inp = [] then (ruleset, s)
      else (let l = fgets 256 inp; buf = c_str (fst l)
            in if ruleset \<noteq> None \<and> take (length rsmark) buf = rsmark
               then ipf_copy rsmark (snd l) None (print_all [buf, the ruleset] s)
               else ipf_copy rsmark (snd l) ruleset (print_all [buf] s)))"
  by pat_completeness auto
termination
  by (relation "measure (\<lambda>(_, inp, _). length inp)") (simp_all add: fgets_length)

declare ipf_copy.simps [simp del]

text \<open>
  The program after the options, for the standard input: the exit status and the standard output.
  Opening the target for writing empties it before the first line of the source is read.
\<close>

definition ipf_install :: "ipf_opts \<Rightarrow> string \<Rightarrow> string \<Rightarrow> 'a os_scheme \<Rightarrow> int \<times> string \<times> 'a os_scheme" where
  "ipf_install opt stdin ruleset w = (case open_in (io_srcrules opt) stdin w of (inp, _, w) \<Rightarrow> (case inp of
       None \<Rightarrow> (- 1, [], w)
     | Some inp \<Rightarrow> (case open_out (io_dstrules opt) w of (ok, w) \<Rightarrow>
         if \<not> ok then (- 1, [], w)
         else (let inp = (if io_srcrules opt = io_dstrules opt \<and> io_srcrules opt \<noteq> ''-'' then [] else inp)
               in case ipf_copy (io_rsmark opt) inp (Some ruleset) ([], w) of (rest, s) \<Rightarrow>
                 (0, close_out (io_dstrules opt) (print_all (case rest of None \<Rightarrow> [] | Some r \<Rightarrow> [r]) s))))))"

definition ipf_run :: "ipf_opts \<Rightarrow> string \<Rightarrow> 'a os_scheme \<Rightarrow> (int \<times> string \<times> 'a os_scheme) option" where
  "ipf_run opt stdin w = (case sys_alloc w of (mem, w) \<Rightarrow>
     if \<not> mem then Some (- 1, [], w)
     else (case open_in (io_srchosts opt) stdin w of (inp, stdin, w) \<Rightarrow> (case inp of
         None \<Rightarrow> Some (- 1, [], w)
       | Some inp \<Rightarrow> (case ipf_ruleset opt inp rshead w of
           None \<Rightarrow> None
         | Some (None, w) \<Rightarrow> Some (- 1, [], w)
         | Some (Some ruleset, w) \<Rightarrow> (case sys_alloc w of (mem, w) \<Rightarrow>
             if \<not> mem then Some (- 1, [], w)
             else Some (ipf_install opt stdin (ruleset @ rsepilog) w))))))"

definition ipf_main :: "string list \<Rightarrow> string \<Rightarrow> 'a os_scheme \<Rightarrow> (int \<times> string \<times> 'a os_scheme) option" where
  "ipf_main args stdin w = (case option_loop ipf_option (getopt RULER_OPTS [] args) ipf_defaults of
      None \<Rightarrow> Some (- 1, [], w)
    | Some opt \<Rightarrow> ipf_run opt stdin w)"

section \<open>What is written\<close>

text \<open>The pieces in which \<open>fgets\<close> delivers a text.\<close>

function pieces :: "nat \<Rightarrow> string \<Rightarrow> string list" where
  "pieces n inp = (if inp = [] \<or> n < 2 then [] else fst (fgets n inp) # pieces n (snd (fgets n inp)))"
  by pat_completeness auto
termination
  by (relation "measure (\<lambda>(_, inp). length inp)") (simp_all add: fgets_length)

declare pieces.simps [simp del]

lemma fgets_append: "fst (fgets n s) @ snd (fgets n s) = s"
  by (induction n s rule: fgets.induct) (auto split: prod.splits)

lemma concat_pieces: "2 \<le> n \<Longrightarrow> concat (pieces n inp) = inp"
proof (induction n inp rule: pieces.induct)
  case (1 n inp)
  then show ?case by (cases "inp = []") (simp_all add: pieces.simps[of n inp] pieces.simps[of n "[]"] fgets_append)
qed

definition hosts_of :: "string \<Rightarrow> string list" where
  "hosts_of inp = concat (map (\<lambda>l. case fst (next_token (Some (c_str l)) SPACES) of None \<Rightarrow> [] | Some h \<Rightarrow> [h]) (pieces 80 inp))"

text \<open>A text with the rules behind the first piece that starts with the mark, or at the end.\<close>

definition spliced :: "string \<Rightarrow> string \<Rightarrow> string list \<Rightarrow> string" where
  "spliced mark rules ps =
     (let other = (\<lambda>p. take (length mark) p \<noteq> mark)
      in concat (takeWhile other ps) @
         (case dropWhile other ps of [] \<Rightarrow> rules | p # qs \<Rightarrow> p @ rules @ concat qs))"

lemma print_all_nf: "no_faults w \<Longrightarrow> print_all xs (t, w) = (t @ concat xs, w)"
  by (induction xs arbitrary: t) (simp_all add: sys_fprintf_def next_outcome_no_faults)

lemma alloc_mem: "no_faults w \<Longrightarrow> sys_alloc w = (True, w)"
  by (simp add: sys_alloc_def next_outcome_no_faults)

lemma spliced_Cons:
  "spliced mark rules (p # ps) =
     (if take (length mark) p = mark then p @ rules @ concat ps else p @ spliced mark rules ps)"
  by (simp add: spliced_def Let_def)

lemma copy_rest:
  "no_faults w \<Longrightarrow> ipf_copy mark inp None (t, w) = (None, t @ concat (map c_str (pieces 256 inp)), w)"
proof (induction "256 :: nat" inp arbitrary: t rule: pieces.induct)
  case (1 inp)
  then show ?case
    by (cases "inp = []")
      (simp_all add: ipf_copy.simps[of mark inp] ipf_copy.simps[of mark "[]"] pieces.simps[of 256 inp] pieces.simps[of 256 "[]"]
        print_all_nf Let_def del: print_all.simps)
qed

lemma copy_splices:
  assumes "no_faults w"
  shows "case ipf_copy mark inp (Some r) (t, w) of (rest, s) \<Rightarrow>
    print_all (case rest of None \<Rightarrow> [] | Some r \<Rightarrow> [r]) s = (t @ spliced mark r (map c_str (pieces 256 inp)), w)"
proof (induction "256 :: nat" inp arbitrary: t rule: pieces.induct)
  case (1 inp)
  show ?case
  proof (cases "inp = []")
    case True
    then show ?thesis
      by (simp add: ipf_copy.simps[of mark "[]"] pieces.simps[of 256 "[]"] print_all_nf[OF assms] spliced_def del: print_all.simps)
  next
    case False
    let ?l = "c_str (fst (fgets 256 inp))" and ?rest = "snd (fgets 256 inp)"
    from False have c: "ipf_copy mark inp (Some r) (t, w) =
        (if take (length mark) ?l = mark then ipf_copy mark ?rest None (t @ ?l @ r, w)
         else ipf_copy mark ?rest (Some r) (t @ ?l, w))"
      by (subst ipf_copy.simps) (simp add: print_all_nf[OF assms] Let_def del: print_all.simps)
    from False have p: "pieces 256 inp = fst (fgets 256 inp) # pieces 256 ?rest" by (simp add: pieces.simps[of 256 inp])
    show ?thesis
    proof (cases "take (length mark) ?l = mark")
      case True
      then show ?thesis by (simp add: c p copy_rest[OF assms] spliced_Cons)
    next
      case other: False
      from 1[of "t @ ?l"] False other show ?thesis by (simp add: c p spliced_Cons)
    qed
  qed
qed

lemma token_length: "fst (next_token (Some s) d) = Some t \<Longrightarrow> length t \<le> length s"
  using next_token_spec[of s d] by (auto split: prod.splits option.splits)

lemma fgets_short: "length (fst (fgets n s)) \<le> n - 1"
  by (induction n s rule: fgets.induct) (auto split: prod.splits)

lemma c_str_length: "length (c_str s) \<le> length s"
  by (simp add: c_str_def length_takeWhile_le)

text \<open>The rules of a host name of the longest possible length fit the buffer.\<close>

definition ipf_fits :: "ipf_opts \<Rightarrow> bool" where
  "ipf_fits opt = (length (ipf_rules opt (replicate 79 CHR ''x'')) < 256)"

lemma rules_length: "length h \<le> length k \<Longrightarrow> length (ipf_rules opt h) \<le> length (ipf_rules opt k)"
  by (simp add: ipf_rules_def ipf_rule_def)

lemma fits_host:
  assumes "ipf_fits opt" "fst (next_token (Some (c_str (fst (fgets 80 inp)))) SPACES) = Some host"
  shows "ipf_buf opt host = Some (ipf_rules opt host)"
proof -
  have "length host \<le> 79"
    using token_length[OF assms(2)] c_str_length[of "fst (fgets 80 inp)"] fgets_short[of 80 inp] by simp
  then have "length (ipf_rules opt host) \<le> length (ipf_rules opt (replicate 79 CHR ''x''))" by (intro rules_length) simp
  with assms(1) show ?thesis by (simp add: ipf_buf_def ipf_fits_def)
qed

lemma ruleset_nf:
  assumes "no_faults w" "ipf_fits opt"
  shows "ipf_ruleset opt inp rs w = Some (Some (rs @ concat (map (ipf_rules opt) (hosts_of inp))), w)"
proof (induction "80 :: nat" inp arbitrary: rs rule: pieces.induct)
  case (1 inp)
  show ?case
  proof (cases "inp = []")
    case True
    then show ?thesis by (simp add: ipf_ruleset.simps[of opt "[]"] hosts_of_def pieces.simps[of 80 "[]"])
  next
    case False
    let ?tok = "fst (next_token (Some (c_str (fst (fgets 80 inp)))) SPACES)"
    from False have h: "hosts_of inp = (case ?tok of None \<Rightarrow> [] | Some h \<Rightarrow> [h]) @ hosts_of (snd (fgets 80 inp))"
      by (simp add: hosts_of_def pieces.simps[of 80 inp])
    show ?thesis
    proof (cases ?tok)
      case None
      with False 1[of rs] show ?thesis by (simp add: ipf_ruleset.simps[of opt inp] h)
    next
      case (Some host)
      with False 1 fits_host[OF assms(2) Some] show ?thesis
        by (simp add: ipf_ruleset.simps[of opt inp] h alloc_mem[OF assms(1)] Let_def)
    qed
  qed
qed

text \<open>
  C30: The rules reach the packet filter: when the rules of an address fit the buffer, \<open>beeipf\<close> on a machine
  without faults writes a copy of the filter file with one block inserted behind the first line that starts
  with the mark, or at the end, that holds the rules of all listed hosts in order; no other file changes.\<close>

theorem beeipf_installs_rules:
  assumes "no_faults w" "ipf_fits opt"
    and "io_srchosts opt \<noteq> ''-''" "io_srcrules opt \<noteq> ''-''" "io_dstrules opt \<noteq> ''-''"
    and "io_dstrules opt \<noteq> io_srcrules opt"
    and "files w (io_srchosts opt) = Some hosts" "files w (io_srcrules opt) = Some rules"
  shows "ipf_run opt stdin w = Some (0, [], w\<lparr>files := (files w)(io_dstrules opt \<mapsto> bytes_of
    (spliced (io_rsmark opt) (rshead @ concat (map (ipf_rules opt) (hosts_of (text_of hosts))) @ rsepilog)
      (map c_str (pieces 256 (text_of rules)))))\<rparr>)"
proof -
  let ?rs = "rshead @ concat (map (ipf_rules opt) (hosts_of (text_of hosts))) @ rsepilog"
  let ?v = "\<lambda>b. w\<lparr>files := (files w)(io_dstrules opt \<mapsto> b)\<rparr>"
  have n: "no_faults (?v b)" for b using assms(1) by (simp add: no_faults_def)
  have r: "sys_fopen_r p w = (map_option text_of (files w p), w)" for p
    using assms(1) by (simp add: sys_fopen_r_def next_outcome_no_faults split: option.split)
  have "ipf_install opt stdin ?rs w =
      (0, [], ?v (bytes_of (spliced (io_rsmark opt) ?rs (map c_str (pieces 256 (text_of rules))))))"
    using assms copy_splices[OF n[of "[]"], where mark = "io_rsmark opt" and inp = "text_of rules" and r = ?rs and t = "[]"] n[of "[]"]
    by (auto simp: ipf_install_def open_in_def open_out_def close_out_def r sys_fopen_w_def sys_fclose_w_def
        next_outcome_no_faults split_beta Let_def)
  with assms show ?thesis
    by (simp add: ipf_run_def alloc_mem open_in_def r ruleset_nf)
qed

lemma defaults_fit: "ipf_fits ipf_defaults"
  by (simp add: ipf_fits_def ipf_rules_def ipf_rule_def ipf_defaults_def word_sp_def sp_word_def)

definition demo_ipf :: dbs where
  "demo_ipf = (demo_dbs False [])\<lparr>files := [''/var/bee/allowed.inet'' \<mapsto> bytes_of (''10.0.0.1'' @ [CHR 0x0A]),
     ''/etc/ipf.rules'' \<mapsto> bytes_of (''#<beerules>'' @ [CHR 0x0A] @ ''block in'' @ [CHR 0x0A])]\<rparr>"

theorem beeipf_installs_rules_witness:
  "ipf_run ipf_defaults [] demo_ipf = Some (0, [], demo_ipf\<lparr>files := (files demo_ipf)(''/var/bee/ipf.rules.effective'' \<mapsto>
     bytes_of (''#<beerules>'' @ [CHR 0x0A] @ rshead @ ''pass out from 10.0.0.1 to any'' @ [CHR 0x0A] @
       ''pass in from any to 10.0.0.1'' @ [CHR 0x0A] @ rsepilog @ ''block in'' @ [CHR 0x0A]))\<rparr>)"
proof -
  have n: "no_faults demo_ipf" by (simp add: demo_ipf_def no_faults_def demo_dbs_def)
  have f: "pieces k (l @ CHR 0x0A # s) = (l @ [CHR 0x0A]) # pieces k s"
    if "CHR 0x0A \<notin> set l" "length l + 1 < k" for k l s
    using that fgets_line[of l k s] by (simp add: pieces.simps[of k "l @ CHR 0x0A # s"])
  have e: "pieces k [] = []" for k by (simp add: pieces.simps)
  have h: "hosts_of (''10.0.0.1'' @ [CHR 0x0A]) = [''10.0.0.1'']"
    using f[of "''10.0.0.1''" 80 "[]"] by (simp add: hosts_of_def e c_str_def SPACES_def)
  have p: "map c_str (pieces 256 (''#<beerules>'' @ [CHR 0x0A] @ ''block in'' @ [CHR 0x0A])) =
      [''#<beerules>'' @ [CHR 0x0A], ''block in'' @ [CHR 0x0A]]"
    using f[of "''#<beerules>''" 256 "''block in'' @ [CHR 0x0A]"] f[of "''block in''" 256 "[]"]
    by (simp add: e c_str_def)
  from beeipf_installs_rules[OF n defaults_fit, where stdin = "[]"
      and hosts = "bytes_of (''10.0.0.1'' @ [CHR 0x0A])"
      and rules = "bytes_of (''#<beerules>'' @ [CHR 0x0A] @ ''block in'' @ [CHR 0x0A])"]
  show ?thesis
    unfolding text_of_bytes h p
    by (simp add: ipf_defaults_def demo_ipf_def spliced_def Let_def ipf_rules_def ipf_rule_def word_sp_def sp_word_def)
qed

end
