(* ===== verification/Ipchk.thy ===== *)
theory Ipchk
  imports Getopt
begin

text \<open>
  The address checker \<open>ipchk\<close> (\<open>src/src/bee/utils/ipchk/ipchk.c\<close>): it reads a list of rules and decides
  whether an address may pass.  A line of the list is a rule that lets pass or blocks a network, is
  faulty, or says nothing; what the program makes of the sequence of these is compared with a
  decision by the last or the first rule that matches.
\<close>

section \<open>Matching an address\<close>

fun ip_mask :: "nat \<Rightarrow> u32 \<Rightarrow> u32 \<Rightarrow> u32" where
  "ip_mask 0 b m = m"
| "ip_mask (Suc n) b m = ip_mask n (drop_bit 1 b) (m OR b)"

definition ipcmp :: "u32 \<Rightarrow> u32 \<Rightarrow> int \<Rightarrow> bool" where
  "ipcmp host rule bits =
     (let m = htonl (ip_mask (nat bits) 0x80000000 0) in host AND m = rule AND m)"

text \<open>The mask of an address without one: its trailing zero bytes are left out.\<close>

definition auto_mask :: "u32 \<Rightarrow> int" where
  "auto_mask addr = 32 - 8 * int (length (takeWhile (\<lambda>b. b = 0) (rev (le_bytes 4 (unat addr)))))"

section \<open>A line of the list\<close>

datatype line_result = Nothing | Faulty | Rule bool bool

definition IPCHK_DELIM :: string where
  "IPCHK_DELIM = [CHR '' '', CHR 0x09, CHR 0x0A, CHR 0x0D]"

text \<open>
  The rule of a line, given with what follows: exclamation marks turn it round, also when they stand alone.
  The result is the text of the address, if there is one.
\<close>

function bang :: "string \<Rightarrow> ptr \<Rightarrow> bool \<Rightarrow> string option \<times> bool" where
  "bang str ptr rule =
     (let rest = dropWhile (\<lambda>c. c = CHR ''!'') str;
          rule = (rule \<noteq> odd (length str - length rest))
      in if rest \<noteq> [] then (Some rest, rule)
         else (case next_token ptr IPCHK_DELIM of
             (None, _) \<Rightarrow> (None, rule)
           | (Some str, ptr) \<Rightarrow> bang str ptr rule))"
  by pat_completeness auto
termination
  by (relation "measure (\<lambda>(_, ptr, _). ptr_length ptr)") (simp, simp del: next_token.simps add: next_token_shorter[OF sym])

declare bang.simps [simp del]

text \<open>The address of a rule with an optional mask behind a slash.\<close>

definition addr_rule :: "u32 \<Rightarrow> bool \<Rightarrow> string \<Rightarrow> line_result" where
  "addr_rule host rule str =
     (if strcaseeq str ''any'' then Rule True rule
      else (case next_token (Some str) ''/'' of
          (None, _) \<Rightarrow> Faulty
        | (Some a, ptr) \<Rightarrow> (case inet_aton a of
            None \<Rightarrow> Faulty
          | Some addr \<Rightarrow> (case fst (next_token ptr ''/'') of
              None \<Rightarrow> Rule (ipcmp host addr (auto_mask addr)) rule
            | Some m \<Rightarrow>
                (let bits = fst (strtol m 10)
                 in if bits < 0 \<or> bits > 32 then Faulty else Rule (ipcmp host addr bits) rule)))))"

definition rule_line :: "u32 \<Rightarrow> string \<Rightarrow> line_result" where
  "rule_line host buf =
     (if buf = [] \<or> hd buf = CHR ''#'' then Nothing
      else (case next_token (Some buf) IPCHK_DELIM of
          (None, _) \<Rightarrow> Nothing
        | (Some str, ptr) \<Rightarrow>
            if hd str = CHR ''!'' \<or> is_digit 10 (hd str) \<or> strcaseeq str ''any''
            then (case bang str ptr True of (None, _) \<Rightarrow> Faulty | (Some str, rule) \<Rightarrow> addr_rule host rule str)
            else if \<not> strcaseeq str ''pass'' \<and> \<not> strcaseeq str ''block'' then Faulty
            else (case fst (next_token ptr IPCHK_DELIM) of
                None \<Rightarrow> Faulty
              | Some a \<Rightarrow> addr_rule host (strcaseeq str ''pass'') a)))"

section \<open>The program\<close>

record ipchk_opts =
  ic_rulefile :: "string option"
  ic_verbose :: nat
  ic_paranoic :: bool
  ic_fmatch :: bool

text \<open>
  The loop over the lines, read into a buffer of 512 bytes; \<open>skip\<close> says that the rest of a line that is too
  long is passed over.  A line without an end is passed over as well.  The result is the access.
\<close>

function ipchk_loop :: "ipchk_opts \<Rightarrow> u32 \<Rightarrow> string \<Rightarrow> bool \<Rightarrow> bool \<Rightarrow> bool" where
  "ipchk_loop opt host inp skip access =
     (if inp = [] then access
      else (let l = fgets 512 inp; buf = c_str (fst l)
            in if buf = [] then ipchk_loop opt host (snd l) skip access
               else if last buf \<noteq> CHR 0x0A
               then (if ic_paranoic opt then False else ipchk_loop opt host (snd l) True access)
               else if skip then ipchk_loop opt host (snd l) False access
               else (case rule_line host (butlast buf) of
                   Nothing \<Rightarrow> ipchk_loop opt host (snd l) False access
                 | Faulty \<Rightarrow> if ic_paranoic opt then False else ipchk_loop opt host (snd l) False access
                 | Rule m rule \<Rightarrow>
                     if \<not> m then ipchk_loop opt host (snd l) False access
                     else if ic_fmatch opt then rule
                     else ipchk_loop opt host (snd l) False rule)))"
  by pat_completeness auto
termination
  by (relation "measure (\<lambda>(_, _, inp, _, _). length inp)") (simp_all add: fgets_length)

declare ipchk_loop.simps [simp del]

text \<open>\<open>setrealpath\<close>: \<open>realpath\<close> is that of the file system; when it fails the name is not set.\<close>

definition setrealpath :: "(string \<Rightarrow> string option) \<Rightarrow> string \<Rightarrow> string option \<Rightarrow> 'a os_scheme \<Rightarrow> string option \<times> 'a os_scheme" where
  "setrealpath realpath name ptr w = (case sys_alloc w of (mem, w) \<Rightarrow>
     if \<not> mem then (ptr, w)
     else (case realpath name of None \<Rightarrow> (ptr, w) | Some buf \<Rightarrow> (Some buf, w)))"

definition ipchk_option :: "(string \<Rightarrow> string option) \<Rightarrow> char \<times> string \<Rightarrow> ipchk_opts \<times> 'a os_scheme \<Rightarrow>
    (ipchk_opts \<times> 'a os_scheme) option" where
  "ipchk_option realpath x s = (case x of (c, arg) \<Rightarrow> case s of (opt, w) \<Rightarrow>
     if c = CHR ''f'' then Some (case setrealpath realpath arg (ic_rulefile opt) w of (r, w) \<Rightarrow> (opt\<lparr>ic_rulefile := r\<rparr>, w))
     else if c = CHR ''v'' then Some (opt\<lparr>ic_verbose := ic_verbose opt + 1\<rparr>, w)
     else if c = CHR ''s'' then Some (opt\<lparr>ic_paranoic := True\<rparr>, w)
     else if c = CHR ''F'' then Some (opt\<lparr>ic_fmatch := True\<rparr>, w)
     else if c = CHR ''h'' then Some s
     else None)"

text \<open>The verdict printed in verbose mode.\<close>

definition ipchk_answer :: "ipchk_opts \<Rightarrow> bool \<Rightarrow> string" where
  "ipchk_answer opt access = (if ic_verbose opt > 0 then (if access then ''GRANTED'' else ''DENIED'') @ [CHR 0x0A] else [])"

text \<open>The program: \<open>args\<close> are the arguments, \<open>rest\<close> those behind the options; the exit status and the standard output.\<close>

definition ipchk_main :: "(string \<Rightarrow> string option) \<Rightarrow> string list \<Rightarrow> string list \<Rightarrow> string \<Rightarrow> 'a os_scheme \<Rightarrow>
    (bool \<times> string) \<times> 'a os_scheme" where
  "ipchk_main realpath args rest stdin w =
     (case option_loop (ipchk_option realpath) (getopt ''f:v?sFh'' [] args)
         (\<lparr>ic_rulefile = None, ic_verbose = 0, ic_paranoic = False, ic_fmatch = False\<rparr>, w) of
        None \<Rightarrow> ((False, []), w)
      | Some (opt, w) \<Rightarrow>
          if rest = [] then ((False, []), w)
          else (case inet_aton (hd rest) of
              None \<Rightarrow> ((False, []), w)
            | Some host \<Rightarrow> (case (case ic_rulefile opt of None \<Rightarrow> (Some stdin, w) | Some f \<Rightarrow> sys_fopen_r f w) of
                (None, w) \<Rightarrow> ((False, []), w)
              | (Some inp, w) \<Rightarrow>
                  (let access = ipchk_loop opt host inp False False in ((access, ipchk_answer opt access), w)))))"

section \<open>The decision\<close>

text \<open>
  What the lines say in order; in the paranoic mode the first piece without an end counts as faulty.  In the
  other mode it and the rest of its line say nothing.
\<close>

function line_results :: "u32 \<Rightarrow> string \<Rightarrow> bool \<Rightarrow> line_result list" where
  "line_results host inp skip =
     (if inp = [] then []
      else (let l = fgets 512 inp; buf = c_str (fst l)
            in if buf = [] then line_results host (snd l) skip
               else if last buf \<noteq> CHR 0x0A then Faulty # line_results host (snd l) True
               else if skip then line_results host (snd l) False
               else rule_line host (butlast buf) # line_results host (snd l) False))"
  by pat_completeness auto
termination
  by (relation "measure (\<lambda>(_, inp, _). length inp)") (simp_all add: fgets_length)

declare line_results.simps [simp del]

definition matching :: "line_result \<Rightarrow> bool option" where
  "matching r = (case r of Rule True rule \<Rightarrow> Some rule | _ \<Rightarrow> None)"

text \<open>The decision by the first or the last matching rule; without one nothing passes.\<close>

definition first_match :: "line_result list \<Rightarrow> bool" where
  "first_match rs = (case List.map_filter matching rs of [] \<Rightarrow> False | r # _ \<Rightarrow> r)"

definition last_match :: "line_result list \<Rightarrow> bool" where
  "last_match rs = (case rev (List.map_filter matching rs) of [] \<Rightarrow> False | r # _ \<Rightarrow> r)"

definition decision :: "ipchk_opts \<Rightarrow> line_result list \<Rightarrow> bool" where
  "decision opt rs =
     (if ic_fmatch opt
      then first_match rs \<and> (ic_paranoic opt \<longrightarrow> Faulty \<notin> set (takeWhile (\<lambda>r. matching r = None) rs))
      else last_match rs \<and> (ic_paranoic opt \<longrightarrow> Faulty \<notin> set rs))"

lemma matching_simps [simp]:
  "matching Nothing = None" "matching Faulty = None" "matching (Rule m r) = (if m then Some r else None)"
  by (simp_all add: matching_def split: bool.split)

lemma first_match_Cons:
  "first_match (r # rs) = (case matching r of Some x \<Rightarrow> x | None \<Rightarrow> first_match rs)"
  by (simp add: first_match_def List.map_filter_simps split: option.split)

text \<open>The loop in the last-match mode, for the access so far.\<close>

definition last_from :: "bool \<Rightarrow> line_result list \<Rightarrow> bool" where
  "last_from a rs = fold (\<lambda>r a. case matching r of Some x \<Rightarrow> x | None \<Rightarrow> a) rs a"

lemma last_from_match: "last_from a rs = (case rev (List.map_filter matching rs) of [] \<Rightarrow> a | r # _ \<Rightarrow> r)"
  by (induction rs arbitrary: a)
    (auto simp: last_from_def List.map_filter_simps split: option.splits list.splits)

lemma last_from_Cons: "last_from a (r # rs) = last_from (case matching r of Some x \<Rightarrow> x | None \<Rightarrow> a) rs"
  by (simp add: last_from_def)

text \<open>One piece of the list, in both views.\<close>

lemma loop_step:
  assumes "inp \<noteq> []"
  shows "ipchk_loop opt host inp skip a =
    (let l = fgets 512 inp; buf = c_str (fst l)
     in if buf = [] then ipchk_loop opt host (snd l) skip a
        else if last buf \<noteq> CHR 0x0A then (if ic_paranoic opt then False else ipchk_loop opt host (snd l) True a)
        else if skip then ipchk_loop opt host (snd l) False a
        else (case rule_line host (butlast buf) of
            Nothing \<Rightarrow> ipchk_loop opt host (snd l) False a
          | Faulty \<Rightarrow> if ic_paranoic opt then False else ipchk_loop opt host (snd l) False a
          | Rule m rule \<Rightarrow>
              if \<not> m then ipchk_loop opt host (snd l) False a
              else if ic_fmatch opt then rule
              else ipchk_loop opt host (snd l) False rule))"
  and "line_results host inp skip =
    (let l = fgets 512 inp; buf = c_str (fst l)
     in if buf = [] then line_results host (snd l) skip
        else if last buf \<noteq> CHR 0x0A then Faulty # line_results host (snd l) True
        else if skip then line_results host (snd l) False
        else rule_line host (butlast buf) # line_results host (snd l) False)"
  using assms by (subst ipchk_loop.simps line_results.simps, simp)+

lemma loop_last:
  assumes "\<not> ic_fmatch opt"
  shows "ipchk_loop opt host inp skip a =
     ((ic_paranoic opt \<longrightarrow> Faulty \<notin> set (line_results host inp skip)) \<and> last_from a (line_results host inp skip))"
proof (induction "length inp" arbitrary: inp skip a rule: less_induct)
  case less
  show ?case
  proof (cases "inp = []")
    case True
    then show ?thesis by (simp add: ipchk_loop.simps[of opt host "[]"] line_results.simps[of host "[]"] last_from_def)
  next
    case False
    define rest where "rest = snd (fgets 512 inp)"
    have "length rest < length inp" using False by (simp add: rest_def fgets_length)
    note ih = less.hyps[OF this]
    show ?thesis
      unfolding loop_step[OF False] rest_def[symmetric] Let_def
      by (cases "rule_line host (butlast (c_str (fst (fgets 512 inp))))") (simp_all add: ih assms last_from_Cons)
  qed
qed

lemma loop_first:
  assumes "ic_fmatch opt"
  shows "ipchk_loop opt host inp skip False =
     (first_match (line_results host inp skip) \<and>
      (ic_paranoic opt \<longrightarrow> Faulty \<notin> set (takeWhile (\<lambda>r. matching r = None) (line_results host inp skip))))"
proof (induction "length inp" arbitrary: inp skip rule: less_induct)
  case less
  show ?case
  proof (cases "inp = []")
    case True
    then show ?thesis
      by (simp add: ipchk_loop.simps[of opt host "[]"] line_results.simps[of host "[]"] first_match_def List.map_filter_simps)
  next
    case False
    define rest where "rest = snd (fgets 512 inp)"
    have "length rest < length inp" using False by (simp add: rest_def fgets_length)
    note ih = less.hyps[OF this]
    show ?thesis
      unfolding loop_step[OF False] rest_def[symmetric] Let_def
      by (cases "rule_line host (butlast (c_str (fst (fgets 512 inp))))") (auto simp: ih assms first_match_Cons)
  qed
qed

text \<open>A rule matches the network that the gate table makes of its address and mask.\<close>

lemma ip_masks:
  "list_all (\<lambda>n. ip_mask n 0x80000000 0 = (if n = 0 then 0 else push_bit (32 - n) 0xffffffff)) [0..<33]"
  by (simp add: upt_rec)

lemma ipcmp_mask: "0 \<le> bits \<Longrightarrow> bits \<le> 32 \<Longrightarrow> ipcmp host addr bits = (host AND make_addr_mask bits = addr AND make_addr_mask bits)"
proof -
  assume b: "0 \<le> bits" "bits \<le> 32"
  then have "ip_mask (nat bits) 0x80000000 0 = (if bits = 0 then 0 else push_bit (32 - nat bits) 0xffffffff)"
    using ip_masks by (auto simp: list_all_iff dest: bspec[of _ _ "nat bits"])
  moreover have "htonl 0 = 0" "htonl 0xffffffff = 0xffffffff" by (simp_all add: htonl_def le_bytes_4)
  moreover have "nat (32 - bits) = 32 - nat bits" using b by (simp add: nat_diff_distrib)
  ultimately have "htonl (ip_mask (nat bits) 0x80000000 0) = make_addr_mask bits"
    using b by (cases "bits = 32") (simp_all add: make_addr_mask_def)
  then show ?thesis by (simp add: ipcmp_def Let_def)
qed

text \<open>
  C32: The address checker decides as its list says: it lets an address pass if and only if the last rule that
  matches (with \<open>-F\<close> the first) lets it pass, and in the paranoic mode no line that it had to read is
  faulty.  An address that no rule matches is denied.\<close>

theorem ipchk_decides:
  "ipchk_loop opt host inp False False = decision opt (line_results host inp False)"
  using loop_last[of opt host inp False False] loop_first[of opt host inp False]
  by (auto simp: decision_def last_match_def last_from_match split: list.splits)

end
