(* ===== verification/Datsort.thy ===== *)
theory Datsort
  imports Getopt Arrays
begin

text \<open>
  \<open>datsort\<close> (\<open>src/src/bee/utils/datsort/datsort.c\<close>) sorts a file of traffic records by time, with the bubble sort of
  \<open>Arrays\<close> on the memory block the file was read into, and writes or appends it to another file.
\<close>

text \<open>\<open>parserec_t\<close>: 32 bytes on the target, the time first.\<close>

abbreviation (input) PARSEREC_SIZE :: nat where "PARSEREC_SIZE \<equiv> 32"

definition rec_time :: "byte list \<Rightarrow> int" where
  "rec_time r = sint (word_of_nat (un_le (take 4 r)) :: u32)"

definition cmprecs :: "byte list \<Rightarrow> byte list \<Rightarrow> int" where
  "cmprecs one two = (if rec_time two < rec_time one then 1 else 0)"

record sort_opts =
  so_output :: "string option"
  so_append :: bool
  so_stdout :: bool

definition sort_option :: "char \<times> string \<Rightarrow> sort_opts \<Rightarrow> sort_opts option" where
  "sort_option x opt = (case x of (c, arg) \<Rightarrow>
     if c = CHR ''o'' then Some (opt\<lparr>so_output := Some arg, so_stdout := so_stdout opt \<or> arg = ''-''\<rparr>)
     else if c = CHR ''O'' then Some (opt\<lparr>so_append := True\<rparr>)
     else None)"

text \<open>
  The input: the size that \<open>fstat\<close> reports and what \<open>fread\<close> delivers.  The standard input is a file.  The
  result is the block of records, or nothing when a call fails or the read is short.
\<close>

definition sort_load :: "string \<Rightarrow> byte list \<Rightarrow> 'a os_scheme \<Rightarrow> darr option \<times> 'a os_scheme" where
  "sort_load input stdin w =
     (case (if input = ''-'' then (Some (text_of stdin), w) else sys_fopen_r input w) of
        (None, w) \<Rightarrow> (None, w)
      | (Some t, w) \<Rightarrow>
          (let data = (if input = ''-'' then stdin else case files w input of None \<Rightarrow> [] | Some bs \<Rightarrow> bs)
           in case next_outcome w of (x, w) \<Rightarrow>
              if x = Fail then (None, w)
              else (case sys_alloc w of (mem, w) \<Rightarrow>
                if \<not> mem \<or> length t < length data then (None, w)
                else (Some \<lparr>da_cnt = int (length data div PARSEREC_SIZE), da_mem = data\<rparr>, w))))"

text \<open>\<open>open\<close> for writing, which creates the file and empties it unless records are appended, and the end of a file.\<close>

definition sys_open_out :: "string \<Rightarrow> bool \<Rightarrow> 'a os_scheme \<Rightarrow> int \<times> 'a os_scheme" where
  "sys_open_out path trunc w = (case next_outcome w of (x, w) \<Rightarrow>
     if x = Fail then (- 1, w)
     else (nextfd w,
           w\<lparr>files := (if trunc \<or> files w path = None then (files w)(path \<mapsto> []) else files w),
             fdt := (fdt w)(nextfd w \<mapsto> \<lparr>fe_path = path, fe_pos = 0, fe_lock = LOCK_UN, fe_ro = False\<rparr>),
             nextfd := nextfd w + 1\<rparr>))"

definition sys_lseek_end :: "int \<Rightarrow> 'a os_scheme \<Rightarrow> int \<times> 'a os_scheme" where
  "sys_lseek_end fd w = (case next_outcome w of (x, w) \<Rightarrow>
     (case fd_data w fd of
        None \<Rightarrow> (- 1, w)
      | Some bs \<Rightarrow> if x = Fail then (- 1, w) else (int (length bs), set_pos fd (int (length bs)) w)))"

definition sort_open :: "sort_opts \<Rightarrow> string \<Rightarrow> 'a os_scheme \<Rightarrow> int \<times> 'a os_scheme" where
  "sort_open opt path w = (case sys_open_out path (\<not> so_append opt) w of (fd, w) \<Rightarrow>
     if fd < 0 \<or> \<not> so_append opt then (fd, w)
     else (case sys_lseek_end fd w of (offs, w) \<Rightarrow>
       if offs smod int PARSEREC_SIZE \<noteq> 0
       then (fd, snd (sys_lseek fd (offs - offs smod int PARSEREC_SIZE) w)) else (fd, w)))"

text \<open>
  The exit status and the standard output; \<open>None\<close> when the program reads through a null pointer, for lack of
  an input file, or the sort does not end.  The result of \<open>write\<close> is compared as an unsigned number, so only a
  partial write is noticed.
\<close>

definition datsort_main :: "string list \<Rightarrow> string list \<Rightarrow> byte list \<Rightarrow> 'a os_scheme \<Rightarrow> (int \<times> byte list \<times> 'a os_scheme) option" where
  "datsort_main args rest stdin w =
     (case option_loop sort_option (getopt ''o:Oz'' [] args) \<lparr>so_output = None, so_append = False, so_stdout = False\<rparr> of
        None \<Rightarrow> Some (0, [], w)
      | Some opt \<Rightarrow>
          if rest = [] then None
          else (case sort_load (hd rest) stdin w of
              (None, w) \<Rightarrow> Some (- 1, [], w)
            | (Some a, w) \<Rightarrow> (case da_bsort PARSEREC_SIZE cmprecs a of
                None \<Rightarrow> None
              | Some (rc, a) \<Rightarrow>
                  if rc < 0 then Some (- 1, [], w)
                  else (let out = take (nat (da_cnt a) * PARSEREC_SIZE) (da_mem a)
                   in case so_output opt of
                        None \<Rightarrow> Some (0, [], w)
                      | Some path \<Rightarrow>
                          if so_stdout opt then Some (0, out, w)
                          else (case sort_open opt path w of (fd, w) \<Rightarrow>
                            if fd < 0 then Some (- 1, [], w)
                            else (case sys_write fd out w of (rc, w) \<Rightarrow>
                              if 0 \<le> rc \<and> rc < int (length out) then Some (- 1, [], w)
                              else Some (0, [], snd (sys_close fd w))))))))"

text \<open>On a machine without faults a file of whole records is sorted: the records stay the same, in the order of time.\<close>

lemma datsort_file:
  assumes "no_faults w" "input \<noteq> ''-''" "files w input = Some bs" "PARSEREC_SIZE dvd length bs" "0 \<le> nextfd w"
    and "option_loop sort_option (getopt ''o:Oz'' [] args) \<lparr>so_output = None, so_append = False, so_stdout = False\<rparr> =
      Some \<lparr>so_output = Some path, so_append = False, so_stdout = False\<rparr>"
  shows "\<exists>out v. datsort_main args [input] stdin w = Some (0, [], v) \<and> files v = (files w)(path \<mapsto> out) \<and>
    mset (records PARSEREC_SIZE out) = mset (records PARSEREC_SIZE bs) \<and> sorted (map rec_time (records PARSEREC_SIZE out))"
proof -
  let ?a = "\<lparr>da_cnt = int (length bs div PARSEREC_SIZE), da_mem = bs\<rparr>"
  have ok: "da_ok PARSEREC_SIZE ?a" using assms(4) by (auto simp: da_ok_def)
  obtain a where a: "da_bsort PARSEREC_SIZE cmprecs ?a = Some (0, a)" "da_ok PARSEREC_SIZE a"
      "mset (da_items PARSEREC_SIZE a) = mset (da_items PARSEREC_SIZE ?a)" "sorted (map rec_time (da_items PARSEREC_SIZE a))"
    using da_bsort_items[OF ok, of cmprecs rec_time] by (auto simp: cmprecs_def)
  have l: "sort_load input stdin w = (Some ?a, w)"
    using assms(1,2,3) by (simp add: sort_load_def sys_fopen_r_def next_outcome_no_faults sys_alloc_def text_of_def)
  have m: "take (nat (da_cnt a) * PARSEREC_SIZE) (da_mem a) = da_mem a" using a(2) by (simp add: da_ok_def)
  have "\<exists>v. datsort_main args [input] stdin w = Some (0, [], v) \<and> files v = (files w)(path \<mapsto> da_mem a)"
    using assms(1,5)
    by (auto simp: datsort_main_def assms(6) l a(1) m sort_open_def sys_open_out_def sys_write_def fd_data_def
        next_outcome_def no_faults_def set_pos_def set_data_def overwrite_def sys_close_def Let_def)
  with a(3,4) show ?thesis by (auto simp: da_items_def)
qed

end
