(* ===== verification/Consoles.thy ===== *)
theory Consoles
  imports Clients
begin

text \<open>
  Two programs that talk with the billing for people: \<open>getacc\<close> (\<open>src/src/bee/utils/getacc/getacc.c\<close>) shows an
  account as a web page in Russian, \<open>clubctl\<close> (\<open>utils/clubctl/clubctl.c\<close>) lists the stations of a club and
  turns them on and off.  The Russian texts are in KOI8-R, given by the numbers of their characters.
\<close>

section \<open>The texts of getacc\<close>

definition koi :: "nat list \<Rightarrow> string" where
  "koi ns = map char_of ns"

definition HTML_SCRIPT :: string where
  "HTML_SCRIPT = ''<H2>'' @ koi [228, 193, 206, 206, 217, 197] @ '' '' @
     koi [206, 197, 196, 207, 211, 212, 213, 208, 206, 217] @ ''</H2><br>'' @
     koi [207, 219, 201, 194, 203, 193] @ '' '' @ koi [211, 203, 210, 201, 208, 212, 193]"

definition HTML_NO_SERVER :: string where
  "HTML_NO_SERVER = ''<H2>'' @ koi [228, 193, 206, 206, 217, 197] @ '' '' @
     koi [206, 197, 196, 207, 211, 212, 213, 208, 206, 217] @ ''</H2><br>'' @
     koi [211, 197, 210, 215, 201, 211] @ '' '' @ koi [206, 197] @ '' '' @ koi [206, 193, 202, 196, 197, 206]"

definition HTML_SERVICE :: string where
  "HTML_SERVICE = ''<H2>'' @ koi [228, 193, 206, 206, 217, 197] @ '' '' @
     koi [206, 197, 196, 207, 211, 212, 213, 208, 206, 217] @ ''</H2><BR>'' @
     koi [207, 219, 201, 194, 203, 193] @ '' '' @ koi [211, 197, 210, 215, 201, 211, 193]"

definition HTML_ACCOUNT :: string where
  "HTML_ACCOUNT = ''C'' @ koi [222, 197, 212] @ '' #%04ld<BR>''"

definition HTML_DELETED :: string where
  "HTML_DELETED = ''<H2>c'' @ koi [222, 197, 212] @ '' '' @ koi [218, 193, 203, 210, 217, 212] @ ''</H2>'' @ koi [10]"

definition HTML_BROKEN :: string where
  "HTML_BROKEN = ''<H2>c'' @ koi [222, 197, 212] @ '' '' @ koi [208, 207, 215, 210, 197, 214, 196, 197, 206] @
     ''</H2>'' @ koi [10]"

definition HTML_FROZEN :: string where
  "HTML_FROZEN = ''<H2>'' @ koi [211, 222, 197, 212] @ '' '' @ koi [218, 193, 205, 207, 210, 207, 214, 197, 206] @
     ''</H2><BR>''"

definition HTML_OFF :: string where
  "HTML_OFF = koi [211, 222, 197, 212] @ '' '' @ koi [208, 210, 201, 207, 211, 212, 193, 206, 207, 215, 204, 197, 206]"

definition HTML_UNLIMIT :: string where
  "HTML_UNLIMIT = koi [206, 197, 204, 201, 205, 201, 212, 201, 210, 207, 215, 193, 206, 206, 217, 202] @ '' '' @
     koi [196, 207, 211, 212, 213, 208]"

definition HTML_BILLING :: string where
  "HTML_BILLING = koi [207, 219, 201, 194, 203, 193] @ '' '' @ koi [194, 201, 204, 201, 206, 199, 193]"

definition HTML_DEBT :: string where
  "HTML_DEBT = ''<font color=RED>'' @ koi [228, 207, 204, 199] @ ''</font>: ''"

definition HTML_REST :: string where
  "HTML_REST = koi [207, 211, 212, 193, 212, 207, 203] @ '': ''"

definition HTML_SUM :: string where
  "HTML_SUM = ''%d '' @ koi [210, 213, 194] @ ''. %d '' @ koi [203, 207, 208] @ ''.''"

definition HTML_NOACC :: string where
  "HTML_NOACC = ''<H2>'' @ koi [206, 197, 212] @ '' '' @ koi [211, 222, 197, 212, 193] @ ''</H2><br>('' @
     koi [215, 193, 219] @ '' '' @ koi [200, 207, 211, 212] @ '' '' @ koi [206, 197] @ '' '' @
     koi [218, 193, 210, 197, 199, 201, 211, 212, 210, 201, 210, 207, 215, 193, 206] @ '')''"

definition HTML_ANSWER :: string where
  "HTML_ANSWER = ''<H2>'' @ koi [228, 193, 206, 206, 217, 197] @ '' '' @
     koi [206, 197, 196, 207, 211, 212, 213, 208, 206, 217] @ ''</H2><br>'' @
     koi [207, 219, 201, 194, 203, 193] @ '' '' @ koi [211, 197, 210, 215, 201, 211, 193]"

section \<open>The account as a page\<close>

definition tag_has :: "int \<Rightarrow> u32 \<Rightarrow> bool" where
  "tag_has tag flag = (word_of_int tag AND flag \<noteq> 0)"

text \<open>A state of the account as a heading, unless one is open already; what is printed and whether one is open.\<close>

definition heading :: "bool \<Rightarrow> string \<Rightarrow> bool \<times> string \<Rightarrow> bool \<times> string" where
  "heading cond text s = (case s of (colon, out) \<Rightarrow>
     if cond then (True, out @ (if colon then text else ''<H2>'' @ text @ ''</H2>'') @ ''<BR>'') else s)"

definition balance_text :: "bool \<Rightarrow> int \<Rightarrow> string" where
  "balance_text colon balance =
     (if colon then [] else ''<H2>'') @ (if balance < 0 then HTML_DEBT else HTML_REST) @
     (let b = i32 \<bar>balance\<bar> in printf HTML_SUM [AI (b sdiv 100), AI (b smod 100)]) @ (if colon then [] else ''</H2>'')"

definition getacc_text :: "ptr \<Rightarrow> string" where
  "getacc_text msg = (case next_token msg BLANKS of
      (None, _) \<Rightarrow> HTML_SERVICE
    | (Some acc, p) \<Rightarrow> printf HTML_ACCOUNT [AI (fst (strtol acc 10))] @
        (case next_token p BLANKS of
           (None, _) \<Rightarrow> HTML_SERVICE
         | (Some t, p) \<Rightarrow>
             (let tag = fst (strtol t 10)
              in if tag_has tag ATAG_DELETED then HTML_DELETED
                 else if tag_has tag ATAG_BROKEN then HTML_BROKEN
                 else (case heading (tag_has tag ATAG_UNLIMIT) HTML_UNLIMIT
                              (heading (tag_has tag ATAG_OFF) HTML_OFF
                                 (if tag_has tag ATAG_FROZEN then (True, HTML_FROZEN) else (False, []))) of
                     (colon, out) \<Rightarrow> out @ (case fst (next_token p BLANKS) of
                         None \<Rightarrow> HTML_BILLING
                       | Some b \<Rightarrow> balance_text colon (to_c_int (dmul (atof b) (d_of_int 100))))))))"

definition getacc :: "string list \<Rightarrow> 'a ipc_scheme \<Rightarrow> int \<times> string \<times> 'a ipc_scheme" where
  "getacc args w =
     (if args = [] then (- 1, HTML_SCRIPT, w)
      else (case link_request w of (rc, w) \<Rightarrow>
        if rc = - 1 then (- 1, HTML_NO_SERVER, w)
        else (case answait RET_SUCCESS 128 w of (rc, _, w) \<Rightarrow>
          if rc \<noteq> RET_SUCCESS then (- 1, HTML_SERVICE, w)
          else (case bee_request ''machine'' [] RET_SUCCESS w of (rc, _, w) \<Rightarrow>
            if rc \<noteq> RET_SUCCESS then (- 1, HTML_SERVICE, w)
            else (case bee_request ''acc inet name %s'' [AS (hd args)] RET_STR w of (rc, msg, w) \<Rightarrow>
              if rc \<noteq> RET_STR \<and> rc < 400 then (- 1, HTML_SERVICE, w)
              else if rc = RET_STR then (0, getacc_text msg, link_printf ''exit'' [] w)
              else if rc = ERR_NOACC then (- 1, HTML_NOACC, w)
              else (- 1, HTML_ANSWER, w))))))"

section \<open>The club\<close>

definition eol :: "string \<Rightarrow> string" where
  "eol s = s @ [CHR 0x0A]"

definition stations :: "int list" where
  "stations = [1..8]"

text \<open>\<open>link_request\<close>, the greeting and \<open>machine\<close>, with the messages; a result below 0 ends the conversation.\<close>

definition club_connect :: "'a ipc_scheme \<Rightarrow> int \<times> string \<times> 'a ipc_scheme" where
  "club_connect w = (case link_request w of (rc, w) \<Rightarrow>
     if rc < 0 then (rc, eol ''ERROR - Can't connect to bee'', w)
     else (case answait RET_SUCCESS 128 w of (rc, _, w) \<Rightarrow>
       let out = (if rc \<noteq> RET_SUCCESS then eol ''ERROR - No bee HELLO'' else [])
       in if rc < 0 then (rc, out, w)
          else (case bee_request ''machine'' [] RET_SUCCESS w of (rc, _, w) \<Rightarrow>
            (rc, out @ (if rc \<noteq> RET_SUCCESS then eol ''ERROR - Bee error'' else []), w))))"

text \<open>The answer for a station: what is printed and whether the closing answer is still to come.\<close>

definition station_text :: "int \<Rightarrow> ptr \<Rightarrow> string \<times> bool" where
  "station_text i msg = (case next_token msg BLANKS of
      (None, _) \<Rightarrow> (eol (printf ''station%02d - Bee error'' [AI i]), False)
    | (Some acc, p) \<Rightarrow> (case next_token p BLANKS of
          (None, _) \<Rightarrow> (eol (printf ''station%02d - Bee error'' [AI i]), False)
        | (Some t, p) \<Rightarrow> (case fst (next_token p BLANKS) of
              None \<Rightarrow> (eol ''ERROR - Bee error'', False)
            | Some b \<Rightarrow>
                (eol (printf ''station%2d - %s'' [AI i, AS (if tag_has (fst (strtol t 10)) ATAG_UNLIMIT then ''ON'' else ''OFF'')]),
                 True))))"

fun club_answers :: "int list \<Rightarrow> 'a ipc_scheme \<Rightarrow> string \<times> 'a ipc_scheme" where
  "club_answers [] w = ([], w)"
| "club_answers (i # ns) w = (case answait RET_STR 128 w of (rc, msg, w) \<Rightarrow>
     if rc \<noteq> RET_STR \<and> rc < 400 then (eol ''ERROR - Bee error'', w)
     else (case (if rc = RET_STR then
               (case station_text i msg of (out, again) \<Rightarrow>
                  if \<not> again then (out, w)
                  else (case answait RET_SUCCESS 128 w of (rc, _, w) \<Rightarrow>
                    (out @ (if rc \<noteq> RET_SUCCESS then eol ''ERROR - Bee error'' else []), w)))
             else if rc = ERR_NOACC then (eol (printf ''station%02d - Account not exist'' [AI i]), w)
             else (eol (printf ''station%02d - Bee error'' [AI i]), w)) of (out, w) \<Rightarrow>
        case club_answers ns w of (rest, w) \<Rightarrow> (out @ rest, w)))"

text \<open>The list of stations: all questions first, then the answers.\<close>

definition club_list :: "'a ipc_scheme \<Rightarrow> string \<times> 'a ipc_scheme" where
  "club_list w = (case club_connect w of (rc, out, w) \<Rightarrow>
     if rc < 0 then (eol ''LIST:'' @ out, w)
     else (let w = fold (\<lambda>i w. link_printf ''acc adder name %s'' [AS (printf ''station%d'' [AI i])] w) stations w
           in case club_answers stations w of (text, w) \<Rightarrow> (eol ''LIST:'' @ out @ text, link_printf ''exit'' [] w)))"

text \<open>A line of input: nothing, a message, or the command and the station.\<close>

definition club_command :: "string \<Rightarrow> string + (bool \<times> int) option" where
  "club_command line = (case next_token (Some line) (BLANKS @ [CHR 0x0A]) of
      (None, _) \<Rightarrow> Inr None
    | (Some str, p) \<Rightarrow>
        if \<not> strcaseeq str ''on'' \<and> \<not> strcaseeq str ''off'' then Inr None
        else (case fst (next_token p (BLANKS @ [CHR 0x0A])) of
            None \<Rightarrow> Inl (eol ''ERROR - Station number expected'')
          | Some n \<Rightarrow>
              (let i = fst (strtol n 10)
               in if i < 1 \<or> i > 8 then Inl (eol ''ERROR - Invalid station number'')
                  else Inr (Some (strcaseeq str ''on'', i)))))"

text \<open>Turning a station on or off; the conversation is closed in any case.\<close>

definition club_switch :: "bool \<Rightarrow> int \<Rightarrow> 'a ipc_scheme \<Rightarrow> string \<times> 'a ipc_scheme" where
  "club_switch cmd i w = (case club_connect w of (rc, out, w) \<Rightarrow>
     case (if rc < 0 then (rc, out, w)
           else (case bee_request ''%slimit adder name %s''
                        [AS (if cmd then ''un'' else []), AS (printf ''station%d'' [AI i])] RET_SUCCESS w of (rc, _, w) \<Rightarrow>
             (rc, out @ (if rc \<noteq> RET_SUCCESS then eol ''ERROR - Bee error'' else []), w))) of (rc, out, w) \<Rightarrow>
     case (if rc < 0 then (out, w)
           else (case bee_request ''update'' [] RET_SUCCESS w of (rc, _, w) \<Rightarrow>
             (out @ (if rc \<noteq> RET_SUCCESS then eol ''ERROR - Bee error'' else []), w))) of (out, w) \<Rightarrow>
     (out, link_printf ''exit'' [] w))"

text \<open>The loop until the end of the input, read into a buffer of 80 bytes.\<close>

function club_loop :: "string \<Rightarrow> string \<Rightarrow> 'a ipc_scheme \<Rightarrow> string \<times> 'a ipc_scheme" where
  "club_loop inp out w = (case club_list w of (text, w) \<Rightarrow>
     let out = out @ text @ [CHR 0x0A] @ ''> ''
     in if inp = [] then (out, w)
        else (let l = fgets 80 inp
              in case club_command (c_str (fst l)) of
                   Inl msg \<Rightarrow> club_loop (snd l) (out @ msg) w
                 | Inr None \<Rightarrow> club_loop (snd l) out w
                 | Inr (Some (cmd, i)) \<Rightarrow> (case club_switch cmd i w of (text, w) \<Rightarrow> club_loop (snd l) (out @ text) w)))"
  by pat_completeness auto
termination
  by (relation "measure (\<lambda>(inp, _, _). length inp)") (simp_all add: fgets_length)

declare club_loop.simps [simp del]

definition clubctl :: "string \<Rightarrow> 'a ipc_scheme \<Rightarrow> string \<times> 'a ipc_scheme" where
  "clubctl stdin w = club_loop stdin (eol ''Club control utility ver 0.1'') w"

end
