(* ===== verification/LogIndex.thy ===== *)
theory LogIndex
  imports Getopt Reports
begin

text \<open>
  The index of the transaction log.  \<open>logidx\<close> (\<open>src/src/bee/utils/logidx/logidx.c\<close>) writes for each day
  after the first the number of the first record of that day or later; the report generator
  \<open>beerep\<close> (\<open>utils/beerep/beerep.c\<close>) reads two entries to learn which part of the log it must scan.  The
  log is read through the sequential cache of \<open>RecFile\<close>.  Overflow of a signed number is a run-time
  error (\<open>None\<close>).
\<close>

section \<open>Building the index\<close>

abbreviation (input) ONE_DAY :: int where "ONE_DAY \<equiv> 86400"

definition IDXMARKER :: "byte list" where
  "IDXMARKER = bytes_of ''bee1''"

text \<open>\<open>idxhead_t\<close>: the marker and the start of the first day.\<close>

definition idx_head :: "int \<Rightarrow> byte list" where
  "idx_head first = IDXMARKER @ le_bytes 4 (nat (first mod 2 ^ 32))"

definition idx_entry :: "int \<Rightarrow> byte list" where
  "idx_entry ind = le_bytes 8 (nat (ind mod 2 ^ 64))"

text \<open>The inner loop: an entry for each day that starts before the record at time \<open>t\<close> or with it.\<close>

function idx_days :: "int \<Rightarrow> int \<Rightarrow> int \<Rightarrow> int \<Rightarrow> 'a os_scheme \<Rightarrow> (bool \<times> int \<times> 'a os_scheme) option" where
  "idx_days fd ind t next w =
     (if \<not> in_i32 (next - t) then None
      else if next - t \<le> 0
      then (case sys_write fd (idx_entry ind) w of (rc, w) \<Rightarrow>
        if rc < 8 then Some (False, next, w)
        else if \<not> in_i32 (next + ONE_DAY) then None
        else idx_days fd ind t (next + ONE_DAY) w)
      else Some (True, next, w))"
  by pat_completeness auto
termination
  by (relation "measure (\<lambda>(_, _, t, next, _). nat (t - next + 1))") auto

declare idx_days.simps [simp del]

text \<open>The loop over the records; it ends when there is no such record.\<close>

partial_function (option) idx_loop ::
    "logbase \<Rightarrow> int \<Rightarrow> int \<Rightarrow> int \<Rightarrow> logrec \<Rightarrow> 'a dbs_scheme \<Rightarrow> (bool \<times> 'a dbs_scheme) option" where
  "idx_loop base fd ind next d w = (case logi_get base ind d w of (rc, d, w) \<Rightarrow>
     if rc = NOT_FOUND then Some (True, w)
     else if rc = ACC_BROKEN then idx_loop base fd (ind + 1) next d w
     else if rc < 0 then Some (False, w)
     else Option.bind (idx_days fd ind (sint (lr_time d)) next w) (\<lambda>(ok, next, w).
       if ok then idx_loop base fd (ind + 1) next d w else Some (False, w)))"

text \<open>The start of the day of a time.\<close>

definition day_start :: "int \<Rightarrow> 'a tariffs_scheme \<Rightarrow> int" where
  "day_start t w = mktime ((c_localtime w t)\<lparr>tm_sec := 0, tm_min := 0, tm_hour := 0\<rparr>) w"

definition idx_build :: "logbase \<Rightarrow> int \<Rightarrow> logrec \<Rightarrow> 'a tariffs_scheme \<Rightarrow> (bool \<times> 'a tariffs_scheme) option" where
  "idx_build base fd d w = (case logi_get base 0 d w of (rc, d, w) \<Rightarrow>
     if rc = IO_ERROR \<or> rc = NOT_FOUND then Some (False, w)
     else (let first = day_start (sint (lr_time d)) w
           in if first < 0 then Some (False, w)
              else (case sys_write fd (idx_head first) w of (rc, w) \<Rightarrow>
                if rc < 8 then Some (False, w)
                else if \<not> in_i32 (first + ONE_DAY) then None
                else idx_loop base fd 1 (first + ONE_DAY) d w)))"

text \<open>
  \<open>mkstemp\<close> creates the file whose name it has chosen; \<open>unlink\<close> and \<open>rename\<close> with the result of the call.
  \<open>chmod\<close> leaves the contents alone.
\<close>

definition sys_mkstemp :: "string \<Rightarrow> 'a os_scheme \<Rightarrow> int \<times> 'a os_scheme" where
  "sys_mkstemp path w = (case next_outcome w of (x, w) \<Rightarrow>
     if x = Fail then (- 1, w)
     else (nextfd w,
           w\<lparr>files := (files w)(path \<mapsto> []),
             fdt := (fdt w)(nextfd w \<mapsto> \<lparr>fe_path = path, fe_pos = 0, fe_lock = LOCK_UN, fe_ro = False\<rparr>),
             nextfd := nextfd w + 1\<rparr>))"

definition sys_unlink :: "string \<Rightarrow> 'a os_scheme \<Rightarrow> 'a os_scheme" where
  "sys_unlink path w = (case next_outcome w of (x, w) \<Rightarrow>
     if x = Fail then w else w\<lparr>files := (files w)(path := None)\<rparr>)"

definition idx_publish :: "string \<Rightarrow> string \<Rightarrow> 'a os_scheme \<Rightarrow> 'a os_scheme" where
  "idx_publish idxtemp idxname w = (case next_outcome w of (x, w) \<Rightarrow>
     if x = Fail \<or> files w idxtemp = None then sys_unlink idxtemp w
     else w\<lparr>files := (files w)(idxtemp := None, idxname := files w idxtemp)\<rparr>)"

definition logbase_zero :: logbase where
  "logbase_zero = \<lparr>lb_fd = 0, lb_fasync = 0\<rparr>"

text \<open>The program after the options; \<open>suffix\<close> is what \<open>mkstemp\<close> puts in the place of the last eight characters.\<close>

definition idx_run :: "string \<Rightarrow> string \<Rightarrow> string \<Rightarrow> 'a tariffs_scheme \<Rightarrow> (int \<times> 'a tariffs_scheme) option" where
  "idx_run logname idxname idxtemp w = (case log_baseopen_sr logbase_zero logname w of (rc, base, w) \<Rightarrow>
     if rc < 0 then Some (- 1, w)
     else (case sys_mkstemp idxtemp w of (fd, w) \<Rightarrow>
       if fd < 0 then Some (- 1, w)
       else map_option (\<lambda>(ok, w).
           (case log_baseclose base (if ok then w else snd (sys_close fd w)) of (_, w) \<Rightarrow>
              (0, if \<not> ok then sys_unlink idxtemp w
                  else idx_publish idxtemp idxname (snd (sys_close fd w)))))
         (idx_build base fd logrec_zero w)))"

definition idx_option :: "char \<times> string \<Rightarrow> string \<times> string \<Rightarrow> (string \<times> string) option" where
  "idx_option x s = (case x of (c, arg) \<Rightarrow> case s of (logname, idxname) \<Rightarrow>
     if c = CHR ''f'' then Some (arg, idxname)
     else if c = CHR ''o'' then Some (logname, arg)
     else Some s)"

definition logidx_main :: "string list \<Rightarrow> string \<Rightarrow> 'a tariffs_scheme \<Rightarrow> (int \<times> 'a tariffs_scheme) option" where
  "logidx_main args suffix w = (case conf_load None conf_zero w of
      None \<Rightarrow> None
    | Some (rc, c, w) \<Rightarrow>
        if rc < 0 then Some (- 1, w)
        else (case option_loop idx_option (getopt ''f:o:'' [] args) (c_name (cf_logfile c), c_name (cf_logindex c)) of
            None \<Rightarrow> Some (- 1, w)
          | Some (logname, idxname) \<Rightarrow>
              idx_run logname idxname (take (length (take 511 (c_name (cf_logindex c) @ ''.XXXXXXXX'')) - 8)
                (take 511 (c_name (cf_logindex c) @ ''.XXXXXXXX'')) @ suffix) w))"

section \<open>Using the index\<close>

text \<open>An entry of the index at a position computed as an unsigned number; 0 when there is none.\<close>

definition idx_read :: "int \<Rightarrow> int \<Rightarrow> 'a os_scheme \<Rightarrow> int \<times> 'a os_scheme" where
  "idx_read fd i w =
     (if i \<le> 0 then (0, w)
      else (case sys_lseek fd i w of (rc, w) \<Rightarrow>
        if rc \<noteq> i then (0, w)
        else (case sys_read fd 8 w of (rc, got, w) \<Rightarrow>
          (if rc \<noteq> 8 then 0 else sint (word_of_nat (un_le got) :: u64), w))))"

definition idx_offset :: "int \<Rightarrow> int" where
  "idx_offset n = (n * 8 + 8) mod 2 ^ 32"

text \<open>The first record to scan and the record to stop at, 0 for the end of the log.\<close>

definition idx_range :: "string \<Rightarrow> int \<Rightarrow> int \<Rightarrow> 'a dbs_scheme \<Rightarrow> (int \<times> int) \<times> 'a dbs_scheme" where
  "idx_range idxname from to w = (case sys_open idxname True w of (fd, w) \<Rightarrow>
     if fd < 0 then ((0, 0), w)
     else (case sys_flock fd LOCK_SH w of (rc, w) \<Rightarrow>
       if rc < 0 then ((0, 0), snd (sys_close fd w))
       else (case sys_read fd 8 w of (rc, head, w) \<Rightarrow>
         if rc < 8 then ((0, 0), w)
         else if take 4 head \<noteq> IDXMARKER then ((0, 0), w)
         else (let first = sint (word_of_nat (un_le (drop 4 head)) :: u32)
               in case idx_read fd (idx_offset ((from - first) sdiv ONE_DAY - 2)) w of (start, w) \<Rightarrow>
                  case idx_read fd (idx_offset ((to - first) sdiv ONE_DAY + 1)) w of (stop, w) \<Rightarrow>
                  ((start, stop), snd (sys_close fd w))))))"

text \<open>The records a report scans: those between both, that a time was asked for.\<close>

definition scan_from :: "int \<times> int \<Rightarrow> nat" where
  "scan_from r = nat (fst r)"

definition scan_to :: "int \<times> int \<Rightarrow> nat \<Rightarrow> nat" where
  "scan_to r recs = (if snd r = 0 then recs else nat (snd r))"

section \<open>Reading one file while another is written\<close>

text \<open>What an operation on one descriptor leaves alone, whether it reads through the cache or not.\<close>

definition keeps_others :: "int \<Rightarrow> 'a dbs_scheme \<Rightarrow> 'a dbs_scheme \<Rightarrow> bool" where
  "keeps_others fd w w' \<longleftrightarrow> files w' = files w \<and> (\<forall>x. x \<noteq> fd \<longrightarrow> fdt w' x = fdt w x) \<and>
     zcrc32 w' = zcrc32 w \<and> nextfd w' = nextfd w \<and> dbs.more w' = dbs.more w"

lemma keeps_refl: "keeps_others fd w w"
  by (simp add: keeps_others_def)

lemma keeps_trans: "keeps_others fd w v \<Longrightarrow> keeps_others fd v u \<Longrightarrow> keeps_others fd w u"
  by (simp add: keeps_others_def)

lemma keeps_outcome: "next_outcome w = (x, v) \<Longrightarrow> keeps_others fd w v"
  by (auto simp: keeps_others_def next_outcome_def split: list.splits)

lemma keeps_sets [simp]:
  "keeps_others fd w (set_pos fd p v) = keeps_others fd w v"
  "keeps_others fd w (set_lock fd m v) = keeps_others fd w v"
  "keeps_others fd w (v\<lparr>sqr := q\<rparr>) = keeps_others fd w v"
  "keeps_others fd (w\<lparr>sqr := q\<rparr>) v = keeps_others fd w v"
  by (simp_all add: keeps_others_def set_pos_def set_lock_def)

lemma keeps_calls:
  "sys_lseek fd off w = (p, v) \<Longrightarrow> keeps_others fd w v"
  "sys_fstat fd w = (r, v) \<Longrightarrow> keeps_others fd w v"
  "sys_read fd n w = (b, got, v) \<Longrightarrow> keeps_others fd w v"
  "sys_flock fd m w = (rc, v) \<Longrightarrow> keeps_others fd w v"
  "sys_alloc w = (mem, v) \<Longrightarrow> keeps_others fd w v"
  by (auto simp: sys_lseek_def sys_fstat_def sys_read_def sys_flock_def sys_alloc_def Let_def keeps_refl
      intro: keeps_outcome split: if_splits prod.splits option.splits)

lemma keeps_reccount: "db_reccount fd n w = (r, v) \<Longrightarrow> keeps_others fd w v"
  by (auto simp: db_reccount_def split: prod.splits option.splits intro: keeps_calls)

lemma keeps_get_random: "db_get_random fd rec buf n w = (rc, b, v) \<Longrightarrow> keeps_others fd w v"
  by (auto simp: db_get_random_def split: prod.splits if_splits intro: keeps_trans dest!: keeps_calls)

lemma keeps_get_cached: "db_get_cached fd rec buf n c w = (rc, b, v) \<Longrightarrow> keeps_others fd w v"
  by (auto simp: db_get_cached_def Let_def split: prod.splits if_splits dest!: keeps_calls) (simp_all add: keeps_others_def)

lemma keeps_get: "db_get fd rec buf n w = (rc, b, v) \<Longrightarrow> keeps_others fd w v"
  by (auto simp: db_get_def Let_def split: prod.splits if_splits option.splits
      dest!: keeps_calls[where fd = fd] keeps_reccount keeps_get_random keeps_get_cached)
    (simp_all add: keeps_others_def)

lemma keeps_logi_get: "logi_get base rec d w = (rc, r, v) \<Longrightarrow> keeps_others (lb_fd base) w v"
  by (auto simp: logi_get_def Let_def split: prod.splits if_splits dest: keeps_get)

section \<open>The state while the index is built\<close>

text \<open>
  The log is open for cached reading on \<open>lfd\<close>, \<open>out\<close> is what was written to the new file so far, and the
  rest is as in the state \<open>w0\<close> at the start.
\<close>

definition idx_work :: "'a dbs_scheme \<Rightarrow> int \<Rightarrow> int \<Rightarrow> string \<Rightarrow> string \<Rightarrow> byte list \<Rightarrow> byte list \<Rightarrow> 'a dbs_scheme \<Rightarrow> bool" where
  "idx_work w0 lfd fd lp tmp lbs out w \<longleftrightarrow> seq_ready lfd lp 64 lbs w \<and> lfd \<noteq> fd \<and> lp \<noteq> tmp \<and>
     fdt w fd = Some \<lparr>fe_path = tmp, fe_pos = int (length out), fe_lock = LOCK_UN, fe_ro = False\<rparr> \<and>
     files w tmp = Some out \<and> 0 \<le> nextfd w \<and> zcrc32 w = zcrc32 w0 \<and> dbs.more w = dbs.more w0 \<and> (\<forall>p. p \<noteq> tmp \<longrightarrow> files w p = files w0 p)"

definition log_of :: "byte list \<Rightarrow> logrec list" where
  "log_of lbs = map decode_logrec (records 64 lbs)"

lemma write_work:
  assumes "idx_work w0 lfd fd lp tmp lbs out w"
  shows "\<exists>v. sys_write fd data w = (int (length data), v) \<and> idx_work w0 lfd fd lp tmp lbs (out @ data) v"
proof -
  from assms have nf: "next_outcome w = (Done, w)" by (simp add: idx_work_def seq_ready_def next_outcome_no_faults)
  from assms show ?thesis
    by (auto simp: sys_write_def nf fd_data_def idx_work_def seq_ready_def open_on_def set_pos_def set_data_def
        overwrite_def no_faults_def Let_def)
qed

text \<open>The records with a right checksum.\<close>

definition good_rec :: "'a dbs_scheme \<Rightarrow> byte list \<Rightarrow> nat \<Rightarrow> bool" where
  "good_rec w lbs i \<longleftrightarrow> logrec_crc (log_of lbs ! i) w = lr_crc (log_of lbs ! i)"

lemma get_work:
  assumes "idx_work w0 (lb_fd base) fd lp tmp lbs out w" "i < length (log_of lbs)"
  shows "\<exists>v. logi_get base (int i) d w = (if good_rec w0 lbs i then SUCCESS else ACC_BROKEN, log_of lbs ! i, v) \<and>
    idx_work w0 (lb_fd base) fd lp tmp lbs out v"
proof -
  have r: "seq_ready (lb_fd base) lp 64 lbs w" using assms(1) by (simp add: idx_work_def)
  have i: "i < length (records 64 lbs)" using assms(2) by (simp add: log_of_def)
  from db_get_seq[OF r i, of "encode_logrec d"] obtain v where
    v: "db_get (lb_fd base) (int i) (encode_logrec d) 64 w = (SUCCESS, records 64 lbs ! i, v)"
      "seq_ready (lb_fd base) lp 64 lbs v" by auto
  have k: "keeps_others (lb_fd base) w v" by (rule keeps_get[OF v(1)])
  have "logrec_crc (log_of lbs ! i) v = logrec_crc (log_of lbs ! i) w0"
    using assms k logrec_crc_quiet[of v w0] by (simp add: keeps_others_def idx_work_def)
  with v i have "logi_get base (int i) d w = (if good_rec w0 lbs i then SUCCESS else ACC_BROKEN, log_of lbs ! i, v)"
    by (simp add: logi_get_def log_of_def good_rec_def Let_def)
  moreover have "idx_work w0 (lb_fd base) fd lp tmp lbs out v"
    using assms(1) v(2) k by (simp add: idx_work_def keeps_others_def)
  ultimately show ?thesis by blast
qed

lemma get_end_work:
  assumes "idx_work w0 (lb_fd base) fd lp tmp lbs out w" "length (log_of lbs) \<le> i"
  shows "\<exists>r. logi_get base (int i) d w = (NOT_FOUND, r, w)"
proof -
  have r: "no_faults w" "open_on (lb_fd base) True lp w" "files w lp = Some lbs"
    using assms(1) by (auto simp: idx_work_def seq_ready_def)
  have "int (length lbs div 64) \<le> int i" using assms(2) by (simp add: log_of_def)
  then show ?thesis using db_reccount_nf[OF r, of 64] by (simp add: logi_get_def db_get_def Let_def zdiv_int)
qed

section \<open>What the index says\<close>

definition idx_text :: "int \<Rightarrow> int list \<Rightarrow> byte list" where
  "idx_text first ents = idx_head first @ concat (map idx_entry ents)"

text \<open>
  Entry \<open>e\<close> is the first good one of the records 1 to \<open>n - 1\<close> that is not before day \<open>e + 1\<close>; later days have no
  good record.
\<close>

definition idx_sound :: "int \<Rightarrow> int list \<Rightarrow> (nat \<Rightarrow> bool) \<Rightarrow> nat \<Rightarrow> int list \<Rightarrow> bool" where
  "idx_sound first ts good n ents \<longleftrightarrow>
     (\<forall>e < length ents. 1 \<le> ents ! e \<and> ents ! e < int n \<and> good (nat (ents ! e)) \<and>
        first + (int e + 1) * ONE_DAY \<le> ts ! nat (ents ! e) \<and>
        (\<forall>i. 1 \<le> i \<and> int i < ents ! e \<and> good i \<longrightarrow> ts ! i < first + (int e + 1) * ONE_DAY)) \<and>
     (\<forall>i. 1 \<le> i \<and> i < n \<and> good i \<longrightarrow> ts ! i < first + (int (length ents) + 1) * ONE_DAY)"

lemma days_work:
  assumes "0 \<le> t" "t + ONE_DAY < 2 ^ 31"
  shows "idx_work w0 lfd fd lp tmp lbs out w \<Longrightarrow> 0 \<le> nxt \<Longrightarrow> nxt < 2 ^ 31 \<Longrightarrow>
    \<exists>k v. idx_days fd ind t nxt w = Some (True, nxt + int k * ONE_DAY, v) \<and>
      idx_work w0 lfd fd lp tmp lbs (out @ concat (replicate k (idx_entry ind))) v \<and>
      t < nxt + int k * ONE_DAY \<and> (0 < k \<longrightarrow> nxt + (int k - 1) * ONE_DAY \<le> t)"
proof (induction "nat (t - nxt + 1)" arbitrary: nxt w out rule: less_induct)
  case less
  have o: "in_i32 (nxt - t)" using less.prems assms by (simp add: in_i32_def)
  show ?case
  proof (cases "nxt - t \<le> 0")
    case False
    with o less.prems show ?thesis by (intro exI[of _ 0] exI[of _ w]) (simp add: idx_days.simps[of fd ind t nxt w])
  next
    case True
    obtain v where v: "sys_write fd (idx_entry ind) w = (8, v)" "idx_work w0 lfd fd lp tmp lbs (out @ idx_entry ind) v"
      using write_work[OF less.prems(1), of "idx_entry ind"] by (auto simp: idx_entry_def)
    have n: "in_i32 (nxt + ONE_DAY)" using True assms less.prems by (simp add: in_i32_def)
    have "nat (t - (nxt + ONE_DAY) + 1) < nat (t - nxt + 1)" using True by simp
    from less.hyps[OF this v(2)] True assms less.prems obtain k u where
      k: "idx_days fd ind t (nxt + ONE_DAY) v = Some (True, nxt + ONE_DAY + int k * ONE_DAY, u)"
        "idx_work w0 lfd fd lp tmp lbs ((out @ idx_entry ind) @ concat (replicate k (idx_entry ind))) u"
        "t < nxt + ONE_DAY + int k * ONE_DAY" "0 < k \<longrightarrow> nxt + ONE_DAY + (int k - 1) * ONE_DAY \<le> t"
      by auto
    have "idx_days fd ind t nxt w = idx_days fd ind t (nxt + ONE_DAY) v"
      using o True n by (simp add: idx_days.simps[of fd ind t nxt w] v(1))
    with k True show ?thesis by (intro exI[of _ "Suc k"] exI[of _ u]) (auto simp: algebra_simps)
  qed
qed

lemma sound_step:
  assumes "idx_sound first ts good ind ents" "1 \<le> ind" "good ind"
    and "ts ! ind < first + (int (length ents) + int k + 1) * ONE_DAY"
    and "0 < k \<Longrightarrow> first + (int (length ents) + int k) * ONE_DAY \<le> ts ! ind"
  shows "idx_sound first ts good (Suc ind) (ents @ replicate k (int ind))"
proof -
  have old: "ts ! i < first + (int (length ents) + 1) * ONE_DAY" if "1 \<le> i" "i < ind" "good i" for i
    using assms(1) that by (simp add: idx_sound_def)
  have "1 \<le> (ents @ replicate k (int ind)) ! e \<and> (ents @ replicate k (int ind)) ! e < int (Suc ind) \<and>
      good (nat ((ents @ replicate k (int ind)) ! e)) \<and>
      first + (int e + 1) * ONE_DAY \<le> ts ! nat ((ents @ replicate k (int ind)) ! e) \<and>
      (\<forall>i. 1 \<le> i \<and> int i < (ents @ replicate k (int ind)) ! e \<and> good i \<longrightarrow> ts ! i < first + (int e + 1) * ONE_DAY)"
    if "e < length ents + k" for e
  proof (cases "e < length ents")
    case True
    with assms(1) show ?thesis by (force simp: idx_sound_def nth_append)
  next
    case False
    then have e: "(ents @ replicate k (int ind)) ! e = int ind" using that by (simp add: nth_append)
    have "(int e + 1) * ONE_DAY \<le> (int (length ents) + int k) * ONE_DAY" using that by simp
    moreover have "(int (length ents) + 1) * ONE_DAY \<le> (int e + 1) * ONE_DAY" using False by simp
    ultimately show ?thesis using assms(2,3,5) old False that by (fastforce simp: e)
  qed
  moreover have "ts ! i < first + (int (length ents + k) + 1) * ONE_DAY" if "1 \<le> i" "i < Suc ind" "good i" for i
  proof (cases "i = ind")
    case False
    with old[of i] that have "ts ! i < first + (int (length ents) + 1) * ONE_DAY" by simp
    also have "\<dots> \<le> first + (int (length ents + k) + 1) * ONE_DAY" by simp
    finally show ?thesis .
  qed (use assms(4) in simp)
  ultimately show ?thesis by (simp add: idx_sound_def)
qed

lemma sound_skip:
  "idx_sound first ts good ind ents \<Longrightarrow> \<not> good ind \<Longrightarrow> idx_sound first ts good (Suc ind) ents"
  by (fastforce simp: idx_sound_def less_Suc_eq)

definition times_of :: "byte list \<Rightarrow> int list" where
  "times_of lbs = map (\<lambda>r. sint (lr_time r)) (log_of lbs)"

text \<open>The times that the program uses.\<close>

definition times_fit :: "(nat \<Rightarrow> bool) \<Rightarrow> int list \<Rightarrow> bool" where
  "times_fit good ts \<longleftrightarrow> (\<forall>i < length ts. i = 0 \<or> good i \<longrightarrow> 0 \<le> ts ! i \<and> ts ! i + ONE_DAY < 2 ^ 31)"

definition in_order :: "(nat \<Rightarrow> bool) \<Rightarrow> int list \<Rightarrow> bool" where
  "in_order good ts \<longleftrightarrow> (\<forall>j < length ts. \<forall>i < j. good i \<and> good j \<longrightarrow> ts ! i \<le> ts ! j)"

lemma idx_text_add: "idx_text first (ents @ replicate k x) = idx_text first ents @ concat (replicate k (idx_entry x))"
  by (simp add: idx_text_def)

lemma loop_work:
  assumes "times_fit (good_rec w0 lbs) (times_of lbs)" "0 \<le> first"
  shows "idx_work w0 (lb_fd base) fd lp tmp lbs (idx_text first ents) w \<Longrightarrow> idx_sound first (times_of lbs) (good_rec w0 lbs) ind ents \<Longrightarrow>
    1 \<le> ind \<Longrightarrow> ind \<le> length (times_of lbs) \<Longrightarrow> first + (int (length ents) + 1) * ONE_DAY < 2 ^ 31 \<Longrightarrow>
    \<exists>all v. idx_loop base fd (int ind) (first + (int (length ents) + 1) * ONE_DAY) d w = Some (True, v) \<and>
      idx_work w0 (lb_fd base) fd lp tmp lbs (idx_text first all) v \<and>
      idx_sound first (times_of lbs) (good_rec w0 lbs) (length (times_of lbs)) all"
proof (induction "length (times_of lbs) - ind" arbitrary: ind ents d w rule: less_induct)
  case less
  let ?L = "log_of lbs" and ?nxt = "first + (int (length ents) + 1) * ONE_DAY"
  show ?case
  proof (cases "ind = length (times_of lbs)")
    case True
    then obtain r where "logi_get base (int ind) d w = (NOT_FOUND, r, w)"
      using get_end_work[OF less.prems(1), of ind d] by (auto simp: times_of_def)
    then have "idx_loop base fd (int ind) ?nxt d w = Some (True, w)" by (subst idx_loop.simps) simp
    with less.prems(1,2) True show ?thesis by blast
  next
    case False
    then have i: "ind < length ?L" using less.prems(4) by (simp add: times_of_def)
    have shorter: "length (times_of lbs) - Suc ind < length (times_of lbs) - ind" using i by (simp add: times_of_def)
    have S: "int (Suc ind) = int ind + 1" by simp
    obtain v where gv: "logi_get base (int ind) d w = (if good_rec w0 lbs ind then SUCCESS else ACC_BROKEN, ?L ! ind, v)"
        "idx_work w0 (lb_fd base) fd lp tmp lbs (idx_text first ents) v"
      using get_work[OF less.prems(1) i, of d] by auto
    show ?thesis
    proof (cases "good_rec w0 lbs ind")
      case bad: False
      then have st: "idx_loop base fd (int ind) ?nxt d w = idx_loop base fd (int (Suc ind)) ?nxt (?L ! ind) v"
        unfolding S by (subst idx_loop.simps) (simp add: gv(1))
      from less.hyps[OF shorter gv(2) sound_skip[OF less.prems(2) bad] _ _ less.prems(5), of "?L ! ind"] i show ?thesis
        unfolding st by (simp add: times_of_def)
    next
      case good: True
      have v: "logi_get base (int ind) d w = (SUCCESS, ?L ! ind, v)"
        "idx_work w0 (lb_fd base) fd lp tmp lbs (idx_text first ents) v" using gv good by simp_all
    define t where "t = sint (lr_time (?L ! ind))"
    have ts: "times_of lbs ! ind = t" using i by (simp add: times_of_def t_def)
    have t: "0 \<le> t" "t + ONE_DAY < 2 ^ 31" using assms(1) i good by (auto simp: times_fit_def times_of_def t_def)
    define nxt where "nxt = ?nxt"
    have "0 \<le> nxt" "nxt < 2 ^ 31" using assms(2) less.prems(5) by (simp_all add: nxt_def)
    from days_work[OF t v(2) this, of "int ind"] obtain k u where
      k: "idx_days fd (int ind) t nxt v = Some (True, nxt + int k * ONE_DAY, u)"
        "idx_work w0 (lb_fd base) fd lp tmp lbs (idx_text first (ents @ replicate k (int ind))) u"
        "t < nxt + int k * ONE_DAY" "0 < k \<longrightarrow> nxt + (int k - 1) * ONE_DAY \<le> t"
      by (auto simp: idx_text_add)
    have nx: "first + (int (length (ents @ replicate k (int ind))) + 1) * ONE_DAY = nxt + int k * ONE_DAY"
      by (simp add: nxt_def algebra_simps)
    have small: "nxt + int k * ONE_DAY < 2 ^ 31"
      using k(4) t(2) \<open>nxt < 2 ^ 31\<close> by (cases "k = 0") (auto simp: algebra_simps)
    have snd: "idx_sound first (times_of lbs) (good_rec w0 lbs) (Suc ind) (ents @ replicate k (int ind))"
      by (rule sound_step[OF less.prems(2,3) good]) (use k(3,4) ts in \<open>auto simp: nxt_def algebra_simps\<close>)
    have st: "idx_loop base fd (int ind) nxt d w = idx_loop base fd (int (Suc ind)) (nxt + int k * ONE_DAY) (?L ! ind) u"
      unfolding S by (subst idx_loop.simps) (simp add: v(1) k(1) t_def[symmetric])
    from less.hyps[OF shorter k(2) snd, unfolded nx, of "?L ! ind"] small i show ?thesis
      unfolding nxt_def[symmetric] st by (simp add: times_of_def)
    qed
  qed
qed

lemma build_work:
  assumes "times_fit (good_rec w0 lbs) (times_of lbs)" "log_of lbs \<noteq> []"
    and "idx_work w0 (lb_fd base) fd lp tmp lbs [] w" "first = day_start (times_of lbs ! 0) w0"
    and "0 \<le> first" "first \<le> times_of lbs ! 0"
  shows "\<exists>all v. idx_build base fd d w = Some (True, v) \<and>
    idx_work w0 (lb_fd base) fd lp tmp lbs (idx_text first all) v \<and>
    idx_sound first (times_of lbs) (good_rec w0 lbs) (length (times_of lbs)) all"
proof -
  have n: "0 < length (log_of lbs)" using assms(2) by simp
  obtain rc v where v: "logi_get base 0 d w = (rc, log_of lbs ! 0, v)" "idx_work w0 (lb_fd base) fd lp tmp lbs [] v" "rc = SUCCESS \<or> rc = ACC_BROKEN"
    using get_work[OF assms(3) n, of d] by auto
  have t: "sint (lr_time (log_of lbs ! 0)) = times_of lbs ! 0" using n by (simp add: times_of_def)
  have f: "day_start (times_of lbs ! 0) v = first"
    using v(2) assms(4) tariffs_more(3,4)[of v w0] by (simp add: idx_work_def day_start_def mktime_def)
  obtain u where u: "sys_write fd (idx_head first) v = (8, u)" "idx_work w0 (lb_fd base) fd lp tmp lbs (idx_text first []) u"
    using write_work[OF v(2), of "idx_head first"] by (auto simp: idx_text_def idx_head_def IDXMARKER_def bytes_of_def)
  have m: "first + ONE_DAY < 2 ^ 31" using assms(1,6) n by (auto simp: times_fit_def times_of_def)
  have "idx_sound first (times_of lbs) (good_rec w0 lbs) 1 []" by (simp add: idx_sound_def)
  moreover have "1 \<le> length (times_of lbs)" using n by (simp add: times_of_def Suc_le_eq)
  moreover have "first + (int (length ([] :: int list)) + 1) * ONE_DAY = first + ONE_DAY" by simp
  ultimately obtain all v' where l: "idx_loop base fd (int 1) (first + ONE_DAY) (log_of lbs ! 0) u = Some (True, v')"
      "idx_work w0 (lb_fd base) fd lp tmp lbs (idx_text first all) v'"
      "idx_sound first (times_of lbs) (good_rec w0 lbs) (length (times_of lbs)) all"
    using loop_work[OF assms(1,5) u(2), of 1 "log_of lbs ! 0"] m by auto
  have "idx_build base fd d w = Some (True, v')"
    using assms(5) m l(1) v(3) by (auto simp: idx_build_def v(1) t f u(1) in_i32_def)
  with l(2,3) show ?thesis by blast
qed

text \<open>Opening the log and the new file brings the program into that state.\<close>

lemma open_work:
  assumes "no_faults w" "sq_fd (sqr w) < 0" "files w lp = Some lbs" "lp \<noteq> tmp" "0 \<le> nextfd w"
  shows "\<exists>base u v. log_baseopen_sr logbase_zero lp w = (SUCCESS, base, u) \<and> lb_fd base = nextfd w \<and>
    sys_mkstemp tmp u = (nextfd w + 1, v) \<and> idx_work w (lb_fd base) (nextfd w + 1) lp tmp lbs [] v"
  using assms
  by (auto simp: log_baseopen_sr_def dbs_open_def sys_open_def sys_mkstemp_def next_outcome_no_faults no_faults_def
      idx_work_def seq_ready_def open_on_def cache_ok_def sqr_none_def logbase_zero_def next_outcome_def)

lemma run_work:
  assumes "no_faults w" "sq_fd (sqr w) < 0" "files w lp = Some lbs" "lp \<noteq> tmp" "0 \<le> nextfd w"
    and "times_fit (good_rec w lbs) (times_of lbs)" "log_of lbs \<noteq> []"
    and "first = day_start (times_of lbs ! 0) w" "0 \<le> first" "first \<le> times_of lbs ! 0"
  shows "\<exists>all v. idx_run lp idxname tmp w = Some (0, v) \<and> no_faults v \<and> 0 \<le> nextfd v \<and>
    files v = (files w)(tmp := None, idxname \<mapsto> idx_text first all) \<and>
    idx_sound first (times_of lbs) (good_rec w lbs) (length (times_of lbs)) all"
proof -
  obtain base u v where o: "log_baseopen_sr logbase_zero lp w = (SUCCESS, base, u)" "lb_fd base = nextfd w"
      "sys_mkstemp tmp u = (nextfd w + 1, v)" "idx_work w (lb_fd base) (nextfd w + 1) lp tmp lbs [] v"
    using open_work[OF assms(1-5)] by auto
  obtain all v' where b: "idx_build base (nextfd w + 1) logrec_zero v = Some (True, v')"
      "idx_work w (lb_fd base) (nextfd w + 1) lp tmp lbs (idx_text first all) v'"
      "idx_sound first (times_of lbs) (good_rec w lbs) (length (times_of lbs)) all"
    using build_work[OF assms(6,7) o(4) assms(8-10), of logrec_zero] by blast
  let ?u = "snd (sys_close (nextfd w + 1) (snd (log_baseclose base v')))"
  have c: "no_faults ?u" "files ?u = files v'" "0 \<le> nextfd ?u"
    using b(2) by (auto simp: log_baseclose_def db_close_def sys_close_def idx_work_def seq_ready_def no_faults_def split: option.split)
  have f: "files v' = (files w)(tmp \<mapsto> idx_text first all)" using b(2) by (auto simp: idx_work_def fun_eq_iff)
  have "idx_run lp idxname tmp w = Some (0, idx_publish tmp idxname ?u)"
    using assms(5) by (simp add: idx_run_def o(1,3) b(1) split_beta)
  moreover have "idx_publish tmp idxname ?u = ?u\<lparr>files := (files w)(tmp := None, idxname \<mapsto> idx_text first all)\<rparr>"
    using c f by (simp add: idx_publish_def next_outcome_no_faults fun_upd_twist)
  ultimately show ?thesis using b(3) c(1,3) by (auto simp: no_faults_def)
qed

section \<open>Reading the index\<close>

definition entry_at :: "int list \<Rightarrow> int \<Rightarrow> int" where
  "entry_at ents e = (if 0 \<le> e \<and> e < int (length ents) then ents ! nat e else 0)"

text \<open>A descriptor that is open on a file, on a machine without faults.\<close>

definition reading :: "int \<Rightarrow> string \<Rightarrow> byte list \<Rightarrow> 'a os_scheme \<Rightarrow> bool" where
  "reading fd path bs w \<longleftrightarrow> no_faults w \<and> (\<exists>e. fdt w fd = Some e \<and> fe_path e = path) \<and> files w path = Some bs"

lemma reading_pos: "reading fd path bs w \<Longrightarrow> reading fd path bs (set_pos fd p w)"
  by (auto simp: reading_def set_pos_def no_faults_def)

lemma read_at:
  assumes "reading fd path bs w" "fdt w fd = Some e" "0 \<le> fe_pos e"
  shows "sys_read fd n w = (int (length (take n (drop (nat (fe_pos e)) bs))), take n (drop (nat (fe_pos e)) bs),
    set_pos fd (fe_pos e + int (length (take n (drop (nat (fe_pos e)) bs)))) w)"
  using assms by (auto simp: reading_def sys_read_def next_outcome_no_faults fd_data_def Let_def)

lemma length_entry [simp]: "length (idx_entry x) = 8"
  by (simp add: idx_entry_def)

lemma length_head [simp]: "length (idx_head first) = 8"
  by (simp add: idx_head_def IDXMARKER_def bytes_of_def)

lemma length_entries: "length (concat (map idx_entry ents)) = 8 * length ents"
  by (induction ents) simp_all

lemma text_entry:
  "take 8 (drop (8 * e + 8) (idx_text first ents)) = (if e < length ents then idx_entry (ents ! e) else [])"
proof -
  have "drop (8 * e + 8) (idx_text first ents) = drop (8 * e) (concat (map idx_entry ents))" by (simp add: idx_text_def)
  moreover have "take 8 (drop (8 * e) (concat (map idx_entry ents))) = (if e < length ents then idx_entry (ents ! e) else [])"
  proof (induction ents arbitrary: e)
    case (Cons x xs)
    then show ?case by (cases e) (simp_all add: drop_append)
  qed simp
  ultimately show ?thesis by simp
qed

lemma entry_value: "0 \<le> x \<Longrightarrow> x < 2 ^ 63 \<Longrightarrow> sint (word_of_nat (un_le (idx_entry x)) :: u64) = x"
proof -
  assume x: "0 \<le> x" "x < 2 ^ 63"
  then have "un_le (idx_entry x) = nat x" by (simp add: idx_entry_def un_le_bytes nat_less_iff)
  then have "sint (word_of_nat (un_le (idx_entry x)) :: u64) = sint (word_of_int x :: u64)" using x by simp
  also have "\<dots> = x" using x by (intro sint_word_of_int_64) (simp add: in_i64_def)
  finally show ?thesis .
qed

lemma idx_read_entry:
  assumes "reading fd path (idx_text first ents) w" "\<forall>x \<in> set ents. 0 \<le> x \<and> x < 2 ^ 63"
    and "length ents < 2 ^ 20" "- (2 ^ 20) \<le> e" "e < 2 ^ 20"
  shows "\<exists>v. idx_read fd (idx_offset e) w = (entry_at ents e, v) \<and> reading fd path (idx_text first ents) v"
proof (cases "idx_offset e \<le> 0")
  case True
  then have "\<not> 0 \<le> e" using assms(5) by (auto simp: idx_offset_def)
  with True assms(1) show ?thesis by (simp add: idx_read_def entry_at_def)
next
  case False
  let ?p = "idx_offset e" and ?v = "set_pos fd (idx_offset e) w"
  obtain x where x: "fdt w fd = Some x" "no_faults w" using assms(1) by (auto simp: reading_def)
  have sk: "sys_lseek fd ?p w = (?p, ?v)" using False x by (simp add: sys_lseek_def next_outcome_no_faults)
  have r: "reading fd path (idx_text first ents) ?v" "fdt ?v fd = Some (x\<lparr>fe_pos := ?p\<rparr>)"
    using reading_pos[OF assms(1)] x by (simp_all add: set_pos_def)
  define got where "got = take 8 (drop (nat ?p) (idx_text first ents))"
  obtain u where u: "sys_read fd 8 ?v = (int (length got), got, u)" "reading fd path (idx_text first ents) u"
    using read_at[OF r, of 8] False reading_pos[OF r(1)] by (auto simp: got_def)
  have "got = (if 0 \<le> e \<and> e < int (length ents) then idx_entry (ents ! nat e) else [])"
  proof (cases "0 \<le> e")
    case True
    then have "nat ?p = 8 * nat e + 8" using assms(5) by (simp add: idx_offset_def nat_add_distrib nat_mult_distrib)
    with True show ?thesis using text_entry[of "nat e" first ents] by (auto simp: got_def nat_less_iff)
  next
    case n: False
    have "?p = 2 ^ 32 + (e * 8 + 8)"
    proof -
      have "e * 8 + 8 \<noteq> 0" using False by (auto simp: idx_offset_def)
      with n have "e * 8 + 8 < 0" by simp
      then have "(e * 8 + 8 + 2 ^ 32) mod 2 ^ 32 = e * 8 + 8 + 2 ^ 32" using assms(4) by (intro mod_pos_pos_trivial) simp_all
      then show ?thesis by (simp only: idx_offset_def mod_add_self2 add.commute[of "2 ^ 32" "e * 8 + 8"])
    qed
    then have "length (idx_text first ents) \<le> nat ?p" using assms(3,4) by (simp add: idx_text_def length_entries)
    with n show ?thesis by (simp add: got_def)
  qed
  then have "(if int (length got) \<noteq> 8 then 0 else sint (word_of_nat (un_le got) :: u64)) = entry_at ents e"
    using assms(2) by (auto simp: entry_at_def entry_value nat_less_iff)
  with False u show ?thesis by (simp add: idx_read_def sk)
qed

definition days_between :: "int \<Rightarrow> int \<Rightarrow> int" where
  "days_between t first = (t - first) sdiv ONE_DAY"

lemma days_bounds:
  assumes "0 \<le> first" "first < 2 ^ 31" "0 \<le> t" "t < 2 ^ 31"
  shows "- (2 ^ 19) < days_between t first" "days_between t first < 2 ^ 19"
    "t < first + (days_between t first + 1) * ONE_DAY" "first + (days_between t first - 1) * ONE_DAY < t"
    "0 < days_between t first \<Longrightarrow> first + days_between t first * ONE_DAY \<le> t"
proof -
  have dm: "x div ONE_DAY * ONE_DAY \<le> x" "x < x div ONE_DAY * ONE_DAY + ONE_DAY" for x :: int
    using div_mult_mod_eq[of x ONE_DAY] pos_mod_bound[of ONE_DAY x] pos_mod_sign[of ONE_DAY x] by linarith+
  have "- (2 ^ 19) < days_between t first \<and> days_between t first < 2 ^ 19 \<and> t < first + (days_between t first + 1) * ONE_DAY \<and>
      first + (days_between t first - 1) * ONE_DAY < t \<and>
      (0 < days_between t first \<longrightarrow> first + days_between t first * ONE_DAY \<le> t)"
  proof (cases "first \<le> t")
    case True
    then have "days_between t first = (t - first) div ONE_DAY" by (simp add: days_between_def signed_divide_int_def sgn_if)
    with dm[of "t - first"] assms True show ?thesis by (auto simp: algebra_simps)
  next
    case False
    then have "days_between t first = - ((first - t) div ONE_DAY)" by (simp add: days_between_def signed_divide_int_def sgn_if)
    with dm[of "first - t"] assms False show ?thesis by (auto simp: algebra_simps)
  qed
  then show "- (2 ^ 19) < days_between t first" "days_between t first < 2 ^ 19"
    "t < first + (days_between t first + 1) * ONE_DAY" "first + (days_between t first - 1) * ONE_DAY < t"
    "0 < days_between t first \<Longrightarrow> first + days_between t first * ONE_DAY \<le> t" by simp_all
qed

lemma range_read:
  assumes "no_faults w" "0 \<le> nextfd w" "files w idxname = Some (idx_text first ents)"
    and "\<forall>x \<in> set ents. 0 \<le> x \<and> x < 2 ^ 63" "length ents < 2 ^ 20" "0 \<le> first" "first < 2 ^ 31"
    and "0 \<le> from" "from < 2 ^ 31" "0 \<le> to" "to < 2 ^ 31"
  shows "fst (idx_range idxname from to w) =
    (entry_at ents (days_between from first - 2), entry_at ents (days_between to first + 1))"
proof -
  let ?fd = "nextfd w" and ?bs = "idx_text first ents"
  obtain v where o: "sys_open idxname True w = (?fd, v)" "reading ?fd idxname ?bs v"
      "fdt v ?fd = Some \<lparr>fe_path = idxname, fe_pos = 0, fe_lock = LOCK_UN, fe_ro = True\<rparr>"
    using assms(1,3) by (auto simp: sys_open_def next_outcome_no_faults reading_def no_faults_def)
  obtain u where l: "sys_flock ?fd LOCK_SH v = (0, u)" "reading ?fd idxname ?bs u"
      "fdt u ?fd = Some \<lparr>fe_path = idxname, fe_pos = 0, fe_lock = LOCK_SH, fe_ro = True\<rparr>"
    using o(2,3) by (auto simp: sys_flock_def next_outcome_no_faults reading_def set_lock_def no_faults_def)
  have h: "take 8 ?bs = idx_head first" by (simp add: idx_text_def)
  obtain x where r: "sys_read ?fd 8 u = (8, idx_head first, x)" "reading ?fd idxname ?bs x"
    using read_at[OF l(2,3), of 8] reading_pos[OF l(2)] by (auto simp: h)
  have f: "sint (word_of_nat (un_le (drop 4 (idx_head first))) :: u32) = first" "take 4 (idx_head first) = IDXMARKER"
  proof -
    have "un_le (drop 4 (idx_head first)) = nat first"
      using assms(6,7) by (simp add: idx_head_def IDXMARKER_def bytes_of_def un_le_bytes nat_less_iff)
    then have "sint (word_of_nat (un_le (drop 4 (idx_head first))) :: u32) = sint (word_of_int first :: u32)" using assms(6) by simp
    also have "\<dots> = first" using assms(6,7) by (intro sint_word_of_int_32) (simp add: in_i32_def)
    finally show "sint (word_of_nat (un_le (drop 4 (idx_head first))) :: u32) = first" .
  qed (simp add: idx_head_def IDXMARKER_def bytes_of_def)
  note b = days_bounds(1,2)[OF assms(6,7)]
  obtain y where y: "idx_read ?fd (idx_offset (days_between from first - 2)) x = (entry_at ents (days_between from first - 2), y)"
      "reading ?fd idxname ?bs y"
    using idx_read_entry[OF r(2) assms(4,5), of "days_between from first - 2"] b[OF assms(8,9)] by auto
  obtain z where z: "idx_read ?fd (idx_offset (days_between to first + 1)) y = (entry_at ents (days_between to first + 1), z)"
    using idx_read_entry[OF y(2) assms(4,5), of "days_between to first + 1"] b[OF assms(10,11)] by auto
  show ?thesis
    using assms(2) y(1) z by (simp add: idx_range_def o(1) l(1) r(1) f days_between_def[symmetric] Let_def)
qed

section \<open>The report sees all it asks for\<close>

text \<open>The filters of the report for the time of a record.\<close>

definition wanted :: "int \<Rightarrow> int \<Rightarrow> int \<Rightarrow> bool" where
  "wanted from to t \<longleftrightarrow> \<not> (0 < from \<and> t < from) \<and> \<not> (0 < to \<and> to < t)"

lemma sound_covers:
  assumes "idx_sound first ts good (length ts) ents" "in_order good ts" "2 * ONE_DAY \<le> first" "first < 2 ^ 31"
    and "ts ! 0 < first + 2 * ONE_DAY" "0 \<le> from" "from < 2 ^ 31" "0 \<le> to" "to < 2 ^ 31"
    and "i < length ts" "wanted from to (ts ! i)" "good i"
  defines "r \<equiv> (entry_at ents (days_between from first - 2), entry_at ents (days_between to first + 1))"
  shows "scan_from r \<le> i \<and> i < scan_to r (length ts)"
proof
  have f: "0 \<le> first" using assms(3) by simp
  note bf = days_bounds[OF f assms(4,6,7)] and bt = days_bounds[OF f assms(4,8,9)]
  show "scan_from r \<le> i"
  proof (cases "0 \<le> days_between from first - 2 \<and> days_between from first - 2 < int (length ents)")
    case True
    define e where "e = nat (days_between from first - 2)"
    have e: "e < length ents" "days_between from first = int e + 2" using True by (auto simp: e_def)
    have ge: "first + (int e + 2) * ONE_DAY \<le> from" using bf(5) by (simp add: e(2))
    have s: "\<forall>j. 1 \<le> j \<and> int j < ents ! e \<and> good j \<longrightarrow> ts ! j < first + (int e + 1) * ONE_DAY"
      using assms(1) e(1) by (simp add: idx_sound_def)
    have "\<not> int i < ents ! e"
    proof
      assume "int i < ents ! e"
      with s assms(5,12) have "ts ! i < first + (int e + 2) * ONE_DAY" by (cases "i = 0") (fastforce simp: Suc_le_eq)+
      with ge assms(11) f show False by (auto simp: wanted_def)
    qed
    then show ?thesis using e by (simp add: r_def scan_from_def entry_at_def)
  qed (auto simp: r_def scan_from_def entry_at_def)
  show "i < scan_to r (length ts)"
  proof (cases "0 \<le> days_between to first + 1 \<and> days_between to first + 1 < int (length ents)")
    case True
    define e where "e = nat (days_between to first + 1)"
    have e: "e < length ents" "days_between to first = int e - 1" using True by (auto simp: e_def)
    have s: "1 \<le> ents ! e" "ents ! e < int (length ts)" "good (nat (ents ! e))" "first + (int e + 1) * ONE_DAY \<le> ts ! nat (ents ! e)"
      using assms(1) e(1) by (simp_all add: idx_sound_def)
    have lt: "to < first + int e * ONE_DAY" using bt(3) by (simp add: e(2))
    have "0 < to"
    proof (rule ccontr)
      assume "\<not> 0 < to"
      then have "first + (int e - 2) * ONE_DAY < 0" using assms(8) bt(4) e(2) by simp
      with assms(3) show False by simp
    qed
    have "\<not> ents ! e \<le> int i"
    proof
      assume "ents ! e \<le> int i"
      then have "ts ! nat (ents ! e) \<le> ts ! i" using assms(2,10,12) s(1,3)
        unfolding in_order_def by (metis le_less nat_int nat_mono order_refl)
      with s(4) lt assms(11) \<open>0 < to\<close> show False by (simp add: wanted_def algebra_simps)
    qed
    then show ?thesis using e s(1) by (simp add: r_def scan_to_def entry_at_def)
  qed (use assms(10) in \<open>auto simp: r_def scan_to_def entry_at_def\<close>)
qed

lemma sound_short:
  assumes "idx_sound first ts good (length ts) ents" "times_fit good ts" "0 \<le> first"
  shows "length ents < 2 ^ 20"
proof (cases "ents = []")
  case False
  then have e: "length ents - 1 < length ents" by simp
  then have s: "1 \<le> ents ! (length ents - 1)" "ents ! (length ents - 1) < int (length ts)"
      "good (nat (ents ! (length ents - 1)))"
      "first + (int (length ents - 1) + 1) * ONE_DAY \<le> ts ! nat (ents ! (length ents - 1))"
    using assms(1) unfolding idx_sound_def by blast+
  have "nat (ents ! (length ents - 1)) < length ts" using s(1,2) by (simp add: nat_less_iff)
  with s(3) assms(2) have "ts ! nat (ents ! (length ents - 1)) < 2 ^ 31" unfolding times_fit_def by fastforce
  with s(4) assms(3) False show ?thesis by (simp add: of_nat_diff Suc_le_eq)
qed simp

text \<open>
  C31: The index of the log loses no sound record: for a log whose records with a right checksum are in the order
  of time the index that \<open>logidx\<close> builds makes \<open>beerep\<close> scan a part of the log in which every record with a right
  checksum lies that its time filters let through.  (Records with a wrong checksum are passed over by
  \<open>logidx\<close>, so one that comes before the first sound record of its day may be left out.)\<close>

theorem log_index_covers:
  assumes "no_faults w" "sq_fd (sqr w) < 0" "0 \<le> nextfd w" "files w logname = Some lbs" "logname \<noteq> tmp"
    and "log_of lbs \<noteq> []" "length (log_of lbs) < 2 ^ 63"
    and "in_order (good_rec w lbs) (times_of lbs)" "times_fit (good_rec w lbs) (times_of lbs)"
    and "first = day_start (times_of lbs ! 0) w"
    and "2 * ONE_DAY \<le> first" "first \<le> times_of lbs ! 0" "times_of lbs ! 0 < first + 2 * ONE_DAY"
    and "0 \<le> tfrom" "tfrom < 2 ^ 31" "0 \<le> tto" "tto < 2 ^ 31"
  shows "\<exists>v. idx_run logname idxname tmp w = Some (0, v) \<and>
    (\<forall>i < length (log_of lbs). good_rec w lbs i \<and> wanted tfrom tto (times_of lbs ! i) \<longrightarrow>
       scan_from (fst (idx_range idxname tfrom tto v)) \<le> i \<and>
       i < scan_to (fst (idx_range idxname tfrom tto v)) (length (log_of lbs)))"
proof -
  have f: "0 \<le> first" using assms(11) by simp
  obtain all v where v: "idx_run logname idxname tmp w = Some (0, v)" "no_faults v" "0 \<le> nextfd v"
      "files v = (files w)(tmp := None, idxname \<mapsto> idx_text first all)"
      "idx_sound first (times_of lbs) (good_rec w lbs) (length (times_of lbs)) all"
    using run_work[OF assms(1,2,4,5,3,9,6,10) f assms(12), of idxname] by blast
  have "0 < length (times_of lbs)" using assms(6) by (simp add: times_of_def)
  then have f2: "first < 2 ^ 31" using assms(9,12) by (auto simp: times_fit_def)
  have "x < 2 ^ 63 \<and> 0 \<le> x" if x: "x \<in> set all" for x
  proof -
    from x obtain e where "e < length all" "x = all ! e" by (auto simp: in_set_conv_nth)
    with v(5) have "1 \<le> x" "x < int (length (times_of lbs))" by (simp_all add: idx_sound_def)
    with assms(7) show ?thesis by (simp add: times_of_def)
  qed
  then have "fst (idx_range idxname tfrom tto v) =
      (entry_at all (days_between tfrom first - 2), entry_at all (days_between tto first + 1))"
    using range_read[OF v(2,3), of idxname first all "tfrom" "tto"] v(4) sound_short[OF v(5) assms(9) f] f f2 assms(14-17)
    by simp
  with sound_covers[OF v(5) assms(8,11) f2 assms(13-17)] v(1) show ?thesis
    by (simp add: times_of_def)
qed

text \<open>A log of three records, the last broken; a clock without time zone.\<close>

definition utc_time :: "int \<Rightarrow> tm" where
  "utc_time t = \<lparr>tm_sec = t mod 60, tm_min = t div 60 mod 60, tm_hour = t div 3600 mod 24, tm_mday = t div 86400,
     tm_mon = 0, tm_year = 70, tm_wday = 4, tm_yday = 0, tm_isdst = 0\<rparr>"

definition demo_index :: tariffs where
  "demo_index = demo_tariffs\<lparr>files := [''log'' \<mapsto> encode_logrec (demo_logrec 200000 7) @ encode_logrec (demo_logrec 600000 5) @ encode_logrec ((demo_logrec 100 5)\<lparr>lr_crc := 1\<rparr>)],
     c_localtime := utc_time,
     c_timelocal := (\<lambda>d. (tm_sec d + 60 * tm_min d + 3600 * tm_hour d + 86400 * tm_mday d, d))\<rparr>"

theorem log_index_covers_witness:
  "\<exists>v. idx_run ''log'' ''idx'' ''tmp'' demo_index = Some (0, v) \<and>
     scan_from (fst (idx_range ''idx'' 500000 0 v)) \<le> 1 \<and> 1 < scan_to (fst (idx_range ''idx'' 500000 0 v)) 3"
proof -
  let ?bad = "(demo_logrec 100 5)\<lparr>lr_crc := 1\<rparr>"
  let ?b = "encode_logrec (demo_logrec 200000 7) @ encode_logrec (demo_logrec 600000 5) @ encode_logrec ?bad"
  have L: "log_of ?b = [demo_logrec 200000 7, demo_logrec 600000 5, ?bad]" by (simp add: log_of_def records_def upt_rec)
  then have T: "times_of ?b = [200000, 600000, 100]" by (simp add: times_of_def demo_logrec_def)
  have b: "no_faults demo_index" "sq_fd (sqr demo_index) < 0" "nextfd demo_index = 5" "files demo_index ''log'' = Some ?b"
    "logrec_crc r demo_index = 0" for r
    by (simp_all add: demo_index_def demo_tariffs_def demo_bee_def no_faults_def sqr_none_def logrec_crc_def count_crc_def
        dbs.defs gates.defs tariffs.defs)
  have g: "good_rec demo_index ?b 0" "good_rec demo_index ?b 1" "\<not> good_rec demo_index ?b 2"
    unfolding good_rec_def L b(5) by (simp_all add: demo_logrec_def)
  have o: "in_order (good_rec demo_index ?b) [200000, 600000, 100]" "times_fit (good_rec demo_index ?b) [200000, 600000, 100]"
    using g by (auto simp: in_order_def times_fit_def less_Suc_eq numeral_2_eq_2 numeral_3_eq_3)
  have d: "day_start 200000 demo_index = 172800"
    by (simp add: day_start_def mktime_def demo_index_def utc_time_def)
  obtain v where v: "idx_run ''log'' ''idx'' ''tmp'' demo_index = Some (0, v)"
      "\<forall>i < length (log_of ?b). good_rec demo_index ?b i \<and> wanted 500000 0 (times_of ?b ! i) \<longrightarrow>
         scan_from (fst (idx_range ''idx'' 500000 0 v)) \<le> i \<and>
         i < scan_to (fst (idx_range ''idx'' 500000 0 v)) (length (log_of ?b))"
    using log_index_covers[where w = demo_index and logname = "''log''" and tmp = "''tmp''" and idxname = "''idx''" and lbs = ?b
        and tfrom = 500000 and tto = 0 and first = 172800, unfolded T] b o d
    by (auto simp: L T)
  from v(2)[rule_format, of 1] g(2) v(1) show ?thesis by (simp add: L T wanted_def numeral_3_eq_3)
qed

end
