(* ===== verification/LongDouble.thy ===== *)
theory LongDouble
  imports Printf
begin

text \<open>
  The C type \<open>long double\<close> as the report programs use it.  The floating point unit of the target rounds
  every sum, product and quotient to 53 bits (see \<open>Double\<close>), but keeps the wide range of exponents of its
  registers, so the numbers of these programs neither overflow nor become subnormal.  A number is kept as
  sign, significand and exponent; what is loaded from an integer keeps all its bits.
\<close>

type_synonym ldouble = fpval

section \<open>Operations\<close>

text \<open>\<open>num / den * 2 ^ e\<close> rounded to 53 bits; the numerator is scaled until there are enough digits.\<close>

definition ld_round :: "bool \<Rightarrow> nat \<Rightarrow> nat \<Rightarrow> int \<Rightarrow> ldouble" where
  "ld_round s num den e =
     (let k = 54 + bitlen den; n = num * 2 ^ k; x = bitlen (n div den) - 53
      in FFin s (round_even n (den * 2 ^ x)) (e - int k + int x))"

definition ld_zero :: ldouble where "ld_zero = FFin False 0 0"

definition ld_of_nat :: "nat \<Rightarrow> ldouble" where "ld_of_nat n = FFin False n 0"

definition ld_of_int :: "int \<Rightarrow> ldouble" where "ld_of_int i = FFin (i < 0) (nat \<bar>i\<bar>) 0"

text \<open>A 64-bit unsigned number is loaded as a signed one; a negative one gets \<open>2 ^ 64\<close> added, with rounding.\<close>

definition ld_of_u64 :: "u64 \<Rightarrow> ldouble" where
  "ld_of_u64 x = (if unat x < 2 ^ 63 then ld_of_nat (unat x) else ld_round False (unat x) 1 0)"

definition ld_neg :: "ldouble \<Rightarrow> ldouble" where
  "ld_neg a = (case a of FNaN \<Rightarrow> FNaN | FInf s \<Rightarrow> FInf (\<not> s) | FFin s m e \<Rightarrow> FFin (\<not> s) m e)"

fun ld_add :: "ldouble \<Rightarrow> ldouble \<Rightarrow> ldouble" where
  "ld_add FNaN b = FNaN"
| "ld_add a FNaN = FNaN"
| "ld_add (FInf s) (FInf t) = (if s = t then FInf s else FNaN)"
| "ld_add (FInf s) b = FInf s"
| "ld_add a (FInf t) = FInf t"
| "ld_add (FFin s m e) (FFin t n f) =
     (let g = min e f; x = fixpt g s m e + fixpt g t n f
      in if x = 0 then FFin (s \<and> t) 0 0 else ld_round (x < 0) (nat \<bar>x\<bar>) 1 g)"

fun ld_mul :: "ldouble \<Rightarrow> ldouble \<Rightarrow> ldouble" where
  "ld_mul FNaN b = FNaN"
| "ld_mul a FNaN = FNaN"
| "ld_mul (FInf s) (FInf t) = FInf (s \<noteq> t)"
| "ld_mul (FInf s) (FFin t n f) = (if n = 0 then FNaN else FInf (s \<noteq> t))"
| "ld_mul (FFin s m e) (FInf t) = (if m = 0 then FNaN else FInf (s \<noteq> t))"
| "ld_mul (FFin s m e) (FFin t n f) =
     (if m * n = 0 then FFin (s \<noteq> t) 0 0 else ld_round (s \<noteq> t) (m * n) 1 (e + f))"

fun ld_div :: "ldouble \<Rightarrow> ldouble \<Rightarrow> ldouble" where
  "ld_div FNaN b = FNaN"
| "ld_div a FNaN = FNaN"
| "ld_div (FInf s) (FInf t) = FNaN"
| "ld_div (FInf s) (FFin t n f) = FInf (s \<noteq> t)"
| "ld_div (FFin s m e) (FInf t) = FFin (s \<noteq> t) 0 0"
| "ld_div (FFin s m e) (FFin t n f) =
     (if n = 0 then (if m = 0 then FNaN else FInf (s \<noteq> t))
      else if m = 0 then FFin (s \<noteq> t) 0 0
      else ld_round (s \<noteq> t) m n (e - f))"

fun ld_less :: "ldouble \<Rightarrow> ldouble \<Rightarrow> bool" where
  "ld_less FNaN b = False"
| "ld_less a FNaN = False"
| "ld_less (FInf s) (FInf t) = (s \<and> \<not> t)"
| "ld_less (FInf s) (FFin t n f) = s"
| "ld_less (FFin s m e) (FInf t) = (\<not> t)"
| "ld_less (FFin s m e) (FFin t n f) = (fixpt (min e f) s m e < fixpt (min e f) t n f)"

definition ld_is_zero :: "ldouble \<Rightarrow> bool" where
  "ld_is_zero a = (case a of FFin s m e \<Rightarrow> m = 0 | _ \<Rightarrow> False)"

text \<open>\<open>a >= b\<close>: false when one of them is no number.\<close>

definition ld_geq :: "ldouble \<Rightarrow> ldouble \<Rightarrow> bool" where
  "ld_geq a b \<longleftrightarrow> a \<noteq> FNaN \<and> b \<noteq> FNaN \<and> \<not> ld_less a b"

section \<open>Texts\<close>

text \<open>The directives \<open>%Lf\<close> and \<open>%Lg\<close>.\<close>

definition ld_text :: "string \<Rightarrow> nat \<Rightarrow> nat option \<Rightarrow> char \<Rightarrow> ldouble \<Rightarrow> string" where
  "ld_text flags width prec k a = (case a of
      FNaN \<Rightarrow> pad_field (removeAll (CHR ''0'') flags) width [] ''nan''
    | FInf s \<Rightarrow> pad_field (removeAll (CHR ''0'') flags) width (sign_text flags s) ''inf''
    | FFin s m e \<Rightarrow> (let p = (case prec of None \<Rightarrow> 6 | Some p \<Rightarrow> p)
        in pad_field flags width (sign_text flags s)
             (if k = CHR ''f'' then fixed_text p m e
              else if k = CHR ''e'' then exp_text p m e
              else general_text (max p 1) m e)))"

text \<open>A double is printed like the long double of its value.\<close>

lemma conv_double_ld: "conv_double flags width prec k a = ld_text flags width prec k (fdecode a)"
  by (simp add: conv_double_def ld_text_def)

end
