(* ===== verification/Beerep.thy ===== *)
theory Beerep
  imports Consoles LogIndex LongDouble
begin

text \<open>
  The report generator \<open>beerep\<close> (\<open>src/src/bee/utils/beerep/beerep.c\<close>, \<open>beerep.h\<close>): web pages with the
  records of the transaction log for a list of accounts, or with their sums by direction.  The log is scanned
  once: the first table finds the part of the log that lies in the time asked for, and the sums of all
  accounts of the list are taken in one pass.  The texts are in KOI8-R.
\<close>

section \<open>Settings\<close>

abbreviation (input) MAXRECS :: nat where "MAXRECS \<equiv> 32768"

record acc_line =
  al_accno :: int
  al_descr :: "string option"
  al_count_in :: u64
  al_count_out :: u64
  al_money_in :: ldouble
  al_money_out :: ldouble
  al_charge :: ldouble
  al_pays :: ldouble
  al_in_recs :: int
  al_out_recs :: int

definition acc_line_new :: "int \<Rightarrow> string option \<Rightarrow> acc_line" where
  "acc_line_new accno descr = \<lparr>al_accno = accno, al_descr = descr, al_count_in = 0, al_count_out = 0,
     al_money_in = ld_zero, al_money_out = ld_zero, al_charge = ld_zero, al_pays = ld_zero, al_in_recs = 0, al_out_recs = 0\<rparr>"

text \<open>The options; an unset text stands for the default.\<close>

record rep_opts =
  ro_tabopts :: "string option"
  ro_headopts :: "string option"
  ro_cellopts :: "string option"
  ro_bodyopts :: "string option"
  ro_headfile :: "string option"
  ro_bodyfile :: "string option"
  ro_dumpfile :: "string option"
  ro_fields :: "string option"
  ro_from :: int
  ro_to :: int
  ro_days :: int
  ro_res :: int
  ro_group :: bool
  ro_sum :: bool
  ro_headers :: bool
  ro_all :: bool
  ro_in :: bool
  ro_out :: bool
  ro_charge :: bool
  ro_line :: bool
  ro_nozeros :: bool
  ro_nobytes :: bool
  ro_stdin :: bool
  ro_numbers :: bool
  ro_skip :: int
  ro_speed :: int
  ro_addr :: u32
  ro_mask :: u32
  ro_accs :: "acc_line list"

definition rep_defaults :: rep_opts where
  "rep_defaults = \<lparr>ro_tabopts = None, ro_headopts = None, ro_cellopts = None, ro_bodyopts = None, ro_headfile = None,
     ro_bodyfile = None, ro_dumpfile = None, ro_fields = None, ro_from = 0, ro_to = 0, ro_days = 0, ro_res = 0,
     ro_group = False, ro_sum = False, ro_headers = True, ro_all = False, ro_in = True, ro_out = True,
     ro_charge = True, ro_line = False, ro_nozeros = False, ro_nobytes = False, ro_stdin = True,
     ro_numbers = False, ro_skip = - 1, ro_speed = 1024, ro_addr = 0, ro_mask = 0, ro_accs = []\<rparr>"

definition tab_opts :: "rep_opts \<Rightarrow> string" where
  \<open>tab_opts opt = (case ro_tabopts opt of None \<Rightarrow> ''border=0 cellspacing=1 cellpadding=4 class="txt"'' | Some s \<Rightarrow> s)\<close>

definition cell_opts :: "rep_opts \<Rightarrow> string" where
  \<open>cell_opts opt = (case ro_cellopts opt of None \<Rightarrow> ''bgcolor=#eeeeee'' | Some s \<Rightarrow> s)\<close>

text \<open>The options of the cells are those of the heads as well, unless the heads have their own.\<close>

definition head_opts :: "rep_opts \<Rightarrow> string" where
  \<open>head_opts opt = (case ro_headopts opt of
      None \<Rightarrow> (case ro_cellopts opt of None \<Rightarrow> ''align=center bgcolor=#888888'' | Some s \<Rightarrow> s)
    | Some s \<Rightarrow> s)\<close>

definition body_opts :: "rep_opts \<Rightarrow> string" where
  \<open>body_opts opt = (case ro_bodyopts opt of None \<Rightarrow> ''bgcolor=white'' | Some s \<Rightarrow> s)\<close>

definition rep_fields :: "rep_opts \<Rightarrow> string" where
  "rep_fields opt = (case ro_fields opt of
      Some f \<Rightarrow> f
    | None \<Rightarrow>
        if ro_res opt = RES_ADDER then (if ro_group opt then ''S'' else ''DTS'')
        else if ro_group opt then (if ro_line opt then ''CS'' else ''ICS'')
        else ''DTICSH'')"

text \<open>A date with an optional time, or the seconds of the epoch; 0 when it cannot be read.\<close>

definition DATE_DELIM :: string where
  \<open>DATE_DELIM = ('' '' @ [CHR 0x0A, CHR 0x09] @ '':./'' @ [CHR 0x5C] @ '';,'' @ [CHR 0x27] @ ''"'' @ [CHR 0x60] @ ''-'')\<close>

definition opt_field :: "ptr \<Rightarrow> int \<times> ptr" where
  "opt_field p = (case next_token p DATE_DELIM of (None, p) \<Rightarrow> (0, None) | (Some s, p) \<Rightarrow> (atol s, p))"

definition parse_date :: "string \<Rightarrow> 'a tariffs_scheme \<Rightarrow> int" where
  "parse_date str w =
     (case next_token (Some str) DATE_DELIM of
        (None, _) \<Rightarrow> 0
      | (Some d, p) \<Rightarrow> (case next_token p DATE_DELIM of (mon, p) \<Rightarrow>
          if atol d > 1000000000 then (case mon of None \<Rightarrow> atol d | Some _ \<Rightarrow> 0)
          else (case mon of
              None \<Rightarrow> 0
            | Some mon \<Rightarrow> (case next_token p DATE_DELIM of
                (None, _) \<Rightarrow> 0
              | (Some y, p) \<Rightarrow>
                  (let year = (if atol y < 100 then atol y + 100 else atol y - 1900)
                   in if year < 0 then 0
                      else (case opt_field p of (hour, p) \<Rightarrow> case opt_field p of (minute, p) \<Rightarrow>
                        let t = mktime (tm_null\<lparr>tm_mday := atol d, tm_mon := i32 (atol mon - 1), tm_year := year,
                              tm_hour := hour, tm_min := minute, tm_sec := fst (opt_field p), tm_isdst := - 1\<rparr>) w
                        in if t < 0 then 0 else t))))))"

definition parse_time :: "string \<Rightarrow> 'a tariffs_scheme \<Rightarrow> int" where
  "parse_time str w = parse_date (strlcpy str 128) w"

section \<open>Options\<close>

text \<open>The name of an account: its label, else its login, else its name for payments.\<close>

definition rep_label :: "int \<Rightarrow> 'a gates_scheme \<Rightarrow> string option" where
  "rep_label accno w = map_option (\<lambda>rid. rl_username (linktab w ! nat (fst (lookup_accres accno rid (- 1) w))))
     (List.find (\<lambda>rid. fst (lookup_accres accno rid (- 1) w) \<ge> 0) [RES_LABEL, RES_LOGIN, RES_ADDER])"

text \<open>\<open>asprintf\<close>: a copy of the text, if there is memory.\<close>

definition sys_strdup :: "string \<Rightarrow> 'a os_scheme \<Rightarrow> string option \<times> 'a os_scheme" where
  "sys_strdup s w = (case sys_alloc w of (mem, w) \<Rightarrow> (if mem then Some s else None, w))"

text \<open>\<open>-a N:text\<close>; \<open>None\<close> when the table is full.\<close>

definition add_account :: "string \<Rightarrow> rep_opts \<times> 'a gates_scheme \<Rightarrow> (rep_opts \<times> 'a gates_scheme) option" where
  "add_account arg s = (case s of (opt, w) \<Rightarrow>
     let opt = opt\<lparr>ro_stdin := False\<rparr>
     in if MAXRECS \<le> length (ro_accs opt) then None
        else (case strtol arg 10 of (accno, rest) \<Rightarrow>
          if accno < 0 then Some (opt, w)
          else (case (if tl rest = [] then (None, w) else sys_strdup (tl rest) w) of (descr, w) \<Rightarrow>
            let descr = (case descr of None \<Rightarrow> rep_label accno w | Some d \<Rightarrow> Some d)
            in Some (opt\<lparr>ro_accs := ro_accs opt @ [acc_line_new accno descr]\<rparr>, w))))"

text \<open>\<open>-l name\<close>: the accounts of the gates of the list, as long as there is room.\<close>

definition gates_named :: "int \<Rightarrow> string \<Rightarrow> 'a gates_scheme \<Rightarrow> int list" where
  "gates_named rid name w = link_walk (\<lambda>l. rl_res_id l = rid \<and> name = rl_username l) (linktab w) (- 1)"

definition add_list :: "string \<Rightarrow> rep_opts \<Rightarrow> 'a gates_scheme \<Rightarrow> rep_opts" where
  "add_list name opt w =
     (let new = map (\<lambda>i. let accno = rl_accno (linktab w ! nat i) in acc_line_new accno (rep_label accno w))
            (gates_named RES_LIST name w)
      in opt\<lparr>ro_accs := ro_accs opt @ take (MAXRECS - length (ro_accs opt)) new\<rparr>)"

text \<open>\<open>-x\<close>: the result of \<open>make_addrandmask\<close> is not looked at, so a wrong mask leaves the address alone.\<close>

definition filter_net :: "string \<Rightarrow> u32 \<times> u32 \<Rightarrow> u32 \<times> u32" where
  "filter_net arg s = (case next_token (Some (strlcpy arg 32)) ''/'' of
      (None, _) \<Rightarrow> s
    | (Some a, p) \<Rightarrow> (case inet_pton a of
          None \<Rightarrow> s
        | Some addr \<Rightarrow> (case fst (next_token p ''/'') of
              None \<Rightarrow> (addr, 0xffffffff)
            | Some m \<Rightarrow>
                (let bits = i8 (atol m) in if bits < 0 \<or> bits > 32 then (addr, snd s) else (addr, make_addr_mask bits)))))"

definition PARAMS :: string where
  "PARAMS = ''a:Ab:B:c:C:dD:E:F:fghH:il:LM:mNn:or:RsS:t:T:x:z''"

definition rep_option :: "char \<times> string \<Rightarrow> rep_opts \<times> 'a tariffs_scheme \<Rightarrow> (rep_opts \<times> 'a tariffs_scheme) option" where
  "rep_option x s = (case x of (c, arg) \<Rightarrow> case s of (opt, w) \<Rightarrow>
     if c = CHR ''m'' then Some (opt\<lparr>ro_nobytes := True\<rparr>, w)
     else if c = CHR ''c'' then Some (opt\<lparr>ro_tabopts := Some arg\<rparr>, w)
     else if c = CHR ''C'' then Some (opt\<lparr>ro_cellopts := Some arg\<rparr>, w)
     else if c = CHR ''H'' then Some (opt\<lparr>ro_headopts := Some arg\<rparr>, w)
     else if c = CHR ''E'' then Some (opt\<lparr>ro_headfile := Some arg\<rparr>, w)
     else if c = CHR ''B'' then Some (opt\<lparr>ro_bodyfile := Some arg\<rparr>, w)
     else if c = CHR ''b'' then Some (opt\<lparr>ro_bodyopts := Some arg\<rparr>, w)
     else if c = CHR ''F'' then Some (opt\<lparr>ro_from := parse_time arg w\<rparr>, w)
     else if c = CHR ''T'' then Some (opt\<lparr>ro_to := parse_time arg w\<rparr>, w)
     else if c = CHR ''n'' then Some (opt\<lparr>ro_days := atol arg\<rparr>, w)
     else if c = CHR ''r'' then Some (opt\<lparr>ro_res := atol arg\<rparr>, w)
     else if c = CHR ''R'' then Some (opt\<lparr>ro_res := - 1\<rparr>, w)
     else if c = CHR ''g'' then Some (opt\<lparr>ro_group := True\<rparr>, w)
     else if c = CHR ''s'' then Some (opt\<lparr>ro_sum := True\<rparr>, w)
     else if c = CHR ''t'' then Some (opt\<lparr>ro_fields := Some arg\<rparr>, w)
     else if c = CHR ''h'' then Some (opt\<lparr>ro_headers := False\<rparr>, w)
     else if c = CHR ''a'' then add_account arg (opt, w)
     else if c = CHR ''A'' then Some (opt\<lparr>ro_all := True\<rparr>, w)
     else if c = CHR ''i'' then Some (opt\<lparr>ro_in := False\<rparr>, w)
     else if c = CHR ''o'' then Some (opt\<lparr>ro_out := False\<rparr>, w)
     else if c = CHR ''f'' then Some (opt\<lparr>ro_charge := False\<rparr>, w)
     else if c = CHR ''d'' then Some (opt, w)
     else if c = CHR ''z'' then Some (opt\<lparr>ro_nozeros := True, ro_line := True, ro_group := True\<rparr>, w)
     else if c = CHR ''L'' then Some (opt\<lparr>ro_line := True, ro_group := True\<rparr>, w)
     else if c = CHR ''S'' then Some (opt\<lparr>ro_skip := atol arg\<rparr>, w)
     else if c = CHR ''l'' then Some (add_list arg opt w, w)
     else if c = CHR ''N'' then Some (opt\<lparr>ro_numbers := True\<rparr>, w)
     else if c = CHR ''M'' then Some (opt\<lparr>ro_speed := atol arg\<rparr>, w)
     else if c = CHR ''x''
     then Some (case filter_net arg (ro_addr opt, ro_mask opt) of (a, m) \<Rightarrow> (opt\<lparr>ro_addr := a, ro_mask := m\<rparr>, w))
     else if c = CHR ''D'' then Some (opt\<lparr>ro_dumpfile := Some arg\<rparr>, w)
     else None)"

section \<open>Texts of a record\<close>

text \<open>The heads of the columns; \<open>cnt\<close> is that of the counter.\<close>

definition head_text :: "string \<Rightarrow> char \<Rightarrow> string" where
  \<open>head_text cnt c =
     (if c = CHR ''D'' then (koi [196, 193, 212, 193]) else if c = CHR ''T'' then (koi [215, 210, 197, 205, 209]) else if c = CHR ''A'' then (koi [211, 222, 197, 212])
      else if c = CHR ''B'' then (koi [194, 193, 204, 193, 206, 211]) else if c = CHR ''R'' then (koi [210, 197, 211, 213, 210, 211]) else if c = CHR ''C'' then cnt
      else if c = CHR ''S'' then (koi [211, 213, 205, 205, 193]) else if c = CHR ''E'' then (koi [210, 197, 218, 213, 204, 216, 212, 193, 212]) else if c = CHR ''I'' then (koi [206, 193, 208, 210] @ ''.'')
      else if c = CHR ''H'' then (koi [200, 207, 211, 212]) else if c = CHR ''P'' then (koi [211, 210] @ ''. '' @ koi [195, 197, 206, 193]) else if c = CHR ''s'' then (koi [211, 210] @ ''/'' @ koi [211, 203, 207, 210] @ ''.'')
      else if c = CHR ''t'' then (koi [212, 193, 210, 201, 198]) else ''?'')\<close>

text \<open>A counter in bytes, or with \<open>-m\<close> only in units; \<open>full\<close> and \<open>part\<close> print it whole and divided.\<close>

definition count_text :: "(u64 \<Rightarrow> string) \<Rightarrow> (u64 \<Rightarrow> nat \<Rightarrow> string) \<Rightarrow> bool \<Rightarrow> u64 \<Rightarrow> string" where
  "count_text full part nobytes n =
     (if \<not> nobytes \<or> n < 1024 then full n @ (if n \<ge> 1024 then '' ('' else []) else []) @
     (if n \<ge> 1048576 then part n 1048576 @ '' M'' else if n \<ge> 1024 then part n 1024 @ '' K'' else []) @
     (if \<not> nobytes \<and> n \<ge> 1024 then '')'' else [])"

definition llu_text :: "u64 \<Rightarrow> string" where
  "llu_text n = printf ''%llu'' [AI (uint n)]"

definition part_double :: "u64 \<Rightarrow> nat \<Rightarrow> string" where
  "part_double n d = printf ''%.2f'' [AD (ddiv (d_of_int (uint n)) (d_of_int (int d)))]"

definition part_ld :: "u64 \<Rightarrow> nat \<Rightarrow> string" where
  "part_ld n d = ld_text [] 0 (Some 2) (CHR ''f'') (ld_div (ld_of_u64 n) (ld_of_nat d))"

definition right_text :: "string \<Rightarrow> string" where
  \<open>right_text s = ''<div align=right>'' @ s @ ''</div>''\<close>

text \<open>Payments and charges carry no traffic.\<close>

definition no_traffic :: "logrec \<Rightarrow> bool" where
  "no_traffic r \<longleftrightarrow> sint (is_res_id (lr_isdata r)) = RES_ADDER \<or> is_proto_id (lr_isdata r) AND 0x44000000 \<noteq> 0"

definition rec_field :: "rep_opts \<Rightarrow> tm \<Rightarrow> logrec \<Rightarrow> u64 \<Rightarrow> ldouble \<Rightarrow> int \<Rightarrow> char \<Rightarrow> string" where
  \<open>rec_field opt stm r cnt money reccnt c =
     (let d = lr_isdata r
      in if c = CHR ''D''
      then printf ''%02d/%02d/%04d'' [AI (tm_mday stm), AI (tm_mon stm + 1), AI (tm_year stm + 1900)]
      else if c = CHR ''T''
      then printf ''%02d:%02d:%02d'' [AI (tm_hour stm), AI (tm_min stm), AI (tm_sec stm)]
      else if c = CHR ''A'' then printf ''%d'' [AI (sint (lr_accno r))]
      else if c = CHR ''B''
      then (if deq (lr_balance r) BALANCE_NA then ''<center>N/A</center>'' else right_text (printf ''%+.2f'' [AD (lr_balance r)]))
      else if c = CHR ''R'' then printf ''%d'' [AI (sint (is_res_id d))]
      else if c = CHR ''C''
      then (if no_traffic r then ''&nbsp;''
            else if cnt = 0 then right_text (printf ''%u'' [AI (uint (is_value d))])
            else right_text (count_text llu_text part_double (ro_nobytes opt) cnt))
      else if c = CHR ''S''
      then right_text (if ld_is_zero money then printf ''%+.2f'' [AD (lr_sum r)] else ld_text ''+'' 0 (Some 2) (CHR ''f'') money)
      else if c = CHR ''E'' then printf ''(%d)'' [AI (sint (lr_serrno r))]
      else if c = CHR ''I''
      then (if sint (is_res_id d) = RES_ADDER then ''&nbsp;''
            else if is_proto_id d AND 0x44000000 = 0
            then (if is_proto_id d AND 0x80000000 = 0 then ''<center>IN</center>'' else ''<center>OUT</center>'')
            else (''<center>'' @ koi [193, 194] @ ''/'' @ koi [208, 204, 193, 212, 193] @ ''</center>''))
      else if c = CHR ''H'' then (if no_traffic r then ''&nbsp;'' else inet_ntop (is_host d))
      else if c = CHR ''P''
      then (if no_traffic r then ''&nbsp;''
            else if ld_is_zero money \<and> is_value d = 0 \<or> \<not> ld_is_zero money \<and> cnt = 0 then ''&nbsp;''
            else right_text (if ld_is_zero money
                then printf ''%.2f'' [AD (dneg (ddiv (dmul (lr_sum r) d_mebi) (d_of_int (uint (is_value d)))))]
                else ld_text [] 0 (Some 2) (CHR ''f'') (ld_neg (ld_div (ld_mul money (ld_of_nat 1048576)) (ld_of_u64 cnt)))))
      else if c = CHR ''s''
      then (if sint (is_res_id d) = RES_ADDER \<or> is_value d = 0 \<and> cnt = 0 then ''&nbsp;''
            else (let n = (if cnt = 0 then ld_of_nat (unat (is_value d)) else ld_of_u64 cnt);
                      val = ld_div (ld_div (ld_div n (ld_of_nat 300)) (ld_of_nat 1024))
                        (ld_of_int (if reccnt = 0 then 1 else reccnt));
                      high = ld_less (ld_of_int (ro_speed opt)) val
                  in right_text ((if high then ''<b>'' else []) @ ld_text [] 0 (Some 2) (CHR ''f'') val @ (if high then ''</b>'' else []))))
      else if c = CHR ''t''
      then right_text (printf ''%d.%d'' [AI (uint (drop_bit 16 (is_proto2 d AND 0x00ff0000))),
             AI (uint (drop_bit 24 (is_proto2 d AND 0xff000000)))])
      else ''<center>?</center>'')\<close>

text \<open>The record as an SQL command of the dump; \<open>gmtoff\<close> is the zone of a time in seconds.\<close>

definition dump_text :: "(int \<Rightarrow> int) \<Rightarrow> tm \<Rightarrow> logrec \<Rightarrow> u64 \<Rightarrow> ldouble \<Rightarrow> string" where
  \<open>dump_text gmtoff stm r cnt money =
     (let d = lr_isdata r
      in ''INSERT INTO log (time, acc_id, sum, balance, err, res_id, count, proto, plan, subplan, host) VALUES ('' @
         printf ([CHR 0x27] @ ''%04d-%02d-%02d %02d:%02d:%02d.000000%+02ld'' @ [CHR 0x27])
           [AI (tm_year stm + 1900), AI (tm_mon stm + 1), AI (tm_mday stm), AI (tm_hour stm), AI (tm_min stm), AI (tm_sec stm),
            AI (gmtoff (sint (lr_time r)) sdiv 3600)] @
         printf '', %d'' [AI (sint (lr_accno r))] @
         (if ld_is_zero money then printf '', %g'' [AD (lr_sum r)] else '', '' @ ld_text [] 0 None (CHR ''g'') money) @
         (if deq (lr_balance r) BALANCE_NA then '', NULL'' else printf '', %g'' [AD (lr_balance r)]) @
         printf '', %d'' [AI (sint (lr_serrno r))] @ printf '', %d'' [AI (sint (is_res_id d))] @
         (if cnt = 0 then printf '', %u'' [AI (uint (is_value d))] else printf '', %llu'' [AI (uint cnt)]) @
         printf '', %u'' [AI (uint (is_proto_id d))] @
         printf '', %d, %d'' [AI (uint (drop_bit 16 (is_proto2 d AND 0x00ff0000))),
           AI (uint (drop_bit 24 (is_proto2 d AND 0xff000000)))] @
         (if no_traffic r then '', NULL'' else printf ('', '' @ [CHR 0x27] @ ''%s'' @ [CHR 0x27]) [AS (inet_ntop (is_host d))]) @
         ('');'' @ [CHR 0x0A]))\<close>

section \<open>The state of a report\<close>

text \<open>
  The global variables: the part of the log found by the first table, the sums of the accounts, whether they
  are complete, the buffer of the last record, and what was printed and dumped so far.
\<close>

record rep_run =
  rr_first :: int
  rr_last :: int
  rr_fset :: bool
  rr_lset :: bool
  rr_cached :: bool
  rr_accs :: "acc_line list"
  rr_rec :: logrec
  rr_out :: string
  rr_dump :: "string option"

definition rep_start :: "acc_line list \<Rightarrow> bool \<Rightarrow> rep_run" where
  "rep_start accs dump = \<lparr>rr_first = 0, rr_last = 0, rr_fset = False, rr_lset = False, rr_cached = False,
     rr_accs = accs, rr_rec = logrec_zero, rr_out = [], rr_dump = (if dump then Some [] else None)\<rparr>"

definition emit :: "string \<Rightarrow> rep_run \<Rightarrow> rep_run" where
  "emit s st = st\<lparr>rr_out := rr_out st @ s\<rparr>"

definition row_open :: "string \<Rightarrow> string" where
  \<open>row_open opts = ''<tr '' @ opts @ (''>'' @ [CHR 0x0A])\<close>

definition put_record :: "(int \<Rightarrow> int) \<Rightarrow> rep_opts \<Rightarrow> 'a tariffs_scheme \<Rightarrow> logrec \<Rightarrow> u64 \<Rightarrow> ldouble \<Rightarrow> int \<Rightarrow>
    rep_run \<Rightarrow> rep_run" where
  \<open>put_record gmtoff opt w r cnt money reccnt st =
     (let stm = c_localtime w (sint (lr_time r))
      in emit (row_open (cell_opts opt) @
           concat (map (\<lambda>c. ''<td>'' @ rec_field opt stm r cnt money reccnt c @ (''</td>'' @ [CHR 0x0A])) (rep_fields opt)) @ (''</tr>'' @ [CHR 0x0A]))
         (st\<lparr>rr_dump := map_option (\<lambda>s. s @ dump_text gmtoff stm r cnt money) (rr_dump st)\<rparr>))\<close>

section \<open>Sums\<close>

text \<open>The sums of one table.\<close>

record rep_table =
  rt_in_count :: u64
  rt_out_count :: u64
  rt_in_sum :: ldouble
  rt_out_sum :: ldouble
  rt_charge :: ldouble
  rt_pays :: ldouble
  rt_in_recs :: int
  rt_out_recs :: int
  rt_count :: u64
  rt_money :: ldouble

definition table_zero :: rep_table where
  "table_zero = \<lparr>rt_in_count = 0, rt_out_count = 0, rt_in_sum = ld_zero, rt_out_sum = ld_zero, rt_charge = ld_zero,
     rt_pays = ld_zero, rt_in_recs = 0, rt_out_recs = 0, rt_count = 0, rt_money = ld_zero\<rparr>"

definition in_time :: "rep_opts \<Rightarrow> logrec \<Rightarrow> bool" where
  "in_time opt r \<longleftrightarrow> \<not> (ro_from opt > 0 \<and> sint (lr_time r) < ro_from opt) \<and> \<not> (ro_to opt > 0 \<and> sint (lr_time r) > ro_to opt)"

text \<open>The filters of resource, direction and host.\<close>

definition of_kind :: "rep_opts \<Rightarrow> logrec \<Rightarrow> bool" where
  "of_kind opt r \<longleftrightarrow>
     (let d = lr_isdata r
      in \<not> (ro_res opt \<ge> 0 \<and> sint (is_res_id d) \<noteq> ro_res opt) \<and>
         \<not> (\<not> ro_in opt \<and> is_proto_id d AND 0xC4000000 = 0) \<and>
         \<not> (\<not> ro_out opt \<and> is_proto_id d AND 0x80000000 \<noteq> 0) \<and>
         \<not> (\<not> ro_charge opt \<and> is_proto_id d AND 0x44000000 \<noteq> 0) \<and>
         is_host d AND ro_mask opt = ro_addr opt)"

definition of_account :: "rep_opts \<Rightarrow> int \<Rightarrow> logrec \<Rightarrow> bool" where
  "of_account opt accno r \<longleftrightarrow>
     \<not> (\<not> ro_all opt \<and> accno \<ge> 0 \<and> sint (lr_accno r) \<noteq> accno) \<and>
     \<not> (ro_skip opt \<ge> 0 \<and> sint (lr_accno r) = ro_skip opt)"

text \<open>What a record is: inbound or outbound traffic, a charge, or nothing that is summed up.\<close>

datatype rec_class = Inbound | Outbound | Charge | Unsummed

definition class_of :: "rep_opts \<Rightarrow> logrec \<Rightarrow> rec_class" where
  "class_of opt r =
     (let d = lr_isdata r; err = sint (lr_serrno r)
      in if err = ACC_DELETED \<or> err = ACC_BROKEN then Unsummed
         else if is_proto_id d AND 0x44000000 \<noteq> 0 then Charge
         else if is_proto_id d AND 0x80000000 \<noteq> 0 then Outbound
         else if ro_res opt \<ge> 0 \<or> sint (is_res_id d) \<noteq> RES_ADDER then Inbound
         else Unsummed)"

definition is_pay :: "rep_opts \<Rightarrow> logrec \<Rightarrow> bool" where
  "is_pay opt r \<longleftrightarrow> ro_res opt < 0 \<and> sint (is_res_id (lr_isdata r)) = RES_ADDER"

text \<open>The money and the count of a record as they are added.\<close>

definition rec_money :: "logrec \<Rightarrow> ldouble" where
  "rec_money r = fdecode (lr_sum r)"

definition rec_count :: "logrec \<Rightarrow> u64" where
  "rec_count r = word_of_nat (unat (is_value (lr_isdata r)))"

text \<open>A record in the sums of an account of the list.\<close>

definition line_add :: "rep_opts \<Rightarrow> logrec \<Rightarrow> acc_line \<Rightarrow> acc_line" where
  "line_add opt r a =
     (if sint (lr_accno r) \<noteq> al_accno a then a
      else (let a = (case class_of opt r of
               Inbound \<Rightarrow> a\<lparr>al_money_in := ld_add (al_money_in a) (rec_money r),
                 al_count_in := al_count_in a + rec_count r, al_in_recs := al_in_recs a + 1\<rparr>
             | Outbound \<Rightarrow> a\<lparr>al_money_out := ld_add (al_money_out a) (rec_money r),
                 al_count_out := al_count_out a + rec_count r, al_out_recs := al_out_recs a + 1\<rparr>
             | Charge \<Rightarrow> a\<lparr>al_charge := ld_add (al_charge a) (rec_money r)\<rparr>
             | Unsummed \<Rightarrow> a)
            in if is_pay opt r then a\<lparr>al_pays := ld_add (al_pays a) (rec_money r)\<rparr> else a))"

text \<open>A record in the sums of a table; those by direction are for the grouped report.\<close>

definition table_add :: "rep_opts \<Rightarrow> logrec \<Rightarrow> rep_table \<Rightarrow> rep_table" where
  "table_add opt r t =
     (let t = (if \<not> ro_group opt then t
             else (case class_of opt r of
               Inbound \<Rightarrow> t\<lparr>rt_in_sum := ld_add (rt_in_sum t) (rec_money r),
                 rt_in_count := rt_in_count t + rec_count r, rt_in_recs := rt_in_recs t + 1\<rparr>
             | Outbound \<Rightarrow> t\<lparr>rt_out_sum := ld_add (rt_out_sum t) (rec_money r),
                 rt_out_count := rt_out_count t + rec_count r, rt_out_recs := rt_out_recs t + 1\<rparr>
             | Charge \<Rightarrow> t\<lparr>rt_charge := ld_add (rt_charge t) (rec_money r)\<rparr>
             | Unsummed \<Rightarrow> t))
      in if is_pay opt r then t\<lparr>rt_pays := ld_add (rt_pays t) (rec_money r)\<rparr>
         else t\<lparr>rt_count := rt_count t + rec_count r, rt_money := ld_add (rt_money t) (rec_money r)\<rparr>)"

text \<open>The table of an account whose sums are known already.\<close>

definition cached_table :: "acc_line \<Rightarrow> rep_table" where
  "cached_table a = \<lparr>rt_in_count = al_count_in a, rt_out_count = al_count_out a, rt_in_sum = al_money_in a,
     rt_out_sum = al_money_out a, rt_charge = al_charge a, rt_pays = al_pays a, rt_in_recs = al_in_recs a,
     rt_out_recs = al_out_recs a, rt_count = al_count_in a + al_count_out a,
     rt_money = ld_add ld_zero (ld_add (ld_add (al_money_in a) (al_money_out a)) (al_charge a))\<rparr>"

section \<open>The scan\<close>

text \<open>The first record in the time asked for, and the one behind the last.\<close>

definition note_window :: "int \<Rightarrow> rep_run \<Rightarrow> rep_run" where
  "note_window i st =
     (let st = (if rr_fset st then st else st\<lparr>rr_first := i, rr_fset := True\<rparr>)
      in if rr_lset st then st else st\<lparr>rr_last := i + 1\<rparr>)"

text \<open>The sums of all accounts of the list but the first, whose table is being made.\<close>

definition share_rec :: "rep_opts \<Rightarrow> logrec \<Rightarrow> acc_line list \<Rightarrow> acc_line list" where
  "share_rec opt r accs = (case accs of [] \<Rightarrow> [] | a # as \<Rightarrow> a # map (line_add opt r) as)"

definition scan_rec :: "(int \<Rightarrow> int) \<Rightarrow> rep_opts \<Rightarrow> int \<Rightarrow> int \<Rightarrow> logrec \<Rightarrow> 'a tariffs_scheme \<Rightarrow> rep_table \<times> rep_run \<Rightarrow>
    rep_table \<times> rep_run" where
  "scan_rec gmtoff opt accno i r w s = (case s of (t, st) \<Rightarrow>
     if \<not> in_time opt r then (t, st)
     else (let st = note_window i st
           in if \<not> of_kind opt r then (t, st)
              else (let st = (if ro_group opt then st\<lparr>rr_accs := share_rec opt r (rr_accs st)\<rparr> else st)
                    in if \<not> of_account opt accno r then (t, st)
                       else (table_add opt r t,
                             if ro_group opt then st else put_record gmtoff opt w r 0 ld_zero 0 st))))"

text \<open>The loop over \<open>n\<close> records; a record that cannot be read ends it, one with a wrong checksum does not.\<close>

fun scan_loop :: "(int \<Rightarrow> int) \<Rightarrow> rep_opts \<Rightarrow> logbase \<Rightarrow> int \<Rightarrow> nat \<Rightarrow> int \<Rightarrow> rep_table \<times> rep_run \<Rightarrow> 'a tariffs_scheme \<Rightarrow>
    bool \<times> (rep_table \<times> rep_run) \<times> 'a tariffs_scheme" where
  "scan_loop gmtoff opt base accno 0 i s w = (True, s, w)"
| "scan_loop gmtoff opt base accno (Suc n) i s w = (case logi_get base i (rr_rec (snd s)) w of (rc, r, w) \<Rightarrow>
     let s = (fst s, (snd s)\<lparr>rr_rec := r\<rparr>)
     in if rc = IO_ERROR \<or> rc = NOT_FOUND then (False, s, w)
        else scan_loop gmtoff opt base accno n (i + 1) (scan_rec gmtoff opt accno i r w s) w)"

section \<open>A table\<close>

text \<open>The records that stand for a direction and for the charges in a grouped report.\<close>

definition in_rec :: "int \<Rightarrow> logrec" where
  "in_rec t = logrec_zero\<lparr>lr_time := word_of_int t\<rparr>"

definition out_rec :: "int \<Rightarrow> logrec" where
  "out_rec t = (in_rec t)\<lparr>lr_isdata := (lr_isdata logrec_zero)\<lparr>is_proto_id := 0x80000000\<rparr>\<rparr>"

definition charge_rec :: logrec where
  "charge_rec = logrec_zero\<lparr>lr_isdata := (lr_isdata logrec_zero)\<lparr>is_proto_id := 0x40000000\<rparr>\<rparr>"

definition table_open :: "rep_opts \<Rightarrow> string \<Rightarrow> string" where
  \<open>table_open opt title =
     (if ro_line opt then (if ro_nozeros opt then [] else row_open (cell_opts opt))
      else title @ ''<table '' @ tab_opts opt @ (''>'' @ [CHR 0x0A]) @ row_open (head_opts opt) @
        concat (map (\<lambda>c. ''<td><strong>'' @ head_text (koi [211, 222, 197, 212, 222, 201, 203]) c @ (''</strong></td>'' @ [CHR 0x0A])) (rep_fields opt)) @ (''</tr>'' @ [CHR 0x0A]))\<close>

text \<open>The rows of sums below a table.\<close>

definition sums_field :: "rep_opts \<Rightarrow> rep_table \<Rightarrow> char \<Rightarrow> string" where
  \<open>sums_field opt t c =
     ''<td>'' @
     (if c = CHR ''C''
      then (if ro_res opt \<noteq> RES_ADDER
            then ''<strong><div align=right>'' @ count_text llu_text part_ld (ro_nobytes opt) (rt_count t) @ ''</div></strong>'' else [])
      else if c = CHR ''S''
      then ''<strong><div align=right>'' @ ld_text ''+'' 0 (Some 2) (CHR ''f'') (rt_money t) @ ''</div></strong>''
      else ''&nbsp;'') @ (''</td>'' @ [CHR 0x0A])\<close>

definition pays_field :: "rep_table \<Rightarrow> char \<Rightarrow> string" where
  \<open>pays_field t c =
     ''<td>'' @ (if c = CHR ''S''
      then ''<strong><div align=right>'' @ ld_text ''+'' 0 (Some 2) (CHR ''f'') (rt_pays t) @ ''</div></strong>''
      else ''&nbsp;'') @ (''</td>'' @ [CHR 0x0A])\<close>

definition table_sums :: "rep_opts \<Rightarrow> rep_table \<Rightarrow> string" where
  \<open>table_sums opt t =
     (if ld_is_zero (rt_pays t) then []
      else ''<tr '' @ cell_opts opt @ (''><td><strong>'' @ koi [240, 204, 193, 212, 197, 214, 201] @ '':</strong></td>'') @
        concat (map (pays_field t) (tl (rep_fields opt))) @ (''</tr>'' @ [CHR 0x0A])) @
     ''<tr '' @ cell_opts opt @ (if ro_res opt < 0 then (''><td><strong>'' @ koi [242, 193, 211, 200, 207, 196] @ '':</strong></td>'') else (''><td><strong>'' @ koi [233, 212, 207, 199, 207] @ '':</strong></td>'')) @
     concat (map (sums_field opt t) (tl (rep_fields opt))) @ (''</tr>'' @ [CHR 0x0A]) @ ''</table>''\<close>

text \<open>The columns of an account in the line mode.\<close>

definition line_column :: "rep_opts \<Rightarrow> rep_table \<Rightarrow> char \<Rightarrow> string" where
  \<open>line_column opt t c =
     (let cnt = count_text llu_text part_double (ro_nobytes opt); money = ld_add (rt_in_sum t) (rt_out_sum t);
          n = rt_in_count t + rt_out_count t
      in ''<td>'' @
         (if c = CHR ''C''
          then ''<div align=right><font color=#404040>'' @ cnt (rt_in_count t) @
            ''</font></div></td><td><div align=right><font color=#404040>'' @ cnt (rt_out_count t) @
            ''</font></div></td><td bgcolor=#dedede><div align=right>'' @ cnt n @ ''</div>''
          else if c = CHR ''S'' then right_text (ld_text ''+'' 0 (Some 2) (CHR ''f'') money)
          else if c = CHR ''P''
          then (if n = 0 then ''&nbsp;''
                else right_text (ld_text [] 0 (Some 2) (CHR ''f'') (ld_neg (ld_div (ld_mul money (ld_of_nat 1048576)) (ld_of_u64 n)))))
          else ''<center>N/A</center>'') @ (''</td>'' @ [CHR 0x0A]))\<close>

text \<open>Whether the line of an account is shown.\<close>

definition line_shown :: "rep_opts \<Rightarrow> rep_table \<Rightarrow> bool" where
  "line_shown opt t \<longleftrightarrow> \<not> ro_nozeros opt \<or> rt_in_count t OR rt_out_count t \<noteq> 0 \<or>
     ld_geq (rt_in_sum t) (fdecode d_cent) \<or> ld_geq (rt_out_sum t) (fdecode d_cent)"

definition table_line :: "rep_opts \<Rightarrow> nat \<Rightarrow> string \<Rightarrow> int \<Rightarrow> rep_table \<Rightarrow> string" where
  \<open>table_line opt ind title accno t =
     (if line_shown opt t
      then row_open (cell_opts opt) @
        (if ro_numbers opt then ''<td><div align=right>'' @ printf ''%d'' [AI (int ind)] @ ''</div></td>'' else []) @
        ''</td><td>'' @ title @ ''</td><td><div align=right>'' @ printf ''%d'' [AI accno] @ ''</div></td>'' @
        concat (map (line_column opt t) (rep_fields opt)) @ (''</tr>'' @ [CHR 0x0A])
      else [])\<close>

definition table_close :: "(int \<Rightarrow> int) \<Rightarrow> rep_opts \<Rightarrow> nat \<Rightarrow> string \<Rightarrow> int \<Rightarrow> int \<Rightarrow> rep_table \<Rightarrow> 'a tariffs_scheme \<Rightarrow> rep_run \<Rightarrow> rep_run" where
  "table_close gmtoff opt ind title accno clk t w st =
     (if ro_line opt then emit (table_line opt ind title accno t) st
      else (let st = (if ro_group opt \<and> ro_in opt
                   then put_record gmtoff opt w (in_rec clk) (rt_in_count t) (rt_in_sum t) (rt_in_recs t) st else st);
                st = (if ro_group opt \<and> ro_out opt
                   then put_record gmtoff opt w (out_rec clk) (rt_out_count t) (rt_out_sum t) (rt_out_recs t) st else st);
                st = (if ro_group opt \<and> \<not> ld_is_zero (rt_charge t)
                   then put_record gmtoff opt w charge_rec 0 (rt_charge t) 0 st else st)
            in emit (table_sums opt t) st))"

definition acc_title :: "rep_opts \<Rightarrow> acc_line \<Rightarrow> string" where
  \<open>acc_title opt a = strlcpy
     (if ro_line opt then (case al_descr a of None \<Rightarrow> ''n/a'' | Some d \<Rightarrow> d)
      else (koi [243, 222, 197, 212] @ '' # '') @ printf ''%d'' [AI (al_accno a)] @ (case al_descr a of None \<Rightarrow> [] | Some d \<Rightarrow> '' ('' @ d @ '')'')) 256\<close>

text \<open>
  The sums of the account \<open>ind\<close> of the list: those already known or those of a scan, with the records it
  prints; \<open>idx\<close> is what the index says (see \<open>LogIndex\<close>) and \<open>recs\<close> the size of the log.
\<close>

definition acc_scan :: "(int \<Rightarrow> int) \<Rightarrow> rep_opts \<Rightarrow> logbase \<Rightarrow> int \<times> int \<Rightarrow> int \<Rightarrow> nat \<Rightarrow> rep_run \<Rightarrow> 'a tariffs_scheme \<Rightarrow>
    bool \<times> (rep_table \<times> rep_run) \<times> 'a tariffs_scheme" where
  "acc_scan gmtoff opt base idx recs ind st w =
     (let a = rr_accs st ! ind;
          istart = (if rr_fset st then rr_first st else fst idx);
          istop = (if rr_lset st then rr_last st else if snd idx \<noteq> 0 then snd idx else recs)
      in if rr_cached st then (True, (cached_table a, st), w)
         else (case scan_loop gmtoff opt base (al_accno a) (nat (istop - istart)) istart (table_zero, st) w of
             (ok, (t, st), w) \<Rightarrow> (ok, (t, if ok \<and> ro_group opt then st\<lparr>rr_cached := True\<rparr> else st), w)))"

text \<open>The table; its sum of the counts and of the money are zero when the log cannot be read.\<close>

definition acc_table :: "(int \<Rightarrow> int) \<Rightarrow> rep_opts \<Rightarrow> logbase \<Rightarrow> int \<times> int \<Rightarrow> nat \<Rightarrow> rep_run \<Rightarrow> 'a tariffs_scheme \<Rightarrow>
    (u64 \<times> ldouble) \<times> rep_run \<times> 'a tariffs_scheme" where
  "acc_table gmtoff opt base idx ind st w =
     (let a = rr_accs st ! ind; title = acc_title opt a
      in case sys_time w of (clk, w) \<Rightarrow> case log_reccount base w of (recs, w) \<Rightarrow>
        if recs < 0 then ((0, ld_zero), st, w)
        else (case acc_scan gmtoff opt base idx recs ind (emit (table_open opt title) st) w of (ok, (t, st), w) \<Rightarrow>
          if \<not> ok then ((0, ld_zero), st, w)
          else (let st = st\<lparr>rr_lset := rr_lset st \<or> rr_last st \<noteq> 0\<rparr>
                in ((rt_count t, rt_money t), table_close gmtoff opt ind title (al_accno a) clk t w st, w))))"

section \<open>The program\<close>

text \<open>The accounts on the standard input, read into a buffer of 256 bytes; \<open>None\<close> when the table is full.\<close>

function read_accounts :: "string \<Rightarrow> acc_line list \<Rightarrow> 'a os_scheme \<Rightarrow> acc_line list option \<times> 'a os_scheme" where
  "read_accounts inp accs w =
     (if inp = [] then (Some accs, w)
      else (let l = fgets 256 inp; buf = c_str (fst l); delim = [CHR '' '', CHR 0x09, CHR 0x0A, CHR 0x0D, CHR '':'']
            in case next_token (Some buf) delim of
                 (None, _) \<Rightarrow> read_accounts (snd l) accs w
               | (Some str, p) \<Rightarrow>
                   if strcaseeq str ''go'' then (Some accs, w)
                   else if MAXRECS \<le> length accs then (None, w)
                   else (let accno = (if hd buf \<in> set delim then 0 else atol str)
                         in case (case fst (next_token p [CHR 0x0A, CHR '':'']) of
                               None \<Rightarrow> (Some [], w) | Some d \<Rightarrow> sys_strdup d w) of
                              (descr, w) \<Rightarrow> read_accounts (snd l) (accs @ [acc_line_new accno descr]) w)))"
  by pat_completeness auto
termination
  by (relation "measure (\<lambda>(inp, _). length inp)") (simp_all add: fgets_length)

declare read_accounts.simps [simp del]

text \<open>A template file, read in one piece; \<open>None\<close> when that fails.\<close>

definition read_templ :: "string \<Rightarrow> 'a os_scheme \<Rightarrow> string option \<times> 'a os_scheme" where
  "read_templ path w = (case sys_open path True w of (fd, w) \<Rightarrow>
     if fd < 0 then (None, w)
     else (case sys_fstat fd w of
         (None, w) \<Rightarrow> (None, w)
       | (Some n, w) \<Rightarrow> (case sys_alloc w of (mem, w) \<Rightarrow>
           if \<not> mem then (None, w)
           else (case sys_read fd (nat n) w of (rc, got, w) \<Rightarrow>
             if rc < n then (None, w) else (Some (c_str (text_of got)), snd (sys_close fd w))))))"

definition load_templ :: "string option \<Rightarrow> 'a os_scheme \<Rightarrow> (bool \<times> string option) \<times> 'a os_scheme" where
  "load_templ file w = (case file of
      None \<Rightarrow> ((True, None), w)
    | Some path \<Rightarrow> (case read_templ path w of (t, w) \<Rightarrow> ((t \<noteq> None, t), w)))"

text \<open>The parts of a body template before and behind the mark.\<close>

fun cut_templ :: "string \<Rightarrow> string \<times> string option" where
  "cut_templ [] = ([], None)"
| "cut_templ (c # s) =
     (if take 6 (c # s) = ''%BODY%'' then ([], Some (drop 6 (c # s)))
      else (case cut_templ s of (pre, post) \<Rightarrow> (c # pre, post)))"

text \<open>\<open>-n\<close>: the end is that many days after the start, at the same time of the day.\<close>

definition end_of_days :: "int \<Rightarrow> int \<Rightarrow> 'a tariffs_scheme \<Rightarrow> int" where
  "end_of_days tfrom days w =
     (let tto = i32 (tfrom + i32 (days * ONE_DAY)); f = c_localtime w tfrom; t = c_localtime w tto;
          n = (tm_hour f * 3600 + tm_min f * 60 + tm_sec f) - (tm_hour t * 3600 + tm_min t * 60 + tm_sec t);
          n = (if \<bar>n\<bar> > 18 * 3600 then n - 24 * 3600 * (if n < 0 then - 1 else 1) else n)
      in i32 (tto + n))"

definition strtime :: "int \<Rightarrow> 'a tariffs_scheme \<Rightarrow> string" where
  "strtime t w = (let stm = c_localtime w t
     in strlcpy (printf ''%02d:%02d:%04d %02d:%02d:%02d''
          [AI (tm_mday stm), AI (tm_mon stm + 1), AI (tm_year stm + 1900), AI (tm_hour stm), AI (tm_min stm), AI (tm_sec stm)]) 64)"

definition page_open :: "rep_opts \<Rightarrow> string option \<Rightarrow> string option \<Rightarrow> 'a tariffs_scheme \<Rightarrow> string \<times> 'a tariffs_scheme" where
  \<open>page_open opt headt bodyt w =
     (case (if ro_to opt \<noteq> 0 then (ro_to opt, w) else sys_time w) of (till, w) \<Rightarrow>
       ((''<html><head>'' @ [CHR 0x0A]) @
        (case headt of
           None \<Rightarrow> (''<meta http-equiv="Content-Type" content="text/html; charset=koi8-r">'' @ [CHR 0x0A]) @
             (''<meta http-equiv="Content-Language" content="ru">'' @ [CHR 0x0A]) @ (''<title>'' @ koi [239, 212, 222, 197, 212] @ '' '' @ koi [194, 201, 204, 204, 201, 206, 199, 193] @ ''</title>'')
         | Some t \<Rightarrow> t) @
        (if ro_tabopts opt = None
         then (''<style>'' @ [CHR 0x0A] @ ''.txt'' @ [CHR 0x0A, CHR 0x09] @ ''{'' @ [CHR 0x0A, CHR 0x09] @ ''font-size: 9pt;'' @ [CHR 0x0A, CHR 0x09] @ ''font-family: "Arial";'' @ [CHR 0x0A, CHR 0x09] @ ''}'' @ [CHR 0x0A] @ ''</style>'' @ [CHR 0x0A]) else []) @
        ''</head><body '' @ body_opts opt @ (''>'' @ [CHR 0x0A]) @
        (case bodyt of
           None \<Rightarrow> ''<font face="Arial, Helvetica, sans-serif" size="-1">'' @ ''<center>''
         | Some t \<Rightarrow> fst (cut_templ t)) @
        (''<h3>'' @ koi [239, 212, 222, 197, 212] @ '' '' @ koi [218, 193] @ '' '' @ koi [208, 197, 210, 201, 207, 196] @ ''<br>'') @
        (if ro_from opt \<noteq> 0 then ''c '' @ strtime (ro_from opt) w @ ''<br>'' else (koi [211, 207] @ '' '' @ koi [215, 210, 197, 205, 197, 206, 201] @ '' '' @ koi [218, 193, 208, 213, 211, 203, 193] @ ''<br>'')) @
        (koi [208, 207] @ '' '') @ strtime till w @ ''<br>'' @ ''</h3>'', w))\<close>

definition page_close :: "string option \<Rightarrow> string" where
  \<open>page_close bodyt =
     (case bodyt of
        None \<Rightarrow> ''</center>'' @ ''</font>''
      | Some t \<Rightarrow> (case snd (cut_templ t) of None \<Rightarrow> [] | Some post \<Rightarrow> post)) @ (''</body></html>'' @ [CHR 0x0A])\<close>

text \<open>The head of the one table of the line mode.\<close>

definition line_head :: "rep_opts \<Rightarrow> string" where
  \<open>line_head opt =
     ''<table '' @ tab_opts opt @ (''>'' @ [CHR 0x0A]) @ row_open (head_opts opt) @
     (if ro_numbers opt then ''<td><strong>No</strong></td>'' else []) @
     (''<td><strong>'' @ koi [203, 204, 201, 197, 206, 212] @ ''</strong></td><td><strong>'' @ koi [211, 222, 197, 212] @ ''</strong></td>'' @ [CHR 0x0A]) @
     concat (map (\<lambda>c. ''<td><strong>'' @
       head_text (''In</strong></td><td><strong>Out</strong></td><td><strong>'' @ koi [239, 194, 221, 201, 202]) c @ (''</td>'' @ [CHR 0x0A])) (rep_fields opt)) @ (''</tr>'' @ [CHR 0x0A])\<close>

text \<open>The sums of all tables, below them or as the last line.\<close>

definition total_text :: "rep_opts \<Rightarrow> u64 \<Rightarrow> ldouble \<Rightarrow> string" where
  \<open>total_text opt sc sm =
     (''<br>'' @ [CHR 0x0A] @ ''<br>'' @ [CHR 0x0A]) @ (''<H4>'' @ koi [247, 211, 197, 199, 207] @ '':</H4><br>'' @ [CHR 0x0A]) @
     (if ro_res opt \<noteq> RES_ADDER
      then (''<strong>'' @ koi [211, 222, 197, 212, 222, 201, 203] @ '': '') @
        count_text (\<lambda>n. ld_text [] 0 (Some 0) (CHR ''f'') (ld_of_u64 n)) part_ld (ro_nobytes opt) sc @ (''</strong><br>'' @ [CHR 0x0A]) else []) @
     (''<strong>'' @ koi [211, 213, 205, 205, 193] @ '': '') @ ld_text [] 0 (Some 2) (CHR ''f'') sm @ (''</strong><br>'' @ [CHR 0x0A] @ '' '')\<close>

definition total_field :: "rep_opts \<Rightarrow> u64 \<Rightarrow> ldouble \<Rightarrow> char \<Rightarrow> string" where
  \<open>total_field opt sc sm c =
     (if c = CHR ''C''
      then ''<td colspan=3>'' @
        (if ro_res opt \<noteq> RES_ADDER
         then ''<strong><div align=right>'' @ count_text llu_text part_ld (ro_nobytes opt) sc @ ''</div></strong>'' else ''&nbsp;'')
      else ''<td>'' @
        (if c = CHR ''S'' then ''<strong><div align=right>'' @ ld_text [] 0 (Some 2) (CHR ''f'') sm @ ''</div></strong>''
         else ''&nbsp;'')) @ (''</td>'' @ [CHR 0x0A])\<close>

definition total_line :: "rep_opts \<Rightarrow> u64 \<Rightarrow> ldouble \<Rightarrow> string" where
  \<open>total_line opt sc sm =
     ''<tr '' @ cell_opts opt @ ''><td'' @ (if ro_numbers opt then '' colspan=2'' else []) @
     (''><div align=right><strong>'' @ koi [247, 211, 197, 199, 207] @ '':</strong></div></td><td>&nbsp;</td>'') @
     concat (map (total_field opt sc sm) (rep_fields opt)) @ (''</tr>'' @ [CHR 0x0A])\<close>

text \<open>All tables, with their sums added up.\<close>

definition table_step :: "(int \<Rightarrow> int) \<Rightarrow> rep_opts \<Rightarrow> logbase \<Rightarrow> int \<times> int \<Rightarrow> nat \<Rightarrow> (u64 \<times> ldouble) \<times> rep_run \<times> 'a tariffs_scheme \<Rightarrow>
    (u64 \<times> ldouble) \<times> rep_run \<times> 'a tariffs_scheme" where
  \<open>table_step gmtoff opt base idx i s = (case s of (tot, st, w) \<Rightarrow> (case acc_table gmtoff opt base idx i st w of (x, st, w) \<Rightarrow>
     ((fst tot + fst x, ld_add (snd tot) (snd x)),
      if \<not> ro_line opt \<and> i < length (rr_accs st) - 1 then emit ''<br>'' st else st, w)))\<close>

definition page_tables :: "(int \<Rightarrow> int) \<Rightarrow> rep_opts \<Rightarrow> logbase \<Rightarrow> int \<times> int \<Rightarrow> rep_run \<Rightarrow> 'a tariffs_scheme \<Rightarrow>
    (u64 \<times> ldouble) \<times> rep_run \<times> 'a tariffs_scheme" where
  "page_tables gmtoff opt base idx st w = fold (table_step gmtoff opt base idx) [0..<length (rr_accs st)] ((0, ld_zero), st, w)"

text \<open>From the accounts to the end of the page.\<close>

definition rep_page :: "(int \<Rightarrow> int) \<Rightarrow> rep_opts \<Rightarrow> logbase \<Rightarrow> int \<times> int \<Rightarrow> acc_line list \<Rightarrow> string option \<Rightarrow> string option \<Rightarrow>
    bool \<Rightarrow> 'a tariffs_scheme \<Rightarrow> rep_run \<times> 'a tariffs_scheme" where
  \<open>rep_page gmtoff opt base idx accs headt bodyt dump w =
     (case (if ro_headers opt then page_open opt headt bodyt w else ([], w)) of (page, w) \<Rightarrow>
      case page_tables gmtoff opt base idx
             (emit (page @ (if ro_line opt then line_head opt else [])) (rep_start accs dump)) w of ((sc, sm), st, w) \<Rightarrow>
        (emit ((if ro_sum opt then (if ro_line opt then total_line opt sc sm else total_text opt sc sm) else []) @
               (if ro_line opt then ''</table>'' else []) @ (if ro_headers opt then page_close bodyt else [])) st, w))\<close>

definition fopen_dump :: "string option \<Rightarrow> 'a os_scheme \<Rightarrow> bool \<times> 'a os_scheme" where
  "fopen_dump file w = (case file of None \<Rightarrow> (False, w) | Some f \<Rightarrow> sys_fopen_w f w)"

text \<open>With \<open>-A\<close> there is one line for all accounts.\<close>

definition all_accounts :: "rep_opts \<Rightarrow> acc_line list" where
  "all_accounts opt =
     (if ro_all opt
      then [acc_line_new 0 (Some (case ro_accs opt of [] \<Rightarrow> ''ANY'' | a # _ \<Rightarrow> (case al_descr a of None \<Rightarrow> ''ANY'' | Some d \<Rightarrow> d)))]
      else ro_accs opt)"

text \<open>The program after its options: exit status, standard output and the files.\<close>

definition rep_report :: "(int \<Rightarrow> int) \<Rightarrow> string \<Rightarrow> string \<Rightarrow> rep_opts \<Rightarrow> string \<Rightarrow> 'a tariffs_scheme \<Rightarrow>
    int \<times> string \<times> 'a tariffs_scheme" where
  "rep_report gmtoff logname idxname opt stdin w =
     (case fopen_dump (ro_dumpfile opt) w of (dump, w) \<Rightarrow>
      if \<not> ro_stdin opt \<and> ro_accs opt = [] then (- 1, [], w)
      else if ro_days opt > 0 \<and> (ro_from opt = 0 \<or> ro_to opt \<noteq> 0) then (- 1, [], w)
      else (let opt = (if ro_days opt > 0 then opt\<lparr>ro_to := end_of_days (ro_from opt) (ro_days opt) w\<rparr> else opt)
            in case load_templ (ro_headfile opt) w of ((ok, headt), w) \<Rightarrow>
              if \<not> ok then (- 1, [], w)
              else (case load_templ (ro_bodyfile opt) w of ((ok, bodyt), w) \<Rightarrow>
                if \<not> ok then (- 1, [], w)
                else (case idx_range idxname (ro_from opt) (ro_to opt) w of (idx, w) \<Rightarrow>
                  case log_baseopen_sr logbase_zero logname w of (rc, base, w) \<Rightarrow>
                  if rc < 0 then (- 1, [], w)
                  else (case (if all_accounts opt = [] then read_accounts stdin [] w else (Some (all_accounts opt), w)) of
                      (None, w) \<Rightarrow> (- 1, [], w)
                    | (Some accs, w) \<Rightarrow> (case rep_page gmtoff opt base idx accs headt bodyt dump w of (st, w) \<Rightarrow>
                        (0, rr_out st, case (ro_dumpfile opt, rr_dump st) of
                           (Some f, Some t) \<Rightarrow> sys_fclose_w f t w | _ \<Rightarrow> w)))))))"

definition beerep_main :: "(int \<Rightarrow> int) \<Rightarrow> string list \<Rightarrow> string \<Rightarrow> 'a tariffs_scheme \<Rightarrow> (int \<times> string \<times> 'a tariffs_scheme) option" where
  "beerep_main gmtoff args stdin w = (case conf_load None conf_zero w of
      None \<Rightarrow> None
    | Some (rc, c, w) \<Rightarrow>
        if rc < 0 then Some (- 1, [], w)
        else Some (case reslinks_load LOCK_SH (use_gate_conf c w) of (rc, w) \<Rightarrow>
          if rc < 0 then (- 1, [], w)
          else (case option_loop rep_option (getopt PARAMS [] args) (rep_defaults, w) of
              None \<Rightarrow> (- 1, [], w)
            | Some (opt, w) \<Rightarrow> rep_report gmtoff (c_name (cf_logfile c)) (c_name (cf_logindex c)) opt stdin w)))"

section \<open>One pass for all accounts\<close>

text \<open>
  What a table of an account should hold: the sums over all records of the log that pass the filters and
  belong to the account.
\<close>

definition in_report :: "rep_opts \<Rightarrow> int \<Rightarrow> logrec \<Rightarrow> bool" where
  "in_report opt accno r \<longleftrightarrow> in_time opt r \<and> of_kind opt r \<and> of_account opt accno r"

definition log_sums :: "rep_opts \<Rightarrow> int \<Rightarrow> logrec list \<Rightarrow> rep_table" where
  "log_sums opt accno rs = fold (table_add opt) (filter (in_report opt accno) rs) table_zero"

text \<open>The sums by direction, of charges and of payments agree.\<close>

definition same_sums :: "rep_table \<Rightarrow> rep_table \<Rightarrow> bool" where
  "same_sums t u \<longleftrightarrow> rt_in_count t = rt_in_count u \<and> rt_out_count t = rt_out_count u \<and> rt_in_sum t = rt_in_sum u \<and>
     rt_out_sum t = rt_out_sum u \<and> rt_charge t = rt_charge u \<and> rt_pays t = rt_pays u \<and>
     rt_in_recs t = rt_in_recs u \<and> rt_out_recs t = rt_out_recs u"

text \<open>The scan of a list of records, without the calls that read them.\<close>

fun scan_list :: "(int \<Rightarrow> int) \<Rightarrow> rep_opts \<Rightarrow> int \<Rightarrow> int \<Rightarrow> logrec list \<Rightarrow> 'a tariffs_scheme \<Rightarrow> rep_table \<times> rep_run \<Rightarrow>
    rep_table \<times> rep_run" where
  "scan_list gmtoff opt accno i [] w s = s"
| "scan_list gmtoff opt accno i (r # rs) w s =
     scan_list gmtoff opt accno (i + 1) rs w (scan_rec gmtoff opt accno i r w (fst s, (snd s)\<lparr>rr_rec := r\<rparr>))"

lemma put_record_accs [simp]:
  "rr_accs (put_record g opt w r n m k st) = rr_accs st" "rr_cached (put_record g opt w r n m k st) = rr_cached st"
  "rr_accs (emit s st) = rr_accs st" "rr_cached (emit s st) = rr_cached st"
  "rr_fset (emit s st) = rr_fset st" "rr_lset (emit s st) = rr_lset st"
  by (simp_all add: put_record_def emit_def Let_def)

lemma note_window_accs [simp]: "rr_accs (note_window i st) = rr_accs st" "rr_cached (note_window i st) = rr_cached st"
  by (simp_all add: note_window_def Let_def)

lemma same_localtime: "dbs.more v = dbs.more w \<Longrightarrow> c_localtime v = c_localtime w"
  by (cases v; cases w) simp

lemma scan_rec_local: "c_localtime v = c_localtime w \<Longrightarrow> scan_rec g opt accno i r v s = scan_rec g opt accno i r w s"
  by (cases s) (simp add: scan_rec_def put_record_def Let_def)

lemma scan_rec_sums:
  "fst (scan_rec g opt accno i r w (t, st)) = (if in_report opt accno r then table_add opt r t else t)"
  "rr_accs (snd (scan_rec g opt accno i r w (t, st))) =
     (if ro_group opt \<and> in_time opt r \<and> of_kind opt r then share_rec opt r (rr_accs st) else rr_accs st)"
  by (simp_all add: scan_rec_def in_report_def Let_def)

lemma scan_list_sums:
  "fst (scan_list g opt accno i rs w (t, st)) = fold (table_add opt) (filter (in_report opt accno) rs) t"
  "rr_accs (snd (scan_list g opt accno i rs w (t, st))) =
     (if ro_group opt then fold (share_rec opt) (filter (\<lambda>r. in_time opt r \<and> of_kind opt r) rs) (rr_accs st) else rr_accs st)"
proof (induction rs arbitrary: i t st)
  case (Cons r rs)
  {
    case 1
    show ?case
      using Cons.IH(1)[of "i + 1"] scan_rec_sums(1)[of g opt accno i r w t "st\<lparr>rr_rec := r\<rparr>"]
      by (cases "scan_rec g opt accno i r w (t, st\<lparr>rr_rec := r\<rparr>)") simp
  next
    case 2
    show ?case
      using Cons.IH(2)[of "i + 1"] scan_rec_sums(2)[of g opt accno i r w t "st\<lparr>rr_rec := r\<rparr>"]
      by (cases "scan_rec g opt accno i r w (t, st\<lparr>rr_rec := r\<rparr>)") simp
  }
qed simp_all

text \<open>Without faults the loop reads the records as they are, broken ones included.\<close>

lemma read_record:
  assumes "seq_ready (lb_fd base) lp 64 lbs w" "i < length (log_of lbs)"
  shows "\<exists>rc v. logi_get base (int i) d w = (rc, log_of lbs ! i, v) \<and> rc \<noteq> IO_ERROR \<and> rc \<noteq> NOT_FOUND \<and>
    seq_ready (lb_fd base) lp 64 lbs v \<and> dbs.more v = dbs.more w"
proof -
  have i: "i < length (records 64 lbs)" using assms(2) by (simp add: log_of_def)
  from db_get_seq[OF assms(1) i, of "encode_logrec d"] obtain v where
    v: "db_get (lb_fd base) (int i) (encode_logrec d) 64 w = (SUCCESS, records 64 lbs ! i, v)"
      "seq_ready (lb_fd base) lp 64 lbs v" by auto
  have "dbs.more v = dbs.more w" using keeps_get[OF v(1)] by (simp add: keeps_others_def)
  with v i show ?thesis by (auto simp: logi_get_def log_of_def Let_def)
qed

lemma scan_quiet:
  assumes "seq_ready (lb_fd base) lp 64 lbs w" "i + n \<le> length (log_of lbs)"
  shows "\<exists>v. scan_loop g opt base accno n (int i) s w = (True, scan_list g opt accno (int i) (take n (drop i (log_of lbs))) w s, v) \<and>
    seq_ready (lb_fd base) lp 64 lbs v \<and> dbs.more v = dbs.more w"
  using assms
proof (induction n arbitrary: i s w)
  case (Suc n)
  then obtain rc v where v: "logi_get base (int i) (rr_rec (snd s)) w = (rc, log_of lbs ! i, v)"
      "rc \<noteq> IO_ERROR" "rc \<noteq> NOT_FOUND" "seq_ready (lb_fd base) lp 64 lbs v" "dbs.more v = dbs.more w"
    using read_record[of base lp lbs w i "rr_rec (snd s)"] by auto
  let ?s = "scan_rec g opt accno (int i) (log_of lbs ! i) w (fst s, (snd s)\<lparr>rr_rec := log_of lbs ! i\<rparr>)"
  from Suc.IH[OF v(4), of "Suc i" ?s] Suc.prems obtain u where
    u: "scan_loop g opt base accno n (int (Suc i)) ?s v = (True, scan_list g opt accno (int (Suc i)) (take n (drop (Suc i) (log_of lbs))) v ?s, u)"
      "seq_ready (lb_fd base) lp 64 lbs u" "dbs.more u = dbs.more v" by auto
  have d: "drop i (log_of lbs) = log_of lbs ! i # drop (Suc i) (log_of lbs)"
    using Suc.prems by (simp add: Cons_nth_drop_Suc)
  have l: "scan_list g opt accno k rs v s' = scan_list g opt accno k rs w s'" for k rs s'
    by (induction rs arbitrary: k s') (simp_all add: scan_rec_local[OF same_localtime[OF v(5)]])
  show ?case using u v by (auto simp: d l scan_rec_local[OF same_localtime[OF v(5)]] add.commute)
qed simp

text \<open>Sharing a record with the list is adding it to each account behind the first.\<close>

lemma share_rec_nth:
  "length (share_rec opt r accs) = length accs"
  "0 < k \<Longrightarrow> k < length accs \<Longrightarrow> share_rec opt r accs ! k = line_add opt r (accs ! k)"
  by (auto simp: share_rec_def nth_Cons' split: list.split)

lemma fold_share_nth:
  "length (fold (share_rec opt) rs accs) = length accs"
  "0 < k \<Longrightarrow> k < length accs \<Longrightarrow> fold (share_rec opt) rs accs ! k = fold (line_add opt) rs (accs ! k)"
  by (induction rs arbitrary: accs) (simp_all add: share_rec_nth)

lemma line_table_add:
  assumes "same_sums (cached_table a) t" "ro_group opt" "\<not> ro_all opt" "ro_skip opt < 0" "0 \<le> al_accno a"
  shows "same_sums (cached_table (line_add opt r a)) (if of_account opt (al_accno a) r then table_add opt r t else t)"
    and "al_accno (line_add opt r a) = al_accno a"
  using assms
  by (auto simp: line_add_def table_add_def same_sums_def cached_table_def of_account_def Let_def split: rec_class.splits)

lemma line_table_fold:
  assumes "ro_group opt" "\<not> ro_all opt" "ro_skip opt < 0" "0 \<le> al_accno a" "same_sums (cached_table a) t"
  shows "same_sums (cached_table (fold (line_add opt) rs a)) (fold (table_add opt) (filter (of_account opt (al_accno a)) rs) t)"
  using assms(4,5)
proof (induction rs arbitrary: a t)
  case (Cons r rs)
  note l = line_table_add[OF Cons.prems(2) assms(1-3) Cons.prems(1), of r]
  show ?case using Cons.IH[of "line_add opt r a", OF _ l(1)] Cons.prems(1) by (simp add: l(2) split: if_splits)
qed simp

lemma filter_window:
  assumes "\<And>j. j < length xs \<Longrightarrow> P (xs ! j) \<Longrightarrow> i \<le> j \<and> j < i + n"
  shows "filter P (take n (drop i xs)) = filter P xs"
proof -
  have a: "filter P (take i xs) = []"
    using assms by (fastforce simp: filter_empty_conv in_set_conv_nth)
  have b: "filter P (drop (i + n) xs) = []"
  proof -
    have "\<not> P (drop (i + n) xs ! j)" if "j < length xs - (i + n)" for j
      using assms[of "i + n + j"] less_diff_conv[of j "length xs" "i + n"] that by (auto simp: ac_simps)
    then show ?thesis by (auto simp: filter_empty_conv in_set_conv_nth)
  qed
  have "xs = take i xs @ take n (drop i xs) @ drop (i + n) xs"
    by (metis append_take_drop_id drop_drop add.commute)
  then have "filter P xs = filter P (take i xs) @ filter P (take n (drop i xs)) @ filter P (drop (i + n) xs)"
    by (metis filter_append)
  with a b show ?thesis by simp
qed

text \<open>The first table of a grouped report.\<close>

definition covers_time :: "rep_opts \<Rightarrow> int \<times> int \<Rightarrow> logrec list \<Rightarrow> bool" where
  "covers_time opt idx rs \<longleftrightarrow> 0 \<le> fst idx \<and> fst idx \<le> int (length rs) \<and> snd idx \<le> int (length rs) \<and>
     (\<forall>i < length rs. in_time opt (rs ! i) \<longrightarrow> scan_from idx \<le> i \<and> i < scan_to idx (length rs))"

text \<open>The state after the first table: the sums of the others are known.\<close>

definition shared :: "rep_opts \<Rightarrow> acc_line list \<Rightarrow> logrec list \<Rightarrow> rep_run \<Rightarrow> bool" where
  "shared opt accs rs st \<longleftrightarrow> rr_cached st \<and> length (rr_accs st) = length accs \<and>
     (\<forall>k. 0 < k \<and> k < length accs \<longrightarrow>
        rr_accs st ! k = fold (line_add opt) (filter (\<lambda>r. in_time opt r \<and> of_kind opt r) rs) (accs ! k))"

lemma table_close_accs [simp]:
  "rr_accs (table_close g opt ind title accno c t w st) = rr_accs st"
  "rr_cached (table_close g opt ind title accno c t w st) = rr_cached st"
  by (simp_all add: table_close_def Let_def)

lemma seq_ready_ticks [simp]: "seq_ready fd lp n bs (w\<lparr>ticks := k\<rparr>) = seq_ready fd lp n bs w"
  by (simp add: seq_ready_def no_faults_def open_on_def)

lemma acc_scan_first:
  assumes "seq_ready (lb_fd base) lp 64 lbs w" "ro_group opt" "covers_time opt idx (log_of lbs)" "recs = int (length (log_of lbs))"
    and "rr_accs st = accs" "\<not> rr_fset st" "\<not> rr_lset st" "\<not> rr_cached st"
  shows "\<exists>st' v. acc_scan g opt base idx recs 0 st w = (True, (log_sums opt (al_accno (accs ! 0)) (log_of lbs), st'), v) \<and>
    shared opt accs (log_of lbs) st'"
proof -
  let ?rs = "log_of lbs" and ?stop = "if snd idx \<noteq> 0 then snd idx else recs"
  let ?i = "scan_from idx" and ?n = "nat (?stop - fst idx)" and ?a = "al_accno (accs ! 0)"
  have i: "fst idx = int ?i" "?i + ?n \<le> length ?rs" using assms(3,4) by (auto simp: covers_time_def scan_from_def)
  have c: "?i \<le> j \<and> j < ?i + ?n" if "j < length ?rs" "in_time opt (?rs ! j)" for j
    using assms(3,4) that by (fastforce simp: covers_time_def scan_from_def scan_to_def split: if_splits)
  obtain v where v: "scan_loop g opt base ?a ?n (int ?i) (table_zero, st) w =
      (True, scan_list g opt ?a (int ?i) (take ?n (drop ?i ?rs)) w (table_zero, st), v)"
    using scan_quiet[OF assms(1) i(2), of g opt ?a "(table_zero, st)"] by blast
  obtain t st' where s: "scan_list g opt ?a (int ?i) (take ?n (drop ?i ?rs)) w (table_zero, st) = (t, st')" by fastforce
  have t: "t = log_sums opt ?a ?rs"
    using scan_list_sums(1)[of g opt ?a "int ?i" "take ?n (drop ?i ?rs)" w table_zero st] c
      filter_window[of ?rs "in_report opt ?a" ?i ?n] by (simp add: s log_sums_def in_report_def)
  have a: "rr_accs st' = fold (share_rec opt) (filter (\<lambda>r. in_time opt r \<and> of_kind opt r) ?rs) accs"
    using scan_list_sums(2)[of g opt ?a "int ?i" "take ?n (drop ?i ?rs)" w table_zero st] c assms(2,5)
      filter_window[of ?rs "\<lambda>r. in_time opt r \<and> of_kind opt r" ?i ?n] by (simp add: s)
  have "acc_scan g opt base idx recs 0 st w = (True, (t, st'\<lparr>rr_cached := True\<rparr>), v)"
    using v assms(2,5-8) i(1) s by (auto simp: acc_scan_def Let_def split: if_splits)
  then show ?thesis using t a by (auto simp: shared_def fold_share_nth)
qed

lemma log_reccount_ready:
  "seq_ready (lb_fd base) lp 64 lbs w \<Longrightarrow> log_reccount base w = (int (length (log_of lbs)), w)"
  using db_reccount_nf[of w "lb_fd base" True lp lbs 64] by (simp add: log_reccount_def seq_ready_def log_of_def zdiv_int)

lemma shared_later [simp]:
  "shared opt accs rs (st\<lparr>rr_lset := b\<rparr>) = shared opt accs rs st"
  "shared opt accs rs (table_close g opt' ind title accno c t w st) = shared opt accs rs st"
  "shared opt accs rs (emit s st) = shared opt accs rs st"
  by (simp_all add: shared_def)

lemma shared_step:
  assumes "shared opt accs rs st" "table_step g opt base idx i (tot, st, w) = (tot', st', w')"
  shows "shared opt accs rs st'"
proof -
  have "rr_cached (emit s st)" for s using assms(1) by (simp add: shared_def)
  then have "shared opt accs rs (fst (snd (acc_table g opt base idx i st w)))"
    using assms(1) by (auto simp: acc_table_def acc_scan_def Let_def split: prod.split)
  with assms(2) show ?thesis by (auto simp: table_step_def split: prod.splits if_splits)
qed

lemma shared_first:
  assumes "seq_ready (lb_fd base) lp 64 lbs w" "ro_group opt" "covers_time opt idx (log_of lbs)"
    and "table_step g opt base idx 0 (tot, emit page (rep_start accs dump), w) = (tot', st', w')"
  shows "shared opt accs (log_of lbs) st'"
proof -
  obtain c v where c: "sys_time w = (c, v)" "seq_ready (lb_fd base) lp 64 lbs v"
    using assms(1) by (auto simp: sys_time_def sys_gettimeofday_def)
  let ?st = "emit (table_open opt (acc_title opt (accs ! 0))) (emit page (rep_start accs dump))"
  have e: "rr_accs ?st = accs" "\<not> rr_fset ?st" "\<not> rr_lset ?st" "\<not> rr_cached ?st" by (simp_all add: rep_start_def)
  obtain st2 u where s: "acc_scan g opt base idx (int (length (log_of lbs))) 0 ?st v =
      (True, (log_sums opt (al_accno (accs ! 0)) (log_of lbs), st2), u)" "shared opt accs (log_of lbs) st2"
    using acc_scan_first[OF c(2) assms(2,3) refl e, of g] by blast
  have "shared opt accs (log_of lbs) (fst (snd (acc_table g opt base idx 0 (emit page (rep_start accs dump)) w)))"
    using s e(1) by (simp add: acc_table_def c(1) log_reccount_ready[OF c(2)] Let_def)
  with assms(4) show ?thesis by (auto simp: table_step_def split: prod.splits if_splits)
qed

lemma shared_before:
  assumes "seq_ready (lb_fd base) lp 64 lbs w" "ro_group opt" "covers_time opt idx (log_of lbs)" "0 < ind"
    and "fold (table_step g opt base idx) [0..<ind] (tot, emit page (rep_start accs dump), w) = (tot', st', w')"
  shows "shared opt accs (log_of lbs) st'"
  using assms(4,5)
proof (induction ind arbitrary: tot' st' w')
  case (Suc k)
  obtain x st v where s: "fold (table_step g opt base idx) [0..<k] (tot, emit page (rep_start accs dump), w) = (x, st, v)"
    using prod_cases3 by blast
  show ?case
  proof (cases "k = 0")
    case True
    with Suc.prems(2) show ?thesis using shared_first[OF assms(1-3)] by simp
  next
    case False
    with Suc.IH s have "shared opt accs (log_of lbs) st" by simp
    with Suc.prems(2) s show ?thesis by (auto intro: shared_step)
  qed
qed simp

text \<open>What an account is excluded by \<open>-S\<close> for has no part in the shared sums.\<close>

lemma no_skip:
  "line_add (opt\<lparr>ro_skip := k\<rparr>) = line_add opt" "in_time (opt\<lparr>ro_skip := k\<rparr>) = in_time opt" "of_kind (opt\<lparr>ro_skip := k\<rparr>) = of_kind opt"
  by (simp_all add: fun_eq_iff line_add_def class_of_def is_pay_def in_time_def of_kind_def Let_def)

text \<open>
  C33: A grouped report over many accounts takes one pass over the log, and that is enough: when the index covers
  the time asked for, the table of the first account of the list reads the log and holds the sums by direction, of
  charges and of payments over all records of the whole log that pass the filters and belong to that account; the
  tables of all others hold such sums as well, and making them leaves the log, its cache and the rest of the
  machine as they are.  The account that \<open>-S\<close> excludes is left out of the first table only: the
  others are made as without \<open>-S\<close>.\<close>

theorem report_one_pass:
  assumes "seq_ready (lb_fd base) lp 64 lbs w" "covers_time opt idx (log_of lbs)"
    and "ro_group opt" "\<not> ro_all opt"
    and "ind < length accs" "accs ! ind = acc_line_new accno descr" "0 \<le> accno"
    and "fold (table_step g opt base idx) [0..<ind] (tot, emit page (rep_start accs dump), w) = (tot', st, v)"
  shows "\<exists>t st' u. acc_scan g opt base idx (int (length (log_of lbs))) ind st v = (True, (t, st'), u) \<and>
    same_sums t (log_sums (if ind = 0 then opt else opt\<lparr>ro_skip := - 1\<rparr>) accno (log_of lbs)) \<and>
    (0 < ind \<longrightarrow> u = v \<and> st' = st)"
proof (cases "ind = 0")
  case True
  then have st: "st = emit page (rep_start accs dump)" "v = w" using assms(8) by simp_all
  have "rr_accs st = accs" "\<not> rr_fset st" "\<not> rr_lset st" "\<not> rr_cached st" by (simp_all add: st(1) rep_start_def)
  from acc_scan_first[OF assms(1,3,2) refl this, of g] True assms(6) show ?thesis
    by (auto simp: st(2) acc_line_new_def same_sums_def)
next
  case False
  let ?a = "acc_line_new accno descr" and ?sel = "filter (\<lambda>r. in_time opt r \<and> of_kind opt r) (log_of lbs)"
    and ?opt = "opt\<lparr>ro_skip := - 1\<rparr>"
  have a: "rr_cached st" "rr_accs st ! ind = fold (line_add opt) ?sel ?a"
    using shared_before[OF assms(1,3,2) _ assms(8)] False assms(5,6) by (auto simp: shared_def)
  have z: "same_sums (cached_table ?a) table_zero" "al_accno ?a = accno"
    by (simp_all add: same_sums_def cached_table_def acc_line_new_def table_zero_def)
  have f: "filter (of_account ?opt accno) ?sel = filter (in_report ?opt accno) (log_of lbs)"
    by (auto simp: in_report_def no_skip intro: filter_cong)
  have "same_sums (cached_table (fold (line_add ?opt) ?sel ?a)) (fold (table_add ?opt) (filter (of_account ?opt (al_accno ?a)) ?sel) table_zero)"
    using assms(3,4,7) z by (intro line_table_fold) simp_all
  then have "same_sums (cached_table (fold (line_add opt) ?sel ?a)) (log_sums ?opt accno (log_of lbs))"
    unfolding z(2) f log_sums_def no_skip(1) .
  with a False show ?thesis by (auto simp: acc_scan_def)
qed

text \<open>A log with two records of account 0, open for sequential reading.\<close>

definition demo_log :: "byte list" where
  "demo_log = encode_logrec (demo_logrec 200000 7) @ encode_logrec (demo_logrec 600000 5)"

definition demo_report :: tariffs where
  "demo_report = demo_index\<lparr>files := [''log'' \<mapsto> demo_log],
     fdt := [3 \<mapsto> \<lparr>fe_path = ''log'', fe_pos = 0, fe_lock = LOCK_UN, fe_ro = True\<rparr>], sqr := sqr_none\<lparr>sq_fd := 3\<rparr>\<rparr>"

theorem report_one_pass_witness:
  "let opt = rep_defaults\<lparr>ro_group := True\<rparr>; base = \<lparr>lb_fd = 3, lb_fasync = 0\<rparr>; accs = [acc_line_new 1 None, acc_line_new 0 None]
   in \<exists>s t st' u. fold (table_step (\<lambda>_. 0) opt base (0, 0)) [0..<1] ((0, ld_zero), emit [] (rep_start accs False), demo_report) = s \<and>
     acc_scan (\<lambda>_. 0) opt base (0, 0) 2 1 (fst (snd s)) (snd (snd s)) = (True, (t, st'), u) \<and> u = snd (snd s) \<and>
     same_sums t (log_sums opt 0 [demo_logrec 200000 7, demo_logrec 600000 5])"
proof -
  let ?opt = "rep_defaults\<lparr>ro_group := True\<rparr>" and ?base = "\<lparr>lb_fd = 3, lb_fasync = 0\<rparr>"
    and ?accs = "[acc_line_new 1 None, acc_line_new 0 None]"
  have L: "log_of demo_log = [demo_logrec 200000 7, demo_logrec 600000 5]"
    by (simp add: demo_log_def log_of_def records_def upt_rec)
  have r: "seq_ready (lb_fd ?base) ''log'' 64 demo_log demo_report"
    by (simp add: seq_ready_def demo_report_def demo_index_def demo_tariffs_def demo_bee_def no_faults_def open_on_def
        sqr_none_def cache_ok_def dbs.defs gates.defs tariffs.defs)
  have c: "covers_time ?opt (0, 0) (log_of demo_log)"
    by (simp add: covers_time_def scan_from_def scan_to_def)
  obtain tot st v where
    s: "fold (table_step (\<lambda>_. 0) ?opt ?base (0, 0)) [0..<1] ((0, ld_zero), emit [] (rep_start ?accs False), demo_report) = (tot, st, v)"
    using prod_cases3 by blast
  from report_one_pass[OF r c, where ind = 1 and accno = 0 and descr = None, OF _ _ _ _ _ s] show ?thesis
    unfolding Let_def s by (auto simp: rep_defaults_def L)
qed

end
