(* ===== verification/Parser.thy ===== *)
theory Parser
  imports Datsort Beerep Beetraff
begin

text \<open>
  The filter for traffic statistics (\<open>src/src/bee/utils/cnupm-parser/parser.c\<close>): it reads the text of a
  collector or files of binary records, selects records by network, account, time, protocol and direction, and
  prints them, writes them to a file of records, or sums them up by period or address.  What a shell command and
  the name service return is a parameter.  An access behind the end of an array and a division by
  zero are run-time errors (\<open>None\<close>).
\<close>

section \<open>Records\<close>

record parserec =
  pr_tstamp :: u32
  pr_src :: u32
  pr_sport :: u32
  pr_dst :: u32
  pr_dport :: u32
  pr_proto :: u32
  pr_count :: u64

definition encode_parserec :: "parserec \<Rightarrow> byte list" where
  "encode_parserec r = enc32 (pr_tstamp r) @ enc32 (pr_src r) @ enc32 (pr_sport r) @ enc32 (pr_dst r) @ enc32 (pr_dport r) @
     enc32 (pr_proto r) @ enc64 (pr_count r)"

definition decode_parserec :: "byte list \<Rightarrow> parserec" where
  "decode_parserec bs = \<lparr>pr_tstamp = rd32 0 bs, pr_src = rd32 4 bs, pr_sport = rd32 8 bs, pr_dst = rd32 12 bs,
     pr_dport = rd32 16 bs, pr_proto = rd32 20 bs, pr_count = rd64 24 bs\<rparr>"

definition parserec_zero :: parserec where
  "parserec_zero = decode_parserec (replicate PARSEREC_SIZE 0)"

lemma length_encode_parserec [simp]: "length (encode_parserec r) = PARSEREC_SIZE"
  by (simp add: encode_parserec_def)

lemma decode_encode_parserec [simp]: "decode_parserec (encode_parserec r) = r"
  by (cases r) (simp add: decode_parserec_def encode_parserec_def rd_enc)

record ipgroup =
  ig_ip :: u32
  ig_in :: u64
  ig_out :: u64
  ig_lport :: u32
  ig_rport :: u32
  ig_recs :: int

section \<open>Settings\<close>

abbreviation (input) PARSER_EXCLUSIONS :: nat where "PARSER_EXCLUSIONS \<equiv> 32768"

text \<open>The local networks; the count of the list is 9, so the last two are never looked at.\<close>

definition IP :: "nat \<Rightarrow> nat \<Rightarrow> nat \<Rightarrow> nat \<Rightarrow> u32" where
  "IP a b c d = word_of_nat (a + b * 0x100 + c * 0x10000 + d * 0x1000000)"

definition itm_loclist :: "exclitem list" where
  "itm_loclist = map (\<lambda>(a, m, f). \<lparr>ex_addr = a, ex_mask = m, ex_flag = f\<rparr>)
    [(IP 192 168 0 0, IP 255 255 0 0, False), (IP 172 16 0 0, IP 255 240 0 0, False), (IP 10 0 0 0, IP 255 0 0 0, False),
     (IP 192 168 251 42, IP 255 255 255 255, True), (IP 192 168 253 218, IP 255 255 255 255, True),
     (IP 217 150 206 0, IP 255 255 255 0, False), (IP 217 150 206 10, IP 255 255 255 255, True),
     (IP 82 194 234 0, IP 255 255 254 0, False), (IP 82 194 234 10, IP 255 255 255 255, True),
     (IP 89 208 94 0, IP 255 255 255 0, False), (IP 89 208 94 10, IP 255 255 255 255, True)]"

abbreviation (input) cnt_loclist :: nat where "cnt_loclist \<equiv> 9"

record parser_opts =
  po_excl :: "exclitem list"
  po_accs :: "int list"
  po_proto :: int
  po_port :: int
  po_stats :: bool
  po_statsd :: bool
  po_dir :: bool
  po_compat :: bool
  po_human :: bool
  po_ports :: bool
  po_dns :: bool
  po_quiet :: bool
  po_append :: bool
  po_unzip :: bool
  po_from :: int
  po_to :: int
  po_tslice :: int
  po_output :: "string option"
  po_stdout :: bool
  po_tabname :: "string option"
  po_inbound :: bool
  po_outbound :: bool
  po_denom :: int

definition parser_defaults :: parser_opts where
  "parser_defaults = \<lparr>po_excl = [], po_accs = [], po_proto = - 1, po_port = - 1, po_stats = False, po_statsd = False,
     po_dir = False, po_compat = True, po_human = False, po_ports = False, po_dns = False, po_quiet = False,
     po_append = False, po_unzip = False, po_from = 0, po_to = 0, po_tslice = 0, po_output = None, po_stdout = False,
     po_tabname = None, po_inbound = True, po_outbound = True, po_denom = 1\<rparr>"

definition PARSER_OPTS :: string where
  "PARSER_OPTS = ''a:cdDe:f:F:hn:l:N:o:Op:PqsST:t:vz?''"

text \<open>\<open>da_ins\<close> of an exclusion: without memory the list stays as it is.\<close>

definition ins_exclusion :: "exclitem \<Rightarrow> parser_opts \<times> 'a os_scheme \<Rightarrow> parser_opts \<times> 'a os_scheme" where
  "ins_exclusion e s = (case s of (opt, w) \<Rightarrow> (case sys_alloc w of (mem, w) \<Rightarrow>
     (if mem then opt\<lparr>po_excl := po_excl opt @ [e]\<rparr> else opt, w)))"

definition parser_exclusion :: "bool \<Rightarrow> string \<Rightarrow> parser_opts \<times> 'a os_scheme \<Rightarrow> parser_opts \<times> 'a os_scheme" where
  "parser_exclusion flag arg s =
     (if length (po_excl (fst s)) < PARSER_EXCLUSIONS
      then (case make_addrandmask arg of
          None \<Rightarrow> s
        | Some (addr, nmask) \<Rightarrow> ins_exclusion \<lparr>ex_addr = addr, ex_mask = nmask, ex_flag = flag\<rparr> s)
      else s)"

text \<open>The accounts of a list, as long as there is room.\<close>

definition parser_list :: "string \<Rightarrow> parser_opts \<Rightarrow> 'a gates_scheme \<Rightarrow> parser_opts" where
  "parser_list name opt w = opt\<lparr>po_accs := po_accs opt @
     take (PARSER_EXCLUSIONS - length (po_accs opt)) (map (\<lambda>i. rl_accno (linktab w ! nat i)) (gates_named RES_LIST name w))\<rparr>"

definition parser_proto :: "string \<Rightarrow> parser_opts \<Rightarrow> parser_opts" where
  "parser_proto arg opt =
     (let delim = [CHR '' '', CHR 0x09, CHR 0x0A, CHR 0x0D, CHR '':'']
      in case next_token (Some arg) delim of
           (None, _) \<Rightarrow> opt\<lparr>po_proto := 0\<rparr>
         | (Some str, p) \<Rightarrow> (case fst (next_token p delim) of
               None \<Rightarrow> opt\<lparr>po_proto := atol str\<rparr>
             | Some n \<Rightarrow> opt\<lparr>po_proto := atol str, po_port := atol n\<rparr>))"

text \<open>
  One option; \<open>-a\<close> does not look whether there is room, so the state after it may have a list that is too long
  (see \<open>parser_main\<close>).
\<close>

definition parser_option :: "char \<times> string \<Rightarrow> parser_opts \<times> 'a tariffs_scheme \<Rightarrow> (parser_opts \<times> 'a tariffs_scheme) option" where
  "parser_option x s = (case x of (c, arg) \<Rightarrow> case s of (opt, w) \<Rightarrow>
     if c = CHR ''v'' then Some s
     else if c = CHR ''n'' \<or> c = CHR ''N'' then Some (parser_exclusion (c = CHR ''N'') arg s)
     else if c = CHR ''l'' then Some (parser_list arg opt w, w)
     else if c = CHR ''d'' then Some (opt\<lparr>po_dir := True\<rparr>, w)
     else if c = CHR ''s'' then Some (opt\<lparr>po_stats := True\<rparr>, w)
     else if c = CHR ''S'' then Some (opt\<lparr>po_statsd := True\<rparr>, w)
     else if c = CHR ''p'' then Some (parser_proto arg opt, w)
     else if c = CHR ''F'' then Some (opt\<lparr>po_from := parse_date arg w\<rparr>, w)
     else if c = CHR ''T'' then Some (opt\<lparr>po_to := parse_date arg w\<rparr>, w)
     else if c = CHR ''c'' then Some (opt\<lparr>po_compat := False\<rparr>, w)
     else if c = CHR ''h'' then Some (opt\<lparr>po_human := True\<rparr>, w)
     else if c = CHR ''P'' then Some (opt\<lparr>po_ports := True\<rparr>, w)
     else if c = CHR ''D'' then Some (opt\<lparr>po_dns := True\<rparr>, w)
     else if c = CHR ''t''
     then Some (if po_dir opt then opt\<lparr>po_tabname := Some arg\<rparr> else opt\<lparr>po_tslice := atol arg\<rparr>, w)
     else if c = CHR ''o'' then Some (opt\<lparr>po_output := Some arg, po_stdout := po_stdout opt \<or> arg = ''-''\<rparr>, w)
     else if c = CHR ''O'' then Some (opt\<lparr>po_append := True\<rparr>, w)
     else if c = CHR ''z'' then Some (opt\<lparr>po_unzip := True\<rparr>, w)
     else if c = CHR ''a'' then Some (opt\<lparr>po_accs := po_accs opt @ [atol arg]\<rparr>, w)
     else if c = CHR ''q'' then Some (opt\<lparr>po_quiet := True\<rparr>, w)
     else if c = CHR ''f''
     then Some (opt\<lparr>po_inbound := atol arg smod 2 \<noteq> 0, po_outbound := atol arg sdiv 2 smod 2 \<noteq> 0\<rparr>, w)
     else if c = CHR ''e'' then Some (opt\<lparr>po_denom := atol arg\<rparr>, w)
     else None)"

text \<open>The networks of the accounts; a gate that is no network ends the list of its account.\<close>

fun gate_exclusions :: "reslink list \<Rightarrow> parser_opts \<times> 'a os_scheme \<Rightarrow> parser_opts \<times> 'a os_scheme" where
  "gate_exclusions [] s = s"
| "gate_exclusions (l # ls) s = (case make_addrandmask (rl_username l) of
      None \<Rightarrow> s
    | Some (addr, nmask) \<Rightarrow> gate_exclusions ls (ins_exclusion \<lparr>ex_addr = addr, ex_mask = nmask, ex_flag = False\<rparr> s))"

definition gates_of_accres :: "int \<Rightarrow> int \<Rightarrow> 'a gates_scheme \<Rightarrow> reslink list" where
  "gates_of_accres accno rid w =
     map (\<lambda>i. linktab w ! nat i) (link_walk (\<lambda>l. rl_accno l = accno \<and> rl_res_id l = rid) (linktab w) (- 1))"

definition account_exclusions :: "parser_opts \<times> 'a gates_scheme \<Rightarrow> parser_opts \<times> 'a gates_scheme" where
  "account_exclusions s = fold (\<lambda>accno s. gate_exclusions (gates_of_accres accno RES_INET (snd s)) s) (po_accs (fst s)) s"

section \<open>The filters\<close>

text \<open>The times of a text, as year, month, day and the time of the day.\<close>

fun date_fields :: "nat \<Rightarrow> ptr \<Rightarrow> int list option" where
  "date_fields 0 p = Some []"
| "date_fields (Suc n) p = (case next_token p DATE_DELIM of
      (None, _) \<Rightarrow> None
    | (Some s, p) \<Rightarrow> map_option (\<lambda>xs. atol s # xs) (date_fields n p))"

definition parse_time2 :: "string \<Rightarrow> 'a tariffs_scheme \<Rightarrow> int" where
  "parse_time2 str w = (case date_fields 1 (Some str) of
      None \<Rightarrow> 0
    | Some y \<Rightarrow>
        (let year = (if hd y < 100 then hd y + 100 else hd y - 1900)
         in if year < 0 then 0
            else (case date_fields 6 (Some str) of
                Some [_, mon, day, hour, minute, sec] \<Rightarrow>
                  (let t = mktime (tm_null\<lparr>tm_year := year, tm_mon := i32 (mon - 1), tm_mday := day, tm_hour := hour,
                         tm_min := minute, tm_sec := sec, tm_isdst := - 1\<rparr>) w
                   in if t < 0 then 0 else t)
              | _ \<Rightarrow> 0)))"

text \<open>Whether one end of a record is selected: the last network that covers an end decides.\<close>

fun selected :: "exclitem list \<Rightarrow> u32 \<Rightarrow> u32 \<Rightarrow> bool \<Rightarrow> bool" where
  "selected [] src dst flag = flag"
| "selected (e # es) src dst flag =
     selected es src dst (if src AND ex_mask e = ex_addr e \<or> dst AND ex_mask e = ex_addr e then \<not> ex_flag e else flag)"

text \<open>Whether an address is local.\<close>

definition local_addr :: "u32 \<Rightarrow> bool" where
  "local_addr a = selected (take cnt_loclist itm_loclist) a a False"

definition proto_ok :: "parser_opts \<Rightarrow> parserec \<Rightarrow> bool" where
  "proto_ok opt r \<longleftrightarrow> \<not> (po_proto opt \<ge> 0 \<and>
     (po_proto opt \<noteq> sint (pr_proto r) \<or>
      po_port opt > 0 \<and> sint (pr_dport r) \<noteq> po_port opt \<and> sint (pr_sport r) \<noteq> po_port opt))"

definition is_stub :: "parserec \<Rightarrow> bool" where
  "is_stub r \<longleftrightarrow> pr_dst r = 0 \<and> pr_src r = 0 \<and> pr_count r = 0"

definition nets_pass :: "parser_opts \<Rightarrow> parserec \<Rightarrow> bool" where
  "nets_pass opt r \<longleftrightarrow> po_excl opt = [] \<or> selected (po_excl opt) (pr_src r) (pr_dst r) False"

text \<open>Whether the times of the lines are needed.\<close>

definition need_time :: "parser_opts \<Rightarrow> bool" where
  "need_time opt \<longleftrightarrow> po_from opt \<noteq> 0 \<or> po_to opt \<noteq> 0 \<or> po_tslice opt > 0 \<or> po_output opt \<noteq> None"

definition too_early :: "parser_opts \<Rightarrow> parserec \<Rightarrow> bool" where
  "too_early opt r \<longleftrightarrow> po_from opt \<noteq> 0 \<and> sint (pr_tstamp r) < po_from opt"

definition too_late :: "parser_opts \<Rightarrow> parserec \<Rightarrow> bool" where
  "too_late opt r \<longleftrightarrow> po_to opt \<noteq> 0 \<and> sint (pr_tstamp r) > po_to opt"

definition dir_ok :: "parser_opts \<Rightarrow> parserec \<Rightarrow> bool" where
  "dir_ok opt r \<longleftrightarrow> (if local_addr (pr_src r) then po_outbound opt else po_inbound opt)"

section \<open>Sums\<close>

text \<open>The period of the time slices, and the sums of the one at hand.\<close>

record slice =
  sl_tstamp :: int
  sl_in :: u64
  sl_out :: u64

definition in_count :: "parserec \<Rightarrow> u64" where
  "in_count r = (if local_addr (pr_src r) then 0 else pr_count r)"

definition out_count :: "parserec \<Rightarrow> u64" where
  "out_count r = (if local_addr (pr_src r) then pr_count r else 0)"

text \<open>A record in the sums of its period: the record that starts a new period is not counted.\<close>

definition slice_start :: "parser_opts \<Rightarrow> parserec \<Rightarrow> int" where
  "slice_start opt r = i32 (sint (pr_tstamp r) sdiv po_tslice opt * po_tslice opt)"

definition slice_text :: "parser_opts \<Rightarrow> slice \<Rightarrow> string" where
  "slice_text opt t =
     (let per = (\<lambda>n. (n + word_of_int (po_tslice opt sdiv 2)) div word_of_int (po_tslice opt) :: u64)
      in printf ''%d'' [AI (sl_tstamp t)] @ [CHR 0x09] @ printf ''%llu'' [AI (uint (per (sl_in t)))] @ [CHR 0x09] @
         printf ''%llu'' [AI (uint (per (sl_out t)))] @ [CHR 0x0A])"

definition slice_add :: "parser_opts \<Rightarrow> parserec \<Rightarrow> slice \<Rightarrow> string \<times> slice" where
  "slice_add opt r t =
     (let start = slice_start opt r; t = (if sl_tstamp t = 0 then t\<lparr>sl_tstamp := start\<rparr> else t)
      in if sl_tstamp t \<noteq> start then (slice_text opt t, \<lparr>sl_tstamp = start, sl_in = 0, sl_out = 0\<rparr>)
         else ([], t\<lparr>sl_in := sl_in t + in_count r, sl_out := sl_out t + out_count r\<rparr>))"

text \<open>The line of a record: its address, local or remote, and with \<open>-P\<close> its ports.\<close>

definition group_of :: "parser_opts \<Rightarrow> parserec \<Rightarrow> ipgroup" where
  "group_of opt r =
     (let out = local_addr (pr_src r); flag = (if po_stats opt then out else local_addr (pr_dst r))
      in \<lparr>ig_ip = (if flag then pr_src r else pr_dst r), ig_in = in_count r, ig_out = out_count r,
          ig_lport = (if \<not> po_ports opt then 0 else if out then pr_sport r else pr_dport r),
          ig_rport = (if \<not> po_ports opt then 0 else if out then pr_dport r else pr_sport r), ig_recs = 0\<rparr>)"

definition same_group :: "bool \<Rightarrow> ipgroup \<Rightarrow> ipgroup \<Rightarrow> bool" where
  "same_group ports x y \<longleftrightarrow> ig_ip y = ig_ip x \<and> (ports \<longrightarrow> ig_lport y = ig_lport x \<and> ig_rport y = ig_rport x)"

fun bump_group :: "bool \<Rightarrow> ipgroup \<Rightarrow> ipgroup list \<Rightarrow> ipgroup list option" where
  "bump_group ports x [] = None"
| "bump_group ports x (y # ys) =
     (if same_group ports x y then Some (y\<lparr>ig_in := ig_in y + ig_in x, ig_out := ig_out y + ig_out x, ig_recs := ig_recs y + 1\<rparr> # ys)
      else map_option (\<lambda>ys. y # ys) (bump_group ports x ys))"

text \<open>Without memory for a new line the program writes behind the end of the array.\<close>

definition group_add :: "bool \<Rightarrow> ipgroup \<Rightarrow> ipgroup list \<Rightarrow> 'a os_scheme \<Rightarrow> (ipgroup list \<times> 'a os_scheme) option" where
  "group_add ports x gs w = (case bump_group ports x gs of
      Some gs \<Rightarrow> Some (gs, w)
    | None \<Rightarrow> (case sys_alloc w of (mem, w) \<Rightarrow> if mem then Some (gs @ [x], w) else None))"

section \<open>Texts\<close>

definition SQL_HEADER :: "string \<Rightarrow> string" where
  \<open>SQL_HEADER tab = ''CREATE TABLE '' @ tab @ ('' (id bigserial PRIMARY KEY,time varchar,dir  varchar,local_ip inet,local_port int4,remote_ip inet,remote_port int4,proto int4,count bigint);'' @ [CHR 0x0A])\<close>

text \<open>A record by direction: the direction, the local and the remote end, protocol and count.\<close>

definition ends_of :: "parserec \<Rightarrow> string \<times> (u32 \<times> u32) \<times> (u32 \<times> u32)" where
  "ends_of r = (if local_addr (pr_src r) then (''OUT'', (pr_src r, pr_sport r), (pr_dst r, pr_dport r))
     else (''IN'', (pr_dst r, pr_dport r), (pr_src r, pr_sport r)))"

definition dir_text :: "string \<Rightarrow> parserec \<Rightarrow> string" where
  \<open>dir_text date r = (case ends_of r of (dir, (lip, lport), (rip, rport)) \<Rightarrow>
     printf (''%s'' @ [CHR 0x09] @ ''%s'' @ [CHR 0x09] @ ''%s'' @ [CHR 0x09] @ ''%d'' @ [CHR 0x09] @ ''%s'' @ [CHR 0x09] @ ''%d'' @ [CHR 0x09] @ ''%d'' @ [CHR 0x09] @ ''%llu'' @ [CHR 0x0A]) [AS date, AS dir, AS (inet_ntop lip), AI (sint lport), AS (inet_ntop rip), AI (sint rport),
       AI (sint (pr_proto r)), AI (uint (pr_count r))])\<close>

definition sql_text :: "string \<Rightarrow> string \<Rightarrow> parserec \<Rightarrow> string" where
  \<open>sql_text tab date r = (case ends_of r of (dir, (lip, lport), (rip, rport)) \<Rightarrow>
     printf (''INSERT INTO %s (time, dir, local_ip, local_port, remote_ip, remote_port, proto, count) VALUES ('' @ [CHR 0x27] @ ''%s'' @ [CHR 0x27] @ '', '' @ [CHR 0x27] @ ''%s'' @ [CHR 0x27] @ '', '' @ [CHR 0x27] @ ''%s'' @ [CHR 0x27] @ '', %d, '' @ [CHR 0x27] @ ''%s'' @ [CHR 0x27] @ '', %d, %d, %llu);'' @ [CHR 0x0A])
       [AS tab, AS date, AS dir, AS (inet_ntop lip), AI (sint lport), AS (inet_ntop rip), AI (sint rport),
        AI (sint (pr_proto r)), AI (uint (pr_count r))])\<close>

definition rec_text :: "parser_opts \<Rightarrow> string \<Rightarrow> parserec \<Rightarrow> string" where
  \<open>rec_text opt date r =
     (let sep = (if po_compat opt then '':'' else [CHR 0x09])
      in printf (''%s'' @ [CHR 0x09] @ ''%s%s%d'' @ [CHR 0x09] @ ''%s%s%d'' @ [CHR 0x09] @ ''%d'' @ [CHR 0x09] @ ''%llu'' @ [CHR 0x0A]) [AS date, AS (inet_ntop (pr_src r)), AS sep, AI (sint (pr_sport r)),
           AS (inet_ntop (pr_dst r)), AS sep, AI (sint (pr_dport r)), AI (sint (pr_proto r)), AI (uint (pr_count r))])\<close>

definition time_text :: "tm \<Rightarrow> string" where
  "time_text stm = printf ''%04d-%02d-%02d %02d:%02d:%02d''
     [AI (tm_year stm + 1900), AI (tm_mon stm + 1), AI (tm_mday stm), AI (tm_hour stm), AI (tm_min stm), AI (tm_sec stm)]"

section \<open>One record\<close>

text \<open>
  The variables of the loop: the slice, the lines and totals, whether the table was created, the date of the
  last line, what was printed and what binary records went to the standard output (how both interleave
  there depends on the buffer of the C library).
\<close>

record parser_run =
  ps_slice :: slice
  ps_groups :: "ipgroup list"
  ps_tin :: u64
  ps_tout :: u64
  ps_header :: bool
  ps_date :: string
  ps_out :: string
  ps_bin :: "byte list"

definition parser_start :: parser_run where
  "parser_start = \<lparr>ps_slice = \<lparr>sl_tstamp = 0, sl_in = 0, sl_out = 0\<rparr>, ps_groups = [], ps_tin = 0, ps_tout = 0,
     ps_header = True, ps_date = [], ps_out = [], ps_bin = []\<rparr>"

definition say_text :: "string \<Rightarrow> parser_run \<Rightarrow> parser_run" where
  "say_text s st = st\<lparr>ps_out := ps_out st @ s\<rparr>"

text \<open>The record in the file: \<open>fd\<close> is the descriptor, none for the standard output. Only a partial write is noticed.\<close>

definition save_rec :: "int option \<Rightarrow> parserec \<Rightarrow> parser_run \<Rightarrow> 'a os_scheme \<Rightarrow> bool \<times> parser_run \<times> 'a os_scheme" where
  "save_rec fd r st w = (case fd of
      None \<Rightarrow> (True, st\<lparr>ps_bin := ps_bin st @ encode_parserec r\<rparr>, w)
    | Some fd \<Rightarrow> (case sys_write fd (encode_parserec r) w of (rc, w) \<Rightarrow> (\<not> (0 \<le> rc \<and> rc < int PARSEREC_SIZE), st, w)))"

text \<open>What is done with a record that passed all filters.\<close>

definition show_rec :: "parser_opts \<Rightarrow> parserec \<Rightarrow> parser_run \<Rightarrow> 'a tariffs_scheme \<Rightarrow> (parser_run \<times> 'a tariffs_scheme) option" where
  "show_rec opt r st w =
     (if po_tslice opt > 0
      then (case slice_add opt r (ps_slice st) of (out, t) \<Rightarrow> Some (say_text out (st\<lparr>ps_slice := t\<rparr>), w))
      else if po_stats opt \<or> po_statsd opt
      then map_option (\<lambda>(gs, w). (st\<lparr>ps_tin := ps_tin st + in_count r, ps_tout := ps_tout st + out_count r, ps_groups := gs\<rparr>, w))
             (group_add (po_ports opt) (group_of opt r) (ps_groups st) w)
      else (let st = (if pr_tstamp r \<noteq> 0 then st\<lparr>ps_date := time_text (c_localtime w (sint (pr_tstamp r)))\<rparr> else st)
            in Some (if \<not> po_dir opt then say_text (rec_text opt (ps_date st) r) st
                 else (case po_tabname opt of
                    None \<Rightarrow> say_text (dir_text (ps_date st) r) st
                  | Some tab \<Rightarrow> say_text ((if ps_header st then SQL_HEADER tab else []) @ sql_text tab (ps_date st) r)
                      (st\<lparr>ps_header := False\<rparr>)), w)))"

text \<open>
  One pass of the loop behind the time of the record; the first component of the result is whether the loop
  goes on.
\<close>

definition handle_rec :: "parser_opts \<Rightarrow> int option \<Rightarrow> parserec \<Rightarrow> parser_run \<Rightarrow> 'a tariffs_scheme \<Rightarrow>
    (bool \<times> parser_run \<times> 'a tariffs_scheme) option" where
  "handle_rec opt fd r st w =
     (if too_early opt r then Some (True, st, w)
      else if too_late opt r then Some (False, st, w)
      else if \<not> nets_pass opt r then Some (True, st, w)
      else (case (if po_output opt = None then (True, st, w) else save_rec fd r st w) of (ok, st, w) \<Rightarrow>
        if \<not> ok then Some (False, st, w)
        else if po_quiet opt \<or> \<not> dir_ok opt r then Some (True, st, w)
        else map_option (Pair True) (show_rec opt r st w)))"

section \<open>Records from text\<close>

definition STAT_DELIM :: string where
  "STAT_DELIM = [CHR '' '', CHR 0x09, CHR 0x0A, CHR 0x0D]"

text \<open>An address with an optional port; a text that is no address stands for 0.\<close>

definition stat_end :: "ptr \<Rightarrow> ((u32 \<times> u32) \<times> ptr) option" where
  "stat_end p = (case next_token p STAT_DELIM of
      (None, _) \<Rightarrow> None
    | (Some str, p) \<Rightarrow> (case next_token (Some str) '':'' of
          (None, _) \<Rightarrow> None
        | (Some a, q) \<Rightarrow> Some ((case inet_pton a of None \<Rightarrow> 0 | Some ip \<Rightarrow> ip,
            case fst (next_token q '':'') of None \<Rightarrow> 0 | Some n \<Rightarrow> word_of_int (atol n)), p)))"

text \<open>
  A line up to the protocol: the date, the record, and the rest of the line for the bytes; an incomplete
  line leaves the date it has.
\<close>

definition stat_rec :: "string \<Rightarrow> string \<Rightarrow> string \<times> (parserec \<times> ptr) option" where
  "stat_rec date buf = (case next_token (Some buf) STAT_DELIM of
      (None, _) \<Rightarrow> (date, None)
    | (Some d, p) \<Rightarrow> (case next_token p STAT_DELIM of
        (None, _) \<Rightarrow> (date, None)
      | (Some t, p) \<Rightarrow> (strlcpy (d @ '' '' @ t) 128,
          Option.bind (stat_end p) (\<lambda>((src, sport), p).
            Option.bind (stat_end p) (\<lambda>((dst, dport), p).
              (case next_token p STAT_DELIM of
                 (None, _) \<Rightarrow> None
               | (Some pr, p) \<Rightarrow> Some (parserec_zero\<lparr>pr_src := src, pr_sport := sport, pr_dst := dst, pr_dport := dport,
                   pr_proto := word_of_int (atol pr)\<rparr>, p)))))))"

definition handle_line :: "parser_opts \<Rightarrow> int option \<Rightarrow> string \<Rightarrow> parser_run \<Rightarrow> 'a tariffs_scheme \<Rightarrow>
    (bool \<times> parser_run \<times> 'a tariffs_scheme) option" where
  "handle_line opt fd buf st w = (case stat_rec (ps_date st) buf of (date, x) \<Rightarrow>
     let st = st\<lparr>ps_date := date\<rparr>
     in case x of
          None \<Rightarrow> Some (True, st, w)
        | Some (r, p) \<Rightarrow>
            if \<not> proto_ok opt r then Some (True, st, w)
            else (case fst (next_token p STAT_DELIM) of
                None \<Rightarrow> Some (True, st, w)
              | Some n \<Rightarrow>
                  (let r = r\<lparr>pr_count := word_of_int (strtoll n 10)\<rparr>;
                       t = (if need_time opt then parse_time2 date w else 0)
                   in if is_stub r \<or> need_time opt \<and> t = 0 then Some (True, st, w)
                      else handle_rec opt fd (r\<lparr>pr_tstamp := word_of_int t\<rparr>) st w)))"

text \<open>
  The loop over the text, read into a buffer of 512 bytes.  Each piece of a line that is too long is counted in
  \<open>skip\<close>, and as many ends of lines are passed over.
\<close>

function text_loop :: "parser_opts \<Rightarrow> int option \<Rightarrow> string \<Rightarrow> int \<Rightarrow> parser_run \<Rightarrow> 'a tariffs_scheme \<Rightarrow>
    (parser_run \<times> 'a tariffs_scheme) option" where
  "text_loop opt fd inp skip st w =
     (if inp = [] then Some (st, w)
      else (let l = fgets 512 inp; buf = c_str (fst l)
            in if CHR 0x0A \<notin> set buf then text_loop opt fd (snd l) (skip + 1) st w
               else if skip > 0 then text_loop opt fd (snd l) (skip - 1) st w
               else (case handle_line opt fd buf st w of
                   None \<Rightarrow> None
                 | Some (go, st, w) \<Rightarrow> if go then text_loop opt fd (snd l) skip st w else Some (st, w))))"
  by pat_completeness auto
termination
  by (relation "measure (\<lambda>(_, _, inp, _). length inp)") (simp_all add: fgets_length)

declare text_loop.simps [simp del]

section \<open>Records from files\<close>

text \<open>The buffer of 1024 records, how many of them are filled and the next one.\<close>

abbreviation (input) READ_BUF :: nat where "READ_BUF \<equiv> 32768"

record read_buf =
  rb_mem :: "byte list"
  rb_blocks :: nat
  rb_next :: nat

definition read_buf_zero :: read_buf where
  "read_buf_zero = \<lparr>rb_mem = replicate READ_BUF 0, rb_blocks = 0, rb_next = 0\<rparr>"

text \<open>
  The next record; \<open>rest\<close> is what the stream still delivers.  When less than a record is left, the bytes of
  an old one follow.
\<close>

definition read_blk :: "read_buf \<Rightarrow> byte list \<Rightarrow> parserec option \<times> read_buf \<times> byte list" where
  "read_blk b rest =
     (let item = (\<lambda>b. (Some (decode_parserec (take PARSEREC_SIZE (drop (rb_next b * PARSEREC_SIZE) (rb_mem b)))),
            b\<lparr>rb_next := rb_next b + 1\<rparr>))
      in if rb_next b < rb_blocks b then (case item b of (r, b) \<Rightarrow> (r, b, rest))
         else (let got = take READ_BUF rest
               in if got = [] then (None, b\<lparr>rb_blocks := 0, rb_next := 0\<rparr>, rest)
                  else (case item \<lparr>rb_mem = got @ drop (length got) (rb_mem b), rb_blocks = length got div PARSEREC_SIZE, rb_next = 0\<rparr> of
                      (r, b) \<Rightarrow> (r, b, drop READ_BUF rest))))"

definition handle_blk :: "parser_opts \<Rightarrow> int option \<Rightarrow> parserec \<Rightarrow> parser_run \<Rightarrow> 'a tariffs_scheme \<Rightarrow>
    (bool \<times> parser_run \<times> 'a tariffs_scheme) option" where
  "handle_blk opt fd r st w = (if \<not> proto_ok opt r \<or> is_stub r then Some (True, st, w) else handle_rec opt fd r st w)"

text \<open>\<open>open_input\<close>: \<open>popen\<close> is what a command prints.\<close>

definition open_input :: "(string \<Rightarrow> byte list option) \<Rightarrow> bool \<Rightarrow> string \<Rightarrow> 'a os_scheme \<Rightarrow> byte list option \<times> 'a os_scheme" where
  "open_input popen unzip path w =
     (if unzip then (popen (strlcpy (''/usr/bin/zcat '' @ path) 128), w)
      else (case sys_fopen_r path w of (t, w) \<Rightarrow> (map_option bytes_of t, w)))"

lemma read_blk_shorter:
  assumes "read_blk b rest = (Some r, b', rest')"
  shows "rest' = rest \<and> rb_blocks b' - rb_next b' < rb_blocks b - rb_next b \<or> length rest' < length rest"
  using assms by (auto simp: read_blk_def Let_def split: if_splits)

text \<open>The loop over the files \<open>args\<close> behind the one that is open; the standard input is the last one.\<close>

function blk_loop :: "(string \<Rightarrow> byte list option) \<Rightarrow> parser_opts \<Rightarrow> int option \<Rightarrow> string list \<Rightarrow> read_buf \<Rightarrow> byte list \<Rightarrow>
    parser_run \<Rightarrow> 'a tariffs_scheme \<Rightarrow> (parser_run \<times> 'a tariffs_scheme) option" where
  "blk_loop popen opt fd args b rest st w =
     (case read_blk b rest of
        (Some r, b, rest) \<Rightarrow> (case handle_blk opt fd r st w of
            None \<Rightarrow> None
          | Some (go, st, w) \<Rightarrow> if go then blk_loop popen opt fd args b rest st w else Some (st, w))
      | (None, b, rest) \<Rightarrow>
          if args = [] then Some (st, w)
          else (case open_input popen (po_unzip opt) (hd args) w of
              (None, w) \<Rightarrow> Some (st, w)
            | (Some new, w) \<Rightarrow> blk_loop popen opt fd (tl args) b new st w))"
  by pat_completeness auto
termination
  by (relation "measures [\<lambda>(_, _, _, args, _). length args, \<lambda>(_, _, _, _, _, rest, _). length rest,
       \<lambda>(_, _, _, _, b, _). rb_blocks b - rb_next b]")
    (auto dest!: sym[of "(Some _, _)"] read_blk_shorter)

declare blk_loop.simps [simp del]

section \<open>The summary\<close>

text \<open>\<open>cmpgroups\<close>, \<open>cmpgroups_recs\<close> and \<open>cmpgroups_ip\<close>: whether two lines are to be exchanged.\<close>

definition cmpgroups :: "ipgroup \<Rightarrow> ipgroup \<Rightarrow> int" where
  "cmpgroups x y = (if ig_in x + ig_out x < ig_in y + ig_out y then 1 else 0)"

definition cmpgroups_ip :: "ipgroup \<Rightarrow> ipgroup \<Rightarrow> int" where
  "cmpgroups_ip x y = (if ig_ip x < ig_ip y then 1 else 0)"

definition cmpgroups_recs :: "ipgroup \<Rightarrow> ipgroup \<Rightarrow> int" where
  "cmpgroups_recs x y = (if ig_recs x < ig_recs y then 1 else 0)"

text \<open>\<open>da_bsort\<close> on the array of lines (see \<open>Arrays\<close>).\<close>

definition swap_groups :: "nat \<Rightarrow> nat \<Rightarrow> ipgroup list \<Rightarrow> ipgroup list" where
  "swap_groups i j gs = gs[i := gs ! j, j := gs ! i]"

definition group_sort :: "(ipgroup \<Rightarrow> ipgroup \<Rightarrow> int) \<Rightarrow> ipgroup list \<Rightarrow> ipgroup list option" where
  "group_sort func gs =
     (if length gs \<le> 1 then Some gs
      else map_option snd (sort_loop (\<lambda>i gs. func (gs ! nat i) (gs ! nat (i + 1))) (\<lambda>i. swap_groups (nat i) (nat (i + 1)))
             (int (length gs) - 1) True 0 gs))"

definition sort_groups :: "bool \<Rightarrow> ipgroup list \<Rightarrow> ipgroup list option" where
  "sort_groups ports gs =
     (if \<not> ports then group_sort cmpgroups gs else Option.bind (group_sort cmpgroups_recs gs) (group_sort cmpgroups_ip))"

text \<open>A count divided by \<open>-e\<close>, which is taken for an unsigned number.\<close>

definition per_denom :: "parser_opts \<Rightarrow> u64 \<Rightarrow> u64" where
  "per_denom opt n = n div word_of_int (po_denom opt)"

definition share_text :: "parser_run \<Rightarrow> ipgroup \<Rightarrow> string" where
  "share_text st g = ld_text [] 8 (Some 2) (CHR ''f'')
     (ld_div (ld_mul (ld_of_u64 (ig_in g + ig_out g)) (ld_of_nat 100)) (ld_of_u64 (ps_tin st + ps_tout st))) @ ''%''"

definition mega_text :: "u64 \<Rightarrow> string" where
  "mega_text n = ld_text [] 8 (Some 2) (CHR ''f'') (ld_div (ld_of_u64 n) (ld_of_nat 1048576)) @ ''MB''"

definition group_text :: "(u32 \<Rightarrow> string option) \<Rightarrow> parser_opts \<Rightarrow> parser_run \<Rightarrow> ipgroup \<Rightarrow> string" where
  \<open>group_text dns opt st g =
     (let ip = printf ''%-15s '' [AS (inet_ntop (ig_ip g))]; sum = ig_in g + ig_out g;
          name = (case (if po_dns opt then dns (ig_ip g) else None) of None \<Rightarrow> [] | Some s \<Rightarrow> s)
      in if po_ports opt
         then ip @ printf (''%10llu %10llu %10llu %8d %8d %8d'' @ [CHR 0x0A]) [AI (uint (ig_in g)), AI (uint (ig_out g)), AI (uint sum),
           AI (sint (ig_lport g)), AI (sint (ig_rport g)), AI (ig_recs g)]
         else if \<not> po_human opt
         then ip @ printf ''%10llu %10llu %10llu '' [AI (uint (per_denom opt (ig_in g))), AI (uint (per_denom opt (ig_out g))),
             AI (uint (per_denom opt sum))] @ share_text st g @ '' '' @ name @ [CHR 0x0A]
         else ip @ mega_text (per_denom opt (ig_in g)) @ '' '' @ mega_text (per_denom opt (ig_out g)) @ '' '' @
           mega_text (per_denom opt sum) @ '' '' @ share_text st g @ '' '' @ name @ [CHR 0x0A])\<close>

definition totals_text :: "parser_opts \<Rightarrow> parser_run \<Rightarrow> string" where
  \<open>totals_text opt st =
     (let d = per_denom opt; mega = (\<lambda>n. AI (uint ((d n + 524288) div 1048576)))
      in if \<not> po_human opt
         then printf (''        (total) %10llu %10llu %10llu'' @ [CHR 0x0A]) [AI (uint (d (ps_tin st))), AI (uint (d (ps_tout st))),
           AI (uint (d (ps_tin st + ps_tout st)))]
         else printf (''        ('' @ koi [215, 211, 197, 199, 207] @ '') %8lluMB %8lluMB %8lluMB'' @ [CHR 0x0A]) [mega (ps_tin st), mega (ps_tout st), mega (ps_tin st + ps_tout st)])\<close>

text \<open>What is printed at the end; a division by zero ends the program.\<close>

definition summary :: "(u32 \<Rightarrow> string option) \<Rightarrow> parser_opts \<Rightarrow> parser_run \<Rightarrow> string option" where
  "summary dns opt st = (case sort_groups (po_ports opt) (ps_groups st) of
      None \<Rightarrow> None
    | Some gs \<Rightarrow>
        if \<not> (po_stats opt \<or> po_statsd opt) then Some []
        else if po_denom opt = 0 then None
        else Some (concat (map (group_text dns opt st) gs) @ totals_text opt st))"

section \<open>The program\<close>

text \<open>The first input: none for the text of the standard input, else a stream of records.\<close>

definition first_input :: "(string \<Rightarrow> byte list option) \<Rightarrow> parser_opts \<Rightarrow> string list \<Rightarrow> string \<Rightarrow> 'a os_scheme \<Rightarrow>
    (byte list option \<times> string list) option \<times> 'a os_scheme" where
  "first_input popen opt rest stdin w =
     (if rest = [] then (Some (None, []), w)
      else if hd rest = ''-'' then (Some (Some (bytes_of stdin), []), w)
      else (case open_input popen (po_unzip opt) (hd rest) w of
          (None, w) \<Rightarrow> (None, w)
        | (Some bs, w) \<Rightarrow> (Some (Some bs, tl rest), w)))"

text \<open>The output file: its descriptor, none for the standard output.\<close>

definition out_open :: "parser_opts \<Rightarrow> 'a os_scheme \<Rightarrow> int option option \<times> 'a os_scheme" where
  "out_open opt w = (case po_output opt of
      None \<Rightarrow> (Some None, w)
    | Some path \<Rightarrow>
        if po_stdout opt then (Some None, w)
        else (case sort_open \<lparr>so_output = Some path, so_append = po_append opt, so_stdout = False\<rparr> path w of (fd, w) \<Rightarrow>
          (if fd < 0 then None else Some (Some fd), w)))"

definition parser_work :: "(string \<Rightarrow> byte list option) \<Rightarrow> (u32 \<Rightarrow> string option) \<Rightarrow> parser_opts \<Rightarrow> string list \<Rightarrow> string \<Rightarrow>
    'a tariffs_scheme \<Rightarrow> (int \<times> parser_run \<times> 'a tariffs_scheme) option" where
  "parser_work popen dns opt rest stdin w =
     (case first_input popen opt rest stdin w of
        (None, w) \<Rightarrow> Some (- 1, parser_start, w)
      | (Some (inp, args), w) \<Rightarrow> (case out_open opt w of
            (None, w) \<Rightarrow> Some (- 1, parser_start, w)
          | (Some fd, w) \<Rightarrow> (case (case inp of
                None \<Rightarrow> text_loop opt fd stdin 0 parser_start w
              | Some bs \<Rightarrow> blk_loop popen opt fd args read_buf_zero bs parser_start w) of
                None \<Rightarrow> None
              | Some (st, w) \<Rightarrow>
                  map_option (\<lambda>out. (0, say_text out st, case fd of None \<Rightarrow> w | Some fd \<Rightarrow> snd (sys_close fd w))) (summary dns opt st))))"

text \<open>
  Exit status, what was printed and the files.  A gate table that cannot be read is reported and the program goes
  on; too many options \<open>-a\<close> overrun the list of accounts.
\<close>

definition parser_main :: "(string \<Rightarrow> byte list option) \<Rightarrow> (u32 \<Rightarrow> string option) \<Rightarrow> string list \<Rightarrow> string list \<Rightarrow> string \<Rightarrow>
    'a tariffs_scheme \<Rightarrow> (int \<times> parser_run \<times> 'a tariffs_scheme) option" where
  "parser_main popen dns args rest stdin w = (case conf_load None conf_zero w of
      None \<Rightarrow> None
    | Some (rc, c, w) \<Rightarrow>
        if rc < 0 then Some (- 1, parser_start, w)
        else (case option_loop parser_option (getopt PARSER_OPTS [] args)
                (parser_defaults, snd (reslinks_load LOCK_SH (use_gate_conf c w))) of
            None \<Rightarrow> Some (0, parser_start, w)
          | Some s \<Rightarrow>
              if PARSER_EXCLUSIONS < length (po_accs (fst s)) then None
              else (case account_exclusions s of (opt, w) \<Rightarrow> parser_work popen dns opt rest stdin w)))"

section \<open>Files of records\<close>

text \<open>The records that are still to come from the buffer and the stream.\<close>

definition rec_at :: "byte list \<Rightarrow> nat \<Rightarrow> parserec" where
  "rec_at m i = decode_parserec (take PARSEREC_SIZE (drop (i * PARSEREC_SIZE) m))"

definition stream :: "read_buf \<Rightarrow> byte list \<Rightarrow> parserec list" where
  "stream b rest = map (rec_at (rb_mem b)) [rb_next b..<rb_blocks b] @ map (rec_at rest) [0..<length rest div PARSEREC_SIZE]"

definition buf_ok :: "read_buf \<Rightarrow> bool" where
  "buf_ok b \<longleftrightarrow> length (rb_mem b) = READ_BUF \<and> rb_blocks b \<le> 1024"

lemma rec_at_simps:
  "rec_at (drop (k * PARSEREC_SIZE) m) i = rec_at m (k + i)"
  "(i + 1) * PARSEREC_SIZE \<le> length a \<Longrightarrow> rec_at (a @ z) i = rec_at a i"
  "(i + 1) * PARSEREC_SIZE \<le> n \<Longrightarrow> rec_at (take n m) i = rec_at m i"
  by (simp_all add: rec_at_def add_mult_distrib add.commute drop_take min_def)

lemma read_blk_next:
  assumes "buf_ok b" "PARSEREC_SIZE dvd length rest" "stream b rest = r # rs"
  shows "\<exists>b' rest'. read_blk b rest = (Some r, b', rest') \<and> stream b' rest' = rs \<and> buf_ok b' \<and> PARSEREC_SIZE dvd length rest'"
proof (cases "rb_next b < rb_blocks b")
  case True
  then have "read_blk b rest = (Some r, b\<lparr>rb_next := rb_next b + 1\<rparr>, rest)" "stream (b\<lparr>rb_next := rb_next b + 1\<rparr>) rest = rs"
    using assms(3) by (simp_all add: read_blk_def stream_def rec_at_def upt_conv_Cons)
  with assms show ?thesis by (auto simp: buf_ok_def)
next
  case False
  let ?N = "length rest div PARSEREC_SIZE" and ?got = "take READ_BUF rest"
  let ?n = "length ?got div PARSEREC_SIZE"
  let ?b = "\<lparr>rb_mem = ?got @ drop (length ?got) (rb_mem b), rb_blocks = ?n, rb_next = 1\<rparr>"
  have all: "map (rec_at rest) [0..<?N] = r # rs" using assms(3) False by (simp add: stream_def)
  then have N: "0 < ?N" by (cases "?N = 0") auto
  then have ne: "?got \<noteq> []" by auto
  have L: "length rest = ?N * PARSEREC_SIZE" using assms(2) by simp
  have n: "?n = min 1024 ?N" "0 < ?n" using L N by (auto simp: min_def)
  have at: "rec_at (rb_mem ?b) i = rec_at rest i" if "i < ?n" for i
  proof -
    have "(i + 1) * PARSEREC_SIZE \<le> length ?got" using that by (simp add: less_eq_div_iff_mult_less_eq Suc_le_eq[symmetric])
    then show ?thesis using rec_at_simps(2,3) by simp
  qed
  have rest: "map (rec_at (drop READ_BUF rest)) [0..<length (drop READ_BUF rest) div PARSEREC_SIZE] = map (rec_at rest) [?n..<?N]"
  proof (cases "?N \<le> 1024")
    case True
    then have "length rest \<le> READ_BUF" using L by simp
    with True n(1) show ?thesis by simp
  next
    case False
    then have "length (drop READ_BUF rest) div PARSEREC_SIZE = ?N - 1024" "?n = 1024" using L n(1) by simp_all
    moreover have "rec_at (drop READ_BUF rest) i = rec_at rest (1024 + i)" for i using rec_at_simps(1)[of 1024] by simp
    ultimately show ?thesis by (intro nth_equalityI) simp_all
  qed
  have head: "r = rec_at rest 0" "rs = map (rec_at rest) [1..<?N]" using all N by (simp_all add: upt_conv_Cons)
  have "read_blk b rest = (Some r, ?b, drop READ_BUF rest)"
    using False ne at[of 0] n(2) head(1) by (simp add: read_blk_def Let_def rec_at_def)
  moreover have "stream ?b (drop READ_BUF rest) = rs"
  proof -
    have "map (rec_at (rb_mem ?b)) [1..<?n] = map (rec_at rest) [1..<?n]" using at by simp
    moreover have "[1..<?N] = [1..<?n] @ [?n..<?N]" using n upt_add_eq_append[of 1 ?n "?N - ?n"] by simp
    ultimately show ?thesis by (simp only: stream_def rest head(2) map_append read_buf.simps)
  qed
  moreover have "buf_ok ?b" using assms(1) n(1) by (simp add: buf_ok_def)
  moreover have "PARSEREC_SIZE dvd length (drop READ_BUF rest)" using assms(2) by (simp add: dvd_diff_nat)
  ultimately show ?thesis by blast
qed

lemma read_blk_end:
  assumes "PARSEREC_SIZE dvd length rest" "stream b rest = []"
  shows "fst (read_blk b rest) = None"
proof -
  have "\<not> rb_next b < rb_blocks b" "length rest div PARSEREC_SIZE = 0" using assms(2) by (auto simp: stream_def)
  with assms(1) show ?thesis by (auto simp: read_blk_def Let_def dvd_def)
qed

lemma stream_file: "stream read_buf_zero (concat (map encode_parserec rs)) = rs"
proof -
  let ?xs = "map encode_parserec rs"
  have "records PARSEREC_SIZE (concat ?xs) = ?xs" by (rule records_concat) auto
  then have "map decode_parserec (records PARSEREC_SIZE (concat ?xs)) = rs" by (simp add: comp_def)
  then show ?thesis by (simp add: stream_def read_buf_zero_def records_def rec_at_def[abs_def] comp_def)
qed

section \<open>The summary of a file\<close>

text \<open>Summing up is the whole task: no slices, no file, not quiet.\<close>

definition sums_only :: "parser_opts \<Rightarrow> bool" where
  "sums_only opt \<longleftrightarrow> (po_stats opt \<or> po_statsd opt) \<and> po_output opt = None \<and> \<not> po_quiet opt \<and> po_tslice opt \<le> 0"

text \<open>
  The record at which the program stops, the first one later than \<open>-T\<close>, and the records it counts: those
  in front of it that pass the filters. A record behind it is not looked at, whatever its time is.\<close>

definition ends_at :: "parser_opts \<Rightarrow> parserec \<Rightarrow> bool" where
  "ends_at opt r \<longleftrightarrow> proto_ok opt r \<and> \<not> is_stub r \<and> \<not> too_early opt r \<and> too_late opt r"

definition passes :: "parser_opts \<Rightarrow> parserec \<Rightarrow> bool" where
  "passes opt r \<longleftrightarrow> proto_ok opt r \<and> \<not> is_stub r \<and> \<not> too_early opt r \<and> nets_pass opt r \<and> dir_ok opt r"

definition counted_recs :: "parser_opts \<Rightarrow> parserec list \<Rightarrow> parserec list" where
  "counted_recs opt rs = filter (passes opt) (takeWhile (\<lambda>r. \<not> ends_at opt r) rs)"

definition by_time :: "parserec list \<Rightarrow> bool" where
  "by_time rs \<longleftrightarrow> sorted (map (\<lambda>r. sint (pr_tstamp r)) rs)"

lemma stop_in_order:
  assumes "by_time rs" "\<And>r. P r \<Longrightarrow> proto_ok opt r \<and> \<not> is_stub r \<and> \<not> too_early opt r"
  shows "filter P (takeWhile (\<lambda>r. \<not> ends_at opt r) rs) = filter (\<lambda>r. P r \<and> \<not> too_late opt r) rs"
  using assms(1)
proof (induction rs)
  case (Cons r rs)
  show ?case
  proof (cases "ends_at opt r")
    case True
    then have "\<forall>x\<in>set rs. too_late opt x" using Cons.prems by (auto simp: by_time_def ends_at_def too_late_def)
    with True show ?thesis by (auto simp: ends_at_def filter_empty_conv)
  next
    case False
    with Cons show ?thesis using assms(2)[of r] by (auto simp: by_time_def ends_at_def)
  qed
qed simp

lemma counted_in_order: "by_time rs \<Longrightarrow> counted_recs opt rs = filter (\<lambda>r. passes opt r \<and> \<not> too_late opt r) rs"
  unfolding counted_recs_def by (rule stop_in_order) (simp_all add: passes_def)

definition put_group :: "bool \<Rightarrow> ipgroup \<Rightarrow> ipgroup list \<Rightarrow> ipgroup list" where
  "put_group ports x gs = (case bump_group ports x gs of Some gs \<Rightarrow> gs | None \<Rightarrow> gs @ [x])"

definition sum_rec :: "parser_opts \<Rightarrow> parserec \<Rightarrow> parser_run \<Rightarrow> parser_run" where
  "sum_rec opt r st = st\<lparr>ps_tin := ps_tin st + in_count r, ps_tout := ps_tout st + out_count r,
     ps_groups := put_group (po_ports opt) (group_of opt r) (ps_groups st)\<rparr>"

lemma handle_blk_nf:
  assumes "sums_only opt" "no_faults w"
  shows "handle_blk opt fd r st w = Some (\<not> ends_at opt r, if passes opt r \<and> \<not> too_late opt r then sum_rec opt r st else st, w)"
  using assms
  by (auto simp: handle_blk_def handle_rec_def show_rec_def group_add_def sum_rec_def put_group_def sums_only_def ends_at_def passes_def
      sys_alloc_def next_outcome_no_faults split: option.split)

lemma blk_loop_nf:
  assumes "sums_only opt" "no_faults w"
  shows "buf_ok b \<Longrightarrow> PARSEREC_SIZE dvd length rest \<Longrightarrow> stream b rest = rs \<Longrightarrow>
    blk_loop popen opt fd [] b rest st w = Some (fold (sum_rec opt) (counted_recs opt rs) st, w)"
proof (induction rs arbitrary: b rest st)
  case Nil
  with read_blk_end[of rest b] show ?case
    by (subst blk_loop.simps) (auto simp: counted_recs_def split: prod.splits)
next
  case (Cons r rs)
  obtain b' rest' where b: "read_blk b rest = (Some r, b', rest')" "stream b' rest' = rs" "buf_ok b'" "PARSEREC_SIZE dvd length rest'"
    using read_blk_next[OF Cons.prems] by blast
  have "passes opt r \<Longrightarrow> too_late opt r \<Longrightarrow> ends_at opt r" "ends_at opt r \<Longrightarrow> too_late opt r" by (simp_all add: passes_def ends_at_def)
  then show ?case
    using Cons.IH[OF b(3,4,2)] by (subst blk_loop.simps) (auto simp: b(1) handle_blk_nf[OF assms] counted_recs_def)
qed

text \<open>The lines are a list of sums by address and ports, once for each direction.\<close>

definition group_key :: "bool \<Rightarrow> ipgroup \<Rightarrow> u32 \<times> u32 \<times> u32" where
  "group_key ports g = (ig_ip g, if ports then ig_lport g else 0, if ports then ig_rport g else 0)"

definition join_group :: "ipgroup \<Rightarrow> ipgroup \<Rightarrow> ipgroup" where
  "join_group y x = y\<lparr>ig_in := ig_in y + ig_in x, ig_out := ig_out y + ig_out x, ig_recs := ig_recs y + 1\<rparr>"

interpretation gin: keyed_sums "group_key p" join_group ig_in for p
  by unfold_locales (auto simp: group_key_def join_group_def)

interpretation gout: keyed_sums "group_key p" join_group ig_out for p
  by unfold_locales (auto simp: group_key_def join_group_def)

lemma bump_group_None: "bump_group p x ys = None \<Longrightarrow> group_key p x \<notin> group_key p ` set ys"
  by (induction ys) (auto simp: group_key_def same_group_def split: if_splits)

lemma bump_group_Some:
  "bump_group p x ys = Some zs \<Longrightarrow> \<exists>j < length ys. group_key p (ys ! j) = group_key p x \<and> zs = ys[j := join_group (ys ! j) x]"
proof (induction ys arbitrary: zs)
  case (Cons y ys)
  show ?case
  proof (cases "same_group p x y")
    case True
    with Cons.prems have "zs = join_group y x # ys" by (simp add: join_group_def)
    with True show ?thesis by (intro exI[of _ 0]) (auto simp: group_key_def same_group_def)
  next
    case False
    with Cons.prems obtain us where "bump_group p x ys = Some us" "zs = y # us" by auto
    with Cons.IH[of us] obtain j where "j < length ys" "group_key p (ys ! j) = group_key p x" "zs = y # ys[j := join_group (ys ! j) x]"
      by auto
    then show ?thesis by (intro exI[of _ "Suc j"]) simp
  qed
qed simp

lemma put_group_absorbs: "gin.absorbs_fresh p x ys (put_group p x ys)"
  using bump_group_Some[of p x ys] bump_group_None[of p x ys]
  by (auto simp: put_group_def gin.absorbs_fresh_def gin.absorbs_def split: option.split)

lemmas put_group_line = put_group_absorbs[unfolded gin.absorbs_fresh_def, THEN conjunct1]

lemma sum_recs:
  "ps_groups (fold (sum_rec opt) rs st) = fold (put_group (po_ports opt)) (map (group_of opt) rs) (ps_groups st)"
  "ps_tin (fold (sum_rec opt) rs st) = ps_tin st + sum_list (map in_count rs)"
  "ps_tout (fold (sum_rec opt) rs st) = ps_tout st + sum_list (map out_count rs)"
  "ps_out (fold (sum_rec opt) rs st) = ps_out st"
  by (induction rs arbitrary: st) (simp_all add: sum_rec_def ac_simps)

section \<open>The order of the lines\<close>

interpretation groups: exchange_store "\<lambda>gs :: ipgroup list. gs" "\<lambda>_. True" swap_groups
  by unfold_locales (simp_all add: swap_groups_def)

lemma group_sort_ends:
  fixes key :: "ipgroup \<Rightarrow> int"
  assumes "\<And>x y. func x y = (if key y < key x then 1 else 0)"
  shows "\<exists>gs'. group_sort func gs = Some gs' \<and> mset gs' = mset gs \<and> sorted (map key gs')"
proof (cases "length gs \<le> 1")
  case True
  then have "sorted (map key gs)" by (intro sorted01) simp
  with True show ?thesis by (simp add: group_sort_def)
next
  case False
  let ?cmp = "\<lambda>i gs. func (gs ! nat i) (gs ! nat (i + 1))" and ?ex = "\<lambda>i. swap_groups (nat i) (nat (i + 1))"
  have "\<exists>s'. sort_loop ?cmp ?ex (int (length gs) - 1) True 0 gs = Some (0, s') \<and> True \<and> mset s' = mset gs \<and> sorted (map key s')"
    using False by (intro groups.sort_loop_items) (simp_all add: assms)
  then show ?thesis using False by (auto simp: group_sort_def)
qed

text \<open>The larger the traffic, with \<open>-P\<close> the address, the earlier the line.\<close>

definition group_rank :: "bool \<Rightarrow> ipgroup \<Rightarrow> int" where
  "group_rank ports g = (if ports then - uint (ig_ip g) else - uint (ig_in g + ig_out g))"

lemma sort_groups_ends:
  "\<exists>gs'. sort_groups ports gs = Some gs' \<and> mset gs' = mset gs \<and> sorted (map (group_rank ports) gs')"
proof -
  have a: "\<exists>gs'. group_sort cmpgroups gs = Some gs' \<and> mset gs' = mset gs \<and> sorted (map (group_rank False) gs')" for gs
    by (rule group_sort_ends) (simp add: cmpgroups_def group_rank_def word_less_def)
  have b: "\<exists>gs'. group_sort cmpgroups_recs gs = Some gs' \<and> mset gs' = mset gs \<and> sorted (map (\<lambda>g. - ig_recs g) gs')" for gs
    by (rule group_sort_ends) (simp add: cmpgroups_recs_def)
  have c: "\<exists>gs'. group_sort cmpgroups_ip gs = Some gs' \<and> mset gs' = mset gs \<and> sorted (map (group_rank True) gs')" for gs
    by (rule group_sort_ends) (simp add: cmpgroups_ip_def group_rank_def word_less_def)
  show ?thesis
  proof (cases ports)
    case True
    obtain gs1 where "group_sort cmpgroups_recs gs = Some gs1" "mset gs1 = mset gs" using b by blast
    with c[of gs1] True show ?thesis by (auto simp: sort_groups_def)
  qed (use a[of gs] in \<open>simp add: sort_groups_def\<close>)
qed

definition group_total :: "(ipgroup \<Rightarrow> u64) \<Rightarrow> bool \<Rightarrow> u32 \<times> u32 \<times> u32 \<Rightarrow> ipgroup list \<Rightarrow> u64" where
  "group_total f p k gs = sum_list (map f (filter (\<lambda>g. group_key p g = k) gs))"

lemma totals_of_keys:
  "group_total ig_in p k gs = gin.total p k gs" "group_total ig_out p k gs = gout.total p k gs"
  by (simp_all add: group_total_def gin.total_def gout.total_def)

lemma group_total_mset: "mset gs = mset hs \<Longrightarrow> group_total f p k gs = group_total f p k hs"
proof -
  assume "mset gs = mset hs"
  then have "mset (map f (filter (\<lambda>g. group_key p g = k) gs)) = mset (map f (filter (\<lambda>g. group_key p g = k) hs))" by simp
  then show ?thesis unfolding group_total_def by (metis sum_mset_sum_list)
qed

lemma put_groups_sums:
  "group_total ig_in p k (fold (put_group p) xs []) = group_total ig_in p k xs"
  "group_total ig_out p k (fold (put_group p) xs []) = group_total ig_out p k xs"
  "distinct (map (group_key p) (fold (put_group p) xs []))"
  by (simp_all add: totals_of_keys gin.fold_total[OF put_group_line] gout.fold_total[OF put_group_line]
      gin.fold_distinct[OF put_group_absorbs])

lemma bytes_text: "bytes_of (text_of bs) = bs"
proof -
  have "unat b mod 256 = unat b" for b :: byte using unsigned_less[of b, where 'a = nat] by simp
  then show ?thesis by (simp add: bytes_of_def text_of_def comp_def map_idI)
qed

text \<open>
  C34: On a machine without faults the summary of a file of records is that of the records it counts: each address
  (with \<open>-P\<close> each address with its ports) has one line, whose sums are those of all counted records, the
  totals are the sums of all of them, and the lines are in the order of their traffic (with \<open>-P\<close> of their
  addresses). Counted are the records that pass the filters and stand in front of the first record later than
  \<open>-T\<close> (of the right protocol and no stub): there the program stops reading. So in a file in the order of
  time no byte is lost or invented, the counted records are all that pass and are not later than \<open>-T\<close>;
  in a file out of order a later record in time for the filter is left out.\<close>

theorem parser_totals:
  assumes "no_faults w" "sums_only opt" "\<not> po_unzip opt" "po_denom opt \<noteq> 0" "file \<noteq> ''-''"
    and "files w file = Some (concat (map encode_parserec rs))"
  shows "\<exists>st gs. parser_work popen dns opt [file] stdin w = Some (0, st, w) \<and>
    ps_out st = concat (map (group_text dns opt st) gs) @ totals_text opt st \<and>
    distinct (map (group_key (po_ports opt)) gs) \<and> sorted (map (group_rank (po_ports opt)) gs) \<and>
    (\<forall>k. group_total ig_in (po_ports opt) k gs = group_total ig_in (po_ports opt) k (map (group_of opt) (counted_recs opt rs)) \<and>
         group_total ig_out (po_ports opt) k gs = group_total ig_out (po_ports opt) k (map (group_of opt) (counted_recs opt rs))) \<and>
    ps_tin st = sum_list (map in_count (counted_recs opt rs)) \<and> ps_tout st = sum_list (map out_count (counted_recs opt rs)) \<and>
    counted_recs opt rs = filter (passes opt) (takeWhile (\<lambda>r. \<not> ends_at opt r) rs) \<and>
    (by_time rs \<longrightarrow> counted_recs opt rs = filter (\<lambda>r. passes opt r \<and> \<not> too_late opt r) rs)"
proof -
  let ?p = "po_ports opt" and ?rs = "counted_recs opt rs"
  let ?st = "fold (sum_rec opt) ?rs parser_start"
  have inp: "first_input popen opt [file] stdin w = (Some (Some (concat (map encode_parserec rs)), []), w)"
    using assms(1,3,5,6) by (simp add: first_input_def open_input_def sys_fopen_r_def next_outcome_no_faults bytes_text)
  have out: "out_open opt w = (Some None, w)" using assms(2) by (simp add: out_open_def sums_only_def)
  have "PARSEREC_SIZE dvd length (concat (map encode_parserec rs))"
    using length_concat_items[of "map encode_parserec rs" PARSEREC_SIZE] by simp
  then have loop: "blk_loop popen opt None [] read_buf_zero (concat (map encode_parserec rs)) parser_start w = Some (?st, w)"
    by (intro blk_loop_nf[OF assms(2,1) _ _ stream_file]) (simp_all add: buf_ok_def read_buf_zero_def)
  obtain gs where gs: "sort_groups ?p (ps_groups ?st) = Some gs" "mset gs = mset (ps_groups ?st)" "sorted (map (group_rank ?p) gs)"
    using sort_groups_ends by blast
  let ?out = "concat (map (group_text dns opt ?st) gs) @ totals_text opt ?st"
  have work: "parser_work popen dns opt [file] stdin w = Some (0, say_text ?out ?st, w)"
    using assms(2,4) gs(1) by (simp add: parser_work_def inp out loop summary_def sums_only_def)
  have "share_text (say_text t st) = share_text st" for t st by (simp add: share_text_def say_text_def fun_eq_iff)
  then have same: "group_text dns opt (say_text t st) = group_text dns opt st" "totals_text opt (say_text t st) = totals_text opt st" for t st
    by (simp_all add: group_text_def totals_text_def say_text_def fun_eq_iff Let_def)
  have g: "ps_groups ?st = fold (put_group ?p) (map (group_of opt) ?rs) []" "ps_out ?st = []"
      "ps_tin ?st = sum_list (map in_count ?rs)" "ps_tout ?st = sum_list (map out_count ?rs)"
    by (simp_all add: sum_recs parser_start_def)
  have m: "mset gs = mset (fold (put_group ?p) (map (group_of opt) ?rs) [])" using gs(2) g(1) by simp
  have "distinct (map (group_key ?p) gs)"
    using put_groups_sums(3)[of ?p "map (group_of opt) ?rs"] arg_cong[OF m, of "image_mset (group_key ?p)"]
      mset_eq_imp_distinct_iff[of "map (group_key ?p) gs"] by (metis mset_map)
  moreover have "group_total ig_in ?p k gs = group_total ig_in ?p k (map (group_of opt) ?rs) \<and>
      group_total ig_out ?p k gs = group_total ig_out ?p k (map (group_of opt) ?rs)" for k
    unfolding group_total_mset[OF m] put_groups_sums(1,2) by (intro conjI refl)
  moreover have "ps_out (say_text ?out ?st) = ?out" "ps_tin (say_text ?out ?st) = ps_tin ?st" "ps_tout (say_text ?out ?st) = ps_tout ?st"
    using g(2) by (simp_all add: say_text_def)
  ultimately show ?thesis
    using work gs(3) g(3,4) counted_in_order[of rs opt] counted_recs_def[of opt rs]
    by (intro exI[of _ "say_text ?out ?st"] exI[of _ gs]) (intro conjI impI; (elim conjE)?; simp only: same simp_thms)
qed

text \<open>A record of traffic out of a local network and one of its answer.\<close>

definition demo_recs :: "parserec list" where
  "demo_recs = [parserec_zero\<lparr>pr_src := IP 10 0 0 1, pr_dst := IP 8 8 8 8, pr_proto := 6, pr_count := 100\<rparr>,
     parserec_zero\<lparr>pr_src := IP 8 8 8 8, pr_dst := IP 10 0 0 1, pr_proto := 6, pr_count := 50\<rparr>]"

definition demo_parser :: tariffs where
  "demo_parser = demo_tariffs\<lparr>files := [''f'' \<mapsto> concat (map encode_parserec demo_recs)]\<rparr>"

lemma demo_local: "local_addr (IP 10 0 0 1)" "\<not> local_addr (IP 8 8 8 8)"
  by (simp_all add: local_addr_def itm_loclist_def IP_def)

lemma demo_passes: "counted_recs (parser_defaults\<lparr>po_stats := True\<rparr>) demo_recs = demo_recs"
  by (simp add: counted_recs_def demo_recs_def passes_def ends_at_def proto_ok_def is_stub_def too_early_def too_late_def
      nets_pass_def dir_ok_def parser_defaults_def)

theorem parser_totals_witness:
  "\<exists>st gs. parser_work (\<lambda>_. None) (\<lambda>_. None) (parser_defaults\<lparr>po_stats := True\<rparr>) [''f''] [] demo_parser = Some (0, st, demo_parser) \<and>
     ps_out st = concat (map (group_text (\<lambda>_. None) (parser_defaults\<lparr>po_stats := True\<rparr>) st) gs) @
       totals_text (parser_defaults\<lparr>po_stats := True\<rparr>) st \<and>
     distinct (map (group_key False) gs) \<and> ps_tin st = 50 \<and> ps_tout st = 100"
proof -
  let ?opt = "parser_defaults\<lparr>po_stats := True\<rparr>"
  have w: "no_faults demo_parser" "files demo_parser ''f'' = Some (concat (map encode_parserec demo_recs))"
    by (simp_all add: demo_parser_def demo_tariffs_def demo_bee_def no_faults_def dbs.defs gates.defs tariffs.defs)
  have o: "sums_only ?opt" "\<not> po_unzip ?opt" "po_denom ?opt \<noteq> 0" "po_ports ?opt = False" by (simp_all add: sums_only_def parser_defaults_def)
  have c: "sum_list (map in_count demo_recs) = 50" "sum_list (map out_count demo_recs) = 100"
    by (simp_all add: demo_recs_def in_count_def out_count_def demo_local demo_local[unfolded One_nat_def])
  from parser_totals[OF w(1) o(1-3) _ w(2), of "\<lambda>_. None" "\<lambda>_. None" "[]"] show ?thesis
    by (auto simp: demo_passes c o(4))
qed

section \<open>Saving records\<close>











end
