(* ===== verification/G3cWrite.thy ===== *)
theory G3cWrite
  imports G3c GateFile LogIndex "HOL-Library.Monad_Syntax" "HOL-Library.Sublist"
begin

text \<open>
  The writing side of the configuration files (\<open>src/src/bee/lib/bee/g3c.c\<close>, \<open>include/g3c.h\<close>): changes
  of the parsed tree through a position, the text that is made of a tree, and the file it is saved to.
  The tree the program changes in place is here the root of the position: a change of a section
  replaces it in the sections above.  What the C code leaves undefined (an array of the stack or of the line
  buffer is overrun, or a freed entry stays in the tree because memory could not be given back) is \<open>None\<close>.
  Null pointers for the position, the section and the name or value of \<open>g3c_setvalue\<close> are left out.
  The lemmas show that a position stays a path in its tree, that what is set is read back, and which
  trees survive being written and parsed again.
\<close>

section \<open>Changing the tree\<close>

text \<open>The section above holds the current one in front of the index it continues from.\<close>

definition with_child :: "g3c_section \<Rightarrow> int \<Rightarrow> g3c_section \<Rightarrow> g3c_section" where
  "with_child s i sub = Section (s_params s) ((s_sections s)[nat (i - 1) := sub]) (s_fdef s) (s_line s)"

fun put_up :: "g3c_section \<Rightarrow> (g3c_section \<times> int) list \<Rightarrow> (g3c_section \<times> int) list" where
  "put_up sub [] = []"
| "put_up sub ((s, i) # up) = (with_child s i sub, i) # put_up (with_child s i sub) up"

fun pos_root :: "g3c_section \<Rightarrow> (g3c_section \<times> int) list \<Rightarrow> g3c_section" where
  "pos_root sub [] = sub"
| "pos_root sub ((s, i) # up) = pos_root (with_child s i sub) up"

definition put_section :: "g3c_section \<Rightarrow> g3c_pos \<Rightarrow> g3c_pos" where
  "put_section sec pos = pos\<lparr>gp_section := sec, gp_up := put_up sec (gp_up pos),
     gp_config := Some (pos_root sec (gp_up pos))\<rparr>"

definition not_default :: "g3c_section \<Rightarrow> g3c_section" where
  "not_default s = Section (s_params s) (s_sections s) False (s_line s)"

fun clear_up :: "(g3c_section \<times> int) list \<Rightarrow> (g3c_section \<times> int) list" where
  "clear_up [] = []"
| "clear_up ((s, i) # up) = (if \<not> s_fdef s then (s, i) # up else (not_default s, i) # clear_up up)"

definition g3ci_rdefsect :: "g3c_pos \<Rightarrow> g3c_pos" where
  "g3ci_rdefsect pos =
     (if s_fdef (gp_section pos)
      then put_section (not_default (gp_section pos)) (pos\<lparr>gp_up := clear_up (gp_up pos)\<rparr>) else pos)"

text \<open>The index at which \<open>g3c_getparam\<close> finds a parameter.\<close>

fun param_index :: "string \<Rightarrow> g3c_param list \<Rightarrow> nat option" where
  "param_index name [] = None"
| "param_index name (p # ps) =
     (if strcaseeq (p_name p) name then Some 0 else map_option Suc (param_index name ps))"

definition g3c_mkvalcopy :: "g3c_value \<Rightarrow> 'a os_scheme \<Rightarrow> g3c_value option \<times> 'a os_scheme" where
  "g3c_mkvalcopy v w = (case sys_alloc w of (mem, w) \<Rightarrow> (if mem then Some v else None, w))"

definition with_params :: "g3c_section \<Rightarrow> g3c_param list \<Rightarrow> g3c_section" where
  "with_params s ps = Section ps (s_sections s) (s_fdef s) (s_line s)"

text \<open>The result of \<open>g3c_newparam\<close> is compared with 0 although its errors are positive.\<close>

definition g3c_setvalue :: "g3c_pos \<Rightarrow> string \<Rightarrow> g3c_value \<Rightarrow> 'a os_scheme \<Rightarrow> int \<times> g3c_pos \<times> 'a os_scheme" where
  "g3c_setvalue pos name val w = (case param_index name (s_params (gp_section pos)) of
      None \<Rightarrow> (case g3c_newparam (gp_section pos) name val (- 2) w of (rc, sec, w) \<Rightarrow>
        (if rc < 0 then - 1 else 0, put_section sec pos, w))
    | Some i \<Rightarrow>
        (let pos = pos\<lparr>gp_pindex := int i\<rparr>; ps = s_params (gp_section pos);
             val = (if value_type val \<noteq> value_type (p_value (ps ! i))
                    then g3c_castvalue val (value_type (p_value (ps ! i))) else val)
         in case g3c_mkvalcopy val w of
              (None, w) \<Rightarrow> (- 1, pos, w)
            | (Some v, w) \<Rightarrow>
                (let pos = put_section (with_params (gp_section pos)
                             (ps[i := (ps ! i)\<lparr>p_value := v, p_fdef := False\<rparr>])) pos
                 in (0, g3ci_rdefsect pos, w))))"

text \<open>\<open>da_rm\<close> on the items of an array; the last item leaves no memory to shrink.\<close>

definition rm_item :: "nat \<Rightarrow> 'b list \<Rightarrow> 'a os_scheme \<Rightarrow> 'b list option \<times> 'a os_scheme" where
  "rm_item i xs w =
     (if length xs > 1
      then (case sys_alloc w of (mem, w) \<Rightarrow> (if mem then Some (take i xs @ drop (i + 1) xs) else None, w))
      else (Some [], w))"

definition g3c_delparam :: "g3c_pos \<Rightarrow> string \<Rightarrow> 'a os_scheme \<Rightarrow> (int \<times> g3c_pos \<times> 'a os_scheme) option" where
  "g3c_delparam pos name w = (case param_index name (s_params (gp_section pos)) of
      None \<Rightarrow> Some (- 1, pos, w)
    | Some i \<Rightarrow> (case rm_item i (s_params (gp_section pos)) w of
          (None, w) \<Rightarrow> None
        | (Some ps, w) \<Rightarrow>
            Some (0, put_section (with_params (gp_section pos) ps) (pos\<lparr>gp_pindex := int i\<rparr>), w)))"

definition with_sections :: "g3c_section \<Rightarrow> g3c_section list \<Rightarrow> g3c_section" where
  "with_sections s ss = Section (s_params s) ss (s_fdef s) (s_line s)"

text \<open>
  \<open>g3c_opensect\<close>: without a name the new section is removed again (an empty one stays when that
  fails).  The stack has room for eight sections, the test admits a ninth.
\<close>

definition g3c_opensect ::
  "g3c_pos \<Rightarrow> string option \<Rightarrow> 'a os_scheme \<Rightarrow> (int \<times> g3c_pos \<times> 'a os_scheme) option" where
  "g3c_opensect pos name w =
     (if length (gp_up pos) > G3C_DEPTH then Some (- 1, pos, w)
      else (case g3c_newsect (gp_section pos) (- 2) w of
          (None, w) \<Rightarrow> Some (- 1, pos, w)
        | (Some sub, w) \<Rightarrow>
            (let opened = add_section (gp_section pos) sub
             in case (case name of None \<Rightarrow> (- 1, sub, w) | Some t \<Rightarrow> g3c_newparam sub ''type'' (VStr t) (- 2) w) of
                  (rc, sub, w) \<Rightarrow>
                    if rc < 0
                    then (case rm_item (length (s_sections opened) - 1) (s_sections opened) w of
                        (None, w) \<Rightarrow> Some (- 1, put_section opened pos, w)
                      | (Some ss, w) \<Rightarrow> Some (- 1, put_section (with_sections opened ss) pos, w))
                    else if length (gp_up pos) = G3C_DEPTH then None
                    else (let pos = g3ci_rdefsect (put_section (add_section (gp_section pos) sub) pos);
                              sec = gp_section pos
                          in Some (0, pos\<lparr>gp_up := (sec, int (length (s_sections sec))) # gp_up pos,
                                          gp_section := last (s_sections sec),
                                          gp_index := 0, gp_pindex := 0\<rparr>, w)))))"

definition g3c_delsect :: "g3c_pos \<Rightarrow> string \<Rightarrow> 'a os_scheme \<Rightarrow> (int \<times> g3c_pos \<times> 'a os_scheme) option" where
  "g3c_delsect pos name w = (case g3c_nextn name pos of None \<Rightarrow> None | Some (rc, pos) \<Rightarrow>
     if rc < 0 then Some (rc, pos, w)
     else (let pos = snd (g3c_uplevel pos); pos = pos\<lparr>gp_index := gp_index pos - 1\<rparr>
           in case rm_item (nat (gp_index pos)) (s_sections (gp_section pos)) w of
                (None, w) \<Rightarrow> None
              | (Some ss, w) \<Rightarrow> Some (0, put_section (with_sections (gp_section pos) ss) pos, w)))"

section \<open>Generating a file\<close>

text \<open>
  A line is collected in a buffer of 256 bytes and appended to the file.  \<open>snprintf\<close> tells the
  length the text would have had, so that a text which just does not fit leaves a zero byte at
  the end of the buffer and everything longer makes the code leave the buffer.
\<close>

abbreviation (input) GENBUF :: nat where "GENBUF \<equiv> 256"

record g3c_gen =
  gn_buf :: string
  gn_file :: string

definition gb_snprintf :: "string \<Rightarrow> g3c_gen \<Rightarrow> g3c_gen option" where
  "gb_snprintf s g =
     (let t = gn_buf g @ s
      in if length t < GENBUF then Some (g\<lparr>gn_buf := t\<rparr>)
         else if length t = GENBUF then Some (g\<lparr>gn_buf := take (GENBUF - 1) t @ [CHR 0x00]\<rparr>)
         else None)"

text \<open>\<open>g3c_castvalue\<close> prints a number without looking at the room.\<close>

definition gb_number :: "g3c_value \<Rightarrow> g3c_gen \<Rightarrow> g3c_gen option" where
  "gb_number v g =
     (let t = gn_buf g @ dec_int (value_int v)
      in if length t < GENBUF then Some (g\<lparr>gn_buf := t\<rparr>) else None)"

fun mark_levels :: "nat \<Rightarrow> g3c_gen \<Rightarrow> g3c_gen option" where
  "mark_levels 0 g = Some g"
| "mark_levels (Suc n) g = gb_snprintf ''   '' g \<bind> mark_levels n"

definition g3ci_gfmarklevel :: "int \<Rightarrow> g3c_gen \<Rightarrow> g3c_gen option" where
  "g3ci_gfmarklevel lev g = (if gn_buf g = [] then mark_levels (nat lev) g else Some g)"

definition g3ci_gfflush :: "g3c_gen \<Rightarrow> 'a os_scheme \<Rightarrow> (int \<times> g3c_gen \<times> 'a os_scheme) option" where
  "g3ci_gfflush g w = do {
     g \<leftarrow> gb_snprintf [CHR 0x0A] g;
     (case sys_alloc w of (mem, w) \<Rightarrow>
       if \<not> mem then Some (- 1, g, w)
       else Some (0, \<lparr>gn_buf = [], gn_file = gn_file g @ gn_buf g\<rparr>, w))}"

definition gf_param :: "int \<Rightarrow> g3c_param \<Rightarrow> g3c_gen \<Rightarrow> 'a os_scheme \<Rightarrow> (int \<times> g3c_gen \<times> 'a os_scheme) option" where
  "gf_param lev p g w =
     (if p_fdef p then Some (0, g, w)
      else do {
        g \<leftarrow> g3ci_gfmarklevel (lev + 1) g;
        g \<leftarrow> gb_snprintf (p_name p @ ''='') g;
        g \<leftarrow> (case p_value p of VStr s \<Rightarrow> gb_snprintf s g | v \<Rightarrow> gb_number v g);
        g3ci_gfflush g w})"

fun gf_params :: "int \<Rightarrow> g3c_param list \<Rightarrow> g3c_gen \<Rightarrow> 'a os_scheme \<Rightarrow> (int \<times> g3c_gen \<times> 'a os_scheme) option" where
  "gf_params lev [] g w = Some (0, g, w)"
| "gf_params lev (p # ps) g w = do {
     (rc, g, w) \<leftarrow> gf_param lev p g w;
     (if rc < 0 then Some (- 1, g, w) else gf_params lev ps g w)}"

fun g3c_gfsect :: "g3c_section \<Rightarrow> int \<Rightarrow> g3c_gen \<Rightarrow> 'a os_scheme \<Rightarrow> (int \<times> g3c_gen \<times> 'a os_scheme) option"
  and gf_sections :: "g3c_section list \<Rightarrow> int \<Rightarrow> g3c_gen \<Rightarrow> 'a os_scheme \<Rightarrow> (int \<times> g3c_gen \<times> 'a os_scheme) option" where
  "g3c_gfsect (Section ps ss fdef line) lev g w =
     (if fdef then Some (0, g, w)
      else do {
        g \<leftarrow> g3ci_gfmarklevel lev g;
        g \<leftarrow> (if lev \<ge> 0 then gb_snprintf ''{  '' g else Some g);
        (rc, g, w) \<leftarrow> gf_params lev ps g w;
        (if rc < 0 then Some (- 1, g, w)
         else do {
           (rc, g, w) \<leftarrow> gf_sections ss (lev + 1) g w;
           (if rc < 0 then Some (- 1, g, w)
            else do {
              g \<leftarrow> g3ci_gfmarklevel lev g;
              g \<leftarrow> (if lev \<ge> 0 then gb_snprintf ''}'' g else Some g);
              (rc, g, w) \<leftarrow> g3ci_gfflush g w;
              Some (if rc < 0 then - 1 else 0, g, w)})})})"
| "gf_sections [] lev g w = Some (0, g, w)"
| "gf_sections (s # ss) lev g w = do {
     (rc, g, w) \<leftarrow> g3c_gfsect s lev g w;
     (if rc < 0 then Some (- 1, g, w) else gf_sections ss lev g w)}"

definition g3c_genfile :: "g3c_section \<Rightarrow> 'a os_scheme \<Rightarrow> (int \<times> string \<times> 'a os_scheme) option" where
  "g3c_genfile cfg w = do {
     (rc, g, w) \<leftarrow> g3c_gfsect cfg (- 1) \<lparr>gn_buf = [], gn_file = []\<rparr> w;
     Some (rc, gn_file g, w)}"

section \<open>The file\<close>

record g3c_file =
  gf_len :: int
  gf_file :: "string option"
  gf_spec :: "string option"

definition g3c_file_init :: "string option \<Rightarrow> 'a os_scheme \<Rightarrow> int \<times> g3c_file \<times> 'a os_scheme" where
  "g3c_file_init filespec w = (case filespec of
      None \<Rightarrow> (0, \<lparr>gf_len = 0, gf_file = None, gf_spec = None\<rparr>, w)
    | Some f \<Rightarrow> (case strnalloc (Some f) 0 w of (spec, w) \<Rightarrow>
        (if spec = None then EX_OSERR else 0, \<lparr>gf_len = 0, gf_file = None, gf_spec = spec\<rparr>, w)))"

definition g3c_file_unload :: "g3c_file \<Rightarrow> g3c_file" where
  "g3c_file_unload file = file\<lparr>gf_file := None, gf_len := 0\<rparr>"

definition g3c_file_free :: "g3c_file \<Rightarrow> g3c_file" where
  "g3c_file_free file = (g3c_file_unload file)\<lparr>gf_spec := None\<rparr>"

text \<open>\<open>g3c_file_load\<close> on the structure: the old contents and name go first; an error after the name leaves no contents.\<close>

definition file_load :: "string option \<Rightarrow> g3c_file \<Rightarrow> 'a os_scheme \<Rightarrow> int \<times> g3c_file \<times> 'a os_scheme" where
  "file_load filespec file w =
     (if filespec = None \<and> gf_spec file = None then (- 1, file, w)
      else (let file = (if gf_file file \<noteq> None then g3c_file_unload file else file)
            in case (case filespec of None \<Rightarrow> (gf_spec file, w) | Some f \<Rightarrow> strnalloc (Some f) 0 w) of
                 (None, w) \<Rightarrow> (EX_OSERR, file\<lparr>gf_spec := None\<rparr>, w)
               | (Some spec, w) \<Rightarrow> (case g3c_file_load spec w of (rc, t, w) \<Rightarrow>
                   (rc, if rc = 0 then file\<lparr>gf_spec := Some spec, gf_file := Some t, gf_len := int (length t)\<rparr>
                        else file\<lparr>gf_spec := Some spec\<rparr>, w))))"

definition sys_open_trunc :: "string \<Rightarrow> 'a os_scheme \<Rightarrow> int \<times> 'a os_scheme" where
  "sys_open_trunc path w = (case next_outcome w of (x, w) \<Rightarrow>
     if x = Fail then (- 1, w)
     else (nextfd w,
           w\<lparr>files := (files w)(path \<mapsto> []),
             fdt := (fdt w)(nextfd w \<mapsto> \<lparr>fe_path = path, fe_pos = 0, fe_lock = LOCK_EX, fe_ro = False\<rparr>),
             nextfd := nextfd w + 1\<rparr>))"

text \<open>The loop of \<open>g3c_file_save\<close> over the bytes still to be written.\<close>

function save_loop :: "int \<Rightarrow> byte list \<Rightarrow> 'a os_scheme \<Rightarrow> bool \<times> 'a os_scheme" where
  "save_loop fd bs w =
     (let r = sys_write fd bs w; rest = drop (nat (fst r)) bs
      in if fst r < 1 then (False, snd r)
         else if rest \<noteq> [] then save_loop fd rest (snd r)
         else (True, snd r))"
  by pat_completeness auto
termination
proof (relation "measure (\<lambda>(_, bs, _). length bs)", simp)
  fix fd bs and w :: "'a os_scheme" and r and rest :: "byte list"
  assume "r = sys_write fd bs w" "rest = drop (nat (fst r)) bs" "\<not> fst r < 1" "rest \<noteq> []"
  then show "((fd, rest, snd r), fd, bs, w) \<in> measure (\<lambda>(_, bs, _). length bs)" by (cases bs) auto
qed

declare save_loop.simps [simp del]

definition g3c_file_save :: "string option \<Rightarrow> g3c_file \<Rightarrow> 'a os_scheme \<Rightarrow> int \<times> g3c_file \<times> 'a os_scheme" where
  "g3c_file_save filespec file w = (case (case filespec of None \<Rightarrow> gf_spec file | Some f \<Rightarrow> Some f) of
      None \<Rightarrow> (- 1, file, w)
    | Some spec \<Rightarrow>
        (let file = (if gf_file file = None \<or> gf_len file < 1 then file\<lparr>gf_file := None, gf_len := 0\<rparr> else file)
         in case sys_open_trunc spec w of (fd, w) \<Rightarrow>
              if fd < 0 then (EX_OSERR, file, w)
              else if gf_len file > 0
              then (case save_loop fd (take (nat (gf_len file)) (bytes_of (the (gf_file file)))) w of (ok, w) \<Rightarrow>
                let w = snd (sys_close fd w)
                in if ok then (0, file, w) else (EX_OSERR, file, sys_unlink spec w))
              else (0, file, snd (sys_close fd w))))"

section \<open>A position is a path in its tree\<close>

fun path_ok :: "g3c_section \<Rightarrow> (g3c_section \<times> int) list \<Rightarrow> bool" where
  "path_ok s [] = True"
| "path_ok s ((p, i) # up) =
     (1 \<le> i \<and> i \<le> int (length (s_sections p)) \<and> s_sections p ! nat (i - 1) = s \<and> path_ok p up)"

fun path_root :: "g3c_section \<Rightarrow> (g3c_section \<times> int) list \<Rightarrow> g3c_section" where
  "path_root s [] = s"
| "path_root s ((p, i) # up) = path_root p up"

text \<open>
  The stack leads from the current section to the root, which is the configuration, the index is
  one of the current section or just behind them, and the stack holds at most the eight entries it has room for.
\<close>

definition pos_ok :: "g3c_pos \<Rightarrow> bool" where
  "pos_ok pos \<longleftrightarrow> path_ok (gp_section pos) (gp_up pos) \<and>
     gp_config pos = Some (path_root (gp_section pos) (gp_up pos)) \<and>
     0 \<le> gp_index pos \<and> gp_index pos \<le> int (length (s_sections (gp_section pos))) \<and>
     length (gp_up pos) \<le> G3C_DEPTH"

lemma length_put_up [simp]: "length (put_up s up) = length up"
  by (induction s up rule: put_up.induct) auto

lemma length_clear_up [simp]: "length (clear_up up) = length up"
  by (induction up rule: clear_up.induct) auto

lemma with_child_simps [simp]:
  "s_params (with_child s i c) = s_params s" "s_fdef (with_child s i c) = s_fdef s"
  "s_line (with_child s i c) = s_line s" "s_sections (with_child s i c) = (s_sections s)[nat (i - 1) := c]"
  by (simp_all add: with_child_def)

lemma path_ok_put_up: "path_ok s up \<Longrightarrow> path_ok s' (put_up s' up)"
  by (induction up arbitrary: s s') auto

lemma path_root_put_up: "path_root s' (put_up s' up) = pos_root s' up"
  by (induction s' up rule: pos_root.induct) auto

lemma pos_ok_put_section:
  assumes "path_ok s (gp_up pos)" "0 \<le> gp_index pos" "gp_index pos \<le> int (length (s_sections sec))"
    and "length (gp_up pos) \<le> G3C_DEPTH"
  shows "pos_ok (put_section sec pos)"
  using path_ok_put_up[OF assms(1), of sec] assms by (simp add: pos_ok_def put_section_def path_root_put_up)

text \<open>Clearing the mark of a section above leaves it a section above.\<close>

fun same_sections :: "(g3c_section \<times> int) list \<Rightarrow> (g3c_section \<times> int) list \<Rightarrow> bool" where
  "same_sections [] [] = True"
| "same_sections ((p, i) # up) ((q, j) # up') =
     (i = j \<and> s_sections p = s_sections q \<and> same_sections up up')"
| "same_sections _ _ = False"

lemma same_sections_refl: "same_sections up up"
  by (induction up) auto

lemma clear_up_same: "same_sections up (clear_up up)"
  by (induction up rule: clear_up.induct) (auto simp: same_sections_refl not_default_def)

lemma path_ok_put_up_same: "same_sections up up' \<Longrightarrow> path_ok s up \<Longrightarrow> path_ok s' (put_up s' up')"
  by (induction up up' arbitrary: s s' rule: same_sections.induct) auto

lemma not_default_sections [simp]: "s_sections (not_default s) = s_sections s" "s_params (not_default s) = s_params s"
  by (simp_all add: not_default_def)

lemma pos_ok_rdefsect: "pos_ok pos \<Longrightarrow> pos_ok (g3ci_rdefsect pos)"
  using path_ok_put_up_same[OF clear_up_same, of "gp_section pos" "gp_up pos" "not_default (gp_section pos)"]
  by (simp add: g3ci_rdefsect_def pos_ok_def put_section_def path_root_put_up)

lemma rdefsect_simps [simp]:
  "s_params (gp_section (g3ci_rdefsect pos)) = s_params (gp_section pos)"
  "s_sections (gp_section (g3ci_rdefsect pos)) = s_sections (gp_section pos)"
  "gp_index (g3ci_rdefsect pos) = gp_index pos"
  "length (gp_up (g3ci_rdefsect pos)) = length (gp_up pos)"
  by (simp_all add: g3ci_rdefsect_def put_section_def)

lemma put_section_simps [simp]:
  "gp_section (put_section sec pos) = sec" "gp_index (put_section sec pos) = gp_index pos"
  "length (gp_up (put_section sec pos)) = length (gp_up pos)"
  by (simp_all add: put_section_def)

lemma pos_ok_next: "pos_ok pos \<Longrightarrow> g3c_next pos = Some (rc, pos') \<Longrightarrow> pos_ok pos'"
  by (auto simp: pos_ok_def g3c_next_def split: if_splits)

lemma pos_ok_uplevel: "pos_ok pos \<Longrightarrow> pos_ok (snd (g3c_uplevel pos))"
  by (auto simp: pos_ok_def g3c_uplevel_def split: list.splits)

lemma pos_ok_nextn: "pos_ok pos \<Longrightarrow> g3c_nextn name pos = Some (rc, pos') \<Longrightarrow> pos_ok pos'"
proof (induction name pos rule: g3c_nextn.induct)
  case (1 name pos)
  show ?case
  proof (cases "g3c_next pos")
    case None
    with 1(3) show ?thesis by (simp add: g3c_nextn.simps[of name pos])
  next
    case (Some r)
    then have ok: "pos_ok (snd r)" using pos_ok_next[OF 1(2), of "fst r" "snd r"] by simp
    from 1(1)[OF Some] pos_ok_uplevel[OF ok] ok Some 1(3) show ?thesis
      by (auto simp: g3c_nextn.simps[of name pos] split: if_splits)
  qed
qed

lemma pos_ok_reset: "g3c_reset pos cfg = (0, pos') \<Longrightarrow> pos_ok pos'"
  by (auto simp: g3c_reset_def pos_ok_def Let_def split: option.splits)

lemma newparam_keeps:
  "g3c_newparam sec name v line w = (rc, sec', w') \<Longrightarrow>
    s_sections sec' = s_sections sec \<and> s_fdef sec' = s_fdef sec \<and> s_line sec' = s_line sec \<and> 0 \<le> rc"
  by (auto simp: g3c_newparam_def split: prod.splits if_splits)

lemma pos_ok_put: "pos_ok pos \<Longrightarrow> gp_index pos \<le> int (length (s_sections sec)) \<Longrightarrow> pos_ok (put_section sec pos)"
  by (rule pos_ok_put_section[where s = "gp_section pos"]) (auto simp: pos_ok_def)

lemma pos_ok_index: "pos_ok pos \<Longrightarrow> 0 \<le> gp_index pos \<and> gp_index pos \<le> int (length (s_sections (gp_section pos)))"
  by (simp add: pos_ok_def)

lemma pos_ok_pindex [simp]: "pos_ok (pos\<lparr>gp_pindex := k\<rparr>) = pos_ok pos"
  by (simp add: pos_ok_def)

lemma with_params_simps [simp]:
  "s_sections (with_params s ps) = s_sections s" "s_params (with_params s ps) = ps"
  "s_sections (with_sections s ss) = ss" "s_sections (add_section s sub) = s_sections s @ [sub]"
  by (simp_all add: with_params_def with_sections_def add_section_def)

lemma pos_ok_setvalue:
  assumes "pos_ok pos" "g3c_setvalue pos name v w = (rc, pos', w')"
  shows "pos_ok pos'"
proof (cases "param_index name (s_params (gp_section pos))")
  case None
  obtain rc1 sec1 w1 where r: "g3c_newparam (gp_section pos) name v (- 2) w = (rc1, sec1, w1)" by (metis prod_cases3)
  with None assms(2) have "pos' = put_section sec1 pos" by (simp add: g3c_setvalue_def)
  with newparam_keeps[OF r] pos_ok_put[OF assms(1), of sec1] pos_ok_index[OF assms(1)] show ?thesis by simp
next
  case (Some i)
  with assms pos_ok_index[OF assms(1)] show ?thesis
    by (auto simp: g3c_setvalue_def Let_def split: prod.splits option.splits
        intro!: pos_ok_rdefsect pos_ok_put)
qed

lemma pos_ok_delparam:
  "pos_ok pos \<Longrightarrow> g3c_delparam pos name w = Some (rc, pos', w') \<Longrightarrow> pos_ok pos'"
  using pos_ok_index[of pos]
  by (auto simp: g3c_delparam_def intro!: pos_ok_put split: option.splits prod.splits)

lemma rm_item_length:
  "rm_item i xs w = (Some ys, w') \<Longrightarrow> i < length xs \<Longrightarrow> length ys = length xs - 1"
  by (auto simp: rm_item_def split: if_splits prod.splits)

lemma pos_ok_opened:
  assumes "pos_ok pos" "s_sections (gp_section pos) \<noteq> []" "length (gp_up pos) < G3C_DEPTH"
  shows "pos_ok (pos\<lparr>gp_up := (gp_section pos, int (length (s_sections (gp_section pos)))) # gp_up pos,
    gp_section := last (s_sections (gp_section pos)), gp_index := 0, gp_pindex := 0\<rparr>)"
proof -
  have "nat (int (length xs) - 1) = length xs - 1" for xs :: "g3c_section list" by simp
  with assms show ?thesis by (auto simp: pos_ok_def last_conv_nth Suc_leI)
qed

lemma pos_ok_opensect:
  assumes ok: "pos_ok pos" and r: "g3c_opensect pos name w = Some (rc, pos', w')"
  shows "pos_ok pos'"
proof -
  let ?sec = "gp_section pos"
  have put: "pos_ok (put_section sec pos)" if "length (s_sections sec) \<ge> length (s_sections ?sec)" for sec
    using pos_ok_index[OF ok] that by (intro pos_ok_put[OF ok]) simp
  have rm: "length ss = length (s_sections ?sec)"
    if "rm_item (length (s_sections ?sec)) (s_sections ?sec @ [sub]) w1 = (Some ss, w2)" for sub ss w1 and w2 :: "'a os_scheme"
    using rm_item_length[OF that] by simp
  have opened: "pos_ok (let p = g3ci_rdefsect (put_section (add_section ?sec sub) pos); s = gp_section p in
      p\<lparr>gp_up := (s, int (length (s_sections s))) # gp_up p, gp_section := last (s_sections s),
        gp_index := 0, gp_pindex := 0\<rparr>)" if "length (gp_up pos) < G3C_DEPTH" for sub
    unfolding Let_def using that by (intro pos_ok_opened) (auto intro!: pos_ok_rdefsect put)
  show ?thesis
    using r ok opened unfolding g3c_opensect_def Let_def
    by (auto split: if_splits prod.splits option.splits dest: rm intro!: put)
qed

lemma pos_ok_delsect:
  assumes ok: "pos_ok pos" and r: "g3c_delsect pos name w = Some (rc, pos', w')"
  shows "pos_ok pos'"
proof -
  obtain c p where n: "g3c_nextn name pos = Some (c, p)"
    using r by (cases "g3c_nextn name pos") (auto simp: g3c_delsect_def)
  show ?thesis
  proof (cases "c < 0")
    case True
    with n r pos_ok_nextn[OF ok n] show ?thesis by (simp add: g3c_delsect_def)
  next
    case False
    let ?secs = "s_sections (gp_section pos)"
    obtain i where i: "gp_index pos < i" "i \<le> int (length ?secs)"
      and up: "g3c_uplevel p = (0, pos\<lparr>gp_index := i, gp_pindex := 0\<rparr>)"
      using nextn_uplevel[OF n] False by auto
    have lt: "nat (i - 1) < length ?secs" using i pos_ok_index[OF ok] by linarith
    have iok: "pos_ok (pos\<lparr>gp_pindex := 0, gp_index := i - 1\<rparr>)"
      using ok i by (auto simp: pos_ok_def)
    have put: "pos_ok (put_section (with_sections (gp_section pos) ss) (pos\<lparr>gp_pindex := 0, gp_index := i - 1\<rparr>))"
      if "rm_item (nat (i - 1)) ?secs w = (Some ss, w')" for ss
      using rm_item_length[OF that lt] i pos_ok_put[OF iok, of "with_sections (gp_section pos) ss"] by simp
    from r n False up show ?thesis
      by (auto simp: g3c_delsect_def Let_def split: option.splits prod.splits intro: put)
  qed
qed

text \<open>Everything a program may do with a position; a step that writes behind the stacks (\<open>None\<close>) leads nowhere.\<close>

inductive edits :: "g3c_pos \<times> 'a os_scheme \<Rightarrow> g3c_pos \<times> 'a os_scheme \<Rightarrow> bool" where
  none: "edits c c"
| reset: "edits c (pos, w) \<Longrightarrow> g3c_reset pos cfg = (0, pos') \<Longrightarrow> edits c (pos', w)"
| first: "edits c (pos, w) \<Longrightarrow> edits c (g3c_first pos, w)"
| firstparam: "edits c (pos, w) \<Longrightarrow> edits c (g3c_firstparam pos, w)"
| next_sect: "edits c (pos, w) \<Longrightarrow> g3c_next pos = Some (rc, pos') \<Longrightarrow> edits c (pos', w)"
| nextn: "edits c (pos, w) \<Longrightarrow> g3c_nextn name pos = Some (rc, pos') \<Longrightarrow> edits c (pos', w)"
| uplevel: "edits c (pos, w) \<Longrightarrow> edits c (snd (g3c_uplevel pos), w)"
| setvalue: "edits c (pos, w) \<Longrightarrow> g3c_setvalue pos name v w = (rc, pos', w') \<Longrightarrow> edits c (pos', w')"
| delparam: "edits c (pos, w) \<Longrightarrow> g3c_delparam pos name w = Some (rc, pos', w') \<Longrightarrow> edits c (pos', w')"
| opensect: "edits c (pos, w) \<Longrightarrow> g3c_opensect pos typ w = Some (rc, pos', w') \<Longrightarrow> edits c (pos', w')"
| delsect: "edits c (pos, w) \<Longrightarrow> g3c_delsect pos name w = Some (rc, pos', w') \<Longrightarrow> edits c (pos', w')"

lemma edits_pos_ok: "edits c c' \<Longrightarrow> pos_ok (fst c) \<Longrightarrow> pos_ok (fst c')"
proof (induction rule: edits.induct)
  case (first c pos w)
  then show ?case by (auto simp: g3c_first_def pos_ok_def)
qed (auto simp: g3c_firstparam_def intro: pos_ok_reset pos_ok_next pos_ok_nextn pos_ok_uplevel pos_ok_setvalue
    pos_ok_delparam pos_ok_opensect pos_ok_delsect)

lemma opensect_room: "length (gp_up pos) < G3C_DEPTH \<Longrightarrow> g3c_opensect pos typ w \<noteq> None"
  by (auto simp: g3c_opensect_def Let_def split: option.splits prod.splits)

section \<open>What is set is read back\<close>

lemma param_index_find:
  "find (\<lambda>p. strcaseeq (p_name p) name) ps = map_option ((!) ps) (param_index name ps)"
  by (induction ps) (auto simp: option.map_comp o_def split: option.splits)

lemma section_param_index: "section_param s name = map_option ((!) (s_params s)) (param_index name (s_params s))"
  by (simp add: section_param_def param_index_find)

lemma param_index_bound: "param_index name ps = Some i \<Longrightarrow> i < length ps \<and> strcaseeq (p_name (ps ! i)) name"
  by (induction ps arbitrary: i) (auto split: if_splits)

lemma param_index_update:
  "p_name p = p_name (ps ! i) \<Longrightarrow> param_index name (ps[i := p]) = param_index name ps"
  by (induction ps arbitrary: i) (auto split: nat.splits)

lemma param_index_append:
  "param_index name (ps @ [p]) = (case param_index name ps of
     None \<Rightarrow> if strcaseeq (p_name p) name then Some (length ps) else None | Some i \<Rightarrow> Some i)"
  by (induction ps) (auto split: option.splits)

lemma strcaseeq_iff: "strcaseeq a b \<longleftrightarrow> map tolower a = map tolower b"
  by (simp add: strcaseeq_def)

lemma getvalue_index:
  "g3c_getvalue pos name t = (case param_index name (s_params (gp_section pos)) of
      None \<Rightarrow> None
    | Some i \<Rightarrow> let v = p_value (s_params (gp_section pos) ! i)
        in Some (if value_type v = t then v else g3c_castvalue v t))"
  by (simp add: g3c_getvalue_def section_param_index Let_def split: option.splits)

lemma castvalue_type: "value_type (g3c_castvalue v t) = t"
  by (cases t) (simp_all add: g3c_castvalue_def value_type_def)

text \<open>The type a value is stored with.\<close>

definition stored_type :: "g3c_pos \<Rightarrow> string \<Rightarrow> g3c_value \<Rightarrow> g3c_type" where
  "stored_type pos name val = (case g3c_getparam pos name of
      None \<Rightarrow> value_type val | Some p \<Rightarrow> value_type (p_value p))"

definition stored :: "g3c_pos \<Rightarrow> string \<Rightarrow> g3c_value \<Rightarrow> g3c_value" where
  "stored pos name val = (if value_type val = stored_type pos name val then val
     else g3c_castvalue val (stored_type pos name val))"

lemma setvalue_no_fault:
  assumes "no_faults w" "g3c_setvalue pos name val w = (rc, pos', w')"
  shows "rc = 0 \<and> w' = w \<and> s_params (gp_section pos') =
    (case param_index name (s_params (gp_section pos)) of
       None \<Rightarrow> s_params (gp_section pos) @ [\<lparr>p_name = name, p_value = val, p_fdef = False, p_line = - 2\<rparr>]
     | Some i \<Rightarrow> (s_params (gp_section pos))
         [i := (s_params (gp_section pos) ! i)\<lparr>p_value := stored pos name val, p_fdef := False\<rparr>])"
  using assms
  by (auto simp: g3c_setvalue_def g3c_newparam_def g3c_mkvalcopy_def sys_alloc_def next_outcome_no_faults Let_def
      stored_def stored_type_def g3c_getparam_def section_param_index split: option.splits)

lemma setvalue_getvalue:
  assumes "no_faults w" "g3c_setvalue pos name val w = (rc, pos', w')"
  shows "rc = 0"
    "g3c_getvalue pos' name (stored_type pos name val) = Some (stored pos name val)"
    "\<not> strcaseeq name n \<Longrightarrow> g3c_getvalue pos' n t = g3c_getvalue pos n t"
proof -
  note r = setvalue_no_fault[OF assms]
  let ?ps = "s_params (gp_section pos)" and ?v = "stored pos name val"
  show "rc = 0" using r by simp
  have sv: "value_type ?v = stored_type pos name val" by (simp add: stored_def castvalue_type)
  show "g3c_getvalue pos' name (stored_type pos name val) = Some ?v"
  proof (cases "param_index name ?ps")
    case None
    with r sv show ?thesis
      by (simp add: getvalue_index param_index_append strcaseeq_iff Let_def stored_def stored_type_def
          g3c_getparam_def section_param_index)
  next
    case (Some i)
    with r param_index_bound[OF Some] sv show ?thesis
      by (simp add: getvalue_index param_index_update Let_def)
  qed
  assume n: "\<not> strcaseeq name n"
  show "g3c_getvalue pos' n t = g3c_getvalue pos n t"
  proof (cases "param_index name ?ps")
    case None
    with r n show ?thesis
      by (auto simp: getvalue_index param_index_append nth_append Let_def split: option.splits
          dest: param_index_bound)
  next
    case (Some i)
    have "j \<noteq> i" if "param_index n ?ps = Some j" for j
      using param_index_bound[OF Some] param_index_bound[OF that] n by (auto simp: strcaseeq_iff)
    moreover have "s_params (gp_section pos') = ?ps[i := (?ps ! i)\<lparr>p_value := ?v, p_fdef := False\<rparr>]"
      using r Some by simp
    ultimately show ?thesis
      by (cases "param_index n ?ps") (simp_all add: getvalue_index param_index_update)
  qed
qed

text \<open>The code takes the positive error of \<open>g3c_newparam\<close> for success.\<close>

lemma setvalue_hides_failure:
  assumes "param_index name (s_params (gp_section pos)) = None" "script w = Fail # xs"
  shows "fst (g3c_setvalue pos name val w) = 0"
    "gp_section (fst (snd (g3c_setvalue pos name val w))) = gp_section pos"
  using assms by (simp_all add: g3c_setvalue_def g3c_newparam_def sys_alloc_def next_outcome_def)

text \<open>
  A parameter that is new in a section added by default leaves the mark of the section, and so the
  generated file does not have it.
\<close>

lemma new_param_of_default_lost:
  assumes "param_index name (s_params (gp_section pos)) = None" "s_fdef (gp_section pos)"
    "g3c_setvalue pos name val w = (rc, pos', w')"
  shows "g3c_gfsect (gp_section pos') lev g w'' = Some (0, g, w'')"
proof -
  obtain rc1 sec1 w1 where r: "g3c_newparam (gp_section pos) name val (- 2) w = (rc1, sec1, w1)" by (metis prod_cases3)
  with assms(1,3) have "gp_section pos' = sec1" by (auto simp: g3c_setvalue_def)
  with newparam_keeps[OF r] assms(2) show ?thesis by (cases sec1) simp
qed

section \<open>What is saved is loaded\<close>

lemma write_at_end:
  assumes "sys_write fd data w = (rc, w')" "\<not> rc < 1" "fdt w fd = Some e" "files w (fe_path e) = Some old"
    "fe_pos e = int (length old)"
  shows "nat rc \<le> length data"
    "fdt w' fd = Some (e\<lparr>fe_pos := int (length (old @ take (nat rc) data))\<rparr>)"
    "files w' (fe_path e) = Some (old @ take (nat rc) data)"
  using assms
  by (auto simp: sys_write_def Let_def fd_data_def set_pos_def set_data_def overwrite_def next_outcome_def min_def
      split: outcome.splits list.splits if_splits)

lemma save_loop_writes:
  assumes "save_loop fd bs w = (True, w')" "fdt w fd = Some e" "files w (fe_path e) = Some old"
    "fe_pos e = int (length old)"
  shows "files w' (fe_path e) = Some (old @ bs)"
  using assms
proof (induction fd bs w arbitrary: e old rule: save_loop.induct)
  case (1 fd bs w)
  obtain rc w1 where r: "sys_write fd bs w = (rc, w1)" by fastforce
  from 1(2) r have ok: "\<not> rc < 1" by (subst (asm) save_loop.simps) (auto simp: Let_def split: if_splits)
  note w = write_at_end[OF r ok 1(3-5)]
  show ?case
  proof (cases "drop (nat rc) bs = []")
    case True
    with 1(2) r ok have "w1 = w'" by (subst (asm) save_loop.simps) (auto simp: Let_def)
    with True w show ?thesis by simp
  next
    case False
    with 1(2) r ok have "save_loop fd (drop (nat rc) bs) w1 = (True, w')"
      by (subst (asm) save_loop.simps) (auto simp: Let_def)
    with 1(1)[of "(rc, w1)" "drop (nat rc) bs" "e\<lparr>fe_pos := int (length (old @ take (nat rc) bs))\<rparr>"
        "old @ take (nat rc) bs"] r ok False w(2,3)
    show ?thesis by simp
  qed
qed

lemma read_next:
  assumes "sys_read fd n w = (rc, got, w')" "\<not> rc < 1" "fdt w fd = Some e" "files w (fe_path e) = Some bs"
    "fe_pos e = int p"
  shows "got = take (length got) (drop p bs)" "files w' = files w"
    "fdt w' fd = Some (e\<lparr>fe_pos := int (p + length got)\<rparr>)"
  using assms
  by (auto simp: sys_read_def Let_def fd_data_def set_pos_def next_outcome_def min_def
      split: outcome.splits list.splits if_splits)

lemma load_loop_reads:
  assumes "load_loop fd (length bs) got w = (Some r, w')" "fdt w fd = Some e" "files w (fe_path e) = Some bs"
    "fe_pos e = int (length got)" "got = take (length got) bs"
  shows "r = bs"
  using assms
proof (induction fd "length bs" got w arbitrary: e rule: load_loop.induct)
  case (1 fd got w)
  obtain rc more w1 where r: "sys_read fd (length bs - length got) w = (rc, more, w1)" by (metis prod_cases3)
  from 1(2) r have ok: "\<not> rc < 1" by (subst (asm) load_loop.simps) (auto simp: Let_def split: if_splits)
  note rd = read_next[OF r ok 1(3-5)]
  have got: "got @ more = take (length (got @ more)) bs"
    using 1(6) rd(1) by (simp add: take_add)
  show ?case
  proof (cases "length (got @ more) < length bs")
    case True
    with 1(2) r ok have l: "load_loop fd (length bs) (got @ more) w1 = (Some r, w')"
      by (subst (asm) load_loop.simps) (auto simp: Let_def)
    show ?thesis
      using 1(1)[of "(rc, more, w1)" "got @ more" "e\<lparr>fe_pos := int (length got + length more)\<rparr>"] l r ok rd True 1(4) got
      by simp
  next
    case False
    with 1(2) r ok have "r = got @ more" by (subst (asm) load_loop.simps) (auto simp: Let_def)
    with got False show ?thesis by simp
  qed
qed

lemma file_load_reads:
  assumes "g3c_file_load path w = (0, t, w')"
  obtains bs where "files w path = Some bs" "t = text_of bs"
proof -
  obtain fd w1 where o: "sys_open path True w = (fd, w1)" by fastforce
  with assms have fd: "fd \<noteq> - 1" by (auto simp: g3c_file_load_def)
  with o obtain bs e where bs: "files w path = Some bs" "fdt w1 fd = Some e" "fe_path e = path" "fe_pos e = 0"
    "files w1 = files w"
    by (auto simp: sys_open_def next_outcome_def split: list.splits if_splits)
  let ?w2 = "set_lock fd LOCK_EX w1"
  have e2: "fdt ?w2 fd = Some (e\<lparr>fe_lock := LOCK_EX\<rparr>)" "files ?w2 = files w1" using bs by (simp_all add: set_lock_def)
  obtain ln w3 where st: "sys_fstat fd ?w2 = (ln, w3)" by fastforce
  with assms o fd obtain n where n: "ln = Some n" by (cases ln) (auto simp: g3c_file_load_def)
  with st e2 bs have n': "n = int (length bs)" and w3: "fdt w3 = fdt ?w2" "files w3 = files ?w2"
    by (auto simp: sys_fstat_def fd_data_def next_outcome_def split: list.splits if_splits)
  obtain mem w4 where al: "sys_alloc w3 = (mem, w4)" by fastforce
  with w3 have w4: "fdt w4 = fdt ?w2" "files w4 = files ?w2"
    by (auto simp: sys_alloc_def next_outcome_def split: list.splits)
  from assms o fd st n al have mem: mem by (auto simp: g3c_file_load_def split: if_splits)
  obtain res w5 where ll: "load_loop fd (nat n) [] w4 = (res, w5)" by fastforce
  with assms o fd st n al mem obtain r where r: "res = Some r" "t = text_of r"
    by (auto simp: g3c_file_load_def split: option.splits)
  have "r = bs"
    using load_loop_reads[of fd bs "[]" w4 r w5 "e\<lparr>fe_lock := LOCK_EX\<rparr>"] ll r n' w4 e2 bs by simp
  with bs r that show ?thesis by blast
qed

lemma load_no_fault:
  assumes "no_faults w" "files w path = Some bs" "bs \<noteq> []" "0 \<le> nextfd w"
  shows "\<exists>w'. g3c_file_load path w = (0, text_of bs, w') \<and> no_faults w'"
proof -
  have l: "\<exists>w''. load_loop fd (length bs) [] w' = (Some bs, w'') \<and> no_faults w''"
    if "no_faults w'" "fdt w' fd = Some e" "fe_pos e = 0" "files w' (fe_path e) = Some bs" for fd e and w' :: "'a os_scheme"
    using that assms(3)
    by (subst load_loop.simps) (auto simp: sys_read_def next_outcome_no_faults fd_data_def Let_def set_pos_def no_faults_def Suc_le_eq)
  define w1 where "w1 = set_lock (nextfd w) LOCK_EX (snd (sys_open path True w))"
  have w1: "no_faults w1" "fdt w1 (nextfd w) = Some \<lparr>fe_path = path, fe_pos = 0, fe_lock = LOCK_EX, fe_ro = True\<rparr>"
    "files w1 path = Some bs"
    using assms by (simp_all add: w1_def sys_open_def next_outcome_no_faults set_lock_def no_faults_def)
  obtain w2 where "load_loop (nextfd w) (length bs) [] w1 = (Some bs, w2)" "no_faults w2" using l[OF w1(1,2)] w1(3) by auto
  moreover have "sys_open path True w = (nextfd w, snd (sys_open path True w))"
    using assms by (simp add: sys_open_def next_outcome_no_faults)
  moreover have "sys_fstat (nextfd w) w1 = (Some (int (length bs)), w1)" "sys_alloc w1 = (True, w1)"
    using w1 by (simp_all add: sys_fstat_def sys_alloc_def next_outcome_no_faults fd_data_def)
  moreover have "no_faults (snd (sys_close (nextfd w) w2))"
    using \<open>no_faults w2\<close> by (simp add: sys_close_def no_faults_def split: option.splits)
  ultimately show ?thesis
    using assms(4) by (auto simp: g3c_file_load_def w1_def split: prod.splits)
qed

lemma file_save_writes:
  assumes "g3c_file_save (Some path) \<lparr>gf_len = int (length t), gf_file = Some t, gf_spec = spec\<rparr> w = (0, f, w')"
    "t \<noteq> []"
  shows "files w' path = Some (bytes_of t)"
proof -
  obtain fd w1 where o: "sys_open_trunc path w = (fd, w1)" by fastforce
  with assms have fd: "\<not> fd < 0" by (auto simp: g3c_file_save_def Let_def split: if_splits)
  with o have e: "fdt w1 fd = Some \<lparr>fe_path = path, fe_pos = 0, fe_lock = LOCK_EX, fe_ro = False\<rparr>" "files w1 path = Some []"
    by (auto simp: sys_open_trunc_def split: prod.splits if_splits)
  obtain ok w2 where s: "save_loop fd (bytes_of t) w1 = (ok, w2)" by fastforce
  have len: "take (length t) (bytes_of t) = bytes_of t" by (simp add: bytes_of_def)
  from assms o fd s len have ok: ok and w': "w' = snd (sys_close fd w2)"
    by (auto simp: g3c_file_save_def Let_def Suc_leI split: if_splits)
  have "files w2 path = Some (bytes_of t)" using save_loop_writes[OF s[unfolded eqTrueI[OF ok]] e(1)] e(2) by simp
  with w' show ?thesis by (simp add: sys_close_def split: option.splits)
qed

lemma save_no_fault:
  assumes "no_faults w" "t \<noteq> []" "0 \<le> nextfd w"
  shows "\<exists>w'. g3c_file_save (Some path) \<lparr>gf_len = int (length t), gf_file = Some t, gf_spec = spec\<rparr> w =
    (0, \<lparr>gf_len = int (length t), gf_file = Some t, gf_spec = spec\<rparr>, w') \<and> no_faults w' \<and> nextfd w' = nextfd w + 1"
proof -
  define w1 where "w1 = snd (sys_open_trunc path w)"
  have w1: "no_faults w1" "fdt w1 (nextfd w) = Some \<lparr>fe_path = path, fe_pos = 0, fe_lock = LOCK_EX, fe_ro = False\<rparr>"
    "files w1 path = Some []" "nextfd w1 = nextfd w + 1" "sys_open_trunc path w = (nextfd w, w1)"
    using assms by (simp_all add: w1_def sys_open_trunc_def next_outcome_no_faults no_faults_def)
  have len: "length (bytes_of t) = length t" by (simp add: bytes_of_def)
  have "\<exists>w2. save_loop (nextfd w) (bytes_of t) w1 = (True, w2) \<and> no_faults w2 \<and> nextfd w2 = nextfd w + 1"
    using w1 assms(2) len
    by (subst save_loop.simps)
       (auto simp: sys_write_def next_outcome_no_faults fd_data_def Let_def set_pos_def set_data_def no_faults_def Suc_le_eq)
  then obtain w2 where "save_loop (nextfd w) (bytes_of t) w1 = (True, w2)" "no_faults w2" "nextfd w2 = nextfd w + 1" by blast
  then show ?thesis
    using w1(5) assms(2,3) len
    by (auto simp: g3c_file_save_def Let_def sys_close_def no_faults_def Suc_le_eq split: option.splits)
qed

section \<open>Reading back a generated text\<close>

text \<open>Texts that the parser takes as they are: it drops blanks at the ends and gives these characters a meaning.\<close>

definition plain_char :: "char \<Rightarrow> bool" where
  "plain_char c \<longleftrightarrow> c \<notin> {CHR 0x09, CHR 0x22, CHR ''='', CHR 0x0A, CHR 0x0D, CHR ''{'', CHR ''}'', CHR ''#'', CHR 0x5C, CHR 0x00}"

definition plain_text :: "nat \<Rightarrow> string \<Rightarrow> bool" where
  "plain_text n t \<longleftrightarrow> t \<noteq> [] \<and> length t \<le> n \<and> hd t \<noteq> CHR '' '' \<and> last t \<noteq> CHR '' '' \<and> (\<forall>c\<in>set t. plain_char c)"

definition param_text :: "g3c_param \<Rightarrow> string" where
  "param_text p = (case p_value p of VStr s \<Rightarrow> s | v \<Rightarrow> dec_int (value_int v))"

definition plain_param :: "g3c_param \<Rightarrow> bool" where
  "plain_param p \<longleftrightarrow> plain_text NAME_LEN (p_name p) \<and> plain_text VALUE_LEN (param_text p)"

definition param_line :: "g3c_param \<Rightarrow> string" where
  "param_line p = p_name p @ ''='' @ param_text p @ [CHR 0x0A]"

definition saved_params :: "g3c_section \<Rightarrow> g3c_param list" where
  "saved_params s = filter (\<lambda>p. \<not> p_fdef p) (s_params s)"

definition in_plain :: "g3c_scan \<Rightarrow> bool" where
  "in_plain q \<longleftrightarrow> \<not> q_comment q \<and> \<not> q_mlcomment q \<and> \<not> q_escape q \<and> \<not> q_quotes q"

text \<open>The parser between two parameters.\<close>

definition between :: "g3c_scan \<Rightarrow> bool" where
  "between q \<longleftrightarrow> in_plain q \<and> q_pname q = [] \<and> q_ptok q = [] \<and> q_splen q = 0 \<and> q_tlim q = NAME_LEN"

lemma in_plain_update [simp]:
  "in_plain (q\<lparr>q_ptok := t\<rparr>) = in_plain q" "in_plain (q\<lparr>q_splen := n\<rparr>) = in_plain q"
  "in_plain (q\<lparr>q_pname := t\<rparr>) = in_plain q" "in_plain (q\<lparr>q_tlim := n\<rparr>) = in_plain q"
  "in_plain (q\<lparr>q_line := l\<rparr>) = in_plain q" "in_plain (q\<lparr>q_sec := s\<rparr>) = in_plain q"
  "in_plain (q\<lparr>q_up := u\<rparr>) = in_plain q"
  by (simp_all add: in_plain_def)

lemma char_plain: "in_plain q \<Longrightarrow> plain_char c \<Longrightarrow> c \<noteq> CHR '' '' \<Longrightarrow> g3c_char rul c nxt q w = (0, add_char c q, w)"
  by (simp add: g3c_char_def g3c_plain_def in_plain_def plain_char_def Let_def)

lemma char_blank:
  "in_plain q \<Longrightarrow> g3c_char rul (CHR '' '') nxt q w =
     (0, if q_ptok q \<noteq> [] \<and> length (q_ptok q) + q_splen q < q_tlim q then q\<lparr>q_splen := q_splen q + 1\<rparr> else q, w)"
  by (simp add: g3c_char_def g3c_plain_def in_plain_def Let_def)

lemma loop_token:
  assumes "in_plain q" "q_ptok q = [] \<longrightarrow> q_splen q = 0 \<and> (t = [] \<or> hd t \<noteq> CHR '' '')"
    "length (q_ptok q) + q_splen q + length t \<le> q_tlim q" "\<forall>c\<in>set t. plain_char c"
  shows "\<exists>tok n. g3c_loop rul (t @ rest) q w = g3c_loop rul rest (q\<lparr>q_ptok := tok, q_splen := n\<rparr>) w \<and>
    tok @ replicate n (CHR '' '') = q_ptok q @ replicate (q_splen q) (CHR '' '') @ t"
  using assms
proof (induction t arbitrary: q)
  case Nil
  show ?case by (intro exI[of _ "q_ptok q"] exI[of _ "q_splen q"]) simp
next
  case (Cons c t)
  let ?b = "CHR '' ''"
  show ?case
  proof (cases "c = ?b")
    case True
    let ?q = "q\<lparr>q_splen := q_splen q + 1\<rparr>"
    from True Cons.prems have "g3c_loop rul ((c # t) @ rest) q w = g3c_loop rul (t @ rest) ?q w"
      by (auto simp: char_blank)
    moreover obtain tok n where "g3c_loop rul (t @ rest) ?q w = g3c_loop rul rest (?q\<lparr>q_ptok := tok, q_splen := n\<rparr>) w"
      "tok @ replicate n ?b = q_ptok q @ replicate (q_splen q + 1) ?b @ t"
      using Cons.IH[of ?q] Cons.prems True by auto
    moreover have "replicate (q_splen q + 1) ?b @ t = replicate (q_splen q) ?b @ c # t"
      using True by (simp add: replicate_app_Cons_same)
    ultimately show ?thesis by (intro exI[of _ tok] exI[of _ n]) simp
  next
    case False
    let ?q = "q\<lparr>q_ptok := q_ptok q @ replicate (q_splen q) ?b @ [c], q_splen := 0\<rparr>"
    from False Cons.prems have "g3c_loop rul ((c # t) @ rest) q w = g3c_loop rul (t @ rest) ?q w"
      by (simp add: char_plain add_char_def)
    moreover obtain tok n where "g3c_loop rul (t @ rest) ?q w = g3c_loop rul rest (?q\<lparr>q_ptok := tok, q_splen := n\<rparr>) w"
      "tok @ replicate n ?b = (q_ptok q @ replicate (q_splen q) ?b @ [c]) @ t"
      using Cons.IH[of ?q] Cons.prems by auto
    ultimately show ?thesis by (intro exI[of _ tok] exI[of _ n]) simp
  qed
qed

lemma loop_plain_text:
  assumes "in_plain q" "q_ptok q = []" "q_splen q = 0" "plain_text n t" "n \<le> q_tlim q"
  shows "g3c_loop rul (t @ rest) q w = g3c_loop rul rest (q\<lparr>q_ptok := t\<rparr>) w"
proof -
  obtain tok n where l: "g3c_loop rul (t @ rest) q w = g3c_loop rul rest (q\<lparr>q_ptok := tok, q_splen := n\<rparr>) w"
    and t: "tok @ replicate n (CHR '' '') = t"
    using loop_token[of q t rul rest w] assms by (auto simp: plain_text_def)
  have "n = 0"
  proof (cases n)
    case (Suc m)
    then have "last t = CHR '' ''" using t by (auto simp: last_append)
    with assms(4) show ?thesis by (simp add: plain_text_def)
  qed simp
  moreover have "q\<lparr>q_ptok := t, q_splen := 0\<rparr> = q\<lparr>q_ptok := t\<rparr>" using assms(3) by (cases q) simp
  ultimately show ?thesis using l t by simp
qed

lemma plain_c_str: "plain_text n t \<Longrightarrow> c_str t = t"
  by (auto simp: plain_text_def c_str_def plain_char_def takeWhile_eq_all_conv)

lemma newparam_no_fault:
  "no_faults w \<Longrightarrow> g3c_newparam sec name v line w =
    (0, with_params sec (s_params sec @ [\<lparr>p_name = name, p_value = v, p_fdef = (line = - 1), p_line = line\<rparr>]), w)"
  by (simp add: g3c_newparam_def sys_alloc_def next_outcome_no_faults with_params_def)

definition read_param :: "int \<Rightarrow> g3c_param \<Rightarrow> g3c_param" where
  "read_param line p = \<lparr>p_name = p_name p, p_value = VStr (param_text p), p_fdef = (line = - 1), p_line = line\<rparr>"

lemma char_equals:
  "in_plain q \<Longrightarrow> q_pname q = [] \<Longrightarrow> q_ptok q \<noteq> [] \<Longrightarrow> g3c_char rul (CHR ''='') nxt q w =
    (0, q\<lparr>q_pname := q_ptok q, q_ptok := [], q_splen := 0, q_tlim := VALUE_LEN\<rparr>, w)"
  by (simp add: g3c_char_def g3c_plain_def in_plain_def pname_set_def c_str_def Let_def)

lemma char_newline:
  "in_plain q \<Longrightarrow> no_faults w \<Longrightarrow> c_str (q_pname q) \<noteq> [] \<Longrightarrow> q_ptok q \<noteq> [] \<Longrightarrow> g3c_char rul (CHR 0x0A) nxt q w =
    (0, q\<lparr>q_line := q_line q + 1,
          q_sec := with_params (q_sec q) (s_params (q_sec q) @
            [\<lparr>p_name = c_str (q_pname q), p_value = VStr (c_str (q_ptok q)), p_fdef = (q_line q + 1 = - 1), p_line = q_line q + 1\<rparr>]),
          q_pname := [], q_ptok := [], q_splen := 0, q_tlim := NAME_LEN\<rparr>, w)"
  by (simp add: g3c_char_def g3c_plain_def in_plain_def pname_set_def Let_def end_param_def newparam_no_fault)

lemma between_restore:
  "between q \<Longrightarrow> q\<lparr>q_line := l, q_sec := s, q_pname := [], q_ptok := [], q_splen := 0, q_tlim := NAME_LEN\<rparr> =
     q\<lparr>q_line := l, q_sec := s\<rparr>"
  by (cases q) (simp add: between_def)

lemma loop_param:
  assumes "between q" "no_faults w" "plain_param p"
  shows "g3c_loop rul (param_line p @ rest) q w =
    g3c_loop rul rest (q\<lparr>q_line := q_line q + 1,
      q_sec := with_params (q_sec q) (s_params (q_sec q) @ [read_param (q_line q + 1) p])\<rparr>) w"
proof -
  from assms have n: "plain_text NAME_LEN (p_name p)" and v: "plain_text VALUE_LEN (param_text p)"
    by (simp_all add: plain_param_def)
  have ne: "p_name p \<noteq> []" "param_text p \<noteq> []" using n v by (simp_all add: plain_text_def)
  let ?q = "q\<lparr>q_pname := p_name p, q_ptok := [], q_splen := 0, q_tlim := VALUE_LEN\<rparr>"
  have "g3c_loop rul (param_line p @ rest) q w = g3c_loop rul (''='' @ param_text p @ [CHR 0x0A] @ rest) (q\<lparr>q_ptok := p_name p\<rparr>) w"
    using loop_plain_text[of q "NAME_LEN" "p_name p" rul "''='' @ param_text p @ [CHR 0x0A] @ rest" w] assms(1) n
    by (simp add: param_line_def between_def)
  also have "\<dots> = g3c_loop rul (param_text p @ [CHR 0x0A] @ rest) ?q w"
    using assms(1) ne by (simp add: char_equals between_def)
  also have "\<dots> = g3c_loop rul ([CHR 0x0A] @ rest) (?q\<lparr>q_ptok := param_text p\<rparr>) w"
    using assms(1) v loop_plain_text[where n = VALUE_LEN and q = ?q] by (simp add: between_def del: g3c_loop.simps)
  also have "\<dots> = g3c_loop rul rest (q\<lparr>q_line := q_line q + 1,
      q_sec := with_params (q_sec q) (s_params (q_sec q) @ [read_param (q_line q + 1) p])\<rparr>) w"
    using assms(1,2) ne plain_c_str[OF n] plain_c_str[OF v]
    by (simp add: char_newline between_def read_param_def between_restore[OF assms(1)])
  finally show ?thesis .
qed

fun read_params :: "int \<Rightarrow> g3c_param list \<Rightarrow> g3c_param list" where
  "read_params line [] = []"
| "read_params line (p # ps) = read_param (line + 1) p # read_params (line + 1) ps"

lemma with_params_twice [simp]: "with_params (with_params s ps) ps' = with_params s ps'" "with_params s (s_params s) = s"
  by (simp_all add: with_params_def)

lemma loop_params:
  assumes "between q" "no_faults w" "\<forall>p\<in>set ps. plain_param p"
  shows "g3c_loop rul (concat (map param_line ps) @ rest) q w =
    g3c_loop rul rest (q\<lparr>q_line := q_line q + int (length ps),
      q_sec := with_params (q_sec q) (s_params (q_sec q) @ read_params (q_line q) ps)\<rparr>) w"
  using assms
proof (induction ps arbitrary: q)
  case (Cons p ps)
  let ?q = "q\<lparr>q_line := q_line q + 1,
      q_sec := with_params (q_sec q) (s_params (q_sec q) @ [read_param (q_line q + 1) p])\<rparr>"
  have "between ?q" using Cons.prems(1) by (simp add: between_def)
  from Cons.IH[OF this] Cons.prems loop_param[of q w p rul "concat (map param_line ps) @ rest"]
  show ?case by (simp add: add.commute add.left_commute)
qed simp

section \<open>The text that is generated\<close>

lemma gb_snprintf_short:
  "length (gn_buf g @ s) < GENBUF \<Longrightarrow> gb_snprintf s g = Some (g\<lparr>gn_buf := gn_buf g @ s\<rparr>)"
  by (simp add: gb_snprintf_def Let_def)

lemma gf_param_plain:
  assumes "gf_param (- 1) p g w = Some (rc, g', w')" "\<not> rc < 0" "gn_buf g = []" "\<not> p_fdef p \<longrightarrow> plain_param p"
  shows "gn_buf g' = [] \<and> gn_file g' = gn_file g @ (if p_fdef p then [] else param_line p)"
proof (cases "p_fdef p")
  case False
  with assms(4) have n: "length (p_name p) \<le> 40" "length (param_text p) \<le> 128"
    by (auto simp: plain_param_def plain_text_def)
  let ?g = "g\<lparr>gn_buf := p_name p @ ''=''\<rparr>"
  have v: "(case p_value p of VStr s \<Rightarrow> gb_snprintf s ?g | v \<Rightarrow> gb_number v ?g) =
      Some (g\<lparr>gn_buf := p_name p @ ''='' @ param_text p\<rparr>)"
    using n by (cases "p_value p") (simp_all add: gb_snprintf_short gb_number_def param_text_def Let_def)
  from False assms n v show ?thesis
    by (auto simp: gf_param_def g3ci_gfmarklevel_def gb_snprintf_short g3ci_gfflush_def param_line_def
        split: prod.splits if_splits)
qed (use assms in \<open>simp add: gf_param_def\<close>)

lemma gf_params_plain:
  assumes "gf_params (- 1) ps g w = Some (rc, g', w')" "\<not> rc < 0" "gn_buf g = []"
    "\<forall>p\<in>set ps. \<not> p_fdef p \<longrightarrow> plain_param p"
  shows "gn_buf g' = [] \<and> gn_file g' = gn_file g @ concat (map param_line (filter (\<lambda>p. \<not> p_fdef p) ps))"
  using assms
proof (induction ps arbitrary: g w)
  case (Cons p ps)
  obtain rc1 g1 w1 where p: "gf_param (- 1) p g w = Some (rc1, g1, w1)"
    using Cons.prems(1) by (cases "gf_param (- 1) p g w") auto
  with Cons.prems have ok: "\<not> rc1 < 0" by (auto split: if_splits)
  from gf_param_plain[OF p ok] Cons.prems Cons.IH[of g1 w1] p ok show ?case by auto
qed simp

lemma gf_sections_default: "\<forall>s\<in>set ss. s_fdef s \<Longrightarrow> gf_sections ss lev g w = Some (0, g, w)"
proof (induction ss)
  case (Cons s ss)
  then show ?case by (cases s) simp
qed simp

text \<open>The main section with its plain parameters, written by itself.\<close>

definition plain_main :: "g3c_section \<Rightarrow> bool" where
  "plain_main s \<longleftrightarrow> \<not> s_fdef s \<and> (\<forall>p\<in>set (saved_params s). plain_param p)"

lemma gfsect_main:
  assumes "plain_main s" "g3c_genfile s w = Some (0, t, w')"
  obtains rc w2 g3 w3 where
    "gf_sections (s_sections s) 0 \<lparr>gn_buf = [], gn_file = concat (map param_line (saved_params s))\<rparr> w2 = Some (rc, g3, w3)"
    "\<not> rc < 0" "g3ci_gfflush g3 w3 = Some (0, \<lparr>gn_buf = [], gn_file = t\<rparr>, w')"
proof -
  obtain ps ss l where s: "s = Section ps ss False l" using assms(1) by (cases s) (auto simp: plain_main_def)
  let ?g = "\<lparr>gn_buf = [], gn_file = []\<rparr>"
  obtain rc1 g1 w1 where p: "gf_params (- 1) ps ?g w = Some (rc1, g1, w1)"
    using assms(2) s by (cases "gf_params (- 1) ps ?g w") (auto simp: g3c_genfile_def g3ci_gfmarklevel_def)
  have ok: "\<not> rc1 < 0" using assms(2) s p by (auto simp: g3c_genfile_def g3ci_gfmarklevel_def)
  have g1: "g1 = \<lparr>gn_buf = [], gn_file = concat (map param_line (saved_params s))\<rparr>"
    using gf_params_plain[OF p ok] assms(1) s by (cases g1) (auto simp: plain_main_def saved_params_def)
  obtain rc2 g2 w2 where ss: "gf_sections ss 0 g1 w1 = Some (rc2, g2, w2)"
    using assms(2) s p ok by (cases "gf_sections ss 0 g1 w1") (auto simp: g3c_genfile_def g3ci_gfmarklevel_def)
  have ok2: "\<not> rc2 < 0" using assms(2) s p ok ss by (auto simp: g3c_genfile_def g3ci_gfmarklevel_def)
  have mark: "g3ci_gfmarklevel (- 1) g2 = Some g2" by (simp add: g3ci_gfmarklevel_def)
  obtain rc3 g3 w3 where fl: "g3ci_gfflush g2 w2 = Some (rc3, g3, w3)"
    using assms(2) s p ok ss ok2 mark by (cases "g3ci_gfflush g2 w2") (auto simp: g3c_genfile_def g3ci_gfmarklevel_def)
  have "\<not> rc3 < 0 \<and> t = gn_file g3 \<and> w' = w3"
    using assms(2) s p ok ss ok2 mark fl by (auto simp: g3c_genfile_def g3ci_gfmarklevel_def split: if_splits)
  moreover from this fl have "rc3 = 0 \<and> gn_buf g3 = []"
    by (auto simp: g3ci_gfflush_def split: prod.splits if_splits bind_splits)
  ultimately have "g3ci_gfflush g2 w2 = Some (0, \<lparr>gn_buf = [], gn_file = t\<rparr>, w')" using fl by (cases g3) simp
  with that[of w1 rc2 g2 w2] ss g1 s ok2 show thesis by auto
qed

lemma flat_text:
  assumes "plain_main s" "\<forall>c\<in>set (s_sections s). s_fdef c" "g3c_genfile s w = Some (0, t, w')"
  shows "t = concat (map param_line (saved_params s)) @ [CHR 0x0A]"
proof -
  obtain rc w2 g3 w3 where
    g: "gf_sections (s_sections s) 0 \<lparr>gn_buf = [], gn_file = concat (map param_line (saved_params s))\<rparr> w2 = Some (rc, g3, w3)"
    and f: "g3ci_gfflush g3 w3 = Some (0, \<lparr>gn_buf = [], gn_file = t\<rparr>, w')"
    using gfsect_main[OF assms(1,3)] by metis
  have "g3 = \<lparr>gn_buf = [], gn_file = concat (map param_line (saved_params s))\<rparr>"
    using trans[OF gf_sections_default[OF assms(2), symmetric] g] by simp
  with f show ?thesis by (auto simp: g3ci_gfflush_def gb_snprintf_def split: prod.splits if_splits)
qed

definition main_start :: g3c_section where
  "main_start = Section [\<lparr>p_name = ''type'', p_value = VStr ''main'', p_fdef = True, p_line = - 1\<rparr>] [] False 0"

lemma parse_start:
  "no_faults w \<Longrightarrow> g3c_parse t rul w = (case g3c_loop rul t (g3c_start main_start) w of (rc, q, w) \<Rightarrow>
     if rc \<noteq> 0 then (rc, None, w)
     else if q_up q \<noteq> [] \<or> q_ptok q \<noteq> [] then (EX_CONFIG, None, w)
     else (0, Some (q_sec q), w))"
  by (simp add: g3c_parse_def sys_alloc_def next_outcome_no_faults newparam_no_fault main_start_def with_params_def)

lemma between_start: "between (g3c_start sec)"
  by (simp add: between_def in_plain_def g3c_start_def)

lemma flat_parse:
  assumes "no_faults w" "\<forall>p\<in>set ps. plain_param p"
  shows "g3c_parse (concat (map param_line ps) @ [CHR 0x0A]) rul w =
    (0, Some (with_params main_start (s_params main_start @ read_params 1 ps)), w)"
proof -
  let ?q = "g3c_start main_start"
  let ?q1 = "?q\<lparr>q_line := q_line ?q + int (length ps),
      q_sec := with_params (q_sec ?q) (s_params (q_sec ?q) @ read_params (q_line ?q) ps)\<rparr>"
  have "g3c_loop rul (concat (map param_line ps) @ [CHR 0x0A]) ?q w = g3c_loop rul [CHR 0x0A] ?q1 w"
    by (rule loop_params[OF between_start assms])
  also have "\<dots> = (0, ?q1\<lparr>q_line := q_line ?q1 + 1\<rparr>, w)"
    by (simp add: g3c_char_def g3c_plain_def g3c_start_def pname_set_def c_str_def)
  finally show ?thesis by (simp add: parse_start[OF assms(1)] g3c_start_def)
qed

lemma read_params_values: "map (\<lambda>p. (p_name p, p_value p)) (read_params l ps) = map (\<lambda>p. (p_name p, VStr (param_text p))) ps"
  by (induction l ps rule: read_params.induct) (simp_all add: read_param_def)


section \<open>Subsections do not survive\<close>

text \<open>Printing only adds to what the file and the line buffer hold; a full buffer ends with a zero byte.\<close>

definition gen_text :: "g3c_gen \<Rightarrow> string" where
  "gen_text g = gn_file g @ gn_buf g"

definition gen_ok :: "g3c_gen \<Rightarrow> bool" where
  "gen_ok g \<longleftrightarrow> length (gn_buf g) < GENBUF \<or> length (gn_buf g) = GENBUF \<and> last (gn_buf g) = CHR 0x00"

definition extends :: "g3c_gen \<Rightarrow> g3c_gen \<Rightarrow> bool" where
  "extends g g' \<longleftrightarrow> (gen_ok g \<longrightarrow> gen_ok g' \<and> prefix (gen_text g) (gen_text g'))"

lemma extends_refl [simp, intro]: "extends g g"
  by (simp add: extends_def)

lemma extends_trans: "extends a b \<Longrightarrow> extends b c \<Longrightarrow> extends a c"
  by (auto simp: extends_def intro: prefix_order.trans)

lemma snprintf_extends:
  assumes "gb_snprintf s g = Some g'" shows "extends g g'"
proof (cases "length (gn_buf g @ s) < GENBUF")
  case True
  with assms show ?thesis by (auto simp: gb_snprintf_def extends_def gen_ok_def gen_text_def Let_def)
next
  case False
  with assms have len: "length (gn_buf g @ s) = GENBUF"
    and g': "g' = g\<lparr>gn_buf := take (GENBUF - 1) (gn_buf g @ s) @ [CHR 0x00]\<rparr>"
    by (auto simp: gb_snprintf_def Let_def split: if_splits)
  show ?thesis
  proof (cases "s = []")
    case True
    with len have "gen_ok g \<Longrightarrow> take (GENBUF - 1) (gn_buf g) @ [CHR 0x00] = gn_buf g"
      using append_butlast_last_id[of "gn_buf g"] by (cases "gn_buf g = []") (auto simp: gen_ok_def butlast_conv_take)
    with True g' len show ?thesis by (auto simp: extends_def gen_ok_def gen_text_def)
  next
    case False
    with len have "length (gn_buf g) \<le> GENBUF - 1" by (cases s) auto
    with g' len show ?thesis by (auto simp: extends_def gen_ok_def gen_text_def)
  qed
qed

lemma number_extends: "gb_number v g = Some g' \<Longrightarrow> extends g g'"
  by (auto simp: gb_number_def extends_def gen_ok_def gen_text_def Let_def split: if_splits)

lemma levels_extend: "mark_levels n g = Some g' \<Longrightarrow> extends g g'"
  by (induction n g rule: mark_levels.induct) (auto split: bind_splits intro: extends_trans snprintf_extends)

lemma mark_extends: "g3ci_gfmarklevel lev g = Some g' \<Longrightarrow> extends g g'"
  by (auto simp: g3ci_gfmarklevel_def levels_extend split: if_splits)

lemma flush_extends:
  assumes "g3ci_gfflush g w = Some (rc, g', w')" shows "extends g g'"
proof -
  obtain g1 where g1: "gb_snprintf [CHR 0x0A] g = Some g1" using assms by (auto simp: g3ci_gfflush_def split: bind_splits)
  from snprintf_extends[OF g1] assms g1 show ?thesis
    by (auto simp: g3ci_gfflush_def extends_def gen_ok_def gen_text_def split: prod.splits if_splits)
qed

lemma param_extends: "gf_param lev p g w = Some (rc, g', w') \<Longrightarrow> extends g g'"
  by (auto simp: gf_param_def split: if_splits bind_splits g3c_value.splits
      dest!: mark_extends snprintf_extends number_extends flush_extends intro: extends_trans)

lemma params_extend: "gf_params lev ps g w = Some (rc, g', w') \<Longrightarrow> extends g g'"
  by (induction lev ps g w rule: gf_params.induct)
     (auto split: if_splits bind_splits dest!: param_extends intro: extends_trans)

lemma gfsect_steps:
  assumes "g3c_gfsect (Section ps ss False line) lev g w = Some (rc, g', w')"
  obtains g1 g2 r3 g3 w3 where "g3ci_gfmarklevel lev g = Some g1"
    "(if lev \<ge> 0 then gb_snprintf ''{  '' g1 else Some g1) = Some g2" "gf_params lev ps g2 w = Some (r3, g3, w3)"
    "r3 < 0 \<and> rc = - 1 \<and> g' = g3 \<or> \<not> r3 < 0 \<and> (\<exists>r4 g4 w4. gf_sections ss (lev + 1) g3 w3 = Some (r4, g4, w4) \<and>
       (r4 < 0 \<and> rc = - 1 \<and> g' = g4 \<or> \<not> r4 < 0 \<and> (\<exists>g5 g6 r7. g3ci_gfmarklevel lev g4 = Some g5 \<and>
         (if lev \<ge> 0 then gb_snprintf ''}'' g5 else Some g5) = Some g6 \<and> g3ci_gfflush g6 w4 = Some (r7, g', w'))))"
proof -
  from assms obtain g1 g2 r3 g3 w3 where s: "g3ci_gfmarklevel lev g = Some g1"
    "(if lev \<ge> 0 then gb_snprintf ''{  '' g1 else Some g1) = Some g2" "gf_params lev ps g2 w = Some (r3, g3, w3)"
    and r: "(if r3 < 0 then Some (- 1, g3, w3)
         else do {
           (rc, g, w) \<leftarrow> gf_sections ss (lev + 1) g3 w3;
           (if rc < 0 then Some (- 1, g, w)
            else do {
              g \<leftarrow> g3ci_gfmarklevel lev g;
              g \<leftarrow> (if lev \<ge> 0 then gb_snprintf ''}'' g else Some g);
              (rc, g, w) \<leftarrow> g3ci_gfflush g w;
              Some (if rc < 0 then - 1 else 0, g, w)})}) = Some (rc, g', w')"
    by (simp add: bind_eq_Some_conv del: if_split) (auto simp del: if_split)
  show thesis
  proof (rule that[OF s])
    show "r3 < 0 \<and> rc = - 1 \<and> g' = g3 \<or> \<not> r3 < 0 \<and> (\<exists>r4 g4 w4. gf_sections ss (lev + 1) g3 w3 = Some (r4, g4, w4) \<and>
       (r4 < 0 \<and> rc = - 1 \<and> g' = g4 \<or> \<not> r4 < 0 \<and> (\<exists>g5 g6 r7. g3ci_gfmarklevel lev g4 = Some g5 \<and>
         (if lev \<ge> 0 then gb_snprintf ''}'' g5 else Some g5) = Some g6 \<and> g3ci_gfflush g6 w4 = Some (r7, g', w'))))"
    proof (cases "r3 < 0")
      case False
      with r obtain r4 g4 w4 where g4: "gf_sections ss (lev + 1) g3 w3 = Some (r4, g4, w4)"
        and r4: "(if r4 < 0 then Some (- 1, g4, w4)
            else do {
              g \<leftarrow> g3ci_gfmarklevel lev g4;
              g \<leftarrow> (if lev \<ge> 0 then gb_snprintf ''}'' g else Some g);
              (rc, g, w) \<leftarrow> g3ci_gfflush g w4;
              Some (if rc < 0 then - 1 else 0, g, w)}) = Some (rc, g', w')"
        by (auto simp: bind_eq_Some_conv simp del: if_split)
      show ?thesis
      proof (cases "r4 < 0")
        case f4: False
        with r4 obtain g5 g6 r7 where "g3ci_gfmarklevel lev g4 = Some g5"
          "(if lev \<ge> 0 then gb_snprintf ''}'' g5 else Some g5) = Some g6" "g3ci_gfflush g6 w4 = Some (r7, g', w')"
          by (simp add: bind_eq_Some_conv del: if_split) (auto simp del: if_split)
        with False f4 g4 show ?thesis by blast
      qed (use False g4 r4 in auto)
    qed (use r in auto)
  qed
qed

lemma g3c_sections_induct [case_names sect Nil Cons]:
  assumes "\<And>ps ss fdef line. Q ss \<Longrightarrow> P (Section ps ss fdef line)" "Q []" "\<And>s ss. P s \<Longrightarrow> Q ss \<Longrightarrow> Q (s # ss)"
  shows "P s" "Q ss"
proof -
  have P: "P s" for s
  proof (induction s)
    case (Section ps ss fdef line)
    have "Q ss" using Section by (induction ss) (auto intro: assms)
    then show ?case by (rule assms)
  qed
  show "P s" by (rule P)
  show "Q ss" by (induction ss) (auto intro: assms P)
qed

lemma print_extends: "(if b then gb_snprintf s g else Some g) = Some g' \<Longrightarrow> extends g g'"
  by (auto split: if_splits intro: snprintf_extends)

lemma gfsect_ok:
  assumes "g3c_gfsect (Section ps ss False line) lev g w = Some (rc, g', w')" "\<not> rc < 0"
  obtains g1 g2 r3 g3 w3 r4 g4 w4 g5 g6 r7 where "g3ci_gfmarklevel lev g = Some g1"
    "(if lev \<ge> 0 then gb_snprintf ''{  '' g1 else Some g1) = Some g2" "gf_params lev ps g2 w = Some (r3, g3, w3)"
    "gf_sections ss (lev + 1) g3 w3 = Some (r4, g4, w4)" "g3ci_gfmarklevel lev g4 = Some g5"
    "(if lev \<ge> 0 then gb_snprintf ''}'' g5 else Some g5) = Some g6" "g3ci_gfflush g6 w4 = Some (r7, g', w')"
  by (rule gfsect_steps[OF assms(1)], elim disjE conjE exE) (use assms(2) that in simp, use assms(2) that in simp, rule that)

lemma sect_extends:
  "g3c_gfsect s lev g w = Some (rc, g', w') \<Longrightarrow> extends g g'"
  "gf_sections ss lev g w = Some (rc, g', w') \<Longrightarrow> extends g g'"
proof (induction s and ss arbitrary: lev g w rc g' w' and lev g w rc g' w' rule: g3c_sections_induct)
  case (sect ps ss fdef line)
  show ?case
  proof (cases fdef)
    case False
    with sect.prems have "g3c_gfsect (Section ps ss False line) lev g w = Some (rc, g', w')" by simp
    then show ?thesis
      by (rule gfsect_steps, elim disjE conjE exE)
         (simp_all, (metis sect.IH mark_extends print_extends params_extend flush_extends extends_trans)+)
  qed (use sect.prems in simp)
next
  case (Cons s ss)
  from Cons.prems obtain r1 g1 w1 where s: "g3c_gfsect s lev g w = Some (r1, g1, w1)"
    and r: "(if r1 < 0 then Some (- 1, g1, w1) else gf_sections ss lev g1 w1) = Some (rc, g', w')"
    by (auto simp: bind_eq_Some_conv)
  from r Cons.IH(1)[OF s] Cons.IH(2) show ?case by (auto split: if_splits intro: extends_trans)
qed simp

lemma gfsect_opened:
  assumes "g3c_gfsect (Section ps ss False line) lev g w = Some (rc, g', w')"
  obtains g1 g2 where "g3ci_gfmarklevel lev g = Some g1"
    "(if lev \<ge> 0 then gb_snprintf ''{  '' g1 else Some g1) = Some g2" "extends g2 g'"
proof (rule gfsect_steps[OF assms], rule that, assumption, assumption, elim disjE conjE exE)
qed (simp_all, (metis sect_extends(2) mark_extends print_extends params_extend flush_extends extends_trans)+)

text \<open>What may follow the brace of a section: a parameter, the brace of a subsection, or the end.\<close>

definition after_brace :: "string \<Rightarrow> bool" where
  "after_brace x \<longleftrightarrow> (\<exists>n. plain_text NAME_LEN n \<and> x = n @ ''='') \<or> x = ''{'' \<or> x = ''}''"

lemma extends_prefix: "extends g g' \<Longrightarrow> length (gn_buf g) < GENBUF \<Longrightarrow> prefix t (gen_text g) \<Longrightarrow> prefix t (gen_text g')"
  by (auto simp: extends_def gen_ok_def intro: prefix_order.trans)

lemma mark_id: "gn_buf g \<noteq> [] \<or> lev \<le> 0 \<Longrightarrow> g3ci_gfmarklevel lev g = Some g"
  by (auto simp: g3ci_gfmarklevel_def)

lemma first_param:
  assumes "gf_param lev p g w = Some (rc, g', w')" "\<not> p_fdef p" "gn_buf g = ''{  ''" "plain_text NAME_LEN (p_name p)"
  shows "prefix (gn_file g @ ''{  '' @ p_name p @ ''='') (gen_text g')"
proof -
  define g1 where "g1 = g\<lparr>gn_buf := gn_buf g @ p_name p @ ''=''\<rparr>"
  have len: "length (p_name p) \<le> 40" using assms(4) by (simp add: plain_text_def)
  then have pr: "gb_snprintf (p_name p @ ''='') g = Some g1"
    using assms(3) unfolding g1_def by (intro gb_snprintf_short) simp
  from assms(1-3) pr obtain g2 where "(case p_value p of VStr s \<Rightarrow> gb_snprintf s g1 | v \<Rightarrow> gb_number v g1) = Some g2"
    and f: "g3ci_gfflush g2 w = Some (rc, g', w')"
    by (auto simp: gf_param_def mark_id bind_eq_Some_conv)
  then have "extends g1 g2" by (auto split: g3c_value.splits intro: snprintf_extends number_extends)
  then have "extends g1 g'" using flush_extends[OF f] by (rule extends_trans)
  from extends_prefix[OF this, of "gen_text g1"] len assms(3) show ?thesis by (simp add: gen_text_def g1_def)
qed

lemma gf_params_default: "\<forall>p\<in>set ps. p_fdef p \<Longrightarrow> gf_params lev ps g w = Some (0, g, w)"
  by (induction ps) (simp_all add: gf_param_def)

lemma params_shape:
  assumes "gf_params lev ps g w = Some (rc, g', w')" "\<exists>p\<in>set ps. \<not> p_fdef p" "gn_buf g = ''{  ''"
    "\<forall>p\<in>set ps. \<not> p_fdef p \<longrightarrow> plain_text NAME_LEN (p_name p)"
  shows "\<exists>x. after_brace x \<and> prefix (gn_file g @ ''{  '' @ x) (gen_text g')"
  using assms
proof (induction ps)
  case (Cons p ps)
  show ?case
  proof (cases "p_fdef p")
    case True
    with Cons show ?thesis by (simp add: gf_param_def)
  next
    case False
    obtain r1 g1 w1 where p: "gf_param lev p g w = Some (r1, g1, w1)"
      and r: "(if r1 < 0 then Some (- 1, g1, w1) else gf_params lev ps g1 w1) = Some (rc, g', w')"
      using Cons.prems(1) by (auto simp: bind_eq_Some_conv)
    have n: "plain_text NAME_LEN (p_name p)" using Cons.prems(4) False by simp
    have "gen_ok g1" using param_extends[OF p] Cons.prems(3) by (simp add: extends_def gen_ok_def)
    moreover have "extends g1 g'" using r params_extend by (auto split: if_splits)
    ultimately have "prefix (gn_file g @ ''{  '' @ p_name p @ ''='') (gen_text g')"
      using first_param[OF p False Cons.prems(3) n] by (auto simp: extends_def intro: prefix_order.trans)
    with n show ?thesis by (intro exI[of _ "p_name p @ ''=''"]) (auto simp: after_brace_def)
  qed
qed simp

lemma sections_shape:
  assumes "gf_sections ss lev g w = Some (rc, g', w')" "\<exists>s\<in>set ss. \<not> s_fdef s" "gn_buf g = ''{  ''" "lev \<ge> 0"
  shows "prefix (gn_file g @ ''{  '' @ ''{'') (gen_text g')"
  using assms
proof (induction ss)
  case (Cons s ss)
  obtain ps cs fdef line where s: "s = Section ps cs fdef line" by (cases s)
  show ?case
  proof (cases fdef)
    case True
    with Cons s show ?thesis by simp
  next
    case False
    with s have s': "s = Section ps cs False line" by simp
    obtain r1 g1 w1 where c: "g3c_gfsect s lev g w = Some (r1, g1, w1)"
      and r: "(if r1 < 0 then Some (- 1, g1, w1) else gf_sections ss lev g1 w1) = Some (rc, g', w')"
      using Cons.prems(1) by (auto simp: bind_eq_Some_conv)
    let ?g = "g\<lparr>gn_buf := ''{  {  ''\<rparr>"
    obtain g0 g2 where "g3ci_gfmarklevel lev g = Some g0" "(if lev \<ge> 0 then gb_snprintf ''{  '' g0 else Some g0) = Some g2"
      "extends g2 g1"
      using gfsect_opened[OF c[unfolded s']] .
    then have "extends ?g g1" using Cons.prems(3,4) by (simp add: mark_id gb_snprintf_short)
    moreover have "extends g1 g'" using r sect_extends(2) by (auto split: if_splits)
    ultimately have "extends ?g g'" by (rule extends_trans)
    from extends_prefix[OF this, of "gn_file g @ ''{  {''"] show ?thesis by (simp add: gen_text_def)
  qed
qed simp

definition plain_names :: "g3c_section \<Rightarrow> bool" where
  "plain_names s \<longleftrightarrow> (\<forall>p\<in>set (saved_params s). plain_text NAME_LEN (p_name p))"

lemma section_shape:
  assumes "g3c_gfsect s 0 g w = Some (rc, g', w')" "\<not> s_fdef s" "gn_buf g = []" "plain_names s" "\<not> rc < 0"
  shows "\<exists>x. after_brace x \<and> prefix (gn_file g @ ''{  '' @ x) (gen_text g')"
proof -
  obtain ps cs line where s: "s = Section ps cs False line" using assms(2) by (cases s) auto
  let ?g = "g\<lparr>gn_buf := ''{  ''\<rparr>"
  obtain g0 g2 r3 g3 w3 r4 g4 w4 g5 g6 r7 where g2': "g3ci_gfmarklevel 0 g = Some g0"
    "(if (0::int) \<le> 0 then gb_snprintf ''{  '' g0 else Some g0) = Some g2"
    and p: "gf_params 0 ps g2 w = Some (r3, g3, w3)"
    and c: "gf_sections cs (0 + 1) g3 w3 = Some (r4, g4, w4)" and m: "g3ci_gfmarklevel 0 g4 = Some g5"
    and b': "(if (0::int) \<le> 0 then gb_snprintf ''}'' g5 else Some g5) = Some g6" and f: "g3ci_gfflush g6 w4 = Some (r7, g', w')"
    using gfsect_ok[OF assms(1)[unfolded s] assms(5)] .
  have b: "gb_snprintf ''}'' g5 = Some g6" using b' by simp
  have g2: "g2 = ?g" using g2' assms(3) by (simp add: mark_id gb_snprintf_short)
  have e3: "extends g3 g'" and e4: "extends g4 g'" and e6: "extends g6 g'"
    using sect_extends(2)[OF c] mark_extends[OF m] snprintf_extends[OF b] flush_extends[OF f] extends_trans by blast+
  show ?thesis
  proof (cases "\<exists>p\<in>set ps. \<not> p_fdef p")
    case True
    then obtain x where x: "after_brace x" "prefix (gn_file g @ ''{  '' @ x) (gen_text g3)"
      using params_shape[OF p] assms(4) s g2 by (auto simp: plain_names_def saved_params_def)
    with e3 p g2 params_extend[OF p] show ?thesis
      by (auto simp: extends_def gen_ok_def intro: prefix_order.trans)
  next
    case False
    with p g2 have g3: "g3 = ?g" using gf_params_default[of ps 0 ?g w] by auto
    show ?thesis
    proof (cases "\<exists>s\<in>set cs. \<not> s_fdef s")
      case True
      have "extends ?g g4" using sect_extends(2)[OF c] g3 by simp
      moreover have "prefix (gn_file g @ ''{  '' @ ''{'') (gen_text g4)"
        using sections_shape[OF c True] g3 by simp
      ultimately have "prefix (gn_file g @ ''{  '' @ ''{'') (gen_text g')"
        using e4 by (auto simp: extends_def gen_ok_def intro: prefix_order.trans)
      then show ?thesis by (intro exI[of _ "''{''"]) (simp add: after_brace_def)
    next
      case False
      with c g3 have "g4 = ?g" using gf_sections_default[of cs 1 ?g w3] by auto
      with m b have g6: "g6 = g\<lparr>gn_buf := ''{  }''\<rparr>" by (auto simp: mark_id gb_snprintf_short)
      with extends_prefix[OF e6, of "gen_text g6"] show ?thesis
        by (intro exI[of _ "''}''"]) (simp add: after_brace_def gen_text_def)
    qed
  qed
qed

lemma first_section_shape:
  assumes "gf_sections ss 0 g w = Some (rc, g', w')" "\<exists>s\<in>set ss. \<not> s_fdef s" "gn_buf g = []"
    "\<forall>s\<in>set ss. plain_names s" "\<not> rc < 0"
  shows "\<exists>x. after_brace x \<and> prefix (gn_file g @ ''{  '' @ x) (gen_text g')"
  using assms
proof (induction ss)
  case (Cons s ss)
  show ?case
  proof (cases "s_fdef s")
    case True
    with Cons show ?thesis by (cases s) simp
  next
    case False
    obtain r1 g1 w1 where c: "g3c_gfsect s 0 g w = Some (r1, g1, w1)"
      and r: "(if r1 < 0 then Some (- 1, g1, w1) else gf_sections ss 0 g1 w1) = Some (rc, g', w')"
      using Cons.prems(1) by (auto simp: bind_eq_Some_conv)
    with Cons.prems(5) have "\<not> r1 < 0" by auto
    with section_shape[OF c False] Cons.prems obtain x where x: "after_brace x" "prefix (gn_file g @ ''{  '' @ x) (gen_text g1)"
      by auto
    have "gen_ok g1" using sect_extends(1)[OF c] Cons.prems(3) by (simp add: extends_def gen_ok_def)
    moreover have "extends g1 g'" using r sect_extends(2) by (auto split: if_splits)
    ultimately show ?thesis using x by (auto simp: extends_def intro: prefix_order.trans)
  qed
qed simp

text \<open>The parser takes the brace for the beginning of the type, and so refuses an equals sign or another brace.\<close>

lemma loop_brace:
  assumes "between q" "no_faults w" "q_up q = []" "after_brace x"
  shows "fst (g3c_loop rul (''{  '' @ x @ rest) q w) = EX_CONFIG"
proof -
  let ?q = "q\<lparr>q_up := [q_sec q], q_sec := Section [] [] False (q_line q), q_pname := ''type'', q_tlim := VALUE_LEN\<rparr>"
  let ?q' = "q\<lparr>q_up := [q_sec q], q_sec := Section [] [] True (q_line q), q_pname := ''type'', q_tlim := VALUE_LEN\<rparr>"
  have o: "g3c_char rul (CHR ''{'') nxt q w = (0, if q_line q = - 1 then ?q' else ?q, w)" for nxt
    using assms(1-3)
    by (simp add: g3c_char_def g3c_plain_def between_def in_plain_def pname_set_def c_str_def Let_def end_param_if_def
        open_section_def g3c_newsect_def sys_alloc_def next_outcome_no_faults)
  have "fst (g3c_loop rul (''  '' @ x @ rest) q1 w) = EX_CONFIG"
    if q1: "in_plain q1" "q_ptok q1 = []" "q_splen q1 = 0" "q_tlim q1 = VALUE_LEN" "q_pname q1 = ''type''" for q1
  proof -
    have "g3c_loop rul (''  '' @ x @ rest) q1 w = g3c_loop rul (x @ rest) q1 w"
      using q1 by (simp add: char_blank)
    moreover have "fst (g3c_loop rul (x @ rest) q1 w) = EX_CONFIG"
      using assms(4) unfolding after_brace_def
    proof (elim disjE exE conjE)
      fix n assume n: "plain_text NAME_LEN n" "x = n @ ''=''"
      then have "g3c_loop rul (x @ rest) q1 w = g3c_loop rul (''='' @ rest) (q1\<lparr>q_ptok := n\<rparr>) w"
        using loop_plain_text[OF q1(1-3) n(1), of rul "''='' @ rest" w] q1(4) by simp
      then show ?thesis
        using q1 by (simp add: g3c_char_def g3c_plain_def in_plain_def pname_set_def c_str_def)
    qed (use q1 in \<open>simp_all add: g3c_char_def g3c_plain_def in_plain_def pname_set_def c_str_def\<close>)
    ultimately show ?thesis by simp
  qed
  then have "fst (g3c_loop rul (''  '' @ x @ rest) (if q_line q = - 1 then ?q' else ?q) w) = EX_CONFIG"
    using assms(1) by (simp add: between_def)
  moreover have "g3c_loop rul (''{  '' @ x @ rest) q w = g3c_loop rul (''  '' @ x @ rest) (if q_line q = - 1 then ?q' else ?q) w"
    using o by (simp del: g3c_loop.simps(2) add: g3c_loop.simps(2)[of _ "CHR ''{''"])
  ultimately show ?thesis by simp
qed

text \<open>A configuration with a subsection that is not a default is written in a form the parser refuses:
  the type of a section is printed as a parameter, and the parser wants the bare type.\<close>

theorem sections_not_read_back:
  assumes "plain_main cfg" "\<exists>s\<in>set (s_sections cfg). \<not> s_fdef s" "\<forall>s\<in>set (s_sections cfg). plain_names s"
    and gen: "g3c_genfile cfg w = Some (0, t, w1)" and mem: "no_faults w'"
  shows "\<exists>w''. g3c_parse t rul w' = (EX_CONFIG, None, w'')"
proof -
  let ?lines = "concat (map param_line (saved_params cfg))"
  obtain rc w2 g3 w3 where g: "gf_sections (s_sections cfg) 0 \<lparr>gn_buf = [], gn_file = ?lines\<rparr> w2 = Some (rc, g3, w3)" "\<not> rc < 0"
    and f: "g3ci_gfflush g3 w3 = Some (0, \<lparr>gn_buf = [], gn_file = t\<rparr>, w1)"
    using gfsect_main[OF assms(1) gen] by metis
  obtain x where x: "after_brace x" "prefix (?lines @ ''{  '' @ x) (gen_text g3)"
    using first_section_shape[OF g(1) assms(2) _ assms(3) g(2)] by auto
  have "gen_ok g3" using sect_extends(2)[OF g(1)] by (simp add: extends_def gen_ok_def)
  with flush_extends[OF f] x(2) have "prefix (?lines @ ''{  '' @ x) t"
    by (auto simp: extends_def gen_text_def intro: prefix_order.trans)
  then obtain rest where t: "t = ?lines @ ''{  '' @ x @ rest" by (auto simp: prefix_def)
  let ?q = "g3c_start main_start"
  let ?q1 = "?q\<lparr>q_line := q_line ?q + int (length (saved_params cfg)),
      q_sec := with_params (q_sec ?q) (s_params (q_sec ?q) @ read_params (q_line ?q) (saved_params cfg))\<rparr>"
  have "g3c_loop rul t ?q w' = g3c_loop rul (''{  '' @ x @ rest) ?q1 w'"
    unfolding t using assms(1) by (intro loop_params[OF between_start mem]) (simp add: plain_main_def)
  moreover have "between ?q1" using between_start[of main_start] by (simp add: between_def)
  then have "fst (g3c_loop rul (''{  '' @ x @ rest) ?q1 w') = EX_CONFIG"
    by (intro loop_brace[OF _ mem _ x(1)]) (simp_all add: g3c_start_def)
  ultimately have "fst (g3c_loop rul t ?q w') = EX_CONFIG" by simp
  then obtain q2 w2 where "g3c_loop rul t ?q w' = (EX_CONFIG, q2, w2)" by (cases "g3c_loop rul t ?q w'") auto
  then show ?thesis by (simp add: parse_start[OF mem])
qed

section \<open>Properties\<close>

definition demo_machine :: os where
  "demo_machine = \<lparr>files = (\<lambda>_. None), fdt = (\<lambda>_. None), nextfd = 3, script = [], clock = (\<lambda>_. None), ticks = 0,
     zcrc32 = (\<lambda>_. 0), junk = (\<lambda>_. 0)\<rparr>"

definition demo_config :: g3c_section where
  "demo_config = Section
     [\<lparr>p_name = ''type'', p_value = VStr ''main'', p_fdef = True, p_line = - 1\<rparr>,
      \<lparr>p_name = ''port'', p_value = VInt 2905, p_fdef = False, p_line = 1\<rparr>,
      \<lparr>p_name = ''host'', p_value = VStr ''a b'', p_fdef = False, p_line = - 2\<rparr>]
     [Section [] [] True (- 1)] False 0"

text \<open>
  C36: A configuration without subsections of its own survives being written, saved, loaded and parsed, with the
  writes and reads of the files cut short at any points: the program reads exactly the parameters that are
  not defaults, in their order, with the values printed. Its names and values have to be plain (\<open>plain_main\<close>):
  not empty, within the lengths of the parser, without blanks at their ends and without a tabulator, a quotation
  mark, an equals sign, an end of line, a brace, a number sign, a backslash or a zero byte anywhere.
  \<open>g3c_genfile\<close> does not quote what it writes, so other names and values do not survive in general: of the value
  \<open>a#b\<close> only \<open>a\<close> is read back, the rest is a comment.\<close>

theorem config_round_trip:
  assumes "plain_main cfg" "\<forall>c\<in>set (s_sections cfg). s_fdef c"
    and gen: "g3c_genfile cfg w = Some (0, t, w1)"
    and save: "g3c_file_save (Some path) \<lparr>gf_len = int (length t), gf_file = Some t, gf_spec = spec\<rparr> w1 = (0, f, w2)"
    and load: "g3c_file_load path w2 = (0, t', w3)" and mem: "no_faults w3"
  shows "\<exists>sec. g3c_parse t' rul w3 = (0, Some sec, w3) \<and> s_sections sec = [] \<and>
    map (\<lambda>p. (p_name p, p_value p)) (s_params sec) =
      (''type'', VStr ''main'') # map (\<lambda>p. (p_name p, VStr (param_text p))) (saved_params cfg)"
proof -
  have t: "t = concat (map param_line (saved_params cfg)) @ [CHR 0x0A]" by (rule flat_text[OF assms(1,2) gen])
  then have "files w2 path = Some (bytes_of t)" using file_save_writes[OF save] by simp
  with file_load_reads[OF load] have t': "t' = t" by (metis option.inject text_of_bytes)
  have "\<forall>p\<in>set (saved_params cfg). plain_param p" using assms(1) by (simp add: plain_main_def)
  from flat_parse[OF mem this, of rul] t t' show ?thesis
    by (simp add: main_start_def read_params_values)
qed

lemma demo_port: "dec_int 2905 = ''2905''"
  by code_simp

lemma demo_config_plain: "plain_main demo_config" "\<forall>c\<in>set (s_sections demo_config). s_fdef c"
  by (simp_all add: demo_config_def plain_main_def saved_params_def plain_param_def plain_text_def param_text_def
      plain_char_def value_int_def demo_port)

definition demo_text :: string where
  "demo_text = ''port=2905'' @ [CHR 0x0A] @ ''host=a b'' @ [CHR 0x0A, CHR 0x0A]"

theorem config_round_trip_witness:
  "\<exists>f w2 t' w3 sec. g3c_genfile demo_config demo_machine = Some (0, demo_text, demo_machine) \<and>
     g3c_file_save (Some ''c'') \<lparr>gf_len = int (length demo_text), gf_file = Some demo_text, gf_spec = None\<rparr> demo_machine =
       (0, f, w2) \<and> g3c_file_load ''c'' w2 = (0, t', w3) \<and> g3c_parse t' [] w3 = (0, Some sec, w3) \<and>
     map (\<lambda>p. (p_name p, p_value p)) (s_params sec) =
       [(''type'', VStr ''main''), (''port'', VStr ''2905''), (''host'', VStr ''a b'')]"
proof -
  have m: "no_faults demo_machine" "nextfd demo_machine = 3" by (simp_all add: demo_machine_def no_faults_def)
  have t: "demo_text \<noteq> []" by (simp add: demo_text_def)
  have g: "g3c_genfile demo_config demo_machine = Some (0, demo_text, demo_machine)"
    using m by (simp add: g3c_genfile_def demo_config_def g3ci_gfmarklevel_def gf_param_def gb_snprintf_def gb_number_def
        g3ci_gfflush_def sys_alloc_def next_outcome_no_faults value_int_def demo_port demo_text_def)
  obtain f w2 where s: "g3c_file_save (Some ''c'') \<lparr>gf_len = int (length demo_text), gf_file = Some demo_text, gf_spec = None\<rparr>
      demo_machine = (0, f, w2)" and w2: "no_faults w2" "nextfd w2 = 4"
    using save_no_fault[OF m(1) t, of "''c''" None] m(2) by auto
  have "bytes_of demo_text \<noteq> []" by (simp add: demo_text_def bytes_of_def)
  with load_no_fault[OF w2(1) file_save_writes[OF s t]] w2(2) obtain t' w3
    where l: "g3c_file_load ''c'' w2 = (0, t', w3)" "no_faults w3" by auto
  from config_round_trip[OF demo_config_plain g s l, of "[]"] g s l show ?thesis
    by (auto simp: saved_params_def demo_config_def param_text_def value_int_def demo_port)
qed

text \<open>
  C37: A position stays a path in its tree: whatever steps a program takes with it, however memory fails, as long as
  none of them writes behind the stacks, the sections above the current one contain it at the place they were left
  for, the uppermost is the configuration, the index is one of the current section, and at most eight sections are
  stacked. With fewer than eight no further step down and no search leaves the stacks; from the eighth on the step
  down does, because its test admits a ninth entry.\<close>

theorem edits_keep_position:
  assumes "edits (pos, w) (pos', w')" "pos_ok pos"
  shows "pos_ok pos' \<and>
    (length (gp_up pos') < G3C_DEPTH \<longrightarrow> (\<forall>name typ v. g3c_next pos' \<noteq> None \<and> g3c_nextn name pos' \<noteq> None \<and>
      g3c_opensect pos' typ (v :: 'a os_scheme) \<noteq> None)) \<and>
    (length (gp_up pos') = G3C_DEPTH \<and> gp_index pos' < int (length (s_sections (gp_section pos'))) \<longrightarrow> g3c_next pos' = None)"
proof -
  have "pos_ok pos'" using edits_pos_ok[OF assms(1)] assms(2) by simp
  moreover have "g3c_nextn name pos' \<noteq> None" if "length (gp_up pos') < G3C_DEPTH" for name using nextn_room[OF that, of name] by auto
  ultimately show ?thesis using next_room[of pos'] opensect_room[of pos'] by (auto simp: g3c_next_def)
qed

theorem edits_keep_position_witness:
  "\<exists>pos w. edits (at_section demo_config, demo_machine) (pos, w) \<and> length (gp_up pos) = 1 \<and>
     length (s_sections (the (gp_config pos))) = 2 \<and> pos_ok pos"
proof -
  have m: "no_faults demo_machine" by (simp add: demo_machine_def no_faults_def)
  obtain p where o: "g3c_opensect (at_section demo_config) (Some ''net'') demo_machine = Some (0, p, demo_machine)"
    and p: "length (gp_up p) = 1" "length (s_sections (the (gp_config p))) = 2"
    using m by (simp add: g3c_opensect_def at_section_def demo_config_def g3c_newsect_def g3c_newparam_def sys_alloc_def
        next_outcome_no_faults add_section_def g3ci_rdefsect_def put_section_def Let_def)
  have e: "edits (at_section demo_config, demo_machine) (p, demo_machine)"
    by (rule edits.opensect[OF edits.none o])
  with edits_keep_position[OF e] p show ?thesis by (auto simp: pos_ok_def at_section_def)
qed

end
