(* ===== verification/RbTree.thy ===== *)
theory RbTree
  imports Prelude
begin

text \<open>
  The red-black trees of \<open>src/src/cnupm/include/sys/tree.h\<close> (\<open>RB_GENERATE\<close>), with which the traffic collector
  \<open>cnupm\<close> finds its counters and its groups of ports.  The macros work with pointers to the parent; here
  a position in the tree is the subtree of the element and the path of its parents, nearest first, and
  a loop that walks up consumes the path.  The comparison is a parameter, as it is of the macros.
  Shown are that the tree stays balanced and keeps its elements in order whatever the comparison says,
  and, when the comparison is an order, that the search is complete.
\<close>

section \<open>Trees and positions\<close>

datatype rb_colour = RB_BLACK | RB_RED

datatype 'a rb = RbNil | RbNode (rb_col: rb_colour) (rb_left: "'a rb") (rb_item: 'a) (rb_right: "'a rb")

text \<open>The parent of a left child with its colour, item and right child, or of a right child.\<close>

datatype 'a rb_frame = InLeft rb_colour 'a "'a rb" | InRight rb_colour "'a rb" 'a

fun plug1 :: "'a rb \<Rightarrow> 'a rb_frame \<Rightarrow> 'a rb" where
  "plug1 t (InLeft c x r) = RbNode c t x r"
| "plug1 t (InRight c l x) = RbNode c l x t"

fun rb_plug :: "'a rb \<Rightarrow> 'a rb_frame list \<Rightarrow> 'a rb" where
  "rb_plug t [] = t"
| "rb_plug t (f # p) = rb_plug (plug1 t f) p"

fun frame_colour :: "'a rb_frame \<Rightarrow> rb_colour" where
  "frame_colour (InLeft c x r) = c"
| "frame_colour (InRight c l x) = c"

text \<open>A missing child counts as black.\<close>

fun rb_black :: "'a rb \<Rightarrow> bool" where
  "rb_black RbNil = True"
| "rb_black (RbNode c l x r) = (c = RB_BLACK)"

fun set_colour :: "rb_colour \<Rightarrow> 'a rb \<Rightarrow> 'a rb" where
  "set_colour c RbNil = RbNil"
| "set_colour c (RbNode d l x r) = RbNode c l x r"

fun rb_rotate_left :: "'a rb \<Rightarrow> 'a rb" where
  "rb_rotate_left (RbNode c l x (RbNode d m y r)) = RbNode d (RbNode c l x m) y r"
| "rb_rotate_left t = t"

fun rb_rotate_right :: "'a rb \<Rightarrow> 'a rb" where
  "rb_rotate_right (RbNode c (RbNode d l x m) y r) = RbNode d l x (RbNode c m y r)"
| "rb_rotate_right t = t"

fun rb_inorder :: "'a rb \<Rightarrow> 'a list" where
  "rb_inorder RbNil = []"
| "rb_inorder (RbNode c l x r) = rb_inorder l @ x # rb_inorder r"

section \<open>Search and insertion\<close>

text \<open>The descent of \<open>RB_FIND\<close> and \<open>RB_INSERT\<close>: to the element that is equal or to the place of a new one.\<close>

fun rb_descend :: "('a \<Rightarrow> 'a \<Rightarrow> int) \<Rightarrow> 'a \<Rightarrow> 'a rb \<Rightarrow> 'a rb_frame list \<Rightarrow> 'a rb \<times> 'a rb_frame list" where
  "rb_descend cmp e RbNil p = (RbNil, p)"
| "rb_descend cmp e (RbNode c l x r) p =
     (let comp = cmp e x
      in if comp < 0 then rb_descend cmp e l (InLeft c x r # p)
         else if comp > 0 then rb_descend cmp e r (InRight c l x # p)
         else (RbNode c l x r, p))"

definition RB_FIND :: "('a \<Rightarrow> 'a \<Rightarrow> int) \<Rightarrow> 'a \<Rightarrow> 'a rb \<Rightarrow> 'a option" where
  "RB_FIND cmp e t = (case fst (rb_descend cmp e t []) of RbNil \<Rightarrow> None | RbNode c l x r \<Rightarrow> Some x)"

text \<open>
  \<open>RB_INSERT_COLOR\<close> for the red element at the head of \<open>t\<close>: the loop goes on while the parent is red.  A
  red parent has a parent, since the root is black.
\<close>

fun rb_insert_colour :: "'a rb \<Rightarrow> 'a rb_frame list \<Rightarrow> 'a rb" where
  "rb_insert_colour t [] = set_colour RB_BLACK t"
| "rb_insert_colour t [f] = set_colour RB_BLACK (plug1 t f)"
| "rb_insert_colour t (f # g # p) =
     (if frame_colour f = RB_BLACK then set_colour RB_BLACK (rb_plug t (f # g # p))
      else (let parent = plug1 t f
        in case g of
          InLeft c x uncle \<Rightarrow>
            (if \<not> rb_black uncle
             then rb_insert_colour (RbNode RB_RED (set_colour RB_BLACK parent) x (set_colour RB_BLACK uncle)) p
             else (let parent = (case f of InRight _ _ _ \<Rightarrow> rb_rotate_left parent | _ \<Rightarrow> parent)
               in set_colour RB_BLACK
                    (rb_plug (rb_rotate_right (RbNode RB_RED (set_colour RB_BLACK parent) x uncle)) p)))
        | InRight c uncle x \<Rightarrow>
            (if \<not> rb_black uncle
             then rb_insert_colour (RbNode RB_RED (set_colour RB_BLACK uncle) x (set_colour RB_BLACK parent)) p
             else (let parent = (case f of InLeft _ _ _ \<Rightarrow> rb_rotate_right parent | _ \<Rightarrow> parent)
               in set_colour RB_BLACK
                    (rb_plug (rb_rotate_left (RbNode RB_RED uncle x (set_colour RB_BLACK parent))) p)))))"

definition RB_INSERT :: "('a \<Rightarrow> 'a \<Rightarrow> int) \<Rightarrow> 'a \<Rightarrow> 'a rb \<Rightarrow> 'a option \<times> 'a rb" where
  "RB_INSERT cmp e t = (case rb_descend cmp e t [] of
      (RbNode c l x r, p) \<Rightarrow> (Some x, t)
    | (RbNil, p) \<Rightarrow> (None, rb_insert_colour (RbNode RB_RED RbNil e RbNil) p))"

section \<open>Removal and traversal\<close>

text \<open>
  The part of \<open>RB_REMOVE_COLOR\<close> after the sibling \<open>tmp\<close> is black: either the loop goes on at the parent
  (\<open>Inl\<close>), or a rotation at the parent ends it (\<open>Inr\<close>).
\<close>

fun fix_left :: "rb_colour \<Rightarrow> 'a rb \<Rightarrow> 'a \<Rightarrow> 'a rb \<Rightarrow> 'a rb + 'a rb" where
  "fix_left c e x (RbNode d l y r) =
     (if rb_black l \<and> rb_black r then Inl (RbNode c e x (RbNode RB_RED l y r))
      else (let tmp = (if rb_black r then rb_rotate_right (RbNode RB_RED (set_colour RB_BLACK l) y r) else RbNode d l y r)
        in Inr (rb_rotate_left (RbNode RB_BLACK e x
             (RbNode c (rb_left tmp) (rb_item tmp) (set_colour RB_BLACK (rb_right tmp)))))))"
| "fix_left c e x RbNil = Inr (RbNode c e x RbNil)"

fun fix_right :: "rb_colour \<Rightarrow> 'a rb \<Rightarrow> 'a \<Rightarrow> 'a rb \<Rightarrow> 'a rb + 'a rb" where
  "fix_right c (RbNode d l y r) x e =
     (if rb_black l \<and> rb_black r then Inl (RbNode c (RbNode RB_RED l y r) x e)
      else (let tmp = (if rb_black l then rb_rotate_left (RbNode RB_RED l y (set_colour RB_BLACK r)) else RbNode d l y r)
        in Inr (rb_rotate_right (RbNode RB_BLACK
             (RbNode c (set_colour RB_BLACK (rb_left tmp)) (rb_item tmp) (rb_right tmp)) x e))))"
| "fix_right c RbNil x e = Inr (RbNode c RbNil x e)"

text \<open>
  \<open>RB_REMOVE_COLOR\<close>: the subtree \<open>e\<close> lacks one black node.  A red sibling is first rotated up; the parent is
  red then, and ends the loop if it is reached.  The sibling exists since it has a black node more.
\<close>

fun rb_remove_colour :: "'a rb \<Rightarrow> 'a rb_frame list \<Rightarrow> 'a rb" where
  "rb_remove_colour e [] = set_colour RB_BLACK e"
| "rb_remove_colour e (f # p) =
     (if \<not> rb_black e then rb_plug (set_colour RB_BLACK e) (f # p)
      else (case f of
          InLeft c x (RbNode RB_RED l y r) \<Rightarrow>
            (case fix_left RB_RED e x l of
               Inl up \<Rightarrow> rb_plug (set_colour RB_BLACK up) (InLeft RB_BLACK y r # p)
             | Inr t \<Rightarrow> set_colour RB_BLACK (rb_plug t (InLeft RB_BLACK y r # p)))
        | InLeft c x tmp \<Rightarrow>
            (case fix_left c e x tmp of
               Inl up \<Rightarrow> rb_remove_colour up p
             | Inr t \<Rightarrow> set_colour RB_BLACK (rb_plug t p))
        | InRight c (RbNode RB_RED l y r) x \<Rightarrow>
            (case fix_right RB_RED r x e of
               Inl up \<Rightarrow> rb_plug (set_colour RB_BLACK up) (InRight RB_BLACK l y # p)
             | Inr t \<Rightarrow> set_colour RB_BLACK (rb_plug t (InRight RB_BLACK l y # p)))
        | InRight c tmp x \<Rightarrow>
            (case fix_right c tmp x e of
               Inl up \<Rightarrow> rb_remove_colour up p
             | Inr t \<Rightarrow> set_colour RB_BLACK (rb_plug t p))))"

text \<open>The leftmost element of a subtree, from the position of the subtree.\<close>

fun rb_leftmost :: "'a rb \<Rightarrow> 'a rb_frame list \<Rightarrow> 'a rb \<times> 'a rb_frame list" where
  "rb_leftmost (RbNode c (RbNode d l y m) x r) p = rb_leftmost (RbNode d l y m) (InLeft c x r # p)"
| "rb_leftmost t p = (t, p)"

definition rb_unlink :: "rb_colour \<Rightarrow> 'a rb \<Rightarrow> 'a rb_frame list \<Rightarrow> 'a rb" where
  "rb_unlink c child p = (if c = RB_BLACK then rb_remove_colour child p else rb_plug child p)"

text \<open>An element with two children gives its place to the next one, which has no left child.\<close>

fun RB_REMOVE :: "'a rb \<Rightarrow> 'a rb_frame list \<Rightarrow> 'a rb" where
  "RB_REMOVE RbNil p = rb_plug RbNil p"
| "RB_REMOVE (RbNode c l x r) p =
     (if l = RbNil then rb_unlink c r p
      else if r = RbNil then rb_unlink c l p
      else (case rb_leftmost r [] of
          (RbNode d l' y r', q) \<Rightarrow> rb_unlink d r' (q @ InRight c l y # p)
        | (RbNil, q) \<Rightarrow> rb_plug RbNil p))"

definition RB_MIN :: "'a rb \<Rightarrow> 'a rb \<times> 'a rb_frame list" where
  "RB_MIN t = rb_leftmost t []"

text \<open>The next element: the leftmost to the right, or the first parent that is reached from the left.\<close>

fun rb_up :: "'a rb \<Rightarrow> 'a rb_frame list \<Rightarrow> 'a rb \<times> 'a rb_frame list" where
  "rb_up t [] = (RbNil, [])"
| "rb_up t (InLeft c x r # p) = (RbNode c t x r, p)"
| "rb_up t (InRight c l x # p) = rb_up (RbNode c l x t) p"

fun RB_NEXT :: "'a rb \<Rightarrow> 'a rb_frame list \<Rightarrow> 'a rb \<times> 'a rb_frame list" where
  "RB_NEXT RbNil p = (RbNil, p)"
| "RB_NEXT (RbNode c l x r) p =
     (if r \<noteq> RbNil then rb_leftmost r (InRight c l x # p) else rb_up (RbNode c l x r) p)"

section \<open>The order of the elements\<close>

fun before :: "'a rb_frame list \<Rightarrow> 'a list" where
  "before [] = []"
| "before (InLeft c x r # p) = before p"
| "before (InRight c l x # p) = before p @ rb_inorder l @ [x]"

fun behind :: "'a rb_frame list \<Rightarrow> 'a list" where
  "behind [] = []"
| "behind (InLeft c x r # p) = x # rb_inorder r @ behind p"
| "behind (InRight c l x # p) = behind p"

lemma inorder_plug: "rb_inorder (rb_plug t p) = before p @ rb_inorder t @ behind p"
proof (induction p arbitrary: t)
  case (Cons f p)
  then show ?case by (cases f) simp_all
qed simp

lemma inorder_colour [simp]: "rb_inorder (set_colour c t) = rb_inorder t"
  by (cases t) simp_all

lemma inorder_rotate [simp]:
  "rb_inorder (rb_rotate_left t) = rb_inorder t" "rb_inorder (rb_rotate_right t) = rb_inorder t"
  by (cases t rule: rb_rotate_left.cases; simp) (cases t rule: rb_rotate_right.cases; simp)

lemma inorder_insert_colour: "rb_inorder (rb_insert_colour t p) = before p @ rb_inorder t @ behind p"
proof (induction t p rule: rb_insert_colour.induct)
  case (2 t f)
  then show ?case by (cases f) simp_all
next
  case (3 t f g p)
  then show ?case by (cases f; cases g) (simp_all add: inorder_plug Let_def)
qed simp

lemma fix_left_inorder: "rb_inorder (case_sum id id (fix_left c e x tmp)) = rb_inorder e @ x # rb_inorder tmp"
proof (cases tmp)
  case (RbNode d l y r)
  show ?thesis
  proof (cases "rb_black r")
    case True
    then show ?thesis using RbNode by (cases l) (auto simp: Let_def)
  next
    case False
    then show ?thesis using RbNode by (auto simp: Let_def)
  qed
qed simp

lemma fix_right_inorder: "rb_inorder (case_sum id id (fix_right c tmp x e)) = rb_inorder tmp @ x # rb_inorder e"
proof (cases tmp)
  case (RbNode d l y r)
  show ?thesis
  proof (cases "rb_black l")
    case True
    then show ?thesis using RbNode by (cases r) (auto simp: Let_def)
  next
    case False
    then show ?thesis using RbNode by (auto simp: Let_def)
  qed
qed simp

lemma inorder_remove_colour: "rb_inorder (rb_remove_colour e p) = before p @ rb_inorder e @ behind p"
proof (induction e p rule: rb_remove_colour.induct)
  case (2 e f p)
  note fl = fix_left_inorder[of _ e] and fr = fix_right_inorder[of _ _ _ e]
  show ?case
  proof (cases "rb_black e")
    case black: True
    show ?thesis
    proof (cases f)
      case (InLeft c x tmp)
      show ?thesis
      proof (cases tmp)
        case RbNil
        with black InLeft show ?thesis by (simp add: inorder_plug)
      next
        case (RbNode d l y r)
        show ?thesis
        proof (cases d)
          case RB_RED
          with black InLeft RbNode fl[of RB_RED x l] show ?thesis
            by (cases "fix_left RB_RED e x l") (simp_all add: inorder_plug)
        next
          case RB_BLACK
          with black InLeft RbNode fl[of c x tmp] 2(2)[of c x tmp RB_BLACK l y r] show ?thesis
            by (cases "fix_left c e x tmp") (simp_all add: inorder_plug)
        qed
      qed
    next
      case (InRight c tmp x)
      show ?thesis
      proof (cases tmp)
        case RbNil
        with black InRight show ?thesis by (simp add: inorder_plug)
      next
        case (RbNode d l y r)
        show ?thesis
        proof (cases d)
          case RB_RED
          with black InRight RbNode fr[of RB_RED r x] show ?thesis
            by (cases "fix_right RB_RED r x e") (simp_all add: inorder_plug)
        next
          case RB_BLACK
          with black InRight RbNode fr[of c tmp x] 2(4)[of c tmp x RB_BLACK l y r] show ?thesis
            by (cases "fix_right c tmp x e") (simp_all add: inorder_plug)
        qed
      qed
    qed
  qed (cases f; simp add: inorder_plug)
qed simp

lemma path_append: "before (q @ p) = before p @ before q" "behind (q @ p) = behind q @ behind p"
proof (induction q)
  case (Cons f q)
  { case 1 with Cons show ?case by (cases f) simp_all }
  { case 2 with Cons show ?case by (cases f) simp_all }
qed simp_all

lemma leftmost_plug: "rb_leftmost t p = (t', p') \<Longrightarrow> rb_plug t' p' = rb_plug t p"
  by (induction t p rule: rb_leftmost.induct) simp_all

lemma leftmost_node:
  "rb_leftmost (RbNode c l x r) p = (t, q) \<Longrightarrow> \<exists>d y r'. t = RbNode d RbNil y r'"
  by (induction "RbNode c l x r" p arbitrary: c l x r rule: rb_leftmost.induct) auto

lemma inorder_unlink: "rb_inorder (rb_unlink c t p) = before p @ rb_inorder t @ behind p"
  by (simp add: rb_unlink_def inorder_remove_colour inorder_plug)

lemma inorder_remove:
  "rb_inorder (RB_REMOVE (RbNode c l x r) p) = before p @ rb_inorder l @ rb_inorder r @ behind p"
proof (cases "l = RbNil \<or> r = RbNil")
  case False
  then obtain d l' y r' where r: "r = RbNode d l' y r'" by (cases r) auto
  obtain t q where lm: "rb_leftmost r [] = (t, q)" by fastforce
  obtain e z s where t: "t = RbNode e RbNil z s" using leftmost_node[OF lm[unfolded r]] by blast
  have "before q @ z # rb_inorder s @ behind q = rb_inorder r"
    using inorder_plug[of t q] leftmost_plug[OF lm] t by simp
  moreover have "before q = []"
  proof -
    have "rb_leftmost u p = (t, q) \<Longrightarrow> before p = [] \<Longrightarrow> before q = []" for u :: "'a rb" and p
      by (induction u p rule: rb_leftmost.induct) auto
    with lm show ?thesis by simp
  qed
  ultimately show ?thesis using False lm t by (auto simp: inorder_unlink path_append)
qed (auto simp: inorder_unlink)

lemma descend_plug:
  "rb_descend cmp e t p = (t', p') \<Longrightarrow> rb_plug t' p' = rb_plug t p \<and> (t' \<noteq> RbNil \<longrightarrow> cmp e (rb_item t') = 0)"
  by (induction cmp e t p rule: rb_descend.induct) (auto simp: Let_def split: if_splits)

lemma insert_found: "RB_INSERT cmp e t = (Some x, t') \<Longrightarrow> t' = t \<and> x \<in> set (rb_inorder t) \<and> cmp e x = 0"
proof -
  assume i: "RB_INSERT cmp e t = (Some x, t')"
  obtain u p where d: "rb_descend cmp e t [] = (u, p)" by fastforce
  with i obtain c l r where u: "u = RbNode c l x r" and "t' = t" by (cases u) (auto simp: RB_INSERT_def)
  moreover from descend_plug[OF d] have "rb_inorder t = before p @ rb_inorder u @ behind p" "cmp e x = 0"
    using inorder_plug[of u p] u by auto
  ultimately show ?thesis by simp
qed

lemma insert_new:
  assumes "RB_INSERT cmp e t = (None, t')"
  shows "\<exists>xs ys. rb_inorder t = xs @ ys \<and> rb_inorder t' = xs @ e # ys"
proof -
  obtain u p where d: "rb_descend cmp e t [] = (u, p)" by fastforce
  with assms have u: "u = RbNil" "t' = rb_insert_colour (RbNode RB_RED RbNil e RbNil) p"
    by (auto simp: RB_INSERT_def split: rb.splits)
  with descend_plug[OF d] inorder_plug[of RbNil p] have "rb_inorder t = before p @ behind p" by simp
  with u show ?thesis by (auto simp: inorder_insert_colour)
qed

section \<open>The tree stays balanced\<close>

fun black_height :: "'a rb \<Rightarrow> nat" where
  "black_height RbNil = 0"
| "black_height (RbNode c l x r) = black_height l + (if c = RB_BLACK then 1 else 0)"

text \<open>Equal numbers of black nodes on all ways down, and no red node below a red one.\<close>

fun rb_ok :: "'a rb \<Rightarrow> bool" where
  "rb_ok RbNil = True"
| "rb_ok (RbNode c l x r) =
     (black_height l = black_height r \<and> rb_ok l \<and> rb_ok r \<and> (c = RB_RED \<longrightarrow> rb_black l \<and> rb_black r))"

definition rb_inv :: "'a rb \<Rightarrow> bool" where
  "rb_inv t \<longleftrightarrow> rb_ok t \<and> rb_black t"

definition black_top :: "'a rb_frame list \<Rightarrow> bool" where
  "black_top p \<longleftrightarrow> p \<noteq> [] \<and> frame_colour (hd p) = RB_BLACK"

text \<open>A path that wants a subtree of black height \<open>h\<close>; the root is black.\<close>

fun path_inv :: "nat \<Rightarrow> 'a rb_frame list \<Rightarrow> bool" where
  "path_inv h [] = True"
| "path_inv h (InLeft c x r # p) = (rb_ok r \<and> black_height r = h \<and> (c = RB_RED \<longrightarrow> rb_black r \<and> black_top p) \<and>
     path_inv (if c = RB_BLACK then h + 1 else h) p)"
| "path_inv h (InRight c l x # p) = (rb_ok l \<and> black_height l = h \<and> (c = RB_RED \<longrightarrow> rb_black l \<and> black_top p) \<and>
     path_inv (if c = RB_BLACK then h + 1 else h) p)"

definition fits :: "'a rb \<Rightarrow> 'a rb_frame list \<Rightarrow> bool" where
  "fits t p \<longleftrightarrow> rb_black t \<or> black_top p"

lemma rb_colour_cases: "c = RB_BLACK \<or> c = RB_RED"
  by (cases c) simp_all

lemma not_black [simp]: "c \<noteq> RB_BLACK \<longleftrightarrow> c = RB_RED" "c \<noteq> RB_RED \<longleftrightarrow> c = RB_BLACK"
  by (cases c; simp)+

lemma black_top_simps [simp]: "\<not> black_top []" "black_top (f # p) \<longleftrightarrow> frame_colour f = RB_BLACK"
  by (simp_all add: black_top_def)

lemma plug_inv: "rb_ok t \<Longrightarrow> path_inv (black_height t) p \<Longrightarrow> fits t p \<Longrightarrow> rb_inv (rb_plug t p)"
proof (induction t p rule: rb_plug.induct)
  case (1 t)
  then show ?case by (simp add: rb_inv_def fits_def)
next
  case (2 t f p)
  show ?case
  proof (cases f)
    case (InLeft c x r)
    with 2 show ?thesis by (cases c) (auto simp: fits_def)
  next
    case (InRight c l x)
    with 2 show ?thesis by (cases c) (auto simp: fits_def)
  qed
qed

lemma set_black_ok: "rb_ok t \<Longrightarrow> rb_inv (set_colour RB_BLACK t)"
  by (cases t) (simp_all add: rb_inv_def)

lemma set_black_id: "rb_black t \<Longrightarrow> set_colour RB_BLACK t = t"
  by (cases t) auto

lemma plug_black_inv:
  "rb_ok t \<Longrightarrow> path_inv (black_height t) p \<Longrightarrow> fits t p \<Longrightarrow> rb_inv (set_colour RB_BLACK (rb_plug t p))"
  using plug_inv[of t p] by (simp add: rb_inv_def set_black_id)

lemma insert_colour_inv:
  assumes "rb_ok t" "\<not> rb_black t" "path_inv (black_height t) p"
  shows "rb_inv (rb_insert_colour t p)"
  using assms
proof (induction t p rule: rb_insert_colour.induct)
  case (1 t)
  then show ?case by (simp add: set_black_ok)
next
  case (2 t f)
  then show ?case by (cases f) (auto simp: rb_inv_def)
next
  case (3 t f g p)
  show ?case
  proof (cases "frame_colour f = RB_BLACK")
    case True
    then show ?thesis using 3(3-5) plug_black_inv[of t "f # g # p"] by (simp add: fits_def)
  next
    case red: False
    obtain l x r where t: "t = RbNode RB_RED l x r" using 3(4) by (cases t) auto
    show ?thesis
    proof (cases g)
      case (InLeft c y uncle)
      show ?thesis
      proof (cases "rb_black uncle")
        case True
        with 3(3-5) red t InLeft show ?thesis
          by (cases f) (auto simp: Let_def fits_def intro!: plug_black_inv)
      next
        case False
        then obtain a z b where "uncle = RbNode RB_RED a z b" by (cases uncle) auto
        with 3 red t InLeft show ?thesis by (cases f) (auto simp: Let_def)
      qed
    next
      case (InRight c uncle y)
      show ?thesis
      proof (cases "rb_black uncle")
        case True
        with 3(3-5) red t InRight show ?thesis
          by (cases f) (auto simp: Let_def fits_def intro!: plug_black_inv)
      next
        case False
        then obtain a z b where "uncle = RbNode RB_RED a z b" by (cases uncle) auto
        with 3 red t InRight show ?thesis by (cases f) (auto simp: Let_def)
      qed
    qed
  qed
qed

lemma insert_inv: "rb_inv t \<Longrightarrow> rb_inv (snd (RB_INSERT cmp e t))"
proof -
  assume t: "rb_inv t"
  have path: "path_inv (black_height u) q \<Longrightarrow> rb_ok u \<Longrightarrow> fits u q \<Longrightarrow> rb_descend cmp e u q = (u', p) \<Longrightarrow>
      path_inv (black_height u') p" for u q u' p
  proof (induction cmp e u q rule: rb_descend.induct)
    case (2 cmp e c l x r q)
    then show ?case by (cases c) (auto simp: Let_def fits_def split: if_splits)
  qed simp
  obtain u p where d: "rb_descend cmp e t [] = (u, p)" by fastforce
  with path[of t "[]" u p] t have "path_inv (black_height u) p" by (simp add: rb_inv_def fits_def)
  with d t show ?thesis by (auto simp: RB_INSERT_def intro!: insert_colour_inv split: rb.splits)
qed

lemma fix_left_inv:
  assumes "rb_ok e" "rb_black e" "rb_ok tmp" "rb_black tmp" "black_height tmp = Suc (black_height e)"
  shows "fix_left c e x tmp = Inl u \<Longrightarrow> rb_ok (set_colour RB_BLACK u) \<and>
      black_height u = black_height e + (if c = RB_BLACK then 1 else 0) \<and> rb_black u = (c = RB_BLACK)"
    and "fix_left c e x tmp = Inr v \<Longrightarrow> rb_ok v \<and>
      black_height v = Suc (black_height e) + (if c = RB_BLACK then 1 else 0) \<and> rb_black v = (c = RB_BLACK)"
proof -
  obtain l y r where tmp: "tmp = RbNode RB_BLACK l y r" using assms(4,5) by (cases tmp) auto
  { assume "fix_left c e x tmp = Inl u"
    with tmp assms show "rb_ok (set_colour RB_BLACK u) \<and>
      black_height u = black_height e + (if c = RB_BLACK then 1 else 0) \<and> rb_black u = (c = RB_BLACK)"
      by (cases c) (auto simp: Let_def split: if_splits) }
  assume v: "fix_left c e x tmp = Inr v"
  show "rb_ok v \<and> black_height v = Suc (black_height e) + (if c = RB_BLACK then 1 else 0) \<and> rb_black v = (c = RB_BLACK)"
  proof (cases "rb_black r")
    case True
    with v tmp obtain a z b where "l = RbNode RB_RED a z b" by (cases l) (auto split: if_splits)
    with v tmp assms True show ?thesis by (cases c) (auto simp: Let_def set_black_id)
  next
    case False
    then obtain a z b where "r = RbNode RB_RED a z b" by (cases r) auto
    with v tmp assms show ?thesis by (cases c) (auto simp: Let_def)
  qed
qed

lemma fix_right_inv:
  assumes "rb_ok e" "rb_black e" "rb_ok tmp" "rb_black tmp" "black_height tmp = Suc (black_height e)"
  shows "fix_right c tmp x e = Inl u \<Longrightarrow> rb_ok (set_colour RB_BLACK u) \<and>
      black_height u = black_height e + (if c = RB_BLACK then 1 else 0) \<and> rb_black u = (c = RB_BLACK)"
    and "fix_right c tmp x e = Inr v \<Longrightarrow> rb_ok v \<and>
      black_height v = Suc (black_height e) + (if c = RB_BLACK then 1 else 0) \<and> rb_black v = (c = RB_BLACK)"
proof -
  obtain l y r where tmp: "tmp = RbNode RB_BLACK l y r" using assms(4,5) by (cases tmp) auto
  { assume "fix_right c tmp x e = Inl u"
    with tmp assms show "rb_ok (set_colour RB_BLACK u) \<and>
      black_height u = black_height e + (if c = RB_BLACK then 1 else 0) \<and> rb_black u = (c = RB_BLACK)"
      by (cases c) (auto simp: Let_def split: if_splits) }
  assume v: "fix_right c tmp x e = Inr v"
  show "rb_ok v \<and> black_height v = Suc (black_height e) + (if c = RB_BLACK then 1 else 0) \<and> rb_black v = (c = RB_BLACK)"
  proof (cases "rb_black l")
    case True
    with v tmp obtain a z b where "r = RbNode RB_RED a z b" by (cases r) (auto split: if_splits)
    with v tmp assms True show ?thesis by (cases c) (auto simp: Let_def set_black_id)
  next
    case False
    then obtain a z b where "l = RbNode RB_RED a z b" by (cases l) auto
    with v tmp assms show ?thesis by (cases c) (auto simp: Let_def)
  qed
qed

lemma remove_colour_inv:
  assumes "rb_ok (set_colour RB_BLACK e)" "path_inv (Suc (black_height e)) p"
  shows "rb_inv (rb_remove_colour e p)"
  using assms
proof (induction e p rule: rb_remove_colour.induct)
  case (1 e)
  then show ?case by (cases e) (simp_all add: rb_inv_def)
next
  case (2 e f p)
  show ?case
  proof (cases "rb_black e")
    case False
    then obtain l x r where "e = RbNode RB_RED l x r" by (cases e) auto
    with 2(5,6) False plug_inv[of "set_colour RB_BLACK e" "f # p"] show ?thesis by (simp add: fits_def)
  next
    case e: True
    with 2(5) have ok: "rb_ok e" by (simp add: set_black_id)
    show ?thesis
    proof (cases f)
      case (InLeft c x tmp)
      with 2(6) have tmp: "rb_ok tmp" "black_height tmp = Suc (black_height e)" "c = RB_RED \<longrightarrow> rb_black tmp \<and> black_top p"
        "path_inv (if c = RB_BLACK then Suc (Suc (black_height e)) else Suc (black_height e)) p" by auto
      obtain d l y r where n: "tmp = RbNode d l y r" using tmp(2) by (cases tmp) auto
      show ?thesis
      proof (cases d)
        case RB_RED
        with n tmp have l: "rb_ok l" "rb_black l" "black_height l = Suc (black_height e)" "c = RB_BLACK"
          "rb_ok r" "rb_black r" "black_height r = Suc (black_height e)" by auto
        note fx = fix_left_inv[OF ok e l(1-3), of RB_RED x]
        show ?thesis
        proof (cases "fix_left RB_RED e x l")
          case (Inl u)
          from fx(1)[OF Inl] obtain a z b where "u = RbNode RB_RED a z b" by (cases u) auto
          with fx(1)[OF Inl] l tmp(4) have "rb_inv (rb_plug (set_colour RB_BLACK u) (InLeft RB_BLACK y r # p))"
            by (intro plug_inv) (auto simp: fits_def)
          with e InLeft n RB_RED Inl show ?thesis by simp
        next
          case (Inr v)
          from fx(2)[OF Inr] l tmp(4) have "rb_inv (set_colour RB_BLACK (rb_plug v (InLeft RB_BLACK y r # p)))"
            by (intro plug_black_inv) (auto simp: fits_def)
          with e InLeft n RB_RED Inr show ?thesis by simp
        qed
      next
        case RB_BLACK
        with n have b: "rb_black tmp" by simp
        note fx = fix_left_inv[OF ok e tmp(1) b tmp(2), of c x]
        show ?thesis
        proof (cases "fix_left c e x tmp")
          case (Inl u)
          with fx(1)[OF Inl] tmp(4) 2(2)[of c x tmp RB_BLACK l y r u] e InLeft n RB_BLACK show ?thesis
            by (cases c) auto
        next
          case (Inr v)
          from fx(2)[OF Inr] tmp(3,4) have "rb_inv (set_colour RB_BLACK (rb_plug v p))"
            by (intro plug_black_inv) (cases c; auto simp: fits_def)+
          with e InLeft n RB_BLACK Inr show ?thesis by simp
        qed
      qed
    next
      case (InRight c tmp x)
      with 2(6) have tmp: "rb_ok tmp" "black_height tmp = Suc (black_height e)" "c = RB_RED \<longrightarrow> rb_black tmp \<and> black_top p"
        "path_inv (if c = RB_BLACK then Suc (Suc (black_height e)) else Suc (black_height e)) p" by auto
      obtain d l y r where n: "tmp = RbNode d l y r" using tmp(2) by (cases tmp) auto
      show ?thesis
      proof (cases d)
        case RB_RED
        with n tmp have r: "rb_ok r" "rb_black r" "black_height r = Suc (black_height e)" "c = RB_BLACK"
          "rb_ok l" "rb_black l" "black_height l = Suc (black_height e)" by auto
        note fx = fix_right_inv[OF ok e r(1-3), of RB_RED x]
        show ?thesis
        proof (cases "fix_right RB_RED r x e")
          case (Inl u)
          from fx(1)[OF Inl] obtain a z b where "u = RbNode RB_RED a z b" by (cases u) auto
          with fx(1)[OF Inl] r tmp(4) have "rb_inv (rb_plug (set_colour RB_BLACK u) (InRight RB_BLACK l y # p))"
            by (intro plug_inv) (auto simp: fits_def)
          with e InRight n RB_RED Inl show ?thesis by simp
        next
          case (Inr v)
          from fx(2)[OF Inr] r tmp(4) have "rb_inv (set_colour RB_BLACK (rb_plug v (InRight RB_BLACK l y # p)))"
            by (intro plug_black_inv) (auto simp: fits_def)
          with e InRight n RB_RED Inr show ?thesis by simp
        qed
      next
        case RB_BLACK
        with n have b: "rb_black tmp" by simp
        note fx = fix_right_inv[OF ok e tmp(1) b tmp(2), of c x]
        show ?thesis
        proof (cases "fix_right c tmp x e")
          case (Inl u)
          with fx(1)[OF Inl] tmp(4) 2(4)[of c tmp x RB_BLACK l y r u] e InRight n RB_BLACK show ?thesis
            by (cases c) auto
        next
          case (Inr v)
          from fx(2)[OF Inr] tmp(3,4) have "rb_inv (set_colour RB_BLACK (rb_plug v p))"
            by (intro plug_black_inv) (cases c; auto simp: fits_def)+
          with e InRight n RB_BLACK Inr show ?thesis by simp
        qed
      qed
    qed
  qed
qed

text \<open>A position in a balanced tree.\<close>

definition pos_inv :: "'a rb \<Rightarrow> 'a rb_frame list \<Rightarrow> bool" where
  "pos_inv t p \<longleftrightarrow> rb_ok t \<and> path_inv (black_height t) p \<and> fits t p"

lemma pos_inv_root: "pos_inv t [] \<longleftrightarrow> rb_inv t"
  by (simp add: pos_inv_def rb_inv_def fits_def)

lemma pos_inv_down:
  "pos_inv (RbNode c l x r) p \<Longrightarrow> pos_inv l (InLeft c x r # p)"
  "pos_inv (RbNode c l x r) p \<Longrightarrow> pos_inv r (InRight c l x # p)"
  by (cases c; force simp: pos_inv_def fits_def)+

lemma leftmost_pos_inv: "rb_leftmost t p = (t', p') \<Longrightarrow> pos_inv t p \<Longrightarrow> pos_inv t' p'"
proof (induction t p rule: rb_leftmost.induct)
  case (1 c d l y m x r p)
  then show ?case using pos_inv_down(1)[of c "RbNode d l y m" x r p] by simp
qed auto

lemma unlink_inv:
  assumes "pos_inv (RbNode c l x r) p" "t = l \<and> r = RbNil \<or> t = r \<and> l = RbNil"
  shows "rb_inv (rb_unlink c t p)"
proof (cases c)
  case RB_BLACK
  have "rb_ok (set_colour RB_BLACK t)" "path_inv (Suc (black_height t)) p"
    using assms RB_BLACK set_black_ok[of t] by (auto simp: pos_inv_def rb_inv_def)
  then show ?thesis using RB_BLACK by (simp add: rb_unlink_def remove_colour_inv)
next
  case RB_RED
  with assms have "rb_ok t" "path_inv (black_height t) p" "fits t p" by (auto simp: pos_inv_def fits_def)
  then show ?thesis using RB_RED by (simp add: rb_unlink_def plug_inv)
qed

lemma remove_inv:
  assumes "pos_inv (RbNode c l x r) p"
  shows "rb_inv (RB_REMOVE (RbNode c l x r) p)"
proof (cases "l = RbNil \<or> r = RbNil")
  case True
  with assms unlink_inv[OF assms] show ?thesis by auto
next
  case False
  then obtain d l' y r' where r: "r = RbNode d l' y r'" by (cases r) auto
  obtain t q where lm: "rb_leftmost r [] = (t, q)" by fastforce
  obtain e z s where t: "t = RbNode e RbNil z s" using leftmost_node[OF lm[unfolded r]] by blast
  have app: "rb_leftmost u v = (t, w) \<Longrightarrow> rb_leftmost u (v @ k) = (t, w @ k)" for u :: "'a rb" and v k w
    by (induction u v rule: rb_leftmost.induct) auto
  have "pos_inv (RbNode c l z r) p" using assms by (cases c) (auto simp: pos_inv_def fits_def)
  then have "pos_inv t (q @ InRight c l z # p)"
    using leftmost_pos_inv[OF app[OF lm, of "InRight c l z # p"]] pos_inv_down(2)[of c l z r p] by simp
  then have "rb_inv (rb_unlink e s (q @ InRight c l z # p))" unfolding t by (rule unlink_inv) simp
  with False lm t show ?thesis by auto
qed

text \<open>So a search takes a number of steps that is logarithmic in the number of elements.\<close>

fun rb_height :: "'a rb \<Rightarrow> nat" where
  "rb_height RbNil = 0"
| "rb_height (RbNode c l x r) = Suc (max (rb_height l) (rb_height r))"

lemma height_black: "rb_ok t \<Longrightarrow> rb_height t \<le> 2 * black_height t + (if rb_black t then 0 else 1)"
proof (induction t)
  case (RbNode c l x r)
  then show ?case by (cases c) (auto split: if_splits)
qed simp

lemma size_black: "rb_ok t \<Longrightarrow> 2 ^ black_height t \<le> length (rb_inorder t) + 1"
proof (induction t)
  case (RbNode c l x r)
  then show ?case by (cases c) auto
qed simp

lemma height_bound: "rb_inv t \<Longrightarrow> 2 ^ rb_height t \<le> (length (rb_inorder t) + 1) ^ 2"
proof -
  assume t: "rb_inv t"
  then have "rb_height t \<le> 2 * black_height t" using height_black[of t] by (simp add: rb_inv_def)
  then have "(2::nat) ^ rb_height t \<le> (2 ^ black_height t) ^ 2"
    by (metis mult.commute one_le_numeral power_increasing power_mult)
  also have "\<dots> \<le> (length (rb_inorder t) + 1) ^ 2"
    using size_black[of t] t by (intro power_mono) (simp_all add: rb_inv_def)
  finally show ?thesis .
qed

section \<open>Traversal\<close>

lemma leftmost_inorder:
  "rb_leftmost t p = (RbNode c l x r, p') \<Longrightarrow> before p' = before p \<and> l = RbNil"
  by (induction t p rule: rb_leftmost.induct) auto

lemma min_hd:
  assumes "RB_MIN t = (RbNode c l x r, p)"
  shows "rb_inorder t = x # rb_inorder r @ behind p" "l = RbNil" "before p = []"
  using assms leftmost_inorder[of t "[]" c l x r p] leftmost_plug[of t "[]" "RbNode c l x r" p] inorder_plug[of "RbNode c l x r" p]
  by (auto simp: RB_MIN_def)

lemma min_nil: "RB_MIN t = (RbNil, p) \<Longrightarrow> t = RbNil"
proof -
  have "rb_leftmost t q = (RbNil, p) \<Longrightarrow> t = RbNil" for q by (induction t q rule: rb_leftmost.induct) auto
  then show "RB_MIN t = (RbNil, p) \<Longrightarrow> t = RbNil" by (simp add: RB_MIN_def)
qed

text \<open>The next element as \<open>RB_NEXT\<close> finds it is the next one in the order.\<close>

lemma up_next:
  "rb_up t p = (RbNode c l x r, p') \<Longrightarrow> behind p = x # rb_inorder r @ behind p'"
  "rb_up t p = (RbNil, p') \<Longrightarrow> behind p = []"
  by (induction t p rule: rb_up.induct) auto

lemma next_inorder:
  assumes "RB_NEXT (RbNode c l x r) p = (t, p')"
  shows "rb_inorder r @ behind p = (case t of RbNil \<Rightarrow> [] | RbNode d m y s \<Rightarrow> y # rb_inorder s @ behind p')"
proof (cases r)
  case RbNil
  with assms up_next[of "RbNode c l x r" p] show ?thesis by (cases t) auto
next
  case (RbNode d m y s)
  with assms have lm: "rb_leftmost r (InRight c l x # p) = (t, p')" by simp
  obtain e z u where t: "t = RbNode e RbNil z u" using leftmost_node[OF lm[unfolded RbNode]] by blast
  from lm t leftmost_inorder[of r _ e RbNil z u p'] have b: "before p' = before p @ rb_inorder l @ [x]" by simp
  from leftmost_plug[OF lm] inorder_plug[of t p'] inorder_plug[of r "InRight c l x # p"] t b show ?thesis by simp
qed

text \<open>
  Taking out the least element leaves the one that \<open>RB_NEXT\<close> finds from the links it keeps as the least
  of the new tree: the loop that removes what it visits visits everything.
\<close>

lemma next_of_removed:
  assumes "RB_MIN t = (RbNode c l x r, p)"
  shows "rb_inorder t = x # rb_inorder (RB_REMOVE (RbNode c l x r) p)"
    "fst (RB_NEXT (RbNode c l x r) p) = RbNil \<longleftrightarrow> RB_REMOVE (RbNode c l x r) p = RbNil"
    "fst (RB_NEXT (RbNode c l x r) p) = RbNode d m y s \<Longrightarrow>
       rb_item (fst (RB_MIN (RB_REMOVE (RbNode c l x r) p))) = y"
proof -
  let ?t = "RB_REMOVE (RbNode c l x r) p"
  have i: "rb_inorder ?t = rb_inorder r @ behind p" using inorder_remove[of c l x r p] min_hd[OF assms] by simp
  show "rb_inorder t = x # rb_inorder ?t" using i min_hd[OF assms] by simp
  obtain n q where n: "RB_NEXT (RbNode c l x r) p = (n, q)" by fastforce
  have empty: "rb_inorder u = [] \<longleftrightarrow> u = RbNil" for u :: "'a rb" by (cases u) auto
  from next_inorder[OF n] i empty[of ?t] n show "fst (RB_NEXT (RbNode c l x r) p) = RbNil \<longleftrightarrow> ?t = RbNil"
    by (cases n) auto
  assume "fst (RB_NEXT (RbNode c l x r) p) = RbNode d m y s"
  with n next_inorder[OF n] i have y: "rb_inorder ?t = y # rb_inorder s @ behind q" by simp
  obtain u v where m: "RB_MIN ?t = (u, v)" by fastforce
  with y min_nil[of ?t v] have "u \<noteq> RbNil" by auto
  with m min_hd(1)[of ?t] y show "rb_item (fst (RB_MIN ?t)) = y" by (cases u) auto
qed

section \<open>Search in an order\<close>

text \<open>What a comparison promises that orders the elements \<open>P\<close>, as every user of the macros should provide.\<close>

locale rb_order =
  fixes cmp :: "'a \<Rightarrow> 'a \<Rightarrow> int" and P :: "'a \<Rightarrow> bool"
  assumes cmp_swap: "P x \<Longrightarrow> P y \<Longrightarrow> cmp x y < 0 \<longleftrightarrow> cmp y x > 0"
    and cmp_trans: "P x \<Longrightarrow> P y \<Longrightarrow> P z \<Longrightarrow> cmp x y < 0 \<Longrightarrow> cmp y z < 0 \<Longrightarrow> cmp x z < 0"
    and cmp_equal: "P x \<Longrightarrow> P y \<Longrightarrow> P z \<Longrightarrow> cmp x y = 0 \<Longrightarrow> cmp y z < 0 \<Longrightarrow> cmp x z < 0"
begin

definition ordered :: "'a rb \<Rightarrow> bool" where
  "ordered t \<longleftrightarrow> (\<forall>x\<in>set (rb_inorder t). P x) \<and> sorted_wrt (\<lambda>x y. cmp x y < 0) (rb_inorder t)"

lemma cmp_equal_right: "P x \<Longrightarrow> P y \<Longrightarrow> P z \<Longrightarrow> cmp x y < 0 \<Longrightarrow> cmp y z = 0 \<Longrightarrow> cmp x z < 0"
  by (metis cmp_equal cmp_swap linorder_neqE_linordered_idom cmp_trans)

lemma descend_order:
  assumes "rb_descend cmp e t p = (t', p')" "P e" "ordered (rb_plug t p)"
    "\<forall>x\<in>set (before p). cmp x e < 0" "\<forall>x\<in>set (behind p). cmp e x < 0"
  shows "(\<forall>x\<in>set (before p'). t' = RbNil \<longrightarrow> cmp x e < 0) \<and> (\<forall>x\<in>set (behind p'). t' = RbNil \<longrightarrow> cmp e x < 0)"
  using assms
proof (induction t arbitrary: p)
  case (RbNode c l x r)
  have o: "\<forall>y\<in>set (rb_inorder l). P y \<and> cmp y x < 0" "\<forall>y\<in>set (rb_inorder r). P y \<and> cmp x y < 0" "P x"
    "\<forall>y\<in>set (before p). P y" "\<forall>y\<in>set (behind p). P y"
    using RbNode.prems(3) by (auto simp: ordered_def inorder_plug sorted_wrt_append)
  show ?case
  proof (cases "cmp e x < 0")
    case True
    have "\<forall>y\<in>set (behind (InLeft c x r # p)). cmp e y < 0"
      using True o RbNode.prems(2,5) cmp_trans[of e x] by auto
    with True RbNode.IH(1)[of "InLeft c x r # p"] RbNode.prems show ?thesis by (simp add: Let_def)
  next
    case ge: False
    show ?thesis
    proof (cases "cmp e x > 0")
      case True
      then have x: "cmp x e < 0" using cmp_swap RbNode.prems(2) o(3) by blast
      have "\<forall>y\<in>set (before (InRight c l x # p)). cmp y e < 0"
        using x o RbNode.prems(2,4) cmp_trans[of _ x e] by auto
      with True ge RbNode.IH(2)[of "InRight c l x # p"] RbNode.prems show ?thesis by (simp add: Let_def)
    next
      case False
      with ge RbNode.prems(1) show ?thesis by (auto simp: Let_def)
    qed
  qed
qed simp

lemma insert_ordered:
  assumes "ordered t" "P e"
  shows "ordered (snd (RB_INSERT cmp e t))"
proof -
  obtain t' p where d: "rb_descend cmp e t [] = (t', p)" by fastforce
  show ?thesis
  proof (cases t')
    case RbNil
    have "rb_inorder t = before p @ behind p" using descend_plug[OF d] inorder_plug[of RbNil p] RbNil by simp
    with descend_order[OF d assms(2)] assms d RbNil show ?thesis
      by (auto simp: RB_INSERT_def ordered_def inorder_insert_colour sorted_wrt_append)
  qed (use d assms(1) in \<open>simp add: RB_INSERT_def\<close>)
qed

lemma find_complete:
  assumes "ordered t" "P e" "x \<in> set (rb_inorder t)" "cmp e x = 0"
  shows "RB_FIND cmp e t = Some x"
proof -
  obtain t' p where d: "rb_descend cmp e t [] = (t', p)" by fastforce
  have i: "rb_inorder t = before p @ rb_inorder t' @ behind p" using descend_plug[OF d] inorder_plug[of t' p] by simp
  have neq: "\<not> cmp x e < 0" "\<not> cmp e x < 0"
    using assms cmp_swap[of x e] by (auto simp: ordered_def)
  show ?thesis
  proof (cases t')
    case RbNil
    with descend_order[OF d assms(2)] assms(1,3) i neq show ?thesis by auto
  next
    case (RbNode c l y r)
    have y: "cmp e y = 0" "y \<in> set (rb_inorder t)" using descend_plug[OF d] RbNode i by auto
    have "x = y"
    proof (rule ccontr)
      assume "x \<noteq> y"
      with assms(1,3) y(2) have "cmp x y < 0 \<or> cmp y x < 0"
        by (auto simp: ordered_def sorted_wrt_iff_nth_less in_set_conv_nth) (metis linorder_neqE_nat)
      moreover have "P x" "P y" using assms(1,3) y(2) by (auto simp: ordered_def)
      ultimately show False using cmp_equal[of e x y] cmp_equal[of e y x] assms(2,4) y(1) by auto
    qed
    with d RbNode show ?thesis by (simp add: RB_FIND_def)
  qed
qed

end

end
