(* ===== verification/Aggregate.thy ===== *)
theory Aggregate
  imports RbTree Strings
begin

text \<open>
  Groups of ports of the traffic collector (\<open>src/src/cnupm/cnupm/aggr_port.c\<close>, \<open>aggregate.h\<close>): traffic to a
  port in a range is counted as traffic to the port of the range.  The ranges stand in a red-black tree
  by width and first port; shown is that the comparison is an order, so that the tree is sorted and
  the narrowest range decides, and that the text of an option gives the groups it names.
  Ports are numbers below 65536; \<open>errno\<close> is left out.
\<close>

record aggr_port_entry =
  ap_first :: int
  ap_last :: int
  ap_port :: int

record ports =
  ap_tree :: "aggr_port_entry rb"
  ap_spare :: bool

definition aggr_port_compare :: "aggr_port_entry \<Rightarrow> aggr_port_entry \<Rightarrow> int" where
  "aggr_port_compare a b =
     (let ad = ap_last a - ap_first a; bd = ap_last b - ap_first b
      in if ad < bd then - 1
         else if ad > bd then 1
         else if ap_first a < ap_first b then - 1
         else if ap_first a > ap_first b then 1
         else 0)"

definition aggr_port_init :: "'a os_scheme \<Rightarrow> ports \<times> 'a os_scheme" where
  "aggr_port_init w = (case sys_alloc w of (mem, w) \<Rightarrow> (\<lparr>ap_tree = RbNil, ap_spare = mem\<rparr>, w))"

definition aggr_port_final :: "ports \<Rightarrow> ports" where
  "aggr_port_final st = st\<lparr>ap_spare := False\<rparr>"

text \<open>The entry to insert is allocated beforehand; a range that is there already keeps its port.\<close>

definition aggr_port_add :: "int \<Rightarrow> int \<Rightarrow> int \<Rightarrow> ports \<Rightarrow> 'a os_scheme \<Rightarrow> int \<times> ports \<times> 'a os_scheme" where
  "aggr_port_add first lst port st w =
     (if first > lst then (- 1, st, w)
      else if \<not> ap_spare st then (- 1, st, w)
      else (case RB_INSERT aggr_port_compare \<lparr>ap_first = first, ap_last = lst, ap_port = port\<rparr> (ap_tree st) of
          (None, t) \<Rightarrow> (case sys_alloc w of (mem, w) \<Rightarrow> (0, \<lparr>ap_tree = t, ap_spare = mem\<rparr>, w))
        | (Some _, t) \<Rightarrow> (1, st, w)))"

definition in_range :: "int \<Rightarrow> aggr_port_entry \<Rightarrow> bool" where
  "in_range port g \<longleftrightarrow> port \<ge> ap_first g \<and> port \<le> ap_last g"

definition group_port :: "int \<Rightarrow> aggr_port_entry \<Rightarrow> int" where
  "group_port port g = (if ap_port g \<noteq> 0 then ap_port g else port)"

definition aggr_port :: "aggr_port_entry rb \<Rightarrow> int \<Rightarrow> int" where
  "aggr_port t port = (case find (in_range port) (rb_inorder t) of None \<Rightarrow> port | Some g \<Rightarrow> group_port port g)"

section \<open>The option\<close>

text \<open>A number of the option: the text at which an error is reported, or the value and what follows it.\<close>

definition at_end :: "string \<Rightarrow> string \<Rightarrow> bool" where
  "at_end stops ep \<longleftrightarrow> (case ep of [] \<Rightarrow> True | c # _ \<Rightarrow> c \<in> set stops)"

definition read_port :: "int \<Rightarrow> string \<Rightarrow> bool \<Rightarrow> string \<Rightarrow> string + int \<times> string" where
  "read_port low stops empty_ok expr =
     (case strtol expr 10 of (lval, ep) \<Rightarrow>
       if \<not> at_end stops ep \<or> \<not> empty_ok \<and> expr = [] then Inl ep
       else if lval < low \<or> lval > 65535 then Inl expr
       else Inr (lval, ep))"

text \<open>One group: the error position, or the range, its port and what follows.\<close>

definition after :: "char \<Rightarrow> string \<Rightarrow> string option" where
  "after c ep = (case ep of [] \<Rightarrow> None | d # rest \<Rightarrow> if d = c then Some rest else None)"

definition read_last :: "int \<Rightarrow> string \<Rightarrow> string + int \<times> string" where
  "read_last first ep = (case after (CHR ''-'') ep of
      Some rest \<Rightarrow> read_port 1 '',:'' False rest | None \<Rightarrow> Inr (first, ep))"

definition read_target :: "string \<Rightarrow> string + int \<times> string" where
  "read_target ep = (case after (CHR '':'') ep of
      Some rest \<Rightarrow> read_port 0 '','' False rest | None \<Rightarrow> Inr (0, ep))"

definition read_comma :: "string \<Rightarrow> string + string" where
  "read_comma ep = (case after (CHR '','') ep of
      Some rest \<Rightarrow> if rest = [] then Inl ep else Inr rest | None \<Rightarrow> Inr ep)"

definition read_group :: "string \<Rightarrow> string + (int \<times> int \<times> int) \<times> string" where
  "read_group expr = (case read_port 1 ''-,:'' True expr of
      Inl e \<Rightarrow> Inl e
    | Inr (first, ep) \<Rightarrow> (case read_last first ep of
        Inl e \<Rightarrow> Inl e
      | Inr (lst, ep) \<Rightarrow> (case read_target ep of
          Inl e \<Rightarrow> Inl e
        | Inr (port, ep) \<Rightarrow> (case read_comma ep of
            Inl e \<Rightarrow> Inl e
          | Inr rest \<Rightarrow> Inr ((first, lst, port), rest)))))"

lemma scan_digits_shrinks: "length (snd (scan_digits b r n)) \<le> length r"
  by (induction b r n rule: scan_digits.induct) auto

lemma scan_digits_step: "r \<noteq> [] \<Longrightarrow> is_digit b (hd r) \<Longrightarrow> length (snd (scan_digits b r n)) < length r"
  by (cases r) (auto simp: le_imp_less_Suc scan_digits_shrinks)

lemma scan_sign_shrinks: "length (snd (scan_sign s)) \<le> length s"
  by (cases s) (auto simp: scan_sign_def)

lemma strtol_shrinks: "strtol s 10 = (v, e) \<Longrightarrow> length e \<le> length s \<and> (v \<noteq> 0 \<longrightarrow> length e < length s)"
proof -
  assume v: "strtol s 10 = (v, e)"
  show ?thesis
  proof (cases "scan_int 10 s")
    case (Some a)
    obtain neg r where r: "scan_sign (dropWhile isspace s) = (neg, r)" by fastforce
    have "length r \<le> length s"
      using scan_sign_shrinks[of "dropWhile isspace s"] r length_dropWhile_le[of isspace s] by simp
    with Some r v scan_digits_step[of r 10 0] show ?thesis
      by (auto simp: strtol_def scan_int_def Let_def split: if_splits prod.splits)
  qed (use v in \<open>simp add: strtol_def\<close>)
qed

lemma read_port_shrinks:
  "read_port low stops b s = Inr (v, e) \<Longrightarrow> length e \<le> length s \<and> (1 \<le> low \<longrightarrow> length e < length s)"
  using strtol_shrinks[of s] by (fastforce simp: read_port_def split: prod.splits if_splits)

lemma after_shrinks: "after c s = Some r \<Longrightarrow> length r < length s"
  by (auto simp: after_def split: list.splits if_splits)

lemma read_parts_shrink:
  "read_last f s = Inr (v, e) \<Longrightarrow> length e \<le> length s"
  "read_target s = Inr (v, e) \<Longrightarrow> length e \<le> length s"
  "read_comma s = Inr e \<Longrightarrow> length e \<le> length s"
  by (force simp: read_last_def read_target_def read_comma_def split: option.splits if_splits
      dest: read_port_shrinks after_shrinks)+

lemma read_group_shrinks: "read_group s = Inr (g, e) \<Longrightarrow> length e < length s"
  by (fastforce simp: read_group_def split: sum.splits dest: read_port_shrinks read_parts_shrink)

function aggr_port_compile :: "string \<Rightarrow> ports \<Rightarrow> 'a os_scheme \<Rightarrow> string option \<times> ports \<times> 'a os_scheme" where
  "aggr_port_compile expr st w =
     (if expr = [] then (None, st, w)
      else (case read_group expr of
          Inl e \<Rightarrow> (Some e, st, w)
        | Inr ((first, lst, port), rest) \<Rightarrow>
            (let r = aggr_port_add first lst port st w
             in if fst r < 0 then (Some expr, fst (snd r), snd (snd r))
                else aggr_port_compile rest (fst (snd r)) (snd (snd r)))))"
  by pat_completeness auto
termination
  by (relation "measure (\<lambda>(expr, _, _). length expr)") (auto dest: read_group_shrinks)

declare aggr_port_compile.simps [simp del]

section \<open>The narrowest range decides\<close>

interpretation ports: rb_order aggr_port_compare "\<lambda>_. True"
  by unfold_locales (auto simp: aggr_port_compare_def Let_def split: if_splits)

lemma compare_zero: "aggr_port_compare a b = 0 \<longleftrightarrow> ap_first a = ap_first b \<and> ap_last a = ap_last b"
  by (auto simp: aggr_port_compare_def Let_def)

lemma compare_self [simp]: "aggr_port_compare a a = 0"
  by (simp add: compare_zero)

type_synonym port_group = "int \<times> int \<times> int"

definition range_of_group :: "port_group \<Rightarrow> aggr_port_entry" where
  "range_of_group g = (case g of (f, l, p) \<Rightarrow> \<lparr>ap_first = f, ap_last = l, ap_port = p\<rparr>)"

definition width :: "aggr_port_entry \<Rightarrow> int" where
  "width g = ap_last g - ap_first g"

definition narrower_than :: "aggr_port_entry \<Rightarrow> aggr_port_entry \<Rightarrow> bool" where
  "narrower_than g b \<longleftrightarrow> width g < width b \<or> width g = width b \<and> ap_first g < ap_first b"

lemma narrower_than_compare: "narrower_than g b \<longleftrightarrow> aggr_port_compare g b < 0"
  by (auto simp: narrower_than_def width_def aggr_port_compare_def Let_def)

definition narrower :: "int \<Rightarrow> aggr_port_entry \<Rightarrow> aggr_port_entry option \<Rightarrow> aggr_port_entry option" where
  "narrower port g best =
     (if in_range port g \<and> (case best of None \<Rightarrow> True | Some b \<Rightarrow> narrower_than g b) then Some g else best)"

lemma narrower_simps:
  "narrower port g None = (if in_range port g then Some g else None)"
  "narrower port g (Some b) = (if in_range port g \<and> narrower_than g b then Some g else Some b)"
  by (simp_all add: narrower_def)

text \<open>
  The reference: of the groups whose range has the port the one with the narrowest range, among these
  the one that begins lowest, and of equal ranges the one that was given first.
\<close>

definition narrowest :: "int \<Rightarrow> port_group list \<Rightarrow> aggr_port_entry option" where
  "narrowest port gs = fold (\<lambda>g. narrower port (range_of_group g)) gs None"

fun add_groups :: "port_group list \<Rightarrow> ports \<Rightarrow> 'a os_scheme \<Rightarrow> ports \<times> 'a os_scheme" where
  "add_groups [] st w = (st, w)"
| "add_groups ((f, l, p) # gs) st w = (case aggr_port_add f l p st w of (_, st, w) \<Rightarrow> add_groups gs st w)"

lemma find_sorted_insert:
  assumes "sorted_wrt (\<lambda>x y. aggr_port_compare x y < 0) (xs @ e # ys)"
  shows "find (in_range port) (xs @ e # ys) = narrower port e (find (in_range port) (xs @ ys))"
proof (cases "find (in_range port) xs")
  case None
  then have n: "find (in_range port) (xs @ zs) = find (in_range port) zs" for zs
    by (induction xs) (auto split: if_splits)
  show ?thesis
  proof (cases "find (in_range port) ys")
    case (Some b)
    then have "b \<in> set ys" by (auto simp: find_Some_iff)
    with assms have "aggr_port_compare e b < 0" by (auto simp: sorted_wrt_append)
    with Some n show ?thesis by (simp add: narrower_def narrower_than_compare)
  qed (use n in \<open>simp add: narrower_def narrower_than_compare\<close>)
next
  case (Some b)
  then have n: "find (in_range port) (xs @ zs) = Some b" for zs
    by (induction xs) (auto split: if_splits)
  from Some have "b \<in> set xs" by (auto simp: find_Some_iff)
  with assms have "aggr_port_compare b e < 0" by (auto simp: sorted_wrt_append)
  then have "\<not> aggr_port_compare e b < 0" using ports.cmp_swap[of b e] by simp
  with n show ?thesis by (simp add: narrower_def narrower_than_compare)
qed

lemma find_sorted_keep:
  assumes "sorted_wrt (\<lambda>x y. aggr_port_compare x y < 0) xs" "x \<in> set xs" "aggr_port_compare e x = 0"
  shows "narrower port e (find (in_range port) xs) = find (in_range port) xs"
proof (cases "in_range port e")
  case True
  then have x: "in_range port x" using assms(3) by (simp add: in_range_def compare_zero)
  then obtain b where b: "find (in_range port) xs = Some b"
    using assms(2) by (cases "find (in_range port) xs") (auto simp: find_None_iff)
  then obtain i j where ij: "i < length xs" "xs ! i = b" "\<forall>k<i. \<not> in_range port (xs ! k)" "j < length xs" "xs ! j = x"
    using assms(2) by (auto simp: find_Some_iff in_set_conv_nth)
  then have "i \<le> j" using x by (meson not_le_imp_less)
  then have "aggr_port_compare b x \<le> 0"
    using ij assms(1) by (cases "i = j") (auto simp: sorted_wrt_iff_nth_less intro: less_imp_le)
  then have "\<not> aggr_port_compare e b < 0"
    using assms(3) by (auto simp: aggr_port_compare_def Let_def split: if_splits)
  with b show ?thesis by (simp add: narrower_def narrower_than_compare)
qed (simp add: narrower_def narrower_than_compare)

lemma add_group:
  assumes "no_faults w" "ports.ordered (ap_tree st)" "ap_spare st" "f \<le> l" "aggr_port_add f l p st w = (rc, st', w')"
  shows "0 \<le> rc \<and> no_faults w' \<and> ports.ordered (ap_tree st') \<and> ap_spare st' \<and>
    find (in_range port) (rb_inorder (ap_tree st')) =
      narrower port (range_of_group (f, l, p)) (find (in_range port) (rb_inorder (ap_tree st)))"
proof -
  let ?e = "\<lparr>ap_first = f, ap_last = l, ap_port = p\<rparr>"
  obtain r t where i: "RB_INSERT aggr_port_compare ?e (ap_tree st) = (r, t)" by fastforce
  have o: "ports.ordered t" using ports.insert_ordered[OF assms(2), of ?e] i by simp
  show ?thesis
  proof (cases r)
    case None
    from insert_new[OF i[unfolded None]] obtain xs ys where
      "rb_inorder (ap_tree st) = xs @ ys" "rb_inorder t = xs @ ?e # ys" by blast
    with find_sorted_insert[of xs ?e ys port] o None i assms show ?thesis
      by (auto simp: aggr_port_add_def sys_alloc_def next_outcome_no_faults range_of_group_def ports.ordered_def)
  next
    case (Some x)
    from insert_found[OF i[unfolded Some]] find_sorted_keep[of "rb_inorder (ap_tree st)" x ?e port] Some i assms
    show ?thesis by (auto simp: aggr_port_add_def range_of_group_def ports.ordered_def)
  qed
qed

lemma add_groups_narrowest:
  assumes "no_faults w" "ports.ordered (ap_tree st)" "ap_spare st" "\<forall>(f, l, p)\<in>set gs. f \<le> l"
  shows "find (in_range port) (rb_inorder (ap_tree (fst (add_groups gs st w)))) =
    fold (\<lambda>g. narrower port (range_of_group g)) gs (find (in_range port) (rb_inorder (ap_tree st)))"
  using assms
proof (induction gs arbitrary: st w)
  case (Cons g gs)
  obtain f l p where g: "g = (f, l, p)" by (cases g)
  obtain rc st' w' where a: "aggr_port_add f l p st w = (rc, st', w')" by (metis prod_cases3)
  from add_group[OF Cons.prems(1-3) _ a, of port] Cons.prems(4) g
  have "no_faults w' \<and> ports.ordered (ap_tree st') \<and> ap_spare st' \<and>
    find (in_range port) (rb_inorder (ap_tree st')) =
      narrower port (range_of_group g) (find (in_range port) (rb_inorder (ap_tree st)))" by auto
  with Cons.IH[of w' st'] Cons.prems(4) g a show ?case by simp
qed simp

section \<open>The text of the option\<close>

text \<open>
  A group as it is written: the first port, \<open>-\<close> and the last one unless it is a single port, \<open>:\<close> and the
  target unless each port is to stand for itself; and the group it stands for.\<close>

type_synonym port_spec = "int \<times> int option \<times> int option"

definition last_text :: "int option \<Rightarrow> string" where
  "last_text l = (case l of None \<Rightarrow> [] | Some l \<Rightarrow> CHR ''-'' # dec_nat (nat l))"

definition target_text :: "int option \<Rightarrow> string" where
  "target_text p = (case p of None \<Rightarrow> [] | Some p \<Rightarrow> CHR '':'' # dec_nat (nat p))"

definition port_group_text :: "port_spec \<Rightarrow> string" where
  "port_group_text g = (case g of (f, l, p) \<Rightarrow> dec_nat (nat f) @ last_text l @ target_text p)"

definition spec_group :: "port_spec \<Rightarrow> port_group" where
  "spec_group g = (case g of (f, l, p) \<Rightarrow> (f, (case l of None \<Rightarrow> f | Some l \<Rightarrow> l), (case p of None \<Rightarrow> 0 | Some p \<Rightarrow> p)))"

fun port_groups_text :: "port_spec list \<Rightarrow> string" where
  "port_groups_text [] = []"
| "port_groups_text [g] = port_group_text g"
| "port_groups_text (g # gs) = port_group_text g @ '','' @ port_groups_text gs"

definition valid_group :: "port_group \<Rightarrow> bool" where
  "valid_group g = (case g of (f, l, p) \<Rightarrow> 1 \<le> f \<and> f \<le> l \<and> l \<le> 65535 \<and> 0 \<le> p \<and> p \<le> 65535)"

lemma strtol_dec_rest:
  assumes "n < 65536" "rest = [] \<or> \<not> is_digit 10 (hd rest)"
  shows "strtol (dec_nat n @ rest) 10 = (int n, rest)"
proof -
  obtain c u where cu: "dec_nat n = c # u" "is_digit 10 c" using dec_nat_hd[of n] by (cases "dec_nat n") auto
  note sp = digit_not_special[OF cu(2)]
  have "scan_digits 10 (dec_nat n @ rest) 0 = (n, rest)"
    using scan_digits_append[of "dec_nat n" 10 rest 0] dec_nat_digits[of n] scan_dec_nat[of n] assms(2)
    by (cases rest) auto
  with cu sp have "scan_int 10 (dec_nat n @ rest) = Some (False, n, rest)"
    by (simp add: scan_int_def scan_sign_def Let_def)
  with assms(1) show ?thesis by (simp add: strtol_def)
qed

lemma read_port_dec:
  assumes "n < 65536" "low \<le> int n" "rest = [] \<or> hd rest \<in> set stops \<and> \<not> is_digit 10 (hd rest)"
  shows "read_port low stops b (dec_nat n @ rest) = Inr (int n, rest)"
  using strtol_dec_rest[OF assms(1), of rest] dec_nat_hd[of n] assms
  by (cases rest) (auto simp: read_port_def at_end_def)

lemma no_digits: "\<not> is_digit 10 (CHR ''-'')" "\<not> is_digit 10 (CHR '':'')" "\<not> is_digit 10 (CHR '','')"
  by (simp_all add: is_digit_def digit_val_def)

lemma read_last_text:
  assumes "1 \<le> f" "f \<le> 65535" "case l of None \<Rightarrow> True | Some l \<Rightarrow> 1 \<le> l \<and> l \<le> 65535"
    and "rest = [] \<or> hd rest \<in> {CHR '','', CHR '':''}"
  shows "read_last f (last_text l @ rest) = Inr (case l of None \<Rightarrow> f | Some l \<Rightarrow> l, rest)"
proof (cases l)
  case None
  with assms(4) show ?thesis by (cases rest) (auto simp: read_last_def last_text_def after_def)
next
  case (Some k)
  with read_port_dec[of "nat k" 1 rest "'',:''" False] assms no_digits show ?thesis
    by (auto simp: read_last_def last_text_def after_def)
qed

lemma read_target_text:
  assumes "case p of None \<Rightarrow> True | Some p \<Rightarrow> 0 \<le> p \<and> p \<le> 65535" "rest = [] \<or> hd rest = CHR '',''"
  shows "read_target (target_text p @ rest) = Inr (case p of None \<Rightarrow> 0 | Some p \<Rightarrow> p, rest)"
proof (cases p)
  case None
  with assms(2) show ?thesis by (cases rest) (auto simp: read_target_def target_text_def after_def)
next
  case (Some k)
  with read_port_dec[of "nat k" 0 rest "'',''" False] assms no_digits show ?thesis
    by (auto simp: read_target_def target_text_def after_def)
qed

lemma read_group_text:
  assumes "valid_group (spec_group g)" "rest = [] \<or> (\<exists>more. rest = CHR '','' # more \<and> more \<noteq> [])"
  shows "read_group (port_group_text g @ rest) = Inr (spec_group g, if rest = [] then [] else tl rest)"
proof -
  obtain f l p where g: "g = (f, l, p)" by (cases g)
  have b: "1 \<le> f" "f \<le> 65535" "case l of None \<Rightarrow> True | Some l \<Rightarrow> 1 \<le> l \<and> l \<le> 65535"
      "case p of None \<Rightarrow> True | Some p \<Rightarrow> 0 \<le> p \<and> p \<le> 65535"
    using assms(1) g by (auto simp: valid_group_def spec_group_def split: option.splits)
  have r: "rest = [] \<or> hd rest = CHR '',''" using assms(2) by auto
  have t: "target_text p @ rest = [] \<or> hd (target_text p @ rest) \<in> {CHR '','', CHR '':''}"
    using r by (auto simp: target_text_def split: option.splits)
  have lt: "last_text l @ target_text p @ rest = [] \<or> hd (last_text l @ target_text p @ rest) \<in> {CHR ''-'', CHR '','', CHR '':''}"
    using t by (cases l) (auto simp: last_text_def)
  have 1: "read_port 1 ''-,:'' True (port_group_text g @ rest) = Inr (f, last_text l @ target_text p @ rest)"
    using read_port_dec[of "nat f" 1 "last_text l @ target_text p @ rest" "''-,:''" True] b(1,2) lt no_digits
    by (auto simp: port_group_text_def g)
  have 4: "read_comma rest = Inr (if rest = [] then [] else tl rest)"
    using assms(2) by (auto simp: read_comma_def after_def)
  show ?thesis
    using 1 read_last_text[OF b(1-3) t] read_target_text[OF b(4) r] 4 by (simp add: read_group_def spec_group_def g)
qed

lemma group_text_nonempty [simp]: "port_group_text g \<noteq> []" "port_groups_text (g # gs) \<noteq> []"
proof -
  show n: "port_group_text g \<noteq> []" for g
    using dec_nat_hd by (auto simp: port_group_text_def split: prod.splits)
  show "port_groups_text (g # gs) \<noteq> []" using n by (cases gs) auto
qed

lemma compile_text:
  assumes "no_faults w" "ap_spare st" "ports.ordered (ap_tree st)" "\<forall>g\<in>set gs. valid_group (spec_group g)"
  shows "aggr_port_compile (port_groups_text gs) st w = (None, add_groups (map spec_group gs) st w)"
  using assms
proof (induction gs arbitrary: st w rule: port_groups_text.induct)
  case (1 st w)
  then show ?case by (simp add: aggr_port_compile.simps)
next
  case (2 g st w)
  obtain f l p where g: "spec_group g = (f, l, p)" by (cases "spec_group g")
  obtain rc st' w' where a: "aggr_port_add f l p st w = (rc, st', w')" by (metis prod_cases3)
  have fl: "f \<le> l" using 2(4) g by (simp add: valid_group_def)
  from read_group_text[of g "[]"] add_group[where port = 0, OF 2(1,3,2) fl a] 2(4) g a show ?case
    by (simp add: aggr_port_compile.simps[of "port_group_text _"] aggr_port_compile.simps[of "[]"] Let_def)
next
  case (3 g h gs st w)
  obtain f l p where g: "spec_group g = (f, l, p)" by (cases "spec_group g")
  obtain rc st' w' where a: "aggr_port_add f l p st w = (rc, st', w')" by (metis prod_cases3)
  have fl: "f \<le> l" using 3(5) g by (simp add: valid_group_def)
  have "read_group (port_group_text g @ '','' @ port_groups_text (h # gs)) = Inr ((f, l, p), port_groups_text (h # gs))"
    using read_group_text[of g "'','' @ port_groups_text (h # gs)"] 3(5) g by simp
  with add_group[where port = 0, OF 3(2,4,3) fl a] 3(1)[of w' st'] 3(5) g a show ?case
    by (simp add: aggr_port_compile.simps[of "port_group_text _ @ _"] Let_def)
qed

definition demo_ports_os :: os where
  "demo_ports_os = \<lparr>files = (\<lambda>_. None), fdt = (\<lambda>_. None), nextfd = 3, script = [], clock = (\<lambda>_. None), ticks = 0,
     zcrc32 = (\<lambda>_. 0), junk = (\<lambda>_. 0)\<rparr>"

text \<open>
  C39: The option of port groups does what it says: for every list of valid groups, each written with or without
  a last port and with or without a target (in decimal, without blanks, signs or leading zeros), the compiled tree
  gives each port the target of the narrowest range that has it, the first given among equal ranges, and the port
  itself where there is none or where the group has no target (or the target 0).
\<close>

theorem port_groups_decide:
  assumes "no_faults w" "\<forall>g\<in>set gs. valid_group (spec_group g)"
  shows "\<exists>st w'. aggr_port_compile (port_groups_text gs) (fst (aggr_port_init w)) (snd (aggr_port_init w)) = (None, st, w') \<and>
    (\<forall>port. aggr_port (ap_tree st) port = (case narrowest port (map spec_group gs) of
        None \<Rightarrow> port | Some g \<Rightarrow> if ap_port g \<noteq> 0 then ap_port g else port))"
proof -
  let ?st = "\<lparr>ap_tree = RbNil, ap_spare = True\<rparr>" and ?gs = "map spec_group gs"
  have i: "aggr_port_init w = (?st, w)" using assms(1) by (simp add: aggr_port_init_def sys_alloc_def next_outcome_no_faults)
  have o: "ports.ordered (ap_tree ?st)" by (simp add: ports.ordered_def)
  have v: "\<forall>(f, l, p)\<in>set ?gs. f \<le> l" using assms(2) by (auto simp: valid_group_def)
  from compile_text[OF assms(1) _ o assms(2)] add_groups_narrowest[OF assms(1) o _ v] i show ?thesis
    by (cases "add_groups ?gs ?st w") (simp add: aggr_port_def narrowest_def group_port_def split: option.split)
qed

text \<open>The example of the manual with one more group.\<close>

theorem port_groups_decide_witness:
  "\<exists>st w'. aggr_port_compile ''1024-49151:1024,3128,6667-6669,443:80'' (fst (aggr_port_init demo_ports_os)) (snd (aggr_port_init demo_ports_os)) =
      (None, st, w') \<and>
     aggr_port (ap_tree st) 5000 = 1024 \<and> aggr_port (ap_tree st) 3128 = 3128 \<and> aggr_port (ap_tree st) 6668 = 6668 \<and>
     aggr_port (ap_tree st) 443 = 80 \<and> aggr_port (ap_tree st) 22 = 22"
proof -
  let ?gs = "[(1024, Some 49151, Some 1024), (3128, None, None), (6667, Some 6669, None), (443, None, Some 80)] :: port_spec list"
  let ?t = "''1024-49151:1024,3128,6667-6669,443:80''"
  have "dec_nat 1024 = ''1024''" "dec_nat 49151 = ''49151''" "dec_nat 3128 = ''3128''" "dec_nat 6667 = ''6667''"
    "dec_nat 6669 = ''6669''" "dec_nat 443 = ''443''" "dec_nat 80 = ''80''"
    by (simp_all add: dec_nat.simps char_of_def bit_0)
  then have t: "port_groups_text ?gs = ?t" by (simp add: port_group_text_def last_text_def target_text_def)
  have w: "no_faults demo_ports_os" by (simp add: demo_ports_os_def no_faults_def)
  have v: "\<forall>g\<in>set ?gs. valid_group (spec_group g)" by (simp add: valid_group_def spec_group_def)
  from port_groups_decide[OF w v] t obtain st w' where
    c: "aggr_port_compile ?t (fst (aggr_port_init demo_ports_os)) (snd (aggr_port_init demo_ports_os)) = (None, st, w')"
    and p: "\<forall>port. aggr_port (ap_tree st) port = (case narrowest port (map spec_group ?gs) of
      None \<Rightarrow> port | Some g \<Rightarrow> if ap_port g \<noteq> 0 then ap_port g else port)"
    by auto
  have "narrowest 5000 (map spec_group ?gs) = Some \<lparr>ap_first = 1024, ap_last = 49151, ap_port = 1024\<rparr>"
    "narrowest 3128 (map spec_group ?gs) = Some \<lparr>ap_first = 3128, ap_last = 3128, ap_port = 0\<rparr>"
    "narrowest 6668 (map spec_group ?gs) = Some \<lparr>ap_first = 6667, ap_last = 6669, ap_port = 0\<rparr>"
    "narrowest 443 (map spec_group ?gs) = Some \<lparr>ap_first = 443, ap_last = 443, ap_port = 80\<rparr>"
    "narrowest 22 (map spec_group ?gs) = None"
    by (simp_all add: narrowest_def narrower_simps in_range_def range_of_group_def narrower_than_def width_def spec_group_def)
  with c p show ?thesis by auto
qed

end
