(* ===== verification/Collect.thy ===== *)
theory Collect
  imports Aggregate Tariffs Printf
begin

text \<open>
  The counters of the traffic collector (\<open>src/src/cnupm/cnupm/collect.c\<close>, \<open>include/collect.h\<close>): each packet
  is added to the counter of its addresses, protocol and ports, and the counters are appended to a file.
  The counters live in an array of slots; the red-black tree holds the numbers of the slots in use.
  Packets are the bytes captured from the network header on.  Reading behind them, and writing to a slot
  that the tree still holds (which destroys its links), is undefined: \<open>None\<close>.
\<close>

unbundle bit_operations_syntax

section \<open>Counters\<close>

abbreviation (input) AF_UNSPEC :: byte where "AF_UNSPEC \<equiv> 0"
abbreviation (input) AF_INET :: byte where "AF_INET \<equiv> 2"
abbreviation (input) AF_INET6 :: byte where "AF_INET6 \<equiv> 24"
abbreviation (input) IPPROTO_TCP :: byte where "IPPROTO_TCP \<equiv> 6"
abbreviation (input) IPPROTO_UDP :: byte where "IPPROTO_UDP \<equiv> 17"
abbreviation (input) IPPROTO_RAW :: byte where "IPPROTO_RAW \<equiv> 255"
abbreviation (input) ENTRIES_TO_SAVE :: int where "ENTRIES_TO_SAVE \<equiv> 64"

type_synonym u16 = "16 word"

text \<open>\<open>union uniaddr\<close> as the four words of an IPv6 address; an IPv4 address is the first of them.\<close>

datatype uniaddr = UA (ua_in: u32) (ua_1: u32) (ua_2: u32) (ua_3: u32)

definition set_ua_in :: "u32 \<Rightarrow> uniaddr \<Rightarrow> uniaddr" where
  "set_ua_in a u = UA a (ua_1 u) (ua_2 u) (ua_3 u)"

record coll_traffic =
  ct_family :: byte
  ct_proto :: byte
  ct_sport :: u16
  ct_dport :: u16
  ct_src :: uniaddr
  ct_dst :: uniaddr
  ct_bytes :: u64

record collector = os +
  ct_slots :: "nat \<Rightarrow> coll_traffic"
  ct_count :: nat
  ct_head :: "nat rb"
  ct_max :: nat
  collect_start :: int
  collect_lost :: u32
  collect_need_dump :: bool
  collect_family :: byte
  collect_proto :: bool
  collect_ports :: bool
  collect_groups :: "aggr_port_entry rb"
  collect_localtime :: "int \<Rightarrow> tm"

text \<open>A difference of two unsigned words, taken as an \<open>int\<close>.\<close>

definition word_diff :: "u32 \<Rightarrow> u32 \<Rightarrow> int" where
  "word_diff a b = sint (a - b)"

fun first_diff :: "int list \<Rightarrow> int" where
  "first_diff [] = 0"
| "first_diff (d # ds) = (if d \<noteq> 0 then d else first_diff ds)"

definition ua_words :: "uniaddr \<Rightarrow> u32 list" where
  "ua_words u = [ua_in u, ua_1 u, ua_2 u, ua_3 u]"

definition num_diff :: "'n::len word \<Rightarrow> 'n word \<Rightarrow> int" where
  "num_diff a b = int (unat a) - int (unat b)"

definition ct_entry_compare :: "coll_traffic \<Rightarrow> coll_traffic \<Rightarrow> int" where
  "ct_entry_compare a b =
     (let proto = num_diff (ct_proto a) (ct_proto b);
          family = num_diff (ct_family a) (ct_family b);
          ports = [num_diff (ct_sport a) (ct_sport b), num_diff (ct_dport a) (ct_dport b)]
      in if proto \<noteq> 0 then proto
         else if family \<noteq> 0 then family
         else if ct_family a = AF_INET then
           first_diff ([word_diff (ua_in (ct_src a)) (ua_in (ct_src b)),
                        word_diff (ua_in (ct_dst a)) (ua_in (ct_dst b))] @ ports)
         else if ct_family a = AF_INET6 then
           first_diff (map2 word_diff (ua_words (ct_src a)) (ua_words (ct_src b)) @
                       map2 word_diff (ua_words (ct_dst a)) (ua_words (ct_dst b)) @ ports)
         else 0)"

definition slot_compare :: "(nat \<Rightarrow> coll_traffic) \<Rightarrow> nat \<Rightarrow> nat \<Rightarrow> int" where
  "slot_compare slots i j = ct_entry_compare (slots i) (slots j)"

text \<open>\<open>calloc\<close> clears the slots.\<close>

definition zero_traffic :: coll_traffic where
  "zero_traffic = \<lparr>ct_family = 0, ct_proto = 0, ct_sport = 0, ct_dport = 0, ct_src = UA 0 0 0 0, ct_dst = UA 0 0 0 0, ct_bytes = 0\<rparr>"

definition collect_init :: "bool \<Rightarrow> 'a collector_scheme \<Rightarrow> int \<times> 'a collector_scheme" where
  "collect_init alloc w =
     (case sys_time (w\<lparr>ct_count := 0, collect_need_dump := False\<rparr>) of (t, w) \<Rightarrow>
      (let w = w\<lparr>collect_start := t, ct_head := RbNil\<rparr>
       in if alloc
          then (case sys_alloc (w\<lparr>collect_lost := 0\<rparr>) of (mem, w) \<Rightarrow>
            if mem then (0, w\<lparr>ct_slots := (\<lambda>_. zero_traffic)\<rparr>) else (- 1, w))
          else (0, w)))"

section \<open>Packets\<close>

definition get8 :: "byte list \<Rightarrow> nat \<Rightarrow> byte option" where
  "get8 p i = (if i < length p then Some (p ! i) else None)"

text \<open>A field in network order, as a number.\<close>

definition get16 :: "byte list \<Rightarrow> nat \<Rightarrow> nat option" where
  "get16 p i = (case (get8 p i, get8 p (i + 1)) of
      (Some h, Some l) \<Rightarrow> Some (256 * unat h + unat l) | _ \<Rightarrow> None)"

text \<open>Four bytes as the machine loads them.\<close>

definition get32 :: "byte list \<Rightarrow> nat \<Rightarrow> u32 option" where
  "get32 p i = (if i + 4 \<le> length p then Some (word_of_nat (un_le (take 4 (drop i p)))) else None)"

definition get_ua6 :: "byte list \<Rightarrow> nat \<Rightarrow> uniaddr option" where
  "get_ua6 p i = (case (get32 p i, get32 p (i + 4), get32 p (i + 8), get32 p (i + 12)) of
      (Some a, Some b, Some c, Some d) \<Rightarrow> Some (UA a b c d) | _ \<Rightarrow> None)"

text \<open>\<open>htons\<close> of a 16-bit number.\<close>

definition htons :: "int \<Rightarrow> u16" where
  "htons n = (let n = nat (n mod 65536) in word_of_nat (256 * (n mod 256) + n div 256))"

text \<open>
  The slot filled from an IPv4 header: addresses, protocol and length; and where the transport header
  is, which only the first fragment has.
\<close>

definition fill_inet :: "bool \<Rightarrow> byte list \<Rightarrow> coll_traffic \<Rightarrow> (coll_traffic \<times> nat option) option" where
  "fill_inet proto p e =
     (case (get32 p 12, get32 p 16, get8 p 9, get16 p 2, get16 p 6, get8 p 0) of
        (Some src, Some dst, Some pr, Some len, Some off, Some vhl) \<Rightarrow>
          Some (e\<lparr>ct_src := set_ua_in src (ct_src e), ct_dst := set_ua_in dst (ct_dst e),
                  ct_proto := (if proto then pr else IPPROTO_RAW), ct_bytes := word_of_nat len\<rparr>,
                if off mod 8192 = 0 then Some (unat (vhl AND 15) * 4) else None)
      | _ \<Rightarrow> None)"

definition fill_inet6 :: "byte list \<Rightarrow> coll_traffic \<Rightarrow> (coll_traffic \<times> nat option) option" where
  "fill_inet6 p e =
     (case (get_ua6 p 8, get_ua6 p 24, get8 p 6, get16 p 4) of
        (Some src, Some dst, Some pr, Some len) \<Rightarrow>
          Some (e\<lparr>ct_src := src, ct_dst := dst, ct_proto := pr, ct_bytes := word_of_nat len\<rparr>, Some 40)
      | _ \<Rightarrow> None)"

definition fill_ports :: "bool \<Rightarrow> bool \<Rightarrow> aggr_port_entry rb \<Rightarrow> byte list \<Rightarrow> nat option \<Rightarrow> coll_traffic \<Rightarrow> coll_traffic option" where
  "fill_ports proto ports groups p off e =
     (case off of
        Some i \<Rightarrow>
          if proto \<and> ports \<and> (ct_proto e = IPPROTO_TCP \<or> ct_proto e = IPPROTO_UDP)
          then (case (get16 p i, get16 p (i + 2)) of
              (Some s, Some d) \<Rightarrow> Some (e\<lparr>ct_sport := htons (aggr_port groups (int s)),
                                          ct_dport := htons (aggr_port groups (int d))\<rparr>)
            | _ \<Rightarrow> None)
          else Some (e\<lparr>ct_sport := 0, ct_dport := 0\<rparr>)
      | None \<Rightarrow> Some (e\<lparr>ct_sport := 0, ct_dport := 0\<rparr>))"

text \<open>The whole entry of a packet, over the earlier contents of its slot.\<close>

definition packet_entry :: "byte \<Rightarrow> byte list \<Rightarrow> coll_traffic \<Rightarrow> 'a collector_scheme \<Rightarrow> coll_traffic option" where
  "packet_entry family p e w =
     (case (if family = AF_INET then fill_inet (collect_proto w) p e else fill_inet6 p e) of
        None \<Rightarrow> None
      | Some (e, off) \<Rightarrow>
          fill_ports (collect_proto w) (collect_ports w) (collect_groups w) p off (e\<lparr>ct_family := family\<rparr>))"

text \<open>The slot behind those in use takes the entry; it stays in use when the tree has no entry of the same key.\<close>

definition book_entry :: "coll_traffic \<Rightarrow> 'a collector_scheme \<Rightarrow> 'a collector_scheme" where
  "book_entry e w =
     (let n = ct_count w; slots = (ct_slots w)(n := e)
      in case RB_INSERT (slot_compare slots) n (ct_head w) of
           (Some i, t) \<Rightarrow> w\<lparr>ct_slots := slots(i := (slots i)\<lparr>ct_bytes := ct_bytes (slots i) + ct_bytes e\<rparr>)\<rparr>
         | (None, t) \<Rightarrow> w\<lparr>ct_slots := slots, ct_head := t, ct_count := n + 1\<rparr>)"

definition collect :: "byte \<Rightarrow> byte list \<Rightarrow> 'a collector_scheme \<Rightarrow> 'a collector_scheme option" where
  "collect family p w =
     (if collect_family w \<noteq> AF_UNSPEC \<and> family \<noteq> collect_family w then Some w
      else if ct_count w \<ge> ct_max w then Some (w\<lparr>collect_lost := collect_lost w + 1\<rparr>)
      else if family \<noteq> AF_INET \<and> family \<noteq> AF_INET6 then Some w
      else if ct_count w \<in> set (rb_inorder (ct_head w)) then None
      else (case packet_entry family p (ct_slots w (ct_count w)) w of
          None \<Rightarrow> None
        | Some e \<Rightarrow>
            (let w = book_entry e w
             in Some (if int (ct_count w) \<ge> int (ct_max w) - ENTRIES_TO_SAVE
                      then w\<lparr>collect_need_dump := True\<rparr> else w))))"

section \<open>The file\<close>

text \<open>The header and the counters on disk: numbers in network order, addresses as they came, two bytes of padding.\<close>

definition be_bytes :: "nat \<Rightarrow> nat \<Rightarrow> byte list" where
  "be_bytes n v = rev (le_bytes n v)"

definition CNUPM_VERSION :: nat where
  "CNUPM_VERSION = 3 + 12 * 256"

record coll_header =
  ch_flags :: nat
  ch_start :: int
  ch_stop :: int
  ch_count :: nat

definition encode_header :: "coll_header \<Rightarrow> byte list" where
  "encode_header h = be_bytes 4 (ch_flags h) @ be_bytes 4 (nat (ch_start h mod 2 ^ 32)) @
     be_bytes 4 (nat (ch_stop h mod 2 ^ 32)) @ be_bytes 4 (ch_count h)"

definition encode_ua :: "uniaddr \<Rightarrow> byte list" where
  "encode_ua u = concat (map (\<lambda>x. le_bytes 4 (unat x)) (ua_words u))"

text \<open>A counter in memory, and as it is written: only the bytes are turned.\<close>

definition encode_traffic :: "coll_traffic \<Rightarrow> byte list" where
  "encode_traffic e = [ct_family e, ct_proto e] @ le_bytes 2 (unat (ct_sport e)) @ le_bytes 2 (unat (ct_dport e)) @ [0, 0] @
     encode_ua (ct_src e) @ encode_ua (ct_dst e) @ le_bytes 8 (unat (ct_bytes e))"

definition htobe64 :: "u64 \<Rightarrow> u64" where
  "htobe64 x = word_of_nat (un_le (rev (le_bytes 8 (unat x))))"

definition sys_open_append :: "string \<Rightarrow> 'a os_scheme \<Rightarrow> int \<times> 'a os_scheme" where
  "sys_open_append path w = (case next_outcome w of (x, w) \<Rightarrow>
     if x = Fail then (- 1, w)
     else (nextfd w,
           w\<lparr>files := (if files w path = None then (files w)(path \<mapsto> []) else files w),
             fdt := (fdt w)(nextfd w \<mapsto> \<lparr>fe_path = path, fe_pos = 0, fe_lock = LOCK_UN, fe_ro = False\<rparr>),
             nextfd := nextfd w + 1\<rparr>))"

text \<open>\<open>write\<close> to a file opened for appending.\<close>

definition sys_append :: "int \<Rightarrow> byte list \<Rightarrow> 'a os_scheme \<Rightarrow> int \<times> 'a os_scheme" where
  "sys_append fd data w = (case next_outcome w of (x, w) \<Rightarrow>
     (case fd_data w fd of
        Some bs \<Rightarrow>
          if x = Fail then (- 1, w)
          else (let put = (case x of Short k \<Rightarrow> take k data | _ \<Rightarrow> data)
                in (int (length put), set_data fd (bs @ put) w))
      | None \<Rightarrow> (- 1, w)))"

definition dump_name :: "string \<Rightarrow> bool \<Rightarrow> 'a collector_scheme \<Rightarrow> string \<times> 'a collector_scheme" where
  "dump_name interface daily w =
     (if daily
      then (case sys_time w of (t, w) \<Rightarrow>
        let d = collect_localtime w t
        in (printf ''cnupm-%s-%04d%02d%02d.dump''
              [AS interface, AI (tm_year d + 1900), AI (tm_mon d + 1), AI (tm_mday d)], w))
      else (printf ''cnupm-%s.dump'' [AS interface], w))"

lemma removed_smaller:
  "RB_MIN t = (RbNode c l i r, p) \<Longrightarrow> length (rb_inorder (RB_REMOVE (RbNode c l i r) p)) < length (rb_inorder t)"
  using next_of_removed(1)[of t c l i r p] by simp

text \<open>
  The loop that writes the counters and takes them out of the tree; the next one is the least of the
  rest (\<open>next_of_removed\<close>).  The result is whether all went out, the tree and how many were written.  A
  write that is cut short counts as done.
\<close>

function dump_loop :: "int \<Rightarrow> nat rb \<Rightarrow> nat \<Rightarrow> 'a collector_scheme \<Rightarrow> bool \<times> nat rb \<times> nat \<times> 'a collector_scheme" where
  "dump_loop fd t dumped w = (case RB_MIN t of
      (RbNil, _) \<Rightarrow> (True, t, dumped, w)
    | (RbNode c l i r, p) \<Rightarrow>
        (let e = ct_slots w i; e' = e\<lparr>ct_bytes := htobe64 (ct_bytes e)\<rparr>; a = sys_append fd (encode_traffic e') w
         in if fst a < 0 then (False, t, dumped, snd a)
            else dump_loop fd (RB_REMOVE (RbNode c l i r) p) (dumped + 1)
                   ((snd a)\<lparr>ct_slots := (ct_slots (snd a))(i := e')\<rparr>)))"
  by pat_completeness auto
termination
  by (relation "measure (\<lambda>(_, t, _). length (rb_inorder t))") (auto simp del: RB_REMOVE.simps simp: removed_smaller)

declare dump_loop.simps [simp del]

definition collect_dump :: "string \<Rightarrow> bool \<Rightarrow> bool \<Rightarrow> bool \<Rightarrow> 'a collector_scheme \<Rightarrow> int \<times> 'a collector_scheme" where
  "collect_dump interface need_empty daily fsyn w =
     (if ct_count w = 0 \<and> \<not> need_empty then (0, w)
      else (case dump_name interface daily w of (file, w) \<Rightarrow>
        if length file \<ge> 1024 then (- 1, w)
        else (case sys_open_append file w of (fd, w) \<Rightarrow>
          if fd < 0 then (- 1, w)
          else (case sys_time w of (stop, w) \<Rightarrow>
            (case sys_append fd (encode_header \<lparr>ch_flags = CNUPM_VERSION, ch_start = collect_start w,
                    ch_stop = stop, ch_count = ct_count w\<rparr>) w of (rc, w) \<Rightarrow>
              if rc < 0 then (- 1, snd (sys_close fd w))
              else (case dump_loop fd (ct_head w) 0 w of (ok, t, dumped, w) \<Rightarrow>
                (let w = w\<lparr>ct_head := t, ct_count := ct_count w - dumped\<rparr>
                 in if \<not> ok then (- 1, snd (sys_close fd w))
                    else (case (if fsyn then snd (sys_fsync fd w) else w) of w \<Rightarrow>
                      (case sys_time ((snd (sys_close fd w))\<lparr>collect_need_dump := False\<rparr>) of (t, w) \<Rightarrow>
                        (int dumped, w\<lparr>collect_start := t\<rparr>))))))))))"

section \<open>No byte is lost\<close>

text \<open>What tells two counters apart.\<close>

definition addr_key :: "byte \<Rightarrow> uniaddr \<Rightarrow> u32 list" where
  "addr_key family u = (if family = AF_INET then [ua_in u] else ua_words u)"

type_synonym traffic_key = "byte \<times> byte \<times> u32 list \<times> u32 list \<times> u16 \<times> u16"

definition traffic_key :: "coll_traffic \<Rightarrow> traffic_key" where
  "traffic_key e = (ct_proto e, ct_family e, addr_key (ct_family e) (ct_src e), addr_key (ct_family e) (ct_dst e),
     ct_sport e, ct_dport e)"

definition ip_family :: "byte \<Rightarrow> bool" where
  "ip_family f \<longleftrightarrow> f = AF_INET \<or> f = AF_INET6"

lemma first_diff_zero: "first_diff ds = 0 \<longleftrightarrow> (\<forall>d\<in>set ds. d = 0)"
  by (induction ds) auto

lemma word_diff_zero: "word_diff a b = 0 \<longleftrightarrow> a = b"
  using signed_eq_0_iff[of "a - b"] by (simp add: word_diff_def)

lemma num_diff_zero: "num_diff a b = 0 \<longleftrightarrow> a = b"
  by (simp add: num_diff_def word_uint_eq_iff)

text \<open>The comparison is 0 for equal keys only, and conversely.\<close>

lemma compare_key:
  assumes "ip_family (ct_family a)"
  shows "ct_entry_compare a b = 0 \<longleftrightarrow> traffic_key a = traffic_key b"
proof (cases "ct_proto a = ct_proto b \<and> ct_family a = ct_family b")
  case True
  then have f: "ct_proto a = ct_proto b" "ct_family a = ct_family b" by simp_all
  show ?thesis
  proof (cases "ct_family a = AF_INET")
    case True
    with f show ?thesis
      by (simp add: ct_entry_compare_def traffic_key_def addr_key_def first_diff_zero word_diff_zero num_diff_zero)
  next
    case False
    with assms have "ct_family a = AF_INET6" by (simp add: ip_family_def)
    with f show ?thesis
      by (auto simp: ct_entry_compare_def traffic_key_def addr_key_def ua_words_def first_diff_zero word_diff_zero num_diff_zero)
  qed
next
  case False
  then show ?thesis
    by (auto simp: ct_entry_compare_def traffic_key_def num_diff_zero Let_def)
qed

text \<open>
  But it is not an order: three addresses may each be less than the next, around a circle, since a
  difference of unsigned words does not fit an \<open>int\<close>.  A search can therefore miss a counter, and
  traffic of one key is then counted in two slots.
\<close>

lemma compare_not_transitive:
  "word_diff 0 0x60000000 < 0" "word_diff 0x60000000 0xC0000000 < 0" "word_diff 0xC0000000 0 < 0"
  by (simp_all add: word_diff_def)

definition coll_inv :: "'a collector_scheme \<Rightarrow> bool" where
  "coll_inv w \<longleftrightarrow> set (rb_inorder (ct_head w)) = {..<ct_count w} \<and> distinct (rb_inorder (ct_head w)) \<and>
     rb_inv (ct_head w) \<and> (\<forall>i<ct_count w. ip_family (ct_family (ct_slots w i)))"

text \<open>What is counted for a key, and what a packet adds to it.\<close>

definition counted :: "'a collector_scheme \<Rightarrow> traffic_key \<Rightarrow> u64" where
  "counted w k = (\<Sum>i<ct_count w. if traffic_key (ct_slots w i) = k then ct_bytes (ct_slots w i) else 0)"

definition wanted :: "'a collector_scheme \<Rightarrow> byte \<Rightarrow> bool" where
  "wanted w family \<longleftrightarrow> (collect_family w = AF_UNSPEC \<or> family = collect_family w) \<and> ip_family family"

definition packet_adds :: "'a collector_scheme \<Rightarrow> traffic_key \<Rightarrow> byte \<times> byte list \<Rightarrow> u64" where
  "packet_adds w k = (\<lambda>(family, p). if \<not> wanted w family then 0
     else (case packet_entry family p zero_traffic w of
         None \<Rightarrow> 0 | Some e \<Rightarrow> if traffic_key e = k then ct_bytes e else 0))"

fun collect_all :: "(byte \<times> byte list) list \<Rightarrow> 'a collector_scheme \<Rightarrow> 'a collector_scheme option" where
  "collect_all [] w = Some w"
| "collect_all ((family, p) # ps) w = (case collect family p w of None \<Rightarrow> None | Some w \<Rightarrow> collect_all ps w)"

lemma packet_entry_fresh:
  assumes "packet_entry family p e0 w = Some e" "ip_family family"
  shows "\<exists>e'. packet_entry family p zero_traffic w = Some e' \<and> traffic_key e' = traffic_key e \<and> ct_bytes e' = ct_bytes e \<and>
    ct_family e = family"
proof -
  have ports: "fill_ports pr po gs p off a = Some b \<Longrightarrow> ct_proto a' = ct_proto a \<Longrightarrow>
      \<exists>b'. fill_ports pr po gs p off a' = Some b' \<and> ct_sport b' = ct_sport b \<and> ct_dport b' = ct_dport b \<and>
        ct_proto b' = ct_proto a' \<and> ct_family b' = ct_family a' \<and> ct_src b' = ct_src a' \<and> ct_dst b' = ct_dst a' \<and>
        ct_bytes b' = ct_bytes a' \<and> ct_proto b = ct_proto a \<and> ct_family b = ct_family a \<and> ct_src b = ct_src a \<and>
        ct_dst b = ct_dst a \<and> ct_bytes b = ct_bytes a" for pr po gs off a b a'
    by (auto simp: fill_ports_def split: option.splits if_splits)
  obtain a off where f: "(if family = AF_INET then fill_inet (collect_proto w) p e0 else fill_inet6 p e0) = Some (a, off)"
    and g: "fill_ports (collect_proto w) (collect_ports w) (collect_groups w) p off (a\<lparr>ct_family := family\<rparr>) = Some e"
    using assms(1) by (auto simp: packet_entry_def split: option.splits prod.splits)
  obtain a' where f': "(if family = AF_INET then fill_inet (collect_proto w) p zero_traffic else fill_inet6 p zero_traffic) =
      Some (a', off)"
    and a': "ct_proto a' = ct_proto a" "ct_bytes a' = ct_bytes a" "addr_key family (ct_src a') = addr_key family (ct_src a)"
      "addr_key family (ct_dst a') = addr_key family (ct_dst a)"
    using f by (auto simp: fill_inet_def fill_inet6_def addr_key_def set_ua_in_def split: option.splits if_splits)
  from ports[OF g, of "a'\<lparr>ct_family := family\<rparr>"] f' a' show ?thesis
    by (auto simp: packet_entry_def traffic_key_def)
qed

lemma counted_new:
  "(\<Sum>i<Suc n. if traffic_key ((s(n := e)) i) = k then ct_bytes ((s(n := e)) i) else 0) =
    (\<Sum>i<n. if traffic_key (s i) = k then ct_bytes (s i) else 0) + (if traffic_key e = k then ct_bytes e else 0)"
  unfolding sum.lessThan_Suc by (intro arg_cong2[where f = plus] sum.cong) auto

lemma counted_more:
  fixes s :: "nat \<Rightarrow> coll_traffic"
  assumes "i < n" "s' = s(i := (s i)\<lparr>ct_bytes := ct_bytes (s i) + b\<rparr>)"
  shows "(\<Sum>j<n. if traffic_key (s' j) = k then ct_bytes (s' j) else 0) =
    (\<Sum>j<n. if traffic_key (s j) = k then ct_bytes (s j) else 0) + (if traffic_key (s i) = k then b else 0)"
proof -
  have k: "traffic_key ((s i)\<lparr>ct_bytes := c\<rparr>) = traffic_key (s i)" for c by (simp add: traffic_key_def)
  have "(\<Sum>j<n. if traffic_key (s' j) = k then ct_bytes (s' j) else 0) =
      (if traffic_key (s' i) = k then ct_bytes (s' i) else 0) +
      (\<Sum>j\<in>{..<n} - {i}. if traffic_key (s' j) = k then ct_bytes (s' j) else 0)"
    using assms(1) by (intro sum.remove) auto
  also have "(\<Sum>j\<in>{..<n} - {i}. if traffic_key (s' j) = k then ct_bytes (s' j) else 0) =
      (\<Sum>j\<in>{..<n} - {i}. if traffic_key (s j) = k then ct_bytes (s j) else 0)"
    using assms(2) by (intro sum.cong) auto
  also have "(if traffic_key (s' i) = k then ct_bytes (s' i) else 0) =
      (if traffic_key (s i) = k then ct_bytes (s i) else 0) + (if traffic_key (s i) = k then b else 0)"
    using assms(2) k by simp
  finally show ?thesis
    using assms(1) sum.remove[of "{..<n}" i "\<lambda>j. if traffic_key (s j) = k then ct_bytes (s j) else 0"] by simp
qed

lemma packet_adds_cong:
  assumes "collect_family v = collect_family w" "collect_proto v = collect_proto w" "collect_ports v = collect_ports w"
    "collect_groups v = collect_groups w"
  shows "packet_adds v = packet_adds w"
  unfolding packet_adds_def wanted_def packet_entry_def assms ..

lemma book_counts:
  assumes inv: "coll_inv w" and fam: "ip_family (ct_family e)"
  shows "coll_inv (book_entry e w) \<and> counted (book_entry e w) k = counted w k + (if traffic_key e = k then ct_bytes e else 0) \<and>
    ct_count (book_entry e w) \<le> ct_count w + 1"
proof -
  let ?n = "ct_count w"
  let ?s = "(ct_slots w)(?n := e)"
  obtain r t where i: "RB_INSERT (slot_compare ?s) ?n (ct_head w) = (r, t)" by fastforce
  have rb: "rb_inv t" using insert_inv[of "ct_head w" "slot_compare ?s" ?n] i inv by (simp add: coll_inv_def)
  show ?thesis
  proof (cases r)
    case None
    from insert_new[OF i[unfolded None]] obtain xs ys where
      "rb_inorder (ct_head w) = xs @ ys" "rb_inorder t = xs @ ?n # ys" by blast
    with inv have t: "set (rb_inorder t) = {..<Suc ?n}" "distinct (rb_inorder t)"
      by (auto simp: coll_inv_def lessThan_Suc)
    have b: "book_entry e w = w\<lparr>ct_slots := ?s, ct_head := t, ct_count := Suc ?n\<rparr>"
      using i None by (simp add: book_entry_def Let_def)
    have "coll_inv (book_entry e w)" using t rb inv fam by (auto simp: b coll_inv_def less_Suc_eq)
    moreover have "counted (book_entry e w) k = counted w k + (if traffic_key e = k then ct_bytes e else 0)"
      using counted_new[where s = "ct_slots w" and n = ?n and e = e and k = k]
      by (simp add: b counted_def del: sum.lessThan_Suc cong: if_cong)
    ultimately show ?thesis by (simp add: b)
  next
    case (Some j)
    from insert_found[OF i[unfolded Some]] have "j \<in> set (rb_inorder (ct_head w))" and cmp: "slot_compare ?s ?n j = 0" by auto
    with inv have lt: "j < ?n" by (auto simp: coll_inv_def)
    with cmp compare_key[of e "ct_slots w j"] fam have key: "traffic_key e = traffic_key (ct_slots w j)"
      by (simp add: slot_compare_def)
    let ?s' = "?s(j := (?s j)\<lparr>ct_bytes := ct_bytes (?s j) + ct_bytes e\<rparr>)"
    have b: "book_entry e w = w\<lparr>ct_slots := ?s'\<rparr>" using i Some by (simp add: book_entry_def Let_def)
    have "counted (w\<lparr>ct_slots := ?s\<rparr>) k = counted w k" by (auto simp: counted_def intro: sum.cong)
    then have "counted (book_entry e w) k = counted w k + (if traffic_key e = k then ct_bytes e else 0)"
      using counted_more[where s = ?s and s' = ?s' and b = "ct_bytes e" and k = k, OF lt] lt key by (simp add: b counted_def cong: if_cong)
    moreover have "coll_inv (book_entry e w)" using inv lt by (auto simp: b coll_inv_def)
    ultimately show ?thesis by (simp add: b)
  qed
qed

lemma book_keeps:
  "collect_family (book_entry e w) = collect_family w" "collect_proto (book_entry e w) = collect_proto w"
  "collect_ports (book_entry e w) = collect_ports w" "collect_groups (book_entry e w) = collect_groups w"
  "collect_lost (book_entry e w) = collect_lost w" "ct_max (book_entry e w) = ct_max w"
  "os.truncate (book_entry e w) = os.truncate w"
  by (auto simp: book_entry_def Let_def os.defs split: prod.splits option.splits)

lemma counted_flag [simp]: "counted (w\<lparr>collect_need_dump := b\<rparr>) = counted w" "coll_inv (w\<lparr>collect_need_dump := b\<rparr>) = coll_inv w"
  by (simp_all add: counted_def coll_inv_def fun_eq_iff cong: if_cong)

lemma collect_counts:
  assumes inv: "coll_inv w" and room: "ct_count w < ct_max w" and c: "collect family p w = Some w'"
  shows "coll_inv w' \<and> counted w' k = counted w k + packet_adds w k (family, p) \<and> collect_lost w' = collect_lost w \<and>
    ct_max w' = ct_max w \<and> ct_count w' \<le> ct_count w + 1 \<and> packet_adds w' = packet_adds w"
proof (cases "wanted w family")
  case False
  with c room have "w' = w" by (auto simp: collect_def wanted_def ip_family_def split: if_splits)
  with inv False show ?thesis by (simp add: packet_adds_def)
next
  case True
  then have fam: "ip_family family" by (simp add: wanted_def)
  then have fam': "family = AF_INET \<or> family = AF_INET6" by (simp add: ip_family_def)
  have nf: "\<not> (collect_family w \<noteq> AF_UNSPEC \<and> family \<noteq> collect_family w)" using True by (auto simp: wanted_def)
  from c room fam' nf obtain e where e: "packet_entry family p (ct_slots w (ct_count w)) w = Some e"
    by (auto simp: collect_def split: if_splits option.splits)
  have w': "w' = book_entry e w \<or> w' = (book_entry e w)\<lparr>collect_need_dump := True\<rparr>"
    using c room fam' nf unfolding collect_def e by (auto simp: Let_def split: if_splits)
  from packet_entry_fresh[OF e fam] obtain e' where e': "packet_entry family p zero_traffic w = Some e'"
    "traffic_key e' = traffic_key e" "ct_bytes e' = ct_bytes e" "ct_family e = family" by blast
  then have adds: "packet_adds w k (family, p) = (if traffic_key e = k then ct_bytes e else 0)"
    using True by (simp add: packet_adds_def)
  have b: "packet_adds (book_entry e w) = packet_adds w" "packet_adds ((book_entry e w)\<lparr>collect_need_dump := True\<rparr>) = packet_adds w"
    by (intro packet_adds_cong; simp add: book_keeps)+
  from w' book_counts[OF inv, of e k] fam e'(4) adds show ?thesis
    by (elim disjE) (simp_all add: book_keeps b)
qed

lemma collect_all_counts:
  assumes "coll_inv w" "ct_count w + length ps \<le> ct_max w" "collect_all ps w = Some w'"
  shows "coll_inv w' \<and> counted w' k = counted w k + sum_list (map (packet_adds w k) ps) \<and> collect_lost w' = collect_lost w"
  using assms
proof (induction ps arbitrary: w)
  case (Cons q ps)
  obtain family p where q: "q = (family, p)" by fastforce
  with Cons.prems(3) obtain v where v: "collect family p w = Some v" "collect_all ps v = Some w'"
    by (auto split: option.splits)
  from collect_counts[OF Cons.prems(1) _ v(1), of k] Cons.prems(2) have c:
    "coll_inv v" "counted v k = counted w k + packet_adds w k (family, p)" "collect_lost v = collect_lost w"
    "ct_max v = ct_max w" "ct_count v \<le> ct_count w + 1" "packet_adds v = packet_adds w" by auto
  from Cons.IH[OF c(1) _ v(2)] Cons.prems(2) c q show ?case by (simp add: add.assoc)
qed simp

section \<open>What is counted reaches the file\<close>

definition no_short :: "'a os_scheme \<Rightarrow> bool" where
  "no_short w \<longleftrightarrow> (\<forall>k. Short k \<notin> set (script w))"

definition dumped_entry :: "coll_traffic \<Rightarrow> byte list" where
  "dumped_entry e = encode_traffic (e\<lparr>ct_bytes := htobe64 (ct_bytes e)\<rparr>)"

lemma next_no_short: "next_outcome w = (x, w') \<Longrightarrow> no_short w \<Longrightarrow> no_short w' \<and> (\<forall>k. x \<noteq> Short k)"
  by (auto simp: next_outcome_def no_short_def split: list.splits)

text \<open>What the loop does not touch.\<close>

definition dump_rest :: "'a collector_scheme \<Rightarrow> 'a collector_scheme" where
  "dump_rest w = w\<lparr>script := [], ct_slots := (\<lambda>_. zero_traffic), files := (\<lambda>_. None)\<rparr>"

lemma dump_rest_eq:
  assumes "dump_rest v = dump_rest w"
  shows "fdt v = fdt w" "nextfd v = nextfd w" "clock v = clock w" "ticks v = ticks w" "ct_count v = ct_count w"
    "ct_head v = ct_head w" "ct_max v = ct_max w" "collect_start v = collect_start w" "collect_lost v = collect_lost w"
  using arg_cong[OF assms, of fdt] arg_cong[OF assms, of nextfd] arg_cong[OF assms, of clock] arg_cong[OF assms, of ticks]
    arg_cong[OF assms, of ct_count] arg_cong[OF assms, of ct_head] arg_cong[OF assms, of ct_max]
    arg_cong[OF assms, of collect_start] arg_cong[OF assms, of collect_lost]
  by (simp_all add: dump_rest_def)

lemma next_rest: "next_outcome w = (x, v) \<Longrightarrow> dump_rest v = dump_rest w \<and> files v = files w \<and> fdt v = fdt w"
  by (auto simp: next_outcome_def dump_rest_def split: list.splits)

lemma append_writes:
  fixes w :: "'a collector_scheme"
  assumes "sys_append fd data w = (rc, w')" "no_short w" "fdt w fd = Some e" "files w (fe_path e) = Some bs"
  shows "no_short w' \<and> dump_rest w' = dump_rest w \<and> ct_slots w' = ct_slots w \<and>
    files w' = (if rc < 0 then files w else (files w)(fe_path e \<mapsto> bs @ data)) \<and> (no_faults w \<longrightarrow> \<not> rc < 0 \<and> no_faults w')"
proof -
  obtain x v where n: "next_outcome w = (x, v)" by fastforce
  have "no_faults w \<Longrightarrow> x = Done \<and> v = w" using n by (simp add: next_outcome_no_faults)
  moreover have "ct_slots v = ct_slots w" using n by (auto simp: next_outcome_def split: list.splits)
  ultimately show ?thesis using assms n next_no_short[OF n assms(2)] next_rest[OF n]
    by (cases x) (auto simp: sys_append_def fd_data_def set_data_def no_short_def no_faults_def dump_rest_def)
qed

text \<open>Whatever write fails, what is not in the file is still in the tree.\<close>

lemma dump_loop_writes:
  assumes "dump_loop fd t d w = (ok, t', d', w')" "no_short w" "distinct (rb_inorder t)"
    "fdt w fd = Some e" "files w (fe_path e) = Some bs"
  shows "\<exists>is. rb_inorder t = is @ rb_inorder t' \<and> d' = d + length is \<and> (ok \<longrightarrow> t' = RbNil) \<and> no_short w' \<and>
    (no_faults w \<longrightarrow> ok \<and> no_faults w') \<and> dump_rest w' = dump_rest w \<and>
    (\<forall>i. i \<notin> set is \<longrightarrow> ct_slots w' i = ct_slots w i) \<and>
    files w' = (files w)(fe_path e \<mapsto> bs @ concat (map (\<lambda>i. dumped_entry (ct_slots w i)) is))"
  using assms
proof (induction fd t d w arbitrary: bs rule: dump_loop.induct)
  case (1 fd t d w)
  obtain n p where m: "RB_MIN t = (n, p)" by fastforce
  have same: "(files w)(fe_path e \<mapsto> bs) = files w" using 1(6) by (simp add: fun_upd_idem)
  show ?case
  proof (cases n)
    case RbNil
    with 1(2) m have "w' = w" "t' = t" "d' = d" "ok" by (auto simp: dump_loop.simps[of fd t])
    with same min_nil[of t p] m RbNil 1(3) show ?thesis by (intro exI[of _ "[]"]) simp
  next
    case (RbNode c l i r)
    let ?e = "(ct_slots w i)\<lparr>ct_bytes := htobe64 (ct_bytes (ct_slots w i))\<rparr>"
    obtain rc w1 where a: "sys_append fd (encode_traffic ?e) w = (rc, w1)" by fastforce
    note ap = append_writes[OF a 1(3,5,6)]
    show ?thesis
    proof (cases "rc < 0")
      case True
      with 1(2) m RbNode a have "w' = w1" "t' = t" "d' = d" "\<not> ok"
        by (auto simp: dump_loop.simps[of fd t] Let_def)
      with same ap True show ?thesis by (intro exI[of _ "[]"]) simp
    next
      case False
      let ?t = "RB_REMOVE (RbNode c l i r) p" and ?w = "w1\<lparr>ct_slots := (ct_slots w1)(i := ?e)\<rparr>"
      from 1(2) m RbNode a False have rest: "dump_loop fd ?t (d + 1) ?w = (ok, t', d', w')"
        by (simp add: dump_loop.simps[of fd t] Let_def)
      have t: "rb_inorder t = i # rb_inorder ?t" using next_of_removed(1)[of t c l i r p] m RbNode by simp
      have dis: "distinct (rb_inorder ?t)" "i \<notin> set (rb_inorder ?t)" using 1(4) t by auto
      have w: "no_short ?w" "fdt ?w fd = Some e" "files ?w (fe_path e) = Some (bs @ encode_traffic ?e)"
        "no_faults w \<longrightarrow> no_faults ?w" "dump_rest ?w = dump_rest w"
        using ap False dump_rest_eq(1)[of w1 w] 1(5) by (simp_all add: no_short_def no_faults_def dump_rest_def)
      have "\<not> fst (rc, w1) < 0" using False by simp
      note ih = 1(1)[OF m[symmetric] RbNode refl refl a[symmetric] this]
      from ih[unfolded snd_conv, OF rest w(1) dis(1) w(2,3)]
      obtain js where j: "rb_inorder ?t = js @ rb_inorder t'" "d' = d + 1 + length js" "ok \<longrightarrow> t' = RbNil"
        "no_short w'" "no_faults ?w \<longrightarrow> ok \<and> no_faults w'" "dump_rest w' = dump_rest ?w"
        "\<forall>i. i \<notin> set js \<longrightarrow> ct_slots w' i = ct_slots ?w i"
        "files w' = (files ?w)(fe_path e \<mapsto>
           (bs @ encode_traffic ?e) @ concat (map (\<lambda>i. dumped_entry (ct_slots ?w i)) js))"
        by blast
      have "i \<notin> set js" using dis(2) j(1) by simp
      then have same': "map (\<lambda>i. dumped_entry (ct_slots ?w i)) js = map (\<lambda>i. dumped_entry (ct_slots w i)) js"
        using ap by (auto cong: map_cong)
      have f: "files w' = (files w)(fe_path e \<mapsto> bs @ concat (map (\<lambda>i. dumped_entry (ct_slots w i)) (i # js)))"
        using ap False by (simp add: j(8)[unfolded same'] dumped_entry_def)
      have "rb_inorder t = (i # js) @ rb_inorder t'" "dump_rest w' = dump_rest w" "no_faults w \<longrightarrow> ok \<and> no_faults w'"
        using t j(1,5,6) w(4,5) by simp_all
      moreover have "\<forall>k. k \<notin> set (i # js) \<longrightarrow> ct_slots w' k = ct_slots w k" using j(7) ap by simp
      ultimately show ?thesis using f j(2,3,4) by (intro exI[of _ "i # js"]) simp
    qed
  qed
qed

definition contents :: "'a os_scheme \<Rightarrow> string \<Rightarrow> byte list" where
  "contents w path = (case files w path of None \<Rightarrow> [] | Some bs \<Rightarrow> bs)"

definition dump_header :: "int \<Rightarrow> 'a collector_scheme \<Rightarrow> coll_header" where
  "dump_header stop w = \<lparr>ch_flags = CNUPM_VERSION, ch_start = collect_start w, ch_stop = stop, ch_count = ct_count w\<rparr>"

lemma time_frame:
  "sys_time w = (t, w') \<Longrightarrow> w' = w\<lparr>ticks := ticks w + 1\<rparr>"
  by (auto simp: sys_time_def sys_gettimeofday_def)

lemma name_frame:
  "dump_name itf daily w = (f, w') \<Longrightarrow> w' = w \<or> w' = w\<lparr>ticks := ticks w + 1\<rparr>"
  by (auto simp: dump_name_def Let_def dest: time_frame split: if_splits prod.splits)

text \<open>What a dump adds to its file: nothing, or the header and the counters \<open>is\<close>, which the tree no longer has.\<close>

definition dump_adds :: "string \<Rightarrow> nat list \<Rightarrow> 'a collector_scheme \<Rightarrow> 'a collector_scheme \<Rightarrow> bool" where
  "dump_adds name is w w' \<longleftrightarrow>
     (contents w' name = contents w name \<and> is = [] \<or>
      (\<exists>stop. contents w' name = contents w name @ encode_header (dump_header stop w) @
         concat (map (\<lambda>i. dumped_entry (ct_slots w i)) is))) \<and>
     (\<forall>path. path \<noteq> name \<longrightarrow> files w' path = files w path) \<and>
     rb_inorder (ct_head w) = is @ rb_inorder (ct_head w') \<and> ct_count w' = ct_count w - length is \<and>
     (\<forall>i. i \<notin> set is \<longrightarrow> ct_slots w' i = ct_slots w i)"

lemma dump_adds_nothing:
  assumes "files w' = files w \<or> files w' = (files w)(name \<mapsto> contents w name)" "ct_head w' = ct_head w"
    "ct_count w' = ct_count w" "ct_slots w' = ct_slots w"
  shows "dump_adds name [] w w'"
  using assms by (auto simp: dump_adds_def contents_def)

definition coll_part :: "'a collector_scheme \<Rightarrow> (nat \<Rightarrow> coll_traffic) \<times> nat \<times> nat rb \<times> int" where
  "coll_part w = (ct_slots w, ct_count w, ct_head w, collect_start w)"

definition keeps_coll :: "'a collector_scheme \<Rightarrow> 'a collector_scheme \<Rightarrow> bool" where
  "keeps_coll w v \<longleftrightarrow> coll_part v = coll_part w \<and> (no_short w \<longrightarrow> no_short v) \<and> (no_faults w \<longrightarrow> no_faults v)"

lemmas keeps_coll_simps = keeps_coll_def coll_part_def no_short_def no_faults_def

lemma open_append_step:
  assumes "sys_open_append name w = (fd, w')" "0 \<le> nextfd w"
  shows "keeps_coll w w' \<and> (fd < 0 \<and> files w' = files w \<and> \<not> no_faults w \<or>
    0 \<le> fd \<and> files w' = (files w)(name \<mapsto> contents w name) \<and> (\<exists>e. fdt w' fd = Some e \<and> fe_path e = name))"
  using assms
  by (cases "files w name")
    (auto simp: sys_open_append_def next_outcome_def contents_def keeps_coll_simps fun_upd_idem split: list.splits if_splits)

lemma close_step: "keeps_coll w (snd (sys_close fd w)) \<and> files (snd (sys_close fd w)) = files w"
  by (auto simp: sys_close_def keeps_coll_simps split: option.splits)

lemma fsync_step: "keeps_coll w (snd (sys_fsync fd w)) \<and> files (snd (sys_fsync fd w)) = files w"
  by (auto simp: sys_fsync_def keeps_coll_simps next_outcome_def split: list.splits)

lemma time_step: "sys_time w = (t, w') \<Longrightarrow> keeps_coll w w' \<and> files w' = files w \<and> fdt w' = fdt w \<and> nextfd w' = nextfd w"
  by (auto simp: keeps_coll_simps dest: time_frame)

lemma name_step: "dump_name itf daily w = (f, w') \<Longrightarrow> keeps_coll w w' \<and> files w' = files w \<and> nextfd w' = nextfd w"
  by (auto simp: keeps_coll_simps dest: name_frame)

lemma keeps_coll_trans: "keeps_coll u v \<Longrightarrow> keeps_coll v w \<Longrightarrow> keeps_coll u w"
  by (simp add: keeps_coll_def)

lemma dump_end:
  assumes "(if \<not> ok then (- 1, snd (sys_close fd w))
     else (case (if fsyn then snd (sys_fsync fd w) else w) of w \<Rightarrow>
       (case sys_time ((snd (sys_close fd w))\<lparr>collect_need_dump := False\<rparr>) of (t, w) \<Rightarrow>
         (int dumped, w\<lparr>collect_start := t\<rparr>)))) = (rc, w')"
  shows "rc = (if ok then int dumped else - 1) \<and> files w' = files w \<and> ct_slots w' = ct_slots w \<and>
    ct_head w' = ct_head w \<and> ct_count w' = ct_count w"
proof (cases ok)
  case False
  with assms close_step[of w fd] show ?thesis by (auto simp: keeps_coll_simps)
next
  case True
  let ?w = "if fsyn then snd (sys_fsync fd w) else w"
  let ?v = "(snd (sys_close fd ?w))\<lparr>collect_need_dump := False\<rparr>"
  obtain t u where t: "sys_time ?v = (t, u)" by fastforce
  with assms True have "w' = u\<lparr>collect_start := t\<rparr>" "rc = int dumped" by auto
  with True time_step[OF t] close_step[of ?w fd] fsync_step[of w fd] show ?thesis
    by (auto simp: keeps_coll_simps)
qed

lemma dump_any:
  assumes d: "collect_dump itf ne daily fsyn w = (rc, w')" and ns: "no_short w" and dis: "distinct (rb_inorder (ct_head w))"
    and fd0: "0 \<le> nextfd w"
  shows "\<exists>is. dump_adds (fst (dump_name itf daily w)) is w w' \<and> (0 \<le> rc \<longrightarrow> rc = int (length is)) \<and>
    (0 \<le> rc \<and> (ct_count w \<noteq> 0 \<or> ne) \<longrightarrow> ct_head w' = RbNil) \<and>
    (no_faults w \<and> length (fst (dump_name itf daily w)) < 1024 \<longrightarrow> 0 \<le> rc)"
proof (cases "ct_count w = 0 \<and> \<not> ne")
  case True
  with d have "w' = w" "rc = 0" by (auto simp: collect_dump_def)
  with True show ?thesis by (intro exI[of _ "[]"]) (simp add: dump_adds_nothing)
next
  case False
  obtain name w1 where n: "dump_name itf daily w = (name, w1)" by fastforce
  note n' = name_step[OF n]
  then have c1: "contents w1 = contents w" by (simp add: contents_def fun_eq_iff)
  show ?thesis
  proof (cases "length name \<ge> 1024")
    case True
    with d False n have "w' = w1" "rc = - 1" by (auto simp: collect_dump_def)
    with True n n' show ?thesis by (intro exI[of _ "[]"]) (auto simp: dump_adds_nothing keeps_coll_simps)
  next
    case short: False
    obtain fd w2 where o: "sys_open_append name w1 = (fd, w2)" by fastforce
    note o' = open_append_step[OF o] n' fd0 c1
    show ?thesis
    proof (cases "fd < 0")
      case True
      with d False n short o have "w' = w2" "rc = - 1" by (auto simp: collect_dump_def)
      with True n o' show ?thesis by (intro exI[of _ "[]"]) (auto simp: dump_adds_nothing keeps_coll_simps)
    next
      case opened: False
      obtain stop w3 where t: "sys_time w2 = (stop, w3)" by fastforce
      note k3 = keeps_coll_trans[OF conjunct1[OF n'] keeps_coll_trans[OF conjunct1[OF o'(1)] conjunct1[OF time_step[OF t]]]]
      have w3: "files w3 = (files w)(name \<mapsto> contents w name)" "keeps_coll w w3"
        using o' opened time_step[OF t] k3 by auto
      obtain e where e: "fdt w3 fd = Some e" "fe_path e = name" using o' opened time_step[OF t] by auto
      let ?h = "encode_header (dump_header stop w)"
      obtain r4 w4 where a: "sys_append fd ?h w3 = (r4, w4)" by fastforce
      have hd: "dump_header stop w3 = dump_header stop w" using w3(2) by (simp add: dump_header_def keeps_coll_simps)
      have a4: "no_short w4 \<and> dump_rest w4 = dump_rest w3 \<and> ct_slots w4 = ct_slots w3 \<and>
          files w4 = (if r4 < 0 then files w3 else (files w3)(name \<mapsto> contents w name @ ?h)) \<and>
          (no_faults w3 \<longrightarrow> \<not> r4 < 0 \<and> no_faults w4)"
        using append_writes[OF a _ e(1), of "contents w name"] w3 e(2) ns by (simp add: keeps_coll_def)
      note eq4 = dump_rest_eq[of w4 w3]
      from d False n short o opened t a hd have tail:
        "(if r4 < 0 then (- 1, snd (sys_close fd w4))
          else (case dump_loop fd (ct_head w4) 0 w4 of (ok, t, dumped, w) \<Rightarrow>
            (let w = w\<lparr>ct_head := t, ct_count := ct_count w - dumped\<rparr>
             in if \<not> ok then (- 1, snd (sys_close fd w))
                else (case (if fsyn then snd (sys_fsync fd w) else w) of w \<Rightarrow>
                  (case sys_time ((snd (sys_close fd w))\<lparr>collect_need_dump := False\<rparr>) of (t, w) \<Rightarrow>
                    (int dumped, w\<lparr>collect_start := t\<rparr>)))))) = (rc, w')"
        by (auto simp: collect_dump_def dump_header_def)
      show ?thesis
      proof (cases "r4 < 0")
        case True
        with tail close_step[of w4 fd] have "keeps_coll w4 w'" "files w' = files w4" "rc = - 1" by auto
        with True n a4 eq4 w3 show ?thesis
          by (intro exI[of _ "[]"]) (auto simp: dump_adds_nothing keeps_coll_simps)
      next
        case wrote: False
        obtain ok t' d' w5 where l: "dump_loop fd (ct_head w4) 0 w4 = (ok, t', d', w5)" by (metis prod_cases4)
        let ?w6 = "w5\<lparr>ct_head := t', ct_count := ct_count w5 - d'\<rparr>"
        have same: "ct_head w4 = ct_head w" "ct_count w4 = ct_count w" "ct_slots w4 = ct_slots w"
          "fdt w4 fd = Some e" "files w4 = (files w)(name \<mapsto> contents w name @ ?h)"
          using a4 eq4 w3 e wrote by (auto simp: keeps_coll_simps)
        have "no_short w4" "distinct (rb_inorder (ct_head w4))" "files w4 (fe_path e) = Some (contents w name @ ?h)"
          using a4 dis same(1) e(2) fun_cong[OF same(5), of name] by simp_all
        from dump_loop_writes[OF l this(1,2) same(4) this(3)] obtain "is" where i:
          "rb_inorder (ct_head w) = is @ rb_inorder t'" "d' = length is" "ok \<longrightarrow> t' = RbNil"
          "no_faults w4 \<longrightarrow> ok" "dump_rest w5 = dump_rest w4" "\<forall>i. i \<notin> set is \<longrightarrow> ct_slots w5 i = ct_slots w i"
          "files w5 = (files w)(name \<mapsto> (contents w name @ ?h) @ concat (map (\<lambda>i. dumped_entry (ct_slots w i)) is))"
          unfolding same(1,3,5) e(2) fun_upd_upd add_0 by blast
        from tail wrote l have "rc = (if ok then int d' else - 1) \<and> files w' = files ?w6 \<and> ct_slots w' = ct_slots ?w6 \<and>
            ct_head w' = ct_head ?w6 \<and> ct_count w' = ct_count ?w6"
          by (intro dump_end[of ok fd ?w6 d' fsyn]) (simp add: Let_def)
        moreover have "dump_adds name is w w'"
          using calculation i dump_rest_eq(5)[OF i(5)] same(2) by (auto simp: dump_adds_def contents_def)
        ultimately show ?thesis using i n wrote a4 w3(2) by (intro exI[of _ "is"]) (auto simp: keeps_coll_simps)
      qed
    qed
  qed
qed

section \<open>From the packets to the file\<close>

definition entries_sum :: "traffic_key \<Rightarrow> coll_traffic list \<Rightarrow> u64" where
  "entries_sum k es = sum_list (map (\<lambda>e. if traffic_key e = k then ct_bytes e else 0) es)"

lemma counted_slots:
  "coll_inv w \<Longrightarrow> counted w k = entries_sum k (map (ct_slots w) (rb_inorder (ct_head w)))"
  using sum.distinct_set_conv_list[of "rb_inorder (ct_head w)"
      "\<lambda>i. if traffic_key (ct_slots w i) = k then ct_bytes (ct_slots w i) else 0"]
  by (simp add: coll_inv_def counted_def entries_sum_def o_def)

lemma init_frame:
  assumes "collect_init True w = (0, w0)"
  shows "coll_inv w0 \<and> counted w0 k = 0 \<and> ct_count w0 = 0 \<and> ct_max w0 = ct_max w \<and> packet_adds w0 = packet_adds w \<and>
    files w0 = files w \<and> nextfd w0 = nextfd w \<and> (no_short w \<longrightarrow> no_short w0) \<and> (no_faults w \<longrightarrow> no_faults w0)"
proof -
  let ?v = "w\<lparr>ct_count := 0, collect_need_dump := False\<rparr>"
  obtain t v where t: "sys_time ?v = (t, v)" by fastforce
  let ?u = "v\<lparr>collect_start := t, ct_head := RbNil, collect_lost := 0\<rparr>"
  obtain m u where m: "sys_alloc ?u = (m, u)" by fastforce
  from assms t m have w0: "w0 = u\<lparr>ct_slots := (\<lambda>_. zero_traffic)\<rparr>" by (auto simp: collect_init_def Let_def split: if_splits)
  have u: "ct_count u = 0 \<and> ct_head u = RbNil \<and> ct_max u = ct_max w \<and> files u = files w \<and> nextfd u = nextfd w \<and>
      collect_family u = collect_family w \<and> collect_proto u = collect_proto w \<and> collect_ports u = collect_ports w \<and>
      collect_groups u = collect_groups w \<and> (no_short w \<longrightarrow> no_short u) \<and> (no_faults w \<longrightarrow> no_faults u)"
    using m time_frame[OF t] by (auto simp: sys_alloc_def next_outcome_def no_short_def no_faults_def split: list.splits)
  then have "packet_adds w0 = packet_adds w" unfolding w0 by (intro packet_adds_cong) simp_all
  with u show ?thesis by (simp add: w0 coll_inv_def counted_def no_short_def no_faults_def rb_inv_def)
qed

lemma collect_os: "collect family p w = Some w' \<Longrightarrow> os.truncate w' = os.truncate w"
  using book_keeps(7)
  by (auto simp: collect_def Let_def os.defs split: if_splits option.splits)

lemma collect_all_os: "collect_all ps w = Some w' \<Longrightarrow> os.truncate w' = os.truncate w"
proof (induction ps w rule: collect_all.induct)
  case (2 family p ps w)
  then show ?case by (auto split: option.splits dest: collect_os)
qed simp

text \<open>
  C38: No byte is lost between the packets and the file.  When packets for which there is room are counted and
  the counters dumped, whichever call fails on the way (short of a write cut short): what the file has gained
  is nothing or a header and counters, and for every key the bytes of these counters and of those still in
  memory are the bytes of the packets of that key.  The result is the number of counters written, and without a
  failure all are.
\<close>

theorem no_byte_lost:
  assumes "collect_init True w = (0, w0)" "collect_all ps w0 = Some w1" "length ps \<le> ct_max w"
    "collect_dump itf need_empty daily fsyn w1 = (rc, w2)" "no_short w" "0 \<le> nextfd w"
    "name = fst (dump_name itf daily w1)"
  shows "\<exists>es out. contents w2 name = contents w name @ out \<and>
    (out = [] \<and> es = [] \<or> (\<exists>stop. out = encode_header (dump_header stop w1) @ concat (map dumped_entry es))) \<and>
    (\<forall>k. entries_sum k es + entries_sum k (map (ct_slots w2) (rb_inorder (ct_head w2))) = sum_list (map (packet_adds w k) ps)) \<and>
    (0 \<le> rc \<longrightarrow> rc = int (length es)) \<and>
    (0 \<le> rc \<and> (ct_count w1 \<noteq> 0 \<or> need_empty) \<longrightarrow> ct_head w2 = RbNil) \<and>
    (no_faults w \<and> length name < 1024 \<longrightarrow> 0 \<le> rc)"
proof -
  note i = init_frame[OF assms(1)]
  have all: "coll_inv w1 \<and> counted w1 k = sum_list (map (packet_adds w k) ps)" for k
    using collect_all_counts[OF _ _ assms(2), of k] i assms(3) by simp
  have os: "files w1 = files w" "nextfd w1 = nextfd w" "no_short w1" "no_faults w \<longrightarrow> no_faults w1"
    using i assms(5) collect_all_os[OF assms(2)] by (auto simp: os.defs no_short_def no_faults_def)
  have "distinct (rb_inorder (ct_head w1))" "0 \<le> nextfd w1" using all assms(6) os by (auto simp: coll_inv_def)
  from dump_any[OF assms(4) os(3) this] obtain "is" where d: "dump_adds name is w1 w2"
    "0 \<le> rc \<longrightarrow> rc = int (length is)" "0 \<le> rc \<and> (ct_count w1 \<noteq> 0 \<or> need_empty) \<longrightarrow> ct_head w2 = RbNil"
    "no_faults w1 \<and> length name < 1024 \<longrightarrow> 0 \<le> rc"
    unfolding assms(7)[symmetric] by blast
  have dis: "set is \<inter> set (rb_inorder (ct_head w2)) = {}"
    using all d(1) by (auto simp: dump_adds_def coll_inv_def)
  then have same: "map (ct_slots w2) (rb_inorder (ct_head w2)) = map (ct_slots w1) (rb_inorder (ct_head w2))"
    using d(1) by (auto simp: dump_adds_def)
  have "entries_sum k (map (ct_slots w1) is) + entries_sum k (map (ct_slots w2) (rb_inorder (ct_head w2))) = counted w1 k" for k
    unfolding same using counted_slots[of w1 k] all d(1) by (simp add: dump_adds_def entries_sum_def)
  moreover have "contents w1 = contents w" using os(1) by (simp add: contents_def fun_eq_iff)
  ultimately show ?thesis using all d os(4)
    by (intro exI[of _ "map (ct_slots w1) is"] exI[of _ "drop (length (contents w name)) (contents w2 name)"])
      (auto simp: dump_adds_def o_def)
qed

definition demo_collector :: collector where
  "demo_collector = \<lparr>files = (\<lambda>_. None), fdt = (\<lambda>_. None), nextfd = 3, script = [],
     clock = (\<lambda>n. Some \<lparr>tv_sec = 1200000000, tv_usec = 0\<rparr>), ticks = 0, zcrc32 = (\<lambda>_. 0), junk = (\<lambda>_. 0),
     ct_slots = (\<lambda>_. zero_traffic), ct_count = 0, ct_head = RbNil, ct_max = 128, collect_start = 0, collect_lost = 0,
     collect_need_dump = False, collect_family = 0, collect_proto = True, collect_ports = True, collect_groups = RbNil,
     collect_localtime = (\<lambda>_. \<lparr>tm_sec = 0, tm_min = 0, tm_hour = 0, tm_mday = 1, tm_mon = 0, tm_year = 108, tm_wday = 2, tm_yday = 0, tm_isdst = 0\<rparr>)\<rparr>"

text \<open>A packet of UDP from port 53 to port 1024 of the given length.\<close>

definition demo_packet :: "byte \<Rightarrow> byte \<times> byte list" where
  "demo_packet len = (AF_INET, [0x45, 0, 0, len, 0, 0, 0, 0, 64, 17, 0, 0, 10, 0, 0, 1, 10, 0, 0, 2, 0, 53, 4, 0, 0, 0, 0, 0])"

definition demo_traffic_key :: traffic_key where
  "demo_traffic_key = (17, AF_INET, [0x0100000A], [0x0200000A], 0x3500, 4)"



lemmas packet_simps = packet_entry_def fill_inet_def fill_inet6_def fill_ports_def get8_def get16_def get32_def get_ua6_def
  set_ua_in_def htons_def aggr_port_def

definition demo_traffic :: "u64 \<Rightarrow> coll_traffic" where
  "demo_traffic bytes = \<lparr>ct_family = AF_INET, ct_proto = 17, ct_sport = 0x3500, ct_dport = 4,
     ct_src = UA 0x0100000A 0 0 0, ct_dst = UA 0x0200000A 0 0 0, ct_bytes = bytes\<rparr>"

lemma demo_packet_family: "demo_packet len = (AF_INET, snd (demo_packet len))"
  by (simp add: demo_packet_def)

lemma demo_entry:
  "packet_entry AF_INET (snd (demo_packet 60)) zero_traffic demo_collector = Some (demo_traffic 60)"
  "packet_entry AF_INET (snd (demo_packet 100)) zero_traffic demo_collector = Some (demo_traffic 100)"
  by (simp_all add: packet_simps demo_packet_def zero_traffic_def demo_collector_def demo_traffic_def)

lemma demo_unfiltered: "collect_family demo_collector = AF_UNSPEC"
  by (simp add: demo_collector_def)

lemma demo_adds:
  "packet_adds demo_collector demo_traffic_key (demo_packet 60) = 60"
  "packet_adds demo_collector demo_traffic_key (demo_packet 100) = 100"
proof -
  have "packet_adds demo_collector demo_traffic_key (AF_INET, snd (demo_packet 60)) = 60"
    "packet_adds demo_collector demo_traffic_key (AF_INET, snd (demo_packet 100)) = 100"
    by (simp_all add: packet_adds_def wanted_def ip_family_def demo_entry traffic_key_def addr_key_def demo_traffic_key_def
        demo_traffic_def demo_unfiltered)
  then show "packet_adds demo_collector demo_traffic_key (demo_packet 60) = 60"
    "packet_adds demo_collector demo_traffic_key (demo_packet 100) = 100"
    by (simp_all only: demo_packet_family[symmetric])
qed

lemma demo_collected:
  "\<exists>w1. collect_all [demo_packet 60, demo_packet 100] (snd (collect_init True demo_collector)) = Some w1 \<and> ct_count w1 = 1"
  by (simp add: demo_packet_def collect_def packet_simps collect_init_def sys_time_def sys_gettimeofday_def sys_alloc_def
      next_outcome_def demo_collector_def zero_traffic_def book_entry_def RB_INSERT_def slot_compare_def ct_entry_compare_def
      num_diff_def word_diff_def)

theorem no_byte_lost_witness:
  "\<exists>w1 w2 es stop. collect_all [demo_packet 60, demo_packet 100] (snd (collect_init True demo_collector)) = Some w1 \<and>
    collect_dump ''em0'' False False False w1 = (int (length es), w2) \<and>
    contents w2 ''cnupm-em0.dump'' = encode_header (dump_header stop w1) @ concat (map dumped_entry es) \<and>
    entries_sum demo_traffic_key es = 160"
proof -
  let ?ps = "[demo_packet 60, demo_packet 100]"
  let ?w0 = "snd (collect_init True demo_collector)"
  have init: "collect_init True demo_collector = (0, ?w0)"
    by (simp add: collect_init_def sys_time_def sys_gettimeofday_def sys_alloc_def next_outcome_def demo_collector_def)
  obtain w1 where w1: "collect_all ?ps ?w0 = Some w1" "ct_count w1 = 1" using demo_collected by blast
  then have n: "ct_count w1 \<noteq> 0" by simp
  have name: "fst (dump_name ''em0'' False w1) = ''cnupm-em0.dump''"
  proof -
    have "printf ''cnupm-%s.dump'' [AS ''em0''] = ''cnupm-em0.dump''" by code_simp
    then show ?thesis by (simp add: dump_name_def)
  qed
  obtain rc w2 where d: "collect_dump ''em0'' False False False w1 = (rc, w2)" by fastforce
  have pre: "length ?ps \<le> ct_max demo_collector" "no_short demo_collector" "0 \<le> nextfd demo_collector"
    "no_faults demo_collector" "contents demo_collector ''cnupm-em0.dump'' = []"
    by (simp_all add: demo_collector_def no_short_def no_faults_def contents_def)
  have sum: "sum_list (map (packet_adds demo_collector demo_traffic_key) ?ps) = 160" by (simp add: demo_adds)
  from no_byte_lost[OF init w1(1) pre(1) d pre(2,3) refl, unfolded name] obtain es out where t:
    "contents w2 ''cnupm-em0.dump'' = contents demo_collector ''cnupm-em0.dump'' @ out"
    "out = [] \<and> es = [] \<or> (\<exists>stop. out = encode_header (dump_header stop w1) @ concat (map dumped_entry es))"
    "\<forall>k. entries_sum k es + entries_sum k (map (ct_slots w2) (rb_inorder (ct_head w2))) =
       sum_list (map (packet_adds demo_collector k) ?ps)"
    "0 \<le> rc \<longrightarrow> rc = int (length es)" "0 \<le> rc \<and> (ct_count w1 \<noteq> 0 \<or> False) \<longrightarrow> ct_head w2 = RbNil"
    "no_faults demo_collector \<and> length ''cnupm-em0.dump'' < 1024 \<longrightarrow> 0 \<le> rc"
    by (elim exE conjE) (rule that)
  have rc: "0 \<le> rc" using t(6) pre(4) by simp
  have r: "contents w2 ''cnupm-em0.dump'' = out" "rc = int (length es)" "ct_head w2 = RbNil"
    using t(1,4,5) rc pre(5) n by simp_all
  have sum': "entries_sum demo_traffic_key es = 160"
    using spec[OF t(3), of demo_traffic_key] r(3) sum by (simp add: entries_sum_def)
  then have "es \<noteq> []" by (auto simp: entries_sum_def)
  with r(1) t(2) obtain stop where
    "contents w2 ''cnupm-em0.dump'' = encode_header (dump_header stop w1) @ concat (map dumped_entry es)" by metis
  with w1(1) d r(2) sum' show ?thesis by (intro exI[of _ w1] exI[of _ w2] exI[of _ es] exI[of _ stop]) simp
qed

end
