(* ===== verification/Spec2Isabelle.thy ===== *)
theory Spec2Isabelle
  imports Shell PtrLists TraffTotal Beeipf Ipchk Parser G3cWrite Collect
begin

text \<open>
  A verification library for the billing system \<open>bee\<close> (\<open>src/src/bee\<close>), which sells network traffic:
  collectors report traffic, the core books it on accounts and decides which addresses may pass,
  rulers turn that decision into packet filter rules.  This theory imports all others; each of
  them opens with what it holds.

  \<^bold>\<open>The program and its parts.\<close>  Clients (collectors, operators) open a session with the core and
  send command lines.  The core (\<open>core/core.c\<close>, \<open>core/command.c\<close>) reads a line, substitutes its
  variables, finds the command in a table, checks the rights of the session and runs the handler.
  Handlers work on three bases: the account base and the transaction log, both files of fixed-size
  records with checksums (\<open>lib/db\<close>), and the gate table, a text file that binds an identifier of a
  resource (an address, a mail box) to an account.  Prices come from a configuration file with
  tariff plans.  A transaction reads the account under an exclusive lock, computes the sum, writes
  the account and appends a log record.  The access update walks all gates and writes, for each
  resource, the list of those that are allowed.

  Around the core stand programs of their own.  Collectors (\<open>modules/traff*\<close>) read the counters of the
  system and report each address to the core.  Rulers (\<open>rulers\<close>), started by the core, turn the written
  lists into the access list of a router or into filter rules.  Utilities (\<open>utils\<close>) index the log, make
  reports of it, filter and sort files of traffic records, check addresses against lists, and talk to
  the core for an operator or a user.

  \<^bold>\<open>Theories and code.\<close>
  \<^item> \<open>Prelude\<close>, \<open>Double\<close>, \<open>LongDouble\<close>, \<open>Printf\<close>, \<open>Getopt\<close>: the C language and library as the sources use
    them: integers of the target (i386, so \<open>int\<close> and \<open>long\<close> have 32 bits), IEEE doubles as bit patterns with exact
    rounding, the \<open>long double\<close> of its floating point unit, \<open>strsep\<close>, \<open>strtol\<close>, \<open>printf\<close>, \<open>getopt\<close>.
    \<open>Sums\<close>: lists with one sum for each key, proved once for all programs that add up.
  \<^item> \<open>Unix\<close>: files, descriptors, locks, clock.  Every call that may fail takes its fate from a
    script, so a theorem for all scripts is a theorem for all failing and partial calls.
  \<^item> \<open>Strings\<close>, \<open>Timer\<close>, \<open>G3c\<close>, \<open>G3cWrite\<close>, \<open>Arrays\<close>, \<open>PtrLists\<close>: the support library \<open>lib/bee\<close> (\<open>beelib.c misc.c
    recode.c timer.c g3c.c da.c lists.c\<close>); \<open>G3c\<close> reads and \<open>G3cWrite\<close> changes and writes configurations.
  \<^item> \<open>RecFile\<close>, \<open>Frame\<close>, \<open>TransLog\<close>, \<open>Accounts\<close>: the record files \<open>lib/db/db.c log.c acc.c\<close>; \<open>Frame\<close> says what
    an operation leaves unchanged whatever fails.
  \<^item> \<open>Links\<close>, \<open>GateFile\<close>: the gates \<open>lib/db/links.c res.c\<close> and their file.
  \<^item> \<open>Tariffs\<close>, \<open>Conf\<close>: the plans \<open>lib/db/tariffs.c\<close> and the prices of \<open>core/res.c\<close>; the settings of the
    programs \<open>lib/db/conf.c\<close>, \<open>core/sqlcfg.c\<close>.
  \<^item> \<open>Core\<close>, \<open>Access\<close>: the transactions and the access update of \<open>core/core.c\<close>.
  \<^item> \<open>Ipc\<close>: the line protocol \<open>lib/ipc/ipc.c\<close>, for both ends.
  \<^item> \<open>Output\<close>, \<open>Args\<close>, \<open>AccCommands\<close>, \<open>Traffic\<close>, \<open>GateCommands\<close>, \<open>Reports\<close>, \<open>Cards\<close>, \<open>Shell\<close>: the session,
    its commands and its loop (\<open>core/command.c\<close>, \<open>core/queries.c\<close>, session parts of \<open>core/core.c\<close>).
  \<^item> \<open>Clients\<close> (\<open>utils/acc_on acc_off ip2acc getacc2\<close>), \<open>Consoles\<close> (\<open>utils/getacc clubctl\<close>): the other end of a session.
  \<^item> \<open>Beetraff\<close> (\<open>modules/traff\<close>), \<open>TraffTotal\<close> (\<open>modules/traff-total\<close>): the collectors.
  \<^item> \<open>Rulers\<close> (\<open>rulers/mkacl\<close>), \<open>Beeipf\<close> (\<open>rulers/traff/beeipf.c\<close>): the rulers.
  \<^item> \<open>LogIndex\<close> (\<open>utils/logidx\<close>), \<open>Beerep\<close> (\<open>utils/beerep\<close>): the index of the log and the reports made with it.
  \<^item> \<open>Datsort\<close> (\<open>utils/datsort\<close>), \<open>Parser\<close> (\<open>utils/cnupm-parser\<close>), \<open>Ipchk\<close> (\<open>utils/ipchk\<close>): tools for files of traffic
    records and for lists of addresses.
  \<^item> \<open>RbTree\<close> (\<open>cnupm/include/sys/tree.h\<close>), \<open>Aggregate\<close> (\<open>cnupm/cnupm/aggr_port.c\<close>), \<open>Collect\<close>
    (\<open>cnupm/cnupm/collect.c\<close>): the collector \<open>cnupm\<close>, whose files \<open>Parser\<close> and \<open>Datsort\<close> work on.

  The state is one record that each layer extends: \<open>os\<close> (files, descriptors, script), \<open>dbs\<close> (the read
  cache of \<open>db.c\<close>), \<open>gates\<close>, tariffs and configuration, \<open>access\<close>, \<open>ipc\<close> (the connection), \<open>session\<close>.
  Operations take and return it, named as in the sources.

  \<^bold>\<open>What the lemmas show.\<close>
  \<^item> Records: encodings are inverse; a torn write harms at most the record addressed or the tail;
    locks are released on all paths; a record is used only when its checksum is right.
  \<^item> Transactions: the balances are the replay of the log; payments and traffic book what they
    should, in the counters they should; failures release the locks.
  \<^item> Gates: networks stay disjoint, user numbers fresh, the file is read back as written; the access lists
    split the gates of the accounts of the base.
  \<^item> Plans: the search for the effective plan ends; limits and charges have the stated values.
  \<^item> Sessions: commands refine record edits; a session without rights is always answered,
    changes nothing and ends.
  \<^item> Support: a dynamic array is a list, the sorts sort (and end), the search finds; a position in a
    configuration stays a path in its tree as long as no step writes behind its stacks, and a configuration without
    subsections and with plain names and values is read back as written.
  \<^item> Collectors: no byte is lost between the counters and the commands, and the core books what is reported.
  \<^item> Rulers: the commands for the router are the difference of the lists; the filter file is its source
    with the rules of all hosts in one place.
  \<^item> Log: the index covers every record asked for that has a right checksum; a report takes one pass and holds
    the sums of all records it is about.
  \<^item> Traffic files: the filter reads back what it saved; its summary has each address once with its sums; both are
    about the records in front of the first one behind the time asked for, where it stops; the address checker decides as its list says.
  \<^item> \<open>cnupm\<close>: its trees stay balanced and in order; the narrowest group decides a port; each byte of a packet is
    in the file or still in memory, whichever call fails while the counters are written.

  \<^bold>\<open>Bounds and fuel.\<close>  The search for a plan stops itself after 257 switches (\<open>tariff_loop\<close> counts as the
  code does).  Loops over texts and connections shrink what is still to be read.  The sort of
  \<open>da.c\<close> is a partial function that is proved to end.  Other loops count towards a known bound.
  Where the C code is undefined (a buffer or a signed number overrun) the result is \<open>None\<close>, and
  theorems that promise \<open>Some\<close> say that this does not happen.

  \<^bold>\<open>Parameters.\<close>  \<open>crc32\<close> of zlib, the calendar of the C library (\<open>localtime\<close>, \<open>timelocal\<close>), the clock, bytes of
  fresh memory, what \<open>printf\<close> makes of a stray directive, outcomes of system calls, programs the
  core starts, answers of the SQL server and of the name service, the text other programs write into a
  pipe, and random numbers are fields of the state or arguments; no property assumes more of them than it states.

  \<^bold>\<open>Not modelled.\<close>  The start of the core (\<open>main\<close> of \<open>core/core.c\<close>: signals, the daemon, sockets and
  child processes), messages to \<open>syslog\<close> and standard error (\<open>log.c\<close>), the socket calls of \<open>netio.c\<close> and of
  the connection; the SQL client libraries (not part of the sources) and their wrappers in \<open>lib/sql\<close>;
  the tunnel \<open>prox\<close> and the full-screen client \<open>payman\<close> (C++); of \<open>cnupm\<close> its main loop, the
  headers of the link layer (\<open>datalinks.c\<close>) and the printer \<open>cnupmstat\<close>.  Outside
  the billing: kernel modules, the collector \<open>ipstatd\<close>, the IRC bot, network daemons and third-party code (libalias, ALTQ).
\<close>

end
